(* ===== verification/NosePrelude.thy ===== *)
theory NosePrelude
  imports Main "HOL-Library.Word"
begin

text \<open>
  The vocabulary the component theories share: bytes and fixed-width words, the
  HRESULT codes of \<open>common/hresult.h\<close>, the \<open>Chk\<close> macros of \<open>common/chkmacros.h\<close> as
  combinators on a result paired with a state, network byte order, and the generic
  lemmas on lists and words that the component proofs use.
  A \<open>size_t\<close> is a \<open>nat\<close> (every sum of sizes in the code is a sum of lengths of objects
  in memory); wire fields and flags keep their width.
\<close>

unbundle bit_operations_syntax

named_theorems hr_defs \<open>the numeric values of the HRESULT codes\<close>
named_theorems stun_consts \<open>the numeric values of the protocol constants\<close>

type_synonym byte = "8 word"
type_synonym bytes = "8 word list"
type_synonym u16 = "16 word"
type_synonym u32 = "32 word"
type_synonym u64 = "64 word"
type_synonym hresult = "32 word"

section \<open>HRESULT codes\<close>

text \<open>\<open>SUCCEEDED\<close> and \<open>FAILED\<close> read the code as a signed 32-bit integer.\<close>

definition SUCCEEDED :: "hresult \<Rightarrow> bool" where
  "SUCCEEDED hr = (0 \<le> sint hr)"

definition FAILED :: "hresult \<Rightarrow> bool" where
  "FAILED hr = (sint hr < 0)"

definition S_OK :: hresult where [hr_defs]: "S_OK = 0"
definition S_FALSE :: hresult where [hr_defs]: "S_FALSE = 1"
definition E_UNEXPECTED :: hresult where [hr_defs]: "E_UNEXPECTED = 0x8000FFFF"
definition E_OUTOFMEMORY :: hresult where [hr_defs]: "E_OUTOFMEMORY = 0x8007000E"
definition E_INVALIDARG :: hresult where [hr_defs]: "E_INVALIDARG = 0x80070057"
definition E_FAIL :: hresult where [hr_defs]: "E_FAIL = 0x80004005"

lemma SUCCEEDED_iff_not_FAILED: "SUCCEEDED hr \<longleftrightarrow> \<not> FAILED hr"
  by (auto simp: SUCCEEDED_def FAILED_def)

lemma FAILED_codes [simp]:
  "\<not> FAILED S_OK" "\<not> FAILED S_FALSE" "\<not> FAILED 0" "\<not> FAILED 1" "FAILED E_UNEXPECTED"
  "FAILED E_OUTOFMEMORY" "FAILED E_INVALIDARG" "FAILED E_FAIL"
  by (simp_all add: FAILED_def hr_defs)

lemma SUCCEEDED_codes [simp]:
  "SUCCEEDED S_OK" "SUCCEEDED S_FALSE" "SUCCEEDED 0" "SUCCEEDED 1" "\<not> SUCCEEDED E_UNEXPECTED"
  "\<not> SUCCEEDED E_OUTOFMEMORY" "\<not> SUCCEEDED E_INVALIDARG" "\<not> SUCCEEDED E_FAIL"
  by (simp_all add: SUCCEEDED_iff_not_FAILED)

lemma hr_distinct [simp]:
  "S_OK \<noteq> S_FALSE" "S_FALSE \<noteq> S_OK" "S_OK \<noteq> E_FAIL" "E_FAIL \<noteq> S_OK" "S_OK \<noteq> E_INVALIDARG"
  "E_INVALIDARG \<noteq> S_OK" "S_OK \<noteq> E_UNEXPECTED" "E_UNEXPECTED \<noteq> S_OK"
  "E_FAIL \<noteq> E_INVALIDARG" "E_INVALIDARG \<noteq> E_FAIL" "E_FAIL \<noteq> E_UNEXPECTED"
  "E_UNEXPECTED \<noteq> E_FAIL" "E_INVALIDARG \<noteq> E_UNEXPECTED" "E_UNEXPECTED \<noteq> E_INVALIDARG"
  by (simp_all add: hr_defs)

text \<open>
  \<open>Chk(e)\<close> runs \<open>e\<close>, keeps its code in \<open>hr\<close> and jumps to \<open>Cleanup\<close> when the code is a
  failure. On a code paired with the state after \<open>e\<close> this is \<open>chk\<close>: the continuation
  runs only after a success. The code of a chain is the code of the last call it made.
\<close>

definition chk :: "hresult \<times> 's \<Rightarrow> ('s \<Rightarrow> hresult \<times> 's) \<Rightarrow> hresult \<times> 's" where
  "chk r k = (if FAILED (fst r) then r else k (snd r))"

lemma chk_success [simp]: "\<not> FAILED hr \<Longrightarrow> chk (hr, s) k = k s"
  by (simp add: chk_def)

lemma chk_failure [simp]: "FAILED hr \<Longrightarrow> chk (hr, s) k = (hr, s)"
  by (simp add: chk_def)

lemma chk_assoc: "chk (chk r k) m = chk r (\<lambda>s. chk (k s) m)"
  by (simp add: chk_def)

text \<open>\<open>ok_state r s\<close>: the call succeeded and left the state \<open>s\<close>.\<close>

definition ok_state :: "hresult \<times> 's \<Rightarrow> 's \<Rightarrow> bool" where
  "ok_state r s \<longleftrightarrow> \<not> FAILED (fst r) \<and> snd r = s"

section \<open>Network byte order\<close>

text \<open>
  The code writes \<open>htons(x)\<close> and \<open>htonl(x)\<close> to memory and reads them back through
  \<open>ntohs\<close> and \<open>ntohl\<close>. In memory both are the big-endian bytes of \<open>x\<close>, whatever the host
  order; \<open>be16\<close>, \<open>of_be16\<close>, \<open>be32\<close>, \<open>of_be32\<close> are these memory images. A value stored
  without conversion is \<open>host16\<close>, for the little-endian hosts the program is built for.
\<close>

definition be16 :: "u16 \<Rightarrow> bytes" where
  "be16 x = [ucast (drop_bit 8 x), ucast x]"

definition host16 :: "u16 \<Rightarrow> bytes" where
  "host16 x = [ucast x, ucast (drop_bit 8 x)]"

definition be32 :: "u32 \<Rightarrow> bytes" where
  "be32 x = [ucast (drop_bit 24 x), ucast (drop_bit 16 x), ucast (drop_bit 8 x), ucast x]"

definition of_be16 :: "bytes \<Rightarrow> u16" where
  "of_be16 bs = push_bit 8 (ucast (bs ! 0)) OR ucast (bs ! 1)"

definition of_be32 :: "bytes \<Rightarrow> u32" where
  "of_be32 bs = push_bit 24 (ucast (bs ! 0)) OR push_bit 16 (ucast (bs ! 1))
     OR push_bit 8 (ucast (bs ! 2)) OR ucast (bs ! 3)"

lemma length_be [simp]: "length (be16 x) = 2" "length (be32 y) = 4" "length (host16 x) = 2"
  by (simp_all add: be16_def be32_def host16_def)

lemma be_not_Nil [simp]: "be16 x \<noteq> []" "be32 y \<noteq> []" "host16 x \<noteq> []"
  by (simp_all add: be16_def be32_def host16_def)

lemma of_be16_be16 [simp]: "of_be16 (be16 x @ ys) = x"
  by (rule bit_word_eqI) (auto simp: of_be16_def be16_def bit_simps)

lemma of_be32_be32 [simp]: "of_be32 (be32 x @ ys) = x"
proof (rule bit_word_eqI)
  fix n :: nat
  assume n: "n < LENGTH(32)"
  then consider "n < 8" | "8 \<le> n" "n < 16" | "16 \<le> n" "n < 24" | "24 \<le> n" "n < 32"
    by force
  then show "bit (of_be32 (be32 x @ ys)) n = bit x n"
    by cases (use n in \<open>auto simp: of_be32_def be32_def bit_simps\<close>)
qed

lemma of_be16_be16_nil [simp]: "of_be16 (be16 x) = x"
  using of_be16_be16 [of x "[]"] by simp

lemma of_be32_be32_nil [simp]: "of_be32 (be32 x) = x"
  using of_be32_be32 [of x "[]"] by simp

lemma be16_of_be16:
  assumes "length bs = 2"
  shows "be16 (of_be16 bs) = bs"
proof -
  from assms obtain a b where bs: "bs = [a, b]"
    by (auto simp: length_Suc_conv numeral_2_eq_2)
  have high: "\<not> bit b (8 + n)" for n
    using bit_imp_le_length [of b "8 + n"] by auto
  have "ucast (drop_bit 8 (of_be16 [a, b])) = a" "ucast (of_be16 [a, b]) = b"
    by (auto intro!: bit_word_eqI simp: of_be16_def bit_simps high)
  then show ?thesis
    by (simp add: bs be16_def)
qed

lemma be32_of_be32:
  assumes "length bs = 4"
  shows "be32 (of_be32 bs) = bs"
proof -
  from assms obtain a b c d where bs: "bs = [a, b, c, d]"
    by (auto simp: length_Suc_conv numeral_eq_Suc)
  have high: "\<not> bit x n" if "8 \<le> n" for x :: byte and n
    using bit_imp_le_length [of x n] that by auto
  have "ucast (drop_bit 24 (of_be32 [a, b, c, d])) = a" "ucast (drop_bit 16 (of_be32 [a, b, c, d])) = b"
    "ucast (drop_bit 8 (of_be32 [a, b, c, d])) = c" "ucast (of_be32 [a, b, c, d]) = d"
    by (auto intro!: bit_word_eqI simp: of_be32_def bit_simps high)
  then show ?thesis
    by (simp add: bs be32_def)
qed

lemma unat_word16: "n < 2 ^ 16 \<Longrightarrow> unat (word_of_nat n :: u16) = n"
  by (simp add: unat_of_nat)

section \<open>Lists\<close>

text \<open>\<open>splice_at d n bs\<close>: \<open>memcpy\<close> of \<open>bs\<close> into the memory \<open>d\<close> at offset \<open>n\<close>.\<close>

definition splice_at :: "'a list \<Rightarrow> nat \<Rightarrow> 'a list \<Rightarrow> 'a list" where
  "splice_at d n bs = take n d @ bs @ drop (n + length bs) d"

text \<open>\<open>segment d n k\<close>: the \<open>k\<close> elements of \<open>d\<close> from offset \<open>n\<close>.\<close>

definition segment :: "'a list \<Rightarrow> nat \<Rightarrow> nat \<Rightarrow> 'a list" where
  "segment d n k = take k (drop n d)"

lemma length_splice_at [simp]: "n + length bs \<le> length d \<Longrightarrow> length (splice_at d n bs) = length d"
  by (simp add: splice_at_def)

lemma splice_at_end [simp]: "n = length d \<Longrightarrow> splice_at d n bs = d @ bs"
  by (simp add: splice_at_def)

lemma take_splice_at:
  "n + length bs \<le> length d \<Longrightarrow> m \<le> length d \<Longrightarrow> n \<le> m \<Longrightarrow>
   take (max m (n + length bs)) (splice_at d n bs) = splice_at (take m d) n bs"
  by (auto simp: splice_at_def max_def min_def take_drop)

lemma length_segment [simp]: "n + k \<le> length d \<Longrightarrow> length (segment d n k) = k"
  by (simp add: segment_def)

lemma segment_append_left: "n + k \<le> length xs \<Longrightarrow> segment (xs @ ys) n k = segment xs n k"
  by (simp add: segment_def)

lemma segment_append_right: "length xs \<le> n \<Longrightarrow> segment (xs @ ys) n k = segment ys (n - length xs) k"
  by (simp add: segment_def)

lemma segment_whole [simp]: "segment xs 0 (length xs) = xs"
  by (simp add: segment_def)

lemma segment_take: "n + k \<le> m \<Longrightarrow> segment (take m d) n k = segment d n k"
  by (simp add: segment_def drop_take min_def)

end
