(* ===== verification/NoseC.thy ===== *)
theory NoseC imports NosePrelude begin

text \<open>
  What the C program under src/src uses of its language and of libc: the outcome of a call, which
  may be a value, a wait that never ends, or undefined behaviour; character arrays with \<open>memcpy\<close>,
  \<open>strncpy\<close>, \<open>strlen\<close> and \<open>strcmp\<close>; the byte order of the host, which is little-endian; and the
  conversions \<open>inet_addr\<close>, \<open>inet_ntoa\<close> and \<open>atoi\<close>.  A block from \<open>malloc\<close> or a local variable that is
  not initialised is an argument, whose value the theorems leave open.
\<close>

section \<open>Outcomes\<close>

datatype 'a outcome = Done 'a | Blocked | Undefined

primrec bindO :: "'a outcome \<Rightarrow> ('a \<Rightarrow> 'b outcome) \<Rightarrow> 'b outcome" where
  "bindO (Done x) k = k x"
| "bindO Blocked k = Blocked"
| "bindO Undefined k = Undefined"

definition defined :: "'a outcome \<Rightarrow> bool" where
  "defined r \<longleftrightarrow> r \<noteq> Undefined"

lemma defined_simps [simp]: "defined (Done x)" "defined Blocked" "\<not> defined Undefined"
  by (simp_all add: defined_def)

lemma bindO_assoc: "bindO (bindO m k) h = bindO m (\<lambda>x. bindO (k x) h)"
  by (cases m) simp_all

lemma bindO_Done_iff: "bindO m k = Done y \<longleftrightarrow> (\<exists>x. m = Done x \<and> k x = Done y)"
  by (cases m) simp_all

text \<open>The return codes of nose.h.\<close>

definition OK :: int where [simp]: "OK = 1"
definition C_FAILED :: int where [simp]: "C_FAILED = 0"
definition C_ERROR :: int where [simp]: "C_ERROR = -1"

text \<open>An \<open>int\<close> that is compared with a \<open>size_t\<close> is converted to 64 unsigned bits first.\<close>

definition as_size :: "int \<Rightarrow> nat" where
  "as_size n = nat (n mod 2 ^ 64)"

lemma as_size_nat: "0 \<le> n \<Longrightarrow> n < 2 ^ 64 \<Longrightarrow> as_size n = nat n"
  by (simp add: as_size_def)

lemma as_size_neg: "as_size (-1) = 2 ^ 64 - 1"
  by (simp add: as_size_def)

section \<open>Character arrays\<close>

text \<open>\<open>memcpy\<close> of \<open>n\<close> bytes of \<open>src\<close> into the array \<open>dst\<close> at an offset.\<close>

definition c_memcpy :: "bytes \<Rightarrow> nat \<Rightarrow> bytes \<Rightarrow> nat \<Rightarrow> bytes outcome" where
  "c_memcpy dst off src n =
     (if off + n \<le> length dst \<and> n \<le> length src then Done (splice_at dst off (take n src)) else Undefined)"

text \<open>The characters of an array before its terminator.\<close>

definition c_str :: "bytes \<Rightarrow> bytes" where
  "c_str s = takeWhile (\<lambda>b. b \<noteq> 0) s"

definition is_str :: "bytes \<Rightarrow> bool" where
  "is_str s \<longleftrightarrow> 0 \<in> set s"

definition c_string_length :: "bytes \<Rightarrow> nat outcome" where
  "c_string_length s = (if is_str s then Done (length (c_str s)) else Undefined)"

text \<open>\<open>strcmp(a, b) == 0\<close>: the comparison ends at the first difference or terminator.\<close>

fun c_streq :: "bytes \<Rightarrow> bytes \<Rightarrow> bool outcome" where
  "c_streq (x # xs) (y # ys) = (if x \<noteq> y then Done False else if x = 0 then Done True else c_streq xs ys)"
| "c_streq _ _ = Undefined"

text \<open>\<open>strncpy\<close> reads up to the terminator or \<open>n\<close> bytes, and writes \<open>n\<close> bytes.\<close>

definition c_strncpy :: "bytes \<Rightarrow> bytes \<Rightarrow> nat \<Rightarrow> bytes outcome" where
  "c_strncpy dst src n =
     (let s = take n (c_str src) in
      if n \<le> length dst \<and> (is_str src \<or> n \<le> length src)
      then Done (splice_at dst 0 (s @ replicate (n - length s) 0)) else Undefined)"

text \<open>\<open>a[i] = c\<close>\<close>

definition c_put :: "bytes \<Rightarrow> nat \<Rightarrow> byte \<Rightarrow> bytes outcome" where
  "c_put a i c = (if i < length a then Done (a[i := c]) else Undefined)"

text \<open>\<open>n\<close> bytes of an array, read as a struct.\<close>

definition c_read :: "bytes \<Rightarrow> nat \<Rightarrow> nat \<Rightarrow> bytes outcome" where
  "c_read a off n = (if off + n \<le> length a then Done (segment a off n) else Undefined)"

text \<open>\<open>malloc(n)\<close>: NULL, or \<open>n\<close> bytes with arbitrary contents.\<close>

type_synonym junk = "nat \<Rightarrow> byte"

definition c_malloc :: "nat \<Rightarrow> junk option \<Rightarrow> bytes option" where
  "c_malloc n mem = map_option (\<lambda>junk. map junk [0..<n]) mem"

lemma c_malloc_simps [simp]: "c_malloc n None = None" "c_malloc n (Some junk) = Some (map junk [0..<n])"
  by (simp_all add: c_malloc_def)

lemma c_read_ok [simp]: "off + n \<le> length a \<Longrightarrow> c_read a off n = Done (segment a off n)"
  by (simp add: c_read_def)

lemma c_memcpy_ok [simp]:
  "off + n \<le> length dst \<Longrightarrow> n \<le> length src \<Longrightarrow> c_memcpy dst off src n = Done (splice_at dst off (take n src))"
  by (simp add: c_memcpy_def)

lemma c_put_ok [simp]: "i < length a \<Longrightarrow> c_put a i c = Done (a[i := c])"
  by (simp add: c_put_def)

lemma c_string_length_ok [simp]: "is_str s \<Longrightarrow> c_string_length s = Done (length (c_str s))"
  by (simp add: c_string_length_def)

lemma c_str_no_zero [simp]: "0 \<notin> set (c_str s)"
  by (auto simp: c_str_def dest: set_takeWhileD)

lemma c_str_id: "0 \<notin> set s \<Longrightarrow> c_str s = s"
  by (auto simp: c_str_def takeWhile_eq_all_conv)

lemma c_str_append_zero [simp]: "0 \<notin> set s \<Longrightarrow> c_str (s @ 0 # t) = s"
  by (induction s) (auto simp: c_str_def)

lemma is_str_append_zero [simp]: "is_str (s @ 0 # t)"
  by (simp add: is_str_def)

lemma is_str_split: "is_str s \<Longrightarrow> \<exists>t. s = c_str s @ 0 # t"
  unfolding is_str_def c_str_def
  by (induction s) (auto split: if_splits)

lemma c_str_cases:
  assumes "is_str s"
  obtains t where "s = c_str s @ 0 # t"
  using is_str_split [OF assms] by blast

lemma length_c_str: "is_str s \<Longrightarrow> length (c_str s) < length s"
  by (erule c_str_cases) (metis add_Suc_right length_append length_Cons less_add_Suc1)

lemma is_str_drop: "is_str (drop n s) \<Longrightarrow> is_str s"
  by (auto simp: is_str_def dest: in_set_dropD)

lemma c_streq_str: "is_str a \<Longrightarrow> is_str b \<Longrightarrow> c_streq a b = Done (c_str a = c_str b)"
  by (induction a b rule: c_streq.induct) (auto simp: is_str_def c_str_def)

lemma take_last_zero:
  assumes "length a = Suc n" "a ! n = 0"
  shows "is_str a" "c_str a = c_str (take n a)"
proof -
  have a: "a = take n a @ [0]"
    using assms by (metis Suc_n_not_le_n linorder_not_le order_refl take_Suc_conv_app_nth take_all)
  then show "is_str a"
    by (metis is_str_append_zero)
  show "c_str a = c_str (take n a)"
  proof (cases "0 \<in> set (take n a)")
    case True
    then show ?thesis
      by (subst a) (auto simp: c_str_def takeWhile_append1)
  next
    case False
    then show ?thesis
      by (subst a) (simp add: c_str_id)
  qed
qed

section \<open>The host's byte order\<close>

definition of_host16 :: "bytes \<Rightarrow> u16" where
  "of_host16 bs = ucast (bs ! 0) OR push_bit 8 (ucast (bs ! 1))"

definition host32 :: "u32 \<Rightarrow> bytes" where
  "host32 x = rev (be32 x)"

definition of_host32 :: "bytes \<Rightarrow> u32" where
  "of_host32 bs = of_be32 (rev (take 4 bs))"

text \<open>\<open>htons\<close> and \<open>ntohs\<close> swap the two bytes.\<close>

definition htons :: "u16 \<Rightarrow> u16" where
  "htons x = of_host16 (be16 x)"

lemma of_host16_host16 [simp]: "of_host16 (host16 x @ ys) = x"
  by (rule bit_word_eqI) (auto simp: of_host16_def host16_def bit_simps)

lemma of_host16_host16_nil [simp]: "of_host16 (host16 x) = x"
  using of_host16_host16 [of x "[]"] by simp

lemma length_host32 [simp]: "length (host32 x) = 4"
  by (simp add: host32_def)

lemma of_host32_host32 [simp]: "of_host32 (host32 x @ ys) = x"
  by (simp add: of_host32_def host32_def)

lemma of_host32_host32_nil [simp]: "of_host32 (host32 x) = x"
  using of_host32_host32 [of x "[]"] by simp

lemma host16_of_host16:
  assumes "length bs = 2"
  shows "host16 (of_host16 bs) = bs"
proof -
  obtain a b where bs: "bs = [a, b]"
    using assms by (auto simp: length_Suc_conv numeral_2_eq_2)
  have "of_host16 [a, b] = of_be16 [b, a]"
    by (simp add: of_host16_def of_be16_def or.commute)
  then show ?thesis
    using be16_of_be16 [of "[b, a]"] by (simp add: bs host16_def be16_def)
qed

lemma host32_of_host32:
  assumes "length bs = 4"
  shows "host32 (of_host32 bs) = bs"
  using assms by (simp add: host32_def of_host32_def be32_of_be32)

lemma host16_htons [simp]: "host16 (htons x) = be16 x"
  by (simp add: htons_def host16_of_host16)

lemma htons_htons [simp]: "htons (htons x) = x"
proof -
  have "host16 (htons (htons x)) = host16 x"
    by (simp add: host16_def be16_def htons_def of_host16_def)
      (auto intro!: bit_word_eqI simp: bit_simps)
  then show ?thesis
    by (metis of_host16_host16_nil)
qed

lemma htons_eq_iff [simp]: "htons x = htons y \<longleftrightarrow> x = y"
  by (metis htons_htons)

lemma of_host16_be16 [simp]: "of_host16 (be16 x @ ys) = htons x"
  by (simp add: htons_def of_host16_def be16_def)

lemma of_host16_be16_nil [simp]: "of_host16 (be16 x) = htons x"
  using of_host16_be16 [of x "[]"] by simp

end
