(* ===== verification/NoseInet.thy ===== *)
theory NoseInet imports NoseC begin

text \<open>
  The libc conversions between addresses and their text: \<open>inet_ntoa\<close>, which writes dotted decimal
  notation, and \<open>inet_addr\<close>, which reads the notations with numbers and dots.  An address is the
  32-bit word in memory, whose first byte in memory is the first number.
\<close>

section \<open>inet\_ntoa\<close>

definition digit :: "nat \<Rightarrow> byte" where
  "digit n = of_nat (48 + n)"

definition octet_text :: "byte \<Rightarrow> bytes" where
  "octet_text b = (let n = unat b in
     if n < 10 then [digit n]
     else if n < 100 then [digit (n div 10), digit (n mod 10)]
     else [digit (n div 100), digit (n div 10 mod 10), digit (n mod 10)])"

definition dotted :: "bytes \<Rightarrow> bytes" where
  "dotted a = octet_text (a ! 0) @ 46 # octet_text (a ! 1) @ 46 # octet_text (a ! 2) @ 46 # octet_text (a ! 3)"

definition inet_ntoa :: "u32 \<Rightarrow> bytes" where
  "inet_ntoa addr = dotted (host32 addr) @ [0]"

section \<open>inet\_addr\<close>

definition is_digit :: "byte \<Rightarrow> bool" where
  "is_digit c \<longleftrightarrow> 48 \<le> c \<and> c \<le> 57"

definition is_space :: "byte \<Rightarrow> bool" where
  "is_space c \<longleftrightarrow> c = 32 \<or> 9 \<le> c \<and> c \<le> 13"

definition digit_value :: "byte \<Rightarrow> nat" where
  "digit_value c = (if is_digit c then unat c - 48
     else if 97 \<le> c \<and> c \<le> 102 then unat c - 87
     else if 65 \<le> c \<and> c \<le> 70 then unat c - 55 else 99)"

text \<open>The value of digits in a base, when all of them are digits of the base.\<close>

definition in_base :: "nat \<Rightarrow> bytes \<Rightarrow> nat option" where
  "in_base base s = (if s \<noteq> [] \<and> list_all (\<lambda>c. digit_value c < base) s
     then Some (foldl (\<lambda>v c. base * v + digit_value c) 0 s) else None)"

text \<open>A number: hexadecimal after 0x, octal after 0, decimal otherwise.\<close>

definition c_number :: "bytes \<Rightarrow> nat option" where
  "c_number s = (case s of
     [] \<Rightarrow> None
   | c # rest \<Rightarrow>
       if \<not> is_digit c then None
       else if c = 48 \<and> rest \<noteq> [] \<and> (hd rest = 120 \<or> hd rest = 88) then in_base 16 (tl rest)
       else if c = 48 then in_base 8 s
       else in_base 10 s)"

fun split_dots :: "bytes \<Rightarrow> bytes list" where
  "split_dots [] = [[]]"
| "split_dots (c # s) = (if c = 46 then [] # split_dots s else (c # hd (split_dots s)) # tl (split_dots s))"

text \<open>The numbers before the last are bytes of the address, the last fills the rest.\<close>

definition parts_addr :: "nat list \<Rightarrow> nat option" where
  "parts_addr ns = (case ns of
     [a] \<Rightarrow> if a < 2 ^ 32 then Some a else None
   | [a, b] \<Rightarrow> if a < 256 \<and> b < 2 ^ 24 then Some (a * 2 ^ 24 + b) else None
   | [a, b, c] \<Rightarrow> if a < 256 \<and> b < 256 \<and> c < 2 ^ 16 then Some (a * 2 ^ 24 + b * 2 ^ 16 + c) else None
   | [a, b, c, d] \<Rightarrow> if a < 256 \<and> b < 256 \<and> c < 256 \<and> d < 256
       then Some (a * 2 ^ 24 + b * 2 ^ 16 + c * 2 ^ 8 + d) else None
   | _ \<Rightarrow> None)"

definition INADDR_NONE :: u32 where
  "INADDR_NONE = 0xFFFFFFFF"

text \<open>
  The text ends at its terminator.  For an array without one, where the C function would read past the
  end, the value is that of the whole array; the texts in the buckets of a master peer end by its
  invariant (\<open>item_ok\<close>, \<open>vlans_ok\<close>), the others are strings of the configuration and results of \<open>inet_ntoa\<close>.
\<close>

definition inet_addr :: "bytes \<Rightarrow> u32" where
  "inet_addr cp = (let numbers = map c_number (split_dots (takeWhile (\<lambda>c. \<not> is_space c) (c_str cp))) in
     if None \<in> set numbers then INADDR_NONE
     else case parts_addr (map the numbers) of None \<Rightarrow> INADDR_NONE | Some a \<Rightarrow> of_host32 (be32 (of_nat a)))"

section \<open>Reading back what was written\<close>

lemma digit_facts [simp]:
  assumes "d < 10"
  shows "is_digit (digit d)" "digit_value (digit d) = d" "digit d \<noteq> 0" "digit d \<noteq> 46" "\<not> is_space (digit d)"
    "digit d \<noteq> 120" "digit d \<noteq> 88" "digit d = 48 \<longleftrightarrow> d = 0"
proof -
  have "d = 0 \<or> d = 1 \<or> d = 2 \<or> d = 3 \<or> d = 4 \<or> d = 5 \<or> d = 6 \<or> d = 7 \<or> d = 8 \<or> d = 9"
    using assms by presburger
  then show "is_digit (digit d)" "digit_value (digit d) = d" "digit d \<noteq> 0" "digit d \<noteq> 46" "\<not> is_space (digit d)"
    "digit d \<noteq> 120" "digit d \<noteq> 88" "digit d = 48 \<longleftrightarrow> d = 0"
    by (auto simp: digit_def is_digit_def digit_value_def is_space_def)
qed

definition dotless :: "bytes \<Rightarrow> bool" where
  "dotless t \<longleftrightarrow> list_all (\<lambda>c. c \<noteq> 0 \<and> c \<noteq> 46 \<and> \<not> is_space c) t"

lemma octet_text_facts:
  "c_number (octet_text b) = Some (unat b)" "dotless (octet_text b)" "length (octet_text b) \<le> 3"
proof -
  have b: "unat b < 256"
    using unsigned_less [of b] by simp
  consider "unat b < 10" | "10 \<le> unat b" "unat b < 100" | "100 \<le> unat b"
    by linarith
  then have "c_number (octet_text b) = Some (unat b) \<and> dotless (octet_text b) \<and> length (octet_text b) \<le> 3"
  proof cases
    case 1
    then show ?thesis
      by (auto simp: octet_text_def Let_def c_number_def in_base_def dotless_def)
  next
    case 2
    then have "0 < unat b div 10" "unat b div 10 < 10"
      by linarith+
    with 2 show ?thesis
      by (simp add: octet_text_def Let_def c_number_def in_base_def dotless_def)
  next
    case 3
    have q: "unat b div 100 = unat b div 10 div 10"
      by (simp add: div_mult2_eq [symmetric])
    have "10 * (10 * (unat b div 100) + unat b div 10 mod 10) + unat b mod 10 = unat b"
      unfolding q mult_div_mod_eq ..
    moreover have "0 < unat b div 100" "unat b div 100 < 10"
      using b 3 by linarith+
    ultimately show ?thesis
      using 3 by (simp add: octet_text_def Let_def c_number_def in_base_def dotless_def)
  qed
  then show "c_number (octet_text b) = Some (unat b)" "dotless (octet_text b)" "length (octet_text b) \<le> 3"
    by simp_all
qed

lemma split_dots_nonempty [simp]: "split_dots s \<noteq> []"
  by (induction s) simp_all

lemma split_dots_plain: "dotless t \<Longrightarrow> split_dots t = [t]"
  by (induction t) (simp_all add: dotless_def)

lemma split_dots_append: "dotless t \<Longrightarrow> split_dots (t @ 46 # s) = t # split_dots s"
  by (induction t) (simp_all add: dotless_def)

lemma split_dots_dotted: "split_dots (dotted a) = map octet_text [a ! 0, a ! 1, a ! 2, a ! 3]"
  by (simp add: dotted_def split_dots_append split_dots_plain octet_text_facts(2))

lemma dotted_chars: "\<forall>c \<in> set (dotted a). c \<noteq> 0 \<and> \<not> is_space c"
proof -
  have "c \<noteq> 0 \<and> \<not> is_space c" if "c \<in> set (octet_text b)" for c b
    using octet_text_facts(2) [of b] that by (auto simp: dotless_def list_all_iff)
  then show ?thesis
    by (auto simp: dotted_def is_space_def)
qed

lemma length_dotted: "length (dotted a) \<le> 15"
  using octet_text_facts(3) [of "a ! 0"] octet_text_facts(3) [of "a ! 1"] octet_text_facts(3) [of "a ! 2"]
    octet_text_facts(3) [of "a ! 3"] by (simp add: dotted_def)

lemma c_str_dotted [simp]: "c_str (dotted a @ 0 # t) = dotted a"
  using dotted_chars by (metis c_str_append_zero)

lemma c_str_ntoa [simp]: "c_str (inet_ntoa x) = dotted (host32 x)"
  by (simp add: inet_ntoa_def)

lemma is_str_ntoa [simp]: "is_str (inet_ntoa x)"
  by (simp add: inet_ntoa_def)

lemma octet_div: "d < 256 \<Longrightarrow> (n * 256 + d) div 256 = n" for n d :: nat
  by simp

lemma octet_mod: "d < 256 \<Longrightarrow> (n * 256 + d) mod 256 = d" "d < 256 \<Longrightarrow> d mod 256 = d" for n d :: nat
  by simp_all

lemma be32_of_octets:
  "be32 (of_nat (unat a * 2 ^ 24 + unat b * 2 ^ 16 + unat c * 2 ^ 8 + unat d)) = [a, b, c, d]" for a b c d :: byte
proof -
  let ?n = "unat a * 2 ^ 24 + unat b * 2 ^ 16 + unat c * 2 ^ 8 + unat d"
  have l: "unat a < 256" "unat b < 256" "unat c < 256" "unat d < 256"
    using unsigned_less [of a] unsigned_less [of b] unsigned_less [of c] unsigned_less [of d] by simp_all
  then have n: "unat (of_nat ?n :: u32) = ?n"
    unfolding unat_of_nat by simp
  have horner: "?n = ((unat a * 256 + unat b) * 256 + unat c) * 256 + unat d"
    by simp
  have powers: "2 ^ 24 = 256 * 256 * (256 :: nat)" "2 ^ 16 = 256 * (256 :: nat)" "2 ^ 8 = (256 :: nat)" "2 ^ 0 = (1 :: nat)"
    by simp_all
  have byte: "ucast (drop_bit k (of_nat ?n :: u32)) = x \<longleftrightarrow> ?n div 2 ^ k mod 256 = unat x" for k and x :: byte
    unfolding word_unat_eq_iff unsigned_ucast_eq unsigned_drop_bit_eq n using l by (simp add: drop_bit_eq_div take_bit_eq_mod)
  have "ucast (drop_bit 24 (of_nat ?n :: u32)) = a" "ucast (drop_bit 16 (of_nat ?n :: u32)) = b"
    "ucast (drop_bit 8 (of_nat ?n :: u32)) = c" "ucast (drop_bit 0 (of_nat ?n :: u32)) = d"
    unfolding byte unfolding horner unfolding powers div_mult2_eq
    by (simp_all only: octet_div [OF l(1)] octet_div [OF l(2)] octet_div [OF l(3)] octet_div [OF l(4)] div_by_1 octet_mod l)
  then show ?thesis
    by (simp add: be32_def)
qed

lemmas be32_of_octets_simp = be32_of_octets [simplified]

lemma inet_addr_dotted:
  assumes "c_str s = dotted (host32 x)"
  shows "inet_addr s = x"
proof -
  obtain a b c d where h: "host32 x = [a, b, c, d]"
    by (simp add: host32_def be32_def)
  have "takeWhile (\<lambda>c. \<not> is_space c) (c_str s) = dotted [a, b, c, d]"
    using dotted_chars [of "[a, b, c, d]"] by (simp add: assms h)
  moreover have "unat e < 256" for e :: byte
    using unsigned_less [of e] by simp
  ultimately have "inet_addr s = of_host32 [a, b, c, d]"
    by (simp add: inet_addr_def split_dots_dotted octet_text_facts(1) parts_addr_def be32_of_octets_simp)
  then show ?thesis
    by (metis h of_host32_host32_nil)
qed

text \<open>\<open>memcpy(a, inet_ntoa(in), strlen(..)); a[strlen(..)] = 0\<close>\<close>

definition store_ntoa :: "bytes \<Rightarrow> u32 \<Rightarrow> bytes outcome" where
  "store_ntoa a addr = (let ipv4 = inet_ntoa addr; n = length (c_str ipv4) in
     bindO (c_memcpy a 0 ipv4 n) (\<lambda>a. c_put a n 0))"

definition stored_ntoa :: "bytes \<Rightarrow> u32 \<Rightarrow> bytes" where
  "stored_ntoa a addr = (let t = dotted (host32 addr) in t @ 0 # drop (Suc (length t)) a)"

lemma store_ntoa_Done: "length a = 16 \<Longrightarrow> store_ntoa a addr = Done (stored_ntoa a addr)"
  using length_dotted [of "host32 addr"]
  by (simp add: store_ntoa_def stored_ntoa_def Let_def splice_at_def inet_ntoa_def list_update_append upd_conv_take_nth_drop)

lemma stored_ntoa_facts [simp]:
  "length a = 16 \<Longrightarrow> length (stored_ntoa a addr) = 16"
  "is_str (stored_ntoa a addr)" "c_str (stored_ntoa a addr) = dotted (host32 addr)"
  "inet_addr (stored_ntoa a addr) = addr"
proof -
  show c: "c_str (stored_ntoa a addr) = dotted (host32 addr)"
    by (simp add: stored_ntoa_def Let_def)
  show "inet_addr (stored_ntoa a addr) = addr"
    by (rule inet_addr_dotted [OF c])
  show "length a = 16 \<Longrightarrow> length (stored_ntoa a addr) = 16" "is_str (stored_ntoa a addr)"
    using length_dotted [of "host32 addr"] by (auto simp: stored_ntoa_def Let_def)
qed

section \<open>The type of a NAT (stun/nat\_types.h)\<close>

definition UDP_BLOCKED :: int where "UDP_BLOCKED = 0"
definition SYM_UDP_FIREWALL :: int where "SYM_UDP_FIREWALL = 1"
definition OPEN_INTERNET :: int where "OPEN_INTERNET = 2"
definition FULL_CONE :: int where "FULL_CONE = 3"
definition RESTRICTED :: int where "RESTRICTED = 4"
definition PORT_RESTRICTED :: int where "PORT_RESTRICTED = 5"
definition SYM_NAT :: int where "SYM_NAT = 6"
definition UNEXPECTED_NAT_TYPE :: int where "UNEXPECTED_NAT_TYPE = 7"

lemmas nat_type_defs = UDP_BLOCKED_def SYM_UDP_FIREWALL_def OPEN_INTERNET_def FULL_CONE_def RESTRICTED_def
  PORT_RESTRICTED_def SYM_NAT_def UNEXPECTED_NAT_TYPE_def

record nat_type =
  nt_nat_type :: int
  nt_port :: int
  nt_ipv4 :: bytes

end
