(* ===== verification/NoseBucket.thy ===== *)
theory NoseBucket imports NoseInet begin

text \<open>
  The bucket of known peers (bucket.h, bucket.c): an array of 255 items with the index of its top
  element, behind one mutex that all buckets share.  The mutex does not count, so a thread that
  locks it twice waits for ever.  The functions take the mutex and the bucket; the time of day is an
  argument.
\<close>

section \<open>Items, buckets and the mutex\<close>

record bucket_item =
  bi_port :: u16
  bi_ipv4 :: bytes
  bi_node_id :: bytes
  bi_state :: int
  bi_join_timestap :: int
  bi_vlan_ipv4 :: bytes
  bi_nat_type :: int

definition MAX_BUCKET_SIZE :: nat where
  "MAX_BUCKET_SIZE = 255"

record bucket =
  bk_top :: int
  bk_visited :: int
  bk_b :: "bucket_item list"

definition mutex_lock :: "bool \<Rightarrow> bool outcome" where
  "mutex_lock locked = (if locked then Blocked else Done True)"

text \<open>The item at an index of the array.\<close>

definition item_at :: "bucket \<Rightarrow> int \<Rightarrow> bucket_item outcome" where
  "item_at bkt i = (if 0 \<le> i \<and> nat i < length (bk_b bkt) then Done (bk_b bkt ! nat i) else Undefined)"

definition set_item :: "bucket \<Rightarrow> int \<Rightarrow> bucket_item \<Rightarrow> bucket outcome" where
  "set_item bkt i item = (if 0 \<le> i \<and> nat i < length (bk_b bkt)
     then Done (bkt\<lparr>bk_b := (bk_b bkt)[nat i := item]\<rparr>) else Undefined)"

section \<open>The operations\<close>

text \<open>Initialisation; a bucket without initial items leaves the mutex as it is.\<close>

fun init_items_loop :: "bucket_item list \<Rightarrow> nat \<Rightarrow> bucket \<Rightarrow> bucket outcome" where
  "init_items_loop [] i bkt = Done bkt"
| "init_items_loop (item # items) i bkt =
     bindO (set_item bkt (int i) item) (\<lambda>bkt. init_items_loop items (Suc i) (bkt\<lparr>bk_top := bk_top bkt + 1\<rparr>))"

definition init_bucket :: "bucket_item list option \<Rightarrow> int \<Rightarrow> bool \<times> bucket \<Rightarrow> (bool \<times> bucket) outcome" where
  "init_bucket init_items init_items_size = (\<lambda>(locked, bkt).
     let bkt = bkt\<lparr>bk_top := -1, bk_visited := 0\<rparr> in
     case init_items of
       None \<Rightarrow> Done (locked, bkt)
     | Some items \<Rightarrow>
         let locked = False in
         if int MAX_BUCKET_SIZE < init_items_size then Done (locked, bkt)
         else if init_items_size \<le> int (length items)
         then bindO (init_items_loop (take (nat init_items_size) items) 0 bkt) (\<lambda>bkt. Done (locked, bkt))
         else Undefined)"

text \<open>Deleting the oldest item: the function locks the mutex once more where it should unlock it.\<close>

fun shift_loop :: "nat \<Rightarrow> int \<Rightarrow> bucket \<Rightarrow> bucket outcome" where
  "shift_loop 0 i bkt = Done bkt"
| "shift_loop (Suc n) i bkt =
     bindO (item_at bkt i) (\<lambda>item. bindO (set_item bkt (i - 1) item) (\<lambda>bkt. shift_loop n (i + 1) bkt))"

definition pop_back_bucket :: "bool \<times> bucket \<Rightarrow> (bool \<times> bucket) outcome" where
  "pop_back_bucket = (\<lambda>(locked, bkt).
     bindO (mutex_lock locked) (\<lambda>locked.
     bindO (shift_loop (nat (bk_top bkt)) 1 bkt) (\<lambda>bkt.
     let bkt = bkt\<lparr>bk_top := bk_top bkt - 1\<rparr> in
     bindO (mutex_lock locked) (\<lambda>locked. Done (locked, bkt)))))"

text \<open>The search for a node id among the items from an index on.\<close>

fun find_node :: "bytes \<Rightarrow> bucket_item list \<Rightarrow> bool outcome" where
  "find_node node_id [] = Done False"
| "find_node node_id (item # items) =
     bindO (c_streq node_id (bi_node_id item)) (\<lambda>same. if same then Done True else find_node node_id items)"

definition bucket_items :: "bucket \<Rightarrow> bucket_item list" where
  "bucket_items bkt = take (nat (bk_top bkt + 1)) (bk_b bkt)"

definition push_front_bucket :: "int \<Rightarrow> bucket_item \<Rightarrow> bool \<times> bucket \<Rightarrow> (bool \<times> bucket) outcome" where
  "push_front_bucket now item = (\<lambda>(locked, bkt).
     bindO (mutex_lock locked) (\<lambda>locked.
     bindO (find_node (bi_node_id item) (bucket_items bkt)) (\<lambda>known.
     if known then Done (False, bkt)
     else bindO (if bk_top bkt + 1 = int MAX_BUCKET_SIZE then pop_back_bucket (locked, bkt) else Done (locked, bkt)) (\<lambda>(locked, bkt).
       let item = item\<lparr>bi_join_timestap := now\<rparr>;
           bkt = bkt\<lparr>bk_top := bk_top bkt + 1\<rparr> in
       bindO (set_item bkt (bk_top bkt) item) (\<lambda>bkt. Done (False, bkt))))))"

text \<open>
  The newest items first.  The loop copies every item of the bucket, whatever the size that was
  asked for.
\<close>

fun copy_down :: "nat \<Rightarrow> bucket \<Rightarrow> nat \<Rightarrow> bucket_item list \<Rightarrow> bucket_item list outcome" where
  "copy_down 0 bkt j out = Done out"
| "copy_down (Suc i) bkt j out =
     bindO (item_at bkt (int i)) (\<lambda>item.
       if j < length out then copy_down i bkt (Suc j) (out[j := item]) else Undefined)"

definition get_top_bucket_items :: "bucket_item list option \<Rightarrow> int \<Rightarrow> bool \<times> bucket
    \<Rightarrow> (int \<times> bucket_item list option \<times> bool \<times> bucket) outcome" where
  "get_top_bucket_items item n = (\<lambda>(locked, bkt). case item of
       None \<Rightarrow> Done (0, None, locked, bkt)
     | Some out \<Rightarrow>
         bindO (mutex_lock locked) (\<lambda>locked.
         let r_size = (if 1 + bk_top bkt < n then bk_top bkt + 1 else n) in
         bindO (copy_down (nat (bk_top bkt + 1)) bkt 0 out) (\<lambda>out. Done (r_size, Some out, False, bkt))))"

text \<open>Pointers to items are their indices.\<close>

definition get_front_bucket :: "bool \<times> bucket \<Rightarrow> (int option \<times> bool \<times> bucket) outcome" where
  "get_front_bucket = (\<lambda>(locked, bkt). bindO (mutex_lock locked) (\<lambda>locked.
     Done (if bk_top bkt = -1 then None else Some (bk_top bkt), False, bkt)))"

definition get_back_bucket :: "bool \<times> bucket \<Rightarrow> (int option \<times> bool \<times> bucket) outcome" where
  "get_back_bucket = (\<lambda>(locked, bkt). bindO (mutex_lock locked) (\<lambda>locked. Done (Some 0, False, bkt)))"

definition get_next_bucket_item :: "bool \<times> bucket \<Rightarrow> (int option \<times> bool \<times> bucket) outcome" where
  "get_next_bucket_item = (\<lambda>(locked, bkt). bindO (mutex_lock locked) (\<lambda>locked.
     if bk_top bkt + 1 = 0 then Undefined
     else let visited = bk_visited bkt mod (bk_top bkt + 1) in
       Done (Some visited, False, bkt\<lparr>bk_visited := visited + 1\<rparr>)))"

definition pop_front_bucket :: "bool \<times> bucket \<Rightarrow> (bool \<times> bucket) outcome" where
  "pop_front_bucket = (\<lambda>(locked, bkt). bindO (mutex_lock locked) (\<lambda>locked.
     Done (False, if 0 \<le> bk_top bkt then bkt\<lparr>bk_top := bk_top bkt - 1\<rparr> else bkt)))"

definition is_empty_bucket :: "bool \<times> bucket \<Rightarrow> (bool \<times> bool \<times> bucket) outcome" where
  "is_empty_bucket = (\<lambda>(locked, bkt). bindO (mutex_lock locked) (\<lambda>locked. Done (bk_top bkt = -1, False, bkt)))"

definition bucket_size :: "bool \<times> bucket \<Rightarrow> (int \<times> bool \<times> bucket) outcome" where
  "bucket_size = (\<lambda>(locked, bkt). bindO (mutex_lock locked) (\<lambda>locked. Done (bk_top bkt + 1, False, bkt)))"

text \<open>The search for a virtual address, from the newest item down.\<close>

fun find_vlan :: "bytes \<Rightarrow> bucket_item list \<Rightarrow> bucket_item option outcome" where
  "find_vlan vlan_ipv4 [] = Done None"
| "find_vlan vlan_ipv4 (item # older) =
     bindO (c_streq (bi_vlan_ipv4 item) vlan_ipv4) (\<lambda>same. if same then Done (Some item) else find_vlan vlan_ipv4 older)"

definition get_item_by_vlan_ipv4 :: "bytes option \<Rightarrow> bucket_item option \<Rightarrow> bool \<times> bucket
    \<Rightarrow> (int \<times> bucket_item option \<times> bool \<times> bucket) outcome" where
  "get_item_by_vlan_ipv4 vlan_ipv4 item = (\<lambda>(locked, bkt). case (vlan_ipv4, item) of
       (Some vlan, Some _) \<Rightarrow>
         bindO (mutex_lock locked) (\<lambda>locked.
         bindO (find_vlan vlan (rev (bucket_items bkt))) (\<lambda>found. case found of
           Some it \<Rightarrow> Done (OK, Some it, False, bkt)
         | None \<Rightarrow> Done (C_FAILED, item, False, bkt)))
     | _ \<Rightarrow> Done (C_ERROR, item, locked, bkt))"

text \<open>Destroying the mutex, which is undefined while it is locked.\<close>

definition destory_bucket :: "bool \<times> bucket \<Rightarrow> (bool \<times> bucket) outcome" where
  "destory_bucket = (\<lambda>(locked, bkt). if locked then Undefined else Done (False, bkt))"

section \<open>Well-formed buckets\<close>

definition item_ok :: "bucket_item \<Rightarrow> bool" where
  "item_ok it \<longleftrightarrow> length (bi_ipv4 it) = 16 \<and> is_str (bi_ipv4 it) \<and> length (bi_node_id it) = 21 \<and> is_str (bi_node_id it) \<and>
     length (bi_vlan_ipv4 it) = 16"

definition node_name :: "bucket_item \<Rightarrow> bytes" where
  "node_name it = c_str (bi_node_id it)"

definition bucket_ok :: "bucket \<Rightarrow> bool" where
  "bucket_ok bkt \<longleftrightarrow> length (bk_b bkt) = MAX_BUCKET_SIZE \<and> -1 \<le> bk_top bkt \<and> bk_top bkt < int MAX_BUCKET_SIZE \<and>
     0 \<le> bk_visited bkt \<and> (\<forall>it \<in> set (bucket_items bkt). item_ok it)"

text \<open>The virtual addresses are compared in the bucket of peers only.\<close>

definition vlans_ok :: "bucket \<Rightarrow> bool" where
  "vlans_ok bkt \<longleftrightarrow> (\<forall>it \<in> set (bucket_items bkt). is_str (bi_vlan_ipv4 it))"

lemma length_bucket_items: "bucket_ok bkt \<Longrightarrow> length (bucket_items bkt) = nat (bk_top bkt + 1)"
  by (auto simp: bucket_ok_def bucket_items_def)

lemma int_length_bucket_items: "bucket_ok bkt \<Longrightarrow> bk_top bkt = int (length (bucket_items bkt)) - 1"
  by (auto simp: length_bucket_items bucket_ok_def)

lemma bucket_items_nth: "i < length (bucket_items bkt) \<Longrightarrow> bucket_items bkt ! i = bk_b bkt ! i"
  by (simp add: bucket_items_def)

lemma item_at_ok: "bucket_ok bkt \<Longrightarrow> i < length (bucket_items bkt) \<Longrightarrow> item_at bkt (int i) = Done (bucket_items bkt ! i)"
  by (auto simp: item_at_def bucket_items_nth length_bucket_items) (auto simp: bucket_ok_def)

lemma find_node_Done:
  assumes "is_str node_id" "\<forall>it \<in> set its. item_ok it"
  shows "find_node node_id its = Done (c_str node_id \<in> node_name ` set its)"
  using assms by (induction its) (auto simp: c_streq_str item_ok_def node_name_def)

lemma find_vlan_Done:
  assumes "is_str vlan" "\<forall>it \<in> set its. is_str (bi_vlan_ipv4 it)"
  shows "find_vlan vlan its = Done (find (\<lambda>it. c_str (bi_vlan_ipv4 it) = c_str vlan) its)"
  using assms by (induction its) (auto simp: c_streq_str)

text \<open>Adding an item to a bucket: what the operation promises.\<close>

definition known :: "bucket_item \<Rightarrow> bucket \<Rightarrow> bool" where
  "known it bkt \<longleftrightarrow> node_name it \<in> node_name ` set (bucket_items bkt)"

lemma pop_back_blocks: "bucket_ok bkt \<Longrightarrow> pop_back_bucket (locked, bkt) = Blocked"
proof (cases locked)
  case False
  assume ok: "bucket_ok bkt"
  have "\<exists>bkt'. shift_loop n i b = Done bkt'" if "1 \<le> i" "i + int n \<le> int (length (bk_b b))" for n i b
    using that
  proof (induction n arbitrary: i b)
    case (Suc n)
    then show ?case
      using Suc.IH [of "i + 1" "b\<lparr>bk_b := (bk_b b)[nat (i - 1) := bk_b b ! nat i]\<rparr>"] by (auto simp: item_at_def set_item_def)
  qed simp
  moreover have "1 + int (nat (bk_top bkt)) \<le> int (length (bk_b bkt))"
    using ok by (auto simp: bucket_ok_def MAX_BUCKET_SIZE_def)
  ultimately obtain bkt' where "shift_loop (nat (bk_top bkt)) 1 bkt = Done bkt'"
    by blast
  with False show ?thesis
    by (simp add: pop_back_bucket_def mutex_lock_def Let_def)
qed (simp add: pop_back_bucket_def mutex_lock_def)

definition append_item :: "int \<Rightarrow> bucket_item \<Rightarrow> bucket \<Rightarrow> bucket" where
  "append_item now it bkt = bkt\<lparr>bk_top := bk_top bkt + 1, bk_b := (bk_b bkt)[nat (bk_top bkt + 1) := it\<lparr>bi_join_timestap := now\<rparr>]\<rparr>"

lemma append_item_items:
  assumes "bucket_ok bkt" "length (bucket_items bkt) < MAX_BUCKET_SIZE"
  shows "bucket_items (append_item now it bkt) = bucket_items bkt @ [it\<lparr>bi_join_timestap := now\<rparr>]"
proof -
  let ?n = "nat (bk_top bkt + 1)"
  have n: "?n < length (bk_b bkt)" "nat (2 + bk_top bkt) = Suc ?n"
    using assms length_bucket_items [OF assms(1)] by (auto simp: bucket_ok_def)
  then have "bucket_items (append_item now it bkt) = take (Suc ?n) ((bk_b bkt)[?n := it\<lparr>bi_join_timestap := now\<rparr>])"
    by (simp add: bucket_items_def append_item_def)
  then show ?thesis
    using n(1) by (simp add: bucket_items_def take_Suc_conv_app_nth)
qed

lemma append_item_ok:
  assumes "bucket_ok bkt" "item_ok it" "length (bucket_items bkt) < MAX_BUCKET_SIZE"
  shows "bucket_ok (append_item now it bkt)"
proof -
  have "\<forall>i \<in> set (bucket_items (append_item now it bkt)). item_ok i"
    unfolding append_item_items [OF assms(1,3)] using assms(1,2) by (auto simp: bucket_ok_def item_ok_def)
  then show ?thesis
    using assms(1,3) length_bucket_items [OF assms(1)] unfolding bucket_ok_def by (auto simp: append_item_def)
qed

lemma push_front_cases:
  assumes "bucket_ok bkt" "item_ok it"
  shows "push_front_bucket now it (False, bkt) =
    (if known it bkt then Done (False, bkt)
     else if length (bucket_items bkt) = MAX_BUCKET_SIZE then Blocked
     else Done (False, append_item now it bkt))"
proof -
  have f: "find_node (bi_node_id it) (bucket_items bkt) = Done (known it bkt)"
    using assms by (simp add: find_node_Done bucket_ok_def item_ok_def known_def node_name_def)
  have top: "bk_top bkt + 1 = int MAX_BUCKET_SIZE \<longleftrightarrow> length (bucket_items bkt) = MAX_BUCKET_SIZE"
    using int_length_bucket_items [OF assms(1)] by (simp add: MAX_BUCKET_SIZE_def)
  have "set_item (bkt\<lparr>bk_top := bk_top bkt + 1\<rparr>) (bk_top bkt + 1) (it\<lparr>bi_join_timestap := now\<rparr>) = Done (append_item now it bkt)"
    if "length (bucket_items bkt) \<noteq> MAX_BUCKET_SIZE"
    using assms(1) that length_bucket_items [OF assms(1)] by (auto simp: set_item_def append_item_def bucket_ok_def)
  then show ?thesis
    by (auto simp: push_front_bucket_def mutex_lock_def f top pop_back_blocks [OF assms(1)] Let_def)
qed


text \<open>The other operations.\<close>

lemma copy_down_Done:
  assumes "bucket_ok bkt" "n \<le> length (bucket_items bkt)" "j + n \<le> length out"
  shows "copy_down n bkt j out = Done (splice_at out j (rev (take n (bucket_items bkt))))"
  using assms(2,3)
proof (induction n arbitrary: j out)
  case (Suc n)
  have "splice_at (out[j := x]) (Suc j) ys = splice_at out j (x # ys)" if "j < length out" for x ys
    using that by (simp add: splice_at_def take_Suc_conv_app_nth)
  then show ?case
    using Suc assms(1) by (simp add: item_at_ok take_Suc_conv_app_nth)
qed (simp add: splice_at_def)

lemma get_top_Done:
  assumes "bucket_ok bkt" "length (bucket_items bkt) \<le> length out"
  shows "get_top_bucket_items (Some out) n (False, bkt) =
    Done (min n (int (length (bucket_items bkt))), Some (splice_at out 0 (rev (bucket_items bkt))), False, bkt)"
proof -
  have n: "nat (bk_top bkt + 1) = length (bucket_items bkt)" "bk_top bkt + 1 = int (length (bucket_items bkt))" "1 + bk_top bkt = int (length (bucket_items bkt))"
    using int_length_bucket_items [OF assms(1)] by simp_all
  have c: "copy_down (length (bucket_items bkt)) bkt 0 out = Done (splice_at out 0 (rev (bucket_items bkt)))"
    using copy_down_Done [OF assms(1), of "length (bucket_items bkt)" 0 out] assms(2) by simp
  show ?thesis
    unfolding get_top_bucket_items_def prod.case option.case mutex_lock_def n by (simp add: c min_def)
qed

lemma get_front_Done:
  assumes "bucket_ok bkt"
  shows "get_front_bucket (False, bkt) =
    Done (if bucket_items bkt = [] then None else Some (int (length (bucket_items bkt)) - 1), False, bkt)"
  using int_length_bucket_items [OF assms] by (auto simp: get_front_bucket_def mutex_lock_def)

lemma get_next_Done:
  assumes "bucket_ok bkt" "bucket_items bkt \<noteq> []"
  obtains i where "get_next_bucket_item (False, bkt) = Done (Some (int i), False, bkt\<lparr>bk_visited := int i + 1\<rparr>)"
    "i < length (bucket_items bkt)" "bucket_ok (bkt\<lparr>bk_visited := int i + 1\<rparr>)"
proof (rule that [of "nat (bk_visited bkt mod (bk_top bkt + 1))"])
  have l: "0 < bk_top bkt + 1" "int (length (bucket_items bkt)) = bk_top bkt + 1"
    using int_length_bucket_items [OF assms(1)] assms(2) by (cases "bucket_items bkt"; simp)+
  then show "get_next_bucket_item (False, bkt) = Done (Some (int (nat (bk_visited bkt mod (bk_top bkt + 1)))), False,
      bkt\<lparr>bk_visited := int (nat (bk_visited bkt mod (bk_top bkt + 1))) + 1\<rparr>)"
    by (simp add: get_next_bucket_item_def mutex_lock_def Let_def)
  have "bk_visited bkt mod (bk_top bkt + 1) < bk_top bkt + 1" "0 \<le> bk_visited bkt mod (bk_top bkt + 1)"
    using pos_mod_bound [OF l(1)] pos_mod_sign [OF l(1)] by blast+
  then show "nat (bk_visited bkt mod (bk_top bkt + 1)) < length (bucket_items bkt)"
    using l(2) by linarith
  show "bucket_ok (bkt\<lparr>bk_visited := int (nat (bk_visited bkt mod (bk_top bkt + 1))) + 1\<rparr>)"
    using assms(1) by (simp add: bucket_ok_def bucket_items_def)
qed

lemma get_item_by_vlan_Done:
  assumes "vlans_ok bkt" "is_str vlan"
  shows "get_item_by_vlan_ipv4 (Some vlan) (Some item) (False, bkt) =
    (case find (\<lambda>it. c_str (bi_vlan_ipv4 it) = c_str vlan) (rev (bucket_items bkt)) of
       Some it \<Rightarrow> Done (OK, Some it, False, bkt) | None \<Rightarrow> Done (C_FAILED, Some item, False, bkt))"
  using find_vlan_Done [OF assms(2), of "rev (bucket_items bkt)"] assms(1)
  by (simp add: get_item_by_vlan_ipv4_def mutex_lock_def vlans_ok_def split: option.splits)

text \<open>A new bucket is empty.\<close>

definition new_bucket :: "bucket_item list \<Rightarrow> int \<Rightarrow> bucket" where
  "new_bucket b visited = \<lparr>bk_top = -1, bk_visited = visited, bk_b = b\<rparr>"

lemma init_bucket_empty: "init_bucket None n (locked, bkt) = Done (locked, bkt\<lparr>bk_top := -1, bk_visited := 0\<rparr>)"
  by (simp add: init_bucket_def)

lemma empty_bucket_ok:
  "length (bk_b bkt) = MAX_BUCKET_SIZE \<Longrightarrow> bucket_ok (bkt\<lparr>bk_top := -1, bk_visited := 0\<rparr>)"
  "bucket_items (bkt\<lparr>bk_top := -1, bk_visited := 0\<rparr>) = []"
  by (simp_all add: bucket_ok_def bucket_items_def MAX_BUCKET_SIZE_def)

section \<open>Sequences of additions\<close>

fun push_all :: "(int \<times> bucket_item) list \<Rightarrow> bool \<times> bucket \<Rightarrow> (bool \<times> bucket) outcome" where
  "push_all [] w = Done w"
| "push_all ((now, it) # rest) w = bindO (push_front_bucket now it w) (push_all rest)"

definition names :: "bucket \<Rightarrow> bytes list" where
  "names bkt = map node_name (bucket_items bkt)"

lemma push_all_cases:
  assumes "bucket_ok bkt" "distinct (names bkt)" "\<forall>(now, it) \<in> set its. item_ok it"
  shows "if card (set (names bkt) \<union> (\<lambda>(now, it). node_name it) ` set its) \<le> MAX_BUCKET_SIZE
    then \<exists>bkt'. push_all its (False, bkt) = Done (False, bkt') \<and> bucket_ok bkt' \<and> distinct (names bkt') \<and>
      set (names bkt') = set (names bkt) \<union> (\<lambda>(now, it). node_name it) ` set its \<and>
      (\<exists>more. bucket_items bkt' = bucket_items bkt @ more)
    else push_all its (False, bkt) = Blocked"
  using assms
proof (induction its arbitrary: bkt)
  case Nil
  then have "length (names bkt) \<le> MAX_BUCKET_SIZE"
    using length_bucket_items [of bkt] by (auto simp: names_def bucket_ok_def)
  then show ?case
    using Nil by (simp add: distinct_card)
next
  case (Cons p its)
  obtain now it where p: "p = (now, it)"
    by fastforce
  have it: "item_ok it"
    using Cons.prems(3) p by simp
  note push = push_front_cases [OF Cons.prems(1) it, of now]
  have len: "card (set (names bkt)) = length (bucket_items bkt)"
    using distinct_card [OF Cons.prems(2)] by (simp add: names_def)
  consider (known) "known it bkt" | (full) "\<not> known it bkt" "length (bucket_items bkt) = MAX_BUCKET_SIZE"
    | (room) "\<not> known it bkt" "length (bucket_items bkt) < MAX_BUCKET_SIZE"
    using length_bucket_items [OF Cons.prems(1)] Cons.prems(1) by (fastforce simp: bucket_ok_def)
  then show ?case
  proof cases
    case known
    then have "set (names bkt) \<union> (\<lambda>(now, it). node_name it) ` set (p # its) = set (names bkt) \<union> (\<lambda>(now, it). node_name it) ` set its"
      by (auto simp: known_def names_def p)
    then show ?thesis
      using Cons.IH [OF Cons.prems(1,2)] Cons.prems(3) push known p by simp
  next
    case full
    have "card (insert (node_name it) (set (names bkt))) = Suc MAX_BUCKET_SIZE"
      using full len by (simp add: known_def names_def)
    moreover have "card (insert (node_name it) (set (names bkt))) \<le> card (set (names bkt) \<union> (\<lambda>(now, it). node_name it) ` set (p # its))"
      by (rule card_mono) (auto simp: p)
    ultimately show ?thesis
      using full push p by simp
  next
    case room
    let ?bkt = "append_item now it bkt"
    have items: "bucket_items ?bkt = bucket_items bkt @ [it\<lparr>bi_join_timestap := now\<rparr>]"
      by (rule append_item_items [OF Cons.prems(1) room(2)])
    have n: "names ?bkt = names bkt @ [node_name it]"
      by (simp add: names_def items node_name_def)
    have "distinct (names ?bkt)"
      unfolding n using Cons.prems(2) room(1) by (simp add: known_def names_def)
    from Cons.IH [OF append_item_ok [OF Cons.prems(1) it room(2)] this] Cons.prems(3)
    show ?thesis
      using push room p by (auto simp: n items split: if_splits)
  qed
qed


text \<open>C27: a new bucket takes the nodes that are added to it, each once, as long as they are at most 255 different ones; the addition of one more never returns,
  since the bucket then deletes its oldest item while it holds the mutex.\<close>

theorem bucket_holds_255_nodes:
  assumes "length (bk_b bkt) = MAX_BUCKET_SIZE" "\<forall>(now, it) \<in> set its. item_ok it"
  shows "let r = bindO (init_bucket None 0 (False, bkt)) (push_all its) in
    if card ((\<lambda>(now, it). node_name it) ` set its) \<le> MAX_BUCKET_SIZE
    then \<exists>bkt'. r = Done (False, bkt') \<and> bucket_ok bkt' \<and> distinct (names bkt') \<and>
      set (names bkt') = (\<lambda>(now, it). node_name it) ` set its
    else r = Blocked"
proof -
  have "names (bkt\<lparr>bk_top := -1, bk_visited := 0\<rparr>) = []"
    by (simp add: names_def empty_bucket_ok(2))
  then show ?thesis
    using push_all_cases [OF empty_bucket_ok(1) [OF assms(1)] _ assms(2)]
    by (auto simp: init_bucket_empty Let_def split: if_splits)
qed

definition example_item :: "nat \<Rightarrow> bucket_item" where
  "example_item n = \<lparr>bi_port = 4000, bi_ipv4 = replicate 16 0, bi_node_id = replicate 20 (of_nat n) @ [0], bi_state = 0,
     bi_join_timestap = 0, bi_vlan_ipv4 = replicate 16 0, bi_nat_type = 3\<rparr>"

definition example_bucket :: bucket where
  "example_bucket = \<lparr>bk_top = 7, bk_visited = 9, bk_b = replicate MAX_BUCKET_SIZE (example_item 0)\<rparr>"

theorem bucket_holds_255_nodes_witness:
  "\<exists>bkt'. bindO (init_bucket None 0 (False, example_bucket)) (push_all [(1, example_item 65), (2, example_item 66), (3, example_item 65)]) =
     Done (False, bkt') \<and> set (names bkt') = node_name ` {example_item 65, example_item 66}"
proof -
  have "card ((\<lambda>(now, it). node_name it) ` set [(1 :: int, example_item 65), (2, example_item 66), (3, example_item 65)]) \<le> 3"
    using card_image_le [of "set [(1 :: int, example_item 65), (2, example_item 66), (3, example_item 65)]" "\<lambda>(now, it). node_name it"]
    by simp
  moreover have "length (bk_b example_bucket) = MAX_BUCKET_SIZE"
    "\<forall>(now, it) \<in> set [(1 :: int, example_item 65), (2, example_item 66), (3, example_item 65)]. item_ok it"
    by (simp_all add: example_bucket_def item_ok_def example_item_def is_str_def)
  ultimately show ?thesis
    using bucket_holds_255_nodes [of example_bucket "[(1, example_item 65), (2, example_item 66), (3, example_item 65)]"]
    by (auto simp: Let_def MAX_BUCKET_SIZE_def)
qed

end
