(* ===== verification/NosePmp.thy ===== *)
theory NosePmp imports NoseBucket begin

text \<open>
  The peer management protocol (pmp.h, pmp.c): the packets that peers and master peers exchange.  The
  structs are records, with their images in memory; a struct from \<open>malloc\<close> starts with arbitrary
  contents.  Pointers that the code compares with NULL are options.
\<close>

section \<open>Structs\<close>

definition DISC :: byte where "DISC = 0"
definition PING :: byte where "PING = 1"
definition G_PS :: byte where "G_PS = 2"
definition R_P :: byte where "R_P = 3"
definition F_P :: byte where "F_P = 4"
definition REQ :: byte where "REQ = 0"
definition RSP :: byte where "RSP = 1"

lemmas pmp_consts = DISC_def PING_def G_PS_def R_P_def F_P_def REQ_def RSP_def

record PMP_Header =
  ph_type :: byte
  ph_code :: byte

record PMP_discovery_req =
  dq_header :: PMP_Header
  dq_port :: u16
  dq_target_id :: bytes
  dq_source_id :: bytes

record PMP_discovery_rsp =
  dp_header :: PMP_Header
  dp_count :: u16
  dp_target_id :: bytes

record PMP_options =
  op_port :: u16
  op_reserve :: u16
  op_ipv4 :: u32
  op_node_id :: bytes

text \<open>Also the struct of ping responses, get-peers requests and registry responses.\<close>

record PMP_ping_req =
  pi_header :: PMP_Header
  pi_reserve :: u16
  pi_target_id :: bytes
  pi_source_id :: bytes

record PMP_get_peers_rsp =
  gp_header :: PMP_Header
  gp_count :: u16
  gp_target_id :: bytes

record PMP_get_peers_options =
  go_nat_type :: byte
  go_reserve :: byte
  go_port :: u16
  go_ipv4 :: u32
  go_vlan_ipv4 :: u32
  go_node_id :: bytes

text \<open>Also the struct of find-peer responses.\<close>

record PMP_peer_registry_req =
  rr_header :: PMP_Header
  rr_nat_type :: u16
  rr_reserved :: u16
  rr_port :: u16
  rr_ipv4 :: u32
  rr_vlan_ipv4 :: u32
  rr_mstp_id :: bytes
  rr_peer_id :: bytes

record PMP_find_peer_req =
  fq_header :: PMP_Header
  fq_reserve :: u16
  fq_vlan_ipv4 :: u32
  fq_mstp_id :: bytes
  fq_peer_id :: bytes

section \<open>Structs in memory\<close>

definition header_of :: "bytes \<Rightarrow> PMP_Header" where
  "header_of m = \<lparr>ph_type = m ! 0, ph_code = m ! 1\<rparr>"

definition header_bytes :: "PMP_Header \<Rightarrow> bytes" where
  "header_bytes h = [ph_type h, ph_code h]"

definition discovery_req_of :: "bytes \<Rightarrow> PMP_discovery_req" where
  "discovery_req_of m = \<lparr>dq_header = header_of m, dq_port = of_host16 (drop 2 m), dq_target_id = segment m 4 20,
     dq_source_id = segment m 24 20\<rparr>"

definition discovery_req_bytes :: "PMP_discovery_req \<Rightarrow> bytes" where
  "discovery_req_bytes r = header_bytes (dq_header r) @ host16 (dq_port r) @ dq_target_id r @ dq_source_id r"

definition discovery_rsp_of :: "bytes \<Rightarrow> PMP_discovery_rsp" where
  "discovery_rsp_of m = \<lparr>dp_header = header_of m, dp_count = of_host16 (drop 2 m), dp_target_id = segment m 4 20\<rparr>"

definition discovery_rsp_bytes :: "PMP_discovery_rsp \<Rightarrow> bytes" where
  "discovery_rsp_bytes r = header_bytes (dp_header r) @ host16 (dp_count r) @ dp_target_id r"

definition options_of :: "bytes \<Rightarrow> PMP_options" where
  "options_of m = \<lparr>op_port = of_host16 m, op_reserve = of_host16 (drop 2 m), op_ipv4 = of_host32 (drop 4 m),
     op_node_id = segment m 8 20\<rparr>"

definition options_bytes :: "PMP_options \<Rightarrow> bytes" where
  "options_bytes r = host16 (op_port r) @ host16 (op_reserve r) @ host32 (op_ipv4 r) @ op_node_id r"

definition ping_req_of :: "bytes \<Rightarrow> PMP_ping_req" where
  "ping_req_of m = \<lparr>pi_header = header_of m, pi_reserve = of_host16 (drop 2 m), pi_target_id = segment m 4 20,
     pi_source_id = segment m 24 20\<rparr>"

definition ping_req_bytes :: "PMP_ping_req \<Rightarrow> bytes" where
  "ping_req_bytes r = header_bytes (pi_header r) @ host16 (pi_reserve r) @ pi_target_id r @ pi_source_id r"

definition get_peers_rsp_of :: "bytes \<Rightarrow> PMP_get_peers_rsp" where
  "get_peers_rsp_of m = \<lparr>gp_header = header_of m, gp_count = of_host16 (drop 2 m), gp_target_id = segment m 4 20\<rparr>"

definition get_peers_rsp_bytes :: "PMP_get_peers_rsp \<Rightarrow> bytes" where
  "get_peers_rsp_bytes r = header_bytes (gp_header r) @ host16 (gp_count r) @ gp_target_id r"

definition get_peers_options_of :: "bytes \<Rightarrow> PMP_get_peers_options" where
  "get_peers_options_of m = \<lparr>go_nat_type = m ! 0, go_reserve = m ! 1, go_port = of_host16 (drop 2 m),
     go_ipv4 = of_host32 (drop 4 m), go_vlan_ipv4 = of_host32 (drop 8 m), go_node_id = segment m 12 20\<rparr>"

definition get_peers_options_bytes :: "PMP_get_peers_options \<Rightarrow> bytes" where
  "get_peers_options_bytes r = [go_nat_type r, go_reserve r] @ host16 (go_port r) @ host32 (go_ipv4 r) @
     host32 (go_vlan_ipv4 r) @ go_node_id r"

definition peer_registry_req_of :: "bytes \<Rightarrow> PMP_peer_registry_req" where
  "peer_registry_req_of m = \<lparr>rr_header = header_of m, rr_nat_type = of_host16 (drop 2 m), rr_reserved = of_host16 (drop 4 m),
     rr_port = of_host16 (drop 6 m), rr_ipv4 = of_host32 (drop 8 m), rr_vlan_ipv4 = of_host32 (drop 12 m),
     rr_mstp_id = segment m 16 20, rr_peer_id = segment m 36 20\<rparr>"

definition peer_registry_req_bytes :: "PMP_peer_registry_req \<Rightarrow> bytes" where
  "peer_registry_req_bytes r = header_bytes (rr_header r) @ host16 (rr_nat_type r) @ host16 (rr_reserved r) @
     host16 (rr_port r) @ host32 (rr_ipv4 r) @ host32 (rr_vlan_ipv4 r) @ rr_mstp_id r @ rr_peer_id r"

definition find_peer_req_of :: "bytes \<Rightarrow> PMP_find_peer_req" where
  "find_peer_req_of m = \<lparr>fq_header = header_of m, fq_reserve = of_host16 (drop 2 m), fq_vlan_ipv4 = of_host32 (drop 4 m),
     fq_mstp_id = segment m 8 20, fq_peer_id = segment m 28 20\<rparr>"

definition find_peer_req_bytes :: "PMP_find_peer_req \<Rightarrow> bytes" where
  "find_peer_req_bytes r = header_bytes (fq_header r) @ host16 (fq_reserve r) @ host32 (fq_vlan_ipv4 r) @
     fq_mstp_id r @ fq_peer_id r"

section \<open>Writing packets\<close>

text \<open>\<open>memcpy\<close> of a packet to the caller's buffer, whose length is the result.\<close>

definition write_packet :: "bytes option \<Rightarrow> bytes \<Rightarrow> (int \<times> bytes option) outcome" where
  "write_packet buf pkt = (case buf of
     None \<Rightarrow> Undefined
   | Some b \<Rightarrow> bindO (c_memcpy b 0 pkt (length pkt)) (\<lambda>b. Done (int (length pkt), Some b)))"

text \<open>\<open>memcpy(dst, s, strlen(s))\<close>\<close>

definition copy_string :: "bytes \<Rightarrow> bytes \<Rightarrow> bytes outcome" where
  "copy_string dst s = bindO (c_string_length s) (\<lambda>n. c_memcpy dst 0 s n)"

definition PMP_discovery_req_pkt :: "u16 \<Rightarrow> bytes \<Rightarrow> bytes \<Rightarrow> junk option \<Rightarrow> bytes option \<Rightarrow> (int \<times> bytes option) outcome" where
  "PMP_discovery_req_pkt port source_id target_id mem buf = (case (c_malloc 44 mem, buf) of
     (Some m, Some _) \<Rightarrow>
       let dreq = (discovery_req_of m)\<lparr>dq_header := \<lparr>ph_type = DISC, ph_code = REQ\<rparr>, dq_port := htons port\<rparr> in
       bindO (copy_string (dq_source_id dreq) source_id) (\<lambda>s.
       bindO (copy_string (dq_target_id dreq) target_id) (\<lambda>t.
       write_packet buf (discovery_req_bytes (dreq\<lparr>dq_source_id := s, dq_target_id := t\<rparr>))))
   | _ \<Rightarrow> Done (C_ERROR, buf))"

text \<open>The option is written again for each item, so its reserved field keeps what \<open>malloc\<close> left.\<close>

fun options_loop :: "bucket_item list \<Rightarrow> PMP_options \<Rightarrow> bytes outcome" where
  "options_loop [] opt = Done []"
| "options_loop (item # items) opt =
     (let opt = opt\<lparr>op_port := htons (bi_port item), op_ipv4 := inet_addr (bi_ipv4 item)\<rparr> in
      bindO (c_memcpy (op_node_id opt) 0 (bi_node_id item) 20) (\<lambda>node.
      let opt = opt\<lparr>op_node_id := node\<rparr> in
      bindO (options_loop items opt) (\<lambda>rest. Done (options_bytes opt @ rest))))"

text \<open>The items are those of the caller's array, of which \<open>size\<close> are read.\<close>

definition read_items :: "bucket_item list \<Rightarrow> int \<Rightarrow> bucket_item list outcome" where
  "read_items arr n = (if n \<le> int (length arr) then Done (take (nat n) arr) else Undefined)"

definition PMP_discovery_rsp_pkt :: "bytes \<Rightarrow> bucket_item list \<Rightarrow> int \<Rightarrow> junk option \<Rightarrow> junk option \<Rightarrow> bytes option
    \<Rightarrow> (int \<times> bytes option) outcome" where
  "PMP_discovery_rsp_pkt target_id arr n mem1 mem2 buf = (case (c_malloc 24 mem1, c_malloc 28 mem2, buf) of
     (Some m1, Some m2, Some _) \<Rightarrow>
       let drsp = (discovery_rsp_of m1)\<lparr>dp_header := \<lparr>ph_type = DISC, ph_code = RSP\<rparr>, dp_count := htons (of_int n)\<rparr> in
       bindO (copy_string (dp_target_id drsp) target_id) (\<lambda>t.
       bindO (read_items arr n) (\<lambda>its.
       bindO (options_loop its (options_of m2)) (\<lambda>opts.
       write_packet buf (discovery_rsp_bytes (drsp\<lparr>dp_target_id := t\<rparr>) @ opts))))
   | _ \<Rightarrow> Done (C_ERROR, buf))"

definition PMP_ping_req_pkt :: "bytes option \<Rightarrow> bytes option \<Rightarrow> junk option \<Rightarrow> bytes option \<Rightarrow> (int \<times> bytes option) outcome" where
  "PMP_ping_req_pkt source_id target_id mem buf = (case (source_id, target_id, c_malloc 44 mem) of
     (Some source, Some target, Some m) \<Rightarrow>
       let preq = (ping_req_of m)\<lparr>pi_header := \<lparr>ph_type = PING, ph_code = REQ\<rparr>, pi_reserve := 0\<rparr> in
       bindO (c_memcpy (pi_source_id preq) 0 source 20) (\<lambda>s.
       bindO (c_memcpy (pi_target_id preq) 0 target 20) (\<lambda>t.
       write_packet buf (ping_req_bytes (preq\<lparr>pi_source_id := s, pi_target_id := t\<rparr>))))
   | _ \<Rightarrow> Done (C_ERROR, buf))"

definition PMP_ping_rsp_pkt :: "bytes option \<Rightarrow> bytes option \<Rightarrow> junk option \<Rightarrow> bytes option \<Rightarrow> (int \<times> bytes option) outcome" where
  "PMP_ping_rsp_pkt source_id target_id mem buf = (case (source_id, target_id, c_malloc 44 mem) of
     (Some source, Some target, Some m) \<Rightarrow>
       let prsp = (ping_req_of m)\<lparr>pi_header := \<lparr>ph_type = PING, ph_code = RSP\<rparr>\<rparr> in
       bindO (c_memcpy (pi_source_id prsp) 0 source 20) (\<lambda>s.
       bindO (c_memcpy (pi_target_id prsp) 0 target 20) (\<lambda>t.
       write_packet buf (ping_req_bytes (prsp\<lparr>pi_source_id := s, pi_target_id := t\<rparr>))))
   | _ \<Rightarrow> Done (C_ERROR, buf))"

definition PMP_get_peers_req_pkt :: "bytes option \<Rightarrow> bytes option \<Rightarrow> junk option \<Rightarrow> bytes option \<Rightarrow> (int \<times> bytes option) outcome" where
  "PMP_get_peers_req_pkt source_id target_id mem buf = (case (buf, source_id, target_id, c_malloc 44 mem) of
     (Some _, Some source, Some target, Some m) \<Rightarrow>
       let gp_req = (ping_req_of m)\<lparr>pi_header := \<lparr>ph_type = G_PS, ph_code = REQ\<rparr>, pi_reserve := 0\<rparr> in
       bindO (copy_string (pi_source_id gp_req) source) (\<lambda>s.
       bindO (copy_string (pi_target_id gp_req) target) (\<lambda>t.
       write_packet buf (ping_req_bytes (gp_req\<lparr>pi_source_id := s, pi_target_id := t\<rparr>))))
   | _ \<Rightarrow> Done (C_ERROR, buf))"

fun peers_loop :: "bucket_item list \<Rightarrow> PMP_get_peers_options \<Rightarrow> bytes outcome" where
  "peers_loop [] opt = Done []"
| "peers_loop (item # items) opt =
     bindO (c_memcpy (go_node_id opt) 0 (bi_node_id item) 20) (\<lambda>node.
     let opt = opt\<lparr>go_node_id := node, go_ipv4 := inet_addr (bi_ipv4 item), go_vlan_ipv4 := inet_addr (bi_vlan_ipv4 item),
                   go_nat_type := of_int (bi_nat_type item), go_port := htons (bi_port item)\<rparr> in
     bindO (peers_loop items opt) (\<lambda>rest. Done (get_peers_options_bytes opt @ rest)))"

definition PMP_get_peers_rsp_pkt :: "bytes option \<Rightarrow> bucket_item list option \<Rightarrow> int \<Rightarrow> junk option \<Rightarrow> junk option \<Rightarrow> bytes option
    \<Rightarrow> (int \<times> bytes option) outcome" where
  "PMP_get_peers_rsp_pkt target_id arr n mem1 mem2 buf = (case (target_id, arr, buf) of
     (Some target, Some items, Some b) \<Rightarrow>
       if n \<le> 0 then Done (C_ERROR, buf)
       else (case c_malloc 24 mem1 of
         None \<Rightarrow> Done (C_ERROR, buf)
       | Some m1 \<Rightarrow>
         let gp_rsp = (get_peers_rsp_of m1)\<lparr>gp_header := \<lparr>ph_type = G_PS, ph_code = RSP\<rparr>, gp_count := htons (of_int n)\<rparr> in
         bindO (copy_string (gp_target_id gp_rsp) target) (\<lambda>t.
         let rsp = get_peers_rsp_bytes (gp_rsp\<lparr>gp_target_id := t\<rparr>) in
         bindO (c_memcpy b 0 rsp 24) (\<lambda>b.
         case c_malloc 32 mem2 of
           None \<Rightarrow> Done (C_ERROR, Some b)
         | Some m2 \<Rightarrow>
             bindO (read_items items n) (\<lambda>its.
             bindO (peers_loop its (get_peers_options_of m2)) (\<lambda>opts. write_packet (Some b) (rsp @ opts))))))
   | _ \<Rightarrow> Done (C_ERROR, buf))"

definition PMP_peer_registry_req_pkt :: "bytes option \<Rightarrow> bytes option \<Rightarrow> bytes option \<Rightarrow> nat_type \<Rightarrow> junk option \<Rightarrow> bytes option
    \<Rightarrow> (int \<times> bytes option) outcome" where
  "PMP_peer_registry_req_pkt mstp_id peer_id vlan_ipv4 ty mem buf = (case (mstp_id, peer_id, vlan_ipv4, buf, c_malloc 56 mem) of
     (Some mstp, Some peer, Some vlan, Some _, Some m) \<Rightarrow>
       let pr = (peer_registry_req_of m)\<lparr>rr_header := \<lparr>ph_type = R_P, ph_code = REQ\<rparr>,
                  rr_nat_type := htons (of_int (nt_nat_type ty)), rr_port := htons (of_int (nt_port ty)),
                  rr_ipv4 := inet_addr (nt_ipv4 ty), rr_vlan_ipv4 := inet_addr vlan\<rparr> in
       bindO (c_memcpy (rr_mstp_id pr) 0 mstp 20) (\<lambda>s.
       bindO (c_memcpy (rr_peer_id pr) 0 peer 20) (\<lambda>t.
       write_packet buf (peer_registry_req_bytes (pr\<lparr>rr_mstp_id := s, rr_peer_id := t\<rparr>))))
   | _ \<Rightarrow> Done (C_ERROR, buf))"

definition PMP_peer_registry_rsp_pkt :: "bytes option \<Rightarrow> bytes option \<Rightarrow> junk option \<Rightarrow> bytes option \<Rightarrow> (int \<times> bytes option) outcome" where
  "PMP_peer_registry_rsp_pkt mstp_id peer_id mem buf = (case (mstp_id, peer_id, buf, c_malloc 44 mem) of
     (Some mstp, Some peer, Some _, Some m) \<Rightarrow>
       let pr = (ping_req_of m)\<lparr>pi_header := \<lparr>ph_type = R_P, ph_code = RSP\<rparr>\<rparr> in
       bindO (c_memcpy (pi_source_id pr) 0 mstp 20) (\<lambda>s.
       bindO (c_memcpy (pi_target_id pr) 0 peer 20) (\<lambda>t.
       write_packet buf (ping_req_bytes (pr\<lparr>pi_source_id := s, pi_target_id := t\<rparr>))))
   | _ \<Rightarrow> Done (C_ERROR, buf))"

definition PMP_find_peer_req_pkt :: "bytes option \<Rightarrow> bytes option \<Rightarrow> bytes option \<Rightarrow> junk option \<Rightarrow> bytes option
    \<Rightarrow> (int \<times> bytes option) outcome" where
  "PMP_find_peer_req_pkt peer_id mstp_id vlan_ipv4 mem buf = (case (peer_id, mstp_id, vlan_ipv4, buf, c_malloc 48 mem) of
     (Some peer, Some mstp, Some vlan, Some _, Some m) \<Rightarrow>
       let fpreq = (find_peer_req_of m)\<lparr>fq_header := \<lparr>ph_type = F_P, ph_code = REQ\<rparr>, fq_vlan_ipv4 := inet_addr vlan\<rparr> in
       bindO (c_memcpy (fq_mstp_id fpreq) 0 mstp 20) (\<lambda>s.
       bindO (c_memcpy (fq_peer_id fpreq) 0 peer 20) (\<lambda>t.
       write_packet buf (find_peer_req_bytes (fpreq\<lparr>fq_mstp_id := s, fq_peer_id := t\<rparr>))))
   | _ \<Rightarrow> Done (C_ERROR, buf))"

definition PMP_find_peer_rsp_pkt :: "bytes option \<Rightarrow> bytes option \<Rightarrow> bucket_item \<Rightarrow> junk option \<Rightarrow> bytes option
    \<Rightarrow> (int \<times> bytes option) outcome" where
  "PMP_find_peer_rsp_pkt mstp_id peer_id item mem buf = (case (mstp_id, peer_id, buf, c_malloc 56 mem) of
     (Some mstp, Some peer, Some _, Some m) \<Rightarrow>
       let fprsp = (peer_registry_req_of m)\<lparr>rr_header := \<lparr>ph_type = F_P, ph_code = RSP\<rparr>,
                  rr_ipv4 := inet_addr (bi_ipv4 item), rr_port := htons (bi_port item),
                  rr_nat_type := htons (of_int (bi_nat_type item)), rr_vlan_ipv4 := inet_addr (bi_vlan_ipv4 item)\<rparr> in
       bindO (c_memcpy (rr_mstp_id fprsp) 0 mstp 20) (\<lambda>s.
       bindO (c_memcpy (rr_peer_id fprsp) 0 peer 20) (\<lambda>t.
       write_packet buf (peer_registry_req_bytes (fprsp\<lparr>rr_mstp_id := s, rr_peer_id := t\<rparr>))))
   | _ \<Rightarrow> Done (C_ERROR, buf))"

section \<open>Reading packets\<close>

text \<open>\<open>strncpy(dst, src, 20); dst[20] = 0\<close>\<close>

definition take_id :: "bytes \<Rightarrow> bytes \<Rightarrow> bytes outcome" where
  "take_id dst src = bindO (c_strncpy dst src 20) (\<lambda>dst. c_put dst 20 0)"

text \<open>Results: the code, then what the pointer arguments are set to.  The port is not converted.\<close>

definition PMP_discovery_req_unpack :: "u16 \<Rightarrow> bytes \<Rightarrow> bytes \<Rightarrow> bytes \<Rightarrow> int \<Rightarrow> (int \<times> u16 \<times> bytes \<times> bytes) outcome" where
  "PMP_discovery_req_unpack port source_id target_id buf n =
     (if as_size n < 44 then Done (C_ERROR, port, source_id, target_id)
      else bindO (c_read buf 0 44) (\<lambda>m. let dreq = discovery_req_of m in
        bindO (take_id target_id (dq_target_id dreq)) (\<lambda>t.
        bindO (take_id source_id (dq_source_id dreq)) (\<lambda>s.
        Done (OK, dq_port dreq, s, t)))))"

text \<open>The local item keeps its contents from one option to the next; \<open>clock\<close> gives the time of each addition.\<close>

fun discovery_loop :: "nat \<Rightarrow> bytes \<Rightarrow> nat \<Rightarrow> bucket_item \<Rightarrow> (nat \<Rightarrow> int) \<Rightarrow> bool \<times> bucket \<Rightarrow> (bool \<times> bucket) outcome" where
  "discovery_loop 0 buf offset item clock w = Done w"
| "discovery_loop (Suc count) buf offset item clock w =
     bindO (c_read buf offset 28) (\<lambda>m. let opt = options_of m; item = item\<lparr>bi_port := op_port opt\<rparr> in
     bindO (c_memcpy (bi_node_id item) 0 (op_node_id opt) 20) (\<lambda>node.
     bindO (store_ntoa (bi_ipv4 item) (op_ipv4 opt)) (\<lambda>ipv4.
     let item = item\<lparr>bi_node_id := node, bi_ipv4 := ipv4\<rparr> in
     bindO (push_front_bucket (clock count) item w) (\<lambda>w. discovery_loop count buf (offset + 28) item clock w))))"

definition PMP_discovery_rsp_unpack :: "bucket_item \<Rightarrow> (nat \<Rightarrow> int) \<Rightarrow> bytes \<Rightarrow> int \<Rightarrow> bool \<times> bucket \<Rightarrow> (int \<times> bool \<times> bucket) outcome" where
  "PMP_discovery_rsp_unpack item clock buf n w =
     (if as_size n < 44 then Done (C_ERROR, w)
      else bindO (c_read buf 0 24) (\<lambda>m. let count = unat (dp_count (discovery_rsp_of m)) in
        if as_size n < count * 28 + 24 then Done (C_ERROR, w)
        else bindO (discovery_loop count buf 24 item clock w) (\<lambda>w. Done (OK, w))))"

definition PMP_ping_req_unpack :: "bytes \<Rightarrow> bytes \<Rightarrow> bytes \<Rightarrow> int \<Rightarrow> (int \<times> bytes \<times> bytes) outcome" where
  "PMP_ping_req_unpack source_id target_id buf n =
     (if as_size n < 44 then Done (C_ERROR, source_id, target_id)
      else bindO (c_read buf 0 44) (\<lambda>m. let preq = ping_req_of m in
        bindO (take_id source_id (pi_source_id preq)) (\<lambda>s.
        bindO (take_id target_id (pi_target_id preq)) (\<lambda>t. Done (OK, s, t)))))"

fun get_peers_loop :: "nat \<Rightarrow> bytes \<Rightarrow> nat \<Rightarrow> bucket_item \<Rightarrow> (nat \<Rightarrow> int) \<Rightarrow> bool \<times> bucket \<Rightarrow> (bool \<times> bucket) outcome" where
  "get_peers_loop 0 buf offset item clock w = Done w"
| "get_peers_loop (Suc count) buf offset item clock w =
     bindO (c_read buf offset 32) (\<lambda>m. let opt = get_peers_options_of m;
       item = item\<lparr>bi_port := htons (go_port opt), bi_nat_type := uint (go_nat_type opt)\<rparr> in
     bindO (c_memcpy (bi_node_id item) 0 (go_node_id opt) 20) (\<lambda>node.
     bindO (store_ntoa (bi_ipv4 item) (go_ipv4 opt)) (\<lambda>ipv4.
     bindO (store_ntoa (bi_vlan_ipv4 item) (go_vlan_ipv4 opt)) (\<lambda>vlan.
     let item = item\<lparr>bi_node_id := node, bi_ipv4 := ipv4, bi_vlan_ipv4 := vlan\<rparr> in
     bindO (push_front_bucket (clock count) item w) (\<lambda>w. get_peers_loop count buf (offset + 32) item clock w)))))"

definition PMP_get_peers_rsp_unpack :: "bucket_item \<Rightarrow> (nat \<Rightarrow> int) \<Rightarrow> bytes \<Rightarrow> int \<Rightarrow> bool \<times> bucket \<Rightarrow> (int \<times> bool \<times> bucket) outcome" where
  "PMP_get_peers_rsp_unpack item clock buf n w =
     (if as_size n < 24 then Done (C_ERROR, w)
      else bindO (c_read buf 0 24) (\<lambda>m. let count = unat (htons (gp_count (get_peers_rsp_of m))) in
        if as_size n < 24 + 32 * count then Done (C_ERROR, w)
        else bindO (get_peers_loop count buf 24 item clock w) (\<lambda>w. Done (OK, w))))"

definition PMP_peer_registry_req_unpack :: "bucket_item \<Rightarrow> int \<Rightarrow> bytes option \<Rightarrow> bytes option \<Rightarrow> int \<Rightarrow> bool \<times> bucket
    \<Rightarrow> (int \<times> bytes option \<times> bool \<times> bucket) outcome" where
  "PMP_peer_registry_req_unpack item now peer_id buf n w = (case (peer_id, buf) of
     (Some peer, Some b) \<Rightarrow>
       if as_size n < 56 then Done (C_ERROR, peer_id, w)
       else bindO (c_read b 0 56) (\<lambda>m. let pr = peer_registry_req_of m;
           item = item\<lparr>bi_nat_type := uint (htons (rr_nat_type pr)), bi_port := htons (rr_port pr)\<rparr> in
         bindO (store_ntoa (bi_ipv4 item) (rr_ipv4 pr)) (\<lambda>ipv4.
         bindO (store_ntoa (bi_vlan_ipv4 item) (rr_vlan_ipv4 pr)) (\<lambda>vlan.
         bindO (bindO (c_memcpy (bi_node_id item) 0 (rr_peer_id pr) 20) (\<lambda>node. c_put node 20 0)) (\<lambda>node.
         bindO (bindO (c_memcpy peer 0 node 20) (\<lambda>peer. c_put peer 20 0)) (\<lambda>peer.
         let item = item\<lparr>bi_ipv4 := ipv4, bi_vlan_ipv4 := vlan, bi_node_id := node\<rparr> in
         bindO (push_front_bucket now item w) (\<lambda>w. Done (OK, Some peer, w)))))))
   | _ \<Rightarrow> Done (C_ERROR, peer_id, w))"

definition PMP_find_peer_req_unpack :: "bytes option \<Rightarrow> bytes option \<Rightarrow> bucket_item option \<Rightarrow> bytes option \<Rightarrow> int \<Rightarrow> bool \<times> bucket
    \<Rightarrow> (int \<times> bytes option \<times> bytes option \<times> bucket_item option \<times> bool \<times> bucket) outcome" where
  "PMP_find_peer_req_unpack peer_id mstp_id item buf n w = (case (peer_id, mstp_id, item, buf) of
     (Some peer, Some mstp, Some _, Some b) \<Rightarrow>
       if as_size n < 48 then Done (C_ERROR, peer_id, mstp_id, item, w)
       else bindO (c_read b 0 48) (\<lambda>m. let fpreq = find_peer_req_of m in
         bindO (c_strncpy (replicate 16 0) (inet_ntoa (fq_vlan_ipv4 fpreq)) (length (inet_ntoa (fq_vlan_ipv4 fpreq)))) (\<lambda>ipv4.
         bindO (bindO (c_memcpy peer 0 (fq_peer_id fpreq) 20) (\<lambda>peer. c_put peer 20 0)) (\<lambda>peer.
         bindO (bindO (c_memcpy mstp 0 (fq_mstp_id fpreq) 20) (\<lambda>mstp. c_put mstp 20 0)) (\<lambda>mstp.
         bindO (get_item_by_vlan_ipv4 (Some ipv4) item w) (\<lambda>(ret, item, w). Done (ret, Some peer, Some mstp, item, w))))))
   | _ \<Rightarrow> Done (C_ERROR, peer_id, mstp_id, item, w))"

section \<open>Structs and their memory\<close>

named_theorems pmp_mem \<open>reading a struct out of the bytes it was written as\<close>

lemma header_of_bytes [pmp_mem]: "header_of (header_bytes h @ xs) = h"
  by (simp add: header_of_def header_bytes_def)

lemma length_header_bytes [simp]: "length (header_bytes h) = 2"
  by (simp add: header_bytes_def)

lemma segment_0 [pmp_mem]: "n = length xs \<Longrightarrow> segment (xs @ ys) 0 n = xs"
  by (simp add: segment_def)

lemma segment_skip [pmp_mem]: "length xs \<le> n \<Longrightarrow> segment (xs @ ys) n k = segment ys (n - length xs) k"
  by (simp add: segment_def)

lemma segment_all [pmp_mem]: "n = length xs \<Longrightarrow> segment xs 0 n = xs"
  by (simp add: segment_def)

lemma discovery_rsp_mem:
  "length (dp_target_id r) = 20 \<Longrightarrow> discovery_rsp_of (discovery_rsp_bytes r @ rest) = r"
  "length (dp_target_id r) = 20 \<Longrightarrow> length (discovery_rsp_bytes r) = 24"
  by (simp_all add: discovery_rsp_of_def discovery_rsp_bytes_def pmp_mem)

lemma discovery_req_mem:
  assumes "length (dq_target_id r) = 20" "length (dq_source_id r) = 20"
  shows "discovery_req_of (discovery_req_bytes r @ rest) = r" "length (discovery_req_bytes r) = 44"
  using assms by (simp_all add: discovery_req_of_def discovery_req_bytes_def pmp_mem)

lemma options_mem:
  assumes "length (op_node_id r) = 20"
  shows "options_of (options_bytes r @ rest) = r" "length (options_bytes r) = 28"
  using assms by (simp_all add: options_of_def options_bytes_def pmp_mem)

lemma ping_req_mem:
  assumes "length (pi_target_id r) = 20" "length (pi_source_id r) = 20"
  shows "ping_req_of (ping_req_bytes r @ rest) = r" "length (ping_req_bytes r) = 44"
  using assms by (simp_all add: ping_req_of_def ping_req_bytes_def pmp_mem)

lemma get_peers_rsp_mem:
  assumes "length (gp_target_id r) = 20"
  shows "get_peers_rsp_of (get_peers_rsp_bytes r @ rest) = r" "length (get_peers_rsp_bytes r) = 24"
  using assms by (simp_all add: get_peers_rsp_of_def get_peers_rsp_bytes_def pmp_mem)

lemma get_peers_options_mem:
  assumes "length (go_node_id r) = 20"
  shows "get_peers_options_of (get_peers_options_bytes r @ rest) = r" "length (get_peers_options_bytes r) = 32"
  using assms by (simp_all add: get_peers_options_of_def get_peers_options_bytes_def segment_def drop_Cons')

lemma peer_registry_req_mem:
  assumes "length (rr_mstp_id r) = 20" "length (rr_peer_id r) = 20"
  shows "peer_registry_req_of (peer_registry_req_bytes r @ rest) = r" "length (peer_registry_req_bytes r) = 56"
  using assms by (simp_all add: peer_registry_req_of_def peer_registry_req_bytes_def pmp_mem)

lemma find_peer_req_mem:
  assumes "length (fq_mstp_id r) = 20" "length (fq_peer_id r) = 20"
  shows "find_peer_req_of (find_peer_req_bytes r @ rest) = r" "length (find_peer_req_bytes r) = 48"
  using assms by (simp_all add: find_peer_req_of_def find_peer_req_bytes_def pmp_mem)

text \<open>The arrays of a struct in a block of memory have their lengths.\<close>

lemma arrays_of [simp]:
  "44 \<le> length m \<Longrightarrow> length (dq_target_id (discovery_req_of m)) = 20"
  "44 \<le> length m \<Longrightarrow> length (dq_source_id (discovery_req_of m)) = 20"
  "24 \<le> length m \<Longrightarrow> length (dp_target_id (discovery_rsp_of m)) = 20"
  "28 \<le> length m \<Longrightarrow> length (op_node_id (options_of m)) = 20"
  "44 \<le> length m \<Longrightarrow> length (pi_target_id (ping_req_of m)) = 20"
  "44 \<le> length m \<Longrightarrow> length (pi_source_id (ping_req_of m)) = 20"
  "24 \<le> length m \<Longrightarrow> length (gp_target_id (get_peers_rsp_of m)) = 20"
  "32 \<le> length m \<Longrightarrow> length (go_node_id (get_peers_options_of m)) = 20"
  "56 \<le> length m \<Longrightarrow> length (rr_mstp_id (peer_registry_req_of m)) = 20"
  "56 \<le> length m \<Longrightarrow> length (rr_peer_id (peer_registry_req_of m)) = 20"
  "48 \<le> length m \<Longrightarrow> length (fq_mstp_id (find_peer_req_of m)) = 20"
  "48 \<le> length m \<Longrightarrow> length (fq_peer_id (find_peer_req_of m)) = 20"
  by (simp_all add: discovery_req_of_def discovery_rsp_of_def options_of_def ping_req_of_def get_peers_rsp_of_def
      get_peers_options_of_def peer_registry_req_of_def find_peer_req_of_def)

lemma write_packet_ok [simp]:
  "length pkt \<le> length b \<Longrightarrow> write_packet (Some b) pkt = Done (int (length pkt), Some (pkt @ drop (length pkt) b))"
  by (simp add: write_packet_def splice_at_def)

text \<open>Copies of identifiers: \<open>node_id20\<close> is what a 20-byte field holds of the array.\<close>

definition copied :: "bytes \<Rightarrow> bytes \<Rightarrow> bytes" where
  "copied old s = c_str s @ drop (length (c_str s)) old"

lemma copy_string_ok [simp]:
  assumes "is_str s" "length (c_str s) \<le> length old"
  shows "copy_string old s = Done (copied old s)"
proof -
  have "length (c_str s) \<le> length s"
    using length_c_str [OF assms(1)] by simp
  moreover have "take (length (c_str s)) s = c_str s"
    using is_str_split [OF assms(1)] by (metis append_eq_conv_conj)
  ultimately show ?thesis
    using assms by (simp add: copy_string_def splice_at_def copied_def)
qed

lemma length_copied [simp]: "length (c_str s) \<le> length old \<Longrightarrow> length (copied old s) = length old"
  by (simp add: copied_def)

lemma copied_full: "length (c_str s) = length old \<Longrightarrow> copied old s = c_str s"
  by (simp add: copied_def)

lemma splice_at_whole [simp]: "length d = n \<Longrightarrow> length s = n \<Longrightarrow> splice_at d 0 s = s"
  by (simp add: splice_at_def)

lemma take_id_ok [simp]:
  assumes "length dst = 21" "length src = 20"
  shows "take_id dst src = Done (c_str src @ replicate (21 - length (c_str src)) 0)"
proof -
  have l: "length (c_str src) \<le> 20"
    using length_takeWhile_le [of "\<lambda>b. b \<noteq> 0" src] assms by (simp add: c_str_def)
  then have "c_strncpy dst src 20 = Done (c_str src @ replicate (20 - length (c_str src)) 0 @ drop 20 dst)"
    using assms by (simp add: c_strncpy_def Let_def splice_at_def)
  then have "take_id dst src = Done ((c_str src @ replicate (20 - length (c_str src)) 0 @ drop 20 dst)[20 := 0])"
    using assms l by (simp add: take_id_def)
  moreover obtain x where "drop 20 dst = [x]"
    using assms(1) length_drop [of 20 dst] by (cases "drop 20 dst") auto
  moreover have "replicate (20 - length (c_str src)) (0 :: byte) @ [0] = replicate (21 - length (c_str src)) 0"
    using l by (simp add: replicate_append_same Suc_diff_le flip: replicate_Suc)
  ultimately show ?thesis
    using l by (simp add: list_update_append)
qed

section \<open>What packing and unpacking do\<close>

lemma segment_start [simp]: "segment b 0 n = take n b"
  by (simp add: segment_def)

lemma c_str_snoc_zero [simp]: "c_str (xs @ [0]) = c_str xs"
  by (induction xs) (simp_all add: c_str_def)

lemma pmp_mem_nil [simp]:
  "length (dq_target_id q) = 20 \<Longrightarrow> length (dq_source_id q) = 20 \<Longrightarrow> discovery_req_of (discovery_req_bytes q) = q"
  "length (dp_target_id d) = 20 \<Longrightarrow> discovery_rsp_of (discovery_rsp_bytes d) = d"
  "length (op_node_id p) = 20 \<Longrightarrow> options_of (options_bytes p) = p"
  "length (pi_target_id i) = 20 \<Longrightarrow> length (pi_source_id i) = 20 \<Longrightarrow> ping_req_of (ping_req_bytes i) = i"
  "length (gp_target_id g) = 20 \<Longrightarrow> get_peers_rsp_of (get_peers_rsp_bytes g) = g"
  "length (go_node_id h) = 20 \<Longrightarrow> get_peers_options_of (get_peers_options_bytes h) = h"
  "length (rr_mstp_id r) = 20 \<Longrightarrow> length (rr_peer_id r) = 20 \<Longrightarrow> peer_registry_req_of (peer_registry_req_bytes r) = r"
  "length (fq_mstp_id f) = 20 \<Longrightarrow> length (fq_peer_id f) = 20 \<Longrightarrow> find_peer_req_of (find_peer_req_bytes f) = f"
  using discovery_req_mem(1) [of q "[]"] discovery_rsp_mem(1) [of d "[]"] options_mem(1) [of p "[]"] ping_req_mem(1) [of i "[]"]
    get_peers_rsp_mem(1) [of g "[]"] get_peers_options_mem(1) [of h "[]"] peer_registry_req_mem(1) [of r "[]"]
    find_peer_req_mem(1) [of f "[]"] by simp_all

text \<open>A registry request and the item that a master peer makes of it.\<close>

definition registry_req :: "junk \<Rightarrow> bytes \<Rightarrow> bytes \<Rightarrow> bytes \<Rightarrow> nat_type \<Rightarrow> PMP_peer_registry_req" where
  "registry_req junk mstp peer vlan ty = (peer_registry_req_of (map junk [0..<56]))\<lparr>rr_header := \<lparr>ph_type = R_P, ph_code = REQ\<rparr>,
     rr_nat_type := htons (of_int (nt_nat_type ty)), rr_port := htons (of_int (nt_port ty)), rr_ipv4 := inet_addr (nt_ipv4 ty),
     rr_vlan_ipv4 := inet_addr vlan, rr_mstp_id := take 20 mstp, rr_peer_id := take 20 peer\<rparr>"

definition find_rsp :: "junk \<Rightarrow> bytes \<Rightarrow> bytes \<Rightarrow> bucket_item \<Rightarrow> PMP_peer_registry_req" where
  "find_rsp junk mstp peer item = (peer_registry_req_of (map junk [0..<56]))\<lparr>rr_header := \<lparr>ph_type = F_P, ph_code = RSP\<rparr>,
     rr_ipv4 := inet_addr (bi_ipv4 item), rr_port := htons (bi_port item), rr_nat_type := htons (of_int (bi_nat_type item)),
     rr_vlan_ipv4 := inet_addr (bi_vlan_ipv4 item), rr_mstp_id := take 20 mstp, rr_peer_id := take 20 peer\<rparr>"

lemma registry_req_pkt_Done:
  assumes "20 \<le> length mstp" "20 \<le> length peer" "56 \<le> length buf"
  shows "PMP_peer_registry_req_pkt (Some mstp) (Some peer) (Some vlan) ty (Some junk) (Some buf) =
    Done (56, Some (peer_registry_req_bytes (registry_req junk mstp peer vlan ty) @ drop 56 buf))"
proof -
  have l: "length (peer_registry_req_bytes (registry_req junk mstp peer vlan ty)) = 56"
    using assms by (simp add: registry_req_def peer_registry_req_mem)
  show ?thesis
    using assms l by (simp add: PMP_peer_registry_req_pkt_def registry_req_def Let_def)
qed

lemma find_rsp_pkt_Done:
  assumes "20 \<le> length mstp" "20 \<le> length peer" "56 \<le> length buf"
  shows "PMP_find_peer_rsp_pkt (Some mstp) (Some peer) item (Some junk) (Some buf) =
    Done (56, Some (peer_registry_req_bytes (find_rsp junk mstp peer item) @ drop 56 buf))"
proof -
  have l: "length (peer_registry_req_bytes (find_rsp junk mstp peer item)) = 56"
    using assms by (simp add: find_rsp_def peer_registry_req_mem)
  show ?thesis
    using assms l by (simp add: PMP_find_peer_rsp_pkt_def find_rsp_def Let_def)
qed

definition item_arrays :: "bucket_item \<Rightarrow> bool" where
  "item_arrays it \<longleftrightarrow> length (bi_ipv4 it) = 16 \<and> length (bi_node_id it) = 21 \<and> length (bi_vlan_ipv4 it) = 16"

lemma item_ok_arrays: "item_ok it \<Longrightarrow> item_arrays it"
  by (simp add: item_ok_def item_arrays_def)

definition registered :: "bucket_item \<Rightarrow> PMP_peer_registry_req \<Rightarrow> bucket_item" where
  "registered item pr = item\<lparr>bi_nat_type := uint (htons (rr_nat_type pr)), bi_port := htons (rr_port pr),
     bi_ipv4 := stored_ntoa (bi_ipv4 item) (rr_ipv4 pr), bi_vlan_ipv4 := stored_ntoa (bi_vlan_ipv4 item) (rr_vlan_ipv4 pr),
     bi_node_id := rr_peer_id pr @ [0]\<rparr>"

lemma registered_ok:
  assumes "item_arrays item" "length (rr_peer_id pr) = 20"
  shows "item_ok (registered item pr)" "is_str (bi_vlan_ipv4 (registered item pr))" "node_name (registered item pr) = c_str (rr_peer_id pr)"
  using assms by (simp_all add: item_ok_def registered_def item_arrays_def node_name_def)

lemma id_terminated:
  assumes "length d = 21" "length s = 20"
  shows "bindO (c_memcpy d 0 s 20) (\<lambda>d. c_put d 20 0) = Done (s @ [0])"
proof -
  obtain x where "drop 20 d = [x]"
    using assms(1) length_drop [of 20 d] by (cases "drop 20 d") auto
  then show ?thesis
    using assms by (simp add: splice_at_def list_update_append)
qed

lemma registry_unpack_Done:
  assumes "item_arrays item" "length peer = 21" "56 \<le> length b" "56 \<le> as_size n"
  shows "PMP_peer_registry_req_unpack item now (Some peer) (Some b) n w =
    bindO (push_front_bucket now (registered item (peer_registry_req_of (take 56 b))) w)
      (\<lambda>w. Done (OK, Some (rr_peer_id (peer_registry_req_of (take 56 b)) @ [0]), w))"
proof -
  let ?pr = "peer_registry_req_of (take 56 b)"
  have l: "length (rr_peer_id ?pr) = 20"
    using assms(3) by simp
  have "bindO (c_memcpy peer 0 (rr_peer_id ?pr @ [0]) 20) (\<lambda>p. c_put p 20 0) = Done (rr_peer_id ?pr @ [0])"
    using id_terminated [OF assms(2) l] l assms(2) by simp
  then show ?thesis
    using assms id_terminated [OF _ l] l
    by (simp add: PMP_peer_registry_req_unpack_def item_arrays_def store_ntoa_Done registered_def Let_def not_less del: c_memcpy_ok)
qed

lemma registry_unpack_short: "as_size n < 56 \<Longrightarrow> PMP_peer_registry_req_unpack item now (Some peer) (Some b) n w = Done (C_ERROR, Some peer, w)"
  by (simp add: PMP_peer_registry_req_unpack_def)

text \<open>The search for a peer.\<close>

definition find_req :: "junk \<Rightarrow> bytes \<Rightarrow> bytes \<Rightarrow> bytes \<Rightarrow> PMP_find_peer_req" where
  "find_req junk peer mstp vlan = (find_peer_req_of (map junk [0..<48]))\<lparr>fq_header := \<lparr>ph_type = F_P, ph_code = REQ\<rparr>,
     fq_vlan_ipv4 := inet_addr vlan, fq_mstp_id := take 20 mstp, fq_peer_id := take 20 peer\<rparr>"

lemma find_req_pkt_Done:
  assumes "20 \<le> length mstp" "20 \<le> length peer" "48 \<le> length buf"
  shows "PMP_find_peer_req_pkt (Some peer) (Some mstp) (Some vlan) (Some junk) (Some buf) =
    Done (48, Some (find_peer_req_bytes (find_req junk peer mstp vlan) @ drop 48 buf))"
proof -
  have l: "length (find_peer_req_bytes (find_req junk peer mstp vlan)) = 48"
    using assms by (simp add: find_req_def find_peer_req_mem)
  show ?thesis
    using assms l by (simp add: PMP_find_peer_req_pkt_def find_req_def Let_def)
qed

lemma find_req_unpack_Done:
  assumes "vlans_ok bkt" "length peer = 21" "length mstp = 21" "48 \<le> length b" "48 \<le> as_size n"
  shows "PMP_find_peer_req_unpack (Some peer) (Some mstp) (Some item) (Some b) n (False, bkt) =
    (let q = find_peer_req_of (take 48 b);
         found = find (\<lambda>it. c_str (bi_vlan_ipv4 it) = dotted (host32 (fq_vlan_ipv4 q))) (rev (bucket_items bkt)) in
     Done (if found = None then C_FAILED else OK, Some (fq_peer_id q @ [0]), Some (fq_mstp_id q @ [0]),
       Some (case found of None \<Rightarrow> item | Some it \<Rightarrow> it), False, bkt))"
proof -
  let ?q = "find_peer_req_of (take 48 b)"
  let ?t = "dotted (host32 (fq_vlan_ipv4 ?q))"
  have l: "length (fq_peer_id ?q) = 20" "length (fq_mstp_id ?q) = 20"
    using assms(4) by simp_all
  have v: "c_strncpy (replicate 16 0) (inet_ntoa (fq_vlan_ipv4 ?q)) (length (inet_ntoa (fq_vlan_ipv4 ?q))) =
      Done (?t @ 0 # replicate (15 - length ?t) 0)"
    using length_dotted [of "host32 (fq_vlan_ipv4 ?q)"]
    by (simp add: c_strncpy_def Let_def splice_at_def) (simp add: inet_ntoa_def)
  show ?thesis
    using assms l id_terminated [OF assms(2) l(1)] id_terminated [OF assms(3) l(2)]
    by (auto simp: PMP_find_peer_req_unpack_def v get_item_by_vlan_Done Let_def not_less split: option.splits simp del: c_memcpy_ok)
qed


section \<open>Lists of peers\<close>

text \<open>What the get-peers response says of an item, and the item that the reader makes of it.\<close>

definition peer_option :: "byte \<Rightarrow> bucket_item \<Rightarrow> PMP_get_peers_options" where
  "peer_option reserve item = \<lparr>go_nat_type = of_int (bi_nat_type item), go_reserve = reserve, go_port = htons (bi_port item),
     go_ipv4 = inet_addr (bi_ipv4 item), go_vlan_ipv4 = inet_addr (bi_vlan_ipv4 item), go_node_id = take 20 (bi_node_id item)\<rparr>"

definition learned :: "bucket_item \<Rightarrow> PMP_get_peers_options \<Rightarrow> bucket_item" where
  "learned item opt = item\<lparr>bi_port := htons (go_port opt), bi_nat_type := uint (go_nat_type opt),
     bi_node_id := go_node_id opt @ drop 20 (bi_node_id item), bi_ipv4 := stored_ntoa (bi_ipv4 item) (go_ipv4 opt),
     bi_vlan_ipv4 := stored_ntoa (bi_vlan_ipv4 item) (go_vlan_ipv4 opt)\<rparr>"

fun learned_list :: "bucket_item \<Rightarrow> PMP_get_peers_options list \<Rightarrow> bucket_item list" where
  "learned_list item [] = []"
| "learned_list item (opt # opts) = learned item opt # learned_list (learned item opt) opts"

lemma peers_loop_Done:
  assumes "\<forall>it \<in> set its. 20 \<le> length (bi_node_id it)" "length (go_node_id opt) = 20"
  shows "peers_loop its opt = Done (concat (map (\<lambda>it. get_peers_options_bytes (peer_option (go_reserve opt) it)) its))"
proof -
  have "opt\<lparr>go_node_id := take 20 (bi_node_id it), go_ipv4 := inet_addr (bi_ipv4 it), go_vlan_ipv4 := inet_addr (bi_vlan_ipv4 it),
      go_nat_type := of_int (bi_nat_type it), go_port := htons (bi_port it)\<rparr> = peer_option (go_reserve opt) it" for opt it
    by (cases opt) (simp add: peer_option_def)
  moreover have "go_reserve (peer_option r it) = r" "20 \<le> length (bi_node_id it) \<Longrightarrow> length (go_node_id (peer_option r it)) = 20" for r it
    by (simp_all add: peer_option_def)
  ultimately show ?thesis
    using assms by (induction its arbitrary: opt) (simp_all add: Let_def)
qed

lemma learned_arrays:
  "item_arrays item \<Longrightarrow> length (go_node_id opt) = 20 \<Longrightarrow> item_arrays (learned item opt)"
  "length (go_node_id opt) = 20 \<Longrightarrow> drop 20 (bi_node_id (learned item opt)) = drop 20 (bi_node_id item)"
  by (simp_all add: item_arrays_def learned_def)

text \<open>The times of the additions run backwards over the count.\<close>

fun with_times :: "(nat \<Rightarrow> int) \<Rightarrow> 'a list \<Rightarrow> (int \<times> 'a) list" where
  "with_times clock [] = []"
| "with_times clock (x # xs) = (clock (length xs), x) # with_times clock xs"

lemma set_with_times: "snd ` set (with_times clock xs) = set xs"
  by (induction xs) auto

lemma get_peers_loop_Done:
  assumes "item_arrays item" "\<forall>opt \<in> set opts. length (go_node_id opt) = 20"
    "segment buf offset (32 * length opts) = concat (map get_peers_options_bytes opts)" "offset + 32 * length opts \<le> length buf"
  shows "get_peers_loop (length opts) buf offset item clock w = push_all (with_times clock (learned_list item opts)) w"
  using assms
proof (induction opts arbitrary: offset item w)
  case (Cons opt opts)
  have n: "length (get_peers_options_bytes opt) = 32" "length (go_node_id opt) = 20"
    using Cons.prems(2) get_peers_options_mem(2) [of opt] by simp_all
  have s: "segment buf offset (32 + 32 * length opts) = get_peers_options_bytes opt @ concat (map get_peers_options_bytes opts)"
    using Cons.prems(3) by simp
  have "segment buf offset 32 = take 32 (segment buf offset (32 + 32 * length opts))"
    by (simp add: segment_def)
  then have m: "segment buf offset 32 = get_peers_options_bytes opt"
    using s n(1) by simp
  have "segment buf (offset + 32) (32 * length opts) = drop 32 (segment buf offset (32 + 32 * length opts))"
    by (simp add: segment_def drop_take add.commute)
  then have rest: "segment buf (offset + 32) (32 * length opts) = concat (map get_peers_options_bytes opts)"
    using s n(1) by simp
  have len: "length (learned_list i opts) = length opts" for i
    by (induction opts arbitrary: i) simp_all
  have "splice_at (bi_node_id item) 0 (go_node_id opt) = go_node_id opt @ drop 20 (bi_node_id item)"
    using n(2) by (simp add: splice_at_def)
  then have step: "get_peers_loop (Suc (length opts)) buf offset item clock w =
      bindO (push_front_bucket (clock (length opts)) (learned item opt) w) (get_peers_loop (length opts) buf (offset + 32) (learned item opt) clock)"
    using Cons.prems(1,4) n(2) by (simp add: m item_arrays_def store_ntoa_Done Let_def learned_def)
  have "get_peers_loop (length opts) buf (offset + 32) (learned item opt) clock = push_all (with_times clock (learned_list (learned item opt) opts))"
    by (rule ext, rule Cons.IH [OF learned_arrays(1) [OF Cons.prems(1) n(2)] _ rest]) (use Cons.prems(2,4) in auto)
  then show ?case
    using step by (simp add: len)
qed simp

lemma get_peers_rsp_pkt_Done:
  assumes "is_str target" "length (c_str target) \<le> 20" "0 < n" "n \<le> int (length arr)" "n < 2 ^ 16"
    "\<forall>it \<in> set (take (nat n) arr). 20 \<le> length (bi_node_id it)" "24 + 32 * nat n \<le> length buf"
  shows "\<exists>rsp. gp_count rsp = htons (of_int n) \<and> length (gp_target_id rsp) = 20 \<and>
    PMP_get_peers_rsp_pkt (Some target) (Some arr) n (Some junk1) (Some junk2) (Some buf) =
    Done (24 + 32 * n, Some (get_peers_rsp_bytes rsp @ concat (map (\<lambda>it. get_peers_options_bytes (peer_option (junk2 1) it)) (take (nat n) arr))
      @ drop (24 + 32 * nat n) buf))"
proof -
  let ?m = "map junk1 [0..<24]"
  define rsp where "rsp = (get_peers_rsp_of ?m)\<lparr>gp_header := \<lparr>ph_type = G_PS, ph_code = RSP\<rparr>, gp_count := htons (of_int n),
    gp_target_id := copied (gp_target_id (get_peers_rsp_of ?m)) target\<rparr>"
  let ?opts = "concat (map (\<lambda>it. get_peers_options_bytes (peer_option (junk2 1) it)) (take (nat n) arr))"
  have r: "length (gp_target_id rsp) = 20"
    using assms(2) by (simp add: rsp_def)
  then have l: "length (get_peers_rsp_bytes rsp) = 24"
    by (rule get_peers_rsp_mem)
  have each: "length (get_peers_options_bytes (peer_option (junk2 1) it)) = 32" if "it \<in> set (take (nat n) arr)" for it
    using assms(6) that by (subst get_peers_options_mem(2)) (auto simp: peer_option_def)
  have o: "length ?opts = 32 * nat n"
  proof -
    have "length (concat (map f xs)) = k * length xs" if "\<forall>x \<in> set xs. length (f x) = k" for f :: "bucket_item \<Rightarrow> bytes" and xs k
      using that by (induction xs) auto
    from this [of "take (nat n) arr" "\<lambda>it. get_peers_options_bytes (peer_option (junk2 1) it)" 32]
    show ?thesis
      using each assms(3,4) by simp
  qed
  have loop: "peers_loop (take (nat n) arr) (get_peers_options_of (map junk2 [0..<32])) = Done ?opts"
    using peers_loop_Done [OF assms(6), of "get_peers_options_of (map junk2 [0..<32])"] by (simp add: get_peers_options_of_def)
  have "PMP_get_peers_rsp_pkt (Some target) (Some arr) n (Some junk1) (Some junk2) (Some buf) =
    write_packet (Some (splice_at buf 0 (get_peers_rsp_bytes rsp))) (get_peers_rsp_bytes rsp @ ?opts)"
    using assms(1-4) l loop assms(7) by (simp add: PMP_get_peers_rsp_pkt_def Let_def rsp_def [symmetric] read_items_def) 
  also have "\<dots> = Done (24 + 32 * n, Some ((get_peers_rsp_bytes rsp @ ?opts) @ drop (24 + 32 * nat n) buf))"
    using l o assms(3,7) by (simp add: splice_at_def add.commute)
  finally show ?thesis
    using r by (intro exI [of _ rsp]) (simp add: rsp_def)
qed


text \<open>Two items that describe the same peer; the type of the NAT travels in a byte.\<close>

definition same_peer :: "bucket_item \<Rightarrow> bucket_item \<Rightarrow> bool" where
  "same_peer a b \<longleftrightarrow> bi_port b = bi_port a \<and> inet_addr (bi_ipv4 b) = inet_addr (bi_ipv4 a) \<and>
     inet_addr (bi_vlan_ipv4 b) = inet_addr (bi_vlan_ipv4 a) \<and> take 20 (bi_node_id b) = take 20 (bi_node_id a) \<and>
     bi_nat_type b = bi_nat_type a mod 256"

lemma learned_same: "20 \<le> length (bi_node_id it) \<Longrightarrow> same_peer it (learned item (peer_option r it))"
  by (simp add: same_peer_def learned_def peer_option_def uint_word_of_int)

lemma learned_list_same:
  "\<forall>it \<in> set its. 20 \<le> length (bi_node_id it) \<Longrightarrow> list_all2 same_peer its (learned_list item (map (peer_option r) its))"
  by (induction its arbitrary: item) (simp_all add: learned_same)

lemma learned_list_ok:
  assumes "item_arrays item" "\<forall>opt \<in> set opts. length (go_node_id opt) = 20" "bi_node_id item ! 20 = 0"
  shows "\<forall>it \<in> set (learned_list item opts). item_ok it \<and> is_str (bi_vlan_ipv4 it)"
  using assms
proof (induction opts arbitrary: item)
  case (Cons opt opts)
  have l: "length (go_node_id opt) = 20"
    using Cons.prems(2) by simp
  have z: "bi_node_id (learned item opt) ! 20 = 0" "length (bi_node_id (learned item opt)) = Suc 20"
    using Cons.prems(1,3) l by (simp_all add: learned_def item_arrays_def nth_append)
  then have "item_ok (learned item opt) \<and> is_str (bi_vlan_ipv4 (learned item opt))"
    using take_last_zero(1) [OF z(2,1)] Cons.prems(1) l by (simp add: item_ok_def learned_def item_arrays_def)
  then show ?case
    using Cons.IH [OF learned_arrays(1) [OF Cons.prems(1) l] _ z(1)] Cons.prems(2) by simp
qed simp

lemma length_options:
  "\<forall>opt \<in> set opts. length (go_node_id opt) = 20 \<Longrightarrow> length (concat (map get_peers_options_bytes opts)) = 32 * length opts"
  by (induction opts) (simp_all add: get_peers_options_mem)

lemma get_peers_unpack_Done:
  assumes "item_arrays item" "\<forall>opt \<in> set opts. length (go_node_id opt) = 20" "length opts < 2 ^ 16"
    "gp_count rsp = htons (of_nat (length opts))" "length (gp_target_id rsp) = 20" "as_size n = 24 + 32 * length opts"
    "take (24 + 32 * length opts) buf = get_peers_rsp_bytes rsp @ concat (map get_peers_options_bytes opts)" "24 + 32 * length opts \<le> length buf"
  shows "PMP_get_peers_rsp_unpack item clock buf n w =
    bindO (push_all (with_times clock (learned_list item opts)) w) (\<lambda>w. Done (OK, w))"
proof -
  have l: "length (get_peers_rsp_bytes rsp) = 24"
    using assms(5) by (rule get_peers_rsp_mem)
  have "take 24 buf = take 24 (take (24 + 32 * length opts) buf)"
    by simp
  then have h: "take 24 buf = get_peers_rsp_bytes rsp"
    using l by (simp add: assms(7))
  have "segment buf 24 (32 * length opts) = drop 24 (take (24 + 32 * length opts) buf)"
    by (simp add: segment_def drop_take)
  then have o: "segment buf 24 (32 * length opts) = concat (map get_peers_options_bytes opts)"
    using l by (simp add: assms(7))
  have c: "unat (gp_count rsp) = unat (gp_count rsp)" "unat (htons (gp_count rsp)) = length opts"
    using assms(3) by (simp_all add: assms(4) unat_word16)
  show ?thesis
    using assms(5,6,8) c(2) get_peers_loop_Done [OF assms(1,2) o assms(8)] by (simp add: PMP_get_peers_rsp_unpack_def h Let_def)
qed

text \<open>C28: the list of peers that a master peer sends is read back by the receiver: it adds, in the same order,
  items with the same identifiers, ports, public and virtual addresses, and the NAT types modulo 256.\<close>

theorem peer_list_roundtrip:
  assumes "is_str target" "length (c_str target) \<le> 20" "0 < n" "n \<le> int (length arr)" "n \<le> 255"
    "\<forall>it \<in> set (take (nat n) arr). item_ok it" "24 + 32 * nat n \<le> length buf" "item_arrays item"
  shows "\<exists>pkt its. PMP_get_peers_rsp_pkt (Some target) (Some arr) n (Some junk1) (Some junk2) (Some buf) = Done (24 + 32 * n, Some pkt) \<and>
    list_all2 same_peer (take (nat n) arr) its \<and>
    (\<forall>rbuf clock w. PMP_get_peers_rsp_unpack item clock (take (24 + 32 * nat n) pkt @ rbuf) (24 + 32 * n) w =
      bindO (push_all (with_times clock its) w) (\<lambda>w. Done (OK, w)))"
proof -
  let ?its = "take (nat n) arr" and ?opt = "peer_option (junk2 1)"
  have ids: "\<forall>it \<in> set ?its. 20 \<le> length (bi_node_id it)"
    using assms(6) by (simp add: item_ok_def)
  have len: "length ?its = nat n"
    using assms(3,4) by simp
  obtain rsp where r: "gp_count rsp = htons (of_int n)" "length (gp_target_id rsp) = 20"
    "PMP_get_peers_rsp_pkt (Some target) (Some arr) n (Some junk1) (Some junk2) (Some buf) =
      Done (24 + 32 * n, Some (get_peers_rsp_bytes rsp @ concat (map (\<lambda>it. get_peers_options_bytes (?opt it)) ?its) @ drop (24 + 32 * nat n) buf))"
    using get_peers_rsp_pkt_Done [OF assms(1-4) _ ids assms(7)] assms(5) by fastforce
  have each: "\<forall>opt \<in> set (map ?opt ?its). length (go_node_id opt) = 20"
    using ids by (auto simp: peer_option_def)
  have o: "length (concat (map get_peers_options_bytes (map ?opt ?its))) = 32 * nat n"
    unfolding length_options [OF each] length_map len ..
  have h: "length (get_peers_rsp_bytes rsp) = 24"
    using r(2) by (rule get_peers_rsp_mem)
  have "PMP_get_peers_rsp_unpack item clock ((get_peers_rsp_bytes rsp @ concat (map get_peers_options_bytes (map ?opt ?its))) @ rbuf) (24 + 32 * n) w =
      bindO (push_all (with_times clock (learned_list item (map ?opt ?its))) w) (\<lambda>w. Done (OK, w))" for rbuf clock w
  proof (rule get_peers_unpack_Done [OF assms(8) each, where rsp = rsp])
    show "gp_count rsp = htons (of_nat (length (map ?opt ?its)))"
      unfolding length_map len using r(1) assms(3) by simp
    show "as_size (24 + 32 * n) = 24 + 32 * length (map ?opt ?its)"
      unfolding length_map len using assms(3,5) by (simp add: as_size_nat nat_add_distrib nat_mult_distrib)
    show "length (map ?opt ?its) < 2 ^ 16"
      using len assms(3,5) by simp
    show "take (24 + 32 * length (map ?opt ?its)) ((get_peers_rsp_bytes rsp @ concat (map get_peers_options_bytes (map ?opt ?its))) @ rbuf) =
        get_peers_rsp_bytes rsp @ concat (map get_peers_options_bytes (map ?opt ?its))"
      using h o unfolding length_map len by simp
    show "24 + 32 * length (map ?opt ?its) \<le> length ((get_peers_rsp_bytes rsp @ concat (map get_peers_options_bytes (map ?opt ?its))) @ rbuf)"
      using h o unfolding length_map len by simp
  qed (rule r(2))
  then show ?thesis
    using r(3) learned_list_same [OF ids, of item "junk2 1"] h o
    by (intro exI [of _ "get_peers_rsp_bytes rsp @ concat (map (\<lambda>it. get_peers_options_bytes (?opt it)) ?its) @ drop (24 + 32 * nat n) buf"]
        exI [of _ "learned_list item (map ?opt ?its)"]) (simp add: comp_def)
qed


theorem peer_list_roundtrip_witness:
  "\<exists>pkt its. PMP_get_peers_rsp_pkt (Some (replicate 20 65 @ [0])) (Some [example_item 66, example_item 67]) 2 (Some (\<lambda>_. 1)) (Some (\<lambda>_. 2))
      (Some (replicate 8192 0)) = Done (88, Some pkt) \<and> list_all2 same_peer [example_item 66, example_item 67] its \<and>
    PMP_get_peers_rsp_unpack (example_item 9) (\<lambda>_. 0) (take 88 pkt @ replicate 8104 7) 88 (False, example_bucket) =
      bindO (push_all (with_times (\<lambda>_. 0) its) (False, example_bucket)) (\<lambda>w. Done (OK, w))"
proof -
  have "\<forall>it \<in> set (take (nat 2) [example_item 66, example_item 67]). item_ok it" "item_arrays (example_item 9)"
    by (auto simp: item_ok_def example_item_def is_str_def item_arrays_def numeral_2_eq_2)
  moreover have "is_str (replicate 20 65 @ [0])" "length (c_str (replicate 20 65 @ [0])) \<le> 20"
    by (simp_all add: c_str_id)
  ultimately obtain pkt its where p: "PMP_get_peers_rsp_pkt (Some (replicate 20 65 @ [0])) (Some [example_item 66, example_item 67]) 2 (Some (\<lambda>_. 1))
      (Some (\<lambda>_. 2)) (Some (replicate 8192 0)) = Done (24 + 32 * 2, Some pkt)"
    "list_all2 same_peer (take (nat 2) [example_item 66, example_item 67]) its"
    "\<forall>rbuf clock w. PMP_get_peers_rsp_unpack (example_item 9) clock (take (24 + 32 * nat 2) pkt @ rbuf) (24 + 32 * 2) w =
      bindO (push_all (with_times clock its) w) (\<lambda>w. Done (OK, w))"
    using peer_list_roundtrip [of "replicate 20 65 @ [0]" 2 "[example_item 66, example_item 67]" "replicate 8192 0" "example_item 9" "\<lambda>_. 1" "\<lambda>_. 2"]
    by auto
  have "88 = 24 + 32 * nat 2" "88 = 24 + 32 * (2 :: int)" "take (nat 2) [example_item 66, example_item 67] = [example_item 66, example_item 67]"
    by (simp_all add: numeral_2_eq_2)
  with p show ?thesis
    by metis
qed

section \<open>Discovery\<close>

lemma htons_byte: "htons (ucast (b :: byte)) = push_bit 8 (ucast b)"
  by (rule bit_word_eqI) (auto simp: htons_def of_host16_def be16_def bit_simps dest: bit_imp_le_length)

lemma of_nat_byte: "k < 256 \<Longrightarrow> ucast (of_nat k :: byte) = (of_nat k :: u16)"
  by (simp add: word_unat_eq_iff unsigned_ucast_eq unat_of_nat take_bit_nat_eq_self)

lemma options_loop_Done:
  assumes "\<forall>it \<in> set its. 20 \<le> length (bi_node_id it)" "length (op_node_id opt) = 20"
  shows "\<exists>opts. options_loop its opt = Done opts \<and> length opts = 28 * length its"
  using assms
proof (induction its arbitrary: opt)
  case (Cons it its)
  let ?opt = "opt\<lparr>op_port := htons (bi_port it), op_ipv4 := inet_addr (bi_ipv4 it), op_node_id := take 20 (bi_node_id it)\<rparr>"
  have "length (op_node_id ?opt) = 20"
    using Cons.prems(1) by simp
  moreover from this obtain opts where "options_loop its ?opt = Done opts" "length opts = 28 * length its"
    using Cons.IH [of ?opt] Cons.prems(1) by auto
  ultimately show ?case
    using Cons.prems options_mem(2) [of ?opt] by (simp add: Let_def)
qed simp

lemma discovery_rsp_pkt_Done:
  assumes "is_str target" "length (c_str target) \<le> 20" "0 \<le> n" "n \<le> int (length arr)"
    "\<forall>it \<in> set (take (nat n) arr). 20 \<le> length (bi_node_id it)" "24 + 28 * nat n \<le> length buf"
  shows "\<exists>pkt. PMP_discovery_rsp_pkt target arr n (Some junk1) (Some junk2) (Some buf) = Done (24 + 28 * n, Some pkt) \<and>
    length pkt = length buf \<and> dp_count (discovery_rsp_of pkt) = htons (of_int n)"
proof -
  let ?m = "map junk1 [0..<24]"
  define rsp where "rsp = (discovery_rsp_of ?m)\<lparr>dp_header := \<lparr>ph_type = DISC, ph_code = RSP\<rparr>, dp_count := htons (of_int n),
    dp_target_id := copied (dp_target_id (discovery_rsp_of ?m)) target\<rparr>"
  have r: "length (dp_target_id rsp) = 20"
    using assms(2) by (simp add: rsp_def)
  obtain opts where o: "options_loop (take (nat n) arr) (options_of (map junk2 [0..<28])) = Done opts" "length opts = 28 * length (take (nat n) arr)"
    using options_loop_Done [OF assms(5), of "options_of (map junk2 [0..<28])"] by auto
  have "PMP_discovery_rsp_pkt target arr n (Some junk1) (Some junk2) (Some buf) =
      Done (24 + 28 * n, Some (discovery_rsp_bytes rsp @ opts @ drop (24 + 28 * nat n) buf))"
    using assms(1-4,6) o discovery_rsp_mem(2) [OF r]
    by (simp add: PMP_discovery_rsp_pkt_def Let_def rsp_def [symmetric] read_items_def)
  moreover have "dp_count (discovery_rsp_of (discovery_rsp_bytes rsp @ opts @ drop (24 + 28 * nat n) buf)) = htons (of_int n)"
    unfolding discovery_rsp_mem(1) [OF r] by (simp add: rsp_def)
  moreover have "length (discovery_rsp_bytes rsp @ opts @ drop (24 + 28 * nat n) buf) = length buf"
    using assms(3,4,6) o(2) discovery_rsp_mem(2) [OF r] by simp
  ultimately show ?thesis
    by blast
qed

text \<open>C29: no discovery response is understood: whatever list of at most 255 items a master peer packs, the
  receiver refuses the packet and learns nothing, since the packer swaps the bytes of the count and
  the reader does not swap them back (and an empty list is shorter than the size that is asked for).\<close>

theorem discovery_response_refused:
  assumes "is_str target" "length (c_str target) \<le> 20" "0 \<le> n" "n \<le> int (length arr)" "n < 256"
    "\<forall>it \<in> set (take (nat n) arr). item_ok it" "24 + 28 * nat n \<le> length buf"
  shows "\<exists>pkt. PMP_discovery_rsp_pkt target arr n (Some junk1) (Some junk2) (Some buf) = Done (24 + 28 * n, Some pkt) \<and>
    (\<forall>item clock rbuf w. PMP_discovery_rsp_unpack item clock (take (24 + 28 * nat n) pkt @ rbuf) (24 + 28 * n) w = Done (C_ERROR, w))"
proof -
  have "\<forall>it \<in> set (take (nat n) arr). 20 \<le> length (bi_node_id it)"
    using assms(6) by (simp add: item_ok_def)
  from discovery_rsp_pkt_Done [OF assms(1-4) this assms(7)]
  obtain pkt where p: "PMP_discovery_rsp_pkt target arr n (Some junk1) (Some junk2) (Some buf) = Done (24 + 28 * n, Some pkt)"
    "length pkt = length buf" "dp_count (discovery_rsp_of pkt) = htons (of_int n)"
    by blast
  have as: "as_size (24 + 28 * n) = 24 + 28 * nat n"
    using assms(3,5) by (simp add: as_size_nat nat_add_distrib nat_mult_distrib)
  have count: "unat (htons (of_int n)) = nat n * 256"
  proof -
    obtain k where k: "n = int k" "k < 256"
      using assms(3,5) nonneg_int_cases by (metis nat_int of_nat_less_numeral_iff)
    have "htons (of_nat k) = of_nat (k * 256)"
      using htons_byte [of "of_nat k"] k(2) by (simp add: of_nat_byte push_bit_eq_mult mult.commute)
    then show ?thesis
      using k unat_word16 [of "k * 256"] by simp
  qed
  have "discovery_rsp_of (take 24 pkt) = discovery_rsp_of pkt"
    by (simp add: discovery_rsp_of_def header_of_def of_host16_def segment_def drop_take)
  moreover have "take 24 (take (24 + 28 * nat n) pkt @ rbuf) = take 24 pkt" for rbuf
    using assms(7) p(2) by (simp add: min_def)
  ultimately have "PMP_discovery_rsp_unpack item clock (take (24 + 28 * nat n) pkt @ rbuf) (24 + 28 * n) w = Done (C_ERROR, w)" for item clock rbuf w
    using assms(3,7) p(2,3) as count by (auto simp: PMP_discovery_rsp_unpack_def Let_def)
  then show ?thesis
    using p(1) by blast
qed


theorem discovery_response_refused_witness:
  "\<exists>pkt. PMP_discovery_rsp_pkt (replicate 20 65 @ [0]) [example_item 66, example_item 67] 2 (Some (\<lambda>_. 1)) (Some (\<lambda>_. 2)) (Some (replicate 8192 0)) =
      Done (80, Some pkt) \<and>
    PMP_discovery_rsp_unpack (example_item 9) (\<lambda>_. 0) (take 80 pkt @ replicate 944 7) 80 (False, example_bucket) = Done (C_ERROR, False, example_bucket)"
proof -
  have "\<forall>it \<in> set (take (nat 2) [example_item 66, example_item 67]). item_ok it"
    by (auto simp: item_ok_def example_item_def is_str_def numeral_2_eq_2)
  moreover have "is_str (replicate 20 65 @ [0])" "length (c_str (replicate 20 65 @ [0])) \<le> 20"
    by (simp_all add: c_str_id)
  ultimately obtain pkt where p: "PMP_discovery_rsp_pkt (replicate 20 65 @ [0]) [example_item 66, example_item 67] 2 (Some (\<lambda>_. 1))
      (Some (\<lambda>_. 2)) (Some (replicate 8192 0)) = Done (24 + 28 * 2, Some pkt)"
    "\<forall>item clock rbuf w. PMP_discovery_rsp_unpack item clock (take (24 + 28 * nat 2) pkt @ rbuf) (24 + 28 * 2) w = Done (C_ERROR, w)"
    using discovery_response_refused [of "replicate 20 65 @ [0]" 2 "[example_item 66, example_item 67]" "replicate 8192 0" "\<lambda>_. 1" "\<lambda>_. 2"]
    by auto
  have "80 = 24 + 28 * nat 2" "80 = 24 + 28 * (2 :: int)"
    by simp_all
  with p show ?thesis
    by metis
qed

end
