(* ===== verification/NoseUdp.thy ===== *)
theory NoseUdp imports NoseInet begin

text \<open>
  Sending and receiving one datagram (udp.h, udp.c).  The results of the system calls are arguments;
  the open descriptors are passed along, and what is handed to \<open>sendto\<close> is returned.
\<close>

record sockaddr_in =
  sin_addr :: u32
  sin_port :: u16

definition BUFSIZ :: nat where
  "BUFSIZ = 8192"

type_synonym sent_pkt = "sockaddr_in \<times> bytes"

record udp_handler =
  uh_sockfd :: int
  uh_in :: sockaddr_in

text \<open>The results of \<open>socket\<close>, \<open>setsockopt\<close> and \<open>sendto\<close>, and what \<open>recvfrom\<close> delivers.\<close>

record udp_calls =
  uc_socket :: int
  uc_setsockopt :: int
  uc_sendto :: int
  uc_recvfrom :: "int + bytes \<times> sockaddr_in"

text \<open>The size goes to \<open>sendto\<close> as a \<open>size_t\<close>, so a negative one asks for more than any buffer holds.\<close>

definition send_udp_pkt :: "udp_calls \<Rightarrow> udp_handler \<Rightarrow> bytes \<Rightarrow> int \<Rightarrow> bytes \<Rightarrow> int \<Rightarrow> int list
    \<Rightarrow> int \<times> udp_handler \<times> int list \<times> sent_pkt list" where
  "send_udp_pkt calls handler dst_host port buf n fds =
     (let addr = \<lparr>sin_addr = inet_addr dst_host, sin_port = htons (of_int port)\<rparr> in
      if uc_socket calls < 0 then (uc_socket calls, handler, fds, [])
      else let fds = uc_socket calls # fds in
        if uc_setsockopt calls < 0 then (uc_setsockopt calls, handler, fds, [])
        else if uc_sendto calls < 0 then (uc_sendto calls, handler, fds, [])
        else (uc_sendto calls, \<lparr>uh_sockfd = uc_socket calls, uh_in = addr\<rparr>, fds, [(addr, take (as_size n) buf)]))"

text \<open>A datagram of up to \<open>BUFSIZ\<close> bytes is written to the buffer, whatever the size of the buffer is.\<close>

definition receive_into :: "bytes \<Rightarrow> nat \<Rightarrow> bytes \<Rightarrow> (int \<times> bytes) outcome" where
  "receive_into buf limit d = (let n = min limit (length d) in
     bindO (c_memcpy buf 0 d n) (\<lambda>buf. Done (int n, buf)))"

definition recv_udp_pkt :: "udp_calls \<Rightarrow> udp_handler \<Rightarrow> bytes \<Rightarrow> (int \<times> udp_handler \<times> bytes) outcome" where
  "recv_udp_pkt calls handler buf = (case uc_recvfrom calls of
     Inl err \<Rightarrow> Done (err, handler, buf)
   | Inr (d, from) \<Rightarrow> bindO (receive_into buf BUFSIZ d) (\<lambda>(ret, buf). Done (ret, handler\<lparr>uh_in := from\<rparr>, buf)))"

lemma receive_into_Done:
  "length d \<le> limit \<Longrightarrow> limit \<le> length buf \<Longrightarrow> receive_into buf limit d = Done (int (length d), d @ drop (length d) buf)"
  by (simp add: receive_into_def Let_def splice_at_def)

lemma receive_into_cases:
  assumes "min limit (length d) \<le> length buf"
  obtains b where "receive_into buf limit d = Done (int (min limit (length d)), b)" "length b = length buf"
    "take (min limit (length d)) b = take (min limit (length d)) d"
  using assms by (simp add: receive_into_def Let_def splice_at_def)

end
