(* ===== verification/NosePcp.thy ===== *)
theory NosePcp imports NoseInet begin

text \<open>
  The packets between two peers (pcp.h, pcp.c) and their encryption (crypt.h, crypt.c).  AES in CBC mode is
  an argument: from the 32 bytes of a key, the initial vector and the input it gives the result code
  and the output.
\<close>

section \<open>PCP\<close>

definition F_HELLO_ACK :: byte where "F_HELLO_ACK = 1"
definition F_HELLO_SYN :: byte where "F_HELLO_SYN = 2"
definition F_HB_ACK :: byte where "F_HB_ACK = 3"
definition F_HB_SYN :: byte where "F_HB_SYN = 4"
definition F_PAYLOAD :: byte where "F_PAYLOAD = 5"

lemmas pcp_consts = F_HELLO_ACK_def F_HELLO_SYN_def F_HB_ACK_def F_HB_SYN_def F_PAYLOAD_def

record PCP =
  pcp_ver :: byte
  pcp_flags :: byte
  pcp_len :: u16

definition PCP_of :: "bytes \<Rightarrow> PCP" where
  "PCP_of m = \<lparr>pcp_ver = m ! 0, pcp_flags = m ! 1, pcp_len = of_host16 (drop 2 m)\<rparr>"

definition PCP_bytes :: "PCP \<Rightarrow> bytes" where
  "PCP_bytes p = pcp_ver p # pcp_flags p # host16 (pcp_len p)"

text \<open>The four packets without a payload: \<open>malloc\<close> may fail.\<close>

definition PCP_hello_syn :: "junk option \<Rightarrow> bytes \<Rightarrow> (int \<times> bytes) outcome" where
  "PCP_hello_syn mem buf = (case c_malloc 4 mem of
     None \<Rightarrow> Done (C_ERROR, buf)
   | Some m \<Rightarrow> let pcp = (PCP_of m)\<lparr>pcp_ver := 0, pcp_flags := F_HELLO_SYN, pcp_len := 0\<rparr> in
       bindO (c_memcpy buf 0 (PCP_bytes pcp) 4) (\<lambda>buf. Done (4, buf)))"

definition PCP_hello_ack :: "junk option \<Rightarrow> bytes \<Rightarrow> (int \<times> bytes) outcome" where
  "PCP_hello_ack mem buf = (case c_malloc 4 mem of
     None \<Rightarrow> Done (C_ERROR, buf)
   | Some m \<Rightarrow> let pcp = (PCP_of m)\<lparr>pcp_ver := 0, pcp_flags := F_HELLO_ACK, pcp_len := 0\<rparr> in
       bindO (c_memcpy buf 0 (PCP_bytes pcp) 4) (\<lambda>buf. Done (4, buf)))"

definition PCP_hb_syn :: "junk option \<Rightarrow> bytes \<Rightarrow> (int \<times> bytes) outcome" where
  "PCP_hb_syn mem buf = (case c_malloc 4 mem of
     None \<Rightarrow> Done (C_ERROR, buf)
   | Some m \<Rightarrow> let pcp = (PCP_of m)\<lparr>pcp_ver := 0, pcp_flags := F_HB_SYN, pcp_len := 0\<rparr> in
       bindO (c_memcpy buf 0 (PCP_bytes pcp) 4) (\<lambda>buf. Done (4, buf)))"

definition PCP_hb_ack :: "junk option \<Rightarrow> bytes \<Rightarrow> (int \<times> bytes) outcome" where
  "PCP_hb_ack mem buf = (case c_malloc 4 mem of
     None \<Rightarrow> Done (C_ERROR, buf)
   | Some m \<Rightarrow> let pcp = (PCP_of m)\<lparr>pcp_ver := 0, pcp_flags := F_HB_ACK, pcp_len := 0\<rparr> in
       bindO (c_memcpy buf 0 (PCP_bytes pcp) 4) (\<lambda>buf. Done (4, buf)))"

text \<open>A payload, with the length that it has in plain text.  The length field is 16 bits wide.\<close>

definition PCP_payload_pkt :: "junk option \<Rightarrow> bytes option \<Rightarrow> bytes option \<Rightarrow> int \<Rightarrow> u16 \<Rightarrow> (int \<times> bytes option) outcome" where
  "PCP_payload_pkt mem buf bbuf all_size text_size = (case (buf, bbuf) of
     (Some payload, Some out) \<Rightarrow> (case c_malloc 4 mem of
         None \<Rightarrow> Done (C_ERROR, bbuf)
       | Some m \<Rightarrow> let pcp = (PCP_of m)\<lparr>pcp_ver := 0, pcp_flags := F_PAYLOAD, pcp_len := htons (of_int (all_size + 2))\<rparr> in
           bindO (c_memcpy out 0 (PCP_bytes pcp) 4) (\<lambda>out.
           bindO (c_memcpy out 4 (host16 (htons text_size)) 2) (\<lambda>out.
           bindO (c_memcpy out 6 payload (as_size all_size)) (\<lambda>out. Done (6 + all_size, Some out)))))
   | _ \<Rightarrow> Done (C_ERROR, bbuf))"

section \<open>Encryption\<close>

type_synonym cipher = "bytes \<Rightarrow> bytes \<Rightarrow> bytes \<Rightarrow> int \<times> bytes"

definition aes_iv :: bytes where
  "aes_iv = [14, 31, 6, 126, 18, 12, 36, 70, 100, 9, 42, 51, 111, 84, 3, 25]"

definition padded_len :: "int \<Rightarrow> int" where
  "padded_len n = (if n mod 16 = 0 then n else (n div 16 + 1) * 16)"

text \<open>
  The input is an array of the padded length, of which only the plain text is set: the padding is what
  the stack held.  The output has the length of the input.
\<close>

definition encrypt_by_aes_256 :: "cipher \<Rightarrow> junk \<Rightarrow> bytes \<Rightarrow> int \<Rightarrow> bytes \<Rightarrow> bytes \<Rightarrow> (int \<times> bytes) outcome" where
  "encrypt_by_aes_256 aes stack plain_text plain_text_len cipher_text key =
     (if plain_text_len < 0 \<or> length key < 32 then Undefined
      else let output_len = padded_len plain_text_len in
       bindO (c_memcpy (map stack [0..<nat output_len]) 0 plain_text (nat plain_text_len)) (\<lambda>input.
       let (ret, output) = aes (take 32 key) aes_iv input in
       bindO (c_memcpy cipher_text 0 output (length output)) (\<lambda>cipher_text.
       if ret \<noteq> 0 then Done (C_ERROR, cipher_text) else Done (output_len, cipher_text))))"

definition decrypt_by_aes_256 :: "cipher \<Rightarrow> bytes \<Rightarrow> int \<Rightarrow> bytes \<Rightarrow> bytes \<Rightarrow> (int \<times> bytes) outcome" where
  "decrypt_by_aes_256 aes cipher_text cipher_text_len plain_text key =
     (if length key < 32 then Undefined
      else if cipher_text_len mod 16 \<noteq> 0 then Done (C_ERROR, plain_text)
      else if cipher_text_len < 0 then Undefined
      else bindO (c_read cipher_text 0 (nat cipher_text_len)) (\<lambda>input.
       let (ret, output) = aes (take 32 key) aes_iv input in
       bindO (c_memcpy plain_text 0 output (length output)) (\<lambda>plain_text.
       if ret \<noteq> 0 then Done (C_ERROR, plain_text) else Done (cipher_text_len, plain_text))))"

end
