(* ===== verification/NosePeer.thy ===== *)
theory NosePeer imports NosePmp NoseUdp NosePcp begin

text \<open>
  The peer (peer.h, peer.c): it registers at a master peer, asks it for the other peer until it is known,
  greets the other peer until it answers, and then carries packets between the tun device and the
  other peer, with a heartbeat every 30 seconds.  The program is an event loop with a datagram
  event and three timers, and a thread that reads the tun device.  What the system calls deliver,
  the uninitialised locals, \<open>malloc\<close>, zlib and AES are arguments.
\<close>

section \<open>State\<close>

record peer =
  pr_nt :: nat_type
  pr_peer_id :: bytes
  pr_mstp_id :: bytes
  pr_master_peer_port :: int
  pr_source_port :: int
  pr_stun_server_port :: int
  pr_vlan_local_ipv4 :: bytes
  pr_vlan_remote_ipv4 :: bytes
  pr_master_peer_ipv4 :: bytes
  pr_source_ipv4 :: bytes
  pr_stun_server_ipv4 :: bytes
  pr_remote_peer_addr :: sockaddr_in
  pr_peer :: bucket
  pr_helloed :: int
  pr_key :: bytes
  pr_syn_counts :: int

text \<open>
  With the mutex, the open sockets, the tun device, the timers that are armed with their seconds, the
  times of the timer structs, and the number of threads that read the tun device.
\<close>

record peer_world =
  pw_peer :: peer
  pw_locked :: bool
  pw_fds :: "int list"
  pw_tun_fd :: int
  pw_tun_open :: bool
  pw_fp :: "int option"
  pw_hello :: "int option"
  pw_hb :: "int option"
  pw_fp_tv :: int
  pw_hello_tv :: int
  pw_hb_tv :: int
  pw_threads :: nat

text \<open>What an event does outside: datagrams to \<open>sendto\<close>, packets to the tun device.\<close>

datatype action = Send sockaddr_in bytes | TunWrite bytes

text \<open>zlib: from the room for the output and the input, the result code and the output.\<close>

type_synonym zip = "nat \<Rightarrow> bytes \<Rightarrow> int \<times> bytes"

definition BIGBUF :: nat where
  "BIGBUF = BUFSIZ * 11"

section \<open>Registration\<close>

text \<open>
  At most four attempts; \<open>calls\<close> gives the results of the system calls of each.  Whatever arrives counts
  as the master peer's answer.
\<close>

fun registry_loop :: "nat \<Rightarrow> (nat \<Rightarrow> udp_calls) \<Rightarrow> nat \<Rightarrow> action \<Rightarrow> int \<times> int \<times> action list" where
  "registry_loop 0 calls try_times request = (-1, int try_times, [])"
| "registry_loop (Suc fuel) calls try_times request =
     (if uc_sendto (calls try_times) < 0 then (uc_sendto (calls try_times), 0, [])
      else let len = (case uc_recvfrom (calls try_times) of Inl err \<Rightarrow> err | Inr (d, _) \<Rightarrow> int (min BUFSIZ (length d)));
               try_times = Suc try_times in
        if len < 0 \<and> try_times \<le> 3
        then let (len, try_times, out) = registry_loop fuel calls try_times request in (len, try_times, request # out)
        else (len, int try_times, [request]))"

text \<open>The loop gives 0 attempts where the function returns the error of \<open>sendto\<close>.\<close>

definition registry_peer :: "int \<Rightarrow> int \<Rightarrow> (nat \<Rightarrow> udp_calls) \<Rightarrow> junk option \<Rightarrow> bytes \<Rightarrow> peer_world \<Rightarrow> (int \<times> action list \<times> peer_world) outcome" where
  "registry_peer sock setopt calls mem buf w =
     (let sockfd = (if sock < 0 then sock else if setopt < 0 then setopt else sock);
          w = w\<lparr>pw_fds := (if sock < 0 then pw_fds w else sock # pw_fds w)\<rparr>; handler = pw_peer w;
          addr = \<lparr>sin_addr = inet_addr (pr_master_peer_ipv4 handler), sin_port = htons (of_int (pr_master_peer_port handler))\<rparr> in
      if sockfd \<le> 0 then Done (C_ERROR, [], w)
      else bindO (PMP_peer_registry_req_pkt (Some (pr_mstp_id handler)) (Some (pr_peer_id handler)) (Some (pr_vlan_local_ipv4 handler))
             (pr_nt handler) mem (Some buf)) (\<lambda>(n, buf).
        if n < 0 then Done (C_ERROR, [], w)
        else let (len, try_times, out) = registry_loop 4 calls 0 (Send addr (take (nat n) (the buf))) in
          if try_times = 0 then Done (len, out, w)
          else if len < 0 \<and> 3 < try_times then Done (C_ERROR, out, w) else Done (OK, out, w)))"

section \<open>Finding the other peer\<close>

definition find_remote_peer :: "udp_calls \<Rightarrow> udp_handler \<Rightarrow> junk option \<Rightarrow> bucket_item \<Rightarrow> int \<Rightarrow> bytes \<Rightarrow> peer_world \<Rightarrow> (action list \<times> peer_world) outcome" where
  "find_remote_peer calls uh mem item now buf w =
     (let pr = pw_peer w; again = (\<lambda>w. w\<lparr>pw_fp := Some (pw_fp_tv w)\<rparr>) in
      bindO (PMP_find_peer_req_pkt (Some (pr_peer_id pr)) (Some (pr_mstp_id pr)) (Some (pr_vlan_remote_ipv4 pr)) mem (Some buf)) (\<lambda>(len, buf).
      if len < 0 then Done ([], again w)
      else let (ret, uh, fds, sent) = send_udp_pkt calls uh (pr_master_peer_ipv4 pr) (pr_master_peer_port pr) (the buf) len (pw_fds w);
               out = map (\<lambda>(addr, d). Send addr d) sent; w = w\<lparr>pw_fds := fds\<rparr> in
        if ret < 0 then Done (out, again w)
        else bindO (recv_udp_pkt calls uh (the buf)) (\<lambda>(len, uh, buf).
          let closed = w\<lparr>pw_fds := remove1 (uh_sockfd uh) (pw_fds w)\<rparr> in
          if len < 0 then Done (out, again closed)
          else bindO (PMP_peer_registry_req_unpack item now (Some (replicate 21 0)) (Some buf) len (pw_locked w, pr_peer pr)) (\<lambda>(ret, _, lb).
            let keep = (\<lambda>w. w\<lparr>pw_locked := fst lb, pw_peer := pr\<lparr>pr_peer := snd lb\<rparr>\<rparr>) in
            if ret \<noteq> OK then Done (out, again (keep closed))
            else let w = keep w in
              bindO (get_front_bucket lb) (\<lambda>(p, lb). case p of
                None \<Rightarrow> Done (out, again w)
              | Some i \<Rightarrow> bindO (item_at (snd lb) i) (\<lambda>remote_item.
                  let addr = \<lparr>sin_addr = inet_addr (bi_ipv4 remote_item), sin_port = htons (bi_port remote_item)\<rparr> in
                  Done (out, w\<lparr>pw_peer := (pw_peer w)\<lparr>pr_remote_peer_addr := addr\<rparr>, pw_hello_tv := 1, pw_hello := Some 1\<rparr>)))))))"

section \<open>Greeting and heartbeat\<close>

text \<open>\<open>sendto\<close> to the other peer; \<open>sendto_ret\<close> is the result of the call.\<close>

definition sendto_remote_peer :: "int \<Rightarrow> bytes option \<Rightarrow> int \<Rightarrow> peer_world \<Rightarrow> int \<times> action list" where
  "sendto_remote_peer sendto_ret buf n w = (case buf of
     None \<Rightarrow> (C_ERROR, [])
   | Some b \<Rightarrow> if n \<le> 0 then (C_ERROR, [])
       else if sendto_ret < 0 then (C_ERROR, [])
       else (OK, [Send (pr_remote_peer_addr (pw_peer w)) (take (nat n) b)]))"

definition udp_holing_hello :: "int \<Rightarrow> junk option \<Rightarrow> bytes \<Rightarrow> peer_world \<Rightarrow> (action list \<times> peer_world) outcome" where
  "udp_holing_hello sendto_ret mem buf w =
     (if pr_helloed (pw_peer w) \<noteq> 0 then Done ([], w)
      else let again = w\<lparr>pw_hello := Some (pw_hello_tv w)\<rparr> in
        bindO (PCP_hello_syn mem buf) (\<lambda>(len, buf).
        if len = C_ERROR then Done ([], again)
        else if sendto_ret < 0 then Done ([], again)
        else Done ([Send (pr_remote_peer_addr (pw_peer w)) (take (nat len) buf)], again)))"

definition peer_heartbeat :: "int \<Rightarrow> junk option \<Rightarrow> bytes \<Rightarrow> peer_world \<Rightarrow> (action list \<times> peer_world) outcome" where
  "peer_heartbeat sendto_ret mem buf w =
     (let pr = pw_peer w in
      if pr_syn_counts pr = 0
      then Done ([], w\<lparr>pw_peer := pr\<lparr>pr_helloed := 0, pr_syn_counts := 3\<rparr>, pw_tun_open := False, pw_hello := Some (pw_hello_tv w)\<rparr>)
      else bindO (PCP_hb_syn mem buf) (\<lambda>(len, buf).
        let again = (\<lambda>w. w\<lparr>pw_hb := Some (pw_hb_tv w)\<rparr>) in
        if len = C_ERROR then Done ([], again w)
        else let (_, out) = sendto_remote_peer sendto_ret (Some buf) len w in
          Done (out, again (w\<lparr>pw_peer := pr\<lparr>pr_syn_counts := pr_syn_counts pr - 1\<rparr>\<rparr>))))"

section \<open>Packets from the other peer\<close>

text \<open>
  The payload of a packet: decompressed to the buffer of the packet itself, decrypted, and written to
  the tun device with the length that the packet says.  Lengths below 2 wrap around in the call of
  \<open>memcpy\<close>.
\<close>

definition payload_received :: "zip \<Rightarrow> cipher \<Rightarrow> junk \<Rightarrow> bytes \<Rightarrow> int \<Rightarrow> peer_world \<Rightarrow> action list outcome" where
  "payload_received uncompress aes stack buf n w =
     (let len = unat (htons (pcp_len (PCP_of buf))) in
      if as_size n < len + 4 then Done []
      else if len < 2 then Undefined
      else bindO (c_read buf 6 (len - 2)) (\<lambda>packed.
        let text_len = htons (of_host16 (drop 4 buf));
            (z, data) = uncompress ((len - 2) * 4) packed in
        if z \<noteq> 0 then Done []
        else bindO (c_memcpy buf 0 data (length data)) (\<lambda>buf.
          bindO (decrypt_by_aes_256 aes buf (int (length data)) (map stack [0..<BIGBUF]) (pr_key (pw_peer w))) (\<lambda>(ret, plaintext).
          if ret = C_ERROR then Done []
          else bindO (c_read plaintext 0 (unat text_len)) (\<lambda>text. Done [TunWrite text])))))"

text \<open>The local variables and results of calls that a packet may need.\<close>

record pkt_env =
  pe_sendto :: int
  pe_mem :: "junk option"
  pe_buf :: bytes
  pe_stack :: junk
  pe_utun_open :: int
  pe_pthread_create :: int
  pe_uncompress :: zip
  pe_aes :: cipher

definition init_tun_device :: "int \<Rightarrow> peer_world \<Rightarrow> int \<times> peer_world" where
  "init_tun_device opened w = (let w = w\<lparr>pw_tun_fd := opened\<rparr> in if opened \<le> 0 then (C_FAILED, w) else (OK, w\<lparr>pw_tun_open := True\<rparr>))"

definition recved_pkt_unpack :: "pkt_env \<Rightarrow> bytes \<Rightarrow> int \<Rightarrow> peer_world \<Rightarrow> (action list \<times> peer_world) outcome" where
  "recved_pkt_unpack env buf n w =
     (if as_size n < 4 then Done ([], w)
      else let flags = pcp_flags (PCP_of buf); pr = pw_peer w in
        if flags = F_HELLO_SYN
        then bindO (PCP_hello_ack (pe_mem env) (pe_buf env)) (\<lambda>(len, b).
          if len = C_ERROR then Done ([], w) else Done (snd (sendto_remote_peer (pe_sendto env) (Some b) len w), w))
        else if flags = F_HELLO_ACK
        then (if pr_helloed pr \<noteq> 0 then Done ([], w)
              else let (ret, w) = init_tun_device (pe_utun_open env) w in
                if ret \<noteq> OK then Done ([], w)
                else if pe_pthread_create env < 0 then Done ([], w)
                else Done ([], w\<lparr>pw_threads := (if pe_pthread_create env = 0 then Suc (pw_threads w) else pw_threads w),
                       pw_peer := (pw_peer w)\<lparr>pr_helloed := 1\<rparr>, pw_hb_tv := 30, pw_hb := Some (pw_fp_tv w)\<rparr>))
        else if flags = F_HB_SYN
        then bindO (PCP_hb_ack (pe_mem env) (pe_buf env)) (\<lambda>(len, b).
          if len = C_ERROR then Done ([], w) else Done (snd (sendto_remote_peer (pe_sendto env) (Some b) len w), w))
        else if flags = F_HB_ACK
        then Done ([], w\<lparr>pw_peer := pr\<lparr>pr_syn_counts := pr_syn_counts pr + 1\<rparr>\<rparr>)
        else if flags = F_PAYLOAD
        then bindO (payload_received (pe_uncompress env) (pe_aes env) (pe_stack env) buf n w) (\<lambda>out. Done (out, w))
        else Done ([], w))"

definition peer_udp_recv_cb :: "pkt_env \<Rightarrow> int + bytes \<times> sockaddr_in \<Rightarrow> peer_world \<Rightarrow> (action list \<times> peer_world) outcome" where
  "peer_udp_recv_cb env received w = (case received of
     Inl err \<Rightarrow> Done ([], w)
   | Inr (d, src) \<Rightarrow>
       bindO (receive_into (replicate BIGBUF 0) BIGBUF d) (\<lambda>(len, buf).
       if 0 < len \<and> sin_addr src = sin_addr (pr_remote_peer_addr (pw_peer w)) \<and> sin_port src = sin_port (pr_remote_peer_addr (pw_peer w))
       then recved_pkt_unpack env buf len w else Done ([], w)))"

section \<open>Packets from the tun device\<close>

text \<open>
  One turn of the thread: \<open>read\<close> delivers at most 1518 bytes.  The result says whether the thread goes
  on: it ends only when zlib fails.
\<close>

definition tun_turn :: "zip \<Rightarrow> cipher \<Rightarrow> junk \<Rightarrow> junk option \<Rightarrow> int \<Rightarrow> bytes \<Rightarrow> bytes \<Rightarrow> int + bytes \<Rightarrow> peer_world \<Rightarrow> (bool \<times> action list) outcome" where
  "tun_turn compress aes stack mem sendto_ret buf bbuf got w = (case got of
     Inl err \<Rightarrow> Done (True, [])
   | Inr d \<Rightarrow>
       bindO (receive_into buf 1518 d) (\<lambda>(len, buf).
       if len \<le> 0 then Done (True, [])
       else bindO (encrypt_by_aes_256 aes stack buf len bbuf (pr_key (pw_peer w))) (\<lambda>(crypted_len, bbuf).
         if crypted_len = C_ERROR then Done (True, [])
         else bindO (c_read bbuf 0 (nat crypted_len)) (\<lambda>input.
           let (z, data) = compress (nat crypted_len * 4) input in
           if z \<noteq> 0 then Done (False, [])
           else bindO (c_memcpy buf 0 data (length data)) (\<lambda>buf.
             bindO (PCP_payload_pkt mem (Some buf) (Some bbuf) (int (length data)) (of_int len)) (\<lambda>(len, bbuf).
             Done (True, snd (sendto_remote_peer sendto_ret bbuf len w))))))))"

section \<open>Start\<close>

text \<open>\<open>nat\<close> is the result of \<open>get_nat_type\<close> with the address that it found, \<open>new_id\<close> the identifier that was drawn.\<close>

definition init_peer :: "int \<Rightarrow> nat_type \<Rightarrow> bytes \<Rightarrow> bool \<times> peer \<Rightarrow> (int \<times> bool \<times> peer) outcome" where
  "init_peer udp_fd nt new_id = (\<lambda>(locked, handler).
     bindO (init_bucket None 0 (locked, pr_peer handler)) (\<lambda>(locked, bkt).
     let handler = handler\<lparr>pr_peer := bkt, pr_helloed := 0, pr_syn_counts := 3, pr_nt := nt\<rparr> in
     if udp_fd < OK then Done (C_ERROR, locked, handler)
     else if nt_nat_type (pr_nt handler) \<le> 1 then Done (C_ERROR, locked, handler)
     else Done (OK, locked, handler\<lparr>pr_peer_id := new_id\<rparr>)))"

definition peer_world_of :: "bool \<Rightarrow> peer \<Rightarrow> int list \<Rightarrow> peer_world" where
  "peer_world_of locked pr fds = \<lparr>pw_peer = pr, pw_locked = locked, pw_fds = fds, pw_tun_fd = 0, pw_tun_open = False, pw_fp = None, pw_hello = None, pw_hb = None,
     pw_fp_tv = 0, pw_hello_tv = 0, pw_hb_tv = 0, pw_threads = 0\<rparr>"

definition peer_loop_start :: "int \<Rightarrow> int \<Rightarrow> (nat \<Rightarrow> udp_calls) \<Rightarrow> junk option \<Rightarrow> bytes \<Rightarrow> peer_world \<Rightarrow> (int \<times> action list \<times> peer_world) outcome" where
  "peer_loop_start sock setopt calls mem buf w =
     bindO (registry_peer sock setopt calls mem buf w) (\<lambda>(ret, out, w).
     if ret = C_ERROR then Done (C_ERROR, out, w) else Done (OK, out, w\<lparr>pw_fp_tv := 5, pw_fp := Some 5\<rparr>))"

text \<open>The signal handler; the first result says whether the program exits.\<close>

definition peer_cancel_handle :: "bool \<Rightarrow> int \<Rightarrow> peer_world \<Rightarrow> bool \<times> peer_world" where
  "peer_cancel_handle is_sigint udp_fd w =
     (if is_sigint
      then (True, w\<lparr>pw_tun_open := (pw_tun_open w \<and> \<not> 0 < pw_tun_fd w), pw_fds := (if 0 < udp_fd then remove1 udp_fd (pw_fds w) else pw_fds w)\<rparr>)
      else (False, w))"

section \<open>The event loop\<close>

datatype peer_event =
    PeerDatagram pkt_env "int + bytes \<times> sockaddr_in"
  | FindTimer udp_calls udp_handler "junk option" bucket_item int bytes
  | HelloTimer int "junk option" bytes
  | HeartbeatTimer int "junk option" bytes

fun peer_enabled :: "peer_event \<Rightarrow> peer_world \<Rightarrow> bool" where
  "peer_enabled (PeerDatagram env r) w = True"
| "peer_enabled (FindTimer c uh mem item now buf) w = (pw_fp w \<noteq> None)"
| "peer_enabled (HelloTimer s mem buf) w = (pw_hello w \<noteq> None)"
| "peer_enabled (HeartbeatTimer s mem buf) w = (pw_hb w \<noteq> None)"

fun run_peer_event :: "peer_event \<Rightarrow> peer_world \<Rightarrow> (action list \<times> peer_world) outcome" where
  "run_peer_event (PeerDatagram env r) w = peer_udp_recv_cb env r w"
| "run_peer_event (FindTimer c uh mem item now buf) w = find_remote_peer c uh mem item now buf (w\<lparr>pw_fp := None\<rparr>)"
| "run_peer_event (HelloTimer s mem buf) w = udp_holing_hello s mem buf (w\<lparr>pw_hello := None\<rparr>)"
| "run_peer_event (HeartbeatTimer s mem buf) w = peer_heartbeat s mem buf (w\<lparr>pw_hb := None\<rparr>)"

inductive peer_steps :: "peer_world \<Rightarrow> peer_event list \<Rightarrow> action list \<Rightarrow> peer_world \<Rightarrow> bool" where
  peer_start: "peer_steps w [] [] w"
| peer_step: "peer_steps w events out w' \<Longrightarrow> peer_enabled e w' \<Longrightarrow> run_peer_event e w' = Done (acts, w'') \<Longrightarrow>
    peer_steps w (events @ [e]) (out @ acts) w''"

section \<open>The tunnel\<close>

text \<open>What AES in CBC mode and zlib promise.\<close>

definition cbc_ok :: "cipher \<Rightarrow> cipher \<Rightarrow> bool" where
  "cbc_ok enc dec \<longleftrightarrow> (\<forall>k iv x. length x mod 16 = 0 \<longrightarrow>
     (\<exists>y. enc k iv x = (0, y) \<and> length y = length x \<and> dec k iv y = (0, x)))"

definition zlib_ok :: "zip \<Rightarrow> zip \<Rightarrow> bool" where
  "zlib_ok compress uncompress \<longleftrightarrow> (\<forall>room x. length x + length x div 1000 + 13 \<le> room \<longrightarrow>
     (\<exists>c. compress room x = (0, c) \<and> length c \<le> length x + length x div 1000 + 13 \<and>
        (\<forall>room'. if length x \<le> room' then uncompress room' c = (0, x) else fst (uncompress room' c) \<noteq> 0)))"

lemma padded_len_facts:
  assumes "0 < n"
  shows "n \<le> padded_len n" "padded_len n < n + 16" "padded_len n mod 16 = 0" "0 < padded_len n"
proof -
  show "n \<le> padded_len n" "padded_len n < n + 16" "padded_len n mod 16 = 0"
    unfolding padded_len_def by presburger+
  with assms show "0 < padded_len n"
    by linarith
qed

lemma cbc_ok_step:
  assumes "cbc_ok enc dec" "length x mod 16 = 0"
  obtains y where "enc k iv x = (0, y)" "length y = length x" "dec k iv y = (0, x)"
  using assms unfolding cbc_ok_def by metis

lemma zlib_ok_step:
  assumes "zlib_ok compress uncompress" "length x + length x div 1000 + 13 \<le> room"
  obtains c where "compress room x = (0, c)" "length c \<le> length x + length x div 1000 + 13"
    "\<forall>room'. if length x \<le> room' then uncompress room' c = (0, x) else fst (uncompress room' c) \<noteq> 0"
  using assms unfolding zlib_ok_def by metis

lemma encrypt_Done:
  assumes "cbc_ok enc dec" "0 < length d" "length d \<le> length plain" "take (length d) plain = d" "32 \<le> length key" "length d + 16 \<le> length out"
  obtains x y where "encrypt_by_aes_256 enc stack plain (int (length d)) out key = Done (int (length y), y @ drop (length y) out)"
    "enc (take 32 key) aes_iv x = (0, y)" "dec (take 32 key) aes_iv y = (0, x)" "take (length d) x = d"
    "int (length y) = padded_len (int (length d))" "length x = length y"
proof -
  let ?n = "int (length d)"
  note p = padded_len_facts [of ?n]
  have pos: "0 < ?n"
    using assms(2) by simp
  define x where "x = d @ map stack [length d..<nat (padded_len ?n)]"
  have l: "length d \<le> nat (padded_len ?n)" "nat (padded_len ?n) < length d + 16"
    using p(1,2) [OF pos] by linarith+
  then have x: "length x = nat (padded_len ?n)" "take (length d) x = d"
    by (simp_all add: x_def)
  have "drop (length d) (map stack [0..<nat (padded_len ?n)]) = map stack [length d..<nat (padded_len ?n)]"
    by (simp add: drop_map)
  then have inp: "c_memcpy (map stack [0..<nat (padded_len ?n)]) 0 plain (length d) = Done x"
    using l(1) assms(3,4) by (simp add: splice_at_def x_def)
  have "length x mod 16 = 0"
    using p(3,4) [OF pos] x(1) by (simp add: nat_mod_distrib [symmetric] nat_mod_as_int)
  then obtain y where y: "enc (take 32 key) aes_iv x = (0, y)" "length y = length x" "dec (take 32 key) aes_iv y = (0, x)"
    by (rule cbc_ok_step [OF assms(1)])
  have n: "int (length y) = padded_len ?n"
    using p(4) [OF pos] x(1) y(2) by simp
  have "encrypt_by_aes_256 enc stack plain ?n out key = Done (int (length y), y @ drop (length y) out)"
    using assms(2,5,6) l inp y n x(1) by (simp add: encrypt_by_aes_256_def Let_def splice_at_def)
  then show thesis
    by (rule that [OF _ y(1,3) x(2) n y(2) [symmetric]])
qed

lemma of_host16_drop: "of_host16 (drop n (xs @ ys)) = of_host16 (drop (n - length xs) ys)" if "length xs \<le> n"
  using that by simp

lemma PCP_of_bytes: "PCP_of (PCP_bytes p @ rest) = p"
  by (simp add: PCP_of_def PCP_bytes_def)

lemma length_PCP_bytes [simp]: "length (PCP_bytes p) = 4"
  by (simp add: PCP_bytes_def)

definition payload_packet :: "bytes \<Rightarrow> nat \<Rightarrow> bytes" where
  "payload_packet c n = PCP_bytes \<lparr>pcp_ver = 0, pcp_flags = F_PAYLOAD, pcp_len = htons (of_nat (length c + 2))\<rparr> @ host16 (htons (of_nat n)) @ c"

lemma payload_pkt_Done:
  assumes "length c \<le> length buf" "6 + length c \<le> length out" "take (length c) buf = c" "int (length c) < 2 ^ 64"
  shows "PCP_payload_pkt (Some junk) (Some buf) (Some out) (int (length c)) (of_nat n) = Done (6 + int (length c), Some (payload_packet c n @ drop (6 + length c) out))"
proof -
  have a: "as_size (int (length c)) = length c"
    using assms(4) by (simp add: as_size_nat)
  have h: "of_int (int (length c) + 2) = (of_nat (length c + 2) :: u16)"
    by simp
  show ?thesis
    using assms(1-3) by (simp add: PCP_payload_pkt_def Let_def a h payload_packet_def splice_at_def PCP_of_def add.commute)
qed

lemma tun_turn_sends:
  assumes "cbc_ok enc dec" "zlib_ok compress uncompress" "0 < length d" "length d \<le> 1518" "length buf = BIGBUF" "length bbuf = BIGBUF"
    "32 \<le> length (pr_key (pw_peer w))" "0 \<le> sendto_ret"
  obtains x y c where "compress (4 * length y) y = (0, c)" "tun_turn compress enc stack (Some junk) sendto_ret buf bbuf (Inr d) w = Done (True, [Send (pr_remote_peer_addr (pw_peer w)) (payload_packet c (length d))])"
    "dec (take 32 (pr_key (pw_peer w))) aes_iv y = (0, x)" "take (length d) x = d" "length x = length y" "length y mod 16 = 0" "length y \<le> 1533"
    "length d \<le> length y" "length c \<le> 1600" "\<forall>room. if length y \<le> room then uncompress room c = (0, y) else fst (uncompress room c) \<noteq> 0"
proof -
  have r: "receive_into buf 1518 d = Done (int (length d), d @ drop (length d) buf)"
    using assms(4,5) by (simp add: receive_into_Done BIGBUF_def BUFSIZ_def)
  let ?buf = "d @ drop (length d) buf"
  obtain x y where e: "encrypt_by_aes_256 enc stack ?buf (int (length d)) bbuf (pr_key (pw_peer w)) = Done (int (length y), y @ drop (length y) bbuf)"
    "dec (take 32 (pr_key (pw_peer w))) aes_iv y = (0, x)" "take (length d) x = d" "int (length y) = padded_len (int (length d))" "length x = length y"
    by (rule encrypt_Done [OF assms(1,3) _ _ assms(7), of ?buf bbuf stack]) (use assms(4,6) in \<open>auto simp: BIGBUF_def BUFSIZ_def\<close>)
  note p = padded_len_facts [of "int (length d)"]
  have ly: "length d \<le> length y" "length y < length d + 16" "length y mod 16 = 0"
  proof -
    have n: "0 < int (length d)"
      using assms(3) by simp
    show "length d \<le> length y" "length y < length d + 16"
      using p(1,2) [OF n] e(4) by linarith+
    show "length y mod 16 = 0"
      using p(3) [OF n] e(4) by presburger
  qed
  have "length y div 1000 \<le> 1"
    using ly(2) assms(4) by linarith
  moreover have "16 \<le> length y"
    using ly(1,3) assms(3) by (intro dvd_imp_le) auto
  ultimately have room: "length y + length y div 1000 + 13 \<le> length y * 4"
    by linarith
  obtain c where c: "compress (length y * 4) y = (0, c)" "length c \<le> length y + length y div 1000 + 13"
    "\<forall>room'. if length y \<le> room' then uncompress room' c = (0, y) else fst (uncompress room' c) \<noteq> 0"
    by (rule zlib_ok_step [OF assms(2) room])
  have lc: "length c \<le> 1600"
    using c(2) ly(2) assms(4) \<open>length y div 1000 \<le> 1\<close> by linarith
  have m: "c_memcpy ?buf 0 c (length c) = Done (c @ drop (length c) ?buf)"
    using lc assms(4,5) by (simp add: splice_at_def BIGBUF_def BUFSIZ_def)
  let ?bb = "y @ drop (length y) bbuf"
  have pk: "PCP_payload_pkt (Some junk) (Some (c @ drop (length c) ?buf)) (Some ?bb) (int (length c)) (of_nat (length d)) =
      Done (6 + int (length c), Some (payload_packet c (length d) @ drop (6 + length c) ?bb))"
    by (rule payload_pkt_Done) (use lc ly assms(4-6) in \<open>simp_all add: BIGBUF_def BUFSIZ_def\<close>)
  have lp: "length (payload_packet c (length d)) = 6 + length c"
    by (simp add: payload_packet_def)
  have "tun_turn compress enc stack (Some junk) sendto_ret buf bbuf (Inr d) w = Done (True, [Send (pr_remote_peer_addr (pw_peer w)) (payload_packet c (length d))])"
    using assms(3,6,8) e(1) c(1) ly m pk lp
    by (simp add: tun_turn_def r BIGBUF_def BUFSIZ_def Let_def sendto_remote_peer_def nat_add_distrib)
  moreover have "length y \<le> 1533"
    using ly(2) assms(4) by linarith
  ultimately show thesis
    by (intro that [of y c x]) (use e(2,3,5) ly lc c(1,3) in \<open>auto simp: mult.commute\<close>)
qed


lemma payload_packet_fields:
  assumes "length c \<le> 1600" "n \<le> 1518"
  shows "PCP_of (payload_packet c n @ rest) = \<lparr>pcp_ver = 0, pcp_flags = F_PAYLOAD, pcp_len = htons (of_nat (length c + 2))\<rparr>"
    "unat (2 + of_nat (length c) :: u16) = length c + 2" "of_host16 (drop 4 (payload_packet c n @ rest)) = htons (of_nat n)"
    "unat (of_nat n :: u16) = n" "segment (payload_packet c n @ rest) 6 (length c) = c" "length (payload_packet c n) = 6 + length c"
  using assms unat_word16 [of "length c + 2"] unat_word16 [of n]
  by (simp_all add: payload_packet_def PCP_of_bytes segment_def)

lemma payload_received_text:
  assumes "length c \<le> 1600" "length d \<le> 1518" "0 < length d" "length d \<le> length y" "length y \<le> 1533" "length y mod 16 = 0"
    "length x = length y" "take (length d) x = d" "32 \<le> length (pr_key (pw_peer w))"
    "aes (take 32 (pr_key (pw_peer w))) aes_iv y = (0, x)" "\<forall>room. if length y \<le> room then uncompress room c = (0, y) else fst (uncompress room c) \<noteq> 0"
    "6 + length c + length rest = BIGBUF"
  shows "payload_received uncompress aes stack (payload_packet c (length d) @ rest) (6 + int (length c)) w =
    Done (if length y \<le> length c * 4 then [TunWrite d] else [])"
proof -
  let ?buf = "payload_packet c (length d) @ rest"
  note f = payload_packet_fields [OF assms(1,2)]
  have lb: "length ?buf = BIGBUF"
    using f(6) assms(12) by simp
  have sz: "as_size (6 + int (length c)) = 6 + length c"
    using assms(1) by (simp add: as_size_nat nat_add_distrib)
  have big: "1600 + 1600 \<le> BIGBUF"
    by (simp add: BIGBUF_def BUFSIZ_def)
  have rd: "c_read ?buf 6 (length c) = Done c"
    using lb assms(12) f(5) by simp
  show ?thesis
  proof (cases "length y \<le> length c * 4")
    case False
    then have "fst (uncompress (length c * 4) c) \<noteq> 0"
      using assms(11) by meson
    then show ?thesis
      using False rd by (simp add: payload_received_def f(1,2) sz Let_def case_prod_beta del: drop_append)
  next
    case True
    then have u: "uncompress (length c * 4) c = (0, y)"
      using assms(11) by meson
    have m: "c_memcpy ?buf 0 y (length y) = Done (y @ drop (length y) ?buf)"
      using lb assms(5) big by (simp add: splice_at_def)
    have "int (length y) mod 16 = 0"
      using arg_cong [OF assms(6), of int] by (simp only: zmod_int of_nat_numeral of_nat_0)
    then have dec: "decrypt_by_aes_256 aes (y @ drop (length y) ?buf) (int (length y)) (map stack [0..<BIGBUF]) (pr_key (pw_peer w)) =
        Done (int (length y), x @ drop (length x) (map stack [0..<BIGBUF]))"
      using assms(5-7,9,10) big by (simp add: decrypt_by_aes_256_def Let_def zmod_int [symmetric] splice_at_def)
    have "take (length d) (x @ drop (length x) (map stack [0..<BIGBUF])) = d"
      using assms(4,7,8) by simp
    then have "c_read (x @ drop (length x) (map stack [0..<BIGBUF])) 0 (length d) = Done d"
      using assms(4,7) by (simp add: segment_def)
    moreover have "int (length y) \<noteq> C_ERROR"
      by simp
    ultimately show ?thesis
      using True rd u m dec by (simp add: payload_received_def f(1-4) sz Let_def del: c_memcpy_ok c_read_ok drop_append)
  qed
qed

text \<open>C33: what one peer reads from its tun device, the other writes to its own: the packet that the reading
  thread sends is decompressed, decrypted and cut to the bytes that were read, when both have the same
  key; it is lost exactly when zlib makes less than a quarter of the encrypted data of it.\<close>

theorem tunnel_carries_packets:
  assumes "cbc_ok enc dec" "zlib_ok compress uncompress" "0 < length d" "length d \<le> 1518" "length buf = BIGBUF" "length bbuf = BIGBUF"
    "32 \<le> length (pr_key (pw_peer wa))" "32 \<le> length (pr_key (pw_peer wb))" "take 32 (pr_key (pw_peer wa)) = take 32 (pr_key (pw_peer wb))"
    "0 \<le> sendto_ret" "pe_uncompress env = uncompress" "pe_aes env = dec"
  shows "\<exists>pkt y c. tun_turn compress enc stack (Some junk) sendto_ret buf bbuf (Inr d) wa = Done (True, [Send (pr_remote_peer_addr (pw_peer wa)) pkt]) \<and>
    compress (4 * length y) y = (0, c) \<and> length pkt = 6 + length c \<and>
    peer_udp_recv_cb env (Inr (pkt, pr_remote_peer_addr (pw_peer wb))) wb = Done (if length y \<le> 4 * length c then [TunWrite d] else [], wb)"
proof -
  obtain x y c where s: "compress (4 * length y) y = (0, c)"
    "tun_turn compress enc stack (Some junk) sendto_ret buf bbuf (Inr d) wa = Done (True, [Send (pr_remote_peer_addr (pw_peer wa)) (payload_packet c (length d))])"
    "dec (take 32 (pr_key (pw_peer wa))) aes_iv y = (0, x)" "take (length d) x = d" "length x = length y" "length y mod 16 = 0" "length y \<le> 1533"
    "length d \<le> length y" "length c \<le> 1600" "\<forall>room. if length y \<le> room then uncompress room c = (0, y) else fst (uncompress room c) \<noteq> 0"
    by (rule tun_turn_sends [OF assms(1-7,10), of stack junk])
  let ?pkt = "payload_packet c (length d)"
  note f = payload_packet_fields [OF s(9) assms(4)]
  have r: "receive_into (replicate BIGBUF 0) BIGBUF ?pkt = Done (6 + int (length c), ?pkt @ replicate (BIGBUF - (6 + length c)) 0)"
    using f(6) s(9) by (simp add: receive_into_Done BIGBUF_def BUFSIZ_def)
  have p: "payload_received uncompress dec (pe_stack env) (?pkt @ replicate (BIGBUF - (6 + length c)) 0) (6 + int (length c)) wb =
      Done (if length y \<le> length c * 4 then [TunWrite d] else [])"
    by (rule payload_received_text [OF s(9) assms(4,3) s(8,7,6,5,4) assms(8)]) (use s(3,9,10) assms(9) in \<open>simp_all add: BIGBUF_def BUFSIZ_def\<close>)
  have "peer_udp_recv_cb env (Inr (?pkt, pr_remote_peer_addr (pw_peer wb))) wb = Done (if length y \<le> 4 * length c then [TunWrite d] else [], wb)"
    using p assms(11,12) s(9)
    by (simp add: peer_udp_recv_cb_def r recved_pkt_unpack_def f(1) as_size_nat nat_add_distrib pcp_consts mult.commute)
  then show ?thesis
    using s(1,2) f(6) by blast
qed

definition plain_cipher :: cipher where
  "plain_cipher key iv x = (0, x)"

definition stored_zip :: zip where
  "stored_zip room x = (if length x \<le> room then (0, x) else (-5, []))"

lemma plain_cipher_ok: "cbc_ok plain_cipher plain_cipher"
  by (simp add: cbc_ok_def plain_cipher_def)

lemma stored_zip_ok: "zlib_ok stored_zip stored_zip"
  by (auto simp: zlib_ok_def stored_zip_def)

definition example_peer :: peer where
  "example_peer = \<lparr>pr_nt = \<lparr>nt_nat_type = 3, nt_port = 7121, nt_ipv4 = replicate 16 0\<rparr>, pr_peer_id = replicate 20 1, pr_mstp_id = replicate 20 2, pr_master_peer_port = 7120, pr_source_port = 7121,
     pr_stun_server_port = 3478, pr_vlan_local_ipv4 = [], pr_vlan_remote_ipv4 = [], pr_master_peer_ipv4 = [], pr_source_ipv4 = [], pr_stun_server_ipv4 = [],
     pr_remote_peer_addr = \<lparr>sin_addr = 1, sin_port = 2\<rparr>, pr_peer = example_bucket, pr_helloed = 1, pr_key = replicate 32 7, pr_syn_counts = 3\<rparr>"

definition example_peer_world :: peer_world where
  "example_peer_world = (peer_world_of False example_peer [3])\<lparr>pw_hb := Some 5, pw_hb_tv := 30, pw_hello_tv := 1, pw_fp_tv := 5, pw_tun_open := True\<rparr>"

definition example_env :: pkt_env where
  "example_env = \<lparr>pe_sendto = 4, pe_mem = Some (\<lambda>_. 0), pe_buf = replicate BIGBUF 0, pe_stack = (\<lambda>_. 0), pe_utun_open = 5, pe_pthread_create = 0,
     pe_uncompress = stored_zip, pe_aes = plain_cipher\<rparr>"

theorem tunnel_carries_packets_witness:
  "\<exists>pkt y c. tun_turn stored_zip plain_cipher (\<lambda>_. 0) (Some (\<lambda>_. 0)) 4 (replicate BIGBUF 0) (replicate BIGBUF 0) (Inr [69, 0, 0, 28]) example_peer_world =
      Done (True, [Send \<lparr>sin_addr = 1, sin_port = 2\<rparr> pkt]) \<and> stored_zip (4 * length y) y = (0, c) \<and> length pkt = 6 + length c \<and>
    peer_udp_recv_cb example_env (Inr (pkt, \<lparr>sin_addr = 1, sin_port = 2\<rparr>)) example_peer_world = Done ([TunWrite [69, 0, 0, 28]], example_peer_world)"
proof -
  let ?d = "[69, 0, 0, 28] :: bytes"
  let ?w = example_peer_world
  have k: "length (pr_key (pw_peer ?w)) = 32" "pr_remote_peer_addr (pw_peer ?w) = \<lparr>sin_addr = 1, sin_port = 2\<rparr>"
    by (simp_all add: example_peer_world_def peer_world_of_def example_peer_def)
  have "\<exists>pkt y c. tun_turn stored_zip plain_cipher (\<lambda>_. 0) (Some (\<lambda>_. 0)) 4 (replicate BIGBUF 0) (replicate BIGBUF 0) (Inr ?d) ?w =
      Done (True, [Send (pr_remote_peer_addr (pw_peer ?w)) pkt]) \<and> stored_zip (4 * length y) y = (0, c) \<and> length pkt = 6 + length c \<and>
    peer_udp_recv_cb example_env (Inr (pkt, pr_remote_peer_addr (pw_peer ?w))) ?w = Done (if length y \<le> 4 * length c then [TunWrite ?d] else [], ?w)"
    by (rule tunnel_carries_packets [OF plain_cipher_ok stored_zip_ok]) (simp_all add: k example_env_def)
  then obtain pkt y c where t: "tun_turn stored_zip plain_cipher (\<lambda>_. 0) (Some (\<lambda>_. 0)) 4 (replicate BIGBUF 0) (replicate BIGBUF 0) (Inr ?d) ?w =
      Done (True, [Send (pr_remote_peer_addr (pw_peer ?w)) pkt])" "stored_zip (4 * length y) y = (0, c)" "length pkt = 6 + length c"
    "peer_udp_recv_cb example_env (Inr (pkt, pr_remote_peer_addr (pw_peer ?w))) ?w = Done (if length y \<le> 4 * length c then [TunWrite ?d] else [], ?w)"
    by blast
  moreover have "length y \<le> 4 * length c"
    using t(2) by (simp add: stored_zip_def split: if_splits)
  ultimately show ?thesis
    unfolding k(2) by auto
qed

end
