(* ===== verification/NoseMasterPeer.thy ===== *)
theory NoseMasterPeer imports NosePmp NoseUdp begin

text \<open>
  The master peer (master_peer.h, master_peer.c): it answers the requests of peers and of other master
  peers, and asks one of the master peers it knows for its state every five seconds.  The program is
  an event loop: a datagram on the socket, or one of three timers, each armed again by its handler.
  The contents of a handler's uninitialised locals, what \<open>malloc\<close> returns, the time and the results of
  the system calls are arguments of each event.
\<close>

section \<open>State\<close>

record master_peer =
  mp_master_peer_bkt :: bucket
  mp_peer_bkt :: bucket
  mp_ipv4 :: bytes
  mp_port :: int
  mp_node_id :: bytes

text \<open>With the mutex of the buckets, the open descriptors and the timers that are armed.\<close>

record master_world =
  mw_locked :: bool
  mw_mstp :: master_peer
  mw_fds :: "int list"
  mw_ping :: bool
  mw_discovery :: bool
  mw_get_peers :: bool

record locals =
  lo_b :: bytes
  lo_source_id :: bytes
  lo_target_id :: bytes
  lo_items :: "bucket_item list"
  lo_item :: bucket_item
  lo_raddr :: sockaddr_in
  lo_port :: u16
  lo_handler :: udp_handler
  lo_mem1 :: "junk option"
  lo_mem2 :: "junk option"
  lo_clock :: "nat \<Rightarrow> int"

definition master_bkt :: "master_world \<Rightarrow> bool \<times> bucket" where
  "master_bkt w = (mw_locked w, mp_master_peer_bkt (mw_mstp w))"

definition set_master_bkt :: "bool \<times> bucket \<Rightarrow> master_world \<Rightarrow> master_world" where
  "set_master_bkt lb w = w\<lparr>mw_locked := fst lb, mw_mstp := (mw_mstp w)\<lparr>mp_master_peer_bkt := snd lb\<rparr>\<rparr>"

definition peer_bkt :: "master_world \<Rightarrow> bool \<times> bucket" where
  "peer_bkt w = (mw_locked w, mp_peer_bkt (mw_mstp w))"

definition set_peer_bkt :: "bool \<times> bucket \<Rightarrow> master_world \<Rightarrow> master_world" where
  "set_peer_bkt lb w = w\<lparr>mw_locked := fst lb, mw_mstp := (mw_mstp w)\<lparr>mp_peer_bkt := snd lb\<rparr>\<rparr>"

section \<open>Requests\<close>

text \<open>The response that a request leaves in the buffer, with its length; 0 where the handler returns or has no answer.\<close>

definition handle_ping :: "locals \<Rightarrow> bytes \<Rightarrow> int \<Rightarrow> master_world \<Rightarrow> (int \<times> bytes option \<times> master_world) outcome" where
  "handle_ping lo b rlen w =
     bindO (PMP_ping_req_unpack (lo_source_id lo) (lo_target_id lo) b rlen) (\<lambda>(ret, source_id, target_id).
     if ret = C_ERROR then Done (0, Some b, w)
     else bindO (PMP_ping_rsp_pkt (Some target_id) (Some source_id) (lo_mem1 lo) (Some b)) (\<lambda>(wlen, b). Done (wlen, b, w)))"

definition handle_discovery :: "locals \<Rightarrow> bytes \<Rightarrow> int \<Rightarrow> master_world \<Rightarrow> (int \<times> bytes option \<times> master_world) outcome" where
  "handle_discovery lo b rlen w =
     bindO (PMP_discovery_req_unpack (lo_port lo) (lo_source_id lo) (lo_target_id lo) b rlen) (\<lambda>(ret, port, source_id, target_id).
     if ret = C_ERROR then Done (0, Some b, w)
     else bindO (get_top_bucket_items (Some (lo_items lo)) 10 (master_bkt w)) (\<lambda>(size', arr, lb).
       bindO (PMP_discovery_rsp_pkt (mp_node_id (mw_mstp w)) (the arr) size' (lo_mem1 lo) (lo_mem2 lo) (Some b)) (\<lambda>(wlen, b).
       Done (wlen, b, set_master_bkt lb w))))"

definition handle_get_peers :: "locals \<Rightarrow> bytes \<Rightarrow> int \<Rightarrow> master_world \<Rightarrow> (int \<times> bytes option \<times> master_world) outcome" where
  "handle_get_peers lo b rlen w =
     bindO (PMP_ping_req_unpack (lo_source_id lo) (lo_target_id lo) b rlen) (\<lambda>(ret, source_id, target_id).
     if ret = C_ERROR then Done (0, Some b, w)
     else bindO (get_top_bucket_items (Some (lo_items lo)) 10 (peer_bkt w)) (\<lambda>(size', arr, lb).
       bindO (PMP_get_peers_rsp_pkt (Some source_id) arr size' (lo_mem1 lo) (lo_mem2 lo) (Some b)) (\<lambda>(wlen, b).
       Done (wlen, b, set_peer_bkt lb w))))"

definition handle_registry :: "locals \<Rightarrow> bytes \<Rightarrow> int \<Rightarrow> master_world \<Rightarrow> (int \<times> bytes option \<times> master_world) outcome" where
  "handle_registry lo b rlen w =
     bindO (PMP_peer_registry_req_unpack (lo_item lo) (lo_clock lo 0) (Some (lo_source_id lo)) (Some b) rlen (peer_bkt w)) (\<lambda>(ret, source_id, lb).
     if ret = C_ERROR then Done (0, Some b, set_peer_bkt lb w)
     else bindO (PMP_peer_registry_rsp_pkt (Some (mp_node_id (mw_mstp w))) source_id (lo_mem1 lo) (Some b)) (\<lambda>(wlen, b).
       Done (wlen, b, set_peer_bkt lb w)))"

definition handle_find_peer :: "locals \<Rightarrow> bytes \<Rightarrow> int \<Rightarrow> master_world \<Rightarrow> (int \<times> bytes option \<times> master_world) outcome" where
  "handle_find_peer lo b rlen w =
     bindO (bucket_size (peer_bkt w)) (\<lambda>(_, lb). let w = set_peer_bkt lb w in
     bindO (PMP_find_peer_req_unpack (Some (lo_source_id lo)) (Some (lo_target_id lo)) (Some (lo_item lo)) (Some b) rlen (peer_bkt w))
       (\<lambda>(wlen, source_id, target_id, item, lb). let w = set_peer_bkt lb w in
     if wlen = C_ERROR then Done (0, Some b, w)
     else if wlen = C_FAILED then Done (0, Some b, w)
     else bindO (PMP_find_peer_rsp_pkt (Some (mp_node_id (mw_mstp w))) source_id (the item) (lo_mem1 lo) (Some b)) (\<lambda>(wlen, b).
       Done (wlen, b, w))))"

definition handle_request :: "locals \<Rightarrow> bytes \<Rightarrow> int \<Rightarrow> master_world \<Rightarrow> (int \<times> bytes option \<times> master_world) outcome" where
  "handle_request lo b rlen w =
     (let head = header_of b in
      if ph_code head = REQ then
        if ph_type head = PING then handle_ping lo b rlen w
        else if ph_type head = DISC then handle_discovery lo b rlen w
        else if ph_type head = G_PS then handle_get_peers lo b rlen w
        else if ph_type head = R_P then handle_registry lo b rlen w
        else if ph_type head = F_P then handle_find_peer lo b rlen w
        else Done (0, Some b, w)
      else Done (0, Some b, w))"

text \<open>
  One datagram on the socket.  After an error of \<open>recvfrom\<close> the length is -1, which is more than the
  header's size when it is compared as a \<open>size_t\<close>.
\<close>

definition master_udp_recv_cb :: "locals \<Rightarrow> int + bytes \<times> sockaddr_in \<Rightarrow> master_world \<Rightarrow> (sent_pkt list \<times> master_world) outcome" where
  "master_udp_recv_cb lo received w =
     bindO (case received of
         Inl err \<Rightarrow> Done (err, lo_b lo, lo_raddr lo)
       | Inr (d, from) \<Rightarrow> bindO (receive_into (lo_b lo) BUFSIZ d) (\<lambda>(rlen, b). Done (rlen, b, from))) (\<lambda>(rlen, b, raddr).
     if as_size rlen \<le> 2 then Done ([], w)
     else bindO (handle_request lo b rlen w) (\<lambda>(wlen, b, w).
       Done (if 0 < wlen then [(raddr, take (nat wlen) (the b))] else [], w)))"

section \<open>Timers\<close>

definition item_of :: "bucket \<Rightarrow> int option \<Rightarrow> bucket_item outcome" where
  "item_of bkt p = (case p of None \<Rightarrow> Undefined | Some i \<Rightarrow> item_at bkt i)"

text \<open>
  The handlers create a socket for their request and leave it open.  The first handler only reports
  what it reads, in the others the answer goes to a bucket.
\<close>

definition ping_peer :: "locals \<Rightarrow> udp_calls \<Rightarrow> master_world \<Rightarrow> (sent_pkt list \<times> master_world) outcome" where
  "ping_peer lo calls w =
     bindO (get_next_bucket_item (master_bkt w)) (\<lambda>(p, lb). let w = set_master_bkt lb w in
     if p = None then Done ([], w\<lparr>mw_ping := True\<rparr>)
     else bindO (item_of (snd (master_bkt w)) p) (\<lambda>item.
     bindO (PMP_ping_req_pkt (Some (mp_node_id (mw_mstp w))) (Some (bi_node_id item)) (lo_mem1 lo) (Some (lo_b lo))) (\<lambda>(len, buf).
     let (_, uh, fds, sent) = send_udp_pkt calls (lo_handler lo) (bi_ipv4 item) (uint (bi_port item)) (the buf) len (mw_fds w) in
     bindO (recv_udp_pkt calls uh (the buf)) (\<lambda>(len, uh, buf).
     bindO (if 0 < len then bindO (PMP_ping_req_unpack (lo_source_id lo) (lo_target_id lo) buf len) (\<lambda>_. Done ()) else Done ()) (\<lambda>_.
     Done (sent, w\<lparr>mw_fds := fds, mw_ping := True\<rparr>))))))"

definition discovery_proc :: "locals \<Rightarrow> udp_calls \<Rightarrow> master_world \<Rightarrow> (sent_pkt list \<times> master_world) outcome" where
  "discovery_proc lo calls w =
     bindO (get_front_bucket (master_bkt w)) (\<lambda>(p, lb). let w = set_master_bkt lb w in
     bindO (item_of (snd (master_bkt w)) p) (\<lambda>item.
     bindO (PMP_discovery_req_pkt (bi_port item) (mp_node_id (mw_mstp w)) (bi_node_id item) (lo_mem1 lo) (Some (take 1024 (lo_b lo)))) (\<lambda>(len, buf).
     let (_, uh, fds, sent) = send_udp_pkt calls (lo_handler lo) (bi_ipv4 item) (uint (bi_port item)) (the buf) len (mw_fds w);
         w = w\<lparr>mw_fds := fds\<rparr> in
     bindO (recv_udp_pkt calls uh (the buf)) (\<lambda>(len, uh, buf).
     bindO (if 0 < len then bindO (PMP_discovery_rsp_unpack (lo_item lo) (lo_clock lo) buf len (master_bkt w)) (\<lambda>(ret, lb). Done (set_master_bkt lb w))
            else Done w) (\<lambda>w.
     Done (sent, w\<lparr>mw_discovery := True\<rparr>))))))"

definition get_peers :: "locals \<Rightarrow> udp_calls \<Rightarrow> master_world \<Rightarrow> (sent_pkt list \<times> master_world) outcome" where
  "get_peers lo calls w =
     bindO (get_front_bucket (master_bkt w)) (\<lambda>(p, lb). let w = set_master_bkt lb w in
     if p = None then Done ([], w\<lparr>mw_get_peers := True\<rparr>)
     else bindO (item_of (snd (master_bkt w)) p) (\<lambda>item.
     bindO (PMP_get_peers_req_pkt (Some (mp_node_id (mw_mstp w))) (Some (bi_node_id item)) (lo_mem1 lo) (Some (lo_b lo))) (\<lambda>(len, buf).
     let (_, uh, fds, sent) = send_udp_pkt calls (lo_handler lo) (bi_ipv4 item) (uint (bi_port item)) (the buf) len (mw_fds w);
         w = w\<lparr>mw_fds := fds\<rparr> in
     bindO (recv_udp_pkt calls uh (the buf)) (\<lambda>(len, uh, buf).
     bindO (if 0 < len then bindO (PMP_get_peers_rsp_unpack (lo_item lo) (lo_clock lo) buf len (peer_bkt w)) (\<lambda>(ret, lb). Done (set_peer_bkt lb w))
            else Done w) (\<lambda>w.
     Done (sent, w\<lparr>mw_get_peers := True\<rparr>))))))"

section \<open>Start\<close>

definition init_master_peer :: "(nat \<Rightarrow> int) \<Rightarrow> bytes \<Rightarrow> int \<Rightarrow> bucket_item list \<Rightarrow> int \<Rightarrow> bool \<times> master_peer \<Rightarrow> (int \<times> bool \<times> master_peer) outcome" where
  "init_master_peer clock ipv4 port items item_size = (\<lambda>(locked, mstp).
     bindO (init_bucket (Some items) item_size (locked, mp_master_peer_bkt mstp)) (\<lambda>(locked, mbkt).
     bindO (init_bucket None 0 (locked, mp_peer_bkt mstp)) (\<lambda>(locked, pbkt).
     bindO (read_items items item_size) (\<lambda>its.
     bindO (push_all (with_times clock its) (locked, mbkt)) (\<lambda>(locked, mbkt).
     bindO (c_string_length ipv4) (\<lambda>n.
     bindO (c_strncpy (mp_ipv4 mstp) ipv4 n) (\<lambda>ip.
     Done (OK, locked, mstp\<lparr>mp_master_peer_bkt := mbkt, mp_peer_bkt := pbkt, mp_ipv4 := ip, mp_port := port\<rparr>))))))))"

text \<open>The results of \<open>socket\<close> and \<open>bind\<close>; the socket is not closed when \<open>bind\<close> fails.\<close>

definition master_peer_loop :: "int \<Rightarrow> int \<Rightarrow> bool \<times> master_peer \<Rightarrow> int + master_world" where
  "master_peer_loop sock bound = (\<lambda>(locked, mstp).
     if sock \<le> 0 then Inl C_ERROR
     else if bound < 0 then Inl C_ERROR
     else Inr \<lparr>mw_locked = locked, mw_mstp = mstp, mw_fds = [sock], mw_ping = True, mw_discovery = True, mw_get_peers = True\<rparr>)"

definition master_cancel_handle :: "bool \<Rightarrow> int \<Rightarrow> master_world \<Rightarrow> bool \<times> master_world" where
  "master_cancel_handle is_sigint sock w =
     (if is_sigint then (True, if 0 < sock then w\<lparr>mw_fds := remove1 sock (mw_fds w)\<rparr> else w) else (False, w))"

section \<open>The event loop\<close>

datatype master_event =
    Datagram locals "int + bytes \<times> sockaddr_in"
  | PingTimer locals udp_calls
  | DiscoveryTimer locals udp_calls
  | GetPeersTimer locals udp_calls

fun enabled :: "master_event \<Rightarrow> master_world \<Rightarrow> bool" where
  "enabled (Datagram lo r) w = True"
| "enabled (PingTimer lo c) w = mw_ping w"
| "enabled (DiscoveryTimer lo c) w = mw_discovery w"
| "enabled (GetPeersTimer lo c) w = mw_get_peers w"

text \<open>A timer is no longer armed when its handler starts.\<close>

fun run_event :: "master_event \<Rightarrow> master_world \<Rightarrow> (sent_pkt list \<times> master_world) outcome" where
  "run_event (Datagram lo r) w = master_udp_recv_cb lo r w"
| "run_event (PingTimer lo c) w = ping_peer lo c (w\<lparr>mw_ping := False\<rparr>)"
| "run_event (DiscoveryTimer lo c) w = discovery_proc lo c (w\<lparr>mw_discovery := False\<rparr>)"
| "run_event (GetPeersTimer lo c) w = get_peers lo c (w\<lparr>mw_get_peers := False\<rparr>)"

inductive master_steps :: "master_world \<Rightarrow> master_event list \<Rightarrow> sent_pkt list \<Rightarrow> master_world \<Rightarrow> bool" where
  start: "master_steps w [] [] w"
| step: "master_steps w events sent w' \<Longrightarrow> enabled e w' \<Longrightarrow> run_event e w' = Done (out, w'') \<Longrightarrow>
    master_steps w (events @ [e]) (sent @ out) w''"

section \<open>Every handler is defined\<close>

text \<open>A packing function that returns, with its buffer as long as before.\<close>

definition packs :: "bytes \<Rightarrow> (int \<times> bytes option) outcome \<Rightarrow> bool" where
  "packs b r \<longleftrightarrow> (\<exists>len b'. r = Done (len, Some b') \<and> length b' = length b \<and> -1 \<le> len \<and> len \<le> int (length b))"

lemma packs_Done [simp]:
  "packs b (Done (len, Some b')) \<longleftrightarrow> length b' = length b \<and> -1 \<le> len \<and> len \<le> int (length b)"
  by (simp add: packs_def)

lemma packs_ping:
  assumes "20 \<le> length s" "20 \<le> length t" "44 \<le> length b"
  shows "packs b (PMP_ping_req_pkt (Some s) (Some t) mem (Some b))" "packs b (PMP_ping_rsp_pkt (Some s) (Some t) mem (Some b))"
    "packs b (PMP_peer_registry_rsp_pkt (Some s) (Some t) mem (Some b))"
  using assms by (cases mem; simp add: PMP_ping_req_pkt_def PMP_ping_rsp_pkt_def PMP_peer_registry_rsp_pkt_def Let_def ping_req_mem(2))+

definition id_ok :: "bytes \<Rightarrow> bool" where
  "id_ok s \<longleftrightarrow> length s = 21 \<and> is_str s"

lemma id_ok_facts: "id_ok s \<Longrightarrow> is_str s" "id_ok s \<Longrightarrow> length (c_str s) \<le> 20" "id_ok s \<Longrightarrow> 20 \<le> length s" "id_ok s \<Longrightarrow> length s = 21"
  using length_c_str [of s] by (auto simp: id_ok_def)

lemma packs_get_peers_req:
  assumes "id_ok s" "id_ok t" "44 \<le> length b"
  shows "packs b (PMP_get_peers_req_pkt (Some s) (Some t) mem (Some b))"
  using assms id_ok_facts [OF assms(1)] id_ok_facts [OF assms(2)]
  by (cases mem) (simp_all add: PMP_get_peers_req_pkt_def Let_def ping_req_mem(2))

lemma packs_discovery_req:
  assumes "id_ok s" "id_ok t" "44 \<le> length b"
  shows "packs b (PMP_discovery_req_pkt port s t mem (Some b))"
  using assms id_ok_facts [OF assms(1)] id_ok_facts [OF assms(2)]
  by (cases mem) (simp_all add: PMP_discovery_req_pkt_def Let_def discovery_req_mem(2))

lemma packs_find_rsp:
  assumes "20 \<le> length s" "20 \<le> length t" "56 \<le> length b"
  shows "packs b (PMP_find_peer_rsp_pkt (Some s) (Some t) item mem (Some b))"
proof (cases mem)
  case (Some junk)
  then show ?thesis
    using find_rsp_pkt_Done [OF assms] assms(1,2) assms(3) peer_registry_req_mem(2) [of "find_rsp junk s t item"]
    by (simp add: find_rsp_def)
qed (simp add: PMP_find_peer_rsp_pkt_def)

lemma packs_discovery_rsp:
  assumes "id_ok t" "0 \<le> n" "n \<le> 255" "n \<le> int (length arr)" "\<forall>it \<in> set (take (nat n) arr). item_ok it" "length b = BUFSIZ"
  shows "packs b (PMP_discovery_rsp_pkt t arr n mem1 mem2 (Some b))"
proof (cases "mem1 = None \<or> mem2 = None")
  case False
  then obtain j1 j2 where m: "mem1 = Some j1" "mem2 = Some j2"
    by auto
  have cap: "nat n \<le> 255"
    using assms(3) by simp
  have "\<forall>it \<in> set (take (nat n) arr). 20 \<le> length (bi_node_id it)"
    using assms(5) by (simp add: item_ok_def)
  moreover have "24 + 28 * nat n \<le> length b"
    using cap by (simp add: assms(6) BUFSIZ_def)
  ultimately obtain pkt where "PMP_discovery_rsp_pkt t arr n (Some j1) (Some j2) (Some b) = Done (24 + 28 * n, Some pkt)" "length pkt = length b"
    using discovery_rsp_pkt_Done [OF id_ok_facts(1,2) [OF assms(1)] assms(2,4), of b j1 j2] by blast
  then show ?thesis
    using assms(2,3,6) by (simp add: m BUFSIZ_def)
qed (auto simp: PMP_discovery_rsp_pkt_def split: option.splits)

lemma packs_get_peers_rsp:
  assumes "id_ok t" "n \<le> 255" "n \<le> int (length arr)" "\<forall>it \<in> set (take (nat n) arr). item_ok it" "length b = BUFSIZ"
  shows "packs b (PMP_get_peers_rsp_pkt (Some t) (Some arr) n mem1 mem2 (Some b))"
proof -
  consider (none) "n \<le> 0 \<or> mem1 = None" | (oom) j1 where "0 < n" "mem1 = Some j1" "mem2 = None"
    | (some) j1 j2 where "0 < n" "mem1 = Some j1" "mem2 = Some j2"
    by (cases mem1; cases mem2; cases "0 < n") auto
  then show ?thesis
  proof cases
    case none
    then show ?thesis
      by (auto simp: PMP_get_peers_rsp_pkt_def)
  next
    case oom
    then show ?thesis
      using id_ok_facts(1,2) [OF assms(1)] assms(5) get_peers_rsp_mem(2)
      by (simp add: PMP_get_peers_rsp_pkt_def Let_def BUFSIZ_def)
  next
    case some
    have "\<forall>it \<in> set (take (nat n) arr). 20 \<le> length (bi_node_id it)"
      using assms(4) by (simp add: item_ok_def)
    moreover have "24 + 32 * nat n \<le> length b"
    proof -
      have "nat n \<le> 255"
        using assms(2) by simp
      then show ?thesis
        by (simp add: assms(5) BUFSIZ_def)
    qed
    ultimately obtain rsp where "PMP_get_peers_rsp_pkt (Some t) (Some arr) n (Some j1) (Some j2) (Some b) = Done (24 + 32 * n,
      Some (get_peers_rsp_bytes rsp @ concat (map (\<lambda>it. get_peers_options_bytes (peer_option (j2 1) it)) (take (nat n) arr)) @ drop (24 + 32 * nat n) b))"
      "length (gp_target_id rsp) = 20"
      using get_peers_rsp_pkt_Done [OF id_ok_facts(1,2) [OF assms(1)] some(1) assms(3), of b j1 j2] assms(2) by auto
    moreover have "length (concat (map (\<lambda>it. get_peers_options_bytes (peer_option (j2 1) it)) (take (nat n) arr))) = 32 * nat n"
      using length_options [of "map (peer_option (j2 1)) (take (nat n) arr)"] assms(3,4) some(1)
      by (auto simp: comp_def peer_option_def item_ok_def)
    ultimately show ?thesis
      using some assms(2,5) by (simp add: get_peers_rsp_mem BUFSIZ_def)
  qed
qed

lemma id_of_field:
  assumes "length f = 20"
  shows "id_ok (c_str f @ replicate (21 - length (c_str f)) 0)" "c_str (c_str f @ replicate (21 - length (c_str f)) 0) = c_str f"
proof -
  have "length (c_str f) \<le> 20"
    using length_takeWhile_le [of "\<lambda>b. b \<noteq> 0" f] assms by (simp add: c_str_def)
  then have "c_str f @ replicate (21 - length (c_str f)) 0 = c_str f @ 0 # replicate (20 - length (c_str f)) 0"
    by (simp add: Suc_diff_le flip: replicate_Suc)
  moreover from \<open>length (c_str f) \<le> 20\<close> have "length (c_str f @ 0 # replicate (20 - length (c_str f)) 0) = 21"
    by simp
  ultimately show "id_ok (c_str f @ replicate (21 - length (c_str f)) 0)" "c_str (c_str f @ replicate (21 - length (c_str f)) 0) = c_str f"
    by (simp_all add: id_ok_def)
qed

lemma ping_unpack_cases:
  assumes "length s0 = 21" "length t0 = 21" "44 \<le> length b"
  obtains "PMP_ping_req_unpack s0 t0 b n = Done (C_ERROR, s0, t0)"
  | s t where "PMP_ping_req_unpack s0 t0 b n = Done (OK, s, t)" "id_ok s" "id_ok t"
    "c_str s = c_str (pi_source_id (ping_req_of (take 44 b)))" "c_str t = c_str (pi_target_id (ping_req_of (take 44 b)))" "44 \<le> as_size n"
proof (cases "as_size n < 44")
  case True
  then show ?thesis
    by (intro that(1)) (simp add: PMP_ping_req_unpack_def)
next
  case False
  let ?m = "ping_req_of (take 44 b)"
  have "PMP_ping_req_unpack s0 t0 b n = Done (OK, c_str (pi_source_id ?m) @ replicate (21 - length (c_str (pi_source_id ?m))) 0,
      c_str (pi_target_id ?m) @ replicate (21 - length (c_str (pi_target_id ?m))) 0)"
    using assms False by (simp add: PMP_ping_req_unpack_def Let_def)
  then show ?thesis
    by (rule that(2)) (use assms id_of_field False in auto)
qed

lemma discovery_unpack_cases:
  assumes "length s0 = 21" "length t0 = 21" "44 \<le> length b"
  obtains "PMP_discovery_req_unpack p0 s0 t0 b n = Done (C_ERROR, p0, s0, t0)"
  | p s t where "PMP_discovery_req_unpack p0 s0 t0 b n = Done (OK, p, s, t)" "id_ok s" "id_ok t"
proof (cases "as_size n < 44")
  case True
  then show ?thesis
    by (intro that(1)) (simp add: PMP_discovery_req_unpack_def)
next
  case False
  let ?m = "discovery_req_of (take 44 b)"
  have "PMP_discovery_req_unpack p0 s0 t0 b n = Done (OK, dq_port ?m,
      c_str (dq_source_id ?m) @ replicate (21 - length (c_str (dq_source_id ?m))) 0,
      c_str (dq_target_id ?m) @ replicate (21 - length (c_str (dq_target_id ?m))) 0)"
    using assms False by (simp add: PMP_discovery_req_unpack_def Let_def)
  then show ?thesis
    by (rule that(2)) (use assms id_of_field(1) in auto)
qed


section \<open>The invariant of the master peer\<close>

text \<open>
  The buckets are well formed and unlocked, there is a master peer to ask, and the own identifier is
  a string.
\<close>

definition master_ok :: "master_world \<Rightarrow> bool" where
  "master_ok w \<longleftrightarrow> \<not> mw_locked w \<and> bucket_ok (mp_master_peer_bkt (mw_mstp w)) \<and> bucket_items (mp_master_peer_bkt (mw_mstp w)) \<noteq> [] \<and>
     bucket_ok (mp_peer_bkt (mw_mstp w)) \<and> vlans_ok (mp_peer_bkt (mw_mstp w)) \<and> id_ok (mp_node_id (mw_mstp w))"

text \<open>The locals of the handlers have the sizes of their declarations.\<close>

definition locals_ok :: "locals \<Rightarrow> bool" where
  "locals_ok lo \<longleftrightarrow> length (lo_b lo) = BUFSIZ \<and> length (lo_source_id lo) = 21 \<and> length (lo_target_id lo) = 21 \<and>
     length (lo_items lo) = 256 \<and> item_arrays (lo_item lo)"

text \<open>An error of \<open>recvfrom\<close> is negative, and a datagram, of which \<open>BUFSIZ\<close> bytes are taken, fits into the buffer.\<close>

definition reply_fits :: "nat \<Rightarrow> udp_calls \<Rightarrow> bool" where
  "reply_fits n calls \<longleftrightarrow> (case uc_recvfrom calls of Inl err \<Rightarrow> err < 0 | Inr (d, _) \<Rightarrow> min BUFSIZ (length d) \<le> n)"

text \<open>The identifiers in the answer to a request of a timer, as far as the handler reads them.\<close>

definition discovery_ids :: "bytes \<Rightarrow> bytes list" where
  "discovery_ids d = (let count = unat (dp_count (discovery_rsp_of (take 24 d))) in
     if length d < 44 \<or> length d < count * 28 + 24 then []
     else map (\<lambda>i. op_node_id (options_of (segment d (24 + 28 * i) 28))) [0..<count])"

definition peers_ids :: "bytes \<Rightarrow> bytes list" where
  "peers_ids d = (let count = unat (htons (gp_count (get_peers_rsp_of (take 24 d)))) in
     if length d < 24 \<or> length d < 24 + 32 * count then []
     else map (\<lambda>i. go_node_id (get_peers_options_of (segment d (24 + 32 * i) 32))) [0..<count])"

text \<open>
  An identifier is copied to 20 of the 21 bytes of a local item, and no handler sets the last one: the
  text ends if it is zero by chance, or if the identifier does not fill the 20 bytes.
\<close>

definition terminated_id :: "bucket_item \<Rightarrow> bytes \<Rightarrow> bool" where
  "terminated_id item x \<longleftrightarrow> bi_node_id item ! 20 = 0 \<or> 0 \<in> set x"

definition answer_terminated :: "(bytes \<Rightarrow> bytes list) \<Rightarrow> bucket_item \<Rightarrow> udp_calls \<Rightarrow> bool" where
  "answer_terminated ids item calls \<longleftrightarrow> (case uc_recvfrom calls of Inl err \<Rightarrow> True
     | Inr (d, _) \<Rightarrow> \<forall>x \<in> set (ids (take BUFSIZ d)). terminated_id item x)"

text \<open>
  The events for which the handlers are defined: the identifiers that they copy end, and a discovery answer
  fits into the 1024 bytes of its buffer.
\<close>

fun event_ok :: "master_event \<Rightarrow> bool" where
  "event_ok (Datagram lo r) \<longleftrightarrow> locals_ok lo"
| "event_ok (PingTimer lo c) \<longleftrightarrow> locals_ok lo \<and> reply_fits BUFSIZ c"
| "event_ok (DiscoveryTimer lo c) \<longleftrightarrow> locals_ok lo \<and>
     answer_terminated discovery_ids (lo_item lo) c \<and> reply_fits 1024 c"
| "event_ok (GetPeersTimer lo c) \<longleftrightarrow> locals_ok lo \<and>
     answer_terminated peers_ids (lo_item lo) c \<and> reply_fits BUFSIZ c"

text \<open>An outcome that is not undefined and whose result satisfies a predicate.\<close>

definition returns :: "('a \<Rightarrow> bool) \<Rightarrow> 'a outcome \<Rightarrow> bool" where
  "returns P r \<longleftrightarrow> (case r of Done x \<Rightarrow> P x | Blocked \<Rightarrow> True | Undefined \<Rightarrow> False)"

lemma returns_simps [simp]: "returns P (Done x) = P x" "returns P Blocked" "\<not> returns P Undefined"
  by (simp_all add: returns_def)

lemma returns_bind: "returns Q m \<Longrightarrow> (\<And>x. m = Done x \<Longrightarrow> Q x \<Longrightarrow> returns P (k x)) \<Longrightarrow> returns P (bindO m k)"
  by (cases m) auto

lemma returns_mono: "returns Q m \<Longrightarrow> (\<And>x. Q x \<Longrightarrow> P x) \<Longrightarrow> returns P m"
  by (cases m) auto

lemma packs_returns: "packs b r \<Longrightarrow> returns (\<lambda>(len, b'). \<exists>c. b' = Some c \<and> length c = length b \<and> len \<le> int (length b)) r"
  by (auto simp: packs_def)

text \<open>What the buckets promise to the handlers.\<close>

lemma returns_push:
  assumes "bucket_ok bkt" "item_ok it" "vlans_ok bkt \<longrightarrow> is_str (bi_vlan_ipv4 it) \<or> \<not> v"
  shows "returns (\<lambda>(locked, bkt'). \<not> locked \<and> bucket_ok bkt' \<and> (v \<longrightarrow> vlans_ok bkt \<longrightarrow> vlans_ok bkt') \<and>
    (\<exists>more. bucket_items bkt' = bucket_items bkt @ more)) (push_front_bucket now it (False, bkt))"
proof -
  have "length (bucket_items bkt) < MAX_BUCKET_SIZE" if "length (bucket_items bkt) \<noteq> MAX_BUCKET_SIZE"
    using that length_bucket_items [OF assms(1)] assms(1) by (auto simp: bucket_ok_def)
  then show ?thesis
    using assms append_item_ok [OF assms(1,2)] append_item_items [OF assms(1)]
    by (auto simp: push_front_cases [OF assms(1,2)] vlans_ok_def)
qed

lemma returns_push_all:
  assumes "bucket_ok bkt" "\<forall>(now, it) \<in> set its. item_ok it \<and> (v \<longrightarrow> is_str (bi_vlan_ipv4 it))"
  shows "returns (\<lambda>(locked, bkt'). \<not> locked \<and> bucket_ok bkt' \<and> (v \<longrightarrow> vlans_ok bkt \<longrightarrow> vlans_ok bkt') \<and>
    (\<exists>more. bucket_items bkt' = bucket_items bkt @ more)) (push_all its (False, bkt))"
  using assms
proof (induction its arbitrary: bkt)
  case (Cons p its)
  obtain now it where p: "p = (now, it)"
    by fastforce
  have it: "item_ok it" "vlans_ok bkt \<longrightarrow> is_str (bi_vlan_ipv4 it) \<or> \<not> v"
    using Cons.prems(2) p by auto
  have rest: "\<forall>(now, it) \<in> set its. item_ok it \<and> (v \<longrightarrow> is_str (bi_vlan_ipv4 it))"
    using Cons.prems(2) by simp
  show ?case
    unfolding p push_all.simps
  proof (rule returns_bind [OF returns_push [OF Cons.prems(1) it]])
    fix x assume "case x of (locked, bkt') \<Rightarrow> \<not> locked \<and> bucket_ok bkt' \<and> (v \<longrightarrow> vlans_ok bkt \<longrightarrow> vlans_ok bkt') \<and>
      (\<exists>more. bucket_items bkt' = bucket_items bkt @ more)"
    then obtain bkt' more where x: "x = (False, bkt')" "bucket_ok bkt'" "v \<longrightarrow> vlans_ok bkt \<longrightarrow> vlans_ok bkt'" "bucket_items bkt' = bucket_items bkt @ more"
      by (cases x) auto
    show "returns (\<lambda>(locked, bkt'). \<not> locked \<and> bucket_ok bkt' \<and> (v \<longrightarrow> vlans_ok bkt \<longrightarrow> vlans_ok bkt') \<and>
      (\<exists>more. bucket_items bkt' = bucket_items bkt @ more)) (push_all its x)"
      unfolding x(1) by (rule returns_mono [OF Cons.IH [OF x(2) rest]]) (use x in auto)
  qed
qed simp

lemma returns_top_items:
  assumes "bucket_ok bkt" "length out = 256"
  obtains out' where "get_top_bucket_items (Some out) 10 (False, bkt) =
      Done (min 10 (int (length (bucket_items bkt))), Some out', False, bkt)" "length out' = 256"
    "\<forall>it \<in> set (take (nat (min 10 (int (length (bucket_items bkt))))) out'). item_ok it"
    "take (length (bucket_items bkt)) out' = rev (bucket_items bkt)"
proof -
  let ?its = "bucket_items bkt"
  have l: "length ?its \<le> 255"
    using length_bucket_items [OF assms(1)] assms(1) by (auto simp: bucket_ok_def MAX_BUCKET_SIZE_def)
  have "set (take (nat (min 10 (int (length ?its)))) (splice_at out 0 (rev ?its))) \<subseteq> set (rev ?its)"
    by (auto simp: splice_at_def dest: in_set_takeD)
  then have "\<forall>it \<in> set (take (nat (min 10 (int (length ?its)))) (splice_at out 0 (rev ?its))). item_ok it"
    using assms(1) by (auto simp: bucket_ok_def)
  then show ?thesis
    using get_top_Done [OF assms(1), of out 10] l assms(2)
    by (intro that [of "splice_at out 0 (rev ?its)"]) (simp_all add: splice_at_def)
qed


text \<open>What a request handler leaves.\<close>

definition handled :: "master_world \<Rightarrow> int \<times> bytes option \<times> master_world \<Rightarrow> bool" where
  "handled w = (\<lambda>(wlen, b, w'). (\<exists>c. b = Some c \<and> wlen \<le> int (length c)) \<and> master_ok w' \<and> mw_fds w' = mw_fds w)"

lemma handled_0: "master_ok w \<Longrightarrow> handled w (0, Some b, w)"
  by (simp add: handled_def)

lemma handled_pack:
  assumes "packs b r" "master_ok w'" "mw_fds w' = mw_fds w"
  shows "returns (handled w) (bindO r (\<lambda>(wlen, b). Done (wlen, b, w')))"
  using assms by (auto simp: packs_def handled_def)

lemma set_same_buckets:
  "\<not> mw_locked w \<Longrightarrow> set_master_bkt (False, mp_master_peer_bkt (mw_mstp w)) w = w"
  "\<not> mw_locked w \<Longrightarrow> set_peer_bkt (False, mp_peer_bkt (mw_mstp w)) w = w"
  by (simp_all add: set_master_bkt_def set_peer_bkt_def)

lemma unlocked_buckets:
  "master_ok w \<Longrightarrow> master_bkt w = (False, mp_master_peer_bkt (mw_mstp w))" "master_ok w \<Longrightarrow> peer_bkt w = (False, mp_peer_bkt (mw_mstp w))"
  by (simp_all add: master_ok_def master_bkt_def peer_bkt_def)

lemma master_ok_set_peer:
  "master_ok w \<Longrightarrow> bucket_ok bkt \<Longrightarrow> vlans_ok bkt \<Longrightarrow> master_ok (set_peer_bkt (False, bkt) w)"
  by (simp add: master_ok_def set_peer_bkt_def)

lemma master_ok_set_master:
  "master_ok w \<Longrightarrow> bucket_ok bkt \<Longrightarrow> bucket_items bkt \<noteq> [] \<Longrightarrow> master_ok (set_master_bkt (False, bkt) w)"
  by (simp add: master_ok_def set_master_bkt_def)

lemma set_bucket_fds [simp]: "mw_fds (set_peer_bkt lb w) = mw_fds w" "mw_fds (set_master_bkt lb w) = mw_fds w"
  by (simp_all add: set_peer_bkt_def set_master_bkt_def)

lemma handle_ping_returns:
  assumes "master_ok w" "locals_ok lo" "length b = BUFSIZ"
  shows "returns (handled w) (handle_ping lo b rlen w)"
proof -
  have l: "length (lo_source_id lo) = 21" "length (lo_target_id lo) = 21" "44 \<le> length b"
    using assms(2,3) by (auto simp: locals_ok_def BUFSIZ_def)
  show ?thesis
  proof (rule ping_unpack_cases [OF l, of rlen])
    fix s t
    assume u: "PMP_ping_req_unpack (lo_source_id lo) (lo_target_id lo) b rlen = Done (OK, s, t)" "id_ok s" "id_ok t"
    then show ?thesis
      using handled_pack [OF packs_ping(2) [OF id_ok_facts(3) [OF u(3)] id_ok_facts(3) [OF u(2)] l(3)] assms(1) refl]
      by (simp add: handle_ping_def)
  qed (simp add: handle_ping_def handled_0 [OF assms(1)])
qed

lemma handle_discovery_returns:
  assumes "master_ok w" "locals_ok lo" "length b = BUFSIZ"
  shows "returns (handled w) (handle_discovery lo b rlen w)"
proof -
  have l: "length (lo_source_id lo) = 21" "length (lo_target_id lo) = 21" "44 \<le> length b" "length (lo_items lo) = 256"
    using assms(2,3) by (auto simp: locals_ok_def BUFSIZ_def)
  let ?bkt = "mp_master_peer_bkt (mw_mstp w)"
  have ok: "bucket_ok ?bkt" "id_ok (mp_node_id (mw_mstp w))" "\<not> mw_locked w"
    using assms(1) by (simp_all add: master_ok_def)
  obtain arr where top: "get_top_bucket_items (Some (lo_items lo)) 10 (False, ?bkt) = Done (min 10 (int (length (bucket_items ?bkt))), Some arr, False, ?bkt)"
    "length arr = 256" "\<forall>it \<in> set (take (nat (min 10 (int (length (bucket_items ?bkt))))) arr). item_ok it"
    by (rule returns_top_items [OF ok(1) l(4)])
  show ?thesis
  proof (rule discovery_unpack_cases [OF l(1-3), of "lo_port lo" rlen])
    fix p s t
    assume u: "PMP_discovery_req_unpack (lo_port lo) (lo_source_id lo) (lo_target_id lo) b rlen = Done (OK, p, s, t)" "id_ok s" "id_ok t"
    show ?thesis
      using handled_pack [OF packs_discovery_rsp [OF ok(2) _ _ _ top(3) assms(3)] assms(1) refl] top(2)
      by (simp add: handle_discovery_def u(1) unlocked_buckets [OF assms(1)] top(1) set_same_buckets [OF ok(3)])
  qed (simp add: handle_discovery_def handled_0 [OF assms(1)])
qed

lemma handle_get_peers_returns:
  assumes "master_ok w" "locals_ok lo" "length b = BUFSIZ"
  shows "returns (handled w) (handle_get_peers lo b rlen w)"
proof -
  have l: "length (lo_source_id lo) = 21" "length (lo_target_id lo) = 21" "44 \<le> length b" "length (lo_items lo) = 256"
    using assms(2,3) by (auto simp: locals_ok_def BUFSIZ_def)
  let ?bkt = "mp_peer_bkt (mw_mstp w)"
  have ok: "bucket_ok ?bkt" "id_ok (mp_node_id (mw_mstp w))" "\<not> mw_locked w"
    using assms(1) by (simp_all add: master_ok_def)
  obtain arr where top: "get_top_bucket_items (Some (lo_items lo)) 10 (False, ?bkt) = Done (min 10 (int (length (bucket_items ?bkt))), Some arr, False, ?bkt)"
    "length arr = 256" "\<forall>it \<in> set (take (nat (min 10 (int (length (bucket_items ?bkt))))) arr). item_ok it"
    by (rule returns_top_items [OF ok(1) l(4)])
  show ?thesis
  proof (rule ping_unpack_cases [OF l(1-3), of rlen])
    fix s t
    assume u: "PMP_ping_req_unpack (lo_source_id lo) (lo_target_id lo) b rlen = Done (OK, s, t)" "id_ok s" "id_ok t"
    show ?thesis
      using handled_pack [OF packs_get_peers_rsp [OF u(2) _ _ top(3) assms(3)] assms(1) refl] top(2)
      by (simp add: handle_get_peers_def u(1) unlocked_buckets [OF assms(1)] top(1) set_same_buckets [OF ok(3)])
  qed (simp add: handle_get_peers_def handled_0 [OF assms(1)])
qed

lemma handle_registry_returns:
  assumes "master_ok w" "locals_ok lo" "length b = BUFSIZ"
  shows "returns (handled w) (handle_registry lo b rlen w)"
proof -
  have l: "length (lo_source_id lo) = 21" "item_arrays (lo_item lo)" "56 \<le> length b"
    using assms(2,3) by (auto simp: locals_ok_def BUFSIZ_def)
  let ?bkt = "mp_peer_bkt (mw_mstp w)"
  let ?pr = "peer_registry_req_of (take 56 b)"
  have ok: "bucket_ok ?bkt" "id_ok (mp_node_id (mw_mstp w))" "\<not> mw_locked w" "vlans_ok ?bkt"
    using assms(1) by (simp_all add: master_ok_def)
  have p: "length (rr_peer_id ?pr) = 20"
    using l(3) by simp
  note it = registered_ok [OF l(2) p]
  show ?thesis
  proof (cases "56 \<le> as_size rlen")
    case True
    have "returns (handled w) (bindO (push_front_bucket (lo_clock lo 0) (registered (lo_item lo) ?pr) (False, ?bkt))
        (\<lambda>lb. bindO (PMP_peer_registry_rsp_pkt (Some (mp_node_id (mw_mstp w))) (Some (rr_peer_id ?pr @ [0])) (lo_mem1 lo) (Some b)) (\<lambda>(wlen, b).
          Done (wlen, b, set_peer_bkt lb w))))"
    proof (rule returns_bind [OF returns_push [where v = True, OF ok(1) it(1)]])
      fix lb
      assume "case lb of (locked, bkt') \<Rightarrow> \<not> locked \<and> bucket_ok bkt' \<and> (True \<longrightarrow> vlans_ok ?bkt \<longrightarrow> vlans_ok bkt') \<and>
        (\<exists>more. bucket_items bkt' = bucket_items ?bkt @ more)"
      then obtain bkt' where lb: "lb = (False, bkt')" "bucket_ok bkt'" "vlans_ok bkt'"
        using ok(4) by (cases lb) auto
      show "returns (handled w) (bindO (PMP_peer_registry_rsp_pkt (Some (mp_node_id (mw_mstp w))) (Some (rr_peer_id ?pr @ [0])) (lo_mem1 lo) (Some b))
          (\<lambda>(wlen, b). Done (wlen, b, set_peer_bkt lb w)))"
        by (rule handled_pack [OF packs_ping(3)]) (use id_ok_facts [OF ok(2)] p l(3) lb master_ok_set_peer [OF assms(1)] in auto)
    qed (use it in simp)
    then show ?thesis
      by (simp add: handle_registry_def unlocked_buckets [OF assms(1)] registry_unpack_Done [OF l(2,1,3) True] bindO_assoc)
  next
    case False
    then show ?thesis
      using handled_0 [OF assms(1)]
      by (simp add: handle_registry_def unlocked_buckets [OF assms(1)] registry_unpack_short set_same_buckets [OF ok(3)])
  qed
qed

lemma handle_find_peer_returns:
  assumes "master_ok w" "locals_ok lo" "length b = BUFSIZ"
  shows "returns (handled w) (handle_find_peer lo b rlen w)"
proof -
  have l: "length (lo_source_id lo) = 21" "length (lo_target_id lo) = 21" "48 \<le> length b" "56 \<le> length b"
    using assms(2,3) by (auto simp: locals_ok_def BUFSIZ_def)
  let ?bkt = "mp_peer_bkt (mw_mstp w)"
  have ok: "bucket_ok ?bkt" "id_ok (mp_node_id (mw_mstp w))" "\<not> mw_locked w" "vlans_ok ?bkt"
    using assms(1) by (simp_all add: master_ok_def)
  have size': "bucket_size (False, ?bkt) = Done (bk_top ?bkt + 1, False, ?bkt)"
    by (simp add: bucket_size_def mutex_lock_def)
  let ?q = "find_peer_req_of (take 48 b)"
  have p: "length (fq_peer_id ?q) = 20"
    using l(3) by simp
  show ?thesis
  proof (cases "48 \<le> as_size rlen")
    case True
    define found where "found = find (\<lambda>it. c_str (bi_vlan_ipv4 it) = dotted (host32 (fq_vlan_ipv4 ?q))) (rev (bucket_items ?bkt))"
    have u: "PMP_find_peer_req_unpack (Some (lo_source_id lo)) (Some (lo_target_id lo)) (Some (lo_item lo)) (Some b) rlen (False, ?bkt) =
      Done (if found = None then C_FAILED else OK, Some (fq_peer_id ?q @ [0]), Some (fq_mstp_id ?q @ [0]),
        Some (case found of None \<Rightarrow> lo_item lo | Some it \<Rightarrow> it), False, ?bkt)"
      unfolding find_req_unpack_Done [OF ok(4) l(1-3) True] by (simp add: Let_def found_def)
    show ?thesis
    proof (cases found)
      case None
      then show ?thesis
        using handled_0 [OF assms(1)]
        by (simp add: handle_find_peer_def size' Let_def set_same_buckets [OF ok(3)] unlocked_buckets [OF assms(1)] u)
    next
      case (Some it)
      have "returns (handled w) (bindO (PMP_find_peer_rsp_pkt (Some (mp_node_id (mw_mstp w))) (Some (fq_peer_id ?q @ [0])) it (lo_mem1 lo) (Some b))
          (\<lambda>(wlen, b). Done (wlen, b, w)))"
        by (rule handled_pack [OF packs_find_rsp assms(1) refl]) (use id_ok_facts [OF ok(2)] p l(4) in auto)
      then show ?thesis
        using Some by (simp add: handle_find_peer_def size' Let_def set_same_buckets [OF ok(3)] unlocked_buckets [OF assms(1)] u)
    qed
  next
    case False
    then show ?thesis
      using handled_0 [OF assms(1)]
      by (simp add: handle_find_peer_def size' Let_def set_same_buckets [OF ok(3)] unlocked_buckets [OF assms(1)] PMP_find_peer_req_unpack_def)
  qed
qed


lemma handle_request_returns:
  assumes "master_ok w" "locals_ok lo" "length b = BUFSIZ"
  shows "returns (handled w) (handle_request lo b rlen w)"
  using handle_ping_returns [OF assms] handle_discovery_returns [OF assms] handle_get_peers_returns [OF assms]
    handle_registry_returns [OF assms] handle_find_peer_returns [OF assms] handled_0 [OF assms(1)]
  by (simp add: handle_request_def Let_def)

text \<open>What an event leaves: the invariant, and at most one datagram and one more descriptor.\<close>

definition event_done :: "master_world \<Rightarrow> int list \<Rightarrow> sent_pkt list \<times> master_world \<Rightarrow> bool" where
  "event_done w new = (\<lambda>(sent, w'). master_ok w' \<and> length sent \<le> 1 \<and> mw_fds w' = new @ mw_fds w)"

text \<open>The socket that a handler creates.\<close>

definition new_socket :: "udp_calls \<Rightarrow> int list" where
  "new_socket calls = (if uc_socket calls < 0 then [] else [uc_socket calls])"

fun opened :: "master_event \<Rightarrow> int list" where
  "opened (Datagram lo r) = []"
| "opened (PingTimer lo c) = new_socket c"
| "opened (DiscoveryTimer lo c) = new_socket c"
| "opened (GetPeersTimer lo c) = new_socket c"

lemma udp_recv_cb_returns:
  assumes "master_ok w" "locals_ok lo"
  shows "returns (event_done w []) (master_udp_recv_cb lo r w)"
proof -
  have b: "length (lo_b lo) = BUFSIZ"
    using assms(2) by (simp add: locals_ok_def)
  have "returns (\<lambda>(rlen, b, from). length b = BUFSIZ) (case r of
         Inl err \<Rightarrow> Done (err, lo_b lo, lo_raddr lo)
       | Inr (d, from) \<Rightarrow> bindO (receive_into (lo_b lo) BUFSIZ d) (\<lambda>(rlen, b). Done (rlen, b, from)))"
  proof (cases r)
    case (Inr x)
    obtain d from' where x: "x = (d, from')"
      by fastforce
    have "min BUFSIZ (length d) \<le> length (lo_b lo)"
      using b by simp
    then show ?thesis
      by (rule receive_into_cases) (use Inr x b in simp)
  qed (use b in simp)
  moreover have "returns (event_done w []) (if as_size rlen \<le> 2 then Done ([], w)
     else bindO (handle_request lo b rlen w) (\<lambda>(wlen, b, w).
       Done (if 0 < wlen then [(raddr, take (nat wlen) (the b))] else [], w)))" if "length b = BUFSIZ" for b rlen raddr
  proof (cases "as_size rlen \<le> 2")
    case False
    then show ?thesis
      using returns_bind [OF handle_request_returns [OF assms that, of rlen], where P = "event_done w []"]
      by (force simp: handled_def event_done_def)
  qed (simp add: event_done_def assms(1))
  ultimately show ?thesis
    unfolding master_udp_recv_cb_def by (auto intro!: returns_bind)
qed

text \<open>The datagram of a timer.\<close>

lemma send_udp_facts:
  assumes "send_udp_pkt calls handler host port buf n fds = (ret, uh, fds', sent)"
  shows "length sent \<le> 1" "fds' = new_socket calls @ fds"
  using assms by (auto simp: send_udp_pkt_def new_socket_def Let_def split: if_splits)

lemma recv_udp_returns:
  assumes "length buf = n" "reply_fits n calls"
  shows "returns (\<lambda>(len, uh, b). length b = n \<and> len \<le> int n \<and>
    (0 < len \<longrightarrow> (\<exists>d from. uc_recvfrom calls = Inr (d, from) \<and> take (nat len) b = take BUFSIZ d))) (recv_udp_pkt calls uh buf)"
proof (cases "uc_recvfrom calls")
  case (Inr x)
  obtain d from' where x: "x = (d, from')"
    by fastforce
  have m: "min BUFSIZ (length d) \<le> length buf"
    using assms Inr x by (simp add: reply_fits_def)
  show ?thesis
    by (rule receive_into_cases [OF m]) (use Inr x assms(1) m in \<open>simp add: recv_udp_pkt_def min_def split: if_splits\<close>)
qed (use assms in \<open>simp add: recv_udp_pkt_def reply_fits_def\<close>)

lemma terminated_copy: "length x = 20 \<Longrightarrow> length (bi_node_id item) = 21 \<Longrightarrow> terminated_id item x \<Longrightarrow> is_str (x @ drop 20 (bi_node_id item))"
proof -
  assume x: "length x = 20" "length (bi_node_id item) = 21" "terminated_id item x"
  then have "drop 20 (bi_node_id item) = [bi_node_id item ! 20]"
    using Cons_nth_drop_Suc [of 20 "bi_node_id item"] by simp
  then show ?thesis
    using x(3) by (auto simp: terminated_id_def is_str_def)
qed

lemma get_peers_loop_returns:
  assumes "item_arrays item" "bucket_ok bkt" "offset + 32 * count \<le> length buf"
    "\<forall>i<count. terminated_id item (go_node_id (get_peers_options_of (segment buf (offset + 32 * i) 32)))"
  shows "returns (\<lambda>(locked, bkt'). \<not> locked \<and> bucket_ok bkt' \<and> (vlans_ok bkt \<longrightarrow> vlans_ok bkt'))
    (get_peers_loop count buf offset item clock (False, bkt))"
  using assms
proof (induction count arbitrary: offset item bkt)
  case (Suc count)
  let ?opt = "get_peers_options_of (segment buf offset 32)"
  let ?item = "learned item ?opt"
  have l: "length (go_node_id ?opt) = 20"
    using Suc.prems(3) by simp
  have "terminated_id item (go_node_id ?opt)"
    using spec [OF Suc.prems(4), of 0] by simp
  then have "is_str (bi_node_id ?item)"
    using terminated_copy [OF l] Suc.prems(1) by (simp add: item_arrays_def learned_def)
  then have ok: "item_ok ?item" "is_str (bi_vlan_ipv4 ?item)"
    using learned_arrays(1) [OF Suc.prems(1) l] Suc.prems(1) by (simp_all add: item_ok_def item_arrays_def learned_def)
  have a: "item_arrays ?item"
    by (rule learned_arrays(1) [OF Suc.prems(1) l])
  have t: "\<forall>i<count. terminated_id ?item (go_node_id (get_peers_options_of (segment buf (offset + 32 + 32 * i) 32)))"
  proof (intro allI impI)
    fix i
    assume "i < count"
    then show "terminated_id ?item (go_node_id (get_peers_options_of (segment buf (offset + 32 + 32 * i) 32)))"
      using spec [OF Suc.prems(4), of "Suc i"] l Suc.prems(1)
      by (simp add: terminated_id_def learned_def item_arrays_def nth_append algebra_simps)
  qed
  have step: "get_peers_loop (Suc count) buf offset item clock (False, bkt) =
      bindO (push_front_bucket (clock count) ?item (False, bkt)) (get_peers_loop count buf (offset + 32) ?item clock)"
    using Suc.prems(1,3) l by (simp add: item_arrays_def store_ntoa_Done Let_def learned_def splice_at_def)
  show ?case
    unfolding step
  proof (rule returns_bind [OF returns_push [where v = True, OF Suc.prems(2) ok(1)]])
    fix x
    assume "case x of (locked, bkt') \<Rightarrow> \<not> locked \<and> bucket_ok bkt' \<and> (True \<longrightarrow> vlans_ok bkt \<longrightarrow> vlans_ok bkt') \<and>
      (\<exists>more. bucket_items bkt' = bucket_items bkt @ more)"
    then obtain bkt' where x: "x = (False, bkt')" "bucket_ok bkt'" "vlans_ok bkt \<longrightarrow> vlans_ok bkt'"
      by (cases x) auto
    show "returns (\<lambda>(locked, bkt'). \<not> locked \<and> bucket_ok bkt' \<and> (vlans_ok bkt \<longrightarrow> vlans_ok bkt'))
        (get_peers_loop count buf (offset + 32) ?item clock x)"
      unfolding x(1) by (rule returns_mono [OF Suc.IH [OF a x(2) _ t]]) (use x(3) Suc.prems(3) in auto)
  qed (use ok(2) in simp)
qed simp

lemma discovery_loop_returns:
  assumes "item_arrays item" "bucket_ok bkt" "bucket_items bkt \<noteq> []" "offset + 28 * count \<le> length buf"
    "\<forall>i<count. terminated_id item (op_node_id (options_of (segment buf (offset + 28 * i) 28)))"
  shows "returns (\<lambda>(locked, bkt'). \<not> locked \<and> bucket_ok bkt' \<and> bucket_items bkt' \<noteq> [])
    (discovery_loop count buf offset item clock (False, bkt))"
  using assms
proof (induction count arbitrary: offset item bkt)
  case (Suc count)
  let ?opt = "options_of (segment buf offset 28)"
  let ?item = "item\<lparr>bi_port := op_port ?opt, bi_node_id := op_node_id ?opt @ drop 20 (bi_node_id item),
    bi_ipv4 := stored_ntoa (bi_ipv4 item) (op_ipv4 ?opt)\<rparr>"
  have l: "length (op_node_id ?opt) = 20"
    using Suc.prems(4) by simp
  have a: "item_arrays ?item"
    using Suc.prems(1) l by (simp add: item_arrays_def)
  have "terminated_id item (op_node_id ?opt)"
    using spec [OF Suc.prems(5), of 0] by simp
  then have ok: "item_ok ?item"
    using terminated_copy [OF l] Suc.prems(1) a by (simp add: item_ok_def item_arrays_def)
  have t: "\<forall>i<count. terminated_id ?item (op_node_id (options_of (segment buf (offset + 28 + 28 * i) 28)))"
  proof (intro allI impI)
    fix i
    assume "i < count"
    then show "terminated_id ?item (op_node_id (options_of (segment buf (offset + 28 + 28 * i) 28)))"
      using spec [OF Suc.prems(5), of "Suc i"] l Suc.prems(1)
      by (simp add: terminated_id_def item_arrays_def nth_append algebra_simps)
  qed
  have step: "discovery_loop (Suc count) buf offset item clock (False, bkt) =
      bindO (push_front_bucket (clock count) ?item (False, bkt)) (discovery_loop count buf (offset + 28) ?item clock)"
    using Suc.prems(1,4) l by (simp add: item_arrays_def store_ntoa_Done Let_def splice_at_def)
  show ?case
    unfolding step
  proof (rule returns_bind [OF returns_push [where v = False, OF Suc.prems(2) ok]])
    fix x
    assume "case x of (locked, bkt') \<Rightarrow> \<not> locked \<and> bucket_ok bkt' \<and> (False \<longrightarrow> vlans_ok bkt \<longrightarrow> vlans_ok bkt') \<and>
      (\<exists>more. bucket_items bkt' = bucket_items bkt @ more)"
    then obtain bkt' where x: "x = (False, bkt')" "bucket_ok bkt'" "bucket_items bkt' \<noteq> []"
      using Suc.prems(3) by (cases x) auto
    show "returns (\<lambda>(locked, bkt'). \<not> locked \<and> bucket_ok bkt' \<and> bucket_items bkt' \<noteq> [])
        (discovery_loop count buf (offset + 28) ?item clock x)"
      unfolding x(1) by (rule Suc.IH [OF a x(2,3) _ t]) (use Suc.prems(4) in simp)
  qed simp
qed simp


lemma unpack_returns:
  assumes "item_arrays item" "bucket_ok bkt" "0 < len" "len \<le> int (length buf)" "length buf \<le> BUFSIZ" "1024 \<le> length buf"
  shows "\<forall>x \<in> set (peers_ids (take (nat len) buf)). terminated_id item x \<Longrightarrow>
    returns (\<lambda>(ret, locked, bkt'). \<not> locked \<and> bucket_ok bkt' \<and> (vlans_ok bkt \<longrightarrow> vlans_ok bkt'))
      (PMP_get_peers_rsp_unpack item clock buf len (False, bkt))"
    "bucket_items bkt \<noteq> [] \<Longrightarrow> \<forall>x \<in> set (discovery_ids (take (nat len) buf)). terminated_id item x \<Longrightarrow>
      returns (\<lambda>(ret, locked, bkt'). \<not> locked \<and> bucket_ok bkt' \<and> bucket_items bkt' \<noteq> [])
      (PMP_discovery_rsp_unpack item clock buf len (False, bkt))"
proof -
  have n: "as_size len = nat len" "nat len \<le> length buf"
    using assms(3-5) by (auto simp: as_size_nat BUFSIZ_def)
  have seg: "segment (take (nat len) buf) k m = segment buf k m" if "k + m \<le> nat len" for k m
    using that by (simp add: segment_def drop_take min_def)
  let ?c = "unat (htons (gp_count (get_peers_rsp_of (take 24 buf))))" and ?d = "unat (dp_count (discovery_rsp_of (take 24 buf)))"
  show "returns (\<lambda>(ret, locked, bkt'). \<not> locked \<and> bucket_ok bkt' \<and> (vlans_ok bkt \<longrightarrow> vlans_ok bkt'))
      (PMP_get_peers_rsp_unpack item clock buf len (False, bkt))"
    if ids: "\<forall>x \<in> set (peers_ids (take (nat len) buf)). terminated_id item x"
  proof (cases "nat len < 24 \<or> nat len < 24 + 32 * ?c")
    case False
    have "\<forall>i<?c. terminated_id item (go_node_id (get_peers_options_of (segment buf (24 + 32 * i) 32)))"
      using ids False n(2) seg by (simp add: peers_ids_def Let_def min_def)
    with False have "returns (\<lambda>(locked, bkt'). \<not> locked \<and> bucket_ok bkt' \<and> (vlans_ok bkt \<longrightarrow> vlans_ok bkt'))
        (get_peers_loop ?c buf 24 item clock (False, bkt))"
      using n(2) by (intro get_peers_loop_returns [OF assms(1,2)]) simp_all
    then show ?thesis
      using False assms(6) by (auto simp: PMP_get_peers_rsp_unpack_def n(1) Let_def intro!: returns_bind)
  qed (use assms(2,6) in \<open>auto simp: PMP_get_peers_rsp_unpack_def n(1) Let_def\<close>)
  show "returns (\<lambda>(ret, locked, bkt'). \<not> locked \<and> bucket_ok bkt' \<and> bucket_items bkt' \<noteq> [])
      (PMP_discovery_rsp_unpack item clock buf len (False, bkt))"
    if ne: "bucket_items bkt \<noteq> []" and ids: "\<forall>x \<in> set (discovery_ids (take (nat len) buf)). terminated_id item x"
  proof (cases "nat len < 44 \<or> nat len < ?d * 28 + 24")
    case False
    have "\<forall>i<?d. terminated_id item (op_node_id (options_of (segment buf (24 + 28 * i) 28)))"
      using ids False n(2) seg by (simp add: discovery_ids_def Let_def min_def)
    with False have "returns (\<lambda>(locked, bkt'). \<not> locked \<and> bucket_ok bkt' \<and> bucket_items bkt' \<noteq> [])
        (discovery_loop ?d buf 24 item clock (False, bkt))"
      using n(2) by (intro discovery_loop_returns [OF assms(1,2) ne]) simp_all
    then show ?thesis
      using False assms(6) by (auto simp: PMP_discovery_rsp_unpack_def n(1) Let_def intro!: returns_bind)
  qed (use assms(2,6) ne in \<open>auto simp: PMP_discovery_rsp_unpack_def n(1) Let_def\<close>)
qed

text \<open>The three timers.\<close>

lemma master_ok_facts:
  assumes "master_ok w"
  shows "bucket_ok (mp_master_peer_bkt (mw_mstp w))" "bucket_items (mp_master_peer_bkt (mw_mstp w)) \<noteq> []"
    "bucket_ok (mp_peer_bkt (mw_mstp w))" "vlans_ok (mp_peer_bkt (mw_mstp w))" "id_ok (mp_node_id (mw_mstp w))" "\<not> mw_locked w"
  using assms by (simp_all add: master_ok_def)

lemma locals_ok_facts:
  assumes "locals_ok lo"
  shows "length (lo_b lo) = BUFSIZ" "length (lo_source_id lo) = 21" "length (lo_target_id lo) = 21" "length (lo_items lo) = 256"
    "item_arrays (lo_item lo)"
  using assms by (simp_all add: locals_ok_def)

lemma item_in_bucket: "bucket_ok bkt \<Longrightarrow> it \<in> set (bucket_items bkt) \<Longrightarrow> item_ok it"
  by (simp add: bucket_ok_def)

lemma event_done_more:
  "master_ok w' \<Longrightarrow> length sent \<le> 1 \<Longrightarrow> mw_fds w' = new @ mw_fds w \<Longrightarrow> event_done w new (sent, w')"
  by (simp add: event_done_def)

lemma master_ok_update [simp]:
  "master_ok (w\<lparr>mw_fds := fds\<rparr>) = master_ok w" "master_ok (w\<lparr>mw_ping := x\<rparr>) = master_ok w"
  "master_ok (w\<lparr>mw_discovery := x\<rparr>) = master_ok w" "master_ok (w\<lparr>mw_get_peers := x\<rparr>) = master_ok w"
  by (simp_all add: master_ok_def)

lemma front_item:
  assumes "bucket_ok bkt" "bucket_items bkt \<noteq> []"
  obtains i where "get_front_bucket (False, bkt) = Done (Some i, False, bkt)" "item_of bkt (Some i) = Done (last (bucket_items bkt))"
proof (rule that [of "int (length (bucket_items bkt) - 1)"])
  show "get_front_bucket (False, bkt) = Done (Some (int (length (bucket_items bkt) - 1)), False, bkt)"
    using assms(2) by (simp add: get_front_Done [OF assms(1)] of_nat_diff Suc_leI)
  show "item_of bkt (Some (int (length (bucket_items bkt) - 1))) = Done (last (bucket_items bkt))"
    using item_at_ok [OF assms(1), of "length (bucket_items bkt) - 1"] assms(2) by (simp add: item_of_def last_conv_nth)
qed

lemma ping_peer_step:
  assumes "master_ok w" "locals_ok lo"
  obtains w' uh b sent where "ping_peer lo calls w = bindO (recv_udp_pkt calls uh b) (\<lambda>(len, uh, buf).
      bindO (if 0 < len then bindO (PMP_ping_req_unpack (lo_source_id lo) (lo_target_id lo) buf len) (\<lambda>_. Done ()) else Done ()) (\<lambda>_.
      Done (sent, w')))" "length b = BUFSIZ" "event_done w (new_socket calls) (sent, w')"
proof -
  let ?bkt = "mp_master_peer_bkt (mw_mstp w)"
  note w = master_ok_facts [OF assms(1)] and lo = locals_ok_facts [OF assms(2)]
  obtain i where i: "get_next_bucket_item (False, ?bkt) = Done (Some (int i), False, ?bkt\<lparr>bk_visited := int i + 1\<rparr>)"
    "i < length (bucket_items ?bkt)" "bucket_ok (?bkt\<lparr>bk_visited := int i + 1\<rparr>)"
    by (rule get_next_Done [OF w(1,2)])
  let ?bkt' = "?bkt\<lparr>bk_visited := int i + 1\<rparr>" and ?it = "bucket_items ?bkt ! i"
  have its: "bucket_items ?bkt' = bucket_items ?bkt"
    by (simp add: bucket_items_def)
  define w' where "w' = set_master_bkt (False, ?bkt') w"
  have w': "master_ok w'" "mw_fds w' = mw_fds w" "mp_node_id (mw_mstp w') = mp_node_id (mw_mstp w)" "snd (master_bkt w') = ?bkt'"
    using master_ok_set_master [OF assms(1) i(3)] w(2) by (simp_all add: w'_def its set_master_bkt_def master_bkt_def)
  have item: "item_of ?bkt' (Some (int i)) = Done ?it"
    using item_at_ok [OF i(3), of i] i(2) by (simp add: item_of_def its)
  have it: "item_ok ?it"
    using item_in_bucket [OF w(1)] i(2) by simp
  obtain len b where p: "PMP_ping_req_pkt (Some (mp_node_id (mw_mstp w))) (Some (bi_node_id ?it)) (lo_mem1 lo) (Some (lo_b lo)) = Done (len, Some b)"
    "length b = length (lo_b lo)"
    using packs_ping(1) [of "mp_node_id (mw_mstp w)" "bi_node_id ?it" "lo_b lo" "lo_mem1 lo"] id_ok_facts(3) [OF w(5)] it lo(1)
    by (auto simp: packs_def item_ok_def BUFSIZ_def)
  obtain ret uh fds sent where s: "send_udp_pkt calls (lo_handler lo) (bi_ipv4 ?it) (uint (bi_port ?it)) b len (mw_fds w) = (ret, uh, fds, sent)"
    by (metis prod_cases4)
  have "event_done w (new_socket calls) (sent, w'\<lparr>mw_fds := fds, mw_ping := True\<rparr>)"
    using send_udp_facts [OF s] w' by (intro event_done_more) simp_all
  then show thesis
    using p(2) lo(1) by (intro that [of uh b sent "w'\<lparr>mw_fds := fds, mw_ping := True\<rparr>"])
      (simp_all add: ping_peer_def unlocked_buckets [OF assms(1)] i(1) Let_def w'_def [symmetric] w' item p(1) s)
qed

lemma ping_peer_returns:
  assumes "master_ok w" "locals_ok lo" "reply_fits BUFSIZ calls"
  shows "returns (event_done w (new_socket calls)) (ping_peer lo calls w)"
proof (rule ping_peer_step [OF assms(1,2), of calls])
  fix w' uh b sent
  assume step: "ping_peer lo calls w = bindO (recv_udp_pkt calls uh b) (\<lambda>(len, uh, buf).
      bindO (if 0 < len then bindO (PMP_ping_req_unpack (lo_source_id lo) (lo_target_id lo) buf len) (\<lambda>_. Done ()) else Done ()) (\<lambda>_.
      Done (sent, w')))" "length b = BUFSIZ" "event_done w (new_socket calls) (sent, w')"
  note lo = locals_ok_facts [OF assms(2)]
  have u: "\<exists>r. PMP_ping_req_unpack (lo_source_id lo) (lo_target_id lo) rb n = Done r" if "length rb = BUFSIZ" for rb n
    by (rule ping_unpack_cases [OF lo(2,3), of rb n]) (use that in \<open>auto simp: BUFSIZ_def\<close>)
  show ?thesis
    unfolding step(1)
  proof (rule returns_bind [OF recv_udp_returns [OF step(2) assms(3)]])
    fix x :: "int \<times> udp_handler \<times> bytes"
    assume a: "case x of (len, uh, b) \<Rightarrow> length b = BUFSIZ \<and> len \<le> int BUFSIZ \<and>
      (0 < len \<longrightarrow> (\<exists>d from. uc_recvfrom calls = Inr (d, from) \<and> take (nat len) b = take BUFSIZ d))"
    obtain len uh' buf where x: "x = (len, uh', buf)"
      by (rule prod_cases3)
    obtain r where "PMP_ping_req_unpack (lo_source_id lo) (lo_target_id lo) buf len = Done r"
      using u [of buf len] a x by auto
    then show "returns (event_done w (new_socket calls)) (case x of (len, uh, buf) \<Rightarrow>
        bindO (if 0 < len then bindO (PMP_ping_req_unpack (lo_source_id lo) (lo_target_id lo) buf len) (\<lambda>_. Done ()) else Done ()) (\<lambda>_.
        Done (sent, w')))"
      using step(3) by (simp add: x)
  qed
qed

lemma discovery_proc_step:
  assumes "master_ok w" "locals_ok lo"
  obtains uh b sent fds where "length b = 1024" "length sent \<le> 1" "fds = new_socket calls @ mw_fds w"
    "discovery_proc lo calls w = bindO (recv_udp_pkt calls uh b) (\<lambda>(len, uh, buf).
     bindO (if 0 < len then bindO (PMP_discovery_rsp_unpack (lo_item lo) (lo_clock lo) buf len (False, mp_master_peer_bkt (mw_mstp w)))
              (\<lambda>(ret, lb). Done (set_master_bkt lb (w\<lparr>mw_fds := fds\<rparr>)))
            else Done (w\<lparr>mw_fds := fds\<rparr>)) (\<lambda>w. Done (sent, w\<lparr>mw_discovery := True\<rparr>)))"
proof -
  let ?bkt = "mp_master_peer_bkt (mw_mstp w)" and ?it = "last (bucket_items (mp_master_peer_bkt (mw_mstp w)))"
  note w = master_ok_facts [OF assms(1)]
  obtain i where i: "get_front_bucket (False, ?bkt) = Done (Some i, False, ?bkt)" and item: "item_of ?bkt (Some i) = Done ?it"
    by (rule front_item [OF w(1,2)])
  have id: "id_ok (bi_node_id ?it)"
    using item_in_bucket [OF w(1)] w(2) by (simp add: item_ok_def id_ok_def)
  have b0: "length (take 1024 (lo_b lo)) = 1024"
    using locals_ok_facts(1) [OF assms(2)] by (simp add: BUFSIZ_def)
  have "packs (take 1024 (lo_b lo)) (PMP_discovery_req_pkt (bi_port ?it) (mp_node_id (mw_mstp w)) (bi_node_id ?it) (lo_mem1 lo) (Some (take 1024 (lo_b lo))))"
    by (rule packs_discovery_req [OF w(5) id]) (use b0 in simp)
  then obtain len b where p: "PMP_discovery_req_pkt (bi_port ?it) (mp_node_id (mw_mstp w)) (bi_node_id ?it) (lo_mem1 lo) (Some (take 1024 (lo_b lo))) = Done (len, Some b)"
    "length b = 1024"
    unfolding packs_def b0 by blast
  obtain ret uh fds sent where s: "send_udp_pkt calls (lo_handler lo) (bi_ipv4 ?it) (uint (bi_port ?it)) b len (mw_fds w) = (ret, uh, fds, sent)"
    by (metis prod_cases4)
  have "master_bkt (w\<lparr>mw_fds := fds\<rparr>) = (False, ?bkt)"
    using unlocked_buckets(1) [OF assms(1)] by (simp add: master_bkt_def)
  then show thesis
    by (intro that [OF p(2) send_udp_facts [OF s], of uh])
      (simp add: discovery_proc_def unlocked_buckets [OF assms(1)] i Let_def set_same_buckets [OF w(6)] item p(1) s cong: if_cong)
qed

lemma discovery_proc_returns:
  assumes "master_ok w" "locals_ok lo" "answer_terminated discovery_ids (lo_item lo) calls" "reply_fits 1024 calls"
  shows "returns (event_done w (new_socket calls)) (discovery_proc lo calls w)"
proof -
  let ?bkt = "mp_master_peer_bkt (mw_mstp w)"
  note w = master_ok_facts [OF assms(1)] and lo = locals_ok_facts [OF assms(2)]
  obtain uh b sent fds where p: "length b = 1024" and sent: "length sent \<le> 1" "fds = new_socket calls @ mw_fds w"
    and step: "discovery_proc lo calls w = bindO (recv_udp_pkt calls uh b) (\<lambda>(len, uh, buf).
     bindO (if 0 < len then bindO (PMP_discovery_rsp_unpack (lo_item lo) (lo_clock lo) buf len (False, ?bkt))
              (\<lambda>(ret, lb). Done (set_master_bkt lb (w\<lparr>mw_fds := fds\<rparr>)))
            else Done (w\<lparr>mw_fds := fds\<rparr>)) (\<lambda>w. Done (sent, w\<lparr>mw_discovery := True\<rparr>)))"
    by (rule discovery_proc_step [OF assms(1,2)])
  have w1: "master_ok (w\<lparr>mw_fds := fds\<rparr>)"
    using assms(1) by simp
  have fin: "event_done w (new_socket calls) (sent, w'\<lparr>mw_discovery := True\<rparr>)" if "master_ok w'" "mw_fds w' = fds" for w'
    using sent that by (intro event_done_more) simp_all
  show ?thesis
    unfolding step
  proof (rule returns_bind [OF recv_udp_returns [OF p assms(4)]])
    fix x :: "int \<times> udp_handler \<times> bytes"
    assume "case x of (len, uh, b) \<Rightarrow> length b = 1024 \<and> len \<le> int 1024 \<and>
      (0 < len \<longrightarrow> (\<exists>d from. uc_recvfrom calls = Inr (d, from) \<and> take (nat len) b = take BUFSIZ d))"
    then obtain len uh' buf where x: "x = (len, uh', buf)" "length buf = 1024" "len \<le> int 1024"
      and d: "0 < len \<Longrightarrow> \<exists>d from. uc_recvfrom calls = Inr (d, from) \<and> take (nat len) buf = take BUFSIZ d"
      by (cases x) auto
    have "returns (\<lambda>(ret, locked, bkt'). \<not> locked \<and> bucket_ok bkt' \<and> bucket_items bkt' \<noteq> [])
        (PMP_discovery_rsp_unpack (lo_item lo) (lo_clock lo) buf len (False, ?bkt))" if True: "0 < len"
      by (rule unpack_returns(2) [OF lo(5) w(1) True _ _ _ w(2)])
        (use x(2,3) d [OF True] assms(3) in \<open>auto simp: BUFSIZ_def answer_terminated_def\<close>)
    then show "returns (event_done w (new_socket calls)) (case x of (len, uh, buf) \<Rightarrow>
      bindO (if 0 < len then bindO (PMP_discovery_rsp_unpack (lo_item lo) (lo_clock lo) buf len (False, ?bkt))
              (\<lambda>(ret, lb). Done (set_master_bkt lb (w\<lparr>mw_fds := fds\<rparr>)))
             else Done (w\<lparr>mw_fds := fds\<rparr>)) (\<lambda>w. Done (sent, w\<lparr>mw_discovery := True\<rparr>)))"
      using master_ok_set_master [OF w1] fin w1 by (auto simp: x(1) bindO_assoc intro!: returns_bind)
  qed
qed

lemma get_peers_returns:
  assumes "master_ok w" "locals_ok lo" "answer_terminated peers_ids (lo_item lo) calls" "reply_fits BUFSIZ calls"
  shows "returns (event_done w (new_socket calls)) (get_peers lo calls w)"
proof -
  let ?bkt = "mp_master_peer_bkt (mw_mstp w)" and ?pb = "mp_peer_bkt (mw_mstp w)"
  note w = master_ok_facts [OF assms(1)] and lo = locals_ok_facts [OF assms(2)]
  let ?it = "last (bucket_items ?bkt)"
  obtain i where i: "get_front_bucket (False, ?bkt) = Done (Some i, False, ?bkt)" and item: "item_of ?bkt (Some i) = Done ?it"
    by (rule front_item [OF w(1,2)])
  have it: "item_ok ?it"
    using item_in_bucket [OF w(1)] w(2) by simp
  then have id: "id_ok (bi_node_id ?it)"
    by (simp add: item_ok_def id_ok_def)
  obtain len b where p: "PMP_get_peers_req_pkt (Some (mp_node_id (mw_mstp w))) (Some (bi_node_id ?it)) (lo_mem1 lo) (Some (lo_b lo)) = Done (len, Some b)"
    "length b = BUFSIZ"
    using packs_get_peers_req [OF w(5) id, of "lo_b lo" "lo_mem1 lo"] lo(1) by (auto simp: packs_def BUFSIZ_def)
  obtain ret uh fds sent where s: "send_udp_pkt calls (lo_handler lo) (bi_ipv4 ?it) (uint (bi_port ?it)) b len (mw_fds w) = (ret, uh, fds, sent)"
    by (metis prod_cases4)
  let ?w = "w\<lparr>mw_fds := fds\<rparr>"
  have w1: "master_ok ?w" "peer_bkt ?w = (False, ?pb)"
    using assms(1) unlocked_buckets(2) [OF assms(1)] by (simp_all add: peer_bkt_def)
  have fin: "event_done w (new_socket calls) (sent, w'\<lparr>mw_get_peers := True\<rparr>)" if "master_ok w'" "mw_fds w' = fds" for w'
    using send_udp_facts [OF s] that by (intro event_done_more) simp_all
  have "returns (event_done w (new_socket calls)) (bindO (recv_udp_pkt calls uh b) (\<lambda>(len, uh, buf).
     bindO (if 0 < len then bindO (PMP_get_peers_rsp_unpack (lo_item lo) (lo_clock lo) buf len (peer_bkt ?w)) (\<lambda>(ret, lb). Done (set_peer_bkt lb ?w))
            else Done ?w) (\<lambda>w. Done (sent, w\<lparr>mw_get_peers := True\<rparr>))))"
  proof (rule returns_bind [OF recv_udp_returns [OF p(2) assms(4)]])
    fix x :: "int \<times> udp_handler \<times> bytes"
    assume "case x of (len, uh, b) \<Rightarrow> length b = BUFSIZ \<and> len \<le> int BUFSIZ \<and>
      (0 < len \<longrightarrow> (\<exists>d from. uc_recvfrom calls = Inr (d, from) \<and> take (nat len) b = take BUFSIZ d))"
    then obtain len uh' buf where x: "x = (len, uh', buf)" "length buf = BUFSIZ" "len \<le> int BUFSIZ"
      and d: "0 < len \<Longrightarrow> \<exists>d from. uc_recvfrom calls = Inr (d, from) \<and> take (nat len) buf = take BUFSIZ d"
      by (cases x) auto
    show "returns (event_done w (new_socket calls)) (case x of (len, uh, buf) \<Rightarrow>
      bindO (if 0 < len then bindO (PMP_get_peers_rsp_unpack (lo_item lo) (lo_clock lo) buf len (peer_bkt ?w)) (\<lambda>(ret, lb). Done (set_peer_bkt lb ?w))
             else Done ?w) (\<lambda>w. Done (sent, w\<lparr>mw_get_peers := True\<rparr>)))"
    proof (cases "0 < len")
      case True
      have "returns (\<lambda>(ret, locked, bkt'). \<not> locked \<and> bucket_ok bkt' \<and> (vlans_ok ?pb \<longrightarrow> vlans_ok bkt'))
          (PMP_get_peers_rsp_unpack (lo_item lo) (lo_clock lo) buf len (False, ?pb))"
        by (rule unpack_returns(1) [OF lo(5) w(3) True])
          (use x(2,3) d [OF True] assms(3) in \<open>auto simp: BUFSIZ_def answer_terminated_def\<close>)
      then show ?thesis
        using True master_ok_set_peer [OF w1(1)] fin w(4)
        by (auto simp: x(1) w1(2) bindO_assoc intro!: returns_bind)
    qed (use x(1) fin w1(1) in simp)
  qed
  then show ?thesis
    using w(2) by (simp add: get_peers_def unlocked_buckets [OF assms(1)] i Let_def set_same_buckets [OF w(6)] item p(1) s cong: if_cong)
qed

lemma run_event_returns: "master_ok w \<Longrightarrow> event_ok e \<Longrightarrow> returns (event_done w (opened e)) (run_event e w)"
  using udp_recv_cb_returns ping_peer_returns [of "w\<lparr>mw_ping := False\<rparr>"] discovery_proc_returns [of "w\<lparr>mw_discovery := False\<rparr>"]
    get_peers_returns [of "w\<lparr>mw_get_peers := False\<rparr>"]
  by (cases e) (auto simp: event_done_def)

section \<open>Start and run\<close>

lemma c_str_dotted_alone [simp]: "c_str (dotted a) = dotted a"
  using dotted_chars [of a] by (intro c_str_id) auto

lemma init_items_loop_Done:
  assumes "i + length its \<le> length (bk_b bkt)"
  shows "init_items_loop its i bkt =
    Done (bkt\<lparr>bk_top := bk_top bkt + int (length its), bk_b := splice_at (bk_b bkt) i its\<rparr>)"
  using assms
proof (induction its arbitrary: i bkt)
  case (Cons it its)
  have "splice_at ((bk_b bkt)[i := it]) (Suc i) its = splice_at (bk_b bkt) i (it # its)"
    using Cons.prems by (simp add: splice_at_def take_Suc_conv_app_nth)
  then show ?case
    using Cons by (simp add: set_item_def)
qed (simp add: splice_at_def)

lemma push_known: "bucket_ok bkt \<Longrightarrow> \<forall>(now, it) \<in> set its. item_ok it \<and> known it bkt \<Longrightarrow> push_all its (False, bkt) = Done (False, bkt)"
  by (induction its) (auto simp: push_front_cases)

lemma init_master_peer_Done:
  assumes "length (bk_b (mp_master_peer_bkt mstp)) = MAX_BUCKET_SIZE" "length (bk_b (mp_peer_bkt mstp)) = MAX_BUCKET_SIZE"
    "its \<noteq> []" "length its \<le> MAX_BUCKET_SIZE" "\<forall>it \<in> set its. item_ok it" "id_ok (mp_node_id mstp)"
    "is_str ipv4" "length (mp_ipv4 mstp) = 16" "length (c_str ipv4) \<le> 16"
  shows "\<exists>mstp'. init_master_peer clock ipv4 port its (int (length its)) (locked, mstp) = Done (OK, False, mstp') \<and>
    bucket_items (mp_master_peer_bkt mstp') = its \<and> bucket_items (mp_peer_bkt mstp') = [] \<and>
    bucket_ok (mp_master_peer_bkt mstp') \<and> bucket_ok (mp_peer_bkt mstp') \<and> mp_node_id mstp' = mp_node_id mstp"
proof -
  define mb where "mb = \<lparr>bk_top = int (length its) - 1, bk_visited = 0, bk_b = splice_at (bk_b (mp_master_peer_bkt mstp)) 0 its\<rparr>"
  have i: "init_bucket (Some its) (int (length its)) (locked, mp_master_peer_bkt mstp) = Done (False, mb)"
    using assms(1,4) by (simp add: init_bucket_def Let_def init_items_loop_Done mb_def)
  have items: "bucket_items mb = its"
    by (simp add: bucket_items_def mb_def splice_at_def)
  have "length (bk_b mb) = MAX_BUCKET_SIZE"
    using assms(1,4) by (simp add: mb_def)
  then have mb: "bucket_ok mb"
    using assms(3-5) by (auto simp: bucket_ok_def items) (simp_all add: mb_def)
  have k: "push_all (with_times clock its) (False, mb) = Done (False, mb)"
  proof (rule push_known [OF mb])
    have "it \<in> set its" if "(now, it) \<in> set (with_times clock its)" for now it
      using that set_with_times [of clock its] by force
    then show "\<forall>(now, it) \<in> set (with_times clock its). item_ok it \<and> known it mb"
      using assms(5) by (auto simp: known_def items)
  qed
  have "c_strncpy (mp_ipv4 mstp) ipv4 (length (c_str ipv4)) = Done (splice_at (mp_ipv4 mstp) 0 (c_str ipv4))"
    using assms(7-9) by (simp add: c_strncpy_def)
  then show ?thesis
    using i k items mb empty_bucket_ok [of "mp_peer_bkt mstp"] assms(2,7)
    by (simp add: init_master_peer_def init_bucket_empty read_items_def)
qed

lemma master_steps_ok:
  assumes "master_steps w events sent w'" "master_ok w" "\<forall>e \<in> set events. event_ok e"
  shows "master_ok w' \<and> length sent \<le> length events \<and> mw_fds w' = concat (rev (map opened events)) @ mw_fds w"
  using assms
proof (induction rule: master_steps.induct)
  case (step w events sent w' e out w'')
  then have "master_ok w'" "length sent \<le> length events" "event_ok e" "mw_fds w' = concat (rev (map opened events)) @ mw_fds w"
    by auto
  moreover have "event_done w' (opened e) (out, w'')"
    using run_event_returns [OF \<open>master_ok w'\<close> \<open>event_ok e\<close>] step.hyps(3) by simp
  ultimately show ?case
    by (auto simp: event_done_def)
qed simp

lemma started_ok:
  assumes "init_master_peer clock ipv4 port its (int (length its)) (locked, mstp) = Done (OK, locked', mstp')"
    "master_peer_loop sock bound (locked', mstp') = Inr w"
    "length (bk_b (mp_master_peer_bkt mstp)) = MAX_BUCKET_SIZE" "length (bk_b (mp_peer_bkt mstp)) = MAX_BUCKET_SIZE"
    "its \<noteq> []" "length its \<le> MAX_BUCKET_SIZE" "\<forall>it \<in> set its. item_ok it" "id_ok (mp_node_id mstp)"
    "is_str ipv4" "length (mp_ipv4 mstp) = 16" "length (c_str ipv4) \<le> 16"
  shows "master_ok w"
  using init_master_peer_Done [OF assms(3-11), of clock port locked] assms(1,2,5,8)
  by (auto simp: master_peer_loop_def master_ok_def vlans_ok_def split: if_splits)

text \<open>C30: no run of a master peer has undefined behaviour: after the start with a list of master peers,
  whatever datagrams arrive and whatever the system calls and \<open>malloc\<close> return, the next handler is
  defined and keeps the buckets well formed, as long as no discovery answer is longer than 1024 bytes
  and every identifier that a timer's handler copies from an answer ends: it is shorter than 20
  characters, or the byte behind it on the stack, which is not initialised, is zero by chance.\<close>

theorem master_peer_run_defined:
  assumes "init_master_peer clock ipv4 port its (int (length its)) (locked, mstp) = Done (OK, locked', mstp')"
    "master_peer_loop sock bound (locked', mstp') = Inr w"
    "length (bk_b (mp_master_peer_bkt mstp)) = MAX_BUCKET_SIZE" "length (bk_b (mp_peer_bkt mstp)) = MAX_BUCKET_SIZE"
    "its \<noteq> []" "length its \<le> MAX_BUCKET_SIZE" "\<forall>it \<in> set its. item_ok it" "id_ok (mp_node_id mstp)"
    "is_str ipv4" "length (mp_ipv4 mstp) = 16" "length (c_str ipv4) \<le> 16"
    "master_steps w events sent w'" "\<forall>e \<in> set events. event_ok e" "event_ok e"
  shows "run_event e w' \<noteq> Undefined \<and> master_ok w' \<and> length sent \<le> length events"
proof -
  have "master_ok w"
    by (rule started_ok [OF assms(1-11)])
  note ok = master_steps_ok [OF assms(12) this assms(13)]
  then show ?thesis
    using run_event_returns [OF _ assms(14), of w'] by (cases "run_event e w'") auto
qed

definition example_mstp :: master_peer where
  "example_mstp = \<lparr>mp_master_peer_bkt = example_bucket, mp_peer_bkt = example_bucket, mp_ipv4 = replicate 16 0, mp_port = 0,
     mp_node_id = replicate 20 97 @ [0]\<rparr>"

definition example_master_item :: bucket_item where
  "example_master_item = (example_item 98)\<lparr>bi_ipv4 := dotted [172, 20, 10, 4] @ replicate 5 0, bi_port := 9998\<rparr>"

definition example_locals :: locals where
  "example_locals = \<lparr>lo_b = replicate BUFSIZ 0, lo_source_id = replicate 21 0, lo_target_id = replicate 21 0,
     lo_items = replicate 256 (example_item 0), lo_item = example_item 0, lo_raddr = \<lparr>sin_addr = 0, sin_port = 0\<rparr>, lo_port = 0,
     lo_handler = \<lparr>uh_sockfd = 0, uh_in = \<lparr>sin_addr = 0, sin_port = 0\<rparr>\<rparr>, lo_mem1 = Some (\<lambda>_. 5), lo_mem2 = Some (\<lambda>_. 6), lo_clock = (\<lambda>_. 0)\<rparr>"

definition example_world :: master_world where
  "example_world = \<lparr>mw_locked = False, mw_mstp = example_mstp\<lparr>mp_master_peer_bkt := append_item 0 example_master_item
     (example_bucket\<lparr>bk_top := -1, bk_visited := 0\<rparr>), mp_peer_bkt := example_bucket\<lparr>bk_top := -1, bk_visited := 0\<rparr>\<rparr>,
     mw_fds = [3], mw_ping = True, mw_discovery = True, mw_get_peers = True\<rparr>"

lemma example_master_facts:
  "length (bk_b (mp_master_peer_bkt example_mstp)) = MAX_BUCKET_SIZE" "length (bk_b (mp_peer_bkt example_mstp)) = MAX_BUCKET_SIZE"
  "id_ok (mp_node_id example_mstp)" "length (mp_ipv4 example_mstp) = 16" "locals_ok example_locals"
  "item_ok example_master_item" "bi_node_id (lo_item example_locals) ! 20 = 0"
proof -
  have "length (dotted [172, 20, 10, 4]) = 11"
    by (simp add: dotted_def octet_text_def Let_def)
  then show "item_ok example_master_item"
    by (simp add: item_ok_def example_master_item_def example_item_def is_str_def)
  show "bi_node_id (lo_item example_locals) ! 20 = 0"
    by (simp add: example_locals_def example_item_def nth_append)
qed (simp_all add: example_mstp_def example_bucket_def id_ok_def is_str_def example_locals_def locals_ok_def item_arrays_def example_item_def)

theorem master_peer_run_defined_witness:
  "\<exists>mstp' w. init_master_peer (\<lambda>_. 0) (dotted [10, 0, 0, 1] @ [0]) 9998 [example_master_item] 1 (True, example_mstp) = Done (OK, False, mstp') \<and>
    master_peer_loop 3 0 (False, mstp') = Inr w \<and>
    run_event (Datagram example_locals (Inr ([3, 0] @ replicate 54 7, \<lparr>sin_addr = 1, sin_port = 2\<rparr>))) w \<noteq> Undefined"
proof -
  have d: "is_str (dotted [10, 0, 0, 1] @ [0])" "length (c_str (dotted [10, 0, 0, 1] @ [0])) \<le> 16"
    using length_dotted [of "[10, 0, 0, 1]"] by simp_all
  have one: "int (length [example_master_item]) = 1"
    by simp
  obtain mstp' where m: "init_master_peer (\<lambda>_. 0) (dotted [10, 0, 0, 1] @ [0]) 9998 [example_master_item] (int (length [example_master_item])) (True, example_mstp) =
      Done (OK, False, mstp')"
    using init_master_peer_Done [OF example_master_facts(1,2) _ _ _ example_master_facts(3) d(1) example_master_facts(4) d(2), of "[example_master_item]"]
      example_master_facts(6) unfolding MAX_BUCKET_SIZE_def by fastforce
  obtain w where w: "master_peer_loop 3 0 (False, mstp') = Inr w"
    by (simp add: master_peer_loop_def)
  have "event_ok (Datagram example_locals (Inr ([3, 0] @ replicate 54 7, \<lparr>sin_addr = 1, sin_port = 2\<rparr>)))"
    using example_master_facts(5) by simp
  from master_peer_run_defined [OF m w example_master_facts(1,2) _ _ _ example_master_facts(3) d(1) example_master_facts(4) d(2) start _ this]
  show ?thesis
    using m w example_master_facts(6) unfolding one by (auto simp: MAX_BUCKET_SIZE_def)
qed

text \<open>No socket of a request to a master peer is ever closed: after any run of the program the open
  descriptors are those of the start and one for each timer handler that created a socket.\<close>

theorem timers_leak_sockets:
  assumes "master_ok w" "master_steps w events sent w'" "\<forall>e \<in> set events. event_ok e"
  shows "length (mw_fds w') = length (mw_fds w) + length (concat (map opened events))"
proof -
  have "length (concat (rev (map opened events))) = length (concat (map opened events))"
  proof -
    have "length (concat (rev xs)) = length (concat xs)" for xs :: "int list list"
      by (induction xs) simp_all
    then show ?thesis .
  qed
  then show ?thesis
    using master_steps_ok [OF assms(2,1,3)] by simp
qed

definition example_udp_calls :: "int \<Rightarrow> udp_calls" where
  "example_udp_calls n = \<lparr>uc_socket = n, uc_setsockopt = 0, uc_sendto = 44, uc_recvfrom = Inl (-1)\<rparr>"

lemma example_world_ok: "master_ok example_world"
proof -
  let ?b = "example_bucket\<lparr>bk_top := -1, bk_visited := 0\<rparr>"
  have b: "bucket_ok ?b" "bucket_items ?b = []"
    using empty_bucket_ok [of example_bucket] by (simp_all add: example_bucket_def)
  then have "bucket_ok (append_item 0 example_master_item ?b)" "bucket_items (append_item 0 example_master_item ?b) \<noteq> []"
    using append_item_ok [OF b(1) example_master_facts(6), of 0] append_item_items [OF b(1), of 0 example_master_item]
    by (simp_all add: MAX_BUCKET_SIZE_def)
  then show ?thesis
    using b example_master_facts(3) by (simp add: master_ok_def example_world_def vlans_ok_def example_mstp_def)
qed

theorem timers_leak_sockets_witness:
  "\<exists>sent w'. master_steps example_world [PingTimer example_locals (example_udp_calls 7)] sent w' \<and> length (mw_fds w') = 2"
proof -
  have ok: "event_ok (PingTimer example_locals (example_udp_calls 7))"
    using example_master_facts(5) by (simp add: reply_fits_def example_udp_calls_def)
  obtain sent w' where r: "run_event (PingTimer example_locals (example_udp_calls 7)) example_world = Done (sent, w')"
  proof (rule ping_peer_step [of "example_world\<lparr>mw_ping := False\<rparr>" example_locals "example_udp_calls 7"])
    show "master_ok (example_world\<lparr>mw_ping := False\<rparr>)" "locals_ok example_locals"
      using example_world_ok example_master_facts(5) by simp_all
  qed (simp add: recv_udp_pkt_def example_udp_calls_def)
  have "master_steps example_world ([] @ [PingTimer example_locals (example_udp_calls 7)]) ([] @ sent) w'"
    by (rule step [OF start _ r]) (simp add: example_world_def)
  then have run: "master_steps example_world [PingTimer example_locals (example_udp_calls 7)] sent w'"
    by simp
  have "length (mw_fds w') = length (mw_fds example_world) + length (concat (map opened [PingTimer example_locals (example_udp_calls 7)]))"
    by (rule timers_leak_sockets [OF example_world_ok run]) (use ok in simp)
  then have "length (mw_fds w') = 2"
    by (simp add: example_world_def example_udp_calls_def new_socket_def)
  with run show ?thesis
    by blast
qed

section \<open>Identifiers without an end\<close>

lemma c_streq_full: "length a = length b \<Longrightarrow> 0 \<notin> set a \<Longrightarrow> c_streq a b = (if a = b then Undefined else Done False)"
  by (induction a b rule: list_induct2) auto

lemma c_streq_ends: "is_str a \<Longrightarrow> length a = length b \<Longrightarrow> \<exists>r. c_streq a b = Done r"
  by (induction a b rule: c_streq.induct) (auto simp: is_str_def)

lemma find_node_full:
  "\<forall>it \<in> set its. length (bi_node_id it) = length y \<Longrightarrow> 0 \<notin> set y \<Longrightarrow>
   find_node y its = (if y \<in> bi_node_id ` set its then Undefined else Done False)"
  by (induction its) (auto simp: c_streq_full)

lemma find_node_ends:
  "\<forall>it \<in> set its. length (bi_node_id it) = length y \<Longrightarrow> is_str y \<Longrightarrow> \<exists>r. find_node y its = Done r"
proof (induction its)
  case (Cons it its)
  then obtain r where "c_streq y (bi_node_id it) = Done r"
    using c_streq_ends by (metis list.set_intros(1))
  then show ?case
    using Cons by (cases r) auto
qed auto

text \<open>A bucket with items whose identifiers may not end.\<close>

definition bucket_shape :: "bucket \<Rightarrow> bool" where
  "bucket_shape bkt \<longleftrightarrow> length (bk_b bkt) = MAX_BUCKET_SIZE \<and> -1 \<le> bk_top bkt \<and> bk_top bkt < int MAX_BUCKET_SIZE \<and>
     (\<forall>it \<in> set (bucket_items bkt). length (bi_node_id it) = 21)"

lemma bucket_ok_shape: "bucket_ok bkt \<Longrightarrow> bucket_shape bkt"
  by (simp add: bucket_shape_def bucket_ok_def item_ok_def)

lemma shape_length: "bucket_shape bkt \<Longrightarrow> length (bucket_items bkt) = nat (bk_top bkt + 1)"
  by (auto simp: bucket_shape_def bucket_items_def)

lemma append_item_shape:
  assumes "bucket_shape bkt" "length (bi_node_id it) = 21" "length (bucket_items bkt) < MAX_BUCKET_SIZE"
  shows "bucket_items (append_item now it bkt) = bucket_items bkt @ [it\<lparr>bi_join_timestap := now\<rparr>]" "bucket_shape (append_item now it bkt)"
proof -
  let ?n = "nat (bk_top bkt + 1)"
  have n: "?n < length (bk_b bkt)" "nat (2 + bk_top bkt) = Suc ?n"
    using assms(1,3) shape_length [OF assms(1)] by (auto simp: bucket_shape_def)
  then have "bucket_items (append_item now it bkt) = take (Suc ?n) ((bk_b bkt)[?n := it\<lparr>bi_join_timestap := now\<rparr>])"
    by (simp add: bucket_items_def append_item_def)
  then show items: "bucket_items (append_item now it bkt) = bucket_items bkt @ [it\<lparr>bi_join_timestap := now\<rparr>]"
    using n(1) by (simp add: bucket_items_def take_Suc_conv_app_nth)
  show "bucket_shape (append_item now it bkt)"
    using assms n(1) unfolding bucket_shape_def items by (auto simp: append_item_def)
qed

lemma push_shape:
  assumes "bucket_shape bkt" "length (bucket_items bkt) < MAX_BUCKET_SIZE"
  shows "push_front_bucket now it (False, bkt) =
    bindO (find_node (bi_node_id it) (bucket_items bkt)) (\<lambda>known. Done (False, if known then bkt else append_item now it bkt))"
proof -
  have "bk_top bkt + 1 \<noteq> int MAX_BUCKET_SIZE" "0 \<le> bk_top bkt + 1" "nat (bk_top bkt + 1) < length (bk_b bkt)"
    using assms shape_length [OF assms(1)] by (auto simp: bucket_shape_def)
  then show ?thesis
    by (cases "find_node (bi_node_id it) (bucket_items bkt)") (simp_all add: push_front_bucket_def mutex_lock_def Let_def set_item_def append_item_def)
qed

text \<open>The loop is undefined when an identifier that does not end comes twice.\<close>

abbreviation endless :: "bytes list \<Rightarrow> bytes list" where
  "endless ids \<equiv> filter (\<lambda>x. 0 \<notin> set x) ids"

definition clash :: "byte \<Rightarrow> bytes list \<Rightarrow> bucket \<Rightarrow> bool" where
  "clash z ids bkt \<longleftrightarrow> z \<noteq> 0 \<and> (\<not> distinct (endless ids) \<or> (\<exists>x \<in> set (endless ids). x @ [z] \<in> bi_node_id ` set (bucket_items bkt)))"

lemma clash_Cons_new:
  assumes "z \<noteq> 0" "0 \<notin> set x" "x @ [z] \<notin> bi_node_id ` set (bucket_items bkt)" "bucket_items bkt' = bucket_items bkt @ [it]" "bi_node_id it = x @ [z]"
  shows "clash z (x # ids) bkt = clash z ids bkt'"
  using assms by (auto simp: clash_def)

lemma clash_Cons_old:
  assumes "z = 0 \<or> 0 \<in> set x" "bkt' = bkt \<or> bucket_items bkt' = bucket_items bkt @ [it]" "bi_node_id it = x @ [z]"
  shows "clash z (x # ids) bkt = clash z ids bkt'"
proof (cases "z = 0")
  case False
  have "y @ [z] \<in> bi_node_id ` set (bucket_items bkt) \<longleftrightarrow> y @ [z] \<in> bi_node_id ` set (bucket_items bkt')"
    if "0 \<notin> set y" for y
    using that False assms by auto
  then have "(\<exists>y \<in> set (endless ids). y @ [z] \<in> bi_node_id ` set (bucket_items bkt)) =
      (\<exists>y \<in> set (endless ids). y @ [z] \<in> bi_node_id ` set (bucket_items bkt'))"
    by (intro bex_cong) simp_all
  moreover have "endless (x # ids) = endless ids"
    using assms(1) False by auto
  ultimately show ?thesis
    unfolding clash_def by simp
qed (simp add: clash_def)

lemma discovery_loop_clash:
  assumes "item_arrays item" "bucket_shape bkt" "offset + 28 * count \<le> length buf" "length (bucket_items bkt) + count \<le> MAX_BUCKET_SIZE"
  shows "if clash (bi_node_id item ! 20) (map (\<lambda>i. op_node_id (options_of (segment buf (offset + 28 * i) 28))) [0..<count]) bkt
    then discovery_loop count buf offset item clock (False, bkt) = Undefined
    else \<exists>bkt'. discovery_loop count buf offset item clock (False, bkt) = Done (False, bkt')"
  using assms
proof (induction count arbitrary: offset item bkt)
  case 0
  then show ?case
    by (simp add: clash_def)
next
  case (Suc count)
  let ?opt = "options_of (segment buf offset 28)" and ?z = "bi_node_id item ! 20"
  let ?x = "op_node_id ?opt" and ?ids = "map (\<lambda>i. op_node_id (options_of (segment buf (offset + 28 + 28 * i) 28))) [0..<count]"
  let ?item = "item\<lparr>bi_port := op_port ?opt, bi_node_id := ?x @ drop 20 (bi_node_id item),
    bi_ipv4 := stored_ntoa (bi_ipv4 item) (op_ipv4 ?opt)\<rparr>"
  have l: "length ?x = 20"
    using Suc.prems(3) by simp
  have d: "drop 20 (bi_node_id item) = [?z]"
    using Suc.prems(1) Cons_nth_drop_Suc [of 20 "bi_node_id item"] by (simp add: item_arrays_def)
  have a: "item_arrays ?item" "bi_node_id ?item ! 20 = ?z" "bi_node_id ?item = ?x @ [?z]"
    using Suc.prems(1) l d by (simp_all add: item_arrays_def nth_append)
  have ids: "map (\<lambda>i. op_node_id (options_of (segment buf (offset + 28 * i) 28))) [0..<Suc count] = ?x # ?ids"
    by (simp add: map_upt_Suc algebra_simps del: upt_Suc)
  have step: "discovery_loop (Suc count) buf offset item clock (False, bkt) =
      bindO (push_front_bucket (clock count) ?item (False, bkt)) (discovery_loop count buf (offset + 28) ?item clock)"
    using Suc.prems(1,3) l by (simp add: item_arrays_def store_ntoa_Done Let_def splice_at_def)
  have room: "length (bucket_items bkt) < MAX_BUCKET_SIZE"
    using Suc.prems(4) by simp
  have same: "\<forall>it \<in> set (bucket_items bkt). length (bi_node_id it) = length (?x @ [?z])"
    using Suc.prems(2) l by (simp add: bucket_shape_def)
  note push = push_shape [OF Suc.prems(2) room, of "clock count" ?item, unfolded a(3)]
  have new: "bucket_items (append_item (clock count) ?item bkt) = bucket_items bkt @ [?item\<lparr>bi_join_timestap := clock count\<rparr>]"
      "bucket_shape (append_item (clock count) ?item bkt)"
    using append_item_shape [OF Suc.prems(2) _ room] a(1) by (simp_all add: item_arrays_def)
  have rest: "offset + 28 + 28 * count \<le> length buf"
    using Suc.prems(3) by simp
  show ?case
  proof (cases "?z \<noteq> 0 \<and> 0 \<notin> set ?x")
    case True
    then have f: "find_node (?x @ [?z]) (bucket_items bkt) = (if ?x @ [?z] \<in> bi_node_id ` set (bucket_items bkt) then Undefined else Done False)"
      using find_node_full [OF same] by simp
    show ?thesis
    proof (cases "?x @ [?z] \<in> bi_node_id ` set (bucket_items bkt)")
      case seen: True
      then show ?thesis
        using True unfolding ids step push f by (auto simp: clash_def)
    next
      case unseen: False
      have "clash ?z (?x # ?ids) bkt \<longleftrightarrow> clash ?z ?ids (append_item (clock count) ?item bkt)"
        using True unseen a(3) by (intro clash_Cons_new [OF _ _ _ new(1)]) simp_all
      then show ?thesis
        using Suc.IH [OF a(1) new(2) rest] Suc.prems(4) unseen unfolding ids step push f a(2) by (simp add: new(1))
    qed
  next
    case False
    then obtain r where f: "find_node (?x @ [?z]) (bucket_items bkt) = Done r"
      using find_node_ends [OF same] by (auto simp: is_str_def)
    let ?bkt = "if r then bkt else append_item (clock count) ?item bkt"
    have b: "bucket_shape ?bkt" "length (bucket_items ?bkt) + count \<le> MAX_BUCKET_SIZE"
      using Suc.prems(2,4) new by simp_all
    have "clash ?z (?x # ?ids) bkt \<longleftrightarrow> clash ?z ?ids ?bkt"
      using False new(1) a(3) by (intro clash_Cons_old [where it = "?item\<lparr>bi_join_timestap := clock count\<rparr>"]) auto
    then show ?thesis
      using Suc.IH [OF a(1) b(1) rest b(2)] unfolding ids step push f a(2) by simp
  qed
qed


text \<open>C32: the answer to a discovery request is written to a buffer of 1024 bytes without a check, and its
  identifiers are copied to an item whose last byte is never set.  With room in the bucket for what the answer
  lists, the handler has undefined behaviour exactly when the datagram that it receives is longer than the buffer, or
  when the uninitialised byte behind the item's identifier is not zero and the answer lists an identifier of
  20 characters twice: their comparison then leaves the arrays.\<close>

theorem discovery_answer_overflows:
  assumes "master_ok w" "locals_ok lo" "uc_recvfrom calls = Inr (d, from')"
    "length (bucket_items (mp_master_peer_bkt (mw_mstp w))) + length (discovery_ids d) \<le> MAX_BUCKET_SIZE"
  shows "run_event (DiscoveryTimer lo calls) w = Undefined \<longleftrightarrow>
    1024 < length d \<or> bi_node_id (lo_item lo) ! 20 \<noteq> 0 \<and> \<not> distinct (endless (discovery_ids d))"
proof -
  define v where "v = w\<lparr>mw_discovery := False\<rparr>"
  have v: "master_ok v" "mp_master_peer_bkt (mw_mstp v) = mp_master_peer_bkt (mw_mstp w)"
    using assms(1) by (simp_all add: v_def)
  let ?bkt = "mp_master_peer_bkt (mw_mstp v)"
  note ok = master_ok_facts(1) [OF v(1)] and lo = locals_ok_facts [OF assms(2)]
  obtain uh b sent fds where b: "length b = 1024" and "length sent \<le> 1" "fds = new_socket calls @ mw_fds v"
    and step: "discovery_proc lo calls v = bindO (recv_udp_pkt calls uh b) (\<lambda>(len, uh, buf).
     bindO (if 0 < len then bindO (PMP_discovery_rsp_unpack (lo_item lo) (lo_clock lo) buf len (False, ?bkt))
              (\<lambda>(ret, lb). Done (set_master_bkt lb (v\<lparr>mw_fds := fds\<rparr>)))
            else Done (v\<lparr>mw_fds := fds\<rparr>)) (\<lambda>w. Done (sent, w\<lparr>mw_discovery := True\<rparr>)))"
    by (rule discovery_proc_step [OF v(1) assms(2)])
  show ?thesis
  proof (cases "length d \<le> 1024")
    case False
    then have "recv_udp_pkt calls uh b = Undefined"
      using b by (simp add: recv_udp_pkt_def assms(3) receive_into_def c_memcpy_def Let_def BUFSIZ_def)
    then show ?thesis
      using False step by (simp add: v_def)
  next
    case True
    let ?buf = "d @ drop (length d) b" and ?z = "bi_node_id (lo_item lo) ! 20" and ?c = "unat (dp_count (discovery_rsp_of (take 24 d)))"
    have "receive_into b BUFSIZ d = Done (int (length d), ?buf)"
      using True b by (simp add: receive_into_def Let_def splice_at_def BUFSIZ_def)
    then have run: "run_event (DiscoveryTimer lo calls) w = bindO (if 0 < length d then bindO (PMP_discovery_rsp_unpack (lo_item lo) (lo_clock lo) ?buf (int (length d)) (False, ?bkt))
              (\<lambda>(ret, lb). Done (set_master_bkt lb (v\<lparr>mw_fds := fds\<rparr>)))
            else Done (v\<lparr>mw_fds := fds\<rparr>)) (\<lambda>w. Done (sent, w\<lparr>mw_discovery := True\<rparr>))"
      using step by (simp add: v_def [symmetric] recv_udp_pkt_def assms(3))
    have n: "as_size (int (length d)) = length d"
      using True by (simp add: as_size_nat)
    show ?thesis
    proof (cases "length d < 44 \<or> length d < ?c * 28 + 24")
      case short: True
      then have "discovery_ids d = []"
        by (simp add: discovery_ids_def)
      moreover have "length d < 44 \<or> take 24 ?buf = take 24 d"
        by auto
      then have "0 < length d \<longrightarrow> PMP_discovery_rsp_unpack (lo_item lo) (lo_clock lo) ?buf (int (length d)) (False, ?bkt) = Done (C_ERROR, False, ?bkt)"
        using short b True by (auto simp: PMP_discovery_rsp_unpack_def n c_read_def Let_def segment_def)
      ultimately show ?thesis
        using run True by auto
    next
      case long: False
      have seg: "segment ?buf (24 + 28 * i) 28 = segment d (24 + 28 * i) 28" if "i < ?c" for i
        using that long by (simp add: segment_def)
      then have ids: "discovery_ids d = map (\<lambda>i. op_node_id (options_of (segment ?buf (24 + 28 * i) 28))) [0..<?c]"
        using long by (simp add: discovery_ids_def Let_def)
      have u: "PMP_discovery_rsp_unpack (lo_item lo) (lo_clock lo) ?buf (int (length d)) (False, ?bkt) =
          bindO (discovery_loop ?c ?buf 24 (lo_item lo) (lo_clock lo) (False, ?bkt)) (\<lambda>w. Done (OK, w))"
        using long b True by (simp add: PMP_discovery_rsp_unpack_def n c_read_def Let_def segment_def)
      have known: "x @ [?z] \<notin> bi_node_id ` set (bucket_items ?bkt)" if "?z \<noteq> 0" "0 \<notin> set x" for x
      proof
        assume "x @ [?z] \<in> bi_node_id ` set (bucket_items ?bkt)"
        then obtain it where "it \<in> set (bucket_items ?bkt)" "bi_node_id it = x @ [?z]"
          by (metis imageE)
        then have "0 \<in> set (x @ [?z])"
          using ok by (metis bucket_ok_def item_ok_def is_str_def)
        then show False
          using that by simp
      qed
      have "clash ?z (discovery_ids d) ?bkt \<longleftrightarrow> ?z \<noteq> 0 \<and> \<not> distinct (endless (discovery_ids d))"
        using known by (auto simp: clash_def)
      moreover have "if clash ?z (discovery_ids d) ?bkt then discovery_loop ?c ?buf 24 (lo_item lo) (lo_clock lo) (False, ?bkt) = Undefined
          else \<exists>bkt'. discovery_loop ?c ?buf 24 (lo_item lo) (lo_clock lo) (False, ?bkt) = Done (False, bkt')"
        unfolding ids by (rule discovery_loop_clash [OF lo(5) bucket_ok_shape [OF ok]]) (use long b True assms(4) v(2) ids in auto)
      ultimately show ?thesis
        using run u True long by (auto split: if_splits)
    qed
  qed
qed

theorem discovery_answer_overflows_witness:
  "run_event (DiscoveryTimer example_locals ((example_udp_calls 7)\<lparr>uc_recvfrom := Inr (replicate 1025 0, \<lparr>sin_addr = 0, sin_port = 0\<rparr>)\<rparr>)) example_world = Undefined"
proof -
  have "dp_count (discovery_rsp_of (take 24 (replicate 1025 0))) = 0"
    by code_simp
  then have "discovery_ids (replicate 1025 0) = []"
    by (simp add: discovery_ids_def)
  then show ?thesis
    using discovery_answer_overflows [OF example_world_ok example_master_facts(5),
        of "(example_udp_calls 7)\<lparr>uc_recvfrom := Inr (replicate 1025 0, \<lparr>sin_addr = 0, sin_port = 0\<rparr>)\<rparr>" "replicate 1025 0"]
      length_bucket_items [OF master_ok_facts(1) [OF example_world_ok]]
    by (simp add: example_world_def append_item_def MAX_BUCKET_SIZE_def)
qed

section \<open>Peers find each other\<close>

lemma receive_short:
  assumes "length (lo_b lo) = BUFSIZ" "length d \<le> BUFSIZ"
  shows "receive_into (lo_b lo) BUFSIZ d = Done (int (length d), d @ drop (length d) (lo_b lo))"
  using assms by (simp add: receive_into_Done)

text \<open>A registration: a name that is known changes nothing, and a new one that finds no room blocks the master peer.\<close>

lemma registration_event:
  assumes "master_ok w" "locals_ok lo" "lo_mem1 lo = Some j1"
    "length (rr_mstp_id r) = 20" "length (rr_peer_id r) = 20" "rr_header r = \<lparr>ph_type = R_P, ph_code = REQ\<rparr>"
  defines "bkt \<equiv> mp_peer_bkt (mw_mstp w)"
  defines "old \<equiv> c_str (rr_peer_id r) \<in> set (names bkt)"
  shows "if \<not> old \<and> length (bucket_items bkt) = MAX_BUCKET_SIZE
    then run_event (Datagram lo (Inr (peer_registry_req_bytes r, from'))) w = Blocked
    else \<exists>ack. run_event (Datagram lo (Inr (peer_registry_req_bytes r, from'))) w = Done ([(from', ack)],
      set_peer_bkt (False, if old then bkt else append_item (lo_clock lo 0) (registered (lo_item lo) r) bkt) w)"
proof -
  note w = master_ok_facts [OF assms(1)] and lo = locals_ok_facts [OF assms(2)]
  let ?d = "peer_registry_req_bytes r" and ?it = "registered (lo_item lo) r"
  have l: "length ?d = 56"
    by (rule peer_registry_req_mem(2) [OF assms(4,5)])
  define b where "b = ?d @ drop 56 (lo_b lo)"
  have b: "length b = BUFSIZ" "take 56 b = ?d" "header_of b = rr_header r"
    using l lo(1) by (simp_all add: b_def BUFSIZ_def peer_registry_req_bytes_def header_of_bytes)
  have it: "item_ok ?it" "node_name ?it = c_str (rr_peer_id r)"
    using registered_ok [OF lo(5) assms(5)] by simp_all
  have "known ?it bkt \<longleftrightarrow> old"
    using it(2) by (auto simp: known_def names_def old_def)
  then have push: "push_front_bucket (lo_clock lo 0) ?it (False, bkt) = (if \<not> old \<and> length (bucket_items bkt) = MAX_BUCKET_SIZE then Blocked
      else Done (False, if old then bkt else append_item (lo_clock lo 0) ?it bkt))"
    using push_front_cases [OF w(3) it(1)] by (simp add: bkt_def)
  note u = registry_unpack_Done [OF lo(5,2), of b 56 "lo_clock lo 0" "(False, bkt)"]
  have run: "run_event (Datagram lo (Inr (?d, from'))) w = bindO (handle_registry lo b 56 w) (\<lambda>(wlen, b, w).
      Done (if 0 < wlen then [(from', take (nat wlen) (the b))] else [], w))"
    using assms(6) lo(1) l b(3)
    by (simp add: master_udp_recv_cb_def receive_into_Done BUFSIZ_def b_def [symmetric] as_size_def handle_request_def pmp_consts)
  obtain b' where "PMP_peer_registry_rsp_pkt (Some (mp_node_id (mw_mstp w))) (Some (rr_peer_id r @ [0])) (Some j1) (Some b) = Done (44, Some b')"
    using id_ok_facts(3) [OF w(5)] assms(5) b(1) by (simp add: PMP_peer_registry_rsp_pkt_def Let_def ping_req_mem(2) BUFSIZ_def)
  then show ?thesis
    using u push assms(3,4,5) b(1,2) unfolding run
    by (auto simp: handle_registry_def unlocked_buckets [OF assms(1)] bkt_def [symmetric] BUFSIZ_def as_size_def pmp_consts)
qed

lemma find_event:
  assumes "master_ok w" "locals_ok lo" "lo_mem1 lo = Some j1" "length (fq_mstp_id q) = 20" "length (fq_peer_id q) = 20"
    "fq_header q = \<lparr>ph_type = F_P, ph_code = REQ\<rparr>"
    "find (\<lambda>it. c_str (bi_vlan_ipv4 it) = dotted (host32 (fq_vlan_ipv4 q))) (rev (bucket_items (mp_peer_bkt (mw_mstp w)))) = Some it"
  shows "run_event (Datagram lo (Inr (find_peer_req_bytes q, from'))) w =
    Done ([(from', peer_registry_req_bytes (find_rsp j1 (mp_node_id (mw_mstp w)) (fq_peer_id q @ [0]) it))], w)"
proof -
  note w = master_ok_facts [OF assms(1)] and lo = locals_ok_facts [OF assms(2)]
  let ?d = "find_peer_req_bytes q" and ?bkt = "mp_peer_bkt (mw_mstp w)"
  let ?rsp = "find_rsp j1 (mp_node_id (mw_mstp w)) (fq_peer_id q @ [0]) it"
  have l: "length ?d = 48" "length (peer_registry_req_bytes ?rsp) = 56"
    using find_peer_req_mem(2) [OF assms(4,5)] id_ok_facts(3) [OF w(5)] assms(5) by (simp_all add: find_rsp_def peer_registry_req_mem(2))
  define b where "b = ?d @ drop 48 (lo_b lo)"
  have b: "length b = BUFSIZ" "take 48 b = ?d" "header_of b = fq_header q"
    using l lo(1) by (simp_all add: b_def BUFSIZ_def find_peer_req_bytes_def header_of_bytes)
  have u: "PMP_find_peer_req_unpack (Some (lo_source_id lo)) (Some (lo_target_id lo)) (Some (lo_item lo)) (Some b) 48 (False, ?bkt) =
      Done (OK, Some (fq_peer_id q @ [0]), Some (fq_mstp_id q @ [0]), Some it, False, ?bkt)"
    using find_req_unpack_Done [OF w(4) lo(2,3), of b 48] b(1,2) assms(4,5,7) by (simp add: BUFSIZ_def as_size_def Let_def)
  have s: "bucket_size (False, ?bkt) = Done (bk_top ?bkt + 1, False, ?bkt)"
    by (simp add: bucket_size_def mutex_lock_def)
  have "handle_request lo b 48 w = Done (56, Some (peer_registry_req_bytes ?rsp @ drop 56 b), w)"
    using assms(3,6) b(1,3) id_ok_facts(3) [OF w(5)] assms(5) find_rsp_pkt_Done [of "mp_node_id (mw_mstp w)" "fq_peer_id q @ [0]" b it j1]
    by (simp add: handle_request_def handle_find_peer_def unlocked_buckets [OF assms(1)] s u Let_def set_same_buckets [OF w(6)] pmp_consts BUFSIZ_def)
  moreover have "as_size 48 = 48"
    by (simp add: as_size_def)
  ultimately show ?thesis
    using lo(1) l by (simp add: master_udp_recv_cb_def receive_into_Done BUFSIZ_def b_def [symmetric])
qed

lemma find_event_none:
  assumes "master_ok w" "locals_ok lo" "length (fq_mstp_id q) = 20" "length (fq_peer_id q) = 20" "fq_header q = \<lparr>ph_type = F_P, ph_code = REQ\<rparr>"
    "find (\<lambda>it. c_str (bi_vlan_ipv4 it) = dotted (host32 (fq_vlan_ipv4 q))) (rev (bucket_items (mp_peer_bkt (mw_mstp w)))) = None"
  shows "run_event (Datagram lo (Inr (find_peer_req_bytes q, from'))) w = Done ([], w)"
proof -
  note w = master_ok_facts [OF assms(1)] and lo = locals_ok_facts [OF assms(2)]
  let ?d = "find_peer_req_bytes q" and ?bkt = "mp_peer_bkt (mw_mstp w)"
  have l: "length ?d = 48"
    by (rule find_peer_req_mem(2) [OF assms(3,4)])
  define b where "b = ?d @ drop 48 (lo_b lo)"
  have b: "length b = BUFSIZ" "take 48 b = ?d" "header_of b = fq_header q"
    using l lo(1) by (simp_all add: b_def BUFSIZ_def find_peer_req_bytes_def header_of_bytes)
  have u: "\<exists>s t i. PMP_find_peer_req_unpack (Some (lo_source_id lo)) (Some (lo_target_id lo)) (Some (lo_item lo)) (Some b) 48 (False, ?bkt) =
      Done (C_FAILED, s, t, i, False, ?bkt)"
    using find_req_unpack_Done [OF w(4) lo(2,3), of b 48] b(1,2) assms(3,4,6) by (simp add: BUFSIZ_def as_size_def Let_def)
  have s: "bucket_size (False, ?bkt) = Done (bk_top ?bkt + 1, False, ?bkt)"
    by (simp add: bucket_size_def mutex_lock_def)
  have "handle_request lo b 48 w = Done (0, Some b, w)"
    using assms(5) b(3) u
    by (auto simp: handle_request_def handle_find_peer_def unlocked_buckets [OF assms(1)] s Let_def set_same_buckets [OF w(6)] pmp_consts)
  moreover have "as_size 48 = 48"
    by (simp add: as_size_def)
  ultimately show ?thesis
    using lo(1) l by (simp add: master_udp_recv_cb_def receive_into_Done BUFSIZ_def b_def [symmetric])
qed

text \<open>The master peer's newest item with a virtual address, and the bucket after a registration.\<close>

definition newest_at :: "bytes \<Rightarrow> bucket_item list \<Rightarrow> bucket_item option" where
  "newest_at vlan its = find (\<lambda>it. c_str (bi_vlan_ipv4 it) = dotted (host32 (inet_addr vlan))) (rev its)"

text \<open>What a datagram says to the receiver of an answer to a search: port, addresses and type of a NAT.\<close>

definition says_peer :: "bytes \<Rightarrow> bytes \<Rightarrow> u16 \<times> u32 \<times> u32 \<times> int \<Rightarrow> bool" where
  "says_peer rsp asker peer \<longleftrightarrow> (\<forall>item peer_id rbuf now bkt. item_arrays item \<longrightarrow> length peer_id = 21 \<longrightarrow>
     (\<exists>it. PMP_peer_registry_req_unpack item now (Some peer_id) (Some (rsp @ rbuf)) (int (length rsp)) bkt =
         bindO (push_front_bucket now it bkt) (\<lambda>bkt. Done (OK, Some (take 20 asker @ [0]), bkt)) \<and>
       peer = (bi_port it, inet_addr (bi_ipv4 it), inet_addr (bi_vlan_ipv4 it), bi_nat_type it)))"

lemma find_answer:
  assumes "master_ok w" "locals_ok lo" "lo_mem1 lo = Some j" "20 \<le> length mstp" "20 \<le> length peer"
    "newest_at vlan (bucket_items (mp_peer_bkt (mw_mstp w))) = Some it"
  shows "\<exists>rsp. run_event (Datagram lo (Inr (find_peer_req_bytes (find_req k peer mstp vlan), from'))) w = Done ([(from', rsp)], w) \<and>
    says_peer rsp peer (bi_port it, inet_addr (bi_ipv4 it), inet_addr vlan, bi_nat_type it mod 2 ^ 16)"
proof -
  define q where "q = find_req k peer mstp vlan"
  have q: "length (fq_mstp_id q) = 20" "length (fq_peer_id q) = 20" "fq_header q = \<lparr>ph_type = F_P, ph_code = REQ\<rparr>" "fq_vlan_ipv4 q = inet_addr vlan"
    "fq_peer_id q = take 20 peer"
    using assms(4,5) by (simp_all add: q_def find_req_def)
  have "c_str (bi_vlan_ipv4 it) = dotted (host32 (inet_addr vlan))"
    using assms(6) by (auto simp: newest_at_def find_Some_iff)
  then have v: "inet_addr (bi_vlan_ipv4 it) = inet_addr vlan"
    by (rule inet_addr_dotted)
  define pkt where "pkt = find_rsp j (mp_node_id (mw_mstp w)) (fq_peer_id q @ [0]) it"
  have e: "run_event (Datagram lo (Inr (find_peer_req_bytes q, from'))) w = Done ([(from', peer_registry_req_bytes pkt)], w)"
    unfolding pkt_def by (rule find_event [OF assms(1-3) q(1-3)]) (use assms(6) q(4) in \<open>simp add: newest_at_def\<close>)
  have rsp: "length (rr_mstp_id pkt) = 20" "length (rr_peer_id pkt) = 20" "rr_peer_id pkt = take 20 peer"
    using id_ok_facts(3) [OF master_ok_facts(5) [OF assms(1)]] q(2,5) by (simp_all add: pkt_def find_rsp_def)
  have l: "length (peer_registry_req_bytes pkt) = 56"
    by (rule peer_registry_req_mem(2) [OF rsp(1,2)])
  have dec: "peer_registry_req_of (take 56 (peer_registry_req_bytes pkt @ rbuf)) = pkt" for rbuf
    using l rsp(1,2) by simp
  have "says_peer (peer_registry_req_bytes pkt) peer (bi_port it, inet_addr (bi_ipv4 it), inet_addr vlan, bi_nat_type it mod 2 ^ 16)"
    unfolding says_peer_def
  proof (intro allI impI exI conjI)
    fix item peer_id rbuf now bkt
    assume a: "item_arrays item" "length (peer_id :: bytes) = 21"
    show "PMP_peer_registry_req_unpack item now (Some peer_id) (Some (peer_registry_req_bytes pkt @ rbuf)) (int (length (peer_registry_req_bytes pkt))) bkt =
        bindO (push_front_bucket now (registered item pkt) bkt) (\<lambda>bkt. Done (OK, Some (take 20 peer @ [0]), bkt))"
      using registry_unpack_Done [OF a, of "peer_registry_req_bytes pkt @ rbuf" 56 now bkt] l
      unfolding dec rsp(3) by (simp add: as_size_def)
    show "(bi_port it, inet_addr (bi_ipv4 it), inet_addr vlan, bi_nat_type it mod 2 ^ 16) =
        (bi_port (registered item pkt), inet_addr (bi_ipv4 (registered item pkt)), inet_addr (bi_vlan_ipv4 (registered item pkt)), bi_nat_type (registered item pkt))"
      using v by (simp add: registered_def pkt_def find_rsp_def uint_word_of_int)
  qed
  then show ?thesis
    using e unfolding q_def by blast
qed

text \<open>C31: a peer that registers at a master peer under a new name is found by another peer that asks for its virtual
  address: the answer carries the public address, the port and the NAT type of the registration.  A name that
  the master peer knows keeps the item it has: the answer is the newest item with the virtual address, that of an
  earlier registration, and there is none if no item has this address.  A new name for which the
  bucket has no room blocks the master peer for ever.\<close>

theorem registered_peer_is_found:
  assumes "master_ok w" "locals_ok lo1" "locals_ok lo2" "lo_mem1 lo1 = Some j1" "lo_mem1 lo2 = Some j2"
    "20 \<le> length mstp1" "20 \<le> length peer1" "56 \<le> length buf1" "20 \<le> length mstp2" "20 \<le> length peer2" "48 \<le> length buf2"
    "inet_addr vlan2 = inet_addr vlan1"
  shows "let its = bucket_items (mp_peer_bkt (mw_mstp w)); known = c_str (take 20 peer1) \<in> set (names (mp_peer_bkt (mw_mstp w))) in
    \<exists>reg req. PMP_peer_registry_req_pkt (Some mstp1) (Some peer1) (Some vlan1) nt (Some k1) (Some buf1) = Done (56, Some reg) \<and>
    PMP_find_peer_req_pkt (Some peer2) (Some mstp2) (Some vlan2) (Some k2) (Some buf2) = Done (48, Some req) \<and>
    (if \<not> known \<and> length its = MAX_BUCKET_SIZE then run_event (Datagram lo1 (Inr (take 56 reg, addr1))) w = Blocked
     else \<exists>ack w1. run_event (Datagram lo1 (Inr (take 56 reg, addr1))) w = Done ([(addr1, ack)], w1) \<and>
       (if known \<and> newest_at vlan1 its = None then run_event (Datagram lo2 (Inr (take 48 req, addr2))) w1 = Done ([], w1)
        else \<exists>rsp. run_event (Datagram lo2 (Inr (take 48 req, addr2))) w1 = Done ([(addr2, rsp)], w1) \<and>
          says_peer rsp peer2 (if known then (let it = the (newest_at vlan1 its) in (bi_port it, inet_addr (bi_ipv4 it), inet_addr vlan1, bi_nat_type it mod 2 ^ 16))
            else (of_int (nt_port nt), inet_addr (nt_ipv4 nt), inet_addr vlan1, nt_nat_type nt mod 2 ^ 16))))"
proof -
  note w = master_ok_facts [OF assms(1)] and lo = locals_ok_facts [OF assms(2)]
  define r where "r = registry_req k1 mstp1 peer1 vlan1 nt"
  have r: "length (rr_mstp_id r) = 20" "length (rr_peer_id r) = 20" "rr_header r = \<lparr>ph_type = R_P, ph_code = REQ\<rparr>" "rr_peer_id r = take 20 peer1"
    using assms(6,7) by (simp_all add: r_def registry_req_def)
  define q where "q = find_req k2 peer2 mstp2 vlan2"
  have q: "length (fq_mstp_id q) = 20" "length (fq_peer_id q) = 20" "fq_header q = \<lparr>ph_type = F_P, ph_code = REQ\<rparr>" "fq_vlan_ipv4 q = inet_addr vlan1"
    using assms(9,10,12) by (simp_all add: q_def find_req_def)
  let ?bkt = "mp_peer_bkt (mw_mstp w)" and ?it = "registered (lo_item lo1) r"
  let ?old = "c_str (take 20 peer1) \<in> set (names ?bkt)" and ?reg = "Datagram lo1 (Inr (peer_registry_req_bytes r, addr1))"
  let ?find = "Datagram lo2 (Inr (find_peer_req_bytes q, addr2))"
  let ?known = "the (newest_at vlan1 (bucket_items ?bkt))"
  have pkts: "PMP_peer_registry_req_pkt (Some mstp1) (Some peer1) (Some vlan1) nt (Some k1) (Some buf1) = Done (56, Some (peer_registry_req_bytes r @ drop 56 buf1))"
    "PMP_find_peer_req_pkt (Some peer2) (Some mstp2) (Some vlan2) (Some k2) (Some buf2) = Done (48, Some (find_peer_req_bytes q @ drop 48 buf2))"
    "take 56 (peer_registry_req_bytes r @ drop 56 buf1) = peer_registry_req_bytes r" "take 48 (find_peer_req_bytes q @ drop 48 buf2) = find_peer_req_bytes q"
    using registry_req_pkt_Done [OF assms(6-8)] find_req_pkt_Done [OF assms(9-11)] peer_registry_req_mem(2) [OF r(1,2)] find_peer_req_mem(2) [OF q(1,2)]
    by (simp_all add: r_def q_def)
  note reg = registration_event [OF assms(1,2,4) r(1-3), unfolded r(4), of addr1]
  have at: "newest_at vlan2 = newest_at vlan1"
    by (simp add: newest_at_def fun_eq_iff assms(12))
  have run: "if \<not> ?old \<and> length (bucket_items ?bkt) = MAX_BUCKET_SIZE then run_event ?reg w = Blocked
     else \<exists>ack w1. run_event ?reg w = Done ([(addr1, ack)], w1) \<and>
       (if ?old \<and> newest_at vlan1 (bucket_items ?bkt) = None then run_event ?find w1 = Done ([], w1)
        else \<exists>rsp. run_event ?find w1 = Done ([(addr2, rsp)], w1) \<and>
          says_peer rsp peer2 (if ?old then (bi_port ?known, inet_addr (bi_ipv4 ?known), inet_addr vlan1, bi_nat_type ?known mod 2 ^ 16)
            else (of_int (nt_port nt), inet_addr (nt_ipv4 nt), inet_addr vlan1, nt_nat_type nt mod 2 ^ 16)))"
  proof (cases ?old)
    case True
    then obtain ack where e: "run_event ?reg w = Done ([(addr1, ack)], w)"
      using reg set_same_buckets(2) [OF w(6)] by auto
    have "run_event ?find w = Done ([], w)" if "newest_at vlan1 (bucket_items ?bkt) = None"
      using find_event_none [OF assms(1,3) q(1-3)] that q(4) by (simp add: newest_at_def)
    moreover have "\<exists>rsp. run_event ?find w = Done ([(addr2, rsp)], w) \<and>
        says_peer rsp peer2 (bi_port it, inet_addr (bi_ipv4 it), inet_addr vlan1, bi_nat_type it mod 2 ^ 16)"
      if "newest_at vlan1 (bucket_items ?bkt) = Some it" for it
      using find_answer [OF assms(1,3,5,9,10), of vlan2 it k2 addr2] that at unfolding q_def assms(12) by simp
    ultimately show ?thesis
      using True e by (cases "newest_at vlan1 (bucket_items ?bkt)") auto
  next
    case new: False
    show ?thesis
    proof (cases "length (bucket_items ?bkt) = MAX_BUCKET_SIZE")
      case True
      then show ?thesis
        using new reg by simp
    next
      case False
      then have room: "length (bucket_items ?bkt) < MAX_BUCKET_SIZE"
        using w(3) length_bucket_items [OF w(3)] by (auto simp: bucket_ok_def)
      let ?bkt1 = "append_item (lo_clock lo1 0) ?it ?bkt" and ?it1 = "?it\<lparr>bi_join_timestap := lo_clock lo1 0\<rparr>"
      let ?w1 = "set_peer_bkt (False, ?bkt1) w"
      have it: "item_ok ?it" "is_str (bi_vlan_ipv4 ?it)"
        using registered_ok [OF lo(5) r(2)] by simp_all
      have items: "bucket_items ?bkt1 = bucket_items ?bkt @ [?it1]"
        by (rule append_item_items [OF w(3) room])
      have w1: "master_ok ?w1" "mp_peer_bkt (mw_mstp ?w1) = ?bkt1"
        using master_ok_set_peer [OF assms(1) append_item_ok [OF w(3) it(1) room]] w(4) it(2)
        by (auto simp: vlans_ok_def items set_peer_bkt_def)
      have "newest_at vlan2 (bucket_items (mp_peer_bkt (mw_mstp ?w1))) = Some ?it1"
        unfolding w1(2) items newest_at_def assms(12) by (simp add: registered_def r_def registry_req_def)
      from find_answer [OF w1(1) assms(3,5,9,10) this, of k2 addr2] obtain rsp where
        "run_event ?find ?w1 = Done ([(addr2, rsp)], ?w1)"
        "says_peer rsp peer2 (of_int (nt_port nt), inet_addr (nt_ipv4 nt), inet_addr vlan1, nt_nat_type nt mod 2 ^ 16)"
        unfolding q_def assms(12) by (auto simp: registered_def r_def registry_req_def uint_word_of_int)
      then show ?thesis
        using reg new False by auto
    qed
  qed
  show ?thesis
    unfolding Let_def by (intro exI conjI, rule pkts(1), rule pkts(2)) (unfold pkts(3,4), rule run)
qed

theorem registered_peer_is_found_witness:
  "let me = replicate 20 66 @ [0]; you = replicate 20 67 @ [0]; master = replicate 20 97 @ [0];
       nt = \<lparr>nt_nat_type = 3, nt_port = 54320, nt_ipv4 = dotted [1, 2, 3, 4] @ [0]\<rparr>;
       here = \<lparr>sin_addr = 1, sin_port = 2\<rparr>; there = \<lparr>sin_addr = 3, sin_port = 4\<rparr>; vlan = dotted [172, 16, 10, 2] @ [0] in
   \<exists>reg ack w1 req rsp. PMP_peer_registry_req_pkt (Some master) (Some me) (Some vlan) nt (Some (\<lambda>_. 1)) (Some (replicate BUFSIZ 0)) = Done (56, Some reg) \<and>
    run_event (Datagram example_locals (Inr (take 56 reg, here))) example_world = Done ([(here, ack)], w1) \<and>
    PMP_find_peer_req_pkt (Some you) (Some master) (Some vlan) (Some (\<lambda>_. 2)) (Some (replicate BUFSIZ 0)) = Done (48, Some req) \<and>
    run_event (Datagram example_locals (Inr (take 48 req, there))) w1 = Done ([(there, rsp)], w1)"
proof -
  have "bucket_items (mp_peer_bkt (mw_mstp example_world)) = []"
    by (simp add: example_world_def bucket_items_def)
  moreover have "lo_mem1 example_locals = Some (\<lambda>_. 5)"
    by (simp add: example_locals_def)
  ultimately show ?thesis
    unfolding Let_def
    using registered_peer_is_found [OF example_world_ok example_master_facts(5,5), of "\<lambda>_. 5" "\<lambda>_. 5" "replicate 20 97 @ [0]" "replicate 20 66 @ [0]"
        "replicate BUFSIZ 0" "replicate 20 97 @ [0]" "replicate 20 67 @ [0]" "replicate BUFSIZ 0" "dotted [172, 16, 10, 2] @ [0]" "dotted [172, 16, 10, 2] @ [0]"
        "\<lparr>nt_nat_type = 3, nt_port = 54320, nt_ipv4 = dotted [1, 2, 3, 4] @ [0]\<rparr>" "\<lambda>_. 1" "\<lambda>_. 2" "\<lparr>sin_addr = 1, sin_port = 2\<rparr>"
        "\<lparr>sin_addr = 3, sin_port = 4\<rparr>"]
    by (simp add: BUFSIZ_def names_def MAX_BUCKET_SIZE_def) blast
qed

end
