(* ===== verification/NoseConf.thy ===== *)
theory NoseConf imports NosePeer NoseMasterPeer begin

text \<open>
  The configuration file (conf/conf-reader.h, conf-reader.c) and the program's \<open>main\<close> (nose.c) up to the start of a
  peer or master peer.  A file is its bytes; the reader, a local of \<open>main\<close> that is not initialised, is
  an argument.
\<close>

section \<open>Reading lines\<close>

definition MAX_LINE :: nat where
  "MAX_LINE = 1024"

record conf_item =
  ci_key :: bytes
  ci_value :: bytes

record conf_reader =
  cr_file_path :: bytes
  cr_items :: "conf_item list"
  cr_item_count :: int

text \<open>\<open>fgets\<close> reads up to a newline, the end of the file, or \<open>MAX_LINE - 1\<close> characters.\<close>

definition fgets_line :: "bytes \<Rightarrow> bytes" where
  "fgets_line file = take (MAX_LINE - 1) (takeWhile (\<lambda>c. c \<noteq> 10) file @ (if 10 \<in> set file then [10] else []))"

text \<open>Whether the call met the end of the file.\<close>

definition fgets_eof :: "bytes \<Rightarrow> bool" where
  "fgets_eof file \<longleftrightarrow> 10 \<notin> set file \<and> length file < MAX_LINE - 1"

text \<open>
  A line is cut at its first =; the last character of the value is dropped.  The size of the
  value is a \<open>size_t\<close>, which wraps around when less than two characters follow the key.
\<close>

definition parse_line :: "bytes \<Rightarrow> conf_item outcome" where
  "parse_line tmp =
     (let len = length (c_str tmp); split_pos = length (takeWhile (\<lambda>c. c \<noteq> 61) (c_str tmp)) in
      bindO (c_strncpy (replicate MAX_LINE 0) tmp split_pos) (\<lambda>key.
      bindO (c_strncpy (replicate MAX_LINE 0) (drop (split_pos + 1) tmp) (as_size (int len - int split_pos - 2))) (\<lambda>value.
      Done \<lparr>ci_key = key, ci_value = value\<rparr>)))"

definition add_item :: "conf_item \<Rightarrow> conf_reader \<Rightarrow> conf_reader outcome" where
  "add_item item r =
     (if 0 \<le> cr_item_count r \<and> cr_item_count r < int (length (cr_items r))
      then Done (r\<lparr>cr_items := (cr_items r)[nat (cr_item_count r) := item], cr_item_count := cr_item_count r + 1\<rparr>)
      else Undefined)"

lemma fgets_progress: "\<not> fgets_eof file \<Longrightarrow> 0 < length (fgets_line file) \<and> file \<noteq> []"
  by (cases "file") (auto simp: fgets_eof_def fgets_line_def MAX_LINE_def)

function conf_parser_loop :: "bytes \<Rightarrow> bool \<Rightarrow> conf_reader \<Rightarrow> conf_reader outcome" where
  "conf_parser_loop file eof r =
     (if eof then Done r
      else let line = fgets_line file; tmp = line @ replicate (MAX_LINE - length line) 0;
               rest = drop (length line) file; eof = fgets_eof file in
        if c_str tmp = [] then conf_parser_loop rest eof r
        else bindO (parse_line tmp) (\<lambda>item. bindO (add_item item r) (\<lambda>r. conf_parser_loop rest eof r)))"
  by pat_completeness auto

termination
proof (relation "measure (\<lambda>(file, eof, r). length file + (if eof then 0 else 1))")
  show "wf (measure (\<lambda>(file :: bytes, eof, r :: conf_reader). length file + (if eof then 0 else 1)))"
    by simp
qed (use fgets_progress in \<open>fastforce simp: Let_def\<close>)+

declare conf_parser_loop.simps [simp del]

text \<open>The path is copied without its terminator.\<close>

definition read_conf :: "(bytes \<Rightarrow> bytes option) \<Rightarrow> conf_reader option \<Rightarrow> bytes option \<Rightarrow> bytes option \<Rightarrow> (int \<times> conf_reader option) outcome" where
  "read_conf fopen reader file_path mode = (case (reader, file_path, mode) of
     (Some r, Some path, Some _) \<Rightarrow> (case fopen (c_str path) of
         None \<Rightarrow> Done (C_ERROR, reader)
       | Some file \<Rightarrow>
           bindO (c_string_length path) (\<lambda>n.
           bindO (c_strncpy (cr_file_path r) path n) (\<lambda>fp.
           bindO (conf_parser_loop file False (r\<lparr>cr_item_count := 0, cr_file_path := fp\<rparr>)) (\<lambda>r. Done (OK, Some r)))))
   | _ \<Rightarrow> Done (C_ERROR, reader))"

text \<open>The first item with the key; the value is copied without a terminator.\<close>

fun get_value_loop :: "conf_item list \<Rightarrow> bytes \<Rightarrow> bytes \<Rightarrow> (int \<times> bytes) outcome" where
  "get_value_loop [] key value = Done (C_FAILED, value)"
| "get_value_loop (i # items) key value =
     bindO (c_streq (ci_key i) key) (\<lambda>same.
       if same then bindO (c_string_length (ci_value i)) (\<lambda>n. bindO (c_strncpy value (ci_value i) n) (\<lambda>value. Done (OK, value)))
       else get_value_loop items key value)"

definition get_value :: "conf_reader option \<Rightarrow> bytes option \<Rightarrow> bytes option \<Rightarrow> (int \<times> bytes option) outcome" where
  "get_value reader key value = (case (key, reader, value) of
     (Some k, Some r, Some v) \<Rightarrow>
       if int (length (cr_items r)) < cr_item_count r then Undefined
       else bindO (get_value_loop (take (nat (cr_item_count r)) (cr_items r)) k v) (\<lambda>(ret, v). Done (ret, Some v))
   | _ \<Rightarrow> Done (C_ERROR, value))"

section \<open>main\<close>

definition c_text :: "string \<Rightarrow> bytes" where
  "c_text s = map of_char s @ [0]"

definition atoi :: "bytes \<Rightarrow> int outcome" where
  "atoi s =
     (let t = dropWhile is_space (c_str s); neg = (t \<noteq> [] \<and> hd t = 45);
          ds = takeWhile is_digit (if t \<noteq> [] \<and> (hd t = 45 \<or> hd t = 43) then tl t else t);
          v = int (foldl (\<lambda>v c. 10 * v + digit_value c) 0 ds); r = (if neg then - v else v) in
      if is_str s \<and> - (2 ^ 31) \<le> r \<and> r < 2 ^ 31 then Done r else Undefined)"

text \<open>The arguments after the name of the program; \<open>None\<close> prints the usage.\<close>

fun parse_args :: "bytes list \<Rightarrow> bool \<Rightarrow> bytes \<Rightarrow> (bool \<times> bytes) option outcome" where
  "parse_args [] peer_mode conf_path = Done (Some (peer_mode, conf_path))"
| "parse_args (a # rest) peer_mode conf_path =
     bindO (c_streq a (c_text ''peer'')) (\<lambda>is_peer.
       if is_peer then parse_args rest True conf_path
       else bindO (c_streq a (c_text ''-c'')) (\<lambda>is_c.
         if \<not> is_c then parse_args rest peer_mode conf_path
         else case rest of
             [] \<Rightarrow> Done None
           | path # rest \<Rightarrow>
               bindO (c_string_length path) (\<lambda>n.
               if n = 0 then Done None
               else bindO (c_strncpy conf_path path n) (\<lambda>conf_path. parse_args rest peer_mode conf_path))))"

definition zero_item :: bucket_item where
  "zero_item = \<lparr>bi_port = 0, bi_ipv4 = replicate 16 0, bi_node_id = replicate 21 0, bi_state = 0, bi_join_timestap = 0,
     bi_vlan_ipv4 = replicate 16 0, bi_nat_type = 0\<rparr>"

definition zero_bucket :: bucket where
  "zero_bucket = \<lparr>bk_top = 0, bk_visited = 0, bk_b = replicate MAX_BUCKET_SIZE zero_item\<rparr>"

definition zero_peer :: peer where
  "zero_peer = \<lparr>pr_nt = \<lparr>nt_nat_type = 0, nt_port = 0, nt_ipv4 = replicate 16 0\<rparr>, pr_peer_id = replicate 21 0, pr_mstp_id = replicate 21 0,
     pr_master_peer_port = 0, pr_source_port = 0, pr_stun_server_port = 0, pr_vlan_local_ipv4 = replicate 16 0, pr_vlan_remote_ipv4 = replicate 16 0,
     pr_master_peer_ipv4 = replicate 16 0, pr_source_ipv4 = replicate 16 0, pr_stun_server_ipv4 = replicate 16 0,
     pr_remote_peer_addr = \<lparr>sin_addr = 0, sin_port = 0\<rparr>, pr_peer = zero_bucket, pr_helloed = 0, pr_key = replicate 34 0, pr_syn_counts = 0\<rparr>"

definition zero_master_peer :: master_peer where
  "zero_master_peer = \<lparr>mp_master_peer_bkt = zero_bucket, mp_peer_bkt = zero_bucket, mp_ipv4 = replicate 16 0, mp_port = 0, mp_node_id = replicate 21 0\<rparr>"

text \<open>The result of \<open>get_value\<close> is ignored.\<close>

definition conf_into :: "conf_reader \<Rightarrow> string \<Rightarrow> bytes \<Rightarrow> bytes outcome" where
  "conf_into r key a = bindO (get_value (Some r) (Some (c_text key)) (Some a)) (\<lambda>(_, v). Done (the v))"

definition peer_conf :: "conf_reader \<Rightarrow> peer outcome" where
  "peer_conf r =
     (let pr = zero_peer in
      bindO (conf_into r ''source_ipv4'' (pr_source_ipv4 pr)) (\<lambda>source_ipv4.
      bindO (conf_into r ''master_peer_ipv4'' (pr_master_peer_ipv4 pr)) (\<lambda>master_peer_ipv4.
      bindO (conf_into r ''mstp_id'' (pr_mstp_id pr)) (\<lambda>mstp_id.
      bindO (conf_into r ''vlan_local_ipv4'' (pr_vlan_local_ipv4 pr)) (\<lambda>vlan_local_ipv4.
      bindO (conf_into r ''vlan_remote_ipv4'' (pr_vlan_remote_ipv4 pr)) (\<lambda>vlan_remote_ipv4.
      bindO (conf_into r ''stun_server_ipv4'' (pr_stun_server_ipv4 pr)) (\<lambda>stun_server_ipv4.
      bindO (bindO (conf_into r ''source_port'' (replicate 10 0)) atoi) (\<lambda>source_port.
      bindO (bindO (conf_into r ''master_peer_port'' (replicate 10 0)) atoi) (\<lambda>master_peer_port.
      bindO (conf_into r ''key'' (pr_key pr)) (\<lambda>key.
      Done (pr\<lparr>pr_source_ipv4 := source_ipv4, pr_master_peer_ipv4 := master_peer_ipv4, pr_mstp_id := mstp_id,
        pr_vlan_local_ipv4 := vlan_local_ipv4, pr_vlan_remote_ipv4 := vlan_remote_ipv4, pr_stun_server_ipv4 := stun_server_ipv4,
        pr_source_port := source_port, pr_master_peer_port := master_peer_port, pr_key := key\<rparr>)))))))))))"

text \<open>The port is 9998 until the file is read, and 0 then when the file has none.\<close>

definition master_conf :: "conf_reader \<Rightarrow> (bytes \<times> int \<times> bucket_item \<times> master_peer) outcome" where
  "master_conf r =
     bindO (conf_into r ''ipv4'' (replicate 16 0)) (\<lambda>ipv4.
     bindO (conf_into r ''port'' (replicate 6 0)) (\<lambda>tmp.
     bindO (atoi tmp) (\<lambda>port.
     bindO (conf_into r ''node_id'' (mp_node_id zero_master_peer)) (\<lambda>node_id.
     bindO (conf_into r ''master_peer_ipv4'' (bi_ipv4 zero_item)) (\<lambda>item_ipv4.
     bindO (bindO (conf_into r ''master_peer_port'' (replicate 6 0)) atoi) (\<lambda>item_port.
     bindO (conf_into r ''mstp_id'' (bi_node_id zero_item)) (\<lambda>item_id.
     Done (ipv4, port, zero_item\<lparr>bi_ipv4 := item_ipv4, bi_port := of_int item_port, bi_node_id := item_id\<rparr>, zero_master_peer\<lparr>mp_node_id := node_id\<rparr>))))))))"

datatype startup = Usage | NotRead | StartPeer peer | StartMasterPeer bytes int bucket_item master_peer

definition nose_main :: "(bytes \<Rightarrow> bytes option) \<Rightarrow> conf_reader \<Rightarrow> bytes list \<Rightarrow> startup outcome" where
  "nose_main fopen cread argv =
     (if length argv \<le> 1 then Done Usage
      else bindO (parse_args (tl argv) False (replicate 256 0)) (\<lambda>parsed. case parsed of
          None \<Rightarrow> Done Usage
        | Some (peer_mode, conf_path) \<Rightarrow>
            if c_str conf_path = [] then Done Usage
            else bindO (read_conf fopen (Some cread) (Some conf_path) (Some (c_text ''r''))) (\<lambda>(ret, r).
              if ret \<noteq> OK then Done NotRead
              else if peer_mode then bindO (peer_conf (the r)) (\<lambda>pr. Done (StartPeer pr))
              else bindO (master_conf (the r)) (\<lambda>(ipv4, port, item, mstp). Done (StartMasterPeer ipv4 port item mstp)))))"

section \<open>Files that are read back\<close>

definition render_conf :: "(bytes \<times> bytes) list \<Rightarrow> bytes" where
  "render_conf kvs = concat (map (\<lambda>(k, v). k @ 61 # v @ [10]) kvs)"

definition line_ok :: "bytes \<times> bytes \<Rightarrow> bool" where
  "line_ok = (\<lambda>(k, v). 0 \<notin> set k \<and> 10 \<notin> set k \<and> 61 \<notin> set k \<and> 0 \<notin> set v \<and> 10 \<notin> set v \<and> length k + length v \<le> MAX_LINE - 3)"

definition pad :: "bytes \<Rightarrow> bytes" where
  "pad s = s @ replicate (MAX_LINE - length s) 0"

definition conf_item_of :: "bytes \<times> bytes \<Rightarrow> conf_item" where
  "conf_item_of = (\<lambda>(k, v). \<lparr>ci_key = pad k, ci_value = pad v\<rparr>)"

lemma pad_facts:
  assumes "0 \<notin> set s" "length s < MAX_LINE"
  shows "is_str (pad s)" "c_str (pad s) = s"
proof -
  have "replicate (MAX_LINE - length s) (0 :: byte) = 0 # replicate (MAX_LINE - length s - 1) 0"
    using assms(2) by (cases "MAX_LINE - length s") simp_all
  then show "is_str (pad s)" "c_str (pad s) = s"
    using assms(1) by (simp_all add: pad_def)
qed

lemma fgets_full_line:
  assumes "10 \<notin> set t" "length t < MAX_LINE - 1"
  shows "fgets_line (t @ 10 # rest) = t @ [10]" "\<not> fgets_eof (t @ 10 # rest)"
proof -
  have "takeWhile (\<lambda>c. c \<noteq> 10) (t @ 10 # rest) = t"
    using assms(1) by (subst takeWhile_append2) auto
  then show "fgets_line (t @ 10 # rest) = t @ [10]" "\<not> fgets_eof (t @ 10 # rest)"
    using assms(2) by (simp_all add: fgets_line_def fgets_eof_def)
qed

lemma parse_line_item:
  assumes "line_ok (k, v)"
  shows "parse_line (pad (k @ 61 # v @ [10])) = Done (conf_item_of (k, v))"
proof -
  let ?t = "k @ 61 # v @ [10]"
  have l: "0 \<notin> set ?t" "length ?t < MAX_LINE"
    using assms by (auto simp: line_ok_def MAX_LINE_def)
  have split: "takeWhile (\<lambda>c. c \<noteq> 61) ?t = k"
    using assms by (subst takeWhile_append2) (auto simp: line_ok_def)
  have n: "as_size (int (length ?t) - int (length k) - 2) = length v"
    using l(2) by (simp add: as_size_nat MAX_LINE_def)
  have k: "c_strncpy (replicate MAX_LINE 0) (pad ?t) (length k) = Done (pad k)"
    using l pad_facts [OF l] by (simp add: c_strncpy_def Let_def splice_at_def pad_def)
  have d: "drop (length k + 1) (pad ?t) = v @ 10 # replicate (MAX_LINE - length ?t) 0"
    by (simp add: pad_def)
  have "0 \<notin> set (v @ [10])"
    using l(1) by simp
  then have "c_str (v @ 10 # replicate (MAX_LINE - length ?t) 0) = v @ [10]" "is_str (v @ 10 # replicate (MAX_LINE - length ?t) 0)"
    using c_str_append_zero [of "v @ [10]" "replicate (MAX_LINE - length ?t - 1) 0"] is_str_append_zero [of "v @ [10]" "replicate (MAX_LINE - length ?t - 1) 0"] l(2)
    by (cases "MAX_LINE - length ?t"; simp)+
  then have v: "c_strncpy (replicate MAX_LINE 0) (drop (length k + 1) (pad ?t)) (length v) = Done (pad v)"
    unfolding d using l(2) by (simp add: c_strncpy_def Let_def splice_at_def pad_def)
  show ?thesis
    unfolding parse_line_def pad_facts(2) [OF l] split Let_def n using k v by (simp add: conf_item_of_def)
qed

text \<open>The reader after the lines \<open>kvs\<close>.\<close>

definition loaded :: "(bytes \<times> bytes) list \<Rightarrow> conf_reader \<Rightarrow> bool" where
  "loaded kvs r \<longleftrightarrow> cr_item_count r = int (length kvs) \<and> length (cr_items r) = MAX_LINE \<and> take (length kvs) (cr_items r) = map conf_item_of kvs"

lemma add_item_loaded:
  assumes "loaded kvs r" "length kvs < MAX_LINE"
  obtains r' where "add_item (conf_item_of kv) r = Done r'" "loaded (kvs @ [kv]) r'"
proof -
  let ?r = "r\<lparr>cr_items := (cr_items r)[length kvs := conf_item_of kv], cr_item_count := int (length kvs) + 1\<rparr>"
  have "add_item (conf_item_of kv) r = Done ?r"
    using assms by (simp add: add_item_def loaded_def)
  moreover have "loaded (kvs @ [kv]) ?r"
    using assms by (simp add: loaded_def take_Suc_conv_app_nth)
  ultimately show thesis
    by (rule that)
qed

lemma conf_loop_lines:
  assumes "loaded kvs0 r" "\<forall>kv \<in> set kvs. line_ok kv" "length kvs0 + length kvs \<le> MAX_LINE"
  shows "\<exists>r'. conf_parser_loop (render_conf kvs @ rest) False r = conf_parser_loop rest False r' \<and> loaded (kvs0 @ kvs) r'"
  using assms
proof (induction kvs arbitrary: kvs0 r)
  case Nil
  then show ?case
    by (auto simp: render_conf_def)
next
  case (Cons kv kvs)
  obtain k v where kv: "kv = (k, v)"
    by (cases kv)
  have ok: "line_ok (k, v)"
    using Cons.prems(2) by (simp add: kv)
  let ?t = "k @ 61 # v"
  have t: "10 \<notin> set ?t" "length ?t < MAX_LINE - 1" "0 \<notin> set (?t @ [10])" "length (?t @ [10]) < MAX_LINE"
    using ok by (auto simp: line_ok_def MAX_LINE_def)
  have lines: "render_conf (kv # kvs) @ rest = ?t @ 10 # (render_conf kvs @ rest)"
    by (simp add: render_conf_def kv)
  obtain r1 where r1: "add_item (conf_item_of (k, v)) r = Done r1" "loaded (kvs0 @ [(k, v)]) r1"
    by (rule add_item_loaded [OF Cons.prems(1)]) (use Cons.prems(3) in auto)
  have p: "parse_line ((?t @ [10]) @ replicate (MAX_LINE - length (?t @ [10])) 0) = Done (conf_item_of (k, v))"
    using parse_line_item [OF ok] by (simp add: pad_def)
  have c: "c_str ((?t @ [10]) @ replicate (MAX_LINE - length (?t @ [10])) 0) = ?t @ [10]"
    using pad_facts(2) [OF t(3,4)] by (simp only: pad_def)
  have "conf_parser_loop (?t @ 10 # (render_conf kvs @ rest)) False r = conf_parser_loop (render_conf kvs @ rest) False r1"
    unfolding conf_parser_loop.simps [of "?t @ 10 # (render_conf kvs @ rest)"] fgets_full_line(1) [OF t(1,2)] Let_def c p
    using fgets_full_line(2) [OF t(1,2)] r1(1) by simp
  moreover obtain r' where "conf_parser_loop (render_conf kvs @ rest) False r1 = conf_parser_loop rest False r'" "loaded ((kvs0 @ [(k, v)]) @ kvs) r'"
    using Cons.IH [OF r1(2)] Cons.prems(2,3) by auto
  ultimately show ?case
    unfolding lines by (auto simp: kv)
qed

lemma conf_loop_end: "conf_parser_loop [] False r = Done r"
  by (subst conf_parser_loop.simps) (simp add: fgets_line_def fgets_eof_def Let_def c_str_def MAX_LINE_def conf_parser_loop.simps)

lemma read_conf_lines:
  assumes "\<forall>kv \<in> set kvs. line_ok kv" "length kvs \<le> MAX_LINE" "length (cr_items r) = MAX_LINE" "length (cr_file_path r) = 256"
    "is_str path" "length (c_str path) \<le> 256" "fopen (c_str path) = Some (render_conf kvs @ rest)"
  obtains r' where "loaded kvs r'"
    "read_conf fopen (Some r) (Some path) (Some mode) = bindO (conf_parser_loop rest False r') (\<lambda>r. Done (OK, Some r))"
proof -
  obtain fp where fp: "c_strncpy (cr_file_path r) path (length (c_str path)) = Done fp"
    using assms(4-6) by (simp add: c_strncpy_def Let_def)
  have "loaded [] (r\<lparr>cr_item_count := 0, cr_file_path := fp\<rparr>)"
    using assms(3) by (simp add: loaded_def)
  from conf_loop_lines [OF this assms(1), of rest] assms(2) obtain r' where
    "conf_parser_loop (render_conf kvs @ rest) False (r\<lparr>cr_item_count := 0, cr_file_path := fp\<rparr>) = conf_parser_loop rest False r'" "loaded kvs r'"
    by auto
  then show thesis
    using that [of r'] fp assms(5,7) by (simp add: read_conf_def)
qed

lemma get_value_loop_Done:
  assumes "\<forall>kv \<in> set kvs. line_ok kv" "is_str key"
  shows "get_value_loop (map conf_item_of kvs) key value = (case map_of kvs (c_str key) of
     None \<Rightarrow> Done (C_FAILED, value)
   | Some v \<Rightarrow> if length v \<le> length value then Done (OK, splice_at value 0 v) else Undefined)"
  using assms(1)
proof (induction kvs)
  case (Cons kv kvs)
  obtain k v where kv: "kv = (k, v)"
    by (cases kv)
  have l: "0 \<notin> set k" "length k < MAX_LINE" "0 \<notin> set v" "length v < MAX_LINE"
    using Cons.prems by (auto simp: kv line_ok_def MAX_LINE_def)
  have "c_streq (pad k) key = Done (k = c_str key)"
    using c_streq_str [OF pad_facts(1) [OF l(1,2)] assms(2)] pad_facts(2) [OF l(1,2)] by simp
  then show ?case
    using Cons pad_facts [OF l(3,4)] by (auto simp: kv conf_item_of_def c_strncpy_def Let_def)
qed simp

lemma get_value_loaded:
  assumes "loaded kvs r" "\<forall>kv \<in> set kvs. line_ok kv" "is_str key"
  shows "get_value (Some r) (Some key) (Some value) = (case map_of kvs (c_str key) of
     None \<Rightarrow> Done (C_FAILED, Some value)
   | Some v \<Rightarrow> if length v \<le> length value then Done (OK, Some (splice_at value 0 v)) else Undefined)"
proof -
  have "length kvs \<le> MAX_LINE"
    using assms(1) length_take [of "length kvs" "cr_items r"] by (simp add: loaded_def)
  then show ?thesis
    using assms(1) get_value_loop_Done [OF assms(2,3)] by (simp add: get_value_def loaded_def split: option.splits)
qed

section \<open>Properties\<close>

text \<open>C38: a file of \<open>key=value\<close> lines is read back: the reader finds the first value of a key and tells apart the
  keys that the file does not have, up to 1024 lines of up to 1023 characters.\<close>

theorem conf_roundtrip:
  assumes "\<forall>kv \<in> set kvs. line_ok kv" "length kvs \<le> MAX_LINE" "length (cr_items r) = MAX_LINE" "length (cr_file_path r) = 256"
    "is_str path" "length (c_str path) \<le> 256" "fopen (c_str path) = Some (render_conf kvs)" "is_str key" "\<forall>v. map_of kvs (c_str key) = Some v \<longrightarrow> length v \<le> length value"
  shows "\<exists>r'. read_conf fopen (Some r) (Some path) (Some mode) = Done (OK, Some r') \<and>
    get_value (Some r') (Some key) (Some value) = Done (case map_of kvs (c_str key) of None \<Rightarrow> (C_FAILED, Some value) | Some v \<Rightarrow> (OK, Some (splice_at value 0 v)))"
proof -
  obtain r' where "loaded kvs r'" "read_conf fopen (Some r) (Some path) (Some mode) = Done (OK, Some r')"
    using read_conf_lines [OF assms(1-6), of fopen "[]" mode] assms(7) by (auto simp: conf_loop_end)
  then show ?thesis
    using get_value_loaded [OF _ assms(1,8)] assms(9) by (auto split: option.splits)
qed

definition example_reader :: conf_reader where
  "example_reader = \<lparr>cr_file_path = replicate 256 0, cr_items = replicate MAX_LINE \<lparr>ci_key = [], ci_value = []\<rparr>, cr_item_count = 7\<rparr>"

definition chars :: "string \<Rightarrow> bytes" where
  "chars s = map of_char s"

lemma c_text_facts: "c_text s = chars s @ [0]"
  by (simp add: c_text_def chars_def)

theorem conf_roundtrip_witness:
  "\<exists>r'. read_conf (\<lambda>_. Some (chars ''port=9998'' @ [10] @ chars ''node_id=aa'' @ [10])) (Some example_reader) (Some (c_text ''a.conf'')) (Some (c_text ''r'')) = Done (OK, Some r') \<and>
    get_value (Some r') (Some (c_text ''port'')) (Some (replicate 6 0)) = Done (OK, Some (chars ''9998'' @ replicate 2 0))"
proof -
  let ?kvs = "[(chars ''port'', chars ''9998''), (chars ''node_id'', chars ''aa'')]"
  have p: "is_str (c_text ''a.conf'')" "length (c_str (c_text ''a.conf'')) \<le> 256" "is_str (c_text ''port'')" "c_str (c_text ''port'') = chars ''port''"
    by (simp_all add: c_text_def chars_def is_str_def c_str_def)
  have l: "\<forall>kv \<in> set ?kvs. line_ok kv"
    by (simp add: line_ok_def chars_def MAX_LINE_def)
  have f: "chars ''port=9998'' @ [10] @ chars ''node_id=aa'' @ [10] = render_conf ?kvs"
    by (simp add: render_conf_def chars_def)
  have m: "map_of ?kvs (c_str (c_text ''port'')) = Some (chars ''9998'')"
    by (simp add: p(4))
  show ?thesis
    using conf_roundtrip [OF l _ _ _ p(1,2) _ p(3), of example_reader "\<lambda>_. Some (render_conf ?kvs)" "replicate 6 0" "c_text ''r''"]
    unfolding f m by (simp add: example_reader_def MAX_LINE_def chars_def splice_at_def)
qed

text \<open>A line without =, an empty line for one, makes the reader copy with a length that has wrapped around.\<close>

theorem conf_line_without_key:
  assumes "\<forall>kv \<in> set kvs. line_ok kv" "length kvs \<le> MAX_LINE" "length (cr_items r) = MAX_LINE" "length (cr_file_path r) = 256"
    "is_str path" "length (c_str path) \<le> 256" "fopen (c_str path) = Some (render_conf kvs @ t @ 10 # rest)"
    "0 \<notin> set t" "10 \<notin> set t" "61 \<notin> set t" "length t < MAX_LINE - 1"
  shows "read_conf fopen (Some r) (Some path) (Some mode) = Undefined"
proof -
  obtain r' where r': "read_conf fopen (Some r) (Some path) (Some mode) = bindO (conf_parser_loop (t @ 10 # rest) False r') (\<lambda>r. Done (OK, Some r))"
    by (rule read_conf_lines [of kvs r path fopen "t @ 10 # rest" mode, OF assms(1-7)])
  let ?tmp = "(t @ [10]) @ replicate (MAX_LINE - length (t @ [10])) 0"
  have t: "0 \<notin> set (t @ [10])" "length (t @ [10]) < MAX_LINE"
    using assms(8,11) by auto
  note p = pad_facts [OF t, unfolded pad_def]
  have split: "takeWhile (\<lambda>c. c \<noteq> 61) (t @ [10]) = t @ [10]"
    using assms(10) by (auto simp: takeWhile_eq_all_conv)
  have n: "as_size (int (length (t @ [10])) - int (length (t @ [10])) - 2) = 2 ^ 64 - 2"
    by (simp add: as_size_def)
  have "c_strncpy (replicate MAX_LINE 0) s (2 ^ 64 - 2) = Undefined" for s
    by (simp add: c_strncpy_def Let_def MAX_LINE_def)
  moreover have "c_strncpy (replicate MAX_LINE 0) ?tmp (length (t @ [10])) = Done (pad (t @ [10]))"
    using t p by (simp add: c_strncpy_def Let_def splice_at_def pad_def)
  ultimately have "parse_line ?tmp = Undefined"
    unfolding parse_line_def p(2) split Let_def n by simp
  then have "conf_parser_loop (t @ 10 # rest) False r' = Undefined"
    unfolding conf_parser_loop.simps [of "t @ 10 # rest"] fgets_full_line(1) [OF assms(9,11)] Let_def p(2) by simp
  then show ?thesis
    by (simp add: r')
qed

theorem conf_line_without_key_witness:
  "read_conf (\<lambda>_. Some (chars ''port=9998'' @ [10, 10])) (Some example_reader) (Some (c_text ''a.conf'')) (Some (c_text ''r'')) = Undefined"
proof -
  let ?kvs = "[(chars ''port'', chars ''9998'')]"
  have p: "is_str (c_text ''a.conf'')" "length (c_str (c_text ''a.conf'')) \<le> 256"
    by (simp_all add: c_text_def is_str_def c_str_def)
  have l: "\<forall>kv \<in> set ?kvs. line_ok kv"
    by (simp add: line_ok_def chars_def MAX_LINE_def)
  have f: "chars ''port=9998'' @ [10, 10] = render_conf ?kvs @ [] @ 10 # []"
    by (simp add: render_conf_def chars_def)
  show ?thesis
    unfolding f by (rule conf_line_without_key [OF l _ _ _ p, where t = "[]" and rest = "[]"]) (simp_all add: example_reader_def MAX_LINE_def)
qed

section \<open>The configuration of a peer\<close>

definition conf_value :: "(bytes \<times> bytes) list \<Rightarrow> string \<Rightarrow> bytes" where
  "conf_value kvs key = (case map_of kvs (chars key) of None \<Rightarrow> [] | Some v \<Rightarrow> v)"

lemma is_str_c_text: "is_str (c_text s)"
  by (simp add: c_text_def is_str_def)

definition plain_key :: "string \<Rightarrow> bool" where
  "plain_key s \<longleftrightarrow> 0 \<notin> set (chars s)"

lemma c_str_c_text: "plain_key s \<Longrightarrow> c_str (c_text s) = chars s"
  by (simp add: c_text_facts plain_key_def c_str_id)

lemma conf_into_loaded:
  assumes "loaded kvs r" "\<forall>kv \<in> set kvs. line_ok kv" "plain_key key"
  shows "conf_into r key (replicate n 0) = (if length (conf_value kvs key) \<le> n then Done (conf_value kvs key @ replicate (n - length (conf_value kvs key)) 0) else Undefined)"
  using get_value_loaded [OF assms(1,2) is_str_c_text] c_str_c_text [OF assms(3)]
  by (auto simp: conf_into_def conf_value_def splice_at_def split: option.splits)

text \<open>A number in decimal notation.\<close>

definition decimal :: "bytes \<Rightarrow> int" where
  "decimal s = int (foldl (\<lambda>v c. 10 * v + digit_value c) 0 s)"

lemma atoi_decimal:
  assumes "list_all is_digit s" "decimal s < 2 ^ 31"
  shows "atoi (s @ 0 # t) = Done (decimal s)"
proof -
  have d: "is_digit c \<Longrightarrow> c \<noteq> 0 \<and> \<not> is_space c \<and> c \<noteq> 45 \<and> c \<noteq> 43" for c
    unfolding is_digit_def is_space_def by (auto simp: word_le_nat_alt)
  have n: "0 \<notin> set s"
    using assms(1) d by (auto simp: list_all_iff)
  have w: "dropWhile is_space s = s" "takeWhile is_digit s = s"
    using assms(1) d by (cases s; auto simp: list_all_iff takeWhile_eq_all_conv)+
  have h: "(s \<noteq> [] \<and> hd s = 45) = False" "(s \<noteq> [] \<and> (hd s = 45 \<or> hd s = 43)) = False"
    using assms(1) d by (cases s; auto simp: list_all_iff)+
  have "0 \<le> decimal s"
    by (simp add: decimal_def)
  moreover have "c_str (s @ 0 # t) = s" "is_str (s @ 0 # t)"
    using n by simp_all
  ultimately show ?thesis
    using assms(2) unfolding atoi_def Let_def by (simp add: w h decimal_def [symmetric] del: c_str_append_zero)
qed

lemma conf_number_loaded:
  assumes "loaded kvs r" "\<forall>kv \<in> set kvs. line_ok kv" "plain_key key" "list_all is_digit (conf_value kvs key)" "length (conf_value kvs key) < n" "decimal (conf_value kvs key) < 2 ^ 31"
  shows "bindO (conf_into r key (replicate n 0)) atoi = Done (decimal (conf_value kvs key))"
proof -
  obtain m where "n - length (conf_value kvs key) = Suc m"
    using assms(5) by (cases "n - length (conf_value kvs key)") simp_all
  then show ?thesis
    using assms(5) atoi_decimal [OF assms(4,6)] by (simp add: conf_into_loaded [OF assms(1-3)])
qed

lemma c_streq_text: "plain_key a \<Longrightarrow> plain_key b \<Longrightarrow> c_streq (c_text a) (c_text b) = Done (chars a = chars b)"
  by (simp add: c_streq_str is_str_c_text c_str_c_text)

definition conf_ok :: "(bytes \<times> bytes) list \<Rightarrow> conf_reader \<Rightarrow> bytes \<Rightarrow> bool" where
  "conf_ok kvs r path \<longleftrightarrow> (\<forall>kv \<in> set kvs. line_ok kv) \<and> length kvs \<le> MAX_LINE \<and> length (cr_items r) = MAX_LINE \<and> length (cr_file_path r) = 256 \<and>
     is_str path \<and> c_str path \<noteq> [] \<and> length (c_str path) < 256"

lemma nose_main_reads:
  assumes "conf_ok kvs r path" "fopen (c_str path) = Some (render_conf kvs)"
  obtains r' where "loaded kvs r'" "nose_main fopen r [name, c_text ''peer'', c_text ''-c'', path] = bindO (peer_conf r') (\<lambda>pr. Done (StartPeer pr))"
    "nose_main fopen r [name, c_text ''master-peer'', c_text ''-c'', path] =
      bindO (master_conf r') (\<lambda>(ipv4, port, item, mstp). Done (StartMasterPeer ipv4 port item mstp))"
proof -
  note c = assms(1) [unfolded conf_ok_def]
  define cp where "cp = c_str path @ replicate (256 - length (c_str path)) 0"
  have n: "256 - length (c_str path) = Suc (255 - length (c_str path))"
    using c by auto
  have cp: "c_strncpy (replicate 256 0) path (length (c_str path)) = Done cp" "is_str cp" "c_str cp = c_str path"
    using c by (simp_all add: c_strncpy_def Let_def splice_at_def cp_def n)
  have f: "fopen (c_str cp) = Some (render_conf kvs @ [])"
    using assms(2) cp(3) by simp
  have c': "\<forall>kv \<in> set kvs. line_ok kv" "length kvs \<le> MAX_LINE" "length (cr_items r) = MAX_LINE" "length (cr_file_path r) = 256" "length (c_str cp) \<le> 256"
    using c cp(3) by auto
  obtain r' where r': "loaded kvs r'" "read_conf fopen (Some r) (Some cp) (Some (c_text ''r'')) = Done (OK, Some r')"
    using read_conf_lines [of kvs r cp fopen "[]" "c_text ''r''", OF c'(1-4) cp(2) c'(5) f] by (auto simp: conf_loop_end)
  have a: "c_streq (c_text ''peer'') (c_text ''peer'') = Done True" "c_streq (c_text ''-c'') (c_text ''peer'') = Done False"
    "c_streq (c_text ''-c'') (c_text ''-c'') = Done True" "c_streq (c_text ''master-peer'') (c_text ''peer'') = Done False"
    "c_streq (c_text ''master-peer'') (c_text ''-c'') = Done False"
    by (simp_all add: c_streq_text plain_key_def chars_def)
  have "parse_args [c_text ''peer'', c_text ''-c'', path] False (replicate 256 0) = Done (Some (True, cp))"
    "parse_args [c_text ''master-peer'', c_text ''-c'', path] False (replicate 256 0) = Done (Some (False, cp))"
    using a c cp(1) by simp_all
  then show thesis
    using r' c cp(3) by (intro that [of r']) (simp_all add: nose_main_def)
qed

definition peer_texts :: "string list" where
  "peer_texts = [''source_ipv4'', ''master_peer_ipv4'', ''vlan_local_ipv4'', ''vlan_remote_ipv4'', ''stun_server_ipv4'']"

lemma plain_keys: "plain_key ''source_ipv4''" "plain_key ''master_peer_ipv4''" "plain_key ''vlan_local_ipv4''" "plain_key ''vlan_remote_ipv4''"
  "plain_key ''stun_server_ipv4''" "plain_key ''mstp_id''" "plain_key ''key''" "plain_key ''source_port''" "plain_key ''master_peer_port''"
  "plain_key ''ipv4''" "plain_key ''port''" "plain_key ''node_id''"
  by (simp_all add: plain_key_def chars_def)

lemma conf_value_no_zero: "\<forall>kv \<in> set kvs. line_ok kv \<Longrightarrow> 0 \<notin> set (conf_value kvs key)"
  by (cases "map_of kvs (chars key)") (fastforce simp: conf_value_def line_ok_def dest: map_of_SomeD)+

lemma c_str_zeros: "0 \<notin> set v \<Longrightarrow> c_str (v @ replicate n 0) = v"
  by (cases n) (simp_all add: c_str_id)

definition number_ok :: "bytes \<Rightarrow> bool" where
  "number_ok s \<longleftrightarrow> list_all is_digit s \<and> length s < 10 \<and> decimal s < 2 ^ 31"

text \<open>C39: a configuration file of \<open>key=value\<close> lines whose values fit starts a peer with these values: the five
  addresses, the master peer's identifier and the key as texts, the two ports as numbers, and nothing
  where the file has no such line.\<close>

theorem peer_is_configured:
  assumes "conf_ok kvs r path" "fopen (c_str path) = Some (render_conf kvs)" "\<forall>k \<in> set peer_texts. length (conf_value kvs k) < 16"
    "length (conf_value kvs ''mstp_id'') \<le> 20" "length (conf_value kvs ''key'') \<le> 33" "number_ok (conf_value kvs ''source_port'')" "number_ok (conf_value kvs ''master_peer_port'')"
  shows "\<exists>pr. nose_main fopen r [name, c_text ''peer'', c_text ''-c'', path] = Done (StartPeer pr) \<and>
    c_str (pr_source_ipv4 pr) = conf_value kvs ''source_ipv4'' \<and> c_str (pr_master_peer_ipv4 pr) = conf_value kvs ''master_peer_ipv4'' \<and>
    c_str (pr_vlan_local_ipv4 pr) = conf_value kvs ''vlan_local_ipv4'' \<and> c_str (pr_vlan_remote_ipv4 pr) = conf_value kvs ''vlan_remote_ipv4'' \<and>
    c_str (pr_stun_server_ipv4 pr) = conf_value kvs ''stun_server_ipv4'' \<and> c_str (pr_mstp_id pr) = conf_value kvs ''mstp_id'' \<and>
    c_str (pr_key pr) = conf_value kvs ''key'' \<and> pr_source_port pr = decimal (conf_value kvs ''source_port'') \<and>
    pr_master_peer_port pr = decimal (conf_value kvs ''master_peer_port'') \<and> pr_remote_peer_addr pr = \<lparr>sin_addr = 0, sin_port = 0\<rparr>"
proof -
  obtain r' where r': "loaded kvs r'" "nose_main fopen r [name, c_text ''peer'', c_text ''-c'', path] = bindO (peer_conf r') (\<lambda>pr. Done (StartPeer pr))"
    by (rule nose_main_reads [of kvs r path fopen name, OF assms(1,2)])
  have l: "\<forall>kv \<in> set kvs. line_ok kv"
    using assms(1) by (simp add: conf_ok_def)
  note into = plain_keys(1-7) [THEN conf_into_loaded [OF r'(1) l]]
  have ports: "bindO (conf_into r' ''source_port'' (replicate 10 0)) atoi = Done (decimal (conf_value kvs ''source_port''))"
    "bindO (conf_into r' ''master_peer_port'' (replicate 10 0)) atoi = Done (decimal (conf_value kvs ''master_peer_port''))"
    using assms(6,7) conf_number_loaded [OF r'(1) l] plain_keys by (auto simp: number_ok_def)
  show ?thesis
    using assms(3-5) unfolding r'(2) peer_conf_def Let_def
    by (simp add: zero_peer_def into ports peer_texts_def less_imp_le c_str_zeros conf_value_no_zero [OF l])
qed

text \<open>A port with a comment behind it, as in the examples of the README, overruns the array for the port.\<close>

theorem commented_port_undefined:
  assumes "conf_ok kvs r path" "fopen (c_str path) = Some (render_conf kvs)" "\<forall>k \<in> set peer_texts. length (conf_value kvs k) < 16"
    "length (conf_value kvs ''mstp_id'') \<le> 20" "10 < length (conf_value kvs ''source_port'')"
  shows "nose_main fopen r [name, c_text ''peer'', c_text ''-c'', path] = Undefined"
proof -
  obtain r' where r': "loaded kvs r'" "nose_main fopen r [name, c_text ''peer'', c_text ''-c'', path] = bindO (peer_conf r') (\<lambda>pr. Done (StartPeer pr))"
    by (rule nose_main_reads [of kvs r path fopen name, OF assms(1,2)])
  have l: "\<forall>kv \<in> set kvs. line_ok kv"
    using assms(1) by (simp add: conf_ok_def)
  note into = plain_keys(1-7) [THEN conf_into_loaded [OF r'(1) l]]
  have "bindO (conf_into r' ''source_port'' (replicate 10 0)) atoi = Undefined"
    using assms(5) by (simp add: conf_into_loaded [OF r'(1) l plain_keys(8)])
  then show ?thesis
    using assms(3,4) unfolding r'(2) peer_conf_def Let_def
    by (simp add: zero_peer_def into peer_texts_def less_imp_le)
qed

text \<open>The example of the README, with and without its comments.\<close>

definition readme_conf :: "string \<Rightarrow> (bytes \<times> bytes) list" where
  "readme_conf comment = map (\<lambda>(k, v). (chars k, chars v))
     [(''mode'', ''peer''), (''source_ipv4'', ''172.20.10.5''), (''source_port'', ''45676'' @ comment), (''master_peer_ipv4'', ''172.20.10.3''),
      (''master_peer_port'', ''9998''), (''mstp_id'', ''aaaaaaaaaaaaaaaaaaaa''), (''stun_server_ipv4'', ''172.20.10.3''),
      (''vlan_remote_ipv4'', ''172.16.10.3''), (''vlan_local_ipv4'', ''172.16.10.2''), (''key'', ''b2c3d4f5j23Asds9b2c3d4f5j23Asds9'')]"

lemma readme_conf_ok:
  "conf_ok (readme_conf []) example_reader (c_text ''peer.conf'')"
  "conf_ok (readme_conf '' # local ip address and port you should bind'') example_reader (c_text ''peer.conf'')"
  by (simp_all add: conf_ok_def readme_conf_def line_ok_def chars_def c_text_def MAX_LINE_def example_reader_def is_str_def c_str_def)

lemma readme_values:
  "conf_value (readme_conf c) ''source_ipv4'' = chars ''172.20.10.5''" "conf_value (readme_conf c) ''source_port'' = chars (''45676'' @ c)"
  "conf_value (readme_conf c) ''master_peer_ipv4'' = chars ''172.20.10.3''" "conf_value (readme_conf c) ''master_peer_port'' = chars ''9998''"
  "conf_value (readme_conf c) ''mstp_id'' = chars ''aaaaaaaaaaaaaaaaaaaa''" "conf_value (readme_conf c) ''stun_server_ipv4'' = chars ''172.20.10.3''"
  "conf_value (readme_conf c) ''vlan_remote_ipv4'' = chars ''172.16.10.3''" "conf_value (readme_conf c) ''vlan_local_ipv4'' = chars ''172.16.10.2''"
  "conf_value (readme_conf c) ''key'' = chars ''b2c3d4f5j23Asds9b2c3d4f5j23Asds9''"
  by (simp_all add: conf_value_def readme_conf_def chars_def)

theorem peer_is_configured_witness:
  "\<exists>pr. nose_main (\<lambda>_. Some (render_conf (readme_conf []))) example_reader [c_text ''nose'', c_text ''peer'', c_text ''-c'', c_text ''peer.conf''] = Done (StartPeer pr) \<and>
    pr_source_port pr = 45676"
proof -
  have "decimal (chars ''45676'') = 45676" "decimal (chars ''9998'') = 9998"
    by (simp_all add: decimal_def chars_def digit_value_def is_digit_def)
  moreover have "number_ok (chars ''45676'')" "number_ok (chars ''9998'')"
    using calculation by (simp_all add: number_ok_def) (simp_all add: chars_def is_digit_def)
  moreover have "\<forall>k \<in> set peer_texts. length (conf_value (readme_conf []) k) < 16"
    by (simp add: peer_texts_def readme_values chars_def)
  ultimately have c: "\<forall>k \<in> set peer_texts. length (conf_value (readme_conf []) k) < 16" "number_ok (conf_value (readme_conf []) ''source_port'')"
    "number_ok (conf_value (readme_conf []) ''master_peer_port'')" "decimal (conf_value (readme_conf []) ''source_port'') = 45676"
    by (simp_all add: readme_values)
  have "length (conf_value (readme_conf []) ''mstp_id'') \<le> 20" "length (conf_value (readme_conf []) ''key'') \<le> 33"
    by (simp_all add: readme_values chars_def)
  from peer_is_configured [of "readme_conf []" example_reader "c_text ''peer.conf''" "\<lambda>_. Some (render_conf (readme_conf []))" "c_text ''nose''",
      OF readme_conf_ok(1) refl c(1) this c(2,3)] show ?thesis
    unfolding c(4) by blast
qed

theorem commented_port_undefined_witness:
  "nose_main (\<lambda>_. Some (render_conf (readme_conf '' # local ip address and port you should bind''))) example_reader
     [c_text ''nose'', c_text ''peer'', c_text ''-c'', c_text ''peer.conf''] = Undefined"
  by (rule commented_port_undefined [OF readme_conf_ok(2)]) (simp_all add: peer_texts_def readme_values chars_def)

end
