(* ===== verification/NoseUtils.thy ===== *)
theory NoseUtils imports NosePmp begin

text \<open>
  The helpers of the C program (utils.h, utils.c).  The numbers that \<open>rand\<close> returns, the hash function, the
  results of \<open>inet_pton\<close> and of the name lookup are arguments.
\<close>

definition is_valid_ip_address :: "int \<Rightarrow> bool" where
  "is_valid_ip_address inet_pton_result \<longleftrightarrow> inet_pton_result \<noteq> 0"

text \<open>
  The assertion demands that \<open>malloc\<close> fails, and a failed \<open>malloc\<close> is not a buffer: the first result is
  \<open>None\<close> when the assertion ends the program.
\<close>

definition swap :: "junk option \<Rightarrow> bytes \<Rightarrow> bytes \<Rightarrow> nat \<Rightarrow> (bytes \<times> bytes) option outcome" where
  "swap mem a b n = (case c_malloc n mem of
     Some c \<Rightarrow> Done None
   | None \<Rightarrow> if n = 0 then Done (Some (a, b)) else Undefined)"

text \<open>The hash in hexadecimal, with a terminator after 64 characters.\<close>

definition hex_digit :: "nat \<Rightarrow> byte" where
  "hex_digit n = (if n < 10 then of_nat (48 + n) else of_nat (87 + n))"

definition hex_text :: "bytes \<Rightarrow> bytes" where
  "hex_text hash = concat (map (\<lambda>b. [hex_digit (unat b div 16), hex_digit (unat b mod 16)]) hash)"

definition gen_sha256 :: "(bytes \<Rightarrow> bytes) \<Rightarrow> bytes \<Rightarrow> nat \<Rightarrow> bytes \<Rightarrow> bytes outcome" where
  "gen_sha256 sha256 input len output =
     bindO (c_read input 0 len) (\<lambda>data.
     bindO (c_memcpy output 0 (hex_text (take 32 (sha256 data)) @ [0]) 65) (\<lambda>output. c_put output 64 0))"

text \<open>
  The secret goes to the output; the bytes of the challenge and of the identifier are then read from
  the addresses that their values are when taken for pointers.
\<close>

definition combine_ser_chall_id :: "bytes \<Rightarrow> int \<Rightarrow> int \<Rightarrow> bytes option \<Rightarrow> (int \<times> bytes option) outcome" where
  "combine_ser_chall_id s_key challenge ident output = (case output of
     None \<Rightarrow> Done (C_ERROR, None)
   | Some out \<Rightarrow> bindO (c_string_length s_key) (\<lambda>n. bindO (c_memcpy out 0 s_key n) (\<lambda>out. Undefined)))"

text \<open>\<open>(1 << length) - 1\<close> is the modulus, so 0 bits divide by zero.\<close>

definition gen_random_int :: "int \<Rightarrow> int \<Rightarrow> int outcome" where
  "gen_random_int rand len = (if len \<le> 0 \<or> 31 \<le> len then Undefined else Done (rand mod (2 ^ nat len - 1)))"

definition id_base :: bytes where
  "id_base = map of_nat ([48..<58] @ [97..<123])"

definition gen_random_node_id :: "(nat \<Rightarrow> nat) \<Rightarrow> bytes option \<Rightarrow> bytes option outcome" where
  "gen_random_node_id rand node_id = (case node_id of
     None \<Rightarrow> Done None
   | Some a \<Rightarrow> bindO (c_memcpy a 0 (map (\<lambda>i. id_base ! (rand i mod length id_base)) [0..<20]) 20) (\<lambda>a.
       bindO (c_put a 20 0) (\<lambda>a. Done (Some a))))"

definition gen_random_trans_id :: "(nat \<Rightarrow> nat) \<Rightarrow> bytes option \<Rightarrow> bytes option outcome" where
  "gen_random_trans_id rand trans_id = (case trans_id of
     None \<Rightarrow> Done None
   | Some a \<Rightarrow> bindO (c_memcpy a 0 (map (\<lambda>i. of_nat (rand i mod 255)) [0..<16]) 16) (\<lambda>a. Done (Some a)))"

text \<open>
  The lookup gives the family and the addresses, or NULL.  Only the first address is used, and a name
  without an IPv4 address leaves the buffer as it is.
\<close>

definition gethostbyname1 :: "(bytes \<Rightarrow> (bool \<times> u32 list) option) \<Rightarrow> bytes option \<Rightarrow> bytes option \<Rightarrow> (int \<times> bytes option) outcome" where
  "gethostbyname1 lookup domain ipv4 = (case (domain, ipv4) of
     (Some name, Some out) \<Rightarrow> (case lookup (c_str name) of
         None \<Rightarrow> Done (C_ERROR, ipv4)
       | Some (is_inet, addrs) \<Rightarrow>
           if is_inet \<and> addrs \<noteq> []
           then bindO (c_strncpy out (inet_ntoa (hd addrs)) (length (c_str (inet_ntoa (hd addrs))))) (\<lambda>out. Done (OK, Some out))
           else Done (OK, ipv4))
   | _ \<Rightarrow> Done (C_ERROR, ipv4))"

lemma node_id_is_str:
  assumes "length a = 21"
  obtains node where "gen_random_node_id rand (Some a) = Done (Some node)" "length node = 21" "is_str node" "length (c_str node) = 20"
proof -
  define s where "s = map (\<lambda>i. id_base ! (rand i mod length id_base)) [0..<20]"
  have chars: "c \<noteq> 0" if "c \<in> set id_base" for c
    using that by (auto simp: id_base_def upt_rec)
  have "0 < length id_base"
    by (simp add: id_base_def)
  then have "0 \<notin> set s"
    using chars by (auto simp: s_def)
  moreover have "length s = 20"
    by (simp add: s_def)
  ultimately show thesis
    using that [of "s @ [0]"] assms id_terminated [OF assms \<open>length s = 20\<close>] c_str_append_zero [of s "[]"] is_str_append_zero [of s "[]"]
    by (simp add: gen_random_node_id_def s_def [symmetric])
qed

end
