(* ===== verification/NoseVpn.thy ===== *)
theory NoseVpn imports NosePeer NoseUtils begin

text \<open>
  The virtual private network (dfa.h, dfa.c, dfa\_state.h, vpn.h, vpn.c, auth.h, auth.c, key\_neg.h, key\_neg.c, and
  \<open>app_data_pkt\<close> of crypt.c): the state machine of a connection, its packets, and the agreement on a key.
  The peer does not call it yet.  SHA-256, the calls of mbedtls's elliptic curves and the numbers from \<open>rand\<close> are arguments.
\<close>

section \<open>The automaton\<close>

text \<open>The matrix lies in memory line by line; \<open>df_call_back\<close> says whether a listener is registered.\<close>

record dfa =
  df_matrix :: "int list"
  df_m :: nat
  df_current_state :: int
  df_call_back :: bool

definition init_dfa :: "dfa option \<Rightarrow> int list \<Rightarrow> nat \<Rightarrow> int \<Rightarrow> bool \<Rightarrow> (int \<times> dfa option) outcome" where
  "init_dfa handler matrix m begin_state malloced = (case handler of
     None \<Rightarrow> Done (C_ERROR, None)
   | Some d \<Rightarrow>
       if 0 < m \<and> (\<not> malloced \<or> length matrix < m * m) then Undefined
       else Done (OK, Some (d\<lparr>df_matrix := take (m * m) matrix, df_m := m, df_current_state := begin_state\<rparr>)))"

definition get_current_dfa_state :: "dfa option \<Rightarrow> int" where
  "get_current_dfa_state handler = (case handler of None \<Rightarrow> C_ERROR | Some d \<Rightarrow> df_current_state d)"

definition cell :: "dfa \<Rightarrow> nat \<Rightarrow> nat \<Rightarrow> int outcome" where
  "cell d line col = (if line * df_m d + col < length (df_matrix d) then Done (df_matrix d ! (line * df_m d + col)) else Undefined)"

text \<open>The search for the condition in a column or line gives the new state.\<close>

fun scan_column :: "dfa \<Rightarrow> int \<Rightarrow> nat \<Rightarrow> nat list \<Rightarrow> int option outcome" where
  "scan_column d condition col [] = Done None"
| "scan_column d condition col (line # lines) =
     bindO (cell d line col) (\<lambda>x. if x = condition then bindO (cell d line 0) (\<lambda>s. Done (Some s)) else scan_column d condition col lines)"

fun scan_line :: "dfa \<Rightarrow> int \<Rightarrow> nat \<Rightarrow> nat list \<Rightarrow> int option outcome" where
  "scan_line d condition line [] = Done None"
| "scan_line d condition line (col # cols) =
     bindO (cell d line col) (\<lambda>x. if x = condition then bindO (cell d 0 col) (\<lambda>s. Done (Some s)) else scan_line d condition line cols)"

fun column_first :: "dfa \<Rightarrow> int \<Rightarrow> nat list \<Rightarrow> int option outcome" where
  "column_first d condition [] = Done None"
| "column_first d condition (col # cols) =
     bindO (cell d 0 col) (\<lambda>s.
       if s = df_current_state d
       then bindO (scan_column d condition col [1..<df_m d]) (\<lambda>r. case r of Some t \<Rightarrow> Done (Some t) | None \<Rightarrow> column_first d condition cols)
       else column_first d condition cols)"

fun line_first :: "dfa \<Rightarrow> int \<Rightarrow> nat list \<Rightarrow> int option outcome" where
  "line_first d condition [] = Done None"
| "line_first d condition (line # lines) =
     bindO (cell d line 0) (\<lambda>s.
       if s = df_current_state d
       then bindO (scan_line d condition line [1..<df_m d]) (\<lambda>r. case r of Some t \<Rightarrow> Done (Some t) | None \<Rightarrow> line_first d condition lines)
       else line_first d condition lines)"

text \<open>The last result is what the listener is called with: the states before and after, and the condition.\<close>

definition set_next_dfa_state :: "dfa option \<Rightarrow> int \<Rightarrow> (int \<times> dfa option \<times> (int \<times> int \<times> int) option) outcome" where
  "set_next_dfa_state handler condition = (case handler of
     None \<Rightarrow> Done (C_ERROR, None, None)
   | Some d \<Rightarrow>
       let move = (\<lambda>t. Done (OK, Some (d\<lparr>df_current_state := t\<rparr>), if df_call_back d then Some (df_current_state d, t, condition) else None)) in
       bindO (column_first d condition [1..<df_m d]) (\<lambda>r. case r of
         Some t \<Rightarrow> move t
       | None \<Rightarrow> bindO (line_first d condition [1..<df_m d]) (\<lambda>r. case r of
           Some t \<Rightarrow> move t
         | None \<Rightarrow> Done (C_ERROR, handler, None))))"

definition dfa_state_change_listener :: "dfa option \<Rightarrow> bool \<Rightarrow> dfa option" where
  "dfa_state_change_listener handler cb = (if cb then map_option (\<lambda>d. d\<lparr>df_call_back := True\<rparr>) handler else handler)"

section \<open>The states of a connection\<close>

definition S_START :: int where "S_START = 1"
definition S_AUTHEN :: int where "S_AUTHEN = 2"
definition S_KEY_EX :: int where "S_KEY_EX = 3"
definition S_RUN :: int where "S_RUN = 4"
definition C_START_AUTHEN :: int where "C_START_AUTHEN = 1"
definition C_AUTHEN_FAILED :: int where "C_AUTHEN_FAILED = 2"
definition C_START_KEYEXC :: int where "C_START_KEYEXC = 3"
definition C_KEY_EXEC_FAILED :: int where "C_KEY_EXEC_FAILED = 4"
definition C_KEY_EXEC_SUCCESS :: int where "C_KEY_EXEC_SUCCESS = 5"
definition C_SEND_PAY_LOAD :: int where "C_SEND_PAY_LOAD = 6"

lemmas dfa_consts = S_START_def S_AUTHEN_def S_KEY_EX_def S_RUN_def C_START_AUTHEN_def C_AUTHEN_FAILED_def C_START_KEYEXC_def
  C_KEY_EXEC_FAILED_def C_KEY_EXEC_SUCCESS_def C_SEND_PAY_LOAD_def

definition STATE_M :: nat where
  "STATE_M = 5"

definition state_matrix :: "int list" where
  "state_matrix = [0, S_START, S_AUTHEN, S_KEY_EX, S_RUN,
     S_START, 0, C_START_AUTHEN, 0, 0,
     S_AUTHEN, C_AUTHEN_FAILED, 0, C_START_KEYEXC, 0,
     S_KEY_EX, 0, C_KEY_EXEC_FAILED, 0, C_KEY_EXEC_SUCCESS,
     S_RUN, 0, 0, 0, C_SEND_PAY_LOAD]"

section \<open>Packets\<close>

record vpn_proto_header =
  vh_type :: byte
  vh_code :: byte
  vh_id :: u16
  vh_length :: u16
  vh_reversed :: u16

definition vpn_header_bytes :: "vpn_proto_header \<Rightarrow> bytes" where
  "vpn_header_bytes h = vh_type h # vh_code h # host16 (vh_id h) @ host16 (vh_length h) @ host16 (vh_reversed h)"

definition vpn_header_of :: "bytes \<Rightarrow> vpn_proto_header" where
  "vpn_header_of m = \<lparr>vh_type = m ! 0, vh_code = m ! 1, vh_id = of_host16 (drop 2 m), vh_length = of_host16 (drop 4 m), vh_reversed = of_host16 (drop 6 m)\<rparr>"

definition AUTH :: byte where "AUTH = 0"
definition KEY_NEG :: byte where "KEY_NEG = 1"
definition APP_DATA :: byte where "APP_DATA = 2"
definition AUTH_REQ :: byte where "AUTH_REQ = 0"
definition AUTH_RSP :: byte where "AUTH_RSP = 1"

lemmas vpn_consts = AUTH_def KEY_NEG_def APP_DATA_def AUTH_REQ_def AUTH_RSP_def

text \<open>Both lengths are those of a request.\<close>

definition AUTH_REQ_LEN :: nat where "AUTH_REQ_LEN = 8 + 68"
definition AUTH_RSP_LEN :: nat where "AUTH_RSP_LEN = 8 + 68"

definition htonl :: "u32 \<Rightarrow> u32" where
  "htonl x = of_host32 (be32 x)"

text \<open>The identifier is a 16-bit field, to which the 32 bits of \<open>htonl\<close> are assigned.\<close>

definition auth_header :: "byte \<Rightarrow> int \<Rightarrow> bytes" where
  "auth_header code ident = vpn_header_bytes \<lparr>vh_type = AUTH, vh_code = code, vh_id = ucast (htonl (of_int ident)), vh_length = htons (of_nat AUTH_REQ_LEN), vh_reversed = 0\<rparr>"

text \<open>The request's struct is filled and freed, but not copied to the buffer.\<close>

definition auth_request_pkt :: "(bytes \<Rightarrow> bytes) \<Rightarrow> junk option \<Rightarrow> junk option \<Rightarrow> bytes \<Rightarrow> int \<Rightarrow> int \<Rightarrow> bytes \<Rightarrow> bytes option \<Rightarrow> (int \<times> bytes option) outcome" where
  "auth_request_pkt sha256 mem1 mem2 hash ident challenge s_key buffer = (case (buffer, c_malloc 8 mem1) of
     (None, _) \<Rightarrow> Done (C_FAILED, buffer)
   | (Some _, None) \<Rightarrow> Done (C_ERROR, buffer)
   | (Some b, Some _) \<Rightarrow>
       bindO (c_memcpy b 0 (auth_header AUTH_REQ ident) 8) (\<lambda>b.
       case c_malloc 68 mem2 of
         None \<Rightarrow> Done (C_ERROR, Some b)
       | Some pkt \<Rightarrow>
           bindO (combine_ser_chall_id s_key challenge ident (Some (replicate 256 0))) (\<lambda>(ret, ser_chall_id).
           if ret \<le> 0 then Done (C_ERROR, Some b)
           else bindO (gen_sha256 sha256 (the ser_chall_id) (nat ret) hash) (\<lambda>hash.
             bindO (c_memcpy (drop 4 pkt) 0 hash 64) (\<lambda>_. Done (int AUTH_REQ_LEN, Some b))))))"

definition auth_respose_pkt :: "junk option \<Rightarrow> junk option \<Rightarrow> int \<Rightarrow> int \<Rightarrow> int \<Rightarrow> bytes option \<Rightarrow> (int \<times> bytes option) outcome" where
  "auth_respose_pkt mem1 mem2 ident challenge message_code buffer = (case (buffer, c_malloc 8 mem1) of
     (None, _) \<Rightarrow> Done (C_FAILED, buffer)
   | (Some _, None) \<Rightarrow> Done (C_ERROR, buffer)
   | (Some b, Some _) \<Rightarrow>
       bindO (c_memcpy b 0 (auth_header AUTH_RSP ident) 8) (\<lambda>b.
       case c_malloc 68 mem2 of
         None \<Rightarrow> Done (C_ERROR, Some b)
       | Some _ \<Rightarrow>
           bindO (c_memcpy b 8 (host16 (htons (of_int challenge)) @ [of_int message_code, 0]) 4) (\<lambda>b.
           Done (int AUTH_RSP_LEN, Some b))))"

text \<open>The configuration is passed by value, so the identifier that is stored in it is lost.\<close>

definition auth_request_validate :: "(bytes \<Rightarrow> bytes) \<Rightarrow> bytes \<Rightarrow> bytes \<Rightarrow> nat \<Rightarrow> bytes \<Rightarrow> int outcome" where
  "auth_request_validate sha256 hash buffer n key =
     (if n < AUTH_REQ_LEN then Done C_FAILED
      else bindO (c_read buffer 0 76) (\<lambda>m. let header = vpn_header_of m in
        if vh_type header \<noteq> AUTH \<or> vh_code header \<noteq> AUTH_REQ then Done C_FAILED
        else bindO (combine_ser_chall_id key (uint (of_host16 (drop 8 m))) (uint (vh_id header)) (Some (replicate 256 0))) (\<lambda>(ret, ser_chall_id).
          if ret \<le> 0 then Done C_ERROR
          else bindO (gen_sha256 sha256 (the ser_chall_id) (nat ret) hash) (\<lambda>hash.
            bindO (c_streq hash (drop 12 buffer)) (\<lambda>same. Done (if same then OK else C_ERROR))))))"

text \<open>A header with a payload of a given length.\<close>

definition vpn_data_pkt :: "byte \<Rightarrow> junk option \<Rightarrow> int \<Rightarrow> bytes \<Rightarrow> nat \<Rightarrow> bytes \<Rightarrow> (int \<times> bytes) outcome" where
  "vpn_data_pkt ty mem ident payload len buffer = (case c_malloc 8 mem of
     None \<Rightarrow> Done (C_ERROR, buffer)
   | Some _ \<Rightarrow>
       let header = \<lparr>vh_type = ty, vh_code = 0, vh_id = htons (of_int ident), vh_length = htons (of_nat (8 + len)), vh_reversed = 0\<rparr> in
       bindO (c_memcpy buffer 0 (vpn_header_bytes header) 8) (\<lambda>buffer.
       bindO (c_memcpy buffer 8 payload len) (\<lambda>buffer. Done (int (8 + len), buffer))))"

definition key_neg_pkt :: "junk option \<Rightarrow> int \<Rightarrow> bytes \<Rightarrow> nat \<Rightarrow> bytes \<Rightarrow> (int \<times> bytes) outcome" where
  "key_neg_pkt mem ident pub_key key_len buffer = vpn_data_pkt KEY_NEG mem ident pub_key key_len buffer"

definition app_data_pkt :: "junk option \<Rightarrow> int \<Rightarrow> bytes option \<Rightarrow> nat \<Rightarrow> bytes \<Rightarrow> (int \<times> bytes) outcome" where
  "app_data_pkt mem ident payload payload_len buffer = (case payload of
     None \<Rightarrow> Done (C_ERROR, buffer)
   | Some p \<Rightarrow> if payload_len = 0 then Done (C_ERROR, buffer) else vpn_data_pkt APP_DATA mem ident p payload_len buffer)"

definition key_neg_pkt_validate :: "bytes \<Rightarrow> bytes option \<Rightarrow> nat \<Rightarrow> (int \<times> bytes option) outcome" where
  "key_neg_pkt_validate buffer pub_key key_len = (case pub_key of
     None \<Rightarrow> Done (C_ERROR, None)
   | Some k \<Rightarrow> bindO (c_read buffer 0 8) (\<lambda>m.
       if vh_type (vpn_header_of m) \<noteq> KEY_NEG then Done (C_ERROR, pub_key)
       else bindO (c_memcpy k 0 (drop 8 buffer) key_len) (\<lambda>k. Done (OK, Some k))))"

section \<open>The agreement on a key\<close>

text \<open>
  The calls of mbedtls that the agreement makes: their results, the error code first.  Numbers of the
  library (\<open>mbedtls_mpi\<close>) are \<open>int\<close>, a group is of any type, and the numbers that the random generator
  gives to a call are an argument of it.
\<close>

datatype ecp_group_id = MBEDTLS_ECP_DP_NONE | MBEDTLS_ECP_DP_CURVE25519

record ecp_point =
  pt_X :: int
  pt_Y :: int
  pt_Z :: int

record 'g ecdh_context =
  ec_grp :: 'g
  ec_d :: int
  ec_Q :: ecp_point
  ec_Qp :: ecp_point
  ec_z :: int

record 'g mbedtls =
  ml_ecdh_init :: "'g ecdh_context"
  ml_ctr_drbg_seed :: "bytes \<Rightarrow> int"
  ml_ecp_group_load :: "ecp_group_id \<Rightarrow> int \<times> 'g"
  ml_ecdh_gen_public :: "'g \<Rightarrow> (nat \<Rightarrow> byte) \<Rightarrow> int \<times> int \<times> ecp_point"
  ml_ecdh_compute_shared :: "'g \<Rightarrow> ecp_point \<Rightarrow> int \<Rightarrow> (nat \<Rightarrow> byte) \<Rightarrow> int \<times> int"
  ml_mpi_lset :: "int \<Rightarrow> int \<times> int"
  ml_mpi_read_binary :: "bytes \<Rightarrow> int \<times> int"
  ml_mpi_write_binary :: "int \<Rightarrow> nat \<Rightarrow> int \<times> bytes"

text \<open>The contexts of a \<open>key_neg\<close> are gone once they are freed.\<close>

record 'g key_neg =
  kn_ctx :: "'g ecdh_context option"
  kn_pub_key :: bytes
  kn_sec_key :: bytes

text \<open>The text \<open>ecdh\<close>.\<close>

definition ecdh_pers :: bytes where
  "ecdh_pers = [101, 99, 100, 104]"

definition key_neg_make_public :: "'g mbedtls \<Rightarrow> (nat \<Rightarrow> byte) \<Rightarrow> 'g key_neg option \<Rightarrow> int \<times> 'g key_neg option" where
  "key_neg_make_public lib rnd neg = (case neg of
     None \<Rightarrow> (C_ERROR, None)
   | Some _ \<Rightarrow>
       let ctx = ml_ecdh_init lib;
           neg = \<lparr>kn_ctx = Some ctx, kn_pub_key = replicate 32 0, kn_sec_key = replicate 32 0\<rparr>;
           exit = (\<lambda>neg. (C_ERROR, Some (neg\<lparr>kn_ctx := None\<rparr>))) in
       if ml_ctr_drbg_seed lib ecdh_pers \<noteq> 0 then exit neg
       else let (ret, grp) = ml_ecp_group_load lib MBEDTLS_ECP_DP_CURVE25519; ctx = ctx\<lparr>ec_grp := grp\<rparr> in
       if ret \<noteq> 0 then exit neg
       else let (ret, d, Q) = ml_ecdh_gen_public lib (ec_grp ctx) rnd; ctx = ctx\<lparr>ec_d := d, ec_Q := Q\<rparr> in
       if ret \<noteq> 0 then exit neg
       else let (ret, key) = ml_mpi_write_binary lib (pt_X (ec_Q ctx)) 32; neg = neg\<lparr>kn_ctx := Some ctx, kn_pub_key := key\<rparr> in
       if ret \<noteq> 0 then exit neg
       else (OK, Some neg))"

text \<open>The contexts are freed in any case, of a NULL pointer as well.\<close>

definition key_neg_make_secret :: "'g mbedtls \<Rightarrow> (nat \<Rightarrow> byte) \<Rightarrow> 'g key_neg option \<Rightarrow> bytes \<Rightarrow> nat \<Rightarrow> (int \<times> 'g key_neg) outcome" where
  "key_neg_make_secret lib rnd neg public_key pklen = (case neg of
     None \<Rightarrow> Undefined
   | Some neg \<Rightarrow> (case kn_ctx neg of
       None \<Rightarrow> Undefined
     | Some ctx \<Rightarrow>
       let exit = (\<lambda>ret neg. Done (ret, neg\<lparr>kn_ctx := None\<rparr>));
           (ret, z) = ml_mpi_lset lib 1;
           ctx = ctx\<lparr>ec_Qp := (ec_Qp ctx)\<lparr>pt_Z := z\<rparr>\<rparr> in
       if ret \<noteq> 0 then exit ret neg
       else bindO (c_read public_key 0 pklen) (\<lambda>key.
       let (ret, x) = ml_mpi_read_binary lib key; ctx = ctx\<lparr>ec_Qp := (ec_Qp ctx)\<lparr>pt_X := x\<rparr>\<rparr> in
       if ret \<noteq> 0 then exit ret neg
       else let (ret, z) = ml_ecdh_compute_shared lib (ec_grp ctx) (ec_Qp ctx) (ec_d ctx) rnd; ctx = ctx\<lparr>ec_z := z\<rparr> in
       if ret \<noteq> 0 then exit ret neg
       else let (ret, sec) = ml_mpi_write_binary lib (ec_z ctx) 32; neg = neg\<lparr>kn_sec_key := sec\<rparr> in
       if ret \<noteq> 0 then exit ret neg
       else exit OK neg)))"

section \<open>The connection\<close>

record vpn =
  vp_pre_key :: bytes
  vp_dfa :: dfa
  vp_state_change_cb :: bool
  vp_id :: int
  vp_challenge :: int

definition init_vpn :: "vpn option \<Rightarrow> bytes option \<Rightarrow> bool \<Rightarrow> bool \<Rightarrow> int \<Rightarrow> (int \<times> vpn option) outcome" where
  "init_vpn handler pre_key cb malloced rand = (case (handler, pre_key) of
     (Some h, Some k) \<Rightarrow>
       bindO (c_strncpy (vp_pre_key h) k 32) (\<lambda>pk.
       bindO (init_dfa (Some (vp_dfa h)) state_matrix STATE_M S_START malloced) (\<lambda>(_, d).
       let d = the (dfa_state_change_listener d True) in
       Done (OK, Some (h\<lparr>vp_pre_key := pk, vp_dfa := d, vp_state_change_cb := (cb \<or> vp_state_change_cb h), vp_id := rand mod 32768\<rparr>))))
   | _ \<Rightarrow> Done (C_ERROR, handler))"

definition vpn_processing :: "(bytes \<Rightarrow> bytes) \<Rightarrow> junk option \<Rightarrow> junk option \<Rightarrow> bytes \<Rightarrow> bytes \<Rightarrow> int \<Rightarrow> vpn option \<Rightarrow> (int \<times> vpn option) outcome" where
  "vpn_processing sha256 mem1 mem2 hash buf rand handler = (case handler of
     None \<Rightarrow> Done (C_ERROR, None)
   | Some h \<Rightarrow>
       if get_current_dfa_state (Some (vp_dfa h)) = S_START
       then let h = h\<lparr>vp_challenge := rand mod 32768\<rparr> in
         bindO (auth_request_pkt sha256 mem1 mem2 hash (vp_id h) (vp_challenge h) (vp_pre_key h) (Some buf)) (\<lambda>(len, _).
         if len < 0 then Done (C_ERROR, Some h) else Done (OK, Some h))
       else Done (OK, Some h))"

section \<open>Properties\<close>

text \<open>The edges that the matrix names, from the line's state to the column's.\<close>

definition edges :: "(int \<times> int \<times> int) list" where
  "edges = [(S_START, C_START_AUTHEN, S_AUTHEN), (S_AUTHEN, C_AUTHEN_FAILED, S_START), (S_AUTHEN, C_START_KEYEXC, S_KEY_EX),
     (S_KEY_EX, C_KEY_EXEC_FAILED, S_AUTHEN), (S_KEY_EX, C_KEY_EXEC_SUCCESS, S_RUN), (S_RUN, C_SEND_PAY_LOAD, S_RUN)]"

definition vpn_dfa :: "int \<Rightarrow> dfa" where
  "vpn_dfa s = \<lparr>df_matrix = state_matrix, df_m = STATE_M, df_current_state = s, df_call_back = True\<rparr>"

definition target :: "int \<Rightarrow> int \<Rightarrow> int option" where
  "target s c = map_option (\<lambda>(a, _, b). if a = s then b else a) (find (\<lambda>(a, c', b). c' = c \<and> (a = s \<or> b = s)) edges)"

lemma dfa_table:
  "\<forall>s \<in> set [1, 2, 3, 4]. \<forall>c \<in> set [1, 2, 3, 4, 5, 6]. set_next_dfa_state (Some (vpn_dfa s)) c = Done (case target s c of
      None \<Rightarrow> (C_ERROR, Some (vpn_dfa s), None)
    | Some t \<Rightarrow> (OK, Some (vpn_dfa t), Some (s, t, c)))"
  by code_simp

lemma target_edges: "target s c = Some t \<longleftrightarrow> (s, c, t) \<in> set edges \<or> (t, c, s) \<in> set edges"
  by (auto simp: target_def edges_def dfa_consts split: if_splits)

text \<open>The automaton of a connection takes every edge of its matrix in both directions, and no other: a repeated
  start of the authentication leads back to the start, and a failure of it leads from the start to
  the authentication; a condition that is applied twice restores the state.\<close>

theorem dfa_edges_both_ways:
  assumes "s \<in> {S_START, S_AUTHEN, S_KEY_EX, S_RUN}" "c \<in> {1..6}"
  shows "set_next_dfa_state (Some (vpn_dfa s)) c = Done (case target s c of
      None \<Rightarrow> (C_ERROR, Some (vpn_dfa s), None)
    | Some t \<Rightarrow> (OK, Some (vpn_dfa t), Some (s, t, c))) \<and>
    (\<forall>t. target s c = Some t \<longleftrightarrow> (s, c, t) \<in> set edges \<or> (t, c, s) \<in> set edges)"
proof -
  have "s \<in> set [1, 2, 3, 4]" "c \<in> set [1, 2, 3, 4, 5, 6]"
    using assms by (auto simp: dfa_consts)
  then show ?thesis
    using dfa_table target_edges by blast
qed

theorem dfa_edges_both_ways_witness:
  "set_next_dfa_state (Some (vpn_dfa S_START)) C_AUTHEN_FAILED = Done (OK, Some (vpn_dfa S_AUTHEN), Some (S_START, S_AUTHEN, C_AUTHEN_FAILED))"
proof -
  have "target S_START C_AUTHEN_FAILED = Some S_AUTHEN"
    by (simp add: target_def edges_def dfa_consts)
  then show ?thesis
    using dfa_edges_both_ways [of S_START C_AUTHEN_FAILED] by (simp add: dfa_consts)
qed

text \<open>The first step of a connection that has been initialised is undefined, whatever its key, as soon as the
  memory for its packet is there: the challenge is taken for an address.\<close>

lemma vpn_start_undefined:
  assumes "init_vpn (Some h) (Some key) cb True r = Done (OK, Some h')" "8 \<le> length buf"
  shows "vpn_processing sha256 (Some j1) (Some j2) hash buf rand (Some h') = Undefined"
proof -
  obtain pk where "c_strncpy (vp_pre_key h) key 32 = Done pk"
    using assms(1) by (cases "c_strncpy (vp_pre_key h) key 32") (simp_all add: init_vpn_def)
  then have "df_current_state (vp_dfa h') = S_START"
    using assms(1) by (auto simp: init_vpn_def init_dfa_def dfa_state_change_listener_def state_matrix_def STATE_M_def Let_def)
  moreover have "combine_ser_chall_id k c i (Some out) = Undefined" for k c i out
  proof -
    have "c_memcpy out 0 k n = Undefined \<or> (\<exists>x. c_memcpy out 0 k n = Done x)" for n
      by (simp add: c_memcpy_def)
    then show ?thesis
      by (auto simp: combine_ser_chall_id_def c_string_length_def) (metis bindO.simps(1,3))
  qed
  moreover have "length (auth_header AUTH_REQ i) = 8" for i
    by (simp add: auth_header_def vpn_header_bytes_def)
  ultimately show ?thesis
    using assms(2) by (simp add: vpn_processing_def get_current_dfa_state_def auth_request_pkt_def Let_def)
qed

definition example_vpn :: vpn where
  "example_vpn = \<lparr>vp_pre_key = replicate 32 0, vp_dfa = vpn_dfa 0, vp_state_change_cb = False, vp_id = 0, vp_challenge = 0\<rparr>"

lemma vpn_start_example:
  "\<exists>h'. init_vpn (Some example_vpn) (Some [115, 101, 99, 0]) True True 77 = Done (OK, Some h') \<and>
    vpn_processing (\<lambda>_. replicate 32 0) (Some (\<lambda>_. 0)) (Some (\<lambda>_. 0)) (replicate 65 0) (replicate BUFSIZ 0) 5 (Some h') = Undefined"
proof -
  obtain h' where h: "init_vpn (Some example_vpn) (Some [115, 101, 99, 0]) True True 77 = Done (OK, Some h')"
    by (simp add: init_vpn_def example_vpn_def c_strncpy_def Let_def is_str_def c_str_def init_dfa_def state_matrix_def STATE_M_def)
  show ?thesis
    using h vpn_start_undefined [OF h, of "replicate BUFSIZ 0"] by (simp add: BUFSIZ_def)
qed

lemma vpn_header_of_bytes: "vpn_header_of (vpn_header_bytes h @ rest) = h"
  by (simp add: vpn_header_of_def vpn_header_bytes_def)

lemma length_vpn_header [simp]: "length (vpn_header_bytes h) = 8"
  by (simp add: vpn_header_bytes_def)

lemma key_packet:
  assumes "length k = 32" "40 \<le> length buf" "length k0 = 32"
  obtains pkt where "key_neg_pkt (Some j) ident k 32 buf = Done (40, pkt)"
    "\<And>rest. key_neg_pkt_validate (take 40 pkt @ rest) (Some k0) 32 = Done (OK, Some k)"
proof -
  define hb where "hb = vpn_header_bytes \<lparr>vh_type = KEY_NEG, vh_code = 0, vh_id = htons (of_int ident), vh_length = htons 40, vh_reversed = 0\<rparr>"
  have hb: "length hb = 8" "vh_type (vpn_header_of hb) = KEY_NEG"
    using vpn_header_of_bytes [of _ "[]"] by (simp_all add: hb_def)
  have "key_neg_pkt (Some j) ident k 32 buf = Done (40, (hb @ k) @ drop 40 buf)"
    using assms(1,2) hb(1) by (simp add: key_neg_pkt_def vpn_data_pkt_def Let_def hb_def [symmetric] splice_at_def del: of_nat_add)
  moreover have "key_neg_pkt_validate ((hb @ k) @ rest) (Some k0) 32 = Done (OK, Some k)" for rest
    using assms(1,3) hb by (simp add: key_neg_pkt_validate_def segment_def splice_at_def)
  moreover have "take 40 ((hb @ k) @ drop 40 buf) = hb @ k"
    using assms(1) hb(1) by simp
  ultimately show thesis
    using that [of "(hb @ k) @ drop 40 buf"] by (simp only:)
qed

text \<open>
  What mbedtls documents of these calls.  Numbers are written and read in big-endian order, and setting
  one does not fail.  A generated public key is \<open>d\<close> times the base point in affine coordinates, the shared
  secret of two generated keys is \<open>d\<close> times the other side's point, which must have \<open>Z = 1\<close>; \<open>mul d x\<close> is
  the first coordinate of \<open>d\<close> times the point whose first coordinate is \<open>x\<close>, a multiple of a multiple is
  the multiple by the product, and coordinates have 256 bits.
\<close>

definition be_value :: "bytes \<Rightarrow> int" where
  "be_value bs = foldl (\<lambda>n b. 256 * n + uint b) 0 bs"

definition mpi_documented :: "'g mbedtls \<Rightarrow> bool" where
  "mpi_documented lib \<longleftrightarrow> (\<forall>z. ml_mpi_lset lib z = (0, z)) \<and> (\<forall>bs. ml_mpi_read_binary lib bs = (0, be_value bs)) \<and>
     (\<forall>n len. 0 \<le> n \<and> n < 256 ^ len \<longrightarrow>
        (\<exists>bs. ml_mpi_write_binary lib n len = (0, bs) \<and> length bs = len \<and> be_value bs = n))"

definition curve_documented :: "'g mbedtls \<Rightarrow> (nat \<Rightarrow> int \<Rightarrow> int) \<Rightarrow> int \<Rightarrow> bool" where
  "curve_documented lib mul base \<longleftrightarrow>
     (\<forall>a b x. mul a (mul b x) = mul (a * b) x) \<and> (\<forall>a x. 0 \<le> mul a x \<and> mul a x < 2 ^ 256) \<and>
     (\<forall>grp. ml_ecp_group_load lib MBEDTLS_ECP_DP_CURVE25519 = (0, grp) \<longrightarrow>
       (\<forall>rnd d Q. ml_ecdh_gen_public lib grp rnd = (0, d, Q) \<longrightarrow> pt_X Q = mul (nat d) base \<and> pt_Z Q = 1) \<and>
       (\<forall>rnd rnd' rnd'' d Q d' Q' P. ml_ecdh_gen_public lib grp rnd = (0, d, Q) \<and> ml_ecdh_gen_public lib grp rnd' = (0, d', Q') \<and>
          pt_X P = pt_X Q' \<and> pt_Z P = 1 \<longrightarrow> ml_ecdh_compute_shared lib grp P d rnd'' = (0, mul (nat d) (pt_X P))))"

lemma curve_shared:
  assumes "curve_documented lib mul base" "ml_ecp_group_load lib MBEDTLS_ECP_DP_CURVE25519 = (0, grp)"
    "ml_ecdh_gen_public lib grp rnd = (0, d, Q)" "ml_ecdh_gen_public lib grp rnd' = (0, d', Q')" "pt_X P = pt_X Q'" "pt_Z P = 1"
  shows "ml_ecdh_compute_shared lib grp P d rnd'' = (0, mul (nat d) (pt_X P))"
proof -
  have "\<forall>rnd rnd' rnd'' d Q d' Q' P. ml_ecdh_gen_public lib grp rnd = (0, d, Q) \<and> ml_ecdh_gen_public lib grp rnd' = (0, d', Q') \<and>
      pt_X P = pt_X Q' \<and> pt_Z P = 1 \<longrightarrow> ml_ecdh_compute_shared lib grp P d rnd'' = (0, mul (nat d) (pt_X P))"
    using assms(1,2) unfolding curve_documented_def by blast
  from this [rule_format, OF conjI [OF assms(3) conjI [OF assms(4) conjI [OF assms(5,6)]]]] show ?thesis .
qed

lemma make_public_OK:
  assumes "mpi_documented lib" "curve_documented lib mul base" "key_neg_make_public lib rnd (Some n) = (OK, Some a)"
  obtains grp ctx Q where "ml_ecp_group_load lib MBEDTLS_ECP_DP_CURVE25519 = (0, grp)" "ml_ecdh_gen_public lib grp rnd = (0, ec_d ctx, Q)"
    "kn_ctx a = Some ctx" "ec_grp ctx = grp" "pt_X Q = mul (nat (ec_d ctx)) base" "length (kn_pub_key a) = 32" "be_value (kn_pub_key a) = pt_X Q"
proof -
  obtain ret grp where g: "ml_ecp_group_load lib MBEDTLS_ECP_DP_CURVE25519 = (ret, grp)"
    by fastforce
  obtain ret' d Q where q: "ml_ecdh_gen_public lib grp rnd = (ret', d, Q)"
    by (rule prod_cases3)
  obtain ret'' key where w: "ml_mpi_write_binary lib (pt_X Q) 32 = (ret'', key)"
    by fastforce
  have r: "ret = 0" "ret' = 0" "kn_pub_key a = key" "kn_ctx a = Some ((ml_ecdh_init lib)\<lparr>ec_grp := grp, ec_d := d, ec_Q := Q\<rparr>)"
    using assms(3) g q w by (auto simp: key_neg_make_public_def Let_def split: if_splits)
  then have x: "pt_X Q = mul (nat d) base" "0 \<le> pt_X Q" "pt_X Q < 256 ^ 32"
    using assms(2) g q by (auto simp: curve_documented_def)
  obtain bs where "ml_mpi_write_binary lib (pt_X Q) 32 = (0, bs)" "length bs = 32" "be_value bs = pt_X Q"
    using assms(1) x(2,3) unfolding mpi_documented_def by blast
  then show thesis
    using that [of grp "(ml_ecdh_init lib)\<lparr>ec_grp := grp, ec_d := d, ec_Q := Q\<rparr>" Q] g q w r x(1) by simp
qed

lemma make_secret_OK:
  assumes lib: "mpi_documented lib" "curve_documented lib mul base" and grp: "ml_ecp_group_load lib MBEDTLS_ECP_DP_CURVE25519 = (0, grp)"
    and a: "ml_ecdh_gen_public lib grp rnd = (0, ec_d ctx, Q)" "kn_ctx a = Some ctx" "ec_grp ctx = grp"
    and b: "ml_ecdh_gen_public lib grp rnd' = (0, d', Q')" "pt_X Q' = mul (nat d') base" "be_value key = pt_X Q'" "length key = 32"
  shows "\<exists>sec. key_neg_make_secret lib rnd'' (Some a) key 32 = Done (OK, a\<lparr>kn_ctx := None, kn_sec_key := sec\<rparr>) \<and>
    ml_mpi_write_binary lib (mul (nat (ec_d ctx) * nat d') base) 32 = (0, sec) \<and>
    length sec = 32 \<and> be_value sec = mul (nat (ec_d ctx) * nat d') base"
proof -
  let ?z = "mul (nat (ec_d ctx) * nat d') base"
  let ?P = "(ec_Qp ctx)\<lparr>pt_Z := 1, pt_X := pt_X Q'\<rparr>"
  have "ml_ecdh_compute_shared lib grp ?P (ec_d ctx) rnd'' = (0, mul (nat (ec_d ctx)) (pt_X ?P))"
    by (rule curve_shared [OF lib(2) grp a(1) b(1)]) simp_all
  moreover have "mul (nat (ec_d ctx)) (mul (nat d') base) = ?z" "0 \<le> ?z" "?z < 256 ^ 32"
    using lib(2) by (simp_all add: curve_documented_def)
  ultimately have z: "ml_ecdh_compute_shared lib grp ?P (ec_d ctx) rnd'' = (0, ?z)" "0 \<le> ?z" "?z < 256 ^ 32"
    using b(2) by simp_all
  obtain sec where sec: "ml_mpi_write_binary lib ?z 32 = (0, sec)" "length sec = 32" "be_value sec = ?z"
    using lib(1) z(2,3) unfolding mpi_documented_def by blast
  have "ml_mpi_lset lib 1 = (0, 1)" "ml_mpi_read_binary lib key = (0, pt_X Q')"
    using lib(1) b(3) by (simp_all add: mpi_documented_def)
  moreover have "c_read key 0 32 = Done key"
    using b(4) by (simp add: segment_def)
  ultimately have "key_neg_make_secret lib rnd'' (Some a) key 32 = Done (OK, a\<lparr>kn_ctx := None, kn_sec_key := sec\<rparr>)"
    using a(2,3) z(1) sec(1) by (simp add: key_neg_make_secret_def del: c_read_ok)
  with sec show ?thesis
    by blast
qed

text \<open>C40: two sides that make their keys and exchange the packets with the public ones have the same
  secret key, the product of the base point with both private numbers; the contexts are freed.\<close>

theorem key_agreement:
  assumes "mpi_documented lib" "curve_documented lib mul base"
    "key_neg_make_public lib rnda (Some na) = (OK, Some a)" "key_neg_make_public lib rndb (Some nb) = (OK, Some b)"
    "40 \<le> length buf" "length k0 = 32"
  shows "\<exists>pa pb ka kb a' b'. key_neg_pkt (Some j) ida (kn_pub_key a) 32 buf = Done (40, pa) \<and> key_neg_pkt_validate (take 40 pa @ ra) (Some k0) 32 = Done (OK, Some ka) \<and>
    key_neg_pkt (Some j) idb (kn_pub_key b) 32 buf = Done (40, pb) \<and> key_neg_pkt_validate (take 40 pb @ rb) (Some k0) 32 = Done (OK, Some kb) \<and>
    key_neg_make_secret lib rnda' (Some a) kb 32 = Done (OK, a') \<and> key_neg_make_secret lib rndb' (Some b) ka 32 = Done (OK, b') \<and>
    kn_sec_key a' = kn_sec_key b' \<and> length (kn_sec_key a') = 32 \<and>
    be_value (kn_sec_key a') = mul (nat (ec_d (the (kn_ctx a))) * nat (ec_d (the (kn_ctx b)))) base \<and>
    kn_ctx a' = None \<and> kn_ctx b' = None"
proof -
  from make_public_OK [OF assms(1-3)] obtain grp ca Qa where a: "ml_ecp_group_load lib MBEDTLS_ECP_DP_CURVE25519 = (0, grp)"
    "ml_ecdh_gen_public lib grp rnda = (0, ec_d ca, Qa)" "kn_ctx a = Some ca" "ec_grp ca = grp" "pt_X Qa = mul (nat (ec_d ca)) base"
    "length (kn_pub_key a) = 32" "be_value (kn_pub_key a) = pt_X Qa"
    by blast
  from make_public_OK [OF assms(1,2,4)] obtain grp' cb Qb where b': "ml_ecp_group_load lib MBEDTLS_ECP_DP_CURVE25519 = (0, grp')"
    "ml_ecdh_gen_public lib grp' rndb = (0, ec_d cb, Qb)" "kn_ctx b = Some cb" "ec_grp cb = grp'" "pt_X Qb = mul (nat (ec_d cb)) base"
    "length (kn_pub_key b) = 32" "be_value (kn_pub_key b) = pt_X Qb"
    by blast
  have "grp' = grp"
    using a(1) b'(1) by simp
  note b = b' [unfolded this]
  obtain pa where pa: "key_neg_pkt (Some j) ida (kn_pub_key a) 32 buf = Done (40, pa)" "key_neg_pkt_validate (take 40 pa @ ra) (Some k0) 32 = Done (OK, Some (kn_pub_key a))"
    by (rule key_packet [OF a(6) assms(5,6), of j ida], rule that, assumption, blast)
  obtain pb where pb: "key_neg_pkt (Some j) idb (kn_pub_key b) 32 buf = Done (40, pb)" "key_neg_pkt_validate (take 40 pb @ rb) (Some k0) 32 = Done (OK, Some (kn_pub_key b))"
    by (rule key_packet [OF b(6) assms(5,6), of j idb], rule that, assumption, blast)
  from make_secret_OK [OF assms(1,2) a(1,2,3,4) b(2,5,7,6), of rnda'] obtain sa where
    sa: "key_neg_make_secret lib rnda' (Some a) (kn_pub_key b) 32 = Done (OK, a\<lparr>kn_ctx := None, kn_sec_key := sa\<rparr>)"
    "ml_mpi_write_binary lib (mul (nat (ec_d ca) * nat (ec_d cb)) base) 32 = (0, sa)" "length sa = 32" "be_value sa = mul (nat (ec_d ca) * nat (ec_d cb)) base"
    by blast
  from make_secret_OK [OF assms(1,2) b(1,2,3,4) a(2,5,7,6), of rndb'] obtain sb where
    sb: "key_neg_make_secret lib rndb' (Some b) (kn_pub_key a) 32 = Done (OK, b\<lparr>kn_ctx := None, kn_sec_key := sb\<rparr>)"
    "ml_mpi_write_binary lib (mul (nat (ec_d cb) * nat (ec_d ca)) base) 32 = (0, sb)"
    by blast
  have "sb = sa"
    using sa(2) sb(2) by (simp add: mult.commute)
  then show ?thesis
    using pa pb sa(1,3,4) sb(1) a(3) b(3) by (intro exI conjI) (assumption | simp)+
qed

text \<open>The witness: powers modulo a prime in the place of the curve, with private numbers from the generator.\<close>

fun be_digits :: "nat \<Rightarrow> int \<Rightarrow> bytes" where
  "be_digits 0 n = []"
| "be_digits (Suc k) n = be_digits k (n div 256) @ [of_int n]"

lemma be_digits_ok: "length (be_digits k n) = k" "0 \<le> n \<Longrightarrow> n < 256 ^ k \<Longrightarrow> be_value (be_digits k n) = n"
proof -
  show "length (be_digits k n) = k"
    by (induction k arbitrary: n) simp_all
  show "be_value (be_digits k n) = n" if "0 \<le> n" "n < 256 ^ k"
    using that
  proof (induction k arbitrary: n)
    case (Suc k)
    have "n div 256 < 256 ^ k"
      using Suc.prems by (simp add: div_less_iff_less_mult)
    then have "be_value (be_digits k (n div 256)) = n div 256"
      using Suc.IH Suc.prems(1) by simp
    moreover have "uint (of_int n :: byte) = n mod 256"
      by (simp add: uint_word_of_int)
    ultimately show ?case
      by (simp add: be_value_def)
  qed (simp add: be_value_def)
qed

definition example_power :: "nat \<Rightarrow> int \<Rightarrow> int" where
  "example_power a x = x ^ a mod 65521"

definition example_mbedtls :: "unit mbedtls" where
  "example_mbedtls = \<lparr>ml_ecdh_init = \<lparr>ec_grp = (), ec_d = 0, ec_Q = \<lparr>pt_X = 0, pt_Y = 0, pt_Z = 0\<rparr>, ec_Qp = \<lparr>pt_X = 0, pt_Y = 0, pt_Z = 0\<rparr>, ec_z = 0\<rparr>,
     ml_ctr_drbg_seed = (\<lambda>_. 0), ml_ecp_group_load = (\<lambda>_. (0, ())),
     ml_ecdh_gen_public = (\<lambda>_ rnd. (0, uint (rnd 0), \<lparr>pt_X = example_power (unat (rnd 0)) 9, pt_Y = 0, pt_Z = 1\<rparr>)),
     ml_ecdh_compute_shared = (\<lambda>_ P d _. if pt_Z P = 1 then (0, example_power (nat d) (pt_X P)) else (-0x4F80, 0)),
     ml_mpi_lset = (\<lambda>z. (0, z)), ml_mpi_read_binary = (\<lambda>bs. (0, be_value bs)),
     ml_mpi_write_binary = (\<lambda>n len. if n < 256 ^ len then (0, be_digits len n) else (-0x0008, replicate len 0))\<rparr>"

lemma example_mbedtls_documented: "mpi_documented example_mbedtls" "curve_documented example_mbedtls example_power 9"
proof -
  show "mpi_documented example_mbedtls"
    by (simp add: mpi_documented_def example_mbedtls_def be_digits_ok)
  have m: "0 \<le> example_power a x" "example_power a x < 65521" for a x
    by (simp_all add: example_power_def)
  have "example_power a x < 2 ^ 256" for a x
    using m(2) [of a x] by (rule less_trans) simp
  moreover have "example_power a (example_power b x) = example_power (a * b) x" for a b x
    by (simp add: example_power_def power_mod power_mult [symmetric] mult.commute)
  ultimately show "curve_documented example_mbedtls example_power 9"
    using m(1) by (auto simp: curve_documented_def example_mbedtls_def)
qed

theorem key_agreement_witness:
  "\<exists>a b pa pb ka kb a' b'. key_neg_make_public example_mbedtls (\<lambda>_. 3) (Some \<lparr>kn_ctx = None, kn_pub_key = [], kn_sec_key = []\<rparr>) = (OK, Some a) \<and>
    key_neg_make_public example_mbedtls (\<lambda>_. 5) (Some \<lparr>kn_ctx = None, kn_pub_key = [], kn_sec_key = []\<rparr>) = (OK, Some b) \<and>
    key_neg_pkt (Some (\<lambda>_. 0)) 1 (kn_pub_key a) 32 (replicate 64 0) = Done (40, pa) \<and> key_neg_pkt_validate (take 40 pa) (Some (replicate 32 0)) 32 = Done (OK, Some ka) \<and>
    key_neg_pkt (Some (\<lambda>_. 0)) 2 (kn_pub_key b) 32 (replicate 64 0) = Done (40, pb) \<and> key_neg_pkt_validate (take 40 pb) (Some (replicate 32 0)) 32 = Done (OK, Some kb) \<and>
    key_neg_make_secret example_mbedtls (\<lambda>_. 7) (Some a) kb 32 = Done (OK, a') \<and> key_neg_make_secret example_mbedtls (\<lambda>_. 8) (Some b) ka 32 = Done (OK, b') \<and>
    kn_sec_key a' = kn_sec_key b' \<and> be_value (kn_sec_key a') = 9 ^ 15 mod 65521"
proof -
  let ?n = "\<lparr>kn_ctx = None, kn_pub_key = [], kn_sec_key = []\<rparr> :: unit key_neg"
  have "example_power k 9 < 256 ^ 32" for k
    using less_trans [of "example_power k 9" 65521 "256 ^ 32"] by (simp add: example_power_def)
  then have mk: "\<exists>a. key_neg_make_public example_mbedtls rnd (Some ?n) = (OK, Some a) \<and> ec_d (the (kn_ctx a)) = uint (rnd 0)" for rnd
    by (simp add: key_neg_make_public_def example_mbedtls_def)
  obtain a b where ab: "key_neg_make_public example_mbedtls (\<lambda>_. 3) (Some ?n) = (OK, Some a)" "ec_d (the (kn_ctx a)) = 3"
    "key_neg_make_public example_mbedtls (\<lambda>_. 5) (Some ?n) = (OK, Some b)" "ec_d (the (kn_ctx b)) = 5"
    using mk [of "\<lambda>_. 3"] mk [of "\<lambda>_. 5"] by auto
  have "example_power 15 9 = 9 ^ 15 mod 65521"
    by (simp add: example_power_def)
  with key_agreement [OF example_mbedtls_documented ab(1,3), of "replicate 64 0" "replicate 32 0" "\<lambda>_. 0" 1 "[]" 2 "[]" "\<lambda>_. 7" "\<lambda>_. 8"]
  show ?thesis
    unfolding ab(2,4) using ab(1,3) by fastforce
qed

end
