(* ===== verification/NoseDevice.thy ===== *)
theory NoseDevice imports NoseInet begin

text \<open>
  The tun device on Linux (linux/device.c) and on the BSDs (bsd/device.c), and the configuration of its
  addresses (net\_config.c).  What the system calls return is an argument, by the number of the
  attempt; the open descriptors are passed along.
\<close>

section \<open>Names\<close>

text \<open>\<open>sprintf(a, "tun%d", n)\<close> for the numbers that occur, without the terminator.\<close>

definition tun_name :: "nat \<Rightarrow> bytes" where
  "tun_name n = [116, 117, 110] @ octet_text (of_nat n)"

section \<open>Linux\<close>

text \<open>
  Opening the device: each attempt sets a name with \<open>TUNSETIFF\<close>, whose result is only logged, and makes
  the device persistent.  \<open>persist\<close> gives the results of the second calls, \<open>n\<close> the number of the next name.
  The results are the number after the last attempt and the name, if one was taken.
\<close>

function tun_attempts :: "(nat \<Rightarrow> int) \<Rightarrow> nat \<Rightarrow> nat \<times> bytes option" where
  "tun_attempts persist n =
     (if 0 \<le> persist n then (n + 1, Some (tun_name n))
      else if n + 1 \<le> 255 then tun_attempts persist (n + 1) else (n + 1, None))"
  by pat_completeness auto
termination
  by (relation "measure (\<lambda>(persist, n). 255 - n)") auto

declare tun_attempts.simps [simp del]

definition utun_open_linux :: "int \<Rightarrow> (nat \<Rightarrow> int) \<Rightarrow> bytes option \<Rightarrow> int list \<Rightarrow> (int \<times> bytes option \<times> int list) outcome" where
  "utun_open_linux fd persist device_name fds =
     (if fd < 0 then Done (fd, device_name, fds)
      else let fds = fd # fds in
        case device_name of
          None \<Rightarrow> Done (C_FAILED, None, fds)
        | Some a \<Rightarrow>
            if a = [] then Undefined
            else if hd a = 0 then Done (C_FAILED, Some a, fds)
            else let (n, name) = tun_attempts persist 0 in
              bindO (case name of None \<Rightarrow> Done a | Some s \<Rightarrow> c_memcpy a 0 (s @ [0]) (length s + 1)) (\<lambda>a.
              if n = 256 then Done (C_ERROR, Some a, fds) else Done (fd, Some a, fds)))"

definition utun_read_linux :: "(int + bytes) \<Rightarrow> bytes \<Rightarrow> (int \<times> bytes) outcome" where
  "utun_read_linux got buffer = (case got of
     Inl err \<Rightarrow> Done (err, buffer)
   | Inr d \<Rightarrow> let n = min 1518 (length d) in bindO (c_memcpy buffer 0 d n) (\<lambda>buffer. Done (int n, buffer)))"

text \<open>What is handed to \<open>write\<close>.\<close>

definition utun_write :: "bytes \<Rightarrow> int \<Rightarrow> bytes outcome" where
  "utun_write buffer len = c_read buffer 0 (as_size len)"

definition utun_close_linux :: "int \<Rightarrow> int \<Rightarrow> int \<Rightarrow> int list \<Rightarrow> int \<times> int list" where
  "utun_close_linux fd setiff setpersist fds =
     (if setiff \<noteq> 0 then (C_ERROR, remove1 fd fds)
      else if setpersist \<noteq> 0 then (C_ERROR, remove1 fd fds)
      else (OK, remove1 fd fds))"

section \<open>The BSDs\<close>

text \<open>The attempts open /dev/ with the given name first, then with \<open>tun1\<close>, \<open>tun2\<close> and so on; \<open>opens\<close> gives the descriptors.\<close>

function dev_attempts :: "(nat \<Rightarrow> int) \<Rightarrow> nat \<Rightarrow> bytes option \<Rightarrow> int \<times> nat \<times> bytes option" where
  "dev_attempts opens n name =
     (if 0 < opens (n - 1) then (opens (n - 1), n, name)
      else if n + 1 \<le> 255 then dev_attempts opens (n + 1) (Some (tun_name n)) else (opens (n - 1), n + 1, Some (tun_name n)))"
  by pat_completeness auto
termination
  by (relation "measure (\<lambda>(opens, n, name). 255 - n)") auto

declare dev_attempts.simps [simp del]

definition utun_open_bsd :: "(nat \<Rightarrow> int) \<Rightarrow> bytes \<Rightarrow> (int \<times> bytes) outcome" where
  "utun_open_bsd opens device_name =
     bindO (c_string_length device_name) (\<lambda>l.
     if 20 < l + 6 then Undefined
     else let (fd, n, name) = dev_attempts opens 1 None in
       bindO (case name of None \<Rightarrow> Done device_name | Some s \<Rightarrow> c_memcpy device_name 0 (s @ [0]) (length s + 1)) (\<lambda>name.
       if 255 < n then Done (C_FAILED, name) else Done (fd, name)))"

definition utun_read_bsd :: "(int + bytes) \<Rightarrow> bytes \<Rightarrow> (int \<times> bytes) outcome" where
  "utun_read_bsd got buffer = (case got of
     Inl err \<Rightarrow> Done (err, buffer)
   | Inr d \<Rightarrow> let n = min 10240 (length d) in bindO (c_memcpy buffer 0 d n) (\<lambda>buffer. Done (int n, buffer)))"

definition utun_close_bsd :: "int \<Rightarrow> int \<Rightarrow> int list \<Rightarrow> int \<times> int list" where
  "utun_close_bsd fd close_ret fds = (close_ret, remove1 fd fds)"

section \<open>The addresses of the device\<close>

text \<open>The command for the shell: ifconfig, the device, its address, pointopoint, the other address, up.\<close>

definition ifconfig_text :: bytes where
  "ifconfig_text = [105, 102, 99, 111, 110, 102, 105, 103, 32]"

definition pointopoint_text :: bytes where
  "pointopoint_text = [32, 112, 111, 105, 110, 116, 111, 112, 111, 105, 110, 116, 32]"

definition set_ip_configure :: "(bytes \<Rightarrow> int) \<Rightarrow> bytes \<Rightarrow> bytes \<Rightarrow> bytes \<Rightarrow> int outcome" where
  "set_ip_configure system interface src_addr dst_addr =
     bindO (c_string_length interface) (\<lambda>_. bindO (c_string_length src_addr) (\<lambda>_. bindO (c_string_length dst_addr) (\<lambda>_.
     bindO (c_memcpy (replicate 100 0) 0
         (ifconfig_text @ c_str interface @ [32] @ c_str src_addr @ pointopoint_text @ c_str dst_addr @ [32, 117, 112, 0])
         (length (ifconfig_text @ c_str interface @ [32] @ c_str src_addr @ pointopoint_text @ c_str dst_addr @ [32, 117, 112, 0]))) (\<lambda>command_line.
     if system (c_str command_line) < 0 then Done C_ERROR else Done OK))))"

section \<open>Properties\<close>

lemma tun_attempts_first:
  assumes "n \<le> k" "k \<le> 255" "0 \<le> persist k" "\<forall>j. n \<le> j \<longrightarrow> j < k \<longrightarrow> persist j < 0"
  shows "tun_attempts persist n = (k + 1, Some (tun_name k))"
  using assms
proof (induction "k - n" arbitrary: n)
  case 0
  then show ?case
    by (simp add: tun_attempts.simps [of persist n])
next
  case (Suc d)
  then have "n < k"
    by simp
  then have "persist n < 0"
    using Suc.prems(4) by simp
  moreover have "tun_attempts persist (n + 1) = (k + 1, Some (tun_name k))"
    using Suc.hyps(2) Suc.prems \<open>n < k\<close> by (intro Suc.hyps(1)) auto
  ultimately show ?case
    using \<open>n < k\<close> Suc.prems(2) by (simp add: tun_attempts.simps [of persist n])
qed

lemma tun_attempts_none:
  assumes "n \<le> 255" "\<forall>j. n \<le> j \<longrightarrow> j \<le> 255 \<longrightarrow> persist j < 0"
  shows "tun_attempts persist n = (256, None)"
  using assms
proof (induction "255 - n" arbitrary: n)
  case 0
  then show ?case
    by (subst tun_attempts.simps) simp
next
  case (Suc d)
  then have "persist n < 0" "tun_attempts persist (n + 1) = (256, None)"
    by (auto intro: Suc.hyps(1))
  then show ?case
    using Suc.hyps(2) Suc.prems(1) by (auto simp: tun_attempts.simps [of persist n])
qed

text \<open>Of the 256 names that are tried, the first that can be taken becomes the device's, but when it is the
  last one, the function reports an error although the device is there and its name is written.\<close>

theorem last_tun_name_is_an_error:
  assumes "0 \<le> fd" "length a = 20" "hd a \<noteq> 0"
  shows "utun_open_linux fd persist (Some a) fds =
    (if \<exists>k \<le> 255. 0 \<le> persist k
     then let k = (LEAST k. 0 \<le> persist k) in Done (if k = 255 then C_ERROR else fd, Some (tun_name k @ 0 # drop (length (tun_name k) + 1) a), fd # fds)
     else Done (C_ERROR, Some a, fd # fds))"
proof (cases "\<exists>k \<le> 255. 0 \<le> persist k")
  case True
  then obtain k0 where k0: "k0 \<le> 255" "0 \<le> persist k0"
    by blast
  define k where "k = (LEAST k. 0 \<le> persist k)"
  have k: "k \<le> 255" "0 \<le> persist k" "j < k \<Longrightarrow> persist j < 0" for j
    unfolding k_def using k0 Least_le [of "\<lambda>k. 0 \<le> persist k" k0] LeastI [of "\<lambda>k. 0 \<le> persist k" k0] not_less_Least [of j "\<lambda>k. 0 \<le> persist k"] by auto
  have t: "tun_attempts persist 0 = (k + 1, Some (tun_name k))"
    by (rule tun_attempts_first) (use k in auto)
  have "length (tun_name k) \<le> 6"
    using octet_text_facts(3) [of "of_nat k"] by (simp add: tun_name_def)
  then have m: "c_memcpy a 0 (tun_name k @ [0]) (length (tun_name k) + 1) = Done (tun_name k @ 0 # drop (length (tun_name k) + 1) a)"
    using assms(2) by (simp add: splice_at_def)
  have "a \<noteq> []"
    using assms(2) by auto
  then show ?thesis
    using True assms(1,3) m by (simp add: utun_open_linux_def t Let_def k_def [symmetric] del: c_memcpy_ok)
next
  case False
  have t: "tun_attempts persist 0 = (256, None)"
    by (rule tun_attempts_none) (use False not_le in blast)+
  have "a \<noteq> []"
    using assms(2) by auto
  then show ?thesis
    unfolding if_not_P [OF False] using assms(1,3) by (simp add: utun_open_linux_def t)
qed

theorem last_tun_name_is_an_error_witness:
  "utun_open_linux 7 (\<lambda>n. if n < 255 then -1 else 0) (Some ([116, 117, 110, 48] @ replicate 16 0)) [] =
    Done (-1, Some (tun_name 255 @ 0 # drop (length (tun_name 255) + 1) ([116, 117, 110, 48] @ replicate 16 0)), [7])"
proof -
  let ?persist = "\<lambda>n :: nat. if n < 255 then -1 else 0 :: int"
  have "(LEAST k. 0 \<le> ?persist k) = 255"
    by (rule Least_equality) (auto simp: not_less [symmetric])
  moreover have "\<exists>k \<le> 255. 0 \<le> ?persist k"
    by auto
  ultimately show ?thesis
    using last_tun_name_is_an_error [of 7 "[116, 117, 110, 48] @ replicate 16 0" ?persist "[]"] by (simp del: replicate.simps)
qed

end
