(* ===== verification/NosePeerRun.thy ===== *)
theory NosePeerRun imports NosePeer begin

text \<open>
  Runs of the peer: the state machine of its timers.  While it looks for the other peer only the search
  timer is armed; then either the greeting timer is armed and the other peer has not answered, or it
  has answered and the heartbeat timer is armed.
\<close>

section \<open>Calls that end\<close>

definition ends :: "('a \<Rightarrow> bool) \<Rightarrow> 'a outcome \<Rightarrow> bool" where
  "ends P r \<longleftrightarrow> (case r of Done x \<Rightarrow> P x | Blocked \<Rightarrow> False | Undefined \<Rightarrow> False)"

lemma ends_simps [simp]: "ends P (Done x) = P x" "\<not> ends P Blocked" "\<not> ends P Undefined"
  by (simp_all add: ends_def)

lemma ends_bind: "ends Q m \<Longrightarrow> (\<And>x. m = Done x \<Longrightarrow> Q x \<Longrightarrow> ends P (k x)) \<Longrightarrow> ends P (bindO m k)"
  by (cases m) simp_all

lemma ends_Done: "ends P r \<Longrightarrow> \<exists>x. r = Done x \<and> P x"
  by (cases r) simp_all

lemma ends_mono: "ends Q m \<Longrightarrow> (\<And>x. Q x \<Longrightarrow> P x) \<Longrightarrow> ends P m"
  by (cases m) simp_all

section \<open>The invariant\<close>

text \<open>\<open>a\<close> is the address that the peer has for the other peer before it is found.\<close>

definition peer_data_ok :: "peer_world \<Rightarrow> bool" where
  "peer_data_ok w \<longleftrightarrow> \<not> pw_locked w \<and> bucket_ok (pr_peer (pw_peer w)) \<and> 20 \<le> length (pr_peer_id (pw_peer w)) \<and>
     20 \<le> length (pr_mstp_id (pw_peer w)) \<and> 32 \<le> length (pr_key (pw_peer w)) \<and> 0 \<le> pr_syn_counts (pw_peer w)"

definition seeking :: "sockaddr_in \<Rightarrow> peer_world \<Rightarrow> bool" where
  "seeking a w \<longleftrightarrow> pw_fp w \<noteq> None \<and> pw_hello w = None \<and> pw_hb w = None \<and> pr_helloed (pw_peer w) = 0 \<and>
     pr_remote_peer_addr (pw_peer w) = a \<and> bucket_items (pr_peer (pw_peer w)) = []"

definition greeting :: "peer_world \<Rightarrow> bool" where
  "greeting w \<longleftrightarrow> pw_fp w = None \<and> pw_hello w \<noteq> None \<and> pw_hb w = None \<and> pr_helloed (pw_peer w) = 0"

definition connected :: "peer_world \<Rightarrow> bool" where
  "connected w \<longleftrightarrow> pw_fp w = None \<and> pw_hb w \<noteq> None \<and> pr_helloed (pw_peer w) \<noteq> 0"

definition peer_ok :: "sockaddr_in \<Rightarrow> peer_world \<Rightarrow> bool" where
  "peer_ok a w \<longleftrightarrow> peer_data_ok w \<and> (seeking a w \<or> greeting w \<or> connected w)"

lemmas peer_phases = seeking_def greeting_def connected_def

text \<open>
  What the model leaves to the environment: the sizes of the local arrays, zlib and AES that stay
  inside the room they are given, no datagram from the address \<open>a\<close>, and no packet whose length field is
  below 2 or whose decompressed payload may be longer than the packet's buffer.
\<close>

definition payload_fits :: "bytes \<Rightarrow> bool" where
  "payload_fits d \<longleftrightarrow> (let len = unat (htons (pcp_len (PCP_of d))) in
     4 \<le> length d \<longrightarrow> pcp_flags (PCP_of d) = F_PAYLOAD \<longrightarrow> len + 4 \<le> length d \<longrightarrow> 2 \<le> len \<and> (len - 2) * 4 \<le> BIGBUF)"

definition env_ok :: "pkt_env \<Rightarrow> bool" where
  "env_ok env \<longleftrightarrow> 4 \<le> length (pe_buf env) \<and> (\<forall>room x. length (snd (pe_uncompress env room x)) \<le> room) \<and>
     (\<forall>k iv x. length (snd (pe_aes env k iv x)) \<le> length x)"

fun peer_event_ok :: "sockaddr_in \<Rightarrow> peer_event \<Rightarrow> bool" where
  "peer_event_ok a (PeerDatagram env r) \<longleftrightarrow> env_ok env \<and> (case r of Inl err \<Rightarrow> True | Inr (d, src) \<Rightarrow> src \<noteq> a \<and> payload_fits (take BIGBUF d))"
| "peer_event_ok a (FindTimer c uh mem item now buf) \<longleftrightarrow> length buf = BUFSIZ \<and> item_arrays item"
| "peer_event_ok a (HelloTimer s mem buf) \<longleftrightarrow> length buf = BUFSIZ"
| "peer_event_ok a (HeartbeatTimer s mem buf) \<longleftrightarrow> length buf = BUFSIZ"

section \<open>Every event keeps it\<close>

lemma PCP_packets_end:
  assumes "4 \<le> length b"
  shows "ends (\<lambda>_. True) (PCP_hello_syn mem b)" "ends (\<lambda>_. True) (PCP_hello_ack mem b)"
    "ends (\<lambda>_. True) (PCP_hb_syn mem b)" "ends (\<lambda>_. True) (PCP_hb_ack mem b)"
  using assms by (cases mem; simp add: PCP_hello_syn_def PCP_hello_ack_def PCP_hb_syn_def PCP_hb_ack_def)+

lemma hello_ends:
  assumes "peer_data_ok w" "greeting w \<or> connected w" "4 \<le> length buf"
  shows "ends (\<lambda>(out, w'). peer_ok a w') (udp_holing_hello s mem buf (w\<lparr>pw_hello := None\<rparr>))"
proof -
  let ?w = "w\<lparr>pw_hello := None\<rparr>"
  have d: "peer_data_ok ?w" "\<And>t. peer_data_ok (?w\<lparr>pw_hello := t\<rparr>)"
    using assms(1) by (simp_all add: peer_data_ok_def)
  show ?thesis
  proof (cases "pr_helloed (pw_peer w) = 0")
    case False
    then show ?thesis
      using assms(2) d by (auto simp: udp_holing_hello_def peer_ok_def peer_phases)
  next
    case True
    then have "peer_ok a (?w\<lparr>pw_hello := Some (pw_hello_tv ?w)\<rparr>)"
      using assms(2) d by (auto simp: peer_ok_def peer_phases)
    then have "ends (\<lambda>(out, w'). peer_ok a w') (bindO (PCP_hello_syn mem buf) (\<lambda>(len, buf).
        let again = ?w\<lparr>pw_hello := Some (pw_hello_tv ?w)\<rparr> in
        if len = C_ERROR then Done ([], again)
        else if s < 0 then Done ([], again)
        else Done ([Send (pr_remote_peer_addr (pw_peer ?w)) (take (nat len) buf)], again)))"
      by (intro ends_bind [OF PCP_packets_end(1) [OF assms(3)]]) (simp add: case_prod_beta Let_def)
    then show ?thesis
      using True by (simp add: udp_holing_hello_def Let_def)
  qed
qed

lemma heartbeat_ends:
  assumes "peer_data_ok w" "connected w" "4 \<le> length buf"
  shows "ends (\<lambda>(out, w'). peer_ok a w') (peer_heartbeat s mem buf (w\<lparr>pw_hb := None\<rparr>))"
proof (cases "pr_syn_counts (pw_peer w) = 0")
  case True
  then show ?thesis
    using assms(1,2) by (simp add: peer_heartbeat_def peer_ok_def peer_phases peer_data_ok_def)
next
  case False
  let ?w = "w\<lparr>pw_hb := None\<rparr>"
  have "peer_ok a (?w\<lparr>pw_hb := Some t\<rparr>)" "peer_ok a (?w\<lparr>pw_peer := (pw_peer ?w)\<lparr>pr_syn_counts := pr_syn_counts (pw_peer ?w) - 1\<rparr>, pw_hb := Some t\<rparr>)" for t
    using assms(1,2) False by (simp_all add: peer_ok_def peer_phases peer_data_ok_def)
  then show ?thesis
    using False by (auto simp: peer_heartbeat_def Let_def case_prod_beta intro!: ends_bind [OF PCP_packets_end(3) [OF assms(3)]])
qed

lemma unat_lt_65536: "unat (k :: u16) < 65536"
proof -
  have "unat k < 2 ^ LENGTH(16)"
    by (rule unsigned_less)
  then show ?thesis
    by simp
qed

lemma payload_ends:
  assumes "env_ok env" "payload_fits d" "4 \<le> length d" "length d \<le> BIGBUF" "pcp_flags (PCP_of d) = F_PAYLOAD" "32 \<le> length (pr_key (pw_peer w))"
  shows "ends (\<lambda>_. True) (payload_received (pe_uncompress env) (pe_aes env) (pe_stack env) (d @ replicate (BIGBUF - length d) 0) (int (length d)) w)"
proof -
  let ?buf = "d @ replicate (BIGBUF - length d) 0"
  have p: "PCP_of ?buf = PCP_of d"
    using assms(3) by (auto simp: PCP_of_def of_host16_def nth_append)
  have lb: "length ?buf = BIGBUF"
    using assms(4) by simp
  have sz: "as_size (int (length d)) = length d"
    using assms(4) by (simp add: as_size_nat BIGBUF_def BUFSIZ_def)
  define n where "n = unat (htons (pcp_len (PCP_of d)))"
  show ?thesis
  proof (cases "length d < n + 4")
    case True
    then show ?thesis
      by (simp add: payload_received_def p sz n_def [symmetric])
  next
    case False
    then have n: "2 \<le> n" "(n - 2) * 4 \<le> BIGBUF"
      using assms(2,3,5) by (auto simp: payload_fits_def Let_def n_def)
    obtain packed where rd: "c_read ?buf 6 (n - 2) = Done packed"
      using False n(1) lb assms(4) by (simp add: c_read_def)
    obtain z x where u: "pe_uncompress env ((n - 2) * 4) packed = (z, x)"
      by (cases "pe_uncompress env ((n - 2) * 4) packed")
    have x: "length x \<le> BIGBUF"
      using assms(1) n(2) u unfolding env_ok_def by (metis le_trans snd_conv)
    define buf' where "buf' = x @ drop (length x) ?buf"
    have m: "c_memcpy ?buf 0 x (length x) = Done buf'" "length buf' = BIGBUF"
      using x lb by (simp_all add: splice_at_def buf'_def)
    define plain where "plain = map (pe_stack env) [0..<BIGBUF]"
    have lp: "length plain = BIGBUF"
      by (simp add: plain_def)
    have "ends (\<lambda>(ret, t). length t = BIGBUF) (decrypt_by_aes_256 (pe_aes env) buf' (int (length x)) plain (pr_key (pw_peer w)))"
    proof -
      obtain z' y where y: "pe_aes env (take 32 (pr_key (pw_peer w))) aes_iv (take (length x) buf') = (z', y)"
        by (cases "pe_aes env (take 32 (pr_key (pw_peer w))) aes_iv (take (length x) buf')")
      have "length (snd (pe_aes env (take 32 (pr_key (pw_peer w))) aes_iv (take (length x) buf'))) \<le> length (take (length x) buf')"
        using assms(1) unfolding env_ok_def by blast
      then have "length y \<le> BIGBUF"
        using y m(2) x by simp
      then show ?thesis
        using assms(6) lp m(2) x y by (simp add: decrypt_by_aes_256_def segment_def splice_at_def)
    qed
    then obtain ret t where t: "decrypt_by_aes_256 (pe_aes env) buf' (int (length x)) plain (pr_key (pw_peer w)) = Done (ret, t)" "length t = BIGBUF"
      by (auto dest!: ends_Done)
    have "unat (k :: u16) \<le> BIGBUF" for k
      using unat_lt_65536 [of k] by (simp add: BIGBUF_def BUFSIZ_def)
    then have "\<exists>r. c_read t 0 (unat (k :: u16)) = Done r" for k
      using t(2) by (simp add: c_read_def)
    then obtain r where "c_read t 0 (unat (htons (of_host16 (drop 4 ?buf)))) = Done r"
      by blast
    then show ?thesis
      using False n(1) rd u m(1) t(1)
      by (simp add: payload_received_def p sz n_def [symmetric] plain_def [symmetric] Let_def case_prod_beta del: c_memcpy_ok c_read_ok drop_append)
  qed
qed

lemma datagram_ends:
  assumes "peer_ok a w" "peer_event_ok a (PeerDatagram env r)"
  shows "ends (\<lambda>(out, w'). peer_ok a w') (peer_udp_recv_cb env r w)"
proof (cases r)
  case (Inl err)
  then show ?thesis
    using assms(1) by (simp add: peer_udp_recv_cb_def)
next
  case (Inr ds)
  obtain d src where r: "r = Inr (d, src)"
    using Inr by (cases ds) simp
  have e: "env_ok env" "src \<noteq> a" "payload_fits (take BIGBUF d)"
    using assms(2) r by simp_all
  define x where "x = take BIGBUF d"
  have x: "length x \<le> BIGBUF" "payload_fits x"
    using e(3) by (simp_all add: x_def)
  define buf where "buf = x @ replicate (BIGBUF - length x) 0"
  have rcv: "receive_into (replicate BIGBUF 0) BIGBUF d = Done (int (length x), buf)"
    by (simp add: receive_into_def Let_def splice_at_def x_def buf_def min_def)
  have ok: "peer_data_ok w" "4 \<le> length (pe_buf env)" "32 \<le> length (pr_key (pw_peer w))"
    using assms(1) e(1) by (simp_all add: peer_ok_def env_ok_def peer_data_ok_def)
  have "ends (\<lambda>(out, w'). peer_ok a w') (recved_pkt_unpack env buf (int (length x)) w)" if src: "src = pr_remote_peer_addr (pw_peer w)"
  proof -
    have ph: "greeting w \<or> connected w"
      using assms(1) e(2) src by (auto simp: peer_ok_def seeking_def)
    have sz: "as_size (int (length x)) = length x"
      using x(1) by (simp add: as_size_nat BIGBUF_def BUFSIZ_def)
    have pcp: "PCP_of buf = PCP_of x" if "4 \<le> length x"
      using that by (auto simp: buf_def PCP_of_def of_host16_def nth_append)
    have ack: "ends (\<lambda>(out, w'). peer_ok a w') (bindO r (\<lambda>(len, b). if len = C_ERROR then Done ([], w) else Done (snd (sendto_remote_peer (pe_sendto env) (Some b) len w), w)))"
      if "ends (\<lambda>_. True) r" for r
      by (rule ends_bind [OF that]) (simp add: assms(1) case_prod_beta)
    have pl: "ends (\<lambda>(out, w'). peer_ok a w') (bindO (payload_received (pe_uncompress env) (pe_aes env) (pe_stack env) buf (int (length x)) w) (\<lambda>out. Done (out, w)))"
      if "4 \<le> length x" "pcp_flags (PCP_of x) = F_PAYLOAD"
      unfolding buf_def by (rule ends_bind [OF payload_ends [OF e(1) x(2) that(1) x(1) that(2) ok(3)]]) (simp add: assms(1))
    have hello: "ends (\<lambda>(out, w'). peer_ok a w') (if pr_helloed (pw_peer w) \<noteq> 0 then Done ([], w)
              else let (ret, w) = init_tun_device (pe_utun_open env) w in
                if ret \<noteq> OK then Done ([], w)
                else if pe_pthread_create env < 0 then Done ([], w)
                else Done ([], w\<lparr>pw_threads := (if pe_pthread_create env = 0 then Suc (pw_threads w) else pw_threads w),
                       pw_peer := (pw_peer w)\<lparr>pr_helloed := 1\<rparr>, pw_hb_tv := 30, pw_hb := Some (pw_fp_tv w)\<rparr>))"
      using assms(1) ph by (auto simp: init_tun_device_def Let_def peer_ok_def peer_phases peer_data_ok_def C_FAILED_def OK_def)
    have hb: "peer_ok a (w\<lparr>pw_peer := (pw_peer w)\<lparr>pr_syn_counts := pr_syn_counts (pw_peer w) + 1\<rparr>\<rparr>)"
      using assms(1) by (auto simp: peer_ok_def peer_phases peer_data_ok_def)
    note PCP = ack [OF PCP_packets_end(2) [OF ok(2)]] ack [OF PCP_packets_end(4) [OF ok(2)]]
    show ?thesis
      unfolding recved_pkt_unpack_def Let_def sz
      using PCP pl hb hello [unfolded Let_def] assms(1) pcp by auto
  qed
  then show ?thesis
    using assms(1) r rcv by (simp add: peer_udp_recv_cb_def)
qed

lemma find_ends:
  assumes "peer_data_ok w" "seeking a w" "peer_event_ok a (FindTimer c uh mem item now buf)"
  shows "ends (\<lambda>(out, w'). peer_ok a w') (find_remote_peer c uh mem item now buf (w\<lparr>pw_fp := None\<rparr>))"
proof -
  let ?w = "w\<lparr>pw_fp := None\<rparr>"
  let ?pr = "pw_peer w"
  have e: "length buf = BUFSIZ" "item_arrays item"
    using assms(3) by simp_all
  have ok: "20 \<le> length (pr_peer_id ?pr)" "20 \<le> length (pr_mstp_id ?pr)" "bucket_ok (pr_peer ?pr)" "\<not> pw_locked w" "bucket_items (pr_peer ?pr) = []"
    using assms(1,2) by (simp_all add: peer_data_ok_def seeking_def)
  have again: "peer_ok a (?w\<lparr>pw_fds := fds, pw_fp := Some t\<rparr>)" "peer_ok a (?w\<lparr>pw_fp := Some t\<rparr>)"
    "peer_ok a (?w\<lparr>pw_fds := fds, pw_locked := False, pw_fp := Some t\<rparr>)" for fds t
    using assms(1,2) by (simp_all add: peer_ok_def seeking_def peer_data_ok_def)
  have req: "ends (\<lambda>(len, b). \<exists>b'. b = Some b' \<and> length b' = BUFSIZ)
      (PMP_find_peer_req_pkt (Some (pr_peer_id ?pr)) (Some (pr_mstp_id ?pr)) (Some (pr_vlan_remote_ipv4 ?pr)) mem (Some buf))"
  proof (cases mem)
    case None
    then show ?thesis
      using e(1) by (simp add: PMP_find_peer_req_pkt_def)
  next
    case (Some junk)
    then show ?thesis
      using find_req_pkt_Done [OF ok(2,1), of buf "pr_vlan_remote_ipv4 ?pr" junk] e(1) ok(1,2)
      by (simp add: BUFSIZ_def find_peer_req_mem find_req_def)
  qed
  have recv: "ends (\<lambda>(len, uh, b'). length b' = BUFSIZ) (recv_udp_pkt c uh b)" if "length b = BUFSIZ" for uh b
  proof (cases "uc_recvfrom c")
    case (Inr ds)
    obtain d src where ds: "ds = (d, src)"
      by (cases ds)
    have "min BUFSIZ (length d) \<le> length b"
      using that by simp
    then obtain b' where "receive_into b BUFSIZ d = Done (int (min BUFSIZ (length d)), b')" "length b' = length b"
      by (rule receive_into_cases)
    then show ?thesis
      using Inr ds that by (simp add: recv_udp_pkt_def)
  qed (use that in \<open>simp add: recv_udp_pkt_def\<close>)
  have found: "ends (\<lambda>(out, w'). peer_ok a w') (bindO (PMP_peer_registry_req_unpack item now (Some (replicate 21 0)) (Some b) len (pw_locked w, pr_peer ?pr)) (\<lambda>(ret, _, lb).
            let keep = (\<lambda>w. w\<lparr>pw_locked := fst lb, pw_peer := ?pr\<lparr>pr_peer := snd lb\<rparr>\<rparr>) in
            if ret \<noteq> OK then Done (out, keep (?w\<lparr>pw_fds := fds'\<rparr>)\<lparr>pw_fp := Some (pw_fp_tv ?w)\<rparr>)
            else let w = keep (?w\<lparr>pw_fds := fds\<rparr>) in
              bindO (get_front_bucket lb) (\<lambda>(p, lb). case p of
                None \<Rightarrow> Done (out, w\<lparr>pw_fp := Some (pw_fp_tv w)\<rparr>)
              | Some i \<Rightarrow> bindO (item_at (snd lb) i) (\<lambda>remote_item.
                  let addr = \<lparr>sin_addr = inet_addr (bi_ipv4 remote_item), sin_port = htons (bi_port remote_item)\<rparr> in
                  Done (out, w\<lparr>pw_peer := (pw_peer w)\<lparr>pr_remote_peer_addr := addr\<rparr>, pw_hello_tv := 1, pw_hello := Some 1\<rparr>)))))"
    if b: "length b = BUFSIZ" for b len fds fds' and out :: "action list"
  proof (cases "as_size len < 56")
    case True
    then show ?thesis
      using again(3) [where fds = fds' and t = "pw_fp_tv w"] ok(4) by (simp add: registry_unpack_short)
  next
    case False
    define rr where "rr = peer_registry_req_of (take 56 b)"
    define it where "it = registered item rr"
    have l: "length (rr_peer_id rr) = 20"
      using b by (simp add: rr_def BUFSIZ_def)
    have it: "item_ok it"
      unfolding it_def by (rule registered_ok(1) [OF e(2) l])
    define bkt where "bkt = append_item now it (pr_peer ?pr)"
    have new: "bucket_ok bkt" "bucket_items bkt = [it\<lparr>bi_join_timestap := now\<rparr>]"
      using append_item_ok [OF ok(3) it, of now] append_item_items [OF ok(3), of now it] ok(5) by (simp_all add: bkt_def MAX_BUCKET_SIZE_def)
    have push: "push_front_bucket now it (False, pr_peer ?pr) = Done (False, bkt)"
      using push_front_cases [OF ok(3) it, of now] ok(5) by (simp add: known_def bkt_def MAX_BUCKET_SIZE_def)
    have u: "PMP_peer_registry_req_unpack item now (Some (replicate 21 0)) (Some b) len (False, pr_peer ?pr) =
        Done (OK, Some (rr_peer_id rr @ [0]), False, bkt)"
      using registry_unpack_Done [OF e(2), of "replicate 21 0" b len now "(False, pr_peer ?pr)"] b False ok(4) push
      by (simp add: BUFSIZ_def it_def rr_def)
    have fr: "get_front_bucket (False, bkt) = Done (Some 0, False, bkt)" "item_at bkt 0 = Done (it\<lparr>bi_join_timestap := now\<rparr>)"
      using get_front_Done [OF new(1)] item_at_ok [OF new(1), of 0] new(2) by simp_all
    show ?thesis
      using assms(1,2) new(1) by (simp add: u fr Let_def peer_ok_def peer_phases peer_data_ok_def)
  qed
  show ?thesis
  proof -
    obtain len b where r: "PMP_find_peer_req_pkt (Some (pr_peer_id ?pr)) (Some (pr_mstp_id ?pr)) (Some (pr_vlan_remote_ipv4 ?pr)) mem (Some buf) =
        Done (len, Some b)" "length b = BUFSIZ"
      using req by (auto dest!: ends_Done)
    obtain ret uh' fds sent where s: "send_udp_pkt c uh (pr_master_peer_ipv4 ?pr) (pr_master_peer_port ?pr) b len (pw_fds w) = (ret, uh', fds, sent)"
      by (rule prod_cases4)
    obtain len' uh'' b' where r': "recv_udp_pkt c uh' b = Done (len', uh'', b')" "length b' = BUFSIZ"
      using recv [OF r(2), of uh'] by (auto dest!: ends_Done)
    show ?thesis
      using again found [OF r'(2), where len = len' and out = "map (\<lambda>(addr, d). Send addr d) sent" and fds' = "remove1 (uh_sockfd uh'') fds" and fds = fds]
      by (simp add: find_remote_peer_def Let_def r(1) s r'(1) cong: if_cong option.case_cong)
  qed
qed

lemma peer_event_ends:
  assumes "peer_ok a w" "peer_enabled e w" "peer_event_ok a e"
  shows "ends (\<lambda>(out, w'). peer_ok a w') (run_peer_event e w)"
proof (cases e)
  case (PeerDatagram env r)
  then show ?thesis
    using datagram_ends [OF assms(1)] assms(3) by simp
next
  case (FindTimer c uh mem item now buf)
  then have "seeking a w" "peer_data_ok w"
    using assms(1,2) by (auto simp: peer_ok_def peer_phases)
  then show ?thesis
    using find_ends [of w a c uh mem item now buf] assms(3) FindTimer by simp
next
  case (HelloTimer s mem buf)
  then have "greeting w \<or> connected w" "peer_data_ok w" "4 \<le> length buf"
    using assms by (auto simp: peer_ok_def peer_phases BUFSIZ_def)
  then show ?thesis
    using hello_ends HelloTimer by simp
next
  case (HeartbeatTimer s mem buf)
  then have "connected w" "peer_data_ok w" "4 \<le> length buf"
    using assms by (auto simp: peer_ok_def peer_phases BUFSIZ_def)
  then show ?thesis
    using heartbeat_ends HeartbeatTimer by simp
qed

lemma peer_steps_ok:
  assumes "peer_steps w events out w'" "peer_ok a w" "\<forall>e \<in> set events. peer_event_ok a e"
  shows "peer_ok a w'"
  using assms
proof (induction rule: peer_steps.induct)
  case (peer_step w events out w' e acts w'')
  then have "peer_ok a w'" "peer_event_ok a e"
    by simp_all
  then have "ends (\<lambda>(out, w'). peer_ok a w') (run_peer_event e w')"
    using peer_event_ends peer_step.hyps(2) by blast
  then show ?case
    using peer_step.hyps(3) by simp
qed simp

lemma registry_peer_world:
  assumes "registry_peer sock setopt calls mem buf w = Done (ret, out, w')"
  obtains fds where "w' = w\<lparr>pw_fds := fds\<rparr>"
proof -
  let ?r = "PMP_peer_registry_req_pkt (Some (pr_mstp_id (pw_peer w))) (Some (pr_peer_id (pw_peer w))) (Some (pr_vlan_local_ipv4 (pw_peer w)))
             (pr_nt (pw_peer w)) mem (Some buf)"
  have "w' = w\<lparr>pw_fds := (if sock < 0 then pw_fds w else sock # pw_fds w)\<rparr>"
    using assms by (cases ?r) (auto simp: registry_peer_def Let_def case_prod_beta split: if_splits)
  then show thesis
    by (rule that)
qed

lemma peer_starts_ok:
  assumes "init_peer fd nt new_id (locked, pr) = Done (OK, locked', pr')" "length (bk_b (pr_peer pr)) = MAX_BUCKET_SIZE"
    "20 \<le> length new_id" "20 \<le> length (pr_mstp_id pr)" "32 \<le> length (pr_key pr)" "\<not> locked"
    "peer_loop_start sock setopt calls mem buf (peer_world_of locked' pr' fds) = Done (OK, out, w)"
  shows "peer_ok (pr_remote_peer_addr pr) w"
proof -
  have pr: "pr' = pr\<lparr>pr_peer := (pr_peer pr)\<lparr>bk_top := -1, bk_visited := 0\<rparr>, pr_helloed := 0, pr_syn_counts := 3, pr_nt := nt, pr_peer_id := new_id\<rparr>" "\<not> locked'"
    using assms(1,6) by (auto simp: init_peer_def init_bucket_def Let_def split: if_splits)
  have b: "bucket_ok (pr_peer pr')" "bucket_items (pr_peer pr') = []"
    using empty_bucket_ok [of "pr_peer pr"] assms(2) by (simp_all add: pr(1))
  obtain fds' where "w = (peer_world_of locked' pr' fds)\<lparr>pw_fds := fds', pw_fp_tv := 5, pw_fp := Some 5\<rparr>"
  proof -
    obtain ret out' w' where r: "registry_peer sock setopt calls mem buf (peer_world_of locked' pr' fds) = Done (ret, out', w')" "ret \<noteq> C_ERROR"
        "w = w'\<lparr>pw_fp_tv := 5, pw_fp := Some 5\<rparr>"
      using assms(7) unfolding peer_loop_start_def
      by (cases "registry_peer sock setopt calls mem buf (peer_world_of locked' pr' fds)") (auto split: if_splits)
    then show thesis
      using registry_peer_world [OF r(1)] that by metis
  qed
  then show ?thesis
    using b pr assms(3-5) by (simp add: peer_ok_def peer_phases peer_data_ok_def peer_world_of_def)
qed

section \<open>Properties\<close>

text \<open>C34: the event loop of a peer that has started and registered never stops: after any sequence of events,
  as long as no datagram comes from the address that stands for the unknown peer and none has a payload
  length below 2 or above the room for it, some timer is armed, the heartbeat runs exactly while the
  other peer has answered, and the handler of every event returns, without blocking at the bucket's
  mutex and without access outside its buffers.\<close>

theorem peer_loop_goes_on:
  assumes "init_peer fd nt new_id (False, pr) = Done (OK, locked, pr')" "length (bk_b (pr_peer pr)) = MAX_BUCKET_SIZE"
    "20 \<le> length new_id" "20 \<le> length (pr_mstp_id pr)" "32 \<le> length (pr_key pr)"
    "peer_loop_start sock setopt calls mem buf (peer_world_of locked pr' fds) = Done (OK, out, w)"
    "peer_steps w events out' w'" "\<forall>e \<in> set events. peer_event_ok (pr_remote_peer_addr pr) e"
  shows "(pw_fp w' \<noteq> None \<or> pw_hello w' \<noteq> None \<or> pw_hb w' \<noteq> None) \<and> (pr_helloed (pw_peer w') \<noteq> 0 \<longleftrightarrow> pw_hb w' \<noteq> None) \<and>
    (\<forall>e. peer_enabled e w' \<longrightarrow> peer_event_ok (pr_remote_peer_addr pr) e \<longrightarrow> (\<exists>acts w''. run_peer_event e w' = Done (acts, w'')))"
proof -
  have "peer_ok (pr_remote_peer_addr pr) w"
    by (rule peer_starts_ok [OF assms(1-5) _ assms(6)]) simp
  then have ok: "peer_ok (pr_remote_peer_addr pr) w'"
    by (rule peer_steps_ok [OF assms(7) _ assms(8)])
  then have "pw_fp w' \<noteq> None \<or> pw_hello w' \<noteq> None \<or> pw_hb w' \<noteq> None" "pr_helloed (pw_peer w') \<noteq> 0 \<longleftrightarrow> pw_hb w' \<noteq> None"
    by (auto simp: peer_ok_def peer_phases)
  moreover have "\<exists>acts w''. run_peer_event e w' = Done (acts, w'')" if "peer_enabled e w'" "peer_event_ok (pr_remote_peer_addr pr) e" for e
    using ends_Done [OF peer_event_ends [OF ok that]] by auto
  ultimately show ?thesis
    by blast
qed

definition example_registry_calls :: "nat \<Rightarrow> udp_calls" where
  "example_registry_calls k = \<lparr>uc_socket = 4, uc_setsockopt = 0, uc_sendto = 56, uc_recvfrom = Inr ([3, 1], \<lparr>sin_addr = 9, sin_port = 9\<rparr>)\<rparr>"

theorem peer_loop_goes_on_witness:
  "\<exists>locked pr' out w acts w''. init_peer 3 \<lparr>nt_nat_type = 3, nt_port = 7121, nt_ipv4 = replicate 16 0\<rparr> (replicate 21 5) (False, example_peer) = Done (OK, locked, pr') \<and>
     peer_loop_start 4 0 example_registry_calls (Some (\<lambda>_. 0)) (replicate BUFSIZ 0) (peer_world_of locked pr' []) = Done (OK, out, w) \<and>
     peer_steps w [PeerDatagram example_env (Inl (-1))] [] w \<and>
     run_peer_event (FindTimer (example_registry_calls 0) \<lparr>uh_sockfd = 0, uh_in = \<lparr>sin_addr = 0, sin_port = 0\<rparr>\<rparr> (Some (\<lambda>_. 0)) (example_item 0) 5 (replicate BUFSIZ 0)) w = Done (acts, w'')"
proof -
  let ?nt = "\<lparr>nt_nat_type = 3, nt_port = 7121, nt_ipv4 = replicate 16 0\<rparr>"
  define pr' where "pr' = example_peer\<lparr>pr_peer := example_bucket\<lparr>bk_top := -1, bk_visited := 0\<rparr>, pr_helloed := 0, pr_syn_counts := 3, pr_nt := ?nt, pr_peer_id := replicate 21 5\<rparr>"
  have i: "init_peer 3 ?nt (replicate 21 5) (False, example_peer) = Done (OK, False, pr')"
    by (simp add: init_peer_def init_bucket_def Let_def pr'_def example_peer_def)
  have env: "env_ok example_env"
    by (simp add: env_ok_def example_env_def BIGBUF_def BUFSIZ_def stored_zip_def plain_cipher_def)
  have "\<exists>pkt. PMP_peer_registry_req_pkt (Some (pr_mstp_id pr')) (Some (pr_peer_id pr')) (Some (pr_vlan_local_ipv4 pr')) (pr_nt pr') (Some (\<lambda>_. 0)) (Some (replicate BUFSIZ 0)) = Done (56, pkt)"
    using registry_req_pkt_Done [of "pr_mstp_id pr'" "pr_peer_id pr'" "replicate BUFSIZ 0" "pr_vlan_local_ipv4 pr'" "pr_nt pr'" "\<lambda>_. 0"]
    by (simp add: pr'_def example_peer_def BUFSIZ_def)
  then obtain out w where s: "peer_loop_start 4 0 example_registry_calls (Some (\<lambda>_. 0)) (replicate BUFSIZ 0) (peer_world_of False pr' []) = Done (OK, out, w)"
    by (auto simp: peer_loop_start_def registry_peer_def example_registry_calls_def peer_world_of_def eval_nat_numeral Let_def)
  have "peer_steps w ([] @ [PeerDatagram example_env (Inl (-1))]) ([] @ []) w"
    by (rule peer_step [OF peer_start]) (simp_all add: peer_udp_recv_cb_def)
  then have st: "peer_steps w [PeerDatagram example_env (Inl (-1))] [] w"
    by simp
  have fp: "pw_fp w \<noteq> None"
    using s by (cases "registry_peer 4 0 example_registry_calls (Some (\<lambda>_. 0)) (replicate BUFSIZ 0) (peer_world_of False pr' [])")
      (auto simp: peer_loop_start_def split: if_splits)
  let ?e = "FindTimer (example_registry_calls 0) \<lparr>uh_sockfd = 0, uh_in = \<lparr>sin_addr = 0, sin_port = 0\<rparr>\<rparr> (Some (\<lambda>_. 0)) (example_item 0) 5 (replicate BUFSIZ 0)"
  have "item_arrays (example_item 0)"
    by (simp add: item_arrays_def example_item_def)
  then have "peer_enabled ?e w" "peer_event_ok (pr_remote_peer_addr example_peer) ?e"
    using fp by simp_all
  moreover have "\<forall>e. peer_enabled e w \<longrightarrow> peer_event_ok (pr_remote_peer_addr example_peer) e \<longrightarrow> (\<exists>acts w'. run_peer_event e w = Done (acts, w'))"
    using peer_loop_goes_on [OF i _ _ _ _ s st] env by (simp add: example_bucket_def example_peer_def)
  ultimately obtain acts w'' where "run_peer_event ?e w = Done (acts, w'')"
    by blast
  then show ?thesis
    using i s st by blast
qed

text \<open>A payload packet of the other peer whose length field is below 2 makes the peer copy with a length
  that has wrapped around: 4 bytes are enough to take it outside its buffers.\<close>

theorem short_payload_undefined:
  assumes "src = pr_remote_peer_addr (pw_peer w)" "4 + unat (htons (pcp_len (PCP_of d))) \<le> length d" "length d \<le> BIGBUF"
    "pcp_flags (PCP_of d) = F_PAYLOAD" "unat (htons (pcp_len (PCP_of d))) < 2"
  shows "peer_udp_recv_cb env (Inr (d, src)) w = Undefined"
proof -
  let ?buf = "d @ replicate (BIGBUF - length d) 0"
  have l: "4 \<le> length d"
    using assms(2) by simp
  have "receive_into (replicate BIGBUF 0) BIGBUF d = Done (int (length d), ?buf)"
    using assms(3) by (simp add: receive_into_Done)
  moreover have "PCP_of ?buf = PCP_of d"
    using l by (auto simp: PCP_of_def of_host16_def nth_append)
  moreover have "as_size (int (length d)) = length d"
    using assms(3) by (simp add: as_size_nat BIGBUF_def BUFSIZ_def)
  moreover have "0 < length d"
    using l by linarith
  ultimately show ?thesis
    using assms l by (simp add: peer_udp_recv_cb_def recved_pkt_unpack_def payload_received_def Let_def pcp_consts)
qed

theorem short_payload_undefined_witness:
  "peer_udp_recv_cb example_env (Inr ([0, 5, 0, 0], \<lparr>sin_addr = 1, sin_port = 2\<rparr>)) example_peer_world = Undefined"
proof -
  have "PCP_of [0, 5, 0, 0] = \<lparr>pcp_ver = 0, pcp_flags = 5, pcp_len = 0\<rparr>"
    by (simp add: PCP_of_def of_host16_def)
  moreover have "htons 0 = 0"
    by (simp add: htons_def of_host16_def be16_def)
  ultimately show ?thesis
    by (intro short_payload_undefined)
      (simp_all add: example_peer_world_def peer_world_of_def example_peer_def BIGBUF_def BUFSIZ_def pcp_consts)
qed

text \<open>C35: when the search is answered, the peer takes the address of the other peer out of the answer, whoever sent
  the answer and whatever its type is, and the next timer sends the greeting
  to this address.  The socket of the search stays open.\<close>

theorem found_peer_is_greeted:
  assumes "peer_data_ok w" "seeking a w" "length buf = BUFSIZ" "item_arrays item" "length hbuf = BUFSIZ"
    "0 \<le> uc_socket c" "0 \<le> uc_setsockopt c" "0 \<le> uc_sendto c" "uc_recvfrom c = Inr (d, from_addr)" "56 \<le> length d" "length d \<le> BUFSIZ" "0 \<le> sendto_ret"
  defines "q \<equiv> peer_registry_req_of (take 56 d)"
  shows "\<exists>w' w''. run_peer_event (FindTimer c uh (Some junk) item now buf) w =
      Done ([Send \<lparr>sin_addr = inet_addr (pr_master_peer_ipv4 (pw_peer w)), sin_port = htons (of_int (pr_master_peer_port (pw_peer w)))\<rparr>
          (find_peer_req_bytes (find_req junk (pr_peer_id (pw_peer w)) (pr_mstp_id (pw_peer w)) (pr_vlan_remote_ipv4 (pw_peer w))))], w') \<and>
    greeting w' \<and> pw_fds w' = uc_socket c # pw_fds w \<and> pr_remote_peer_addr (pw_peer w') = \<lparr>sin_addr = rr_ipv4 q, sin_port = rr_port q\<rparr> \<and>
    run_peer_event (HelloTimer sendto_ret (Some junk') hbuf) w' = Done ([Send \<lparr>sin_addr = rr_ipv4 q, sin_port = rr_port q\<rparr> [0, 2, 0, 0]], w'')"
proof -
  let ?pr = "pw_peer w"
  have ok: "20 \<le> length (pr_peer_id ?pr)" "20 \<le> length (pr_mstp_id ?pr)" "bucket_ok (pr_peer ?pr)" "\<not> pw_locked w" "bucket_items (pr_peer ?pr) = []"
    using assms(1,2) by (simp_all add: peer_data_ok_def seeking_def)
  define req where "req = find_peer_req_bytes (find_req junk (pr_peer_id ?pr) (pr_mstp_id ?pr) (pr_vlan_remote_ipv4 ?pr))"
  have lr: "length req = 48"
    using ok(1,2) by (simp add: req_def find_req_def find_peer_req_mem)
  have r: "PMP_find_peer_req_pkt (Some (pr_peer_id ?pr)) (Some (pr_mstp_id ?pr)) (Some (pr_vlan_remote_ipv4 ?pr)) (Some junk) (Some buf) = Done (48, Some (req @ drop 48 buf))"
    using find_req_pkt_Done [OF ok(2,1), of buf] assms(3) by (simp add: BUFSIZ_def req_def)
  define b where "b = d @ drop (length d) (req @ drop 48 buf)"
  have b: "take 56 b = take 56 d" "length b = BUFSIZ"
    using assms(3,10,11) lr by (simp_all add: b_def BUFSIZ_def)
  have rcv: "receive_into (req @ drop 48 buf) BUFSIZ d = Done (int (length d), b)"
    using assms(3,11) lr by (simp add: receive_into_Done b_def BUFSIZ_def)
  define it where "it = registered item q"
  have l: "length (rr_peer_id q) = 20"
    using assms(10) by (simp add: q_def)
  have it: "item_ok it"
    unfolding it_def by (rule registered_ok(1) [OF assms(4) l])
  define bkt where "bkt = append_item now it (pr_peer ?pr)"
  have new: "bucket_ok bkt" "bucket_items bkt = [it\<lparr>bi_join_timestap := now\<rparr>]"
    using append_item_ok [OF ok(3) it, of now] append_item_items [OF ok(3), of now it] ok(5) by (simp_all add: bkt_def MAX_BUCKET_SIZE_def)
  have push: "push_front_bucket now it (False, pr_peer ?pr) = Done (False, bkt)"
    using push_front_cases [OF ok(3) it, of now] ok(5) by (simp add: known_def bkt_def MAX_BUCKET_SIZE_def)
  have sz: "as_size (int (length d)) = length d" "as_size 48 = 48"
    using assms(11) by (simp_all add: as_size_nat BUFSIZ_def)
  have u: "PMP_peer_registry_req_unpack item now (Some (replicate 21 0)) (Some b) (int (length d)) (False, pr_peer ?pr) =
      Done (OK, Some (rr_peer_id q @ [0]), False, bkt)"
    using registry_unpack_Done [OF assms(4), of "replicate 21 0" b "int (length d)" now "(False, pr_peer ?pr)"] b assms(10) sz(1) push
    by (simp add: it_def q_def BUFSIZ_def)
  have fr: "get_front_bucket (False, bkt) = Done (Some 0, False, bkt)" "item_at bkt 0 = Done (it\<lparr>bi_join_timestap := now\<rparr>)"
    using get_front_Done [OF new(1)] item_at_ok [OF new(1), of 0] new(2) by simp_all
  have addr: "inet_addr (bi_ipv4 it) = rr_ipv4 q" "htons (bi_port it) = rr_port q"
    by (simp_all add: it_def registered_def)
  define w' where "w' = w\<lparr>pw_fp := None, pw_fds := uc_socket c # pw_fds w, pw_locked := False,
      pw_peer := ?pr\<lparr>pr_peer := bkt, pr_remote_peer_addr := \<lparr>sin_addr = rr_ipv4 q, sin_port = rr_port q\<rparr>\<rparr>, pw_hello_tv := 1, pw_hello := Some 1\<rparr>"
  have "run_peer_event (FindTimer c uh (Some junk) item now buf) w =
      Done ([Send \<lparr>sin_addr = inet_addr (pr_master_peer_ipv4 ?pr), sin_port = htons (of_int (pr_master_peer_port ?pr))\<rparr> req], w')"
    using assms(6-9) ok(4) lr
    by (simp add: find_remote_peer_def r send_udp_pkt_def recv_udp_pkt_def rcv u fr addr sz Let_def w'_def)
  moreover have "greeting w'" "pw_fds w' = uc_socket c # pw_fds w" "pr_remote_peer_addr (pw_peer w') = \<lparr>sin_addr = rr_ipv4 q, sin_port = rr_port q\<rparr>"
    using assms(2) by (simp_all add: w'_def greeting_def seeking_def)
  moreover have "\<exists>w''. run_peer_event (HelloTimer sendto_ret (Some junk') hbuf) w' = Done ([Send \<lparr>sin_addr = rr_ipv4 q, sin_port = rr_port q\<rparr> [0, 2, 0, 0]], w'')"
    using assms(2,5,12) by (simp add: udp_holing_hello_def PCP_hello_syn_def w'_def seeking_def BUFSIZ_def splice_at_def PCP_bytes_def host16_def pcp_consts)
  ultimately show ?thesis
    unfolding req_def by blast
qed

theorem found_peer_is_greeted_witness:
  "let w = (peer_world_of False (example_peer\<lparr>pr_peer := example_bucket\<lparr>bk_top := -1, bk_visited := 0\<rparr>, pr_helloed := 0\<rparr>) [3])\<lparr>pw_fp := Some 5\<rparr>;
       c = (example_registry_calls 0)\<lparr>uc_recvfrom := Inr (replicate 56 7, \<lparr>sin_addr = 9, sin_port = 9\<rparr>)\<rparr> in
   \<exists>out w' w''. run_peer_event (FindTimer c \<lparr>uh_sockfd = 0, uh_in = \<lparr>sin_addr = 0, sin_port = 0\<rparr>\<rparr> (Some (\<lambda>_. 0)) (example_item 0) 5 (replicate BUFSIZ 0)) w = Done (out, w') \<and>
     pw_fds w' = [4, 3] \<and> run_peer_event (HelloTimer 4 (Some (\<lambda>_. 0)) (replicate BUFSIZ 0)) w' =
       Done ([Send \<lparr>sin_addr = rr_ipv4 (peer_registry_req_of (replicate 56 7)), sin_port = rr_port (peer_registry_req_of (replicate 56 7))\<rparr> [0, 2, 0, 0]], w'')"
proof -
  let ?w = "(peer_world_of False (example_peer\<lparr>pr_peer := example_bucket\<lparr>bk_top := -1, bk_visited := 0\<rparr>, pr_helloed := 0\<rparr>) [3])\<lparr>pw_fp := Some 5\<rparr>"
  let ?c = "(example_registry_calls 0)\<lparr>uc_recvfrom := Inr (replicate 56 7, \<lparr>sin_addr = 9, sin_port = 9\<rparr>)\<rparr>"
  have "bucket_ok (example_bucket\<lparr>bk_top := -1, bk_visited := 0\<rparr>)"
    by (rule empty_bucket_ok(1)) (simp add: example_bucket_def)
  then have w: "peer_data_ok ?w" "seeking \<lparr>sin_addr = 1, sin_port = 2\<rparr> ?w"
    by (simp_all add: peer_data_ok_def seeking_def peer_world_of_def example_peer_def empty_bucket_ok(2))
  have it: "item_arrays (example_item 0)"
    by (simp add: item_arrays_def example_item_def)
  have c: "0 \<le> uc_socket ?c" "0 \<le> uc_setsockopt ?c" "0 \<le> uc_sendto ?c" "uc_recvfrom ?c = Inr (replicate 56 7, \<lparr>sin_addr = 9, sin_port = 9\<rparr>)" "uc_socket ?c = 4"
    by (simp_all add: example_registry_calls_def)
  have fds: "pw_fds ?w = [3]"
    by (simp add: peer_world_of_def)
  have n: "length (replicate BUFSIZ (0 :: byte)) = BUFSIZ" "56 \<le> length (replicate 56 (7 :: byte))" "length (replicate 56 (7 :: byte)) \<le> BUFSIZ" "(0 :: int) \<le> 4" "take 56 (replicate 56 (7 :: byte)) = replicate 56 7"
    by (simp_all add: BUFSIZ_def)
  show ?thesis
    unfolding Let_def
    using found_peer_is_greeted [OF w n(1) it n(1) c(1-4) n(2-4), of "\<lparr>uh_sockfd = 0, uh_in = \<lparr>sin_addr = 0, sin_port = 0\<rparr>\<rparr>" "\<lambda>_. 0" 5 "\<lambda>_. 0"]
    unfolding c(5) fds n(5) by blast
qed

lemma heartbeat_sends:
  assumes "pw_hb w \<noteq> None" "0 < pr_syn_counts (pw_peer w)" "4 \<le> length buf" "0 \<le> s"
  shows "run_peer_event (HeartbeatTimer s (Some junk) buf) w = Done ([Send (pr_remote_peer_addr (pw_peer w)) [0, 4, 0, 0]],
    w\<lparr>pw_hb := Some (pw_hb_tv w), pw_peer := (pw_peer w)\<lparr>pr_syn_counts := pr_syn_counts (pw_peer w) - 1\<rparr>\<rparr>)"
  using assms by (simp add: peer_heartbeat_def PCP_hb_syn_def sendto_remote_peer_def splice_at_def PCP_bytes_def host16_def pcp_consts Let_def)

lemma replicate_snoc: "replicate (Suc n) x = replicate n x @ [x]"
  by (simp add: replicate_append_same)

lemma heartbeats_sent:
  assumes "pw_hb w \<noteq> None" "int n \<le> pr_syn_counts (pw_peer w)" "4 \<le> length buf" "0 \<le> s"
  shows "\<exists>w'. peer_steps w (replicate n (HeartbeatTimer s (Some junk) buf)) (replicate n (Send (pr_remote_peer_addr (pw_peer w)) [0, 4, 0, 0])) w' \<and>
    pw_hb w' \<noteq> None \<and> pw_peer w' = (pw_peer w)\<lparr>pr_syn_counts := pr_syn_counts (pw_peer w) - int n\<rparr>"
  using assms(2)
proof (induction n)
  case 0
  then show ?case
    using peer_start [of w] assms(1) by auto
next
  case (Suc n)
  then obtain w' where w': "peer_steps w (replicate n (HeartbeatTimer s (Some junk) buf)) (replicate n (Send (pr_remote_peer_addr (pw_peer w)) [0, 4, 0, 0])) w'"
    "pw_hb w' \<noteq> None" "pw_peer w' = (pw_peer w)\<lparr>pr_syn_counts := pr_syn_counts (pw_peer w) - int n\<rparr>"
    by auto
  have "0 < pr_syn_counts (pw_peer w')"
    using Suc.prems w'(3) by simp
  from peer_step [OF w'(1) _ heartbeat_sends [OF w'(2) this assms(3,4), of junk]]
  have "peer_steps w (replicate (Suc n) (HeartbeatTimer s (Some junk) buf)) (replicate (Suc n) (Send (pr_remote_peer_addr (pw_peer w)) [0, 4, 0, 0]))
      (w'\<lparr>pw_hb := Some (pw_hb_tv w'), pw_peer := (pw_peer w')\<lparr>pr_syn_counts := pr_syn_counts (pw_peer w') - 1\<rparr>\<rparr>)"
    unfolding replicate_snoc using w'(2,3) by simp
  then show ?case
    using w'(3) by (intro exI conjI) auto
qed

text \<open>C36: a peer whose heartbeats are not acknowledged sends as many as \<open>syn_counts\<close> says; with the next timer it
  closes the tun device and greets the other peer again.\<close>

theorem lost_heartbeats_reconnect:
  assumes "pw_hb w \<noteq> None" "pr_syn_counts (pw_peer w) = int n" "4 \<le> length buf" "0 \<le> s"
  shows "\<exists>w'. peer_steps w (replicate (Suc n) (HeartbeatTimer s (Some junk) buf)) (replicate n (Send (pr_remote_peer_addr (pw_peer w)) [0, 4, 0, 0])) w' \<and>
    \<not> pw_tun_open w' \<and> pr_helloed (pw_peer w') = 0 \<and> pr_syn_counts (pw_peer w') = 3 \<and> pw_hello w' \<noteq> None \<and> pw_hb w' = None"
proof -
  let ?e = "HeartbeatTimer s (Some junk) buf"
  obtain w1 where w1: "peer_steps w (replicate n ?e) (replicate n (Send (pr_remote_peer_addr (pw_peer w)) [0, 4, 0, 0])) w1"
    "pw_hb w1 \<noteq> None" "pw_peer w1 = (pw_peer w)\<lparr>pr_syn_counts := pr_syn_counts (pw_peer w) - int n\<rparr>"
    using heartbeats_sent [OF assms(1) eq_refl [OF assms(2) [symmetric]] assms(3,4)] by blast
  obtain w2 where "run_peer_event ?e w1 = Done ([], w2)" "\<not> pw_tun_open w2" "pr_helloed (pw_peer w2) = 0" "pr_syn_counts (pw_peer w2) = 3" "pw_hello w2 \<noteq> None" "pw_hb w2 = None"
    using w1(3) assms(2) by (simp add: peer_heartbeat_def Let_def)
  moreover from peer_step [OF w1(1) _ this(1)] w1(2)
  have "peer_steps w (replicate (Suc n) ?e) (replicate n (Send (pr_remote_peer_addr (pw_peer w)) [0, 4, 0, 0])) w2"
    unfolding replicate_snoc by simp
  ultimately show ?thesis
    by blast
qed

theorem lost_heartbeats_reconnect_witness:
  "\<exists>w'. peer_steps example_peer_world (replicate 4 (HeartbeatTimer 4 (Some (\<lambda>_. 0)) (replicate BUFSIZ 0))) (replicate 3 (Send \<lparr>sin_addr = 1, sin_port = 2\<rparr> [0, 4, 0, 0])) w' \<and>
    \<not> pw_tun_open w' \<and> pw_hello w' \<noteq> None"
proof -
  have w: "pw_hb example_peer_world \<noteq> None" "pr_syn_counts (pw_peer example_peer_world) = int 3" "pr_remote_peer_addr (pw_peer example_peer_world) = \<lparr>sin_addr = 1, sin_port = 2\<rparr>"
    by (simp_all add: example_peer_world_def example_peer_def peer_world_of_def)
  have n: "Suc 3 = 4" "4 \<le> length (replicate BUFSIZ (0 :: byte))"
    by (simp_all add: BUFSIZ_def)
  show ?thesis
    using lost_heartbeats_reconnect [OF w(1,2) n(2), of 4 "\<lambda>_. 0"] unfolding w(3) n(1) by auto
qed

text \<open>The attempts to register: a request goes out before each of them, and any datagram ends them.\<close>

definition attempt_answered :: "(nat \<Rightarrow> udp_calls) \<Rightarrow> nat \<Rightarrow> bool" where
  "attempt_answered calls k \<longleftrightarrow> (case uc_recvfrom (calls k) of Inl err \<Rightarrow> 0 \<le> err | Inr _ \<Rightarrow> True)"

lemma registry_loop_step:
  assumes "0 \<le> uc_sendto (calls k)"
  shows "registry_loop (Suc fuel) calls k request =
    (if \<not> attempt_answered calls k \<and> k < 3
     then case registry_loop fuel calls (Suc k) request of (len, n, out) \<Rightarrow> (len, n, request # out)
     else (case uc_recvfrom (calls k) of Inl err \<Rightarrow> err | Inr (d, _) \<Rightarrow> int (min BUFSIZ (length d)), int (Suc k), [request]))"
  using assms by (auto simp: Let_def attempt_answered_def not_le split: sum.splits prod.splits)

lemma registry_loop_result:
  assumes "\<forall>k. 0 \<le> uc_sendto (calls k)" "k \<le> 3" "fuel = 4 - k"
  shows "\<exists>len n. registry_loop fuel calls k request = (len, int (Suc n), replicate (Suc n - k) request) \<and> k \<le> n \<and> n \<le> 3 \<and>
    (\<forall>j. k \<le> j \<longrightarrow> j < n \<longrightarrow> \<not> attempt_answered calls j) \<and> (0 \<le> len \<longleftrightarrow> attempt_answered calls n) \<and> (attempt_answered calls n \<or> n = 3)"
  using assms(2,3)
proof (induction fuel arbitrary: k)
  case 0
  then show ?case by simp
next
  case (Suc fuel)
  note step = registry_loop_step [of calls k fuel request, OF spec [OF assms(1)]]
  show ?case
  proof (cases "\<not> attempt_answered calls k \<and> k < 3")
    case True
    have "Suc k \<le> 3" "fuel = 4 - Suc k"
      using True Suc.prems by auto
    from Suc.IH [OF this] obtain len n where r: "registry_loop fuel calls (Suc k) request = (len, int (Suc n), replicate (Suc n - Suc k) request)" "Suc k \<le> n" "n \<le> 3"
      "\<forall>j. Suc k \<le> j \<longrightarrow> j < n \<longrightarrow> \<not> attempt_answered calls j" "0 \<le> len \<longleftrightarrow> attempt_answered calls n" "attempt_answered calls n \<or> n = 3"
      by blast
    have "replicate (Suc n - k) request = request # replicate (n - k) request"
      using r(2) by (simp add: Suc_diff_le)
    then have "registry_loop (Suc fuel) calls k request = (len, int (Suc n), replicate (Suc n - k) request)"
      using True r(1) by (simp only: step if_True simp_thms prod.case diff_Suc_Suc)
    moreover have "\<not> attempt_answered calls j" if "k \<le> j" "j < n" for j
      using r(4) True that by (metis Suc_leI le_neq_implies_less)
    ultimately show ?thesis
      using r(2,3,5,6) by (intro exI [of _ len] exI [of _ n]) auto
  next
    case False
    then have "registry_loop (Suc fuel) calls k request =
        (case uc_recvfrom (calls k) of Inl err \<Rightarrow> err | Inr (d, _) \<Rightarrow> int (min BUFSIZ (length d)), int (Suc k), replicate (Suc k - k) request)"
      by (simp only: step if_False) simp
    moreover have "0 \<le> (case uc_recvfrom (calls k) of Inl err \<Rightarrow> err | Inr (d, _) \<Rightarrow> int (min BUFSIZ (length d))) \<longleftrightarrow> attempt_answered calls k"
      by (auto simp: attempt_answered_def split: sum.splits prod.splits)
    ultimately show ?thesis
      using False Suc.prems(1) by (intro exI conjI) auto
  qed
qed

text \<open>A peer that can send tries to register four times: it sends its request until one datagram arrives, and
  registers exactly when one of the four attempts is answered, by whatever datagram.\<close>

theorem peer_registers_when_answered:
  fixes junk :: junk
  assumes "0 < sock" "0 \<le> setopt" "\<forall>k. 0 \<le> uc_sendto (calls k)" "20 \<le> length (pr_mstp_id (pw_peer w))" "20 \<le> length (pr_peer_id (pw_peer w))" "length buf = BUFSIZ"
  defines "request \<equiv> peer_registry_req_bytes (registry_req junk (pr_mstp_id (pw_peer w)) (pr_peer_id (pw_peer w)) (pr_vlan_local_ipv4 (pw_peer w)) (pr_nt (pw_peer w)))"
    and "master \<equiv> \<lparr>sin_addr = inet_addr (pr_master_peer_ipv4 (pw_peer w)), sin_port = htons (of_int (pr_master_peer_port (pw_peer w)))\<rparr>"
    and "tries \<equiv> length (takeWhile (\<lambda>k. \<not> attempt_answered calls k) [0..<4])"
  shows "registry_peer sock setopt calls (Some junk) buf w =
    Done (if tries < 4 then OK else C_ERROR, replicate (if tries < 4 then Suc tries else 4) (Send master request), w\<lparr>pw_fds := sock # pw_fds w\<rparr>)"
proof -
  obtain len n where r: "registry_loop 4 calls 0 (Send master request) = (len, int (Suc n), replicate (Suc n) (Send master request))" "n \<le> 3"
    "\<forall>j < n. \<not> attempt_answered calls j" "0 \<le> len \<longleftrightarrow> attempt_answered calls n" "attempt_answered calls n \<or> n = 3"
    using registry_loop_result [OF assms(3), of 0 4 "Send master request"] by auto
  have len: "length request = 56"
    using assms(4,5) by (simp add: request_def registry_req_def peer_registry_req_mem)
  have pkt: "PMP_peer_registry_req_pkt (Some (pr_mstp_id (pw_peer w))) (Some (pr_peer_id (pw_peer w))) (Some (pr_vlan_local_ipv4 (pw_peer w)))
       (pr_nt (pw_peer w)) (Some junk) (Some buf) = Done (56, Some (request @ drop 56 buf))"
    using registry_req_pkt_Done [OF assms(4,5), of buf] assms(6) by (simp add: request_def BUFSIZ_def)
  have res: "registry_peer sock setopt calls (Some junk) buf w =
      Done (if len < 0 \<and> 3 < int (Suc n) then C_ERROR else OK, replicate (Suc n) (Send master request), w\<lparr>pw_fds := sock # pw_fds w\<rparr>)"
    using assms(1,2) pkt len r(1) by (simp add: registry_peer_def master_def [symmetric] Let_def cong: if_cong del: of_nat_Suc replicate_Suc)
  have "tries = (if attempt_answered calls n then n else 4)"
  proof -
    have "n = 0 \<or> n = 1 \<or> n = 2 \<or> n = 3"
      using r(2) by linarith
    then have split: "[0..<4] = [0..<n] @ n # [Suc n..<4]"
      by (auto simp: upt_rec)
    have "takeWhile (\<lambda>k. \<not> attempt_answered calls k) ([0..<n] @ n # [Suc n..<4]) = [0..<n] @ takeWhile (\<lambda>k. \<not> attempt_answered calls k) (n # [Suc n..<4])"
      by (rule takeWhile_append2) (use r(3) in auto)
    then show ?thesis
      using r(5) by (auto simp: tries_def split)
  qed
  then show ?thesis
    using r(2,4,5) unfolding res by (auto simp del: replicate_Suc)
qed

theorem peer_registers_when_answered_witness:
  "\<exists>out. registry_peer 4 0 (\<lambda>k. (example_registry_calls k)\<lparr>uc_recvfrom := (if k < 3 then Inl (-1) else Inr ([], \<lparr>sin_addr = 9, sin_port = 9\<rparr>))\<rparr>)
      (Some (\<lambda>_. 0)) (replicate BUFSIZ 0) example_peer_world = Done (OK, out, example_peer_world\<lparr>pw_fds := [4, 3]\<rparr>) \<and> length out = 4"
proof -
  let ?calls = "\<lambda>k. (example_registry_calls k)\<lparr>uc_recvfrom := (if k < 3 then Inl (-1) else Inr ([], \<lparr>sin_addr = 9, sin_port = 9\<rparr>))\<rparr>"
  have a: "attempt_answered ?calls k \<longleftrightarrow> 3 \<le> k" for k
    by (simp add: attempt_answered_def example_registry_calls_def)
  have "length (takeWhile (\<lambda>k. \<not> attempt_answered ?calls k) [0..<4]) = 3"
    unfolding a by (simp add: upt_rec)
  moreover have "4 # pw_fds example_peer_world = [4, 3]"
    by (simp add: example_peer_world_def peer_world_of_def)
  ultimately show ?thesis
    using peer_registers_when_answered [of 4 0 ?calls example_peer_world "replicate BUFSIZ 0" "\<lambda>_. 0"]
    by (simp add: example_registry_calls_def example_peer_world_def peer_world_of_def example_peer_def)
qed

end
