(* ===== verification/NoseNat.thy ===== *)
theory NoseNat imports NoseUdp NoseUtils begin

text \<open>
  The test of the NAT's type (stun/nat\_test.h, nat\_test.c), which the peer runs when it starts.  What the
  system calls return, \<open>malloc\<close> and the uninitialised locals are arguments; \<open>recvfrom\<close> also writes the
  sender's address to the variable of the source address, which is not read again.
\<close>

section \<open>Constants\<close>

definition BIND_REQ :: u16 where "BIND_REQ = 0x0001"
definition DEFAULT_STUN_PORT_C :: int where "DEFAULT_STUN_PORT_C = 3478"
definition DEFAULT_SRC_PORT :: int where "DEFAULT_SRC_PORT = 54320"
definition MAPPED_ADDR :: u16 where "MAPPED_ADDR = 0x0001"
definition CHANGE_REQ :: u16 where "CHANGE_REQ = 0x0003"
definition SRC_ADDR :: u16 where "SRC_ADDR = 0x0004"
definition CHANGE_ADDR :: u16 where "CHANGE_ADDR = 0x0005"
definition XOR_MAPPED_ADDR :: u16 where "XOR_MAPPED_ADDR = 0x8020"
definition SERVER_NAME :: u16 where "SERVER_NAME = 0x8022"
definition FLAG_CHANGE_IP :: u32 where "FLAG_CHANGE_IP = 4"
definition FLAG_CHANGE_PORT :: u32 where "FLAG_CHANGE_PORT = 2"

lemmas nat_test_consts = BIND_REQ_def MAPPED_ADDR_def CHANGE_REQ_def SRC_ADDR_def CHANGE_ADDR_def XOR_MAPPED_ADDR_def
  SERVER_NAME_def FLAG_CHANGE_IP_def FLAG_CHANGE_PORT_def

text \<open>The texts \<open>0.0.0.0\<close> and \<open>stun.ekiga.net\<close>.\<close>

definition DEFAULT_SRC_IP :: bytes where
  "DEFAULT_SRC_IP = [48, 46, 48, 46, 48, 46, 48, 0]"

definition stun_server_0 :: bytes where
  "stun_server_0 = [115, 116, 117, 110, 46, 101, 107, 105, 103, 97, 46, 110, 101, 116, 0]"

section \<open>The response\<close>

text \<open>\<open>strncpy(a, ipv4, strlen(ipv4)); a[strlen(ipv4)] = 0\<close>\<close>

definition put_ipv4 :: "bytes \<Rightarrow> u32 \<Rightarrow> bytes outcome" where
  "put_ipv4 a addr = (let ipv4 = inet_ntoa addr; n = length (c_str ipv4) in
     bindO (c_strncpy a ipv4 n) (\<lambda>a. c_put a n 0))"

text \<open>
  One attribute, whose value starts at \<open>at\<close>.  The values of addresses are read whatever the length of
  the attribute is; of the others only the server's name is copied, to a block that is freed again.
\<close>

definition read_attribute :: "bytes \<Rightarrow> (nat \<Rightarrow> junk option) \<Rightarrow> u16 \<Rightarrow> nat \<Rightarrow> nat \<Rightarrow> nat_type \<Rightarrow> nat_type outcome" where
  "read_attribute buf blocks ty len at ext =
     (if ty = MAPPED_ADDR
      then bindO (c_read buf at 8) (\<lambda>v.
        bindO (put_ipv4 (nt_ipv4 ext) (of_host32 (drop 4 v))) (\<lambda>ipv4.
        Done (ext\<lparr>nt_ipv4 := ipv4, nt_port := uint (htons (of_host16 (drop 2 v)))\<rparr>)))
      else if ty = SRC_ADDR \<or> ty = CHANGE_ADDR \<or> ty = XOR_MAPPED_ADDR
      then bindO (c_read buf (at + 4) 4) (\<lambda>_. Done ext)
      else if ty = SERVER_NAME
      then (case c_malloc len (blocks at) of
          None \<Rightarrow> if len = 0 then Done ext else Undefined
        | Some m \<Rightarrow> bindO (c_strncpy m (drop at buf) len) (\<lambda>_. Done ext))
      else Done ext)"

function stun_rsp_loop :: "bytes \<Rightarrow> (nat \<Rightarrow> junk option) \<Rightarrow> nat \<Rightarrow> nat \<Rightarrow> nat_type \<Rightarrow> nat_type outcome" where
  "stun_rsp_loop buf blocks limit i ext =
     (if limit \<le> i then Done ext
      else bindO (c_read buf i 4) (\<lambda>attr.
        let ty = htons (of_host16 attr); len = unat (htons (of_host16 (drop 2 attr))) in
        bindO (read_attribute buf blocks ty len (i + 4) ext) (\<lambda>ext.
        stun_rsp_loop buf blocks limit (i + 4 + len) ext)))"
  by pat_completeness auto
termination
  by (relation "measure (\<lambda>(buf, blocks, limit, i, ext). limit - i)") auto

declare stun_rsp_loop.simps [simp del]

definition stun_rsp_unpack :: "bytes \<Rightarrow> int \<Rightarrow> (nat \<Rightarrow> junk option) \<Rightarrow> nat_type \<Rightarrow> (int \<times> nat_type) outcome" where
  "stun_rsp_unpack buf n blocks ext =
     (if as_size n < 20 then Done (C_ERROR, ext)
      else bindO (c_read buf 0 20) (\<lambda>header.
        let message_length = unat (htons (of_host16 (drop 2 header))) in
        if as_size n < 20 + message_length then Done (C_ERROR, ext)
        else bindO (stun_rsp_loop buf blocks (20 + message_length) 20 ext) (\<lambda>ext. Done (OK, ext))))"

section \<open>The three tests\<close>

text \<open>The locals of a test and the results of its calls: what \<open>recvfrom\<close> gives depends on the datagram that was sent.\<close>

record nat_call =
  nc_header :: "junk option"
  nc_attr :: "junk option"
  nc_buf :: bytes
  nc_sendto :: int
  nc_recvfrom :: "sent_pkt \<Rightarrow> int + bytes \<times> sockaddr_in"
  nc_blocks :: "nat \<Rightarrow> junk option"

text \<open>Sending the first \<open>n\<close> bytes of the buffer and reading the response; \<open>send_error\<close> is what a failed \<open>sendto\<close> gives.\<close>

definition nat_exchange :: "nat_call \<Rightarrow> sockaddr_in \<Rightarrow> int \<Rightarrow> bytes \<Rightarrow> nat \<Rightarrow> nat_type \<Rightarrow> (int \<times> sent_pkt list \<times> nat_type) outcome" where
  "nat_exchange c dst send_error buf n ext =
     (if nc_sendto c < 0 then Done (send_error, [], ext)
      else let sent = [(dst, take n buf)] in
        (case nc_recvfrom c (dst, take n buf) of
           Inl err \<Rightarrow>
             if err < 0 then Done (err, sent, ext)
             else bindO (stun_rsp_unpack buf err (nc_blocks c) ext) (\<lambda>(ret, ext). Done (ret, sent, ext))
         | Inr (d, _) \<Rightarrow>
             bindO (receive_into buf BUFSIZ d) (\<lambda>(len, buf).
             bindO (stun_rsp_unpack buf len (nc_blocks c) ext) (\<lambda>(ret, ext). Done (ret, sent, ext)))))"

text \<open>Of the 16 bytes of the transaction identifier, the last four are what the block from \<open>malloc\<close> held.\<close>

definition test1 :: "nat_call \<Rightarrow> sockaddr_in \<Rightarrow> bytes \<Rightarrow> nat_type \<Rightarrow> (int \<times> sent_pkt list \<times> nat_type) outcome" where
  "test1 c dst trans_id ext = (case c_malloc 20 (nc_header c) of
     None \<Rightarrow> Done (C_ERROR, [], ext)
   | Some m \<Rightarrow>
       bindO (c_memcpy (drop 4 m) 0 trans_id 12) (\<lambda>tid.
       bindO (c_memcpy (nc_buf c) 0 (host16 (htons BIND_REQ) @ host16 0 @ tid) 20) (\<lambda>buf.
       nat_exchange c dst C_ERROR buf 20 ext)))"

definition change_test :: "u32 \<Rightarrow> nat_call \<Rightarrow> sockaddr_in \<Rightarrow> bytes \<Rightarrow> nat_type \<Rightarrow> (int \<times> sent_pkt list \<times> nat_type) outcome" where
  "change_test flags c dst trans_id ext = (case c_malloc 20 (nc_header c) of
     None \<Rightarrow> Done (C_ERROR, [], ext)
   | Some m \<Rightarrow>
       bindO (c_memcpy (drop 4 m) 0 trans_id 12) (\<lambda>tid.
       case c_malloc 4 (nc_attr c) of
         None \<Rightarrow> Done (C_ERROR, [], ext)
       | Some _ \<Rightarrow>
           bindO (c_memcpy (nc_buf c) 0 (host16 (htons BIND_REQ) @ host16 (htons 8) @ tid) 20) (\<lambda>buf.
           bindO (c_memcpy buf 20 (host16 (htons CHANGE_REQ) @ host16 (htons 4)) 4) (\<lambda>buf.
           bindO (c_memcpy buf 24 (be32 flags) 4) (\<lambda>buf.
           nat_exchange c dst (nc_sendto c) buf 28 ext)))))"

definition test2 :: "nat_call \<Rightarrow> sockaddr_in \<Rightarrow> bytes \<Rightarrow> nat_type \<Rightarrow> (int \<times> sent_pkt list \<times> nat_type) outcome" where
  "test2 = change_test (FLAG_CHANGE_IP OR FLAG_CHANGE_PORT)"

definition test3 :: "nat_call \<Rightarrow> sockaddr_in \<Rightarrow> bytes \<Rightarrow> nat_type \<Rightarrow> (int \<times> sent_pkt list \<times> nat_type) outcome" where
  "test3 = change_test FLAG_CHANGE_PORT"

section \<open>The decision\<close>

text \<open>Creating the socket: the descriptor stays open when a later call fails.\<close>

record sock_calls =
  sk_socket :: int
  sk_setsockopt :: int
  sk_bind :: int

definition create_nat_test_sock :: "sock_calls \<Rightarrow> int list \<Rightarrow> int \<times> int list" where
  "create_nat_test_sock s fds =
     (if sk_socket s < 0 then (sk_socket s, fds)
      else let fds = sk_socket s # fds in
        if sk_setsockopt s < 0 then (sk_setsockopt s, fds)
        else if sk_bind s < 0 then (sk_bind s, fds)
        else (sk_socket s, fds))"

text \<open>\<open>calls\<close> gives the locals and results of the first, second, third and fourth test that is run.\<close>

definition do_test :: "sock_calls \<Rightarrow> (nat \<Rightarrow> nat) \<Rightarrow> bytes \<Rightarrow> (nat \<Rightarrow> nat_call) \<Rightarrow> bytes \<Rightarrow> bytes \<Rightarrow> int \<Rightarrow> nat_type \<Rightarrow> int list
    \<Rightarrow> (int \<times> sent_pkt list \<times> nat_type \<times> int list) outcome" where
  "do_test s rand tid calls source_addr stun_server_addr stun_server_port type fds =
     bindO (gen_random_trans_id rand (Some tid)) (\<lambda>tid.
     let trans_id = the tid;
         dst_addr = \<lparr>sin_addr = inet_addr stun_server_addr, sin_port = htons (of_int stun_server_port)\<rparr>;
         (sockfd, fds) = create_nat_test_sock s fds;
         same = (\<lambda>type. inet_addr source_addr = inet_addr (nt_ipv4 type));
         is = (\<lambda>ty sent type. Done (sockfd, sent, type\<lparr>nt_nat_type := ty\<rparr>, fds)) in
     if sockfd < 0 then Done (sockfd, [], type, fds)
     else bindO (test1 (calls 0) dst_addr trans_id type) (\<lambda>(ret, out0, type).
       if ret = OK
       then (if same type
             then bindO (test2 (calls 1) dst_addr trans_id type) (\<lambda>(ret, out1, type).
                    if ret = OK then is OPEN_INTERNET (out0 @ out1) type else is SYM_UDP_FIREWALL (out0 @ out1) type)
             else bindO (test2 (calls 1) dst_addr trans_id type) (\<lambda>(ret, out1, type).
                    if ret = OK then is FULL_CONE (out0 @ out1) type
                    else bindO (test1 (calls 2) dst_addr trans_id type) (\<lambda>(ret, out2, type).
                      if ret = OK
                      then (if same type
                            then bindO (test1 (calls 3) dst_addr trans_id type) (\<lambda>(ret, out3, type).
                                   if ret = OK then is RESTRICTED (out0 @ out1 @ out2 @ out3) type
                                   else is PORT_RESTRICTED (out0 @ out1 @ out2 @ out3) type)
                            else is SYM_NAT (out0 @ out1 @ out2) type)
                      else is UNEXPECTED_NAT_TYPE (out0 @ out1 @ out2) type)))
       else is UDP_BLOCKED out0 type))"

definition get_nat_type :: "sock_calls \<Rightarrow> (nat \<Rightarrow> nat) \<Rightarrow> bytes \<Rightarrow> (nat \<Rightarrow> nat_call) \<Rightarrow> (bytes \<Rightarrow> (bool \<times> u32 list) option)
    \<Rightarrow> bytes option \<Rightarrow> int \<Rightarrow> bytes option \<Rightarrow> int \<Rightarrow> nat_type option \<Rightarrow> int list \<Rightarrow> (int \<times> sent_pkt list \<times> nat_type option \<times> int list) outcome" where
  "get_nat_type s rand tid calls lookup source_addr source_port stun_server_addr stun_server_port type fds = (case type of
     None \<Rightarrow> Done (C_ERROR, [], type, fds)
   | Some t \<Rightarrow>
       let src_addr = (case source_addr of None \<Rightarrow> DEFAULT_SRC_IP | Some a \<Rightarrow> a);
           server_port = (if stun_server_port \<le> 0 then DEFAULT_STUN_PORT_C else stun_server_port);
           name = (case stun_server_addr of None \<Rightarrow> stun_server_0 | Some n \<Rightarrow> n) in
       bindO (gethostbyname1 lookup (Some name) (Some (replicate 18 0))) (\<lambda>(ret, server_addr).
       if ret \<noteq> OK then Done (C_ERROR, [], type, fds)
       else bindO (do_test s rand tid calls src_addr (the server_addr) server_port t fds) (\<lambda>(sockfd, sent, t, fds).
         Done (sockfd, sent, Some t, fds))))"

section \<open>Responses\<close>

text \<open>A response with its attributes, and what the reader takes from it.\<close>

definition attr_bytes :: "u16 \<times> bytes \<Rightarrow> bytes" where
  "attr_bytes = (\<lambda>(ty, v). be16 ty @ be16 (of_nat (length v)) @ v)"

definition stun_response :: "u16 \<Rightarrow> bytes \<Rightarrow> (u16 \<times> bytes) list \<Rightarrow> bytes" where
  "stun_response ty tid attrs = (let body = concat (map attr_bytes attrs) in be16 ty @ be16 (of_nat (length body)) @ tid @ body)"

definition nat_attr_fits :: "u16 \<times> bytes \<Rightarrow> bool" where
  "nat_attr_fits = (\<lambda>(ty, v). length v < 65536 \<and> (ty \<in> {MAPPED_ADDR, SRC_ADDR, CHANGE_ADDR, XOR_MAPPED_ADDR} \<longrightarrow> 8 \<le> length v))"

definition apply_attr :: "nat_type \<Rightarrow> u16 \<times> bytes \<Rightarrow> nat_type" where
  "apply_attr ext = (\<lambda>(ty, v). if ty = MAPPED_ADDR
     then ext\<lparr>nt_ipv4 := stored_ntoa (nt_ipv4 ext) (of_host32 (drop 4 v)), nt_port := uint (htons (of_host16 (drop 2 v)))\<rparr> else ext)"

lemma put_ipv4_Done: "length a = 16 \<Longrightarrow> put_ipv4 a addr = Done (stored_ntoa a addr)"
  using length_dotted [of "host32 addr"]
  by (simp add: put_ipv4_def stored_ntoa_def Let_def splice_at_def c_strncpy_def list_update_append upd_conv_take_nth_drop)

lemma length_attr_bytes [simp]: "length (attr_bytes a) = 4 + length (snd a)"
  by (simp add: attr_bytes_def case_prod_beta)

lemma apply_attr_length: "length (nt_ipv4 ext) = 16 \<Longrightarrow> length (nt_ipv4 (apply_attr ext a)) = 16"
  by (simp add: apply_attr_def case_prod_beta)

lemma of_host32_take: "of_host32 (take 4 bs) = of_host32 bs"
  by (simp add: of_host32_def)

lemma of_host16_prefix: "of_host16 (take 2 bs) = of_host16 bs"
  by (simp add: of_host16_def)

lemma segment_prefix: "segment (pre @ v @ rest) (length pre + i) n = take n (drop i (v @ rest))"
  by (simp add: segment_def)

lemma read_attribute_Done:
  assumes "nat_attr_fits (ty, v)" "\<forall>i. blocks i \<noteq> None" "length (nt_ipv4 ext) = 16" "buf = pre @ v @ rest"
  shows "read_attribute buf blocks ty (length v) (length pre) ext = Done (apply_attr ext (ty, v))"
proof -
  have l: "length pre + length v \<le> length buf"
    using assms(4) by simp
  obtain m where m: "blocks (length pre) = Some m"
    using assms(2) by blast
  consider "ty = MAPPED_ADDR" | "ty \<noteq> MAPPED_ADDR" "ty = SRC_ADDR \<or> ty = CHANGE_ADDR \<or> ty = XOR_MAPPED_ADDR"
    | "ty = SERVER_NAME" "ty \<noteq> MAPPED_ADDR" "\<not> (ty = SRC_ADDR \<or> ty = CHANGE_ADDR \<or> ty = XOR_MAPPED_ADDR)"
    | "ty \<noteq> SERVER_NAME" "ty \<noteq> MAPPED_ADDR" "\<not> (ty = SRC_ADDR \<or> ty = CHANGE_ADDR \<or> ty = XOR_MAPPED_ADDR)"
    by blast
  then show ?thesis
  proof cases
    case 1
    then have v: "8 \<le> length v"
      using assms(1) by (simp add: nat_attr_fits_def)
    then have "c_read buf (length pre) 8 = Done (take 8 v)"
      using l by (simp add: assms(4) segment_def)
    moreover have "of_host32 (drop 4 (take 8 v)) = of_host32 (drop 4 v)" "of_host16 (drop 2 (take 8 v)) = of_host16 (drop 2 v)"
      using v by (simp_all add: of_host32_def of_host16_def drop_take)
    ultimately show ?thesis
      using 1 assms(3) by (simp add: read_attribute_def put_ipv4_Done apply_attr_def)
  next
    case 2
    then have v: "8 \<le> length v"
      using assms(1) by (auto simp: nat_attr_fits_def)
    then show ?thesis
      using 2 l by (simp add: read_attribute_def apply_attr_def)
  next
    case 3
    have "c_strncpy (map m [0..<length v]) (drop (length pre) buf) (length v) \<noteq> Undefined" "c_strncpy (map m [0..<length v]) (drop (length pre) buf) (length v) \<noteq> Blocked"
      by (simp_all add: c_strncpy_def Let_def assms(4))
    then show ?thesis
      using 3 m by (cases "c_strncpy (map m [0..<length v]) (drop (length pre) buf) (length v)") (simp_all add: read_attribute_def apply_attr_def)
  next
    case 4
    then show ?thesis
      by (simp add: read_attribute_def apply_attr_def)
  qed
qed

lemma unat_word16_small: "n < 65536 \<Longrightarrow> unat (of_nat n :: u16) = n"
  by (simp add: unat_of_nat)

lemma stun_rsp_loop_Done:
  assumes "\<forall>a \<in> set attrs. nat_attr_fits a" "\<forall>i. blocks i \<noteq> None" "length (nt_ipv4 ext) = 16"
  shows "stun_rsp_loop (pre @ concat (map attr_bytes attrs) @ rest) blocks (length pre + length (concat (map attr_bytes attrs))) (length pre) ext =
    Done (foldl apply_attr ext attrs)"
  using assms(1,3)
proof (induction attrs arbitrary: pre ext)
  case Nil
  then show ?case
    by (simp add: stun_rsp_loop.simps)
next
  case (Cons a attrs)
  obtain ty v where a: "a = (ty, v)"
    by (cases a)
  define more where "more = concat (map attr_bytes attrs)"
  define buf where "buf = pre @ be16 ty @ be16 (of_nat (length v)) @ v @ more @ rest"
  have v: "nat_attr_fits (ty, v)" "length v < 65536"
    using Cons.prems(1) by (simp_all add: a nat_attr_fits_def)
  have rd: "c_read buf (length pre) 4 = Done (be16 ty @ be16 (of_nat (length v)))"
    by (simp add: buf_def segment_def)
  have "read_attribute ((pre @ be16 ty @ be16 (of_nat (length v))) @ v @ more @ rest) blocks ty (length v) (length (pre @ be16 ty @ be16 (of_nat (length v)))) ext =
      Done (apply_attr ext (ty, v))"
    by (rule read_attribute_Done [OF v(1) assms(2) Cons.prems(2) refl])
  then have at: "read_attribute buf blocks ty (length v) (length pre + 4) ext = Done (apply_attr ext (ty, v))"
    by (simp add: buf_def)
  have split: "(pre @ attr_bytes a) @ more @ rest = buf" "length (pre @ attr_bytes a) = length pre + 4 + length v"
    "concat (map attr_bytes (a # attrs)) = attr_bytes a @ more"
    by (simp_all add: buf_def a attr_bytes_def more_def)
  have "stun_rsp_loop ((pre @ attr_bytes a) @ more @ rest) blocks (length (pre @ attr_bytes a) + length more) (length (pre @ attr_bytes a)) (apply_attr ext a) =
      Done (foldl apply_attr (apply_attr ext a) attrs)"
    unfolding more_def by (rule Cons.IH) (use Cons.prems apply_attr_length in auto)
  then have ih: "stun_rsp_loop buf blocks (length pre + 4 + length v + length more) (length pre + 4 + length v) (apply_attr ext (ty, v)) =
      Done (foldl apply_attr ext (a # attrs))"
    unfolding split by (simp add: a)
  have "stun_rsp_loop buf blocks (length pre + 4 + length v + length more) (length pre) ext = Done (foldl apply_attr ext (a # attrs))"
    by (subst stun_rsp_loop.simps) (simp add: rd at ih unat_word16_small [OF v(2)] Let_def del: c_read_ok foldl.simps)
  moreover have "pre @ concat (map attr_bytes (a # attrs)) @ rest = buf" "length pre + length (concat (map attr_bytes (a # attrs))) = length pre + 4 + length v + length more"
    unfolding split(3) using split(1) by (simp_all add: a)
  ultimately show ?case
    by (simp only:)
qed

text \<open>The address of a response is the one of its last \<open>MAPPED_ADDR\<close>.\<close>

definition mapped :: "(u16 \<times> bytes) list \<Rightarrow> (u32 \<times> u16) option" where
  "mapped attrs = (let as = filter (\<lambda>(ty, v). ty = MAPPED_ADDR) attrs in
     if as = [] then None else Some (of_host32 (drop 4 (snd (last as))), htons (of_host16 (drop 2 (snd (last as))))))"

lemma mapped_snoc: "mapped (attrs @ [(ty, v)]) = (if ty = MAPPED_ADDR then Some (of_host32 (drop 4 v), htons (of_host16 (drop 2 v))) else mapped attrs)"
  by (simp add: mapped_def Let_def)

lemma apply_attrs_keep: "nt_nat_type (foldl apply_attr ext attrs) = nt_nat_type ext"
  "length (nt_ipv4 ext) = 16 \<Longrightarrow> length (nt_ipv4 (foldl apply_attr ext attrs)) = 16"
  by (induction attrs rule: rev_induct) (auto simp: apply_attr_def)

lemma apply_attrs_mapped:
  "mapped attrs = Some (a, p) \<Longrightarrow> inet_addr (nt_ipv4 (foldl apply_attr ext attrs)) = a \<and> nt_port (foldl apply_attr ext attrs) = uint p"
proof (induction attrs rule: rev_induct)
  case Nil
  then show ?case
    by (simp add: mapped_def)
next
  case (snoc x attrs)
  obtain ty v where x: "x = (ty, v)"
    by (cases x)
  show ?case
    using snoc by (auto simp: x mapped_snoc apply_attr_def split: if_splits)
qed

lemma stun_response_length: "length tid = 16 \<Longrightarrow> length (stun_response ty tid attrs) = 20 + length (concat (map attr_bytes attrs))"
  by (simp add: stun_response_def Let_def)

lemma stun_rsp_unpack_Done:
  assumes "\<forall>a \<in> set attrs. nat_attr_fits a" "\<forall>i. blocks i \<noteq> None" "length (nt_ipv4 ext) = 16" "length tid = 16" "length (stun_response ty tid attrs) \<le> BUFSIZ"
  shows "stun_rsp_unpack (stun_response ty tid attrs @ rest) (int (length (stun_response ty tid attrs))) blocks ext = Done (OK, foldl apply_attr ext attrs)"
proof -
  define body where "body = concat (map attr_bytes attrs)"
  define pre where "pre = be16 ty @ be16 (of_nat (length body)) @ tid"
  have pre: "length pre = 20" "stun_response ty tid attrs = pre @ body"
    using assms(4) by (simp_all add: pre_def stun_response_def body_def [symmetric])
  have n: "length body < 65536" "as_size (int (length (pre @ body))) = 20 + length body"
    using assms(5) pre by (simp_all add: BUFSIZ_def as_size_nat nat_add_distrib)
  have loop: "stun_rsp_loop (pre @ body @ rest) blocks (20 + length body) 20 ext = Done (foldl apply_attr ext attrs)"
    using stun_rsp_loop_Done [OF assms(1-3), of pre rest] unfolding body_def [symmetric] pre(1) .
  have rd: "c_read (pre @ body @ rest) 0 20 = Done pre"
    using pre(1) by (simp add: segment_def)
  have "of_host16 (drop 2 pre) = htons (of_nat (length body))"
    by (simp add: pre_def)
  then show ?thesis
    using loop rd n unfolding pre(2) by (simp add: stun_rsp_unpack_def unat_word16_small [OF n(1)] del: c_read_ok)
qed

section \<open>NATs\<close>

text \<open>
  What a request asks of the server (RFC 3489): to answer from its other address, from its other port.
  Anything else is not a binding request.
\<close>

definition asks :: "bytes \<Rightarrow> (bool \<times> bool) option" where
  "asks m = (if length m < 20 \<or> of_be16 m \<noteq> 0x0001 then None
     else if length m = 20 \<and> of_be16 (drop 2 m) = 0 then Some (False, False)
     else if length m = 28 \<and> of_be16 (drop 2 m) = 8 \<and> of_be16 (drop 20 m) = 0x0003 \<and> of_be16 (drop 22 m) = 4
     then Some (of_be32 (drop 24 m) AND 4 \<noteq> 0, of_be32 (drop 24 m) AND 2 \<noteq> 0)
     else None)"

text \<open>
  The networks a peer can be in, by the responses they let through to a peer that has sent to the
  server: from its other address, from its other port.
\<close>

datatype nat_kind = NoUdp | Firewall | OpenNet | Cone | RestrictedCone | PortRestrictedCone | Symmetric

fun passes :: "nat_kind \<Rightarrow> bool \<times> bool \<Rightarrow> bool" where
  "passes NoUdp _ = False"
| "passes OpenNet _ = True"
| "passes Cone _ = True"
| "passes RestrictedCone (other_ip, other_port) = (\<not> other_ip)"
| "passes _ (other_ip, other_port) = (\<not> other_ip \<and> \<not> other_port)"

definition behind_nat :: "nat_kind \<Rightarrow> bool" where
  "behind_nat kind \<longleftrightarrow> kind \<notin> {NoUdp, Firewall, OpenNet}"

text \<open>A response that gives an address as the mapped one.\<close>

definition response_with :: "u32 \<times> u16 \<Rightarrow> bytes \<Rightarrow> bool" where
  "response_with a d \<longleftrightarrow> (\<exists>ty tid attrs. d = stun_response ty tid attrs \<and> length tid = 16 \<and>
     length (stun_response ty tid attrs) \<le> BUFSIZ \<and> (\<forall>a \<in> set attrs. nat_attr_fits a) \<and> mapped attrs = Some a)"

definition nat_call_ok :: "nat_call \<Rightarrow> bool" where
  "nat_call_ok c \<longleftrightarrow> nc_header c \<noteq> None \<and> nc_attr c \<noteq> None \<and> length (nc_buf c) = BUFSIZ \<and> 0 \<le> nc_sendto c \<and> (\<forall>i. nc_blocks c i \<noteq> None)"

text \<open>
  The server, which sees the peer at \<open>out\<close>, behind a network of a kind: a request that the server gets and
  whose response comes through is answered, everything else runs into the timeout of \<open>recvfrom\<close>.
\<close>

definition through_nat :: "nat_kind \<Rightarrow> sockaddr_in \<Rightarrow> u32 \<times> u16 \<Rightarrow> nat_call \<Rightarrow> bool" where
  "through_nat kind server out c \<longleftrightarrow> nat_call_ok c \<and> (\<forall>dst m.
     if dst = server \<and> (case asks m of None \<Rightarrow> False | Some x \<Rightarrow> passes kind x)
     then \<exists>d src. nc_recvfrom c (dst, m) = Inr (d, src) \<and> response_with out d
     else nc_recvfrom c (dst, m) = Inl (-1))"

fun nat_verdict :: "nat_kind \<Rightarrow> int" where
  "nat_verdict NoUdp = UDP_BLOCKED"
| "nat_verdict Firewall = SYM_UDP_FIREWALL"
| "nat_verdict OpenNet = OPEN_INTERNET"
| "nat_verdict Cone = FULL_CONE"
| "nat_verdict _ = SYM_NAT"

text \<open>What is asked in each network.\<close>

fun asked :: "nat_kind \<Rightarrow> (bool \<times> bool) list" where
  "asked NoUdp = [(False, False)]"
| "asked Firewall = [(False, False), (True, True)]"
| "asked OpenNet = [(False, False), (True, True)]"
| "asked Cone = [(False, False), (True, True)]"
| "asked _ = [(False, False), (True, True), (False, False)]"

definition nat_result :: "nat_type \<Rightarrow> u32 \<times> u16 \<Rightarrow> bool" where
  "nat_result t = (\<lambda>(a, p). length (nt_ipv4 t) = 16 \<and> inet_addr (nt_ipv4 t) = a \<and> nt_port t = uint p)"

lemma nat_exchange_through:
  assumes "through_nat kind dst out c" "asks (take n buf) = Some x" "length (nt_ipv4 ext) = 16" "length buf = BUFSIZ"
  shows "if passes kind x then \<exists>t. nat_exchange c dst e buf n ext = Done (OK, [(dst, take n buf)], t) \<and> nat_result t out
    else nat_exchange c dst e buf n ext = Done (-1, [(dst, take n buf)], ext)"
proof -
  have r: "if dst = dst \<and> (case asks (take n buf) of None \<Rightarrow> False | Some x \<Rightarrow> passes kind x)
     then \<exists>d src. nc_recvfrom c (dst, take n buf) = Inr (d, src) \<and> response_with out d
     else nc_recvfrom c (dst, take n buf) = Inl (-1)"
    using assms(1) unfolding through_nat_def by blast
  show ?thesis
  proof (cases "passes kind x")
    case True
    then have "\<exists>d src. nc_recvfrom c (dst, take n buf) = Inr (d, src) \<and> response_with out d"
      using r assms(2) by simp
    then obtain ty tid attrs src where r: "nc_recvfrom c (dst, take n buf) = Inr (stun_response ty tid attrs, src)" "length tid = 16"
      "length (stun_response ty tid attrs) \<le> BUFSIZ" "\<forall>a \<in> set attrs. nat_attr_fits a" "mapped attrs = Some out"
      by (auto simp: response_with_def)
    have c: "0 \<le> nc_sendto c" "\<forall>i. nc_blocks c i \<noteq> None"
      using assms(1) by (simp_all add: through_nat_def nat_call_ok_def)
    have "nat_exchange c dst e buf n ext = Done (OK, [(dst, take n buf)], foldl apply_attr ext attrs)"
      using c(1) r(3) stun_rsp_unpack_Done [OF r(4) c(2) assms(3) r(2,3)] by (simp add: nat_exchange_def r(1) receive_into_Done assms(4))
    moreover have "nat_result (foldl apply_attr ext attrs) out"
      using apply_attrs_mapped [of attrs "fst out" "snd out" ext] r(5) apply_attrs_keep(2) [OF assms(3)] by (simp add: nat_result_def case_prod_beta)
    ultimately show ?thesis
      using True by auto
  next
    case False
    then have "nc_recvfrom c (dst, take n buf) = Inl (-1)"
      using r assms(2) by simp
    then show ?thesis
      using False assms(1) by (simp add: nat_exchange_def through_nat_def nat_call_ok_def)
  qed
qed

lemma test1_exchange:
  assumes "nat_call_ok c" "12 \<le> length trans_id"
  obtains buf where "test1 c dst trans_id ext = nat_exchange c dst C_ERROR buf 20 ext" "length buf = BUFSIZ"
    "asks (take 20 buf) = Some (False, False)"
proof -
  obtain j where j: "nc_header c = Some j"
    using assms(1) by (auto simp: nat_call_ok_def)
  have l: "length (nc_buf c) = BUFSIZ"
    using assms(1) by (simp add: nat_call_ok_def)
  define tid where "tid = splice_at (drop 4 (map j [0..<20])) 0 (take 12 trans_id)"
  have tid: "c_memcpy (drop 4 (map j [0..<20])) 0 trans_id 12 = Done tid" "length tid = 16"
    using assms(2) by (simp_all add: tid_def splice_at_def)
  define buf where "buf = (be16 BIND_REQ @ be16 0 @ tid) @ drop 20 (nc_buf c)"
  have "host16 0 = be16 0"
    by (simp add: be16_def host16_def)
  then have "test1 c dst trans_id ext = nat_exchange c dst C_ERROR buf 20 ext"
    using l tid by (simp add: test1_def j splice_at_def BUFSIZ_def buf_def del: c_memcpy_ok) (simp add: splice_at_def)
  moreover have "take 20 buf = be16 BIND_REQ @ be16 0 @ tid"
    using tid(2) by (simp add: buf_def)
  ultimately show thesis
    using tid(2) l by (intro that [of buf]) (simp_all add: asks_def BIND_REQ_def, simp add: buf_def BUFSIZ_def)
qed

lemma change_test_exchange:
  assumes "nat_call_ok c" "12 \<le> length trans_id"
  obtains buf where "change_test flags c dst trans_id ext = nat_exchange c dst (nc_sendto c) buf 28 ext" "length buf = BUFSIZ"
    "asks (take 28 buf) = Some (flags AND 4 \<noteq> 0, flags AND 2 \<noteq> 0)"
proof -
  obtain j k where j: "nc_header c = Some j" "nc_attr c = Some k"
    using assms(1) by (auto simp: nat_call_ok_def)
  have l: "length (nc_buf c) = BUFSIZ"
    using assms(1) by (simp add: nat_call_ok_def)
  define tid where "tid = splice_at (drop 4 (map j [0..<20])) 0 (take 12 trans_id)"
  have tid: "c_memcpy (drop 4 (map j [0..<20])) 0 trans_id 12 = Done tid" "length tid = 16"
    using assms(2) by (simp_all add: tid_def splice_at_def)
  define b1 where "b1 = splice_at (nc_buf c) 0 (host16 (htons BIND_REQ) @ host16 (htons 8) @ tid)"
  define b2 where "b2 = splice_at b1 20 (host16 (htons CHANGE_REQ) @ host16 (htons 4))"
  define b3 where "b3 = splice_at b2 24 (be32 flags)"
  have b: "c_memcpy (nc_buf c) 0 (host16 (htons BIND_REQ) @ host16 (htons 8) @ tid) 20 = Done b1" "length b1 = BUFSIZ"
    "c_memcpy b1 20 (host16 (htons CHANGE_REQ) @ host16 (htons 4)) 4 = Done b2" "length b2 = BUFSIZ"
    "c_memcpy b2 24 (be32 flags) 4 = Done b3" "length b3 = BUFSIZ"
    using l tid(2) by (simp_all add: b1_def b2_def b3_def BUFSIZ_def splice_at_def)
  have e: "change_test flags c dst trans_id ext = nat_exchange c dst (nc_sendto c) b3 28 ext"
    using tid(1) b(1,3,5) by (simp add: change_test_def j del: c_memcpy_ok host16_htons)
  have "take 28 b3 = (be16 BIND_REQ @ be16 8 @ tid) @ (be16 CHANGE_REQ @ be16 4) @ be32 flags"
    using l tid(2) by (simp add: b1_def b2_def b3_def BUFSIZ_def splice_at_def)
  then have "asks (take 28 b3) = Some (flags AND 4 \<noteq> 0, flags AND 2 \<noteq> 0)"
    using tid(2) by (simp add: asks_def BIND_REQ_def CHANGE_REQ_def)
  then show thesis
    by (rule that [OF e b(6)])
qed

lemma test1_results:
  assumes "12 \<le> length trans_id" "through_nat kind dst out c" "length (nt_ipv4 ext) = 16"
  obtains m where "asks m = Some (False, False)"
    "if passes kind (False, False) then \<exists>t. test1 c dst trans_id ext = Done (OK, [(dst, m)], t) \<and> nat_result t out
     else test1 c dst trans_id ext = Done (-1, [(dst, m)], ext)"
proof -
  have "nat_call_ok c"
    using assms(2) by (simp add: through_nat_def)
  from test1_exchange [OF this assms(1), of dst ext] obtain buf where b: "test1 c dst trans_id ext = nat_exchange c dst C_ERROR buf 20 ext"
    "length buf = BUFSIZ" "asks (take 20 buf) = Some (False, False)"
    by blast
  show thesis
    by (rule that [OF b(3)]) (unfold b(1), rule nat_exchange_through [OF assms(2) b(3) assms(3) b(2)])
qed

lemma change_test_results:
  assumes "12 \<le> length trans_id" "through_nat kind dst out c" "length (nt_ipv4 ext) = 16"
  obtains m where "asks m = Some (flags AND 4 \<noteq> 0, flags AND 2 \<noteq> 0)"
    "if passes kind (flags AND 4 \<noteq> 0, flags AND 2 \<noteq> 0)
     then \<exists>t. change_test flags c dst trans_id ext = Done (OK, [(dst, m)], t) \<and> nat_result t out
     else change_test flags c dst trans_id ext = Done (-1, [(dst, m)], ext)"
proof -
  have "nat_call_ok c"
    using assms(2) by (simp add: through_nat_def)
  from change_test_exchange [OF this assms(1), of flags dst ext] obtain buf where
    b: "change_test flags c dst trans_id ext = nat_exchange c dst (nc_sendto c) buf 28 ext"
    "length buf = BUFSIZ" "asks (take 28 buf) = Some (flags AND 4 \<noteq> 0, flags AND 2 \<noteq> 0)"
    by blast
  show thesis
    by (rule that [OF b(3)]) (unfold b(1), rule nat_exchange_through [OF assms(2) b(3) assms(3) b(2)])
qed

text \<open>Test II asks for the other address and the other port.\<close>

lemma test2_results:
  assumes "12 \<le> length trans_id" "through_nat kind dst out c" "length (nt_ipv4 ext) = 16"
  obtains m where "asks m = Some (True, True)"
    "if passes kind (True, True) then \<exists>t. test2 c dst trans_id ext = Done (OK, [(dst, m)], t) \<and> nat_result t out
     else test2 c dst trans_id ext = Done (-1, [(dst, m)], ext)"
proof -
  have f: "(FLAG_CHANGE_IP OR FLAG_CHANGE_PORT) AND 4 \<noteq> 0" "(FLAG_CHANGE_IP OR FLAG_CHANGE_PORT) AND 2 \<noteq> 0"
    by (simp_all add: FLAG_CHANGE_IP_def FLAG_CHANGE_PORT_def)
  from change_test_results [OF assms, of "FLAG_CHANGE_IP OR FLAG_CHANGE_PORT"] obtain m where
    m: "asks m = Some (True, True)" "if passes kind (True, True)
      then \<exists>t. change_test (FLAG_CHANGE_IP OR FLAG_CHANGE_PORT) c dst trans_id ext = Done (OK, [(dst, m)], t) \<and> nat_result t out
      else change_test (FLAG_CHANGE_IP OR FLAG_CHANGE_PORT) c dst trans_id ext = Done (-1, [(dst, m)], ext)"
    using f by auto
  show thesis
    by (rule that [OF m(1)]) (unfold test2_def, rule m(2))
qed

lemma nat_result_simps [simp]: "nat_result (t\<lparr>nt_nat_type := x\<rparr>) a = nat_result t a"
  by (simp add: nat_result_def case_prod_beta)

lemma nat_result_facts: "nat_result t a \<Longrightarrow> length (nt_ipv4 t) = 16" "nat_result t a \<Longrightarrow> inet_addr (nt_ipv4 t) = fst a"
  by (simp_all add: nat_result_def case_prod_beta)

text \<open>C37: behind each kind of network, with a server that answers a request from where its CHANGE-REQUEST says,
  the test sends the requests that the kind calls for, and finds blocked UDP, firewalls, open
  networks and full cones for what they are, but takes every other NAT for a symmetric one, the
  restricted and port-restricted cones as well: its second comparison is with the peer's own address,
  which the address outside a NAT never is.  It delivers the address that the server saw.\<close>

theorem nat_verdicts:
  assumes "\<And>k. through_nat kind \<lparr>sin_addr = inet_addr server, sin_port = htons (of_int port)\<rparr> out (calls k)"
    "behind_nat kind \<longleftrightarrow> kind \<noteq> NoUdp \<and> fst out \<noteq> inet_addr source"
    "length tid = 16" "length (nt_ipv4 type) = 16" "0 \<le> sk_socket s" "0 \<le> sk_setsockopt s" "0 \<le> sk_bind s"
  shows "\<exists>sent t. do_test s rand tid calls source server port type fds = Done (sk_socket s, sent, t, sk_socket s # fds) \<and>
    map fst sent = replicate (length (asked kind)) \<lparr>sin_addr = inet_addr server, sin_port = htons (of_int port)\<rparr> \<and>
    map (asks \<circ> snd) sent = map Some (asked kind) \<and>
    nt_nat_type t = nat_verdict kind \<and> (kind \<noteq> NoUdp \<longrightarrow> nat_result t out)"
proof -
  define tr where "tr = map (\<lambda>i. of_nat (rand i mod 255) :: byte) [0..<16]"
  have tr: "gen_random_trans_id rand (Some tid) = Done (Some tr)" "12 \<le> length tr"
    using assms(3) by (simp_all add: gen_random_trans_id_def tr_def splice_at_def)
  define dst where "dst = \<lparr>sin_addr = inet_addr server, sin_port = htons (of_int port)\<rparr>"
  note net = assms(1) [folded dst_def]
  note [simp] = do_test_def tr(1) create_nat_test_sock_def Let_def nat_type_defs dst_def [symmetric]
  from test1_results [OF tr(2) net assms(4), of 0] obtain m0 where m0: "asks m0 = Some (False, False)"
    "if passes kind (False, False) then \<exists>t. test1 (calls 0) dst tr type = Done (OK, [(dst, m0)], t) \<and> nat_result t out
     else test1 (calls 0) dst tr type = Done (-1, [(dst, m0)], type)"
    by blast
  show ?thesis
  proof (cases "kind = NoUdp")
    case True
    then show ?thesis
      using m0 assms(5-7) by simp
  next
    case False
    then have "passes kind (False, False)"
      by (cases kind) simp_all
    then obtain t0 where r0: "test1 (calls 0) dst tr type = Done (OK, [(dst, m0)], t0)" "nat_result t0 out"
      using m0(2) by auto
    note f0 = nat_result_facts [OF r0(2)]
    from test2_results [OF tr(2) net f0(1), of 1] obtain m1 where m1: "asks m1 = Some (True, True)"
      "if passes kind (True, True) then \<exists>t. test2 (calls 1) dst tr t0 = Done (OK, [(dst, m1)], t) \<and> nat_result t out
       else test2 (calls 1) dst tr t0 = Done (-1, [(dst, m1)], t0)"
      by blast
    from test1_results [OF tr(2) net f0(1), of 2] obtain m2 where m2: "asks m2 = Some (False, False)"
      "if passes kind (False, False) then \<exists>t. test1 (calls 2) dst tr t0 = Done (OK, [(dst, m2)], t) \<and> nat_result t out
       else test1 (calls 2) dst tr t0 = Done (-1, [(dst, m2)], t0)"
      by blast
    show ?thesis
    proof (cases "passes kind (True, True)")
      case True
      then obtain t1' where "test2 (calls 1) dst tr t0 = Done (OK, [(dst, m1)], t1')" "nat_result t1' out"
        using m1(2) by auto
      then show ?thesis
        using True False assms(2,5-7) r0 m0(1) m1(1) f0(2) by (cases kind) (auto simp: behind_nat_def)
    next
      case no: False
      then have r1: "test2 (calls 1) dst tr t0 = Done (-1, [(dst, m1)], t0)"
        using m1(2) by simp
      show ?thesis
      proof (cases "kind = Firewall")
        case True
        then show ?thesis
          using assms(2,5-7) r0 r1 m0(1) m1(1) f0(2) by (simp add: behind_nat_def)
      next
        case nofw: False
        then have k: "nat_verdict kind = SYM_NAT" "asked kind = [(False, False), (True, True), (False, False)]" "behind_nat kind"
          using False no by (cases kind; simp add: behind_nat_def)+
        obtain t2' where r2: "test1 (calls 2) dst tr t0 = Done (OK, [(dst, m2)], t2')" "nat_result t2' out"
          using m2(2) \<open>passes kind (False, False)\<close> by auto
        show ?thesis
          using k False assms(2,5-7) r0(1) r1 r2 f0(2) nat_result_facts(2) [OF r2(2)] m0(1) m1(1) m2(1) by simp
      qed
    qed
  qed
qed

text \<open>The witness: a port-restricted NAT, whose server answers requests without a change request.\<close>

definition example_answer :: "bytes" where
  "example_answer = stun_response 0x0101 (replicate 16 9) [(MAPPED_ADDR, [0, 1, 212, 49, 5, 6, 7, 8]), (SERVER_NAME, [110, 111, 115, 101])]"

definition example_stun_server :: sockaddr_in where
  "example_stun_server = \<lparr>sin_addr = inet_addr (dotted [9, 9, 9, 9] @ [0]), sin_port = htons 3478\<rparr>"

definition example_nat_call :: nat_call where
  "example_nat_call = \<lparr>nc_header = Some (\<lambda>_. 0), nc_attr = Some (\<lambda>_. 0), nc_buf = replicate BUFSIZ 0, nc_sendto = 20,
     nc_recvfrom = (\<lambda>(dst, m). if dst = example_stun_server \<and> asks m = Some (False, False) then Inr (example_answer, dst) else Inl (-1)),
     nc_blocks = (\<lambda>_. Some (\<lambda>_. 0))\<rparr>"

lemma example_through_nat: "through_nat PortRestrictedCone example_stun_server (of_host32 [5, 6, 7, 8], 54321) example_nat_call"
proof -
  have "htons (of_host16 [212, 49]) = 54321"
    by (simp add: of_host16_def htons_def be16_def)
  then have "mapped [(MAPPED_ADDR, [0, 1, 212, 49, 5, 6, 7, 8]), (SERVER_NAME, [110, 111, 115, 101])] = Some (of_host32 [5, 6, 7, 8], 54321)"
    by (simp add: mapped_def nat_test_consts of_host16_def)
  moreover have "length example_answer \<le> BUFSIZ"
    by (simp add: example_answer_def stun_response_length BUFSIZ_def)
  ultimately have "response_with (of_host32 [5, 6, 7, 8], 54321) example_answer"
    unfolding response_with_def
    by (intro exI [of _ "0x0101"] exI [of _ "replicate 16 9"] exI [of _ "[(MAPPED_ADDR, [0, 1, 212, 49, 5, 6, 7, 8]), (SERVER_NAME, [110, 111, 115, 101])]"])
      (simp_all add: example_answer_def nat_attr_fits_def nat_test_consts)
  then show ?thesis
    by (auto simp: through_nat_def nat_call_ok_def example_nat_call_def split: option.splits)
qed

theorem nat_verdicts_witness:
  "\<exists>sent t. do_test \<lparr>sk_socket = 3, sk_setsockopt = 0, sk_bind = 0\<rparr> (\<lambda>_. 1) (replicate 16 0) (\<lambda>_. example_nat_call)
      (dotted [10, 0, 0, 7] @ [0]) (dotted [9, 9, 9, 9] @ [0]) 3478
      \<lparr>nt_nat_type = 0, nt_port = 0, nt_ipv4 = replicate 16 0\<rparr> [] = Done (3, sent, t, [3]) \<and>
    map (asks \<circ> snd) sent = [Some (False, False), Some (True, True), Some (False, False)] \<and> nt_nat_type t = SYM_NAT \<and> nt_port t = 54321"
proof -
  let ?out = "(of_host32 [5, 6, 7, 8], 54321) :: u32 \<times> u16"
  have "host32 (of_host32 [10, 0, 0, 7]) = [10, 0, 0, 7]"
    by (rule host32_of_host32) simp
  then have me: "inet_addr (dotted [10, 0, 0, 7] @ [0]) = of_host32 [10, 0, 0, 7]"
    by (intro inet_addr_dotted) (simp only: c_str_dotted)
  have "host32 (of_host32 [10, 0, 0, 7]) \<noteq> host32 (of_host32 [5, 6, 7, 8])"
    by (simp add: host32_of_host32)
  then have other: "of_host32 [5, 6, 7, 8] \<noteq> of_host32 [10, 0, 0, 7]"
    by metis
  have net: "through_nat PortRestrictedCone \<lparr>sin_addr = inet_addr (dotted [9, 9, 9, 9] @ [0]), sin_port = htons (of_int 3478)\<rparr> ?out example_nat_call"
    using example_through_nat by (simp add: example_stun_server_def)
  from nat_verdicts [OF net, of "dotted [10, 0, 0, 7] @ [0]" "replicate 16 0" "\<lparr>nt_nat_type = 0, nt_port = 0, nt_ipv4 = replicate 16 0\<rparr>"
      "\<lparr>sk_socket = 3, sk_setsockopt = 0, sk_bind = 0\<rparr>" "\<lambda>_. 1" "[]"]
  show ?thesis
    using other by (auto simp: nat_result_def behind_nat_def me)
qed

end
