(* ===== verification/StunTypes.thy ===== *)
theory StunTypes
  imports NosePrelude
begin

text \<open>
  The protocol constants and small types of \<open>stuncore/stuntypes.h\<close>, \<open>stuncore/socketrole.h\<close>
  and \<open>stuncore/stunauth.h\<close>. The collection \<open>stun_consts\<close> holds the values of the constants.
\<close>

section \<open>stuntypes.h\<close>

definition DEFAULT_STUN_PORT :: u16 where [stun_consts]: "DEFAULT_STUN_PORT = 3478"
definition DEFAULT_STUN_TLS_PORT :: u16 where [stun_consts]: "DEFAULT_STUN_TLS_PORT = 5349"
definition STUN_ATTRIBUTE_MAPPEDADDRESS :: u16 where [stun_consts]: "STUN_ATTRIBUTE_MAPPEDADDRESS = 0x0001"
definition STUN_ATTRIBUTE_RESPONSEADDRESS :: u16 where [stun_consts]: "STUN_ATTRIBUTE_RESPONSEADDRESS = 0x0002"
definition STUN_ATTRIBUTE_CHANGEREQUEST :: u16 where [stun_consts]: "STUN_ATTRIBUTE_CHANGEREQUEST = 0x0003"
definition STUN_ATTRIBUTE_SOURCEADDRESS :: u16 where [stun_consts]: "STUN_ATTRIBUTE_SOURCEADDRESS = 0x0004"
definition STUN_ATTRIBUTE_CHANGEDADDRESS :: u16 where [stun_consts]: "STUN_ATTRIBUTE_CHANGEDADDRESS = 0x0005"
definition STUN_ATTRIBUTE_USERNAME :: u16 where [stun_consts]: "STUN_ATTRIBUTE_USERNAME = 0x0006"
definition STUN_ATTRIBUTE_LEGACY_PASSWORD :: u16 where [stun_consts]: "STUN_ATTRIBUTE_LEGACY_PASSWORD = 0x0007"
definition STUN_ATTRIBUTE_MESSAGEINTEGRITY :: u16 where [stun_consts]: "STUN_ATTRIBUTE_MESSAGEINTEGRITY = 0x0008"
definition STUN_ATTRIBUTE_ERRORCODE :: u16 where [stun_consts]: "STUN_ATTRIBUTE_ERRORCODE = 0x0009"
definition STUN_ATTRIBUTE_UNKNOWNATTRIBUTES :: u16 where [stun_consts]: "STUN_ATTRIBUTE_UNKNOWNATTRIBUTES = 0x000A"
definition STUN_ATTRIBUTE_REFLECTEDFROM :: u16 where [stun_consts]: "STUN_ATTRIBUTE_REFLECTEDFROM = 0x000B"
definition STUN_ATTRIBUTE_REALM :: u16 where [stun_consts]: "STUN_ATTRIBUTE_REALM = 0x0014"
definition STUN_ATTRIBUTE_NONCE :: u16 where [stun_consts]: "STUN_ATTRIBUTE_NONCE = 0x0015"
definition STUN_ATTRIBUTE_XORMAPPEDADDRESS :: u16 where [stun_consts]: "STUN_ATTRIBUTE_XORMAPPEDADDRESS = 0x0020"
definition STUN_ATTRIBUTE_PADDING :: u16 where [stun_consts]: "STUN_ATTRIBUTE_PADDING = 0x0026"
definition STUN_ATTRIBUTE_RESPONSE_PORT :: u16 where [stun_consts]: "STUN_ATTRIBUTE_RESPONSE_PORT = 0x0027"
definition STUN_ATTRIBUTE_XORMAPPEDADDRESS_OPTIONAL :: u16 where [stun_consts]: "STUN_ATTRIBUTE_XORMAPPEDADDRESS_OPTIONAL = 0x8020"
definition STUN_ATTRIBUTE_SOFTWARE :: u16 where [stun_consts]: "STUN_ATTRIBUTE_SOFTWARE = 0x8022"
definition STUN_ATTRIBUTE_ALTERNATESERVER :: u16 where [stun_consts]: "STUN_ATTRIBUTE_ALTERNATESERVER = 0x8023"
definition STUN_ATTRIBUTE_FINGERPRINT :: u16 where [stun_consts]: "STUN_ATTRIBUTE_FINGERPRINT = 0x8028"
definition STUN_ATTRIBUTE_RESPONSE_ORIGIN :: u16 where [stun_consts]: "STUN_ATTRIBUTE_RESPONSE_ORIGIN = 0x802b"
definition STUN_ATTRIBUTE_OTHER_ADDRESS :: u16 where [stun_consts]: "STUN_ATTRIBUTE_OTHER_ADDRESS = 0x802c"

definition STUN_TRANSACTION_ID_LENGTH :: nat where [stun_consts]: "STUN_TRANSACTION_ID_LENGTH = 16"
definition STUN_ATTRIBUTE_FIELD_IPV4 :: byte where [stun_consts]: "STUN_ATTRIBUTE_FIELD_IPV4 = 1"
definition STUN_ATTRIBUTE_FIELD_IPV6 :: byte where [stun_consts]: "STUN_ATTRIBUTE_FIELD_IPV6 = 2"
definition STUN_IPV4_LENGTH :: nat where [stun_consts]: "STUN_IPV4_LENGTH = 4"
definition STUN_IPV6_LENGTH :: nat where [stun_consts]: "STUN_IPV6_LENGTH = 16"

definition STUN_ERROR_TRYALTERNATE :: u16 where [stun_consts]: "STUN_ERROR_TRYALTERNATE = 300"
definition STUN_ERROR_BADREQUEST :: u16 where [stun_consts]: "STUN_ERROR_BADREQUEST = 400"
definition STUN_ERROR_UNAUTHORIZED :: u16 where [stun_consts]: "STUN_ERROR_UNAUTHORIZED = 401"
definition STUN_ERROR_UNKNOWNATTRIB :: u16 where [stun_consts]: "STUN_ERROR_UNKNOWNATTRIB = 420"
definition STUN_ERROR_STALENONCE :: u16 where [stun_consts]: "STUN_ERROR_STALENONCE = 438"
definition STUN_ERROR_SERVERERROR :: u16 where [stun_consts]: "STUN_ERROR_SERVERERROR = 500"

datatype StunMessageClass =
    StunMsgClassRequest
  | StunMsgClassIndication
  | StunMsgClassSuccessResponse
  | StunMsgClassFailureResponse
  | StunMsgClassInvalidMessageClass

text \<open>The values of the enumerations.\<close>

fun StunMessageClass_val :: "StunMessageClass \<Rightarrow> u16" where
  "StunMessageClass_val StunMsgClassRequest = 0x00"
| "StunMessageClass_val StunMsgClassIndication = 0x01"
| "StunMessageClass_val StunMsgClassSuccessResponse = 0x02"
| "StunMessageClass_val StunMsgClassFailureResponse = 0x03"
| "StunMessageClass_val StunMsgClassInvalidMessageClass = 0xff"

definition StunMsgTypeBinding :: u16 where [stun_consts]: "StunMsgTypeBinding = 0x0001"
definition StunMsgTypeInvalid :: u16 where [stun_consts]: "StunMsgTypeInvalid = 0xffff"

record StunAttribute =
  sa_attributeType :: u16
  sa_size :: u16
  sa_offset :: u16

record StunChangeRequestAttribute =
  fChangeIP :: bool
  fChangePort :: bool

definition STUN_ATTRIBUTE_MAPPEDADDRESS_SIZE_IPV4 :: u16 where [stun_consts]: "STUN_ATTRIBUTE_MAPPEDADDRESS_SIZE_IPV4 = 8"
definition STUN_ATTRIBUTE_MAPPEDADDRESS_SIZE_IPV6 :: u16 where [stun_consts]: "STUN_ATTRIBUTE_MAPPEDADDRESS_SIZE_IPV6 = 20"
definition STUN_ATTRIBUTE_RESPONSE_PORT_SIZE :: u16 where [stun_consts]: "STUN_ATTRIBUTE_RESPONSE_PORT_SIZE = 2"
definition STUN_ATTRIBUTE_CHANGEREQUEST_SIZE :: u16 where [stun_consts]: "STUN_ATTRIBUTE_CHANGEREQUEST_SIZE = 4"

definition STUN_IS_REQUEST :: "u16 \<Rightarrow> bool" where
  "STUN_IS_REQUEST msg_type \<longleftrightarrow> msg_type AND 0x0110 = 0x0000"

definition STUN_IS_INDICATION :: "u16 \<Rightarrow> bool" where
  "STUN_IS_INDICATION msg_type \<longleftrightarrow> msg_type AND 0x0110 = 0x0010"

definition STUN_IS_SUCCESS_RESP :: "u16 \<Rightarrow> bool" where
  "STUN_IS_SUCCESS_RESP msg_type \<longleftrightarrow> msg_type AND 0x0110 = 0x0100"

definition STUN_IS_ERR_RESP :: "u16 \<Rightarrow> bool" where
  "STUN_IS_ERR_RESP msg_type \<longleftrightarrow> msg_type AND 0x0110 = 0x0110"

text \<open>A \<open>StunTransactionId\<close> is its 16 bytes; \<open>operator==\<close> is equality of the lists.\<close>

type_synonym StunTransactionId = bytes

definition transid_ok :: "StunTransactionId \<Rightarrow> bool" where
  "transid_ok t \<longleftrightarrow> length t = STUN_TRANSACTION_ID_LENGTH"

lemma transid_ok_length [simp]: "transid_ok t \<Longrightarrow> length t = 16"
  by (simp add: transid_ok_def stun_consts)

definition STUN_COOKIE :: u32 where [stun_consts]: "STUN_COOKIE = 0x2112A442"
definition STUN_FINGERPRINT_XOR :: u32 where [stun_consts]: "STUN_FINGERPRINT_XOR = 0x5354554e"
definition STUN_HEADER_SIZE :: nat where [stun_consts]: "STUN_HEADER_SIZE = 20"
definition MAX_STUN_MESSAGE_SIZE :: nat where [stun_consts]: "MAX_STUN_MESSAGE_SIZE = 800"
definition MAX_STUN_ATTRIBUTE_SIZE :: nat where [stun_consts]: "MAX_STUN_ATTRIBUTE_SIZE = 780"

section \<open>socketrole.h\<close>

datatype SocketRole = RolePP | RolePA | RoleAP | RoleAA

fun SocketRole_val :: "SocketRole \<Rightarrow> u16" where
  "SocketRole_val RolePP = 0"
| "SocketRole_val RolePA = 1"
| "SocketRole_val RoleAP = 2"
| "SocketRole_val RoleAA = 3"

text \<open>The cast back from an integer; the code casts values from 0 to 3 only.\<close>

definition SocketRole_of :: "u16 \<Rightarrow> SocketRole" where
  "SocketRole_of n = (if n = 0 then RolePP else if n = 1 then RolePA
     else if n = 2 then RoleAP else RoleAA)"

definition SocketRoleSwapPort :: "SocketRole \<Rightarrow> SocketRole" where
  "SocketRoleSwapPort sr = SocketRole_of (SocketRole_val sr XOR 0x01)"

definition SocketRoleSwapIP :: "SocketRole \<Rightarrow> SocketRole" where
  "SocketRoleSwapIP sr = SocketRole_of (SocketRole_val sr XOR 0x02)"

lemma SocketRoleSwapPort_simps [simp]:
  "SocketRoleSwapPort RolePP = RolePA" "SocketRoleSwapPort RolePA = RolePP"
  "SocketRoleSwapPort RoleAP = RoleAA" "SocketRoleSwapPort RoleAA = RoleAP"
  by (simp_all add: SocketRoleSwapPort_def SocketRole_of_def)

lemma SocketRoleSwapIP_simps [simp]:
  "SocketRoleSwapIP RolePP = RoleAP" "SocketRoleSwapIP RolePA = RoleAA"
  "SocketRoleSwapIP RoleAP = RolePP" "SocketRoleSwapIP RoleAA = RolePA"
  by (simp_all add: SocketRoleSwapIP_def SocketRole_of_def)

section \<open>stunauth.h\<close>

text \<open>The strings are the bytes before the terminating null byte.\<close>

definition MAX_STUN_AUTH_STRING_SIZE :: nat where [stun_consts]: "MAX_STUN_AUTH_STRING_SIZE = 64"

record AuthAttributes =
  aa_szUser :: bytes
  aa_szRealm :: bytes
  aa_szNonce :: bytes
  aa_szLegacyPassword :: bytes
  aa_fMessageIntegrityPresent :: bool

datatype AuthCredentialMechanism = AuthCredShortTerm | AuthCredLongTerm

datatype AuthResponseType = Allow | AllowConditional | StaleNonce | Reject | Unauthorized

record AuthResponse =
  ar_responseType :: AuthResponseType
  ar_authCredMech :: AuthCredentialMechanism
  ar_szPassword :: bytes
  ar_szRealm :: bytes
  ar_szNonce :: bytes

end
