(* ===== verification/StunBuffer.thy ===== *)
theory StunBuffer
  imports NosePrelude
begin

text \<open>
  \<open>CBuffer\<close> (\<open>stunserver/stuncore/buffer.h\<close>, \<open>buffer.cpp\<close>): a block of memory with a
  logical size and an allocated size. \<open>cb_data\<close> is what \<open>_data\<close> points to (\<open>None\<close> for the
  null pointer), the two terminating bytes of an owned block included. Memory fresh from
  \<open>new\<close> has the unspecified content \<open>uninit_byte\<close>, which no lemma unfolds.
\<close>

definition uninit_byte :: byte where
  "uninit_byte = 0"

record cbuffer =
  cb_data :: "bytes option"
  cb_size :: nat
  cb_allocated :: nat

definition CB_null :: cbuffer where
  "CB_null = \<lparr>cb_data = None, cb_size = 0, cb_allocated = 0\<rparr>"

definition CB_Reset :: "cbuffer \<Rightarrow> cbuffer" where
  "CB_Reset b = b\<lparr>cb_data := None, cb_size := 0, cb_allocated := 0\<rparr>"

text \<open>\<open>InitWithAllocation\<close>: \<open>new\<close> either returns a block or throws, so \<open>_data\<close> is not null.\<close>

definition CB_InitWithAllocation :: "cbuffer \<Rightarrow> nat \<Rightarrow> hresult \<times> cbuffer" where
  "CB_InitWithAllocation b n =
     (S_OK, (CB_Reset b)\<lparr>cb_data := Some (replicate n uninit_byte @ [0, 0]),
                        cb_size := n, cb_allocated := n\<rparr>)"

definition CB_new :: "nat \<Rightarrow> cbuffer" where
  "CB_new n = snd (CB_InitWithAllocation CB_null n)"

definition CB_InitNoAlloc :: "cbuffer \<Rightarrow> bytes option \<Rightarrow> nat \<Rightarrow> hresult \<times> cbuffer" where
  "CB_InitNoAlloc b p n =
     (let n = (if p = None then 0 else n) in
      (S_OK, (CB_Reset b)\<lparr>cb_data := p, cb_size := n, cb_allocated := n\<rparr>))"

definition CB_InitWithAllocAndCopy :: "cbuffer \<Rightarrow> bytes option \<Rightarrow> nat \<Rightarrow> hresult \<times> cbuffer" where
  "CB_InitWithAllocAndCopy b p n =
     (let n = (if p = None then 0 else n) in
      chk (CB_InitWithAllocation (CB_Reset b) n)
        (\<lambda>b'. (S_OK, b'\<lparr>cb_data := map_option
            (\<lambda>d. splice_at d 0 (take n (case p of None \<Rightarrow> [] | Some src \<Rightarrow> src))) (cb_data b')\<rparr>)))"

text \<open>The constructor from a byte array.\<close>

definition CB_of_array :: "bytes option \<Rightarrow> nat \<Rightarrow> bool \<Rightarrow> cbuffer" where
  "CB_of_array p n fCopy =
     (if \<not> fCopy then snd (CB_InitNoAlloc CB_null p n)
      else snd (CB_InitWithAllocAndCopy CB_null p n))"

text \<open>
  \<open>SetSize\<close> assigns the comparison itself to the result code, so the code is 1 or 0, which
  are both successes.
\<close>

definition CB_SetSize :: "cbuffer \<Rightarrow> nat \<Rightarrow> hresult \<times> cbuffer" where
  "CB_SetSize b n =
     (let hr = (if n \<le> cb_allocated b then 1 else 0) in
      (hr, if SUCCEEDED hr then b\<lparr>cb_size := n\<rparr> else b))"

definition CB_IsValid :: "cbuffer \<Rightarrow> bool" where
  "CB_IsValid b \<longleftrightarrow> cb_data b \<noteq> None"

section \<open>Well-formed buffers and their contents\<close>

definition buffer_ok :: "cbuffer \<Rightarrow> bool" where
  "buffer_ok b = (case cb_data b of
       None \<Rightarrow> cb_size b = 0 \<and> cb_allocated b = 0
     | Some d \<Rightarrow> cb_size b \<le> cb_allocated b \<and> cb_allocated b \<le> length d)"

definition cb_contents :: "cbuffer \<Rightarrow> bytes" where
  "cb_contents b = (case cb_data b of None \<Rightarrow> [] | Some d \<Rightarrow> take (cb_size b) d)"

lemma length_cb_contents [simp]: "buffer_ok b \<Longrightarrow> length (cb_contents b) = cb_size b"
  by (auto simp: buffer_ok_def cb_contents_def split: option.splits)

lemma CB_new_simps [simp]:
  "cb_data (CB_new n) = Some (replicate n uninit_byte @ [0, 0])" "cb_size (CB_new n) = n"
  "cb_allocated (CB_new n) = n" "CB_IsValid (CB_new n)" "buffer_ok (CB_new n)"
  by (simp_all add: CB_new_def CB_InitWithAllocation_def CB_IsValid_def buffer_ok_def)

lemma CB_SetSize_eq [simp]:
  "CB_SetSize b n = ((if n \<le> cb_allocated b then 1 else 0), b\<lparr>cb_size := n\<rparr>)"
  by (simp add: CB_SetSize_def)

lemma CB_SetSize_ok: "buffer_ok b \<Longrightarrow> n \<le> cb_allocated b \<Longrightarrow> buffer_ok (snd (CB_SetSize b n))"
  by (auto simp: buffer_ok_def split: option.splits)

lemma CB_of_array_copy:
  "length src = n \<Longrightarrow> buffer_ok (CB_of_array (Some src) n True) \<and>
   cb_contents (CB_of_array (Some src) n True) = src"
  by (simp add: CB_of_array_def CB_InitWithAllocAndCopy_def CB_InitWithAllocation_def
      CB_Reset_def CB_null_def buffer_ok_def cb_contents_def splice_at_def)

lemma CB_of_array_nocopy:
  "n \<le> length src \<Longrightarrow> buffer_ok (CB_of_array (Some src) n False) \<and>
   cb_contents (CB_of_array (Some src) n False) = take n src"
  by (simp add: CB_of_array_def CB_InitNoAlloc_def CB_Reset_def CB_null_def buffer_ok_def
      cb_contents_def)

end
