(* ===== verification/StunStream.thy ===== *)
theory StunStream
  imports StunBuffer
begin

text \<open>
  \<open>CDataStream\<close> (\<open>stunserver/stuncore/datastream.h\<close>, \<open>datastream.cpp\<close>): a position in a
  shared, growable buffer. \<open>ds_buffer\<close> is the object behind \<open>_spBuffer\<close> and \<open>_pBuffer\<close>
  (the code keeps the two equal). The buffer given to \<open>Attach\<close> stays shared with the
  caller until \<open>Grow\<close> replaces it: \<open>ds_left\<close> then keeps the object that was left behind,
  as the caller goes on seeing it.
  Below the operations stands the contract of a byte sink, and its interpretation on the
  stream: the operations act on the contents and the position, whatever the allocation.
\<close>

record cstream =
  ds_buffer :: "cbuffer option"
  ds_pos :: nat
  ds_fNoGrow :: bool
  ds_left :: "cbuffer option"

definition DS_null :: cstream where
  "DS_null = \<lparr>ds_buffer = None, ds_pos = 0, ds_fNoGrow = False, ds_left = None\<rparr>"

definition DS_of_buffer :: "cbuffer \<Rightarrow> cstream" where
  "DS_of_buffer b = \<lparr>ds_buffer = Some b, ds_pos = 0, ds_fNoGrow = False, ds_left = None\<rparr>"

definition DS_Reset :: "cstream \<Rightarrow> cstream" where
  "DS_Reset s = s\<lparr>ds_buffer := None, ds_pos := 0, ds_fNoGrow := False, ds_left := None\<rparr>"

definition DS_Attach :: "cstream \<Rightarrow> cbuffer option \<Rightarrow> bool \<Rightarrow> cstream" where
  "DS_Attach s buf fForWriting = (DS_Reset s)\<lparr>ds_buffer :=
     (case buf of None \<Rightarrow> None
      | Some b \<Rightarrow> Some (if fForWriting then snd (CB_SetSize b 0) else b))\<rparr>"

definition DS_GetSize :: "cstream \<Rightarrow> nat" where
  "DS_GetSize s = (case ds_buffer s of None \<Rightarrow> 0 | Some b \<Rightarrow> cb_size b)"

definition DS_allocated :: "cstream \<Rightarrow> nat" where
  "DS_allocated s = (case ds_buffer s of None \<Rightarrow> 0 | Some b \<Rightarrow> cb_allocated b)"

definition DS_GetDataPointerUnsafe :: "cstream \<Rightarrow> bytes option" where
  "DS_GetDataPointerUnsafe s = (case ds_buffer s of None \<Rightarrow> None | Some b \<Rightarrow> cb_data b)"

text \<open>The bytes the data pointer leads to; none behind a null pointer.\<close>

definition DS_memory :: "cstream \<Rightarrow> bytes" where
  "DS_memory s = (case DS_GetDataPointerUnsafe s of None \<Rightarrow> [] | Some d \<Rightarrow> d)"

definition DS_GetPos :: "cstream \<Rightarrow> nat" where
  "DS_GetPos s = ds_pos s"

definition DS_IsEOF :: "cstream \<Rightarrow> bool" where
  "DS_IsEOF s \<longleftrightarrow> DS_GetSize s \<le> ds_pos s"

definition DS_SetNoGrow :: "cstream \<Rightarrow> bool \<Rightarrow> cstream" where
  "DS_SetNoGrow s f = s\<lparr>ds_fNoGrow := f\<rparr>"

definition DS_GetBuffer :: "cstream \<Rightarrow> cbuffer option" where
  "DS_GetBuffer s = ds_buffer s"

text \<open>\<open>Read\<close>: the code, the bytes copied out, and the stream after it.\<close>

definition DS_Read :: "cstream \<Rightarrow> nat \<Rightarrow> hresult \<times> bytes \<times> cstream" where
  "DS_Read s n =
     (let newpos = n + ds_pos s; currentSize = DS_GetSize s in
      if newpos > currentSize then (E_INVALIDARG, [], s)
      else (S_OK, segment (DS_memory s) (ds_pos s) n, s\<lparr>ds_pos := newpos\<rparr>))"

definition DS_Grow :: "cstream \<Rightarrow> nat \<Rightarrow> hresult \<times> cstream" where
  "DS_Grow s n =
     (let currentAllocated = DS_allocated s; currentSize = DS_GetSize s in
      if n \<le> currentAllocated then (S_OK, s)
      else if ds_fNoGrow s then (E_FAIL, s)
      else
        let newallocationsize = (if n > currentAllocated * 2 then n else currentAllocated * 2);
            spNewBuffer = CB_new newallocationsize in
        if \<not> CB_IsValid spNewBuffer then (E_OUTOFMEMORY, s)
        else
          let spNewBuffer = snd (CB_SetSize spNewBuffer currentSize);
              spNewBuffer = (if ds_buffer s \<noteq> None \<and> currentSize > 0
                then spNewBuffer\<lparr>cb_data := map_option
                       (\<lambda>d. splice_at d 0 (take currentSize (DS_memory s))) (cb_data spNewBuffer)\<rparr>
                else spNewBuffer) in
          (S_OK, s\<lparr>ds_buffer := Some spNewBuffer,
                   ds_left := (case ds_left s of None \<Rightarrow> ds_buffer s | Some l \<Rightarrow> Some l)\<rparr>))"

definition DS_SetSizeHint :: "cstream \<Rightarrow> nat \<Rightarrow> hresult \<times> cstream" where
  "DS_SetSizeHint s n = DS_Grow s n"

text \<open>
  \<open>Write\<close> of the bytes \<open>bs\<close>; the null pointer and the size 0 are refused alike, and both are
  the empty list here.
\<close>

definition DS_Write :: "cstream \<Rightarrow> bytes \<Rightarrow> hresult \<times> cstream" where
  "DS_Write s bs =
     (let newposition = length bs + ds_pos s; currentSize = DS_GetSize s in
      if bs = [] then (E_FAIL, s)
      else chk (DS_Grow s newposition) (\<lambda>s'.
        let s'' = s'\<lparr>ds_buffer := map_option
                      (\<lambda>b. b\<lparr>cb_data := map_option (\<lambda>d. splice_at d (ds_pos s) bs) (cb_data b)\<rparr>)
                      (ds_buffer s'),
                     ds_pos := newposition\<rparr> in
        if newposition > currentSize
        then (case ds_buffer s'' of None \<Rightarrow> (S_OK, s'')
              | Some b \<Rightarrow> (fst (CB_SetSize b newposition),
                          s''\<lparr>ds_buffer := Some (snd (CB_SetSize b newposition))\<rparr>))
        else (S_OK, s'')))"

definition DS_SeekDirect :: "cstream \<Rightarrow> nat \<Rightarrow> hresult \<times> cstream" where
  "DS_SeekDirect s p =
     (if p \<le> DS_GetSize s then (S_OK, s\<lparr>ds_pos := p\<rparr>) else (E_FAIL, s))"

text \<open>The \<open>int\<close> offset is converted to \<open>size_t\<close>, so the sum is taken modulo the 64-bit range.\<close>

definition DS_SeekRelative :: "cstream \<Rightarrow> int \<Rightarrow> hresult \<times> cstream" where
  "DS_SeekRelative s off = DS_SeekDirect s (nat ((off + int (ds_pos s)) mod 2 ^ 64))"

section \<open>Contents and position\<close>

definition ds_contents :: "cstream \<Rightarrow> bytes" where
  "ds_contents s = (case ds_buffer s of None \<Rightarrow> [] | Some b \<Rightarrow> cb_contents b)"

definition stream_ok :: "cstream \<Rightarrow> bool" where
  "stream_ok s \<longleftrightarrow> (case ds_buffer s of None \<Rightarrow> True | Some b \<Rightarrow> buffer_ok b)
     \<and> ds_pos s \<le> DS_GetSize s \<and> \<not> ds_fNoGrow s"

text \<open>The stream still writes into the buffer it was attached to.\<close>

definition ds_in_place :: "cstream \<Rightarrow> bool" where
  "ds_in_place s \<longleftrightarrow> ds_buffer s \<noteq> None \<and> ds_left s = None"

lemma length_ds_contents [simp]: "stream_ok s \<Longrightarrow> length (ds_contents s) = DS_GetSize s"
  by (auto simp: stream_ok_def ds_contents_def DS_GetSize_def split: option.splits)

lemma ds_contents_memory: "stream_ok s \<Longrightarrow> ds_contents s = take (DS_GetSize s) (DS_memory s)"
  by (auto simp: stream_ok_def ds_contents_def DS_GetSize_def DS_memory_def
      DS_GetDataPointerUnsafe_def cb_contents_def split: option.splits)

lemma DS_memory_long: "stream_ok s \<Longrightarrow> DS_GetSize s \<le> length (DS_memory s)"
  by (auto simp: stream_ok_def DS_GetSize_def DS_memory_def buffer_ok_def
      DS_GetDataPointerUnsafe_def split: option.splits)

lemma DS_null_ok [simp]: "stream_ok DS_null" "ds_contents DS_null = []" "ds_pos DS_null = 0"
  "DS_GetSize DS_null = 0"
  by (simp_all add: stream_ok_def DS_null_def DS_GetSize_def ds_contents_def)

lemma DS_Attach_writing:
  assumes "buffer_ok b"
  shows "stream_ok (DS_Attach s (Some b) True)" "ds_contents (DS_Attach s (Some b) True) = []"
    "ds_pos (DS_Attach s (Some b) True) = 0" "DS_GetSize (DS_Attach s (Some b) True) = 0"
    "ds_in_place (DS_Attach s (Some b) True)"
    "DS_allocated (DS_Attach s (Some b) True) = cb_allocated b"
  using assms by (simp_all add: DS_Attach_def DS_Reset_def stream_ok_def DS_GetSize_def
      ds_contents_def cb_contents_def ds_in_place_def DS_allocated_def buffer_ok_def
      split: option.splits)

lemma DS_Grow_ok:
  assumes "stream_ok s"
  shows "\<not> FAILED (fst (DS_Grow s n))" "stream_ok (snd (DS_Grow s n))"
    "ds_contents (snd (DS_Grow s n)) = ds_contents s" "ds_pos (snd (DS_Grow s n)) = ds_pos s"
    "n \<le> DS_allocated (snd (DS_Grow s n))" "DS_GetSize (snd (DS_Grow s n)) = DS_GetSize s"
  using assms DS_memory_long [OF assms] ds_contents_memory [OF assms]
  by (auto simp: DS_Grow_def Let_def stream_ok_def DS_GetSize_def DS_allocated_def
      buffer_ok_def ds_contents_def cb_contents_def splice_at_def split: option.splits)

lemma DS_Grow_in_place:
  "n \<le> DS_allocated s \<Longrightarrow> DS_Grow s n = (S_OK, s)"
  by (simp add: DS_Grow_def)

lemma DS_Write_after_grow:
  assumes ok: "stream_ok s" and ne: "bs \<noteq> []"
    and room: "length bs + ds_pos s \<le> DS_allocated s"
  shows "\<not> FAILED (fst (DS_Write s bs))" "stream_ok (snd (DS_Write s bs))"
    "ds_contents (snd (DS_Write s bs)) = splice_at (ds_contents s) (ds_pos s) bs"
    "ds_pos (snd (DS_Write s bs)) = ds_pos s + length bs"
    "DS_allocated (snd (DS_Write s bs)) = DS_allocated s"
    "ds_left (snd (DS_Write s bs)) = ds_left s" "ds_buffer (snd (DS_Write s bs)) \<noteq> None"
proof -
  have "\<exists>b. ds_buffer s = Some b"
    using room ne by (cases "ds_buffer s") (auto simp: DS_allocated_def)
  then obtain b where b: "ds_buffer s = Some b" by blast
  have "\<exists>d. cb_data b = Some d"
    using ok room ne b
    by (auto simp: stream_ok_def buffer_ok_def DS_allocated_def split: option.splits)
  then obtain d where d: "cb_data b = Some d" by blast
  have len: "cb_size b \<le> cb_allocated b" "cb_allocated b \<le> length d" "ds_pos s \<le> cb_size b"
    "\<not> ds_fNoGrow s" "length bs + ds_pos s \<le> cb_allocated b"
    using ok b d room
    by (auto simp: stream_ok_def buffer_ok_def DS_GetSize_def DS_allocated_def)
  have tk: "take (max (cb_size b) (ds_pos s + length bs)) (splice_at d (ds_pos s) bs)
      = splice_at (take (cb_size b) d) (ds_pos s) bs"
    using len by (intro take_splice_at) auto
  show "\<not> FAILED (fst (DS_Write s bs))" "stream_ok (snd (DS_Write s bs))"
    "ds_pos (snd (DS_Write s bs)) = ds_pos s + length bs"
    "DS_allocated (snd (DS_Write s bs)) = DS_allocated s"
    "ds_left (snd (DS_Write s bs)) = ds_left s" "ds_buffer (snd (DS_Write s bs)) \<noteq> None"
    using ne b d len
    by (auto simp: DS_Write_def Let_def DS_Grow_in_place DS_GetSize_def DS_allocated_def
        stream_ok_def buffer_ok_def splice_at_def)
  show "ds_contents (snd (DS_Write s bs)) = splice_at (ds_contents s) (ds_pos s) bs"
    using ne b d len tk
    by (auto simp: DS_Write_def Let_def DS_Grow_in_place DS_GetSize_def DS_allocated_def
        ds_contents_def cb_contents_def max_def add.commute split: if_splits)
qed

lemma DS_Write_grow:
  assumes "stream_ok s" "bs \<noteq> []"
  shows "DS_Write s bs = DS_Write (snd (DS_Grow s (length bs + ds_pos s))) bs"
proof -
  obtain h g where g: "DS_Grow s (length bs + ds_pos s) = (h, g)"
    by fastforce
  have p: "ds_pos g = ds_pos s" "DS_GetSize g = DS_GetSize s" "\<not> FAILED h"
    "length bs + ds_pos s \<le> DS_allocated g"
    using DS_Grow_ok [OF assms(1), of "length bs + ds_pos s"] g by simp_all
  have "DS_Grow g (length bs + ds_pos g) = (S_OK, g)"
    using p by (intro DS_Grow_in_place) simp
  then show ?thesis
    using assms(2) g p by (simp add: DS_Write_def)
qed

lemma DS_Write_ok:
  assumes ok: "stream_ok s" and ne: "bs \<noteq> []"
  shows "\<not> FAILED (fst (DS_Write s bs))" "stream_ok (snd (DS_Write s bs))"
    "ds_contents (snd (DS_Write s bs)) = splice_at (ds_contents s) (ds_pos s) bs"
    "ds_pos (snd (DS_Write s bs)) = ds_pos s + length bs"
proof -
  let ?g = "snd (DS_Grow s (length bs + ds_pos s))"
  note g = DS_Grow_ok [OF ok, of "length bs + ds_pos s"]
  have room: "length bs + ds_pos ?g \<le> DS_allocated ?g"
    using g by simp
  note w = DS_Write_after_grow [OF g(2) ne room] DS_Write_grow [OF ok ne]
  show "\<not> FAILED (fst (DS_Write s bs))" "stream_ok (snd (DS_Write s bs))"
    "ds_contents (snd (DS_Write s bs)) = splice_at (ds_contents s) (ds_pos s) bs"
    "ds_pos (snd (DS_Write s bs)) = ds_pos s + length bs"
    using w g by simp_all
qed

lemma DS_Write_empty [simp]: "DS_Write s [] = (E_FAIL, s)"
  by (simp add: DS_Write_def Let_def)

lemma DS_Read_ok:
  assumes "stream_ok s"
  shows "n + ds_pos s \<le> DS_GetSize s \<Longrightarrow>
      DS_Read s n = (S_OK, segment (ds_contents s) (ds_pos s) n, s\<lparr>ds_pos := n + ds_pos s\<rparr>)"
    "DS_GetSize s < n + ds_pos s \<Longrightarrow> DS_Read s n = (E_INVALIDARG, [], s)"
  using ds_contents_memory [OF assms]
  by (auto simp: DS_Read_def Let_def segment_take add.commute)

lemma DS_SeekDirect_ok:
  "p \<le> DS_GetSize s \<Longrightarrow> DS_SeekDirect s p = (S_OK, s\<lparr>ds_pos := p\<rparr>)"
  "DS_GetSize s < p \<Longrightarrow> DS_SeekDirect s p = (E_FAIL, s)"
  by (simp_all add: DS_SeekDirect_def)

lemma DS_SeekRelative_forward:
  assumes "ds_pos s + n < 2 ^ 64"
  shows "DS_SeekRelative s (int n) = DS_SeekDirect s (ds_pos s + n)"
proof -
  have "(int n + int (ds_pos s)) mod 2 ^ 64 = int (ds_pos s + n)"
    using assms by (subst mod_pos_pos_trivial) auto
  then show ?thesis
    by (simp only: DS_SeekRelative_def nat_int)
qed

lemma DS_SeekRelative_back:
  assumes "n \<le> ds_pos s" "ds_pos s < 2 ^ 64"
  shows "DS_SeekRelative s (- int n) = DS_SeekDirect s (ds_pos s - n)"
proof -
  have "(- int n + int (ds_pos s)) mod 2 ^ 64 = int (ds_pos s - n)"
    using assms by (subst mod_pos_pos_trivial) auto
  then show ?thesis
    by (simp add: DS_SeekRelative_def)
qed

lemma ds_pos_update [simp]:
  "ds_contents (s\<lparr>ds_pos := p\<rparr>) = ds_contents s" "DS_GetSize (s\<lparr>ds_pos := p\<rparr>) = DS_GetSize s"
  "DS_memory (s\<lparr>ds_pos := p\<rparr>) = DS_memory s" "ds_in_place (s\<lparr>ds_pos := p\<rparr>) = ds_in_place s"
  "DS_allocated (s\<lparr>ds_pos := p\<rparr>) = DS_allocated s"
  "stream_ok s \<Longrightarrow> stream_ok (s\<lparr>ds_pos := p\<rparr>) \<longleftrightarrow> p \<le> DS_GetSize s"
  by (simp_all add: ds_contents_def DS_GetSize_def DS_memory_def DS_GetDataPointerUnsafe_def
      stream_ok_def ds_in_place_def DS_allocated_def)

section \<open>The contract of a byte sink\<close>

text \<open>
  What the message builder relies on: a write succeeds, replaces the bytes from the position
  on and moves the position behind them. \<open>appends r s bs\<close> states of a call that it
  succeeded and only appended \<open>bs\<close>.
\<close>

locale byte_sink =
  fixes emit :: "'s \<Rightarrow> bytes \<Rightarrow> hresult \<times> 's"
    and contents :: "'s \<Rightarrow> bytes"
    and position :: "'s \<Rightarrow> nat"
    and invar :: "'s \<Rightarrow> bool"
  assumes emit_succeeds: "invar s \<Longrightarrow> bs \<noteq> [] \<Longrightarrow> \<not> FAILED (fst (emit s bs))"
    and emit_invar: "invar s \<Longrightarrow> bs \<noteq> [] \<Longrightarrow> invar (snd (emit s bs))"
    and emit_contents: "invar s \<Longrightarrow> bs \<noteq> [] \<Longrightarrow>
      contents (snd (emit s bs)) = splice_at (contents s) (position s) bs"
    and emit_position: "invar s \<Longrightarrow> bs \<noteq> [] \<Longrightarrow>
      position (snd (emit s bs)) = position s + length bs"
    and position_bound: "invar s \<Longrightarrow> position s \<le> length (contents s)"
begin

definition at_end :: "'s \<Rightarrow> bool" where
  "at_end s \<longleftrightarrow> invar s \<and> position s = length (contents s)"

definition appends :: "hresult \<times> 's \<Rightarrow> 's \<Rightarrow> bytes \<Rightarrow> bool" where
  "appends r s bs \<longleftrightarrow> \<not> FAILED (fst r) \<and> at_end (snd r) \<and> contents (snd r) = contents s @ bs"

lemma appends_emit: "at_end s \<Longrightarrow> bs \<noteq> [] \<Longrightarrow> appends (emit s bs) s bs"
  by (simp add: appends_def at_end_def emit_succeeds emit_invar emit_contents emit_position)

lemma appends_chk:
  "appends r s bs \<Longrightarrow> (\<And>s'. at_end s' \<Longrightarrow> contents s' = contents s @ bs \<Longrightarrow> appends (k s') s' cs)
    \<Longrightarrow> appends (chk r k) s (bs @ cs)"
  by (simp add: appends_def chk_def)

lemma appends_refl: "at_end s \<Longrightarrow> \<not> FAILED hr \<Longrightarrow> appends (hr, s) s []"
  by (simp add: appends_def)

lemma appends_if:
  "(c \<Longrightarrow> appends r s bs) \<Longrightarrow> (\<not> c \<Longrightarrow> appends r' s cs) \<Longrightarrow>
   appends (if c then r else r') s (if c then bs else cs)"
  by simp

end

text \<open>
  A sink over a buffer of fixed capacity that the owner of the buffer also holds: as long as
  what is written fits, the sink writes into that very buffer.
\<close>

locale shared_sink = byte_sink emit contents position invar
  for emit :: "'s \<Rightarrow> bytes \<Rightarrow> hresult \<times> 's" and contents position invar +
  fixes capacity :: "'s \<Rightarrow> nat"
    and in_place :: "'s \<Rightarrow> bool"
  assumes emit_in_place: "invar s \<Longrightarrow> bs \<noteq> [] \<Longrightarrow> in_place s \<Longrightarrow>
      position s + length bs \<le> capacity s \<Longrightarrow> in_place (snd (emit s bs))"
    and emit_capacity: "invar s \<Longrightarrow> bs \<noteq> [] \<Longrightarrow> in_place s \<Longrightarrow>
      position s + length bs \<le> capacity s \<Longrightarrow> capacity (snd (emit s bs)) = capacity s"
begin

definition keeps :: "hresult \<times> 's \<Rightarrow> 's \<Rightarrow> bytes \<Rightarrow> bool" where
  "keeps r s bs \<longleftrightarrow> appends r s bs \<and> (in_place s \<and> length (contents s @ bs) \<le> capacity s
     \<longrightarrow> in_place (snd r) \<and> capacity (snd r) = capacity s)"

lemma keeps_emit: "at_end s \<Longrightarrow> bs \<noteq> [] \<Longrightarrow> keeps (emit s bs) s bs"
  by (simp add: keeps_def appends_emit emit_in_place emit_capacity at_end_def)

lemma keeps_chk:
  assumes "keeps r s bs"
    and "\<And>s'. at_end s' \<Longrightarrow> contents s' = contents s @ bs \<Longrightarrow> keeps (k s') s' cs"
  shows "keeps (chk r k) s (bs @ cs)"
proof -
  have r: "appends r s bs" "\<not> FAILED (fst r)" "at_end (snd r)" "contents (snd r) = contents s @ bs"
    using assms(1) by (simp_all add: keeps_def appends_def)
  note k = assms(2) [OF r(3,4)]
  have "appends (chk r k) s (bs @ cs)"
    using r k by (simp add: keeps_def appends_def chk_def)
  then show ?thesis
    using r k assms(1) by (simp add: keeps_def chk_def)
qed

lemma keeps_refl: "at_end s \<Longrightarrow> \<not> FAILED hr \<Longrightarrow> keeps (hr, s) s []"
  by (simp add: keeps_def appends_refl)

lemma keeps_emit_if:
  assumes r: "keeps r s bs" and c: "c \<longleftrightarrow> cs \<noteq> []"
  shows "keeps (if c then chk r (\<lambda>s. emit s cs) else r) s (bs @ cs)"
  using r c keeps_chk [OF r, of "\<lambda>s. emit s cs" cs] keeps_emit by (cases c) auto

lemma keeps_drop: "keeps r s bs \<Longrightarrow> \<not> FAILED hr \<Longrightarrow> keeps (hr, snd r) s bs"
  by (simp add: keeps_def appends_def)

lemma keeps_quiet_if:
  assumes r: "keeps r s bs" and c: "c \<longleftrightarrow> cs \<noteq> []"
  shows "keeps (if c then chk r (\<lambda>s. (fst r, snd (emit s cs))) else r) s (bs @ cs)"
proof (cases c)
  case True
  have "\<not> FAILED (fst r)"
    using r by (simp add: keeps_def appends_def)
  then have "keeps (chk r (\<lambda>s. (fst r, snd (emit s cs)))) s (bs @ cs)"
    using c True by (intro keeps_chk [OF r] keeps_drop keeps_emit) auto
  with True show ?thesis
    by simp
qed (use assms in simp)

lemma keeps_nil: "keeps r s bs \<Longrightarrow> bs = cs \<Longrightarrow> keeps r s cs"
  by simp

end

interpretation strm: shared_sink DS_Write ds_contents ds_pos stream_ok DS_allocated ds_in_place
proof
  fix s and bs :: bytes
  assume ok: "stream_ok s" "bs \<noteq> []"
  show "\<not> FAILED (fst (DS_Write s bs))" "stream_ok (snd (DS_Write s bs))"
    "ds_contents (snd (DS_Write s bs)) = splice_at (ds_contents s) (ds_pos s) bs"
    "ds_pos (snd (DS_Write s bs)) = ds_pos s + length bs"
    using DS_Write_ok [OF ok] by simp_all
  assume "ds_in_place s" "ds_pos s + length bs \<le> DS_allocated s"
  then show "ds_in_place (snd (DS_Write s bs))"
    "DS_allocated (snd (DS_Write s bs)) = DS_allocated s"
    using DS_Write_after_grow [OF ok] by (simp_all add: ds_in_place_def)
next
  fix s
  assume "stream_ok s"
  then show "ds_pos s \<le> length (ds_contents s)"
    by (simp add: stream_ok_def)
qed

end
