(* ===== verification/StunAddress.thy ===== *)
theory StunAddress
  imports StunTypes StunStream
begin

text \<open>
  \<open>CSocketAddress\<close> (\<open>stuncore/socketaddress.h\<close>, \<open>socketaddress.cpp\<close>) and the address parsers
  of \<open>stuncore/stunutils.cpp\<close>. The union \<open>simple_sockaddr\<close> is kept as its memory: the family,
  the two port bytes, bytes 4 to 7 (\<open>sin_addr\<close>, or the IPv6 flow label), bytes 8 to 23
  (\<open>sin6_addr\<close>, or the padding of \<open>sockaddr_in\<close> and what lies behind it) and the scope id.
  So an IPv4 address and an IPv6 address share the memory as in the code, and the bytes
  that a constructor leaves alone are \<open>uninit_byte\<close>.
\<close>

definition AF_INET :: u16 where [stun_consts]: "AF_INET = 2"
definition AF_INET6 :: u16 where [stun_consts]: "AF_INET6 = 10"

record CSocketAddress =
  sa_family :: u16
  sa_port :: bytes
  sa_b4 :: bytes
  sa_b16 :: bytes
  sa_scope :: bytes

definition addr_ok :: "CSocketAddress \<Rightarrow> bool" where
  "addr_ok a \<longleftrightarrow> length (sa_port a) = 2 \<and> length (sa_b4 a) = 4 \<and> length (sa_b16 a) = 16
     \<and> length (sa_scope a) = 4"

definition zero_bytes :: "nat \<Rightarrow> bytes" where
  "zero_bytes n = replicate n 0"

lemma length_zero_bytes [simp]: "length (zero_bytes n) = n"
  by (simp add: zero_bytes_def)

section \<open>Constructors and accessors\<close>

definition CSocketAddress_default :: CSocketAddress where
  "CSocketAddress_default = \<lparr>sa_family = AF_INET, sa_port = zero_bytes 2, sa_b4 = zero_bytes 4,
     sa_b16 = zero_bytes 16, sa_scope = zero_bytes 4\<rparr>"

text \<open>
  \<open>CommonConstructor\<close>: how much of the argument is copied depends on its family;
  \<open>sockaddr_in\<close> and \<open>sockaddr\<close> are 16 bytes long.
\<close>

definition CommonConstructor :: "CSocketAddress \<Rightarrow> CSocketAddress" where
  "CommonConstructor addr =
     (if sa_family addr = AF_INET6 then addr
      else addr\<lparr>sa_b16 := take 8 (sa_b16 addr) @ replicate 8 uninit_byte,
                sa_scope := replicate 4 uninit_byte\<rparr>)"

definition CSocketAddress_in6 :: "CSocketAddress \<Rightarrow> CSocketAddress" where
  "CSocketAddress_in6 addr6 = addr6"

definition CSocketAddress_ipv4 :: "u32 \<Rightarrow> u16 \<Rightarrow> CSocketAddress" where
  "CSocketAddress_ipv4 ipHostByteOrder port = \<lparr>sa_family = AF_INET, sa_port = be16 port,
     sa_b4 = be32 ipHostByteOrder, sa_b16 = zero_bytes 8 @ replicate 8 uninit_byte,
     sa_scope = replicate 4 uninit_byte\<rparr>"

text \<open>A zero-initialised \<open>sockaddr_in6\<close> with family, port and address filled in.\<close>

definition sockaddr_in6 :: "bytes \<Rightarrow> bytes \<Rightarrow> CSocketAddress" where
  "sockaddr_in6 port ip = \<lparr>sa_family = AF_INET6, sa_port = port, sa_b4 = zero_bytes 4,
     sa_b16 = ip, sa_scope = zero_bytes 4\<rparr>"

text \<open>\<open>sin_port\<close> and \<open>sin6_port\<close> are at the same place.\<close>

definition GetPort_NBO :: "CSocketAddress \<Rightarrow> bytes" where
  "GetPort_NBO a = (if sa_family a = AF_INET then sa_port a else sa_port a)"

definition GetPort :: "CSocketAddress \<Rightarrow> u16" where
  "GetPort a = of_be16 (GetPort_NBO a)"

definition SetPort :: "CSocketAddress \<Rightarrow> u16 \<Rightarrow> CSocketAddress" where
  "SetPort a port = (if sa_family a = AF_INET then a\<lparr>sa_port := be16 port\<rparr>
     else a\<lparr>sa_port := be16 port\<rparr>)"

definition GetIPLength :: "CSocketAddress \<Rightarrow> nat" where
  "GetIPLength a = (if sa_family a = AF_INET then 4 else 16)"

text \<open>
  \<open>GetIPImpl\<close>: the bytes copied to the caller's buffer of \<open>n\<close> bytes (\<open>None\<close>: a null pointer,
  0 is returned). In host order the four bytes of an IPv4 address come out reversed.
\<close>

definition GetIPImpl :: "CSocketAddress \<Rightarrow> nat option \<Rightarrow> bool \<Rightarrow> bytes" where
  "GetIPImpl a buf fNBO =
     (case buf of None \<Rightarrow> []
      | Some n \<Rightarrow>
          if n \<le> 0 then []
          else if n < GetIPLength a then []
          else if sa_family a = AF_INET
          then (if \<not> fNBO then rev (sa_b4 a) else sa_b4 a)
          else sa_b16 a)"

definition GetIP :: "CSocketAddress \<Rightarrow> nat option \<Rightarrow> bytes" where
  "GetIP a buf = GetIPImpl a buf False"

definition GetIP_NBO :: "CSocketAddress \<Rightarrow> nat option \<Rightarrow> bytes" where
  "GetIP_NBO a buf = GetIPImpl a buf True"

definition GetFamily :: "CSocketAddress \<Rightarrow> u16" where
  "GetFamily a = sa_family a"

definition GetSockAddrLength :: "CSocketAddress \<Rightarrow> nat" where
  "GetSockAddrLength a = (if sa_family a = AF_INET then 16 else 28)"

text \<open>\<open>xor_prefix xs k n\<close>: the loop that XORs the first \<open>n\<close> bytes with those of the key.\<close>

definition xor_prefix :: "bytes \<Rightarrow> bytes \<Rightarrow> nat \<Rightarrow> bytes" where
  "xor_prefix xs k n = map (\<lambda>i. if i < n then (xs ! i) XOR (k ! i) else xs ! i) [0..<length xs]"

definition ApplyStunXorMap :: "CSocketAddress \<Rightarrow> StunTransactionId \<Rightarrow> CSocketAddress" where
  "ApplyStunXorMap a transid =
     (let iplen = (if sa_family a = AF_INET then STUN_IPV4_LENGTH else STUN_IPV6_LENGTH);
          a = a\<lparr>sa_port := xor_prefix (sa_port a) transid 2\<rparr> in
      if sa_family a = AF_INET then a\<lparr>sa_b4 := xor_prefix (sa_b4 a) transid iplen\<rparr>
      else a\<lparr>sa_b16 := xor_prefix (sa_b16 a) transid iplen\<rparr>)"

text \<open>The 14 bytes of \<open>sa_data\<close>.\<close>

definition sa_data :: "CSocketAddress \<Rightarrow> bytes" where
  "sa_data a = sa_port a @ sa_b4 a @ take 8 (sa_b16 a)"

definition IsSameIP :: "CSocketAddress \<Rightarrow> CSocketAddress \<Rightarrow> bool" where
  "IsSameIP a other \<longleftrightarrow> sa_family a = sa_family other \<and>
     (if sa_family a = AF_INET then sa_b4 a = sa_b4 other
      else if sa_family a = AF_INET6 then sa_b16 a = sa_b16 other
      else sa_data a = sa_data other)"

definition IsSameIP_and_Port :: "CSocketAddress \<Rightarrow> CSocketAddress \<Rightarrow> bool" where
  "IsSameIP_and_Port a other \<longleftrightarrow> IsSameIP a other \<and> GetPort a = GetPort other"

definition IsIPAddressZero :: "CSocketAddress \<Rightarrow> bool" where
  "IsIPAddressZero a \<longleftrightarrow>
     (if sa_family a = AF_INET then sa_b4 a = zero_bytes 4
      else if sa_family a = AF_INET6 then sa_b16 a = zero_bytes 16
      else sa_data a = zero_bytes 14)"

definition GetLocalHost :: "u16 \<Rightarrow> CSocketAddress option \<Rightarrow> hresult \<times> CSocketAddress option" where
  "GetLocalHost family pAddr =
     (if (family \<noteq> AF_INET \<and> family \<noteq> AF_INET6) \<or> pAddr = None then (E_FAIL, pAddr)
      else if family = AF_INET then (S_OK, Some (CSocketAddress_ipv4 0x7f000001 0))
      else (S_OK, Some (CSocketAddress_in6 (sockaddr_in6 (zero_bytes 2) (zero_bytes 15 @ [1])))))"

section \<open>Parsing addresses (stunutils.cpp)\<close>

definition IsTransactionIdValid :: "StunTransactionId \<Rightarrow> bool" where
  "IsTransactionIdValid transid \<longleftrightarrow> transid \<noteq> zero_bytes 16"

text \<open>
  \<open>GetMappedAddress\<close> on the memory behind \<open>pData\<close>, of which \<open>n\<close> bytes belong to the
  attribute, through a stream over it. The address comes back where the call succeeded.
\<close>

definition GetMappedAddress :: "bytes \<Rightarrow> nat \<Rightarrow> hresult \<times> CSocketAddress option" where
  "GetMappedAddress pData n =
     (let stream = DS_of_buffer (CB_of_array (Some pData) n False);
          (hr, stream) = DS_SeekDirect stream 1 in
      if FAILED hr then (hr, None) else
      let (hr, attributeid, stream) = DS_Read stream 1 in
      if FAILED hr then (hr, None) else
      let (hr, port, stream) = DS_Read stream 2 in
      if FAILED hr then (hr, None) else
      if attributeid = [STUN_ATTRIBUTE_FIELD_IPV4]
      then (let (hr, ip4, stream) = DS_Read stream 4 in
            if FAILED hr then (hr, None)
            else (hr, Some (CSocketAddress_ipv4 (of_be32 ip4) (of_be16 port))))
      else (let (hr, ip6, stream) = DS_Read stream STUN_IPV6_LENGTH in
            if FAILED hr then (hr, None)
            else (hr, Some (CSocketAddress_in6 (sockaddr_in6 (be16 (of_be16 port)) ip6)))))"

definition GetXorMappedAddress :: "bytes \<Rightarrow> nat \<Rightarrow> StunTransactionId \<Rightarrow> hresult \<times> CSocketAddress option" where
  "GetXorMappedAddress pData n transid =
     (let (hr, pAddr) = GetMappedAddress pData n in
      if FAILED hr then (hr, pAddr) else (hr, map_option (\<lambda>a. ApplyStunXorMap a transid) pAddr))"

section \<open>Laws\<close>

lemma length_xor_prefix [simp]: "length (xor_prefix xs k n) = length xs"
  by (simp add: xor_prefix_def)

lemma xor_prefix_nth:
  "i < length xs \<Longrightarrow> xor_prefix xs k n ! i = (if i < n then (xs ! i) XOR (k ! i) else xs ! i)"
  by (simp add: xor_prefix_def)

lemma xor_prefix_involution [simp]: "xor_prefix (xor_prefix xs k n) k n = xs"
  by (rule nth_equalityI) (simp_all add: xor_prefix_nth xor.assoc)

lemma ApplyStunXorMap_twice [simp]: "ApplyStunXorMap (ApplyStunXorMap a t) t = a"
  by (simp add: ApplyStunXorMap_def Let_def)

lemma ApplyStunXorMap_ok [simp]: "addr_ok (ApplyStunXorMap a t) = addr_ok a"
  by (simp add: addr_ok_def ApplyStunXorMap_def Let_def)

lemma ApplyStunXorMap_family [simp]: "sa_family (ApplyStunXorMap a t) = sa_family a"
  by (simp add: ApplyStunXorMap_def Let_def)

lemma AF_distinct [simp]: "AF_INET \<noteq> AF_INET6" "AF_INET6 \<noteq> AF_INET"
  by (simp_all add: stun_consts)

text \<open>The family, port and address bytes: what two addresses must share to be the same.\<close>

definition addr_ip :: "CSocketAddress \<Rightarrow> bytes" where
  "addr_ip a = (if sa_family a = AF_INET then sa_b4 a else sa_b16 a)"

definition is_ip_addr :: "CSocketAddress \<Rightarrow> bool" where
  "is_ip_addr a \<longleftrightarrow> addr_ok a \<and> (sa_family a = AF_INET \<or> sa_family a = AF_INET6)"

lemma IsSameIP_and_Port_iff:
  assumes "is_ip_addr a" "is_ip_addr b"
  shows "IsSameIP_and_Port a b \<longleftrightarrow>
    sa_family a = sa_family b \<and> sa_port a = sa_port b \<and> addr_ip a = addr_ip b"
proof -
  have l: "length (sa_port a) = 2" "length (sa_port b) = 2"
    using assms by (simp_all add: is_ip_addr_def addr_ok_def)
  have "of_be16 (sa_port a) = of_be16 (sa_port b) \<longleftrightarrow> sa_port a = sa_port b"
    using be16_of_be16 [OF l(1)] be16_of_be16 [OF l(2)] by metis
  then show ?thesis
    using assms by (auto simp: IsSameIP_and_Port_def IsSameIP_def GetPort_def GetPort_NBO_def
        addr_ip_def is_ip_addr_def)
qed

lemma length_addr_ip: "is_ip_addr a \<Longrightarrow> length (addr_ip a) = GetIPLength a"
  by (auto simp: is_ip_addr_def addr_ok_def addr_ip_def GetIPLength_def)

lemma GetIP_NBO_ip:
  "is_ip_addr a \<Longrightarrow> GetIP_NBO a (Some n) = (if n < GetIPLength a then [] else addr_ip a)"
  by (auto simp: GetIP_NBO_def GetIPImpl_def GetIPLength_def addr_ip_def)

lemma constructors_ok [simp]:
  "is_ip_addr (CSocketAddress_ipv4 ip port)" "is_ip_addr CSocketAddress_default"
  "length p = 2 \<Longrightarrow> length ip' = 16 \<Longrightarrow> is_ip_addr (CSocketAddress_in6 (sockaddr_in6 p ip'))"
  by (simp_all add: is_ip_addr_def addr_ok_def CSocketAddress_ipv4_def CSocketAddress_default_def
      CSocketAddress_in6_def sockaddr_in6_def)

text \<open>The value of an address attribute on the wire.\<close>

definition addr_wire :: "CSocketAddress \<Rightarrow> bytes" where
  "addr_wire a = 0 # (if sa_family a = AF_INET then STUN_ATTRIBUTE_FIELD_IPV4
     else STUN_ATTRIBUTE_FIELD_IPV6) # sa_port a @ addr_ip a"

lemma length_addr_wire: "is_ip_addr a \<Longrightarrow>
    length (addr_wire a) = (if sa_family a = AF_INET then 8 else 20)"
  by (auto simp: addr_wire_def length_addr_ip GetIPLength_def is_ip_addr_def addr_ok_def)

lemma stream_over_array:
  assumes "n \<le> length d"
  defines "s \<equiv> DS_of_buffer (CB_of_array (Some d) n False)"
  shows "stream_ok s" "ds_contents s = take n d" "DS_GetSize s = n" "ds_pos s = 0"
  using assms CB_of_array_nocopy [of n d]
  by (auto simp: stream_ok_def DS_of_buffer_def DS_GetSize_def ds_contents_def)
    (simp_all add: CB_of_array_def CB_InitNoAlloc_def)

text \<open>The parser on any attribute value, whatever lies behind it in memory.\<close>

lemma GetMappedAddress_wire:
  assumes a: "is_ip_addr a"
  shows "\<exists>b. GetMappedAddress (addr_wire a @ rest) (length (addr_wire a)) = (S_OK, Some b) \<and>
    is_ip_addr b \<and> IsSameIP_and_Port b a \<and> sa_family b = sa_family a"
proof -
  define n where "n = length (addr_wire a)"
  define s where "s = DS_of_buffer (CB_of_array (Some (addr_wire a @ rest)) n False)"
  have n: "n = (if sa_family a = AF_INET then 8 else 20)"
    using length_addr_wire [OF a] by (simp add: n_def)
  have s: "stream_ok s" "ds_contents s = addr_wire a" "DS_GetSize s = n" "ds_pos s = 0"
    using stream_over_array [of n "addr_wire a @ rest"] by (simp_all add: s_def n_def)
  have rd: "DS_Read (s\<lparr>ds_pos := p\<rparr>) k = (S_OK, segment (addr_wire a) p k, s\<lparr>ds_pos := k + p\<rparr>)"
    if "k + p \<le> n" for p k
    using DS_Read_ok(1) [of "s\<lparr>ds_pos := p\<rparr>" k] s that by simp
  have len: "length (sa_port a) = 2" "length (addr_ip a) = (if sa_family a = AF_INET then 4 else 16)"
    using a length_addr_ip [OF a] by (simp_all add: is_ip_addr_def addr_ok_def GetIPLength_def)
  obtain p0 p1 where p: "sa_port a = [p0, p1]"
    using len(1) by (auto simp: length_Suc_conv numeral_2_eq_2)
  have "segment (addr_wire a) 1 1 = [if sa_family a = AF_INET then STUN_ATTRIBUTE_FIELD_IPV4
       else STUN_ATTRIBUTE_FIELD_IPV6]" "segment (addr_wire a) 2 2 = sa_port a"
    "segment (addr_wire a) 4 (length (addr_ip a)) = addr_ip a"
    using len p by (simp_all add: segment_def addr_wire_def numeral_eq_Suc)
  then have r: "DS_SeekDirect s 1 = (S_OK, s\<lparr>ds_pos := 1\<rparr>)"
    "DS_Read (s\<lparr>ds_pos := 1\<rparr>) 1 = (S_OK, [if sa_family a = AF_INET then STUN_ATTRIBUTE_FIELD_IPV4
       else STUN_ATTRIBUTE_FIELD_IPV6], s\<lparr>ds_pos := 2\<rparr>)"
    "DS_Read (s\<lparr>ds_pos := 2\<rparr>) 2 = (S_OK, sa_port a, s\<lparr>ds_pos := 4\<rparr>)"
    "DS_Read (s\<lparr>ds_pos := 4\<rparr>) (length (addr_ip a)) = (S_OK, addr_ip a, s\<lparr>ds_pos := n\<rparr>)"
    using n len rd [of 1 1] rd [of 2 2] rd [of "length (addr_ip a)" 4] DS_SeekDirect_ok(1) [of 1 s] s
    by (auto split: if_splits)
  have ne: "STUN_ATTRIBUTE_FIELD_IPV6 \<noteq> STUN_ATTRIBUTE_FIELD_IPV4"
    by (simp add: stun_consts)
  show ?thesis
  proof (cases "sa_family a = AF_INET")
    case True
    have "GetMappedAddress (addr_wire a @ rest) n
        = (S_OK, Some (CSocketAddress_ipv4 (of_be32 (addr_ip a)) (of_be16 (sa_port a))))"
      unfolding GetMappedAddress_def s_def [symmetric]
      using True r len by (simp del: One_nat_def)
    then show ?thesis
      using True a len be16_of_be16 [of "sa_port a"] be32_of_be32 [of "addr_ip a"]
      by (simp add: n_def IsSameIP_and_Port_iff)
        (simp add: CSocketAddress_ipv4_def addr_ip_def)
  next
    case False
    have "GetMappedAddress (addr_wire a @ rest) n
        = (S_OK, Some (CSocketAddress_in6 (sockaddr_in6 (be16 (of_be16 (sa_port a))) (addr_ip a))))"
      unfolding GetMappedAddress_def s_def [symmetric]
      using False r len ne by (simp add: STUN_IPV6_LENGTH_def del: One_nat_def)
    then show ?thesis
      using False a len be16_of_be16 [of "sa_port a"]
      by (simp add: n_def IsSameIP_and_Port_iff)
        (simp add: CSocketAddress_in6_def sockaddr_in6_def addr_ip_def is_ip_addr_def)
  qed
qed

end
