(* ===== verification/StunBuilder.thy ===== *)
theory StunBuilder
  imports StunAddress
begin

text \<open>
  \<open>CStunMessageBuilder\<close> (\<open>stuncore/stunbuilder.h\<close>, \<open>stunbuilder.cpp\<close>). A method returns its
  HRESULT and the builder after it. The functions of boost and openssl are arguments:
  \<open>crc\<close> (CRC-32 of a block), \<open>hmac\<close> (HMAC-SHA1 of a key and a text), \<open>md5\<close>. A C string is the
  list of its bytes before the null byte, a pointer argument that may be null an option.
\<close>

record CStunMessageBuilder =
  mb_stream :: cstream
  mb_transactionid :: StunTransactionId
  mb_fLegacyMode :: bool

definition CStunMessageBuilder_init :: CStunMessageBuilder where
  "CStunMessageBuilder_init = \<lparr>mb_stream = DS_null, mb_transactionid = zero_bytes 16,
     mb_fLegacyMode = False\<rparr>"

definition SetLegacyMode :: "CStunMessageBuilder \<Rightarrow> bool \<Rightarrow> CStunMessageBuilder" where
  "SetLegacyMode b f = b\<lparr>mb_fLegacyMode := f\<rparr>"

text \<open>An operation of \<open>_stream\<close> as an operation of the builder.\<close>

definition on_stream :: "CStunMessageBuilder \<Rightarrow> hresult \<times> cstream \<Rightarrow> hresult \<times> CStunMessageBuilder" where
  "on_stream b r = (fst r, b\<lparr>mb_stream := snd r\<rparr>)"

definition mb_write :: "CStunMessageBuilder \<Rightarrow> bytes \<Rightarrow> hresult \<times> CStunMessageBuilder" where
  "mb_write b bs = on_stream b (DS_Write (mb_stream b) bs)"

section \<open>Header and transaction id\<close>

definition AddHeader :: "CStunMessageBuilder \<Rightarrow> u16 \<Rightarrow> StunMessageClass \<Rightarrow> hresult \<times> CStunMessageBuilder" where
  "AddHeader b msgType msgClass =
     chk (on_stream b (DS_SetSizeHint (mb_stream b) 200)) (\<lambda>b.
       let c = StunMessageClass_val msgClass;
           msgTypeField = push_bit 2 (msgType AND 0x0f80);
           msgTypeField = msgTypeField OR push_bit 1 (msgType AND 0x0070);
           msgTypeField = msgTypeField OR (msgType AND 0x000f);
           msgTypeField = msgTypeField OR push_bit 7 (c AND 0x02);
           msgTypeField = msgTypeField OR push_bit 4 (c AND 0x01) in
       chk (mb_write b (be16 msgTypeField)) (\<lambda>b. mb_write b (be16 0)))"

definition AddBindingRequestHeader :: "CStunMessageBuilder \<Rightarrow> hresult \<times> CStunMessageBuilder" where
  "AddBindingRequestHeader b = AddHeader b StunMsgTypeBinding StunMsgClassRequest"

definition AddBindingResponseHeader :: "CStunMessageBuilder \<Rightarrow> bool \<Rightarrow> hresult \<times> CStunMessageBuilder" where
  "AddBindingResponseHeader b fSuccess = AddHeader b StunMsgTypeBinding
     (if fSuccess then StunMsgClassSuccessResponse else StunMsgClassFailureResponse)"

definition AddTransactionId :: "CStunMessageBuilder \<Rightarrow> StunTransactionId \<Rightarrow> hresult \<times> CStunMessageBuilder" where
  "AddTransactionId b transid = mb_write (b\<lparr>mb_transactionid := transid\<rparr>) transid"

text \<open>
  \<open>AddRandomTransactionId\<close>: \<open>rnd x\<close> is the value of \<open>rand() % 256\<close> in round \<open>x\<close>. The loop ends
  before \<open>STUN_TRANSACTION_ID_LENGTH-4\<close>, so the last four bytes keep what the stack held.
\<close>

definition AddRandomTransactionId :: "(nat \<Rightarrow> byte) \<Rightarrow> CStunMessageBuilder
    \<Rightarrow> hresult \<times> StunTransactionId \<times> CStunMessageBuilder" where
  "AddRandomTransactionId rnd b =
     (let transid = be32 STUN_COOKIE @ map rnd [4..<STUN_TRANSACTION_ID_LENGTH - 4]
            @ replicate 4 uninit_byte;
          (hr, b) = AddTransactionId b transid in (hr, transid, b))"

section \<open>Attributes\<close>

definition AddAttributeHeader :: "CStunMessageBuilder \<Rightarrow> u16 \<Rightarrow> u16 \<Rightarrow> hresult \<times> CStunMessageBuilder" where
  "AddAttributeHeader b attribType n =
     chk (mb_write b (be16 attribType)) (\<lambda>b. mb_write b (be16 n))"

definition padding_of :: "nat \<Rightarrow> nat" where
  "padding_of n = (if n mod 4 \<noteq> 0 then 4 - n mod 4 else 0)"

definition AddAttribute :: "CStunMessageBuilder \<Rightarrow> u16 \<Rightarrow> bytes option \<Rightarrow> u16 \<Rightarrow> hresult \<times> CStunMessageBuilder" where
  "AddAttribute b attribType data n =
     (let sizeheader = n;
          n = (if data = None then 0 else n);
          padding = padding_of (unat n);
          sizeheader = (if mb_fLegacyMode b then sizeheader + word_of_nat padding else sizeheader);
          r = AddAttributeHeader b attribType sizeheader;
          r = (if 0 < n then chk r (\<lambda>b. mb_write b (take (unat n) (the data))) else r) in
      if 0 < padding then chk r (\<lambda>b. mb_write b (zero_bytes padding)) else r)"

text \<open>\<open>StringHelper::IsNullOrEmpty\<close> on a pointer.\<close>

definition is_null_or_empty :: "bytes option \<Rightarrow> bool" where
  "is_null_or_empty p \<longleftrightarrow> p = None \<or> p = Some []"

definition c_strlen :: "bytes option \<Rightarrow> nat" where
  "c_strlen p = (case p of None \<Rightarrow> 0 | Some s \<Rightarrow> length s)"

definition AddStringAttribute :: "CStunMessageBuilder \<Rightarrow> u16 \<Rightarrow> bytes option \<Rightarrow> hresult \<times> CStunMessageBuilder" where
  "AddStringAttribute b attribType pstr =
     (if is_null_or_empty pstr then (E_INVALIDARG, b)
      else AddAttribute b attribType pstr (word_of_nat (c_strlen pstr)))"

text \<open>The result of writing the reason string is dropped.\<close>

definition AddErrorCode :: "CStunMessageBuilder \<Rightarrow> u16 \<Rightarrow> bytes option \<Rightarrow> hresult \<times> CStunMessageBuilder" where
  "AddErrorCode b errorNumber pszReason =
     (let strsize = c_strlen pszReason; n = strsize + 4; sizeheader = n in
      if strsize \<ge> 128 then (E_INVALIDARG, b)
      else if errorNumber < 300 then (E_INVALIDARG, b)
      else if errorNumber > 600 then (E_INVALIDARG, b)
      else
        let padding = padding_of n;
            padding = (if n mod 4 \<noteq> 0 \<and> mb_fLegacyMode b then 4 - n mod 4 else padding);
            sizeheader = (if mb_fLegacyMode b then sizeheader + padding else sizeheader) in
        chk (AddAttributeHeader b STUN_ATTRIBUTE_ERRORCODE (word_of_nat sizeheader)) (\<lambda>b.
        chk (mb_write b (be16 0)) (\<lambda>b.
          let cl = ucast (errorNumber div 100); ernum = ucast (errorNumber mod 100) in
        chk (mb_write b [cl]) (\<lambda>b.
          let r = mb_write b [ernum];
              r = (if 0 < strsize
                   then chk r (\<lambda>b. (fst r, snd (mb_write b (the pszReason)))) else r) in
          if 0 < padding then chk r (\<lambda>b. mb_write b (zero_bytes padding)) else r))))"

text \<open>The array goes out as it is in memory, without \<open>htons\<close>.\<close>

definition AddUnknownAttributes :: "CStunMessageBuilder \<Rightarrow> u16 list option \<Rightarrow> nat \<Rightarrow> hresult \<times> CStunMessageBuilder" where
  "AddUnknownAttributes b arr count =
     (let n = (word_of_nat (count * 2) :: u16); unpaddedsize = n in
      if arr = None then (E_INVALIDARG, b)
      else if count \<le> 0 then (E_INVALIDARG, b)
      else
        let fPad = (mb_fLegacyMode b \<and> count mod 2 \<noteq> 0);
            n = (if fPad then n + 2 else n) in
        chk (AddAttributeHeader b STUN_ATTRIBUTE_UNKNOWNATTRIBUTES n) (\<lambda>b.
          let r = mb_write b (take (unat unpaddedsize) (concat (map host16 (the arr)))) in
          if fPad then chk r (\<lambda>b. (fst r, snd (mb_write b (host16 (the arr ! (count - 1)))))) else r))"

definition AddMappedAddressImpl :: "CStunMessageBuilder \<Rightarrow> u16 \<Rightarrow> CSocketAddress \<Rightarrow> hresult \<times> CStunMessageBuilder" where
  "AddMappedAddressImpl b attribute addr =
     (let family = (if GetFamily addr = AF_INET then STUN_ATTRIBUTE_FIELD_IPV4 else STUN_ATTRIBUTE_FIELD_IPV6);
          attributeSize = (if family = STUN_ATTRIBUTE_FIELD_IPV4
            then STUN_ATTRIBUTE_MAPPEDADDRESS_SIZE_IPV4 else STUN_ATTRIBUTE_MAPPEDADDRESS_SIZE_IPV6) in
      chk (AddAttributeHeader b attribute attributeSize) (\<lambda>b.
        let port = GetPort_NBO addr; ip = GetIP_NBO addr (Some STUN_IPV6_LENGTH) in
      chk (mb_write b [0]) (\<lambda>b. chk (mb_write b [family]) (\<lambda>b.
      chk (mb_write b port) (\<lambda>b. mb_write b ip)))))"

definition AddXorMappedAddress :: "CStunMessageBuilder \<Rightarrow> CSocketAddress \<Rightarrow> hresult \<times> CStunMessageBuilder" where
  "AddXorMappedAddress b addr =
     AddMappedAddressImpl b
       (if mb_fLegacyMode b then STUN_ATTRIBUTE_XORMAPPEDADDRESS_OPTIONAL else STUN_ATTRIBUTE_XORMAPPEDADDRESS)
       (ApplyStunXorMap addr (mb_transactionid b))"

definition AddMappedAddress :: "CStunMessageBuilder \<Rightarrow> CSocketAddress \<Rightarrow> hresult \<times> CStunMessageBuilder" where
  "AddMappedAddress b addr = AddMappedAddressImpl b STUN_ATTRIBUTE_MAPPEDADDRESS addr"

definition AddResponseOriginAddress :: "CStunMessageBuilder \<Rightarrow> CSocketAddress \<Rightarrow> hresult \<times> CStunMessageBuilder" where
  "AddResponseOriginAddress b addr = AddMappedAddressImpl b
     (if mb_fLegacyMode b then STUN_ATTRIBUTE_SOURCEADDRESS else STUN_ATTRIBUTE_RESPONSE_ORIGIN) addr"

definition AddOtherAddress :: "CStunMessageBuilder \<Rightarrow> CSocketAddress \<Rightarrow> hresult \<times> CStunMessageBuilder" where
  "AddOtherAddress b addr = AddMappedAddressImpl b
     (if mb_fLegacyMode b then STUN_ATTRIBUTE_CHANGEDADDRESS else STUN_ATTRIBUTE_OTHER_ADDRESS) addr"

definition AddResponsePort :: "CStunMessageBuilder \<Rightarrow> u16 \<Rightarrow> hresult \<times> CStunMessageBuilder" where
  "AddResponsePort b port = AddAttribute b STUN_ATTRIBUTE_RESPONSE_PORT (Some (be16 port)) 2"

function AddPadding_loop :: "hresult \<times> CStunMessageBuilder \<Rightarrow> nat \<Rightarrow> hresult \<times> CStunMessageBuilder" where
  "AddPadding_loop r paddingSize =
     (if paddingSize = 0 then r
      else let blocksize = (if paddingSize \<ge> 128 then 128 else paddingSize);
               r = mb_write (snd r) (zero_bytes blocksize) in
           if FAILED (fst r) then r else AddPadding_loop r (paddingSize - blocksize))"
  by pat_completeness auto
termination
  by (relation "measure snd") auto

declare AddPadding_loop.simps [simp del]

definition AddPaddingAttribute :: "CStunMessageBuilder \<Rightarrow> u16 \<Rightarrow> hresult \<times> CStunMessageBuilder" where
  "AddPaddingAttribute b paddingSize =
     (let paddingSize = (if paddingSize mod 4 \<noteq> 0 then paddingSize + 4 - paddingSize mod 4 else paddingSize);
          r = AddAttributeHeader b STUN_ATTRIBUTE_PADDING paddingSize in
      if FAILED (fst r) then r else AddPadding_loop r (unat paddingSize))"

definition AddChangeRequest :: "CStunMessageBuilder \<Rightarrow> StunChangeRequestAttribute \<Rightarrow> hresult \<times> CStunMessageBuilder" where
  "AddChangeRequest b changeAttrib =
     (let changeData = (0 :: u32);
          changeData = (if fChangeIP changeAttrib then changeData OR 0x04 else changeData);
          changeData = (if fChangePort changeAttrib then changeData OR 0x02 else changeData) in
      AddAttribute b STUN_ATTRIBUTE_CHANGEREQUEST (Some (be32 changeData)) 4)"

definition AddUserName :: "CStunMessageBuilder \<Rightarrow> bytes option \<Rightarrow> hresult \<times> CStunMessageBuilder" where
  "AddUserName b p = AddStringAttribute b STUN_ATTRIBUTE_USERNAME p"

definition AddNonce :: "CStunMessageBuilder \<Rightarrow> bytes option \<Rightarrow> hresult \<times> CStunMessageBuilder" where
  "AddNonce b p = AddStringAttribute b STUN_ATTRIBUTE_NONCE p"

definition AddRealm :: "CStunMessageBuilder \<Rightarrow> bytes option \<Rightarrow> hresult \<times> CStunMessageBuilder" where
  "AddRealm b p = AddStringAttribute b STUN_ATTRIBUTE_REALM p"

section \<open>Length field, fingerprint, message integrity\<close>

definition FixLengthField :: "CStunMessageBuilder \<Rightarrow> hresult \<times> CStunMessageBuilder" where
  "FixLengthField b =
     (let n = DS_GetSize (mb_stream b); currentPos = DS_GetPos (mb_stream b) in
      if n < STUN_HEADER_SIZE then (E_UNEXPECTED, b)
      else
        let n = n - STUN_HEADER_SIZE in
        chk (on_stream b (DS_SeekDirect (mb_stream b) 2)) (\<lambda>b.
        chk (mb_write b (be16 (word_of_nat n))) (\<lambda>b.
        on_stream b (DS_SeekDirect (mb_stream b) currentPos))))"

definition AddFingerprintAttribute :: "(bytes \<Rightarrow> u32) \<Rightarrow> CStunMessageBuilder \<Rightarrow> hresult \<times> CStunMessageBuilder" where
  "AddFingerprintAttribute crc b =
     chk (mb_write b (be16 STUN_ATTRIBUTE_FINGERPRINT)) (\<lambda>b.
     chk (mb_write b (be16 4)) (\<lambda>b.
     chk (mb_write b (be32 0)) (\<lambda>b.
     chk (FixLengthField b) (\<lambda>b.
       let pData = DS_memory (mb_stream b);
           n = DS_GetSize (mb_stream b) - 8;
           value = crc (take n pData) XOR STUN_FINGERPRINT_XOR in
     chk (on_stream b (DS_SeekRelative (mb_stream b) (- 4))) (\<lambda>b.
     mb_write b (be32 value))))))"

text \<open>HMAC writes its result straight into the memory of the message.\<close>

definition poke_stream :: "cstream \<Rightarrow> nat \<Rightarrow> bytes \<Rightarrow> cstream" where
  "poke_stream s n bs = s\<lparr>ds_buffer := map_option
     (\<lambda>b. b\<lparr>cb_data := map_option (\<lambda>d. splice_at d n bs) (cb_data b)\<rparr>) (ds_buffer s)\<rparr>"

definition AddMessageIntegrityImpl :: "(bytes \<Rightarrow> bytes \<Rightarrow> bytes) \<Rightarrow> CStunMessageBuilder \<Rightarrow> bytes option
    \<Rightarrow> hresult \<times> CStunMessageBuilder" where
  "AddMessageIntegrityImpl hmac b key =
     (if is_null_or_empty key then (E_INVALIDARG, b)
      else
        chk (AddAttribute b STUN_ATTRIBUTE_MESSAGEINTEGRITY (Some (zero_bytes 20)) 20) (\<lambda>b.
        chk (FixLengthField b) (\<lambda>b.
          let pData = DS_memory (mb_stream b);
              n = DS_GetSize (mb_stream b) - 24 in
          (S_OK, b\<lparr>mb_stream := poke_stream (mb_stream b) (n + 4) (hmac (the key) (take n pData))\<rparr>))))"

definition AddMessageIntegrityShortTerm :: "(bytes \<Rightarrow> bytes \<Rightarrow> bytes) \<Rightarrow> CStunMessageBuilder \<Rightarrow> bytes
    \<Rightarrow> hresult \<times> CStunMessageBuilder" where
  "AddMessageIntegrityShortTerm hmac b pszPassword = AddMessageIntegrityImpl hmac b (Some pszPassword)"

definition MAX_KEY_SIZE :: nat where
  "MAX_KEY_SIZE = MAX_STUN_AUTH_STRING_SIZE * 3 + 2"

text \<open>The bytes \<open>user:realm:password\<close> that are hashed to the long-term key.\<close>

definition long_term_key :: "bytes option \<Rightarrow> bytes option \<Rightarrow> bytes option \<Rightarrow> bytes" where
  "long_term_key u r p = (let str = case_option [] id in str u @ [58] @ str r @ [58] @ str p)"

definition AddMessageIntegrityLongTerm :: "(bytes \<Rightarrow> bytes \<Rightarrow> bytes) \<Rightarrow> (bytes \<Rightarrow> bytes) \<Rightarrow> CStunMessageBuilder
    \<Rightarrow> bytes option \<Rightarrow> bytes option \<Rightarrow> bytes option \<Rightarrow> hresult \<times> CStunMessageBuilder" where
  "AddMessageIntegrityLongTerm hmac md5 b pszUserName pszRealm pszPassword =
     (let lenTotal = c_strlen pszUserName + c_strlen pszRealm + c_strlen pszPassword + 2 in
      if lenTotal > MAX_KEY_SIZE then (E_INVALIDARG, b)
      else AddMessageIntegrityImpl hmac b (Some (md5 (long_term_key pszUserName pszRealm pszPassword))))"

definition GetResult :: "CStunMessageBuilder \<Rightarrow> hresult \<times> cbuffer option \<times> CStunMessageBuilder" where
  "GetResult b =
     (let (hr, b) = FixLengthField b in
      if SUCCEEDED hr then (S_OK, DS_GetBuffer (mb_stream b), b) else (hr, None, b))"

section \<open>The builder as a sink\<close>

definition mb_contents :: "CStunMessageBuilder \<Rightarrow> bytes" where
  "mb_contents b = ds_contents (mb_stream b)"

text \<open>The stream is fine; mode and transaction id are \<open>l\<close> and \<open>t\<close>.\<close>

definition mb_ok :: "bool \<Rightarrow> StunTransactionId \<Rightarrow> CStunMessageBuilder \<Rightarrow> bool" where
  "mb_ok l t b \<longleftrightarrow> stream_ok (mb_stream b) \<and> mb_fLegacyMode b = l \<and> mb_transactionid b = t"

abbreviation mb_pos :: "CStunMessageBuilder \<Rightarrow> nat" where
  "mb_pos b \<equiv> ds_pos (mb_stream b)"

abbreviation mb_room :: "CStunMessageBuilder \<Rightarrow> nat" where
  "mb_room b \<equiv> DS_allocated (mb_stream b)"

abbreviation mb_in_place :: "CStunMessageBuilder \<Rightarrow> bool" where
  "mb_in_place b \<equiv> ds_in_place (mb_stream b)"

interpretation mb: shared_sink mb_write mb_contents mb_pos "mb_ok l t" mb_room mb_in_place
  for l :: bool and t :: StunTransactionId
proof unfold_locales
  fix b and bs :: bytes
  assume ok: "mb_ok l t b" "bs \<noteq> []"
  then have s: "stream_ok (mb_stream b)"
    by (simp add: mb_ok_def)
  note w = strm.emit_succeeds [OF s ok(2)] strm.emit_invar [OF s ok(2)]
    strm.emit_contents [OF s ok(2)] strm.emit_position [OF s ok(2)]
  show "\<not> FAILED (fst (mb_write b bs))" "mb_ok l t (snd (mb_write b bs))"
    "mb_contents (snd (mb_write b bs)) = splice_at (mb_contents b) (mb_pos b) bs"
    "mb_pos (snd (mb_write b bs)) = mb_pos b + length bs"
    using ok w by (simp_all add: mb_write_def on_stream_def mb_ok_def mb_contents_def)
  assume r: "mb_in_place b" "mb_pos b + length bs \<le> mb_room b"
  show "mb_in_place (snd (mb_write b bs))" "mb_room (snd (mb_write b bs)) = mb_room b"
    using strm.emit_in_place [OF s ok(2) r] strm.emit_capacity [OF s ok(2) r]
    by (simp_all add: mb_write_def on_stream_def)
next
  fix b
  assume "mb_ok l t b"
  then show "mb_pos b \<le> length (mb_contents b)"
    using strm.position_bound [of "mb_stream b"] by (simp add: mb_ok_def mb_contents_def)
qed

lemma mb_at_end_fields: "mb.at_end l t b \<Longrightarrow> mb_fLegacyMode b = l \<and> mb_transactionid b = t \<and>
    stream_ok (mb_stream b) \<and> mb_pos b = DS_GetSize (mb_stream b) \<and>
    length (mb_contents b) = DS_GetSize (mb_stream b)"
  by (simp add: mb.at_end_def mb_ok_def mb_contents_def)

lemma mb_at_end_cong: "mb.at_end l t b \<Longrightarrow> mb.at_end (mb_fLegacyMode b) (mb_transactionid b) b"
  by (simp add: mb.at_end_def mb_ok_def)

section \<open>What the attribute methods append\<close>

text \<open>The bytes of an attribute with value \<open>d\<close>.\<close>

definition attr_wire :: "bool \<Rightarrow> u16 \<Rightarrow> bytes \<Rightarrow> bytes" where
  "attr_wire legacy ty d = be16 ty
     @ be16 (word_of_nat (length d + (if legacy then padding_of (length d) else 0)))
     @ d @ zero_bytes (padding_of (length d))"

lemma zero_bytes_Nil [simp]: "zero_bytes n = [] \<longleftrightarrow> n = 0"
  by (simp add: zero_bytes_def)

lemma zero_bytes_0 [simp]: "zero_bytes 0 = []"
  by (simp add: zero_bytes_def)

lemma padding_of_simps: "padding_of n < 4" "(n + padding_of n) mod 4 = 0"
  "n mod 4 = 0 \<Longrightarrow> padding_of n = 0"
  by (auto simp: padding_of_def) presburger+

lemma length_attr_wire: "length (attr_wire l ty d) = 4 + length d + padding_of (length d)"
  by (simp add: attr_wire_def)

lemma AddAttributeHeader_keeps:
  "mb.at_end l t b \<Longrightarrow> mb.keeps l t (AddAttributeHeader b ty n) b (be16 ty @ be16 n)"
  unfolding AddAttributeHeader_def by (intro mb.keeps_chk mb.keeps_emit) auto

lemma AddAttribute_keeps:
  assumes b: "mb.at_end l t b" and d: "length d < 2 ^ 16"
  shows "mb.keeps l t (AddAttribute b ty (Some d) (word_of_nat (length d))) b (attr_wire l ty d)"
proof -
  have u: "unat (word_of_nat (length d) :: u16) = length d"
    using d by (simp add: unat_of_nat)
  have z: "(0 < (word_of_nat (length d) :: u16)) \<longleftrightarrow> d \<noteq> []"
    using u by (metis length_0_conv unat_0 unat_eq_zero word_gt_0)
  have l: "mb_fLegacyMode b = l"
    using mb_at_end_fields [OF b] by simp
  let ?n = "(word_of_nat (length d) :: u16)" and ?p = "padding_of (length d)"
  let ?h = "if l then ?n + word_of_nat ?p else ?n"
  note keeps = mb.keeps_emit_if [OF mb.keeps_emit_if [OF AddAttributeHeader_keeps [OF b, of ty ?h],
      of "d \<noteq> []" d], of "0 < ?p" "zero_bytes ?p"]
  show ?thesis
    using keeps by (cases l; cases "d = []"; cases "0 < ?p")
      (simp_all add: AddAttribute_def Let_def u z l attr_wire_def)
qed

lemma AddStringAttribute_keeps:
  assumes "mb.at_end l t b" "d \<noteq> []" "length d < 2 ^ 16"
  shows "mb.keeps l t (AddStringAttribute b ty (Some d)) b (attr_wire l ty d)"
  using AddAttribute_keeps [OF assms(1,3)] assms(2)
  by (simp add: AddStringAttribute_def is_null_or_empty_def c_strlen_def)

text \<open>The value of an error code attribute.\<close>

definition error_value :: "u16 \<Rightarrow> bytes \<Rightarrow> bytes" where
  "error_value e reason = [0, 0, ucast (e div 100), ucast (e mod 100)] @ reason"

lemma be16_0: "be16 0 = [0, 0]"
  by (simp add: be16_def)

lemma AddErrorCode_keeps:
  assumes b: "mb.at_end l t b" and e: "300 \<le> e" "e \<le> 600" and s: "c_strlen p < 128"
  shows "mb.keeps l t (AddErrorCode b e p) b
    (attr_wire l STUN_ATTRIBUTE_ERRORCODE (error_value e (case_option [] id p)))"
proof -
  let ?n = "c_strlen p + 4" and ?c = "ucast (e div 100) :: byte" and ?m = "ucast (e mod 100) :: byte"
  have e': "(128 \<le> c_strlen p) = False" "(e < 300) = False" "(600 < e) = False"
    using e s by (simp_all add: leD)
  have pad: "(if ?n mod 4 \<noteq> 0 \<and> l then 4 - ?n mod 4 else padding_of ?n) = padding_of ?n"
    by (simp add: padding_of_def)
  have len: "length (error_value e (case_option [] id p)) = ?n"
    by (simp add: error_value_def c_strlen_def split: option.splits)
  have l: "mb_fLegacyMode b = l"
    using mb_at_end_fields [OF b] by simp
  let ?w = "zero_bytes (padding_of ?n)" and ?s = "case_option [] id p"
  have str: "c_strlen p = length ?s" "p = None \<or> the p = ?s"
    by (auto simp: c_strlen_def split: option.splits)
  have last: "mb.keeps l t (let r = mb_write b' [?m];
       r = (if 0 < c_strlen p then chk r (\<lambda>b. (fst r, snd (mb_write b (the p)))) else r) in
       if 0 < padding_of ?n then chk r (\<lambda>b. mb_write b ?w) else r) b'
       (([?m] @ ?s) @ ?w)" if b': "mb.at_end l t b'" for b'
    using mb.keeps_emit_if [OF mb.keeps_quiet_if [OF mb.keeps_emit [OF b', of "[?m]"],
        of "0 < c_strlen p" ?s], of "0 < padding_of ?n" ?w] str
    by (cases p; cases "0 < padding_of ?n"; cases "0 < c_strlen p")
      (simp_all add: Let_def c_strlen_def)
  have "AddErrorCode b e p =
    chk (AddAttributeHeader b STUN_ATTRIBUTE_ERRORCODE (word_of_nat (if l then ?n + padding_of ?n else ?n))) (\<lambda>b.
    chk (mb_write b (be16 0)) (\<lambda>b. chk (mb_write b [?c]) (\<lambda>b.
      let r = mb_write b [?m];
          r = (if 0 < c_strlen p then chk r (\<lambda>b. (fst r, snd (mb_write b (the p)))) else r) in
      if 0 < padding_of ?n then chk r (\<lambda>b. mb_write b ?w) else r)))"
    using e' unfolding AddErrorCode_def Let_def l pad by (simp only: if_False)
  moreover have "mb.keeps l t \<dots> b
    ((be16 STUN_ATTRIBUTE_ERRORCODE @
      be16 (word_of_nat (if l then ?n + padding_of ?n else ?n))) @ be16 0 @ [?c] @
      (([?m] @ ?s) @ ?w))"
    by (intro mb.keeps_chk AddAttributeHeader_keeps b mb.keeps_emit last) simp_all
  ultimately have "mb.keeps l t (AddErrorCode b e p) b
    ((be16 STUN_ATTRIBUTE_ERRORCODE @
      be16 (word_of_nat (if l then ?n + padding_of ?n else ?n))) @ be16 0 @ [?c] @
      (([?m] @ ?s) @ ?w))"
    by simp
  then show ?thesis
    unfolding attr_wire_def len by (cases l) (simp_all add: error_value_def be16_0)
qed

lemma be32_word: "length (be32 x) < 2 ^ 16"
  by simp

lemma AddMappedAddressImpl_keeps:
  assumes b: "mb.at_end l t b" and a: "is_ip_addr a"
  shows "mb.keeps l t (AddMappedAddressImpl b ty a) b (attr_wire l ty (addr_wire a))"
proof -
  let ?f = "if sa_family a = AF_INET then STUN_ATTRIBUTE_FIELD_IPV4 else STUN_ATTRIBUTE_FIELD_IPV6"
  let ?n = "if sa_family a = AF_INET then 8 else 20 :: u16"
  have ip: "GetIP_NBO a (Some STUN_IPV6_LENGTH) = addr_ip a" "addr_ip a \<noteq> []" "sa_port a \<noteq> []"
    using a length_addr_ip [OF a]
    by (auto simp: GetIP_NBO_ip GetIPLength_def STUN_IPV6_LENGTH_def is_ip_addr_def addr_ok_def)
  have sz: "(if ?f = STUN_ATTRIBUTE_FIELD_IPV4 then STUN_ATTRIBUTE_MAPPEDADDRESS_SIZE_IPV4
      else STUN_ATTRIBUTE_MAPPEDADDRESS_SIZE_IPV6) = ?n"
    by (simp add: stun_consts)
  have "mb.keeps l t (AddMappedAddressImpl b ty a) b
      ((be16 ty @ be16 ?n) @ [0] @ [?f] @ sa_port a @ addr_ip a)"
    unfolding AddMappedAddressImpl_def Let_def GetFamily_def ip GetPort_NBO_def if_cancel sz
    using ip by (intro mb.keeps_chk AddAttributeHeader_keeps b mb.keeps_emit) simp_all
  moreover have "attr_wire l ty (addr_wire a) = (be16 ty @ be16 ?n) @ [0] @ [?f] @ sa_port a @ addr_ip a"
    using length_addr_wire [OF a] by (auto simp: attr_wire_def padding_of_def) (simp_all add: addr_wire_def)
  ultimately show ?thesis
    by simp
qed

text \<open>The attribute types a builder uses in its two modes.\<close>

definition xor_type :: "bool \<Rightarrow> u16" where
  "xor_type l = (if l then STUN_ATTRIBUTE_XORMAPPEDADDRESS_OPTIONAL else STUN_ATTRIBUTE_XORMAPPEDADDRESS)"

definition origin_type :: "bool \<Rightarrow> u16" where
  "origin_type l = (if l then STUN_ATTRIBUTE_SOURCEADDRESS else STUN_ATTRIBUTE_RESPONSE_ORIGIN)"

definition other_type :: "bool \<Rightarrow> u16" where
  "other_type l = (if l then STUN_ATTRIBUTE_CHANGEDADDRESS else STUN_ATTRIBUTE_OTHER_ADDRESS)"

lemma Add_addresses_keep:
  assumes b: "mb.at_end l t b" and a: "is_ip_addr a"
  shows "mb.keeps l t (AddMappedAddress b a) b (attr_wire l STUN_ATTRIBUTE_MAPPEDADDRESS (addr_wire a))"
    "mb.keeps l t (AddXorMappedAddress b a) b (attr_wire l (xor_type l) (addr_wire (ApplyStunXorMap a t)))"
    "mb.keeps l t (AddResponseOriginAddress b a) b (attr_wire l (origin_type l) (addr_wire a))"
    "mb.keeps l t (AddOtherAddress b a) b (attr_wire l (other_type l) (addr_wire a))"
proof -
  have x: "is_ip_addr (ApplyStunXorMap a t)"
    using a by (simp add: is_ip_addr_def)
  show "mb.keeps l t (AddMappedAddress b a) b (attr_wire l STUN_ATTRIBUTE_MAPPEDADDRESS (addr_wire a))"
    "mb.keeps l t (AddXorMappedAddress b a) b (attr_wire l (xor_type l) (addr_wire (ApplyStunXorMap a t)))"
    "mb.keeps l t (AddResponseOriginAddress b a) b (attr_wire l (origin_type l) (addr_wire a))"
    "mb.keeps l t (AddOtherAddress b a) b (attr_wire l (other_type l) (addr_wire a))"
    using mb_at_end_fields [OF b] AddMappedAddressImpl_keeps [OF b a] AddMappedAddressImpl_keeps [OF b x]
    by (simp_all add: AddMappedAddress_def AddXorMappedAddress_def AddResponseOriginAddress_def
        AddOtherAddress_def xor_type_def origin_type_def other_type_def)
qed

definition change_value :: "StunChangeRequestAttribute \<Rightarrow> u32" where
  "change_value c = (if fChangeIP c then 4 else 0) OR (if fChangePort c then 2 else 0)"

lemma AddChangeRequest_keeps:
  assumes b: "mb.at_end l t b"
  shows "mb.keeps l t (AddChangeRequest b c) b (attr_wire l STUN_ATTRIBUTE_CHANGEREQUEST (be32 (change_value c)))"
proof -
  have "AddChangeRequest b c = AddAttribute b STUN_ATTRIBUTE_CHANGEREQUEST
      (Some (be32 (change_value c))) (word_of_nat (length (be32 (change_value c))))"
    by (simp add: AddChangeRequest_def change_value_def Let_def)
  then show ?thesis
    using AddAttribute_keeps [OF b be32_word] by simp
qed

lemma AddResponsePort_keeps:
  assumes b: "mb.at_end l t b"
  shows "mb.keeps l t (AddResponsePort b p) b (attr_wire l STUN_ATTRIBUTE_RESPONSE_PORT (be16 p))"
  using AddAttribute_keeps [OF b, of "be16 p" STUN_ATTRIBUTE_RESPONSE_PORT] by (simp add: AddResponsePort_def)

lemma AddPadding_loop_keeps:
  "mb.at_end l t b \<Longrightarrow> mb.keeps l t r b bs \<Longrightarrow> mb.keeps l t (AddPadding_loop r n) b (bs @ zero_bytes n)"
proof (induction r n arbitrary: bs rule: AddPadding_loop.induct)
  case (1 r n)
  show ?case
  proof (cases "n = 0")
    case False
    let ?k = "if n \<ge> 128 then 128 else n" and ?w = "mb_write (snd r)"
    have at: "mb.at_end l t (snd r)" "\<not> FAILED (fst r)"
      using "1.prems" by (simp_all add: mb.keeps_def mb.appends_def)
    have c: "mb.keeps l t (chk r (\<lambda>b. mb_write b (zero_bytes ?k))) b (bs @ zero_bytes ?k)"
      using False by (intro mb.keeps_chk [OF "1.prems"(2)] mb.keeps_emit) auto
    then have k: "mb.keeps l t (?w (zero_bytes ?k)) b (bs @ zero_bytes ?k)"
      using at by (simp add: chk_def)
    then have nf: "\<not> FAILED (fst (?w (zero_bytes ?k)))"
      by (simp add: mb.keeps_def mb.appends_def)
    have "mb.keeps l t (AddPadding_loop (?w (zero_bytes ?k)) (n - ?k)) b
        ((bs @ zero_bytes ?k) @ zero_bytes (n - ?k))"
      by (rule "1.IH" [OF False refl refl nf "1.prems"(1) k])
    moreover have "zero_bytes ?k @ zero_bytes (n - ?k) = zero_bytes n"
      by (auto simp: zero_bytes_def simp flip: replicate_add)
    moreover have "AddPadding_loop r n = AddPadding_loop (?w (zero_bytes ?k)) (n - ?k)"
      using False nf by (subst AddPadding_loop.simps) (simp add: Let_def)
    ultimately show ?thesis
      by simp
  qed (use "1.prems" in \<open>simp add: AddPadding_loop.simps\<close>)
qed

section \<open>Header, length field, fingerprint and message integrity\<close>

definition header_type :: "u16 \<Rightarrow> StunMessageClass \<Rightarrow> u16" where
  "header_type ty c =
     push_bit 2 (ty AND 0x0f80) OR push_bit 1 (ty AND 0x0070) OR (ty AND 0x000f)
     OR push_bit 7 (StunMessageClass_val c AND 0x02) OR push_bit 4 (StunMessageClass_val c AND 0x01)"

lemma SetSizeHint_ok:
  assumes b: "mb.at_end l t b"
  shows "\<not> FAILED (fst (on_stream b (DS_SetSizeHint (mb_stream b) n)))"
    "mb.at_end l t (snd (on_stream b (DS_SetSizeHint (mb_stream b) n)))"
    "mb_contents (snd (on_stream b (DS_SetSizeHint (mb_stream b) n))) = mb_contents b"
    "n \<le> mb_room b \<Longrightarrow> on_stream b (DS_SetSizeHint (mb_stream b) n) = (S_OK, b)"
  using DS_Grow_ok [of "mb_stream b" n] mb_at_end_fields [OF b] DS_Grow_in_place [of n "mb_stream b"]
  by (simp_all add: on_stream_def DS_SetSizeHint_def mb.at_end_def mb_ok_def mb_contents_def)

lemma AddHeader_body:
  assumes "mb.at_end l t b"
  shows "mb.keeps l t (chk (mb_write b (be16 f)) (\<lambda>b. mb_write b (be16 0))) b (be16 f @ be16 0)"
  by (intro mb.keeps_chk assms mb.keeps_emit) simp_all

lemma AddHeader_eq: "AddHeader b ty c = chk (on_stream b (DS_SetSizeHint (mb_stream b) 200))
    (\<lambda>b. chk (mb_write b (be16 (header_type ty c))) (\<lambda>b. mb_write b (be16 0)))"
  unfolding AddHeader_def header_type_def Let_def by (simp add: or.assoc)

lemma AddHeader_appends:
  assumes b: "mb.at_end l t b"
  shows "mb.appends l t (AddHeader b ty c) b (be16 (header_type ty c) @ be16 0)"
proof -
  let ?b = "snd (on_stream b (DS_SetSizeHint (mb_stream b) 200))"
  note h = SetSizeHint_ok [OF b, of 200]
  have "AddHeader b ty c = chk (mb_write ?b (be16 (header_type ty c))) (\<lambda>b. mb_write b (be16 0))"
    using h(1) by (simp add: AddHeader_eq chk_def)
  then show ?thesis
    using AddHeader_body [OF h(2), of "header_type ty c"] h(3) by (simp add: mb.keeps_def mb.appends_def)
qed

lemma AddHeader_keeps:
  assumes b: "mb.at_end l t b" and "200 \<le> mb_room b"
  shows "mb.keeps l t (AddHeader b ty c) b (be16 (header_type ty c) @ be16 0)"
  using AddHeader_body [OF b] SetSizeHint_ok(4) [OF b, of 200] assms(2) by (simp add: AddHeader_eq)

lemma AddTransactionId_keeps:
  assumes "mb.at_end l t b" "tid \<noteq> []"
  shows "mb.keeps l tid (AddTransactionId b tid) (b\<lparr>mb_transactionid := tid\<rparr>) tid"
  using assms unfolding AddTransactionId_def
  by (intro mb.keeps_emit) (simp_all add: mb.at_end_def mb_ok_def mb_contents_def)

text \<open>A message with the length field at offset 2 set.\<close>

definition fix_length :: "bytes \<Rightarrow> bytes" where
  "fix_length c = splice_at c 2 (be16 (word_of_nat (length c - 20)))"

lemma length_fix_length [simp]: "20 \<le> length c \<Longrightarrow> length (fix_length c) = length c"
  by (simp add: fix_length_def)

text \<open>A call that rewrote the contents to \<open>c\<close> and left the position at their end.\<close>

definition rewritten :: "bool \<Rightarrow> StunTransactionId \<Rightarrow> hresult \<times> CStunMessageBuilder \<Rightarrow>
    CStunMessageBuilder \<Rightarrow> bytes \<Rightarrow> bool" where
  "rewritten l t r b c \<longleftrightarrow> \<not> FAILED (fst r) \<and> mb.at_end l t (snd r) \<and> mb_contents (snd r) = c \<and>
     (mb_in_place b \<and> length c \<le> mb_room b \<longrightarrow>
      mb_in_place (snd r) \<and> mb_room (snd r) = mb_room b)"

text \<open>The stream at another position, and a write there.\<close>

lemma seek_write:
  assumes b: "mb.at_end l t b" and p: "p + length bs \<le> length (mb_contents b)" "bs \<noteq> []"
  defines "b1 \<equiv> b\<lparr>mb_stream := (mb_stream b)\<lparr>ds_pos := p\<rparr>\<rparr>"
  shows "on_stream b (DS_SeekDirect (mb_stream b) p) = (S_OK, b1)"
    "\<not> FAILED (fst (mb_write b1 bs))" "mb_ok l t (snd (mb_write b1 bs))"
    "mb_contents (snd (mb_write b1 bs)) = splice_at (mb_contents b) p bs"
    "mb_pos (snd (mb_write b1 bs)) = p + length bs"
    "mb_in_place b \<Longrightarrow> length (mb_contents b) \<le> mb_room b \<Longrightarrow>
     mb_in_place (snd (mb_write b1 bs)) \<and> mb_room (snd (mb_write b1 bs)) = mb_room b"
proof -
  note f = mb_at_end_fields [OF b]
  have ok: "mb_ok l t b1" "mb_contents b1 = mb_contents b" "mb_pos b1 = p" "mb_room b1 = mb_room b"
    "mb_in_place b1 = mb_in_place b"
    using f p by (simp_all add: b1_def mb_ok_def mb_contents_def)
  show "on_stream b (DS_SeekDirect (mb_stream b) p) = (S_OK, b1)"
    using f p by (simp add: DS_SeekDirect_ok on_stream_def b1_def)
  show "\<not> FAILED (fst (mb_write b1 bs))" "mb_ok l t (snd (mb_write b1 bs))"
    "mb_contents (snd (mb_write b1 bs)) = splice_at (mb_contents b) p bs"
    "mb_pos (snd (mb_write b1 bs)) = p + length bs"
    using mb.emit_succeeds [OF ok(1) p(2)] mb.emit_invar [OF ok(1) p(2)]
      mb.emit_contents [OF ok(1) p(2)] mb.emit_position [OF ok(1) p(2)] ok by simp_all
  show "mb_in_place (snd (mb_write b1 bs)) \<and> mb_room (snd (mb_write b1 bs)) = mb_room b"
    if "mb_in_place b" "length (mb_contents b) \<le> mb_room b"
    using mb.emit_in_place [OF ok(1) p(2)] mb.emit_capacity [OF ok(1) p(2)] ok p that by simp
qed

lemma reposition:
  assumes "mb_ok l t b" "n = length (mb_contents b)"
  shows "rewritten l t (on_stream b (DS_SeekDirect (mb_stream b) n)) b (mb_contents b)"
proof -
  have n: "n = DS_GetSize (mb_stream b)"
    using assms by (simp add: mb_ok_def mb_contents_def)
  then have "on_stream b (DS_SeekDirect (mb_stream b) n) = (S_OK, b\<lparr>mb_stream := (mb_stream b)\<lparr>ds_pos := n\<rparr>\<rparr>)"
    by (simp add: on_stream_def DS_SeekDirect_ok)
  then show ?thesis
    using assms n by (simp add: rewritten_def mb.at_end_def mb_ok_def mb_contents_def)
qed

lemma FixLengthField_rewritten:
  assumes b: "mb.at_end l t b" and len: "20 \<le> length (mb_contents b)"
  shows "rewritten l t (FixLengthField b) b (fix_length (mb_contents b))"
proof -
  let ?n = "length (mb_contents b)" and ?bs = "be16 (word_of_nat (length (mb_contents b) - 20))"
  note f = mb_at_end_fields [OF b]
  have p: "2 + length ?bs \<le> ?n" "?bs \<noteq> []"
    using len by simp_all
  note w = seek_write [OF b p]
  let ?b = "snd (mb_write (b\<lparr>mb_stream := (mb_stream b)\<lparr>ds_pos := 2\<rparr>\<rparr>) ?bs)"
  have "FixLengthField b = on_stream ?b (DS_SeekDirect (mb_stream ?b) ?n)"
    using w(1,2) f len by (simp add: FixLengthField_def Let_def STUN_HEADER_SIZE_def DS_GetPos_def chk_def)
  moreover have "mb_contents ?b = fix_length (mb_contents b)"
    by (simp add: w(4) fix_length_def)
  ultimately show ?thesis
    using reposition [OF w(3), of ?n] w(6) len by (simp add: rewritten_def)
qed

lemma FixLengthField_short: "DS_GetSize (mb_stream b) < 20 \<Longrightarrow> FixLengthField b = (E_UNEXPECTED, b)"
  by (simp add: FixLengthField_def Let_def STUN_HEADER_SIZE_def)

lemma keeps_rewritten: "mb.keeps l t r b bs \<Longrightarrow> rewritten l t r b (mb_contents b @ bs)"
  by (auto simp: mb.keeps_def mb.appends_def rewritten_def)

lemma rewritten_chk:
  assumes r: "rewritten l t r b c" and "length c \<le> length d"
    and k: "\<And>b'. mb.at_end l t b' \<Longrightarrow> mb_contents b' = c \<Longrightarrow> rewritten l t (k b') b' d"
  shows "rewritten l t (chk r k) b d"
proof -
  have "\<not> FAILED (fst r)" "rewritten l t (k (snd r)) (snd r) d"
    using r k [of "snd r"] by (simp_all add: rewritten_def)
  then show ?thesis
    using r assms(2) by (auto simp: rewritten_def chk_def)
qed

lemma rewritten_eq: "rewritten l t r b c \<Longrightarrow> c = d \<Longrightarrow> rewritten l t r b d"
  by simp

text \<open>The message with a fingerprint at its end.\<close>

definition add_fingerprint :: "(bytes \<Rightarrow> u32) \<Rightarrow> bytes \<Rightarrow> bytes" where
  "add_fingerprint crc c =
     (let m = take (length c) (fix_length (c @ zero_bytes 8)) in
      m @ be16 STUN_ATTRIBUTE_FINGERPRINT @ be16 4 @ be32 (crc m XOR STUN_FINGERPRINT_XOR))"

lemma fix_length_append: "20 \<le> length c \<Longrightarrow>
    fix_length (c @ ds) = take (length c) (fix_length (c @ zero_bytes (length ds))) @ ds"
  by (simp add: fix_length_def splice_at_def)

lemma add_fingerprint_rewritten:
  assumes b: "mb.at_end l t b" and len: "20 \<le> length (mb_contents b)" "length (mb_contents b) < 2 ^ 32"
  shows "rewritten l t (AddFingerprintAttribute crc b) b (add_fingerprint crc (mb_contents b))"
proof -
  let ?c = "mb_contents b"
  let ?m = "take (length ?c) (fix_length (?c @ zero_bytes 8))"
  let ?v = "be32 (crc ?m XOR STUN_FINGERPRINT_XOR)"
  let ?h = "be16 STUN_ATTRIBUTE_FINGERPRINT @ be16 4"
  have lm: "length ?m = length ?c"
    using len by simp
  have tail: "rewritten l t (let pData = DS_memory (mb_stream b1);
           n = DS_GetSize (mb_stream b1) - 8;
           value = crc (take n pData) XOR STUN_FINGERPRINT_XOR in
     chk (on_stream b1 (DS_SeekRelative (mb_stream b1) (- 4))) (\<lambda>b. mb_write b (be32 value))) b1
       (?m @ ?h @ ?v)"
    if b1: "mb.at_end l t b1" and c1: "mb_contents b1 = ?m @ ?h @ be32 0" for b1
  proof -
    note f = mb_at_end_fields [OF b1]
    have sz: "DS_GetSize (mb_stream b1) = length ?c + 8"
      using f c1 lm by simp
    have "take (length ?c + 8) (DS_memory (mb_stream b1)) = ?m @ ?h @ be32 0"
      using ds_contents_memory [of "mb_stream b1"] f c1 sz by (simp add: mb_contents_def)
    then have mem: "take (length ?c) (DS_memory (mb_stream b1)) = ?m"
      using lm by (metis append_eq_conv_conj min.absorb1 le_add1 take_take)
    have p: "(length ?c + 4) + length ?v \<le> length (mb_contents b1)" "?v \<noteq> []"
      using c1 lm by simp_all
    note w = seek_write [OF b1 p]
    have "DS_SeekRelative (mb_stream b1) (- 4) = DS_SeekDirect (mb_stream b1) (length ?c + 4)"
      using DS_SeekRelative_back [of 4 "mb_stream b1"] f sz len by (simp add: add.commute)
    moreover have "splice_at (mb_contents b1) (length ?c + 4) ?v = ?m @ ?h @ ?v"
      using lm by (simp add: c1 splice_at_def)
    moreover have "length (mb_contents b1) = length (?m @ ?h @ ?v)"
      using c1 by simp
    ultimately show ?thesis
      using w sz mem lm by (simp add: Let_def rewritten_def mb.at_end_def)
  qed
  let ?w = "chk (chk (mb_write b (be16 STUN_ATTRIBUTE_FINGERPRINT)) (\<lambda>b. mb_write b (be16 4)))
      (\<lambda>b. mb_write b (be32 0))"
  let ?tail = "\<lambda>b. let pData = DS_memory (mb_stream b); n = DS_GetSize (mb_stream b) - 8;
              value = crc (take n pData) XOR STUN_FINGERPRINT_XOR in
          chk (on_stream b (DS_SeekRelative (mb_stream b) (- 4))) (\<lambda>b. mb_write b (be32 value))"
  have "mb.keeps l t ?w b (?h @ be32 0)"
    by (intro mb.keeps_chk mb.keeps_emit b) simp_all
  note w = rewritten_chk [OF keeps_rewritten [OF this], of "?m @ ?h @ ?v" "\<lambda>b. chk (FixLengthField b) ?tail"]
  have "rewritten l t (chk (FixLengthField b4) ?tail) b4 (?m @ ?h @ ?v)"
    if b4: "mb.at_end l t b4" "mb_contents b4 = ?c @ (?h @ be32 0)" for b4
  proof -
    have "fix_length (mb_contents b4) = ?m @ ?h @ be32 0"
      using b4 fix_length_append [OF len(1), of "?h @ be32 0"] by simp
    then show ?thesis
      using FixLengthField_rewritten [OF b4(1)] len b4 tail
      by (intro rewritten_chk [of l t _ b4 "?m @ ?h @ be32 0"]) simp_all
  qed
  then have "rewritten l t (AddFingerprintAttribute crc b) b (?m @ ?h @ ?v)"
    using w lm by (simp add: AddFingerprintAttribute_def chk_assoc)
  then show ?thesis
    by (simp add: add_fingerprint_def Let_def)
qed

text \<open>The message with a message integrity attribute at its end.\<close>

definition add_integrity :: "(bytes \<Rightarrow> bytes \<Rightarrow> bytes) \<Rightarrow> bytes \<Rightarrow> bytes \<Rightarrow> bytes" where
  "add_integrity hmac key c =
     (let m = take (length c) (fix_length (c @ zero_bytes 24)) in
      m @ be16 STUN_ATTRIBUTE_MESSAGEINTEGRITY @ be16 20 @ hmac key m)"

text \<open>The one fact about HMAC-SHA1 that the memory writes rely on: it returns 20 bytes.\<close>

definition hmac_ok :: "(bytes \<Rightarrow> bytes \<Rightarrow> bytes) \<Rightarrow> bool" where
  "hmac_ok hmac \<longleftrightarrow> (\<forall>k m. length (hmac k m) = 20)"

lemma poke_stream_ok:
  assumes "stream_ok s" "n + length bs \<le> DS_GetSize s"
  shows "stream_ok (poke_stream s n bs)" "ds_contents (poke_stream s n bs) = splice_at (ds_contents s) n bs"
    "ds_pos (poke_stream s n bs) = ds_pos s" "DS_allocated (poke_stream s n bs) = DS_allocated s"
    "ds_in_place (poke_stream s n bs) = ds_in_place s" "DS_GetSize (poke_stream s n bs) = DS_GetSize s"
proof -
  show "ds_contents (poke_stream s n bs) = splice_at (ds_contents s) n bs"
  proof (cases "DS_GetSize s = 0")
    case True
    with assms show ?thesis
      by (auto simp: poke_stream_def ds_contents_def cb_contents_def splice_at_def DS_GetSize_def
          split: option.splits)
  next
    case False
    then obtain b where b: "ds_buffer s = Some b"
      by (auto simp: DS_GetSize_def split: option.splits)
    then obtain d where d: "cb_data b = Some d" "cb_size b \<le> length d"
      using False assms(1) by (auto simp: stream_ok_def buffer_ok_def DS_GetSize_def split: option.splits)
    have "n + length bs \<le> cb_size b"
      using assms(2) b by (simp add: DS_GetSize_def)
    then have "take (cb_size b) (splice_at d n bs) = splice_at (take (cb_size b) d) n bs"
      using d(2) take_splice_at [of n bs d "cb_size b"] by (simp add: max_def split: if_splits)
    then show ?thesis
      using b d by (simp add: poke_stream_def ds_contents_def cb_contents_def)
  qed
qed (use assms in \<open>auto simp: poke_stream_def stream_ok_def buffer_ok_def DS_GetSize_def DS_allocated_def
      ds_in_place_def split: option.splits\<close>)

lemma AddMessageIntegrityImpl_rewritten:
  assumes b: "mb.at_end l t b" and len: "20 \<le> length (mb_contents b)" and key: "key \<noteq> []"
    and h: "hmac_ok hmac"
  shows "rewritten l t (AddMessageIntegrityImpl hmac b (Some key)) b (add_integrity hmac key (mb_contents b))"
proof -
  let ?c = "mb_contents b"
  let ?m = "take (length ?c) (fix_length (?c @ zero_bytes 24))"
  let ?h = "be16 STUN_ATTRIBUTE_MESSAGEINTEGRITY @ be16 20"
  let ?tail = "\<lambda>b. let pData = DS_memory (mb_stream b); n = DS_GetSize (mb_stream b) - 24 in
      (S_OK, b\<lparr>mb_stream := poke_stream (mb_stream b) (n + 4) (hmac key (take n pData))\<rparr>)"
  have lm: "length ?m = length ?c"
    using len by simp
  have tail: "rewritten l t (?tail b1) b1 (?m @ ?h @ hmac key ?m)"
    if b1: "mb.at_end l t b1" and c1: "mb_contents b1 = ?m @ ?h @ zero_bytes 20" for b1
  proof -
    note f = mb_at_end_fields [OF b1]
    have sz: "DS_GetSize (mb_stream b1) = length ?c + 24"
      using f c1 lm by simp
    have "take (length ?c + 24) (DS_memory (mb_stream b1)) = ?m @ ?h @ zero_bytes 20"
      using ds_contents_memory [of "mb_stream b1"] f c1 sz by (simp add: mb_contents_def)
    then have mem: "take (length ?c) (DS_memory (mb_stream b1)) = ?m"
      using lm by (metis append_eq_conv_conj min.absorb1 le_add1 take_take)
    have hl: "length (hmac key ?m) = 20"
      using h by (simp add: hmac_ok_def)
    then have "splice_at (mb_contents b1) (length ?c + 4) (hmac key ?m) = ?m @ ?h @ hmac key ?m"
      using lm by (simp add: c1 splice_at_def)
    then show ?thesis
      using f sz mem hl lm poke_stream_ok [of "mb_stream b1" "length ?c + 4" "hmac key ?m"]
      by (simp add: Let_def rewritten_def mb.at_end_def mb_ok_def mb_contents_def)
  qed
  have "mb.keeps l t (AddAttribute b STUN_ATTRIBUTE_MESSAGEINTEGRITY (Some (zero_bytes 20)) 20) b
      (?h @ zero_bytes 20)"
    using AddAttribute_keeps [OF b, of "zero_bytes 20" STUN_ATTRIBUTE_MESSAGEINTEGRITY]
    by (cases l) (simp_all add: attr_wire_def padding_of_def)
  note w = rewritten_chk [OF keeps_rewritten [OF this], of "?m @ ?h @ hmac key ?m"
      "\<lambda>b. chk (FixLengthField b) ?tail"]
  have "rewritten l t (chk (FixLengthField b4) ?tail) b4 (?m @ ?h @ hmac key ?m)"
    if b4: "mb.at_end l t b4" "mb_contents b4 = ?c @ (?h @ zero_bytes 20)" for b4
  proof -
    have "fix_length (mb_contents b4) = ?m @ ?h @ zero_bytes 20"
      using b4 fix_length_append [OF len(1), of "?h @ zero_bytes 20"] by simp
    then show ?thesis
      using FixLengthField_rewritten [OF b4(1)] len b4 tail h
      by (intro rewritten_chk [of l t _ b4 "?m @ ?h @ zero_bytes 20"]) (simp_all add: hmac_ok_def)
  qed
  then have "rewritten l t (AddMessageIntegrityImpl hmac b (Some key)) b (?m @ ?h @ hmac key ?m)"
    using w lm key h by (simp add: AddMessageIntegrityImpl_def is_null_or_empty_def hmac_ok_def)
  then show ?thesis
    by (simp add: add_integrity_def Let_def)
qed

text \<open>What \<open>GetResult\<close> hands out.\<close>

lemma GetResult_ok:
  assumes b: "mb.at_end l t b" and len: "20 \<le> length (mb_contents b)"
  obtains buf b' where "GetResult b = (S_OK, Some buf, b')" "cb_contents buf = fix_length (mb_contents b)"
    "buffer_ok buf" "mb.at_end l t b'" "ds_buffer (mb_stream b') = Some buf"
    "mb_in_place b \<Longrightarrow> length (mb_contents b) \<le> mb_room b \<Longrightarrow>
       mb_in_place b' \<and> mb_room b' = mb_room b"
proof -
  obtain hr b' where r: "FixLengthField b = (hr, b')"
    by fastforce
  have w: "\<not> FAILED hr" "mb.at_end l t b'" "mb_contents b' = fix_length (mb_contents b)"
    "mb_in_place b \<Longrightarrow> length (mb_contents b) \<le> mb_room b \<Longrightarrow> mb_in_place b' \<and> mb_room b' = mb_room b"
    using FixLengthField_rewritten [OF b len] len by (simp_all add: r rewritten_def)
  have "length (mb_contents b') = length (mb_contents b)"
    using w(3) len by simp
  then have "mb_contents b' \<noteq> []"
    using len by auto
  then obtain buf where buf: "ds_buffer (mb_stream b') = Some buf"
    by (auto simp: mb_contents_def ds_contents_def split: option.splits)
  then have "buffer_ok buf" "cb_contents buf = mb_contents b'"
    using mb_at_end_fields [OF w(2)] by (simp_all add: stream_ok_def mb_contents_def ds_contents_def)
  with w buf show thesis
    by (intro that [of buf b']) (simp_all add: GetResult_def r SUCCEEDED_iff_not_FAILED DS_GetBuffer_def)
qed

lemma AddUnknownAttributes_keeps:
  assumes b: "mb.at_end l t b" and arr: "arr \<noteq> []" "length arr < 2 ^ 14"
  shows "mb.keeps l t (AddUnknownAttributes b (Some arr) (length arr)) b
    (be16 STUN_ATTRIBUTE_UNKNOWNATTRIBUTES
     @ be16 (word_of_nat (2 * length arr + (if l \<and> odd (length arr) then 2 else 0)))
     @ concat (map host16 arr) @ (if l \<and> odd (length arr) then host16 (last arr) else []))"
proof -
  let ?n = "length arr" and ?bs = "concat (map host16 arr)"
  let ?p = "l \<and> odd ?n"
  have u: "unat (word_of_nat (?n * 2) :: u16) = ?n * 2"
    using arr unfolding unat_of_nat by simp
  have lb: "length ?bs = ?n * 2"
    by (simp add: length_concat o_def sum_list_triv)
  have ne: "?bs \<noteq> []"
    using arr(1) by (cases arr) simp_all
  have l: "mb_fLegacyMode b = l"
    using mb_at_end_fields [OF b] by simp
  have tail: "mb.keeps l t (let r = mb_write b' ?bs in
       if ?p then chk r (\<lambda>b. (fst r, snd (mb_write b (host16 (arr ! (?n - 1)))))) else r) b'
     (?bs @ (if ?p then host16 (last arr) else []))" if b': "mb.at_end l t b'" for b'
    using mb.keeps_quiet_if [OF mb.keeps_emit [OF b' ne], of ?p "if ?p then host16 (last arr) else []"]
      arr(1) by (cases l; cases "odd ?n") (simp_all add: last_conv_nth Let_def)
  have "AddUnknownAttributes b (Some arr) ?n = chk (AddAttributeHeader b STUN_ATTRIBUTE_UNKNOWNATTRIBUTES
      (word_of_nat (2 * ?n + (if ?p then 2 else 0)))) (\<lambda>b. let r = mb_write b ?bs in
       if ?p then chk r (\<lambda>b. (fst r, snd (mb_write b (host16 (arr ! (?n - 1)))))) else r)"
    using arr(1) lb u
    by (cases l; cases "odd ?n")
      (simp_all add: AddUnknownAttributes_def Let_def l odd_iff_mod_2_eq_one mult.commute add.commute)
  then show ?thesis
    using mb.keeps_chk [OF AddAttributeHeader_keeps [OF b], OF tail] by simp
qed

lemma AddPaddingAttribute_keeps:
  assumes b: "mb.at_end l t b" and n: "unat n mod 4 = 0"
  shows "mb.keeps l t (AddPaddingAttribute b n) b (be16 STUN_ATTRIBUTE_PADDING @ be16 n @ zero_bytes (unat n))"
proof -
  have "n mod 4 = 0"
    using n by (simp add: word_arith_nat_mod)
  moreover note h = AddAttributeHeader_keeps [OF b, of STUN_ATTRIBUTE_PADDING n]
  then have "\<not> FAILED (fst (AddAttributeHeader b STUN_ATTRIBUTE_PADDING n))"
    by (simp add: mb.keeps_def mb.appends_def)
  ultimately show ?thesis
    using AddPadding_loop_keeps [OF b h, of "unat n"] by (simp add: AddPaddingAttribute_def Let_def)
qed

end
