(* ===== verification/StunHash.thy ===== *)
theory StunHash
  imports NosePrelude "HOL-Library.Multiset"
begin

text \<open>
  \<open>FastHash\<close> (\<open>stunserver/common/fasthash.h\<close>, \<open>fasthash.cpp\<close>): a hash table over
  pre-allocated arrays. A node is its position in \<open>_itemnodes\<close>, which is also its \<open>index\<close>
  field; a null pointer is \<open>None\<close>. \<open>fh_nodes\<close> and \<open>fh_indexlist\<close> give \<open>None\<close> for a cell
  that was never written. \<open>fh_alloc\<close> tells whether the arrays are there (\<open>Init\<close> gets all of
  them or four null pointers). The overload of \<open>FastHash_Hash\<close> is the argument \<open>hf\<close>.

  The operations work on the pointers; the invariant \<open>fh_ok\<close> describes the free list and
  the chains as disjoint null-terminated lists that share out the nodes. The contracts
  \<open>keyed_store\<close> and \<open>indexed_store\<close> state what the callers rely on: every key has a stack
  of values, the last inserted on top, and the items can be enumerated.
\<close>

record ('k, 'v) fasthash =
  fh_fsize :: nat
  fh_tsize :: nat
  fh_nodes :: "nat \<Rightarrow> ('k \<times> 'v) option"
  fh_next :: "nat \<Rightarrow> nat option"
  fh_freelist :: "nat option"
  fh_table :: "nat \<Rightarrow> nat option"
  fh_alloc :: bool
  fh_indexlist :: "nat \<Rightarrow> nat option"
  fh_fIndexValid :: bool
  fh_indexStart :: nat
  fh_size :: nat

section \<open>Operations\<close>

definition FH_Reset :: "('k, 'v) fasthash \<Rightarrow> ('k, 'v) fasthash" where
  "FH_Reset h = h\<lparr>
     fh_table := (if fh_alloc h then (\<lambda>_. None) else fh_table h),
     fh_next := (if 0 < fh_fsize h \<and> fh_alloc h
       then (\<lambda>x. if Suc x < fh_fsize h then Some (Suc x) else None) else fh_next h),
     fh_freelist := (if fh_alloc h then Some 0 else None),
     fh_size := 0, fh_fIndexValid := fh_alloc h, fh_indexStart := 0\<rparr>"

definition FH_Init :: "nat \<Rightarrow> nat \<Rightarrow> bool \<Rightarrow> ('k, 'v) fasthash" where
  "FH_Init fsize tsize alloc = FH_Reset \<lparr>fh_fsize = fsize, fh_tsize = tsize,
     fh_nodes = (\<lambda>_. None), fh_next = (\<lambda>_. None), fh_freelist = None,
     fh_table = (\<lambda>_. None), fh_alloc = alloc, fh_indexlist = (\<lambda>_. None),
     fh_fIndexValid = alloc, fh_indexStart = 0, fh_size = 0\<rparr>"

definition FH_IsValid :: "('k, 'v) fasthash \<Rightarrow> bool" where
  "FH_IsValid h \<longleftrightarrow> 0 < fh_tsize h \<and> 0 < fh_fsize h \<and> fh_alloc h"

definition FH_GetMaxCapacity :: "('k, 'v) fasthash \<Rightarrow> nat" where
  "FH_GetMaxCapacity h = fh_fsize h"

definition FH_GetTableWidth :: "('k, 'v) fasthash \<Rightarrow> nat" where
  "FH_GetTableWidth h = fh_tsize h"

text \<open>
  The loop of \<open>Find\<close> from the node \<open>p\<close> with \<open>prev\<close> before it; \<open>None\<close> when the fuel runs out
  first. A chain has at most \<open>fsize\<close> nodes, so \<open>fsize + 1\<close> rounds are enough.
\<close>

fun FH_probe :: "nat \<Rightarrow> ('k, 'v) fasthash \<Rightarrow> 'k \<Rightarrow> nat option \<Rightarrow> nat option
    \<Rightarrow> (nat option \<times> nat option) option" where
  "FH_probe 0 h k prev p = None"
| "FH_probe (Suc n) h k prev None = Some (prev, None)"
| "FH_probe (Suc n) h k prev (Some i) =
     (if map_option fst (fh_nodes h i) = Some k then Some (prev, Some i)
      else FH_probe n h k (Some i) (fh_next h i))"

text \<open>\<open>Find\<close>: the hash index, the node before, the node found.\<close>

definition FH_Find :: "('k \<Rightarrow> nat) \<Rightarrow> ('k, 'v) fasthash \<Rightarrow> 'k \<Rightarrow> nat \<times> nat option \<times> nat option" where
  "FH_Find hf h k =
     (let hashindex = hf k mod fh_tsize h in
      (hashindex, case FH_probe (Suc (fh_fsize h)) h k None (fh_table h hashindex) of
                    Some r \<Rightarrow> r | None \<Rightarrow> (None, None)))"

text \<open>The nodes of a chain, in order, at most \<open>n\<close> of them: the inner loop of \<open>ReIndex\<close>.\<close>

fun FH_walk :: "nat \<Rightarrow> (nat \<Rightarrow> nat option) \<Rightarrow> nat option \<Rightarrow> nat list" where
  "FH_walk 0 nx p = []"
| "FH_walk (Suc n) nx None = []"
| "FH_walk (Suc n) nx (Some i) = i # FH_walk n nx (nx i)"

definition FH_chain :: "('k, 'v) fasthash \<Rightarrow> nat \<Rightarrow> nat list" where
  "FH_chain h t = FH_walk (fh_fsize h) (fh_next h) (fh_table h t)"

definition FH_ReIndex :: "('k, 'v) fasthash \<Rightarrow> ('k, 'v) fasthash" where
  "FH_ReIndex h =
     (if \<not> fh_alloc h \<or> fh_size h = 0 then h
      else let xs = concat (map (FH_chain h) [0..<fh_tsize h]) in
        h\<lparr>fh_indexlist := (\<lambda>j. if j < length xs then Some (xs ! j) else fh_indexlist h j),
          fh_fIndexValid := True, fh_indexStart := 0\<rparr>)"

definition FH_UpdateIndexWithAdd :: "('k, 'v) fasthash \<Rightarrow> nat \<Rightarrow> ('k, 'v) fasthash" where
  "FH_UpdateIndexWithAdd h i =
     (if fh_fIndexValid h \<and> fh_size h < fh_fsize h \<and> fh_alloc h
      then h\<lparr>fh_indexlist := (fh_indexlist h)
               ((fh_size h + fh_indexStart h) mod fh_fsize h := Some i)\<rparr>
      else h)"

definition FH_UpdateIndexWithRemove :: "('k, 'v) fasthash \<Rightarrow> nat \<Rightarrow> ('k, 'v) fasthash" where
  "FH_UpdateIndexWithRemove h i =
     (if fh_size h = 0 \<or> \<not> fh_alloc h \<or> (1 < fh_size h \<and> \<not> fh_fIndexValid h) then h
      else if fh_size h = 1 then h\<lparr>fh_fIndexValid := True, fh_indexStart := 0\<rparr>
      else if fh_indexlist h (fh_indexStart h) = Some i
      then h\<lparr>fh_indexStart := (fh_indexStart h + 1) mod fh_fsize h\<rparr>
      else if fh_indexlist h ((fh_indexStart h + (fh_size h - 1)) mod fh_fsize h) = Some i then h
      else h\<lparr>fh_fIndexValid := False\<rparr>)"

definition FH_Insert :: "('k \<Rightarrow> nat) \<Rightarrow> ('k, 'v) fasthash \<Rightarrow> 'k \<Rightarrow> 'v \<Rightarrow> int \<times> ('k, 'v) fasthash" where
  "FH_Insert hf h k v =
     (let hashindex = hf k mod fh_tsize h; pHead = fh_table h hashindex in
      case fh_freelist h of
        None \<Rightarrow> (-1, h)
      | Some i \<Rightarrow>
          let h = h\<lparr>fh_freelist := fh_next h i\<rparr>;
              h = h\<lparr>fh_nodes := (fh_nodes h)(i := Some (k, v))\<rparr>;
              h = h\<lparr>fh_next := (fh_next h)(i := pHead)\<rparr>;
              h = h\<lparr>fh_table := (fh_table h)(hashindex := Some i)\<rparr>;
              h = FH_UpdateIndexWithAdd h i in
          (1, h\<lparr>fh_size := fh_size h + 1\<rparr>))"

definition FH_Remove :: "('k \<Rightarrow> nat) \<Rightarrow> ('k, 'v) fasthash \<Rightarrow> 'k \<Rightarrow> int \<times> ('k, 'v) fasthash" where
  "FH_Remove hf h k =
     (case FH_Find hf h k of (hashindex, pPrev, pNode) \<Rightarrow>
      (case pNode of
         None \<Rightarrow> (-1, h)
       | Some i \<Rightarrow>
           let pNext = fh_next h i;
               h = (case pPrev of
                      None \<Rightarrow> h\<lparr>fh_table := (fh_table h)(hashindex := pNext)\<rparr>
                    | Some j \<Rightarrow> h\<lparr>fh_next := (fh_next h)(j := pNext)\<rparr>);
               h = FH_UpdateIndexWithRemove h i;
               h = h\<lparr>fh_next := (fh_next h)(i := fh_freelist h)\<rparr>;
               h = h\<lparr>fh_freelist := Some i\<rparr> in
           (1, h\<lparr>fh_size := fh_size h - 1\<rparr>)))"

definition FH_Lookup :: "('k \<Rightarrow> nat) \<Rightarrow> ('k, 'v) fasthash \<Rightarrow> 'k \<Rightarrow> 'v option" where
  "FH_Lookup hf h k = (case snd (snd (FH_Find hf h k)) of
       None \<Rightarrow> None | Some i \<Rightarrow> map_option snd (fh_nodes h i))"

definition FH_Exists :: "('k \<Rightarrow> nat) \<Rightarrow> ('k, 'v) fasthash \<Rightarrow> 'k \<Rightarrow> bool" where
  "FH_Exists hf h k \<longleftrightarrow> snd (snd (FH_Find hf h k)) \<noteq> None"

text \<open>\<open>LookupByIndex\<close> may rebuild the index, so it returns the table too.\<close>

definition FH_LookupByIndex ::
    "('k, 'v) fasthash \<Rightarrow> nat \<Rightarrow> ('k \<times> 'v) option \<times> ('k, 'v) fasthash" where
  "FH_LookupByIndex h index =
     (if fh_size h \<le> index \<or> \<not> fh_alloc h then (None, h)
      else
        let h' = (if \<not> fh_fIndexValid h then FH_ReIndex h else h) in
        if \<not> fh_fIndexValid h' then (None, h')
        else (case fh_indexlist h' ((fh_indexStart h' + index) mod fh_fsize h') of
                None \<Rightarrow> (None, h') | Some i \<Rightarrow> (fh_nodes h' i, h')))"

definition FH_LookupValueByIndex ::
    "('k, 'v) fasthash \<Rightarrow> nat \<Rightarrow> 'v option \<times> ('k, 'v) fasthash" where
  "FH_LookupValueByIndex h index =
     (let (r, h') = FH_LookupByIndex h index in (map_option snd r, h'))"

section \<open>Null-terminated lists\<close>

fun lseg :: "(nat \<Rightarrow> nat option) \<Rightarrow> nat option \<Rightarrow> nat list \<Rightarrow> bool" where
  "lseg nx p [] \<longleftrightarrow> p = None"
| "lseg nx p (x # xs) \<longleftrightarrow> p = Some x \<and> lseg nx (nx x) xs"

lemma lseg_upd [simp]: "i \<notin> set xs \<Longrightarrow> lseg (nx(i := q)) p xs = lseg nx p xs"
  by (induction xs arbitrary: p) auto

lemma lseg_None [simp]: "lseg nx None xs \<longleftrightarrow> xs = []"
  by (cases xs) auto

lemma lseg_Some: "lseg nx (Some i) xs \<longleftrightarrow> (\<exists>ys. xs = i # ys \<and> lseg nx (nx i) ys)"
  by (cases xs) auto

lemma FH_walk_lseg: "lseg nx p xs \<Longrightarrow> length xs \<le> n \<Longrightarrow> FH_walk n nx p = xs"
proof (induction xs arbitrary: p n)
  case Nil
  then show ?case
    by (cases n) auto
next
  case (Cons x xs)
  then show ?case
    by (cases n) auto
qed

lemma lseg_unlink:
  "lseg nx p (xs @ j # i # ys) \<Longrightarrow> distinct (xs @ j # i # ys) \<Longrightarrow>
   lseg (nx(j := nx i)) p (xs @ j # ys)"
  by (induction xs arbitrary: p) auto

lemma lseg_append_next:
  "lseg nx p (xs @ i # ys) \<Longrightarrow> lseg nx (nx i) ys"
  by (induction xs arbitrary: p) auto

text \<open>The result of the loop of \<open>Find\<close> on a list, by the first node with the key.\<close>

fun probe_spec :: "('k, 'v) fasthash \<Rightarrow> 'k \<Rightarrow> nat option \<Rightarrow> nat list \<Rightarrow> nat option \<times> nat option" where
  "probe_spec h k prev [] = (prev, None)"
| "probe_spec h k prev (i # xs) =
     (if map_option fst (fh_nodes h i) = Some k then (prev, Some i) else probe_spec h k (Some i) xs)"

lemma FH_probe_spec:
  "lseg (fh_next h) p xs \<Longrightarrow> length xs < n \<Longrightarrow> FH_probe n h k prev p = Some (probe_spec h k prev xs)"
proof (induction xs arbitrary: p n prev)
  case Nil
  then show ?case
    by (cases n) auto
next
  case (Cons x xs)
  then show ?case
    by (cases n) auto
qed

abbreviation has_key :: "('k, 'v) fasthash \<Rightarrow> 'k \<Rightarrow> nat \<Rightarrow> bool" where
  "has_key h k i \<equiv> map_option fst (fh_nodes h i) = Some k"

lemma probe_spec_None: "\<forall>i\<in>set xs. \<not> has_key h k i \<Longrightarrow> snd (probe_spec h k prev xs) = None"
  by (induction xs arbitrary: prev) auto

lemma probe_spec_Some:
  "\<exists>i\<in>set xs. has_key h k i \<Longrightarrow> \<exists>us i ys. xs = us @ i # ys \<and> has_key h k i \<and>
     (\<forall>j\<in>set us. \<not> has_key h k j) \<and>
     probe_spec h k prev xs = ((if us = [] then prev else Some (last us)), Some i)"
proof (induction xs arbitrary: prev)
  case Nil
  then show ?case
    by simp
next
  case (Cons x xs)
  show ?case
  proof (cases "has_key h k x")
    case True
    then show ?thesis
      by (intro exI [of _ "[]"] exI [of _ x] exI [of _ xs]) simp
  next
    case False
    with Cons.prems have "\<exists>i\<in>set xs. has_key h k i"
      by auto
    from Cons.IH [OF this, of "Some x"] obtain us i ys where
      "xs = us @ i # ys" "has_key h k i" "\<forall>j\<in>set us. \<not> has_key h k j"
      "probe_spec h k (Some x) xs = ((if us = [] then Some x else Some (last us)), Some i)"
      by blast
    with False show ?thesis
      by (intro exI [of _ "x # us"] exI [of _ i] exI [of _ ys]) auto
  qed
qed

section \<open>The invariant\<close>

text \<open>
  \<open>fl\<close> is the free list and \<open>ch t\<close> the chain at table position \<open>t\<close>.
\<close>

definition fh_shape :: "('k \<Rightarrow> nat) \<Rightarrow> ('k, 'v) fasthash \<Rightarrow> nat list \<Rightarrow> (nat \<Rightarrow> nat list) \<Rightarrow> bool" where
  "fh_shape hf h fl ch \<longleftrightarrow> lseg (fh_next h) (fh_freelist h) fl \<and> distinct fl \<and>
     (\<forall>t. lseg (fh_next h) (fh_table h t) (ch t) \<and> distinct (ch t) \<and> set (ch t) \<inter> set fl = {}) \<and>
     (\<forall>t i. i \<in> set (ch t) \<longrightarrow> (\<exists>k v. fh_nodes h i = Some (k, v) \<and> hf k mod fh_tsize h = t)) \<and>
     set fl \<union> (\<Union>t. set (ch t)) = {..<fh_fsize h} \<and> fh_size h + length fl = fh_fsize h"

definition fh_window :: "('k, 'v) fasthash \<Rightarrow> nat option list" where
  "fh_window h = map (\<lambda>j. fh_indexlist h ((fh_indexStart h + j) mod fh_fsize h)) [0..<fh_size h]"

text \<open>The index lists every node in use exactly once.\<close>

definition fh_index_ok :: "('k, 'v) fasthash \<Rightarrow> nat list \<Rightarrow> bool" where
  "fh_index_ok h fl \<longleftrightarrow> fh_indexStart h < fh_fsize h \<and> (fh_fIndexValid h \<longrightarrow>
     (\<exists>is. fh_window h = map Some is \<and> distinct is \<and> set is = {..<fh_fsize h} - set fl))"

definition fh_ok :: "('k \<Rightarrow> nat) \<Rightarrow> ('k, 'v) fasthash \<Rightarrow> bool" where
  "fh_ok hf h \<longleftrightarrow> fh_alloc h \<and> 0 < fh_fsize h \<and> 0 < fh_tsize h \<and>
     (\<exists>fl ch. fh_shape hf h fl ch \<and> fh_index_ok h fl)"

text \<open>The values of a key, the last inserted first.\<close>

definition fh_stack :: "('k \<Rightarrow> nat) \<Rightarrow> ('k, 'v) fasthash \<Rightarrow> 'k \<Rightarrow> 'v list" where
  "fh_stack hf h k = map (\<lambda>i. snd (the (fh_nodes h i)))
     (filter (has_key h k) (FH_chain h (hf k mod fh_tsize h)))"

lemma fh_shape_chain:
  assumes "fh_shape hf h fl ch"
  shows "FH_chain h t = ch t" "length (ch t) \<le> fh_fsize h"
proof -
  have "set (ch t) \<subseteq> {..<fh_fsize h}" "distinct (ch t)" "lseg (fh_next h) (fh_table h t) (ch t)"
    using assms by (auto simp: fh_shape_def)
  moreover from this show "length (ch t) \<le> fh_fsize h"
    using card_mono [of "{..<fh_fsize h}" "set (ch t)"] by (simp add: distinct_card)
  ultimately show "FH_chain h t = ch t"
    by (simp add: FH_chain_def FH_walk_lseg)
qed

lemma FH_Find_spec:
  assumes "fh_shape hf h fl ch"
  shows "FH_Find hf h k = (hf k mod fh_tsize h, probe_spec h k None (ch (hf k mod fh_tsize h)))"
proof -
  have "FH_probe (Suc (fh_fsize h)) h k None (fh_table h (hf k mod fh_tsize h))
      = Some (probe_spec h k None (ch (hf k mod fh_tsize h)))"
    using assms fh_shape_chain(2) [OF assms, of "hf k mod fh_tsize h"]
    by (intro FH_probe_spec) (auto simp: fh_shape_def)
  then show ?thesis
    by (simp add: FH_Find_def Let_def)
qed

section \<open>Lookup, insertion and removal on the stacks\<close>

lemma fh_stack_chain:
  "fh_shape hf h fl ch \<Longrightarrow> fh_stack hf h k = map (\<lambda>i. snd (the (fh_nodes h i)))
     (filter (has_key h k) (ch (hf k mod fh_tsize h)))"
  by (simp add: fh_stack_def fh_shape_chain)

lemma FH_Lookup_stack:
  assumes "fh_ok hf h"
  shows "FH_Lookup hf h k = (case fh_stack hf h k of [] \<Rightarrow> None | v # _ \<Rightarrow> Some v)"
proof -
  obtain fl ch where sh: "fh_shape hf h fl ch"
    using assms by (auto simp: fh_ok_def)
  let ?c = "ch (hf k mod fh_tsize h)"
  show ?thesis
  proof (cases "\<exists>i\<in>set ?c. has_key h k i")
    case True
    from probe_spec_Some [OF this, of None] obtain us i ys where u: "?c = us @ i # ys" "has_key h k i"
      "\<forall>j\<in>set us. \<not> has_key h k j"
      "probe_spec h k None ?c = ((if us = [] then None else Some (last us)), Some i)"
      by blast
    have "filter (has_key h k) us = []"
      using u(3) by (simp add: filter_empty_conv)
    then show ?thesis
      using u by (auto simp: FH_Lookup_def FH_Find_spec [OF sh] fh_stack_chain [OF sh])
  next
    case False
    then have "filter (has_key h k) ?c = []"
      by (simp add: filter_empty_conv)
    with False show ?thesis
      by (simp add: FH_Lookup_def FH_Find_spec [OF sh] probe_spec_None fh_stack_chain [OF sh])
  qed
qed

lemma FH_Exists_Lookup: "fh_ok hf h \<Longrightarrow> FH_Exists hf h k \<longleftrightarrow> FH_Lookup hf h k \<noteq> None"
proof -
  assume "fh_ok hf h"
  then obtain fl ch where sh: "fh_shape hf h fl ch"
    by (auto simp: fh_ok_def)
  let ?c = "ch (hf k mod fh_tsize h)"
  show ?thesis
  proof (cases "\<exists>i\<in>set ?c. has_key h k i")
    case True
    from probe_spec_Some [OF this, of None] show ?thesis
      by (auto simp: FH_Exists_def FH_Lookup_def FH_Find_spec [OF sh])
  next
    case False
    then show ?thesis
      by (simp add: FH_Exists_def FH_Lookup_def FH_Find_spec [OF sh] probe_spec_None)
  qed
qed

lemma lseg_upt: "n < m \<Longrightarrow>
  lseg (\<lambda>x. if Suc x < m then Some (Suc x) else None) (Some n) [n..<m]"
proof (induction "m - n" arbitrary: n)
  case 0
  then show ?case
    by simp
next
  case (Suc k)
  show ?case
  proof (cases "Suc n < m")
    case True
    with Suc.hyps(1) [of "Suc n"] Suc.hyps(2) show ?thesis
      by (simp add: upt_conv_Cons)
  next
    case False
    with Suc.prems show ?thesis
      by (simp add: upt_conv_Cons)
  qed
qed

lemma FH_Reset_ok:
  assumes "fh_alloc h" "0 < fh_fsize h" "0 < fh_tsize h"
  shows "fh_ok hf (FH_Reset h)" "fh_stack hf (FH_Reset h) k = []" "fh_size (FH_Reset h) = 0"
proof -
  have sh: "fh_shape hf (FH_Reset h) [0..<fh_fsize h] (\<lambda>_. [])"
    using assms by (auto simp: fh_shape_def FH_Reset_def lseg_upt)
  moreover have "fh_index_ok (FH_Reset h) [0..<fh_fsize h]"
    using assms by (auto simp: fh_index_ok_def FH_Reset_def fh_window_def)
  ultimately show "fh_ok hf (FH_Reset h)"
    using assms unfolding fh_ok_def by (auto simp: FH_Reset_def)
  show "fh_stack hf (FH_Reset h) k = []"
    by (simp add: fh_stack_chain [OF sh])
qed (simp add: FH_Reset_def)

lemma FH_Insert_full:
  assumes "fh_ok hf h" "fh_size h = fh_fsize h"
  shows "FH_Insert hf h k v = (-1, h)"
proof -
  obtain fl ch where sh: "fh_shape hf h fl ch"
    using assms by (auto simp: fh_ok_def)
  then have "fl = []"
    using assms by (auto simp: fh_shape_def)
  with sh show ?thesis
    by (simp add: FH_Insert_def fh_shape_def)
qed

lemma fh_size_le: "fh_ok hf h \<Longrightarrow> fh_size h \<le> fh_fsize h"
  by (auto simp: fh_ok_def fh_shape_def)

text \<open>The table after an insertion, field by field.\<close>

lemma FH_Insert_fields:
  assumes "fh_freelist h = Some i"
  shows "fst (FH_Insert hf h k v) = 1"
    "fh_fsize (snd (FH_Insert hf h k v)) = fh_fsize h"
    "fh_tsize (snd (FH_Insert hf h k v)) = fh_tsize h"
    "fh_alloc (snd (FH_Insert hf h k v)) = fh_alloc h"
    "fh_nodes (snd (FH_Insert hf h k v)) = (fh_nodes h)(i := Some (k, v))"
    "fh_next (snd (FH_Insert hf h k v)) = (fh_next h)(i := fh_table h (hf k mod fh_tsize h))"
    "fh_freelist (snd (FH_Insert hf h k v)) = fh_next h i"
    "fh_table (snd (FH_Insert hf h k v)) = (fh_table h)(hf k mod fh_tsize h := Some i)"
    "fh_fIndexValid (snd (FH_Insert hf h k v)) = fh_fIndexValid h"
    "fh_indexStart (snd (FH_Insert hf h k v)) = fh_indexStart h"
    "fh_size (snd (FH_Insert hf h k v)) = fh_size h + 1"
    "fh_indexlist (snd (FH_Insert hf h k v)) =
       (if fh_fIndexValid h \<and> fh_size h < fh_fsize h \<and> fh_alloc h
        then (fh_indexlist h)((fh_size h + fh_indexStart h) mod fh_fsize h := Some i)
        else fh_indexlist h)"
  using assms by (simp_all add: FH_Insert_def Let_def FH_UpdateIndexWithAdd_def)

lemma mod_add_inj:
  fixes n :: nat
  assumes "(s + i) mod n = (s + j) mod n" "i < n" "j < n"
  shows "i = j"
proof -
  have "(int s + int i) mod int n = (int s + int j) mod int n"
    using assms(1) by (metis of_nat_add zmod_int)
  then have "int n dvd (int s + int i) - (int s + int j)"
    by (simp add: mod_eq_dvd_iff)
  then have d: "int n dvd int i - int j"
    by simp
  then show ?thesis
    using assms(2,3) zdvd_imp_le [of "int n" "int i - int j"] zdvd_imp_le [of "int n" "int j - int i"]
    by (cases i j rule: linorder_cases) (auto simp: dvd_diff_commute)
qed

lemma FH_Insert_shape:
  fixes k :: 'k and v :: 'v
  assumes sh: "fh_shape hf h (i # fl) ch" and ts: "0 < fh_tsize h"
  defines "t \<equiv> hf k mod fh_tsize h"
  shows "fh_shape hf (snd (FH_Insert hf h k v)) fl (ch(t := i # ch t))"
proof -
  let ?h = "snd (FH_Insert hf h k v)" and ?ch = "ch(t := i # ch t)"
  have fr: "fh_freelist h = Some i"
    using sh by (simp add: fh_shape_def)
  note f = FH_Insert_fields [OF fr, of hf k v, folded t_def]
  have i: "i \<notin> set fl" "\<And>u. i \<notin> set (ch u)" and fl: "lseg (fh_next h) (fh_next h i) fl" "distinct fl"
    and ch: "\<And>u. lseg (fh_next h) (fh_table h u) (ch u)" "\<And>u. distinct (ch u)"
      "\<And>u. set (ch u) \<inter> set fl = {}"
    using sh by (auto simp: fh_shape_def)
  have keys: "\<And>u j. j \<in> set (ch u) \<Longrightarrow>
      \<exists>k' v'. fh_nodes h j = Some (k', v') \<and> hf k' mod fh_tsize h = u"
    using sh by (simp add: fh_shape_def)
  have all: "insert i (set fl) \<union> (\<Union>u. set (ch u)) = {..<fh_fsize h}"
    and sz: "fh_size h + length (i # fl) = fh_fsize h"
    using sh by (simp_all add: fh_shape_def)
  have "(\<Union>u. set (?ch u)) = insert i (\<Union>u. set (ch u))"
    by (auto split: if_splits)
  then have all': "set fl \<union> (\<Union>u. set (?ch u)) = {..<fh_fsize h}"
    using all by simp
  have seg: "lseg (fh_next ?h) (fh_table ?h u) (?ch u)" for u
    using ch(1) [of u] ch(1) [of t] i(2) [of u] i(2) [of t] by (simp add: f)
  have keys': "\<exists>k' v'. fh_nodes ?h j = Some (k', v') \<and> hf k' mod fh_tsize ?h = u"
    if "j \<in> set (?ch u)" for u j
    using that keys [of j u] i(2) [of u] by (cases "u = t"; cases "j = i") (auto simp: f t_def)
  have dis: "distinct (?ch u)" "set (?ch u) \<inter> set fl = {}" for u
    using ch(2,3) [of u] i by auto
  show ?thesis
    unfolding fh_shape_def
    using seg keys' dis all' fl i(1) sz by (simp add: f)
qed

lemma mod_add_inj':
  fixes n :: nat
  shows "(j + s) mod n = (s + i) mod n \<Longrightarrow> i < n \<Longrightarrow> j < i \<Longrightarrow> False"
  using mod_add_inj [of s i n j] by (simp add: add.commute)

lemma fh_window_append:
  assumes w: "fh_window h = map Some is" and room: "fh_size h < fh_fsize h"
    and f: "fh_fsize h' = fh_fsize h" "fh_indexStart h' = fh_indexStart h"
      "fh_size h' = fh_size h + 1"
      "fh_indexlist h' = (fh_indexlist h)((fh_size h + fh_indexStart h) mod fh_fsize h := Some i)"
  shows "fh_window h' = map Some (is @ [i])"
proof -
  have "map (\<lambda>j. fh_indexlist h' ((fh_indexStart h + j) mod fh_fsize h)) [0..<fh_size h] = fh_window h"
    using room f(4) by (auto simp: fh_window_def add.commute dest: mod_add_inj')
  then have "fh_window h' = map Some is @ [fh_indexlist h' ((fh_indexStart h + fh_size h) mod fh_fsize h)]"
    unfolding w by (simp only: fh_window_def f(1-3) Suc_eq_plus1 [symmetric] upt_Suc) simp
  then show ?thesis
    by (simp add: f(4) add.commute)
qed

lemma FH_Insert_room:
  assumes ok: "fh_ok hf h" and room: "fh_size h < fh_fsize h"
  shows "fst (FH_Insert hf h k v) = 1" "fh_ok hf (snd (FH_Insert hf h k v))"
    "fh_stack hf (snd (FH_Insert hf h k v)) = (fh_stack hf h)(k := v # fh_stack hf h k)"
    "fh_size (snd (FH_Insert hf h k v)) = fh_size h + 1"
    "fh_fsize (snd (FH_Insert hf h k v)) = fh_fsize h"
proof -
  obtain fl0 ch where sh0: "fh_shape hf h fl0 ch" and ix0: "fh_index_ok h fl0"
    and pos: "fh_alloc h" "0 < fh_tsize h"
    using ok by (auto simp: fh_ok_def)
  have "fl0 \<noteq> []"
    using sh0 room by (auto simp: fh_shape_def)
  then obtain i fl where "fl0 = i # fl"
    by (cases fl0) auto
  note sh = sh0 [unfolded this] and ix = ix0 [unfolded this]
  have fr: "fh_freelist h = Some i"
    using sh by (simp add: fh_shape_def)
  let ?h = "snd (FH_Insert hf h k v)" and ?t = "hf k mod fh_tsize h"
  note f = FH_Insert_fields [OF fr, of hf k v]
  note sh' = FH_Insert_shape [OF sh pos(2), of k v]
  have i: "i \<notin> set fl" "\<And>u. i \<notin> set (ch u)" "i < fh_fsize h"
    using sh by (auto simp: fh_shape_def)
  have "fh_index_ok ?h fl"
    unfolding fh_index_ok_def
  proof (intro conjI impI)
    show "fh_indexStart ?h < fh_fsize ?h"
      using ix by (simp add: fh_index_ok_def f)
    assume "fh_fIndexValid ?h"
    then have v: "fh_fIndexValid h"
      by (simp add: f)
    then obtain "is" where w: "fh_window h = map Some is" "distinct is"
      "set is = {..<fh_fsize h} - set (i # fl)"
      using ix by (auto simp: fh_index_ok_def)
    have "fh_window ?h = map Some (is @ [i])"
      using w(1) room by (rule fh_window_append) (simp_all add: f v room pos)
    moreover have "distinct (is @ [i])" "set (is @ [i]) = {..<fh_fsize ?h} - set fl"
      using w i by (auto simp: f)
    ultimately show "\<exists>is. fh_window ?h = map Some is \<and> distinct is \<and>
        set is = {..<fh_fsize ?h} - set fl"
      by blast
  qed
  then show "fh_ok hf ?h"
    unfolding fh_ok_def using sh' pos i by (auto simp: f)
  have hk: "has_key ?h k' j = has_key h k' j" "fh_nodes ?h j = fh_nodes h j" if "j \<noteq> i" for j k'
    using that by (simp_all add: f)
  have fil: "filter (has_key ?h k') (ch u) = filter (has_key h k') (ch u)" for k' u
    using i(2) [of u] by (intro filter_cong) (auto simp: f)
  have mp: "map (\<lambda>j. snd (the (fh_nodes ?h j))) (filter (has_key h k') (ch u))
      = map (\<lambda>j. snd (the (fh_nodes h j))) (filter (has_key h k') (ch u))" for k' u
    using i(2) [of u] by (intro map_cong) (auto simp: f)
  have hf: "hf k mod fh_tsize ?h = ?t"
    by (simp add: f)
  show "fh_stack hf ?h = (fh_stack hf h)(k := v # fh_stack hf h k)"
  proof
    fix k'
    have keyi: "has_key ?h k' i = (k' = k)" "fh_nodes ?h i = Some (k, v)"
      by (auto simp: f)
    have "fh_tsize ?h = fh_tsize h"
      by (simp add: f)
    then show "fh_stack hf ?h k' = ((fh_stack hf h)(k := v # fh_stack hf h k)) k'"
      using fil mp keyi
      by (cases "hf k' mod fh_tsize h = ?t"; cases "k' = k")
        (simp_all add: fh_stack_chain [OF sh'] fh_stack_chain [OF sh])
  qed
qed (simp_all add: FH_Insert_def Let_def FH_UpdateIndexWithAdd_def split: option.splits,
     insert assms, auto simp: fh_ok_def fh_shape_def)

text \<open>The table after a removal, field by field.\<close>

lemma FH_Remove_fields:
  assumes "FH_Find hf h k = (t, prev, Some i)"
  shows "fst (FH_Remove hf h k) = 1"
    "fh_fsize (snd (FH_Remove hf h k)) = fh_fsize h"
    "fh_tsize (snd (FH_Remove hf h k)) = fh_tsize h"
    "fh_alloc (snd (FH_Remove hf h k)) = fh_alloc h"
    "fh_nodes (snd (FH_Remove hf h k)) = fh_nodes h"
    "fh_indexlist (snd (FH_Remove hf h k)) = fh_indexlist h"
    "fh_next (snd (FH_Remove hf h k)) =
       (case prev of None \<Rightarrow> fh_next h | Some j \<Rightarrow> (fh_next h)(j := fh_next h i))(i := fh_freelist h)"
    "fh_table (snd (FH_Remove hf h k)) =
       (case prev of None \<Rightarrow> (fh_table h)(t := fh_next h i) | Some _ \<Rightarrow> fh_table h)"
    "fh_freelist (snd (FH_Remove hf h k)) = Some i"
    "fh_size (snd (FH_Remove hf h k)) = fh_size h - 1"
    "fh_fIndexValid (snd (FH_Remove hf h k)) = fh_fIndexValid (FH_UpdateIndexWithRemove h i)"
    "fh_indexStart (snd (FH_Remove hf h k)) = fh_indexStart (FH_UpdateIndexWithRemove h i)"
  using assms by (auto simp: FH_Remove_def Let_def FH_UpdateIndexWithRemove_def split: option.splits)

lemma FH_Remove_shape:
  fixes k :: 'k
  assumes sh: "fh_shape hf h fl ch" and c: "ch t = us @ i # ys"
    and fnd: "FH_Find hf h k = (t, (if us = [] then None else Some (last us)), Some i)"
  shows "fh_shape hf (snd (FH_Remove hf h k)) (i # fl) (ch(t := us @ ys))"
proof -
  let ?h = "snd (FH_Remove hf h k)" and ?ch = "ch(t := us @ ys)"
  note f = FH_Remove_fields [OF fnd]
  have fl: "lseg (fh_next h) (fh_freelist h) fl" "distinct fl"
    and ch: "\<And>u. lseg (fh_next h) (fh_table h u) (ch u)" "\<And>u. distinct (ch u)"
      "\<And>u. set (ch u) \<inter> set fl = {}"
    and keys: "\<And>u j. j \<in> set (ch u) \<Longrightarrow>
      \<exists>k' v'. fh_nodes h j = Some (k', v') \<and> hf k' mod fh_tsize h = u"
    and all: "set fl \<union> (\<Union>u. set (ch u)) = {..<fh_fsize h}" and sz: "fh_size h + length fl = fh_fsize h"
    using sh by (simp_all add: fh_shape_def)
  have dj: "j \<notin> set (ch u)" if "j \<in> set (ch t)" "u \<noteq> t" for u j
    using keys [of j t] keys [of j u] that by auto
  have di: "distinct (us @ i # ys)" "i \<in> set (ch t)"
    using ch(2) [of t] c by auto
  have prev: "last us \<in> set (ch t)" "last us \<noteq> i" if "us \<noteq> []"
    using that di c by auto
  have seg: "lseg (fh_next ?h) (fh_table ?h u) (?ch u)" for u
  proof (cases "u = t")
    case False
    then show ?thesis
      using ch(1) [of u] dj di(2) prev by (cases "us = []") (auto simp: f)
  next
    case True
    show ?thesis
    proof (cases "us = []")
      case True
      then show ?thesis
        using ch(1) [of t] c di by (simp add: f \<open>u = t\<close>)
    next
      case False
      then obtain us' j where us: "us = us' @ [j]"
        by (metis append_butlast_last_id)
      have "lseg ((fh_next h)(j := fh_next h i)) (fh_table h t) (us' @ j # ys)"
        using ch(1) [of t] c di us by (intro lseg_unlink) simp_all
      then show ?thesis
        using di us by (simp add: f \<open>u = t\<close>)
    qed
  qed
  have seg': "lseg (fh_next ?h) (fh_freelist ?h) (i # fl)"
  proof -
    have "i \<notin> set fl" "us \<noteq> [] \<Longrightarrow> last us \<notin> set fl"
      using ch(3) [of t] di(2) prev(1) by auto
    with fl(1) show ?thesis
      by (cases "us = []") (simp_all add: f)
  qed
  have "(\<Union>u. set (?ch u)) \<union> {i} = (\<Union>u. set (ch u))"
  proof (intro equalityI subsetI)
    fix x assume "x \<in> (\<Union>u. set (ch u))"
    then obtain u where "x \<in> set (ch u)" by blast
    then show "x \<in> (\<Union>u. set (?ch u)) \<union> {i}"
      using c by (cases "u = t") (auto intro: exI [of _ t] exI [of _ u])
  qed (use c di(2) in \<open>auto split: if_splits intro: exI [of _ t]\<close>)
  then have all': "set (i # fl) \<union> (\<Union>u. set (?ch u)) = {..<fh_fsize h}"
    using all by auto
  have dis: "distinct (?ch u)" "set (?ch u) \<inter> set (i # fl) = {}" for u
    using ch(2,3) [of u] ch(3) [of t] dj [of i u] di c by (auto split: if_splits)
  have dfl: "distinct (i # fl)"
    using ch(3) [of t] di(2) fl(2) by auto
  have keys': "\<exists>k' v'. fh_nodes ?h j = Some (k', v') \<and> hf k' mod fh_tsize ?h = u"
    if "j \<in> set (?ch u)" for u j
    using that keys [of j u] c by (auto simp: f split: if_splits)
  have "0 < fh_size h"
  proof -
    have "card (set fl) < card {..<fh_fsize h}"
      using all ch(3) [of t] di(2) by (intro psubset_card_mono) auto
    then show ?thesis
      using sz fl(2) by (simp add: distinct_card)
  qed
  then have "fh_size ?h + length (i # fl) = fh_fsize ?h"
    using sz by (simp add: f)
  moreover have "fh_fsize ?h = fh_fsize h"
    by (rule f)
  ultimately show ?thesis
    unfolding fh_shape_def using seg seg' keys' dis all' dfl by simp
qed

lemma fh_window_nth:
  "fh_window h = map Some is \<Longrightarrow> length is = fh_size h \<and>
   (\<forall>j<fh_size h. fh_indexlist h ((fh_indexStart h + j) mod fh_fsize h) = Some (is ! j))"
proof -
  assume w: "fh_window h = map Some is"
  then have l: "length is = fh_size h"
    by (metis fh_window_def diff_zero length_map length_upt)
  have "fh_indexlist h ((fh_indexStart h + j) mod fh_fsize h) = Some (is ! j)" if "j < fh_size h" for j
  proof -
    have "fh_window h ! j = fh_indexlist h ((fh_indexStart h + j) mod fh_fsize h)"
      using that by (simp add: fh_window_def)
    then show ?thesis
      using w l that by simp
  qed
  with l show ?thesis
    by simp
qed

lemma fh_windowI:
  "length is = fh_size h \<Longrightarrow>
   (\<And>j. j < fh_size h \<Longrightarrow> fh_indexlist h ((fh_indexStart h + j) mod fh_fsize h) = Some (is ! j)) \<Longrightarrow>
   fh_window h = map Some is"
  by (auto simp: fh_window_def intro!: nth_equalityI)

text \<open>The index after the first or the last item of the window is gone.\<close>

lemma fh_window_drop_first:
  assumes w: "fh_window h = map Some (i # is)"
    and f: "fh_fsize h' = fh_fsize h" "fh_indexlist h' = fh_indexlist h"
      "fh_size h' = fh_size h - 1" "fh_indexStart h' = (fh_indexStart h + 1) mod fh_fsize h"
  shows "fh_window h' = map Some is"
proof (rule fh_windowI)
  note nth = fh_window_nth [OF w]
  show "length is = fh_size h'"
    using nth by (auto simp: f)
  fix j assume "j < fh_size h'"
  then have j: "Suc j < fh_size h"
    by (simp add: f)
  have "(fh_indexStart h' + j) mod fh_fsize h' = (fh_indexStart h + Suc j) mod fh_fsize h"
    by (simp add: f mod_simps)
  then show "fh_indexlist h' ((fh_indexStart h' + j) mod fh_fsize h') = Some (is ! j)"
    using conjunct2 [OF nth, rule_format, OF j] by (simp add: f)
qed

lemma fh_window_drop_last:
  assumes w: "fh_window h = map Some (is @ [i])"
    and f: "fh_fsize h' = fh_fsize h" "fh_indexlist h' = fh_indexlist h"
      "fh_size h' = fh_size h - 1" "fh_indexStart h' = fh_indexStart h"
  shows "fh_window h' = map Some is"
proof (rule fh_windowI)
  note nth = fh_window_nth [OF w]
  show "length is = fh_size h'"
    using nth by (auto simp: f)
  fix j assume j: "j < fh_size h'"
  then have "j < length is"
    using nth by (auto simp: f)
  then show "fh_indexlist h' ((fh_indexStart h' + j) mod fh_fsize h') = Some (is ! j)"
    using conjunct2 [OF nth, rule_format, of j] nth by (auto simp: f nth_append)
qed

lemma fh_update_remove_valid:
  assumes w: "fh_window h = map Some is" and "fh_fIndexValid h" "fh_alloc h" "1 < fh_size h"
    "fh_indexStart h < fh_fsize h" "fh_fIndexValid (FH_UpdateIndexWithRemove h i)"
  shows "(\<exists>is'. is = i # is' \<and>
      fh_indexStart (FH_UpdateIndexWithRemove h i) = (fh_indexStart h + 1) mod fh_fsize h) \<or>
    (\<exists>is'. is = is' @ [i] \<and> fh_indexStart (FH_UpdateIndexWithRemove h i) = fh_indexStart h)"
proof -
  note nth = fh_window_nth [OF w]
  have first: "fh_indexlist h (fh_indexStart h) = Some (is ! 0)"
    using conjunct2 [OF nth, rule_format, of 0] assms by simp
  have lst: "fh_indexlist h ((fh_indexStart h + (fh_size h - 1)) mod fh_fsize h)
      = Some (is ! (fh_size h - 1))"
    using conjunct2 [OF nth, rule_format, of "fh_size h - 1"] assms by simp
  have ne: "is \<noteq> []"
    using nth assms by auto
  then have "is = is ! 0 # tl is" "is = butlast is @ [is ! (fh_size h - 1)]"
    using nth append_butlast_last_id [OF ne] by (cases "is", auto simp: last_conv_nth)
  then show ?thesis
    using assms first lst by (auto simp: FH_UpdateIndexWithRemove_def split: if_splits)
qed

lemma FH_Remove_index:
  assumes ix: "fh_index_ok h fl" and al: "fh_alloc h" "0 < fh_size h"
    and fnd: "FH_Find hf h k = (t, prev, Some i)"
    and iu: "i \<in> {..<fh_fsize h} - set fl"
    and sz: "fh_size h = card ({..<fh_fsize h} - set fl)"
  shows "fh_index_ok (snd (FH_Remove hf h k)) (i # fl)"
proof -
  let ?h = "snd (FH_Remove hf h k)"
  note f = FH_Remove_fields [OF fnd]
  have st: "fh_indexStart h < fh_fsize h"
    using ix by (simp add: fh_index_ok_def)
  then have st': "fh_indexStart ?h < fh_fsize ?h"
    by (auto simp: f FH_UpdateIndexWithRemove_def)
  have rest: "{..<fh_fsize ?h} - set (i # fl) = ({..<fh_fsize h} - set fl) - {i}"
    by (auto simp: f)
  show ?thesis
  proof (cases "fh_size h = 1")
    case True
    then have "{..<fh_fsize h} - set fl = {i}"
      using iu sz(1) by (metis card_1_singletonE singletonD)
    then have "fh_window ?h = map Some [] \<and> {..<fh_fsize ?h} - set (i # fl) = set []"
      using True rest by (simp add: fh_window_def f)
    then show ?thesis
      using st' unfolding fh_index_ok_def by (metis distinct.simps(1))
  next
    case False
    with al have two: "1 < fh_size h" by simp
    have "\<exists>is. fh_window ?h = map Some is \<and> distinct is \<and> set is = {..<fh_fsize ?h} - set (i # fl)"
      if v': "fh_fIndexValid (FH_UpdateIndexWithRemove h i)"
    proof -
      have v: "fh_fIndexValid h"
        using v' two by (auto simp: FH_UpdateIndexWithRemove_def split: if_splits)
      then obtain "is" where w: "fh_window h = map Some is" "distinct is"
        "set is = {..<fh_fsize h} - set fl"
        using ix by (auto simp: fh_index_ok_def)
      consider is' where "is = i # is'"
          "fh_indexStart (FH_UpdateIndexWithRemove h i) = (fh_indexStart h + 1) mod fh_fsize h"
        | is' where "is = is' @ [i]" "fh_indexStart (FH_UpdateIndexWithRemove h i) = fh_indexStart h"
        using fh_update_remove_valid [OF w(1) v al(1) two st v'] by blast
      then show ?thesis
      proof cases
        case 1
        then have "fh_window ?h = map Some is'"
          using w(1) by (intro fh_window_drop_first [of h i is']) (simp_all add: f)
        then show ?thesis
          using 1 w(2,3) unfolding rest by (intro exI [of _ is']) auto
      next
        case 2
        then have "fh_window ?h = map Some is'"
          using w(1) by (intro fh_window_drop_last [of h is' i]) (simp_all add: f)
        then show ?thesis
          using 2 w(2,3) unfolding rest by (intro exI [of _ is']) auto
      qed
    qed
    then show ?thesis
      using st' by (simp add: fh_index_ok_def f(11))
  qed
qed

lemma fh_shape_card:
  assumes "fh_shape hf h fl ch"
  shows "fh_size h = card ({..<fh_fsize h} - set fl)"
proof -
  have "set fl \<subseteq> {..<fh_fsize h}" "distinct fl" "fh_size h + length fl = fh_fsize h"
    using assms by (auto simp: fh_shape_def)
  then show ?thesis
    by (simp add: card_Diff_subset distinct_card)
qed

lemma FH_Remove_absent:
  assumes ok: "fh_ok hf h" and "fh_stack hf h k = []"
  shows "FH_Remove hf h k = (-1, h)"
proof -
  obtain fl ch where sh: "fh_shape hf h fl ch"
    using ok by (auto simp: fh_ok_def)
  then have "\<forall>i\<in>set (ch (hf k mod fh_tsize h)). \<not> has_key h k i"
    using assms(2) by (simp add: fh_stack_chain filter_empty_conv)
  then have "snd (snd (FH_Find hf h k)) = None"
    by (simp add: FH_Find_spec [OF sh] probe_spec_None)
  then show ?thesis
    by (auto simp: FH_Remove_def split: prod.splits)
qed

lemma FH_Remove_present:
  assumes ok: "fh_ok hf h" and st: "fh_stack hf h k = v # vs"
  shows "fst (FH_Remove hf h k) = 1" "fh_ok hf (snd (FH_Remove hf h k))"
    "fh_stack hf (snd (FH_Remove hf h k)) = (fh_stack hf h)(k := vs)"
    "fh_size (snd (FH_Remove hf h k)) = fh_size h - 1" "0 < fh_size h"
    "fh_fsize (snd (FH_Remove hf h k)) = fh_fsize h"
proof -
  obtain fl ch where sh: "fh_shape hf h fl ch" and ix: "fh_index_ok h fl"
    and pos: "fh_alloc h" "0 < fh_fsize h" "0 < fh_tsize h"
    using ok by (auto simp: fh_ok_def)
  let ?t = "hf k mod fh_tsize h" and ?h = "snd (FH_Remove hf h k)"
  have "\<exists>i\<in>set (ch ?t). has_key h k i"
    using st by (force simp: fh_stack_chain [OF sh] filter_eq_Cons_iff)
  from probe_spec_Some [OF this, of None] obtain us i ys where c: "ch ?t = us @ i # ys"
    and key: "has_key h k i" and no: "\<forall>j\<in>set us. \<not> has_key h k j"
    and "probe_spec h k None (ch ?t) = ((if us = [] then None else Some (last us)), Some i)"
    by blast
  then have fnd: "FH_Find hf h k = (?t, (if us = [] then None else Some (last us)), Some i)"
    using FH_Find_spec [OF sh] by simp
  note f = FH_Remove_fields [OF fnd] and sh' = FH_Remove_shape [OF sh c fnd]
  have iu: "i \<in> {..<fh_fsize h} - set fl"
  proof -
    have "i \<in> set (ch ?t)"
      using c by simp
    then show ?thesis
      using sh unfolding fh_shape_def by blast
  qed
  have sz: "fh_size h = card ({..<fh_fsize h} - set fl)"
    by (rule fh_shape_card [OF sh])
  with iu show pos': "0 < fh_size h"
    by (metis card_gt_0_iff empty_iff finite_Diff finite_lessThan)
  have "fh_index_ok ?h (i # fl)"
    by (rule FH_Remove_index [OF ix pos(1) pos' fnd iu sz])
  then show "fh_ok hf ?h"
    unfolding fh_ok_def using sh' pos by (auto simp: f)
  have nous: "filter (has_key h k) us = []"
    using no by (simp add: filter_empty_conv)
  show "fh_stack hf ?h = (fh_stack hf h)(k := vs)"
  proof
    fix k'
    have "filter (has_key h k') (us @ i # ys) = filter (has_key h k') (us @ ys)" if "k' \<noteq> k"
      using key that by auto
    then have other: "filter (has_key h k') ((ch(?t := us @ ys)) (hf k' mod fh_tsize h))
        = filter (has_key h k') (ch (hf k' mod fh_tsize h))" if "k' \<noteq> k"
      using that c by (cases "hf k' mod fh_tsize h = ?t") simp_all
    have hk: "has_key ?h = has_key h" "fh_tsize ?h = fh_tsize h" "fh_nodes ?h = fh_nodes h"
      by (simp_all add: f)
    show "fh_stack hf ?h k' = ((fh_stack hf h)(k := vs)) k'"
    proof (cases "k' = k")
      case True
      have "v # vs = map (\<lambda>i. snd (the (fh_nodes h i))) (filter (has_key h k) (us @ i # ys))"
        using st c by (simp add: fh_stack_chain [OF sh])
      then have "map (\<lambda>i. snd (the (fh_nodes h i))) (filter (has_key h k) (us @ ys)) = vs"
        using nous key by simp
      then show ?thesis
        by (simp only: fh_stack_chain [OF sh'] hk True fun_upd_same)
    next
      case False
      then show ?thesis
        by (simp only: fh_stack_chain [OF sh'] fh_stack_chain [OF sh] hk other fun_upd_other
            simp_thms not_False_eq_True)
    qed
  qed
  show "fst (FH_Remove hf h k) = 1" "fh_size ?h = fh_size h - 1" "fh_fsize ?h = fh_fsize h"
    by (rule f)+
qed

section \<open>Enumeration by index\<close>

definition fh_used :: "('k, 'v) fasthash \<Rightarrow> nat set" where
  "fh_used h = (\<Union>t. set (FH_chain h t))"

lemma fh_used_shape:
  "fh_shape hf h fl ch \<Longrightarrow> fh_used h = {..<fh_fsize h} - set fl"
  by (auto simp: fh_used_def fh_shape_chain fh_shape_def)

lemma distinct_concat_disjoint:
  assumes "\<And>t. t < n \<Longrightarrow> distinct (ch t)"
    "\<And>t u x. t < n \<Longrightarrow> u < n \<Longrightarrow> x \<in> set (ch t) \<Longrightarrow> x \<in> set (ch u) \<Longrightarrow> t = u"
  shows "distinct (concat (map ch [0..<n]))"
  using assms
proof (induction n)
  case 0
  then show ?case
    by simp
next
  case (Suc n)
  then have "distinct (concat (map ch [0..<n]))"
    by simp
  moreover have "x \<notin> set (ch n)" if "t < n" "x \<in> set (ch t)" for t x
    using Suc.prems(2) [of t n x] that by auto
  ultimately show ?case
    using Suc.prems(1) [of n] by auto
qed

lemma FH_ReIndex_ok:
  assumes ok: "fh_ok hf h" and ne: "0 < fh_size h"
  shows "fh_ok hf (FH_ReIndex h)" "fh_fIndexValid (FH_ReIndex h)"
    "fh_stack hf (FH_ReIndex h) = fh_stack hf h" "fh_size (FH_ReIndex h) = fh_size h"
    "fh_nodes (FH_ReIndex h) = fh_nodes h" "fh_used (FH_ReIndex h) = fh_used h"
    "fh_fsize (FH_ReIndex h) = fh_fsize h" "fh_alloc (FH_ReIndex h)"
proof -
  obtain fl ch where sh: "fh_shape hf h fl ch" and ix: "fh_index_ok h fl"
    and pos: "fh_alloc h" "0 < fh_fsize h" "0 < fh_tsize h"
    using ok by (auto simp: fh_ok_def)
  let ?xs = "concat (map ch [0..<fh_tsize h])" and ?h = "FH_ReIndex h"
  have chn: "FH_chain h = ch"
    using fh_shape_chain(1) [OF sh] by blast
  have r: "?h = h\<lparr>fh_indexlist := (\<lambda>j. if j < length ?xs then Some (?xs ! j) else fh_indexlist h j),
      fh_fIndexValid := True, fh_indexStart := 0\<rparr>"
    using ne pos chn by (simp add: FH_ReIndex_def Let_def)
  have keys: "\<exists>k v. fh_nodes h j = Some (k, v) \<and> hf k mod fh_tsize h = t" if "j \<in> set (ch t)" for t j
    using sh that by (simp add: fh_shape_def)
  have d: "distinct ?xs"
  proof (rule distinct_concat_disjoint)
    show "distinct (ch t)" for t
      using sh by (simp add: fh_shape_def)
    show "t = u" if "x \<in> set (ch t)" "x \<in> set (ch u)" for t u x
      using keys [OF that(1)] keys [OF that(2)] by auto
  qed
  have "t < fh_tsize h" if "j \<in> set (ch t)" for t j
    using keys [OF that] pos by auto
  then have "set ?xs = (\<Union>t. set (ch t))"
    by (auto simp: image_iff) (metis atLeastLessThan_iff zero_le)
  then have st: "set ?xs = {..<fh_fsize h} - set fl"
    using fh_used_shape [OF sh] by (simp add: fh_used_def chn)
  then have len: "length ?xs = fh_size h"
    using d fh_shape_card [OF sh] by (metis distinct_card)
  have "fh_size h \<le> fh_fsize h"
    using sh by (simp add: fh_shape_def)
  then have "fh_window ?h = map Some ?xs"
    by (intro fh_windowI) (simp_all only: r, simp_all add: len)
  then have "fh_index_ok ?h fl"
    using d st pos by (auto simp: fh_index_ok_def r)
  moreover have sh': "fh_shape hf ?h fl ch"
    using sh by (simp add: fh_shape_def r)
  ultimately show "fh_ok hf ?h"
    using pos unfolding fh_ok_def by (auto simp: r)
  show "fh_stack hf ?h = fh_stack hf h"
  proof -
    have "fh_nodes ?h = fh_nodes h" "fh_tsize ?h = fh_tsize h"
      by (simp_all add: r)
    then show ?thesis
      by (simp only: fh_stack_chain [OF sh'] fh_stack_chain [OF sh] fun_eq_iff simp_thms)
  qed
  have "fh_fsize ?h = fh_fsize h"
    by (simp add: r)
  then show "fh_used ?h = fh_used h"
    by (simp only: fh_used_shape [OF sh'] fh_used_shape [OF sh])
qed (use assms in \<open>auto simp: FH_ReIndex_def Let_def fh_ok_def\<close>)

lemma fh_window_items:
  assumes ok: "fh_ok hf h" and v: "fh_fIndexValid h"
  obtains "is" where "fh_window h = map Some is" "distinct is" "set is = fh_used h"
    "\<And>j. j < fh_size h \<Longrightarrow> FH_LookupByIndex h j = (fh_nodes h (is ! j), h)" "length is = fh_size h"
proof -
  obtain fl ch where sh: "fh_shape hf h fl ch" and ix: "fh_index_ok h fl" and al: "fh_alloc h"
    using ok by (auto simp: fh_ok_def)
  obtain "is" where w: "fh_window h = map Some is" "distinct is" "set is = {..<fh_fsize h} - set fl"
    using ix v by (auto simp: fh_index_ok_def)
  note nth = fh_window_nth [OF w(1)]
  have "FH_LookupByIndex h j = (fh_nodes h (is ! j), h)" if "j < fh_size h" for j
    using conjunct2 [OF nth, rule_format, OF that] that v al
    by (simp add: FH_LookupByIndex_def Let_def)
  then show thesis
    using that w fh_used_shape [OF sh] nth by metis
qed

definition fh_enum :: "('k, 'v) fasthash \<Rightarrow> ('k \<times> 'v) list" where
  "fh_enum h = map (\<lambda>i. the (fst (FH_LookupByIndex h i))) [0..<fh_size h]"

lemma FH_LookupByIndex_reindex:
  assumes "fh_ok hf h" "i < fh_size h" "\<not> fh_fIndexValid h"
  shows "FH_LookupByIndex h i = FH_LookupByIndex (FH_ReIndex h) i"
  using assms FH_ReIndex_ok [OF assms(1)]
  by (simp add: FH_LookupByIndex_def Let_def fh_ok_def)

lemma fh_enum_valid:
  assumes ok: "fh_ok hf h" and v: "fh_fIndexValid h"
  shows "mset (map snd (filter (\<lambda>x. fst x = k) (fh_enum h))) = mset (fh_stack hf h k)"
proof -
  obtain fl ch where sh: "fh_shape hf h fl ch"
    using ok by (auto simp: fh_ok_def)
  obtain "is" where w: "distinct is" "set is = fh_used h" "length is = fh_size h"
    "\<And>j. j < fh_size h \<Longrightarrow> FH_LookupByIndex h j = (fh_nodes h (is ! j), h)"
    using fh_window_items [OF ok v] by metis
  have e: "fh_enum h = map (\<lambda>i. the (fh_nodes h i)) is"
    using w(3,4) by (auto simp: fh_enum_def intro!: nth_equalityI)
  have node: "\<exists>k v. fh_nodes h i = Some (k, v) \<and> hf k mod fh_tsize h = t" if "i \<in> set (ch t)" for t i
    using sh that by (simp add: fh_shape_def)
  have used: "fh_used h = (\<Union>t. set (ch t))"
    using fh_shape_chain(1) [OF sh] by (simp add: fh_used_def)
  have "fst (the (fh_nodes h i)) = k \<longleftrightarrow> has_key h k i" if "i \<in> set is" for i
    using that w(2) used node by fastforce
  then have f: "filter (\<lambda>i. fst (the (fh_nodes h i)) = k) is = filter (has_key h k) is"
    by (intro filter_cong) auto
  let ?t = "hf k mod fh_tsize h"
  have "i \<in> set (ch ?t)" if "has_key h k i" "i \<in> set (ch u)" for i u
    using node [OF that(2)] that by auto
  then have "set (filter (has_key h k) is) = set (filter (has_key h k) (ch ?t))"
    using w(2) used by auto
  moreover have "distinct (ch ?t)"
    using sh by (simp add: fh_shape_def)
  ultimately have "mset (filter (has_key h k) is) = mset (filter (has_key h k) (ch ?t))"
    using w(1) set_eq_iff_mset_eq_distinct by (metis distinct_filter)
  then have "image_mset (\<lambda>i. snd (the (fh_nodes h i))) (mset (filter (has_key h k) is))
      = image_mset (\<lambda>i. snd (the (fh_nodes h i))) (mset (filter (has_key h k) (ch ?t)))"
    by simp
  then show ?thesis
    by (simp only: e filter_map o_def f fh_stack_chain [OF sh] mset_map map_map)
qed

lemma fh_enum_stack:
  assumes ok: "fh_ok hf h"
  shows "mset (map snd (filter (\<lambda>x. fst x = k) (fh_enum h))) = mset (fh_stack hf h k)"
proof (cases "fh_fIndexValid h \<or> fh_size h = 0")
  case True
  then show ?thesis
  proof
    assume z: "fh_size h = 0"
    obtain fl ch where sh: "fh_shape hf h fl ch"
      using ok by (auto simp: fh_ok_def)
    then have "fh_used h = {}"
      using z fh_shape_card [OF sh] fh_used_shape [OF sh] by simp
    then have "FH_chain h t = []" for t
      by (auto simp: fh_used_def)
    then show ?thesis
      using z by (simp add: fh_enum_def fh_stack_def)
  qed (rule fh_enum_valid [OF ok])
next
  case False
  then have n: "\<not> fh_fIndexValid h" "0 < fh_size h"
    by auto
  note r = FH_ReIndex_ok [OF ok n(2)]
  have "fh_enum h = fh_enum (FH_ReIndex h)"
    using FH_LookupByIndex_reindex [OF ok _ n(1)] by (simp add: fh_enum_def r(4))
  then show ?thesis
    using fh_enum_valid [OF r(1,2), of k] r(3) by simp
qed

definition fh_ordered :: "('k \<Rightarrow> nat) \<Rightarrow> ('k, 'v) fasthash \<Rightarrow> bool" where
  "fh_ordered hf h \<longleftrightarrow> fh_ok hf h \<and> fh_fIndexValid h"

lemma FH_LookupByIndex_enum:
  assumes "fh_ordered hf h"
  shows "FH_LookupByIndex h i = (if i < fh_size h then Some (fh_enum h ! i) else None, h)"
proof -
  have ok: "fh_ok hf h" and v: "fh_fIndexValid h"
    using assms by (simp_all add: fh_ordered_def)
  obtain "is" where "is": "set is = fh_used h" "length is = fh_size h"
    "\<And>j. j < fh_size h \<Longrightarrow> FH_LookupByIndex h j = (fh_nodes h (is ! j), h)"
    using fh_window_items [OF ok v] by metis
  obtain fl ch where sh: "fh_shape hf h fl ch"
    using ok by (auto simp: fh_ok_def)
  have "\<exists>x. fh_nodes h j = Some x" if "j \<in> fh_used h" for j
    using sh that by (fastforce simp: fh_used_def fh_shape_chain fh_shape_def)
  then have "fh_nodes h (is ! i) \<noteq> None" if "i < fh_size h"
    using "is" that by (metis nth_mem option.distinct(1))
  then show ?thesis
    using "is"(3) [of i]
    by (cases "i < fh_size h") (auto simp: fh_enum_def, simp add: FH_LookupByIndex_def)
qed

lemma FH_Insert_enum:
  assumes "fh_ordered hf h" and room: "fh_size h < fh_fsize h"
  shows "fh_ordered hf (snd (FH_Insert hf h k v))"
    "fh_enum (snd (FH_Insert hf h k v)) = fh_enum h @ [(k, v)]"
proof -
  let ?h = "snd (FH_Insert hf h k v)"
  have ok: "fh_ok hf h" and v: "fh_fIndexValid h"
    using assms by (simp_all add: fh_ordered_def)
  note ins = FH_Insert_room [OF ok room, of k v]
  obtain fl0 ch where sh0: "fh_shape hf h fl0 ch" and al: "fh_alloc h"
    using ok by (auto simp: fh_ok_def)
  then obtain i fl where "fl0 = i # fl"
    using room by (cases fl0) (auto simp: fh_shape_def)
  note sh = sh0 [unfolded this]
  have fr: "fh_freelist h = Some i"
    using sh by (simp add: fh_shape_def)
  note f = FH_Insert_fields [OF fr, of hf k v]
  have v': "fh_fIndexValid ?h" and al': "fh_alloc ?h"
    using v al by (simp_all add: f)
  show "fh_ordered hf ?h"
    using ins v' by (simp add: fh_ordered_def)
  obtain "is" where w: "fh_window h = map Some is" "set is = fh_used h" "length is = fh_size h"
    "\<And>j. j < fh_size h \<Longrightarrow> FH_LookupByIndex h j = (fh_nodes h (is ! j), h)"
    using fh_window_items [OF ok v] by metis
  have "fh_window ?h = map Some (is @ [i])"
    using w(1) room by (rule fh_window_append) (simp_all add: f v al room)
  note nth' = fh_window_nth [OF this]
  have at: "FH_LookupByIndex ?h j = (fh_nodes ?h ((is @ [i]) ! j), ?h)" if "j < fh_size ?h" for j
    using conjunct2 [OF nth', rule_format, OF that] that v' al'
    by (simp add: FH_LookupByIndex_def Let_def)
  have "i \<notin> set is"
    using w(2) fh_used_shape [OF sh] by simp
  then have ne: "is ! j \<noteq> i" if "j < fh_size h" for j
    using that w(3) by (metis nth_mem)
  have "the (fst (FH_LookupByIndex ?h j)) = (fh_enum h @ [(k, v)]) ! j" if "j < fh_size ?h" for j
    using at [OF that] that w ne by (auto simp: f nth_append fh_enum_def less_Suc_eq)
  then have "fh_enum ?h = map (\<lambda>j. (fh_enum h @ [(k, v)]) ! j) [0..<fh_size ?h]"
    unfolding fh_enum_def [of ?h] by (intro map_cong) auto
  also have "fh_size ?h = length (fh_enum h @ [(k, v)])"
    by (simp add: f fh_enum_def)
  finally show "fh_enum ?h = fh_enum h @ [(k, v)]"
    by (simp only: map_nth)
qed

lemma FH_Reset_ordered:
  assumes "fh_alloc h" "0 < fh_fsize h" "0 < fh_tsize h"
  shows "fh_ordered hf (FH_Reset h)" "fh_enum (FH_Reset h) = []"
  using FH_Reset_ok [OF assms] assms by (simp_all add: fh_ordered_def fh_enum_def FH_Reset_def)

section \<open>The contracts\<close>

text \<open>
  A store of bounded capacity that keeps, for every key, a stack of values: what
  \<open>FastHash\<close> promises to the attribute map of the message reader, to the rate limiter and to
  the connection maps of the TCP server.
\<close>

locale keyed_store =
  fixes insert :: "'s \<Rightarrow> 'k \<Rightarrow> 'v \<Rightarrow> int \<times> 's"
    and remove :: "'s \<Rightarrow> 'k \<Rightarrow> int \<times> 's"
    and lookup :: "'s \<Rightarrow> 'k \<Rightarrow> 'v option"
    and stack :: "'s \<Rightarrow> 'k \<Rightarrow> 'v list"
    and size :: "'s \<Rightarrow> nat"
    and capacity :: "'s \<Rightarrow> nat"
    and invar :: "'s \<Rightarrow> bool"
  assumes insert_full: "invar s \<Longrightarrow> size s = capacity s \<Longrightarrow> insert s k v = (-1, s)"
    and insert_room: "invar s \<Longrightarrow> size s < capacity s \<Longrightarrow>
      fst (insert s k v) = 1 \<and> invar (snd (insert s k v)) \<and>
      stack (snd (insert s k v)) = (stack s)(k := v # stack s k) \<and>
      size (snd (insert s k v)) = size s + 1 \<and> capacity (snd (insert s k v)) = capacity s"
    and remove_absent: "invar s \<Longrightarrow> stack s k = [] \<Longrightarrow> remove s k = (-1, s)"
    and remove_present: "invar s \<Longrightarrow> stack s k = v # vs \<Longrightarrow>
      fst (remove s k) = 1 \<and> invar (snd (remove s k)) \<and>
      stack (snd (remove s k)) = (stack s)(k := vs) \<and>
      0 < size s \<and> size (snd (remove s k)) = size s - 1 \<and> capacity (snd (remove s k)) = capacity s"
    and lookup_stack: "invar s \<Longrightarrow> lookup s k = (case stack s k of [] \<Rightarrow> None | v # _ \<Rightarrow> Some v)"
    and size_bound: "invar s \<Longrightarrow> size s \<le> capacity s"
begin

lemma insert_cases:
  assumes "invar s"
  shows "(size s = capacity s \<and> insert s k v = (-1, s)) \<or> (size s < capacity s \<and> fst (insert s k v) = 1)"
  using assms insert_full insert_room size_bound by (meson le_neq_implies_less)

lemma insert_invar: "invar s \<Longrightarrow> invar (snd (insert s k v))"
  using insert_cases [of s k v] insert_room [of s k v] by auto

lemma remove_invar: "invar s \<Longrightarrow> invar (snd (remove s k))"
  using remove_absent [of s k] remove_present [of s k] by (cases "stack s k") auto

lemma lookup_insert_room:
  "invar s \<Longrightarrow> size s < capacity s \<Longrightarrow>
   lookup (snd (insert s k v)) k' = (if k' = k then Some v else lookup s k')"
  using insert_room [of s k v] lookup_stack by auto

lemma lookup_insert: "invar s \<Longrightarrow> fst (insert s k v) \<ge> 0 \<Longrightarrow>
   lookup (snd (insert s k v)) k' = (if k' = k then Some v else lookup s k')"
  using insert_cases [of s k v] lookup_insert_room [of s k v k'] by auto

lemma remove_insert:
  assumes "invar s" "size s < capacity s"
  shows "stack (snd (remove (snd (insert s k v)) k)) = stack s"
  using insert_room [OF assms, of k v] remove_present [of "snd (insert s k v)" k v "stack s k"]
  by auto

lemma lookup_remove_other:
  "invar s \<Longrightarrow> k' \<noteq> k \<Longrightarrow> lookup (snd (remove s k)) k' = lookup s k'"
  using remove_absent [of s k] remove_present [of s k] lookup_stack remove_invar
  by (cases "stack s k") auto

lemma lookup_remove_single:
  "invar s \<Longrightarrow> length (stack s k) \<le> 1 \<Longrightarrow> lookup (snd (remove s k)) k = None"
  using remove_absent [of s k] remove_present [of s k] lookup_stack remove_invar
  by (cases "stack s k") auto

end

text \<open>The store also enumerates its items in the order of insertion while nothing is removed.\<close>

locale indexed_store = keyed_store insert remove lookup stack size capacity invar
  for insert :: "'s \<Rightarrow> 'k \<Rightarrow> 'v \<Rightarrow> int \<times> 's" and remove lookup stack size capacity invar +
  fixes at :: "'s \<Rightarrow> nat \<Rightarrow> ('k \<times> 'v) option \<times> 's"
    and entries :: "'s \<Rightarrow> ('k \<times> 'v) list"
    and ordered :: "'s \<Rightarrow> bool"
  assumes ordered_invar: "ordered s \<Longrightarrow> invar s"
    and at_entries: "ordered s \<Longrightarrow> at s i = (if i < size s then Some (entries s ! i) else None, s)"
    and entries_insert: "ordered s \<Longrightarrow> size s < capacity s \<Longrightarrow>
      ordered (snd (insert s k v)) \<and> entries (snd (insert s k v)) = entries s @ [(k, v)]"
begin

text \<open>The store holds just the entries \<open>es\<close>, inserted in this order.\<close>

definition holds :: "'s \<Rightarrow> ('k \<times> 'v) list \<Rightarrow> bool" where
  "holds s es \<longleftrightarrow> ordered s \<and> entries s = es \<and> size s = length es \<and>
     (\<forall>k. stack s k = rev (map snd (filter (\<lambda>e. fst e = k) es)))"

lemma holds_insert: "holds s es \<Longrightarrow> length es < capacity s \<Longrightarrow>
    holds (snd (insert s k v)) (es @ [(k, v)]) \<and> fst (insert s k v) = 1 \<and>
    capacity (snd (insert s k v)) = capacity s"
  using insert_room [of s k v] entries_insert [of s k v] ordered_invar [of s]
  by (auto simp: holds_def)

lemma holds_full: "holds s es \<Longrightarrow> length es = capacity s \<Longrightarrow> insert s k v = (-1, s)"
  by (simp add: holds_def insert_full ordered_invar)

lemma holds_bound: "holds s es \<Longrightarrow> length es \<le> capacity s"
  using size_bound [of s] ordered_invar [of s] by (simp add: holds_def)

lemma holds_lookup: "holds s es \<Longrightarrow>
    lookup s k = map_of (rev es) k"
proof -
  assume h: "holds s es"
  have "(case rev (map snd (filter (\<lambda>e. fst e = k) es)) of [] \<Rightarrow> None | v # _ \<Rightarrow> Some v) = map_of (rev es) k"
    by (induction es rule: rev_induct) (auto split: prod.splits)
  with h show ?thesis
    using lookup_stack [of s k] ordered_invar [of s] by (simp add: holds_def)
qed

lemma holds_at: "holds s es \<Longrightarrow> at s i = (if i < length es then Some (es ! i) else None, s)"
  by (simp add: holds_def at_entries)

end

interpretation fh: keyed_store "FH_Insert hf" "FH_Remove hf" "FH_Lookup hf" "fh_stack hf"
    fh_size fh_fsize "fh_ok hf" for hf :: "'k \<Rightarrow> nat"
  by unfold_locales
    (simp_all add: FH_Insert_full FH_Insert_room FH_Remove_absent FH_Remove_present
      FH_Lookup_stack fh_size_le del: fun_upd_apply)

interpretation fhi: indexed_store "FH_Insert hf" "FH_Remove hf" "FH_Lookup hf" "fh_stack hf"
    fh_size fh_fsize "fh_ok hf" FH_LookupByIndex fh_enum "fh_ordered hf" for hf :: "'k \<Rightarrow> nat"
  by unfold_locales (simp add: fh_ordered_def, rule FH_LookupByIndex_enum, assumption,
    simp add: FH_Insert_enum)

lemma FH_Reset_holds:
  "fh_alloc h \<Longrightarrow> 0 < fh_fsize h \<Longrightarrow> 0 < fh_tsize h \<Longrightarrow> fhi.holds hf (FH_Reset h) []"
  using FH_Reset_ok(2) [of h hf] FH_Reset_ordered [of h] by (simp add: fhi.holds_def FH_Reset_def)

lemma FH_fields_stable [simp]:
  "fh_alloc (snd (FH_Insert hf h k v)) = fh_alloc h" "fh_fsize (snd (FH_Insert hf h k v)) = fh_fsize h"
  "fh_tsize (snd (FH_Insert hf h k v)) = fh_tsize h" "fh_alloc (FH_Reset h) = fh_alloc h"
  "fh_fsize (FH_Reset h) = fh_fsize h" "fh_tsize (FH_Reset h) = fh_tsize h"
  by (simp_all add: FH_Insert_def Let_def FH_UpdateIndexWithAdd_def FH_Reset_def split: option.splits)

section \<open>The width of the table\<close>

text \<open>
  \<open>FindPrime\<close>. The bound of the trial divisions is the truncated square root plus one.
  The \<open>while\<close> loop is a partial function, so that its termination is a fact to prove.
\<close>

primrec isqrt :: "nat \<Rightarrow> nat" where
  "isqrt 0 = 0"
| "isqrt (Suc n) = (if Suc (isqrt n) * Suc (isqrt n) \<le> Suc n then Suc (isqrt n) else isqrt n)"

definition no_divisor :: "nat \<Rightarrow> bool" where
  "no_divisor r \<longleftrightarrow> list_all (\<lambda>x. r mod x \<noteq> 0) [3..<Suc (isqrt r + 1)]"

partial_function (option) FindPrime_loop :: "nat \<Rightarrow> nat option" where
  "FindPrime_loop result = (if no_divisor result then Some result else FindPrime_loop (result + 2))"

definition FindPrime :: "nat \<Rightarrow> nat option" where
  "FindPrime val = (if val \<le> 2 then Some 2 else if val = 3 then Some 3
     else FindPrime_loop (if val mod 2 = 0 then val + 1 else val))"

definition FastHash_GetHashTableWidth :: "nat \<Rightarrow> nat option" where
  "FastHash_GetHashTableWidth maxConnections = FindPrime maxConnections"

definition is_prime :: "nat \<Rightarrow> bool" where
  "is_prime p \<longleftrightarrow> 1 < p \<and> (\<forall>d. d dvd p \<longrightarrow> d = 1 \<or> d = p)"

lemma isqrt_bounds: "isqrt n * isqrt n \<le> n" "n < Suc (isqrt n) * Suc (isqrt n)"
  by (induction n) (auto split: if_splits)

lemma isqrt_ge: "d * d \<le> n \<Longrightarrow> d \<le> isqrt n"
  using isqrt_bounds(2) [of n] by (meson le_less_trans less_Suc_eq_le mult_le_mono not_le)

lemma prime_divisor:
  assumes "1 < (n::nat)"
  obtains p where "is_prime p" "p dvd n" "\<And>d. 1 < d \<Longrightarrow> d dvd n \<Longrightarrow> p \<le> d"
proof -
  define p where "p = (LEAST d. 1 < d \<and> d dvd n)"
  have p: "1 < p" "p dvd n"
    using LeastI [of "\<lambda>d. 1 < d \<and> d dvd n" n] assms unfolding p_def by auto
  have least: "p \<le> d" if "1 < d" "d dvd n" for d
    using that unfolding p_def by (intro Least_le) simp
  have "d = 1 \<or> d = p" if "d dvd p" for d
  proof -
    have "0 < d" "d \<le> p"
      using that p(1) dvd_pos_nat [of p d] dvd_imp_le [of d p] by auto
    then show ?thesis
      using least [of d] dvd_trans [OF that p(2)] by (cases "d = 1") auto
  qed
  with p least show thesis
    by (intro that) (auto simp: is_prime_def)
qed

lemma prime_above: "\<exists>p. is_prime p \<and> n \<le> p"
proof -
  have "1 < fact n + (1::nat)"
    by simp
  then obtain p where p: "is_prime p" "p dvd fact n + 1"
    by (rule prime_divisor) blast
  have "n \<le> p"
  proof (rule ccontr)
    assume "\<not> n \<le> p"
    then have "p dvd fact n"
      using p(1) by (intro dvd_fact) (auto simp: is_prime_def)
    from dvd_diff_nat [OF p(2) this] have "p dvd 1"
      by simp
    then show False
      using p(1) by (simp add: is_prime_def)
  qed
  with p(1) show ?thesis
    by blast
qed

lemma no_divisor_prime:
  assumes "odd r" "5 \<le> r"
  shows "no_divisor r \<longleftrightarrow> is_prime r"
proof
  assume nd: "no_divisor r"
  obtain p where p: "is_prime p" "p dvd r" "\<And>d. 1 < d \<Longrightarrow> d dvd r \<Longrightarrow> p \<le> d"
    using prime_divisor [of r] assms(2) by auto
  have "p = r"
  proof (rule ccontr)
    assume ne: "p \<noteq> r"
    obtain q where q: "r = p * q"
      using p(2) by blast
    then have "1 < q"
      using ne assms(2) by (cases "q = 0 \<or> q = 1") auto
    then have "p * p \<le> r"
      using p(3) [of q] q by simp
    moreover have "odd p" "1 < p"
      using p assms(1) by (auto simp: is_prime_def)
    then have "3 \<le> p"
      by presburger
    ultimately have "r mod p \<noteq> 0"
      using nd isqrt_ge [of p r] by (auto simp: no_divisor_def list_all_iff simp del: upt_Suc)
    then show False
      using p(2) by (simp add: mod_eq_0_iff_dvd)
  qed
  with p(1) show "is_prime r" by simp
next
  assume pr: "is_prime r"
  have "isqrt r + 1 < r"
  proof (rule ccontr)
    assume "\<not> isqrt r + 1 < r"
    then have "(r - 1) * (r - 1) \<le> r"
      using isqrt_bounds(1) [of r] mult_le_mono [of "r - 1" "isqrt r" "r - 1" "isqrt r"] by linarith
    moreover have "4 * (r - 1) \<le> (r - 1) * (r - 1)"
      using assms(2) by (intro mult_le_mono1) simp
    ultimately show False
      using assms(2) by linarith
  qed
  then have "\<not> x dvd r" if "x \<in> set [3..<Suc (isqrt r + 1)]" for x
    using pr that unfolding is_prime_def by (fastforce simp del: upt_Suc)
  then show "no_divisor r"
    unfolding no_divisor_def list_all_iff by (simp add: mod_eq_0_iff_dvd del: upt_Suc)
qed

lemma FindPrime_loop_least:
  assumes "odd r" "5 \<le> r"
  shows "\<exists>p. FindPrime_loop r = Some p \<and> is_prime p \<and> r \<le> p \<and> (\<forall>q. is_prime q \<and> r \<le> q \<longrightarrow> p \<le> q)"
proof -
  obtain u where u: "is_prime u" "r \<le> u"
    using prime_above by blast
  then have "r \<le> u" by simp
  from this assms show ?thesis
  proof (induction "u - r" arbitrary: r rule: less_induct)
    case less
    show ?case
    proof (cases "is_prime r")
      case True
      then have "FindPrime_loop r = Some r"
        using no_divisor_prime [OF less.prems(2,3)] by (subst FindPrime_loop.simps) simp
      with True show ?thesis
        by blast
    next
      case False
      then have step: "FindPrime_loop r = FindPrime_loop (r + 2)"
        using no_divisor_prime [OF less.prems(2,3)] by (subst FindPrime_loop.simps) simp
      have odd: "r + 2 \<le> q" if "is_prime q" "r \<le> q" for q
      proof -
        have "q \<noteq> 2" "2 dvd q \<Longrightarrow> 2 = q"
          using that less.prems(3) by (auto simp: is_prime_def)
        then have "odd q"
          by auto
        moreover have "q \<noteq> r"
          using False that by auto
        ultimately show ?thesis
          using less.prems(2) that by presburger
      qed
      have "r + 2 \<le> u"
        using odd u less.prems by simp
      then obtain p where "FindPrime_loop (r + 2) = Some p" "is_prime p" "r + 2 \<le> p"
        "\<forall>q. is_prime q \<and> r + 2 \<le> q \<longrightarrow> p \<le> q"
        using less.hyps [OF _ \<open>r + 2 \<le> u\<close>] less.prems by fastforce
      with step odd show ?thesis
        by (intro exI [of _ p]) auto
    qed
  qed
qed

section \<open>Writing through a looked-up value\<close>

text \<open>
  \<open>Lookup\<close> returns a pointer into the item, through which the callers update the value. The
  tables of \<open>FastHashDynamic\<close> are allocated by \<open>InitTable\<close>.
\<close>

definition FH_Modify :: "('k \<Rightarrow> nat) \<Rightarrow> ('k, 'v) fasthash \<Rightarrow> 'k \<Rightarrow> ('v \<Rightarrow> 'v) \<Rightarrow> ('k, 'v) fasthash" where
  "FH_Modify hf h k f = (case snd (snd (FH_Find hf h k)) of
     None \<Rightarrow> h
   | Some i \<Rightarrow> h\<lparr>fh_nodes := (fh_nodes h)(i := map_option (map_prod id f) (fh_nodes h i))\<rparr>)"

definition FH_InitTable :: "nat \<Rightarrow> nat \<Rightarrow> bool \<Rightarrow> int \<times> ('k, 'v) fasthash" where
  "FH_InitTable fsize tsize alloc =
     (let h0 = FH_Init 0 0 False in
      if fsize \<le> 0 then (-1, h0)
      else let tsize = (if tsize \<le> 0 then the (FastHash_GetHashTableWidth fsize) else tsize) in
        if \<not> alloc then (-1, h0) else (1, FH_Init fsize tsize True))"

lemma FH_Modify_fields [simp]:
  "fh_fsize (FH_Modify hf h k f) = fh_fsize h" "fh_tsize (FH_Modify hf h k f) = fh_tsize h"
  "fh_next (FH_Modify hf h k f) = fh_next h" "fh_freelist (FH_Modify hf h k f) = fh_freelist h"
  "fh_table (FH_Modify hf h k f) = fh_table h" "fh_alloc (FH_Modify hf h k f) = fh_alloc h"
  "fh_indexlist (FH_Modify hf h k f) = fh_indexlist h" "fh_fIndexValid (FH_Modify hf h k f) = fh_fIndexValid h"
  "fh_indexStart (FH_Modify hf h k f) = fh_indexStart h" "fh_size (FH_Modify hf h k f) = fh_size h"
  by (simp_all add: FH_Modify_def split: option.split)

lemma FH_Modify_ok:
  assumes ok: "fh_ok hf h"
  shows "fh_ok hf (FH_Modify hf h k f)"
    "fh_stack hf (FH_Modify hf h k f) = (fh_stack hf h)(k := (case fh_stack hf h k of [] \<Rightarrow> [] | v # vs \<Rightarrow> f v # vs))"
proof -
  obtain fl ch where sh: "fh_shape hf h fl ch" and ix: "fh_index_ok h fl"
    and pos: "fh_alloc h" "0 < fh_fsize h" "0 < fh_tsize h"
    using ok by (auto simp: fh_ok_def)
  let ?g = "FH_Modify hf h k f" and ?c = "ch (hf k mod fh_tsize h)"
  have keys: "map_option fst (fh_nodes ?g i) = map_option fst (fh_nodes h i)" for i
    by (auto simp: FH_Modify_def option.map_comp comp_def split: option.split)
  have key: "fh_nodes ?g i = Some (k', v) \<Longrightarrow> \<exists>v. fh_nodes h i = Some (k', v)"
    "fh_nodes h i = Some (k', v) \<Longrightarrow> \<exists>v. fh_nodes ?g i = Some (k', v)" for i k' v
    using keys [of i] by (cases "fh_nodes h i"; cases "fh_nodes ?g i"; auto)+
  have sh': "fh_shape hf ?g fl ch"
    using sh unfolding fh_shape_def FH_Modify_fields by (metis key(2))
  moreover have "fh_index_ok ?g fl"
    using ix by (simp add: fh_index_ok_def fh_window_def)
  ultimately show "fh_ok hf ?g"
    unfolding fh_ok_def FH_Modify_fields using pos by blast
  have st: "fh_stack hf ?g k' = map (\<lambda>i. snd (the (fh_nodes ?g i))) (filter (has_key h k') (ch (hf k' mod fh_tsize h)))" for k'
    by (simp only: fh_stack_chain [OF sh'] keys FH_Modify_fields)
  show "fh_stack hf ?g = (fh_stack hf h)(k := (case fh_stack hf h k of [] \<Rightarrow> [] | v # vs \<Rightarrow> f v # vs))"
  proof (cases "\<exists>i\<in>set ?c. has_key h k i")
    case False
    then have "FH_Find hf h k = (hf k mod fh_tsize h, fst (probe_spec h k None ?c), None)"
      using probe_spec_None [of ?c h k None] by (simp add: FH_Find_spec [OF sh] prod_eq_iff)
    then have g: "?g = h"
      by (simp add: FH_Modify_def)
    have "filter (has_key h k) ?c = []"
      using False by (simp add: filter_empty_conv)
    then have "fh_stack hf h k = []"
      by (simp add: fh_stack_chain [OF sh])
    then show ?thesis
      by (simp add: g fun_eq_iff)
  next
    case True
    from probe_spec_Some [OF this, of None] obtain us i ys where c: "?c = us @ i # ys" and i: "has_key h k i"
      and no: "\<forall>j\<in>set us. \<not> has_key h k j"
      and "probe_spec h k None ?c = ((if us = [] then None else Some (last us)), Some i)"
      by blast
    then have nodes: "fh_nodes ?g = (fh_nodes h)(i := map_option (map_prod id f) (fh_nodes h i))"
      using FH_Find_spec [OF sh, of k] by (simp add: FH_Modify_def)
    have d: "distinct ?c"
      using sh by (simp add: fh_shape_def)
    obtain v where v: "fh_nodes h i = Some (k, v)"
      using i by auto
    have "filter (has_key h k) ?c = i # filter (has_key h k) ys"
      using no i by (simp add: c filter_empty_conv)
    moreover have "map (\<lambda>j. snd (the (fh_nodes ?g j))) (filter P ys) = map (\<lambda>j. snd (the (fh_nodes h j))) (filter P ys)" for P
      using d c by (intro map_cong) (auto simp: nodes)
    ultimately have "fh_stack hf ?g k = (case fh_stack hf h k of [] \<Rightarrow> [] | v # vs \<Rightarrow> f v # vs)"
      by (simp add: st fh_stack_chain [OF sh] nodes v)
    moreover have "fh_stack hf ?g k' = fh_stack hf h k'" if "k' \<noteq> k" for k'
    proof -
      have "i \<notin> set (filter (has_key h k') xs)" for xs
        using v that by simp
      then show ?thesis
        unfolding st fh_stack_chain [OF sh] by (intro map_cong) (auto simp: nodes)
    qed
    ultimately show ?thesis
      by (auto simp: fun_eq_iff)
  qed
qed

text \<open>
  A store used as a map: the client inserts a key only after a failed lookup. This is how the
  rate limiter, the polling object and the TCP server use their tables.
\<close>

locale map_store = keyed_store insert remove lookup stack size capacity invar
  for insert :: "'s \<Rightarrow> 'k \<Rightarrow> 'v \<Rightarrow> int \<times> 's" and remove lookup stack size capacity invar +
  fixes modify :: "'s \<Rightarrow> 'k \<Rightarrow> ('v \<Rightarrow> 'v) \<Rightarrow> 's"
    and reset :: "'s \<Rightarrow> 's"
  assumes modify_law: "invar s \<Longrightarrow> invar (modify s k f) \<and>
      stack (modify s k f) = (stack s)(k := (case stack s k of [] \<Rightarrow> [] | v # vs \<Rightarrow> f v # vs)) \<and>
      size (modify s k f) = size s \<and> capacity (modify s k f) = capacity s"
    and reset_law: "invar s \<Longrightarrow> invar (reset s) \<and> stack (reset s) k = [] \<and> size (reset s) = 0 \<and>
      capacity (reset s) = capacity s"
    and capacity_pos: "invar s \<Longrightarrow> 0 < capacity s"
begin

definition is_map :: "'s \<Rightarrow> ('k \<rightharpoonup> 'v) \<Rightarrow> bool" where
  "is_map s m \<longleftrightarrow> invar s \<and> (\<forall>k. stack s k = (case m k of None \<Rightarrow> [] | Some v \<Rightarrow> [v]))"

lemma lookup_map: "is_map s m \<Longrightarrow> lookup s k = m k"
  by (simp add: is_map_def lookup_stack split: option.split)

lemma insert_map: "is_map s m \<Longrightarrow> m k = None \<Longrightarrow> size s < capacity s \<Longrightarrow>
    fst (insert s k v) = 1 \<and> is_map (snd (insert s k v)) (m(k \<mapsto> v)) \<and>
    size (snd (insert s k v)) = size s + 1 \<and> capacity (snd (insert s k v)) = capacity s"
  using insert_room [of s k v] by (simp add: is_map_def)

lemma insert_map_full: "is_map s m \<Longrightarrow> size s = capacity s \<Longrightarrow> insert s k v = (-1, s)"
  using insert_full by (simp add: is_map_def)

lemma map_size_bound: "is_map s m \<Longrightarrow> size s \<le> capacity s \<and> 0 < capacity s"
  using size_bound capacity_pos by (simp add: is_map_def)

lemma remove_map: "is_map s m \<Longrightarrow> is_map (snd (remove s k)) (m(k := None)) \<and>
    capacity (snd (remove s k)) = capacity s \<and> size (snd (remove s k)) \<le> size s"
  using remove_absent [of s k] remove_present [of s k] by (cases "m k") (auto simp: is_map_def)

lemma modify_map: "is_map s m \<Longrightarrow> is_map (modify s k f) (m(k := map_option f (m k))) \<and>
    capacity (modify s k f) = capacity s \<and> size (modify s k f) = size s"
  using modify_law [of s k f] by (auto simp: is_map_def split: option.split)

lemma reset_map: "is_map s m \<Longrightarrow> is_map (reset s) Map.empty \<and> size (reset s) = 0 \<and> capacity (reset s) = capacity s"
  using reset_law [of s] by (simp add: is_map_def)

end

interpretation fhm: map_store "FH_Insert hf" "FH_Remove hf" "FH_Lookup hf" "fh_stack hf"
    fh_size fh_fsize "fh_ok hf" "FH_Modify hf" FH_Reset for hf :: "'k \<Rightarrow> nat"
proof unfold_locales
  fix s :: "('k, 'v) fasthash" and k f
  assume s: "fh_ok hf s"
  then have "fh_alloc s" "0 < fh_fsize s" "0 < fh_tsize s"
    by (simp_all add: fh_ok_def)
  note r = FH_Reset_ok [OF this]
  show "fh_ok hf (FH_Reset s) \<and> fh_stack hf (FH_Reset s) k = [] \<and> fh_size (FH_Reset s) = 0 \<and>
      fh_fsize (FH_Reset s) = fh_fsize s"
    using r by simp
  show "fh_ok hf (FH_Modify hf s k f) \<and> fh_stack hf (FH_Modify hf s k f) =
      (fh_stack hf s)(k := (case fh_stack hf s k of [] \<Rightarrow> [] | v # vs \<Rightarrow> f v # vs)) \<and>
      fh_size (FH_Modify hf s k f) = fh_size s \<and> fh_fsize (FH_Modify hf s k f) = fh_fsize s"
    using FH_Modify_ok [OF s] by simp
  show "0 < fh_fsize s"
    by fact
qed

lemma FH_Init_map: "0 < fsize \<Longrightarrow> 0 < tsize \<Longrightarrow> fhm.is_map hf (FH_Init fsize tsize True) Map.empty \<and>
    fh_size (FH_Init fsize tsize True) = 0 \<and> fh_fsize (FH_Init fsize tsize True) = fsize"
  unfolding FH_Init_def
  by (simp add: fhm.is_map_def FH_Reset_ok)

end
