(* ===== verification/StunReader.thy ===== *)
theory StunReader
  imports StunBuilder StunHash
begin

text \<open>
  \<open>CStunMessageReader\<close> (\<open>stuncore/stunreader.h\<close>, \<open>stunreader.cpp\<close>): the incremental parser of
  STUN messages and the accessors of a parsed message. The names of the methods carry the
  prefix \<open>MR_\<close>, since some of them are also functions of \<open>stunutils.cpp\<close> or methods of the
  builder. The attribute map is a \<open>FastHash\<close> of 30 items in 53 chains, hashed by the
  attribute type. Out-parameters are results; every caller passes a pointer that is not null.
  \<open>crc\<close>, \<open>hmac\<close> and \<open>md5\<close> are the functions of boost and openssl, as for the builder.
\<close>

datatype ReaderParseState = HeaderNotRead | HeaderValidated | BodyValidated | ParseError

definition MAX_NUM_ATTRIBUTES :: nat where [stun_consts]: "MAX_NUM_ATTRIBUTES = 30"

record CStunMessageReader =
  mr_stream :: cstream
  mr_fAllowLegacyFormat :: bool
  mr_fMessageIsLegacyFormat :: bool
  mr_state :: ReaderParseState
  mr_mapAttributes :: "(u16, StunAttribute) fasthash"
  mr_indexFingerprint :: int
  mr_indexMessageIntegrity :: int
  mr_countAttributes :: int
  mr_transactionid :: StunTransactionId
  mr_msgTypeNormalized :: u16
  mr_msgClass :: StunMessageClass
  mr_msgLength :: u16

text \<open>\<open>FastHash_Hash\<close> of the promoted key.\<close>

abbreviation attr_hash :: "u16 \<Rightarrow> nat" where
  "attr_hash \<equiv> unat"

definition MR_Reset :: "CStunMessageReader \<Rightarrow> CStunMessageReader" where
  "MR_Reset r = r\<lparr>mr_fAllowLegacyFormat := True, mr_fMessageIsLegacyFormat := False,
     mr_state := HeaderNotRead, mr_mapAttributes := FH_Reset (mr_mapAttributes r),
     mr_indexFingerprint := -1, mr_indexMessageIntegrity := -1, mr_countAttributes := 0,
     mr_transactionid := zero_bytes 16, mr_msgTypeNormalized := 0xffff,
     mr_msgClass := StunMsgClassInvalidMessageClass, mr_msgLength := 0,
     mr_stream := DS_Reset (mr_stream r)\<rparr>"

text \<open>The constructor: the member constructors, then \<open>Reset\<close>.\<close>

definition MR_init :: CStunMessageReader where
  "MR_init = MR_Reset \<lparr>mr_stream = DS_null, mr_fAllowLegacyFormat = True,
     mr_fMessageIsLegacyFormat = False, mr_state = HeaderNotRead,
     mr_mapAttributes = FH_Init MAX_NUM_ATTRIBUTES 53 True, mr_indexFingerprint = -1,
     mr_indexMessageIntegrity = -1, mr_countAttributes = 0, mr_transactionid = zero_bytes 16,
     mr_msgTypeNormalized = 0xffff, mr_msgClass = StunMsgClassInvalidMessageClass,
     mr_msgLength = 0\<rparr>"

definition MR_SetAllowLegacyFormat :: "CStunMessageReader \<Rightarrow> bool \<Rightarrow> CStunMessageReader" where
  "MR_SetAllowLegacyFormat r f = r\<lparr>mr_fAllowLegacyFormat := f\<rparr>"

definition MR_IsMessageLegacyFormat :: "CStunMessageReader \<Rightarrow> bool" where
  "MR_IsMessageLegacyFormat r = mr_fMessageIsLegacyFormat r"

definition MR_HowManyBytesNeeded :: "CStunMessageReader \<Rightarrow> u16" where
  "MR_HowManyBytesNeeded r =
     (let currentSize = int (DS_GetSize (mr_stream r)) in
      case mr_state r of
        HeaderNotRead \<Rightarrow> word_of_int (int STUN_HEADER_SIZE - currentSize)
      | HeaderValidated \<Rightarrow> word_of_int (uint (mr_msgLength r) + int STUN_HEADER_SIZE - currentSize)
      | _ \<Rightarrow> 0)"

section \<open>Parsing\<close>

text \<open>
  \<open>ReadHeader\<close>. The fields are assigned in the order of the code: a header that is refused
  leaves the ones assigned before.
\<close>

definition MR_ReadHeader :: "CStunMessageReader \<Rightarrow> hresult \<times> CStunMessageReader" where
  "MR_ReadHeader r =
     (let (hr, s) = DS_SeekDirect (mr_stream r) 0; r = r\<lparr>mr_stream := s\<rparr> in
      if FAILED hr then (hr, r) else
      let (hr, msgType, s) = DS_Read (mr_stream r) 2; r = r\<lparr>mr_stream := s\<rparr> in
      if FAILED hr then (hr, r) else
      let (hr, msgLength, s) = DS_Read (mr_stream r) 2; r = r\<lparr>mr_stream := s\<rparr> in
      if FAILED hr then (hr, r) else
      let (hr, transID, s) = DS_Read (mr_stream r) STUN_TRANSACTION_ID_LENGTH; r = r\<lparr>mr_stream := s\<rparr> in
      if FAILED hr then (hr, r) else
      let msgType = of_be16 msgType; msgLength = of_be16 msgLength;
          cookie = of_be32 (take 4 transID);
          r = r\<lparr>mr_fMessageIsLegacyFormat := \<not> cookie = STUN_COOKIE\<rparr>;
          fHeaderValid = (msgType AND 0xc000 = 0 \<and> msgLength mod 4 = 0);
          fHeaderValid = (fHeaderValid \<and> (mr_fAllowLegacyFormat r \<or> \<not> mr_fMessageIsLegacyFormat r)) in
      if \<not> fHeaderValid then (E_FAIL, r) else
      let r = r\<lparr>mr_msgTypeNormalized := (msgType AND 0x000f) OR drop_bit 1 (msgType AND 0x00e0)
                  OR drop_bit 2 (msgType AND 0x3E00)\<rparr>;
          r = r\<lparr>mr_msgLength := msgLength\<rparr>;
          r = r\<lparr>mr_transactionid := transID\<rparr> in
      if unat (mr_msgLength r) > MAX_STUN_MESSAGE_SIZE then (E_UNEXPECTED, r)
      else if STUN_IS_REQUEST msgType then (S_OK, r\<lparr>mr_msgClass := StunMsgClassRequest\<rparr>)
      else if STUN_IS_INDICATION msgType then (S_OK, r\<lparr>mr_msgClass := StunMsgClassIndication\<rparr>)
      else if STUN_IS_SUCCESS_RESP msgType then (S_OK, r\<lparr>mr_msgClass := StunMsgClassSuccessResponse\<rparr>)
      else if STUN_IS_ERR_RESP msgType then (S_OK, r\<lparr>mr_msgClass := StunMsgClassFailureResponse\<rparr>)
      else (E_FAIL, r\<lparr>mr_msgClass := StunMsgClassInvalidMessageClass\<rparr>))"

text \<open>
  One round of the loop of \<open>ReadBody\<close>: the code, the bytes added to \<open>bytesConsumed\<close>, the reader.
\<close>

definition MR_ReadBody_step :: "CStunMessageReader \<Rightarrow> hresult \<times> nat \<times> CStunMessageReader" where
  "MR_ReadBody_step r =
     (let (hr, ty, s) = DS_Read (mr_stream r) 2; r = r\<lparr>mr_stream := s\<rparr> in
      if FAILED hr then (hr, 0, r) else
      let (hr, len, s) = DS_Read (mr_stream r) 2; r = r\<lparr>mr_stream := s\<rparr> in
      if FAILED hr then (hr, 0, r) else
      let attributeOffset = (word_of_nat (DS_GetPos (mr_stream r)) :: u16);
          attributeType = of_be16 ty;
          attributeLength = of_be16 len;
          paddingLength = padding_of (unat attributeLength);
          hr = (if unat attributeLength \<le> MAX_STUN_ATTRIBUTE_SIZE then S_OK else E_FAIL) in
      if FAILED hr then (hr, 0, r) else
      let attrib = \<lparr>sa_attributeType = attributeType, sa_size = attributeLength, sa_offset = attributeOffset\<rparr>;
          (result, m) = FH_Insert attr_hash (mr_mapAttributes r) attributeType attrib;
          r = r\<lparr>mr_mapAttributes := m\<rparr>;
          hr = (if result \<ge> 0 then S_OK else E_FAIL) in
      if FAILED hr then (hr, 0, r) else
      let r = (if attributeType = STUN_ATTRIBUTE_FINGERPRINT
               then r\<lparr>mr_indexFingerprint := mr_countAttributes r\<rparr> else r);
          r = (if attributeType = STUN_ATTRIBUTE_MESSAGEINTEGRITY
               then r\<lparr>mr_indexMessageIntegrity := mr_countAttributes r\<rparr> else r);
          r = r\<lparr>mr_countAttributes := mr_countAttributes r + 1\<rparr>;
          (hr, s) = DS_SeekRelative (mr_stream r) (uint attributeLength); r = r\<lparr>mr_stream := s\<rparr> in
      if FAILED hr then (hr, 0, r) else
      let (hr, s) = (if paddingLength > 0 then DS_SeekRelative (mr_stream r) (int paddingLength)
                     else (hr, mr_stream r));
          r = r\<lparr>mr_stream := s\<rparr> in
      if FAILED hr then (hr, 0, r)
      else (hr, 2 + 2 + unat attributeLength + paddingLength, r))"

lemma MR_ReadBody_step_progress:
  "MR_ReadBody_step r = (hr, n, r') \<Longrightarrow> \<not> FAILED hr \<Longrightarrow> 4 \<le> n"
  by (auto simp: MR_ReadBody_step_def Let_def split: prod.splits if_splits)

function MR_ReadBody_loop :: "nat \<Rightarrow> hresult \<Rightarrow> nat \<Rightarrow> CStunMessageReader \<Rightarrow> hresult \<times> nat \<times> CStunMessageReader" where
  "MR_ReadBody_loop currentSize hr bytesConsumed r =
     (if SUCCEEDED hr \<and> bytesConsumed < currentSize
      then let (hr, n, r) = MR_ReadBody_step r in MR_ReadBody_loop currentSize hr (bytesConsumed + n) r
      else (hr, bytesConsumed, r))"
  by pat_completeness auto
termination
proof (relation "measure (\<lambda>(c, hr, n, r). if FAILED hr then 0 else Suc (c - n))")
  fix c n n' :: nat and hr hr' r r' x y
  assume a: "SUCCEEDED hr \<and> n < c" "x = MR_ReadBody_step r" "(hr', y) = x" "(n', r') = y"
  then have s: "MR_ReadBody_step r = (hr', n', r')"
    by simp
  show "((c, hr', n + n', r'), (c, hr, n, r)) \<in> measure (\<lambda>(c, hr, n, r). if FAILED hr then 0 else Suc (c - n))"
    using a(1) MR_ReadBody_step_progress [OF s] by (auto simp: SUCCEEDED_iff_not_FAILED)
qed simp

declare MR_ReadBody_loop.simps [simp del]

definition MR_ReadBody :: "CStunMessageReader \<Rightarrow> hresult \<times> CStunMessageReader" where
  "MR_ReadBody r =
     (let currentSize = DS_GetSize (mr_stream r);
          (hr, s) = DS_SeekDirect (mr_stream r) STUN_HEADER_SIZE; r = r\<lparr>mr_stream := s\<rparr> in
      if FAILED hr then (hr, r) else
      let (hr, bytesConsumed, r) = MR_ReadBody_loop currentSize hr STUN_HEADER_SIZE r in
      (if bytesConsumed = currentSize then S_OK else E_FAIL, r))"

text \<open>The three conditional blocks at the end of \<open>AddBytes\<close>, then the method.\<close>

definition MR_AddBytes_header :: "nat \<Rightarrow> CStunMessageReader \<Rightarrow> CStunMessageReader" where
  "MR_AddBytes_header currentSize r =
     (if mr_state r = HeaderNotRead \<and> currentSize \<ge> STUN_HEADER_SIZE
      then (let (hr, r) = MR_ReadHeader r;
                r = r\<lparr>mr_state := (if SUCCEEDED hr then HeaderValidated else ParseError)\<rparr> in
            if SUCCEEDED hr \<and> mr_msgLength r = 0 then r\<lparr>mr_state := BodyValidated\<rparr> else r)
      else r)"

definition MR_AddBytes_body :: "nat \<Rightarrow> CStunMessageReader \<Rightarrow> CStunMessageReader" where
  "MR_AddBytes_body currentSize r =
     (if mr_state r = HeaderValidated \<and> currentSize \<ge> unat (mr_msgLength r) + STUN_HEADER_SIZE
      then (if currentSize = unat (mr_msgLength r) + STUN_HEADER_SIZE
            then (let (hr, r) = MR_ReadBody r in
                  r\<lparr>mr_state := (if SUCCEEDED hr then BodyValidated else ParseError)\<rparr>)
            else r\<lparr>mr_state := ParseError\<rparr>)
      else r)"

definition MR_AddBytes_excess :: "nat \<Rightarrow> CStunMessageReader \<Rightarrow> CStunMessageReader" where
  "MR_AddBytes_excess currentSize r =
     (if mr_state r = BodyValidated \<and> currentSize > unat (mr_msgLength r) + STUN_HEADER_SIZE
      then r\<lparr>mr_state := ParseError\<rparr> else r)"

definition MR_AddBytes :: "CStunMessageReader \<Rightarrow> bytes \<Rightarrow> ReaderParseState \<times> CStunMessageReader" where
  "MR_AddBytes r pData =
     (if mr_state r = ParseError then (ParseError, r)
      else if length pData = 0 then (mr_state r, r)
      else
        let (_, s) = DS_SeekDirect (mr_stream r) (DS_GetSize (mr_stream r)); r = r\<lparr>mr_stream := s\<rparr>;
            (hr, s) = DS_Write (mr_stream r) pData; r = r\<lparr>mr_stream := s\<rparr> in
        if FAILED hr then (ParseError, r)
        else
          let currentSize = DS_GetSize (mr_stream r);
              r = MR_AddBytes_header currentSize r;
              r = MR_AddBytes_body currentSize r;
              r = MR_AddBytes_excess currentSize r in
          (mr_state r, r))"

section \<open>Accessors\<close>

definition MR_Lookup :: "CStunMessageReader \<Rightarrow> u16 \<Rightarrow> StunAttribute option" where
  "MR_Lookup r ty = FH_Lookup attr_hash (mr_mapAttributes r) ty"

text \<open>The bytes from \<open>pData + offset\<close> on.\<close>

definition MR_data_at :: "CStunMessageReader \<Rightarrow> u16 \<Rightarrow> bytes" where
  "MR_data_at r offset = drop (unat offset) (DS_memory (mr_stream r))"

definition MR_HasFingerprintAttribute :: "CStunMessageReader \<Rightarrow> bool" where
  "MR_HasFingerprintAttribute r \<longleftrightarrow> MR_Lookup r STUN_ATTRIBUTE_FINGERPRINT \<noteq> None"

definition MR_IsFingerprintAttributeValid :: "(bytes \<Rightarrow> u32) \<Rightarrow> CStunMessageReader \<Rightarrow> bool" where
  "MR_IsFingerprintAttributeValid crc r =
     (case MR_Lookup r STUN_ATTRIBUTE_FINGERPRINT of
        None \<Rightarrow> False
      | Some a \<Rightarrow>
          sa_attributeType a = STUN_ATTRIBUTE_FINGERPRINT \<and> sa_size a = 4 \<and> mr_state r = BodyValidated \<and>
          \<not> DS_GetSize (mr_stream r) < STUN_HEADER_SIZE \<and> DS_GetDataPointerUnsafe (mr_stream r) \<noteq> None \<and>
          (let computedValue = crc (take (DS_GetSize (mr_stream r) - 8) (DS_memory (mr_stream r)))
                 XOR STUN_FINGERPRINT_XOR;
               readValue = of_be32 (take 4 (MR_data_at r (sa_offset a))) in
           readValue = computedValue))"

definition MR_HasMessageIntegrityAttribute :: "CStunMessageReader \<Rightarrow> bool" where
  "MR_HasMessageIntegrityAttribute r \<longleftrightarrow> MR_Lookup r STUN_ATTRIBUTE_MESSAGEINTEGRITY \<noteq> None"

text \<open>The loop that feeds the message to the hash in chunks of four bytes.\<close>

fun read_chunks :: "nat \<Rightarrow> cstream \<Rightarrow> bytes \<Rightarrow> hresult \<times> bytes" where
  "read_chunks 0 s acc = (S_OK, acc)"
| "read_chunks (Suc n) s acc =
     (let (hr, chunk32, s) = DS_Read s 4 in
      if FAILED hr then (hr, acc) else read_chunks n s (acc @ chunk32))"

definition MR_ValidateMessageIntegrity :: "(bytes \<Rightarrow> bytes \<Rightarrow> bytes) \<Rightarrow> CStunMessageReader \<Rightarrow> bytes option \<Rightarrow> hresult" where
  "MR_ValidateMessageIntegrity hmac r key =
     (let lastAttributeIndex = mr_countAttributes r - 1 in
      if mr_state r \<noteq> BodyValidated then E_FAIL
      else if mr_countAttributes r = 0 then E_FAIL
      else if mr_indexMessageIntegrity r = -1 then E_FAIL
      else if key = None then E_INVALIDARG
      else if length (the key) = 0 then E_INVALIDARG
      else case MR_Lookup r STUN_ATTRIBUTE_MESSAGEINTEGRITY of
        None \<Rightarrow> E_FAIL
      | Some pAttribIntegrity \<Rightarrow>
        if sa_size pAttribIntegrity \<noteq> 20 then E_FAIL
        else
          let fNoOtherAttributesAfterIntegrity = (mr_indexMessageIntegrity r = lastAttributeIndex \<or>
                (mr_indexMessageIntegrity r = lastAttributeIndex - 1 \<and> mr_indexFingerprint r = lastAttributeIndex)) in
          if \<not> fNoOtherAttributesAfterIntegrity then E_FAIL
          else
            let fFingerprintAdjustment = (mr_indexMessageIntegrity r = lastAttributeIndex - 1);
                stream = DS_Attach DS_null (DS_GetBuffer (mr_stream r)) False;
                (hr, chunk16, stream) = DS_Read stream 2 in
            if FAILED hr then hr else
            let text = chunk16;
                (hr, chunk16, stream) = DS_Read stream 2 in
            if FAILED hr then hr else
            let chunk16 = (if fFingerprintAdjustment then be16 (of_be16 chunk16 - 8) else chunk16);
                text = text @ chunk16;
                len = unat (sa_offset pAttribIntegrity) - 4 - 4;
                nChunks = len div 4;
                (hr, text) = read_chunks nChunks stream text in
            if FAILED hr then hr
            else if hmac (the key) text = take 20 (MR_data_at r (sa_offset pAttribIntegrity))
            then S_OK else E_FAIL)"

definition MR_ValidateMessageIntegrityShort :: "(bytes \<Rightarrow> bytes \<Rightarrow> bytes) \<Rightarrow> CStunMessageReader \<Rightarrow> bytes \<Rightarrow> hresult" where
  "MR_ValidateMessageIntegrityShort hmac r pszPassword = MR_ValidateMessageIntegrity hmac r (Some pszPassword)"

text \<open>The key buffer holds 195 bytes; the callers pass strings of at most 64 bytes.\<close>

definition MR_ValidateMessageIntegrityLong :: "(bytes \<Rightarrow> bytes \<Rightarrow> bytes) \<Rightarrow> (bytes \<Rightarrow> bytes) \<Rightarrow> CStunMessageReader
    \<Rightarrow> bytes option \<Rightarrow> bytes option \<Rightarrow> bytes option \<Rightarrow> hresult" where
  "MR_ValidateMessageIntegrityLong hmac md5 r pszUser pszRealm pszPassword =
     (if mr_state r \<noteq> BodyValidated then E_FAIL
      else if DS_GetDataPointerUnsafe (mr_stream r) = None then E_FAIL
      else MR_ValidateMessageIntegrity hmac r (Some (md5 (long_term_key pszUser pszRealm pszPassword))))"

definition MR_GetAttributeByIndex :: "CStunMessageReader \<Rightarrow> nat \<Rightarrow> hresult \<times> StunAttribute option \<times> CStunMessageReader" where
  "MR_GetAttributeByIndex r index =
     (let (pFound, m) = FH_LookupValueByIndex (mr_mapAttributes r) index in
      (if pFound = None then E_FAIL else S_OK, pFound, r\<lparr>mr_mapAttributes := m\<rparr>))"

definition MR_GetAttributeByType :: "CStunMessageReader \<Rightarrow> u16 \<Rightarrow> hresult \<times> StunAttribute option" where
  "MR_GetAttributeByType r ty =
     (let pFound = MR_Lookup r ty in (if pFound = None then E_FAIL else S_OK, pFound))"

definition MR_GetAttributeCount :: "CStunMessageReader \<Rightarrow> int" where
  "MR_GetAttributeCount r = int (fh_size (mr_mapAttributes r))"

definition MR_GetResponsePort :: "CStunMessageReader \<Rightarrow> hresult \<times> u16 option" where
  "MR_GetResponsePort r =
     (case MR_Lookup r STUN_ATTRIBUTE_RESPONSE_PORT of
        None \<Rightarrow> (E_FAIL, None)
      | Some a \<Rightarrow>
          if sa_size a \<noteq> STUN_ATTRIBUTE_RESPONSE_PORT_SIZE then (E_UNEXPECTED, None)
          else if DS_GetDataPointerUnsafe (mr_stream r) = None then (E_UNEXPECTED, None)
          else (S_OK, Some (of_be16 (take 2 (MR_data_at r (sa_offset a))))))"

definition MR_GetChangeRequest :: "CStunMessageReader \<Rightarrow> hresult \<times> StunChangeRequestAttribute" where
  "MR_GetChangeRequest r =
     (let none = \<lparr>fChangeIP = False, fChangePort = False\<rparr> in
      case MR_Lookup r STUN_ATTRIBUTE_CHANGEREQUEST of
        None \<Rightarrow> (E_FAIL, none)
      | Some a \<Rightarrow>
          if sa_size a \<noteq> STUN_ATTRIBUTE_CHANGEREQUEST_SIZE then (E_UNEXPECTED, none)
          else if DS_GetDataPointerUnsafe (mr_stream r) = None then (E_UNEXPECTED, none)
          else
            let value = of_be32 (take 4 (MR_data_at r (sa_offset a))) in
            (S_OK, \<lparr>fChangeIP = (value AND 4 \<noteq> 0), fChangePort = (value AND 2 \<noteq> 0)\<rparr>))"

definition MR_GetPaddingAttributeSize :: "CStunMessageReader \<Rightarrow> hresult \<times> u16" where
  "MR_GetPaddingAttributeSize r =
     (case MR_Lookup r STUN_ATTRIBUTE_PADDING of None \<Rightarrow> (E_FAIL, 0) | Some a \<Rightarrow> (S_OK, sa_size a))"

text \<open>The two bytes are read whatever the size of the attribute.\<close>

definition MR_GetErrorCode :: "CStunMessageReader \<Rightarrow> hresult \<times> u16 option" where
  "MR_GetErrorCode r =
     (case MR_Lookup r STUN_ATTRIBUTE_ERRORCODE of
        None \<Rightarrow> (E_FAIL, None)
      | Some a \<Rightarrow>
          let ptr = drop 2 (MR_data_at r (sa_offset a));
              cl = (ptr ! 0) AND 0x07; num = ptr ! 1 in
          (S_OK, Some (ucast cl * 100 + ucast num)))"

definition MR_GetAddressHelper :: "CStunMessageReader \<Rightarrow> u16 \<Rightarrow> hresult \<times> CSocketAddress option" where
  "MR_GetAddressHelper r attribType =
     (case MR_Lookup r attribType of
        None \<Rightarrow> (E_FAIL, None)
      | Some a \<Rightarrow> GetMappedAddress (MR_data_at r (sa_offset a)) (unat (sa_size a)))"

definition MR_GetMappedAddress :: "CStunMessageReader \<Rightarrow> hresult \<times> CSocketAddress option" where
  "MR_GetMappedAddress r = MR_GetAddressHelper r STUN_ATTRIBUTE_MAPPEDADDRESS"

definition MR_GetOtherAddress :: "CStunMessageReader \<Rightarrow> hresult \<times> CSocketAddress option" where
  "MR_GetOtherAddress r =
     (let x = MR_GetAddressHelper r STUN_ATTRIBUTE_OTHER_ADDRESS in
      if FAILED (fst x) then MR_GetAddressHelper r STUN_ATTRIBUTE_CHANGEDADDRESS else x)"

definition MR_GetXorMappedAddress :: "CStunMessageReader \<Rightarrow> hresult \<times> CSocketAddress option" where
  "MR_GetXorMappedAddress r =
     (let x = MR_GetAddressHelper r STUN_ATTRIBUTE_XORMAPPEDADDRESS;
          x = (if FAILED (fst x) then MR_GetAddressHelper r STUN_ATTRIBUTE_XORMAPPEDADDRESS_OPTIONAL else x) in
      if SUCCEEDED (fst x)
      then (fst x, map_option (\<lambda>a. ApplyStunXorMap a (mr_transactionid r)) (snd x)) else x)"

definition MR_GetResponseOriginAddress :: "CStunMessageReader \<Rightarrow> hresult \<times> CSocketAddress option" where
  "MR_GetResponseOriginAddress r =
     (let x = MR_GetAddressHelper r STUN_ATTRIBUTE_RESPONSE_ORIGIN in
      if FAILED (fst x) then MR_GetAddressHelper r STUN_ATTRIBUTE_SOURCEADDRESS else x)"

text \<open>The bytes before the null byte that the code puts behind them, for a buffer of \<open>n\<close> bytes.\<close>

definition MR_GetStringAttributeByType :: "CStunMessageReader \<Rightarrow> u16 \<Rightarrow> nat \<Rightarrow> hresult \<times> bytes option" where
  "MR_GetStringAttributeByType r ty n =
     (case MR_Lookup r ty of
        None \<Rightarrow> (E_INVALIDARG, None)
      | Some a \<Rightarrow>
          if unat (sa_size a) \<ge> n then (E_INVALIDARG, None)
          else (S_OK, Some (take (unat (sa_size a)) (MR_data_at r (sa_offset a)))))"

definition MR_GetState :: "CStunMessageReader \<Rightarrow> ReaderParseState" where
  "MR_GetState r = mr_state r"

definition MR_GetTransactionId :: "CStunMessageReader \<Rightarrow> StunTransactionId" where
  "MR_GetTransactionId r = mr_transactionid r"

definition MR_GetMessageClass :: "CStunMessageReader \<Rightarrow> StunMessageClass" where
  "MR_GetMessageClass r = mr_msgClass r"

definition MR_GetMessageType :: "CStunMessageReader \<Rightarrow> u16" where
  "MR_GetMessageType r = mr_msgTypeNormalized r"

definition MR_GetBuffer :: "CStunMessageReader \<Rightarrow> cbuffer option" where
  "MR_GetBuffer r = DS_GetBuffer (mr_stream r)"

section \<open>The parse of a message as a function of its bytes\<close>

definition msg_type :: "bytes \<Rightarrow> u16" where "msg_type c = of_be16 (segment c 0 2)"
definition msg_len :: "bytes \<Rightarrow> u16" where "msg_len c = of_be16 (segment c 2 2)"
definition msg_tid :: "bytes \<Rightarrow> StunTransactionId" where "msg_tid c = segment c 4 16"
definition msg_legacy :: "bytes \<Rightarrow> bool" where
  "msg_legacy c \<longleftrightarrow> of_be32 (take 4 (msg_tid c)) \<noteq> STUN_COOKIE"

definition header_ok :: "bool \<Rightarrow> bytes \<Rightarrow> bool" where
  "header_ok al c \<longleftrightarrow> msg_type c AND 0xc000 = 0 \<and> msg_len c mod 4 = 0 \<and>
     (al \<or> \<not> msg_legacy c) \<and> unat (msg_len c) \<le> MAX_STUN_MESSAGE_SIZE"

definition class_of :: "u16 \<Rightarrow> StunMessageClass" where
  "class_of ty = (if STUN_IS_REQUEST ty then StunMsgClassRequest
     else if STUN_IS_INDICATION ty then StunMsgClassIndication
     else if STUN_IS_SUCCESS_RESP ty then StunMsgClassSuccessResponse
     else StunMsgClassFailureResponse)"

definition normalized_type :: "u16 \<Rightarrow> u16" where
  "normalized_type ty = (ty AND 0x000f) OR drop_bit 1 (ty AND 0x00e0) OR drop_bit 2 (ty AND 0x3E00)"

text \<open>The attribute that starts at \<open>p\<close>, and the attributes from \<open>p\<close> on, at most \<open>k\<close> of them.\<close>

definition attr_at :: "bytes \<Rightarrow> nat \<Rightarrow> StunAttribute" where
  "attr_at c p = \<lparr>sa_attributeType = of_be16 (segment c p 2), sa_size = of_be16 (segment c (p + 2) 2),
     sa_offset = word_of_nat (p + 4)\<rparr>"

definition attr_span :: "StunAttribute \<Rightarrow> nat" where
  "attr_span a = 4 + unat (sa_size a) + padding_of (unat (sa_size a))"

definition attr_fits :: "bytes \<Rightarrow> nat \<Rightarrow> bool" where
  "attr_fits c p \<longleftrightarrow> p + 4 \<le> length c \<and> unat (sa_size (attr_at c p)) \<le> MAX_STUN_ATTRIBUTE_SIZE \<and>
     p + attr_span (attr_at c p) \<le> length c"

primrec parse_attrs :: "bytes \<Rightarrow> nat \<Rightarrow> nat \<Rightarrow> StunAttribute list option" where
  "parse_attrs c 0 p = (if p = length c then Some [] else None)"
| "parse_attrs c (Suc k) p =
     (if p = length c then Some []
      else if \<not> attr_fits c p then None
      else map_option (Cons (attr_at c p)) (parse_attrs c k (p + attr_span (attr_at c p))))"

definition msg_attrs :: "bytes \<Rightarrow> StunAttribute list option" where
  "msg_attrs c = parse_attrs c MAX_NUM_ATTRIBUTES STUN_HEADER_SIZE"

text \<open>The index recorded for the attributes of type \<open>ty\<close>: that of the last one, or \<open>d\<close>.\<close>

fun last_index :: "u16 \<Rightarrow> int \<Rightarrow> int \<Rightarrow> StunAttribute list \<Rightarrow> int" where
  "last_index ty n d [] = d"
| "last_index ty n d (a # as) = last_index ty (n + 1) (if sa_attributeType a = ty then n else d) as"

lemma last_index_append:
  "last_index ty n d (as @ [a]) =
     (if sa_attributeType a = ty then n + int (length as) else last_index ty n d as)"
  by (induction as arbitrary: n d) auto

text \<open>The state after the bytes \<open>c\<close> were fed in.\<close>

definition spec_state :: "bool \<Rightarrow> bytes \<Rightarrow> ReaderParseState" where
  "spec_state al c =
     (if length c < STUN_HEADER_SIZE then HeaderNotRead
      else if \<not> header_ok al c then ParseError
      else if length c < unat (msg_len c) + STUN_HEADER_SIZE then HeaderValidated
      else if length c > unat (msg_len c) + STUN_HEADER_SIZE then ParseError
      else if msg_attrs c = None then ParseError else BodyValidated)"

section \<open>The body\<close>

definition map_entries :: "StunAttribute list \<Rightarrow> (u16 \<times> StunAttribute) list" where
  "map_entries as = map (\<lambda>a. (sa_attributeType a, a)) as"

abbreviation attrs_hold :: "CStunMessageReader \<Rightarrow> StunAttribute list \<Rightarrow> bool" where
  "attrs_hold r as \<equiv> fhi.holds attr_hash (mr_mapAttributes r) (map_entries as)"

text \<open>The reader stands at \<open>p\<close> in the contents \<open>c\<close>, with the attributes \<open>as\<close> in its map.\<close>

definition body_at :: "CStunMessageReader \<Rightarrow> bytes \<Rightarrow> nat \<Rightarrow> StunAttribute list \<Rightarrow> bool" where
  "body_at r c p as \<longleftrightarrow> stream_ok (mr_stream r) \<and> ds_contents (mr_stream r) = c \<and> ds_pos (mr_stream r) = p \<and>
     attrs_hold r as \<and> fh_fsize (mr_mapAttributes r) = MAX_NUM_ATTRIBUTES \<and>
     mr_countAttributes r = int (length as) \<and>
     mr_indexFingerprint r = last_index STUN_ATTRIBUTE_FINGERPRINT 0 (-1) as \<and>
     mr_indexMessageIntegrity r = last_index STUN_ATTRIBUTE_MESSAGEINTEGRITY 0 (-1) as"

text \<open>The fields that the body does not touch.\<close>

definition same_header :: "CStunMessageReader \<Rightarrow> CStunMessageReader \<Rightarrow> bool" where
  "same_header r r' \<longleftrightarrow> mr_fAllowLegacyFormat r' = mr_fAllowLegacyFormat r \<and>
     mr_fMessageIsLegacyFormat r' = mr_fMessageIsLegacyFormat r \<and> mr_state r' = mr_state r \<and>
     mr_transactionid r' = mr_transactionid r \<and> mr_msgTypeNormalized r' = mr_msgTypeNormalized r \<and>
     mr_msgClass r' = mr_msgClass r \<and> mr_msgLength r' = mr_msgLength r"

lemma same_header_trans: "same_header r r' \<Longrightarrow> same_header r' r'' \<Longrightarrow> same_header r r''"
  by (simp add: same_header_def)

lemma read_at:
  assumes "stream_ok s" "ds_contents s = c" "ds_pos s = p"
  shows "p + n \<le> length c \<Longrightarrow> DS_Read s n = (S_OK, segment c p n, s\<lparr>ds_pos := p + n\<rparr>)"
    "length c < p + n \<Longrightarrow> DS_Read s n = (E_INVALIDARG, [], s)"
  using DS_Read_ok [OF assms(1), of n] length_ds_contents [OF assms(1)] assms(2,3)
  by (simp_all add: add.commute)

lemma seek_at:
  assumes "stream_ok s" "ds_contents s = c" "ds_pos s = p" "p + n < 2 ^ 64"
  shows "p + n \<le> length c \<Longrightarrow> DS_SeekRelative s (int n) = (S_OK, s\<lparr>ds_pos := p + n\<rparr>)"
    "length c < p + n \<Longrightarrow> DS_SeekRelative s (int n) = (E_FAIL, s)"
  using DS_SeekRelative_forward [of s n] DS_SeekDirect_ok [where s = s and p = "p + n"]
    length_ds_contents [OF assms(1)] assms(2-4) by simp_all

lemma body_step_ok:
  assumes b: "body_at r c p as" and len: "length c < 2 ^ 16"
    and fits: "attr_fits c p" "length as < MAX_NUM_ATTRIBUTES"
  obtains hr r' where "MR_ReadBody_step r = (hr, attr_span (attr_at c p), r')" "\<not> FAILED hr"
    "body_at r' c (p + attr_span (attr_at c p)) (as @ [attr_at c p])" "same_header r r'"
proof -
  let ?s = "mr_stream r" and ?a = "attr_at c p"
  let ?len = "unat (sa_size ?a)" and ?pad = "padding_of (unat (sa_size ?a))"
  let ?m = "FH_Insert attr_hash (mr_mapAttributes r) (sa_attributeType ?a) ?a"
  have s: "stream_ok ?s" "ds_contents ?s = c" "ds_pos ?s = p"
    using b by (simp_all add: body_at_def)
  have size: "DS_GetSize ?s = length c"
    using s length_ds_contents by metis
  have le: "p + 4 \<le> length c" "?len \<le> MAX_STUN_ATTRIBUTE_SIZE" "p + 4 + ?len + ?pad \<le> length c"
    using fits(1) by (auto simp: attr_fits_def attr_span_def)
  have ok: "stream_ok (?s\<lparr>ds_pos := q\<rparr>)" if "q \<le> length c" for q
    using s size that by simp
  define p2 p4 p5 where "p2 = p + 2" and "p4 = p + 4" and "p5 = p + 4 + ?len"
  define q where "q = p + attr_span ?a"
  note defs = p2_def p4_def p5_def q_def
  have r1: "DS_Read ?s 2 = (S_OK, segment c p 2, ?s\<lparr>ds_pos := p2\<rparr>)"
    using read_at(1) [OF s] le by (simp add: defs)
  have r2: "DS_Read (?s\<lparr>ds_pos := p2\<rparr>) 2 = (S_OK, segment c p2 2, ?s\<lparr>ds_pos := p4\<rparr>)"
    using read_at(1) [OF ok, of p2 c p2 2] le s by (simp add: defs)
  have s1: "DS_SeekRelative (?s\<lparr>ds_pos := p4\<rparr>) (uint (sa_size ?a)) = (S_OK, ?s\<lparr>ds_pos := p5\<rparr>)"
    using seek_at(1) [OF ok, of p4 c p4 ?len] le s len by (simp add: defs)
  have s2: "DS_SeekRelative (?s\<lparr>ds_pos := p5\<rparr>) (int ?pad) = (S_OK, ?s\<lparr>ds_pos := q\<rparr>)"
    using seek_at(1) [OF ok, of p5 c p5 ?pad] le s len
    by (simp add: defs attr_span_def add.assoc)
  have q5: "?pad = 0 \<Longrightarrow> p5 = q" and span: "2 + 2 + ?len + ?pad = attr_span ?a"
    by (simp_all add: defs attr_span_def)
  have h: "fhi.holds attr_hash (mr_mapAttributes r) (map_entries as)"
    "length (map_entries as) < fh_fsize (mr_mapAttributes r)"
    using b fits(2) by (simp_all add: body_at_def map_entries_def)
  note ins = fhi.holds_insert [OF h, of "sa_attributeType ?a" ?a]
  obtain m where m: "?m = (1, m)"
    using ins by (metis prod.collapse)
  define r' where "r' = r\<lparr>mr_stream := ?s\<lparr>ds_pos := q\<rparr>, mr_mapAttributes := m,
    mr_indexFingerprint := (if sa_attributeType ?a = STUN_ATTRIBUTE_FINGERPRINT
       then mr_countAttributes r else mr_indexFingerprint r),
    mr_indexMessageIntegrity := (if sa_attributeType ?a = STUN_ATTRIBUTE_MESSAGEINTEGRITY
       then mr_countAttributes r else mr_indexMessageIntegrity r),
    mr_countAttributes := mr_countAttributes r + 1\<rparr>"
  have at: "of_be16 (segment c p 2) = sa_attributeType ?a" "of_be16 (segment c p2 2) = sa_size ?a"
    "\<lparr>sa_attributeType = sa_attributeType ?a, sa_size = sa_size ?a, sa_offset = word_of_nat p4\<rparr> = ?a"
    by (simp_all add: attr_at_def defs)
  have "MR_ReadBody_step r = (S_OK, 2 + 2 + ?len + ?pad, r')"
  proof (cases "?pad = 0")
    case True
    show ?thesis
      unfolding MR_ReadBody_step_def
      using True by (simp add: r1 r2 DS_GetPos_def at le(2) m s1 q5 r'_def Let_def)
  next
    case False
    then show ?thesis
      unfolding MR_ReadBody_step_def
      by (simp add: r1 r2 DS_GetPos_def at le(2) m s1 s2 r'_def Let_def)
  qed
  moreover have "body_at r' c (p + attr_span ?a) (as @ [?a])"
    using b ins m le ok [of "p + attr_span ?a"] s
    by (auto simp: body_at_def r'_def last_index_append map_entries_def attr_span_def add.assoc q_def)
  moreover have "same_header r r'"
    by (simp add: same_header_def r'_def)
  ultimately show thesis
    using that [of S_OK r'] span by simp
qed

lemma body_step_fail:
  assumes b: "body_at r c p as" and len: "length c < 2 ^ 16" and p: "p < length c"
    and no: "\<not> (attr_fits c p \<and> length as < MAX_NUM_ATTRIBUTES)"
  shows "\<exists>hr r'. MR_ReadBody_step r = (hr, 0, r') \<and> FAILED hr"
proof -
  let ?s = "mr_stream r" and ?a = "attr_at c p"
  let ?len = "unat (sa_size ?a)" and ?pad = "padding_of (unat (sa_size ?a))"
  define p2 p4 p5 where "p2 = p + 2" and "p4 = p + 4" and "p5 = p + 4 + ?len"
  note defs = p2_def p4_def p5_def
  have s: "stream_ok ?s" "ds_contents ?s = c" "ds_pos ?s = p" and h: "attrs_hold r as"
    and cap: "fh_fsize (mr_mapAttributes r) = MAX_NUM_ATTRIBUTES"
    using b by (simp_all add: body_at_def)
  have size: "DS_GetSize ?s = length c"
    using s length_ds_contents by metis
  have ok: "stream_ok (?s\<lparr>ds_pos := q\<rparr>)" if "q \<le> length c" for q
    using s size that by simp
  show ?thesis
  proof (cases "p2 \<le> length c")
    case False
    then have "DS_Read ?s 2 = (E_INVALIDARG, [], ?s)"
      using read_at(2) [OF s] by (simp add: defs)
    then show ?thesis
      by (simp add: MR_ReadBody_step_def)
  next
    case True
    then have r1: "DS_Read ?s 2 = (S_OK, segment c p 2, ?s\<lparr>ds_pos := p2\<rparr>)"
      using read_at(1) [OF s] by (simp add: defs)
    show ?thesis
    proof (cases "p4 \<le> length c")
      case False
      then have "DS_Read (?s\<lparr>ds_pos := p2\<rparr>) 2 = (E_INVALIDARG, [], ?s\<lparr>ds_pos := p2\<rparr>)"
        using read_at(2) [OF ok, of p2 c p2 2] True s by (simp add: defs)
      then show ?thesis
        by (simp add: MR_ReadBody_step_def r1)
    next
      case p4: True
      then have r2: "DS_Read (?s\<lparr>ds_pos := p2\<rparr>) 2 = (S_OK, segment c p2 2, ?s\<lparr>ds_pos := p4\<rparr>)"
        using read_at(1) [OF ok, of p2 c p2 2] True s by (simp add: defs)
      have at: "of_be16 (segment c p 2) = sa_attributeType ?a" "of_be16 (segment c p2 2) = sa_size ?a"
        "\<lparr>sa_attributeType = sa_attributeType ?a, sa_size = sa_size ?a, sa_offset = word_of_nat p4\<rparr> = ?a"
        by (simp_all add: attr_at_def defs)
      note ev = r1 r2 DS_GetPos_def at Let_def
      show ?thesis
      proof (cases "?len \<le> MAX_STUN_ATTRIBUTE_SIZE")
        case False
        then show ?thesis
          by (simp add: MR_ReadBody_step_def ev)
      next
        case small: True
        show ?thesis
        proof (cases "length as < MAX_NUM_ATTRIBUTES")
          case False
          then have "length (map_entries as) = fh_fsize (mr_mapAttributes r)"
            using fhi.holds_bound [OF h] cap by (simp add: map_entries_def)
          from fhi.holds_full [OF h this] small show ?thesis
            by (simp add: MR_ReadBody_step_def ev)
        next
          case True
          then have bad: "length c < p5 + ?pad"
            using no p4 small by (simp add: attr_fits_def attr_span_def defs)
          obtain m where m: "FH_Insert attr_hash (mr_mapAttributes r) (sa_attributeType ?a) ?a = (1, m)"
            using fhi.holds_insert [OF h, of "sa_attributeType ?a" ?a] True cap
            by (metis length_map map_entries_def prod.collapse)
          show ?thesis
          proof (cases "p5 \<le> length c")
            case False
            then have "DS_SeekRelative (?s\<lparr>ds_pos := p4\<rparr>) (uint (sa_size ?a)) = (E_FAIL, ?s\<lparr>ds_pos := p4\<rparr>)"
              using seek_at(2) [OF ok, of p4 c p4 ?len] p4 s len small by (simp add: defs stun_consts)
            then show ?thesis
              by (simp add: MR_ReadBody_step_def ev small m)
          next
            case True
            then have s1: "DS_SeekRelative (?s\<lparr>ds_pos := p4\<rparr>) (uint (sa_size ?a)) = (S_OK, ?s\<lparr>ds_pos := p5\<rparr>)"
              using seek_at(1) [OF ok, of p4 c p4 ?len] p4 s len by (simp add: defs)
            have s2: "DS_SeekRelative (?s\<lparr>ds_pos := p5\<rparr>) (int ?pad) = (E_FAIL, ?s\<lparr>ds_pos := p5\<rparr>)"
              using seek_at(2) [OF ok, of p5 c p5 ?pad] True s len bad padding_of_simps(1) [of ?len] by simp
            have "0 < ?pad"
              using True bad by simp
            then show ?thesis
              by (simp add: MR_ReadBody_step_def ev small m s1 s2)
          qed
        qed
      qed
    qed
  qed
qed

lemma ReadBody_loop_stop:
  "FAILED hr \<or> c \<le> n \<Longrightarrow> MR_ReadBody_loop c hr n r = (hr, n, r)"
  by (subst MR_ReadBody_loop.simps) (auto simp: SUCCEEDED_iff_not_FAILED)

lemma ReadBody_loop_step:
  "\<not> FAILED hr \<Longrightarrow> n < c \<Longrightarrow> MR_ReadBody_step r = (hr', k, r') \<Longrightarrow>
   MR_ReadBody_loop c hr n r = MR_ReadBody_loop c hr' (n + k) r'"
  by (subst MR_ReadBody_loop.simps) (simp add: SUCCEEDED_iff_not_FAILED)

lemma body_loop:
  assumes "body_at r c p as" "length c < 2 ^ 16" "p \<le> length c" "\<not> FAILED hr"
    "k = MAX_NUM_ATTRIBUTES - length as" "length as \<le> MAX_NUM_ATTRIBUTES"
  shows "\<exists>hr' n r'. MR_ReadBody_loop (length c) hr p r = (hr', n, r') \<and>
    (case parse_attrs c k p of None \<Rightarrow> n \<noteq> length c
     | Some bs \<Rightarrow> n = length c \<and> body_at r' c (length c) (as @ bs) \<and> same_header r r')"
  using assms
proof (induction k arbitrary: r p as hr)
  case 0
  show ?case
  proof (cases "p = length c")
    case True
    with "0.prems" show ?thesis
      by (simp add: ReadBody_loop_stop same_header_def)
  next
    case False
    then obtain hr' r' where f: "MR_ReadBody_step r = (hr', 0, r')" "FAILED hr'"
      using body_step_fail [OF "0.prems"(1,2)] "0.prems"(3,5,6) by auto
    have "MR_ReadBody_loop (length c) hr p r = (hr', p, r')"
      using "0.prems"(3,4) False f by (simp add: ReadBody_loop_step [OF _ _ f(1)] ReadBody_loop_stop)
    then show ?thesis
      using False by simp
  qed
next
  case (Suc k)
  have room: "length as < MAX_NUM_ATTRIBUTES"
    using Suc.prems(5) by simp
  show ?case
  proof (cases "p = length c \<or> \<not> attr_fits c p")
    case True
    show ?thesis
    proof (cases "p = length c")
      case True
      with Suc.prems(1) show ?thesis
        by (simp add: ReadBody_loop_stop same_header_def)
    next
      case False
      then obtain hr' r' where f: "MR_ReadBody_step r = (hr', 0, r')" "FAILED hr'"
        using True body_step_fail [OF Suc.prems(1,2)] Suc.prems(3) by auto
      have "MR_ReadBody_loop (length c) hr p r = (hr', p, r')"
        using Suc.prems(3,4) False f by (simp add: ReadBody_loop_step [OF _ _ f(1)] ReadBody_loop_stop)
      then show ?thesis
        using True False by simp
    qed
  next
    case False
    then have fits: "attr_fits c p" and "p < length c"
      using Suc.prems(3) by auto
    let ?a = "attr_at c p"
    obtain hr1 r1 where st: "MR_ReadBody_step r = (hr1, attr_span ?a, r1)" "\<not> FAILED hr1"
      "body_at r1 c (p + attr_span ?a) (as @ [?a])" "same_header r r1"
      using body_step_ok [OF Suc.prems(1,2) fits room] by blast
    have "MR_ReadBody_loop (length c) hr p r = MR_ReadBody_loop (length c) hr1 (p + attr_span ?a) r1"
      by (rule ReadBody_loop_step [OF Suc.prems(4) \<open>p < length c\<close> st(1)])
    moreover have "\<exists>hr' n r'. MR_ReadBody_loop (length c) hr1 (p + attr_span ?a) r1 = (hr', n, r') \<and>
      (case parse_attrs c k (p + attr_span ?a) of None \<Rightarrow> n \<noteq> length c
       | Some bs \<Rightarrow> n = length c \<and> body_at r' c (length c) ((as @ [?a]) @ bs) \<and> same_header r1 r')"
      using Suc.prems(5) fits room by (intro Suc.IH [OF st(3) Suc.prems(2) _ st(2)]) (simp_all add: attr_fits_def)
    ultimately show ?thesis
      using False fits same_header_trans [OF st(4)]
      by (auto split: option.splits)
  qed
qed

lemma ReadBody_ok:
  assumes b: "body_at r c p []" and len: "length c < 2 ^ 16" "STUN_HEADER_SIZE \<le> length c"
  shows "case msg_attrs c of None \<Rightarrow> FAILED (fst (MR_ReadBody r))
    | Some as \<Rightarrow> \<not> FAILED (fst (MR_ReadBody r)) \<and> body_at (snd (MR_ReadBody r)) c (length c) as \<and>
        same_header r (snd (MR_ReadBody r))"
proof -
  let ?r = "r\<lparr>mr_stream := (mr_stream r)\<lparr>ds_pos := STUN_HEADER_SIZE\<rparr>\<rparr>"
  have size: "DS_GetSize (mr_stream r) = length c"
    using b length_ds_contents by (metis body_at_def)
  have seek: "DS_SeekDirect (mr_stream r) STUN_HEADER_SIZE
      = (S_OK, (mr_stream r)\<lparr>ds_pos := STUN_HEADER_SIZE\<rparr>)"
    using size len by (simp add: DS_SeekDirect_ok)
  have b': "body_at ?r c STUN_HEADER_SIZE []"
    using b size len by (simp add: body_at_def)
  obtain hr' n r' where l: "MR_ReadBody_loop (length c) S_OK STUN_HEADER_SIZE ?r = (hr', n, r')"
    "case parse_attrs c MAX_NUM_ATTRIBUTES STUN_HEADER_SIZE of None \<Rightarrow> n \<noteq> length c
     | Some bs \<Rightarrow> n = length c \<and> body_at r' c (length c) ([] @ bs) \<and> same_header ?r r'"
    using body_loop [OF b' len(1,2), of S_OK] by auto
  have "MR_ReadBody r = (if n = length c then S_OK else E_FAIL, r')"
    using l(1) by (simp add: MR_ReadBody_def Let_def size seek)
  then show ?thesis
    using l(2) by (auto simp: msg_attrs_def same_header_def split: option.splits)
qed

lemma class_bits: "(x :: u16) AND 0x0110 = 0 \<or> x AND 0x0110 = 0x0010 \<or> x AND 0x0110 = 0x0100 \<or> x AND 0x0110 = 0x0110"
proof -
  have p: "bit (push_bit k (1 :: u16)) n \<longleftrightarrow> n = k" if "n < 16" for k n
    using that by (auto simp: bit_simps)
  have b: "bit (0x0010 :: u16) n \<longleftrightarrow> n = 4" "bit (0x0100 :: u16) n \<longleftrightarrow> n = 8"
    "bit (0x0110 :: u16) n \<longleftrightarrow> n = 4 \<or> n = 8" if "n < 16" for n
    using p [OF that, of 4] p [OF that, of 8] bit_or_iff [of "0x0010 :: u16" "0x0100 :: u16" n] by simp_all
  have "x AND 0x0110 = (if bit x 4 then 0x0010 else 0) OR (if bit x 8 then 0x0100 else 0)"
  proof (rule bit_word_eqI)
    fix n assume "n < LENGTH(16)"
    then have "n < 16"
      by simp
    from b [OF this] show "bit (x AND 0x0110) n
        = bit ((if bit x 4 then 0x0010 else 0 :: u16) OR (if bit x 8 then 0x0100 else 0)) n"
      by (auto simp: bit_and_iff bit_or_iff)
  qed
  then show ?thesis
    by auto
qed

lemma ReadHeader_ok:
  assumes s: "stream_ok (mr_stream r)" "ds_contents (mr_stream r) = c" and len: "STUN_HEADER_SIZE \<le> length c"
  shows "\<not> header_ok (mr_fAllowLegacyFormat r) c \<Longrightarrow> FAILED (fst (MR_ReadHeader r))"
    "header_ok (mr_fAllowLegacyFormat r) c \<Longrightarrow> MR_ReadHeader r = (S_OK,
       r\<lparr>mr_stream := (mr_stream r)\<lparr>ds_pos := STUN_HEADER_SIZE\<rparr>,
         mr_fMessageIsLegacyFormat := msg_legacy c, mr_msgTypeNormalized := normalized_type (msg_type c),
         mr_msgLength := msg_len c, mr_transactionid := msg_tid c, mr_msgClass := class_of (msg_type c)\<rparr>)"
proof -
  let ?s = "mr_stream r"
  define p2 p4 p20 :: nat where "p2 = 2" and "p4 = 4" and "p20 = STUN_HEADER_SIZE"
  note defs = p2_def p4_def p20_def
  have size: "DS_GetSize ?s = length c"
    using s length_ds_contents by metis
  have ok: "stream_ok (?s\<lparr>ds_pos := q\<rparr>)" if "q \<le> length c" for q
    using s size that by simp
  have l: "20 \<le> length c"
    using len by (simp add: STUN_HEADER_SIZE_def)
  have r0: "DS_SeekDirect ?s 0 = (S_OK, ?s\<lparr>ds_pos := 0\<rparr>)"
    by (simp add: DS_SeekDirect_ok)
  have r1: "DS_Read (?s\<lparr>ds_pos := 0\<rparr>) 2 = (S_OK, segment c 0 2, ?s\<lparr>ds_pos := p2\<rparr>)"
    using read_at(1) [OF ok, of 0 c 0 2] s l by (simp add: defs)
  have r2: "DS_Read (?s\<lparr>ds_pos := p2\<rparr>) 2 = (S_OK, segment c 2 2, ?s\<lparr>ds_pos := p4\<rparr>)"
    using read_at(1) [OF ok, of p2 c p2 2] s l by (simp add: defs)
  have r3: "DS_Read (?s\<lparr>ds_pos := p4\<rparr>) STUN_TRANSACTION_ID_LENGTH = (S_OK, segment c 4 16, ?s\<lparr>ds_pos := p20\<rparr>)"
    using read_at(1) [OF ok, of p4 c p4 16] s l by (simp add: defs stun_consts)
  note ev = r0 r1 r2 r3 msg_type_def [symmetric] msg_len_def [symmetric] msg_tid_def [symmetric]
    msg_legacy_def [symmetric] Let_def
  show "FAILED (fst (MR_ReadHeader r))" if "\<not> header_ok (mr_fAllowLegacyFormat r) c"
    using that by (auto simp: MR_ReadHeader_def ev header_ok_def not_less)
  show "MR_ReadHeader r = (S_OK,
       r\<lparr>mr_stream := ?s\<lparr>ds_pos := STUN_HEADER_SIZE\<rparr>,
         mr_fMessageIsLegacyFormat := msg_legacy c, mr_msgTypeNormalized := normalized_type (msg_type c),
         mr_msgLength := msg_len c, mr_transactionid := msg_tid c, mr_msgClass := class_of (msg_type c)\<rparr>)"
    if "header_ok (mr_fAllowLegacyFormat r) c"
    using that class_bits [of "msg_type c"]
    by (auto simp: MR_ReadHeader_def ev header_ok_def class_of_def normalized_type_def p20_def
        STUN_IS_REQUEST_def STUN_IS_INDICATION_def STUN_IS_SUCCESS_RESP_def STUN_IS_ERR_RESP_def)
qed

section \<open>Feeding bytes\<close>

definition header_fields :: "bytes \<Rightarrow> CStunMessageReader \<Rightarrow> bool" where
  "header_fields c r \<longleftrightarrow> mr_fMessageIsLegacyFormat r = msg_legacy c \<and>
     mr_msgTypeNormalized r = normalized_type (msg_type c) \<and> mr_msgLength r = msg_len c \<and>
     mr_transactionid r = msg_tid c \<and> mr_msgClass r = class_of (msg_type c)"

text \<open>The reader after the bytes \<open>c\<close>, in whatever pieces they came.\<close>

definition reader_ok :: "bool \<Rightarrow> bytes \<Rightarrow> CStunMessageReader \<Rightarrow> bool" where
  "reader_ok al c r \<longleftrightarrow> mr_state r = spec_state al c \<and>
     (mr_state r \<noteq> ParseError \<longrightarrow> mr_fAllowLegacyFormat r = al \<and>
        body_at r c (ds_pos (mr_stream r)) (if mr_state r = BodyValidated then the (msg_attrs c) else []) \<and>
        (mr_state r \<noteq> HeaderNotRead \<longrightarrow> header_fields c r))"

lemma reader_ok_state: "reader_ok al c r \<Longrightarrow> mr_state r = spec_state al c"
  by (simp add: reader_ok_def)

lemma MR_Reset_body: "fh_alloc m \<Longrightarrow> fh_fsize m = MAX_NUM_ATTRIBUTES \<Longrightarrow> 0 < fh_tsize m \<Longrightarrow>
    mr_mapAttributes r = m \<Longrightarrow> body_at (MR_Reset r) [] 0 []"
  by (simp add: body_at_def MR_Reset_def DS_Reset_def stream_ok_def DS_GetSize_def ds_contents_def
      map_entries_def FH_Reset_holds MAX_NUM_ATTRIBUTES_def)

lemma MR_init_ok: "reader_ok True [] MR_init"
proof -
  have "body_at MR_init [] 0 []"
    unfolding MR_init_def by (rule MR_Reset_body [OF _ _ _ refl]) (simp_all add: FH_Init_def stun_consts)
  then show ?thesis
    by (simp add: reader_ok_def MR_init_def MR_Reset_def DS_Reset_def spec_state_def stun_consts)
qed

lemma MR_SetAllowLegacyFormat_ok:
  "reader_ok al [] r \<Longrightarrow> reader_ok al' [] (MR_SetAllowLegacyFormat r al')"
  by (auto simp: reader_ok_def MR_SetAllowLegacyFormat_def spec_state_def stun_consts body_at_def)

lemma header_prefix:
  assumes "20 \<le> length c"
  shows "msg_type (c @ bs) = msg_type c" "msg_len (c @ bs) = msg_len c" "msg_tid (c @ bs) = msg_tid c"
    "msg_legacy (c @ bs) = msg_legacy c" "header_ok al (c @ bs) = header_ok al c"
    "header_fields (c @ bs) r = header_fields c r"
proof -
  show "msg_type (c @ bs) = msg_type c" "msg_len (c @ bs) = msg_len c" "msg_tid (c @ bs) = msg_tid c"
    using assms by (simp_all add: msg_type_def msg_len_def msg_tid_def segment_append_left)
  then show "msg_legacy (c @ bs) = msg_legacy c" "header_ok al (c @ bs) = header_ok al c"
    "header_fields (c @ bs) r = header_fields c r"
    by (simp_all add: msg_legacy_def header_ok_def header_fields_def)
qed

text \<open>The body block, from a validated header.\<close>

lemma AddBytes_body_ok:
  assumes b: "body_at r d p []" and h: "header_fields d r" "header_ok al d" "STUN_HEADER_SIZE \<le> length d"
    and st: "mr_state r = HeaderValidated" "mr_fAllowLegacyFormat r = al"
  shows "reader_ok al d (MR_AddBytes_excess (length d) (MR_AddBytes_body (length d) r))"
proof -
  let ?n = "unat (msg_len d) + STUN_HEADER_SIZE"
  have ml: "mr_msgLength r = msg_len d"
    using h(1) by (simp add: header_fields_def)
  consider "length d < ?n" | "length d > ?n" | "length d = ?n"
    by linarith
  then show ?thesis
  proof cases
    case 1
    then have "spec_state al d = HeaderValidated" "MR_AddBytes_body (length d) r = r"
      using h(2,3) by (simp_all add: spec_state_def MR_AddBytes_body_def ml)
    then show ?thesis
      using b h(1) st by (simp add: MR_AddBytes_excess_def reader_ok_def body_at_def)
  next
    case 2
    then have "spec_state al d = ParseError" "MR_AddBytes_body (length d) r = r\<lparr>mr_state := ParseError\<rparr>"
      using h(2,3) st by (simp_all add: spec_state_def MR_AddBytes_body_def ml)
    then show ?thesis
      using st by (simp add: MR_AddBytes_excess_def reader_ok_def)
  next
    case 3
    have small: "length d < 2 ^ 16"
      using 3 h(2) by (simp add: header_ok_def stun_consts)
    obtain hr r' where r': "MR_ReadBody r = (hr, r')"
      by fastforce
    note body = ReadBody_ok [OF b small h(3), unfolded r' fst_conv snd_conv]
    have e: "MR_AddBytes_body (length d) r = r'\<lparr>mr_state := if SUCCEEDED hr then BodyValidated else ParseError\<rparr>"
      using 3 st by (simp add: MR_AddBytes_body_def ml r')
    show ?thesis
    proof (cases "msg_attrs d")
      case None
      then have "spec_state al d = ParseError" "FAILED hr"
        using 3 h(2,3) body by (simp_all add: spec_state_def)
      then show ?thesis
        by (simp add: MR_AddBytes_excess_def reader_ok_def e SUCCEEDED_iff_not_FAILED)
    next
      case (Some as)
      then have "spec_state al d = BodyValidated" "\<not> FAILED hr" "body_at r' d (length d) as" "same_header r r'"
        using 3 h(2,3) body by (simp_all add: spec_state_def)
      then show ?thesis
        using st h(1) Some eq_imp_le [OF 3] unfolding e
        by (simp add: MR_AddBytes_excess_def reader_ok_def SUCCEEDED_iff_not_FAILED
            same_header_def body_at_def header_fields_def)
    qed
  qed
qed

text \<open>The blocks after a write that completed the header.\<close>

lemma AddBytes_header_ok:
  assumes b: "body_at r d p []" and st: "mr_state r = HeaderNotRead" "mr_fAllowLegacyFormat r = al"
  shows "reader_ok al d (MR_AddBytes_excess (length d) (MR_AddBytes_body (length d)
    (MR_AddBytes_header (length d) r)))"
proof (cases "STUN_HEADER_SIZE \<le> length d")
  case False
  then show ?thesis
    using b st by (simp add: MR_AddBytes_header_def MR_AddBytes_body_def MR_AddBytes_excess_def
        reader_ok_def spec_state_def body_at_def)
next
  case len: True
  have s: "stream_ok (mr_stream r)" "ds_contents (mr_stream r) = d"
    using b by (simp_all add: body_at_def)
  show ?thesis
  proof (cases "header_ok al d")
    case False
    then have "FAILED (fst (MR_ReadHeader r))" "spec_state al d = ParseError"
      using ReadHeader_ok(1) [OF s len] st len by (simp_all add: spec_state_def)
    then show ?thesis
      using st len by (auto simp: MR_AddBytes_header_def MR_AddBytes_body_def MR_AddBytes_excess_def
          reader_ok_def SUCCEEDED_iff_not_FAILED split: prod.splits)
  next
    case True
    note rh = ReadHeader_ok(2) [OF s len, unfolded st(2), OF True]
    let ?r = "snd (MR_ReadHeader r)\<lparr>mr_state := HeaderValidated\<rparr>"
    have size: "DS_GetSize (mr_stream r) = length d"
      using s length_ds_contents by metis
    have b': "body_at ?r d STUN_HEADER_SIZE []" and h': "header_fields d ?r"
      and st': "mr_state ?r = HeaderValidated" "mr_fAllowLegacyFormat ?r = al"
      using b size len st by (simp_all add: rh body_at_def header_fields_def)
    show ?thesis
    proof (cases "msg_len d = 0")
      case False
      then have "MR_AddBytes_header (length d) r = ?r"
        using st len by (simp add: MR_AddBytes_header_def rh)
      then show ?thesis
        using AddBytes_body_ok [OF b' h' True len st'] by simp
    next
      case zero: True
      then have e: "MR_AddBytes_header (length d) r = ?r\<lparr>mr_state := BodyValidated\<rparr>"
        using st len by (simp add: MR_AddBytes_header_def rh)
      have m: "mr_msgLength ?r = 0"
        using zero by (simp add: rh)
      have at: "msg_attrs d = Some []" if "length d = STUN_HEADER_SIZE"
        using that by (simp add: msg_attrs_def MAX_NUM_ATTRIBUTES_def numeral_eq_Suc)
      show ?thesis
        using b' h' st' at zero len True m
        by (auto simp: e MR_AddBytes_body_def MR_AddBytes_excess_def reader_ok_def spec_state_def
            body_at_def header_fields_def)
    qed
  qed
qed

lemma AddBytes_ok:
  assumes r: "reader_ok al c r"
  shows "reader_ok al (c @ bs) (snd (MR_AddBytes r bs)) \<and> fst (MR_AddBytes r bs) = spec_state al (c @ bs)"
proof (cases "mr_state r = ParseError \<or> bs = []")
  case True
  have "spec_state al (c @ bs) = ParseError" if "spec_state al c = ParseError"
    using that header_prefix [where c = c and bs = bs] by (auto simp: spec_state_def STUN_HEADER_SIZE_def split: if_splits)
  then show ?thesis
    using True r by (auto simp: MR_AddBytes_def reader_ok_def)
next
  case False
  let ?d = "c @ bs"
  let ?s = "(mr_stream r)\<lparr>ds_pos := length c\<rparr>"
  have b: "body_at r c (ds_pos (mr_stream r)) (if mr_state r = BodyValidated then the (msg_attrs c) else [])"
    and al: "mr_fAllowLegacyFormat r = al" and hf: "mr_state r \<noteq> HeaderNotRead \<Longrightarrow> header_fields c r"
    and st: "mr_state r = spec_state al c"
    using r False unfolding reader_ok_def by blast+
  have size: "DS_GetSize (mr_stream r) = length c" and so: "stream_ok (mr_stream r)" "ds_contents (mr_stream r) = c"
    using b length_ds_contents [of "mr_stream r"] by (simp_all add: body_at_def)
  then have s: "strm.at_end ?s" "ds_contents ?s = c"
    by (simp_all add: strm.at_end_def)
  have ne: "bs \<noteq> []"
    using False by simp
  obtain hr s' where w: "DS_Write ?s bs = (hr, s')"
    by fastforce
  have s': "\<not> FAILED hr" "stream_ok s'" "ds_contents s' = ?d" "DS_GetSize s' = length ?d"
    using strm.appends_emit [OF s(1) ne] s(2) length_ds_contents [of s']
    by (simp_all add: w strm.appends_def strm.at_end_def)
  define r1 where "r1 = r\<lparr>mr_stream := s'\<rparr>"
  have b1: "body_at r1 ?d (ds_pos s') (if mr_state r = BodyValidated then the (msg_attrs c) else [])"
    using b s' by (simp add: body_at_def r1_def)
  have f1: "mr_state r1 = mr_state r" "mr_fAllowLegacyFormat r1 = al" "header_fields c r1 = header_fields c r"
    using al by (simp_all add: r1_def header_fields_def)
  let ?R = "MR_AddBytes_excess (length ?d) (MR_AddBytes_body (length ?d) (MR_AddBytes_header (length ?d) r1))"
  have e: "MR_AddBytes r bs = (mr_state ?R, ?R)"
    using False w s'(1,4) size by (simp add: MR_AddBytes_def DS_SeekDirect_ok Let_def r1_def)
  have "reader_ok al ?d ?R"
  proof (cases "mr_state r")
    case HeaderNotRead
    then show ?thesis
      using AddBytes_header_ok [of r1 ?d "ds_pos s'" al] b1 f1 by simp
  next
    case HeaderValidated
    then have "header_ok al c" "20 \<le> length c"
      using st by (auto simp: spec_state_def STUN_HEADER_SIZE_def split: if_splits)
    then show ?thesis
      using AddBytes_body_ok [of r1 ?d "ds_pos s'" al] HeaderValidated b1 f1 hf header_prefix [where c = c and bs = bs]
      by (simp add: MR_AddBytes_header_def STUN_HEADER_SIZE_def)
  next
    case BodyValidated
    then have c: "header_ok al c" "20 \<le> length c" "length c = unat (msg_len c) + STUN_HEADER_SIZE"
      using st by (auto simp: spec_state_def STUN_HEADER_SIZE_def split: if_splits)
    then have "spec_state al ?d = ParseError" "length ?d > unat (msg_len c) + STUN_HEADER_SIZE"
      using header_prefix [where c = c and bs = bs] ne by (auto simp: spec_state_def STUN_HEADER_SIZE_def)
    then show ?thesis
      using BodyValidated f1 hf
      by (auto simp: MR_AddBytes_header_def MR_AddBytes_body_def MR_AddBytes_excess_def reader_ok_def
          header_fields_def)
  next
    case ParseError
    with False show ?thesis
      by simp
  qed
  then show ?thesis
    by (simp add: e reader_ok_state)
qed

section \<open>A parsed message\<close>

definition attr_value :: "bytes \<Rightarrow> StunAttribute \<Rightarrow> bytes" where
  "attr_value c a = segment c (unat (sa_offset a)) (unat (sa_size a))"

text \<open>The types and values of the attributes of a message, in order.\<close>

definition msg_values :: "bytes \<Rightarrow> (u16 \<times> bytes) list" where
  "msg_values c = map (\<lambda>a. (sa_attributeType a, attr_value c a)) (the (msg_attrs c))"

lemma mod4_add: "p mod 4 = 0 \<Longrightarrow> (x + y) mod 4 = 0 \<Longrightarrow> (p + (4 + x + y)) mod 4 = (0 :: nat)"
  by presburger

text \<open>Every attribute lies within the message, on a four-byte boundary.\<close>

lemma parse_attrs_bounds:
  "parse_attrs c k p = Some as \<Longrightarrow> length c < 2 ^ 16 \<Longrightarrow> a \<in> set as \<Longrightarrow> p mod 4 = 0 \<Longrightarrow>
   p + 4 \<le> unat (sa_offset a) \<and> unat (sa_offset a) + unat (sa_size a) \<le> length c \<and>
   unat (sa_size a) \<le> MAX_STUN_ATTRIBUTE_SIZE \<and> unat (sa_offset a) mod 4 = 0"
proof (induction k arbitrary: p as)
  case 0
  then show ?case
    by (simp split: if_splits)
next
  case (Suc k)
  show ?case
  proof (cases "p = length c")
    case True
    with Suc.prems show ?thesis
      by simp
  next
    case False
    then obtain bs where fits: "attr_fits c p" and as: "as = attr_at c p # bs"
      and bs: "parse_attrs c k (p + attr_span (attr_at c p)) = Some bs"
      using Suc.prems(1) by (auto split: if_splits)
    have off: "unat (sa_offset (attr_at c p)) = p + 4"
      using fits Suc.prems(2) unat_word16 [of "p + 4"] by (simp add: attr_at_def attr_fits_def)
    have al: "(p + attr_span (attr_at c p)) mod 4 = 0"
      unfolding attr_span_def by (intro mod4_add Suc.prems(4) padding_of_simps(2))
    show ?thesis
    proof (cases "a = attr_at c p")
      case True
      with fits off Suc.prems(4) show ?thesis
        by (simp add: attr_fits_def attr_span_def mod_add_left_eq [symmetric])
    next
      case False
      then have "a \<in> set bs"
        using Suc.prems(3) as by simp
      from Suc.IH [OF bs Suc.prems(2) this al] show ?thesis
        by (simp add: attr_span_def)
    qed
  qed
qed

lemma parse_attrs_length: "parse_attrs c k p = Some as \<Longrightarrow> length as \<le> k"
  by (induction k arbitrary: p as) (auto split: if_splits)

text \<open>What a reader in state \<open>BodyValidated\<close> holds.\<close>

lemma reader_valid:
  assumes r: "reader_ok al c r" and st: "mr_state r = BodyValidated"
  obtains as where "msg_attrs c = Some as" "length c = unat (msg_len c) + 20" "length c \<le> 820"
    "header_ok al c" "header_fields c r" "body_at r c (ds_pos (mr_stream r)) as"
    "\<And>ty. MR_Lookup r ty = map_of (rev (map_entries as)) ty"
proof -
  have sp: "spec_state al c = BodyValidated"
    using r st by (simp add: reader_ok_def)
  then obtain as where as: "msg_attrs c = Some as" and c: "length c = unat (msg_len c) + 20" "header_ok al c"
    by (auto simp: spec_state_def STUN_HEADER_SIZE_def split: if_splits)
  then have "length c \<le> 820"
    by (simp add: header_ok_def stun_consts)
  moreover have b: "body_at r c (ds_pos (mr_stream r)) as" and h: "header_fields c r"
    using r st as by (simp_all add: reader_ok_def)
  moreover have "MR_Lookup r ty = map_of (rev (map_entries as)) ty" for ty
  proof -
    have "attrs_hold r as"
      using b by (simp add: body_at_def)
    then show ?thesis
      by (simp add: MR_Lookup_def fhi.holds_lookup)
  qed
  ultimately show thesis
    using that as c by blast
qed

lemma map_of_rev_entries:
  "map_of (rev (map_entries as)) ty = Some a \<Longrightarrow> a \<in> set as \<and> sa_attributeType a = ty"
  by (drule map_of_SomeD) (auto simp: map_entries_def)

lemma MR_data_at_segment:
  assumes "stream_ok (mr_stream r)" "ds_contents (mr_stream r) = c" "unat off + n \<le> length c"
  shows "take n (MR_data_at r off) = segment c (unat off) n"
proof -
  have "DS_GetSize (mr_stream r) = length c"
    using assms(1,2) length_ds_contents by metis
  then have "c = take (length c) (DS_memory (mr_stream r))"
    using ds_contents_memory [OF assms(1)] assms(2) by simp
  then have "segment c (unat off) n = segment (DS_memory (mr_stream r)) (unat off) n"
    using segment_take [OF assms(3), of "DS_memory (mr_stream r)"] by metis
  then show ?thesis
    by (simp add: MR_data_at_def segment_def)
qed

text \<open>The value of an attribute type, as the reader finds it: that of its last attribute.\<close>

lemma MR_Lookup_value:
  assumes r: "reader_ok al c r" and st: "mr_state r = BodyValidated"
  shows "map_of (rev (msg_values c)) ty = None \<Longrightarrow> MR_Lookup r ty = None"
    "map_of (rev (msg_values c)) ty = Some v \<Longrightarrow> \<exists>a rest. MR_Lookup r ty = Some a \<and>
       sa_attributeType a = ty \<and> unat (sa_size a) = length v \<and> MR_data_at r (sa_offset a) = v @ rest \<and>
       24 \<le> unat (sa_offset a) \<and> unat (sa_offset a) + length v \<le> length c \<and> unat (sa_offset a) mod 4 = 0 \<and>
       attr_value c a = v"
proof -
  obtain as where as: "msg_attrs c = Some as" "length c \<le> 820" "body_at r c (ds_pos (mr_stream r)) as"
    "\<And>ty. MR_Lookup r ty = map_of (rev (map_entries as)) ty"
    using reader_valid [OF r st] by metis
  have "msg_values c = map (\<lambda>(t, a). (t, attr_value c a)) (map_entries as)"
    by (simp add: msg_values_def as map_entries_def)
  then have v: "map_of (rev (msg_values c)) ty = map_option (attr_value c) (MR_Lookup r ty)"
    by (simp only: rev_map map_of_map as(4) o_apply)
  show "MR_Lookup r ty = None" if "map_of (rev (msg_values c)) ty = None"
    using that v by simp
  assume "map_of (rev (msg_values c)) ty = Some v"
  then obtain a where a: "MR_Lookup r ty = Some a" "attr_value c a = v"
    using v by auto
  then have ina: "a \<in> set as" "sa_attributeType a = ty"
    using as(4) map_of_rev_entries by metis+
  have bd: "24 \<le> unat (sa_offset a)" "unat (sa_offset a) + unat (sa_size a) \<le> length c"
    "unat (sa_offset a) mod 4 = 0"
    using parse_attrs_bounds [OF as(1) [unfolded msg_attrs_def] _ ina(1)] as(2)
    by (auto simp: STUN_HEADER_SIZE_def)
  have "take (unat (sa_size a)) (MR_data_at r (sa_offset a)) = v"
    using MR_data_at_segment [of r c "sa_offset a"] as(3) bd a(2) by (simp add: body_at_def attr_value_def)
  moreover have "length v = unat (sa_size a)"
    using a(2) bd by (auto simp: attr_value_def)
  ultimately show "\<exists>a rest. MR_Lookup r ty = Some a \<and>
       sa_attributeType a = ty \<and> unat (sa_size a) = length v \<and> MR_data_at r (sa_offset a) = v @ rest \<and>
       24 \<le> unat (sa_offset a) \<and> unat (sa_offset a) + length v \<le> length c \<and> unat (sa_offset a) mod 4 = 0 \<and>
       attr_value c a = v"
    using a ina bd append_take_drop_id [of "unat (sa_size a)" "MR_data_at r (sa_offset a)"]
    by (intro exI [of _ a] exI [of _ "drop (unat (sa_size a)) (MR_data_at r (sa_offset a))"]) simp
qed

section \<open>Messages as the builder writes them\<close>

text \<open>The attributes with types and values \<open>ads\<close> on the wire, and the value a parser sees.\<close>

definition attrs_wire :: "bool \<Rightarrow> (u16 \<times> bytes) list \<Rightarrow> bytes" where
  "attrs_wire l ads = concat (map (\<lambda>(t, d). attr_wire l t d) ads)"

definition wire_value :: "bool \<Rightarrow> bytes \<Rightarrow> bytes" where
  "wire_value l d = (if l then d @ zero_bytes (padding_of (length d)) else d)"

definition msg_header :: "bool \<Rightarrow> u16 \<Rightarrow> StunMessageClass \<Rightarrow> nat \<Rightarrow> StunTransactionId \<Rightarrow> bytes" where
  "msg_header l ty cls n tid = be16 (header_type ty cls) @ be16 (word_of_nat n) @ tid"

lemma length_attrs_wire_mod: "length (attrs_wire l ads) mod 4 = 0"
proof (induction ads)
  case (Cons x ads)
  obtain t d where x: "x = (t, d)"
    by fastforce
  have "length (attrs_wire l (x # ads)) = length (attrs_wire l ads) + (4 + length d + padding_of (length d))"
    by (simp add: attrs_wire_def x length_attr_wire)
  with Cons.IH show ?case
    using padding_of_simps(2) mod4_add by metis
qed (simp add: attrs_wire_def)

lemma attr_wire_parts:
  assumes "length (wire_value l d) < 2 ^ 16"
  shows "attr_wire l ty d = be16 ty @ be16 (word_of_nat (length (wire_value l d))) @ wire_value l d
     @ (if l then [] else zero_bytes (padding_of (length d)))"
  by (simp add: attr_wire_def wire_value_def)

lemma parse_attrs_wire:
  assumes "length ads \<le> k" "\<forall>(t, d)\<in>set ads. length (wire_value l d) \<le> 780"
    "length (pre @ attrs_wire l ads) < 2 ^ 16"
  shows "\<exists>as. parse_attrs (pre @ attrs_wire l ads) k (length pre) = Some as \<and>
    map (\<lambda>a. (sa_attributeType a, attr_value (pre @ attrs_wire l ads) a)) as
      = map (\<lambda>(t, d). (t, wire_value l d)) ads"
  using assms
proof (induction ads arbitrary: pre k)
  case Nil
  then show ?case
    by (cases k) (simp_all add: attrs_wire_def)
next
  case (Cons x ads)
  obtain t d where x: "x = (t, d)"
    by fastforce
  obtain k' where k: "k = Suc k'" "length ads \<le> k'"
    using Cons.prems(1) by (cases k) auto
  let ?v = "wire_value l d" and ?p = "length pre" and ?rest = "attrs_wire l ads"
  let ?c = "pre @ attrs_wire l (x # ads)"
  let ?pad = "if l then [] else zero_bytes (padding_of (length d))"
  have v: "length ?v \<le> 780" "length ?v < 2 ^ 16"
    using Cons.prems(2) by (auto simp: x)
  have w: "attrs_wire l (x # ads) = attr_wire l t d @ ?rest"
    by (simp add: attrs_wire_def x)
  have c: "?c = pre @ be16 t @ be16 (word_of_nat (length ?v)) @ ?v @ ?pad @ ?rest"
    using attr_wire_parts [OF v(2), of t] by (simp add: w)
  have pad: "padding_of (length ?v) = length ?pad"
    by (auto simp: wire_value_def padding_of_simps)
  have len: "length (attr_wire l t d) = 4 + length ?v + length ?pad"
    using attr_wire_parts [OF v(2), of t] by simp
  have lc: "length ?c = ?p + 4 + length ?v + length ?pad + length ?rest"
    by (simp add: w len)
  have u: "unat (word_of_nat (length ?v) :: u16) = length ?v"
    by (rule unat_word16 [OF v(2)])
  have seg: "segment ?c ?p 2 = be16 t" "segment ?c (?p + 2) 2 = be16 (word_of_nat (length ?v))"
    "segment ?c (?p + 4) (length ?v) = ?v"
    unfolding c by (simp_all add: segment_def be16_def)
  have at: "attr_at ?c ?p = \<lparr>sa_attributeType = t, sa_size = word_of_nat (length ?v), sa_offset = word_of_nat (?p + 4)\<rparr>"
    unfolding attr_at_def seg by simp
  have span: "attr_span (attr_at ?c ?p) = length (attr_wire l t d)"
    by (simp add: at attr_span_def u pad len)
  have ty: "sa_attributeType (attr_at ?c ?p) = t"
    by (simp add: at)
  have usz: "unat (sa_size (attr_at ?c ?p)) = length ?v"
    by (simp add: at u)
  have fits: "attr_fits ?c ?p"
    unfolding attr_fits_def span len using v(1) lc usz by (simp add: MAX_STUN_ATTRIBUTE_SIZE_def)
  have off: "unat (sa_offset (attr_at ?c ?p)) = ?p + 4"
    using Cons.prems(3) lc unat_word16 [of "?p + 4"] by (simp add: at)
  have val: "attr_value ?c (attr_at ?c ?p) = ?v"
    unfolding attr_value_def off usz by (rule seg(3))
  obtain as where as: "parse_attrs ((pre @ attr_wire l t d) @ ?rest) k' (length (pre @ attr_wire l t d)) = Some as"
    "map (\<lambda>a. (sa_attributeType a, attr_value ((pre @ attr_wire l t d) @ ?rest) a)) as
      = map (\<lambda>(t, d). (t, wire_value l d)) ads"
    using Cons.IH [OF k(2), of "pre @ attr_wire l t d"] Cons.prems(2,3) by (auto simp: w)
  have cc: "(pre @ attr_wire l t d) @ ?rest = ?c"
    by (simp add: w)
  have "parse_attrs ?c k ?p = Some (attr_at ?c ?p # as)"
    using as(1) fits lc unfolding cc k(1) by (simp add: span)
  then show ?case
    using as(2) val ty unfolding cc by (intro exI [of _ "attr_at ?c ?p # as"]) (simp add: x)
qed

lemma all16: "(\<forall>n<16. P n) \<longleftrightarrow> P 0 \<and> P 1 \<and> P 2 \<and> P 3 \<and> P 4 \<and> P 5 \<and> P 6 \<and> P 7 \<and> P 8 \<and> P 9
    \<and> P 10 \<and> P 11 \<and> P 12 \<and> P 13 \<and> P 14 \<and> P (15 :: nat)"
  by (auto simp: numeral_eq_Suc All_less_Suc)

lemma u16_eqI:
  assumes "\<And>n. n < 16 \<Longrightarrow> bit (x :: u16) n = bit y n"
  shows "x = y"
  using assms by (intro bit_word_eqI) simp

text \<open>The bits of the message type field.\<close>

lemma header_type_bits:
  assumes "n < 16"
  shows "bit (header_type ty cls) n \<longleftrightarrow>
    (if n < 4 then bit ty n else if n = 4 then bit (StunMessageClass_val cls) 0
     else if n < 8 then bit ty (n - 1) else if n = 8 then bit (StunMessageClass_val cls) 1
     else if n < 14 then bit ty (n - 2) else False)"
proof -
  have "\<forall>n<16. bit (header_type ty cls) n \<longleftrightarrow>
    (if n < 4 then bit ty n else if n = 4 then bit (StunMessageClass_val cls) 0
     else if n < 8 then bit ty (n - 1) else if n = 8 then bit (StunMessageClass_val cls) 1
     else if n < 14 then bit ty (n - 2) else False)"
    unfolding all16 header_type_def by (simp add: bit_simps mult.commute [of ty 2] bit_double_iff)
  with assms show ?thesis
    by blast
qed

lemma header_type_valid: "header_type ty cls AND 0xc000 = 0"
proof (rule u16_eqI)
  fix n :: nat
  assume n: "n < 16"
  have "\<forall>n<16. bit (0xc000 :: u16) n \<longleftrightarrow> 14 \<le> n"
    unfolding all16 by simp
  with n show "bit (header_type ty cls AND 0xc000) n = bit (0 :: u16) n"
    by (simp add: bit_and_iff header_type_bits [OF n])
qed

lemma normalized_header_type: "normalized_type (header_type ty cls) = ty AND 0x0fff"
proof (rule u16_eqI)
  fix n :: nat
  assume n: "n < 16"
  have "\<forall>n<16. bit (normalized_type (header_type ty cls)) n = bit (ty AND 0x0fff) n"
    unfolding all16 normalized_type_def by (simp add: bit_simps header_type_bits)
  with n show "bit (normalized_type (header_type ty cls)) n = bit (ty AND 0x0fff) n"
    by blast
qed

lemma class_header_type:
  assumes "cls \<noteq> StunMsgClassInvalidMessageClass"
  shows "class_of (header_type ty cls) = cls"
proof -
  have "header_type ty cls AND 0x0110 = (if bit (StunMessageClass_val cls) 0 then 0x0010 else 0)
      OR (if bit (StunMessageClass_val cls) 1 then 0x0100 else 0)" (is "?l = ?r")
  proof (rule u16_eqI)
    fix n :: nat
    assume n: "n < 16"
    have "\<forall>n<16. bit ?l n = bit ?r n"
      unfolding all16 by (simp add: bit_and_iff bit_or_iff header_type_bits)
    with n show "bit ?l n = bit ?r n"
      by blast
  qed
  with assms show ?thesis
    by (cases cls) (simp_all add: class_of_def STUN_IS_REQUEST_def STUN_IS_INDICATION_def
        STUN_IS_SUCCESS_RESP_def bit_1_iff)
qed

text \<open>A whole message: type \<open>ty\<close>, class \<open>cls\<close>, transaction id, attributes.\<close>

definition msg_wire :: "bool \<Rightarrow> u16 \<Rightarrow> StunMessageClass \<Rightarrow> StunTransactionId \<Rightarrow> (u16 \<times> bytes) list \<Rightarrow> bytes" where
  "msg_wire l ty cls tid ads = be16 (header_type ty cls) @ be16 (word_of_nat (length (attrs_wire l ads)))
     @ tid @ attrs_wire l ads"

definition values_ok :: "bool \<Rightarrow> (u16 \<times> bytes) list \<Rightarrow> bool" where
  "values_ok l ads \<longleftrightarrow> length ads \<le> MAX_NUM_ATTRIBUTES \<and> length (attrs_wire l ads) \<le> MAX_STUN_MESSAGE_SIZE \<and>
     list_all (\<lambda>(t, d). length (wire_value l d) \<le> MAX_STUN_ATTRIBUTE_SIZE) ads"

lemma fix_length_msg:
  "length tid = 16 \<Longrightarrow> fix_length (be16 (header_type ty cls) @ be16 0 @ tid @ attrs_wire l ads)
     = msg_wire l ty cls tid ads"
  by (simp add: fix_length_def splice_at_def msg_wire_def)

lemma msg_wire_fields:
  assumes "length tid = 16" "length (attrs_wire l ads) \<le> MAX_STUN_MESSAGE_SIZE"
  shows "msg_type (msg_wire l ty cls tid ads) = header_type ty cls"
    "unat (msg_len (msg_wire l ty cls tid ads)) = length (attrs_wire l ads)"
    "msg_tid (msg_wire l ty cls tid ads) = tid"
    "length (msg_wire l ty cls tid ads) = 20 + length (attrs_wire l ads)"
proof -
  have "segment (msg_wire l ty cls tid ads) 0 2 = be16 (header_type ty cls)"
    "segment (msg_wire l ty cls tid ads) 2 2 = be16 (word_of_nat (length (attrs_wire l ads)))"
    "segment (msg_wire l ty cls tid ads) 4 16 = tid"
    using assms by (simp_all add: segment_def msg_wire_def be16_def)
  then show "msg_type (msg_wire l ty cls tid ads) = header_type ty cls"
    "unat (msg_len (msg_wire l ty cls tid ads)) = length (attrs_wire l ads)"
    "msg_tid (msg_wire l ty cls tid ads) = tid"
    using assms unat_word16 [of "length (attrs_wire l ads)"]
    by (simp_all add: msg_type_def msg_len_def msg_tid_def stun_consts)
  show "length (msg_wire l ty cls tid ads) = 20 + length (attrs_wire l ads)"
    using assms by (simp add: msg_wire_def)
qed

lemma msg_wire_header_ok:
  assumes tid: "length tid = 16" and v: "values_ok l ads" and al: "al \<or> take 4 tid = be32 STUN_COOKIE"
  shows "header_ok al (msg_wire l ty cls tid ads)"
proof -
  have len: "length (attrs_wire l ads) \<le> MAX_STUN_MESSAGE_SIZE"
    using v by (simp add: values_ok_def)
  note f = msg_wire_fields [OF tid len, of ty cls]
  have "unat (msg_len (msg_wire l ty cls tid ads)) mod 4 = 0"
    using f(2) length_attrs_wire_mod by simp
  then have "msg_len (msg_wire l ty cls tid ads) mod 4 = 0"
    by (simp add: word_arith_nat_mod)
  then show ?thesis
    using f al len by (auto simp: header_ok_def header_type_valid msg_legacy_def)
qed

lemma msg_wire_valid:
  assumes tid: "length tid = 16" and v: "values_ok l ads" and al: "al \<or> take 4 tid = be32 STUN_COOKIE"
  shows "spec_state al (msg_wire l ty cls tid ads) = BodyValidated"
    "msg_values (msg_wire l ty cls tid ads) = map (\<lambda>(t, d). (t, wire_value l d)) ads"
proof -
  let ?c = "msg_wire l ty cls tid ads" and ?pre = "be16 (header_type ty cls) @ be16 (word_of_nat (length (attrs_wire l ads))) @ tid"
  have len: "length (attrs_wire l ads) \<le> MAX_STUN_MESSAGE_SIZE"
    using v by (simp add: values_ok_def)
  note f = msg_wire_fields [OF tid len, of ty cls]
  have c: "?c = ?pre @ attrs_wire l ads" "length ?pre = 20"
    using tid by (simp_all add: msg_wire_def)
  have "\<exists>as. parse_attrs (?pre @ attrs_wire l ads) MAX_NUM_ATTRIBUTES (length ?pre) = Some as \<and>
    map (\<lambda>a. (sa_attributeType a, attr_value (?pre @ attrs_wire l ads) a)) as
      = map (\<lambda>(t, d). (t, wire_value l d)) ads"
    using v c(2) by (intro parse_attrs_wire) (auto simp: values_ok_def list_all_iff stun_consts)
  then obtain as where as: "msg_attrs ?c = Some as"
    "map (\<lambda>a. (sa_attributeType a, attr_value ?c a)) as = map (\<lambda>(t, d). (t, wire_value l d)) ads"
    using c by (auto simp: msg_attrs_def STUN_HEADER_SIZE_def)
  show "spec_state al ?c = BodyValidated"
    using f as(1) msg_wire_header_ok [OF tid v al] by (simp add: spec_state_def STUN_HEADER_SIZE_def)
  show "msg_values ?c = map (\<lambda>(t, d). (t, wire_value l d)) ads"
    using as by (simp add: msg_values_def)
qed

section \<open>Accessors on a parsed message\<close>

text \<open>The reader has parsed a message whose attributes have the types and values \<open>vs\<close>.\<close>

definition parsed :: "CStunMessageReader \<Rightarrow> bytes \<Rightarrow> bool" where
  "parsed r c \<longleftrightarrow> (\<exists>al. reader_ok al c r) \<and> mr_state r = BodyValidated"

definition last_value :: "bytes \<Rightarrow> u16 \<Rightarrow> bytes option" where
  "last_value c ty = map_of (rev (msg_values c)) ty"

lemma parsed_pointer:
  assumes "parsed r c"
  shows "DS_GetDataPointerUnsafe (mr_stream r) \<noteq> None" "DS_GetSize (mr_stream r) = length c" "20 \<le> length c"
    "stream_ok (mr_stream r)" "ds_contents (mr_stream r) = c"
proof -
  obtain al where r: "reader_ok al c r" and st: "mr_state r = BodyValidated"
    using assms by (auto simp: parsed_def)
  obtain as where b: "body_at r c (ds_pos (mr_stream r)) as" and len: "length c = unat (msg_len c) + 20"
    using reader_valid [OF r st] by metis
  show s: "stream_ok (mr_stream r)" "ds_contents (mr_stream r) = c" and size: "DS_GetSize (mr_stream r) = length c"
    using b length_ds_contents [of "mr_stream r"] by (simp_all add: body_at_def)
  show "20 \<le> length c"
    using len by simp
  then show "DS_GetDataPointerUnsafe (mr_stream r) \<noteq> None"
    using s by (auto simp: DS_GetDataPointerUnsafe_def ds_contents_def cb_contents_def split: option.splits)
qed

lemma parsed_lookup:
  assumes "parsed r c"
  shows "last_value c ty = None \<Longrightarrow> MR_Lookup r ty = None"
    "last_value c ty = Some v \<Longrightarrow> \<exists>a rest. MR_Lookup r ty = Some a \<and>
       sa_attributeType a = ty \<and> unat (sa_size a) = length v \<and> MR_data_at r (sa_offset a) = v @ rest \<and>
       24 \<le> unat (sa_offset a) \<and> unat (sa_offset a) + length v \<le> length c \<and> unat (sa_offset a) mod 4 = 0 \<and>
       attr_value c a = v"
  using assms MR_Lookup_value unfolding parsed_def last_value_def by blast+

lemma size_eq: "unat (sa_size a) = n \<Longrightarrow> sa_size a = word_of_nat n"
  by auto

lemma change_bits: "change_value ch AND 4 \<noteq> 0 \<longleftrightarrow> fChangeIP ch" "change_value ch AND 2 \<noteq> 0 \<longleftrightarrow> fChangePort ch"
  by (cases "fChangeIP ch"; cases "fChangePort ch"; simp add: change_value_def)+

lemma GetChangeRequest_parsed:
  assumes p: "parsed r c" and v: "last_value c STUN_ATTRIBUTE_CHANGEREQUEST = Some (be32 (change_value ch))"
  shows "MR_GetChangeRequest r = (S_OK, ch)"
proof -
  obtain a rest where a: "MR_Lookup r STUN_ATTRIBUTE_CHANGEREQUEST = Some a" "unat (sa_size a) = 4"
    "MR_data_at r (sa_offset a) = be32 (change_value ch) @ rest"
    using parsed_lookup(2) [OF p v] by auto
  have "sa_size a = STUN_ATTRIBUTE_CHANGEREQUEST_SIZE"
    using size_eq [OF a(2)] by (simp add: stun_consts)
  then show ?thesis
    using a parsed_pointer(1) [OF p] change_bits [of ch] by (simp add: MR_GetChangeRequest_def Let_def)
qed

lemma GetAddressHelper_parsed:
  assumes p: "parsed r c"
  shows "last_value c ty = None \<Longrightarrow> MR_GetAddressHelper r ty = (E_FAIL, None)"
    "last_value c ty = Some (addr_wire x) \<Longrightarrow> is_ip_addr x \<Longrightarrow>
     \<exists>b. MR_GetAddressHelper r ty = (S_OK, Some b) \<and> is_ip_addr b \<and> IsSameIP_and_Port b x \<and>
       sa_family b = sa_family x"
proof -
  show "MR_GetAddressHelper r ty = (E_FAIL, None)" if "last_value c ty = None"
    using parsed_lookup(1) [OF p that] by (simp add: MR_GetAddressHelper_def)
  assume v: "last_value c ty = Some (addr_wire x)" and x: "is_ip_addr x"
  obtain a rest where "MR_Lookup r ty = Some a" "unat (sa_size a) = length (addr_wire x)"
    "MR_data_at r (sa_offset a) = addr_wire x @ rest"
    using parsed_lookup(2) [OF p v] by auto
  then show "\<exists>b. MR_GetAddressHelper r ty = (S_OK, Some b) \<and> is_ip_addr b \<and> IsSameIP_and_Port b x \<and>
       sa_family b = sa_family x"
    using GetMappedAddress_wire [OF x, of rest] by (simp add: MR_GetAddressHelper_def)
qed

lemma xor_same:
  assumes "is_ip_addr a" "is_ip_addr b" "IsSameIP_and_Port b (ApplyStunXorMap a t)"
  shows "IsSameIP_and_Port (ApplyStunXorMap b t) a" "is_ip_addr (ApplyStunXorMap b t)"
proof -
  have ok: "is_ip_addr (ApplyStunXorMap x t)" if "is_ip_addr x" for x
    using that by (simp add: is_ip_addr_def)
  show "is_ip_addr (ApplyStunXorMap b t)"
    by (rule ok [OF assms(2)])
  have e: "sa_family b = sa_family a" "sa_port b = sa_port (ApplyStunXorMap a t)"
    "addr_ip b = addr_ip (ApplyStunXorMap a t)"
    using assms(3) IsSameIP_and_Port_iff [OF assms(2) ok [OF assms(1)]] by simp_all
  have port: "sa_port (ApplyStunXorMap x t) = xor_prefix (sa_port x) t 2" for x
    by (simp add: ApplyStunXorMap_def Let_def)
  have ip: "addr_ip (ApplyStunXorMap x t) = xor_prefix (addr_ip x) t (if sa_family x = AF_INET then 4 else 16)" for x
    by (simp add: ApplyStunXorMap_def Let_def addr_ip_def STUN_IPV4_LENGTH_def STUN_IPV6_LENGTH_def)
  have "sa_port (ApplyStunXorMap b t) = sa_port a" "addr_ip (ApplyStunXorMap b t) = addr_ip a"
    unfolding port ip e by (simp_all add: port ip)
  then show "IsSameIP_and_Port (ApplyStunXorMap b t) a"
    using IsSameIP_and_Port_iff [OF ok [OF assms(2)] assms(1)] e(1) by simp
qed

section \<open>Fingerprint and message integrity of a parsed message\<close>

lemma parsed_memory:
  assumes "parsed r c" "n \<le> length c"
  shows "take n (DS_memory (mr_stream r)) = take n c"
proof -
  have "c = take (length c) (DS_memory (mr_stream r))"
    using ds_contents_memory [OF parsed_pointer(4) [OF assms(1)]] parsed_pointer(2,5) [OF assms(1)] by simp
  then show ?thesis
    using assms(2) by (metis min.absorb1 take_take)
qed

lemma IsFingerprintAttributeValid_parsed:
  assumes p: "parsed r c"
  shows "MR_IsFingerprintAttributeValid crc r \<longleftrightarrow>
    (case last_value c STUN_ATTRIBUTE_FINGERPRINT of None \<Rightarrow> False
     | Some v \<Rightarrow> length v = 4 \<and> of_be32 v = crc (take (length c - 8) c) XOR STUN_FINGERPRINT_XOR)"
proof (cases "last_value c STUN_ATTRIBUTE_FINGERPRINT")
  case None
  then show ?thesis
    using parsed_lookup(1) [OF p None] by (simp add: MR_IsFingerprintAttributeValid_def)
next
  case (Some v)
  obtain a rest where a: "MR_Lookup r STUN_ATTRIBUTE_FINGERPRINT = Some a"
    "sa_attributeType a = STUN_ATTRIBUTE_FINGERPRINT" "unat (sa_size a) = length v"
    "MR_data_at r (sa_offset a) = v @ rest"
    using parsed_lookup(2) [OF p Some] by auto
  have sz: "sa_size a = 4 \<longleftrightarrow> length v = 4"
    using a(3) size_eq [OF a(3)] by auto
  have "mr_state r = BodyValidated"
    using p by (simp add: parsed_def)
  then show ?thesis
    using a sz Some parsed_pointer [OF p] parsed_memory [OF p, of "length c - 8"]
    by (auto simp: MR_IsFingerprintAttributeValid_def STUN_HEADER_SIZE_def)
qed

lemma read_chunks_ok:
  "stream_ok s \<Longrightarrow> ds_contents s = c \<Longrightarrow> ds_pos s = p \<Longrightarrow> p + 4 * n \<le> length c \<Longrightarrow>
   read_chunks n s acc = (S_OK, acc @ segment c p (4 * n))"
proof (induction n arbitrary: s p acc)
  case 0
  then show ?case
    by (simp add: segment_def)
next
  case (Suc n)
  have size: "DS_GetSize s = length c"
    using Suc.prems(1,2) length_ds_contents by metis
  have rd: "DS_Read s 4 = (S_OK, segment c p 4, s\<lparr>ds_pos := p + 4\<rparr>)"
    using read_at(1) [OF Suc.prems(1-3), of 4] Suc.prems(4) by simp
  have "read_chunks n (s\<lparr>ds_pos := p + 4\<rparr>) (acc @ segment c p 4)
      = (S_OK, (acc @ segment c p 4) @ segment c (p + 4) (4 * n))"
    using Suc.prems size by (intro Suc.IH) simp_all
  moreover have "segment c p 4 @ segment c (p + 4) (4 * n) = segment c p (4 * Suc n)"
  proof -
    have "4 * Suc n = 4 + 4 * n" "p + 4 = 4 + p"
      by simp_all
    then show ?thesis
      by (simp only: segment_def take_add drop_drop)
  qed
  ultimately show ?case
    by (simp add: rd)
qed

text \<open>The text that is hashed: the message up to the integrity attribute, its length field
  less the eight bytes of a fingerprint that follows.\<close>

definition integrity_text :: "bool \<Rightarrow> bytes \<Rightarrow> nat \<Rightarrow> bytes" where
  "integrity_text fp c off =
     take 2 c @ (if fp then be16 (msg_len c - 8) else segment c 2 2) @ segment c 4 (off - 8)"

lemma ValidateMessageIntegrity_eval:
  assumes p: "parsed r c" and key: "key \<noteq> []"
    and a: "MR_Lookup r STUN_ATTRIBUTE_MESSAGEINTEGRITY = Some a" "sa_size a = 20"
    and off: "24 \<le> unat (sa_offset a)" "unat (sa_offset a) + 20 \<le> length c" "unat (sa_offset a) mod 4 = 0"
    and cnt: "0 < mr_countAttributes r"
    and idx: "mr_indexMessageIntegrity r = mr_countAttributes r - 1 \<and> \<not> fp \<or>
      mr_indexMessageIntegrity r = mr_countAttributes r - 2 \<and>
      mr_indexFingerprint r = mr_countAttributes r - 1 \<and> 2 \<le> mr_countAttributes r \<and> fp"
  shows "MR_ValidateMessageIntegrity hmac r (Some key) =
    (if hmac key (integrity_text fp c (unat (sa_offset a))) = attr_value c a then S_OK else E_FAIL)"
proof -
  let ?off = "unat (sa_offset a)" and ?s = "DS_Attach DS_null (DS_GetBuffer (mr_stream r)) False"
  have b: "ds_buffer ?s = ds_buffer (mr_stream r)" "ds_pos ?s = 0" "\<not> ds_fNoGrow ?s"
    by (simp_all add: DS_Attach_def DS_Reset_def DS_GetBuffer_def split: option.splits)
  have so: "stream_ok ?s" "ds_contents ?s = c" "ds_pos ?s = 0"
    using b parsed_pointer(4,5) [OF p] by (auto simp: stream_ok_def ds_contents_def split: option.splits)
  have size: "DS_GetSize ?s = length c"
    using so length_ds_contents by metis
  define p2 p4 :: nat where "p2 = 2" and "p4 = 4"
  have ok: "stream_ok (?s\<lparr>ds_pos := q\<rparr>)" if "q \<le> length c" for q
    using so size that by simp
  have r1: "DS_Read ?s 2 = (S_OK, take 2 c, ?s\<lparr>ds_pos := p2\<rparr>)"
    using read_at(1) [OF so, of 2] off by (simp add: p2_def segment_def)
  have r2: "DS_Read (?s\<lparr>ds_pos := p2\<rparr>) 2 = (S_OK, segment c 2 2, ?s\<lparr>ds_pos := p4\<rparr>)"
    using read_at(1) [OF ok, of p2 c p2 2] so off by (simp add: p2_def p4_def)
  have n: "4 * ((?off - 8) div 4) = ?off - 8"
    using off(1,3) by presburger
  have r3: "read_chunks ((?off - 8) div 4) (?s\<lparr>ds_pos := p4\<rparr>) acc = (S_OK, acc @ segment c 4 (?off - 8))" for acc
    using read_chunks_ok [OF ok, of p4 c p4 "(?off - 8) div 4" acc] so off n by (simp add: p4_def)
  have data: "take 20 (MR_data_at r (sa_offset a)) = attr_value c a"
    using MR_data_at_segment [OF parsed_pointer(4,5) [OF p], of "sa_offset a" 20] off(2) a(2)
    by (simp add: attr_value_def)
  have st: "mr_state r = BodyValidated"
    using p by (simp add: parsed_def)
  have i: "(mr_indexMessageIntegrity r = mr_countAttributes r - 2) = fp"
    "mr_indexMessageIntegrity r = mr_countAttributes r - 1 \<or>
      mr_indexMessageIntegrity r = mr_countAttributes r - 2 \<and> mr_indexFingerprint r = mr_countAttributes r - 1"
    "mr_indexMessageIntegrity r \<noteq> -1" "mr_countAttributes r \<noteq> 0"
    using idx cnt by auto
  show ?thesis
    unfolding MR_ValidateMessageIntegrity_def Let_def
    using i(2-4) key a st
    by (simp add: i(1) r1 r2 r3 data integrity_text_def msg_len_def)
qed

text \<open>Attributes follow each other without gaps, and the last one ends the message.\<close>

lemma parse_attrs_next:
  "parse_attrs c k p = Some (as @ a # bs) \<Longrightarrow> length c < 2 ^ 16 \<Longrightarrow>
   unat (sa_offset a) + unat (sa_size a) + padding_of (unat (sa_size a)) =
     (case bs of [] \<Rightarrow> length c | b # _ \<Rightarrow> unat (sa_offset b) - 4)"
proof (induction k arbitrary: p as)
  case 0
  then show ?case
    by (simp split: if_splits)
next
  case (Suc k)
  from Suc.prems(1) obtain cs where fits: "attr_fits c p" and cs: "attr_at c p # cs = as @ a # bs"
    and rest: "parse_attrs c k (p + attr_span (attr_at c p)) = Some cs"
    by (auto split: if_splits)
  show ?case
  proof (cases as)
    case (Cons x as')
    with cs have "cs = as' @ a # bs"
      by simp
    with Suc.IH [of "p + attr_span (attr_at c p)" as'] Suc.prems(2) rest show ?thesis
      by simp
  next
    case Nil
    with cs have a: "a = attr_at c p" "cs = bs"
      by simp_all
    have "unat (sa_offset a) = p + 4"
      using fits Suc.prems(2) unat_word16 [of "p + 4"] by (simp add: a attr_at_def attr_fits_def)
    then have off: "unat (sa_offset a) + unat (sa_size a) + padding_of (unat (sa_size a)) = p + attr_span a"
      by (simp add: attr_span_def)
    show ?thesis
    proof (cases bs)
      case Nil
      with rest a have "p + attr_span a = length c"
        by (cases k) (auto split: if_splits)
      with off Nil show ?thesis
        by simp
    next
      case (Cons b bs')
      with rest a obtain "attr_fits c (p + attr_span a)" "b = attr_at c (p + attr_span a)"
        by (cases k) (auto split: if_splits)
      then have "unat (sa_offset b) = p + attr_span a + 4"
        using Suc.prems(2) unat_word16 [of "p + attr_span a + 4"] by (simp add: attr_at_def attr_fits_def)
      with off Cons show ?thesis
        by simp
    qed
  qed
qed

text \<open>The attribute records of a parsed message, and what the reader keeps of them.\<close>

definition parsed_as :: "CStunMessageReader \<Rightarrow> bytes \<Rightarrow> StunAttribute list \<Rightarrow> bool" where
  "parsed_as r c as \<longleftrightarrow> msg_attrs c = Some as \<and> length c \<le> 820 \<and>
     map (\<lambda>a. (sa_attributeType a, attr_value c a)) as = msg_values c \<and>
     mr_countAttributes r = int (length as) \<and>
     mr_indexFingerprint r = last_index STUN_ATTRIBUTE_FINGERPRINT 0 (-1) as \<and>
     mr_indexMessageIntegrity r = last_index STUN_ATTRIBUTE_MESSAGEINTEGRITY 0 (-1) as \<and>
     (\<forall>ty. MR_Lookup r ty = map_of (rev (map_entries as)) ty) \<and>
     (\<forall>a\<in>set as. 24 \<le> unat (sa_offset a) \<and> unat (sa_offset a) + unat (sa_size a) \<le> length c \<and>
       unat (sa_offset a) mod 4 = 0 \<and> unat (sa_size a) = length (attr_value c a))"

lemma parsed_attrs:
  assumes p: "parsed r c"
  shows "\<exists>as. parsed_as r c as"
proof -
  obtain al where r: "reader_ok al c r" and st: "mr_state r = BodyValidated"
    using p by (auto simp: parsed_def)
  obtain as where as: "msg_attrs c = Some as" "length c \<le> 820" "body_at r c (ds_pos (mr_stream r)) as"
    "\<And>ty. MR_Lookup r ty = map_of (rev (map_entries as)) ty"
    using reader_valid [OF r st] by metis
  have "24 \<le> unat (sa_offset a) \<and> unat (sa_offset a) + unat (sa_size a) \<le> length c \<and>
       unat (sa_offset a) mod 4 = 0 \<and> unat (sa_size a) = length (attr_value c a)" if "a \<in> set as" for a
    using parse_attrs_bounds [OF as(1) [unfolded msg_attrs_def] _ that] as(2)
    by (auto simp: STUN_HEADER_SIZE_def attr_value_def)
  then have "\<forall>a\<in>set as. 24 \<le> unat (sa_offset a) \<and> unat (sa_offset a) + unat (sa_size a) \<le> length c \<and>
       unat (sa_offset a) mod 4 = 0 \<and> unat (sa_size a) = length (attr_value c a)"
    by blast
  moreover have "map (\<lambda>a. (sa_attributeType a, attr_value c a)) as = msg_values c"
    by (simp add: msg_values_def as(1))
  ultimately have "parsed_as r c as"
    using as unfolding parsed_as_def body_at_def by blast
  then show ?thesis
    by blast
qed

lemma values_split:
  assumes "map (\<lambda>a. (sa_attributeType a, attr_value c a)) as = xs @ ys"
  obtains as' bs where "as = as' @ bs" "map (\<lambda>a. (sa_attributeType a, attr_value c a)) as' = xs"
    "map (\<lambda>a. (sa_attributeType a, attr_value c a)) bs = ys"
  using assms that unfolding map_eq_append_conv by blast

lemma integrity_text_False:
  assumes "24 \<le> off" "off \<le> length c"
  shows "integrity_text False c off = take (off - 4) c"
proof -
  have e: "off - 4 = 2 + (2 + (off - 8))" "(4 :: nat) = 2 + 2"
    using assms(1) by simp_all
  have "take (off - 4) c = take 2 c @ take 2 (drop 2 c) @ take (off - 8) (drop 2 (drop 2 c))"
    unfolding e(1) take_add by simp
  then show ?thesis
    by (simp add: integrity_text_def segment_def)
qed

lemma Validate_last:
  assumes p: "parsed r c" and v: "msg_values c = vs @ [(STUN_ATTRIBUTE_MESSAGEINTEGRITY, h)]"
    and h: "length h = 20" and key: "key \<noteq> []"
  shows "MR_ValidateMessageIntegrity hmac r (Some key) =
    (if hmac key (take (length c - 24) c) = h then S_OK else E_FAIL)"
proof -
  obtain as where pa: "parsed_as r c as"
    using parsed_attrs [OF p] by blast
  then have as: "msg_attrs c = Some as" "map (\<lambda>a. (sa_attributeType a, attr_value c a)) as = msg_values c"
    "mr_countAttributes r = int (length as)" "length c < 2 ^ 16"
    "mr_indexFingerprint r = last_index STUN_ATTRIBUTE_FINGERPRINT 0 (-1) as"
    "mr_indexMessageIntegrity r = last_index STUN_ATTRIBUTE_MESSAGEINTEGRITY 0 (-1) as"
    "\<And>ty. MR_Lookup r ty = map_of (rev (map_entries as)) ty"
    unfolding parsed_as_def by auto
  have bd: "24 \<le> unat (sa_offset a) \<and> unat (sa_offset a) + unat (sa_size a) \<le> length c \<and>
       unat (sa_offset a) mod 4 = 0 \<and> unat (sa_size a) = length (attr_value c a)" if "a \<in> set as" for a
    using pa that unfolding parsed_as_def by blast
  obtain as' bs where b: "as = as' @ bs"
    "map (\<lambda>a. (sa_attributeType a, attr_value c a)) bs = [(STUN_ATTRIBUTE_MESSAGEINTEGRITY, h)]"
    by (rule values_split [OF as(2) [unfolded v]])
  then obtain a where a: "as = as' @ [a]" "sa_attributeType a = STUN_ATTRIBUTE_MESSAGEINTEGRITY" "attr_value c a = h"
    by auto
  have fa: "24 \<le> unat (sa_offset a)" "unat (sa_offset a) mod 4 = 0" "unat (sa_size a) = 20"
    using bd [of a] a(1,3) h by auto
  have sz: "sa_size a = 20"
    using size_eq [OF fa(3)] by simp
  have off: "unat (sa_offset a) + 20 = length c"
    using parse_attrs_next [OF as(1) [unfolded msg_attrs_def a(1)] as(4)] fa(3) by (simp add: padding_of_def)
  have look: "MR_Lookup r STUN_ATTRIBUTE_MESSAGEINTEGRITY = Some a"
    unfolding as(7) a(1) using a(2) by (simp add: map_entries_def)
  have cnt: "0 < mr_countAttributes r" "mr_indexMessageIntegrity r = mr_countAttributes r - 1"
    unfolding as(3,6) a(1) by (simp_all add: last_index_append a(2))
  have "integrity_text False c (unat (sa_offset a)) = take (length c - 24) c"
    using integrity_text_False [of "unat (sa_offset a)" c] fa(1) by (simp flip: off)
  then show ?thesis
    using ValidateMessageIntegrity_eval [OF p key look sz fa(1) _ fa(2) cnt(1), of False hmac] cnt(2) off a(3)
    by simp
qed

lemma Validate_before_fingerprint:
  assumes p: "parsed r c" and v: "msg_values c = vs @ [(STUN_ATTRIBUTE_MESSAGEINTEGRITY, h), (STUN_ATTRIBUTE_FINGERPRINT, f)]"
    and h: "length h = 20" "length f = 4" and key: "key \<noteq> []"
  shows "MR_ValidateMessageIntegrity hmac r (Some key) =
    (if hmac key (take 2 c @ be16 (msg_len c - 8) @ segment c 4 (length c - 36)) = h then S_OK else E_FAIL)"
proof -
  obtain as where pa: "parsed_as r c as"
    using parsed_attrs [OF p] by blast
  then have as: "msg_attrs c = Some as" "map (\<lambda>a. (sa_attributeType a, attr_value c a)) as = msg_values c"
    "mr_countAttributes r = int (length as)" "length c < 2 ^ 16"
    "mr_indexFingerprint r = last_index STUN_ATTRIBUTE_FINGERPRINT 0 (-1) as"
    "mr_indexMessageIntegrity r = last_index STUN_ATTRIBUTE_MESSAGEINTEGRITY 0 (-1) as"
    "\<And>ty. MR_Lookup r ty = map_of (rev (map_entries as)) ty"
    unfolding parsed_as_def by auto
  have bd: "24 \<le> unat (sa_offset a) \<and> unat (sa_offset a) + unat (sa_size a) \<le> length c \<and>
       unat (sa_offset a) mod 4 = 0 \<and> unat (sa_size a) = length (attr_value c a)" if "a \<in> set as" for a
    using pa that unfolding parsed_as_def by blast
  obtain as' bs where b: "as = as' @ bs" "map (\<lambda>a. (sa_attributeType a, attr_value c a)) bs
      = [(STUN_ATTRIBUTE_MESSAGEINTEGRITY, h), (STUN_ATTRIBUTE_FINGERPRINT, f)]"
    by (rule values_split [OF as(2) [unfolded v]])
  then obtain a b where a: "as = (as' @ [a]) @ [b]" "sa_attributeType a = STUN_ATTRIBUTE_MESSAGEINTEGRITY"
    "attr_value c a = h" "sa_attributeType b = STUN_ATTRIBUTE_FINGERPRINT" "attr_value c b = f"
    by auto
  have fa: "24 \<le> unat (sa_offset a)" "unat (sa_offset a) mod 4 = 0" "unat (sa_size a) = 20"
    "24 \<le> unat (sa_offset b)" "unat (sa_size b) = 4"
    using bd [of a] bd [of b] a(1,3,5) h by auto
  have sz: "sa_size a = 20"
    using size_eq [OF fa(3)] by simp
  have ne: "STUN_ATTRIBUTE_FINGERPRINT \<noteq> STUN_ATTRIBUTE_MESSAGEINTEGRITY"
    by (simp add: stun_consts)
  have ab: "as = as' @ a # [b]"
    using a(1) by simp
  have "unat (sa_offset b) + 4 = length c"
    using parse_attrs_next [OF as(1) [unfolded msg_attrs_def a(1)] as(4)] fa(5) by (simp add: padding_of_def)
  moreover have "unat (sa_offset a) + 20 = unat (sa_offset b) - 4"
    using parse_attrs_next [OF as(1) [unfolded msg_attrs_def ab] as(4)] fa(3) by (simp add: padding_of_def)
  ultimately have off: "unat (sa_offset a) + 28 = length c"
    using fa(4) by simp
  have look: "MR_Lookup r STUN_ATTRIBUTE_MESSAGEINTEGRITY = Some a"
    unfolding as(7) a(1) using a(2,4) ne by (simp add: map_entries_def)
  have cnt: "0 < mr_countAttributes r" "2 \<le> mr_countAttributes r"
    "mr_indexMessageIntegrity r = mr_countAttributes r - 2" "mr_indexFingerprint r = mr_countAttributes r - 1"
    unfolding as(3,5,6) a(1) by (simp_all add: last_index_append a(2,4) ne del: append_assoc)
  have "integrity_text True c (unat (sa_offset a)) = take 2 c @ be16 (msg_len c - 8) @ segment c 4 (length c - 36)"
    by (simp add: integrity_text_def flip: off)
  then show ?thesis
    using ValidateMessageIntegrity_eval [OF p key look sz fa(1) _ fa(2) cnt(1), of True hmac] cnt(2-4) off a(3)
    by simp
qed

section \<open>What a parse leaves alone\<close>

definition stream_frame :: "cstream \<Rightarrow> cstream \<Rightarrow> bool" where
  "stream_frame s s' \<longleftrightarrow> ds_buffer s' = ds_buffer s \<and> ds_left s' = ds_left s"

definition reader_frame :: "CStunMessageReader \<Rightarrow> CStunMessageReader \<Rightarrow> bool" where
  "reader_frame r r' \<longleftrightarrow> stream_frame (mr_stream r) (mr_stream r') \<and>
     fh_alloc (mr_mapAttributes r') = fh_alloc (mr_mapAttributes r) \<and>
     fh_fsize (mr_mapAttributes r') = fh_fsize (mr_mapAttributes r) \<and>
     fh_tsize (mr_mapAttributes r') = fh_tsize (mr_mapAttributes r)"

lemma stream_frame_moves:
  "stream_frame s (snd (snd (DS_Read s n)))" "stream_frame s (snd (DS_SeekDirect s p))"
  "stream_frame s (snd (DS_SeekRelative s i))"
  by (simp_all add: stream_frame_def DS_Read_def DS_SeekDirect_def DS_SeekRelative_def Let_def)

lemma reader_frame_refl [simp]: "reader_frame r r"
  by (simp add: reader_frame_def stream_frame_def)

lemma reader_frame_trans: "reader_frame r r' \<Longrightarrow> reader_frame r' r'' \<Longrightarrow> reader_frame r r''"
  by (simp add: reader_frame_def stream_frame_def)

lemma reader_frame_stream: "stream_frame (mr_stream r) s \<Longrightarrow> reader_frame r (r\<lparr>mr_stream := s\<rparr>)"
  by (simp add: reader_frame_def)

lemma FH_Insert_frame:
  "fh_alloc (snd (FH_Insert hf h k v)) = fh_alloc h \<and> fh_fsize (snd (FH_Insert hf h k v)) = fh_fsize h \<and>
   fh_tsize (snd (FH_Insert hf h k v)) = fh_tsize h"
  by (auto simp: FH_Insert_def FH_UpdateIndexWithAdd_def Let_def split: option.splits if_splits)

lemma frame_if:
  "reader_frame r (snd a) \<Longrightarrow> reader_frame r (snd b) \<Longrightarrow> reader_frame r (snd (if c then a else b))"
  by simp

lemma frame_let: "(\<And>x. x = a \<Longrightarrow> reader_frame r (snd (f x))) \<Longrightarrow> reader_frame r (snd (Let a f))"
  by simp

lemma stream_frame_trans: "stream_frame s s' \<Longrightarrow> stream_frame s' s'' \<Longrightarrow> stream_frame s s''"
  by (simp add: stream_frame_def)

lemma ReadHeader_frame: "reader_frame r (snd (MR_ReadHeader r))"
proof -
  obtain h0 s0 where s0: "DS_SeekDirect (mr_stream r) 0 = (h0, s0)"
    by fastforce
  obtain h1 b1 s1 where s1: "DS_Read s0 2 = (h1, b1, s1)"
    by (rule prod_cases3)
  obtain h2 b2 s2 where s2: "DS_Read s1 2 = (h2, b2, s2)"
    by (rule prod_cases3)
  obtain h3 b3 s3 where s3: "DS_Read s2 STUN_TRANSACTION_ID_LENGTH = (h3, b3, s3)"
    by (rule prod_cases3)
  have f0: "stream_frame (mr_stream r) s0"
    using stream_frame_moves(2) [of "mr_stream r" 0] s0 by simp
  have f1: "stream_frame (mr_stream r) s1"
    using stream_frame_trans [OF f0] stream_frame_moves(1) [of s0 2] s1 by simp
  have f2: "stream_frame (mr_stream r) s2"
    using stream_frame_trans [OF f1] stream_frame_moves(1) [of s1 2] s2 by simp
  have f3: "stream_frame (mr_stream r) s3"
    using stream_frame_trans [OF f2] stream_frame_moves(1) [of s2 STUN_TRANSACTION_ID_LENGTH] s3 by simp
  have sel: "mr_stream (r\<lparr>mr_stream := s\<rparr>) = s" for s and r :: CStunMessageReader
    by simp
  define rest :: "bytes \<Rightarrow> bytes \<Rightarrow> bytes \<Rightarrow> CStunMessageReader \<Rightarrow> hresult \<times> CStunMessageReader" where
    "rest b1 b2 transID r = (
      let msgType = of_be16 b1; msgLength = of_be16 b2;
          cookie = of_be32 (take 4 transID);
          r = r\<lparr>mr_fMessageIsLegacyFormat := \<not> cookie = STUN_COOKIE\<rparr>;
          fHeaderValid = (msgType AND 0xc000 = 0 \<and> msgLength mod 4 = 0);
          fHeaderValid = (fHeaderValid \<and> (mr_fAllowLegacyFormat r \<or> \<not> mr_fMessageIsLegacyFormat r)) in
      if \<not> fHeaderValid then (E_FAIL, r) else
      let r = r\<lparr>mr_msgTypeNormalized := (msgType AND 0x000f) OR drop_bit 1 (msgType AND 0x00e0)
                  OR drop_bit 2 (msgType AND 0x3E00)\<rparr>;
          r = r\<lparr>mr_msgLength := msgLength\<rparr>;
          r = r\<lparr>mr_transactionid := transID\<rparr> in
      if unat (mr_msgLength r) > MAX_STUN_MESSAGE_SIZE then (E_UNEXPECTED, r)
      else if STUN_IS_REQUEST msgType then (S_OK, r\<lparr>mr_msgClass := StunMsgClassRequest\<rparr>)
      else if STUN_IS_INDICATION msgType then (S_OK, r\<lparr>mr_msgClass := StunMsgClassIndication\<rparr>)
      else if STUN_IS_SUCCESS_RESP msgType then (S_OK, r\<lparr>mr_msgClass := StunMsgClassSuccessResponse\<rparr>)
      else if STUN_IS_ERR_RESP msgType then (S_OK, r\<lparr>mr_msgClass := StunMsgClassFailureResponse\<rparr>)
      else (E_FAIL, r\<lparr>mr_msgClass := StunMsgClassInvalidMessageClass\<rparr>))" for b1 b2 transID r
  have r: "reader_frame r (snd (rest b1 b2 b3 (r\<lparr>mr_stream := s0, mr_stream := s1, mr_stream := s2, mr_stream := s3\<rparr>)))"
    unfolding rest_def by (rule frame_let | rule frame_if | simp add: reader_frame_def f3)+
  have "MR_ReadHeader r = (if FAILED h0 then (h0, r\<lparr>mr_stream := s0\<rparr>) else
      if FAILED h1 then (h1, r\<lparr>mr_stream := s0, mr_stream := s1\<rparr>) else
      if FAILED h2 then (h2, r\<lparr>mr_stream := s0, mr_stream := s1, mr_stream := s2\<rparr>) else
      if FAILED h3 then (h3, r\<lparr>mr_stream := s0, mr_stream := s1, mr_stream := s2, mr_stream := s3\<rparr>)
      else rest b1 b2 b3 (r\<lparr>mr_stream := s0, mr_stream := s1, mr_stream := s2, mr_stream := s3\<rparr>))"
    unfolding MR_ReadHeader_def rest_def Let_def s0 prod.case sel s1 s2 s3 by (rule refl)
  then show ?thesis
    using r by (simp add: reader_frame_def f0 f1 f2 f3)
qed

text \<open>The tail of a round, from the place where the attribute is in the map.\<close>

lemma ReadBody_step_frame: "reader_frame r (snd (snd (MR_ReadBody_step r)))"
proof -
  obtain h1 b1 s1 where s1: "DS_Read (mr_stream r) 2 = (h1, b1, s1)"
    by (rule prod_cases3)
  obtain h2 b2 s2 where s2: "DS_Read s1 2 = (h2, b2, s2)"
    by (rule prod_cases3)
  let ?a = "\<lparr>sa_attributeType = of_be16 b1, sa_size = of_be16 b2, sa_offset = word_of_nat (DS_GetPos s2)\<rparr>"
  obtain k m where m: "FH_Insert attr_hash (mr_mapAttributes r) (of_be16 b1) ?a = (k, m)"
    by fastforce
  obtain h3 s3 where s3: "DS_SeekRelative s2 (uint (of_be16 b2)) = (h3, s3)"
    by fastforce
  obtain h4 s4 where s4: "DS_SeekRelative s3 (int (padding_of (unat (of_be16 b2)))) = (h4, s4)"
    by fastforce
  have f1: "stream_frame (mr_stream r) s1"
    using stream_frame_moves(1) [of "mr_stream r" 2] s1 by simp
  have f2: "stream_frame (mr_stream r) s2"
    using stream_frame_trans [OF f1] stream_frame_moves(1) [of s1 2] s2 by simp
  have f3: "stream_frame (mr_stream r) s3"
    using stream_frame_trans [OF f2] stream_frame_moves(3) [of s2 "uint (of_be16 b2)"] s3 by simp
  have f4: "stream_frame (mr_stream r) s4"
    using stream_frame_trans [OF f3] stream_frame_moves(3) [of s3 "int (padding_of (unat (of_be16 b2)))"] s4 by simp
  have fm: "fh_alloc m = fh_alloc (mr_mapAttributes r)" "fh_fsize m = fh_fsize (mr_mapAttributes r)"
    "fh_tsize m = fh_tsize (mr_mapAttributes r)"
    using FH_Insert_frame [of attr_hash "mr_mapAttributes r" "of_be16 b1" ?a] m by simp_all
  define tail :: "CStunMessageReader \<Rightarrow> hresult \<times> nat \<times> CStunMessageReader" where "tail r1 = (let (hr, s) = DS_SeekRelative (mr_stream r1) (uint (of_be16 b2 :: u16)); r = r1\<lparr>mr_stream := s\<rparr> in
      if FAILED hr then (hr, 0, r) else
      let (hr, s) = (if padding_of (unat (of_be16 b2)) > 0 then DS_SeekRelative (mr_stream r) (int (padding_of (unat (of_be16 b2))))
                     else (hr, mr_stream r));
          r = r\<lparr>mr_stream := s\<rparr> in
      if FAILED hr then (hr, 0, r)
      else (hr, 2 + 2 + unat (of_be16 b2) + padding_of (unat (of_be16 b2)), r))" for r1
  have tl: "reader_frame r (snd (snd (tail r1)))" if "reader_frame r r1" "mr_stream r1 = s2" for r1
    using that f3 f4 s3 s4 unfolding tail_def that(2) by (simp add: reader_frame_def Let_def)
  have sel: "mr_stream (r\<lparr>mr_stream := s\<rparr>) = s" "mr_mapAttributes (r\<lparr>mr_stream := s\<rparr>) = mr_mapAttributes r" for s and r :: CStunMessageReader
    by simp_all
  define r1 where "r1 = (let r = r\<lparr>mr_stream := s1, mr_stream := s2, mr_mapAttributes := m\<rparr>;
          r = (if of_be16 b1 = STUN_ATTRIBUTE_FINGERPRINT then r\<lparr>mr_indexFingerprint := mr_countAttributes r\<rparr> else r);
          r = (if of_be16 b1 = STUN_ATTRIBUTE_MESSAGEINTEGRITY then r\<lparr>mr_indexMessageIntegrity := mr_countAttributes r\<rparr> else r) in
      r\<lparr>mr_countAttributes := mr_countAttributes r + 1\<rparr>)"
  have d: "reader_frame r r1" "mr_stream r1 = s2"
    by (simp_all add: r1_def Let_def reader_frame_def f2 fm)
  have "MR_ReadBody_step r = (if FAILED h1 then (h1, 0, r\<lparr>mr_stream := s1\<rparr>) else
      if FAILED h2 then (h2, 0, r\<lparr>mr_stream := s1, mr_stream := s2\<rparr>) else
      if FAILED (if unat (of_be16 b2) \<le> MAX_STUN_ATTRIBUTE_SIZE then S_OK else E_FAIL)
      then (if unat (of_be16 b2) \<le> MAX_STUN_ATTRIBUTE_SIZE then S_OK else E_FAIL, 0, r\<lparr>mr_stream := s1, mr_stream := s2\<rparr>) else
      if FAILED (if k \<ge> 0 then S_OK else E_FAIL)
      then (if k \<ge> 0 then S_OK else E_FAIL, 0, r\<lparr>mr_stream := s1, mr_stream := s2, mr_mapAttributes := m\<rparr>) else tail r1)"
    unfolding MR_ReadBody_step_def tail_def r1_def Let_def s1 prod.case sel s2 m by (rule refl)
  then show ?thesis
    using tl [OF d] by (simp add: reader_frame_def f1 f2 fm)
qed

lemma ReadBody_loop_frame: "reader_frame r (snd (snd (MR_ReadBody_loop c hr n r)))"
proof (induction c hr n r rule: MR_ReadBody_loop.induct)
  case (1 c hr n r)
  obtain hr' n' r' where e: "MR_ReadBody_step r = (hr', n', r')"
    by (rule prod_cases3)
  show ?case
    using 1 [OF _ e [symmetric] refl] reader_frame_trans [of r r'] ReadBody_step_frame [of r]
    by (subst MR_ReadBody_loop.simps) (simp add: e)
qed

lemma ReadBody_frame: "reader_frame r (snd (MR_ReadBody r))"
proof -
  have "reader_frame r (r\<lparr>mr_stream := snd (DS_SeekDirect (mr_stream r) STUN_HEADER_SIZE)\<rparr>)"
    by (rule reader_frame_stream [OF stream_frame_moves(2)])
  then show ?thesis
    using reader_frame_trans ReadBody_loop_frame by (fastforce simp: MR_ReadBody_def Let_def case_prod_beta)
qed

lemma reader_frame_state [simp]: "reader_frame r (r'\<lparr>mr_state := st\<rparr>) = reader_frame r r'"
  by (simp add: reader_frame_def)

lemma AddBytes_frame:
  assumes "mr_state r \<noteq> ParseError" "bs \<noteq> []"
  shows "reader_frame (r\<lparr>mr_stream := snd (DS_Write (snd (DS_SeekDirect (mr_stream r) (DS_GetSize (mr_stream r)))) bs)\<rparr>)
    (snd (MR_AddBytes r bs))"
proof -
  have h: "reader_frame r (MR_AddBytes_header c r)" for c r
    using ReadHeader_frame [of r] by (simp add: MR_AddBytes_header_def Let_def case_prod_beta)
  have b: "reader_frame r (MR_AddBytes_body c r)" for c r
    using ReadBody_frame [of r] by (simp add: MR_AddBytes_body_def Let_def case_prod_beta)
  have x: "reader_frame r (MR_AddBytes_excess c r)" for c r
    by (simp add: MR_AddBytes_excess_def)
  show ?thesis
    using assms reader_frame_trans [OF reader_frame_trans [OF h b] x] by (simp add: MR_AddBytes_def Let_def case_prod_beta)
qed

text \<open>
  A reader that is reset and attached to a buffer, and then fed with one message that fits into it:
  it parses as a new reader does, and the buffer stays its own.
\<close>

definition reader_alive :: "CStunMessageReader \<Rightarrow> bool" where
  "reader_alive r \<longleftrightarrow> fh_alloc (mr_mapAttributes r) \<and> fh_fsize (mr_mapAttributes r) = MAX_NUM_ATTRIBUTES \<and>
     0 < fh_tsize (mr_mapAttributes r)"

definition MR_Attach :: "CStunMessageReader \<Rightarrow> cbuffer \<Rightarrow> CStunMessageReader" where
  "MR_Attach r buf = (MR_Reset r)\<lparr>mr_stream := DS_Attach (mr_stream (MR_Reset r)) (Some buf) True\<rparr>"

lemma MR_init_alive [simp]: "reader_alive MR_init"
  by (simp add: reader_alive_def MR_init_def MR_Reset_def FH_Init_def FH_Reset_def Let_def stun_consts)

lemma MR_Attach_ok:
  assumes "reader_alive r" "buffer_ok buf"
  shows "reader_ok True [] (MR_Attach r buf)" "reader_alive (MR_Attach r buf)"
    "ds_in_place (mr_stream (MR_Attach r buf))" "DS_allocated (mr_stream (MR_Attach r buf)) = cb_allocated buf"
proof -
  note a = DS_Attach_writing [OF assms(2), of "mr_stream (MR_Reset r)"]
  have "body_at (MR_Reset r) [] 0 []"
    using assms(1) by (intro MR_Reset_body [OF _ _ _ refl]) (simp_all add: reader_alive_def)
  then have "body_at (MR_Attach r buf) [] 0 []"
    using a by (simp add: body_at_def MR_Attach_def MR_Reset_def)
  then show "reader_ok True [] (MR_Attach r buf)"
    using a by (simp add: reader_ok_def MR_Attach_def MR_Reset_def spec_state_def STUN_HEADER_SIZE_def)
  show "reader_alive (MR_Attach r buf)"
    using assms(1) by (simp add: reader_alive_def MR_Attach_def MR_Reset_def FH_Reset_def Let_def)
  show "ds_in_place (mr_stream (MR_Attach r buf))" "DS_allocated (mr_stream (MR_Attach r buf)) = cb_allocated buf"
    using a by (simp_all add: MR_Attach_def)
qed

lemma Attach_AddBytes:
  assumes r: "reader_alive r" "buffer_ok buf" and n: "length bs \<le> cb_allocated buf"
  defines "r' \<equiv> snd (MR_AddBytes (MR_Attach r buf) bs)"
  shows "reader_ok True bs r'" "reader_alive r'" "\<exists>b. ds_buffer (mr_stream r') = Some b \<and> buffer_ok b \<and>
    cb_allocated b = cb_allocated buf" "ds_left (mr_stream r') = None"
proof -
  note a = MR_Attach_ok [OF r]
  show "reader_ok True bs r'"
    using AddBytes_ok [OF a(1), of bs] by (simp add: r'_def)
  let ?s = "mr_stream (MR_Attach r buf)"
  have s: "stream_ok ?s" "ds_pos ?s = 0" "DS_GetSize ?s = 0" "ds_left ?s = None" "ds_buffer ?s \<noteq> None"
    using DS_Attach_writing [OF r(2), of "mr_stream (MR_Reset r)"] by (simp_all add: MR_Attach_def ds_in_place_def)
  have st: "mr_state (MR_Attach r buf) = HeaderNotRead"
    by (simp add: MR_Attach_def MR_Reset_def)
  have buf0: "\<exists>b. ds_buffer ?s = Some b \<and> buffer_ok b \<and> cb_allocated b = cb_allocated buf"
    using s(1,5) a(4) by (auto simp: stream_ok_def DS_allocated_def)
  show "reader_alive r'" "\<exists>b. ds_buffer (mr_stream r') = Some b \<and> buffer_ok b \<and>
    cb_allocated b = cb_allocated buf" "ds_left (mr_stream r') = None"
  proof (atomize (full), cases "bs = []")
    case True
    then have "r' = MR_Attach r buf"
      by (simp add: r'_def MR_AddBytes_def)
    with a(2) buf0 s(4) show "reader_alive r' \<and> (\<exists>b. ds_buffer (mr_stream r') = Some b \<and> buffer_ok b \<and>
        cb_allocated b = cb_allocated buf) \<and> ds_left (mr_stream r') = None"
      by simp
  next
    case False
    have seek: "DS_SeekDirect ?s (DS_GetSize ?s) = (S_OK, ?s)"
      using s DS_SeekDirect_ok(1) [of "DS_GetSize ?s" ?s] by simp
    let ?w = "snd (DS_Write ?s bs)"
    have room: "length bs + ds_pos ?s \<le> DS_allocated ?s"
      using n a(4) s(2) by simp
    note w = DS_Write_after_grow [OF s(1) False room]
    have f: "reader_frame ((MR_Attach r buf)\<lparr>mr_stream := ?w\<rparr>) r'"
      using AddBytes_frame [OF _ False, of "MR_Attach r buf"] st seek by (simp add: r'_def)
    have "\<exists>b. ds_buffer ?w = Some b \<and> buffer_ok b \<and> cb_allocated b = cb_allocated buf"
      using w(2,5,7) a(4) by (auto simp: stream_ok_def DS_allocated_def)
    moreover have "ds_left ?w = None"
      using w(6) s(4) by simp
    ultimately show "reader_alive r' \<and> (\<exists>b. ds_buffer (mr_stream r') = Some b \<and> buffer_ok b \<and>
        cb_allocated b = cb_allocated buf) \<and> ds_left (mr_stream r') = None"
      using f a(2) by (simp add: reader_frame_def stream_frame_def reader_alive_def)
  qed
qed

end
