(* ===== verification/StunExchange.thy ===== *)
theory StunExchange
  imports StunReader
begin

text \<open>
  The builder and the reader together: a message that the calls of \<open>CStunMessageBuilder\<close>
  wrote, handed to \<open>CStunMessageReader\<close> in any pieces. \<open>feed\<close> and \<open>build_message\<close> are the
  client's loops over \<open>AddBytes\<close> and \<open>AddAttribute\<close>.
\<close>

section \<open>Building and reading a message\<close>

text \<open>A reader fed with a sequence of pieces.\<close>

definition feed :: "CStunMessageReader \<Rightarrow> bytes list \<Rightarrow> CStunMessageReader" where
  "feed r chunks = foldl (\<lambda>r bs. snd (MR_AddBytes r bs)) r chunks"

lemma feed_ok: "reader_ok al c r \<Longrightarrow> reader_ok al (c @ concat chunks) (feed r chunks)"
proof (induction chunks arbitrary: c r)
  case (Cons bs chunks)
  then show ?case
    using Cons.IH [of "c @ bs" "snd (MR_AddBytes r bs)"] AddBytes_ok by (simp add: feed_def)
qed (simp add: feed_def)

lemma feed_parsed:
  assumes "spec_state True c = BodyValidated" "concat chunks = c"
  shows "parsed (feed MR_init chunks) c"
  using feed_ok [OF MR_init_ok, of chunks] assms reader_ok_state by (fastforce simp: parsed_def)

lemma feed_fields:
  assumes "concat chunks = c" "spec_state True c = BodyValidated"
  shows "header_fields c (feed MR_init chunks)"
  using feed_ok [OF MR_init_ok, of chunks] assms reader_valid [of True c "feed MR_init chunks"]
    reader_ok_state by (metis append_Nil)

text \<open>A message built attribute by attribute.\<close>

fun add_attributes :: "CStunMessageBuilder \<Rightarrow> (u16 \<times> bytes) list \<Rightarrow> hresult \<times> CStunMessageBuilder" where
  "add_attributes b [] = (S_OK, b)"
| "add_attributes b ((t, d) # ads) =
     chk (AddAttribute b t (Some d) (word_of_nat (length d))) (\<lambda>b. add_attributes b ads)"

definition start_message :: "bool \<Rightarrow> u16 \<Rightarrow> StunMessageClass \<Rightarrow> StunTransactionId \<Rightarrow> hresult \<times> CStunMessageBuilder" where
  "start_message l ty cls tid =
     chk (AddHeader (SetLegacyMode CStunMessageBuilder_init l) ty cls) (\<lambda>b. AddTransactionId b tid)"

text \<open>The bytes that \<open>GetResult\<close> hands out after a call, if it succeeded.\<close>

definition result_bytes :: "hresult \<times> CStunMessageBuilder \<Rightarrow> bytes option" where
  "result_bytes r =
     (if FAILED (fst r) then None
      else case GetResult (snd r) of (hr, buf, b) \<Rightarrow> if FAILED hr then None else map_option cb_contents buf)"

lemma start_message_ok:
  assumes tid: "length tid = 16"
  shows "\<exists>hr b. start_message l ty cls tid = (hr, b) \<and> \<not> FAILED hr \<and> mb.at_end l tid b \<and>
    mb_contents b = be16 (header_type ty cls) @ be16 0 @ tid"
proof -
  let ?b = "SetLegacyMode CStunMessageBuilder_init l"
  have b0: "mb.at_end l (zero_bytes 16) ?b" "mb_contents ?b = []"
    by (simp_all add: mb.at_end_def mb_ok_def mb_contents_def SetLegacyMode_def CStunMessageBuilder_init_def)
  obtain hr1 b1 where h: "AddHeader ?b ty cls = (hr1, b1)"
    by fastforce
  have b1: "\<not> FAILED hr1" "mb.at_end l (zero_bytes 16) b1" "mb_contents b1 = be16 (header_type ty cls) @ be16 0"
    using AddHeader_appends [OF b0(1), of ty cls] b0(2) by (simp_all add: h mb.appends_def)
  obtain hr2 b2 where t: "AddTransactionId b1 tid = (hr2, b2)"
    by fastforce
  have "tid \<noteq> []"
    using tid by auto
  then have "\<not> FAILED hr2" "mb.at_end l tid b2" "mb_contents b2 = mb_contents b1 @ tid"
    using AddTransactionId_keeps [OF b1(2), of tid] by (simp_all add: t mb.keeps_def mb.appends_def mb_contents_def)
  then show ?thesis
    using h t b1 by (simp add: start_message_def)
qed

lemma add_attributes_keeps:
  "mb.at_end l t b \<Longrightarrow> \<forall>(t, d)\<in>set ads. length d < 2 ^ 16 \<Longrightarrow>
   mb.keeps l t (add_attributes b ads) b (attrs_wire l ads)"
proof (induction ads arbitrary: b)
  case Nil
  then show ?case
    using mb.keeps_refl by (simp add: attrs_wire_def)
next
  case (Cons x ads)
  obtain ty d where x: "x = (ty, d)"
    by fastforce
  have "mb.keeps l t (add_attributes b (x # ads)) b (attr_wire l ty d @ attrs_wire l ads)"
    unfolding x add_attributes.simps using Cons.prems(2)
    by (intro mb.keeps_chk AddAttribute_keeps Cons.prems(1) Cons.IH) (auto simp: x)
  then show ?case
    by (simp add: x attrs_wire_def)
qed

lemma result_bytes_ok:
  assumes r: "rewritten l t r b (be16 (header_type ty cls) @ be16 n @ tid @ attrs_wire l ads)"
    and tid: "length tid = 16"
  shows "result_bytes r = Some (msg_wire l ty cls tid ads)"
proof -
  have b: "\<not> FAILED (fst r)" "mb.at_end l t (snd r)"
    "mb_contents (snd r) = be16 (header_type ty cls) @ be16 n @ tid @ attrs_wire l ads"
    using r by (simp_all add: rewritten_def)
  have "fix_length (mb_contents (snd r)) = msg_wire l ty cls tid ads"
    using tid by (simp add: b(3) fix_length_def splice_at_def msg_wire_def)
  moreover have "20 \<le> length (mb_contents (snd r))"
    using tid by (simp add: b(3))
  ultimately show ?thesis
    using GetResult_ok [OF b(2)] b(1) by (fastforce simp: result_bytes_def)
qed

text \<open>A message with attributes, and then one more call.\<close>

definition build_message :: "bool \<Rightarrow> u16 \<Rightarrow> StunMessageClass \<Rightarrow> StunTransactionId \<Rightarrow> (u16 \<times> bytes) list
    \<Rightarrow> hresult \<times> CStunMessageBuilder" where
  "build_message l ty cls tid ads = chk (start_message l ty cls tid) (\<lambda>b. add_attributes b ads)"

lemma build_message_ok:
  assumes tid: "length tid = 16" and v: "values_ok l ads"
  shows "\<exists>hr b. build_message l ty cls tid ads = (hr, b) \<and> \<not> FAILED hr \<and> mb.at_end l tid b \<and>
    mb_contents b = be16 (header_type ty cls) @ be16 0 @ tid @ attrs_wire l ads"
proof -
  obtain hr b where b: "start_message l ty cls tid = (hr, b)" "\<not> FAILED hr" "mb.at_end l tid b"
    "mb_contents b = be16 (header_type ty cls) @ be16 0 @ tid"
    using start_message_ok [OF tid] by metis
  have "\<forall>(t, d)\<in>set ads. length d < 2 ^ 16"
  proof (clarify)
    fix t d
    assume "(t, d) \<in> set ads"
    then have "length (wire_value l d) \<le> 780"
      using v by (auto simp: values_ok_def list_all_iff stun_consts)
    then show "length d < 2 ^ 16"
      by (simp add: wire_value_def split: if_splits)
  qed
  from add_attributes_keeps [OF b(3) this] b show ?thesis
    by (cases "add_attributes b ads") (simp add: build_message_def mb.keeps_def mb.appends_def)
qed

text \<open>What the accessors return on a message that was built.\<close>

lemma last_value_msg_wire:
  assumes "length tid = 16" "values_ok l ads"
  shows "last_value (msg_wire l ty cls tid ads) t = map_option (wire_value l) (map_of (rev ads) t)"
  unfolding last_value_def using msg_wire_valid(2) [OF assms, of True] by (simp add: rev_map map_of_map)

lemma GetString_parsed:
  assumes p: "parsed r c"
  shows "MR_GetStringAttributeByType r t n =
    (case last_value c t of None \<Rightarrow> (E_INVALIDARG, None)
     | Some v \<Rightarrow> if length v \<ge> n then (E_INVALIDARG, None) else (S_OK, Some v))"
proof (cases "last_value c t")
  case None
  then show ?thesis
    using parsed_lookup(1) [OF p None] by (simp add: MR_GetStringAttributeByType_def)
next
  case (Some v)
  then show ?thesis
    using parsed_lookup(2) [OF p Some] by (auto simp: MR_GetStringAttributeByType_def)
qed

lemma built_parsed:
  assumes "length tid = 16" "values_ok l ads" "concat chunks = msg_wire l ty cls tid ads"
    "cls \<noteq> StunMsgClassInvalidMessageClass"
  defines "r \<equiv> feed MR_init chunks"
  shows "parsed r (msg_wire l ty cls tid ads)" "MR_GetState r = BodyValidated"
    "MR_GetMessageClass r = cls" "MR_GetMessageType r = ty AND 0x0fff" "MR_GetTransactionId r = tid"
    "MR_IsMessageLegacyFormat r \<longleftrightarrow> take 4 tid \<noteq> be32 STUN_COOKIE"
proof -
  let ?c = "msg_wire l ty cls tid ads"
  have sp: "spec_state True ?c = BodyValidated"
    using msg_wire_valid(1) [OF assms(1,2), of True] by simp
  then show p: "parsed r ?c"
    unfolding r_def by (intro feed_parsed assms)
  have len: "length (attrs_wire l ads) \<le> MAX_STUN_MESSAGE_SIZE"
    using assms(2) by (simp add: values_ok_def)
  have h: "header_fields ?c r"
    unfolding r_def by (rule feed_fields [OF assms(3) sp])
  note f = msg_wire_fields [OF assms(1) len, of ty cls]
  show "MR_GetState r = BodyValidated" "MR_GetMessageClass r = cls" "MR_GetMessageType r = ty AND 0x0fff"
    "MR_GetTransactionId r = tid"
    using p h f assms(4) by (simp_all add: MR_GetState_def parsed_def MR_GetMessageClass_def
        MR_GetMessageType_def MR_GetTransactionId_def header_fields_def class_header_type normalized_header_type)
  have "of_be32 (take 4 tid) = STUN_COOKIE \<longleftrightarrow> take 4 tid = be32 STUN_COOKIE"
    using be32_of_be32 [of "take 4 tid"] assms(1) by auto
  then show "MR_IsMessageLegacyFormat r \<longleftrightarrow> take 4 tid \<noteq> be32 STUN_COOKIE"
    using h f by (simp add: MR_IsMessageLegacyFormat_def header_fields_def msg_legacy_def)
qed

section \<open>Fingerprint and integrity on built messages\<close>

lemma attrs_wire_snoc: "attrs_wire l (ads @ [(t, d)]) = attrs_wire l ads @ attr_wire l t d"
  by (simp add: attrs_wire_def)

lemma attr_wire_aligned: "length d mod 4 = 0 \<Longrightarrow> attr_wire l t d = be16 t @ be16 (word_of_nat (length d)) @ d"
  by (simp add: attr_wire_def padding_of_simps)

lemma wire_value_aligned: "length d mod 4 = 0 \<Longrightarrow> wire_value l d = d"
  by (simp add: wire_value_def padding_of_simps)

lemma fix_length_take:
  assumes "length tid = 16" "length c = 20 + length (attrs_wire l ads)"
    "c = be16 (header_type ty cls) @ be16 n @ tid @ attrs_wire l ads"
  shows "take (length c) (fix_length (c @ zero_bytes k)) =
    be16 (header_type ty cls) @ be16 (word_of_nat (length (attrs_wire l ads) + k)) @ tid @ attrs_wire l ads"
  using assms(1) by (simp add: assms(3) fix_length_def splice_at_def)

lemma add_fingerprint_wire:
  assumes tid: "length tid = 16"
    and c: "c = be16 (header_type ty cls) @ be16 n @ tid @ attrs_wire l ads"
  shows "\<exists>v. add_fingerprint crc c = msg_wire l ty cls tid (ads @ [(STUN_ATTRIBUTE_FINGERPRINT, be32 v)]) \<and>
    v = crc (take (length c) (add_fingerprint crc c)) XOR STUN_FINGERPRINT_XOR"
proof -
  let ?m = "take (length c) (fix_length (c @ zero_bytes 8))"
  have m: "?m = be16 (header_type ty cls) @ be16 (word_of_nat (length (attrs_wire l ads) + 8)) @ tid @ attrs_wire l ads"
    using tid by (intro fix_length_take [OF tid _ c]) (simp add: c)
  then have lm: "length ?m = length c"
    by (simp add: c)
  have "attr_wire l STUN_ATTRIBUTE_FINGERPRINT (be32 v) = be16 STUN_ATTRIBUTE_FINGERPRINT @ be16 4 @ be32 v" for v
    by (simp add: attr_wire_aligned)
  then have "add_fingerprint crc c = msg_wire l ty cls tid
      (ads @ [(STUN_ATTRIBUTE_FINGERPRINT, be32 (crc ?m XOR STUN_FINGERPRINT_XOR))])"
    unfolding add_fingerprint_def Let_def msg_wire_def attrs_wire_snoc by (simp add: m)
  moreover have "take (length c) (add_fingerprint crc c) = ?m"
    using lm by (simp add: add_fingerprint_def Let_def)
  ultimately show ?thesis
    by auto
qed

lemma add_integrity_wire:
  assumes tid: "length tid = 16" and h: "hmac_ok hmac"
    and c: "c = be16 (header_type ty cls) @ be16 n @ tid @ attrs_wire l ads"
  shows "\<exists>v. add_integrity hmac key c = msg_wire l ty cls tid (ads @ [(STUN_ATTRIBUTE_MESSAGEINTEGRITY, v)]) \<and>
    v = hmac key (take (length c) (add_integrity hmac key c)) \<and> length v = 20"
proof -
  let ?m = "take (length c) (fix_length (c @ zero_bytes 24))"
  have m: "?m = be16 (header_type ty cls) @ be16 (word_of_nat (length (attrs_wire l ads) + 24)) @ tid @ attrs_wire l ads"
    using tid by (intro fix_length_take [OF tid _ c]) (simp add: c)
  then have lm: "length ?m = length c"
    by (simp add: c)
  have hl: "length (hmac key ?m) = 20"
    using h by (simp add: hmac_ok_def)
  then have "attr_wire l STUN_ATTRIBUTE_MESSAGEINTEGRITY (hmac key ?m)
      = be16 STUN_ATTRIBUTE_MESSAGEINTEGRITY @ be16 20 @ hmac key ?m"
    by (simp add: attr_wire_aligned)
  then have "add_integrity hmac key c = msg_wire l ty cls tid
      (ads @ [(STUN_ATTRIBUTE_MESSAGEINTEGRITY, hmac key ?m)])"
    unfolding add_integrity_def Let_def msg_wire_def attrs_wire_snoc using hl by (simp add: m)
  moreover have "take (length c) (add_integrity hmac key c) = ?m"
    using lm by (simp add: add_integrity_def Let_def)
  ultimately show ?thesis
    using hl by auto
qed

text \<open>The message after the calls, as \<open>GetResult\<close> hands it out.\<close>

lemma chk_pair: "r = (hr, b) \<Longrightarrow> \<not> FAILED hr \<Longrightarrow> chk r k = k b"
  by simp

lemma fingerprint_result:
  assumes tid: "length tid = 16" and v: "values_ok l ads"
    and r: "rewritten l tid r b (be16 (header_type ty cls) @ be16 n @ tid @ attrs_wire l ads)"
  shows "\<exists>w c. result_bytes (chk r (AddFingerprintAttribute crc)) = Some c \<and>
    c = msg_wire l ty cls tid (ads @ [(STUN_ATTRIBUTE_FINGERPRINT, be32 w)]) \<and>
    w = crc (take (length c - 8) c) XOR STUN_FINGERPRINT_XOR"
proof -
  obtain hr b' where b: "r = (hr, b')" "\<not> FAILED hr" "mb.at_end l tid b'"
    "mb_contents b' = be16 (header_type ty cls) @ be16 n @ tid @ attrs_wire l ads"
    using r by (cases r) (simp add: rewritten_def)
  let ?c = "mb_contents b'"
  have len: "20 \<le> length ?c" "length ?c < 2 ^ 32"
    using b(4) tid v by (simp_all add: values_ok_def stun_consts)
  obtain w where w: "add_fingerprint crc ?c = msg_wire l ty cls tid (ads @ [(STUN_ATTRIBUTE_FINGERPRINT, be32 w)])"
    "w = crc (take (length ?c) (add_fingerprint crc ?c)) XOR STUN_FINGERPRINT_XOR"
    using add_fingerprint_wire [OF tid b(4)] by blast
  have "rewritten l tid (AddFingerprintAttribute crc b') b' (be16 (header_type ty cls)
      @ be16 (word_of_nat (length (attrs_wire l (ads @ [(STUN_ATTRIBUTE_FINGERPRINT, be32 w)]))))
      @ tid @ attrs_wire l (ads @ [(STUN_ATTRIBUTE_FINGERPRINT, be32 w)]))"
    using add_fingerprint_rewritten [OF b(3) len, of crc] w(1) by (simp add: msg_wire_def)
  from result_bytes_ok [OF this tid]
  have "result_bytes (AddFingerprintAttribute crc b') = Some (add_fingerprint crc ?c)"
    by (simp add: w(1))
  moreover have "length (add_fingerprint crc ?c) - 8 = length ?c"
    using len by (simp add: add_fingerprint_def Let_def)
  ultimately have "result_bytes (chk r (AddFingerprintAttribute crc)) = Some (add_fingerprint crc ?c)"
    "w = crc (take (length (add_fingerprint crc ?c) - 8) (add_fingerprint crc ?c)) XOR STUN_FINGERPRINT_XOR"
    using w(2) by (simp_all only: chk_pair [OF b(1,2)])
  with w(1) show ?thesis
    by blast
qed

lemma integrity_rewritten:
  assumes tid: "length tid = 16" and h: "hmac_ok hmac" and key: "key \<noteq> []"
    and b: "mb.at_end l tid b" "mb_contents b = be16 (header_type ty cls) @ be16 n @ tid @ attrs_wire l ads"
  shows "\<exists>v. rewritten l tid (AddMessageIntegrityImpl hmac b (Some key)) b
      (msg_wire l ty cls tid (ads @ [(STUN_ATTRIBUTE_MESSAGEINTEGRITY, v)])) \<and> length v = 20 \<and>
    v = hmac key (take (length (msg_wire l ty cls tid (ads @ [(STUN_ATTRIBUTE_MESSAGEINTEGRITY, v)])) - 24)
      (msg_wire l ty cls tid (ads @ [(STUN_ATTRIBUTE_MESSAGEINTEGRITY, v)])))"
proof -
  let ?c = "mb_contents b"
  have len: "20 \<le> length ?c"
    using b(2) tid by simp
  obtain v where v: "add_integrity hmac key ?c = msg_wire l ty cls tid (ads @ [(STUN_ATTRIBUTE_MESSAGEINTEGRITY, v)])"
    "v = hmac key (take (length ?c) (add_integrity hmac key ?c))" "length v = 20"
    using add_integrity_wire [OF tid h b(2)] by blast
  have "length (add_integrity hmac key ?c) - 24 = length ?c"
    using len h by (simp add: add_integrity_def Let_def hmac_ok_def)
  then have "v = hmac key (take (length (add_integrity hmac key ?c) - 24) (add_integrity hmac key ?c))"
    using v(2) by simp
  note e = this
  show ?thesis
  proof (intro exI conjI)
    show "rewritten l tid (AddMessageIntegrityImpl hmac b (Some key)) b
      (msg_wire l ty cls tid (ads @ [(STUN_ATTRIBUTE_MESSAGEINTEGRITY, v)]))"
      using AddMessageIntegrityImpl_rewritten [OF b(1) len key h] unfolding v(1) .
    show "v = hmac key (take (length (msg_wire l ty cls tid (ads @ [(STUN_ATTRIBUTE_MESSAGEINTEGRITY, v)])) - 24)
      (msg_wire l ty cls tid (ads @ [(STUN_ATTRIBUTE_MESSAGEINTEGRITY, v)])))"
      using e unfolding v(1) .
  qed (rule v(3))
qed

lemma integrity_text_built:
  fixes l ty cls and ads :: "(u16 \<times> bytes) list"
  assumes tid: "length tid = 16" and h: "length h = 20" and f: "length f = 4"
  defines "c1 \<equiv> msg_wire l ty cls tid (ads @ [(STUN_ATTRIBUTE_MESSAGEINTEGRITY, h)])"
    and "c \<equiv> msg_wire l ty cls tid (ads @ [(STUN_ATTRIBUTE_MESSAGEINTEGRITY, h), (STUN_ATTRIBUTE_FINGERPRINT, f)])"
  shows "take 2 c @ be16 (msg_len c - 8) @ segment c 4 (length c - 36) = take (length c1 - 24) c1"
proof -
  let ?A = "attrs_wire l ads"
  have w: "attr_wire l STUN_ATTRIBUTE_MESSAGEINTEGRITY h = be16 STUN_ATTRIBUTE_MESSAGEINTEGRITY @ be16 20 @ h"
    "attr_wire l STUN_ATTRIBUTE_FINGERPRINT f = be16 STUN_ATTRIBUTE_FINGERPRINT @ be16 4 @ f"
    using h f by (simp_all add: attr_wire_aligned)
  have c1: "c1 = be16 (header_type ty cls) @ be16 (word_of_nat (length ?A + 24)) @ tid @ ?A
      @ be16 STUN_ATTRIBUTE_MESSAGEINTEGRITY @ be16 20 @ h"
    unfolding c1_def msg_wire_def attrs_wire_snoc w using h by simp
  have "attrs_wire l (ads @ [(STUN_ATTRIBUTE_MESSAGEINTEGRITY, h), (STUN_ATTRIBUTE_FINGERPRINT, f)])
      = ?A @ (be16 STUN_ATTRIBUTE_MESSAGEINTEGRITY @ be16 20 @ h) @ be16 STUN_ATTRIBUTE_FINGERPRINT @ be16 4 @ f"
    unfolding w [symmetric] by (simp add: attrs_wire_def w(2))
  then have c: "c = be16 (header_type ty cls) @ be16 (word_of_nat (length ?A + 32)) @ tid @ ?A
      @ (be16 STUN_ATTRIBUTE_MESSAGEINTEGRITY @ be16 20 @ h) @ be16 STUN_ATTRIBUTE_FINGERPRINT @ be16 4 @ f"
    unfolding c_def msg_wire_def using h f by simp
  have "segment c 2 2 = be16 (word_of_nat (length ?A + 32))"
    unfolding c by (simp add: segment_def)
  then have ml: "msg_len c = word_of_nat (length ?A + 32)"
    unfolding msg_len_def by (simp only: of_be16_be16_nil)
  have "segment c 4 (length c - 36) = tid @ ?A"
    using tid h f unfolding c by (simp add: segment_def)
  moreover have "take 2 c = be16 (header_type ty cls)"
    unfolding c by simp
  moreover have "take (length c1 - 24) c1 = be16 (header_type ty cls) @ be16 (word_of_nat (length ?A + 24)) @ tid @ ?A"
    using h tid unfolding c1 by simp
  ultimately show ?thesis
    unfolding ml by (simp add: add.commute)
qed

section \<open>A message in a buffer of its own\<close>

text \<open>
  \<open>message_in l ty cls tid cap ads b\<close>: the builder holds the message with the attributes \<open>ads\<close>,
  its length field not yet fixed, in the buffer of \<open>cap\<close> bytes it was attached to.
\<close>

definition placed :: "bool \<Rightarrow> StunTransactionId \<Rightarrow> nat \<Rightarrow> bytes \<Rightarrow> CStunMessageBuilder \<Rightarrow> bool" where
  "placed l t cap c b \<longleftrightarrow> mb.at_end l t b \<and> mb_contents b = c \<and> mb_in_place b \<and> mb_room b = cap"

definition message_in :: "bool \<Rightarrow> u16 \<Rightarrow> StunMessageClass \<Rightarrow> StunTransactionId \<Rightarrow> nat
    \<Rightarrow> (u16 \<times> bytes) list \<Rightarrow> CStunMessageBuilder \<Rightarrow> bool" where
  "message_in l ty cls tid cap ads b \<longleftrightarrow>
     (\<exists>n. placed l tid cap (be16 (header_type ty cls) @ be16 n @ tid @ attrs_wire l ads) b)"

lemma placed_keeps:
  assumes b: "placed l t cap c b" and k: "mb.keeps l t r b bs" and n: "length (c @ bs) \<le> cap"
  shows "placed l t cap (c @ bs) (snd r)"
  using assms by (auto simp: placed_def mb.keeps_def mb.appends_def)

lemma placed_rewritten:
  assumes b: "placed l t cap c b" and r: "rewritten l t r b d" and n: "length d \<le> cap"
  shows "placed l t cap d (snd r)"
  using assms by (auto simp: placed_def rewritten_def)

lemma message_in_add:
  assumes b: "message_in l ty cls tid cap ads b" and k: "mb.keeps l tid r b (attr_wire l t d)"
    and n: "20 + length (attrs_wire l (ads @ [(t, d)])) \<le> cap" "length tid = 16"
  shows "message_in l ty cls tid cap (ads @ [(t, d)]) (snd r)"
proof -
  obtain n' where "placed l tid cap (be16 (header_type ty cls) @ be16 n' @ tid @ attrs_wire l ads) b"
    using b by (auto simp: message_in_def)
  from placed_keeps [OF this k] n show ?thesis
    by (auto simp: message_in_def attrs_wire_snoc)
qed

lemma message_in_at_end: "message_in l ty cls tid cap ads b \<Longrightarrow> mb.at_end l tid b"
  by (auto simp: message_in_def placed_def)

lemma placed_start:
  assumes a: "placed l t0 cap [] b0" "200 \<le> cap" and tid: "length tid = 16"
  shows "message_in l ty cls tid cap [] (snd (AddTransactionId (snd (AddHeader b0 ty cls)) tid))"
proof -
  let ?b = "snd (AddHeader b0 ty cls)"
  have "mb.keeps l t0 (AddHeader b0 ty cls) b0 (be16 (header_type ty cls) @ be16 0)"
    using a by (intro AddHeader_keeps) (simp_all add: placed_def)
  from placed_keeps [OF a(1) this] have b: "placed l t0 cap (be16 (header_type ty cls) @ be16 0) ?b"
    using a(2) by simp
  have "tid \<noteq> []"
    using tid by auto
  then have k: "mb.keeps l tid (AddTransactionId ?b tid) (?b\<lparr>mb_transactionid := tid\<rparr>) tid"
    using b by (intro AddTransactionId_keeps) (auto simp: placed_def)
  have "placed l tid cap (be16 (header_type ty cls) @ be16 0) (?b\<lparr>mb_transactionid := tid\<rparr>)"
    using b by (simp add: placed_def mb.at_end_def mb_ok_def mb_contents_def)
  from placed_keeps [OF this k] a(2) tid show ?thesis
    by (auto simp: message_in_def attrs_wire_def intro!: exI [of _ 0])
qed

lemma finish_response:
  assumes b: "message_in l ty cls tid cap ads b" and n: "20 + length (attrs_wire l ads) \<le> cap" "length tid = 16"
  shows "placed l tid cap (msg_wire l ty cls tid ads) (snd (FixLengthField b))"
proof -
  obtain n' where p: "placed l tid cap (be16 (header_type ty cls) @ be16 n' @ tid @ attrs_wire l ads) b"
    using b by (auto simp: message_in_def)
  then have "rewritten l tid (FixLengthField b) b (fix_length (mb_contents b))"
    using n by (intro FixLengthField_rewritten) (auto simp: placed_def)
  moreover have "fix_length (mb_contents b) = msg_wire l ty cls tid ads"
    using p n(2) by (simp add: placed_def fix_length_def splice_at_def msg_wire_def)
  ultimately show ?thesis
    using placed_rewritten [OF p] n by (simp add: msg_wire_def)
qed

lemma message_in_wire: "placed l tid cap (msg_wire l ty cls tid ads) b \<Longrightarrow> message_in l ty cls tid cap ads b"
  by (auto simp: message_in_def msg_wire_def)

text \<open>A client that has received \<open>m\<close>, in whatever pieces, has a validated message with \<open>P\<close>.\<close>

definition client_sees :: "bytes \<Rightarrow> (CStunMessageReader \<Rightarrow> bool) \<Rightarrow> bool" where
  "client_sees m P \<longleftrightarrow> (\<forall>chunks. concat chunks = m \<longrightarrow>
     MR_GetState (feed MR_init chunks) = BodyValidated \<and> P (feed MR_init chunks))"

definition response_header :: "u16 \<Rightarrow> StunMessageClass \<Rightarrow> StunTransactionId \<Rightarrow> CStunMessageReader \<Rightarrow> bool" where
  "response_header ty cls tid r \<longleftrightarrow> MR_GetMessageType r = ty \<and> MR_GetMessageClass r = cls \<and> MR_GetTransactionId r = tid"

lemma client_sees_wire:
  assumes v: "length tid = 16" "values_ok l ads" "cls \<noteq> StunMsgClassInvalidMessageClass" "ty AND 0x0fff = ty"
    and P: "\<And>r. parsed r (msg_wire l ty cls tid ads) \<Longrightarrow> response_header ty cls tid r \<Longrightarrow>
      (\<And>t. last_value (msg_wire l ty cls tid ads) t = map_option (wire_value l) (map_of (rev ads) t)) \<Longrightarrow> P r"
  shows "client_sees (msg_wire l ty cls tid ads) P"
  unfolding client_sees_def
proof (intro allI impI)
  fix chunks
  assume ch: "concat chunks = msg_wire l ty cls tid ads"
  note b = built_parsed [OF v(1,2) ch v(3)]
  show "MR_GetState (feed MR_init chunks) = BodyValidated \<and> P (feed MR_init chunks)"
    using b v(4) last_value_msg_wire [OF v(1,2), of ty cls] by (auto simp: response_header_def intro!: P)
qed

end
