(* ===== verification/StunHandler.thy ===== *)
theory StunHandler
  imports StunExchange
begin

text \<open>
  \<open>CStunRequestHandler\<close> (\<open>stuncore/messagehandler.h\<close>, \<open>messagehandler.cpp\<close>): from a parsed
  request, the addresses of the server's sockets and an optional authentication provider to
  the response, written into the buffer of the caller. The provider is a function from the
  attributes of the request and the zeroed response to the code and the response that
  \<open>DoAuthCheck\<close> leaves. The members of the handler are the fields of a record; a method that
  assigns to them returns the handler after it. \<open>IsValidSocketRole\<close> holds of every value of
  the enumeration, so its checks have no other branch.
\<close>

section \<open>Types\<close>

record StunMessageIn =
  mi_socketrole :: SocketRole
  mi_addrLocal :: CSocketAddress
  mi_addrRemote :: CSocketAddress
  mi_pReader :: "CStunMessageReader option"
  mi_fConnectionOriented :: bool

record StunMessageOut =
  mo_socketrole :: SocketRole
  mo_addrDest :: CSocketAddress
  mo_spBufferOut :: "cbuffer option"

record StunMessageIntegrity =
  si_fSendWithIntegrity :: bool
  si_fUseLongTerm :: bool
  si_szUser :: bytes
  si_szRealm :: bytes
  si_szPassword :: bytes

record TransportAddress =
  ta_addr :: CSocketAddress
  ta_fValid :: bool

text \<open>The array of the four addresses, indexed by the role.\<close>

type_synonym TransportAddressSet = "SocketRole \<Rightarrow> TransportAddress"

record StunErrorCode =
  se_errorcode :: u16
  se_msgclass :: StunMessageClass
  se_msgtype :: u16
  se_attribUnknown :: u16
  se_szNonce :: bytes
  se_szRealm :: bytes

type_synonym IStunAuth = "AuthAttributes \<Rightarrow> AuthResponse \<Rightarrow> hresult \<times> AuthResponse"

record CStunRequestHandler =
  rh_pAuth :: "IStunAuth option"
  rh_pAddrSet :: "TransportAddressSet option"
  rh_pMsgIn :: StunMessageIn
  rh_pMsgOut :: StunMessageOut
  rh_integrity :: StunMessageIntegrity
  rh_error :: StunErrorCode
  rh_fRequestHasResponsePort :: bool
  rh_transid :: StunTransactionId
  rh_fLegacyMode :: bool

text \<open>The members after the constructor, with the pointers that \<open>ProcessRequest\<close> sets.\<close>

definition CStunRequestHandler_init :: "IStunAuth option \<Rightarrow> TransportAddressSet option \<Rightarrow> StunMessageIn
    \<Rightarrow> StunMessageOut \<Rightarrow> CStunRequestHandler" where
  "CStunRequestHandler_init pAuth pAddrSet msgIn msgOut =
     \<lparr>rh_pAuth = pAuth, rh_pAddrSet = pAddrSet, rh_pMsgIn = msgIn, rh_pMsgOut = msgOut,
      rh_integrity = \<lparr>si_fSendWithIntegrity = False, si_fUseLongTerm = False, si_szUser = [],
        si_szRealm = [], si_szPassword = []\<rparr>,
      rh_error = \<lparr>se_errorcode = 0, se_msgclass = StunMsgClassRequest, se_msgtype = 0,
        se_attribUnknown = 0, se_szNonce = [], se_szRealm = []\<rparr>,
      rh_fRequestHasResponsePort = False, rh_transid = zero_bytes 16, rh_fLegacyMode = False\<rparr>"

text \<open>The C string at the start of an array: the bytes before the first null byte.\<close>

definition c_string :: "bytes \<Rightarrow> bytes" where
  "c_string bs = takeWhile (\<lambda>x. x \<noteq> 0) bs"

definition set_errorcode :: "CStunRequestHandler \<Rightarrow> u16 \<Rightarrow> CStunRequestHandler" where
  "set_errorcode h e = h\<lparr>rh_error := (rh_error h)\<lparr>se_errorcode := e\<rparr>\<rparr>"

abbreviation rh_reader :: "CStunRequestHandler \<Rightarrow> CStunMessageReader" where
  "rh_reader h \<equiv> the (mi_pReader (rh_pMsgIn h))"

section \<open>Addresses\<close>

definition HasAddress :: "CStunRequestHandler \<Rightarrow> SocketRole \<Rightarrow> bool" where
  "HasAddress h role \<longleftrightarrow> (case rh_pAddrSet h of None \<Rightarrow> False | Some addrs \<Rightarrow> ta_fValid (addrs role))"

definition role_addr :: "CStunRequestHandler \<Rightarrow> SocketRole \<Rightarrow> CSocketAddress" where
  "role_addr h role = ta_addr (the (rh_pAddrSet h) role)"

definition IsIPAddressZeroOrInvalid :: "CStunRequestHandler \<Rightarrow> SocketRole \<Rightarrow> bool" where
  "IsIPAddressZeroOrInvalid h role =
     (let fValid = (HasAddress h role \<and> \<not> IsIPAddressZero (role_addr h role)) in \<not> fValid)"

section \<open>Authentication\<close>

text \<open>A string attribute of the request; a failed call leaves the zeroed array.\<close>

definition string_attribute :: "CStunMessageReader \<Rightarrow> u16 \<Rightarrow> bytes" where
  "string_attribute r ty =
     case_option [] id (snd (MR_GetStringAttributeByType r ty (MAX_STUN_AUTH_STRING_SIZE + 1)))"

definition request_auth_attributes :: "CStunMessageReader \<Rightarrow> AuthAttributes" where
  "request_auth_attributes r =
     \<lparr>aa_szUser = string_attribute r STUN_ATTRIBUTE_USERNAME,
      aa_szRealm = string_attribute r STUN_ATTRIBUTE_REALM,
      aa_szNonce = string_attribute r STUN_ATTRIBUTE_NONCE,
      aa_szLegacyPassword = string_attribute r STUN_ATTRIBUTE_LEGACY_PASSWORD,
      aa_fMessageIntegrityPresent = MR_HasMessageIntegrityAttribute r\<rparr>"

definition AuthResponse_zero :: AuthResponse where
  "AuthResponse_zero = \<lparr>ar_responseType = Allow, ar_authCredMech = AuthCredShortTerm,
     ar_szPassword = [], ar_szRealm = [], ar_szNonce = []\<rparr>"

text \<open>The string in a response array after its last byte was set to null.\<close>

definition terminated :: "bytes \<Rightarrow> bytes" where
  "terminated bs = c_string (take MAX_STUN_AUTH_STRING_SIZE bs)"

definition ValidateAuth_conditional :: "(bytes \<Rightarrow> bytes \<Rightarrow> bytes) \<Rightarrow> (bytes \<Rightarrow> bytes) \<Rightarrow> AuthAttributes
    \<Rightarrow> AuthResponse \<Rightarrow> CStunRequestHandler \<Rightarrow> CStunRequestHandler" where
  "ValidateAuth_conditional hmac md5 attrs resp h =
     (let hrRet = (if ar_authCredMech resp = AuthCredLongTerm
           then MR_ValidateMessageIntegrityLong hmac md5 (rh_reader h) (Some (c_string (aa_szUser attrs)))
                  (Some (c_string (aa_szRealm attrs))) (Some (ar_szPassword resp))
           else MR_ValidateMessageIntegrityShort hmac (rh_reader h) (ar_szPassword resp)) in
      if SUCCEEDED hrRet
      then h\<lparr>rh_integrity := \<lparr>si_fSendWithIntegrity = True,
               si_fUseLongTerm = (ar_authCredMech resp = AuthCredLongTerm),
               si_szUser = c_string (aa_szUser attrs), si_szRealm = c_string (aa_szRealm attrs),
               si_szPassword = ar_szPassword resp\<rparr>\<rparr>
      else set_errorcode h STUN_ERROR_UNAUTHORIZED)"

definition ValidateAuth :: "(bytes \<Rightarrow> bytes \<Rightarrow> bytes) \<Rightarrow> (bytes \<Rightarrow> bytes) \<Rightarrow> CStunRequestHandler
    \<Rightarrow> hresult \<times> CStunRequestHandler" where
  "ValidateAuth hmac md5 h =
     (case rh_pAuth h of
        None \<Rightarrow> (S_OK, h)
      | Some DoAuthCheck \<Rightarrow>
        let attrs = request_auth_attributes (rh_reader h);
            (hr, resp) = DoAuthCheck attrs AuthResponse_zero in
        if FAILED hr then (hr, h) else
        let resp = resp\<lparr>ar_szNonce := terminated (ar_szNonce resp), ar_szRealm := terminated (ar_szRealm resp),
                     ar_szPassword := terminated (ar_szPassword resp)\<rparr>;
            h = (case ar_responseType resp of
                   StaleNonce \<Rightarrow> set_errorcode h STUN_ERROR_STALENONCE
                 | Unauthorized \<Rightarrow> set_errorcode h STUN_ERROR_UNAUTHORIZED
                 | Reject \<Rightarrow> set_errorcode h STUN_ERROR_BADREQUEST
                 | Allow \<Rightarrow> h
                 | AllowConditional \<Rightarrow> ValidateAuth_conditional hmac md5 attrs resp h) in
        if se_errorcode (rh_error h) = STUN_ERROR_UNAUTHORIZED \<or> se_errorcode (rh_error h) = STUN_ERROR_STALENONCE
        then (hr, h\<lparr>rh_error := (rh_error h)\<lparr>se_szRealm := ar_szRealm resp, se_szNonce := ar_szNonce resp\<rparr>\<rparr>)
        else (hr, h))"

section \<open>Responses\<close>

text \<open>The builder over the caller's buffer, and the buffer that the caller sees afterwards.\<close>

definition attach_out :: "CStunRequestHandler \<Rightarrow> CStunMessageBuilder" where
  "attach_out h = SetLegacyMode (CStunMessageBuilder_init\<lparr>mb_stream :=
     DS_Attach (mb_stream CStunMessageBuilder_init) (mo_spBufferOut (rh_pMsgOut h)) True\<rparr>) (rh_fLegacyMode h)"

definition attached_buffer :: "CStunMessageBuilder \<Rightarrow> cbuffer option" where
  "attached_buffer b = (case ds_left (mb_stream b) of Some l \<Rightarrow> Some l | None \<Rightarrow> ds_buffer (mb_stream b))"

definition clear_out :: "CStunRequestHandler \<Rightarrow> CStunRequestHandler" where
  "clear_out h = h\<lparr>rh_pMsgOut := (rh_pMsgOut h)\<lparr>mo_spBufferOut :=
     map_option (\<lambda>b. snd (CB_SetSize b 0)) (mo_spBufferOut (rh_pMsgOut h))\<rparr>\<rparr>"

definition store_out :: "CStunRequestHandler \<Rightarrow> CStunMessageBuilder \<Rightarrow> CStunRequestHandler" where
  "store_out h b = h\<lparr>rh_pMsgOut := (rh_pMsgOut h)\<lparr>mo_spBufferOut := attached_buffer b\<rparr>\<rparr>"

definition BuildErrorResponse :: "CStunRequestHandler \<Rightarrow> CStunRequestHandler" where
  "BuildErrorResponse h =
     (let h = clear_out h; e = rh_error h;
          b = attach_out h;
          b = snd (AddHeader b (se_msgtype e) (se_msgclass e));
          b = snd (AddTransactionId b (rh_transid h));
          b = snd (AddErrorCode b (se_errorcode e) (Some [70, 65, 73, 76, 69, 68]));
          b = (if se_errorcode e = STUN_ERROR_UNKNOWNATTRIB \<and> se_attribUnknown e \<noteq> 0
               then snd (AddUnknownAttributes b (Some [se_attribUnknown e]) 1)
               else if se_errorcode e = STUN_ERROR_STALENONCE \<or> se_errorcode e = STUN_ERROR_UNAUTHORIZED
               then (let b = (if se_szNonce e \<noteq> []
                              then snd (AddStringAttribute b STUN_ATTRIBUTE_NONCE (Some (se_szNonce e))) else b) in
                     if se_szRealm e \<noteq> []
                     then snd (AddStringAttribute b STUN_ATTRIBUTE_REALM (Some (se_szRealm e))) else b)
               else b);
          b = snd (FixLengthField b);
          (_, _, b) = GetResult b in
      store_out h b)"

text \<open>
  \<open>ProcessBindingRequest\<close> in the parts of the code: the checks that choose the socket to
  answer from (or set an error), the choice of the two addresses to report, the writing of the
  response.
\<close>

definition choose_output :: "CStunRequestHandler \<Rightarrow> SocketRole option" where
  "choose_output h =
     (let socketOutput = mi_socketrole (rh_pMsgIn h);
          fRequestHasPaddingAttribute = SUCCEEDED (fst (MR_GetPaddingAttributeSize (rh_reader h))) in
      if rh_fRequestHasResponsePort h \<and> fRequestHasPaddingAttribute then None
      else
        let (hrResult, changerequest) = MR_GetChangeRequest (rh_reader h) in
        if SUCCEEDED hrResult \<and> (fChangeIP changerequest \<or> fChangePort changerequest)
        then (let socketOutput = (if fChangeIP changerequest then SocketRoleSwapIP socketOutput else socketOutput);
                  socketOutput = (if fChangePort changerequest then SocketRoleSwapPort socketOutput else socketOutput) in
              if \<not> HasAddress h socketOutput \<or> mi_fConnectionOriented (rh_pMsgIn h) then None
              else Some socketOutput)
        else Some socketOutput)"

definition other_address :: "CStunRequestHandler \<Rightarrow> CSocketAddress option" where
  "other_address h =
     (let fSendOtherAddress = (HasAddress h RolePP \<and> HasAddress h RolePA \<and> HasAddress h RoleAP \<and> HasAddress h RoleAA) in
      if fSendOtherAddress
      then (let socketOther = SocketRoleSwapIP (SocketRoleSwapPort (mi_socketrole (rh_pMsgIn h))) in
            if IsIPAddressZeroOrInvalid h socketOther then None else Some (role_addr h socketOther))
      else None)"

definition origin_address :: "CStunRequestHandler \<Rightarrow> SocketRole \<Rightarrow> CSocketAddress option" where
  "origin_address h socketOutput =
     (let addrOrigin = role_addr h socketOutput;
          addrOrigin = (if IsIPAddressZero addrOrigin \<and> socketOutput = mi_socketrole (rh_pMsgIn h)
                        then mi_addrLocal (rh_pMsgIn h) else addrOrigin) in
      if IsIPAddressZero addrOrigin then None else Some addrOrigin)"

definition add_optional :: "(CStunMessageBuilder \<Rightarrow> CSocketAddress \<Rightarrow> hresult \<times> CStunMessageBuilder)
    \<Rightarrow> CStunMessageBuilder \<Rightarrow> CSocketAddress option \<Rightarrow> CStunMessageBuilder" where
  "add_optional add b x = (case x of None \<Rightarrow> b | Some a \<Rightarrow> snd (add b a))"

definition ProcessBindingRequest :: "(bytes \<Rightarrow> bytes \<Rightarrow> bytes) \<Rightarrow> (bytes \<Rightarrow> bytes) \<Rightarrow> CStunRequestHandler
    \<Rightarrow> hresult \<times> CStunRequestHandler" where
  "ProcessBindingRequest hmac md5 h =
     (let h = clear_out h; b = attach_out h in
      case choose_output h of
        None \<Rightarrow> (E_FAIL, store_out (set_errorcode h STUN_ERROR_BADREQUEST) b)
      | Some socketOutput \<Rightarrow>
        let addrOther = other_address h; addrOrigin = origin_address h socketOutput;
            h = h\<lparr>rh_pMsgOut := (rh_pMsgOut h)\<lparr>mo_socketrole := socketOutput\<rparr>\<rparr>;
            b = snd (AddHeader b StunMsgTypeBinding StunMsgClassSuccessResponse);
            b = snd (AddTransactionId b (rh_transid h));
            b = snd (AddMappedAddress b (mi_addrRemote (rh_pMsgIn h)));
            b = add_optional AddResponseOriginAddress b addrOrigin;
            b = add_optional AddOtherAddress b addrOther;
            b = snd (AddXorMappedAddress b (mi_addrRemote (rh_pMsgIn h)));
            i = rh_integrity h;
            b = (if si_fSendWithIntegrity i
                 then if \<not> si_fUseLongTerm i then snd (AddMessageIntegrityShortTerm hmac b (si_szPassword i))
                      else snd (AddMessageIntegrityLongTerm hmac md5 b (Some (si_szUser i)) (Some (si_szRealm i))
                                  (Some (si_szPassword i)))
                 else b);
            b = snd (FixLengthField b) in
        (S_OK, store_out h b))"

section \<open>Requests\<close>

definition honour_response_port :: "CStunRequestHandler \<Rightarrow> CStunRequestHandler" where
  "honour_response_port h =
     (let responseport = case_option 0 id (snd (MR_GetResponsePort (rh_reader h))) in
      if responseport \<noteq> 0
      then (let h = h\<lparr>rh_fRequestHasResponsePort := True\<rparr> in
            if mi_fConnectionOriented (rh_pMsgIn h) then set_errorcode h STUN_ERROR_BADREQUEST
            else h\<lparr>rh_pMsgOut := (rh_pMsgOut h)\<lparr>mo_addrDest :=
                     SetPort (mo_addrDest (rh_pMsgOut h)) responseport\<rparr>\<rparr>)
      else h)"

text \<open>A step that runs when no error is set; its failure sets a generic error.\<close>

definition unless_error :: "(CStunRequestHandler \<Rightarrow> hresult \<times> CStunRequestHandler)
    \<Rightarrow> CStunRequestHandler \<Rightarrow> CStunRequestHandler" where
  "unless_error step h =
     (if se_errorcode (rh_error h) = 0
      then (let (hrResult, h) = step h in
            if FAILED hrResult \<and> se_errorcode (rh_error h) = 0 then set_errorcode h STUN_ERROR_BADREQUEST else h)
      else h)"

definition ProcessRequestImpl :: "(bytes \<Rightarrow> bytes \<Rightarrow> bytes) \<Rightarrow> (bytes \<Rightarrow> bytes) \<Rightarrow> CStunRequestHandler
    \<Rightarrow> hresult \<times> CStunRequestHandler" where
  "ProcessRequestImpl hmac md5 h =
     (let reader = rh_reader h in
      if MR_GetMessageClass reader \<noteq> StunMsgClassRequest then (E_FAIL, h)
      else
        let h = h\<lparr>rh_error := (rh_error h)\<lparr>se_msgtype := MR_GetMessageType reader,
                   se_msgclass := StunMsgClassFailureResponse\<rparr>,
                  rh_transid := MR_GetTransactionId reader,
                  rh_fLegacyMode := MR_IsMessageLegacyFormat reader\<rparr>;
            h = honour_response_port h;
            h = (if se_errorcode (rh_error h) = 0 \<and> MR_GetMessageType reader \<noteq> StunMsgTypeBinding
                 then set_errorcode h STUN_ERROR_BADREQUEST else h);
            h = unless_error (ValidateAuth hmac md5) h;
            h = unless_error (ProcessBindingRequest hmac md5) h in
        (S_OK, if se_errorcode (rh_error h) \<noteq> 0 then BuildErrorResponse h else h))"

text \<open>The code and the outgoing message that the caller finds in \<open>msgOut\<close>.\<close>

definition ProcessRequest :: "(bytes \<Rightarrow> bytes \<Rightarrow> bytes) \<Rightarrow> (bytes \<Rightarrow> bytes) \<Rightarrow> StunMessageIn \<Rightarrow> StunMessageOut
    \<Rightarrow> TransportAddressSet option \<Rightarrow> IStunAuth option \<Rightarrow> hresult \<times> StunMessageOut" where
  "ProcessRequest hmac md5 msgIn msgOut pAddressSet pAuth =
     (case (mi_pReader msgIn, mo_spBufferOut msgOut) of
        (Some reader, Some buf) \<Rightarrow>
          if cb_allocated buf < MAX_STUN_MESSAGE_SIZE then (E_INVALIDARG, msgOut)
          else if pAddressSet = None then (E_INVALIDARG, msgOut)
          else if MR_GetState reader \<noteq> BodyValidated then (E_UNEXPECTED, msgOut)
          else
            let msgOut = msgOut\<lparr>mo_spBufferOut := Some (snd (CB_SetSize buf 0)),
                   mo_socketrole := mi_socketrole msgIn, mo_addrDest := mi_addrRemote msgIn\<rparr>;
                (hr, h) = ProcessRequestImpl hmac md5
                  (CStunRequestHandler_init pAuth pAddressSet msgIn msgOut) in
            (hr, rh_pMsgOut h)
      | _ \<Rightarrow> (E_INVALIDARG, msgOut))"

section \<open>What the responses hold\<close>

text \<open>A handler whose output buffer can take a response, and one whose output buffer holds \<open>c\<close>.\<close>

definition out_ready :: "nat \<Rightarrow> CStunRequestHandler \<Rightarrow> bool" where
  "out_ready cap h \<longleftrightarrow> (\<exists>buf. mo_spBufferOut (rh_pMsgOut h) = Some buf \<and> buffer_ok buf \<and> cb_allocated buf = cap)"

definition holds_message :: "StunMessageOut \<Rightarrow> bytes \<Rightarrow> bool" where
  "holds_message out c \<longleftrightarrow> (\<exists>buf. mo_spBufferOut out = Some buf \<and> buffer_ok buf \<and> cb_contents buf = c)"

lemma clear_out_ready [simp]: "out_ready cap h \<Longrightarrow> out_ready cap (clear_out h)"
  by (auto simp: out_ready_def clear_out_def buffer_ok_def split: option.splits)

lemma out_ready_rh [simp]:
  "out_ready cap (set_errorcode h e) = out_ready cap h"
  "out_ready cap (h\<lparr>rh_error := er\<rparr>) = out_ready cap h"
  "out_ready cap (h\<lparr>rh_integrity := i\<rparr>) = out_ready cap h"
  "out_ready cap (h\<lparr>rh_fRequestHasResponsePort := f\<rparr>) = out_ready cap h"
  "out_ready cap (h\<lparr>rh_pMsgOut := (rh_pMsgOut h)\<lparr>mo_addrDest := a\<rparr>\<rparr>) = out_ready cap h"
  "out_ready cap (h\<lparr>rh_pMsgOut := (rh_pMsgOut h)\<lparr>mo_socketrole := sr\<rparr>\<rparr>) = out_ready cap h"
  by (simp_all add: out_ready_def set_errorcode_def)

lemma store_out_placed:
  assumes "placed l t cap c b"
  shows "holds_message (rh_pMsgOut (store_out h b)) c" "out_ready cap (store_out h b)"
proof -
  obtain buf where b: "ds_buffer (mb_stream b) = Some buf" "ds_left (mb_stream b) = None"
    using assms by (auto simp: placed_def ds_in_place_def)
  moreover have "buffer_ok buf" "cb_contents buf = c" "cb_allocated buf = cap"
    using assms b by (auto simp: placed_def mb.at_end_def mb_ok_def stream_ok_def mb_contents_def
        ds_contents_def DS_allocated_def)
  ultimately show "holds_message (rh_pMsgOut (store_out h b)) c" "out_ready cap (store_out h b)"
    by (simp_all add: holds_message_def out_ready_def store_out_def attached_buffer_def)
qed

lemma attach_out_placed:
  assumes "out_ready cap h"
  shows "placed (rh_fLegacyMode h) (zero_bytes 16) cap [] (attach_out h)"
proof -
  obtain buf where b: "mo_spBufferOut (rh_pMsgOut h) = Some buf" "buffer_ok buf" "cb_allocated buf = cap"
    using assms by (auto simp: out_ready_def)
  show ?thesis
    using DS_Attach_writing [OF b(2), of DS_null] b
    by (simp add: placed_def attach_out_def SetLegacyMode_def mb.at_end_def mb_ok_def mb_contents_def
        CStunMessageBuilder_init_def)
qed

lemma start_response:
  assumes h: "out_ready cap h" "200 \<le> cap" and tid: "length tid = 16"
  shows "message_in (rh_fLegacyMode h) ty cls tid cap []
    (snd (AddTransactionId (snd (AddHeader (attach_out h) ty cls)) tid))"
  by (rule placed_start [OF attach_out_placed [OF h(1)] h(2) tid])

text \<open>The attributes of the two responses.\<close>

definition error_attrs :: "StunErrorCode \<Rightarrow> (u16 \<times> bytes) list" where
  "error_attrs e = (STUN_ATTRIBUTE_ERRORCODE, error_value (se_errorcode e) [70, 65, 73, 76, 69, 68]) #
     (if se_errorcode e = STUN_ERROR_STALENONCE \<or> se_errorcode e = STUN_ERROR_UNAUTHORIZED
      then (if se_szNonce e \<noteq> [] then [(STUN_ATTRIBUTE_NONCE, se_szNonce e)] else [])
         @ (if se_szRealm e \<noteq> [] then [(STUN_ATTRIBUTE_REALM, se_szRealm e)] else [])
      else [])"

definition optional_attr :: "u16 \<Rightarrow> CSocketAddress option \<Rightarrow> (u16 \<times> bytes) list" where
  "optional_attr t x = (case x of None \<Rightarrow> [] | Some a \<Rightarrow> [(t, addr_wire a)])"

definition binding_attrs :: "CStunRequestHandler \<Rightarrow> SocketRole \<Rightarrow> (u16 \<times> bytes) list" where
  "binding_attrs h socketOutput = (let l = rh_fLegacyMode h; remote = mi_addrRemote (rh_pMsgIn h) in
     [(STUN_ATTRIBUTE_MAPPEDADDRESS, addr_wire remote)]
     @ optional_attr (origin_type l) (origin_address h socketOutput)
     @ optional_attr (other_type l) (other_address h)
     @ [(xor_type l, addr_wire (ApplyStunXorMap remote (rh_transid h)))])"

lemma length_attrs_wire_append [simp]:
  "length (attrs_wire l (as @ bs)) = length (attrs_wire l as) + length (attrs_wire l bs)"
  "length (attrs_wire l []) = 0"
  by (simp_all add: attrs_wire_def)

lemma length_attrs_wire_Cons [simp]:
  "length (attrs_wire l ((t, d) # as)) = 4 + length d + padding_of (length d) + length (attrs_wire l as)"
  by (simp add: attrs_wire_def length_attr_wire)

lemma length_address_attr [simp]:
  "is_ip_addr a \<Longrightarrow> length (attrs_wire l [(t, addr_wire a)]) = (if sa_family a = AF_INET then 12 else 24)"
  by (simp add: length_addr_wire padding_of_def)

lemma length_optional_attr:
  "(\<And>a. x = Some a \<Longrightarrow> is_ip_addr a) \<Longrightarrow> length (attrs_wire l (optional_attr t x)) \<le> 24"
  by (cases x) (simp_all add: optional_attr_def length_addr_wire padding_of_def)

lemma padded_length: "length d + padding_of (length d) \<le> length d + 3"
  using padding_of_simps(1) [of "length d"] by simp

text \<open>The string attributes of an error response.\<close>

definition add_string :: "u16 \<Rightarrow> bytes \<Rightarrow> CStunMessageBuilder \<Rightarrow> CStunMessageBuilder" where
  "add_string t d b = (if d \<noteq> [] then snd (AddStringAttribute b t (Some d)) else b)"

lemma message_in_string:
  assumes "message_in l ty cls tid cap ads b" "length tid = 16" "length d \<le> 64"
    "length (attrs_wire l ads) + 91 \<le> cap"
  shows "message_in l ty cls tid cap (ads @ (if d \<noteq> [] then [(t, d)] else [])) (add_string t d b)"
  using assms padded_length [of d] message_in_at_end [OF assms(1)]
  by (auto simp: add_string_def intro!: message_in_add AddStringAttribute_keeps)

lemma AddErrorCode_legacy:
  assumes "message_in l ty cls tid cap [] b" "length tid = 16" "300 \<le> e" "e \<le> 600" "200 \<le> cap"
  shows "message_in l ty cls tid cap [(STUN_ATTRIBUTE_ERRORCODE, error_value e [70, 65, 73, 76, 69, 68])]
    (snd (AddErrorCode b e (Some [70, 65, 73, 76, 69, 68])))"
proof -
  have "mb.keeps l tid (AddErrorCode b e (Some [70, 65, 73, 76, 69, 68])) b
      (attr_wire l STUN_ATTRIBUTE_ERRORCODE (error_value e [70, 65, 73, 76, 69, 68]))"
    using AddErrorCode_keeps [OF message_in_at_end [OF assms(1)] assms(3,4), of "Some [70, 65, 73, 76, 69, 68]"]
    by (simp add: c_strlen_def)
  from message_in_add [OF assms(1) this] assms show ?thesis
    by (simp add: error_value_def padding_of_def)
qed

definition error_ok :: "StunErrorCode \<Rightarrow> bool" where
  "error_ok e \<longleftrightarrow> se_attribUnknown e = 0 \<and> length (se_szNonce e) \<le> 64 \<and> length (se_szRealm e) \<le> 64"

lemma error_attrs_size: "error_ok e \<Longrightarrow> length (attrs_wire l (error_attrs e)) \<le> 158"
  using padded_length [of "se_szNonce e"] padded_length [of "se_szRealm e"]
  by (simp add: error_attrs_def error_ok_def error_value_def padding_of_def del: length_greater_0_conv)

lemma BuildErrorResponse_message:
  assumes h: "out_ready cap h" "400 \<le> cap" "length (rh_transid h) = 16"
    and e: "error_ok (rh_error h)" "300 \<le> se_errorcode (rh_error h)" "se_errorcode (rh_error h) \<le> 600"
  shows "holds_message (rh_pMsgOut (BuildErrorResponse h)) (msg_wire (rh_fLegacyMode h) (se_msgtype (rh_error h))
      (se_msgclass (rh_error h)) (rh_transid h) (error_attrs (rh_error h)))"
    "mo_socketrole (rh_pMsgOut (BuildErrorResponse h)) = mo_socketrole (rh_pMsgOut h)"
    "mo_addrDest (rh_pMsgOut (BuildErrorResponse h)) = mo_addrDest (rh_pMsgOut h)"
    "out_ready cap (BuildErrorResponse h)"
proof -
  define g e b1 where "g = clear_out h" and "e = rh_error h" and "b1 = snd (AddTransactionId
    (snd (AddHeader (attach_out g) (se_msgtype e) (se_msgclass e))) (rh_transid h))"
  let ?l = "rh_fLegacyMode h" and ?ty = "se_msgtype e" and ?cls = "se_msgclass e" and ?tid = "rh_transid h"
  have g: "out_ready cap g" "rh_fLegacyMode g = ?l" "rh_transid g = ?tid" "rh_error g = e"
    using h by (simp_all add: g_def e_def) (simp_all add: clear_out_def)
  define b2 where "b2 = snd (AddErrorCode b1 (se_errorcode e) (Some [70, 65, 73, 76, 69, 68]))"
  define b3 where "b3 = (if se_errorcode e = STUN_ERROR_STALENONCE \<or> se_errorcode e = STUN_ERROR_UNAUTHORIZED
    then add_string STUN_ATTRIBUTE_REALM (se_szRealm e) (add_string STUN_ATTRIBUTE_NONCE (se_szNonce e) b2) else b2)"
  define b4 where "b4 = snd (FixLengthField b3)"
  have r: "BuildErrorResponse h = store_out g (snd (snd (GetResult b4)))"
    using e(1) by (simp add: BuildErrorResponse_def Let_def b4_def b3_def b2_def b1_def add_string_def g_def [symmetric]
        g e_def [symmetric] error_ok_def case_prod_beta)
  have m1: "message_in ?l ?ty ?cls ?tid cap [] b1"
    using start_response [OF g(1) _ h(3)] h(2) g(2) by (simp add: b1_def)
  have e': "300 \<le> se_errorcode e" "se_errorcode e \<le> 600" "error_ok e"
    using e by (simp_all add: e_def)
  have m2: "message_in ?l ?ty ?cls ?tid cap [(STUN_ATTRIBUTE_ERRORCODE, error_value (se_errorcode e) [70, 65, 73, 76, 69, 68])] b2"
    unfolding b2_def using h(2) by (intro AddErrorCode_legacy m1 h(3) e') simp
  have m3: "message_in ?l ?ty ?cls ?tid cap (error_attrs e) b3"
  proof (cases "se_errorcode e = STUN_ERROR_STALENONCE \<or> se_errorcode e = STUN_ERROR_UNAUTHORIZED")
    case True
    have n: "length (se_szNonce e) \<le> 64" "length (se_szRealm e) \<le> 64"
      using e'(3) by (simp_all add: error_ok_def)
    note m = message_in_string [OF m2 h(3) n(1), of STUN_ATTRIBUTE_NONCE]
    have "message_in ?l ?ty ?cls ?tid cap
      (([(STUN_ATTRIBUTE_ERRORCODE, error_value (se_errorcode e) [70, 65, 73, 76, 69, 68])]
       @ (if se_szNonce e \<noteq> [] then [(STUN_ATTRIBUTE_NONCE, se_szNonce e)] else []))
       @ (if se_szRealm e \<noteq> [] then [(STUN_ATTRIBUTE_REALM, se_szRealm e)] else [])) b3"
      unfolding b3_def if_P [OF True] using h(2) n padded_length [of "se_szNonce e"]
      by (intro message_in_string m h(3)) (simp_all add: error_value_def padding_of_def)
    with True show ?thesis
      by (simp add: error_attrs_def)
  qed (use m2 in \<open>simp add: b3_def error_attrs_def\<close>)
  have n: "20 + length (attrs_wire ?l (error_attrs e)) \<le> cap"
    using error_attrs_size [OF e'(3), of ?l] h(2) by simp
  have m4: "placed ?l ?tid cap (msg_wire ?l ?ty ?cls ?tid (error_attrs e)) b4"
    unfolding b4_def by (rule finish_response [OF m3 n h(3)])
  have "snd (snd (GetResult b4)) = snd (FixLengthField b4)"
    by (simp add: GetResult_def case_prod_beta)
  with finish_response [OF message_in_wire [OF m4] n h(3)]
  have "placed ?l ?tid cap (msg_wire ?l ?ty ?cls ?tid (error_attrs e)) (snd (snd (GetResult b4)))"
    by simp
  from store_out_placed [OF this, of g]
  show "holds_message (rh_pMsgOut (BuildErrorResponse h)) (msg_wire (rh_fLegacyMode h) (se_msgtype (rh_error h))
      (se_msgclass (rh_error h)) (rh_transid h) (error_attrs (rh_error h)))" "out_ready cap (BuildErrorResponse h)"
    by (simp_all add: r e_def)
  show "mo_socketrole (rh_pMsgOut (BuildErrorResponse h)) = mo_socketrole (rh_pMsgOut h)"
    "mo_addrDest (rh_pMsgOut (BuildErrorResponse h)) = mo_addrDest (rh_pMsgOut h)"
    by (simp_all add: r store_out_def g_def clear_out_def)
qed

section \<open>The binding response\<close>

definition addresses_ok :: "CStunRequestHandler \<Rightarrow> bool" where
  "addresses_ok h \<longleftrightarrow> is_ip_addr (mi_addrRemote (rh_pMsgIn h)) \<and> is_ip_addr (mi_addrLocal (rh_pMsgIn h)) \<and>
     (\<exists>addrs. rh_pAddrSet h = Some addrs \<and> is_ip_addr (ta_addr (addrs RolePP)) \<and> is_ip_addr (ta_addr (addrs RolePA)) \<and>
        is_ip_addr (ta_addr (addrs RoleAP)) \<and> is_ip_addr (ta_addr (addrs RoleAA)))"

lemma role_addr_ok: "addresses_ok h \<Longrightarrow> is_ip_addr (role_addr h role)"
  by (cases role) (auto simp: addresses_ok_def role_addr_def)

lemma origin_address_ok: "addresses_ok h \<Longrightarrow> origin_address h s = Some a \<Longrightarrow> is_ip_addr a"
  using role_addr_ok [of h s] by (auto simp: origin_address_def Let_def addresses_ok_def split: if_splits)

lemma other_address_ok: "addresses_ok h \<Longrightarrow> other_address h = Some a \<Longrightarrow> is_ip_addr a"
  using role_addr_ok [of h] by (auto simp: other_address_def Let_def split: if_splits)

lemma ApplyStunXorMap_ip [simp]: "is_ip_addr (ApplyStunXorMap a t) = is_ip_addr a"
  by (simp add: is_ip_addr_def)

lemma message_in_optional:
  assumes b: "message_in l ty cls tid cap ads b" and tid: "length tid = 16"
    and k: "\<And>a. is_ip_addr a \<Longrightarrow> mb.keeps l tid (add b a) b (attr_wire l t (addr_wire a))"
    and x: "\<And>a. x = Some a \<Longrightarrow> is_ip_addr a" and n: "length (attrs_wire l ads) + 44 \<le> cap"
  shows "message_in l ty cls tid cap (ads @ optional_attr t x) (add_optional add b x)"
proof (cases x)
  case None
  with b show ?thesis
    by (simp add: optional_attr_def add_optional_def)
next
  case (Some a)
  have "length (attrs_wire l [(t, addr_wire a)]) \<le> 24"
    using length_address_attr [OF x [OF Some], of l t] by simp
  then show ?thesis
    using message_in_add [OF b k [OF x [OF Some]] _ tid] n Some
    by (simp add: optional_attr_def add_optional_def)
qed

text \<open>The key of the integrity attribute, and the attributes with it.\<close>

definition integrity_key :: "(bytes \<Rightarrow> bytes) \<Rightarrow> StunMessageIntegrity \<Rightarrow> bytes" where
  "integrity_key md5 i = (if si_fUseLongTerm i
     then md5 (long_term_key (Some (si_szUser i)) (Some (si_szRealm i)) (Some (si_szPassword i)))
     else si_szPassword i)"

definition add_integrity_of :: "(bytes \<Rightarrow> bytes \<Rightarrow> bytes) \<Rightarrow> (bytes \<Rightarrow> bytes) \<Rightarrow> StunMessageIntegrity
    \<Rightarrow> CStunMessageBuilder \<Rightarrow> CStunMessageBuilder" where
  "add_integrity_of hmac md5 i b =
     (if si_fSendWithIntegrity i
      then if \<not> si_fUseLongTerm i then snd (AddMessageIntegrityShortTerm hmac b (si_szPassword i))
           else snd (AddMessageIntegrityLongTerm hmac md5 b (Some (si_szUser i)) (Some (si_szRealm i))
                       (Some (si_szPassword i)))
      else b)"

definition integrity_ok :: "(bytes \<Rightarrow> bytes) \<Rightarrow> StunMessageIntegrity \<Rightarrow> bool" where
  "integrity_ok md5 i \<longleftrightarrow> length (si_szUser i) \<le> 64 \<and> length (si_szRealm i) \<le> 64 \<and> length (si_szPassword i) \<le> 64 \<and>
     (si_fSendWithIntegrity i \<longrightarrow> integrity_key md5 i \<noteq> [])"

text \<open>The integrity attribute at the end of a message, if the handler sends one.\<close>

definition integrity_attrs :: "(bytes \<Rightarrow> bytes \<Rightarrow> bytes) \<Rightarrow> (bytes \<Rightarrow> bytes) \<Rightarrow> StunMessageIntegrity
    \<Rightarrow> bool \<Rightarrow> u16 \<Rightarrow> StunMessageClass \<Rightarrow> StunTransactionId \<Rightarrow> (u16 \<times> bytes) list \<Rightarrow> (u16 \<times> bytes) list \<Rightarrow> bool" where
  "integrity_attrs hmac md5 i l ty cls tid ads ias \<longleftrightarrow>
     (if si_fSendWithIntegrity i
      then \<exists>v. ias = [(STUN_ATTRIBUTE_MESSAGEINTEGRITY, v)] \<and> length v = 20 \<and>
        v = hmac (integrity_key md5 i) (take (length (msg_wire l ty cls tid (ads @ ias)) - 24) (msg_wire l ty cls tid (ads @ ias)))
      else ias = [])"

lemma integrity_attrs_shape:
  assumes "integrity_attrs hmac md5 i l ty cls tid ads ias"
  obtains "ias = []" "\<not> si_fSendWithIntegrity i"
  | v where "ias = [(STUN_ATTRIBUTE_MESSAGEINTEGRITY, v)]" "length v = 20" "si_fSendWithIntegrity i"
  using assms unfolding integrity_attrs_def by (metis (full_types))

lemma integrity_attrs_size: "integrity_attrs hmac md5 i l ty cls tid ads ias \<Longrightarrow> length (attrs_wire l' ias) \<le> 24"
  by (erule integrity_attrs_shape) (simp_all add: padding_of_def)

lemma add_integrity_of_eq:
  assumes "si_fSendWithIntegrity i" "integrity_ok md5 i"
  shows "add_integrity_of hmac md5 i b = snd (AddMessageIntegrityImpl hmac b (Some (integrity_key md5 i)))"
  using assms by (auto simp: add_integrity_of_def AddMessageIntegrityShortTerm_def AddMessageIntegrityLongTerm_def
      integrity_key_def integrity_ok_def c_strlen_def MAX_KEY_SIZE_def stun_consts)

lemma message_in_integrity:
  assumes b: "message_in l ty cls tid cap ads b" and tid: "length tid = 16"
    and h: "hmac_ok hmac" and i: "integrity_ok md5 i" and n: "length (attrs_wire l ads) + 44 \<le> cap"
  shows "\<exists>ias. integrity_attrs hmac md5 i l ty cls tid ads ias \<and>
    message_in l ty cls tid cap (ads @ ias) (add_integrity_of hmac md5 i b)"
proof (cases "si_fSendWithIntegrity i")
  case True
  obtain n' where p: "placed l tid cap (be16 (header_type ty cls) @ be16 n' @ tid @ attrs_wire l ads) b"
    using b by (auto simp: message_in_def)
  have "integrity_key md5 i \<noteq> []" "mb.at_end l tid b"
    "mb_contents b = be16 (header_type ty cls) @ be16 n' @ tid @ attrs_wire l ads"
    using i True p by (simp_all add: integrity_ok_def placed_def)
  from integrity_rewritten [OF tid h this] obtain v where
    v: "rewritten l tid (AddMessageIntegrityImpl hmac b (Some (integrity_key md5 i))) b
      (msg_wire l ty cls tid (ads @ [(STUN_ATTRIBUTE_MESSAGEINTEGRITY, v)]))" "length v = 20"
    "v = hmac (integrity_key md5 i) (take (length (msg_wire l ty cls tid (ads @ [(STUN_ATTRIBUTE_MESSAGEINTEGRITY, v)])) - 24)
      (msg_wire l ty cls tid (ads @ [(STUN_ATTRIBUTE_MESSAGEINTEGRITY, v)])))"
    by blast
  have "length (msg_wire l ty cls tid (ads @ [(STUN_ATTRIBUTE_MESSAGEINTEGRITY, v)])) \<le> cap"
    using n tid v(2) by (simp add: msg_wire_def padding_of_def)
  from message_in_wire [OF placed_rewritten [OF p v(1) this]]
  show ?thesis
    using v(2,3) True i by (intro exI [of _ "[(STUN_ATTRIBUTE_MESSAGEINTEGRITY, v)]"])
      (simp add: integrity_attrs_def add_integrity_of_eq)
qed (use b in \<open>simp add: integrity_attrs_def add_integrity_of_def\<close>)

lemma binding_attrs_size:
  assumes "addresses_ok h"
  shows "length (attrs_wire l (binding_attrs h s)) \<le> 96"
proof -
  have "is_ip_addr (mi_addrRemote (rh_pMsgIn h))"
    using assms by (simp add: addresses_ok_def)
  then have r: "length (addr_wire (mi_addrRemote (rh_pMsgIn h))) + padding_of (length (addr_wire (mi_addrRemote (rh_pMsgIn h)))) \<le> 20"
    "\<And>t. length (addr_wire (ApplyStunXorMap (mi_addrRemote (rh_pMsgIn h)) t))
      + padding_of (length (addr_wire (ApplyStunXorMap (mi_addrRemote (rh_pMsgIn h)) t))) \<le> 20"
    by (simp_all add: length_addr_wire padding_of_def)
  have "length (attrs_wire l (optional_attr (origin_type (rh_fLegacyMode h)) (origin_address h s))) \<le> 24"
    "length (attrs_wire l (optional_attr (other_type (rh_fLegacyMode h)) (other_address h))) \<le> 24"
    using origin_address_ok [OF assms] other_address_ok [OF assms] by (auto intro!: length_optional_attr)
  then show ?thesis
    using r(1) r(2) [of "rh_transid h"] by (simp add: binding_attrs_def Let_def)
qed

text \<open>What the choice of the addresses depends on.\<close>

lemma reads_cong:
  assumes "rh_pAddrSet h' = rh_pAddrSet h" "rh_pMsgIn h' = rh_pMsgIn h"
  shows "other_address h' = other_address h" "origin_address h' = origin_address h"
    "addresses_ok h' = addresses_ok h" "HasAddress h' = HasAddress h" "role_addr h' = role_addr h"
    "rh_fRequestHasResponsePort h' = rh_fRequestHasResponsePort h \<Longrightarrow> choose_output h' = choose_output h"
proof -
  have *: "HasAddress h' = HasAddress h" "role_addr h' = role_addr h"
    by (simp_all add: fun_eq_iff HasAddress_def role_addr_def assms)
  then have "IsIPAddressZeroOrInvalid h' = IsIPAddressZeroOrInvalid h"
    by (simp add: fun_eq_iff IsIPAddressZeroOrInvalid_def)
  note eqs = * this assms
  show "HasAddress h' = HasAddress h" "role_addr h' = role_addr h"
    by (fact *)+
  show "other_address h' = other_address h"
    by (simp only: other_address_def eqs)
  show "origin_address h' = origin_address h"
    by (rule ext) (simp only: origin_address_def eqs)
  show "addresses_ok h' = addresses_ok h"
    by (simp only: addresses_ok_def eqs)
  show "rh_fRequestHasResponsePort h' = rh_fRequestHasResponsePort h \<Longrightarrow> choose_output h' = choose_output h"
    by (simp only: choose_output_def eqs)
qed

lemma clear_out_fields [simp]:
  "rh_fLegacyMode (clear_out h) = rh_fLegacyMode h" "rh_pAddrSet (clear_out h) = rh_pAddrSet h"
  "rh_transid (clear_out h) = rh_transid h" "rh_pMsgIn (clear_out h) = rh_pMsgIn h"
  "rh_integrity (clear_out h) = rh_integrity h" "rh_error (clear_out h) = rh_error h"
  "rh_fRequestHasResponsePort (clear_out h) = rh_fRequestHasResponsePort h"
  "mo_socketrole (rh_pMsgOut (clear_out h)) = mo_socketrole (rh_pMsgOut h)"
  "mo_addrDest (rh_pMsgOut (clear_out h)) = mo_addrDest (rh_pMsgOut h)"
  by (simp_all add: clear_out_def)

lemma clear_out_reads [simp]:
  "choose_output (clear_out h) = choose_output h" "other_address (clear_out h) = other_address h"
  "origin_address (clear_out h) = origin_address h"
  by (rule reads_cong; simp)+

lemma store_out_fields [simp]:
  "rh_error (store_out h b) = rh_error h" "mo_socketrole (rh_pMsgOut (store_out h b)) = mo_socketrole (rh_pMsgOut h)"
  "mo_addrDest (rh_pMsgOut (store_out h b)) = mo_addrDest (rh_pMsgOut h)"
  "rh_transid (store_out h b) = rh_transid h" "rh_fLegacyMode (store_out h b) = rh_fLegacyMode h"
  by (simp_all add: store_out_def)

lemma ProcessBindingRequest_refused:
  assumes h: "out_ready cap h" and c: "choose_output h = None"
  shows "\<exists>h'. ProcessBindingRequest hmac md5 h = (E_FAIL, h') \<and> out_ready cap h' \<and>
    rh_error h' = (rh_error h)\<lparr>se_errorcode := STUN_ERROR_BADREQUEST\<rparr> \<and> rh_transid h' = rh_transid h \<and>
    rh_fLegacyMode h' = rh_fLegacyMode h \<and> mo_socketrole (rh_pMsgOut h') = mo_socketrole (rh_pMsgOut h) \<and>
    mo_addrDest (rh_pMsgOut h') = mo_addrDest (rh_pMsgOut h)"
  using store_out_placed(2) [OF attach_out_placed [OF clear_out_ready [OF h]]]
  by (simp add: ProcessBindingRequest_def Let_def c) (simp add: set_errorcode_def)

lemma ProcessBindingRequest_message:
  assumes h: "out_ready cap h" "400 \<le> cap" "length (rh_transid h) = 16" and a: "addresses_ok h"
    and i: "integrity_ok md5 (rh_integrity h)" "hmac_ok hmac" and c: "choose_output h = Some s"
  shows "\<exists>h' ias. ProcessBindingRequest hmac md5 h = (S_OK, h') \<and>
    integrity_attrs hmac md5 (rh_integrity h) (rh_fLegacyMode h) StunMsgTypeBinding StunMsgClassSuccessResponse
      (rh_transid h) (binding_attrs h s) ias \<and>
    holds_message (rh_pMsgOut h') (msg_wire (rh_fLegacyMode h) StunMsgTypeBinding StunMsgClassSuccessResponse
      (rh_transid h) (binding_attrs h s @ ias)) \<and>
    mo_socketrole (rh_pMsgOut h') = s \<and> mo_addrDest (rh_pMsgOut h') = mo_addrDest (rh_pMsgOut h) \<and>
    rh_error h' = rh_error h \<and> out_ready cap h'"
proof -
  let ?l = "rh_fLegacyMode h" and ?tid = "rh_transid h" and ?r = "mi_addrRemote (rh_pMsgIn h)"
    and ?ty = StunMsgTypeBinding and ?cls = StunMsgClassSuccessResponse
  define g where "g = clear_out h"
  define b1 where "b1 = snd (AddTransactionId (snd (AddHeader (attach_out g) ?ty ?cls)) ?tid)"
  define b2 where "b2 = snd (AddMappedAddress b1 ?r)"
  define b3 where "b3 = add_optional AddResponseOriginAddress b2 (origin_address h s)"
  define b4 where "b4 = add_optional AddOtherAddress b3 (other_address h)"
  define b5 where "b5 = snd (AddXorMappedAddress b4 ?r)"
  define b6 where "b6 = add_integrity_of hmac md5 (rh_integrity h) b5"
  let ?g = "g\<lparr>rh_pMsgOut := (rh_pMsgOut g)\<lparr>mo_socketrole := s\<rparr>\<rparr>"
  have p: "ProcessBindingRequest hmac md5 h = (S_OK, store_out ?g (snd (FixLengthField b6)))"
    by (simp add: ProcessBindingRequest_def Let_def c g_def b1_def b2_def b3_def b4_def b5_def b6_def
        add_integrity_of_def)
  have ra: "is_ip_addr ?r"
    using a by (simp add: addresses_ok_def)
  have n: "length (attrs_wire ?l (binding_attrs h s)) \<le> 96"
    by (rule binding_attrs_size [OF a])
  note n' = n [unfolded binding_attrs_def Let_def length_attrs_wire_append]
  have m1: "message_in ?l ?ty ?cls ?tid cap [] b1"
    using start_response [OF clear_out_ready [OF h(1)] _ h(3)] h(2) by (simp add: b1_def g_def)
  have m2: "message_in ?l ?ty ?cls ?tid cap ([] @ [(STUN_ATTRIBUTE_MAPPEDADDRESS, addr_wire ?r)]) b2"
    unfolding b2_def using h(2) length_address_attr [OF ra, of ?l]
    by (intro message_in_add [OF m1 Add_addresses_keep(1) [OF message_in_at_end [OF m1] ra] _ h(3)]) simp
  have m3: "message_in ?l ?ty ?cls ?tid cap (([] @ [(STUN_ATTRIBUTE_MAPPEDADDRESS, addr_wire ?r)])
      @ optional_attr (origin_type ?l) (origin_address h s)) b3"
    unfolding b3_def
    by (rule message_in_optional [where add = AddResponseOriginAddress, OF m2 h(3)
        Add_addresses_keep(3) [OF message_in_at_end [OF m2]]])
      (use h(2) length_address_attr [OF ra, of ?l] origin_address_ok [OF a] in \<open>auto split: if_splits\<close>)
  have m4: "message_in ?l ?ty ?cls ?tid cap ((([] @ [(STUN_ATTRIBUTE_MAPPEDADDRESS, addr_wire ?r)])
      @ optional_attr (origin_type ?l) (origin_address h s)) @ optional_attr (other_type ?l) (other_address h)) b4"
    unfolding b4_def
    by (rule message_in_optional [where add = AddOtherAddress, OF m3 h(3)
        Add_addresses_keep(4) [OF message_in_at_end [OF m3]]])
      (use h(2) n' other_address_ok [OF a] in auto)
  have m5: "message_in ?l ?ty ?cls ?tid cap (binding_attrs h s) b5"
    using message_in_add [OF m4 Add_addresses_keep(2) [OF message_in_at_end [OF m4] ra] _ h(3)] h(2) n'
    by (simp add: b5_def binding_attrs_def Let_def)
  obtain ias where ias: "integrity_attrs hmac md5 (rh_integrity h) ?l ?ty ?cls ?tid (binding_attrs h s) ias"
    and m6: "message_in ?l ?ty ?cls ?tid cap (binding_attrs h s @ ias) b6"
    using message_in_integrity [OF m5 h(3) i(2,1)] h(2) n by (auto simp: b6_def)
  have "length (attrs_wire ?l ias) \<le> 24"
    by (rule integrity_attrs_size [OF ias])
  then have "placed ?l ?tid cap (msg_wire ?l ?ty ?cls ?tid (binding_attrs h s @ ias)) (snd (FixLengthField b6))"
    using n h(2) by (intro finish_response m6 h(3)) simp
  from store_out_placed [OF this, of ?g] show ?thesis
    using ias p by (intro exI [of _ "store_out ?g (snd (FixLengthField b6))"] exI [of _ ias]) (simp add: g_def)
qed

section \<open>From the request to the response\<close>

text \<open>The error codes the handler sets, and a handler that can go on to any response.\<close>

definition error_codes :: "u16 set" where
  "error_codes = {STUN_ERROR_BADREQUEST, STUN_ERROR_UNAUTHORIZED, STUN_ERROR_STALENONCE}"

definition handler_ready :: "(bytes \<Rightarrow> bytes) \<Rightarrow> CStunRequestHandler \<Rightarrow> bool" where
  "handler_ready md5 h \<longleftrightarrow> (\<exists>cap\<ge>MAX_STUN_MESSAGE_SIZE. out_ready cap h) \<and> length (rh_transid h) = 16 \<and>
     addresses_ok h \<and> error_ok (rh_error h) \<and> integrity_ok md5 (rh_integrity h) \<and>
     (se_errorcode (rh_error h) = 0 \<or> se_errorcode (rh_error h) \<in> error_codes)"

lemma error_codes_range: "e \<in> error_codes \<Longrightarrow> 300 \<le> e \<and> e \<le> 600 \<and> e \<noteq> 0"
  by (auto simp: error_codes_def stun_consts)

lemma code_distinct [simp]: "STUN_ERROR_BADREQUEST \<noteq> 0" "STUN_ERROR_UNAUTHORIZED \<noteq> 0" "STUN_ERROR_STALENONCE \<noteq> 0"
  "STUN_ERROR_BADREQUEST \<noteq> STUN_ERROR_UNAUTHORIZED" "STUN_ERROR_BADREQUEST \<noteq> STUN_ERROR_STALENONCE"
  "STUN_ERROR_UNAUTHORIZED \<noteq> STUN_ERROR_STALENONCE"
  by (simp_all add: stun_consts)

lemma error_attrs_badrequest [simp]:
  "se_errorcode e = STUN_ERROR_BADREQUEST \<Longrightarrow> error_attrs e = [(STUN_ATTRIBUTE_ERRORCODE, error_value 400 [70, 65, 73, 76, 69, 68])]"
  by (simp add: error_attrs_def) (simp add: stun_consts)

text \<open>The messages the handler can end with.\<close>

definition error_message :: "CStunRequestHandler \<Rightarrow> StunErrorCode \<Rightarrow> bytes" where
  "error_message h e = msg_wire (rh_fLegacyMode h) (se_msgtype e) (se_msgclass e) (rh_transid h) (error_attrs e)"

definition answer :: "(bytes \<Rightarrow> bytes \<Rightarrow> bytes) \<Rightarrow> (bytes \<Rightarrow> bytes) \<Rightarrow> CStunRequestHandler \<Rightarrow> StunMessageOut" where
  "answer hmac md5 h = (let h = unless_error (ProcessBindingRequest hmac md5) h in
     rh_pMsgOut (if se_errorcode (rh_error h) \<noteq> 0 then BuildErrorResponse h else h))"

definition out_to :: "StunMessageOut \<Rightarrow> SocketRole \<Rightarrow> CSocketAddress \<Rightarrow> bytes \<Rightarrow> bool" where
  "out_to out role dest c \<longleftrightarrow> mo_socketrole out = role \<and> mo_addrDest out = dest \<and> holds_message out c"

lemma answer_error:
  assumes h: "handler_ready md5 h" and e: "se_errorcode (rh_error h) \<noteq> 0"
  shows "out_to (answer hmac md5 h) (mo_socketrole (rh_pMsgOut h)) (mo_addrDest (rh_pMsgOut h))
    (error_message h (rh_error h))"
proof -
  obtain cap where c: "800 \<le> cap" "out_ready cap h"
    using h by (auto simp: handler_ready_def stun_consts)
  have "answer hmac md5 h = rh_pMsgOut (BuildErrorResponse h)"
    using e by (simp add: answer_def unless_error_def)
  moreover have "300 \<le> se_errorcode (rh_error h) \<and> se_errorcode (rh_error h) \<le> 600"
    using h e error_codes_range by (auto simp: handler_ready_def)
  ultimately show ?thesis
    using BuildErrorResponse_message [of cap h] c h
    by (simp add: handler_ready_def out_to_def error_message_def)
qed

lemma answer_refused:
  assumes h: "handler_ready md5 h" and e: "se_errorcode (rh_error h) = 0" "choose_output h = None"
  shows "out_to (answer hmac md5 h) (mo_socketrole (rh_pMsgOut h)) (mo_addrDest (rh_pMsgOut h))
    (error_message h ((rh_error h)\<lparr>se_errorcode := STUN_ERROR_BADREQUEST\<rparr>))"
proof -
  obtain cap where c: "800 \<le> cap" "out_ready cap h"
    using h by (auto simp: handler_ready_def stun_consts)
  obtain h' where h': "ProcessBindingRequest hmac md5 h = (E_FAIL, h')" "out_ready cap h'"
    "rh_error h' = (rh_error h)\<lparr>se_errorcode := STUN_ERROR_BADREQUEST\<rparr>" "rh_transid h' = rh_transid h"
    "rh_fLegacyMode h' = rh_fLegacyMode h" "mo_socketrole (rh_pMsgOut h') = mo_socketrole (rh_pMsgOut h)"
    "mo_addrDest (rh_pMsgOut h') = mo_addrDest (rh_pMsgOut h)"
    using ProcessBindingRequest_refused [OF c(2) e(2)] by metis
  have "answer hmac md5 h = rh_pMsgOut (BuildErrorResponse h')"
    using e h' by (simp add: answer_def unless_error_def)
  moreover have "error_ok (rh_error h')" "300 \<le> se_errorcode (rh_error h')" "se_errorcode (rh_error h') \<le> 600"
    using h h'(3) error_codes_range [of STUN_ERROR_BADREQUEST] by (simp_all add: handler_ready_def error_ok_def error_codes_def)
  ultimately show ?thesis
    using BuildErrorResponse_message [of cap h'] c h h' by (simp add: handler_ready_def out_to_def error_message_def)
qed

text \<open>The buffer stays the caller's.\<close>

definition buffer_ready :: "StunMessageOut \<Rightarrow> bool" where
  "buffer_ready out \<longleftrightarrow> (\<exists>buf. mo_spBufferOut out = Some buf \<and> buffer_ok buf \<and> MAX_STUN_MESSAGE_SIZE \<le> cb_allocated buf)"

lemma out_ready_buffer: "out_ready cap h \<Longrightarrow> 800 \<le> cap \<Longrightarrow> buffer_ready (rh_pMsgOut h)"
  by (auto simp: out_ready_def buffer_ready_def stun_consts)

lemma answer_ready:
  assumes h: "handler_ready md5 h" "hmac_ok hmac"
  shows "buffer_ready (answer hmac md5 h)"
proof -
  obtain cap where c: "800 \<le> cap" "out_ready cap h"
    using h by (auto simp: handler_ready_def stun_consts)
  have r: "length (rh_transid h) = 16" "addresses_ok h" "integrity_ok md5 (rh_integrity h)" "error_ok (rh_error h)"
    using h by (simp_all add: handler_ready_def)
  have err: "buffer_ready (rh_pMsgOut (BuildErrorResponse h'))"
    if "out_ready cap h'" "length (rh_transid h') = 16" "error_ok (rh_error h')" "se_errorcode (rh_error h') \<in> error_codes" for h'
    using BuildErrorResponse_message(4) [OF that(1) _ that(2,3)] error_codes_range [OF that(4)] c(1) out_ready_buffer by simp
  consider (e) "se_errorcode (rh_error h) \<noteq> 0" | (n) "se_errorcode (rh_error h) = 0" "choose_output h = None"
    | (s) s where "se_errorcode (rh_error h) = 0" "choose_output h = Some s"
    by (cases "choose_output h") auto
  then show ?thesis
  proof cases
    case e
    then show ?thesis
      using err [OF c(2) r(1,4)] h by (auto simp: answer_def unless_error_def handler_ready_def)
  next
    case n
    obtain h' where h': "ProcessBindingRequest hmac md5 h = (E_FAIL, h')" "out_ready cap h'"
      "rh_error h' = (rh_error h)\<lparr>se_errorcode := STUN_ERROR_BADREQUEST\<rparr>" "rh_transid h' = rh_transid h"
      using ProcessBindingRequest_refused [OF c(2) n(2)] by metis
    then show ?thesis
      using err [OF h'(2)] n r by (simp add: answer_def unless_error_def error_ok_def error_codes_def)
  next
    case s
    obtain h' where "ProcessBindingRequest hmac md5 h = (S_OK, h')" "rh_error h' = rh_error h" "out_ready cap h'"
      using ProcessBindingRequest_message [OF c(2) _ r(1-3) h(2) s(2)] c(1) by auto
    then show ?thesis
      using s out_ready_buffer c(1) by (simp add: answer_def unless_error_def)
  qed
qed

lemma answer_success:
  assumes h: "handler_ready md5 h" "hmac_ok hmac" and e: "se_errorcode (rh_error h) = 0" "choose_output h = Some s"
  shows "\<exists>ias. integrity_attrs hmac md5 (rh_integrity h) (rh_fLegacyMode h) StunMsgTypeBinding
      StunMsgClassSuccessResponse (rh_transid h) (binding_attrs h s) ias \<and>
    out_to (answer hmac md5 h) s (mo_addrDest (rh_pMsgOut h)) (msg_wire (rh_fLegacyMode h) StunMsgTypeBinding
      StunMsgClassSuccessResponse (rh_transid h) (binding_attrs h s @ ias))"
proof -
  obtain cap where c: "800 \<le> cap" "out_ready cap h"
    using h by (auto simp: handler_ready_def stun_consts)
  have r: "length (rh_transid h) = 16" "addresses_ok h" "integrity_ok md5 (rh_integrity h)"
    using h by (simp_all add: handler_ready_def)
  from ProcessBindingRequest_message [OF c(2) _ r h(2) e(2)] c(1) obtain h' ias where
    h': "ProcessBindingRequest hmac md5 h = (S_OK, h')" "rh_error h' = rh_error h"
      "integrity_attrs hmac md5 (rh_integrity h) (rh_fLegacyMode h) StunMsgTypeBinding
        StunMsgClassSuccessResponse (rh_transid h) (binding_attrs h s) ias"
      "holds_message (rh_pMsgOut h') (msg_wire (rh_fLegacyMode h) StunMsgTypeBinding StunMsgClassSuccessResponse
        (rh_transid h) (binding_attrs h s @ ias))" "mo_socketrole (rh_pMsgOut h') = s"
      "mo_addrDest (rh_pMsgOut h') = mo_addrDest (rh_pMsgOut h)"
    by auto
  have "answer hmac md5 h = rh_pMsgOut h'"
    using e h' by (simp add: answer_def unless_error_def)
  with h' show ?thesis
    by (auto simp: out_to_def)
qed

text \<open>Authentication changes the error and the integrity members only, and keeps them fit to send.\<close>

lemma terminated_length: "length (terminated bs) \<le> 64"
  unfolding terminated_def c_string_def
  using length_takeWhile_le [of "\<lambda>x. x \<noteq> 0" "take MAX_STUN_AUTH_STRING_SIZE bs"] by (simp add: stun_consts)

lemma c_string_length: "length bs \<le> n \<Longrightarrow> length (c_string bs) \<le> n"
  unfolding c_string_def using length_takeWhile_le [of "\<lambda>x. x \<noteq> 0" bs] by simp

lemma string_attribute_length: "length (string_attribute r ty) \<le> 64"
  by (auto simp: string_attribute_def MR_GetStringAttributeByType_def stun_consts split: option.splits)

definition auth_frame :: "CStunRequestHandler \<Rightarrow> CStunRequestHandler \<Rightarrow> bool" where
  "auth_frame h h' \<longleftrightarrow> (\<exists>c n m i. h' = h\<lparr>rh_error := (rh_error h)\<lparr>se_errorcode := c, se_szNonce := n, se_szRealm := m\<rparr>,
     rh_integrity := i\<rparr>)"

lemma auth_frame_refl: "auth_frame h h"
  unfolding auth_frame_def
  by (rule exI [of _ "se_errorcode (rh_error h)"], rule exI [of _ "se_szNonce (rh_error h)"],
      rule exI [of _ "se_szRealm (rh_error h)"], rule exI [of _ "rh_integrity h"]) simp

lemma auth_frame_fields:
  assumes "auth_frame h h'"
  shows "rh_pMsgOut h' = rh_pMsgOut h" "rh_pMsgIn h' = rh_pMsgIn h" "rh_pAddrSet h' = rh_pAddrSet h"
    "rh_transid h' = rh_transid h" "rh_fLegacyMode h' = rh_fLegacyMode h"
    "rh_fRequestHasResponsePort h' = rh_fRequestHasResponsePort h" "se_msgtype (rh_error h') = se_msgtype (rh_error h)"
    "se_msgclass (rh_error h') = se_msgclass (rh_error h)"
    "se_attribUnknown (rh_error h') = se_attribUnknown (rh_error h)"
    "rh_pAuth h' = rh_pAuth h"
  using assms by (auto simp: auth_frame_def)

lemma auth_frame_reads:
  assumes "auth_frame h h'"
  shows "choose_output h' = choose_output h" "addresses_ok h' = addresses_ok h" "out_ready cap h' = out_ready cap h"
    "binding_attrs h' = binding_attrs h"
proof -
  note f = auth_frame_fields [OF assms]
  note c = reads_cong [OF f(3,2)]
  show "choose_output h' = choose_output h" "addresses_ok h' = addresses_ok h"
    using c f by simp_all
  show "out_ready cap h' = out_ready cap h"
    by (simp add: out_ready_def f)
  show "binding_attrs h' = binding_attrs h"
    by (rule ext) (simp only: binding_attrs_def c f)
qed

text \<open>MD5 gives 16 bytes.\<close>

definition md5_ok :: "(bytes \<Rightarrow> bytes) \<Rightarrow> bool" where
  "md5_ok md5 \<longleftrightarrow> (\<forall>x. length (md5 x) = 16)"

lemma md5_nonempty: "md5_ok md5 \<Longrightarrow> md5 x \<noteq> []"
  unfolding md5_ok_def by (metis list.size(3) zero_neq_numeral)

lemma Validate_key: "SUCCEEDED (MR_ValidateMessageIntegrity hmac r (Some key)) \<Longrightarrow> key \<noteq> []"
  by (cases "mr_state r = BodyValidated"; cases "mr_countAttributes r = 0"; cases "mr_indexMessageIntegrity r = -1")
    (auto simp: MR_ValidateMessageIntegrity_def Let_def)

definition authorized :: "(bytes \<Rightarrow> bytes \<Rightarrow> bytes) \<Rightarrow> (bytes \<Rightarrow> bytes) \<Rightarrow> CStunRequestHandler \<Rightarrow> CStunRequestHandler" where
  "authorized hmac md5 h = unless_error (ValidateAuth hmac md5) h"

text \<open>The handler after the response of the provider is known.\<close>

definition after_check :: "(bytes \<Rightarrow> bytes \<Rightarrow> bytes) \<Rightarrow> (bytes \<Rightarrow> bytes) \<Rightarrow> CStunRequestHandler \<Rightarrow> AuthResponse
    \<Rightarrow> CStunRequestHandler" where
  "after_check hmac md5 h resp = (case ar_responseType resp of
     StaleNonce \<Rightarrow> set_errorcode h STUN_ERROR_STALENONCE
   | Unauthorized \<Rightarrow> set_errorcode h STUN_ERROR_UNAUTHORIZED
   | Reject \<Rightarrow> set_errorcode h STUN_ERROR_BADREQUEST
   | Allow \<Rightarrow> h
   | AllowConditional \<Rightarrow> ValidateAuth_conditional hmac md5 (request_auth_attributes (rh_reader h)) resp h)"

definition terminated_response :: "AuthResponse \<Rightarrow> AuthResponse" where
  "terminated_response resp = resp\<lparr>ar_szNonce := terminated (ar_szNonce resp),
     ar_szRealm := terminated (ar_szRealm resp), ar_szPassword := terminated (ar_szPassword resp)\<rparr>"

definition with_challenge :: "CStunRequestHandler \<Rightarrow> AuthResponse \<Rightarrow> CStunRequestHandler" where
  "with_challenge h resp =
     (if se_errorcode (rh_error h) = STUN_ERROR_UNAUTHORIZED \<or> se_errorcode (rh_error h) = STUN_ERROR_STALENONCE
      then h\<lparr>rh_error := (rh_error h)\<lparr>se_szRealm := ar_szRealm resp, se_szNonce := ar_szNonce resp\<rparr>\<rparr> else h)"

lemma authorized_none: "rh_pAuth h = None \<Longrightarrow> authorized hmac md5 h = h"
  by (simp add: authorized_def unless_error_def ValidateAuth_def)

lemma authorized_some:
  assumes "rh_pAuth h = Some f" "se_errorcode (rh_error h) = 0"
    "f (request_auth_attributes (rh_reader h)) AuthResponse_zero = (hr, resp)"
  shows "authorized hmac md5 h = (if FAILED hr then set_errorcode h STUN_ERROR_BADREQUEST
    else with_challenge (after_check hmac md5 h (terminated_response resp)) (terminated_response resp))"
proof (cases "FAILED hr")
  case True
  with assms show ?thesis
    by (simp add: authorized_def unless_error_def ValidateAuth_def)
next
  case False
  have "ValidateAuth hmac md5 h =
      (hr, with_challenge (after_check hmac md5 h (terminated_response resp)) (terminated_response resp))"
    using assms(1,3) False unfolding ValidateAuth_def after_check_def with_challenge_def terminated_response_def
    by (simp only: option.case Let_def prod.case if_False) (simp only: if_distrib [of "Pair hr"])
  with assms(2) False show ?thesis
    by (simp add: authorized_def unless_error_def)
qed

lemma terminated_response_length: "length (ar_szNonce (terminated_response r)) \<le> 64"
  "length (ar_szRealm (terminated_response r)) \<le> 64" "length (ar_szPassword (terminated_response r)) \<le> 64"
  by (simp_all add: terminated_response_def terminated_length)

text \<open>The integrity that a conditional response leaves, and when it does.\<close>

definition request_key :: "(bytes \<Rightarrow> bytes) \<Rightarrow> CStunMessageReader \<Rightarrow> AuthResponse \<Rightarrow> bytes" where
  "request_key md5 r resp = (if ar_authCredMech resp = AuthCredLongTerm
     then md5 (long_term_key (Some (c_string (string_attribute r STUN_ATTRIBUTE_USERNAME)))
       (Some (c_string (string_attribute r STUN_ATTRIBUTE_REALM))) (Some (ar_szPassword resp)))
     else ar_szPassword resp)"

lemma ValidateAuth_conditional_cases:
  fixes hmac :: "bytes \<Rightarrow> bytes \<Rightarrow> bytes" and md5 :: "bytes \<Rightarrow> bytes"
  assumes md5: "md5_ok md5" and st: "MR_GetState (rh_reader h) = BodyValidated"
    "DS_GetDataPointerUnsafe (mr_stream (rh_reader h)) \<noteq> None" and p: "length (ar_szPassword resp) \<le> 64"
  defines "h' \<equiv> ValidateAuth_conditional hmac md5 (request_auth_attributes (rh_reader h)) resp h"
    and "v \<equiv> MR_ValidateMessageIntegrity hmac (rh_reader h) (Some (request_key md5 (rh_reader h) resp))"
  shows "FAILED v \<Longrightarrow> h' = set_errorcode h STUN_ERROR_UNAUTHORIZED"
    "\<not> FAILED v \<Longrightarrow> \<exists>i. h' = h\<lparr>rh_integrity := i\<rparr> \<and> si_fSendWithIntegrity i \<and> integrity_ok md5 i \<and>
      integrity_key md5 i = request_key md5 (rh_reader h) resp"
proof -
  have u: "aa_szUser (request_auth_attributes (rh_reader h)) = string_attribute (rh_reader h) STUN_ATTRIBUTE_USERNAME"
    "aa_szRealm (request_auth_attributes (rh_reader h)) = string_attribute (rh_reader h) STUN_ATTRIBUTE_REALM"
    by (simp_all add: request_auth_attributes_def)
  have h': "h' = (if SUCCEEDED v then h\<lparr>rh_integrity := \<lparr>si_fSendWithIntegrity = True,
       si_fUseLongTerm = (ar_authCredMech resp = AuthCredLongTerm),
       si_szUser = c_string (string_attribute (rh_reader h) STUN_ATTRIBUTE_USERNAME),
       si_szRealm = c_string (string_attribute (rh_reader h) STUN_ATTRIBUTE_REALM),
       si_szPassword = ar_szPassword resp\<rparr>\<rparr> else set_errorcode h STUN_ERROR_UNAUTHORIZED)"
    using st unfolding h'_def v_def ValidateAuth_conditional_def u
    by (auto simp: MR_ValidateMessageIntegrityLong_def MR_ValidateMessageIntegrityShort_def request_key_def MR_GetState_def)
  show "FAILED v \<Longrightarrow> h' = set_errorcode h STUN_ERROR_UNAUTHORIZED"
    by (simp add: h' SUCCEEDED_iff_not_FAILED)
  assume "\<not> FAILED v"
  then have s: "SUCCEEDED v"
    by (simp add: SUCCEEDED_iff_not_FAILED)
  then have "request_key md5 (rh_reader h) resp \<noteq> []"
    unfolding v_def by (rule Validate_key)
  then show "\<exists>i. h' = h\<lparr>rh_integrity := i\<rparr> \<and> si_fSendWithIntegrity i \<and> integrity_ok md5 i \<and>
      integrity_key md5 i = request_key md5 (rh_reader h) resp"
    using s p c_string_length [OF string_attribute_length]
    by (intro exI [of _ "\<lparr>si_fSendWithIntegrity = True, si_fUseLongTerm = (ar_authCredMech resp = AuthCredLongTerm),
       si_szUser = c_string (string_attribute (rh_reader h) STUN_ATTRIBUTE_USERNAME),
       si_szRealm = c_string (string_attribute (rh_reader h) STUN_ATTRIBUTE_REALM),
       si_szPassword = ar_szPassword resp\<rparr>"])
      (simp add: h' integrity_ok_def integrity_key_def request_key_def split: if_splits)
qed

lemma set_errorcode_frame: "auth_frame h (set_errorcode h e)"
  unfolding auth_frame_def set_errorcode_def
  by (rule exI [of _ e], rule exI [of _ "se_szNonce (rh_error h)"],
      rule exI [of _ "se_szRealm (rh_error h)"], rule exI [of _ "rh_integrity h"]) simp

lemma integrity_frame: "auth_frame h (h\<lparr>rh_integrity := i\<rparr>)"
  unfolding auth_frame_def
  by (rule exI [of _ "se_errorcode (rh_error h)"], rule exI [of _ "se_szNonce (rh_error h)"],
      rule exI [of _ "se_szRealm (rh_error h)"], rule exI [of _ i]) simp

lemma with_challenge_frame: "auth_frame h g \<Longrightarrow> auth_frame h (with_challenge g resp)"
proof -
  assume "auth_frame h g"
  then obtain c n m i where g: "g = h\<lparr>rh_error := (rh_error h)\<lparr>se_errorcode := c, se_szNonce := n, se_szRealm := m\<rparr>,
     rh_integrity := i\<rparr>"
    by (auto simp: auth_frame_def)
  have "g\<lparr>rh_error := (rh_error g)\<lparr>se_szRealm := ar_szRealm resp, se_szNonce := ar_szNonce resp\<rparr>\<rparr>
      = h\<lparr>rh_error := (rh_error h)\<lparr>se_errorcode := c, se_szNonce := ar_szNonce resp, se_szRealm := ar_szRealm resp\<rparr>,
          rh_integrity := i\<rparr>"
    by (simp add: g)
  then have "auth_frame h (g\<lparr>rh_error := (rh_error g)\<lparr>se_szRealm := ar_szRealm resp, se_szNonce := ar_szNonce resp\<rparr>\<rparr>)"
    unfolding auth_frame_def by (intro exI) assumption
  with \<open>auth_frame h g\<close> show ?thesis
    unfolding with_challenge_def by simp
qed

lemma frame_ready:
  assumes "handler_ready md5 h" "auth_frame h g" "error_ok (rh_error g)" "integrity_ok md5 (rh_integrity g)"
    "se_errorcode (rh_error g) = 0 \<or> se_errorcode (rh_error g) \<in> error_codes"
  shows "handler_ready md5 g"
  using assms auth_frame_fields [OF assms(2)] auth_frame_reads [OF assms(2)] by (simp add: handler_ready_def)

definition reader_complete :: "CStunMessageReader \<Rightarrow> bool" where
  "reader_complete r \<longleftrightarrow> MR_GetState r = BodyValidated \<and> DS_GetDataPointerUnsafe (mr_stream r) \<noteq> None"

lemma after_check_ready:
  assumes h: "handler_ready md5 h" "md5_ok md5" "reader_complete (rh_reader h)"
    and e: "se_errorcode (rh_error h) = 0"
  shows "auth_frame h (after_check hmac md5 h (terminated_response resp)) \<and>
    handler_ready md5 (after_check hmac md5 h (terminated_response resp))"
proof -
  let ?r = "terminated_response resp"
  let ?v = "MR_ValidateMessageIntegrity hmac (rh_reader h) (Some (request_key md5 (rh_reader h) ?r))"
  have set: "auth_frame h (set_errorcode h c) \<and> handler_ready md5 (set_errorcode h c)" if "c \<in> error_codes" for c
    using h that set_errorcode_frame by (intro conjI frame_ready [OF h(1)])
      (auto simp: handler_ready_def error_ok_def set_errorcode_def)
  have codes: "STUN_ERROR_BADREQUEST \<in> error_codes" "STUN_ERROR_UNAUTHORIZED \<in> error_codes"
    "STUN_ERROR_STALENONCE \<in> error_codes"
    by (simp_all add: error_codes_def)
  have c: "auth_frame h g \<and> handler_ready md5 g"
    if g: "g = ValidateAuth_conditional hmac md5 (request_auth_attributes (rh_reader h)) ?r h" for g
  proof (cases "FAILED ?v")
    case True
    then have "g = set_errorcode h STUN_ERROR_UNAUTHORIZED"
      unfolding g using h by (intro ValidateAuth_conditional_cases(1))
        (simp_all add: reader_complete_def terminated_response_length)
    with set codes show ?thesis
      by simp
  next
    case False
    then obtain i where i: "g = h\<lparr>rh_integrity := i\<rparr>" "integrity_ok md5 i"
      unfolding g using h ValidateAuth_conditional_cases(2) [of md5 h ?r hmac]
      by (auto simp: reader_complete_def terminated_response_length)
    have "handler_ready md5 g"
      using h e i by (intro frame_ready [OF h(1)]) (auto simp: handler_ready_def intro: integrity_frame)
    with i(1) integrity_frame show ?thesis
      by blast
  qed
  show ?thesis
    using set codes c [OF refl] h auth_frame_refl
    by (cases "ar_responseType ?r") (simp_all add: after_check_def)
qed

lemma authorized_ready:
  assumes h: "handler_ready md5 h" "md5_ok md5" "reader_complete (rh_reader h)"
  shows "auth_frame h (authorized hmac md5 h) \<and> handler_ready md5 (authorized hmac md5 h)"
proof (cases "rh_pAuth h = None \<or> se_errorcode (rh_error h) \<noteq> 0")
  case True
  then have "authorized hmac md5 h = h"
    by (auto simp: authorized_none) (simp add: authorized_def unless_error_def)
  with h auth_frame_refl show ?thesis
    by simp
next
  case False
  then obtain f where f: "rh_pAuth h = Some f" "se_errorcode (rh_error h) = 0"
    by auto
  obtain hr resp where "f (request_auth_attributes (rh_reader h)) AuthResponse_zero = (hr, resp)"
    by fastforce
  note f = f this
  let ?r = "terminated_response resp"
  let ?g = "after_check hmac md5 h ?r"
  show ?thesis
  proof (cases "FAILED hr")
    case True
    then have "authorized hmac md5 h = set_errorcode h STUN_ERROR_BADREQUEST"
      using authorized_some [OF f] by simp
    moreover have "handler_ready md5 (set_errorcode h STUN_ERROR_BADREQUEST)"
      using h(1) by (intro frame_ready [OF h(1) set_errorcode_frame])
        (auto simp: handler_ready_def error_ok_def set_errorcode_def error_codes_def)
    ultimately show ?thesis
      using set_errorcode_frame by simp
  next
    case hr: False
    have g: "auth_frame h ?g" "handler_ready md5 ?g"
      using after_check_ready [OF h f(2)] by blast+
    have "handler_ready md5 (with_challenge ?g ?r)"
    proof (rule frame_ready [OF g(2) with_challenge_frame [OF auth_frame_refl]])
      show "error_ok (rh_error (with_challenge ?g ?r))" "integrity_ok md5 (rh_integrity (with_challenge ?g ?r))"
        "se_errorcode (rh_error (with_challenge ?g ?r)) = 0 \<or> se_errorcode (rh_error (with_challenge ?g ?r)) \<in> error_codes"
        using g(2) terminated_response_length [of resp] by (auto simp: handler_ready_def with_challenge_def error_ok_def)
    qed
    then show ?thesis
      using hr g(1) with_challenge_frame [OF g(1)] authorized_some [OF f] by simp
  qed
qed

section \<open>ProcessRequest\<close>

text \<open>
  What the caller of \<open>ProcessRequest\<close> provides: a reader that has validated the message \<open>c\<close>, a
  buffer that can take any message, and addresses of the Internet families.
\<close>

definition addrs_ok :: "StunMessageIn \<Rightarrow> TransportAddressSet \<Rightarrow> bool" where
  "addrs_ok msgIn addrs \<longleftrightarrow> is_ip_addr (mi_addrRemote msgIn) \<and> is_ip_addr (mi_addrLocal msgIn) \<and>
     is_ip_addr (ta_addr (addrs RolePP)) \<and> is_ip_addr (ta_addr (addrs RolePA)) \<and>
     is_ip_addr (ta_addr (addrs RoleAP)) \<and> is_ip_addr (ta_addr (addrs RoleAA))"

definition call_ok :: "bytes \<Rightarrow> StunMessageIn \<Rightarrow> StunMessageOut \<Rightarrow> TransportAddressSet \<Rightarrow> bool" where
  "call_ok c msgIn msgOut addrs \<longleftrightarrow> (\<exists>r. mi_pReader msgIn = Some r \<and> parsed r c) \<and>
     (\<exists>buf. mo_spBufferOut msgOut = Some buf \<and> buffer_ok buf \<and> MAX_STUN_MESSAGE_SIZE \<le> cb_allocated buf) \<and>
     addrs_ok msgIn addrs"

text \<open>The handler when authentication begins, from the constructor on.\<close>

definition prepared_out :: "StunMessageIn \<Rightarrow> StunMessageOut \<Rightarrow> StunMessageOut" where
  "prepared_out msgIn msgOut = msgOut\<lparr>
     mo_spBufferOut := map_option (\<lambda>buf. snd (CB_SetSize buf 0)) (mo_spBufferOut msgOut),
     mo_socketrole := mi_socketrole msgIn, mo_addrDest := mi_addrRemote msgIn\<rparr>"

definition request_start :: "StunMessageIn \<Rightarrow> StunMessageOut \<Rightarrow> TransportAddressSet \<Rightarrow> IStunAuth option
    \<Rightarrow> CStunRequestHandler" where
  "request_start msgIn msgOut addrs pAuth =
     (let h = CStunRequestHandler_init pAuth (Some addrs) msgIn (prepared_out msgIn msgOut); r = the (mi_pReader msgIn) in
      h\<lparr>rh_error := (rh_error h)\<lparr>se_msgtype := MR_GetMessageType r, se_msgclass := StunMsgClassFailureResponse\<rparr>,
        rh_transid := MR_GetTransactionId r, rh_fLegacyMode := MR_IsMessageLegacyFormat r\<rparr>)"

definition request_checked :: "StunMessageIn \<Rightarrow> StunMessageOut \<Rightarrow> TransportAddressSet \<Rightarrow> IStunAuth option
    \<Rightarrow> CStunRequestHandler" where
  "request_checked msgIn msgOut addrs pAuth =
     (let h = honour_response_port (request_start msgIn msgOut addrs pAuth) in
      if se_errorcode (rh_error h) = 0 \<and> MR_GetMessageType (the (mi_pReader msgIn)) \<noteq> StunMsgTypeBinding
      then set_errorcode h STUN_ERROR_BADREQUEST else h)"

lemma parsed_state: "parsed r c \<Longrightarrow> MR_GetState r = BodyValidated"
  by (simp add: parsed_def MR_GetState_def)

lemma parsed_complete: "parsed r c \<Longrightarrow> reader_complete r"
  using parsed_pointer(1) [of r c] parsed_state [of r c] by (simp add: reader_complete_def)

lemma parsed_tid: "parsed r c \<Longrightarrow> MR_GetTransactionId r = msg_tid c \<and> length (msg_tid c) = 16"
proof -
  assume p: "parsed r c"
  then obtain al where "reader_ok al c r" "mr_state r = BodyValidated"
    by (auto simp: parsed_def)
  then show ?thesis
    using parsed_pointer(3) [OF p] by (simp add: reader_ok_def MR_GetTransactionId_def header_fields_def msg_tid_def)
qed

lemma ProcessRequest_not_request:
  assumes c: "call_ok c msgIn msgOut addrs"
    and r: "MR_GetMessageClass (the (mi_pReader msgIn)) \<noteq> StunMsgClassRequest"
  shows "ProcessRequest hmac md5 msgIn msgOut (Some addrs) pAuth = (E_FAIL, prepared_out msgIn msgOut)"
proof -
  obtain rd buf where rb: "mi_pReader msgIn = Some rd" "parsed rd c" "mo_spBufferOut msgOut = Some buf"
    "buffer_ok buf" "MAX_STUN_MESSAGE_SIZE \<le> cb_allocated buf"
    using c by (auto simp: call_ok_def)
  show ?thesis
    using r rb parsed_state [OF rb(2)]
    by (simp add: ProcessRequest_def ProcessRequestImpl_def prepared_out_def CStunRequestHandler_init_def)
qed

lemma ProcessRequest_request:
  assumes c: "call_ok c msgIn msgOut addrs"
    and r: "MR_GetMessageClass (the (mi_pReader msgIn)) = StunMsgClassRequest"
  shows "ProcessRequest hmac md5 msgIn msgOut (Some addrs) pAuth =
    (S_OK, answer hmac md5 (authorized hmac md5 (request_checked msgIn msgOut addrs pAuth)))"
proof -
  obtain rd buf where rb: "mi_pReader msgIn = Some rd" "parsed rd c" "mo_spBufferOut msgOut = Some buf"
    "buffer_ok buf" "MAX_STUN_MESSAGE_SIZE \<le> cb_allocated buf"
    using c by (auto simp: call_ok_def)
  define h0 where "h0 = CStunRequestHandler_init pAuth (Some addrs) msgIn (prepared_out msgIn msgOut)"
  have "ProcessRequest hmac md5 msgIn msgOut (Some addrs) pAuth
      = (fst (ProcessRequestImpl hmac md5 h0), rh_pMsgOut (snd (ProcessRequestImpl hmac md5 h0)))"
    using rb parsed_state [OF rb(2)]
    by (simp add: ProcessRequest_def h0_def prepared_out_def case_prod_beta Let_def)
  moreover have "rh_pMsgIn h0 = msgIn"
    by (simp add: h0_def CStunRequestHandler_init_def)
  ultimately show ?thesis
    using r unfolding ProcessRequestImpl_def request_checked_def request_start_def answer_def authorized_def Let_def
      h0_def [symmetric] by simp
qed

lemma request_checked_ready:
  assumes c: "call_ok c msgIn msgOut addrs"
  shows "handler_ready md5 (request_checked msgIn msgOut addrs pAuth)"
    "reader_complete (rh_reader (request_checked msgIn msgOut addrs pAuth))"
proof -
  obtain rd buf where rb: "mi_pReader msgIn = Some rd" "parsed rd c" "mo_spBufferOut msgOut = Some buf"
    "buffer_ok buf" "MAX_STUN_MESSAGE_SIZE \<le> cb_allocated buf"
    using c by (auto simp: call_ok_def)
  have "out_ready (cb_allocated buf) (request_start msgIn msgOut addrs pAuth)"
    using rb by (auto simp: out_ready_def request_start_def prepared_out_def CStunRequestHandler_init_def Let_def
        buffer_ok_def split: option.splits)
  moreover have "addresses_ok (request_start msgIn msgOut addrs pAuth)"
    using c by (simp add: addresses_ok_def request_start_def CStunRequestHandler_init_def call_ok_def addrs_ok_def Let_def)
  ultimately have s: "handler_ready md5 (request_start msgIn msgOut addrs pAuth)"
    using rb parsed_tid [OF rb(2)]
    by (auto simp: handler_ready_def request_start_def CStunRequestHandler_init_def error_ok_def integrity_ok_def Let_def)
  have b: "STUN_ERROR_BADREQUEST \<in> error_codes"
    by (simp add: error_codes_def)
  have "handler_ready md5 (honour_response_port h)" if "handler_ready md5 h" for h
    using that b unfolding honour_response_port_def Let_def handler_ready_def
    by (auto simp: addresses_ok_def error_ok_def set_errorcode_def out_ready_def)
  from this [OF s] show "handler_ready md5 (request_checked msgIn msgOut addrs pAuth)"
    using b by (auto simp: request_checked_def Let_def handler_ready_def addresses_ok_def set_errorcode_def error_ok_def out_ready_def)
  have "rh_pMsgIn (request_checked msgIn msgOut addrs pAuth) = msgIn"
    by (simp add: request_checked_def request_start_def honour_response_port_def Let_def set_errorcode_def
        CStunRequestHandler_init_def)
  then show "reader_complete (rh_reader (request_checked msgIn msgOut addrs pAuth))"
    using rb parsed_complete by simp
qed

lemma request_checked_fields:
  fixes pAuth :: "IStunAuth option"
  assumes c: "call_ok c msgIn msgOut addrs"
  defines "h \<equiv> request_checked msgIn msgOut addrs pAuth" and "r \<equiv> the (mi_pReader msgIn)"
  shows "rh_pMsgIn h = msgIn" "rh_pAddrSet h = Some addrs" "rh_transid h = msg_tid c" "rh_pAuth h = pAuth"
    "rh_fLegacyMode h = MR_IsMessageLegacyFormat r" "mo_socketrole (rh_pMsgOut h) = mi_socketrole msgIn"
    "se_msgclass (rh_error h) = StunMsgClassFailureResponse" "se_msgtype (rh_error h) = MR_GetMessageType r"
    "rh_integrity h = rh_integrity (CStunRequestHandler_init pAuth (Some addrs) msgIn msgOut)"
proof -
  show "rh_pMsgIn h = msgIn" "rh_pAddrSet h = Some addrs" "rh_pAuth h = pAuth" "rh_fLegacyMode h = MR_IsMessageLegacyFormat r"
    "mo_socketrole (rh_pMsgOut h) = mi_socketrole msgIn"
    "se_msgclass (rh_error h) = StunMsgClassFailureResponse" "se_msgtype (rh_error h) = MR_GetMessageType r"
    "rh_integrity h = rh_integrity (CStunRequestHandler_init pAuth (Some addrs) msgIn msgOut)"
    by (simp_all add: h_def r_def request_checked_def request_start_def honour_response_port_def Let_def
        set_errorcode_def CStunRequestHandler_init_def prepared_out_def)
  have "rh_transid h = MR_GetTransactionId r"
    by (simp add: h_def r_def request_checked_def request_start_def honour_response_port_def Let_def set_errorcode_def)
  then show "rh_transid h = msg_tid c"
    using c parsed_tid by (auto simp: call_ok_def r_def)
qed

section \<open>The decisions of the handler\<close>

text \<open>
  What the request asks for: the response port (0 when there is none), the change of the
  sending socket, and the socket that may answer.
\<close>

definition response_port :: "CStunMessageReader \<Rightarrow> u16" where
  "response_port r = case_option 0 id (snd (MR_GetResponsePort r))"

definition change_asked :: "CStunMessageReader \<Rightarrow> bool \<times> bool" where
  "change_asked r = (let (hr, ch) = MR_GetChangeRequest r in
     if FAILED hr then (False, False) else (fChangeIP ch, fChangePort ch))"

definition changed_role :: "bool \<times> bool \<Rightarrow> SocketRole \<Rightarrow> SocketRole" where
  "changed_role ch role = (let role = (if fst ch then SocketRoleSwapIP role else role) in
     if snd ch then SocketRoleSwapPort role else role)"

definition wants_padding :: "CStunMessageReader \<Rightarrow> bool" where
  "wants_padding r \<longleftrightarrow> SUCCEEDED (fst (MR_GetPaddingAttributeSize r))"

definition output_role :: "StunMessageIn \<Rightarrow> TransportAddressSet \<Rightarrow> SocketRole option" where
  "output_role msgIn addrs = (let r = the (mi_pReader msgIn); ch = change_asked r;
       role = changed_role ch (mi_socketrole msgIn); tcp = mi_fConnectionOriented msgIn in
     if MR_GetMessageType r \<noteq> StunMsgTypeBinding \<or> response_port r \<noteq> 0 \<and> (tcp \<or> wants_padding r)
        \<or> ch \<noteq> (False, False) \<and> (tcp \<or> \<not> ta_fValid (addrs role))
     then None else Some role)"

definition response_dest :: "StunMessageIn \<Rightarrow> CSocketAddress" where
  "response_dest msgIn = (let p = response_port (the (mi_pReader msgIn)) in
     if p \<noteq> 0 \<and> \<not> mi_fConnectionOriented msgIn then SetPort (mi_addrRemote msgIn) p else mi_addrRemote msgIn)"

lemma honour_response_port_eq:
  "honour_response_port h = (let p = response_port (rh_reader h) in
     if p = 0 then h
     else if mi_fConnectionOriented (rh_pMsgIn h)
     then set_errorcode (h\<lparr>rh_fRequestHasResponsePort := True\<rparr>) STUN_ERROR_BADREQUEST
     else h\<lparr>rh_fRequestHasResponsePort := True, rh_pMsgOut := (rh_pMsgOut h)\<lparr>mo_addrDest :=
       SetPort (mo_addrDest (rh_pMsgOut h)) p\<rparr>\<rparr>)"
  by (simp add: honour_response_port_def response_port_def Let_def)

lemma request_start_fields:
  "rh_pMsgIn (request_start msgIn msgOut addrs pAuth) = msgIn"
  "mo_addrDest (rh_pMsgOut (request_start msgIn msgOut addrs pAuth)) = mi_addrRemote msgIn"
  "se_errorcode (rh_error (request_start msgIn msgOut addrs pAuth)) = 0"
  "rh_fRequestHasResponsePort (request_start msgIn msgOut addrs pAuth) = False"
  by (simp_all add: request_start_def Let_def CStunRequestHandler_init_def prepared_out_def)

lemma request_checked_decides:
  fixes pAuth :: "IStunAuth option" and msgIn msgOut addrs
  defines "h \<equiv> request_checked msgIn msgOut addrs pAuth" and "r \<equiv> the (mi_pReader msgIn)"
  shows "se_errorcode (rh_error h) = (if MR_GetMessageType r \<noteq> StunMsgTypeBinding
      \<or> response_port r \<noteq> 0 \<and> mi_fConnectionOriented msgIn then STUN_ERROR_BADREQUEST else 0)"
    "mo_addrDest (rh_pMsgOut h) = response_dest msgIn"
    "rh_fRequestHasResponsePort h \<longleftrightarrow> response_port r \<noteq> 0"
proof -
  define s where "s = request_start msgIn msgOut addrs pAuth"
  have s: "rh_pMsgIn s = msgIn" "mo_addrDest (rh_pMsgOut s) = mi_addrRemote msgIn"
    "se_errorcode (rh_error s) = 0" "rh_fRequestHasResponsePort s = False"
    by (simp_all add: s_def request_start_fields)
  have h: "h = (let g = honour_response_port s in
      if se_errorcode (rh_error g) = 0 \<and> MR_GetMessageType r \<noteq> StunMsgTypeBinding
      then set_errorcode g STUN_ERROR_BADREQUEST else g)"
    by (simp add: h_def r_def s_def request_checked_def)
  show "se_errorcode (rh_error h) = (if MR_GetMessageType r \<noteq> StunMsgTypeBinding
      \<or> response_port r \<noteq> 0 \<and> mi_fConnectionOriented msgIn then STUN_ERROR_BADREQUEST else 0)"
    "mo_addrDest (rh_pMsgOut h) = response_dest msgIn"
    "rh_fRequestHasResponsePort h \<longleftrightarrow> response_port r \<noteq> 0"
    using s unfolding h honour_response_port_eq Let_def response_dest_def r_def [symmetric] s(1)
    by (cases "response_port r = 0"; cases "mi_fConnectionOriented msgIn";
        cases "MR_GetMessageType r = StunMsgTypeBinding"; simp add: set_errorcode_def)+
qed

lemma choose_output_eq:
  assumes "rh_pAddrSet h = Some addrs"
  shows "choose_output h = (let r = rh_reader h; ch = change_asked r; role = changed_role ch (mi_socketrole (rh_pMsgIn h)) in
    if rh_fRequestHasResponsePort h \<and> wants_padding r \<or> ch \<noteq> (False, False) \<and>
      (mi_fConnectionOriented (rh_pMsgIn h) \<or> \<not> ta_fValid (addrs role)) then None else Some role)"
  unfolding choose_output_def change_asked_def changed_role_def wants_padding_def HasAddress_def assms
  by (auto simp: Let_def SUCCEEDED_iff_not_FAILED split: prod.splits)

text \<open>Without authentication, the whole decision is \<open>output_role\<close>.\<close>

lemma checked_output_role:
  fixes pAuth :: "IStunAuth option"
  assumes c: "call_ok c msgIn msgOut addrs"
  defines "h \<equiv> request_checked msgIn msgOut addrs pAuth"
  shows "se_errorcode (rh_error h) = 0 \<Longrightarrow> choose_output h = output_role msgIn addrs"
    "output_role msgIn addrs = Some s \<Longrightarrow> se_errorcode (rh_error h) = 0"
    "se_errorcode (rh_error h) \<noteq> 0 \<Longrightarrow> se_errorcode (rh_error h) = STUN_ERROR_BADREQUEST"
proof -
  have set: "rh_pAddrSet h = Some addrs" "rh_pMsgIn h = msgIn"
    using request_checked_fields [OF c, of pAuth] by (simp_all add: h_def)
  note d = request_checked_decides [of msgIn msgOut addrs pAuth, folded h_def]
  show "se_errorcode (rh_error h) \<noteq> 0 \<Longrightarrow> se_errorcode (rh_error h) = STUN_ERROR_BADREQUEST"
    unfolding d by (simp split: if_splits)
  show "output_role msgIn addrs = Some s \<Longrightarrow> se_errorcode (rh_error h) = 0"
    unfolding d by (auto simp: output_role_def Let_def split: if_splits)
  assume "se_errorcode (rh_error h) = 0"
  then have e: "MR_GetMessageType (the (mi_pReader msgIn)) = StunMsgTypeBinding"
    "response_port (the (mi_pReader msgIn)) = 0 \<or> \<not> mi_fConnectionOriented msgIn"
    by (auto simp: d split: if_splits)
  show "choose_output h = output_role msgIn addrs"
    unfolding choose_output_eq [OF set(1)] set(2) d(3) output_role_def Let_def using e by auto
qed

lemma values_ok_small:
  assumes "length ads \<le> 30" "length (attrs_wire l ads) \<le> 780"
  shows "values_ok l ads"
proof -
  have "length (wire_value l d) \<le> length (attrs_wire l ads)" if "(t, d) \<in> set ads" for t d
  proof -
    obtain xs ys where "ads = xs @ (t, d) # ys"
      using split_list [OF \<open>(t, d) \<in> set ads\<close>] by blast
    then show ?thesis
      by (simp add: wire_value_def)
  qed
  with assms show ?thesis
    unfolding values_ok_def list_all_iff by (fastforce simp: stun_consts)
qed

lemma error_values_ok: "error_ok e \<Longrightarrow> values_ok l (error_attrs e)"
  using error_attrs_size [of e l] by (intro values_ok_small) (simp_all add: error_attrs_def)

lemma binding_values_ok:
  assumes a: "addresses_ok h" and i: "integrity_attrs hmac md5 i l' ty cls tid ads ias"
  shows "values_ok l (binding_attrs h s @ ias)"
proof -
  have "length (optional_attr t x) \<le> 1" for t x
    by (simp add: optional_attr_def split: option.split)
  from this [of "origin_type (rh_fLegacyMode h)" "origin_address h s"] this [of "other_type (rh_fLegacyMode h)" "other_address h"]
  have "length (binding_attrs h s) \<le> 4"
    unfolding binding_attrs_def Let_def length_append by simp
  moreover have "length ias \<le> 1"
    using i by (rule integrity_attrs_shape) simp_all
  ultimately show ?thesis
    using binding_attrs_size [OF a, of l s] integrity_attrs_size [OF i, of l] by (intro values_ok_small) simp_all
qed

section \<open>The outcome of a request\<close>

lemma request_outcome:
  fixes pAuth :: "IStunAuth option"
  assumes c: "call_ok c msgIn msgOut addrs" and ok: "hmac_ok hmac" "md5_ok md5"
  defines "g \<equiv> authorized hmac md5 (request_checked msgIn msgOut addrs pAuth)"
  shows "se_errorcode (rh_error g) \<noteq> 0 \<Longrightarrow>
      out_to (answer hmac md5 g) (mi_socketrole msgIn) (response_dest msgIn) (error_message g (rh_error g))"
    "se_errorcode (rh_error g) = 0 \<Longrightarrow> output_role msgIn addrs = None \<Longrightarrow>
      out_to (answer hmac md5 g) (mi_socketrole msgIn) (response_dest msgIn)
        (error_message g ((rh_error g)\<lparr>se_errorcode := STUN_ERROR_BADREQUEST\<rparr>))"
    "se_errorcode (rh_error g) = 0 \<Longrightarrow> output_role msgIn addrs = Some s \<Longrightarrow>
      \<exists>ias. integrity_attrs hmac md5 (rh_integrity g) (rh_fLegacyMode g) StunMsgTypeBinding
          StunMsgClassSuccessResponse (msg_tid c) (binding_attrs g s) ias \<and>
        out_to (answer hmac md5 g) s (response_dest msgIn) (msg_wire (rh_fLegacyMode g) StunMsgTypeBinding
          StunMsgClassSuccessResponse (msg_tid c) (binding_attrs g s @ ias))"
    "handler_ready md5 g" "rh_transid g = msg_tid c" "rh_fLegacyMode g = MR_IsMessageLegacyFormat (the (mi_pReader msgIn))"
    "rh_pMsgIn g = msgIn" "rh_pAddrSet g = Some addrs" "se_msgclass (rh_error g) = StunMsgClassFailureResponse"
    "se_msgtype (rh_error g) = MR_GetMessageType (the (mi_pReader msgIn))"
proof -
  define h where "h = request_checked msgIn msgOut addrs pAuth"
  note rdy = request_checked_ready(1) [OF c, of md5 pAuth, folded h_def] request_checked_ready(2) [OF c, of pAuth, folded h_def]
  have a: "auth_frame h g" "handler_ready md5 g"
    using authorized_ready [OF rdy(1) ok(2) rdy(2)] by (simp_all add: g_def h_def)
  note f = auth_frame_fields [OF a(1)] auth_frame_reads(1) [OF a(1)]
  note hf = request_checked_fields [OF c, of pAuth, folded h_def]
  note d = request_checked_decides [of msgIn msgOut addrs pAuth, folded h_def]
  note o = checked_output_role(1) [OF c, of pAuth, folded h_def]
  have code: "se_errorcode (rh_error h) = 0" if "se_errorcode (rh_error g) = 0"
  proof (rule ccontr)
    assume n: "se_errorcode (rh_error h) \<noteq> 0"
    then have "g = h"
      by (simp add: g_def h_def authorized_def unless_error_def)
    with n that show False
      by simp
  qed
  show "handler_ready md5 g" "rh_transid g = msg_tid c" "rh_pMsgIn g = msgIn" "rh_pAddrSet g = Some addrs"
    "rh_fLegacyMode g = MR_IsMessageLegacyFormat (the (mi_pReader msgIn))"
    "se_msgclass (rh_error g) = StunMsgClassFailureResponse"
    "se_msgtype (rh_error g) = MR_GetMessageType (the (mi_pReader msgIn))"
    using a(2) f hf by simp_all
  show "se_errorcode (rh_error g) \<noteq> 0 \<Longrightarrow>
      out_to (answer hmac md5 g) (mi_socketrole msgIn) (response_dest msgIn) (error_message g (rh_error g))"
    using answer_error [OF a(2)] f hf d(2) by simp
  show "se_errorcode (rh_error g) = 0 \<Longrightarrow> output_role msgIn addrs = None \<Longrightarrow>
      out_to (answer hmac md5 g) (mi_socketrole msgIn) (response_dest msgIn)
        (error_message g ((rh_error g)\<lparr>se_errorcode := STUN_ERROR_BADREQUEST\<rparr>))"
    using answer_refused [OF a(2)] f hf d(2) o [OF code] by simp
  show "se_errorcode (rh_error g) = 0 \<Longrightarrow> output_role msgIn addrs = Some s \<Longrightarrow>
      \<exists>ias. integrity_attrs hmac md5 (rh_integrity g) (rh_fLegacyMode g) StunMsgTypeBinding
          StunMsgClassSuccessResponse (msg_tid c) (binding_attrs g s) ias \<and>
        out_to (answer hmac md5 g) s (response_dest msgIn) (msg_wire (rh_fLegacyMode g) StunMsgTypeBinding
          StunMsgClassSuccessResponse (msg_tid c) (binding_attrs g s @ ias))"
    using answer_success [OF a(2) ok(1), of s] f hf d(2) o [OF code] by simp
qed

section \<open>What the client reads\<close>

lemma GetErrorCode_parsed:
  assumes p: "parsed r c" and v: "last_value c STUN_ATTRIBUTE_ERRORCODE = Some v" "4 \<le> length v"
  shows "MR_GetErrorCode r = (S_OK, Some (ucast ((v ! 2) AND 0x07) * 100 + ucast (v ! 3)))"
proof -
  obtain a rest where a: "MR_Lookup r STUN_ATTRIBUTE_ERRORCODE = Some a" "MR_data_at r (sa_offset a) = v @ rest"
    using parsed_lookup(2) [OF p v(1)] by blast
  have "drop 2 (v @ rest) ! 0 = v ! 2" "drop 2 (v @ rest) ! 1 = v ! 3"
    using v(2) by (auto simp: nth_append)
  with a show ?thesis
    by (simp add: MR_GetErrorCode_def Let_def)
qed

lemma error_code_bytes:
  assumes "300 \<le> e" "e \<le> (600 :: u16)"
  shows "ucast ((ucast (e div 100) :: byte) AND 0x07) * 100 + ucast (ucast (e mod 100) :: byte) = e"
proof -
  define n where "n = unat e"
  have n: "300 \<le> n" "n \<le> 600" "e = word_of_nat n"
    using assms by (simp_all add: n_def word_le_nat_alt)
  have d: "unat (e div 100) = n div 100" "unat (e mod 100) = n mod 100"
    by (simp_all add: n_def unat_div unat_mod)
  have d': "e div 100 = word_of_nat (n div 100)"
    unfolding d(1) [symmetric] by simp
  have "n div 100 = 3 \<or> n div 100 = 4 \<or> n div 100 = 5 \<or> n div 100 = 6"
    using n by auto
  then have c: "ucast ((ucast (e div 100) :: byte) AND 0x07) = e div 100"
    unfolding d' by auto
  have "unat (e mod 100) < 100"
    unfolding d(2) by simp
  then have "ucast (ucast (e mod 100) :: byte) = e mod 100"
    by (simp add: word_unat_eq_iff unsigned_ucast_eq unsigned_take_bit_eq take_bit_nat_eq_self)
  moreover have "e div 100 * 100 + e mod 100 = e"
    by (simp add: word_mod_div_equality)
  ultimately show ?thesis
    by (simp add: c)
qed

lemma wire_value_addr [simp]: "is_ip_addr a \<Longrightarrow> wire_value l (addr_wire a) = addr_wire a"
  by (rule wire_value_aligned) (simp add: length_addr_wire)

lemma wire_value_long: "length d \<le> length (wire_value l d)" "n < length d \<Longrightarrow> wire_value l d ! n = d ! n"
  by (simp_all add: wire_value_def nth_append)

text \<open>The types of the attributes of a binding response are distinct.\<close>

lemma binding_lookup:
  fixes g :: CStunRequestHandler and s :: SocketRole
  assumes i: "integrity_attrs hmac md5 i l' ty cls tid ads ias"
  defines "l \<equiv> rh_fLegacyMode g" and "A \<equiv> map_of (rev (binding_attrs g s @ ias))" and "remote \<equiv> mi_addrRemote (rh_pMsgIn g)"
  shows "A STUN_ATTRIBUTE_MAPPEDADDRESS = Some (addr_wire remote)"
    "A (xor_type l) = Some (addr_wire (ApplyStunXorMap remote (rh_transid g)))"
    "l \<Longrightarrow> A STUN_ATTRIBUTE_XORMAPPEDADDRESS = None"
    "A (other_type l) = map_option addr_wire (other_address g)" "l \<Longrightarrow> A STUN_ATTRIBUTE_OTHER_ADDRESS = None"
    "\<not> l \<Longrightarrow> A STUN_ATTRIBUTE_CHANGEDADDRESS = None"
    "A (origin_type l) = map_option addr_wire (origin_address g s)" "l \<Longrightarrow> A STUN_ATTRIBUTE_RESPONSE_ORIGIN = None"
    "\<not> l \<Longrightarrow> A STUN_ATTRIBUTE_SOURCEADDRESS = None"
    "A STUN_ATTRIBUTE_MESSAGEINTEGRITY = map_of ias STUN_ATTRIBUTE_MESSAGEINTEGRITY"
  by (rule integrity_attrs_shape [OF i]; cases "origin_address g s"; cases "other_address g"; cases l;
      simp add: A_def binding_attrs_def Let_def optional_attr_def remote_def l_def xor_type_def other_type_def
        origin_type_def stun_consts)+

text \<open>What an address accessor returns for the address \<open>a\<close>.\<close>

definition returns_address :: "hresult \<times> CSocketAddress option \<Rightarrow> CSocketAddress \<Rightarrow> bool" where
  "returns_address x a \<longleftrightarrow> (\<exists>b. x = (S_OK, Some b) \<and> IsSameIP_and_Port b a)"

lemma address_read:
  assumes p: "parsed r c" and a: "is_ip_addr a"
  shows "last_value c ty = Some (addr_wire a) \<Longrightarrow> \<exists>b. MR_GetAddressHelper r ty = (S_OK, Some b) \<and>
    is_ip_addr b \<and> IsSameIP_and_Port b a"
  using GetAddressHelper_parsed(2) [OF p _ a] by blast

lemma binding_response_client:
  fixes g :: CStunRequestHandler
  assumes a: "addresses_ok g" "length (rh_transid g) = 16"
    and i: "integrity_attrs hmac md5 i l' ty cls tid ads ias"
  defines "l \<equiv> rh_fLegacyMode g"
  assumes p: "parsed r c" and v: "\<And>t. last_value c t = map_option (wire_value l) (map_of (rev (binding_attrs g s @ ias)) t)"
    and t: "MR_GetTransactionId r = rh_transid g"
  shows "returns_address (MR_GetMappedAddress r) (mi_addrRemote (rh_pMsgIn g))"
    "returns_address (MR_GetXorMappedAddress r) (mi_addrRemote (rh_pMsgIn g))"
    "case other_address g of None \<Rightarrow> MR_GetOtherAddress r = (E_FAIL, None) | Some x \<Rightarrow> returns_address (MR_GetOtherAddress r) x"
    "case origin_address g s of None \<Rightarrow> MR_GetResponseOriginAddress r = (E_FAIL, None)
      | Some x \<Rightarrow> returns_address (MR_GetResponseOriginAddress r) x"
proof -
  let ?m = "mi_addrRemote (rh_pMsgIn g)" and ?x = "ApplyStunXorMap (mi_addrRemote (rh_pMsgIn g)) (rh_transid g)"
  note b = binding_lookup [OF i, of g s, folded l_def]
  have m: "is_ip_addr ?m" "is_ip_addr ?x"
    using a by (simp_all add: addresses_ok_def)
  have v': "last_value c t = map_option addr_wire x"
    if "map_of (rev (binding_attrs g s @ ias)) t = map_option addr_wire x" "\<And>y. x = Some y \<Longrightarrow> is_ip_addr y" for t x
    using that v [of t] by (cases x) auto
  have none: "MR_GetAddressHelper r t = (E_FAIL, None)" if "map_of (rev (binding_attrs g s @ ias)) t = None" for t
    using that v [of t] GetAddressHelper_parsed(1) [OF p, of t] by simp
  show "returns_address (MR_GetMappedAddress r) ?m"
    using address_read [OF p m(1)] v' [of STUN_ATTRIBUTE_MAPPEDADDRESS "Some ?m"] b(1) m
    by (fastforce simp: returns_address_def MR_GetMappedAddress_def)
  obtain y where y: "MR_GetAddressHelper r (xor_type l) = (S_OK, Some y)" "is_ip_addr y" "IsSameIP_and_Port y ?x"
    using address_read [OF p m(2)] v' [of "xor_type l" "Some ?x"] b(2) m by auto
  then have "IsSameIP_and_Port (ApplyStunXorMap y (rh_transid g)) ?m"
    using xor_same(1) [OF m(1)] by blast
  moreover have "MR_GetXorMappedAddress r = (S_OK, Some (ApplyStunXorMap y (rh_transid g)))"
    using y(1) none b(3) t by (cases l) (simp_all add: MR_GetXorMappedAddress_def Let_def xor_type_def MR_GetTransactionId_def)
  ultimately show "returns_address (MR_GetXorMappedAddress r) ?m"
    by (simp add: returns_address_def)
  have pick: "case x of None \<Rightarrow> MR_GetAddressHelper r t = (E_FAIL, None)
      | Some y \<Rightarrow> \<exists>z. MR_GetAddressHelper r t = (S_OK, Some z) \<and> IsSameIP_and_Port z y"
    if "map_of (rev (binding_attrs g s @ ias)) t = map_option addr_wire x" "\<And>y. x = Some y \<Longrightarrow> is_ip_addr y" for t x
    using that none v' [OF that] address_read [OF p, of _ t] by (cases x) fastforce+
  show "case other_address g of None \<Rightarrow> MR_GetOtherAddress r = (E_FAIL, None) | Some x \<Rightarrow> returns_address (MR_GetOtherAddress r) x"
    using pick [OF b(4) other_address_ok [OF a(1)]] none b(5,6)
    by (cases l; cases "other_address g") (auto simp: MR_GetOtherAddress_def Let_def other_type_def returns_address_def)
  show "case origin_address g s of None \<Rightarrow> MR_GetResponseOriginAddress r = (E_FAIL, None)
      | Some x \<Rightarrow> returns_address (MR_GetResponseOriginAddress r) x"
    using pick [OF b(7) origin_address_ok [OF a(1), of s]] none b(8,9)
    by (cases l; cases "origin_address g s") (auto simp: MR_GetResponseOriginAddress_def Let_def origin_type_def returns_address_def)
qed

section \<open>The reply as a function of the request\<close>

datatype auth_outcome = Refused u16 bytes bytes | Accepted "bytes option"

text \<open>What authentication decides: an error with nonce and realm, or the key of the integrity attribute.\<close>

definition auth_decision :: "(bytes \<Rightarrow> bytes \<Rightarrow> bytes) \<Rightarrow> (bytes \<Rightarrow> bytes) \<Rightarrow> CStunMessageReader
    \<Rightarrow> IStunAuth option \<Rightarrow> auth_outcome" where
  "auth_decision hmac md5 r pAuth = (case pAuth of
     None \<Rightarrow> Accepted None
   | Some f \<Rightarrow>
       let (hr, resp) = f (request_auth_attributes r) AuthResponse_zero; resp = terminated_response resp in
       if FAILED hr then Refused STUN_ERROR_BADREQUEST [] []
       else (case ar_responseType resp of
          Allow \<Rightarrow> Accepted None
        | Reject \<Rightarrow> Refused STUN_ERROR_BADREQUEST [] []
        | Unauthorized \<Rightarrow> Refused STUN_ERROR_UNAUTHORIZED (ar_szNonce resp) (ar_szRealm resp)
        | StaleNonce \<Rightarrow> Refused STUN_ERROR_STALENONCE (ar_szNonce resp) (ar_szRealm resp)
        | AllowConditional \<Rightarrow>
            if FAILED (MR_ValidateMessageIntegrity hmac r (Some (request_key md5 r resp)))
            then Refused STUN_ERROR_UNAUTHORIZED (ar_szNonce resp) (ar_szRealm resp)
            else Accepted (Some (request_key md5 r resp))))"

datatype reply = ErrorReply u16 bytes bytes | BindingReply SocketRole "bytes option"

definition request_refused :: "StunMessageIn \<Rightarrow> bool" where
  "request_refused msgIn \<longleftrightarrow> (let r = the (mi_pReader msgIn) in
     MR_GetMessageType r \<noteq> StunMsgTypeBinding \<or> response_port r \<noteq> 0 \<and> mi_fConnectionOriented msgIn)"

definition reply_spec :: "(bytes \<Rightarrow> bytes \<Rightarrow> bytes) \<Rightarrow> (bytes \<Rightarrow> bytes) \<Rightarrow> StunMessageIn
    \<Rightarrow> TransportAddressSet \<Rightarrow> IStunAuth option \<Rightarrow> reply" where
  "reply_spec hmac md5 msgIn addrs pAuth =
     (if request_refused msgIn then ErrorReply STUN_ERROR_BADREQUEST [] []
      else case auth_decision hmac md5 (the (mi_pReader msgIn)) pAuth of
        Refused e nonce realm \<Rightarrow> ErrorReply e nonce realm
      | Accepted key \<Rightarrow> (case output_role msgIn addrs of
          None \<Rightarrow> ErrorReply STUN_ERROR_BADREQUEST [] []
        | Some s \<Rightarrow> BindingReply s key))"

text \<open>The integrity members stand for the key.\<close>

definition sends_key :: "(bytes \<Rightarrow> bytes) \<Rightarrow> StunMessageIntegrity \<Rightarrow> bytes option \<Rightarrow> bool" where
  "sends_key md5 i key \<longleftrightarrow> (case key of None \<Rightarrow> \<not> si_fSendWithIntegrity i
     | Some k \<Rightarrow> si_fSendWithIntegrity i \<and> integrity_key md5 i = k)"

definition no_challenge :: "StunErrorCode \<Rightarrow> bool" where
  "no_challenge e \<longleftrightarrow> se_szNonce e = [] \<and> se_szRealm e = []"

lemma authorized_decision:
  fixes hmac :: "bytes \<Rightarrow> bytes \<Rightarrow> bytes" and md5 :: "bytes \<Rightarrow> bytes" and h :: CStunRequestHandler
  assumes md5: "md5_ok md5" and r: "reader_complete (rh_reader h)"
    and h: "se_errorcode (rh_error h) = 0" "\<not> si_fSendWithIntegrity (rh_integrity h)" "no_challenge (rh_error h)"
  defines "g \<equiv> authorized hmac md5 h"
  shows "case auth_decision hmac md5 (rh_reader h) (rh_pAuth h) of
      Refused e nonce realm \<Rightarrow> e \<in> error_codes \<and> rh_error g = (rh_error h)\<lparr>se_errorcode := e, se_szNonce := nonce, se_szRealm := realm\<rparr>
    | Accepted key \<Rightarrow> rh_error g = rh_error h \<and> sends_key md5 (rh_integrity g) key"
proof (cases "rh_pAuth h")
  case None
  then have "g = h"
    by (simp add: g_def authorized_none)
  with None h show ?thesis
    by (simp add: auth_decision_def Let_def sends_key_def)
next
  case (Some f)
  obtain hr resp where f: "f (request_auth_attributes (rh_reader h)) AuthResponse_zero = (hr, resp)"
    by fastforce
  let ?r = "terminated_response resp" and ?v = "MR_ValidateMessageIntegrity hmac (rh_reader h)"
  have same: "(rh_error h)\<lparr>se_errorcode := e\<rparr> = (rh_error h)\<lparr>se_errorcode := e, se_szNonce := [], se_szRealm := []\<rparr>" for e
    using h(3) by (cases "rh_error h") (simp add: no_challenge_def)
  have set: "rh_error (with_challenge (set_errorcode h e) resp') = (rh_error h)\<lparr>se_errorcode := e,
      se_szNonce := (if e = STUN_ERROR_UNAUTHORIZED \<or> e = STUN_ERROR_STALENONCE then ar_szNonce resp' else []),
      se_szRealm := (if e = STUN_ERROR_UNAUTHORIZED \<or> e = STUN_ERROR_STALENONCE then ar_szRealm resp' else [])\<rparr>" for e resp'
    using h(3) by (cases "rh_error h") (simp add: with_challenge_def set_errorcode_def no_challenge_def)
  have codes: "STUN_ERROR_BADREQUEST \<in> error_codes" "STUN_ERROR_UNAUTHORIZED \<in> error_codes" "STUN_ERROR_STALENONCE \<in> error_codes"
    by (simp_all add: error_codes_def)
  have st: "MR_GetState (rh_reader h) = BodyValidated" "DS_GetDataPointerUnsafe (mr_stream (rh_reader h)) \<noteq> None"
    using r by (simp_all add: reader_complete_def)
  note vc = ValidateAuth_conditional_cases [OF md5 st terminated_response_length(3) [of resp], of hmac]
  note a = authorized_some [OF Some h(1) f, of hmac md5, folded g_def]
  show ?thesis
  proof (cases "FAILED hr")
    case True
    then show ?thesis
      using a Some f codes same by (simp add: auth_decision_def Let_def set_errorcode_def)
  next
    case ok: False
    then have g: "g = with_challenge (after_check hmac md5 h ?r) ?r"
      using a by simp
    show ?thesis
    proof (cases "ar_responseType ?r")
      case AllowConditional
      show ?thesis
      proof (cases "FAILED (?v (Some (request_key md5 (rh_reader h) ?r)))")
        case True
        then show ?thesis
          using g ok Some f AllowConditional codes set vc(1) by (simp add: auth_decision_def Let_def after_check_def)
      next
        case False
        obtain i where i: "after_check hmac md5 h ?r = h\<lparr>rh_integrity := i\<rparr>" "si_fSendWithIntegrity i"
          "integrity_key md5 i = request_key md5 (rh_reader h) ?r"
          using vc(2) [OF False] AllowConditional by (auto simp: after_check_def)
        then have "g = h\<lparr>rh_integrity := i\<rparr>"
          using g h(1) by (simp add: with_challenge_def)
        then show ?thesis
          using i ok Some f AllowConditional False by (simp add: auth_decision_def Let_def sends_key_def)
      qed
    next
      case Allow
      then have "g = h"
        using g h(1) by (simp add: after_check_def with_challenge_def)
      then show ?thesis
        using Allow ok Some f h by (simp add: auth_decision_def Let_def sends_key_def)
    qed (use g ok Some f codes set in \<open>simp_all add: auth_decision_def Let_def after_check_def\<close>)
  qed
qed

text \<open>What the client finds in the two kinds of response.\<close>

definition client_error :: "u16 \<Rightarrow> bytes \<Rightarrow> bytes \<Rightarrow> CStunMessageReader \<Rightarrow> bool" where
  "client_error e nonce realm r \<longleftrightarrow> MR_GetErrorCode r = (S_OK, Some e) \<and>
     c_string (string_attribute r STUN_ATTRIBUTE_NONCE) = nonce \<and>
     c_string (string_attribute r STUN_ATTRIBUTE_REALM) = realm"

definition client_binding :: "(bytes \<Rightarrow> bytes \<Rightarrow> bytes) \<Rightarrow> CSocketAddress \<Rightarrow> bytes option \<Rightarrow> CStunMessageReader \<Rightarrow> bool" where
  "client_binding hmac remote key r \<longleftrightarrow> returns_address (MR_GetMappedAddress r) remote \<and>
     returns_address (MR_GetXorMappedAddress r) remote \<and>
     (case key of None \<Rightarrow> \<not> MR_HasMessageIntegrityAttribute r
      | Some k \<Rightarrow> MR_ValidateMessageIntegrity hmac r (Some k) = S_OK)"

definition sends_reply :: "(bytes \<Rightarrow> bytes \<Rightarrow> bytes) \<Rightarrow> StunMessageIn \<Rightarrow> reply \<Rightarrow> StunMessageOut \<Rightarrow> bool" where
  "sends_reply hmac msgIn rp out \<longleftrightarrow> mo_addrDest out = response_dest msgIn \<and>
     (let tid = MR_GetTransactionId (the (mi_pReader msgIn)); ty = MR_GetMessageType (the (mi_pReader msgIn)) in
      case rp of
        ErrorReply e nonce realm \<Rightarrow> mo_socketrole out = mi_socketrole msgIn \<and>
          (\<exists>m. holds_message out m \<and> client_sees m (\<lambda>r. response_header ty StunMsgClassFailureResponse tid r \<and>
             client_error e nonce realm r))
      | BindingReply s key \<Rightarrow> mo_socketrole out = s \<and>
          (\<exists>m. holds_message out m \<and> client_sees m (\<lambda>r. response_header ty StunMsgClassSuccessResponse tid r \<and>
             client_binding hmac (mi_addrRemote msgIn) key r)))"

text \<open>The strings that are sent hold no null byte.\<close>

lemma c_string_append_zeros: "c_string d = d \<Longrightarrow> c_string (d @ zero_bytes n) = d"
proof -
  assume "c_string d = d"
  then have "\<forall>x\<in>set d. x \<noteq> 0"
    unfolding c_string_def by (simp add: takeWhile_eq_all_conv)
  moreover have "takeWhile (\<lambda>x. x \<noteq> 0) (zero_bytes n) = []"
    by (cases n) (simp_all add: zero_bytes_def)
  ultimately show ?thesis
    by (simp add: c_string_def)
qed

lemma c_string_terminated [simp]: "c_string (terminated bs) = terminated bs"
  by (simp add: terminated_def c_string_def)

lemma string_attribute_value:
  assumes p: "parsed r c" and v: "last_value c t = map_option (wire_value l) (if d \<noteq> [] then Some d else None)"
    and d: "c_string d = d" "length d \<le> 64"
  shows "c_string (string_attribute r t) = d"
proof (cases "d = []")
  case True
  then show ?thesis
    using v GetString_parsed [OF p, of t] by (simp add: string_attribute_def c_string_def)
next
  case False
  have "padding_of (length d) + length d \<le> 64"
    using d(2) by (auto simp: padding_of_def) presburger
  then have "length (wire_value l d) < 65"
    using d(2) by (simp add: wire_value_def)
  then have "string_attribute r t = wire_value l d"
    using v False GetString_parsed [OF p, of t] by (simp add: string_attribute_def stun_consts)
  then show ?thesis
    using c_string_append_zeros [OF d(1)] d(1) by (simp add: wire_value_def)
qed

lemma error_lookup:
  "map_of (rev (error_attrs e)) STUN_ATTRIBUTE_ERRORCODE = Some (error_value (se_errorcode e) [70, 65, 73, 76, 69, 68])"
  "se_errorcode e = STUN_ERROR_UNAUTHORIZED \<or> se_errorcode e = STUN_ERROR_STALENONCE \<or> no_challenge e \<Longrightarrow>
   map_of (rev (error_attrs e)) STUN_ATTRIBUTE_NONCE = (if se_szNonce e \<noteq> [] then Some (se_szNonce e) else None) \<and>
   map_of (rev (error_attrs e)) STUN_ATTRIBUTE_REALM = (if se_szRealm e \<noteq> [] then Some (se_szRealm e) else None)"
  by (auto simp: error_attrs_def no_challenge_def) (auto simp: stun_consts)

lemma error_response_client:
  assumes p: "parsed r c" and v: "\<And>t. last_value c t = map_option (wire_value l) (map_of (rev (error_attrs e)) t)"
    and e: "error_ok e" "se_errorcode e \<in> error_codes" "c_string (se_szNonce e) = se_szNonce e"
      "c_string (se_szRealm e) = se_szRealm e"
      "se_errorcode e = STUN_ERROR_UNAUTHORIZED \<or> se_errorcode e = STUN_ERROR_STALENONCE \<or> no_challenge e"
  shows "client_error (se_errorcode e) (se_szNonce e) (se_szRealm e) r"
proof -
  let ?v = "error_value (se_errorcode e) [70, 65, 73, 76, 69, 68]"
  have w: "wire_value l ?v ! 2 = ?v ! 2" "wire_value l ?v ! 3 = ?v ! 3" "4 \<le> length (wire_value l ?v)"
    using wire_value_long(1) [of ?v l] by (simp_all add: wire_value_long(2) error_value_def)
  have "MR_GetErrorCode r = (S_OK, Some (se_errorcode e))"
    using GetErrorCode_parsed [OF p _ w(3)] v [of STUN_ATTRIBUTE_ERRORCODE] error_lookup(1) [of e] w
      error_codes_range [OF e(2)] error_code_bytes [of "se_errorcode e"] by (simp add: error_value_def)
  moreover have "c_string (string_attribute r STUN_ATTRIBUTE_NONCE) = se_szNonce e"
    using e v [of STUN_ATTRIBUTE_NONCE] error_lookup(2) [OF e(5)]
    by (intro string_attribute_value [OF p, where l = l]) (simp_all add: error_ok_def)
  moreover have "c_string (string_attribute r STUN_ATTRIBUTE_REALM) = se_szRealm e"
    using e v [of STUN_ATTRIBUTE_REALM] error_lookup(2) [OF e(5)]
    by (intro string_attribute_value [OF p, where l = l]) (simp_all add: error_ok_def)
  ultimately show ?thesis
    by (simp add: client_error_def)
qed

lemma error_message_seen:
  assumes tid: "length (rh_transid g) = 16" and cls: "se_msgclass e = StunMsgClassFailureResponse"
    and ty: "se_msgtype e AND 0x0fff = se_msgtype e"
    and e: "error_ok e" "se_errorcode e \<in> error_codes" "c_string (se_szNonce e) = se_szNonce e"
      "c_string (se_szRealm e) = se_szRealm e"
      "se_errorcode e = STUN_ERROR_UNAUTHORIZED \<or> se_errorcode e = STUN_ERROR_STALENONCE \<or> no_challenge e"
  shows "client_sees (error_message g e) (\<lambda>r. response_header (se_msgtype e) StunMsgClassFailureResponse (rh_transid g) r \<and>
    client_error (se_errorcode e) (se_szNonce e) (se_szRealm e) r)"
  unfolding error_message_def cls
proof (rule client_sees_wire [OF tid error_values_ok [OF e(1)] _ ty], goal_cases)
  case (2 r)
  then show ?case
    using error_response_client [OF 2(1) 2(3) e] by blast
qed simp

lemma normalized_bits: "normalized_type ty AND 0x0fff = normalized_type ty"
proof (rule u16_eqI)
  fix n :: nat
  assume n: "n < 16"
  have "\<forall>n<16. bit (normalized_type ty AND 0x0fff) n = bit (normalized_type ty) n"
    unfolding all16 normalized_type_def by (simp add: bit_simps)
  with n show "bit (normalized_type ty AND 0x0fff) n = bit (normalized_type ty) n"
    by blast
qed

lemma parsed_type: "parsed r c \<Longrightarrow> MR_GetMessageType r AND 0x0fff = MR_GetMessageType r"
  unfolding parsed_def MR_GetMessageType_def
  by (auto simp: reader_ok_def header_fields_def normalized_bits)

text \<open>A binding response, its integrity attribute included.\<close>

lemma integrity_client:
  assumes tid: "length tid = 16" and v: "values_ok l (ads @ ias)"
    and i: "integrity_attrs hmac md5 i l ty cls tid ads ias" and k: "sends_key md5 i key" "key \<noteq> Some []"
    and p: "parsed r (msg_wire l ty cls tid (ads @ ias))"
    and no: "map_of (rev (ads @ ias)) STUN_ATTRIBUTE_MESSAGEINTEGRITY = map_of ias STUN_ATTRIBUTE_MESSAGEINTEGRITY"
  shows "case key of None \<Rightarrow> \<not> MR_HasMessageIntegrityAttribute r
      | Some k \<Rightarrow> MR_ValidateMessageIntegrity hmac r (Some k) = S_OK"
proof (cases key)
  case None
  then have "ias = []"
    using i k by (simp add: sends_key_def integrity_attrs_def)
  then have "last_value (msg_wire l ty cls tid (ads @ ias)) STUN_ATTRIBUTE_MESSAGEINTEGRITY = None"
    using no last_value_msg_wire [OF tid v] by simp
  with None parsed_lookup(1) [OF p] show ?thesis
    by (simp add: MR_HasMessageIntegrityAttribute_def)
next
  case (Some k')
  let ?c = "msg_wire l ty cls tid (ads @ ias)"
  obtain h where h: "ias = [(STUN_ATTRIBUTE_MESSAGEINTEGRITY, h)]" "length h = 20"
    "h = hmac k' (take (length ?c - 24) ?c)"
    using i k Some by (auto simp: sends_key_def integrity_attrs_def)
  have "wire_value l h = h"
    using h(2) by (intro wire_value_aligned) simp
  then have "msg_values ?c = map (\<lambda>(t, d). (t, wire_value l d)) ads @ [(STUN_ATTRIBUTE_MESSAGEINTEGRITY, h)]"
    using msg_wire_valid(2) [OF tid v, of True] h(1) by simp
  from Validate_last [OF p this h(2), of k' hmac] show ?thesis
    using h(3) k(2) Some by simp
qed

lemma binding_message_seen:
  assumes a: "handler_ready md5 g" and s: "integrity_attrs hmac md5 (rh_integrity g) (rh_fLegacyMode g) StunMsgTypeBinding
      StunMsgClassSuccessResponse (rh_transid g) (binding_attrs g s) ias"
    and k: "sends_key md5 (rh_integrity g) key" "key \<noteq> Some []"
  shows "client_sees (msg_wire (rh_fLegacyMode g) StunMsgTypeBinding StunMsgClassSuccessResponse (rh_transid g)
      (binding_attrs g s @ ias)) (\<lambda>r. response_header StunMsgTypeBinding StunMsgClassSuccessResponse (rh_transid g) r \<and>
      client_binding hmac (mi_addrRemote (rh_pMsgIn g)) key r \<and>
      (case other_address g of None \<Rightarrow> MR_GetOtherAddress r = (E_FAIL, None) | Some x \<Rightarrow> returns_address (MR_GetOtherAddress r) x) \<and>
      (case origin_address g s of None \<Rightarrow> MR_GetResponseOriginAddress r = (E_FAIL, None)
       | Some x \<Rightarrow> returns_address (MR_GetResponseOriginAddress r) x))"
proof -
  have t: "length (rh_transid g) = 16" "addresses_ok g"
    using a by (simp_all add: handler_ready_def)
  have v: "values_ok (rh_fLegacyMode g) (binding_attrs g s @ ias)"
    by (rule binding_values_ok [OF t(2) s])
  show ?thesis
  proof (rule client_sees_wire [OF t(1) v], goal_cases)
    case (3 r)
    have "MR_GetTransactionId r = rh_transid g"
      using 3(2) by (simp add: response_header_def)
    note b = binding_response_client [OF t(2,1) s 3(1) 3(3) this]
    have "case key of None \<Rightarrow> \<not> MR_HasMessageIntegrityAttribute r
      | Some k \<Rightarrow> MR_ValidateMessageIntegrity hmac r (Some k) = S_OK"
      by (rule integrity_client [OF t(1) v s k 3(1) binding_lookup(10) [OF s]])
    with b 3(2) show ?case
      by (simp add: client_binding_def)
  qed (simp_all add: stun_consts)
qed

lemma holds_messageI: "out_to out role dest m \<Longrightarrow> holds_message out m"
  by (simp add: out_to_def)

text \<open>The strings of a refusal, and the parts of \<open>reply_spec\<close> at the start of authentication.\<close>

lemma auth_refused_strings:
  assumes "auth_decision hmac md5 r pAuth = Refused e nonce realm"
  shows "c_string nonce = nonce \<and> c_string realm = realm \<and> length nonce \<le> 64 \<and> length realm \<le> 64 \<and>
    (e = STUN_ERROR_UNAUTHORIZED \<or> e = STUN_ERROR_STALENONCE \<or> nonce = [] \<and> realm = [])"
proof -
  have n: "c_string [] = []"
    by (simp add: c_string_def)
  show ?thesis
    using assms n unfolding auth_decision_def Let_def
    by (auto simp: terminated_response_def terminated_length split: option.splits prod.splits if_splits AuthResponseType.splits)
qed

lemma checked_start:
  fixes pAuth :: "IStunAuth option"
  assumes c: "call_ok c msgIn msgOut addrs"
  defines "h \<equiv> request_checked msgIn msgOut addrs pAuth"
  shows "\<not> si_fSendWithIntegrity (rh_integrity h)" "no_challenge (rh_error h)"
    "se_errorcode (rh_error h) = (if request_refused msgIn then STUN_ERROR_BADREQUEST else 0)"
  using request_checked_decides(1) [of msgIn msgOut addrs pAuth]
  by (simp_all add: h_def request_refused_def Let_def)
    (simp_all add: request_checked_def request_start_def honour_response_port_def Let_def set_errorcode_def
      CStunRequestHandler_init_def no_challenge_def)

lemma error_reply_sent:
  assumes o: "out_to out (mi_socketrole msgIn) (response_dest msgIn) (error_message g e)"
    and g: "length (rh_transid g) = 16" "rh_transid g = MR_GetTransactionId (the (mi_pReader msgIn))"
    and m: "se_msgclass e = StunMsgClassFailureResponse" "se_msgtype e = MR_GetMessageType (the (mi_pReader msgIn))"
      "parsed (the (mi_pReader msgIn)) c"
    and e: "error_ok e" "se_errorcode e \<in> error_codes" "c_string (se_szNonce e) = se_szNonce e"
      "c_string (se_szRealm e) = se_szRealm e"
      "se_errorcode e = STUN_ERROR_UNAUTHORIZED \<or> se_errorcode e = STUN_ERROR_STALENONCE \<or> no_challenge e"
  shows "sends_reply hmac msgIn (ErrorReply (se_errorcode e) (se_szNonce e) (se_szRealm e)) out"
proof -
  have ty: "se_msgtype e AND 0x0fff = se_msgtype e"
    using parsed_type [OF m(3)] m(2) by simp
  show ?thesis
    using error_message_seen [OF g(1) m(1) ty e] o g(2) m(2) by (auto simp: sends_reply_def out_to_def)
qed

text \<open>A decided binding reply, with everything a client reads in it.\<close>

lemma binding_reply_sent:
  fixes pAuth :: "IStunAuth option"
  assumes c: "call_ok c msgIn msgOut addrs" and ok: "hmac_ok hmac" "md5_ok md5"
    and rp: "reply_spec hmac md5 msgIn addrs pAuth = BindingReply s key"
  defines "g \<equiv> authorized hmac md5 (request_checked msgIn msgOut addrs pAuth)"
  shows "\<exists>m. out_to (answer hmac md5 g) s (response_dest msgIn) m \<and>
    client_sees m (\<lambda>r. response_header StunMsgTypeBinding StunMsgClassSuccessResponse (msg_tid c) r \<and>
      client_binding hmac (mi_addrRemote msgIn) key r \<and>
      (case other_address g of None \<Rightarrow> MR_GetOtherAddress r = (E_FAIL, None) | Some x \<Rightarrow> returns_address (MR_GetOtherAddress r) x) \<and>
      (case origin_address g s of None \<Rightarrow> MR_GetResponseOriginAddress r = (E_FAIL, None)
       | Some x \<Rightarrow> returns_address (MR_GetResponseOriginAddress r) x))"
proof -
  define h where "h = request_checked msgIn msgOut addrs pAuth"
  obtain r where r: "mi_pReader msgIn = Some r" "parsed r c"
    using c by (auto simp: call_ok_def)
  note out = request_outcome [OF c ok, of pAuth, folded g_def]
  note st = checked_start [OF c, of pAuth, folded h_def]
  note hf = request_checked_fields [OF c, of pAuth, folded h_def]
  have rc: "reader_complete (rh_reader h)"
    using request_checked_ready(2) [OF c, of pAuth] by (simp add: h_def)
  have some: "\<not> request_refused msgIn" "auth_decision hmac md5 r pAuth = Accepted key" "output_role msgIn addrs = Some s"
    using rp r by (auto simp: reply_spec_def split: if_splits auth_outcome.splits option.splits)
  have h0: "se_errorcode (rh_error h) = 0"
    using st(3) some(1) by simp
  note d = authorized_decision [OF ok(2) rc h0 st(1,2), of hmac]
  have g: "rh_error g = rh_error h" "sends_key md5 (rh_integrity g) key"
    using d some(2) hf r by (simp_all add: g_def h_def [symmetric])
  have "integrity_ok md5 (rh_integrity g)"
    using out(4) by (simp add: handler_ready_def)
  then have k: "key \<noteq> Some []"
    using g(2) by (auto simp: sends_key_def integrity_ok_def)
  obtain ias where i: "integrity_attrs hmac md5 (rh_integrity g) (rh_fLegacyMode g) StunMsgTypeBinding
        StunMsgClassSuccessResponse (rh_transid g) (binding_attrs g s) ias"
    "out_to (answer hmac md5 g) s (response_dest msgIn) (msg_wire (rh_fLegacyMode g) StunMsgTypeBinding
        StunMsgClassSuccessResponse (rh_transid g) (binding_attrs g s @ ias))"
    using out(3) [OF _ some(3)] g(1) h0 out(5) by auto
  show ?thesis
    using binding_message_seen [OF out(4) i(1) g(2) k] i(2) out(5,7) by auto
qed

lemma reply_sent:
  fixes pAuth :: "IStunAuth option"
  assumes c: "call_ok c msgIn msgOut addrs" and ok: "hmac_ok hmac" "md5_ok md5"
  defines "g \<equiv> authorized hmac md5 (request_checked msgIn msgOut addrs pAuth)"
  shows "sends_reply hmac msgIn (reply_spec hmac md5 msgIn addrs pAuth) (answer hmac md5 g)"
proof -
  define h where "h = request_checked msgIn msgOut addrs pAuth"
  obtain r where r: "mi_pReader msgIn = Some r" "parsed r c"
    using c by (auto simp: call_ok_def)
  note out = request_outcome [OF c ok, of pAuth, folded g_def]
  note st = checked_start [OF c, of pAuth, folded h_def]
  note hf = request_checked_fields [OF c, of pAuth, folded h_def]
  have rc: "reader_complete (rh_reader h)"
    using request_checked_ready(2) [OF c, of pAuth] by (simp add: h_def)
  have tid: "rh_transid g = MR_GetTransactionId (the (mi_pReader msgIn))" "length (rh_transid g) = 16"
    using out(4,5) r parsed_tid [OF r(2)] by (simp_all add: handler_ready_def)
  have pr: "parsed (the (mi_pReader msgIn)) c"
    using r by simp
  note err = error_reply_sent [where g = g and msgIn = msgIn and c = c and hmac = hmac, OF _ tid(2,1) _ _ pr]
  have codes: "STUN_ERROR_BADREQUEST \<in> error_codes"
    by (simp add: error_codes_def)
  have no: "c_string [] = []"
    by (simp add: c_string_def)
  consider (refused) "request_refused msgIn"
    | (auth) e nonce realm where "\<not> request_refused msgIn" "auth_decision hmac md5 r pAuth = Refused e nonce realm"
    | (none) key where "\<not> request_refused msgIn" "auth_decision hmac md5 r pAuth = Accepted key" "output_role msgIn addrs = None"
    | (some) key s where "\<not> request_refused msgIn" "auth_decision hmac md5 r pAuth = Accepted key" "output_role msgIn addrs = Some s"
    by (cases "auth_decision hmac md5 r pAuth"; cases "output_role msgIn addrs") auto
  then show ?thesis
  proof cases
    case refused
    then have gh: "g = h" "se_errorcode (rh_error g) = STUN_ERROR_BADREQUEST"
      using st(3) by (simp_all add: g_def h_def authorized_def unless_error_def)
    have nc: "se_szNonce (rh_error g) = []" "se_szRealm (rh_error g) = []"
      using st(2) gh by (simp_all add: no_challenge_def)
    have "error_ok (rh_error g)"
      using out(4) by (simp add: handler_ready_def)
    with err [of "answer hmac md5 g" "rh_error g"] out gh nc no codes refused show ?thesis
      by (simp add: reply_spec_def no_challenge_def)
  next
    case auth
    have h0: "se_errorcode (rh_error h) = 0"
      using st(3) auth(1) by simp
    note d = authorized_decision [OF ok(2) rc h0 st(1,2), of hmac]
    have g: "e \<in> error_codes" "rh_error g = (rh_error h)\<lparr>se_errorcode := e, se_szNonce := nonce, se_szRealm := realm\<rparr>"
      using d auth(2) hf r by (simp_all add: g_def h_def [symmetric])
    have "e \<noteq> 0"
      using error_codes_range [OF g(1)] by simp
    moreover have "error_ok (rh_error g)"
      using out(4) by (simp add: handler_ready_def)
    ultimately show ?thesis
      using err [of "answer hmac md5 g" "rh_error g"] out g auth_refused_strings [OF auth(2)] auth r
      by (simp add: reply_spec_def no_challenge_def)
  next
    case none
    have h0: "se_errorcode (rh_error h) = 0"
      using st(3) none(1) by simp
    note d = authorized_decision [OF ok(2) rc h0 st(1,2), of hmac]
    have g: "rh_error g = rh_error h"
      using d none(2) hf r by (simp add: g_def h_def [symmetric])
    let ?e = "(rh_error g)\<lparr>se_errorcode := STUN_ERROR_BADREQUEST\<rparr>"
    have nc: "se_szNonce ?e = []" "se_szRealm ?e = []" "no_challenge ?e"
      using st(2) g by (simp_all add: no_challenge_def)
    have "error_ok ?e"
      using out(4) by (simp add: handler_ready_def error_ok_def)
    with err [of "answer hmac md5 g" ?e] out g h0 nc no codes none r show ?thesis
      by (simp add: reply_spec_def)
  next
    case some
    then have rp: "reply_spec hmac md5 msgIn addrs pAuth = BindingReply s key"
      using r by (simp add: reply_spec_def)
    have "MR_GetMessageType r = StunMsgTypeBinding"
      using some(1) r by (simp add: request_refused_def Let_def)
    then show ?thesis
      using binding_reply_sent [OF c ok rp] tid out(5) r
      by (auto simp: rp sends_reply_def out_to_def client_sees_def g_def)
  qed
qed

text \<open>The shape and size of every response.\<close>

text \<open>The other address of a response, by the addresses of the server.\<close>

definition reported_other :: "TransportAddressSet \<Rightarrow> SocketRole \<Rightarrow> CSocketAddress option" where
  "reported_other addrs role = (let opposite = SocketRoleSwapIP (SocketRoleSwapPort role) in
     if ta_fValid (addrs RolePP) \<and> ta_fValid (addrs RolePA) \<and> ta_fValid (addrs RoleAP) \<and> ta_fValid (addrs RoleAA) \<and>
        \<not> IsIPAddressZero (ta_addr (addrs opposite)) then Some (ta_addr (addrs opposite)) else None)"

lemma other_address_reported_eq:
  assumes "rh_pAddrSet g = Some addrs"
  shows "other_address g = reported_other addrs (mi_socketrole (rh_pMsgIn g))"
  unfolding other_address_def Let_def HasAddress_def IsIPAddressZeroOrInvalid_def role_addr_def assms reported_other_def
  by (cases "mi_socketrole (rh_pMsgIn g)") auto

text \<open>A binding response, and what its receiver finds in it.\<close>

lemma binding_response_sent:
  assumes "call_ok c msgIn msgOut addrs" "MR_GetMessageClass (the (mi_pReader msgIn)) = StunMsgClassRequest"
    and "hmac_ok hmac" "md5_ok md5" "reply_spec hmac md5 msgIn addrs pAuth = BindingReply s key"
  shows "\<exists>out m. ProcessRequest hmac md5 msgIn msgOut (Some addrs) pAuth = (S_OK, out) \<and>
    out_to out s (response_dest msgIn) m \<and> client_sees m (\<lambda>r.
      response_header StunMsgTypeBinding StunMsgClassSuccessResponse (msg_tid c) r \<and> client_binding hmac (mi_addrRemote msgIn) key r \<and>
      (case reported_other addrs (mi_socketrole msgIn) of None \<Rightarrow> MR_GetOtherAddress r = (E_FAIL, None)
       | Some x \<Rightarrow> returns_address (MR_GetOtherAddress r) x))"
proof -
  let ?g = "authorized hmac md5 (request_checked msgIn msgOut addrs pAuth)"
  have "other_address ?g = reported_other addrs (mi_socketrole msgIn)"
    using other_address_reported_eq [of ?g addrs] request_outcome(7,8) [OF assms(1,3,4), of pAuth] by simp
  then show ?thesis
    using binding_reply_sent [OF assms(1,3,4,5)] ProcessRequest_request [OF assms(1,2)]
    by (auto simp: client_sees_def)
qed

lemma answer_shape:
  fixes pAuth :: "IStunAuth option"
  assumes c: "call_ok c msgIn msgOut addrs" and ok: "hmac_ok hmac" "md5_ok md5"
  defines "g \<equiv> authorized hmac md5 (request_checked msgIn msgOut addrs pAuth)"
  shows "\<exists>l ty cls ads. holds_message (answer hmac md5 g) (msg_wire l ty cls (msg_tid c) ads) \<and> values_ok l ads \<and>
    length (attrs_wire l ads) \<le> 158"
proof -
  note out = request_outcome [OF c ok, of pAuth, folded g_def]
  have g: "error_ok (rh_error g)" "addresses_ok g"
    using out(4) by (simp_all add: handler_ready_def)
  have err: "?thesis" if "out_to (answer hmac md5 g) role dest (error_message g e)" "error_ok e" for role dest e
    using that error_values_ok [OF that(2)] error_attrs_size [OF that(2)] out(5)
    unfolding error_message_def out_to_def by metis
  consider (e) "se_errorcode (rh_error g) \<noteq> 0" | (n) "se_errorcode (rh_error g) = 0" "output_role msgIn addrs = None"
    | (s) s where "se_errorcode (rh_error g) = 0" "output_role msgIn addrs = Some s"
    by fastforce
  then show ?thesis
  proof cases
    case e
    from err [OF out(1) [OF e] g(1)] show ?thesis .
  next
    case n
    from g(1) have "error_ok ((rh_error g)\<lparr>se_errorcode := STUN_ERROR_BADREQUEST\<rparr>)"
      by (simp add: error_ok_def)
    from err [OF out(2) [OF n] this] show ?thesis .
  next
    case s
    obtain ias where i: "integrity_attrs hmac md5 (rh_integrity g) (rh_fLegacyMode g) StunMsgTypeBinding
          StunMsgClassSuccessResponse (msg_tid c) (binding_attrs g s) ias"
      "holds_message (answer hmac md5 g) (msg_wire (rh_fLegacyMode g) StunMsgTypeBinding
          StunMsgClassSuccessResponse (msg_tid c) (binding_attrs g s @ ias))"
      using out(3) [OF s] by (auto simp: out_to_def)
    have "length (attrs_wire (rh_fLegacyMode g) (binding_attrs g s @ ias)) \<le> 158"
      using binding_attrs_size [OF g(2), of "rh_fLegacyMode g" s] integrity_attrs_size [OF i(1), of "rh_fLegacyMode g"] by simp
    with i(2) binding_values_ok [OF g(2) i(1)] show ?thesis
      by blast
  qed
qed

end
