(* ===== verification/StunReply.thy ===== *)
theory StunReply imports StunHandler begin

text \<open>
  The reply of the request handler as a function of the bytes of a request: two readers that parsed
  the same message cannot be told apart by what the handler reads from them, however their buffers
  and tables were used before.
\<close>

section \<open>Two readers of the same message\<close>

lemma parsed_twins:
  assumes "parsed r c" "parsed r' c"
  shows "MR_Lookup r = MR_Lookup r'" "mr_countAttributes r = mr_countAttributes r'"
    "mr_indexFingerprint r = mr_indexFingerprint r'" "mr_indexMessageIntegrity r = mr_indexMessageIntegrity r'"
    "MR_GetState r = MR_GetState r'" "MR_GetTransactionId r = MR_GetTransactionId r'"
    "MR_GetMessageType r = MR_GetMessageType r'" "MR_GetMessageClass r = MR_GetMessageClass r'"
    "(DS_GetDataPointerUnsafe (mr_stream r) = None) = (DS_GetDataPointerUnsafe (mr_stream r') = None)"
proof -
  obtain as where as: "parsed_as r c as"
    using parsed_attrs [OF assms(1)] by blast
  moreover obtain as' where as': "parsed_as r' c as'"
    using parsed_attrs [OF assms(2)] by blast
  ultimately have "as' = as"
    by (simp add: parsed_as_def)
  with as as' show "MR_Lookup r = MR_Lookup r'" "mr_countAttributes r = mr_countAttributes r'"
    "mr_indexFingerprint r = mr_indexFingerprint r'" "mr_indexMessageIntegrity r = mr_indexMessageIntegrity r'"
    by (auto simp: parsed_as_def)
  have "header_fields c r" "header_fields c r'"
    using assms by (auto simp: parsed_def reader_ok_def)
  then show "MR_GetTransactionId r = MR_GetTransactionId r'"
    "MR_GetMessageType r = MR_GetMessageType r'" "MR_GetMessageClass r = MR_GetMessageClass r'"
    by (simp_all add: header_fields_def MR_GetTransactionId_def MR_GetMessageType_def MR_GetMessageClass_def)
  show "MR_GetState r = MR_GetState r'"
    using assms by (simp add: parsed_def MR_GetState_def)
  show "(DS_GetDataPointerUnsafe (mr_stream r) = None) = (DS_GetDataPointerUnsafe (mr_stream r') = None)"
    using parsed_pointer(1) [OF assms(1)] parsed_pointer(1) [OF assms(2)] by blast
qed

lemma parsed_lookup_bounds:
  assumes "parsed r c" "MR_Lookup r ty = Some a"
  shows "24 \<le> unat (sa_offset a)" "unat (sa_offset a) + unat (sa_size a) \<le> length c" "unat (sa_offset a) mod 4 = 0"
proof -
  obtain v where "last_value c ty = Some v"
    using parsed_lookup(1) [OF assms(1), of ty] assms(2) by fastforce
  from parsed_lookup(2) [OF assms(1) this] assms(2) show "24 \<le> unat (sa_offset a)"
    "unat (sa_offset a) + unat (sa_size a) \<le> length c" "unat (sa_offset a) mod 4 = 0"
    by auto
qed

lemma parsed_data_twins:
  assumes "parsed r c" "parsed r' c" "unat off + n \<le> length c"
  shows "take n (MR_data_at r off) = take n (MR_data_at r' off)"
  using MR_data_at_segment [OF parsed_pointer(4,5) [OF assms(1)] assms(3)]
    MR_data_at_segment [OF parsed_pointer(4,5) [OF assms(2)] assms(3)] by simp

lemma Validate_twins:
  assumes p: "parsed r c" "parsed r' c"
  shows "MR_ValidateMessageIntegrity hmac r k = MR_ValidateMessageIntegrity hmac r' k"
proof -
  note tw = parsed_twins [OF p]
  have st: "mr_state r = BodyValidated" "mr_state r' = BodyValidated"
    using p by (simp_all add: parsed_def)
  let ?n = "mr_countAttributes r" and ?i = "mr_indexMessageIntegrity r"
  show ?thesis
  proof (cases "\<exists>key a. k = Some key \<and> key \<noteq> [] \<and> MR_Lookup r STUN_ATTRIBUTE_MESSAGEINTEGRITY = Some a \<and> sa_size a = 20 \<and>
      ?n \<noteq> 0 \<and> ?i \<noteq> -1 \<and> (?i = ?n - 1 \<or> ?i = ?n - 2 \<and> mr_indexFingerprint r = ?n - 1)")
    case True
    then obtain key a where k: "k = Some key" "key \<noteq> []"
      and a: "MR_Lookup r STUN_ATTRIBUTE_MESSAGEINTEGRITY = Some a" "sa_size a = 20"
      and i: "?n \<noteq> 0" "?i \<noteq> -1" "?i = ?n - 1 \<or> ?i = ?n - 2 \<and> mr_indexFingerprint r = ?n - 1"
      by blast
    have off: "24 \<le> unat (sa_offset a)" "unat (sa_offset a) + 20 \<le> length c" "unat (sa_offset a) mod 4 = 0"
      using parsed_lookup_bounds [OF p(1) a(1)] a(2) by simp_all
    have "0 \<le> ?n"
      using parsed_attrs [OF p(1)] by (auto simp: parsed_as_def)
    with i have n: "0 < ?n" and "?n = 1 \<longrightarrow> ?i \<noteq> ?n - 2"
      by auto
    then have idx: "?i = ?n - 1 \<and> \<not> (?i = ?n - 2) \<or>
        ?i = ?n - 2 \<and> mr_indexFingerprint r = ?n - 1 \<and> 2 \<le> ?n \<and> ?i = ?n - 2"
      using i(3) by auto
    have a': "MR_Lookup r' STUN_ATTRIBUTE_MESSAGEINTEGRITY = Some a"
      using a(1) tw(1) by simp
    show ?thesis
      using ValidateMessageIntegrity_eval [OF p(1) k(2) a off n idx, of hmac]
        ValidateMessageIntegrity_eval [OF p(2) k(2) a' a(2) off n [unfolded tw(2)] idx [unfolded tw(2,3,4)], of hmac]
      by (simp add: k(1) tw(2-4))
  next
    case False
    then have "\<not> FAILED E_FAIL \<or> MR_ValidateMessageIntegrity hmac r k = MR_ValidateMessageIntegrity hmac r' k"
      unfolding MR_ValidateMessageIntegrity_def Let_def tw st
      by (auto split: option.splits)
    then show ?thesis
      by simp
  qed
qed


text \<open>The reply is a function of the bytes of the request.\<close>

lemma reads_twins:
  assumes p: "parsed r c" "parsed r' c"
  shows "MR_GetResponsePort r = MR_GetResponsePort r'" "MR_GetChangeRequest r = MR_GetChangeRequest r'"
    "MR_GetPaddingAttributeSize r = MR_GetPaddingAttributeSize r'"
    "MR_GetStringAttributeByType r ty n = MR_GetStringAttributeByType r' ty n"
    "MR_HasMessageIntegrityAttribute r = MR_HasMessageIntegrityAttribute r'"
proof -
  note tw = parsed_twins [OF p]
  have d: "take n (MR_data_at r (sa_offset a)) = take n (MR_data_at r' (sa_offset a))"
    if "MR_Lookup r' ty = Some a" "n \<le> unat (sa_size a)" for ty a n
    using parsed_data_twins [OF p, of "sa_offset a" n] parsed_lookup_bounds(2) [OF p(2) that(1)] that(2) by simp
  show "MR_GetResponsePort r = MR_GetResponsePort r'"
    using d [of STUN_ATTRIBUTE_RESPONSE_PORT _ 2]
    by (cases "MR_Lookup r' STUN_ATTRIBUTE_RESPONSE_PORT") (auto simp: MR_GetResponsePort_def tw stun_consts)
  show "MR_GetChangeRequest r = MR_GetChangeRequest r'"
    using d [of STUN_ATTRIBUTE_CHANGEREQUEST _ 4]
    by (cases "MR_Lookup r' STUN_ATTRIBUTE_CHANGEREQUEST") (auto simp: MR_GetChangeRequest_def Let_def tw stun_consts)
  show "MR_GetStringAttributeByType r ty n = MR_GetStringAttributeByType r' ty n"
    using d [of ty] by (cases "MR_Lookup r' ty") (auto simp: MR_GetStringAttributeByType_def tw)
  show "MR_GetPaddingAttributeSize r = MR_GetPaddingAttributeSize r'"
    "MR_HasMessageIntegrityAttribute r = MR_HasMessageIntegrityAttribute r'"
    by (simp_all add: MR_GetPaddingAttributeSize_def MR_HasMessageIntegrityAttribute_def tw)
qed

lemma reply_spec_twins:
  assumes "parsed r c" "parsed r' c"
  shows "reply_spec hmac md5 (msgIn\<lparr>mi_pReader := Some r\<rparr>) addrs pAuth
    = reply_spec hmac md5 (msgIn\<lparr>mi_pReader := Some r'\<rparr>) addrs pAuth"
    "response_dest (msgIn\<lparr>mi_pReader := Some r\<rparr>) = response_dest (msgIn\<lparr>mi_pReader := Some r'\<rparr>)"
proof -
  note tw = parsed_twins [OF assms] reads_twins [OF assms] Validate_twins [OF assms]
  have e: "response_port r = response_port r'" "change_asked r = change_asked r'" "wants_padding r = wants_padding r'"
    "string_attribute r = string_attribute r'" "request_key md5 r = request_key md5 r'"
    by (simp_all add: response_port_def change_asked_def wants_padding_def string_attribute_def request_key_def tw fun_eq_iff)
  have ra: "request_auth_attributes r = request_auth_attributes r'"
    by (simp add: request_auth_attributes_def tw e)
  have "auth_decision hmac md5 r pAuth = auth_decision hmac md5 r' pAuth"
    unfolding auth_decision_def ra e(5) tw by (rule refl)
  then show "reply_spec hmac md5 (msgIn\<lparr>mi_pReader := Some r\<rparr>) addrs pAuth
    = reply_spec hmac md5 (msgIn\<lparr>mi_pReader := Some r'\<rparr>) addrs pAuth"
    by (simp add: reply_spec_def request_refused_def output_role_def Let_def e tw cong: auth_outcome.case_cong option.case_cong)
  show "response_dest (msgIn\<lparr>mi_pReader := Some r\<rparr>) = response_dest (msgIn\<lparr>mi_pReader := Some r'\<rparr>)"
    by (simp add: response_dest_def Let_def e)
qed

section \<open>An example request\<close>

text \<open>A binding request with a user name and a realm, and stand-ins for the two hash functions.\<close>

definition example_tid :: StunTransactionId where
  "example_tid = be32 STUN_COOKIE @ [1, 2, 3, 4, 5, 6, 7, 8, 9, 10, 11, 12]"

definition example_attrs :: "(u16 \<times> bytes) list" where
  "example_attrs = [(STUN_ATTRIBUTE_USERNAME, [97, 98, 99]), (STUN_ATTRIBUTE_REALM, [120])]"

lemma example_ok: "length example_tid = 16" "values_ok False example_attrs"
  by (simp_all add: example_tid_def example_attrs_def values_ok_def attrs_wire_def length_attr_wire
      wire_value_def padding_of_def stun_consts)

definition example_request :: "bytes" where
  "example_request = msg_wire False StunMsgTypeBinding StunMsgClassRequest example_tid example_attrs"

lemma example_parsed: "parsed (feed MR_init [example_request]) example_request"
  "MR_GetMessageClass (feed MR_init [example_request]) = StunMsgClassRequest"
  "MR_GetMessageType (feed MR_init [example_request]) = StunMsgTypeBinding"
  using built_parsed [OF example_ok, of "[example_request]" StunMsgTypeBinding StunMsgClassRequest]
  by (simp_all add: example_request_def stun_consts)

definition example_hmac :: "bytes \<Rightarrow> bytes \<Rightarrow> bytes" where
  "example_hmac k m = zero_bytes 20"

definition example_md5 :: "bytes \<Rightarrow> bytes" where
  "example_md5 m = zero_bytes 16"

lemma example_hash_ok: "hmac_ok example_hmac" "md5_ok example_md5"
  by (simp_all add: hmac_ok_def md5_ok_def example_hmac_def example_md5_def)

text \<open>No attribute of the example request is of interest to the handler.\<close>

lemma example_lookup:
  "t \<noteq> STUN_ATTRIBUTE_USERNAME \<Longrightarrow> t \<noteq> STUN_ATTRIBUTE_REALM \<Longrightarrow> MR_Lookup (feed MR_init [example_request]) t = None"
  using last_value_msg_wire [OF example_ok, of StunMsgTypeBinding StunMsgClassRequest t] parsed_lookup(1) [OF example_parsed(1)]
  by (simp add: example_request_def example_attrs_def)

lemma example_decisions:
  "response_port (feed MR_init [example_request]) = 0" "change_asked (feed MR_init [example_request]) = (False, False)"
  using example_lookup [of STUN_ATTRIBUTE_RESPONSE_PORT] example_lookup [of STUN_ATTRIBUTE_CHANGEREQUEST]
  by (simp_all add: response_port_def MR_GetResponsePort_def change_asked_def MR_GetChangeRequest_def Let_def stun_consts)

end
