(* ===== verification/StunRateLimiter.thy ===== *)
theory StunRateLimiter imports StunAddress StunHash begin

text \<open>
  The rate limiter (networkutils/ratelimiter.h, ratelimiter.cpp): a hash table of one record per
  client address, a lock flag and the clock as an argument of each call (\<open>time_t\<close> as \<open>int\<close>).  The
  limiter is first shown to implement a step function on finite maps; runs of requests, of the
  client in question and of others in any order, are then followed on the map.
\<close>

section \<open>The model\<close>

definition MAX_RATE :: u64 where [stun_consts]: "MAX_RATE = 3600"
definition MIN_COUNT_FOR_CONSIDERATION :: u64 where [stun_consts]: "MIN_COUNT_FOR_CONSIDERATION = 60"
definition RESET_INTERVAL_SECONDS :: int where [stun_consts]: "RESET_INTERVAL_SECONDS = 120"
definition PENALTY_TIME_SECONDS :: int where [stun_consts]: "PENALTY_TIME_SECONDS = 3600"

record RateTracker =
  rt_count :: u64
  rt_firstEntryTime :: int
  rt_lastEntryTime :: int
  rt_penaltyTime :: int

text \<open>The two 64-bit words of \<open>RateTrackerAddress\<close> are kept as their 16 bytes in memory.\<close>

type_synonym RateTrackerAddress = bytes

definition of_host64 :: "bytes \<Rightarrow> u64" where
  "of_host64 bs = foldr (\<lambda>b w. push_bit 8 w OR ucast b) bs 0"

definition RateTracker_Hash :: "RateTrackerAddress \<Rightarrow> nat" where
  "RateTracker_Hash a = unat (of_host64 (take 8 a) XOR of_host64 (take 8 (drop 8 a)))"

record RateLimiter =
  rl_table :: "(RateTrackerAddress, RateTracker) fasthash"
  rl_isUsingLock :: bool
  rl_mutex :: bool

definition RateLimiter_init :: "nat \<Rightarrow> bool \<Rightarrow> RateLimiter" where
  "RateLimiter_init tablesize isUsingLock =
     \<lparr>rl_table = snd (FH_InitTable tablesize (tablesize div 2) True), rl_isUsingLock = isUsingLock, rl_mutex = False\<rparr>"

definition get_rate :: "RateTracker \<Rightarrow> u64" where
  "get_rate rt =
     (if rt_count rt < MIN_COUNT_FOR_CONSIDERATION then 0
      else let seconds = (if rt_lastEntryTime rt > rt_firstEntryTime rt
                          then rt_lastEntryTime rt - rt_firstEntryTime rt else 1) in
        (rt_count rt * 3600) div word_of_int seconds)"

definition tracker_address :: "CSocketAddress \<Rightarrow> RateTrackerAddress" where
  "tracker_address addr = (let ip = GetIP addr (Some 16) in ip @ zero_bytes (16 - length ip))"

definition RateCheckImpl :: "RateLimiter \<Rightarrow> CSocketAddress \<Rightarrow> int \<Rightarrow> bool \<times> RateLimiter" where
  "RateCheckImpl L addr currentTime =
     (let rtaddr = tracker_address addr; table = rl_table L in
      case FH_Lookup RateTracker_Hash table rtaddr of
        None \<Rightarrow>
          let rt = \<lparr>rt_count = 1, rt_firstEntryTime = currentTime, rt_lastEntryTime = currentTime, rt_penaltyTime = 0\<rparr>;
              (result, table) = FH_Insert RateTracker_Hash table rtaddr rt;
              table = (if result = -1 then snd (FH_Insert RateTracker_Hash (FH_Reset table) rtaddr rt) else table) in
          (True, L\<lparr>rl_table := table\<rparr>)
      | Some pRT \<Rightarrow>
          let pRT = pRT\<lparr>rt_count := rt_count pRT + 1, rt_lastEntryTime := currentTime\<rparr>;
              table = FH_Modify RateTracker_Hash table rtaddr (\<lambda>_. pRT);
              rate = get_rate pRT in
          if rt_penaltyTime pRT \<noteq> 0
          then (if rt_penaltyTime pRT \<ge> currentTime then (False, L\<lparr>rl_table := table\<rparr>)
                else if rate < MAX_RATE
                then (True, L\<lparr>rl_table := FH_Modify RateTracker_Hash table rtaddr (\<lambda>rt. rt\<lparr>rt_penaltyTime := 0\<rparr>)\<rparr>)
                else (False, L\<lparr>rl_table := FH_Modify RateTracker_Hash table rtaddr
                        (\<lambda>rt. rt\<lparr>rt_penaltyTime := currentTime + PENALTY_TIME_SECONDS\<rparr>)\<rparr>))
          else if rate \<ge> MAX_RATE
          then (False, L\<lparr>rl_table := FH_Modify RateTracker_Hash table rtaddr
                  (\<lambda>rt. rt\<lparr>rt_penaltyTime := currentTime + PENALTY_TIME_SECONDS\<rparr>)\<rparr>)
          else if rt_lastEntryTime pRT - rt_firstEntryTime pRT > RESET_INTERVAL_SECONDS
          then (True, L\<lparr>rl_table := snd (FH_Remove RateTracker_Hash table rtaddr)\<rparr>)
          else (True, L\<lparr>rl_table := table\<rparr>))"

definition RateCheck :: "RateLimiter \<Rightarrow> CSocketAddress \<Rightarrow> int \<Rightarrow> bool \<times> RateLimiter" where
  "RateCheck L addr currentTime =
     (let L = (if rl_isUsingLock L then L\<lparr>rl_mutex := True\<rparr> else L);
          (result, L) = RateCheckImpl L addr currentTime;
          L = (if rl_isUsingLock L then L\<lparr>rl_mutex := False\<rparr> else L) in
      (result, L))"

section \<open>The limiter as a map\<close>

text \<open>The verdict on a known address: the answer, and what becomes of its record.\<close>

definition verdict :: "RateTracker \<Rightarrow> int \<Rightarrow> bool \<times> RateTracker option" where
  "verdict rt now =
     (let rt = rt\<lparr>rt_count := rt_count rt + 1, rt_lastEntryTime := now\<rparr>; flooding = (MAX_RATE \<le> get_rate rt);
          penalised = (rt_penaltyTime rt \<noteq> 0) in
      if penalised \<and> now \<le> rt_penaltyTime rt then (False, Some rt)
      else if flooding then (False, Some (rt\<lparr>rt_penaltyTime := now + PENALTY_TIME_SECONDS\<rparr>))
      else if penalised then (True, Some (rt\<lparr>rt_penaltyTime := 0\<rparr>))
      else if RESET_INTERVAL_SECONDS < now - rt_firstEntryTime rt then (True, None)
      else (True, Some rt))"

definition new_tracker :: "int \<Rightarrow> RateTracker" where
  "new_tracker now = \<lparr>rt_count = 1, rt_firstEntryTime = now, rt_lastEntryTime = now, rt_penaltyTime = 0\<rparr>"

definition rate_step :: "bool \<Rightarrow> (RateTrackerAddress \<rightharpoonup> RateTracker) \<Rightarrow> RateTrackerAddress \<Rightarrow> int
    \<Rightarrow> bool \<times> (RateTrackerAddress \<rightharpoonup> RateTracker)" where
  "rate_step full m a now = (case m a of
     None \<Rightarrow> (True, (if full then Map.empty else m)(a \<mapsto> new_tracker now))
   | Some rt \<Rightarrow> (fst (verdict rt now), m(a := snd (verdict rt now))))"

definition limiter_map :: "RateLimiter \<Rightarrow> (RateTrackerAddress \<rightharpoonup> RateTracker) \<Rightarrow> bool" where
  "limiter_map L m \<longleftrightarrow> fhm.is_map RateTracker_Hash (rl_table L) m \<and> \<not> rl_mutex L"

definition limiter_full :: "RateLimiter \<Rightarrow> bool" where
  "limiter_full L \<longleftrightarrow> fh_size (rl_table L) = fh_fsize (rl_table L)"

text \<open>The table holds one item for each address of the map.\<close>

definition sized :: "(RateTrackerAddress \<rightharpoonup> RateTracker) \<Rightarrow> RateLimiter \<Rightarrow> bool" where
  "sized m L \<longleftrightarrow> finite (dom m) \<and> fh_size (rl_table L) = card (dom m)"

lemma RateLimiter_init_map: "0 < n div 2 \<Longrightarrow> limiter_map (RateLimiter_init n f) Map.empty"
  using FH_Init_map [of n "n div 2" RateTracker_Hash]
  by (auto simp: limiter_map_def RateLimiter_init_def FH_InitTable_def Let_def)

lemma remove_map_size:
  assumes "fhm.is_map hf t m" "m k \<noteq> None"
  shows "fh_size t = fh_size (snd (FH_Remove hf t k)) + 1"
proof -
  obtain v where "fh_stack hf t k = [v]" "fh_ok hf t"
    using assms by (auto simp: fhm.is_map_def)
  then show ?thesis
    using fh.remove_present [of hf t k v "[]"] by simp
qed

lemma RateCheckImpl_known:
  assumes m: "fhm.is_map RateTracker_Hash (rl_table L) m" and a: "m (tracker_address addr) = Some rt"
  shows "\<exists>t. RateCheckImpl L addr now = (fst (verdict rt now), L\<lparr>rl_table := t\<rparr>) \<and>
    fhm.is_map RateTracker_Hash t (m(tracker_address addr := snd (verdict rt now))) \<and>
    fh_fsize t = fh_fsize (rl_table L) \<and> fh_size (rl_table L) = fh_size t + (if snd (verdict rt now) = None then 1 else 0)"
proof -
  let ?k = "tracker_address addr" and ?t = "rl_table L"
  let ?rt = "rt\<lparr>rt_count := rt_count rt + 1, rt_lastEntryTime := now\<rparr>"
  let ?t1 = "FH_Modify RateTracker_Hash ?t ?k (\<lambda>_. ?rt)"
  have t1: "fhm.is_map RateTracker_Hash ?t1 (m(?k := Some ?rt))"
    using fhm.modify_map [OF m, of ?k "\<lambda>_. ?rt"] a by simp
  have t2: "fhm.is_map RateTracker_Hash (FH_Modify RateTracker_Hash ?t1 ?k (\<lambda>rt. rt\<lparr>rt_penaltyTime := p\<rparr>))
      (m(?k := Some (?rt\<lparr>rt_penaltyTime := p\<rparr>)))" for p
    using fhm.modify_map [OF t1, of ?k "\<lambda>rt. rt\<lparr>rt_penaltyTime := p\<rparr>"] by simp
  have t3: "fhm.is_map RateTracker_Hash (snd (FH_Remove RateTracker_Hash ?t1 ?k)) (m(?k := None))"
    "fh_fsize (snd (FH_Remove RateTracker_Hash ?t1 ?k)) = fh_fsize ?t"
    "fh_size ?t = fh_size (snd (FH_Remove RateTracker_Hash ?t1 ?k)) + 1"
    using fhm.remove_map [OF t1, of ?k] remove_map_size [OF t1, of ?k] by simp_all
  have l: "FH_Lookup RateTracker_Hash ?t ?k = Some rt"
    using fhm.lookup_map [OF m] a by simp
  show ?thesis
    unfolding RateCheckImpl_def verdict_def Let_def l option.case using t1 t2 t3
    by (auto simp: not_le)
qed

lemma RateCheckImpl_new:
  assumes m: "fhm.is_map RateTracker_Hash (rl_table L) m" and a: "m (tracker_address addr) = None"
  shows "\<exists>t. RateCheckImpl L addr now = (True, L\<lparr>rl_table := t\<rparr>) \<and> fh_fsize t = fh_fsize (rl_table L) \<and>
    fhm.is_map RateTracker_Hash t ((if limiter_full L then Map.empty else m)(tracker_address addr \<mapsto> new_tracker now)) \<and>
    fh_size t = (if limiter_full L then 1 else fh_size (rl_table L) + 1)"
proof -
  let ?k = "tracker_address addr" and ?t = "rl_table L" and ?ins = "\<lambda>t. FH_Insert RateTracker_Hash t (tracker_address addr) (new_tracker now)"
  have l: "FH_Lookup RateTracker_Hash ?t ?k = None"
    using fhm.lookup_map [OF m] a by simp
  note b = fhm.map_size_bound [OF m]
  show ?thesis
  proof (cases "limiter_full L")
    case True
    then have i: "?ins ?t = (-1, ?t)"
      using fhm.insert_map_full [OF m] by (simp add: limiter_full_def)
    note r = fhm.reset_map [OF m]
    have "fhm.is_map RateTracker_Hash (snd (?ins (FH_Reset ?t))) (Map.empty(?k \<mapsto> new_tracker now)) \<and>
        fh_size (snd (?ins (FH_Reset ?t))) = 1 \<and> fh_fsize (snd (?ins (FH_Reset ?t))) = fh_fsize ?t"
      using fhm.insert_map [of RateTracker_Hash "FH_Reset ?t" Map.empty ?k "new_tracker now"] r b by simp
    with True i l show ?thesis
      by (intro exI [of _ "snd (?ins (FH_Reset ?t))"]) (simp add: RateCheckImpl_def new_tracker_def)
  next
    case False
    then have "fh_size ?t < fh_fsize ?t"
      using b by (simp add: limiter_full_def)
    from fhm.insert_map [OF m a this, of "new_tracker now"] obtain t' where t': "?ins ?t = (1, t')"
      "fhm.is_map RateTracker_Hash t' (m(?k \<mapsto> new_tracker now))" "fh_size t' = fh_size ?t + 1" "fh_fsize t' = fh_fsize ?t"
      by (cases "?ins ?t") auto
    with False l show ?thesis
      by (intro exI [of _ t']) (simp add: RateCheckImpl_def new_tracker_def)
  qed
qed

lemma RateCheck_step:
  assumes "limiter_map L m"
  shows "fst (RateCheck L addr now) = fst (rate_step (limiter_full L) m (tracker_address addr) now)"
    "limiter_map (snd (RateCheck L addr now)) (snd (rate_step (limiter_full L) m (tracker_address addr) now))"
    "fh_fsize (rl_table (snd (RateCheck L addr now))) = fh_fsize (rl_table L)"
    "fh_size (rl_table (snd (RateCheck L addr now))) \<le>
      (if m (tracker_address addr) = None then fh_size (rl_table L) + 1 else fh_size (rl_table L))"
    "sized m L \<Longrightarrow> sized (snd (rate_step (limiter_full L) m (tracker_address addr) now)) (snd (RateCheck L addr now))"
proof -
  define L1 where "L1 = (if rl_isUsingLock L then L\<lparr>rl_mutex := True\<rparr> else L)"
  have L1: "fhm.is_map RateTracker_Hash (rl_table L1) m" "rl_table L1 = rl_table L" "limiter_full L1 = limiter_full L"
    using assms by (simp_all add: L1_def limiter_map_def limiter_full_def)
  obtain b t where r: "RateCheckImpl L1 addr now = (b, L1\<lparr>rl_table := t\<rparr>)"
    "b = fst (rate_step (limiter_full L) m (tracker_address addr) now)"
    "fhm.is_map RateTracker_Hash t (snd (rate_step (limiter_full L) m (tracker_address addr) now))"
    "fh_fsize t = fh_fsize (rl_table L)"
    "fh_size t \<le> (if m (tracker_address addr) = None then fh_size (rl_table L) + 1 else fh_size (rl_table L))"
    "sized m L \<Longrightarrow> sized (snd (rate_step (limiter_full L) m (tracker_address addr) now)) (L1\<lparr>rl_table := t\<rparr>)"
  proof (cases "m (tracker_address addr)")
    case None
    from RateCheckImpl_new [OF L1(1) None, of now] obtain t where t: "RateCheckImpl L1 addr now = (True, L1\<lparr>rl_table := t\<rparr>)"
      "fh_fsize t = fh_fsize (rl_table L)" "fhm.is_map RateTracker_Hash t ((if limiter_full L then Map.empty else m)(tracker_address addr \<mapsto> new_tracker now))"
      "fh_size t = (if limiter_full L then 1 else fh_size (rl_table L) + 1)"
      using L1 by auto
    show ?thesis
      by (rule that [OF t(1)]) (use t None in \<open>auto simp: rate_step_def sized_def domIff\<close>)
  next
    case (Some rt)
    let ?k = "tracker_address addr"
    from RateCheckImpl_known [OF L1(1) Some, of now] obtain t where t: "RateCheckImpl L1 addr now = (fst (verdict rt now), L1\<lparr>rl_table := t\<rparr>)"
      "fhm.is_map RateTracker_Hash t (m(?k := snd (verdict rt now)))" "fh_fsize t = fh_fsize (rl_table L)"
      "fh_size (rl_table L) = fh_size t + (if snd (verdict rt now) = None then 1 else 0)"
      using L1 by auto
    have k: "?k \<in> dom m"
      using Some by blast
    have "sized (m(?k := snd (verdict rt now))) (L1\<lparr>rl_table := t\<rparr>)" if "sized m L"
      using that t(4) k card_Suc_Diff1 [of "dom m" ?k] by (cases "snd (verdict rt now)") (auto simp: sized_def insert_absorb)
    then show ?thesis
      by (intro that [OF t(1)]) (use t Some in \<open>auto simp: rate_step_def split: if_splits\<close>)
  qed
  have c: "RateCheck L addr now = (b, (if rl_isUsingLock L then L1\<lparr>rl_table := t, rl_mutex := False\<rparr> else L1\<lparr>rl_table := t\<rparr>))"
    using r(1) by (simp add: RateCheck_def L1_def)
  show "fst (RateCheck L addr now) = fst (rate_step (limiter_full L) m (tracker_address addr) now)"
    "limiter_map (snd (RateCheck L addr now)) (snd (rate_step (limiter_full L) m (tracker_address addr) now))"
    "fh_fsize (rl_table (snd (RateCheck L addr now))) = fh_fsize (rl_table L)"
    "fh_size (rl_table (snd (RateCheck L addr now))) \<le>
      (if m (tracker_address addr) = None then fh_size (rl_table L) + 1 else fh_size (rl_table L))"
    "sized m L \<Longrightarrow> sized (snd (rate_step (limiter_full L) m (tracker_address addr) now)) (snd (RateCheck L addr now))"
    using r(2-6) assms unfolding c by (simp_all add: limiter_map_def L1_def sized_def split: if_splits)
qed

section \<open>Runs of the limiter\<close>

fun rate_run :: "RateLimiter \<Rightarrow> (CSocketAddress \<times> int) list \<Rightarrow> bool list \<times> RateLimiter" where
  "rate_run L [] = ([], L)"
| "rate_run L ((addr, now) # reqs) =
     (let (b, L) = RateCheck L addr now; (bs, L) = rate_run L reqs in (b # bs, L))"

text \<open>The requests of one address in a run, and the answers they got.\<close>

definition of_client :: "RateTrackerAddress \<Rightarrow> (CSocketAddress \<times> int) list \<Rightarrow> int list" where
  "of_client k reqs = map snd (filter (\<lambda>q. tracker_address (fst q) = k) reqs)"

definition answers :: "RateTrackerAddress \<Rightarrow> RateLimiter \<Rightarrow> (CSocketAddress \<times> int) list \<Rightarrow> bool list" where
  "answers k L reqs = map snd (filter (\<lambda>x. tracker_address (fst (fst x)) = k) (zip reqs (fst (rate_run L reqs))))"

lemma answers_simps [simp]:
  "answers k L [] = []"
  "answers k L ((addr, now) # reqs) =
     (if tracker_address addr = k then [fst (RateCheck L addr now)] else []) @ answers k (snd (RateCheck L addr now)) reqs"
  by (simp_all add: answers_def Let_def case_prod_beta)

lemma of_client_simps [simp]:
  "of_client k [] = []"
  "of_client k ((addr, now) # reqs) = (if tracker_address addr = k then [now] else []) @ of_client k reqs"
  by (simp_all add: of_client_def)

lemma rate_run_Cons: "snd (rate_run L ((addr, now) # reqs)) = snd (rate_run (snd (RateCheck L addr now)) reqs)"
  by (simp add: Let_def case_prod_beta)

text \<open>
  One invariant per claim on a client's record: it holds of the record before, and the step on
  another address keeps it.
\<close>

definition room_for :: "RateTrackerAddress set \<Rightarrow> (RateTrackerAddress \<rightharpoonup> RateTracker) \<Rightarrow> RateLimiter \<Rightarrow> bool" where
  "room_for A m L \<longleftrightarrow> sized m L \<and> dom m \<subseteq> A \<and> finite A \<and> card A \<le> fh_fsize (rl_table L)"

abbreviation clients :: "(CSocketAddress \<times> int) list \<Rightarrow> RateTrackerAddress set" where
  "clients reqs \<equiv> (\<lambda>q. tracker_address (fst q)) ` set reqs"

lemma room_for_step:
  assumes r: "room_for A m L" and m: "limiter_map L m" and a: "tracker_address addr \<in> A"
  shows "m (tracker_address addr) = None \<Longrightarrow> \<not> limiter_full L"
    "room_for A (snd (rate_step (limiter_full L) m (tracker_address addr) now)) (snd (RateCheck L addr now))"
proof -
  let ?k = "tracker_address addr"
  have f: "\<not> limiter_full L" if "m ?k = None"
  proof -
    have "dom m \<subset> A"
      using r a that by (auto simp: room_for_def)
    then have "card (dom m) < card A"
      using r psubset_card_mono by (auto simp: room_for_def)
    then show ?thesis
      using r by (simp add: room_for_def sized_def limiter_full_def)
  qed
  then show "m ?k = None \<Longrightarrow> \<not> limiter_full L" .
  have "dom (snd (rate_step (limiter_full L) m ?k now)) \<subseteq> A"
    using r a f by (auto simp: room_for_def rate_step_def split: option.splits if_splits)
  then show "room_for A (snd (rate_step (limiter_full L) m ?k now)) (snd (RateCheck L addr now))"
    using r RateCheck_step(3,5) [OF m, of addr now] by (simp add: room_for_def)
qed

lemma penalty_run:
  assumes "limiter_map L m" "m k = Some rt" "rt_penaltyTime rt = p" "p \<noteq> 0"
    "room_for A m L" "clients reqs \<subseteq> A" "list_all (\<lambda>t. t \<le> p) (of_client k reqs)"
  shows "list_all Not (answers k L reqs)"
  using assms
proof (induction reqs arbitrary: L m rt)
  case (Cons q reqs)
  obtain addr now where q: "q = (addr, now)"
    by fastforce
  note st = RateCheck_step [OF Cons.prems(1), of addr now]
  let ?L = "snd (RateCheck L addr now)" and ?m = "snd (rate_step (limiter_full L) m (tracker_address addr) now)"
  have a: "tracker_address addr \<in> A" "clients reqs \<subseteq> A"
    using Cons.prems(6) by (auto simp: q)
  note room = room_for_step [OF Cons.prems(5,1) a(1)]
  have keep: "\<exists>rt'. ?m k = Some rt' \<and> rt_penaltyTime rt' = p"
    using Cons.prems room(1) by (cases "tracker_address addr = k")
      (auto simp: q rate_step_def verdict_def Let_def split: option.splits)
  then obtain rt' where rt': "?m k = Some rt'" "rt_penaltyTime rt' = p"
    by blast
  have "list_all Not (answers k ?L reqs)"
    using Cons.IH [OF st(2) rt' Cons.prems(4) room(2) a(2)] Cons.prems(7) by (simp add: q)
  moreover have "\<not> fst (RateCheck L addr now)" if "tracker_address addr = k"
    using that Cons.prems st(1) by (simp add: q rate_step_def verdict_def Let_def)
  ultimately show ?case
    by (simp add: q)
qed simp

definition harmless :: "nat \<Rightarrow> RateTracker option \<Rightarrow> bool" where
  "harmless c x \<longleftrightarrow> (case x of None \<Rightarrow> True | Some rt \<Rightarrow> rt_penaltyTime rt = 0 \<and> unat (rt_count rt) \<le> c)"

lemma unat_plus_one: "unat (x :: u64) \<le> c \<Longrightarrow> c < 59 \<Longrightarrow> unat (x + 1) \<le> Suc c \<and> x + 1 < 60"
  by (simp add: word_less_nat_alt unat_word_ariths)

lemma harmless_verdict:
  assumes "harmless c (Some rt)" "c < 59"
  shows "fst (verdict rt now)" "harmless (Suc c) (snd (verdict rt now))"
proof -
  let ?rt = "rt\<lparr>rt_count := rt_count rt + 1, rt_lastEntryTime := now\<rparr>"
  have u: "unat (rt_count rt + 1) \<le> Suc c" "rt_count rt + 1 < 60" "rt_penaltyTime rt = 0"
    using assms unat_plus_one [of "rt_count rt" c] by (simp_all add: harmless_def)
  then have "get_rate ?rt = 0"
    by (simp add: get_rate_def stun_consts)
  then have v: "\<not> MAX_RATE \<le> get_rate ?rt"
    by (simp add: stun_consts)
  show "fst (verdict rt now)" "harmless (Suc c) (snd (verdict rt now))"
    using v u by (simp_all add: verdict_def Let_def harmless_def)
qed

lemma harmless_run:
  assumes "limiter_map L m" "harmless c (m k)" "c + length (of_client k reqs) \<le> 59"
  shows "list_all id (answers k L reqs)"
  using assms
proof (induction reqs arbitrary: L m c)
  case (Cons q reqs)
  obtain addr now where q: "q = (addr, now)"
    by fastforce
  note st = RateCheck_step [OF Cons.prems(1), of addr now]
  let ?L = "snd (RateCheck L addr now)" and ?m = "snd (rate_step (limiter_full L) m (tracker_address addr) now)"
  show ?case
  proof (cases "tracker_address addr = k")
    case False
    then have "harmless c (?m k)"
      using Cons.prems(2) by (auto simp: rate_step_def harmless_def split: option.splits)
    with Cons.IH [OF st(2)] Cons.prems(3) False show ?thesis
      by (simp add: q)
  next
    case True
    then have c: "c < 59"
      using Cons.prems(3) by (simp add: q)
    have "fst (RateCheck L addr now) \<and> harmless (Suc c) (?m k)"
      using Cons.prems(2) True c harmless_verdict [OF _ c] unfolding st(1)
      by (cases "m k") (auto simp: rate_step_def harmless_def new_tracker_def)
    with Cons.IH [OF st(2), of "Suc c"] Cons.prems(3) True show ?thesis
      by (simp add: q)
  qed
qed simp

text \<open>A client whose first \<open>c\<close> requests lie in a window of a minute.\<close>

definition counted :: "int \<Rightarrow> nat \<Rightarrow> RateTracker option \<Rightarrow> bool" where
  "counted a c x \<longleftrightarrow> (case x of None \<Rightarrow> c = 0
     | Some rt \<Rightarrow> rt_penaltyTime rt = 0 \<and> rt_count rt = word_of_nat c \<and> a \<le> rt_firstEntryTime rt)"

lemma count_eval: "c < 59 \<Longrightarrow> (word_of_nat c :: u64) + 1 = word_of_nat (Suc c) \<and> (word_of_nat (Suc c) :: u64) < 60"
  by (simp add: word_less_nat_alt unat_of_nat del: of_nat_Suc) (simp add: add.commute)

lemma counted_step:
  assumes "counted a c x" "c < 59" "a \<le> now" "now \<le> a + 60"
  shows "counted a (Suc c) (case x of None \<Rightarrow> Some (new_tracker now) | Some rt \<Rightarrow> snd (verdict rt now))"
proof (cases x)
  case None
  with assms show ?thesis
    by (simp add: counted_def new_tracker_def)
next
  case (Some rt)
  let ?rt = "rt\<lparr>rt_count := rt_count rt + 1, rt_lastEntryTime := now\<rparr>"
  have c: "rt_count rt + 1 = word_of_nat (Suc c)" "(word_of_nat (Suc c) :: u64) < 60"
    using assms count_eval [of c] Some by (simp_all add: counted_def del: of_nat_Suc)
  have "rt_count rt + 1 < 60"
    unfolding c(1) by (rule c(2))
  then have "get_rate ?rt = 0"
    by (simp add: get_rate_def stun_consts)
  then have v: "\<not> MAX_RATE \<le> get_rate ?rt"
    by (simp add: stun_consts)
  have "\<not> RESET_INTERVAL_SECONDS < now - rt_firstEntryTime rt"
    using assms Some by (simp add: counted_def stun_consts)
  moreover have "snd (verdict rt now) = Some ?rt" if "\<not> RESET_INTERVAL_SECONDS < now - rt_firstEntryTime rt"
    using v assms Some that unfolding verdict_def Let_def by (simp add: counted_def)
  ultimately show ?thesis
    using c(1) assms Some by (simp add: counted_def del: of_nat_Suc)
qed

lemma counted_run:
  assumes "limiter_map L m" "counted a c (m k)" "list_all (\<lambda>t. a \<le> t \<and> t \<le> a + 60) (of_client k reqs)"
    "c + length (of_client k reqs) \<le> 59" "room_for A m L" "clients reqs \<subseteq> A"
  shows "\<exists>m'. limiter_map (snd (rate_run L reqs)) m' \<and> counted a (c + length (of_client k reqs)) (m' k) \<and>
    room_for A m' (snd (rate_run L reqs))"
  using assms
proof (induction reqs arbitrary: L m c)
  case (Cons q reqs)
  obtain addr now where q: "q = (addr, now)"
    by fastforce
  note st = RateCheck_step [OF Cons.prems(1), of addr now]
  let ?L = "snd (RateCheck L addr now)" and ?m = "snd (rate_step (limiter_full L) m (tracker_address addr) now)"
  have a: "tracker_address addr \<in> A" "clients reqs \<subseteq> A"
    using Cons.prems(6) by (auto simp: q)
  note room = room_for_step [OF Cons.prems(5,1) a(1)]
  let ?c = "if tracker_address addr = k then Suc c else c"
  have "counted a ?c (?m k)"
  proof (cases "tracker_address addr = k")
    case True
    have "c < 59" "a \<le> now" "now \<le> a + 60"
      using Cons.prems(3,4) True by (simp_all add: q)
    from counted_step [OF Cons.prems(2) this] True room(1) show ?thesis
      by (cases "m k") (simp_all add: rate_step_def)
  qed (use Cons.prems(2) room(1) in \<open>auto simp: rate_step_def split: option.splits\<close>)
  then show ?case
    using Cons.IH [OF st(2) _ _ _ room(2) a(2), of ?c] Cons.prems(3,4) unfolding q rate_run_Cons
    by (cases "tracker_address addr = k") fastforce+
qed auto

lemma flood_rate:
  assumes "1 \<le> s" "s \<le> (60 :: int)"
  shows "(3600 :: u64) \<le> 216000 div word_of_int s"
proof -
  have u: "unat (word_of_int s :: u64) = nat s"
    using assms by (simp add: unsigned_of_int take_bit_int_eq_self)
  have "3600 * nat s \<le> 216000"
    using assms by (simp add: nat_le_iff)
  then have "3600 \<le> 216000 div nat s"
    using assms by (simp add: less_eq_div_iff_mult_less_eq)
  then show ?thesis
    by (simp add: word_le_nat_alt unat_div u)
qed

lemma flood_verdict:
  assumes "counted a 59 (Some rt)" "a \<le> now" "now \<le> a + 60"
  shows "\<not> fst (verdict rt now)" "\<exists>rt'. snd (verdict rt now) = Some rt' \<and> rt_penaltyTime rt' = now + 3600"
proof -
  let ?rt = "rt\<lparr>rt_count := rt_count rt + 1, rt_lastEntryTime := now\<rparr>"
  let ?s = "if now > rt_firstEntryTime rt then now - rt_firstEntryTime rt else 1"
  have c: "rt_count rt + 1 = 60" "a \<le> rt_firstEntryTime rt" "rt_penaltyTime rt = 0"
    using assms(1) by (simp_all add: counted_def)
  have "1 \<le> ?s" "?s \<le> 60"
    using assms c by auto
  note f = flood_rate [OF this]
  have "get_rate ?rt = 216000 div word_of_int ?s"
    using c by (simp add: get_rate_def stun_consts)
  with f have "MAX_RATE \<le> get_rate ?rt"
    by (simp only: MAX_RATE_def)
  with c show "\<not> fst (verdict rt now)" "\<exists>rt'. snd (verdict rt now) = Some rt' \<and> rt_penaltyTime rt' = now + 3600"
    by (simp_all add: verdict_def Let_def PENALTY_TIME_SECONDS_def)
qed

lemma RateLimiter_init_size: "0 < n div 2 \<Longrightarrow> fh_size (rl_table (RateLimiter_init n f)) = 0 \<and>
    fh_fsize (rl_table (RateLimiter_init n f)) = n"
  by (simp add: RateLimiter_init_def FH_InitTable_def FH_Init_def FH_Reset_def Let_def)

lemma flood_run:
  assumes "2 \<le> tablesize" "0 \<le> a"
    "list_all (\<lambda>t. a \<le> t \<and> t \<le> a + 60) (of_client k reqs)" "length (of_client k reqs) = 59"
    "tracker_address addr = k" "a \<le> now" "now \<le> a + 60"
    "card (clients (reqs @ (addr, now) # later)) \<le> tablesize" "list_all (\<lambda>t. t \<le> now + 3600) (of_client k later)"
  shows "list_all Not (answers k (snd (rate_run (RateLimiter_init tablesize lock) reqs)) ((addr, now) # later))"
proof -
  let ?I = "RateLimiter_init tablesize lock" and ?L = "snd (rate_run (RateLimiter_init tablesize lock) reqs)"
  have n: "0 < tablesize div 2"
    using assms(1) by simp
  let ?A = "clients (reqs @ (addr, now) # later)"
  have "room_for ?A Map.empty ?I"
    using assms(8) RateLimiter_init_size [OF n, of lock] by (simp add: room_for_def sized_def)
  then obtain m where m: "limiter_map ?L m" "counted a 59 (m k)" "room_for ?A m ?L"
    using counted_run [OF RateLimiter_init_map [OF n], where a = a and c = 0 and k = k and reqs = reqs and A = ?A] assms(3,4)
    by (fastforce simp: counted_def)
  then obtain rt where rt: "m k = Some rt"
    by (cases "m k") (simp_all add: counted_def)
  note f = flood_verdict [OF m(2) [unfolded rt] assms(6,7)] and st = RateCheck_step [OF m(1), of addr now]
  obtain rt' where rt': "snd (verdict rt now) = Some rt'" "rt_penaltyTime rt' = now + 3600"
    using f(2) by blast
  have "list_all Not (answers k (snd (RateCheck ?L addr now)) later)"
    using rt rt' assms
    by (intro penalty_run [OF st(2) _ _ _ room_for_step(2) [OF m(3,1)], where rt = rt']) (auto simp: rate_step_def)
  with f(1) st(1) rt assms(5) show ?thesis
    by (simp add: rate_step_def)
qed

section \<open>Properties\<close>

text \<open>
  C6: one call of \<open>RateCheck\<close>, locked or not, does on the hash table what the map specification
  \<open>rate_step\<close> does, releases the lock, and grows the table by at most one entry.
\<close>

theorem RateCheck_refines:
  assumes "limiter_map L m"
  shows "fst (RateCheck L addr now) = fst (rate_step (limiter_full L) m (tracker_address addr) now) \<and>
    limiter_map (snd (RateCheck L addr now)) (snd (rate_step (limiter_full L) m (tracker_address addr) now)) \<and>
    fh_fsize (rl_table (snd (RateCheck L addr now))) = fh_fsize (rl_table L) \<and>
    fh_size (rl_table (snd (RateCheck L addr now))) \<le> fh_size (rl_table L) + 1"
  using RateCheck_step [OF assms, of addr now] by (auto split: if_splits)

theorem RateCheck_refines_witness:
  "limiter_map (snd (RateCheck (RateLimiter_init 20 True) CSocketAddress_default 7))
     [tracker_address CSocketAddress_default \<mapsto> new_tracker 7]"
  using RateCheck_refines [OF RateLimiter_init_map [of 20 True], of CSocketAddress_default 7]
  by (simp add: rate_step_def limiter_full_def RateLimiter_init_size)

text \<open>
  C7: the limiter never refuses one of a client's first 59 requests, whatever the other clients do
  and however often the table fills and is emptied.
\<close>

theorem first_requests_accepted:
  assumes "2 \<le> tablesize" "length (of_client k reqs) \<le> 59"
  shows "list_all id (answers k (RateLimiter_init tablesize lock) reqs)"
  by (rule harmless_run [OF RateLimiter_init_map, where c = 0]) (use assms in \<open>auto simp: harmless_def\<close>)

theorem first_requests_accepted_witness:
  "list_all id (answers (tracker_address CSocketAddress_default) (RateLimiter_init 2 False) (replicate 59 (CSocketAddress_default, 5)))"
  by (rule first_requests_accepted) (simp_all add: of_client_def filter_replicate)

text \<open>
  C8: a client whose first 60 requests fall into one minute has the sixtieth refused, and every
  request for an hour from then on, however many requests come in, as long as they are those of at most
  as many different addresses as the table has room for.  (A full table is emptied, penalties included.)
\<close>

theorem flood_refused:
  assumes "2 \<le> tablesize" "0 \<le> a"
    "list_all (\<lambda>t. a \<le> t \<and> t \<le> a + 60) (of_client k reqs)" "length (of_client k reqs) = 59"
    "tracker_address addr = k" "a \<le> now" "now \<le> a + 60"
    "card (clients (reqs @ (addr, now) # later)) \<le> tablesize" "list_all (\<lambda>t. t \<le> now + 3600) (of_client k later)"
  shows "list_all Not (answers k (snd (rate_run (RateLimiter_init tablesize lock) reqs)) ((addr, now) # later))"
  by (rule flood_run [OF assms])

theorem flood_refused_witness:
  "list_all Not (answers (tracker_address CSocketAddress_default)
     (snd (rate_run (RateLimiter_init 2 False) (replicate 59 (CSocketAddress_default, 5))))
     ((CSocketAddress_default, 65) # replicate 100 (CSocketAddress_ipv4 0x0A000001 7, 70) @ [(CSocketAddress_default, 3665)]))"
proof (rule flood_refused [where a = 5])
  let ?a = "tracker_address CSocketAddress_default" and ?b = "tracker_address (CSocketAddress_ipv4 0x0A000001 7)"
  have "card (clients (replicate 59 (CSocketAddress_default, 5) @ (CSocketAddress_default, 65) # replicate 100 (CSocketAddress_ipv4 0x0A000001 7, 70) @
      [(CSocketAddress_default, 3665)])) \<le> card {?a, ?b}"
    by (rule card_mono) auto
  also have "\<dots> \<le> 2"
    by (simp add: card_insert_if)
  finally show "card (clients (replicate 59 (CSocketAddress_default, 5) @ (CSocketAddress_default, 65) # replicate 100 (CSocketAddress_ipv4 0x0A000001 7, 70) @
      [(CSocketAddress_default, 3665)])) \<le> 2" .
qed (auto simp: of_client_def filter_replicate list_all_iff)

end
