(* ===== verification/StunClientTests.thy ===== *)
theory StunClientTests imports StunExchange begin

text \<open>
  The tests a client runs to find out how its NAT behaves (stuncore/stunclienttests.h,
  stunclienttests.cpp; the configuration and the results are those of stunclientlogic.h): three
  classes behind the interface \<open>IStunClientTest\<close>.  The locale \<open>client_test\<close> is that interface,
  with what the client logic relies on as its laws; each class provides it, and so do the virtual
  calls.  Log output is left out.
\<close>

section \<open>Configuration and results (stunclientlogic.h)\<close>

record StunClientLogicConfig =
  cc_addrServer :: CSocketAddress
  cc_fTimeoutIsInstant :: bool
  cc_timeoutSeconds :: u32
  cc_uMaxAttempts :: u32
  cc_fBehaviorTest :: bool
  cc_fFilteringTest :: bool

datatype NatBehavior = UnknownBehavior | DirectMapping | EndpointIndependentMapping
  | AddressDependentMapping | AddressAndPortDependentMapping

datatype NatFiltering = UnknownFiltering | DirectConnectionFiltering | EndpointIndependentFiltering
  | AddressDependentFiltering | AddressAndPortDependentFiltering

record StunClientResults =
  cr_fBindingTestSuccess :: bool
  cr_fIsDirect :: bool
  cr_addrLocal :: CSocketAddress
  cr_addrMapped :: CSocketAddress
  cr_fHasOtherAddress :: bool
  cr_addrPA :: CSocketAddress
  cr_addrAP :: CSocketAddress
  cr_addrAA :: CSocketAddress
  cr_fBehaviorTestSuccess :: bool
  cr_behavior :: NatBehavior
  cr_addrMappingAP :: CSocketAddress
  cr_addrMappingAA :: CSocketAddress
  cr_fFilteringTestSuccess :: bool
  cr_filtering :: NatFiltering
  cr_fGotTest2Response :: bool
  cr_fGotTest3Response :: bool
  cr_errorBitmask :: u32

definition StunClientResults_Init :: StunClientResults where
  "StunClientResults_Init = \<lparr>cr_fBindingTestSuccess = False, cr_fIsDirect = False,
     cr_addrLocal = CSocketAddress_default, cr_addrMapped = CSocketAddress_default,
     cr_fHasOtherAddress = False, cr_addrPA = CSocketAddress_default, cr_addrAP = CSocketAddress_default,
     cr_addrAA = CSocketAddress_default, cr_fBehaviorTestSuccess = False, cr_behavior = UnknownBehavior,
     cr_addrMappingAP = CSocketAddress_default, cr_addrMappingAA = CSocketAddress_default,
     cr_fFilteringTestSuccess = False, cr_filtering = UnknownFiltering, cr_fGotTest2Response = False,
     cr_fGotTest3Response = False, cr_errorBitmask = 0\<rparr>"

section \<open>The tests (stunclienttests.h, stunclienttests.cpp)\<close>

text \<open>
  The class of a test decides which implementation a virtual call reaches.  The members of the
  base class and \<open>_fIsTest3\<close> of the two derived classes that have it are one record; the pointers
  \<open>_pConfig\<close> and \<open>_pResults\<close>, which every test of a client shares, are arguments of its methods.
\<close>

datatype TestClass = CBasicBindingTest | CBehaviorTest | CFilteringTest

record CStunClientTest =
  ct_class :: TestClass
  ct_fInit :: bool
  ct_fCompleted :: bool
  ct_transid :: StunTransactionId
  ct_fIsTest3 :: bool

definition CStunClientTest_new :: "TestClass \<Rightarrow> CStunClientTest" where
  "CStunClientTest_new c = \<lparr>ct_class = c, ct_fInit = False, ct_fCompleted = False,
     ct_transid = zero_bytes 16, ct_fIsTest3 = False\<rparr>"

definition Test_Init :: "CStunClientTest \<Rightarrow> StunClientLogicConfig option \<Rightarrow> StunClientResults option
    \<Rightarrow> hresult \<times> CStunClientTest" where
  "Test_Init t pConfig pResults =
     (if pConfig = None then (E_INVALIDARG, t)
      else if pResults = None then (E_INVALIDARG, t)
      else (S_OK, t\<lparr>ct_fInit := True, ct_fCompleted := False, ct_transid := zero_bytes 16\<rparr>))"

definition RunAsTest3 :: "CStunClientTest \<Rightarrow> bool \<Rightarrow> CStunClientTest" where
  "RunAsTest3 t fSetAsTest3 = t\<lparr>ct_fIsTest3 := fSetAsTest3\<rparr>"

definition IsCompleted :: "CStunClientTest \<Rightarrow> bool" where
  "IsCompleted t = ct_fCompleted t"

definition StartBindingRequest :: "(nat \<Rightarrow> byte) \<Rightarrow> CStunClientTest \<Rightarrow> CStunMessageBuilder
    \<Rightarrow> hresult \<times> CStunClientTest \<times> CStunMessageBuilder" where
  "StartBindingRequest rnd t builder =
     (let builder = snd (AddBindingRequestHeader builder) in
      if IsTransactionIdValid (ct_transid t)
      then (S_OK, t, snd (AddTransactionId builder (ct_transid t)))
      else let (_, transid, builder) = AddRandomTransactionId rnd builder in
        (S_OK, t\<lparr>ct_transid := transid\<rparr>, builder))"

definition BasicReaderValidation :: "CStunClientTest \<Rightarrow> cbuffer \<Rightarrow> CStunMessageReader \<Rightarrow> hresult \<times> CStunMessageReader" where
  "BasicReaderValidation t spMsg reader =
     (let (readerstate, reader) = MR_AddBytes reader (cb_contents spMsg);
          hr = (if readerstate = BodyValidated then S_OK else E_FAIL) in
      if FAILED hr then (hr, reader)
      else (if MR_GetTransactionId reader = ct_transid t then S_OK else E_FAIL, reader))"

text \<open>The builder over the caller's buffer, and what the caller's buffer holds in the end.\<close>

definition attach_msg :: "cbuffer \<Rightarrow> CStunMessageBuilder" where
  "attach_msg spMsg = CStunMessageBuilder_init\<lparr>mb_stream :=
     DS_Attach (mb_stream CStunMessageBuilder_init) (Some spMsg) True\<rparr>"

definition built_msg :: "cbuffer \<Rightarrow> CStunMessageBuilder \<Rightarrow> cbuffer" where
  "built_msg spMsg b = (case ds_left (mb_stream b) of Some l \<Rightarrow> l
     | None \<Rightarrow> (case ds_buffer (mb_stream b) of Some l \<Rightarrow> l | None \<Rightarrow> spMsg))"

definition write_request :: "(nat \<Rightarrow> byte) \<Rightarrow> CStunClientTest \<Rightarrow> StunChangeRequestAttribute \<Rightarrow> cbuffer
    \<Rightarrow> CStunClientTest \<times> cbuffer" where
  "write_request rnd t change spMsg =
     (let builder = attach_msg spMsg;
          (_, t, builder) = StartBindingRequest rnd t builder;
          builder = snd (AddChangeRequest builder change);
          builder = snd (FixLengthField builder) in
      (t, built_msg spMsg builder))"

subsection \<open>CBasicBindingTest\<close>

definition Basic_IsReadyToRun :: "CStunClientTest \<Rightarrow> bool" where
  "Basic_IsReadyToRun t = (ct_fCompleted t = False)"

definition Basic_GetMessage :: "(nat \<Rightarrow> byte) \<Rightarrow> StunClientLogicConfig \<Rightarrow> CStunClientTest \<Rightarrow> cbuffer
    \<Rightarrow> hresult \<times> CStunClientTest \<times> cbuffer \<times> CSocketAddress" where
  "Basic_GetMessage rnd config t spMsg =
     (let (t, spMsg) = write_request rnd t \<lparr>fChangeIP = False, fChangePort = False\<rparr> spMsg in
      (S_OK, t, spMsg, cc_addrServer config))"

text \<open>The mapped address of a response, as both kinds of tests look for it.\<close>

definition read_mapped :: "CStunMessageReader \<Rightarrow> hresult \<times> CSocketAddress option" where
  "read_mapped reader =
     (let x = MR_GetXorMappedAddress reader in if FAILED (fst x) then MR_GetMappedAddress reader else x)"

definition Basic_ProcessResponse :: "StunClientLogicConfig \<Rightarrow> StunClientResults \<Rightarrow> CStunClientTest \<Rightarrow> cbuffer
    \<Rightarrow> CSocketAddress \<Rightarrow> CSocketAddress \<Rightarrow> hresult \<times> CStunClientTest \<times> StunClientResults" where
  "Basic_ProcessResponse config res t spMsg addrRemote addrLocal =
     (let (hr, reader) = BasicReaderValidation t spMsg MR_init in
      if FAILED hr then (hr, t, res) else
      let (hr, mapped) = read_mapped reader in
      if FAILED hr then (hr, t, res) else
      let addrMapped = (case mapped of Some a \<Rightarrow> a | None \<Rightarrow> CSocketAddress_default);
          (hrOther, other) = MR_GetOtherAddress reader;
          addrOther = (case other of Some a \<Rightarrow> a | None \<Rightarrow> CSocketAddress_default);
          fHasOtherAddress = SUCCEEDED hrOther;
          t = t\<lparr>ct_fCompleted := True\<rparr>;
          res = res\<lparr>cr_fBindingTestSuccess := True, cr_fIsDirect := IsSameIP_and_Port addrLocal addrMapped,
            cr_addrLocal := addrLocal, cr_addrMapped := addrMapped, cr_fHasOtherAddress := fHasOtherAddress\<rparr>;
          res = (if fHasOtherAddress
                 then res\<lparr>cr_addrAA := addrOther,
                        cr_addrPA := SetPort (cc_addrServer config) (GetPort addrOther),
                        cr_addrAP := SetPort addrOther (GetPort (cc_addrServer config))\<rparr>
                 else res) in
      (hr, t, res))"

definition Basic_NotifyTimeout :: "StunClientResults \<Rightarrow> CStunClientTest \<Rightarrow> CStunClientTest \<times> StunClientResults" where
  "Basic_NotifyTimeout res t = (t\<lparr>ct_fCompleted := True\<rparr>, res\<lparr>cr_fBindingTestSuccess := False\<rparr>)"

subsection \<open>CBehaviorTest\<close>

definition Behavior_PreRunCheck :: "StunClientResults \<Rightarrow> CStunClientTest \<Rightarrow> CStunClientTest \<times> StunClientResults" where
  "Behavior_PreRunCheck res t =
     (if ct_fIsTest3 t = False
      then (if cr_fBindingTestSuccess res \<and> cr_fIsDirect res
            then (t\<lparr>ct_fCompleted := True\<rparr>, res\<lparr>cr_behavior := DirectMapping, cr_fBehaviorTestSuccess := True\<rparr>)
            else (t, res))
      else (t, res))"

definition Behavior_IsReadyToRun :: "StunClientResults \<Rightarrow> CStunClientTest \<Rightarrow> bool" where
  "Behavior_IsReadyToRun res t =
     (let fRet = (ct_fCompleted t = False \<and> cr_fBindingTestSuccess res \<and> cr_fHasOtherAddress res \<and>
                  cr_fBehaviorTestSuccess res = False) in
      if ct_fIsTest3 t then fRet \<and> IsIPAddressZero (cr_addrMappingAP res) = False else fRet)"

definition Behavior_GetMessage :: "(nat \<Rightarrow> byte) \<Rightarrow> StunClientResults \<Rightarrow> CStunClientTest \<Rightarrow> cbuffer
    \<Rightarrow> hresult \<times> CStunClientTest \<times> cbuffer \<times> CSocketAddress" where
  "Behavior_GetMessage rnd res t spMsg =
     (let (t, spMsg) = write_request rnd t \<lparr>fChangeIP = False, fChangePort = False\<rparr> spMsg in
      (S_OK, t, spMsg, if ct_fIsTest3 t = False then cr_addrAP res else cr_addrAA res))"

definition Behavior_ProcessResponse :: "StunClientResults \<Rightarrow> CStunClientTest \<Rightarrow> cbuffer
    \<Rightarrow> CSocketAddress \<Rightarrow> CSocketAddress \<Rightarrow> hresult \<times> CStunClientTest \<times> StunClientResults" where
  "Behavior_ProcessResponse res t spMsg addrRemote addrLocal =
     (let (hr, reader) = BasicReaderValidation t spMsg MR_init in
      if FAILED hr then (hr, t, res) else
      let (hr, mapped) = read_mapped reader in
      if FAILED hr then (hr, t, res) else
      let addrMapped = (case mapped of Some a \<Rightarrow> a | None \<Rightarrow> CSocketAddress_default);
          t = t\<lparr>ct_fCompleted := True\<rparr> in
      if ct_fIsTest3 t
      then (let res = res\<lparr>cr_addrMappingAA := addrMapped, cr_fBehaviorTestSuccess := True\<rparr> in
            (hr, t, res\<lparr>cr_behavior := (if IsSameIP_and_Port addrMapped (cr_addrMappingAP res)
               then AddressDependentMapping else AddressAndPortDependentMapping)\<rparr>))
      else (let res = res\<lparr>cr_addrMappingAP := addrMapped\<rparr> in
            (hr, t, if IsSameIP_and_Port addrMapped (cr_addrMapped res)
                    then res\<lparr>cr_fBehaviorTestSuccess := True, cr_behavior := EndpointIndependentMapping\<rparr>
                    else res)))"

definition Behavior_NotifyTimeout :: "StunClientResults \<Rightarrow> CStunClientTest \<Rightarrow> CStunClientTest \<times> StunClientResults" where
  "Behavior_NotifyTimeout res t = (t\<lparr>ct_fCompleted := True\<rparr>, res\<lparr>cr_fBehaviorTestSuccess := False\<rparr>)"

subsection \<open>CFilteringTest\<close>

definition Filtering_PreRunCheck :: "StunClientResults \<Rightarrow> CStunClientTest \<Rightarrow> CStunClientTest \<times> StunClientResults" where
  "Filtering_PreRunCheck res t =
     (if ct_fIsTest3 t = False
      then (if cr_fBindingTestSuccess res \<and> cr_fIsDirect res
            then (t\<lparr>ct_fCompleted := True\<rparr>,
                  res\<lparr>cr_filtering := EndpointIndependentFiltering, cr_fFilteringTestSuccess := True\<rparr>)
            else (t, res))
      else (t, res))"

definition Filtering_IsReadyToRun :: "StunClientResults \<Rightarrow> CStunClientTest \<Rightarrow> bool" where
  "Filtering_IsReadyToRun res t =
     (ct_fCompleted t = False \<and> cr_fBindingTestSuccess res \<and> cr_fHasOtherAddress res \<and>
      cr_fFilteringTestSuccess res = False \<and> cr_fGotTest2Response res = False)"

definition Filtering_GetMessage :: "(nat \<Rightarrow> byte) \<Rightarrow> StunClientLogicConfig \<Rightarrow> CStunClientTest \<Rightarrow> cbuffer
    \<Rightarrow> hresult \<times> CStunClientTest \<times> cbuffer \<times> CSocketAddress" where
  "Filtering_GetMessage rnd config t spMsg =
     (let change = (if ct_fIsTest3 t = False then \<lparr>fChangeIP = True, fChangePort = True\<rparr>
                    else \<lparr>fChangeIP = False, fChangePort = True\<rparr>);
          (t, spMsg) = write_request rnd t change spMsg in
      (S_OK, t, spMsg, cc_addrServer config))"

definition Filtering_ProcessResponse :: "StunClientResults \<Rightarrow> CStunClientTest \<Rightarrow> cbuffer
    \<Rightarrow> CSocketAddress \<Rightarrow> CSocketAddress \<Rightarrow> hresult \<times> CStunClientTest \<times> StunClientResults" where
  "Filtering_ProcessResponse res t spMsg addrRemote addrLocal =
     (let (hr, reader) = BasicReaderValidation t spMsg MR_init in
      if FAILED hr then (hr, t, res) else
      let t = t\<lparr>ct_fCompleted := True\<rparr> in
      (hr, t, if ct_fIsTest3 t
              then res\<lparr>cr_fGotTest3Response := True, cr_fFilteringTestSuccess := True,
                     cr_filtering := AddressDependentFiltering\<rparr>
              else res\<lparr>cr_fGotTest2Response := True, cr_fFilteringTestSuccess := True,
                     cr_filtering := EndpointIndependentFiltering\<rparr>))"

definition Filtering_NotifyTimeout :: "StunClientResults \<Rightarrow> CStunClientTest \<Rightarrow> CStunClientTest \<times> StunClientResults" where
  "Filtering_NotifyTimeout res t =
     (t\<lparr>ct_fCompleted := True\<rparr>,
      if ct_fIsTest3 t
      then res\<lparr>cr_fFilteringTestSuccess := True, cr_filtering := AddressAndPortDependentFiltering\<rparr> else res)"

subsection \<open>The virtual calls\<close>

definition PreRunCheck :: "StunClientResults \<Rightarrow> CStunClientTest \<Rightarrow> CStunClientTest \<times> StunClientResults" where
  "PreRunCheck res t = (case ct_class t of CBasicBindingTest \<Rightarrow> (t, res)
     | CBehaviorTest \<Rightarrow> Behavior_PreRunCheck res t | CFilteringTest \<Rightarrow> Filtering_PreRunCheck res t)"

definition IsReadyToRun :: "StunClientResults \<Rightarrow> CStunClientTest \<Rightarrow> bool" where
  "IsReadyToRun res t = (case ct_class t of CBasicBindingTest \<Rightarrow> Basic_IsReadyToRun t
     | CBehaviorTest \<Rightarrow> Behavior_IsReadyToRun res t | CFilteringTest \<Rightarrow> Filtering_IsReadyToRun res t)"

definition Test_GetMessage :: "(nat \<Rightarrow> byte) \<Rightarrow> StunClientLogicConfig \<Rightarrow> StunClientResults \<Rightarrow> CStunClientTest \<Rightarrow> cbuffer
    \<Rightarrow> hresult \<times> CStunClientTest \<times> cbuffer \<times> CSocketAddress" where
  "Test_GetMessage rnd config res t spMsg = (case ct_class t of
       CBasicBindingTest \<Rightarrow> Basic_GetMessage rnd config t spMsg
     | CBehaviorTest \<Rightarrow> Behavior_GetMessage rnd res t spMsg
     | CFilteringTest \<Rightarrow> Filtering_GetMessage rnd config t spMsg)"

definition Test_ProcessResponse :: "StunClientLogicConfig \<Rightarrow> StunClientResults \<Rightarrow> CStunClientTest \<Rightarrow> cbuffer
    \<Rightarrow> CSocketAddress \<Rightarrow> CSocketAddress \<Rightarrow> hresult \<times> CStunClientTest \<times> StunClientResults" where
  "Test_ProcessResponse config res t spMsg addrRemote addrLocal = (case ct_class t of
       CBasicBindingTest \<Rightarrow> Basic_ProcessResponse config res t spMsg addrRemote addrLocal
     | CBehaviorTest \<Rightarrow> Behavior_ProcessResponse res t spMsg addrRemote addrLocal
     | CFilteringTest \<Rightarrow> Filtering_ProcessResponse res t spMsg addrRemote addrLocal)"

definition NotifyTimeout :: "StunClientResults \<Rightarrow> CStunClientTest \<Rightarrow> CStunClientTest \<times> StunClientResults" where
  "NotifyTimeout res t = (case ct_class t of CBasicBindingTest \<Rightarrow> Basic_NotifyTimeout res t
     | CBehaviorTest \<Rightarrow> Behavior_NotifyTimeout res t | CFilteringTest \<Rightarrow> Filtering_NotifyTimeout res t)"

section \<open>Requests\<close>

definition random_tid :: "(nat \<Rightarrow> byte) \<Rightarrow> StunTransactionId" where
  "random_tid rnd = be32 STUN_COOKIE @ map rnd [4..<12] @ replicate 4 uninit_byte"

definition next_tid :: "(nat \<Rightarrow> byte) \<Rightarrow> CStunClientTest \<Rightarrow> StunTransactionId" where
  "next_tid rnd t = (if IsTransactionIdValid (ct_transid t) then ct_transid t else random_tid rnd)"

definition request_wire :: "StunTransactionId \<Rightarrow> StunChangeRequestAttribute \<Rightarrow> bytes" where
  "request_wire tid change = msg_wire False StunMsgTypeBinding StunMsgClassRequest tid
     [(STUN_ATTRIBUTE_CHANGEREQUEST, be32 (change_value change))]"

lemma length_random_tid [simp]: "length (random_tid rnd) = 16"
  by (simp only: random_tid_def length_append length_be length_map length_upt length_replicate)

lemma length_next_tid [simp]: "length (ct_transid t) = 16 \<Longrightarrow> length (next_tid rnd t) = 16"
  by (simp add: next_tid_def)

lemma zero_neq_numeral_byte: "(0 :: byte) \<noteq> 0x21"
  by simp

lemma random_tid_valid [simp]: "IsTransactionIdValid (random_tid rnd)"
proof -
  have "hd (random_tid rnd) = 0x21"
    by (simp add: random_tid_def be32_def STUN_COOKIE_def)
  moreover have "hd (zero_bytes 16) = 0"
    by (simp add: zero_bytes_def numeral_eq_Suc)
  ultimately have "random_tid rnd \<noteq> zero_bytes 16"
    by (metis zero_neq_numeral_byte)
  then show ?thesis
    by (simp add: IsTransactionIdValid_def)
qed

lemma next_tid_stays [simp]: "next_tid rnd (t\<lparr>ct_transid := next_tid rnd' t\<rparr>) = next_tid rnd' t"
  by (simp add: next_tid_def)

lemma AddRandomTransactionId_eq: "AddRandomTransactionId rnd b =
    (fst (AddTransactionId b (random_tid rnd)), random_tid rnd, snd (AddTransactionId b (random_tid rnd)))"
  by (simp add: AddRandomTransactionId_def random_tid_def STUN_TRANSACTION_ID_LENGTH_def Let_def case_prod_beta)

lemma StartBindingRequest_eq: "StartBindingRequest rnd t b = (S_OK, t\<lparr>ct_transid := next_tid rnd t\<rparr>,
    snd (AddTransactionId (snd (AddBindingRequestHeader b)) (next_tid rnd t)))"
  by (simp add: StartBindingRequest_def AddRandomTransactionId_eq next_tid_def Let_def)

text \<open>A buffer of \<open>cap\<close> bytes that holds \<open>c\<close>.\<close>

definition msg_buffer :: "nat \<Rightarrow> bytes \<Rightarrow> cbuffer \<Rightarrow> bool" where
  "msg_buffer cap c buf \<longleftrightarrow> buffer_ok buf \<and> cb_allocated buf = cap \<and> cb_contents buf = c"

lemma attach_msg_placed:
  assumes "buffer_ok buf"
  shows "placed False (zero_bytes 16) (cb_allocated buf) [] (attach_msg buf)"
  using DS_Attach_writing [OF assms, of DS_null]
  by (simp add: placed_def attach_msg_def mb.at_end_def mb_ok_def mb_contents_def CStunMessageBuilder_init_def)

lemma built_msg_placed: "placed l t cap c b \<Longrightarrow> msg_buffer cap c (built_msg buf b)"
  by (auto simp: placed_def ds_in_place_def msg_buffer_def built_msg_def mb.at_end_def mb_ok_def stream_ok_def
      mb_contents_def ds_contents_def DS_allocated_def split: option.splits)

lemma write_request_ok:
  assumes buf: "buffer_ok buf" "200 \<le> cb_allocated buf" and tid: "length (ct_transid t) = 16"
  shows "fst (write_request rnd t change buf) = t\<lparr>ct_transid := next_tid rnd t\<rparr>"
    "msg_buffer (cb_allocated buf) (request_wire (next_tid rnd t) change) (snd (write_request rnd t change buf))"
proof -
  let ?tid = "next_tid rnd t"
  let ?b = "snd (AddTransactionId (snd (AddHeader (attach_msg buf) StunMsgTypeBinding StunMsgClassRequest)) ?tid)"
  have l: "length ?tid = 16"
    using tid by simp
  note s = placed_start [OF attach_msg_placed [OF buf(1)] buf(2) l, of StunMsgTypeBinding StunMsgClassRequest]
  have n: "20 + length (attrs_wire False ([] @ [(STUN_ATTRIBUTE_CHANGEREQUEST, be32 (change_value change))]))
      \<le> cb_allocated buf"
    using buf(2) by (simp add: attrs_wire_def length_attr_wire padding_of_def)
  note a = message_in_add [OF s AddChangeRequest_keeps [OF message_in_at_end [OF s]] n l]
  have w: "write_request rnd t change buf =
      (t\<lparr>ct_transid := ?tid\<rparr>, built_msg buf (snd (FixLengthField (snd (AddChangeRequest ?b change)))))"
    by (simp add: write_request_def StartBindingRequest_eq AddBindingRequestHeader_def)
  show "fst (write_request rnd t change buf) = t\<lparr>ct_transid := ?tid\<rparr>"
    by (simp add: w)
  show "msg_buffer (cb_allocated buf) (request_wire ?tid change) (snd (write_request rnd t change buf))"
    using built_msg_placed [OF finish_response [OF a n l]] by (simp add: w request_wire_def)
qed

section \<open>The interface IStunClientTest\<close>

text \<open>The message is a validated one with the transaction id of the test.\<close>

definition answers_test :: "CStunClientTest \<Rightarrow> bytes \<Rightarrow> bool" where
  "answers_test t c \<longleftrightarrow> spec_state True c = BodyValidated \<and> msg_tid c = ct_transid t"

lemma BasicReaderValidation_eq:
  "BasicReaderValidation t buf MR_init =
     (if answers_test t (cb_contents buf) then S_OK else E_FAIL, feed MR_init [cb_contents buf])"
proof -
  let ?c = "cb_contents buf"
  have st: "MR_AddBytes MR_init ?c = (spec_state True ?c, feed MR_init [?c])"
    using AddBytes_ok [OF MR_init_ok, of ?c] by (simp add: feed_def prod_eq_iff)
  have "MR_GetTransactionId (feed MR_init [?c]) = msg_tid ?c" if "spec_state True ?c = BodyValidated"
    using feed_fields [of "[?c]" ?c] that by (simp add: header_fields_def MR_GetTransactionId_def)
  then show ?thesis
    by (simp add: BasicReaderValidation_def st answers_test_def)
qed

locale client_test =
  fixes kind :: "CStunClientTest \<Rightarrow> bool"
    and pre :: "StunClientResults \<Rightarrow> CStunClientTest \<Rightarrow> CStunClientTest \<times> StunClientResults"
    and ready :: "StunClientResults \<Rightarrow> CStunClientTest \<Rightarrow> bool"
    and get :: "(nat \<Rightarrow> byte) \<Rightarrow> StunClientLogicConfig \<Rightarrow> StunClientResults \<Rightarrow> CStunClientTest \<Rightarrow> cbuffer
      \<Rightarrow> hresult \<times> CStunClientTest \<times> cbuffer \<times> CSocketAddress"
    and resp :: "StunClientLogicConfig \<Rightarrow> StunClientResults \<Rightarrow> CStunClientTest \<Rightarrow> cbuffer
      \<Rightarrow> CSocketAddress \<Rightarrow> CSocketAddress \<Rightarrow> hresult \<times> CStunClientTest \<times> StunClientResults"
    and timeout :: "StunClientResults \<Rightarrow> CStunClientTest \<Rightarrow> CStunClientTest \<times> StunClientResults"
  assumes pre_law: "kind t \<Longrightarrow> pre res t = (t, res) \<or> fst (pre res t) = t\<lparr>ct_fCompleted := True\<rparr>"
    and ready_law: "kind t \<Longrightarrow> ready res t \<Longrightarrow> \<not> ct_fCompleted t"
    and get_law: "kind t \<Longrightarrow> buffer_ok buf \<Longrightarrow> 200 \<le> cb_allocated buf \<Longrightarrow> length (ct_transid t) = 16 \<Longrightarrow>
      \<exists>change buf' dest. get rnd cfg res t buf = (S_OK, t\<lparr>ct_transid := next_tid rnd t\<rparr>, buf', dest) \<and>
        msg_buffer (cb_allocated buf) (request_wire (next_tid rnd t) change) buf'"
    and resp_law: "kind t \<Longrightarrow> resp cfg res t buf remote addrLocal = (hr, t', res') \<Longrightarrow>
      (if FAILED hr then t' = t \<and> res' = res
       else t' = t\<lparr>ct_fCompleted := True\<rparr> \<and> answers_test t (cb_contents buf))"
    and timeout_law: "kind t \<Longrightarrow> fst (timeout res t) = t\<lparr>ct_fCompleted := True\<rparr>"
begin

lemma pre_fields: "kind t \<Longrightarrow> ct_class (fst (pre res t)) = ct_class t \<and> ct_transid (fst (pre res t)) = ct_transid t \<and>
    ct_fIsTest3 (fst (pre res t)) = ct_fIsTest3 t"
  using pre_law [of t res] by auto

lemma foreign_ignored:
  "kind t \<Longrightarrow> \<not> answers_test t (cb_contents buf) \<Longrightarrow>
   FAILED (fst (resp cfg res t buf remote addrLocal)) \<and> snd (resp cfg res t buf remote addrLocal) = (t, res)"
  using resp_law [of t cfg res buf remote addrLocal] by (cases "resp cfg res t buf remote addrLocal") (auto split: if_splits)

lemma request_answered:
  assumes "kind t" "buffer_ok buf" "200 \<le> cb_allocated buf" "length (ct_transid t) = 16"
  shows "ct_transid (fst (snd (get rnd cfg res t buf))) = next_tid rnd t \<and>
    ct_fCompleted (fst (snd (get rnd cfg res t buf))) = ct_fCompleted t"
  using get_law [OF assms, of rnd cfg res] by auto

end

section \<open>The classes provide it\<close>

abbreviation of_class :: "TestClass \<Rightarrow> CStunClientTest \<Rightarrow> bool" where
  "of_class c t \<equiv> ct_class t = c"

lemmas test_defs = Basic_IsReadyToRun_def Basic_NotifyTimeout_def Behavior_PreRunCheck_def Behavior_IsReadyToRun_def
  Behavior_NotifyTimeout_def Filtering_PreRunCheck_def Filtering_IsReadyToRun_def Filtering_NotifyTimeout_def

lemmas get_defs = Basic_GetMessage_def Behavior_GetMessage_def Filtering_GetMessage_def

lemmas resp_defs = Basic_ProcessResponse_def Behavior_ProcessResponse_def Filtering_ProcessResponse_def

interpretation basic: client_test "of_class CBasicBindingTest" "\<lambda>res t. (t, res)" "\<lambda>_. Basic_IsReadyToRun"
    "\<lambda>rnd cfg res. Basic_GetMessage rnd cfg" Basic_ProcessResponse Basic_NotifyTimeout
proof unfold_locales
  fix t :: CStunClientTest and rnd cfg and buf and res :: StunClientResults
  assume "buffer_ok buf" "200 \<le> cb_allocated buf" "length (ct_transid t) = 16"
  note w = write_request_ok [OF this, of rnd]
  show "\<exists>change buf' dest. Basic_GetMessage rnd cfg t buf =
      (S_OK, t\<lparr>ct_transid := next_tid rnd t\<rparr>, buf', dest) \<and>
      msg_buffer (cb_allocated buf) (request_wire (next_tid rnd t) change) buf'"
    using w by (simp add: get_defs case_prod_beta) blast
qed (auto simp: test_defs resp_defs BasicReaderValidation_eq Let_def case_prod_beta split: if_splits)

interpretation behavior: client_test "of_class CBehaviorTest" Behavior_PreRunCheck Behavior_IsReadyToRun
    "\<lambda>rnd cfg. Behavior_GetMessage rnd" "\<lambda>cfg. Behavior_ProcessResponse" Behavior_NotifyTimeout
proof unfold_locales
  fix t :: CStunClientTest and rnd buf and cfg :: StunClientLogicConfig and res
  assume "buffer_ok buf" "200 \<le> cb_allocated buf" "length (ct_transid t) = 16"
  note w = write_request_ok [OF this, of rnd]
  show "\<exists>change buf' dest. Behavior_GetMessage rnd res t buf =
      (S_OK, t\<lparr>ct_transid := next_tid rnd t\<rparr>, buf', dest) \<and>
      msg_buffer (cb_allocated buf) (request_wire (next_tid rnd t) change) buf'"
    using w by (simp add: get_defs case_prod_beta) blast
qed (auto simp: test_defs resp_defs BasicReaderValidation_eq Let_def case_prod_beta split: if_splits)

interpretation filtering: client_test "of_class CFilteringTest" Filtering_PreRunCheck Filtering_IsReadyToRun
    "\<lambda>rnd cfg res. Filtering_GetMessage rnd cfg" "\<lambda>cfg. Filtering_ProcessResponse" Filtering_NotifyTimeout
proof unfold_locales
  fix t :: CStunClientTest and rnd cfg and buf and res :: StunClientResults
  assume "buffer_ok buf" "200 \<le> cb_allocated buf" "length (ct_transid t) = 16"
  note w = write_request_ok [OF this, of rnd]
  show "\<exists>change buf' dest. Filtering_GetMessage rnd cfg t buf =
      (S_OK, t\<lparr>ct_transid := next_tid rnd t\<rparr>, buf', dest) \<and>
      msg_buffer (cb_allocated buf) (request_wire (next_tid rnd t) change) buf'"
    using w by (simp add: get_defs Let_def case_prod_beta) blast
qed (auto simp: test_defs resp_defs BasicReaderValidation_eq Let_def case_prod_beta split: if_splits)

lemmas virtual_defs = PreRunCheck_def IsReadyToRun_def Test_GetMessage_def Test_ProcessResponse_def NotifyTimeout_def

interpretation virt: client_test "\<lambda>_. True" PreRunCheck IsReadyToRun Test_GetMessage Test_ProcessResponse NotifyTimeout
proof unfold_locales
  fix t :: CStunClientTest and rnd cfg res buf
  assume "buffer_ok buf" "200 \<le> cb_allocated buf" "length (ct_transid t) = 16"
  then show "\<exists>change buf' dest. Test_GetMessage rnd cfg res t buf = (S_OK, t\<lparr>ct_transid := next_tid rnd t\<rparr>, buf', dest) \<and>
      msg_buffer (cb_allocated buf) (request_wire (next_tid rnd t) change) buf'"
    using basic.get_law [of t buf rnd cfg] behavior.get_law [of t buf rnd res] filtering.get_law [of t buf rnd cfg]
    by (cases "ct_class t") (simp_all add: virtual_defs)
next
  fix cfg res and t :: CStunClientTest and buf remote addrLocal hr t' res'
  assume "Test_ProcessResponse cfg res t buf remote addrLocal = (hr, t', res')"
  then show "if FAILED hr then t' = t \<and> res' = res
      else t' = t\<lparr>ct_fCompleted := True\<rparr> \<and> answers_test t (cb_contents buf)"
    using basic.resp_law [of t] behavior.resp_law [of t] filtering.resp_law [of t]
    by (cases "ct_class t") (simp_all add: virtual_defs)
next
  fix t :: CStunClientTest and res
  show "PreRunCheck res t = (t, res) \<or> fst (PreRunCheck res t) = t\<lparr>ct_fCompleted := True\<rparr>"
    using behavior.pre_law [of t res] filtering.pre_law [of t res] by (cases "ct_class t") (simp_all add: virtual_defs)
  show "IsReadyToRun res t \<Longrightarrow> \<not> ct_fCompleted t"
    using basic.ready_law [of t] behavior.ready_law [of t res] filtering.ready_law [of t res]
    by (cases "ct_class t") (simp_all add: virtual_defs)
  show "fst (NotifyTimeout res t) = t\<lparr>ct_fCompleted := True\<rparr>"
    using basic.timeout_law [of t res] behavior.timeout_law [of t res] filtering.timeout_law [of t res]
    by (cases "ct_class t") (simp_all add: virtual_defs)
qed

end
