(* ===== verification/StunClientLogic.thy ===== *)
theory StunClientLogic imports StunClientTests begin

text \<open>
  The client logic (stuncore/stunclientlogic.h, stunclientlogic.cpp): the list of tests, the loop of
  \<open>GetNextMessage\<close> with its resends and timeouts, the dispatch of responses.  The loop terminates
  by the tests left and whether the current one has completed.  \<open>logic_ok\<close> is the invariant of the
  object, \<open>sends_left\<close> the bound on the messages it can still ask for.
\<close>

section \<open>The client\<close>

definition E_STUNCLIENT_STILL_WAITING :: hresult where [hr_defs]: "E_STUNCLIENT_STILL_WAITING = 0x81010001"
definition E_STUNCLIENT_RESULTS_READY :: hresult where [hr_defs]: "E_STUNCLIENT_RESULTS_READY = 0x81010002"
definition E_STUNCLIENT_TIMEOUT :: hresult where [hr_defs]: "E_STUNCLIENT_TIMEOUT = 0x81010003"
definition E_STUNCLIENT_BUFFER_TOO_SMALL :: hresult where [hr_defs]: "E_STUNCLIENT_BUFFER_TOO_SMALL = 0x81010004"

text \<open>The five tests are members; \<open>_testlist\<close> holds pointers to them.\<close>

datatype TestMember = Test1 | TestBehavior2 | TestBehavior3 | TestFiltering2 | TestFiltering3

record CStunClientLogic =
  cl_config :: StunClientLogicConfig
  cl_results :: StunClientResults
  cl_fInitialized :: bool
  cl_timeLastMessageSent :: u32
  cl_sendCount :: u32
  cl_fPreCheckRunOnTest :: bool
  cl_tests :: "TestMember \<Rightarrow> CStunClientTest"
  cl_testlist :: "TestMember list"
  cl_nTestIndex :: nat

definition class_of_member :: "TestMember \<Rightarrow> TestClass" where
  "class_of_member m = (case m of Test1 \<Rightarrow> CBasicBindingTest | TestBehavior2 \<Rightarrow> CBehaviorTest
     | TestBehavior3 \<Rightarrow> CBehaviorTest | TestFiltering2 \<Rightarrow> CFilteringTest | TestFiltering3 \<Rightarrow> CFilteringTest)"

text \<open>The constructor sets neither \<open>_config\<close> nor \<open>_fPreCheckRunOnTest\<close>: what they hold is an argument.\<close>

definition CStunClientLogic_new :: "StunClientLogicConfig \<Rightarrow> bool \<Rightarrow> CStunClientLogic" where
  "CStunClientLogic_new config0 precheck0 = \<lparr>cl_config = config0, cl_results = StunClientResults_Init,
     cl_fInitialized = False, cl_timeLastMessageSent = 0, cl_sendCount = 0, cl_fPreCheckRunOnTest = precheck0,
     cl_tests = (\<lambda>m. CStunClientTest_new (class_of_member m)), cl_testlist = [], cl_nTestIndex = 0\<rparr>"

definition set_test :: "CStunClientLogic \<Rightarrow> TestMember \<Rightarrow> CStunClientTest \<Rightarrow> CStunClientLogic" where
  "set_test L m t = L\<lparr>cl_tests := (cl_tests L)(m := t)\<rparr>"

text \<open>One \<open>Init\<close> (and \<open>RunAsTest3\<close>) with the \<open>push_back\<close> that follows it.\<close>

definition push_test :: "TestMember \<Rightarrow> bool \<Rightarrow> CStunClientLogic \<Rightarrow> CStunClientLogic" where
  "push_test m fTest3 L =
     (let t = snd (Test_Init (cl_tests L m) (Some (cl_config L)) (Some (cl_results L)));
          t = (if fTest3 then RunAsTest3 t True else t);
          L = set_test L m t in
      L\<lparr>cl_testlist := cl_testlist L @ [m]\<rparr>)"

text \<open>The defaults for what the caller left open.\<close>

definition effective_config :: "StunClientLogicConfig \<Rightarrow> StunClientLogicConfig" where
  "effective_config cfg =
     (let cfg = (if cc_fTimeoutIsInstant cfg then cfg\<lparr>cc_timeoutSeconds := 0\<rparr>
                 else if cc_timeoutSeconds cfg = 0 then cfg\<lparr>cc_timeoutSeconds := 3\<rparr> else cfg) in
      if cc_uMaxAttempts cfg = 0 then cfg\<lparr>cc_uMaxAttempts := 2\<rparr> else cfg)"

definition Initialize :: "CStunClientLogic \<Rightarrow> StunClientLogicConfig \<Rightarrow> hresult \<times> CStunClientLogic" where
  "Initialize L config =
     (if cl_fInitialized L then (E_UNEXPECTED, L)
      else if IsIPAddressZero (cc_addrServer config) then (E_INVALIDARG, L)
      else if GetPort (cc_addrServer config) = 0 then (E_INVALIDARG, L)
      else
        let L = L\<lparr>cl_config := config, cl_fInitialized := True\<rparr>;
            L = L\<lparr>cl_config := effective_config (cl_config L), cl_nTestIndex := 0, cl_testlist := []\<rparr>;
            L = push_test Test1 False L;
            L = (if cc_fFilteringTest (cl_config L)
                 then push_test TestFiltering3 True (push_test TestFiltering2 False L) else L);
            L = (if cc_fBehaviorTest (cl_config L)
                 then push_test TestBehavior3 True (push_test TestBehavior2 False L) else L) in
        (S_OK, L\<lparr>cl_fPreCheckRunOnTest := False, cl_timeLastMessageSent := 0\<rparr>))"

section \<open>GetNextMessage\<close>

abbreviation current :: "CStunClientLogic \<Rightarrow> TestMember" where
  "current L \<equiv> cl_testlist L ! cl_nTestIndex L"

abbreviation current_test :: "CStunClientLogic \<Rightarrow> CStunClientTest" where
  "current_test L \<equiv> cl_tests L (current L)"

definition run_precheck :: "CStunClientLogic \<Rightarrow> CStunClientLogic" where
  "run_precheck L =
     (if cl_fPreCheckRunOnTest L = False
      then (let (t, res) = PreRunCheck (cl_results L) (current_test L) in
            (set_test L (current L) t)\<lparr>cl_results := res, cl_fPreCheckRunOnTest := True\<rparr>)
      else L)"

definition notify_timeout :: "CStunClientLogic \<Rightarrow> CStunClientLogic" where
  "notify_timeout L = (let (t, res) = NotifyTimeout (cl_results L) (current_test L) in
     (set_test L (current L) t)\<lparr>cl_results := res\<rparr>)"

definition next_test :: "CStunClientLogic \<Rightarrow> CStunClientLogic" where
  "next_test L = L\<lparr>cl_nTestIndex := cl_nTestIndex L + 1, cl_sendCount := 0, cl_fPreCheckRunOnTest := False\<rparr>"

lemma logic_fields [simp]:
  "cl_testlist (run_precheck L) = cl_testlist L" "cl_nTestIndex (run_precheck L) = cl_nTestIndex L"
  "cl_config (run_precheck L) = cl_config L" "cl_sendCount (run_precheck L) = cl_sendCount L"
  "cl_timeLastMessageSent (run_precheck L) = cl_timeLastMessageSent L" "cl_fInitialized (run_precheck L) = cl_fInitialized L"
  "cl_testlist (notify_timeout L) = cl_testlist L" "cl_nTestIndex (notify_timeout L) = cl_nTestIndex L"
  "cl_config (notify_timeout L) = cl_config L" "cl_sendCount (notify_timeout L) = cl_sendCount L"
  "cl_timeLastMessageSent (notify_timeout L) = cl_timeLastMessageSent L" "cl_fInitialized (notify_timeout L) = cl_fInitialized L"
  "cl_fPreCheckRunOnTest (notify_timeout L) = cl_fPreCheckRunOnTest L" "cl_fPreCheckRunOnTest (run_precheck L)"
  "cl_fPreCheckRunOnTest L \<Longrightarrow> run_precheck L = L"
  by (simp_all add: run_precheck_def notify_timeout_def set_test_def case_prod_beta)

lemma notify_completes [simp]: "ct_fCompleted (cl_tests (notify_timeout L) (current L))"
  by (simp add: notify_timeout_def set_test_def case_prod_beta virt.timeout_law)

lemma precheck_completed: "ct_fCompleted (current_test L) \<Longrightarrow> ct_fCompleted (cl_tests (run_precheck L) (current L))"
  using virt.pre_law [of "cl_results L" "current_test L"]
  by (auto simp: run_precheck_def set_test_def case_prod_beta)

function GetNextMessage_loop :: "(nat \<Rightarrow> byte) \<Rightarrow> u32 \<Rightarrow> CStunClientLogic \<Rightarrow> cbuffer \<Rightarrow> CSocketAddress
    \<Rightarrow> hresult \<times> CStunClientLogic \<times> cbuffer \<times> CSocketAddress" where
  "GetNextMessage_loop rnd timeCurrent L spMsg addrDest =
     (if length (cl_testlist L) \<le> cl_nTestIndex L then (E_STUNCLIENT_RESULTS_READY, L, spMsg, addrDest)
      else
        let L = run_precheck L; pCurrentTest = current_test L in
        if IsCompleted pCurrentTest \<or> IsReadyToRun (cl_results L) pCurrentTest = False
        then GetNextMessage_loop rnd timeCurrent (next_test L) spMsg addrDest
        else
          let diff = (timeCurrent - cl_timeLastMessageSent L) div 1000 in
          if diff < cc_timeoutSeconds (cl_config L) \<and> cl_sendCount L \<noteq> 0
          then (E_STUNCLIENT_STILL_WAITING, L, spMsg, addrDest)
          else if cl_sendCount L \<ge> cc_uMaxAttempts (cl_config L)
          then GetNextMessage_loop rnd timeCurrent (notify_timeout L) spMsg addrDest
          else
            let (hr, t, spMsg, addrDest) = Test_GetMessage rnd (cl_config L) (cl_results L) pCurrentTest spMsg;
                L = set_test L (current L) t in
            if FAILED hr then (hr, L, spMsg, addrDest)
            else (S_OK, L\<lparr>cl_sendCount := cl_sendCount L + 1, cl_timeLastMessageSent := timeCurrent\<rparr>,
                  spMsg, addrDest))"
  by pat_completeness auto
termination
proof (relation "measure (\<lambda>(_, _, L, _, _). 2 * (length (cl_testlist L) - cl_nTestIndex L)
    + (if ct_fCompleted (current_test L) then 0 else 1))", goal_cases)
  case (2 rnd timeCurrent L spMsg addrDest L' t)
  then have "Suc (2 * (length (cl_testlist L) - Suc (cl_nTestIndex L))) < 2 * (length (cl_testlist L) - cl_nTestIndex L)"
    by linarith
  with 2 show ?case
    by (auto simp: next_test_def)
next
  case (3 rnd timeCurrent L spMsg addrDest L' t diff)
  then have "\<not> ct_fCompleted (current_test L)"
    using precheck_completed [of L] by (auto simp: IsCompleted_def)
  with 3 show ?case
    using notify_completes [of L'] by simp
qed simp

declare GetNextMessage_loop.simps [simp del]

definition GetNextMessage :: "(nat \<Rightarrow> byte) \<Rightarrow> CStunClientLogic \<Rightarrow> cbuffer \<Rightarrow> CSocketAddress option \<Rightarrow> u32
    \<Rightarrow> hresult \<times> CStunClientLogic \<times> cbuffer \<times> CSocketAddress option" where
  "GetNextMessage rnd L spMsg pAddrDest timeCurrentMilliseconds =
     (if cl_fInitialized L = False then (E_FAIL, L, spMsg, pAddrDest)
      else if cb_allocated spMsg = 0 then (E_INVALIDARG, L, spMsg, pAddrDest)
      else case pAddrDest of None \<Rightarrow> (E_INVALIDARG, L, spMsg, pAddrDest) | Some addrDest \<Rightarrow>
        if cb_allocated spMsg < MAX_STUN_MESSAGE_SIZE then (E_INVALIDARG, L, spMsg, pAddrDest)
        else let (hr, L, spMsg, addrDest) = GetNextMessage_loop rnd timeCurrentMilliseconds L spMsg addrDest in
          (hr, L, spMsg, Some addrDest))"

definition Logic_ProcessResponse :: "CStunClientLogic \<Rightarrow> cbuffer \<Rightarrow> CSocketAddress \<Rightarrow> CSocketAddress
    \<Rightarrow> hresult \<times> CStunClientLogic" where
  "Logic_ProcessResponse L spMsg addrRemote addrLocal =
     (if cl_fInitialized L = False then (E_FAIL, L)
      else if cb_size spMsg = 0 then (E_INVALIDARG, L)
      else if length (cl_testlist L) \<le> cl_nTestIndex L then (E_UNEXPECTED, L)
      else if IsCompleted (current_test L) then (E_UNEXPECTED, L)
      else let (hr, t, res) = Test_ProcessResponse (cl_config L) (cl_results L) (current_test L) spMsg addrRemote addrLocal in
        (hr, (set_test L (current L) t)\<lparr>cl_results := res\<rparr>))"

definition GetResults :: "CStunClientLogic \<Rightarrow> StunClientResults option \<Rightarrow> hresult \<times> StunClientResults option" where
  "GetResults L pResults = (if pResults = None then (E_INVALIDARG, None) else (S_OK, Some (cl_results L)))"

section \<open>The invariant\<close>

definition is_test3 :: "TestMember \<Rightarrow> bool" where
  "is_test3 m \<longleftrightarrow> m = TestBehavior3 \<or> m = TestFiltering3"

definition test_ok :: "TestMember \<Rightarrow> CStunClientTest \<Rightarrow> bool" where
  "test_ok m t \<longleftrightarrow> ct_class t = class_of_member m \<and> ct_fIsTest3 t = is_test3 m \<and> length (ct_transid t) = 16"

definition logic_ok :: "CStunClientLogic \<Rightarrow> bool" where
  "logic_ok L \<longleftrightarrow> cl_fInitialized L \<and> 0 < cc_uMaxAttempts (cl_config L) \<and>
     (\<forall>m\<in>set (cl_testlist L). test_ok m (cl_tests L m)) \<and> distinct (cl_testlist L) \<and>
     cl_nTestIndex L \<le> length (cl_testlist L) \<and> cl_sendCount L \<le> cc_uMaxAttempts (cl_config L) \<and>
     (cl_sendCount L \<noteq> 0 \<longrightarrow> cl_nTestIndex L < length (cl_testlist L) \<and> cl_fPreCheckRunOnTest L)"

definition sends_left :: "CStunClientLogic \<Rightarrow> nat" where
  "sends_left L = (length (cl_testlist L) - cl_nTestIndex L) * unat (cc_uMaxAttempts (cl_config L))
     - unat (cl_sendCount L)"

definition test_list :: "StunClientLogicConfig \<Rightarrow> TestMember list" where
  "test_list cfg = Test1 # (if cc_fFilteringTest cfg then [TestFiltering2, TestFiltering3] else []) @
     (if cc_fBehaviorTest cfg then [TestBehavior2, TestBehavior3] else [])"

text \<open>The logic right after \<open>Initialize\<close>.\<close>

definition logic_start :: "StunClientLogicConfig \<Rightarrow> CStunClientLogic \<Rightarrow> bool" where
  "logic_start cfg L \<longleftrightarrow> logic_ok L \<and> cl_config L = effective_config cfg \<and> cl_testlist L = test_list cfg \<and>
     cl_nTestIndex L = 0 \<and> cl_sendCount L = 0 \<and> \<not> cl_fPreCheckRunOnTest L \<and>
     cl_results L = StunClientResults_Init \<and>
     (\<forall>m\<in>set (test_list cfg). \<not> ct_fCompleted (cl_tests L m) \<and> ct_transid (cl_tests L m) = zero_bytes 16)"

definition valid_server :: "CSocketAddress \<Rightarrow> bool" where
  "valid_server a \<longleftrightarrow> \<not> IsIPAddressZero a \<and> GetPort a \<noteq> 0"

lemma push_test_fields [simp]:
  "cl_config (push_test m f L) = cl_config L" "cl_results (push_test m f L) = cl_results L"
  "cl_fInitialized (push_test m f L) = cl_fInitialized L" "cl_nTestIndex (push_test m f L) = cl_nTestIndex L"
  "cl_sendCount (push_test m f L) = cl_sendCount L" "cl_testlist (push_test m f L) = cl_testlist L @ [m]"
  "cl_tests (push_test m f L) n = (if n = m then (cl_tests L m)\<lparr>ct_fInit := True, ct_fCompleted := False,
     ct_transid := zero_bytes 16, ct_fIsTest3 := ct_fIsTest3 (cl_tests L m) \<or> f\<rparr> else cl_tests L n)"
  by (simp_all add: push_test_def set_test_def Test_Init_def RunAsTest3_def Let_def)

lemma effective_config_fields [simp]:
  "cc_addrServer (effective_config cfg) = cc_addrServer cfg" "cc_fFilteringTest (effective_config cfg) = cc_fFilteringTest cfg"
  "cc_fBehaviorTest (effective_config cfg) = cc_fBehaviorTest cfg" "0 < cc_uMaxAttempts (effective_config cfg)"
  "cc_uMaxAttempts (effective_config cfg) = (if cc_uMaxAttempts cfg = 0 then 2 else cc_uMaxAttempts cfg)"
  "cc_timeoutSeconds (effective_config cfg) = (if cc_fTimeoutIsInstant cfg then 0
     else if cc_timeoutSeconds cfg = 0 then 3 else cc_timeoutSeconds cfg)"
  by (simp_all add: effective_config_def Let_def word_gt_0)

lemma Initialize_start:
  assumes "valid_server (cc_addrServer cfg)"
  shows "fst (Initialize (CStunClientLogic_new cfg0 pc0) cfg) = S_OK"
    "logic_start cfg (snd (Initialize (CStunClientLogic_new cfg0 pc0) cfg))"
proof -
  let ?L = "(CStunClientLogic_new cfg0 pc0)\<lparr>cl_config := effective_config cfg, cl_fInitialized := True,
      cl_nTestIndex := 0, cl_testlist := []\<rparr>"
  let ?L1 = "push_test Test1 False ?L"
  let ?L2 = "if cc_fFilteringTest cfg then push_test TestFiltering3 True (push_test TestFiltering2 False ?L1) else ?L1"
  let ?L3 = "if cc_fBehaviorTest cfg then push_test TestBehavior3 True (push_test TestBehavior2 False ?L2) else ?L2"
  define L3 where "L3 = ?L3"
  have i: "Initialize (CStunClientLogic_new cfg0 pc0) cfg =
      (S_OK, L3\<lparr>cl_fPreCheckRunOnTest := False, cl_timeLastMessageSent := 0\<rparr>)"
    using assms by (simp add: valid_server_def Initialize_def CStunClientLogic_new_def Let_def L3_def)
  show "fst (Initialize (CStunClientLogic_new cfg0 pc0) cfg) = S_OK"
    by (simp add: i)
  have f: "cl_testlist L3 = test_list cfg" "cl_config L3 = effective_config cfg" "cl_fInitialized L3"
    "cl_nTestIndex L3 = 0" "cl_sendCount L3 = 0" "cl_results L3 = StunClientResults_Init"
    by (simp_all add: L3_def test_list_def CStunClientLogic_new_def)
  have "\<forall>m\<in>set (test_list cfg). test_ok m (cl_tests L3 m) \<and> \<not> ct_fCompleted (cl_tests L3 m) \<and>
      ct_transid (cl_tests L3 m) = zero_bytes 16"
    by (auto simp: L3_def test_list_def test_ok_def CStunClientLogic_new_def CStunClientTest_new_def
        class_of_member_def is_test3_def)
  moreover have "distinct (test_list cfg)"
    by (auto simp: test_list_def)
  moreover have "0 < cc_uMaxAttempts (effective_config cfg)"
    by (rule effective_config_fields)
  ultimately show "logic_start cfg (snd (Initialize (CStunClientLogic_new cfg0 pc0) cfg))"
    unfolding i by (simp add: logic_start_def logic_ok_def f del: effective_config_fields)
qed

lemma set_test_ok:
  assumes "logic_ok L" "test_ok m t"
  shows "logic_ok (set_test L m t)"
  using assms by (auto simp: logic_ok_def set_test_def)

lemma current_ok:
  assumes "logic_ok L" "cl_nTestIndex L < length (cl_testlist L)"
  shows "test_ok (current L) (current_test L)"
  using assms by (simp add: logic_ok_def)

lemma logic_ok_results [simp]: "logic_ok (L\<lparr>cl_results := res\<rparr>) = logic_ok L"
  by (simp add: logic_ok_def)

lemma run_precheck_ok:
  assumes "logic_ok L" "cl_nTestIndex L < length (cl_testlist L)"
  shows "logic_ok (run_precheck L)"
proof -
  obtain t res where t: "PreRunCheck (cl_results L) (current_test L) = (t, res)"
    by fastforce
  have "test_ok (current L) t"
    using current_ok [OF assms] virt.pre_fields [of "cl_results L" "current_test L"] by (simp add: test_ok_def t)
  from set_test_ok [OF assms(1) this] show ?thesis
    using assms by (simp add: run_precheck_def t logic_ok_def)
qed

lemma notify_timeout_ok:
  assumes "logic_ok L" "cl_nTestIndex L < length (cl_testlist L)"
  shows "logic_ok (notify_timeout L)"
proof -
  have "test_ok (current L) (fst (NotifyTimeout (cl_results L) (current_test L)))"
    using current_ok [OF assms] by (simp add: test_ok_def virt.timeout_law)
  from set_test_ok [OF assms(1) this] show ?thesis
    by (simp add: notify_timeout_def case_prod_beta)
qed

lemma next_test_ok: "logic_ok L \<Longrightarrow> cl_nTestIndex L < length (cl_testlist L) \<Longrightarrow> logic_ok (next_test L)"
  by (simp add: logic_ok_def next_test_def)

lemma next_test_sends_left: "logic_ok L \<Longrightarrow> cl_nTestIndex L < length (cl_testlist L) \<Longrightarrow> sends_left (next_test L) \<le> sends_left L"
proof -
  assume L: "logic_ok L" "cl_nTestIndex L < length (cl_testlist L)"
  let ?m = "unat (cc_uMaxAttempts (cl_config L))"
  have "length (cl_testlist L) - cl_nTestIndex L = Suc (length (cl_testlist L) - Suc (cl_nTestIndex L))"
    using L(2) by simp
  moreover have "unat (cl_sendCount L) \<le> ?m"
    using L(1) by (simp add: logic_ok_def word_le_nat_alt)
  ultimately show ?thesis
    by (simp add: sends_left_def next_test_def)
qed

lemma sends_left_simps [simp]: "sends_left (run_precheck L) = sends_left L" "sends_left (notify_timeout L) = sends_left L"
  by (simp_all add: sends_left_def)

section \<open>What GetNextMessage returns\<close>

text \<open>The logic waits for the answer to a request it has sent.\<close>

definition waiting :: "CStunClientLogic \<Rightarrow> bool" where
  "waiting L \<longleftrightarrow> logic_ok L \<and> cl_nTestIndex L < length (cl_testlist L) \<and> cl_sendCount L \<noteq> 0 \<and>
     \<not> ct_fCompleted (current_test L) \<and> IsReadyToRun (cl_results L) (current_test L)"

definition next_outcome :: "u32 \<Rightarrow> CStunClientLogic \<Rightarrow> cbuffer
    \<Rightarrow> hresult \<times> CStunClientLogic \<times> cbuffer \<times> CSocketAddress \<Rightarrow> bool" where
  "next_outcome now L buf r \<longleftrightarrow> (case r of (hr, L', buf', dest') \<Rightarrow>
     logic_ok L' \<and> cl_testlist L' = cl_testlist L \<and> cl_config L' = cl_config L \<and>
     (if hr = S_OK then waiting L' \<and> sends_left L' < sends_left L \<and> cl_timeLastMessageSent L' = now \<and>
        (\<exists>change. msg_buffer (cb_allocated buf) (request_wire (ct_transid (current_test L')) change) buf') \<and>
        IsTransactionIdValid (ct_transid (current_test L'))
      else if hr = E_STUNCLIENT_STILL_WAITING
      then waiting L' \<and> sends_left L' \<le> sends_left L \<and> cl_sendCount L \<noteq> 0 \<and> buf' = buf \<and>
        (now - cl_timeLastMessageSent L) div 1000 < cc_timeoutSeconds (cl_config L) \<and>
        cl_timeLastMessageSent L' = cl_timeLastMessageSent L
      else hr = E_STUNCLIENT_RESULTS_READY \<and> cl_nTestIndex L' = length (cl_testlist L) \<and>
        sends_left L' \<le> sends_left L \<and> buf' = buf))"

lemma client_codes [simp]:
  "E_STUNCLIENT_STILL_WAITING \<noteq> S_OK" "E_STUNCLIENT_RESULTS_READY \<noteq> S_OK"
  "S_OK \<noteq> E_STUNCLIENT_STILL_WAITING" "S_OK \<noteq> E_STUNCLIENT_RESULTS_READY"
  "E_STUNCLIENT_RESULTS_READY \<noteq> E_STUNCLIENT_STILL_WAITING" "E_STUNCLIENT_STILL_WAITING \<noteq> E_STUNCLIENT_RESULTS_READY"
  "FAILED E_STUNCLIENT_STILL_WAITING" "FAILED E_STUNCLIENT_RESULTS_READY"
  by (simp_all add: hr_defs FAILED_def)

lemma outcome_through:
  assumes "next_outcome now L1 buf r" "cl_testlist L1 = cl_testlist L" "cl_config L1 = cl_config L"
    "sends_left L1 \<le> sends_left L" "cl_sendCount L1 \<noteq> 0 \<Longrightarrow> cl_sendCount L \<noteq> 0"
    "cl_timeLastMessageSent L1 = cl_timeLastMessageSent L"
  shows "next_outcome now L buf r"
  using assms by (auto simp: next_outcome_def split: if_splits)

text \<open>The two resumptions of the loop, and its exits, with the precheck done.\<close>

lemma word_suc:
  assumes "(x :: u32) < y"
  shows "unat (x + 1) = Suc (unat x)" "x + 1 \<noteq> 0"
proof -
  have "unat x + 1 < 2 ^ 32"
    using assms unsigned_less [where 'a = nat and w = y] by (simp add: word_less_nat_alt)
  then show "unat (x + 1) = Suc (unat x)"
    by (simp add: unat_word_ariths)
  then show "x + 1 \<noteq> 0"
    by auto
qed

lemma word_suc_le: "(x :: u32) < y \<Longrightarrow> x + 1 \<le> y"
  by (metis inc_le)

lemma send_outcome:
  assumes L: "logic_ok L" "cl_nTestIndex L < length (cl_testlist L)" "cl_fPreCheckRunOnTest L"
    and t: "\<not> ct_fCompleted (current_test L)" "IsReadyToRun (cl_results L) (current_test L)"
    and c: "cl_sendCount L < cc_uMaxAttempts (cl_config L)" and buf: "buffer_ok buf" "200 \<le> cb_allocated buf"
    and r: "IsReadyToRun (cl_results L) ((current_test L)\<lparr>ct_transid := next_tid rnd (current_test L)\<rparr>)"
  shows "\<exists>buf' dest'. Test_GetMessage rnd (cl_config L) (cl_results L) (current_test L) buf =
      (S_OK, (current_test L)\<lparr>ct_transid := next_tid rnd (current_test L)\<rparr>, buf', dest') \<and>
    next_outcome now L buf (S_OK, (set_test L (current L) ((current_test L)\<lparr>ct_transid := next_tid rnd (current_test L)\<rparr>))
      \<lparr>cl_sendCount := cl_sendCount L + 1, cl_timeLastMessageSent := now\<rparr>, buf', dest')"
proof -
  let ?t = "(current_test L)\<lparr>ct_transid := next_tid rnd (current_test L)\<rparr>"
  note o = current_ok [OF L(1,2)]
  have len: "length (ct_transid (current_test L)) = 16"
    using o by (simp add: test_ok_def)
  from virt.get_law [OF TrueI buf len, of rnd "cl_config L" "cl_results L"] obtain change buf' dest' where
    g: "Test_GetMessage rnd (cl_config L) (cl_results L) (current_test L) buf = (S_OK, ?t, buf', dest')"
    "msg_buffer (cb_allocated buf) (request_wire (next_tid rnd (current_test L)) change) buf'"
    by blast
  have "test_ok (current L) ?t"
    using o by (simp add: test_ok_def)
  note s = set_test_ok [OF L(1) this]
  have n: "unat (cl_sendCount L + 1) = Suc (unat (cl_sendCount L))" "cl_sendCount L + 1 \<noteq> 0"
    using word_suc [OF c] by simp_all
  have v: "IsTransactionIdValid (next_tid rnd (current_test L))"
    by (simp add: next_tid_def)
  let ?L = "(set_test L (current L) ?t)\<lparr>cl_sendCount := cl_sendCount L + 1, cl_timeLastMessageSent := now\<rparr>"
  have ok: "logic_ok ?L"
    using s L(2,3) word_suc_le [OF c] by (simp add: logic_ok_def set_test_def)
  have "unat (cl_sendCount L) < (length (cl_testlist L) - cl_nTestIndex L) * unat (cc_uMaxAttempts (cl_config L))"
    using c L(2) unfolding word_less_nat_alt by (cases "length (cl_testlist L) - cl_nTestIndex L") auto
  then have left: "sends_left ?L < sends_left L"
    by (simp add: sends_left_def set_test_def n)
  have cur: "current_test ?L = ?t" "current ?L = current L" "cl_results ?L = cl_results L"
    by (simp_all add: set_test_def)
  have "waiting ?L"
    using ok t(1) r L(2) n(2) by (simp add: waiting_def set_test_def)
  with ok left g v show ?thesis
    by (simp add: next_outcome_def set_test_def) blast
qed

lemma IsReadyToRun_transid [simp]: "IsReadyToRun res (t\<lparr>ct_transid := x\<rparr>) = IsReadyToRun res t"
  by (cases "ct_class t") (simp_all add: virtual_defs test_defs Let_def)

lemma GetNextMessage_loop_outcome:
  assumes "logic_ok L" "buffer_ok buf" "200 \<le> cb_allocated buf"
  shows "next_outcome now L buf (GetNextMessage_loop rnd now L buf dest)"
  using assms
proof (induction rnd now L buf dest rule: GetNextMessage_loop.induct)
  case (1 rnd now L buf dest)
  let ?L = "run_precheck L"
  show ?case
  proof (cases "length (cl_testlist L) \<le> cl_nTestIndex L")
    case True
    with 1(3) show ?thesis
      by (simp add: GetNextMessage_loop.simps [of rnd now L] next_outcome_def logic_ok_def)
  next
    case lt: False
    then have i: "cl_nTestIndex L < length (cl_testlist L)"
      by simp
    note ok = run_precheck_ok [OF 1(3) i] and i' = i [folded logic_fields(1,2) [of L]]
    let ?open = "\<not> IsCompleted (current_test ?L) \<and> IsReadyToRun (cl_results ?L) (current_test ?L)"
    note loop = GetNextMessage_loop.simps [of rnd now L buf dest, unfolded Let_def]
    show ?thesis
    proof (cases ?open)
      case False
      note IH = 1(1) [OF lt refl refl _ next_test_ok [OF ok i'] 1(4,5)]
      have "GetNextMessage_loop rnd now L buf dest = GetNextMessage_loop rnd now (next_test ?L) buf dest"
        using False lt by (subst loop) (simp add: IsCompleted_def)
      then show ?thesis
        using outcome_through [OF IH, of L] False next_test_sends_left [OF ok i']
        by (simp add: next_test_def)
    next
      case op: True
      then have op': "\<not> ct_fCompleted (current_test ?L)" "IsReadyToRun (cl_results ?L) (current_test ?L)"
        by (simp_all add: IsCompleted_def)
      show ?thesis
      proof (cases "(now - cl_timeLastMessageSent L) div 1000 < cc_timeoutSeconds (cl_config L) \<and> cl_sendCount L \<noteq> 0")
        case w: True
        have "GetNextMessage_loop rnd now L buf dest = (E_STUNCLIENT_STILL_WAITING, ?L, buf, dest)"
          using w op lt by (subst loop) simp
        with w op' ok i show ?thesis
          by (simp add: next_outcome_def waiting_def)
      next
        case nw: False
        show ?thesis
        proof (cases "cc_uMaxAttempts (cl_config L) \<le> cl_sendCount L")
          case m: True
          have "GetNextMessage_loop rnd now L buf dest = GetNextMessage_loop rnd now (notify_timeout ?L) buf dest"
            using m nw op lt by (subst loop) auto
          moreover have "next_outcome now (notify_timeout ?L) buf (GetNextMessage_loop rnd now (notify_timeout ?L) buf dest)"
            using m nw op lt notify_timeout_ok [OF ok i'] 1(4,5) by (intro 1(2) [OF lt refl refl _ refl]) auto
          ultimately show ?thesis
            using outcome_through [of now "notify_timeout ?L" buf _ L] by simp
        next
          case m: False
          then have c: "cl_sendCount ?L < cc_uMaxAttempts (cl_config ?L)"
            by simp
          from send_outcome [OF ok i' _ op' c 1(4,5), of rnd now] op' obtain buf' dest' where
            g: "Test_GetMessage rnd (cl_config ?L) (cl_results ?L) (current_test ?L) buf =
              (S_OK, (current_test ?L)\<lparr>ct_transid := next_tid rnd (current_test ?L)\<rparr>, buf', dest')"
            and o: "next_outcome now ?L buf (S_OK, (set_test ?L (current ?L)
                ((current_test ?L)\<lparr>ct_transid := next_tid rnd (current_test ?L)\<rparr>))
                \<lparr>cl_sendCount := cl_sendCount ?L + 1, cl_timeLastMessageSent := now\<rparr>, buf', dest')"
            by auto
          have "GetNextMessage_loop rnd now L buf dest = (S_OK, (set_test ?L (current ?L)
                ((current_test ?L)\<lparr>ct_transid := next_tid rnd (current_test ?L)\<rparr>))
                \<lparr>cl_sendCount := cl_sendCount ?L + 1, cl_timeLastMessageSent := now\<rparr>, buf', dest')"
            using m nw op lt g by (subst loop) (auto simp: set_test_def)
          then show ?thesis
            using outcome_through [OF o, of L] by simp
        qed
      qed
    qed
  qed
qed

text \<open>Responses.\<close>

lemma Logic_ProcessResponse_ok:
  assumes "logic_ok L"
  shows "logic_ok (snd (Logic_ProcessResponse L buf remote addrLocal))"
    "cl_testlist (snd (Logic_ProcessResponse L buf remote addrLocal)) = cl_testlist L"
    "cl_config (snd (Logic_ProcessResponse L buf remote addrLocal)) = cl_config L"
    "sends_left (snd (Logic_ProcessResponse L buf remote addrLocal)) = sends_left L"
    "cl_sendCount (snd (Logic_ProcessResponse L buf remote addrLocal)) = cl_sendCount L"
    "cl_timeLastMessageSent (snd (Logic_ProcessResponse L buf remote addrLocal)) = cl_timeLastMessageSent L"
proof -
  obtain hr t res where r: "Test_ProcessResponse (cl_config L) (cl_results L) (current_test L) buf remote addrLocal = (hr, t, res)"
    by (rule prod_cases3)
  have "logic_ok (snd (Logic_ProcessResponse L buf remote addrLocal))"
    if "cl_nTestIndex L < length (cl_testlist L)"
  proof -
    have "test_ok (current L) t"
      using current_ok [OF assms that] virt.resp_law [OF TrueI r] by (auto simp: test_ok_def split: if_splits)
    from set_test_ok [OF assms this] show ?thesis
      using assms by (simp add: Logic_ProcessResponse_def r)
  qed
  then show "logic_ok (snd (Logic_ProcessResponse L buf remote addrLocal))"
    using assms by (cases "cl_nTestIndex L < length (cl_testlist L)") (auto simp: Logic_ProcessResponse_def)
qed (simp_all add: Logic_ProcessResponse_def case_prod_beta sends_left_def set_test_def)

lemma Logic_ProcessResponse_foreign:
  assumes "\<not> answers_test (current_test L) (cb_contents buf)"
  shows "FAILED (fst (Logic_ProcessResponse L buf remote addrLocal))"
    "snd (Logic_ProcessResponse L buf remote addrLocal) = L"
proof -
  have "FAILED (fst (Test_ProcessResponse (cl_config L) (cl_results L) (current_test L) buf remote addrLocal))"
    "snd (Test_ProcessResponse (cl_config L) (cl_results L) (current_test L) buf remote addrLocal) = (current_test L, cl_results L)"
    using virt.foreign_ignored [OF TrueI assms] by simp_all
  then show "FAILED (fst (Logic_ProcessResponse L buf remote addrLocal))"
    "snd (Logic_ProcessResponse L buf remote addrLocal) = L"
    by (auto simp: Logic_ProcessResponse_def case_prod_beta set_test_def)
qed

section \<open>Properties\<close>

text \<open>Any sequence of calls on the client: how many requests it makes the caller send.\<close>

datatype client_call = AskNext "nat \<Rightarrow> byte" u32 cbuffer CSocketAddress | Respond cbuffer CSocketAddress CSocketAddress

fun requests_sent :: "client_call list \<Rightarrow> CStunClientLogic \<Rightarrow> nat" where
  "requests_sent [] L = 0"
| "requests_sent (AskNext rnd now buf dest # calls) L =
     (let (hr, L, _, _) = GetNextMessage rnd L buf (Some dest) now in
      (if hr = S_OK then 1 else 0) + requests_sent calls L)"
| "requests_sent (Respond buf remote addrLocal # calls) L =
     requests_sent calls (snd (Logic_ProcessResponse L buf remote addrLocal))"

definition call_buffer_ok :: "client_call \<Rightarrow> bool" where
  "call_buffer_ok c = (case c of AskNext _ _ buf _ \<Rightarrow> buffer_ok buf | Respond _ _ _ \<Rightarrow> True)"

lemma requests_left:
  assumes "logic_ok L" "list_all call_buffer_ok calls"
  shows "requests_sent calls L \<le> sends_left L"
  using assms
proof (induction calls arbitrary: L)
  case (Cons c calls)
  show ?case
  proof (cases c)
    case (AskNext rnd now buf dest)
    have b: "buffer_ok buf"
      using Cons.prems AskNext by (simp add: call_buffer_ok_def)
    show ?thesis
    proof (cases "cb_allocated buf < MAX_STUN_MESSAGE_SIZE")
      case True
      then show ?thesis
        using Cons AskNext by (simp add: GetNextMessage_def logic_ok_def hr_defs)
    next
      case False
      then have a: "200 \<le> cb_allocated buf" "cb_allocated buf \<noteq> 0"
        by (simp_all add: stun_consts)
      obtain hr L' buf' dest' where l: "GetNextMessage_loop rnd now L buf dest = (hr, L', buf', dest')"
        by (rule prod_cases4)
      have g: "GetNextMessage rnd L buf (Some dest) now = (hr, L', buf', Some dest')"
        using Cons.prems(1) False a(2) l by (simp add: GetNextMessage_def logic_ok_def)
      have o: "next_outcome now L buf (hr, L', buf', dest')"
        using GetNextMessage_loop_outcome [OF Cons.prems(1) b a(1), of now rnd dest] l by simp
      then have "(if hr = S_OK then 1 else 0) + sends_left L' \<le> sends_left L" "logic_ok L'"
        by (auto simp: next_outcome_def split: if_splits)
      with Cons.IH [of L'] Cons.prems(2) show ?thesis
        by (simp add: AskNext g)
    qed
  next
    case (Respond buf remote addrLocal)
    note r = Logic_ProcessResponse_ok [OF Cons.prems(1), of buf remote addrLocal]
    with Cons.IH [OF r(1)] Cons.prems(2) show ?thesis
      by (simp add: Respond)
  qed
qed simp

text \<open>C11: whatever the caller does with a client that it has initialised, in whatever order and at
  whatever times, and whatever it receives, the client makes it send at most the configured number of
  attempts for each of its tests.\<close>

theorem client_requests_bounded:
  assumes "Initialize (CStunClientLogic_new cfg0 pc0) cfg = (hr, L)" "\<not> FAILED hr" "list_all call_buffer_ok calls"
  shows "requests_sent calls L \<le> length (test_list cfg) * unat (cc_uMaxAttempts (effective_config cfg))"
proof -
  have v: "valid_server (cc_addrServer cfg)"
    using assms(1,2) by (auto simp: Initialize_def valid_server_def CStunClientLogic_new_def split: if_splits)
  have "logic_start cfg L"
    using Initialize_start(2) [OF v, of cfg0 pc0] assms(1) by simp
  then have "logic_ok L" "sends_left L = length (test_list cfg) * unat (cc_uMaxAttempts (effective_config cfg))"
    by (simp_all add: logic_start_def sends_left_def)
  with requests_left [OF _ assms(3)] show ?thesis
    by metis
qed

definition example_client :: StunClientLogicConfig where
  "example_client = \<lparr>cc_addrServer = CSocketAddress_ipv4 0x0A000001 3478, cc_fTimeoutIsInstant = False,
     cc_timeoutSeconds = 0, cc_uMaxAttempts = 0, cc_fBehaviorTest = True, cc_fFilteringTest = True\<rparr>"

lemma example_server: "valid_server (cc_addrServer example_client)"
proof -
  have "zero_bytes 4 = [0, 0, 0, 0]"
    by (simp add: zero_bytes_def eval_nat_numeral)
  then show ?thesis
    by (simp add: valid_server_def example_client_def IsIPAddressZero_def CSocketAddress_ipv4_def be32_def GetPort_def GetPort_NBO_def)
qed

theorem client_requests_bounded_witness:
  "requests_sent (replicate 20 (AskNext (\<lambda>_. 0) 5000 (CB_new 800) CSocketAddress_default))
     (snd (Initialize (CStunClientLogic_new example_client True) example_client)) \<le> 10"
proof -
  have "buffer_ok (CB_new 800)"
    by (simp add: buffer_ok_def CB_new_def CB_InitWithAllocation_def)
  then have "list_all call_buffer_ok (replicate 20 (AskNext (\<lambda>_. 0) 5000 (CB_new 800) CSocketAddress_default))"
    by (simp add: call_buffer_ok_def list_all_iff)
  then show ?thesis
    using client_requests_bounded [of example_client True example_client S_OK
        "snd (Initialize (CStunClientLogic_new example_client True) example_client)"]
      Initialize_start(1) [OF example_server, of example_client True]
    by (simp add: prod_eq_iff example_client_def test_list_def)
qed

text \<open>C12: a message that the parser does not accept, or whose transaction id is not that of the
  request of the current test, is refused and changes nothing.\<close>

theorem foreign_response_ignored:
  assumes "\<not> (spec_state True (cb_contents buf) = BodyValidated \<and> msg_tid (cb_contents buf) = ct_transid (current_test L))"
  shows "FAILED (fst (Logic_ProcessResponse L buf remote addrLocal)) \<and> snd (Logic_ProcessResponse L buf remote addrLocal) = L"
  using Logic_ProcessResponse_foreign [of L buf remote addrLocal] assms by (auto simp: answers_test_def)

theorem foreign_response_ignored_witness:
  "FAILED (fst (Logic_ProcessResponse (CStunClientLogic_new example_client True) (CB_new 0) CSocketAddress_default CSocketAddress_default))"
  using foreign_response_ignored [of "CB_new 0" "CStunClientLogic_new example_client True" CSocketAddress_default CSocketAddress_default]
  by (simp add: spec_state_def cb_contents_def CB_new_def CB_InitWithAllocation_def stun_consts)

end
