(* ===== verification/StunClientMain.thy ===== *)
theory StunClientMain imports StunClientLogic begin

text \<open>
  The client program (client/clientmain.cpp): its UDP loop around the client logic.  Sockets, the
  clock and the random source are an argument of each turn of the loop; log output is left out.
  The loop is shown to end, and the results it ends with to be a chain of the single tests.
\<close>

section \<open>UdpClientLoop\<close>

text \<open>
  One turn of the loop, as the outside world decides it: the random bytes, the millisecond counter,
  and what \<open>select\<close> and \<open>recvfromex\<close> deliver after the datagram that was sent, if one was.  A
  \<open>sendto\<close> that fails is a datagram that is not answered.
\<close>

type_synonym datagram = "bytes \<times> CSocketAddress \<times> CSocketAddress"

record UdpTurn =
  ut_rnd :: "nat \<Rightarrow> byte"
  ut_clock :: u32
  ut_net :: "(CSocketAddress \<times> bytes) option \<Rightarrow> datagram option"

definition recv_into :: "cbuffer \<Rightarrow> bytes \<Rightarrow> int \<times> cbuffer" where
  "recv_into spMsg d =
     (let d = take (cb_allocated spMsg) d in
      (int (length d), spMsg\<lparr>cb_data := map_option (\<lambda>old. d @ drop (length d) old) (cb_data spMsg)\<rparr>))"

datatype udp_loop = Running CStunClientLogic cbuffer CSocketAddress | Ended hresult "StunClientResults option"

definition wait_response :: "u16 \<Rightarrow> UdpTurn \<Rightarrow> (CSocketAddress \<times> bytes) option \<Rightarrow> CStunClientLogic \<Rightarrow> cbuffer
    \<Rightarrow> CStunClientLogic \<times> cbuffer" where
  "wait_response localport turn sent clientlogic spMsg =
     (let spMsg = snd (CB_SetSize spMsg 0) in
      case ut_net turn sent of
        None \<Rightarrow> (clientlogic, spMsg)
      | Some (d, addrRemote, addrLocal) \<Rightarrow>
          let (ret, spMsg) = recv_into spMsg d in
          if ret > 0
          then (let addrLocal = SetPort addrLocal localport;
                    spMsg = snd (CB_SetSize spMsg (nat ret)) in
                (snd (Logic_ProcessResponse clientlogic spMsg addrRemote addrLocal), spMsg))
          else (clientlogic, spMsg))"

definition udp_turn :: "u16 \<Rightarrow> UdpTurn \<Rightarrow> CStunClientLogic \<Rightarrow> cbuffer \<Rightarrow> CSocketAddress \<Rightarrow> udp_loop" where
  "udp_turn localport turn clientlogic spMsg addrDest =
     (let spMsg = snd (CB_SetSize spMsg 0);
          (hrRet, clientlogic, spMsg, dest) =
            GetNextMessage (ut_rnd turn) clientlogic spMsg (Some addrDest) (ut_clock turn);
          addrDest = (case dest of Some a \<Rightarrow> a | None \<Rightarrow> addrDest) in
      if SUCCEEDED hrRet
      then (let (clientlogic, spMsg) = wait_response localport turn (Some (addrDest, cb_contents spMsg)) clientlogic spMsg in
            Running clientlogic spMsg addrDest)
      else if hrRet = E_STUNCLIENT_STILL_WAITING
      then (let (clientlogic, spMsg) = wait_response localport turn None clientlogic spMsg in
            Running clientlogic spMsg addrDest)
      else if hrRet = E_STUNCLIENT_RESULTS_READY
      then Ended S_OK (snd (GetResults clientlogic (Some StunClientResults_Init)))
      else Ended hrRet None)"

fun udp_turns :: "u16 \<Rightarrow> UdpTurn list \<Rightarrow> udp_loop \<Rightarrow> udp_loop" where
  "udp_turns localport turns (Ended hr res) = Ended hr res"
| "udp_turns localport [] (Running clientlogic spMsg addrDest) = Running clientlogic spMsg addrDest"
| "udp_turns localport (turn # turns) (Running clientlogic spMsg addrDest) =
     udp_turns localport turns (udp_turn localport turn clientlogic spMsg addrDest)"

definition UdpClientLoop :: "StunClientLogicConfig \<Rightarrow> bool \<Rightarrow> StunClientLogicConfig \<Rightarrow> hresult \<Rightarrow> u16 \<Rightarrow> UdpTurn list \<Rightarrow> udp_loop" where
  "UdpClientLoop config0 precheck0 config udp_init localport turns =
     (let (hr, clientlogic) = Initialize (CStunClientLogic_new config0 precheck0) config in
      if FAILED hr then Ended hr None
      else if FAILED udp_init then Ended udp_init None
      else udp_turns localport turns (Running clientlogic (CB_new MAX_STUN_MESSAGE_SIZE) CSocketAddress_default))"

section \<open>The loop ends\<close>

lemma GetNextMessage_outcome:
  assumes "logic_ok L" "buffer_ok buf" "cb_allocated buf = 800"
  obtains hr L' buf' dest' where "GetNextMessage rnd L buf (Some dest) now = (hr, L', buf', Some dest')"
    "next_outcome now L buf (hr, L', buf', dest')" "GetNextMessage_loop rnd now L buf dest = (hr, L', buf', dest')"
proof -
  obtain hr L' buf' dest' where l: "GetNextMessage_loop rnd now L buf dest = (hr, L', buf', dest')"
    by (rule prod_cases4)
  have "GetNextMessage rnd L buf (Some dest) now = (hr, L', buf', Some dest')"
    using assms l by (simp add: GetNextMessage_def logic_ok_def stun_consts)
  then show ?thesis
    using that GetNextMessage_loop_outcome [OF assms(1,2), of now rnd dest] assms(3) l by auto
qed

definition received :: "bytes \<Rightarrow> bytes" where
  "received d = take 800 d"

lemma recv_into_ok:
  assumes "buffer_ok buf" "cb_allocated buf = 800"
  shows "fst (recv_into buf d) = int (length (received d))"
    "buffer_ok (snd (CB_SetSize (snd (recv_into buf d)) (length (received d))))"
    "cb_contents (snd (CB_SetSize (snd (recv_into buf d)) (length (received d)))) = received d"
    "cb_allocated (snd (CB_SetSize (snd (recv_into buf d)) (length (received d)))) = 800"
    "buffer_ok (snd (recv_into buf d))" "cb_allocated (snd (recv_into buf d)) = 800"
  using assms by (auto simp: recv_into_def received_def buffer_ok_def cb_contents_def Let_def min_def split: option.splits)

text \<open>What the logic makes of a turn after its message has gone out, or not.\<close>

definition after_wait :: "u16 \<Rightarrow> datagram option \<Rightarrow> CStunClientLogic \<Rightarrow> CStunClientLogic \<Rightarrow> bool" where
  "after_wait localport dgram L L' \<longleftrightarrow> (case dgram of
     None \<Rightarrow> L' = L
   | Some (d, remote, addrLocal) \<Rightarrow> if received d = [] then L' = L
       else \<exists>buf. cb_contents buf = received d \<and> buffer_ok buf \<and>
         L' = snd (Logic_ProcessResponse L buf remote (SetPort addrLocal localport)))"

lemma wait_response_ok:
  assumes "buffer_ok buf" "cb_allocated buf = 800"
  obtains L' buf' where "wait_response localport turn sent L buf = (L', buf')" "buffer_ok buf'"
    "cb_allocated buf' = 800" "after_wait localport (ut_net turn sent) L L'"
proof -
  let ?b = "snd (CB_SetSize buf 0)"
  have b: "buffer_ok ?b" "cb_allocated ?b = 800"
    using CB_SetSize_ok [OF assms(1), of 0] assms(2) by simp_all
  show ?thesis
  proof (cases "ut_net turn sent")
    case None
    then show ?thesis
      using b that [of L ?b] by (simp add: wait_response_def after_wait_def del: CB_SetSize_eq)
  next
    case (Some x)
    obtain d remote addrLocal where x: "x = (d, remote, addrLocal)"
      by (rule prod_cases3)
    note r = recv_into_ok [OF b, of d]
    obtain n b' where rb: "recv_into ?b d = (n, b')"
      by fastforce
    show ?thesis
    proof (cases "received d = []")
      case True
      then show ?thesis
        using that [of L b'] r rb Some by (simp add: wait_response_def after_wait_def x del: CB_SetSize_eq)
    next
      case False
      let ?buf = "snd (CB_SetSize b' (length (received d)))"
      have "wait_response localport turn sent L buf =
          (snd (Logic_ProcessResponse L ?buf remote (SetPort addrLocal localport)), ?buf)"
        using False r rb Some by (simp add: wait_response_def x Let_def del: CB_SetSize_eq)
      moreover have "buffer_ok ?buf" "cb_contents ?buf = received d" "cb_allocated ?buf = 800"
        using r(2-4) rb by (simp_all del: CB_SetSize_eq)
      ultimately show ?thesis
        using that False Some by (fastforce simp: after_wait_def x simp del: CB_SetSize_eq)
    qed
  qed
qed

lemma after_wait_ok:
  assumes "after_wait localport dgram L L'" "logic_ok L"
  shows "logic_ok L'" "cl_testlist L' = cl_testlist L" "cl_config L' = cl_config L" "sends_left L' = sends_left L"
    "cl_sendCount L' = cl_sendCount L" "cl_timeLastMessageSent L' = cl_timeLastMessageSent L"
  using assms Logic_ProcessResponse_ok [OF assms(2)]
  by (auto simp: after_wait_def split: option.splits if_splits)

text \<open>One turn, as a relation between the logic before and after it.\<close>

definition turn_ok :: "u16 \<Rightarrow> UdpTurn \<Rightarrow> CStunClientLogic \<Rightarrow> CSocketAddress \<Rightarrow> CStunClientLogic \<Rightarrow> bool" where
  "turn_ok localport turn L dest L' \<longleftrightarrow> (\<exists>buf hr L1 buf' dest'. buffer_ok buf \<and> cb_allocated buf = 800 \<and>
     GetNextMessage_loop (ut_rnd turn) (ut_clock turn) L buf dest = (hr, L1, buf', dest') \<and>
     next_outcome (ut_clock turn) L buf (hr, L1, buf', dest') \<and> hr \<noteq> E_STUNCLIENT_RESULTS_READY \<and>
     after_wait localport (ut_net turn (if hr = S_OK then Some (dest', cb_contents buf') else None)) L1 L')"

lemma udp_turn_cases:
  assumes "logic_ok L" "buffer_ok buf" "cb_allocated buf = 800"
  obtains (running) L' buf' dest' where "udp_turn localport turn L buf dest = Running L' buf' dest'"
      "buffer_ok buf'" "cb_allocated buf' = 800" "turn_ok localport turn L dest L'"
    | (ended) L1 buf0 buf1 dest1 where "udp_turn localport turn L buf dest = Ended S_OK (Some (cl_results L1))"
      "GetNextMessage_loop (ut_rnd turn) (ut_clock turn) L buf0 dest = (E_STUNCLIENT_RESULTS_READY, L1, buf1, dest1)"
      "buffer_ok buf0" "cb_allocated buf0 = 800"
proof -
  let ?b = "snd (CB_SetSize buf 0)"
  have b: "buffer_ok ?b" "cb_allocated ?b = 800"
    using CB_SetSize_ok [OF assms(2), of 0] assms(3) by simp_all
  from GetNextMessage_outcome [OF assms(1) b, of "ut_rnd turn" dest "ut_clock turn"]
  obtain hr L1 buf1 dest1 where g: "GetNextMessage (ut_rnd turn) L ?b (Some dest) (ut_clock turn) = (hr, L1, buf1, Some dest1)"
    "next_outcome (ut_clock turn) L ?b (hr, L1, buf1, dest1)"
    "GetNextMessage_loop (ut_rnd turn) (ut_clock turn) L ?b dest = (hr, L1, buf1, dest1)"
    by blast
  have hr: "hr = S_OK \<or> hr = E_STUNCLIENT_STILL_WAITING \<or> hr = E_STUNCLIENT_RESULTS_READY"
    using g(2) by (auto simp: next_outcome_def split: if_splits)
  have b1: "buffer_ok buf1" "cb_allocated buf1 = 800"
    using g(2) b by (auto simp: next_outcome_def msg_buffer_def split: if_splits)
  show ?thesis
  proof (cases "hr = E_STUNCLIENT_RESULTS_READY")
    case True
    then have "udp_turn localport turn L buf dest = Ended S_OK (Some (cl_results L1))" "buf1 = ?b"
      using g by (simp_all add: udp_turn_def GetResults_def SUCCEEDED_iff_not_FAILED next_outcome_def del: CB_SetSize_eq)
    then show ?thesis
      using ended g(3) b True by blast
  next
    case False
    let ?sent = "if hr = S_OK then Some (dest1, cb_contents buf1) else None"
    obtain L' buf' where w: "wait_response localport turn ?sent L1 buf1 = (L', buf')" "buffer_ok buf'"
      "cb_allocated buf' = 800" "after_wait localport (ut_net turn ?sent) L1 L'"
      by (rule wait_response_ok [OF b1])
    have "udp_turn localport turn L buf dest = Running L' buf' dest1"
      using hr False g w by (auto simp: udp_turn_def SUCCEEDED_iff_not_FAILED simp del: CB_SetSize_eq)
    moreover have "turn_ok localport turn L dest L'"
      unfolding turn_ok_def using b g w False by blast
    ultimately show ?thesis
      using running w by blast
  qed
qed

lemma turn_ok_fields:
  assumes "turn_ok localport turn L dest L'"
  shows "logic_ok L'" "cl_testlist L' = cl_testlist L" "cl_config L' = cl_config L"
    "sends_left L' < sends_left L \<and> cl_timeLastMessageSent L' = ut_clock turn \<or>
     sends_left L' \<le> sends_left L \<and> cl_sendCount L \<noteq> 0 \<and> cl_timeLastMessageSent L' = cl_timeLastMessageSent L \<and>
     (ut_clock turn - cl_timeLastMessageSent L) div 1000 < cc_timeoutSeconds (cl_config L)"
proof -
  obtain buf hr L1 buf' dest' d where t: "next_outcome (ut_clock turn) L buf (hr, L1, buf', dest')"
    "hr \<noteq> E_STUNCLIENT_RESULTS_READY" "after_wait localport d L1 L'"
    using assms unfolding turn_ok_def by blast
  have "logic_ok L1"
    using t(1) by (simp add: next_outcome_def)
  from after_wait_ok [OF t(3) this] t(1,2) show "logic_ok L'" "cl_testlist L' = cl_testlist L" "cl_config L' = cl_config L"
    "sends_left L' < sends_left L \<and> cl_timeLastMessageSent L' = ut_clock turn \<or>
     sends_left L' \<le> sends_left L \<and> cl_sendCount L \<noteq> 0 \<and> cl_timeLastMessageSent L' = cl_timeLastMessageSent L \<and>
     (ut_clock turn - cl_timeLastMessageSent L) div 1000 < cc_timeoutSeconds (cl_config L)"
    by (auto simp: next_outcome_def split: if_splits)
qed

text \<open>
  The clock counts real time in milliseconds, modulo \<open>2 ^ 32\<close>: it never goes back, and a turn lasts
  \<open>longest\<close> at most.  \<open>select\<close> waits for half a second beyond the timeout of the caller at most; how
  short a turn can be when a datagram comes is left open.
\<close>

definition timed :: "nat \<Rightarrow> nat list \<Rightarrow> UdpTurn list \<Rightarrow> bool" where
  "timed longest ms turns \<longleftrightarrow> map ut_clock turns = map word_of_nat ms \<and>
     successively (\<lambda>a b. a \<le> b \<and> b \<le> a + longest) ms"

abbreviation timeout_ms :: "StunClientLogicConfig \<Rightarrow> nat" where
  "timeout_ms cfg \<equiv> 1000 * unat (cc_timeoutSeconds cfg)"

lemma clock_waits:
  assumes "s \<le> m" "m - s < 2 ^ 32" "(word_of_nat m - word_of_nat s :: u32) div 1000 < t"
  shows "m < s + 1000 * unat t"
proof -
  have "(word_of_nat m - word_of_nat s :: u32) = word_of_nat (m - s)"
    using assms(1) by (simp add: of_nat_diff)
  then have "unat (word_of_nat m - word_of_nat s :: u32) = m - s"
    using assms(2) by (simp add: unat_of_nat take_bit_nat_eq_self)
  then have "(m - s) div 1000 < unat t"
    using assms(3) by (simp add: word_less_nat_alt unat_div)
  then show ?thesis
    using assms(1) by linarith
qed

lemma udp_turns_end:
  assumes "logic_ok L" "buffer_ok buf" "cb_allocated buf = 800" "timed longest ms turns" "timeout_ms (cl_config L) + longest < 2 ^ 32"
    "cl_timeLastMessageSent L = word_of_nat s" "s \<le> m" "m \<le> s + timeout_ms (cl_config L)"
    "ms \<noteq> [] \<longrightarrow> m \<le> hd ms \<and> hd ms \<le> m + longest"
    "s + timeout_ms (cl_config L) + sends_left L * (timeout_ms (cl_config L) + longest) < last (m # ms)"
  shows "\<exists>res. udp_turns localport turns (Running L buf dest) = Ended S_OK (Some res)"
  using assms
proof (induction turns arbitrary: L buf dest m ms s)
  case Nil
  then show ?case
    by (simp add: timed_def)
next
  case (Cons turn turns)
  note c = Cons.prems
  let ?T = "timeout_ms (cl_config L)"
  obtain m1 ms1 where ms: "ms = m1 # ms1" "ut_clock turn = word_of_nat m1"
    using c(4) by (auto simp: timed_def Cons_eq_map_conv)
  have m1: "m \<le> m1" "m1 \<le> m + longest" and rest: "timed longest ms1 turns" "ms1 \<noteq> [] \<longrightarrow> m1 \<le> hd ms1 \<and> hd ms1 \<le> m1 + longest"
    using c(4,9) ms by (auto simp: timed_def successively_Cons)
  have l: "last (m # ms) = last (m1 # ms1)"
    by (simp add: ms)
  from c(1-3) show ?case
  proof (cases rule: udp_turn_cases [where localport = localport and turn = turn and dest = dest])
    case (running L' buf' dest')
    note t = turn_ok_fields(1-3) [OF running(4)]
    have "\<exists>s'. cl_timeLastMessageSent L' = word_of_nat s' \<and> s' \<le> m1 \<and> m1 \<le> s' + ?T \<and>
        s' + ?T + sends_left L' * (?T + longest) < last (m1 # ms1)"
      using turn_ok_fields(4) [OF running(4)]
    proof (elim disjE conjE)
      assume d: "sends_left L' < sends_left L" "cl_timeLastMessageSent L' = ut_clock turn"
      then have "Suc (sends_left L') * (?T + longest) \<le> sends_left L * (?T + longest)"
        by (intro mult_right_mono) simp_all
      then have "m1 + ?T + sends_left L' * (?T + longest) < last (m1 # ms1)"
        using c(8,10) m1 unfolding l by (simp only: mult_Suc)
      with d ms show ?thesis
        by auto
    next
      assume w: "sends_left L' \<le> sends_left L" "cl_timeLastMessageSent L' = cl_timeLastMessageSent L"
        "(ut_clock turn - cl_timeLastMessageSent L) div 1000 < cc_timeoutSeconds (cl_config L)"
      have "m1 < s + ?T"
        by (rule clock_waits) (use w(3) c(5-8) m1 ms in simp_all)
      moreover have "sends_left L' * (?T + longest) \<le> sends_left L * (?T + longest)"
        using w(1) by (rule mult_right_mono) simp
      then have "s + ?T + sends_left L' * (?T + longest) < last (m1 # ms1)"
        using c(10) unfolding l by linarith
      ultimately show ?thesis
        using w(2) c(6,7) m1 by auto
    qed
    then obtain s' where s: "cl_timeLastMessageSent L' = word_of_nat s'" "s' \<le> m1" "m1 \<le> s' + ?T"
      "s' + ?T + sends_left L' * (?T + longest) < last (m1 # ms1)"
      by blast
    show ?thesis
      using Cons.IH [OF t(1) running(2,3) rest(1) _ s(1,2) _ rest(2)] c(5) s(3,4) running(1) t(3) by simp
  qed simp
qed

text \<open>The first turn sends a request: from then on the clock is compared with the time it was sent.\<close>

lemma udp_turns_end_first:
  assumes "logic_ok L" "buffer_ok buf" "cb_allocated buf = 800" "timed longest ms turns" "turns \<noteq> []"
    "timeout_ms (cl_config L) + longest < 2 ^ 32" "cl_sendCount L = 0"
    "hd ms + sends_left L * (timeout_ms (cl_config L) + longest) < last ms"
  shows "\<exists>res. udp_turns localport turns (Running L buf dest) = Ended S_OK (Some res)"
proof -
  obtain turn turns' m ms' where e: "turns = turn # turns'" "ms = m # ms'" "ut_clock turn = word_of_nat m"
    using assms(4,5) by (cases turns) (auto simp: timed_def Cons_eq_map_conv)
  have rest: "timed longest ms' turns'" "ms' \<noteq> [] \<longrightarrow> m \<le> hd ms' \<and> hd ms' \<le> m + longest"
    using assms(4) e by (auto simp: timed_def successively_Cons)
  from assms(1-3) show ?thesis
  proof (cases rule: udp_turn_cases [where localport = localport and turn = turn and dest = dest])
    case (running L' buf' dest')
    note t = turn_ok_fields [OF running(4)]
    have d: "sends_left L' < sends_left L" "cl_timeLastMessageSent L' = word_of_nat m"
      using t(4) assms(7) e(3) by auto
    then have "Suc (sends_left L') * (timeout_ms (cl_config L) + longest) \<le> sends_left L * (timeout_ms (cl_config L) + longest)"
      by (intro mult_right_mono) simp_all
    then have "m + timeout_ms (cl_config L) + sends_left L' * (timeout_ms (cl_config L) + longest) < last (m # ms')"
      using assms(8) unfolding e(2) list.sel by (simp only: mult_Suc)
    then show ?thesis
      using udp_turns_end [OF t(1) running(2,3) rest(1) _ d(2) order_refl _ rest(2)] assms(6) running(1) t(3) e(1) by simp
  qed (simp add: e(1))
qed

section \<open>A run as a chain of tests\<close>

text \<open>What a test asks for, and whom.\<close>

definition test_change :: "CStunClientTest \<Rightarrow> StunChangeRequestAttribute" where
  "test_change t = (if ct_class t = CFilteringTest then \<lparr>fChangeIP = \<not> ct_fIsTest3 t, fChangePort = True\<rparr>
     else \<lparr>fChangeIP = False, fChangePort = False\<rparr>)"

definition test_dest :: "StunClientLogicConfig \<Rightarrow> StunClientResults \<Rightarrow> CStunClientTest \<Rightarrow> CSocketAddress" where
  "test_dest cfg res t = (if ct_class t = CBehaviorTest then (if ct_fIsTest3 t then cr_addrAA res else cr_addrAP res)
     else cc_addrServer cfg)"

lemma test_asks_transid [simp]: "test_change (t\<lparr>ct_transid := x\<rparr>) = test_change t"
  "test_dest cfg res (t\<lparr>ct_transid := x\<rparr>) = test_dest cfg res t"
  by (simp_all add: test_change_def test_dest_def)

lemma Test_GetMessage_eq:
  assumes "buffer_ok buf" "200 \<le> cb_allocated buf" "length (ct_transid t) = 16"
  obtains buf' where "Test_GetMessage rnd cfg res t buf = (S_OK, t\<lparr>ct_transid := next_tid rnd t\<rparr>, buf', test_dest cfg res t)"
    "cb_contents buf' = request_wire (next_tid rnd t) (test_change t)"
proof -
  note w = write_request_ok [OF assms, of rnd "test_change t"]
  have "Test_GetMessage rnd cfg res t buf = (S_OK, t\<lparr>ct_transid := next_tid rnd t\<rparr>,
      snd (write_request rnd t (test_change t) buf), test_dest cfg res t)"
    using w(1) by (cases "ct_class t") (auto simp: virtual_defs get_defs test_change_def test_dest_def Let_def case_prod_beta)
  then show ?thesis
    using that w(2) by (simp add: msg_buffer_def)
qed

lemma Test_ProcessResponse_contents:
  "cb_contents b = cb_contents b' \<Longrightarrow>
   Test_ProcessResponse cfg res t b remote addrLocal = Test_ProcessResponse cfg res t b' remote addrLocal"
  by (cases "ct_class t") (simp_all add: virtual_defs resp_defs BasicReaderValidation_eq)

text \<open>What a network that answers each request in its own way, always the same, does to a test.\<close>

type_synonym network = "CSocketAddress \<Rightarrow> bytes \<Rightarrow> datagram option"

definition process :: "StunClientLogicConfig \<Rightarrow> StunClientResults \<Rightarrow> CStunClientTest \<Rightarrow> bytes \<Rightarrow> CSocketAddress
    \<Rightarrow> CSocketAddress \<Rightarrow> StunClientResults option" where
  "process cfg res t d remote addrLocal =
     (let (hr, t', res') = Test_ProcessResponse cfg res t (CB_of_array (Some d) (length d) False) remote addrLocal in
      if FAILED hr then None else Some res')"

definition reply_effect :: "network \<Rightarrow> u16 \<Rightarrow> StunClientLogicConfig \<Rightarrow> StunClientResults \<Rightarrow> CStunClientTest
    \<Rightarrow> StunClientResults option" where
  "reply_effect net localport cfg res t =
     (case net (test_dest cfg res t) (request_wire (ct_transid t) (test_change t)) of
        None \<Rightarrow> None
      | Some (d, remote, addrLocal) \<Rightarrow> if received d = [] then None
          else process cfg res t (received d) remote (SetPort addrLocal localport))"

definition test_start :: "TestMember \<Rightarrow> CStunClientTest \<Rightarrow> bool" where
  "test_start m t \<longleftrightarrow> test_ok m t \<and> \<not> ct_fCompleted t \<and> ct_transid t = zero_bytes 16"

inductive test_finishes :: "network \<Rightarrow> u16 \<Rightarrow> StunClientLogicConfig \<Rightarrow> TestMember \<Rightarrow> StunClientResults
    \<Rightarrow> StunClientResults \<Rightarrow> bool" for net localport cfg m res where
  skipped: "test_start m t \<Longrightarrow> PreRunCheck res t = (t1, res1) \<Longrightarrow> IsCompleted t1 \<or> \<not> IsReadyToRun res1 t1 \<Longrightarrow>
    test_finishes net localport cfg m res res1"
| answered: "test_start m t \<Longrightarrow> PreRunCheck res t = (t1, res1) \<Longrightarrow> \<not> IsCompleted t1 \<Longrightarrow> IsReadyToRun res1 t1 \<Longrightarrow>
    reply_effect net localport cfg res1 (t1\<lparr>ct_transid := random_tid rnd\<rparr>) = Some res2 \<Longrightarrow>
    test_finishes net localport cfg m res res2"
| timed_out: "test_start m t \<Longrightarrow> PreRunCheck res t = (t1, res1) \<Longrightarrow> \<not> IsCompleted t1 \<Longrightarrow> IsReadyToRun res1 t1 \<Longrightarrow>
    reply_effect net localport cfg res1 (t1\<lparr>ct_transid := random_tid rnd\<rparr>) = None \<Longrightarrow>
    test_finishes net localport cfg m res (snd (NotifyTimeout res1 (t1\<lparr>ct_transid := random_tid rnd\<rparr>)))"

inductive tests_finish :: "network \<Rightarrow> u16 \<Rightarrow> StunClientLogicConfig \<Rightarrow> TestMember list \<Rightarrow> StunClientResults
    \<Rightarrow> StunClientResults \<Rightarrow> bool" for net localport cfg where
  none: "tests_finish net localport cfg [] res res"
| more: "tests_finish net localport cfg ms res res1 \<Longrightarrow> test_finishes net localport cfg m res1 res2 \<Longrightarrow>
    tests_finish net localport cfg (ms @ [m]) res res2"

text \<open>Where the logic stands with its current test, which was taken up with the results \<open>r\<close>.\<close>

definition sent_request :: "CStunClientLogic \<Rightarrow> StunClientResults \<Rightarrow> bool" where
  "sent_request L r \<longleftrightarrow> cl_fPreCheckRunOnTest L \<and> (\<exists>t t1 rnd. test_start (current L) t \<and>
     PreRunCheck r t = (t1, cl_results L) \<and> \<not> IsCompleted t1 \<and> IsReadyToRun (cl_results L) t1 \<and>
     current_test L = t1\<lparr>ct_transid := random_tid rnd\<rparr>)"

definition at_test :: "network \<Rightarrow> u16 \<Rightarrow> CStunClientLogic \<Rightarrow> StunClientResults \<Rightarrow> bool" where
  "at_test net localport L r \<longleftrightarrow>
     \<not> cl_fPreCheckRunOnTest L \<and> cl_sendCount L = 0 \<and> test_start (current L) (current_test L) \<and> cl_results L = r \<or>
     sent_request L r \<and> cl_sendCount L \<noteq> 0 \<and> reply_effect net localport (cl_config L) (cl_results L) (current_test L) = None \<or>
     cl_fPreCheckRunOnTest L \<and> IsCompleted (current_test L) \<and>
       test_finishes net localport (cl_config L) (current L) r (cl_results L)"

definition to_come :: "CStunClientLogic \<Rightarrow> bool" where
  "to_come L \<longleftrightarrow> (\<forall>i. cl_nTestIndex L < i \<longrightarrow> i < length (cl_testlist L) \<longrightarrow>
     test_start (cl_testlist L ! i) (cl_tests L (cl_testlist L ! i)))"

definition progress :: "network \<Rightarrow> u16 \<Rightarrow> CStunClientLogic \<Rightarrow> bool" where
  "progress net localport L \<longleftrightarrow> logic_ok L \<and> to_come L \<and>
     (\<exists>r. tests_finish net localport (cl_config L) (take (cl_nTestIndex L) (cl_testlist L)) StunClientResults_Init r \<and>
       (if cl_nTestIndex L < length (cl_testlist L) then at_test net localport L r else cl_results L = r))"

text \<open>The other tests are not touched.\<close>

definition same_others :: "CStunClientLogic \<Rightarrow> CStunClientLogic \<Rightarrow> bool" where
  "same_others L L' \<longleftrightarrow> cl_testlist L' = cl_testlist L \<and> cl_nTestIndex L' = cl_nTestIndex L \<and> cl_config L' = cl_config L \<and>
     (\<forall>m. m \<noteq> current L \<longrightarrow> cl_tests L' m = cl_tests L m)"

lemma same_others_to_come:
  assumes "same_others L L'" "logic_ok L" "to_come L" "cl_nTestIndex L < length (cl_testlist L)"
  shows "to_come L'"
proof -
  have "cl_testlist L ! i \<noteq> current L" if "cl_nTestIndex L < i" "i < length (cl_testlist L)" for i
    using assms(2,4) that by (simp add: logic_ok_def nth_eq_iff_index_eq)
  with assms show ?thesis
    by (simp add: to_come_def same_others_def)
qed

lemma same_others_simps [simp]:
  "same_others L (run_precheck L)" "same_others L (notify_timeout L)"
  "same_others L (set_test L (current L) t)"
  "same_others L ((set_test L (current L) t)\<lparr>cl_results := res\<rparr>)"
  "same_others L ((set_test L (current L) t)\<lparr>cl_sendCount := c, cl_timeLastMessageSent := n\<rparr>)"
  by (simp_all add: same_others_def run_precheck_def notify_timeout_def set_test_def case_prod_beta)

lemma progress_next:
  assumes L: "logic_ok L" "cl_nTestIndex L < length (cl_testlist L)" "to_come L"
    and r: "tests_finish net localport (cl_config L) (take (cl_nTestIndex L) (cl_testlist L)) StunClientResults_Init r"
      "test_finishes net localport (cl_config L) (current L) r (cl_results L)"
  shows "progress net localport (next_test L)"
proof -
  have "tests_finish net localport (cl_config L) (take (Suc (cl_nTestIndex L)) (cl_testlist L)) StunClientResults_Init (cl_results L)"
    using tests_finish.more [OF r] L(2) by (simp add: take_Suc_conv_app_nth)
  moreover have "at_test net localport (next_test L) (cl_results L)" if "Suc (cl_nTestIndex L) < length (cl_testlist L)"
    using L(3) that by (simp add: at_test_def next_test_def to_come_def)
  moreover have "to_come (next_test L)"
    using L(3) by (simp add: to_come_def next_test_def)
  ultimately show ?thesis
    using next_test_ok [OF L(1,2)] by (auto simp: progress_def next_test_def)
qed

definition request_out :: "network \<Rightarrow> u16 \<Rightarrow> CStunClientLogic \<Rightarrow> bytes \<Rightarrow> CSocketAddress \<Rightarrow> bool" where
  "request_out net localport L msg dest \<longleftrightarrow> logic_ok L \<and> cl_nTestIndex L < length (cl_testlist L) \<and> to_come L \<and>
     cl_sendCount L \<noteq> 0 \<and> dest = test_dest (cl_config L) (cl_results L) (current_test L) \<and>
     msg = request_wire (ct_transid (current_test L)) (test_change (current_test L)) \<and>
     (\<exists>r. tests_finish net localport (cl_config L) (take (cl_nTestIndex L) (cl_testlist L)) StunClientResults_Init r \<and>
       sent_request L r)"

lemma test_start_ok: "test_start m t \<Longrightarrow> test_ok m t"
  by (simp add: test_start_def)

lemma zero_tid_invalid [simp]: "\<not> IsTransactionIdValid (zero_bytes 16)"
  by (simp add: IsTransactionIdValid_def)

lemma next_tid_start: "ct_transid t = zero_bytes 16 \<Longrightarrow> next_tid rnd t = random_tid rnd"
  "ct_transid t = random_tid rnd' \<Longrightarrow> next_tid rnd t = random_tid rnd'"
  by (simp_all add: next_tid_def)

text \<open>The request of the current test goes out, for the first time or again.\<close>

lemma loop_sends:
  assumes L: "logic_ok L" "cl_nTestIndex L < length (cl_testlist L)" "to_come L" "cl_fPreCheckRunOnTest L"
    and r: "tests_finish net localport (cl_config L) (take (cl_nTestIndex L) (cl_testlist L)) StunClientResults_Init r"
    and s: "test_start (current L) t" "PreRunCheck r t = (t1, cl_results L)" "\<not> IsCompleted t1" "IsReadyToRun (cl_results L) t1"
      "current_test L = t1 \<or> (\<exists>rnd. current_test L = t1\<lparr>ct_transid := random_tid rnd\<rparr>)"
    and c: "cl_sendCount L < cc_uMaxAttempts (cl_config L)" and buf: "buffer_ok buf" "200 \<le> cb_allocated buf"
  obtains buf' L' where "Test_GetMessage rnd (cl_config L) (cl_results L) (current_test L) buf =
      (S_OK, (current_test L)\<lparr>ct_transid := next_tid rnd (current_test L)\<rparr>, buf', test_dest (cl_config L) (cl_results L) (current_test L))"
    "L' = (set_test L (current L) ((current_test L)\<lparr>ct_transid := next_tid rnd (current_test L)\<rparr>))
      \<lparr>cl_sendCount := cl_sendCount L + 1, cl_timeLastMessageSent := now\<rparr>"
    "request_out net localport L' (cb_contents buf') (test_dest (cl_config L) (cl_results L) (current_test L))"
proof -
  let ?t = "(current_test L)\<lparr>ct_transid := next_tid rnd (current_test L)\<rparr>"
  let ?L = "(set_test L (current L) ?t)\<lparr>cl_sendCount := cl_sendCount L + 1, cl_timeLastMessageSent := now\<rparr>"
  note o = current_ok [OF L(1,2)]
  have t1: "ct_transid t1 = zero_bytes 16"
    using s(1,2) virt.pre_fields [of r t] by (simp add: test_start_def)
  have len: "length (ct_transid (current_test L)) = 16"
    using o by (simp add: test_ok_def)
  from Test_GetMessage_eq [OF buf this, of rnd "cl_config L" "cl_results L"] obtain buf' where
    g: "Test_GetMessage rnd (cl_config L) (cl_results L) (current_test L) buf =
      (S_OK, ?t, buf', test_dest (cl_config L) (cl_results L) (current_test L))"
    "cb_contents buf' = request_wire (next_tid rnd (current_test L)) (test_change (current_test L))"
    by blast
  have tid: "\<exists>rnd'. ?t = t1\<lparr>ct_transid := random_tid rnd'\<rparr>"
    using s(5) next_tid_start(1) [OF t1] by (auto simp: next_tid_def)
  have ready: "\<not> ct_fCompleted (current_test L)" "IsReadyToRun (cl_results L) (current_test L)"
    using s(3-5) by (auto simp: IsCompleted_def)
  have ok: "logic_ok ?L"
    using send_outcome [OF L(1,2,4) ready c buf, of rnd now] ready g by (auto simp: next_outcome_def)
  have cur: "current ?L = current L" "cl_tests ?L (current L) = ?t" "cl_results ?L = cl_results L" "cl_config ?L = cl_config L"
    "cl_nTestIndex ?L = cl_nTestIndex L" "cl_testlist ?L = cl_testlist L" "cl_fPreCheckRunOnTest ?L = cl_fPreCheckRunOnTest L"
    "cl_sendCount ?L = cl_sendCount L + 1"
    by (simp_all add: set_test_def)
  have "sent_request ?L r"
    unfolding sent_request_def cur using s L(4) tid by blast
  moreover have "to_come ?L"
    by (rule same_others_to_come [OF _ L(1,3,2)]) simp
  ultimately have "request_out net localport ?L (cb_contents buf') (test_dest (cl_config L) (cl_results L) (current_test L))"
    unfolding request_out_def cur using ok g(2) r word_suc(2) [OF c] L(2) by auto
  then show ?thesis
    using that g(1) by blast
qed

definition loop_result :: "network \<Rightarrow> u16 \<Rightarrow> CStunClientLogic \<Rightarrow> hresult \<times> CStunClientLogic \<times> cbuffer \<times> CSocketAddress \<Rightarrow> bool" where
  "loop_result net localport L x \<longleftrightarrow> (case x of (hr, L', buf', dest') \<Rightarrow>
     (hr = E_STUNCLIENT_RESULTS_READY \<longrightarrow>
        tests_finish net localport (cl_config L) (cl_testlist L) StunClientResults_Init (cl_results L')) \<and>
     (hr = E_STUNCLIENT_STILL_WAITING \<longrightarrow> progress net localport L') \<and>
     (hr = S_OK \<longrightarrow> request_out net localport L' (cb_contents buf') dest'))"

lemma loop_progress:
  assumes "progress net localport L" "buffer_ok buf" "200 \<le> cb_allocated buf"
  shows "loop_result net localport L (GetNextMessage_loop rnd now L buf dest)"
  using assms
proof (induction rnd now L buf dest rule: GetNextMessage_loop.induct)
  case (1 rnd now L buf dest)
  let ?L = "run_precheck L"
  obtain r where P: "logic_ok L" "to_come L"
    "tests_finish net localport (cl_config L) (take (cl_nTestIndex L) (cl_testlist L)) StunClientResults_Init r"
    "if cl_nTestIndex L < length (cl_testlist L) then at_test net localport L r else cl_results L = r"
    using 1(3) by (auto simp: progress_def)
  note loop = GetNextMessage_loop.simps [of rnd now L buf dest, unfolded Let_def]
  show ?case
  proof (cases "length (cl_testlist L) \<le> cl_nTestIndex L")
    case True
    with P show ?thesis
      by (subst loop) (auto simp: loop_result_def)
  next
    case lt: False
    then have i: "cl_nTestIndex L < length (cl_testlist L)" and a: "at_test net localport L r"
      using P(4) by simp_all
    note ok = run_precheck_ok [OF P(1) i]
    have come: "to_come ?L"
      by (rule same_others_to_come [OF _ P(1,2) i]) simp
    have skip: "loop_result net localport L (GetNextMessage_loop rnd now L buf dest)"
      if "IsCompleted (current_test ?L) \<or> IsReadyToRun (cl_results ?L) (current_test ?L) = False"
        "test_finishes net localport (cl_config L) (current L) r (cl_results ?L)"
    proof -
      have "progress net localport (next_test ?L)"
        using that(2) P(3) i come by (intro progress_next [OF ok, where r = r]) simp_all
      from 1(1) [OF lt refl refl _ this 1(4,5)] that(1) have
        "loop_result net localport (next_test ?L) (GetNextMessage_loop rnd now (next_test ?L) buf dest)"
        by simp
      then show ?thesis
        using that(1) lt by (subst loop) (simp add: loop_result_def next_test_def case_prod_beta)
    qed
    have send: "loop_result net localport L (GetNextMessage_loop rnd now L buf dest)"
      if s: "test_start (current L) t" "PreRunCheck r t = (t1, cl_results ?L)" "\<not> IsCompleted t1" "IsReadyToRun (cl_results ?L) t1"
        "current_test ?L = t1 \<or> (\<exists>rnd. current_test ?L = t1\<lparr>ct_transid := random_tid rnd\<rparr>)"
        and c: "cl_sendCount L < cc_uMaxAttempts (cl_config L)"
        "\<not> ((now - cl_timeLastMessageSent L) div 1000 < cc_timeoutSeconds (cl_config L) \<and> cl_sendCount L \<noteq> 0)" for t t1
    proof -
      have open_test: "\<not> IsCompleted (current_test ?L)" "IsReadyToRun (cl_results ?L) (current_test ?L)"
        using s(3-5) by (auto simp: IsCompleted_def)
      have i': "cl_nTestIndex ?L < length (cl_testlist ?L)" and r': "tests_finish net localport (cl_config ?L)
          (take (cl_nTestIndex ?L) (cl_testlist ?L)) StunClientResults_Init r" and c': "cl_sendCount ?L < cc_uMaxAttempts (cl_config ?L)"
        and s1: "test_start (current ?L) t"
        using i P(3) c s(1) by simp_all
      from loop_sends [OF ok i' come _ r' s1 s(2-5) c' 1(4,5), of rnd now] obtain buf' L' where
        g: "Test_GetMessage rnd (cl_config ?L) (cl_results ?L) (current_test ?L) buf =
          (S_OK, (current_test ?L)\<lparr>ct_transid := next_tid rnd (current_test ?L)\<rparr>, buf', test_dest (cl_config ?L) (cl_results ?L) (current_test ?L))"
        "L' = (set_test ?L (current ?L) ((current_test ?L)\<lparr>ct_transid := next_tid rnd (current_test ?L)\<rparr>))
          \<lparr>cl_sendCount := cl_sendCount ?L + 1, cl_timeLastMessageSent := now\<rparr>"
        "request_out net localport L' (cb_contents buf') (test_dest (cl_config ?L) (cl_results ?L) (current_test ?L))"
        by auto
      have "GetNextMessage_loop rnd now L buf dest = (S_OK, L', buf', test_dest (cl_config ?L) (cl_results ?L) (current_test ?L))"
        using lt c open_test g by (subst loop) (auto simp: set_test_def not_le)
      then show ?thesis
        using g(3) by (simp add: loop_result_def)
    qed
    consider (fresh) "\<not> cl_fPreCheckRunOnTest L" "cl_sendCount L = 0" "test_start (current L) (current_test L)" "cl_results L = r"
      | (unanswered) "sent_request L r" "cl_sendCount L \<noteq> 0" "reply_effect net localport (cl_config L) (cl_results L) (current_test L) = None"
      | (completed) "cl_fPreCheckRunOnTest L" "IsCompleted (current_test L)" "test_finishes net localport (cl_config L) (current L) r (cl_results L)"
      using a unfolding at_test_def by (elim disjE conjE) metis+
    then show ?thesis
    proof cases
      case fresh
      have p: "PreRunCheck r (current_test L) = (current_test ?L, cl_results ?L)"
        using fresh by (simp add: run_precheck_def set_test_def case_prod_beta)
      show ?thesis
      proof (cases "IsCompleted (current_test ?L) \<or> IsReadyToRun (cl_results ?L) (current_test ?L) = False")
        case True
        then show ?thesis
          using skip test_finishes.skipped [OF fresh(3) p] by simp
      next
        case False
        then show ?thesis
          using send [OF fresh(3) p] fresh(2) P(1) by (simp add: logic_ok_def)
      qed
    next
      case unanswered
      then obtain t t1 rnd' where s: "cl_fPreCheckRunOnTest L" "test_start (current L) t" "PreRunCheck r t = (t1, cl_results L)"
        "\<not> IsCompleted t1" "IsReadyToRun (cl_results L) t1" "current_test L = t1\<lparr>ct_transid := random_tid rnd'\<rparr>"
        unfolding sent_request_def by blast
      have L: "?L = L"
        using s(1) by simp
      have open_test: "\<not> IsCompleted (current_test L)" "IsReadyToRun (cl_results L) (current_test L)"
        using s(4-6) by (simp_all add: IsCompleted_def)
      show ?thesis
      proof (cases "(now - cl_timeLastMessageSent L) div 1000 < cc_timeoutSeconds (cl_config L) \<and> cl_sendCount L \<noteq> 0")
        case w: True
        then have "GetNextMessage_loop rnd now L buf dest = (E_STUNCLIENT_STILL_WAITING, L, buf, dest)"
          using lt open_test L by (subst loop) simp
        then show ?thesis
          using 1(3) by (simp add: loop_result_def)
      next
        case nw: False
        show ?thesis
        proof (cases "cc_uMaxAttempts (cl_config L) \<le> cl_sendCount L")
          case m: True
          let ?N = "notify_timeout L"
          have "reply_effect net localport (cl_config L) (cl_results L) (t1\<lparr>ct_transid := random_tid rnd'\<rparr>) = None"
            using unanswered(3) s(6) by simp
          from test_finishes.timed_out [OF s(2-5) this]
          have f: "test_finishes net localport (cl_config L) (current L) r (cl_results ?N)"
            by (simp add: notify_timeout_def case_prod_beta s(6))
          have "to_come ?N"
            by (rule same_others_to_come [OF _ P(1,2) i]) simp
          then have "progress net localport ?N"
            using P(3) f notify_timeout_ok [OF P(1) i] s(1) i by (auto simp: progress_def at_test_def IsCompleted_def)
          then have "loop_result net localport ?N (GetNextMessage_loop rnd now ?N buf dest)"
            using 1(2) [OF lt refl refl _ refl] m nw open_test 1(4,5) L by auto
          moreover have "GetNextMessage_loop rnd now L buf dest = GetNextMessage_loop rnd now ?N buf dest"
            using m nw lt open_test L by (subst loop) auto
          ultimately show ?thesis
            by (simp add: loop_result_def case_prod_beta)
        next
          case m: False
          then have c: "cl_sendCount L < cc_uMaxAttempts (cl_config L)"
            by simp
          show ?thesis
            by (rule send [OF s(2) _ s(4) _ _ c nw]) (use s L in auto)
        qed
      qed
    next
      case completed
      then show ?thesis
        using skip by simp
    qed
  qed
qed

lemma Logic_ProcessResponse_current:
  assumes "logic_ok L" "cl_nTestIndex L < length (cl_testlist L)" "\<not> ct_fCompleted (current_test L)"
    "cb_contents buf = d" "d \<noteq> []" "buffer_ok buf"
  shows "case process (cl_config L) (cl_results L) (current_test L) d remote addrLocal of
      None \<Rightarrow> snd (Logic_ProcessResponse L buf remote addrLocal) = L
    | Some res \<Rightarrow> snd (Logic_ProcessResponse L buf remote addrLocal) =
        (set_test L (current L) ((current_test L)\<lparr>ct_fCompleted := True\<rparr>))\<lparr>cl_results := res\<rparr>"
proof -
  let ?b = "CB_of_array (Some d) (length d) False"
  have b: "cb_contents ?b = cb_contents buf"
    using CB_of_array_nocopy [of "length d" d] assms(4) by simp
  obtain hr t res where r: "Test_ProcessResponse (cl_config L) (cl_results L) (current_test L) buf remote addrLocal = (hr, t, res)"
    by (rule prod_cases3)
  have p: "process (cl_config L) (cl_results L) (current_test L) d remote addrLocal = (if FAILED hr then None else Some res)"
    using Test_ProcessResponse_contents [OF b] r by (simp add: process_def)
  have "cb_size buf \<noteq> 0"
    using assms(4,5) by (auto simp: cb_contents_def split: option.splits)
  then have "snd (Logic_ProcessResponse L buf remote addrLocal) = (set_test L (current L) t)\<lparr>cl_results := res\<rparr>"
    using assms(1-3) by (simp add: Logic_ProcessResponse_def r logic_ok_def IsCompleted_def)
  with virt.resp_law [OF TrueI r] show ?thesis
    by (auto simp: p set_test_def)
qed

lemma request_out_wait:
  assumes o: "request_out net localport L msg dest" and w: "after_wait localport (net dest msg) L L'"
  shows "progress net localport L'"
proof -
  obtain r t t1 rnd where L: "logic_ok L" "cl_nTestIndex L < length (cl_testlist L)" "to_come L" "cl_sendCount L \<noteq> 0"
    and dm: "dest = test_dest (cl_config L) (cl_results L) (current_test L)"
      "msg = request_wire (ct_transid (current_test L)) (test_change (current_test L))"
    and r: "tests_finish net localport (cl_config L) (take (cl_nTestIndex L) (cl_testlist L)) StunClientResults_Init r"
    and s: "sent_request L r" "cl_fPreCheckRunOnTest L" "test_start (current L) t" "PreRunCheck r t = (t1, cl_results L)"
      "\<not> IsCompleted t1" "IsReadyToRun (cl_results L) t1" "current_test L = t1\<lparr>ct_transid := random_tid rnd\<rparr>"
    using o unfolding request_out_def sent_request_def by blast
  have open_test: "\<not> ct_fCompleted (current_test L)"
    using s(5,7) by (simp add: IsCompleted_def)
  have quiet: "progress net localport L" if "reply_effect net localport (cl_config L) (cl_results L) (current_test L) = None"
    unfolding progress_def at_test_def using L r s(1) that by auto
  show ?thesis
  proof (cases "net dest msg")
    case None
    then show ?thesis
      using w quiet dm by (simp add: after_wait_def reply_effect_def)
  next
    case (Some x)
    obtain d remote addrLocal where x: "x = (d, remote, addrLocal)"
      by (rule prod_cases3)
    show ?thesis
    proof (cases "received d = []")
      case True
      then show ?thesis
        using w quiet dm Some by (simp add: after_wait_def reply_effect_def x)
    next
      case False
      let ?a = "SetPort addrLocal localport"
      have e: "reply_effect net localport (cl_config L) (cl_results L) (current_test L) =
          process (cl_config L) (cl_results L) (current_test L) (received d) remote ?a"
        using False Some dm by (simp add: reply_effect_def x)
      obtain buf where buf: "cb_contents buf = received d" "buffer_ok buf"
        "L' = snd (Logic_ProcessResponse L buf remote ?a)"
        using w False Some by (auto simp: after_wait_def x)
      note pr = Logic_ProcessResponse_current [OF L(1,2) open_test buf(1) False buf(2), of remote ?a]
      show ?thesis
      proof (cases "process (cl_config L) (cl_results L) (current_test L) (received d) remote ?a")
        case None
        then show ?thesis
          using quiet e pr buf(3) by simp
      next
        case (Some res)
        then have L': "L' = (set_test L (current L) ((current_test L)\<lparr>ct_fCompleted := True\<rparr>))\<lparr>cl_results := res\<rparr>"
          using pr buf(3) by simp
        have "test_finishes net localport (cl_config L) (current L) r res"
          by (rule test_finishes.answered [OF s(3-6)]) (use e Some s(7) in simp)
        then have "at_test net localport L' r"
          using s(2) by (simp add: at_test_def L' set_test_def IsCompleted_def)
        moreover have "to_come L'"
          unfolding L' by (rule same_others_to_come [OF _ L(1,3,2)]) simp
        moreover have "logic_ok L'"
          unfolding buf(3) by (rule Logic_ProcessResponse_ok [OF L(1)])
        ultimately show ?thesis
          using L(2) r by (auto simp: progress_def L' set_test_def)
      qed
    qed
  qed
qed

definition steady :: "network \<Rightarrow> UdpTurn \<Rightarrow> bool" where
  "steady net turn \<longleftrightarrow> ut_net turn = (\<lambda>sent. case sent of None \<Rightarrow> None | Some (dest, msg) \<Rightarrow> net dest msg)"

lemma turn_progress:
  assumes "progress net localport L" "steady net turn" "turn_ok localport turn L dest L'"
  shows "progress net localport L'"
proof -
  obtain buf hr L1 buf' dest' where t: "buffer_ok buf" "cb_allocated buf = 800"
    "GetNextMessage_loop (ut_rnd turn) (ut_clock turn) L buf dest = (hr, L1, buf', dest')"
    "next_outcome (ut_clock turn) L buf (hr, L1, buf', dest')" "hr \<noteq> E_STUNCLIENT_RESULTS_READY"
    "after_wait localport (ut_net turn (if hr = S_OK then Some (dest', cb_contents buf') else None)) L1 L'"
    using assms(3) unfolding turn_ok_def by blast
  have "200 \<le> cb_allocated buf"
    using t(2) by simp
  from loop_progress [OF assms(1) t(1) this, of "ut_rnd turn" "ut_clock turn" dest]
  have l: "hr = E_STUNCLIENT_STILL_WAITING \<Longrightarrow> progress net localport L1"
    "hr = S_OK \<Longrightarrow> request_out net localport L1 (cb_contents buf') dest'"
    unfolding t(3) by (simp_all add: loop_result_def)
  show ?thesis
  proof (cases "hr = S_OK")
    case True
    then show ?thesis
      using request_out_wait [OF l(2)] t(6) assms(2) by (simp add: steady_def)
  next
    case False
    then have "hr = E_STUNCLIENT_STILL_WAITING"
      using t(4,5) by (auto simp: next_outcome_def split: if_splits)
    then show ?thesis
      using l(1) False t(6) assms(2) by (simp add: steady_def after_wait_def)
  qed
qed

lemma udp_turns_chain:
  assumes "progress net localport L" "buffer_ok buf" "cb_allocated buf = 800" "list_all (steady net) turns"
    "udp_turns localport turns (Running L buf dest) = Ended hr (Some res)"
  shows "tests_finish net localport (cl_config L) (cl_testlist L) StunClientResults_Init res"
  using assms
proof (induction turns arbitrary: L buf dest)
  case (Cons turn turns)
  note c = Cons.prems
  have ok: "logic_ok L"
    using c(1) by (simp add: progress_def)
  from ok c(2,3) show ?case
  proof (cases rule: udp_turn_cases [where localport = localport and turn = turn and dest = dest])
    case (running L' buf' dest')
    note t = turn_ok_fields [OF running(4)]
    have "progress net localport L'"
      using turn_progress [OF c(1) _ running(4)] c(4) by simp
    from Cons.IH [OF this running(2,3)] c(4,5) running(1) t(2,3) show ?thesis
      by simp
  next
    case (ended L1 buf0 buf1 dest1)
    have "200 \<le> cb_allocated buf0"
      using ended(4) by simp
    from loop_progress [OF c(1) ended(3) this, of "ut_rnd turn" "ut_clock turn" dest] show ?thesis
      using ended(1) c(5) unfolding ended(2) by (simp add: loop_result_def)
  qed
qed simp

lemma logic_start_progress:
  assumes "logic_start cfg L"
  shows "progress net localport L"
proof -
  have "0 < length (test_list cfg)"
    by (simp add: test_list_def)
  moreover have "test_start m (cl_tests L m)" if "m \<in> set (test_list cfg)" for m
    using assms that by (simp add: logic_start_def logic_ok_def test_start_def)
  ultimately show ?thesis
    using assms by (auto simp: progress_def logic_start_def to_come_def at_test_def intro!: tests_finish.none)
qed

definition max_sends :: "StunClientLogicConfig \<Rightarrow> nat" where
  "max_sends cfg = length (test_list cfg) * unat (cc_uMaxAttempts (effective_config cfg))"

text \<open>
  The time that the program needs at most: every request may wait for the timeout and for the end
  of the turn in which it runs out.
\<close>

definition run_bound :: "StunClientLogicConfig \<Rightarrow> nat \<Rightarrow> nat" where
  "run_bound cfg longest = max_sends cfg * (timeout_ms (effective_config cfg) + longest)"

definition runs_for :: "StunClientLogicConfig \<Rightarrow> nat \<Rightarrow> nat list \<Rightarrow> UdpTurn list \<Rightarrow> bool" where
  "runs_for cfg longest ms turns \<longleftrightarrow> timed longest ms turns \<and> turns \<noteq> [] \<and>
     timeout_ms (effective_config cfg) + longest < 2 ^ 32 \<and> hd ms + run_bound cfg longest < last ms"

text \<open>The whole program: it ends, and its results are a chain of its tests.\<close>

lemma UdpClientLoop_results:
  assumes "valid_server (cc_addrServer cfg)" "runs_for cfg longest ms turns"
  shows "\<exists>res. UdpClientLoop cfg0 pc0 cfg S_OK localport turns = Ended S_OK (Some res) \<and>
    (list_all (steady net) turns \<longrightarrow>
      tests_finish net localport (effective_config cfg) (test_list cfg) StunClientResults_Init res)"
proof -
  obtain hr L where i: "Initialize (CStunClientLogic_new cfg0 pc0) cfg = (hr, L)"
    by fastforce
  have L: "hr = S_OK" "logic_start cfg L"
    using Initialize_start [OF assms(1), of cfg0 pc0] by (simp_all add: i)
  then have ok: "logic_ok L" and f: "cl_config L = effective_config cfg" "cl_testlist L = test_list cfg"
    "cl_sendCount L = 0" "cl_nTestIndex L = 0"
    by (simp_all add: logic_start_def)
  have b: "buffer_ok (CB_new MAX_STUN_MESSAGE_SIZE)" "cb_allocated (CB_new MAX_STUN_MESSAGE_SIZE) = 800"
    by (simp_all add: buffer_ok_def CB_new_def CB_InitWithAllocation_def stun_consts)
  have run: "UdpClientLoop cfg0 pc0 cfg S_OK localport turns =
      udp_turns localport turns (Running L (CB_new MAX_STUN_MESSAGE_SIZE) CSocketAddress_default)"
    by (simp add: UdpClientLoop_def i L(1))
  have n: "sends_left L = max_sends cfg"
    using f by (simp add: sends_left_def max_sends_def)
  have "\<exists>res. udp_turns localport turns (Running L (CB_new MAX_STUN_MESSAGE_SIZE) CSocketAddress_default) = Ended S_OK (Some res)"
    by (rule udp_turns_end_first [OF ok b, of longest ms]) (use assms(2) f(1,3) n in \<open>simp_all add: runs_for_def run_bound_def\<close>)
  then obtain res where
    "udp_turns localport turns (Running L (CB_new MAX_STUN_MESSAGE_SIZE) CSocketAddress_default) = Ended S_OK (Some res)"
    by blast
  with udp_turns_chain [OF logic_start_progress [OF L(2)] b] f run show ?thesis
    by auto
qed

end
