(* ===== verification/StunClientNat.thy ===== *)
theory StunClientNat imports StunClientMain StunHandler begin

text \<open>
  The verdicts of the client on its NAT: what a client can observe through a network, the verdicts
  as functions of the observations, and the proof that the program reaches them.
\<close>

section \<open>What a client can observe\<close>

abbreviation no_change :: StunChangeRequestAttribute where
  "no_change \<equiv> \<lparr>fChangeIP = False, fChangePort = False\<rparr>"

abbreviation change_both :: StunChangeRequestAttribute where
  "change_both \<equiv> \<lparr>fChangeIP = True, fChangePort = True\<rparr>"

abbreviation change_port :: StunChangeRequestAttribute where
  "change_port \<equiv> \<lparr>fChangeIP = False, fChangePort = True\<rparr>"

text \<open>
  For each destination and each change request: no reply, or a reply with the address that the
  server saw and the other address of the server.
\<close>

type_synonym observation = "CSocketAddress \<Rightarrow> StunChangeRequestAttribute \<Rightarrow> (CSocketAddress \<times> CSocketAddress option) option"

definition binding_reply :: "StunTransactionId \<Rightarrow> CSocketAddress \<Rightarrow> CSocketAddress option \<Rightarrow> bytes \<Rightarrow> bool" where
  "binding_reply tid mapped other d \<longleftrightarrow> length d \<le> 800 \<and> (\<forall>a. other = Some a \<longrightarrow> is_ip_addr a) \<and> client_sees d (\<lambda>r. MR_GetTransactionId r = tid \<and>
     returns_address (read_mapped r) mapped \<and>
     (case other of None \<Rightarrow> FAILED (fst (MR_GetOtherAddress r)) | Some a \<Rightarrow> returns_address (MR_GetOtherAddress r) a))"

definition observes :: "network \<Rightarrow> u16 \<Rightarrow> CSocketAddress \<Rightarrow> observation \<Rightarrow> bool" where
  "observes net localport home obs \<longleftrightarrow>
     (\<forall>a b c. IsSameIP_and_Port a b \<longrightarrow> obs a c = obs b c) \<and>
     (\<forall>rnd dest c. case obs dest c of
        None \<Rightarrow> net dest (request_wire (random_tid rnd) c) = None
      | Some (mapped, other) \<Rightarrow> \<exists>d remote addrLocal. net dest (request_wire (random_tid rnd) c) = Some (d, remote, addrLocal) \<and>
          binding_reply (random_tid rnd) mapped other d \<and> SetPort addrLocal localport = home)"

text \<open>The verdicts on the NAT, from the observations.\<close>

definition mapping_verdict :: "observation \<Rightarrow> CSocketAddress \<Rightarrow> CSocketAddress \<Rightarrow> NatBehavior option" where
  "mapping_verdict obs home server = (case obs server no_change of
     None \<Rightarrow> None
   | Some (m, other) \<Rightarrow>
       if IsSameIP_and_Port home m then Some DirectMapping
       else case other of
         None \<Rightarrow> None
       | Some aa \<Rightarrow> (case obs (SetPort aa (GetPort server)) no_change of
           None \<Rightarrow> None
         | Some (mAP, _) \<Rightarrow>
             if IsSameIP_and_Port mAP m then Some EndpointIndependentMapping
             else if IsIPAddressZero mAP then None
             else (case obs aa no_change of
                 None \<Rightarrow> None
               | Some (mAA, _) \<Rightarrow> Some (if IsSameIP_and_Port mAA mAP then AddressDependentMapping
                   else AddressAndPortDependentMapping))))"

definition filtering_verdict :: "observation \<Rightarrow> CSocketAddress \<Rightarrow> CSocketAddress \<Rightarrow> NatFiltering option" where
  "filtering_verdict obs home server = (case obs server no_change of
     None \<Rightarrow> None
   | Some (m, other) \<Rightarrow>
       if IsSameIP_and_Port home m then Some EndpointIndependentFiltering
       else if other = None then None
       else if obs server change_both \<noteq> None then Some EndpointIndependentFiltering
       else if obs server change_port \<noteq> None then Some AddressDependentFiltering
       else Some AddressAndPortDependentFiltering)"

section \<open>The effect of a reply\<close>

lemma same_refl [simp]: "IsSameIP_and_Port a a"
  by (simp add: IsSameIP_and_Port_def IsSameIP_def)

lemma same_sym: "IsSameIP_and_Port a b \<Longrightarrow> IsSameIP_and_Port b a"
  by (auto simp: IsSameIP_and_Port_def IsSameIP_def split: if_splits)

lemma same_trans: "IsSameIP_and_Port a b \<Longrightarrow> IsSameIP_and_Port b c \<Longrightarrow> IsSameIP_and_Port a c"
  by (auto simp: IsSameIP_and_Port_def IsSameIP_def split: if_splits)

lemma same_cong: "IsSameIP_and_Port a b \<Longrightarrow> IsSameIP_and_Port a c = IsSameIP_and_Port b c"
  "IsSameIP_and_Port a b \<Longrightarrow> IsSameIP_and_Port c a = IsSameIP_and_Port c b"
  using same_sym same_trans by blast+

lemma binding_reply_read:
  assumes "binding_reply tid mapped other d" and t: "ct_transid t = tid"
  obtains r m where "received d = d" "d \<noteq> []"
    "\<And>buf. cb_contents buf = d \<Longrightarrow> BasicReaderValidation t buf MR_init = (S_OK, r)"
    "read_mapped r = (S_OK, Some m)" "IsSameIP_and_Port m mapped"
    "case other of None \<Rightarrow> FAILED (fst (MR_GetOtherAddress r)) | Some a \<Rightarrow> returns_address (MR_GetOtherAddress r) a \<and> is_ip_addr a"
proof -
  let ?r = "feed MR_init [d]"
  have r: "MR_GetState ?r = BodyValidated" "MR_GetTransactionId ?r = tid" "returns_address (read_mapped ?r) mapped"
    "case other of None \<Rightarrow> FAILED (fst (MR_GetOtherAddress ?r)) | Some a \<Rightarrow> returns_address (MR_GetOtherAddress ?r) a"
    and len: "length d \<le> 800"
    using assms(1) by (simp_all add: binding_reply_def client_sees_def)
  have v: "spec_state True d = BodyValidated"
    using feed_ok [OF MR_init_ok, of "[d]"] reader_ok_state r(1) by (simp add: MR_GetState_def)
  then have "msg_tid d = tid"
    using feed_fields [of "[d]" d] r(2) by (simp add: header_fields_def MR_GetTransactionId_def)
  then have a: "answers_test t d"
    using v t by (simp add: answers_test_def)
  have "d \<noteq> []"
    using v by (auto simp: spec_state_def STUN_HEADER_SIZE_def)
  moreover have "received d = d"
    using len by (simp add: received_def)
  moreover obtain m where "read_mapped ?r = (S_OK, Some m)" "IsSameIP_and_Port m mapped"
    using r(3) by (auto simp: returns_address_def)
  ultimately show ?thesis
    using that [of ?r m] a r(4) assms(1) by (simp add: BasicReaderValidation_eq binding_reply_def split: option.splits)
qed

lemma observesD:
  assumes "observes net localport home obs"
  shows "obs dest c = None \<Longrightarrow> net dest (request_wire (random_tid rnd) c) = None"
    "obs dest c = Some (mapped, other) \<Longrightarrow> \<exists>d remote addrLocal.
       net dest (request_wire (random_tid rnd) c) = Some (d, remote, addrLocal) \<and>
       binding_reply (random_tid rnd) mapped other d \<and> SetPort addrLocal localport = home"
    "IsSameIP_and_Port a b \<Longrightarrow> obs a c = obs b c"
proof -
  have "case obs dest c of None \<Rightarrow> net dest (request_wire (random_tid rnd) c) = None
      | Some (mapped, other) \<Rightarrow> \<exists>d remote addrLocal. net dest (request_wire (random_tid rnd) c) = Some (d, remote, addrLocal) \<and>
          binding_reply (random_tid rnd) mapped other d \<and> SetPort addrLocal localport = home"
    using assms unfolding observes_def by blast
  then show "obs dest c = None \<Longrightarrow> net dest (request_wire (random_tid rnd) c) = None"
    "obs dest c = Some (mapped, other) \<Longrightarrow> \<exists>d remote addrLocal.
       net dest (request_wire (random_tid rnd) c) = Some (d, remote, addrLocal) \<and>
       binding_reply (random_tid rnd) mapped other d \<and> SetPort addrLocal localport = home"
    by simp_all
  show "IsSameIP_and_Port a b \<Longrightarrow> obs a c = obs b c"
    using assms unfolding observes_def by blast
qed

text \<open>The effect of the network on a test that has sent its request.\<close>

lemma reply_effect_cases:
  assumes o: "observes net localport home obs" and t: "ct_transid t = random_tid rnd"
  shows "obs (test_dest cfg res t) (test_change t) = None \<Longrightarrow> reply_effect net localport cfg res t = None"
    "obs (test_dest cfg res t) (test_change t) = Some (mapped, other) \<Longrightarrow> \<exists>buf r m remote.
       BasicReaderValidation t buf MR_init = (S_OK, r) \<and> read_mapped r = (S_OK, Some m) \<and> IsSameIP_and_Port m mapped \<and>
       (case other of None \<Rightarrow> FAILED (fst (MR_GetOtherAddress r)) | Some a \<Rightarrow> returns_address (MR_GetOtherAddress r) a \<and> is_ip_addr a) \<and>
       reply_effect net localport cfg res t =
         (let (hr, t', res') = Test_ProcessResponse cfg res t buf remote home in if FAILED hr then None else Some res')"
proof -
  show "obs (test_dest cfg res t) (test_change t) = None \<Longrightarrow> reply_effect net localport cfg res t = None"
    using observesD(1) [OF o, of "test_dest cfg res t" "test_change t" rnd] t by (simp add: reply_effect_def)
  assume "obs (test_dest cfg res t) (test_change t) = Some (mapped, other)"
  from observesD(2) [OF o this, of rnd] obtain d remote addrLocal where
    n: "net (test_dest cfg res t) (request_wire (random_tid rnd) (test_change t)) = Some (d, remote, addrLocal)"
    "binding_reply (random_tid rnd) mapped other d" "SetPort addrLocal localport = home"
    by blast
  from binding_reply_read [OF n(2) t] obtain r m where r: "received d = d" "d \<noteq> []"
    "\<And>buf. cb_contents buf = d \<Longrightarrow> BasicReaderValidation t buf MR_init = (S_OK, r)"
    "read_mapped r = (S_OK, Some m)" "IsSameIP_and_Port m mapped"
    "case other of None \<Rightarrow> FAILED (fst (MR_GetOtherAddress r)) | Some a \<Rightarrow> returns_address (MR_GetOtherAddress r) a \<and> is_ip_addr a"
    by blast
  have "cb_contents (CB_of_array (Some d) (length d) False) = d"
    using CB_of_array_nocopy [of "length d" d] by simp
  with n r t show "\<exists>buf r m remote.
       BasicReaderValidation t buf MR_init = (S_OK, r) \<and> read_mapped r = (S_OK, Some m) \<and> IsSameIP_and_Port m mapped \<and>
       (case other of None \<Rightarrow> FAILED (fst (MR_GetOtherAddress r)) | Some a \<Rightarrow> returns_address (MR_GetOtherAddress r) a \<and> is_ip_addr a) \<and>
       reply_effect net localport cfg res t =
         (let (hr, t', res') = Test_ProcessResponse cfg res t buf remote home in if FAILED hr then None else Some res')"
    by (intro exI [of _ "CB_of_array (Some d) (length d) False"] exI [of _ r] exI [of _ m] exI [of _ remote])
      (simp add: reply_effect_def process_def)
qed

lemma Basic_reply:
  assumes o: "observes net localport home obs" and t: "ct_class t = CBasicBindingTest" "ct_transid t = random_tid rnd"
    and s: "obs (cc_addrServer cfg) no_change = Some (mapped, other)"
  obtains m a where "IsSameIP_and_Port m mapped" "\<And>b. other = Some b \<Longrightarrow> IsSameIP_and_Port a b \<and> is_ip_addr b"
    "reply_effect net localport cfg res t =
      Some (let res' = res\<lparr>cr_fBindingTestSuccess := True, cr_fIsDirect := IsSameIP_and_Port home mapped,
            cr_addrLocal := home, cr_addrMapped := m, cr_fHasOtherAddress := (other \<noteq> None)\<rparr> in
        if other = None then res'
        else res'\<lparr>cr_addrAA := a, cr_addrPA := SetPort (cc_addrServer cfg) (GetPort a),
               cr_addrAP := SetPort a (GetPort (cc_addrServer cfg))\<rparr>)"
proof -
  have "obs (test_dest cfg res t) (test_change t) = Some (mapped, other)"
    using t(1) s by (simp add: test_dest_def test_change_def)
  from reply_effect_cases(2) [OF o t(2) this] obtain buf r m remote where
    r: "BasicReaderValidation t buf MR_init = (S_OK, r)" "read_mapped r = (S_OK, Some m)" "IsSameIP_and_Port m mapped"
      "case other of None \<Rightarrow> FAILED (fst (MR_GetOtherAddress r)) | Some a \<Rightarrow> returns_address (MR_GetOtherAddress r) a \<and> is_ip_addr a"
    and e: "reply_effect net localport cfg res t =
         (let (hr, t', res') = Test_ProcessResponse cfg res t buf remote home in if FAILED hr then None else Some res')"
    by blast
  note same = same_cong(2) [OF r(3), of home]
  show ?thesis
  proof (cases other)
    case None
    then show ?thesis
      using that [of m] e r t same by (simp add: virtual_defs Basic_ProcessResponse_def Let_def case_prod_beta SUCCEEDED_iff_not_FAILED)
  next
    case (Some a)
    then obtain a' where "MR_GetOtherAddress r = (S_OK, Some a')" "IsSameIP_and_Port a' a" "is_ip_addr a"
      using r(4) by (auto simp: returns_address_def)
    then show ?thesis
      using that [of m a'] e r t same Some
      by (simp add: virtual_defs Basic_ProcessResponse_def Let_def case_prod_beta SUCCEEDED_iff_not_FAILED)
  qed
qed

lemma Behavior_reply:
  assumes o: "observes net localport home obs" and t: "ct_class t = CBehaviorTest" "ct_transid t = random_tid rnd"
    and s: "obs (test_dest cfg res t) no_change = Some (mapped, other)"
  obtains m where "IsSameIP_and_Port m mapped" "reply_effect net localport cfg res t = Some
      (if ct_fIsTest3 t
       then res\<lparr>cr_addrMappingAA := m, cr_fBehaviorTestSuccess := True, cr_behavior :=
         (if IsSameIP_and_Port mapped (cr_addrMappingAP res) then AddressDependentMapping else AddressAndPortDependentMapping)\<rparr>
       else if IsSameIP_and_Port mapped (cr_addrMapped res)
       then res\<lparr>cr_addrMappingAP := m, cr_fBehaviorTestSuccess := True, cr_behavior := EndpointIndependentMapping\<rparr>
       else res\<lparr>cr_addrMappingAP := m\<rparr>)"
proof -
  have "obs (test_dest cfg res t) (test_change t) = Some (mapped, other)"
    using t(1) s by (simp add: test_change_def)
  from reply_effect_cases(2) [OF o t(2) this] obtain buf r m remote where
    r: "BasicReaderValidation t buf MR_init = (S_OK, r)" "read_mapped r = (S_OK, Some m)" "IsSameIP_and_Port m mapped"
    and e: "reply_effect net localport cfg res t =
         (let (hr, t', res') = Test_ProcessResponse cfg res t buf remote home in if FAILED hr then None else Some res')"
    by blast
  note same = same_cong(1) [OF r(3)]
  show ?thesis
    using that [of m] e r t same by (simp add: virtual_defs Behavior_ProcessResponse_def Let_def case_prod_beta)
qed

lemma Filtering_reply:
  assumes o: "observes net localport home obs" and t: "ct_class t = CFilteringTest" "ct_transid t = random_tid rnd"
    and s: "obs (test_dest cfg res t) (test_change t) = Some (mapped, other)"
  shows "reply_effect net localport cfg res t = Some
      (if ct_fIsTest3 t
       then res\<lparr>cr_fGotTest3Response := True, cr_fFilteringTestSuccess := True, cr_filtering := AddressDependentFiltering\<rparr>
       else res\<lparr>cr_fGotTest2Response := True, cr_fFilteringTestSuccess := True, cr_filtering := EndpointIndependentFiltering\<rparr>)"
proof -
  from reply_effect_cases(2) [OF o t(2) s] obtain buf r remote where
    r: "BasicReaderValidation t buf MR_init = (S_OK, r)"
    and e: "reply_effect net localport cfg res t =
         (let (hr, t', res') = Test_ProcessResponse cfg res t buf remote home in if FAILED hr then None else Some res')"
    by blast
  show ?thesis
    using e r t by (simp add: virtual_defs Filtering_ProcessResponse_def Let_def case_prod_beta)
qed

section \<open>From the observations to the results\<close>

lemma tests_finish_Cons:
  "tests_finish net localport cfg (m # ms) r r' \<Longrightarrow>
   \<exists>r1. test_finishes net localport cfg m r r1 \<and> tests_finish net localport cfg ms r1 r'"
proof (induction "m # ms" r r' arbitrary: ms rule: tests_finish.induct)
  case (more ms' r r1 n r2)
  show ?case
  proof (cases ms')
    case Nil
    then have "r1 = r" "n = m" "ms = []"
      using more.hyps(1,4) by (auto elim: tests_finish.cases)
    then show ?thesis
      using more.hyps(3) by (auto intro: tests_finish.none)
  next
    case (Cons m' ms1)
    then have "m' = m" "ms = ms1 @ [n]"
      using more.hyps(4) by simp_all
    then show ?thesis
      using more.hyps(2) [of ms1] more.hyps(3) Cons by (auto intro: tests_finish.more)
  qed
qed

inductive_cases tests_finish_Nil: "tests_finish net localport cfg [] r r'"

text \<open>A test, by what its class makes of the precheck, the readiness and the reply.\<close>

lemma finishes_cases:
  assumes "test_finishes net localport cfg m r r'"
  obtains t t1 r1 rnd where "test_start m t" "PreRunCheck r t = (t1, r1)"
    "r' = (if IsCompleted t1 \<or> \<not> IsReadyToRun r1 t1 then r1
      else let t2 = t1\<lparr>ct_transid := random_tid rnd\<rparr> in
        case reply_effect net localport cfg r1 t2 of None \<Rightarrow> snd (NotifyTimeout r1 t2) | Some x \<Rightarrow> x)"
  using assms
proof cases
  case (skipped t t1)
  then show ?thesis
    by (intro that [of t t1 r']) simp_all
next
  case (answered t t1 res1 rnd)
  then show ?thesis
    by (intro that [of t t1 res1 rnd]) (simp_all add: Let_def)
next
  case (timed_out t t1 res1 rnd)
  then show ?thesis
    by (intro that [of t t1 res1 rnd]) (simp_all add: Let_def)
qed

definition binding_known :: "observation \<Rightarrow> CSocketAddress \<Rightarrow> CSocketAddress \<Rightarrow> StunClientResults \<Rightarrow> bool" where
  "binding_known obs home server r \<longleftrightarrow> (case obs server no_change of
     None \<Rightarrow> \<not> cr_fBindingTestSuccess r
   | Some (m, other) \<Rightarrow> cr_fBindingTestSuccess r \<and> cr_fIsDirect r = IsSameIP_and_Port home m \<and>
       IsSameIP_and_Port (cr_addrMapped r) m \<and> cr_addrLocal r = home \<and> cr_fHasOtherAddress r = (other \<noteq> None) \<and>
       (\<forall>a. other = Some a \<longrightarrow> IsSameIP_and_Port (cr_addrAA r) a \<and>
          IsSameIP_and_Port (cr_addrAP r) (SetPort a (GetPort server))))"

definition filtering_fresh :: "StunClientResults \<Rightarrow> bool" where
  "filtering_fresh r \<longleftrightarrow> \<not> cr_fFilteringTestSuccess r \<and> \<not> cr_fGotTest2Response r"

definition behavior_fresh :: "StunClientResults \<Rightarrow> bool" where
  "behavior_fresh r \<longleftrightarrow> \<not> cr_fBehaviorTestSuccess r \<and> IsIPAddressZero (cr_addrMappingAP r)"

definition same_binding :: "StunClientResults \<Rightarrow> StunClientResults \<Rightarrow> bool" where
  "same_binding r r' \<longleftrightarrow> cr_fBindingTestSuccess r' = cr_fBindingTestSuccess r \<and> cr_fIsDirect r' = cr_fIsDirect r \<and>
     cr_addrMapped r' = cr_addrMapped r \<and> cr_addrLocal r' = cr_addrLocal r \<and>
     cr_fHasOtherAddress r' = cr_fHasOtherAddress r \<and> cr_addrAA r' = cr_addrAA r \<and> cr_addrAP r' = cr_addrAP r"

definition same_behavior :: "StunClientResults \<Rightarrow> StunClientResults \<Rightarrow> bool" where
  "same_behavior r r' \<longleftrightarrow> cr_fBehaviorTestSuccess r' = cr_fBehaviorTestSuccess r \<and> cr_behavior r' = cr_behavior r \<and>
     cr_addrMappingAP r' = cr_addrMappingAP r"

definition same_filtering :: "StunClientResults \<Rightarrow> StunClientResults \<Rightarrow> bool" where
  "same_filtering r r' \<longleftrightarrow> cr_fFilteringTestSuccess r' = cr_fFilteringTestSuccess r \<and> cr_filtering r' = cr_filtering r"

lemma binding_known_same: "binding_known obs home server r \<Longrightarrow> same_binding r r' \<Longrightarrow> binding_known obs home server r'"
  by (auto simp: binding_known_def same_binding_def split: option.splits)

lemma SetPort_same: "IsSameIP_and_Port a b \<and> is_ip_addr b \<Longrightarrow> IsSameIP_and_Port (SetPort a p) (SetPort b p)"
  by (auto simp: IsSameIP_and_Port_def IsSameIP_def SetPort_def GetPort_def GetPort_NBO_def is_ip_addr_def split: if_splits)

lemma same_zero: "IsSameIP_and_Port a b \<Longrightarrow> IsIPAddressZero a = IsIPAddressZero b"
  by (auto simp: IsSameIP_and_Port_def IsSameIP_def IsIPAddressZero_def split: if_splits)

lemma test1_known:
  assumes o: "observes net localport home obs" and f: "test_finishes net localport cfg Test1 StunClientResults_Init r"
  shows "binding_known obs home (cc_addrServer cfg) r \<and> filtering_fresh r \<and> behavior_fresh r"
proof -
  obtain t t1 r1 rnd where t: "test_start Test1 t" "PreRunCheck StunClientResults_Init t = (t1, r1)"
    and r: "r = (if IsCompleted t1 \<or> \<not> IsReadyToRun r1 t1 then r1
      else let t2 = t1\<lparr>ct_transid := random_tid rnd\<rparr> in
        case reply_effect net localport cfg r1 t2 of None \<Rightarrow> snd (NotifyTimeout r1 t2) | Some x \<Rightarrow> x)"
    by (rule finishes_cases [OF f])
  let ?t = "t\<lparr>ct_transid := random_tid rnd\<rparr>"
  have c: "ct_class t = CBasicBindingTest" "\<not> ct_fCompleted t" "t1 = t" "r1 = StunClientResults_Init"
    using t by (simp_all add: test_start_def test_ok_def class_of_member_def PreRunCheck_def)
  then have r: "r = (case reply_effect net localport cfg StunClientResults_Init ?t of
      None \<Rightarrow> snd (Basic_NotifyTimeout StunClientResults_Init ?t) | Some x \<Rightarrow> x)"
    using r unfolding c(3,4) by (simp add: IsCompleted_def virtual_defs test_defs Let_def cong: option.case_cong)
  have z: "IsIPAddressZero CSocketAddress_default"
    by (simp add: IsIPAddressZero_def CSocketAddress_default_def)
  show ?thesis
  proof (cases "obs (cc_addrServer cfg) no_change")
    case None
    then have "reply_effect net localport cfg StunClientResults_Init ?t = None"
      using c by (intro reply_effect_cases(1) [OF o, where rnd = rnd]) (simp_all add: test_dest_def test_change_def)
    with None r z show ?thesis
      by (simp add: binding_known_def Basic_NotifyTimeout_def filtering_fresh_def behavior_fresh_def StunClientResults_Init_def)
  next
    case (Some x)
    obtain mapped other where x: "x = (mapped, other)"
      by fastforce
    have ct: "ct_class ?t = CBasicBindingTest" "ct_transid ?t = random_tid rnd"
      using c by simp_all
    from Basic_reply [OF o ct Some [unfolded x], of StunClientResults_Init] obtain m a where
      m: "IsSameIP_and_Port m mapped" "\<And>b. other = Some b \<Longrightarrow> IsSameIP_and_Port a b \<and> is_ip_addr b" and
      e: "reply_effect net localport cfg StunClientResults_Init ?t =
      Some (let res' = StunClientResults_Init\<lparr>cr_fBindingTestSuccess := True, cr_fIsDirect := IsSameIP_and_Port home mapped,
            cr_addrLocal := home, cr_addrMapped := m, cr_fHasOtherAddress := (other \<noteq> None)\<rparr> in
        if other = None then res'
        else res'\<lparr>cr_addrAA := a, cr_addrPA := SetPort (cc_addrServer cfg) (GetPort a),
               cr_addrAP := SetPort a (GetPort (cc_addrServer cfg))\<rparr>)"
      by blast
    show ?thesis
      unfolding r e binding_known_def Some x using m SetPort_same [OF m(2)] z
      by (auto simp: Let_def filtering_fresh_def behavior_fresh_def StunClientResults_Init_def)
  qed
qed

lemma filtering2_known:
  assumes o: "observes net localport home obs" and f: "test_finishes net localport cfg TestFiltering2 r r'"
    and b: "binding_known obs home (cc_addrServer cfg) r" "filtering_fresh r"
  shows "same_binding r r' \<and> same_behavior r r' \<and> (case obs (cc_addrServer cfg) no_change of
      None \<Rightarrow> r' = r
    | Some (m, other) \<Rightarrow>
        if IsSameIP_and_Port home m
        then cr_fFilteringTestSuccess r' \<and> cr_filtering r' = EndpointIndependentFiltering
        else if other = None then r' = r
        else if obs (cc_addrServer cfg) change_both = None then r' = r
        else cr_fFilteringTestSuccess r' \<and> cr_fGotTest2Response r' \<and> cr_filtering r' = EndpointIndependentFiltering)"
proof -
  obtain t t1 r1 rnd where t: "test_start TestFiltering2 t" "PreRunCheck r t = (t1, r1)"
    and r: "r' = (if IsCompleted t1 \<or> \<not> IsReadyToRun r1 t1 then r1
      else let t2 = t1\<lparr>ct_transid := random_tid rnd\<rparr> in
        case reply_effect net localport cfg r1 t2 of None \<Rightarrow> snd (NotifyTimeout r1 t2) | Some x \<Rightarrow> x)"
    by (rule finishes_cases [OF f])
  let ?t = "t\<lparr>ct_transid := random_tid rnd\<rparr>"
  have c: "ct_class t = CFilteringTest" "\<not> ct_fCompleted t" "\<not> ct_fIsTest3 t"
    using t by (simp_all add: test_start_def test_ok_def class_of_member_def is_test3_def)
  have asks: "test_change ?t = change_both" "test_dest cfg r ?t = cc_addrServer cfg"
    using c by (simp_all add: test_change_def test_dest_def)
  have p: "(t1, r1) = Filtering_PreRunCheck r t"
    using t(2) c(1) by (simp add: PreRunCheck_def)
  show ?thesis
  proof (cases "cr_fBindingTestSuccess r \<and> cr_fIsDirect r")
    case True
    then have "r' = r\<lparr>cr_filtering := EndpointIndependentFiltering, cr_fFilteringTestSuccess := True\<rparr>"
      using p c r by (simp add: Filtering_PreRunCheck_def IsCompleted_def)
    moreover obtain m other where "obs (cc_addrServer cfg) no_change = Some (m, other)" "IsSameIP_and_Port home m"
      using True b(1) by (cases "obs (cc_addrServer cfg) no_change") (auto simp: binding_known_def)
    ultimately show ?thesis
      by (simp add: same_binding_def same_behavior_def)
  next
    case False
    then have p: "t1 = t" "r1 = r"
      using p by (auto simp: Filtering_PreRunCheck_def split: if_splits)
    have r: "r' = (if \<not> Filtering_IsReadyToRun r t then r
        else case reply_effect net localport cfg r ?t of None \<Rightarrow> r | Some x \<Rightarrow> x)"
      using r c unfolding p by (simp add: IsCompleted_def virtual_defs Filtering_NotifyTimeout_def Let_def cong: option.case_cong)
    have none: "reply_effect net localport cfg r ?t = None" if "obs (cc_addrServer cfg) change_both = None"
      using reply_effect_cases(1) [OF o, of ?t rnd cfg r] that asks by simp
    have some: "reply_effect net localport cfg r ?t = Some (r\<lparr>cr_fGotTest2Response := True,
        cr_fFilteringTestSuccess := True, cr_filtering := EndpointIndependentFiltering\<rparr>)"
      if "obs (cc_addrServer cfg) change_both = Some x" for x
      using that Filtering_reply [OF o, of ?t rnd cfg r "fst x" "snd x"] asks c by (simp del: test_asks_transid)
    have ready: "Filtering_IsReadyToRun r t \<longleftrightarrow> cr_fBindingTestSuccess r \<and> cr_fHasOtherAddress r"
      using c b(2) by (auto simp: Filtering_IsReadyToRun_def filtering_fresh_def)
    show ?thesis
    proof (cases "Filtering_IsReadyToRun r t")
      case nr: False
      then have "r' = r"
        using r by simp
      moreover have "obs (cc_addrServer cfg) no_change = None \<or>
          (\<exists>m. obs (cc_addrServer cfg) no_change = Some (m, None) \<and> \<not> IsSameIP_and_Port home m)"
        using nr False ready b(1) by (cases "obs (cc_addrServer cfg) no_change") (auto simp: binding_known_def)
      ultimately show ?thesis
        by (elim disjE exE conjE) (simp_all add: same_binding_def same_behavior_def)
    next
      case rd: True
      then obtain m other where m: "obs (cc_addrServer cfg) no_change = Some (m, other)" "other \<noteq> None" "\<not> IsSameIP_and_Port home m"
        using ready b(1) False by (cases "obs (cc_addrServer cfg) no_change") (auto simp: binding_known_def)
      show ?thesis
      proof (cases "obs (cc_addrServer cfg) change_both = None")
        case True
        then have "r' = r"
          using r none by simp
        with True m show ?thesis
          by (simp add: same_binding_def same_behavior_def)
      next
        case False
        then show ?thesis
          using r rd some m by (auto simp: same_binding_def same_behavior_def)
      qed
    qed
  qed
qed

lemma filtering3_known:
  assumes o: "observes net localport home obs" and f: "test_finishes net localport cfg TestFiltering3 r r'"
  shows "same_binding r r' \<and> same_behavior r r' \<and>
    (if cr_fBindingTestSuccess r \<and> cr_fHasOtherAddress r \<and> filtering_fresh r
     then cr_fFilteringTestSuccess r' \<and> cr_filtering r' =
       (if obs (cc_addrServer cfg) change_port = None then AddressAndPortDependentFiltering else AddressDependentFiltering)
     else r' = r)"
proof -
  obtain t t1 r1 rnd where t: "test_start TestFiltering3 t" "PreRunCheck r t = (t1, r1)"
    and r: "r' = (if IsCompleted t1 \<or> \<not> IsReadyToRun r1 t1 then r1
      else let t2 = t1\<lparr>ct_transid := random_tid rnd\<rparr> in
        case reply_effect net localport cfg r1 t2 of None \<Rightarrow> snd (NotifyTimeout r1 t2) | Some x \<Rightarrow> x)"
    by (rule finishes_cases [OF f])
  let ?t = "t\<lparr>ct_transid := random_tid rnd\<rparr>"
  have c: "ct_class t = CFilteringTest" "\<not> ct_fCompleted t" "ct_fIsTest3 t"
    using t by (simp_all add: test_start_def test_ok_def class_of_member_def is_test3_def)
  have asks: "test_change ?t = change_port" "test_dest cfg r ?t = cc_addrServer cfg"
    using c by (simp_all add: test_change_def test_dest_def)
  have p: "t1 = t" "r1 = r"
    using t(2) c by (simp_all add: PreRunCheck_def Filtering_PreRunCheck_def)
  have r: "r' = (if \<not> Filtering_IsReadyToRun r t then r
      else case reply_effect net localport cfg r ?t of
        None \<Rightarrow> r\<lparr>cr_fFilteringTestSuccess := True, cr_filtering := AddressAndPortDependentFiltering\<rparr> | Some x \<Rightarrow> x)"
    using r c unfolding p by (simp add: IsCompleted_def virtual_defs Filtering_NotifyTimeout_def Let_def cong: option.case_cong)
  have ready: "Filtering_IsReadyToRun r t \<longleftrightarrow> cr_fBindingTestSuccess r \<and> cr_fHasOtherAddress r \<and> filtering_fresh r"
    using c by (auto simp: Filtering_IsReadyToRun_def filtering_fresh_def)
  show ?thesis
  proof (cases "obs (cc_addrServer cfg) change_port")
    case None
    then have "reply_effect net localport cfg r ?t = None"
      using reply_effect_cases(1) [OF o, of ?t rnd cfg r] asks by simp
    with None r ready show ?thesis
      by (simp add: same_binding_def same_behavior_def)
  next
    case (Some x)
    then have "reply_effect net localport cfg r ?t = Some (r\<lparr>cr_fGotTest3Response := True,
        cr_fFilteringTestSuccess := True, cr_filtering := AddressDependentFiltering\<rparr>)"
      using Filtering_reply [OF o, of ?t rnd cfg r "fst x" "snd x"] asks c by (simp del: test_asks_transid)
    with Some r ready show ?thesis
      by (simp add: same_binding_def same_behavior_def)
  qed
qed

definition filtering_known :: "observation \<Rightarrow> CSocketAddress \<Rightarrow> CSocketAddress \<Rightarrow> StunClientResults \<Rightarrow> bool" where
  "filtering_known obs home server r \<longleftrightarrow> (case filtering_verdict obs home server of
     None \<Rightarrow> \<not> cr_fFilteringTestSuccess r | Some v \<Rightarrow> cr_fFilteringTestSuccess r \<and> cr_filtering r = v)"

lemma filtering_tests_known:
  assumes o: "observes net localport home obs" and f: "test_finishes net localport cfg TestFiltering2 r r1"
    "test_finishes net localport cfg TestFiltering3 r1 r2"
    and b: "binding_known obs home (cc_addrServer cfg) r" "filtering_fresh r"
  shows "same_binding r r2 \<and> same_behavior r r2 \<and> filtering_known obs home (cc_addrServer cfg) r2"
proof -
  note k2 = filtering2_known [OF o f(1) b] and k3 = filtering3_known [OF o f(2)]
  have "same_binding r r2" "same_behavior r r2"
    using k2 k3 by (auto simp: same_binding_def same_behavior_def)
  moreover have "filtering_known obs home (cc_addrServer cfg) r2"
  proof (cases "obs (cc_addrServer cfg) no_change")
    case None
    then show ?thesis
      using k2 k3 b by (auto simp: filtering_known_def filtering_verdict_def binding_known_def filtering_fresh_def split: if_splits)
  next
    case (Some x)
    obtain m other where x: "x = (m, other)"
      by fastforce
    have bk: "cr_fBindingTestSuccess r" "cr_fHasOtherAddress r = (other \<noteq> None)"
      using b(1) Some x by (simp_all add: binding_known_def)
    show ?thesis
    proof (cases "IsSameIP_and_Port home m")
      case True
      then have "cr_fFilteringTestSuccess r1 \<and> cr_filtering r1 = EndpointIndependentFiltering"
        using k2 Some x by simp
      with k3 True Some x show ?thesis
        by (auto simp: filtering_known_def filtering_verdict_def filtering_fresh_def split: if_splits)
    next
      case d: False
      show ?thesis
      proof (cases "other = None \<or> obs (cc_addrServer cfg) change_both = None")
        case True
        then have "r1 = r"
          using k2 Some x d by (auto split: if_splits)
        with k3 True Some x d b(2) bk show ?thesis
          by (auto simp: filtering_known_def filtering_verdict_def filtering_fresh_def split: if_splits)
      next
        case False
        then have "cr_fFilteringTestSuccess r1 \<and> cr_filtering r1 = EndpointIndependentFiltering"
          using k2 Some x d by (auto split: if_splits)
        with k3 False Some x d show ?thesis
          by (auto simp: filtering_known_def filtering_verdict_def filtering_fresh_def split: if_splits)
      qed
    qed
  qed
  ultimately show ?thesis
    by simp
qed

lemma behavior2_known:
  assumes o: "observes net localport home obs" and f: "test_finishes net localport cfg TestBehavior2 r r'"
  shows "same_binding r r' \<and> same_filtering r r' \<and>
    (if cr_fBindingTestSuccess r \<and> cr_fIsDirect r
     then cr_fBehaviorTestSuccess r' \<and> cr_behavior r' = DirectMapping
     else if cr_fBindingTestSuccess r \<and> cr_fHasOtherAddress r \<and> \<not> cr_fBehaviorTestSuccess r
     then (case obs (cr_addrAP r) no_change of
         None \<Rightarrow> \<not> cr_fBehaviorTestSuccess r' \<and> cr_addrMappingAP r' = cr_addrMappingAP r
       | Some (mAP, _) \<Rightarrow> IsSameIP_and_Port (cr_addrMappingAP r') mAP \<and>
           (if IsSameIP_and_Port mAP (cr_addrMapped r)
            then cr_fBehaviorTestSuccess r' \<and> cr_behavior r' = EndpointIndependentMapping
            else \<not> cr_fBehaviorTestSuccess r'))
     else r' = r)"
proof -
  obtain t t1 r1 rnd where t: "test_start TestBehavior2 t" "PreRunCheck r t = (t1, r1)"
    and r: "r' = (if IsCompleted t1 \<or> \<not> IsReadyToRun r1 t1 then r1
      else let t2 = t1\<lparr>ct_transid := random_tid rnd\<rparr> in
        case reply_effect net localport cfg r1 t2 of None \<Rightarrow> snd (NotifyTimeout r1 t2) | Some x \<Rightarrow> x)"
    by (rule finishes_cases [OF f])
  let ?t = "t\<lparr>ct_transid := random_tid rnd\<rparr>"
  have c: "ct_class t = CBehaviorTest" "\<not> ct_fCompleted t" "\<not> ct_fIsTest3 t"
    using t by (simp_all add: test_start_def test_ok_def class_of_member_def is_test3_def)
  have asks: "test_change ?t = no_change" "test_dest cfg r ?t = cr_addrAP r"
    using c by (simp_all add: test_change_def test_dest_def)
  have p: "(t1, r1) = Behavior_PreRunCheck r t"
    using t(2) c(1) by (simp add: PreRunCheck_def)
  show ?thesis
  proof (cases "cr_fBindingTestSuccess r \<and> cr_fIsDirect r")
    case True
    then have "r' = r\<lparr>cr_behavior := DirectMapping, cr_fBehaviorTestSuccess := True\<rparr>"
      using p c r by (simp add: Behavior_PreRunCheck_def IsCompleted_def)
    with True show ?thesis
      by (simp add: same_binding_def same_filtering_def)
  next
    case d: False
    then have p: "t1 = t" "r1 = r"
      using p by (auto simp: Behavior_PreRunCheck_def split: if_splits)
    have r: "r' = (if \<not> Behavior_IsReadyToRun r t then r
        else case reply_effect net localport cfg r ?t of None \<Rightarrow> r\<lparr>cr_fBehaviorTestSuccess := False\<rparr> | Some x \<Rightarrow> x)"
      using r c unfolding p by (simp add: IsCompleted_def virtual_defs Behavior_NotifyTimeout_def Let_def cong: option.case_cong)
    have ready: "Behavior_IsReadyToRun r t \<longleftrightarrow> cr_fBindingTestSuccess r \<and> cr_fHasOtherAddress r \<and> \<not> cr_fBehaviorTestSuccess r"
      using c by (auto simp: Behavior_IsReadyToRun_def Let_def)
    show ?thesis
    proof (cases "obs (cr_addrAP r) no_change")
      case None
      then have "reply_effect net localport cfg r ?t = None"
        using reply_effect_cases(1) [OF o, of ?t rnd cfg r] asks by simp
      with None r ready d show ?thesis
        by (auto simp: same_binding_def same_filtering_def)
    next
      case (Some x)
      obtain mAP other where x: "x = (mAP, other)"
        by fastforce
      have ct: "ct_class ?t = CBehaviorTest" "ct_transid ?t = random_tid rnd"
        using c by simp_all
      have "obs (test_dest cfg r ?t) no_change = Some (mAP, other)"
        using asks(2) Some x by simp
      from Behavior_reply [OF o ct this] obtain m where m: "IsSameIP_and_Port m mAP" "reply_effect net localport cfg r ?t = Some
          (if ct_fIsTest3 ?t
           then r\<lparr>cr_addrMappingAA := m, cr_fBehaviorTestSuccess := True, cr_behavior :=
             (if IsSameIP_and_Port mAP (cr_addrMappingAP r) then AddressDependentMapping else AddressAndPortDependentMapping)\<rparr>
           else if IsSameIP_and_Port mAP (cr_addrMapped r)
           then r\<lparr>cr_addrMappingAP := m, cr_fBehaviorTestSuccess := True, cr_behavior := EndpointIndependentMapping\<rparr>
           else r\<lparr>cr_addrMappingAP := m\<rparr>)"
        by blast
      then show ?thesis
        using c(3) Some x r ready d by (auto simp: same_binding_def same_filtering_def)
    qed
  qed
qed

lemma behavior3_known:
  assumes o: "observes net localport home obs" and f: "test_finishes net localport cfg TestBehavior3 r r'"
  shows "same_binding r r' \<and> same_filtering r r' \<and>
    (if cr_fBindingTestSuccess r \<and> cr_fHasOtherAddress r \<and> \<not> cr_fBehaviorTestSuccess r \<and> \<not> IsIPAddressZero (cr_addrMappingAP r)
     then (case obs (cr_addrAA r) no_change of
         None \<Rightarrow> \<not> cr_fBehaviorTestSuccess r'
       | Some (mAA, _) \<Rightarrow> cr_fBehaviorTestSuccess r' \<and> cr_behavior r' =
           (if IsSameIP_and_Port mAA (cr_addrMappingAP r) then AddressDependentMapping else AddressAndPortDependentMapping))
     else r' = r)"
proof -
  obtain t t1 r1 rnd where t: "test_start TestBehavior3 t" "PreRunCheck r t = (t1, r1)"
    and r: "r' = (if IsCompleted t1 \<or> \<not> IsReadyToRun r1 t1 then r1
      else let t2 = t1\<lparr>ct_transid := random_tid rnd\<rparr> in
        case reply_effect net localport cfg r1 t2 of None \<Rightarrow> snd (NotifyTimeout r1 t2) | Some x \<Rightarrow> x)"
    by (rule finishes_cases [OF f])
  let ?t = "t\<lparr>ct_transid := random_tid rnd\<rparr>"
  have c: "ct_class t = CBehaviorTest" "\<not> ct_fCompleted t" "ct_fIsTest3 t"
    using t by (simp_all add: test_start_def test_ok_def class_of_member_def is_test3_def)
  have asks: "test_change ?t = no_change" "test_dest cfg r ?t = cr_addrAA r"
    using c by (simp_all add: test_change_def test_dest_def)
  have p: "t1 = t" "r1 = r"
    using t(2) c by (simp_all add: PreRunCheck_def Behavior_PreRunCheck_def)
  have r: "r' = (if \<not> Behavior_IsReadyToRun r t then r
        else case reply_effect net localport cfg r ?t of None \<Rightarrow> r\<lparr>cr_fBehaviorTestSuccess := False\<rparr> | Some x \<Rightarrow> x)"
    using r c unfolding p by (simp add: IsCompleted_def virtual_defs Behavior_NotifyTimeout_def Let_def cong: option.case_cong)
  have ready: "Behavior_IsReadyToRun r t \<longleftrightarrow> cr_fBindingTestSuccess r \<and> cr_fHasOtherAddress r \<and>
      \<not> cr_fBehaviorTestSuccess r \<and> \<not> IsIPAddressZero (cr_addrMappingAP r)"
    using c by (auto simp: Behavior_IsReadyToRun_def Let_def)
  show ?thesis
  proof (cases "obs (cr_addrAA r) no_change")
    case None
    then have "reply_effect net localport cfg r ?t = None"
      using reply_effect_cases(1) [OF o, of ?t rnd cfg r] asks by simp
    with None r ready show ?thesis
      by (auto simp: same_binding_def same_filtering_def)
  next
    case (Some x)
    obtain mAA other where x: "x = (mAA, other)"
      by fastforce
    have ct: "ct_class ?t = CBehaviorTest" "ct_transid ?t = random_tid rnd"
      using c by simp_all
    have "obs (test_dest cfg r ?t) no_change = Some (mAA, other)"
      using asks(2) Some x by simp
    from Behavior_reply [OF o ct this] obtain m where "reply_effect net localport cfg r ?t = Some
          (if ct_fIsTest3 ?t
           then r\<lparr>cr_addrMappingAA := m, cr_fBehaviorTestSuccess := True, cr_behavior :=
             (if IsSameIP_and_Port mAA (cr_addrMappingAP r) then AddressDependentMapping else AddressAndPortDependentMapping)\<rparr>
           else if IsSameIP_and_Port mAA (cr_addrMapped r)
           then r\<lparr>cr_addrMappingAP := m, cr_fBehaviorTestSuccess := True, cr_behavior := EndpointIndependentMapping\<rparr>
           else r\<lparr>cr_addrMappingAP := m\<rparr>)"
      by blast
    then show ?thesis
      using c(3) Some x r ready by (auto simp: same_binding_def same_filtering_def)
  qed
qed

definition behavior_known :: "observation \<Rightarrow> CSocketAddress \<Rightarrow> CSocketAddress \<Rightarrow> StunClientResults \<Rightarrow> bool" where
  "behavior_known obs home server r \<longleftrightarrow> (case mapping_verdict obs home server of
     None \<Rightarrow> \<not> cr_fBehaviorTestSuccess r | Some v \<Rightarrow> cr_fBehaviorTestSuccess r \<and> cr_behavior r = v)"

lemma behavior_tests_known:
  assumes o: "observes net localport home obs" and f: "test_finishes net localport cfg TestBehavior2 r r1"
    "test_finishes net localport cfg TestBehavior3 r1 r2"
    and b: "binding_known obs home (cc_addrServer cfg) r" "behavior_fresh r"
  shows "same_binding r r2 \<and> same_filtering r r2 \<and> behavior_known obs home (cc_addrServer cfg) r2"
proof -
  note k2 = behavior2_known [OF o f(1)] and k3 = behavior3_known [OF o f(2)]
  have s1: "same_binding r r1" "same_filtering r r1" and s2: "same_binding r1 r2" "same_filtering r1 r2"
    using k2 k3 by simp_all
  then have "same_binding r r2" "same_filtering r r2"
    by (auto simp: same_binding_def same_filtering_def)
  moreover have "behavior_known obs home (cc_addrServer cfg) r2"
  proof (cases "obs (cc_addrServer cfg) no_change")
    case None
    then have "\<not> cr_fBindingTestSuccess r"
      using b(1) by (simp add: binding_known_def)
    then have "r1 = r" "r2 = r1"
      using k2 k3 s1(1) by (auto simp: same_binding_def)
    with None b(2) show ?thesis
      by (simp add: behavior_known_def mapping_verdict_def behavior_fresh_def)
  next
    case (Some x)
    obtain m other where x: "x = (m, other)"
      by fastforce
    have bk: "cr_fBindingTestSuccess r" "cr_fHasOtherAddress r = (other \<noteq> None)" "cr_fIsDirect r = IsSameIP_and_Port home m"
      "IsSameIP_and_Port (cr_addrMapped r) m"
      using b(1) Some x by (simp_all add: binding_known_def)
    note b1 = s1(1) [unfolded same_binding_def]
    show ?thesis
    proof (cases "IsSameIP_and_Port home m")
      case True
      then have "cr_fBehaviorTestSuccess r1 \<and> cr_behavior r1 = DirectMapping"
        using k2 bk by simp
      moreover have "r2 = r1"
        using k3 calculation by simp
      ultimately show ?thesis
        using True Some x by (simp add: behavior_known_def mapping_verdict_def)
    next
      case d: False
      show ?thesis
      proof (cases other)
        case None
        then have "r1 = r"
          using k2 d bk by simp
        moreover have "r2 = r1"
          using k3 None bk calculation by simp
        ultimately show ?thesis
          using d Some x None b(2) by (simp add: behavior_known_def mapping_verdict_def behavior_fresh_def)
      next
        case oa: (Some aa)
        have aa: "IsSameIP_and_Port (cr_addrAA r) aa" "IsSameIP_and_Port (cr_addrAP r) (SetPort aa (GetPort (cc_addrServer cfg)))"
          using b(1) Some x oa by (simp_all add: binding_known_def)
        note oAP = observesD(3) [OF o aa(2), of no_change] and oAA = observesD(3) [OF o aa(1), of no_change]
        have k2': "case obs (cr_addrAP r) no_change of
            None \<Rightarrow> \<not> cr_fBehaviorTestSuccess r1 \<and> cr_addrMappingAP r1 = cr_addrMappingAP r
          | Some (mAP, _) \<Rightarrow> IsSameIP_and_Port (cr_addrMappingAP r1) mAP \<and>
           (if IsSameIP_and_Port mAP (cr_addrMapped r)
            then cr_fBehaviorTestSuccess r1 \<and> cr_behavior r1 = EndpointIndependentMapping
            else \<not> cr_fBehaviorTestSuccess r1)"
          using k2 bk d oa b(2) by (simp add: behavior_fresh_def)
        show ?thesis
        proof (cases "obs (cr_addrAP r) no_change")
          case None
          then have r1: "\<not> cr_fBehaviorTestSuccess r1" "IsIPAddressZero (cr_addrMappingAP r1)"
            using k2' b(2) by (simp_all add: behavior_fresh_def)
          then have "r2 = r1"
            using k3 by simp
          then show ?thesis
            using r1(1) d Some x oa None oAP by (simp add: behavior_known_def mapping_verdict_def)
        next
          case (Some y)
          obtain mAP o2 where y: "y = (mAP, o2)"
            by fastforce
          have map1: "IsSameIP_and_Port (cr_addrMappingAP r1) mAP"
            using k2' Some y by simp
          have eq: "IsSameIP_and_Port mAP (cr_addrMapped r) = IsSameIP_and_Port mAP m"
            by (rule same_cong(2) [OF bk(4)])
          have v: "mapping_verdict obs home (cc_addrServer cfg) =
            (if IsSameIP_and_Port mAP m then Some EndpointIndependentMapping
             else if IsIPAddressZero mAP then None
             else (case obs aa no_change of None \<Rightarrow> None
               | Some (mAA, _) \<Rightarrow> Some (if IsSameIP_and_Port mAA mAP then AddressDependentMapping
                   else AddressAndPortDependentMapping)))"
            using \<open>obs (cc_addrServer cfg) no_change = Some x\<close> x d oa oAP [unfolded Some y, symmetric]
            by (simp add: mapping_verdict_def)
          show ?thesis
          proof (cases "IsSameIP_and_Port mAP m")
            case True
            then have r1: "cr_fBehaviorTestSuccess r1" "cr_behavior r1 = EndpointIndependentMapping"
              using k2' Some y eq by simp_all
            then have "r2 = r1"
              using k3 by simp
            then show ?thesis
              using r1 True by (simp add: behavior_known_def v)
          next
            case False
            then have r1: "\<not> cr_fBehaviorTestSuccess r1"
              using k2' Some y eq by simp
            show ?thesis
            proof (cases "IsIPAddressZero mAP")
              case True
              then have "r2 = r1"
                using k3 same_zero [OF map1] by simp
              then show ?thesis
                using r1 True False by (simp add: behavior_known_def v)
            next
              case nz: False
              have "case obs aa no_change of None \<Rightarrow> \<not> cr_fBehaviorTestSuccess r2
                  | Some (mAA, _) \<Rightarrow> cr_fBehaviorTestSuccess r2 \<and> cr_behavior r2 =
                     (if IsSameIP_and_Port mAA (cr_addrMappingAP r1) then AddressDependentMapping else AddressAndPortDependentMapping)"
                using k3 r1 nz same_zero [OF map1] b1 bk oa oAA by simp
              then show ?thesis
                using False nz same_cong(2) [OF map1]
                by (cases "obs aa no_change") (auto simp: behavior_known_def v split: if_splits)
            qed
          qed
        qed
      qed
    qed
  qed
  ultimately show ?thesis
    by simp
qed

definition verdicts_reached :: "StunClientLogicConfig \<Rightarrow> observation \<Rightarrow> CSocketAddress \<Rightarrow> StunClientResults \<Rightarrow> bool" where
  "verdicts_reached cfg obs home r \<longleftrightarrow> binding_known obs home (cc_addrServer cfg) r \<and>
     (if cc_fFilteringTest cfg then filtering_known obs home (cc_addrServer cfg) r else \<not> cr_fFilteringTestSuccess r) \<and>
     (if cc_fBehaviorTest cfg then behavior_known obs home (cc_addrServer cfg) r else \<not> cr_fBehaviorTestSuccess r)"

lemma tests_verdicts:
  assumes o: "observes net localport home obs"
    and f: "tests_finish net localport (effective_config cfg) (test_list cfg) StunClientResults_Init r"
  shows "verdicts_reached cfg obs home r"
proof -
  let ?cfg = "effective_config cfg" and ?F = "if cc_fFilteringTest cfg then [TestFiltering2, TestFiltering3] else []"
    and ?B = "if cc_fBehaviorTest cfg then [TestBehavior2, TestBehavior3] else []"
  obtain r1 where r1: "test_finishes net localport ?cfg Test1 StunClientResults_Init r1"
    "tests_finish net localport ?cfg (?F @ ?B) r1 r"
    using tests_finish_Cons f unfolding test_list_def by blast
  have k1: "binding_known obs home (cc_addrServer cfg) r1" "filtering_fresh r1" "behavior_fresh r1"
    using test1_known [OF o r1(1)] by simp_all
  have "\<exists>r2. tests_finish net localport ?cfg ?B r2 r \<and> binding_known obs home (cc_addrServer cfg) r2 \<and> behavior_fresh r2 \<and>
    (if cc_fFilteringTest cfg then filtering_known obs home (cc_addrServer cfg) r2 else \<not> cr_fFilteringTestSuccess r2)"
  proof (cases "cc_fFilteringTest cfg")
    case True
    with r1(2) have "tests_finish net localport ?cfg (TestFiltering2 # TestFiltering3 # ?B) r1 r"
      by simp
    from tests_finish_Cons [OF this] obtain q where q1: "test_finishes net localport ?cfg TestFiltering2 r1 q"
      "tests_finish net localport ?cfg (TestFiltering3 # ?B) q r"
      by blast
    from tests_finish_Cons [OF q1(2)] obtain r2 where b: "tests_finish net localport ?cfg ?B r2 r"
      and q: "test_finishes net localport ?cfg TestFiltering2 r1 q" "test_finishes net localport ?cfg TestFiltering3 q r2"
      using q1(1) by blast
    note k = filtering_tests_known [OF o q, simplified, OF k1(1,2)]
    have "behavior_fresh r2"
      using k k1(3) by (simp add: behavior_fresh_def same_behavior_def)
    moreover have "binding_known obs home (cc_addrServer cfg) r2"
      using k binding_known_same [OF k1(1)] by blast
    ultimately show ?thesis
      using b k True by auto
  next
    case False
    then show ?thesis
      using r1(2) k1 by (intro exI [of _ r1]) (simp add: filtering_fresh_def)
  qed
  then obtain r2 where r2: "tests_finish net localport ?cfg ?B r2 r" "binding_known obs home (cc_addrServer cfg) r2" "behavior_fresh r2"
    "if cc_fFilteringTest cfg then filtering_known obs home (cc_addrServer cfg) r2 else \<not> cr_fFilteringTestSuccess r2"
    by blast
  show ?thesis
  proof (cases "cc_fBehaviorTest cfg")
    case True
    with r2(1) have "tests_finish net localport ?cfg [TestBehavior2, TestBehavior3] r2 r"
      by simp
    from tests_finish_Cons [OF this] obtain q where q1: "test_finishes net localport ?cfg TestBehavior2 r2 q"
      "tests_finish net localport ?cfg [TestBehavior3] q r"
      by blast
    from tests_finish_Cons [OF q1(2)] have q2: "test_finishes net localport ?cfg TestBehavior3 q r"
      by (auto elim: tests_finish_Nil)
    note k = behavior_tests_known [OF o q1(1) q2, simplified, OF r2(2,3)]
    have "binding_known obs home (cc_addrServer cfg) r"
      using k binding_known_same [OF r2(2)] by blast
    moreover have "filtering_known obs home (cc_addrServer cfg) r = filtering_known obs home (cc_addrServer cfg) r2"
      "cr_fFilteringTestSuccess r = cr_fFilteringTestSuccess r2"
      using k by (simp_all add: filtering_known_def same_filtering_def cong: option.case_cong)
    ultimately show ?thesis
      using k r2(4) True by (simp add: verdicts_reached_def)
  next
    case False
    then have "r2 = r"
      using r2(1) by (auto elim: tests_finish_Nil)
    then show ?thesis
      using r2(2-4) False by (simp add: verdicts_reached_def behavior_fresh_def cong: if_cong)
  qed
qed

section \<open>Properties\<close>

text \<open>C10: whatever datagrams the network delivers and when, the client program ends with results:
  at the latest when the time for all the requests it may send is over, each with the timeout and one
  turn.\<close>

theorem client_loop_ends:
  assumes "valid_server (cc_addrServer cfg)" "runs_for cfg longest ms turns"
  shows "\<exists>res. UdpClientLoop cfg0 pc0 cfg S_OK localport turns = Ended S_OK (Some res)"
  using UdpClientLoop_results [OF assms] by blast

text \<open>
  Turns of half a second each, as \<open>select\<close> gives them by default, and a network that delivers a
  datagram of two bytes in each of them, which is nobody's answer.
\<close>

definition noisy_turn :: "nat \<Rightarrow> UdpTurn" where
  "noisy_turn m = \<lparr>ut_rnd = (\<lambda>_. 0), ut_clock = word_of_nat m,
     ut_net = (\<lambda>_. Some ([1, 2], CSocketAddress_default, CSocketAddress_default))\<rparr>"

definition example_times :: "nat list" where
  "example_times = map (\<lambda>i. 500 * i) [0..<72]"

lemma successively_map_upt: "\<forall>i. P (f i) (f (Suc i)) \<Longrightarrow> successively P (map f [k..<k + n])"
proof (induction n)
  case (Suc n)
  then show ?case
    by (cases n) (simp_all add: successively_append_iff)
qed simp

lemma example_times_ok:
  assumes "\<And>m. ut_clock (f m) = word_of_nat m"
  shows "runs_for example_client 500 example_times (map f example_times)"
proof -
  have "successively (\<lambda>a b. a \<le> b \<and> b \<le> a + 500) (map (\<lambda>i. 500 * i) [0..<0 + 72])"
    by (rule successively_map_upt) simp
  then have "timed 500 example_times (map f example_times)"
    using assms by (simp add: timed_def example_times_def o_def)
  moreover have "max_sends example_client = 10"
    by (simp add: max_sends_def example_client_def test_list_def)
  moreover have "hd example_times = 0" "last example_times = 500 * 71"
    by (simp_all add: example_times_def hd_map last_map)
  ultimately show ?thesis
    by (simp add: runs_for_def run_bound_def example_client_def) (simp add: example_times_def)
qed

theorem client_loop_ends_witness:
  "\<exists>res. UdpClientLoop example_client True example_client S_OK 5000 (map noisy_turn example_times) = Ended S_OK (Some res)"
  by (rule client_loop_ends [OF example_server example_times_ok]) (simp add: noisy_turn_def)

text \<open>C9: through a network that treats a request always in the same way, and answers it while the
  turn that sent it waits or not at all, the client ends with the verdicts that what it can observe
  determines: on the binding, the mapping and the filtering.\<close>

theorem client_verdicts:
  assumes "valid_server (cc_addrServer cfg)" "runs_for cfg longest ms turns"
    "list_all (steady net) turns" "observes net localport home obs"
  shows "\<exists>res. UdpClientLoop cfg0 pc0 cfg S_OK localport turns = Ended S_OK (Some res) \<and> verdicts_reached cfg obs home res"
  using UdpClientLoop_results [OF assms(1,2), of cfg0 pc0 localport net] tests_verdicts [OF assms(4)] assms(3) by blast

text \<open>
  A server with a second address behind a translator that gives the client another port for each
  address it sends to, and lets nothing in but from where the client has sent: the binding requests
  are answered at once, those with a change request are not.
\<close>

definition nat_reply :: "StunTransactionId \<Rightarrow> CSocketAddress \<Rightarrow> CSocketAddress \<Rightarrow> bytes" where
  "nat_reply tid mapped other = msg_wire False StunMsgTypeBinding StunMsgClassSuccessResponse tid
     [(STUN_ATTRIBUTE_MAPPEDADDRESS, addr_wire mapped), (STUN_ATTRIBUTE_OTHER_ADDRESS, addr_wire other)]"

definition nat_outside :: "CSocketAddress \<Rightarrow> CSocketAddress" where
  "nat_outside dest = CSocketAddress_ipv4 0xCB007107 (if IsSameIP dest (cc_addrServer example_client) then 6000 else 6001)"

definition second_server :: CSocketAddress where
  "second_server = CSocketAddress_ipv4 0x0A000002 3479"

definition nat_home :: CSocketAddress where
  "nat_home = CSocketAddress_ipv4 0xC0A80002 5000"

definition nat_net :: network where
  "nat_net dest msg = (let tid = take 16 (drop 4 msg) in
     if msg = request_wire tid no_change
     then Some (nat_reply tid (nat_outside dest) second_server, dest, CSocketAddress_ipv4 0xC0A80002 0) else None)"

definition nat_obs :: observation where
  "nat_obs dest c = (if c = no_change then Some (nat_outside dest, Some second_server) else None)"

definition nat_turn :: "nat \<Rightarrow> UdpTurn" where
  "nat_turn m = \<lparr>ut_rnd = (\<lambda>_. 0), ut_clock = word_of_nat m,
     ut_net = (\<lambda>sent. case sent of None \<Rightarrow> None | Some (dest, msg) \<Rightarrow> nat_net dest msg)\<rparr>"

lemma request_wire_tid: "length tid = 16 \<Longrightarrow> take 16 (drop 4 (request_wire tid c)) = tid"
  by (simp add: request_wire_def msg_wire_def)

lemma change_value_no_change: "change_value c = change_value no_change \<longleftrightarrow> c = no_change"
  by (cases c) (simp add: change_value_def)

lemma request_wire_no_change: "length tid = 16 \<Longrightarrow> request_wire tid c = request_wire tid no_change \<longleftrightarrow> c = no_change"
proof
  assume "request_wire tid c = request_wire tid no_change"
  then have "be32 (change_value c) = be32 (change_value no_change)"
    by (simp add: request_wire_def msg_wire_def attrs_wire_def attr_wire_def)
  then have "of_be32 (be32 (change_value c)) = of_be32 (be32 (change_value no_change))"
    by simp
  then show "c = no_change"
    by (simp add: change_value_no_change)
qed simp

lemma nat_reply_seen:
  assumes tid: "length tid = 16" and a: "is_ip_addr a" "is_ip_addr b"
  shows "binding_reply tid a (Some b) (nat_reply tid a b)"
proof -
  let ?ads = "[(STUN_ATTRIBUTE_MAPPEDADDRESS, addr_wire a), (STUN_ATTRIBUTE_OTHER_ADDRESS, addr_wire b)]"
  note len = length_addr_wire [OF a(1)] length_addr_wire [OF a(2)]
  have w: "length (attrs_wire False ?ads) \<le> 48"
    using len by (simp add: attrs_wire_def attr_wire_def padding_of_simps)
  then have v: "values_ok False ?ads"
    using len by (simp add: values_ok_def wire_value_def stun_consts)
  have "client_sees (nat_reply tid a b) (\<lambda>r. MR_GetTransactionId r = tid \<and> returns_address (read_mapped r) a \<and>
      returns_address (MR_GetOtherAddress r) b)"
    unfolding nat_reply_def
  proof (rule client_sees_wire [OF tid v], goal_cases)
    case (3 r)
    let ?c = "msg_wire False StunMsgTypeBinding StunMsgClassSuccessResponse tid ?ads"
    have l: "last_value ?c STUN_ATTRIBUTE_MAPPEDADDRESS = Some (addr_wire a)" "last_value ?c STUN_ATTRIBUTE_OTHER_ADDRESS = Some (addr_wire b)"
      "last_value ?c STUN_ATTRIBUTE_XORMAPPEDADDRESS = None" "last_value ?c STUN_ATTRIBUTE_XORMAPPEDADDRESS_OPTIONAL = None"
      unfolding 3(3) by (simp_all add: stun_consts a wire_value_def)
    have "FAILED (fst (MR_GetXorMappedAddress r))"
      using GetAddressHelper_parsed(1) [OF 3(1) l(3)] GetAddressHelper_parsed(1) [OF 3(1) l(4)] by (simp add: MR_GetXorMappedAddress_def)
    moreover obtain a' where "MR_GetAddressHelper r STUN_ATTRIBUTE_MAPPEDADDRESS = (S_OK, Some a')" "IsSameIP_and_Port a' a"
      using GetAddressHelper_parsed(2) [OF 3(1) l(1) a(1)] by blast
    moreover obtain b' where "MR_GetAddressHelper r STUN_ATTRIBUTE_OTHER_ADDRESS = (S_OK, Some b')" "IsSameIP_and_Port b' b"
      using GetAddressHelper_parsed(2) [OF 3(1) l(2) a(2)] by blast
    ultimately show ?case
      using 3(2) by (simp add: response_header_def returns_address_def read_mapped_def MR_GetMappedAddress_def MR_GetOtherAddress_def)
  qed (simp_all add: stun_consts)
  moreover have "length (nat_reply tid a b) \<le> 800"
    using w tid by (simp add: nat_reply_def msg_wire_def)
  ultimately show ?thesis
    using a by (simp add: binding_reply_def)
qed

lemma nat_observes: "observes nat_net 5000 nat_home nat_obs"
proof -
  have ip: "is_ip_addr (nat_outside dest)" "is_ip_addr second_server" for dest
    by (simp_all add: nat_outside_def second_server_def)
  have "IsSameIP a s = IsSameIP b s" if "IsSameIP_and_Port a b" for a b s
    using that by (auto simp: IsSameIP_and_Port_def IsSameIP_def split: if_splits)
  then have "nat_obs a c = nat_obs b c" if "IsSameIP_and_Port a b" for a b c
    using that by (simp add: nat_obs_def nat_outside_def)
  moreover have "case nat_obs dest c of
        None \<Rightarrow> nat_net dest (request_wire (random_tid rnd) c) = None
      | Some (mapped, other) \<Rightarrow> \<exists>d remote addrLocal. nat_net dest (request_wire (random_tid rnd) c) = Some (d, remote, addrLocal) \<and>
          binding_reply (random_tid rnd) mapped other d \<and> SetPort addrLocal 5000 = nat_home" for rnd dest c
    using nat_reply_seen [OF _ ip, of "random_tid rnd" dest]
    by (simp add: nat_obs_def nat_net_def request_wire_tid request_wire_no_change nat_home_def SetPort_def CSocketAddress_ipv4_def)
  ultimately show ?thesis
    unfolding observes_def by blast
qed

lemma be32_differ: "be32 a = be32 b \<longleftrightarrow> a = b"
  by (metis of_be32_be32_nil)

lemma zero_bytes_4: "zero_bytes 4 = be32 0"
  by (simp add: zero_bytes_def be32_def numeral_eq_Suc)

lemma nat_obs_verdicts:
  "mapping_verdict nat_obs nat_home (cc_addrServer example_client) = Some AddressDependentMapping"
  "filtering_verdict nat_obs nat_home (cc_addrServer example_client) = Some AddressAndPortDependentFiltering"
proof -
  let ?s = "cc_addrServer example_client"
  have s: "IsSameIP second_server ?s = False" "IsSameIP (SetPort second_server p) ?s = False" for p
    by (simp_all add: second_server_def example_client_def IsSameIP_def CSocketAddress_ipv4_def SetPort_def be32_differ)
  have home: "IsSameIP_and_Port nat_home (CSocketAddress_ipv4 0xCB007107 6000) = False"
    by (simp add: nat_home_def IsSameIP_and_Port_def IsSameIP_def CSocketAddress_ipv4_def be32_differ)
  have port: "IsSameIP_and_Port (CSocketAddress_ipv4 0xCB007107 6001) (CSocketAddress_ipv4 0xCB007107 6000) = False"
    by (simp add: IsSameIP_and_Port_def GetPort_def GetPort_NBO_def CSocketAddress_ipv4_def)
  have zero: "IsIPAddressZero (CSocketAddress_ipv4 0xCB007107 6001) = False"
    by (simp add: IsIPAddressZero_def CSocketAddress_ipv4_def zero_bytes_4 be32_differ)
  have self: "IsSameIP ?s ?s"
    by (simp add: IsSameIP_def)
  show "mapping_verdict nat_obs nat_home ?s = Some AddressDependentMapping"
    by (simp add: mapping_verdict_def nat_obs_def nat_outside_def s self home port zero)
  show "filtering_verdict nat_obs nat_home ?s = Some AddressAndPortDependentFiltering"
    by (simp add: filtering_verdict_def nat_obs_def nat_outside_def s self home)
qed

theorem client_verdicts_witness:
  "\<exists>res. UdpClientLoop example_client True example_client S_OK 5000 (map nat_turn example_times) = Ended S_OK (Some res) \<and>
    verdicts_reached example_client nat_obs nat_home res \<and> cr_addrLocal res = nat_home \<and>
    cr_fBehaviorTestSuccess res \<and> cr_behavior res = AddressDependentMapping \<and>
    cr_fFilteringTestSuccess res \<and> cr_filtering res = AddressAndPortDependentFiltering"
proof -
  have "list_all (steady nat_net) (map nat_turn example_times)"
    by (simp add: list_all_iff steady_def nat_turn_def)
  moreover have "runs_for example_client 500 example_times (map nat_turn example_times)"
    by (rule example_times_ok) (simp add: nat_turn_def)
  ultimately obtain res where r: "UdpClientLoop example_client True example_client S_OK 5000 (map nat_turn example_times) = Ended S_OK (Some res)"
    "verdicts_reached example_client nat_obs nat_home res"
    using client_verdicts [OF example_server _ _ nat_observes] by blast
  have "binding_known nat_obs nat_home (cc_addrServer example_client) res"
    "filtering_known nat_obs nat_home (cc_addrServer example_client) res" "behavior_known nat_obs nat_home (cc_addrServer example_client) res"
    using r(2) by (simp_all add: verdicts_reached_def) (simp_all add: example_client_def)
  then show ?thesis
    using r by (simp add: binding_known_def filtering_known_def behavior_known_def nat_obs_verdicts) (simp add: nat_obs_def)
qed

end
