(* ===== verification/StunText.thy ===== *)
theory StunText imports NosePrelude begin

text \<open>
  Text in the STUN programs: character literals, \<open>atoi\<close>, and the
  helpers of common/stringhelper.cpp.  A \<open>std::string\<close> is the list of its bytes, a C string the list
  of the bytes before its terminator.  The value of \<open>atoi\<close> for a number that is not an \<open>int\<close> is not
  defined by C; it is an argument.
\<close>

unbundle bit_operations_syntax

definition chars_of :: "string \<Rightarrow> bytes" where
  "chars_of s = map of_char s"

definition text_digit :: "byte \<Rightarrow> bool" where
  "text_digit c \<longleftrightarrow> 48 \<le> c \<and> c \<le> 57"

definition decimal_of :: "bytes \<Rightarrow> int" where
  "decimal_of ds = foldl (\<lambda>v c. 10 * v + (uint c - 48)) 0 ds"

section \<open>stringhelper.cpp\<close>

definition ISWHITESPACE :: "byte \<Rightarrow> bool" where
  "ISWHITESPACE ch \<longleftrightarrow> 9 \<le> ch \<and> ch \<le> 0xd \<or> ch = 32"

definition IsNullOrEmpty :: "bytes option \<Rightarrow> bool" where
  "IsNullOrEmpty psz \<longleftrightarrow> psz = None \<or> the psz = []"

definition ToLower :: "bytes \<Rightarrow> bytes" where
  "ToLower str = map (\<lambda>ch. if 65 \<le> ch \<and> ch \<le> 90 then ch + 32 else ch) str"

text \<open>The loop looks for the first and the last character that is not white space; -1 is \<open>None\<close>.\<close>

definition trim_step :: "bytes \<Rightarrow> nat \<Rightarrow> (nat \<times> nat) option \<Rightarrow> (nat \<times> nat) option" where
  "trim_step str index found =
     (if ISWHITESPACE (str ! index) then found
      else case found of None \<Rightarrow> Some (index, index) | Some (start, _) \<Rightarrow> Some (start, index))"

definition Trim :: "bytes \<Rightarrow> bytes" where
  "Trim str = (case fold (trim_step str) [0..<length str] None of
     None \<Rightarrow> str
   | Some (start, last_index) \<Rightarrow> take (last_index - start + 1) (drop start str))"

text \<open>The library's \<open>atoi\<close>: white space, a sign, digits.\<close>

definition atoi_text :: "(bytes \<Rightarrow> int) \<Rightarrow> bytes \<Rightarrow> int" where
  "atoi_text undefined_value psz =
     (let t = dropWhile ISWHITESPACE psz; neg = (t \<noteq> [] \<and> hd t = 45);
          ds = takeWhile text_digit (if t \<noteq> [] \<and> (hd t = 45 \<or> hd t = 43) then tl t else t);
          r = (if neg then - decimal_of ds else decimal_of ds) in
      if - (2 ^ 31) \<le> r \<and> r < 2 ^ 31 then r else undefined_value psz)"

definition ValidateNumberString :: "(bytes \<Rightarrow> int) \<Rightarrow> bytes option \<Rightarrow> int \<Rightarrow> int \<Rightarrow> int option" where
  "ValidateNumberString undefined_value psz nMinValue nMaxValue =
     (if IsNullOrEmpty psz then None
      else let nVal = atoi_text undefined_value (the psz) in
        if nVal < nMinValue then None else if nVal > nMaxValue then None else Some nVal)"

section \<open>Facts\<close>

text \<open>The bytes between the first and the last that is not white space.\<close>

lemma trim_fold:
  "n \<le> length str \<Longrightarrow> fold (trim_step str) [0..<n] None =
    (if \<forall>i<n. ISWHITESPACE (str ! i) then None
     else Some (LEAST i. i < n \<and> \<not> ISWHITESPACE (str ! i), GREATEST i. i < n \<and> \<not> ISWHITESPACE (str ! i)))"
proof (induction n)
  case (Suc n)
  let ?P = "\<lambda>m i. i < m \<and> \<not> ISWHITESPACE (str ! i)"
  have f: "fold (trim_step str) [0..<Suc n] None = trim_step str n (fold (trim_step str) [0..<n] None)"
    by simp
  consider "\<forall>i<n. ISWHITESPACE (str ! i)" "ISWHITESPACE (str ! n)" | "\<forall>i<n. ISWHITESPACE (str ! i)" "\<not> ISWHITESPACE (str ! n)"
    | "\<not> (\<forall>i<n. ISWHITESPACE (str ! i))" "ISWHITESPACE (str ! n)" | "\<not> (\<forall>i<n. ISWHITESPACE (str ! i))" "\<not> ISWHITESPACE (str ! n)"
    by blast
  then show ?case
  proof cases
    case 1
    then show ?thesis
      using Suc by (auto simp: f trim_step_def less_Suc_eq)
  next
    case 2
    then have "(LEAST i. ?P (Suc n) i) = n" "(GREATEST i. ?P (Suc n) i) = n"
      by (auto intro!: Least_equality Greatest_equality simp: less_Suc_eq)
    with 2 show ?thesis
      using Suc by (auto simp: f trim_step_def)
  next
    case 3
    then have "?P (Suc n) = ?P n"
      by (auto simp: less_Suc_eq fun_eq_iff)
    with 3 show ?thesis
      using Suc by (auto simp: f trim_step_def less_Suc_eq)
  next
    case 4
    then obtain i where i: "?P n i"
      by blast
    have "(GREATEST i. ?P (Suc n) i) = n"
      using 4 by (auto intro!: Greatest_equality)
    moreover have "(LEAST i. ?P (Suc n) i) = (LEAST i. ?P n i)"
    proof (rule Least_equality)
      show "?P (Suc n) (LEAST i. ?P n i)"
        using LeastI [of "?P n", OF i] by simp
      show "(LEAST i. ?P n i) \<le> j" if "?P (Suc n) j" for j
        using that i Least_le [of "?P n" i] Least_le [of "?P n" j] by (cases "j = n") auto
    qed
    ultimately show ?thesis
      using 4 Suc by (auto simp: f trim_step_def)
  qed
qed simp

lemma Trim_white: "list_all ISWHITESPACE str \<Longrightarrow> Trim str = str"
  using trim_fold [of "length str" str] by (simp add: Trim_def list_all_length)

lemma Trim_middle:
  assumes "list_all ISWHITESPACE a" "list_all ISWHITESPACE b" "m \<noteq> []" "\<not> ISWHITESPACE (hd m)" "\<not> ISWHITESPACE (last m)"
  shows "Trim (a @ m @ b) = m"
proof -
  let ?s = "a @ m @ b"
  let ?P = "\<lambda>i. i < length ?s \<and> \<not> ISWHITESPACE (?s ! i)"
  let ?l = "length a" and ?g = "length a + length m - 1"
  have m: "0 < length m"
    using assms(3) by simp
  have l: "?P ?l" and g: "?P ?g"
    using assms(3-5) by (cases "length m"; simp add: nth_append hd_conv_nth last_conv_nth)+
  have low: "?l \<le> i" if "?P i" for i
    using that assms(1) by (rule_tac ccontr) (simp add: nth_append list_all_length)
  have high: "i \<le> ?g" if "?P i" for i
  proof (rule ccontr)
    assume "\<not> i \<le> ?g"
    then have i: "length a + length m \<le> i"
      using m by simp
    then have "?s ! i = b ! (i - (length a + length m))"
      by (auto simp: nth_append)
    moreover have "i - (length a + length m) < length b"
      using conjunct1 [OF that] i by (simp only: length_append)
    ultimately show False
      using that assms(2) by (simp add: list_all_length)
  qed
  have "(LEAST i. ?P i) = ?l" "(GREATEST i. ?P i) = ?g"
    by (rule Least_equality Greatest_equality; use l g low high in blast)+
  moreover have "\<not> (\<forall>i<length ?s. ISWHITESPACE (?s ! i))"
    using l by blast
  ultimately have "fold (trim_step ?s) [0..<length ?s] None = Some (?l, ?g)"
    using trim_fold [of "length ?s" ?s] by simp
  then show ?thesis
    using m by (simp add: Trim_def)
qed

text \<open>A text that begins and ends with other characters than white space stays.\<close>

lemma Trim_id: "m = [] \<or> \<not> ISWHITESPACE (hd m) \<and> \<not> ISWHITESPACE (last m) \<Longrightarrow> Trim m = m"
  using Trim_middle [of "[]" "[]" m] Trim_white [of "[]"] by (cases "m = []") auto

lemma ToLower_id: "list_all (\<lambda>ch. \<not> (65 \<le> ch \<and> ch \<le> 90)) s \<Longrightarrow> ToLower s = s"
  by (induction s) (auto simp: ToLower_def)

end
