(* ===== verification/StunAuth.thy ===== *)
theory StunAuth imports StunReply StunText begin

text \<open>
  The authentication providers of server/sampleauthprovider.h, sampleauthprovider.cpp, and the server's
  replies when one of them is installed.  HMAC-SHA1, MD5, the clock and the value of \<open>atoi\<close> for numbers
  that are no \<open>int\<close> are arguments.  An array of characters is its text up to the terminator.
\<close>

section \<open>Passwords\<close>

definition c_szPrivateKey :: bytes where
  "c_szPrivateKey = chars_of ''Change this string if you are going to use this code''"

definition c_szRealm :: bytes where
  "c_szRealm = chars_of ''YourRealmNameHere''"

definition users :: "string list" where
  "users = [''bruce'', ''steve'', ''nicko'', ''dave'', ''adrian'']"

definition passwords :: "string list" where
  "passwords = [''AcesHigh'', ''2MinToMid'', ''fearofthedark!'', ''#ofthebeast'', ''Run2TheHills'']"

definition LookupPassword :: "bool \<Rightarrow> bytes option \<Rightarrow> bytes option \<Rightarrow> bytes \<Rightarrow> hresult \<times> bytes" where
  "LookupPassword fWithRealm pszUserName pszRealm pszPassword =
     (if fWithRealm \<and> (pszRealm = None \<or> the pszRealm \<noteq> c_szRealm) then (E_FAIL, pszPassword)
      else if pszUserName = None then (E_FAIL, pszPassword)
      else case find (\<lambda>index. chars_of (users ! index) = the pszUserName) [0..<length users] of
          None \<Rightarrow> (E_FAIL, pszPassword)
        | Some index \<Rightarrow> (S_OK, chars_of (passwords ! index)))"

section \<open>Short-term credentials\<close>

definition ShortTerm_DoAuthCheck :: IStunAuth where
  "ShortTerm_DoAuthCheck pAuthAttributes pResponse =
     (let pResponse = pResponse\<lparr>ar_authCredMech := AuthCredShortTerm\<rparr> in
      if aa_fMessageIntegrityPresent pAuthAttributes = False then (S_OK, pResponse\<lparr>ar_responseType := Reject\<rparr>)
      else
        let (hr, password) = LookupPassword False (Some (c_string (aa_szUser pAuthAttributes))) None (ar_szPassword pResponse);
            pResponse = pResponse\<lparr>ar_szPassword := password\<rparr> in
        if SUCCEEDED hr then (S_OK, pResponse\<lparr>ar_responseType := AllowConditional\<rparr>)
        else (S_OK, pResponse\<lparr>ar_responseType := Unauthorized\<rparr>))"

section \<open>Nonces\<close>

text \<open>\<open>%u\<close> and \<open>%.2x\<close>.\<close>

fun unsigned_text :: "nat \<Rightarrow> bytes" where
  "unsigned_text n = (if n < 10 then [of_nat (48 + n)] else unsigned_text (n div 10) @ [of_nat (48 + n mod 10)])"

declare unsigned_text.simps [simp del]

definition hex_digit :: "nat \<Rightarrow> byte" where
  "hex_digit d = (if d < 10 then of_nat (48 + d) else of_nat (87 + d))"

definition HmacToString :: "bytes \<Rightarrow> bytes" where
  "HmacToString hmacresult = concat (map (\<lambda>b. [hex_digit (unat b div 16), hex_digit (unat b mod 16)]) (take 20 hmacresult))"

definition CreateNonce :: "(bytes \<Rightarrow> bytes \<Rightarrow> bytes) \<Rightarrow> int \<Rightarrow> bytes" where
  "CreateNonce hmac thetime =
     (let szTime = unsigned_text (nat (thetime mod 2 ^ 32)) @ chars_of '':'';
          hmacresult = hmac c_szPrivateKey szTime in
      szTime @ HmacToString hmacresult)"

definition ValidateNonce :: "(bytes \<Rightarrow> bytes \<Rightarrow> bytes) \<Rightarrow> (bytes \<Rightarrow> int) \<Rightarrow> int \<Rightarrow> bytes \<Rightarrow> hresult" where
  "ValidateNonce hmac undefined_value thecurrenttime pszNonce =
     (let szNonce = take 99 pszNonce in
      if 58 \<notin> set szNonce then E_FAIL
      else
        let left_half = takeWhile (\<lambda>c. c \<noteq> 58) szNonce; pRightHalf = tl (dropWhile (\<lambda>c. c \<noteq> 58) szNonce);
            thetime = atoi_text undefined_value left_half; diff = thecurrenttime - thetime in
        if thecurrenttime - thetime > 120 \<or> diff < 0 then E_FAIL
        else if HmacToString (hmac c_szPrivateKey left_half) \<noteq> pRightHalf then E_FAIL
        else S_OK)"

section \<open>Long-term credentials\<close>

text \<open>The time is read when the nonce is made, and again when the client's is checked.\<close>

definition LongTerm_DoAuthCheck :: "(bytes \<Rightarrow> bytes \<Rightarrow> bytes) \<Rightarrow> (bytes \<Rightarrow> int) \<Rightarrow> int \<times> int \<Rightarrow> IStunAuth" where
  "LongTerm_DoAuthCheck hmac undefined_value now pAuthAttributes pResponse =
     (let pResponse = pResponse\<lparr>ar_authCredMech := AuthCredLongTerm, ar_szNonce := CreateNonce hmac (fst now),
                       ar_szRealm := c_szRealm\<rparr> in
      if aa_fMessageIntegrityPresent pAuthAttributes = False \<or> c_string (aa_szNonce pAuthAttributes) = []
         \<or> c_string (aa_szUser pAuthAttributes) = []
      then (S_OK, pResponse\<lparr>ar_responseType := Unauthorized\<rparr>)
      else
        let (hr, password) = LookupPassword True (Some (c_string (aa_szUser pAuthAttributes)))
                               (Some (c_string (aa_szNonce pAuthAttributes))) (ar_szPassword pResponse);
            pResponse = pResponse\<lparr>ar_szPassword := password\<rparr> in
        if FAILED hr then (S_OK, pResponse\<lparr>ar_responseType := Unauthorized\<rparr>)
        else if FAILED (ValidateNonce hmac undefined_value (snd now) (c_string (aa_szNonce pAuthAttributes)))
        then (S_OK, pResponse\<lparr>ar_responseType := StaleNonce\<rparr>)
        else (S_OK, pResponse\<lparr>ar_responseType := AllowConditional\<rparr>))"

section \<open>The table of passwords\<close>

definition password_of :: "bytes \<Rightarrow> bytes option" where
  "password_of user = map_of (zip (map chars_of users) (map chars_of passwords)) user"

lemma LookupPassword_eq:
  "LookupPassword f (Some user) realm old = (if f \<and> realm \<noteq> Some c_szRealm then (E_FAIL, old)
     else case password_of user of None \<Rightarrow> (E_FAIL, old) | Some pw \<Rightarrow> (S_OK, pw))"
proof -
  have "find (\<lambda>i. chars_of (users ! i) = user) [0..<length users] =
      (if user = chars_of ''bruce'' then Some 0 else if user = chars_of ''steve'' then Some 1 else if user = chars_of ''nicko'' then Some 2
       else if user = chars_of ''dave'' then Some 3 else if user = chars_of ''adrian'' then Some 4 else None)"
    by (auto simp: users_def upt_rec)
  then show ?thesis
    by (cases realm) (auto simp: LookupPassword_def password_of_def users_def passwords_def)
qed

lemma password_of_text:
  "password_of user = Some pw \<Longrightarrow> pw \<noteq> [] \<and> length pw \<le> 64 \<and> c_string pw = pw \<and> terminated pw = pw"
  by (auto simp: password_of_def users_def passwords_def chars_of_def c_string_def terminated_def stun_consts split: if_splits)

section \<open>Short-term credentials are checked\<close>

lemma short_check: "ShortTerm_DoAuthCheck attrs AuthResponse_zero = (S_OK,
    (if \<not> aa_fMessageIntegrityPresent attrs then AuthResponse_zero\<lparr>ar_responseType := Reject\<rparr>
     else case password_of (c_string (aa_szUser attrs)) of
        None \<Rightarrow> AuthResponse_zero\<lparr>ar_responseType := Unauthorized\<rparr>
      | Some pw \<Rightarrow> AuthResponse_zero\<lparr>ar_szPassword := pw, ar_responseType := AllowConditional\<rparr>))"
  by (simp add: ShortTerm_DoAuthCheck_def LookupPassword_eq Let_def AuthResponse_zero_def split: option.split)

lemma zero_response [simp]: "ar_szPassword AuthResponse_zero = []" "ar_szRealm AuthResponse_zero = []" "ar_szNonce AuthResponse_zero = []"
    "ar_authCredMech AuthResponse_zero = AuthCredShortTerm" "terminated [] = []"
  by (simp_all add: AuthResponse_zero_def terminated_def c_string_def)

text \<open>A binding request with a user name, whose last attribute is the integrity under a key.\<close>

definition signed_request :: "(bytes \<Rightarrow> bytes \<Rightarrow> bytes) \<Rightarrow> bytes \<Rightarrow> bytes \<Rightarrow> (u16 \<times> bytes) list \<Rightarrow> bytes \<Rightarrow> bool" where
  "signed_request hmac key user ads c \<longleftrightarrow> (\<exists>l tid v. let all_ads = ads @ [(STUN_ATTRIBUTE_MESSAGEINTEGRITY, v)] in
     length tid = 16 \<and> values_ok l all_ads \<and> c = msg_wire l StunMsgTypeBinding StunMsgClassRequest tid all_ads \<and>
     length v = 20 \<and> v = hmac key (take (length c - 24) c) \<and>
     map_of (rev ads) STUN_ATTRIBUTE_USERNAME = (if user \<noteq> [] then Some user else None) \<and> c_string user = user \<and> length user \<le> 64)"

definition short_term_outcome :: "(bytes \<Rightarrow> bytes \<Rightarrow> bytes) \<Rightarrow> bytes \<Rightarrow> bytes \<Rightarrow> bytes \<Rightarrow> auth_outcome" where
  "short_term_outcome hmac key user c = (case password_of user of
     None \<Rightarrow> Refused STUN_ERROR_UNAUTHORIZED [] []
   | Some pw \<Rightarrow> if hmac pw (take (length c - 24) c) = hmac key (take (length c - 24) c) then Accepted (Some pw)
                else Refused STUN_ERROR_UNAUTHORIZED [] [])"

lemma short_decision:
  assumes s: "signed_request hmac key user ads c" and p: "parsed r c"
  shows "auth_decision hmac md5 r (Some ShortTerm_DoAuthCheck) = short_term_outcome hmac key user c"
proof -
  obtain l tid v where w: "length tid = 16" "values_ok l (ads @ [(STUN_ATTRIBUTE_MESSAGEINTEGRITY, v)])"
    "c = msg_wire l StunMsgTypeBinding StunMsgClassRequest tid (ads @ [(STUN_ATTRIBUTE_MESSAGEINTEGRITY, v)])" "length v = 20"
    "v = hmac key (take (length c - 24) c)" "map_of (rev ads) STUN_ATTRIBUTE_USERNAME = (if user \<noteq> [] then Some user else None)"
    "c_string user = user" "length user \<le> 64"
    using s unfolding signed_request_def Let_def by blast
  note lv = last_value_msg_wire [OF w(1,2), of StunMsgTypeBinding StunMsgClassRequest, folded w(3)]
  have "last_value c STUN_ATTRIBUTE_USERNAME = map_option (wire_value l) (if user \<noteq> [] then Some user else None)"
    using lv w(6) by (simp add: stun_consts)
  then have user: "c_string (string_attribute r STUN_ATTRIBUTE_USERNAME) = user"
    using string_attribute_value [OF p _ w(7,8)] by blast
  have "last_value c STUN_ATTRIBUTE_MESSAGEINTEGRITY \<noteq> None"
    using lv by simp
  then have mi: "MR_HasMessageIntegrityAttribute r"
    using parsed_lookup(2) [OF p] by (fastforce simp: MR_HasMessageIntegrityAttribute_def)
  have "wire_value l v = v"
    using w(4) by (intro wire_value_aligned) simp
  then have vals: "msg_values c = map (\<lambda>(t, d). (t, wire_value l d)) ads @ [(STUN_ATTRIBUTE_MESSAGEINTEGRITY, v)]"
    using msg_wire_valid(2) [OF w(1,2), of True] w(3) by simp
  have "pw \<noteq> [] \<Longrightarrow> MR_ValidateMessageIntegrity hmac r (Some pw) = (if hmac pw (take (length c - 24) c) = v then S_OK else E_FAIL)" for pw
    by (rule Validate_last [OF p vals w(4)])
  then show ?thesis
    using password_of_text [of user] w(5)
    by (auto simp: auth_decision_def short_check short_term_outcome_def request_auth_attributes_def user mi terminated_response_def
        request_key_def split: option.split)
qed

lemma signed_class:
  assumes s: "signed_request hmac key user ads c" and p: "parsed r c"
  shows "MR_GetMessageClass r = StunMsgClassRequest"
proof -
  obtain l tid ads' where w: "length tid = 16" "values_ok l ads'" "c = msg_wire l StunMsgTypeBinding StunMsgClassRequest tid ads'"
    using s unfolding signed_request_def Let_def by blast
  have "parsed (feed MR_init [c]) c" "MR_GetMessageClass (feed MR_init [c]) = StunMsgClassRequest"
    using built_parsed [OF w(1,2), of "[c]" StunMsgTypeBinding StunMsgClassRequest] w(3) by simp_all
  then show ?thesis
    using parsed_twins(8) [OF p] by metis
qed

text \<open>C25: with the provider for short-term credentials, a binding request that a client signed with a key is
  answered by its user name: an unknown user gets the error 401, a known one the binding response, with an
  integrity attribute under the user's password, exactly when the signature is the one of that password.
  Requests that are refused whoever sends them, and those that ask for a socket that is not there, are left out.\<close>

theorem short_term_requests:
  assumes "call_ok c msgIn msgOut addrs" "signed_request hmac key user ads c" "hmac_ok hmac" "md5_ok md5"
    and "\<not> request_refused msgIn" "output_role msgIn addrs = Some s"
  shows "\<exists>out. ProcessRequest hmac md5 msgIn msgOut (Some addrs) (Some ShortTerm_DoAuthCheck) = (S_OK, out) \<and>
    sends_reply hmac msgIn (case password_of user of
        None \<Rightarrow> ErrorReply STUN_ERROR_UNAUTHORIZED [] []
      | Some pw \<Rightarrow> if hmac pw (take (length c - 24) c) = hmac key (take (length c - 24) c) then BindingReply s (Some pw)
                   else ErrorReply STUN_ERROR_UNAUTHORIZED [] []) out"
proof -
  obtain r where r: "mi_pReader msgIn = Some r" "parsed r c"
    using assms(1) by (auto simp: call_ok_def)
  have "MR_GetMessageClass r = StunMsgClassRequest"
    using signed_class [OF assms(2) r(2)] .
  then have "\<exists>out. ProcessRequest hmac md5 msgIn msgOut (Some addrs) (Some ShortTerm_DoAuthCheck) = (S_OK, out) \<and>
      sends_reply hmac msgIn (reply_spec hmac md5 msgIn addrs (Some ShortTerm_DoAuthCheck)) out"
    using ProcessRequest_request [OF assms(1)] reply_sent [OF assms(1,3,4)] r(1) by simp
  moreover have "reply_spec hmac md5 msgIn addrs (Some ShortTerm_DoAuthCheck) = (case password_of user of
        None \<Rightarrow> ErrorReply STUN_ERROR_UNAUTHORIZED [] []
      | Some pw \<Rightarrow> if hmac pw (take (length c - 24) c) = hmac key (take (length c - 24) c) then BindingReply s (Some pw)
                   else ErrorReply STUN_ERROR_UNAUTHORIZED [] [])"
    using assms(5,6) short_decision [OF assms(2) r(2)] r(1)
    by (cases "password_of user") (simp_all add: reply_spec_def short_term_outcome_def)
  ultimately show ?thesis
    by simp
qed

definition signed_attrs :: "(u16 \<times> bytes) list" where
  "signed_attrs = [(STUN_ATTRIBUTE_USERNAME, chars_of ''bruce''), (STUN_ATTRIBUTE_MESSAGEINTEGRITY, zero_bytes 20)]"

definition signed_message :: bytes where
  "signed_message = msg_wire False StunMsgTypeBinding StunMsgClassRequest example_tid signed_attrs"

definition signed_in :: StunMessageIn where
  "signed_in = \<lparr>mi_socketrole = RolePP, mi_addrLocal = CSocketAddress_ipv4 0x0A000001 3478,
     mi_addrRemote = CSocketAddress_ipv4 0x0A000002 5000, mi_pReader = Some (feed MR_init [signed_message]),
     mi_fConnectionOriented = True\<rparr>"

definition signed_out :: StunMessageOut where
  "signed_out = \<lparr>mo_socketrole = RolePP, mo_addrDest = CSocketAddress_default, mo_spBufferOut = Some (CB_new 1500)\<rparr>"

lemma signed_ok: "values_ok False signed_attrs" "chars_of ''bruce'' = [98, 114, 117, 99, 101]"
  by (simp_all add: signed_attrs_def chars_of_def values_ok_def attrs_wire_def length_attr_wire wire_value_def padding_of_def stun_consts)

lemma signed_message_ok: "signed_request example_hmac (chars_of ''AcesHigh'') (chars_of ''bruce'') [(STUN_ATTRIBUTE_USERNAME, chars_of ''bruce'')] signed_message"
  unfolding signed_request_def Let_def
  by (rule exI [of _ False], rule exI [of _ example_tid], rule exI [of _ "zero_bytes 20"])
    (use example_ok(1) signed_ok in \<open>simp_all add: signed_message_def signed_attrs_def example_hmac_def c_string_def\<close>)

lemma signed_parsed: "parsed (feed MR_init [signed_message]) signed_message" "MR_GetMessageType (feed MR_init [signed_message]) = StunMsgTypeBinding"
  using built_parsed [OF example_ok(1) signed_ok(1), of "[signed_message]" StunMsgTypeBinding StunMsgClassRequest]
  by (simp_all add: signed_message_def stun_consts)

lemma signed_lookup:
  "t \<noteq> STUN_ATTRIBUTE_USERNAME \<Longrightarrow> t \<noteq> STUN_ATTRIBUTE_MESSAGEINTEGRITY \<Longrightarrow> MR_Lookup (feed MR_init [signed_message]) t = None"
  using last_value_msg_wire [OF example_ok(1) signed_ok(1), of StunMsgTypeBinding StunMsgClassRequest t] parsed_lookup(1) [OF signed_parsed(1)]
  by (simp add: signed_message_def signed_attrs_def)

lemma signed_decisions:
  "response_port (feed MR_init [signed_message]) = 0" "change_asked (feed MR_init [signed_message]) = (False, False)"
  using signed_lookup [of STUN_ATTRIBUTE_RESPONSE_PORT] signed_lookup [of STUN_ATTRIBUTE_CHANGEREQUEST]
  by (simp_all add: response_port_def MR_GetResponsePort_def change_asked_def MR_GetChangeRequest_def Let_def stun_consts)

lemma signed_call: "call_ok signed_message signed_in signed_out (\<lambda>_. \<lparr>ta_addr = CSocketAddress_ipv4 0x0A000001 3478, ta_fValid = True\<rparr>)"
  using signed_parsed(1) by (simp add: call_ok_def signed_in_def signed_out_def addrs_ok_def stun_consts)

theorem short_term_requests_witness:
  "\<exists>out. ProcessRequest example_hmac example_md5 signed_in signed_out
      (Some (\<lambda>_. \<lparr>ta_addr = CSocketAddress_ipv4 0x0A000001 3478, ta_fValid = True\<rparr>)) (Some ShortTerm_DoAuthCheck) = (S_OK, out) \<and>
    sends_reply example_hmac signed_in (BindingReply RolePP (Some (chars_of ''AcesHigh''))) out"
proof -
  have "password_of (chars_of ''bruce'') = Some (chars_of ''AcesHigh'')"
    by (simp add: password_of_def users_def passwords_def)
  moreover have "\<not> request_refused signed_in" "output_role signed_in addrs = Some RolePP" for addrs
    using signed_decisions signed_parsed(2) by (simp_all add: request_refused_def output_role_def changed_role_def signed_in_def)
  ultimately show ?thesis
    using short_term_requests [OF signed_call signed_message_ok example_hash_ok] by simp
qed

section \<open>Long-term credentials are never accepted\<close>

lemma unsigned_text_digits: "list_all text_digit (unsigned_text n)"
proof (induction n rule: unsigned_text.induct)
  case (1 n)
  have d: "text_digit (of_nat (48 + k))" if "k < 10" for k
    using that by (simp add: text_digit_def word_le_nat_alt unat_of_nat del: of_nat_add)
  show ?case
    using 1 d [of n] d [of "n mod 10"] by (subst unsigned_text.simps) (simp del: of_nat_add)
qed

lemma unsigned_text_length: "n < 10 ^ Suc k \<Longrightarrow> length (unsigned_text n) \<le> Suc k"
proof (induction k arbitrary: n)
  case (Suc k)
  show ?case
  proof (cases "n < 10")
    case False
    have "n div 10 < 10 ^ Suc k"
      using Suc.prems by (simp add: less_mult_imp_div_less)
    with Suc.IH show ?thesis
      using False by (subst unsigned_text.simps) simp
  qed (subst unsigned_text.simps, simp)
qed (subst unsigned_text.simps, simp)

lemma hex_digit_inj: "j < 16 \<Longrightarrow> k < 16 \<Longrightarrow> hex_digit j = hex_digit k \<longleftrightarrow> j = k"
  by (auto simp: hex_digit_def word_unat_eq_iff unat_of_nat simp del: of_nat_add split: if_splits)

lemma hex_digit_nonzero: "k < 16 \<Longrightarrow> hex_digit k \<noteq> 0"
  by (auto simp: hex_digit_def word_unat_eq_iff unat_of_nat simp del: of_nat_add)

lemma hex_halves: "unat b div 16 < 16" "unat b mod 16 < 16" for b :: byte
proof -
  have "unat b < 2 ^ 8"
    using unsigned_less [of b] by simp
  then show "unat b div 16 < 16" "unat b mod 16 < 16"
    by (simp_all add: less_mult_imp_div_less)
qed

lemma HmacToString_simps:
  fixes xs ys :: bytes
  shows "concat (map (\<lambda>b. [hex_digit (unat b div 16), hex_digit (unat b mod 16)]) xs) =
   concat (map (\<lambda>b. [hex_digit (unat b div 16), hex_digit (unat b mod 16)]) ys) \<longleftrightarrow> xs = ys"
proof (induction xs arbitrary: ys)
  case Nil
  then show ?case
    by (cases ys) auto
next
  case (Cons x xs)
  show ?case
  proof (cases ys)
    case (Cons y zs)
    have "unat x div 16 = unat y div 16 \<and> unat x mod 16 = unat y mod 16 \<longleftrightarrow> x = y"
      by (metis div_mult_mod_eq word_unat_eq_iff)
    then show ?thesis
      using Cons Cons.IH [of zs] hex_digit_inj [OF hex_halves(1) hex_halves(1), of x y] hex_digit_inj [OF hex_halves(2) hex_halves(2), of x y]
      by auto
  qed simp
qed

lemma HmacToString_text:
  assumes "length h = 20"
  shows "length (HmacToString h) = 40" "0 \<notin> set (HmacToString h)"
proof -
  have "length (concat (map (\<lambda>b. [f b, g b]) xs)) = 2 * length xs" for f g :: "byte \<Rightarrow> byte" and xs
    by (induction xs) auto
  then show "length (HmacToString h) = 40"
    using assms by (simp add: HmacToString_def)
  show "0 \<notin> set (HmacToString h)"
    using hex_digit_nonzero [OF hex_halves(1)] hex_digit_nonzero [OF hex_halves(2)]
    by (auto simp: HmacToString_def)
qed

text \<open>The nonce fits into its array.\<close>

lemma CreateNonce_text:
  assumes "hmac_ok hmac"
  shows "length (CreateNonce hmac t) \<le> 51" "0 \<notin> set (CreateNonce hmac t)" "terminated (CreateNonce hmac t) = CreateNonce hmac t"
proof -
  let ?n = "nat (t mod 2 ^ 32)"
  have "?n < 10 ^ Suc 9"
    using pos_mod_bound [of "2 ^ 32" t] by (simp add: nat_less_iff)
  then have l: "length (unsigned_text ?n) \<le> 10"
    using unsigned_text_length by fastforce
  have z: "0 \<notin> set (unsigned_text ?n)"
    using unsigned_text_digits [of ?n] by (auto simp: list_all_iff text_digit_def)
  have h: "length (hmac k m) = 20" for k m
    using assms by (simp add: hmac_ok_def)
  show le: "length (CreateNonce hmac t) \<le> 51" and nz: "0 \<notin> set (CreateNonce hmac t)"
    using l z HmacToString_text [OF h] by (simp_all add: CreateNonce_def Let_def chars_of_def)
  then show "terminated (CreateNonce hmac t) = CreateNonce hmac t"
    by (simp add: terminated_def c_string_def takeWhile_eq_all_conv MAX_STUN_AUTH_STRING_SIZE_def) metis
qed

text \<open>A nonce of the server is not valid: its signature covers the colon, the one that is checked does not.\<close>

lemma created_nonce_invalid:
  fixes t :: int
  defines "x \<equiv> unsigned_text (nat (t mod 2 ^ 32))"
  assumes "hmac_ok hmac" "hmac c_szPrivateKey (x @ chars_of '':'') \<noteq> hmac c_szPrivateKey x"
  shows "ValidateNonce hmac u now (CreateNonce hmac t) = E_FAIL"
proof -
  have colon: "\<forall>d \<in> set x. d \<noteq> 58"
    using unsigned_text_digits [of "nat (t mod 2 ^ 32)"] by (auto simp: list_all_iff text_digit_def x_def)
  have c: "CreateNonce hmac t = x @ 58 # HmacToString (hmac c_szPrivateKey (x @ [58]))"
    by (simp add: CreateNonce_def Let_def chars_of_def x_def)
  have "HmacToString (hmac c_szPrivateKey x) \<noteq> HmacToString (hmac c_szPrivateKey (x @ [58]))"
    using assms(2,3) by (simp add: HmacToString_def HmacToString_simps hmac_ok_def chars_of_def)
  moreover have "takeWhile (\<lambda>d. d \<noteq> 58) (x @ 58 # y) = x" "dropWhile (\<lambda>d. d \<noteq> 58) (x @ 58 # y) = 58 # y" for y :: bytes
    using colon by (simp_all add: takeWhile_append2 dropWhile_append2)
  moreover have "take 99 (CreateNonce hmac t) = CreateNonce hmac t"
    using CreateNonce_text(1) [OF assms(2), of t] by simp
  ultimately show ?thesis
    by (simp add: ValidateNonce_def Let_def c)
qed

text \<open>Only a nonce that is the realm gets past the search for the password, and it is no valid nonce.\<close>

definition takes_realm_for_nonce :: "CStunMessageReader \<Rightarrow> bool" where
  "takes_realm_for_nonce r \<longleftrightarrow> MR_HasMessageIntegrityAttribute r \<and>
     c_string (string_attribute r STUN_ATTRIBUTE_NONCE) = c_szRealm \<and> password_of (c_string (string_attribute r STUN_ATTRIBUTE_USERNAME)) \<noteq> None"

lemma realm_is_no_nonce: "ValidateNonce hmac u now c_szRealm = E_FAIL"
  by (simp add: ValidateNonce_def c_szRealm_def chars_of_def)

lemma realm_text: "c_szRealm \<noteq> []" "terminated c_szRealm = c_szRealm" "password_of [] = None"
  by (simp_all add: c_szRealm_def chars_of_def terminated_def c_string_def stun_consts password_of_def users_def passwords_def)

lemma long_decision:
  assumes "hmac_ok hmac"
  shows "auth_decision hmac md5 r (Some (LongTerm_DoAuthCheck hmac u now)) =
    Refused (if takes_realm_for_nonce r then STUN_ERROR_STALENONCE else STUN_ERROR_UNAUTHORIZED) (CreateNonce hmac (fst now)) c_szRealm"
  using realm_is_no_nonce [of hmac u "snd now"] realm_text CreateNonce_text(3) [OF assms, of "fst now"]
  by (auto simp: auth_decision_def LongTerm_DoAuthCheck_def LookupPassword_eq request_auth_attributes_def Let_def
      terminated_response_def takes_realm_for_nonce_def split: option.split)

text \<open>C26: with the provider for long-term credentials no request is ever granted, whoever sends it: a malformed one
  gets the error 400, every other one an error with a new nonce and the realm, because the search for the password compares the realm
  with the client's nonce. The error is 438 for a client that sends the realm as its nonce, else 401.\<close>

theorem long_term_refuses_everyone:
  assumes "call_ok c msgIn msgOut addrs" "MR_GetMessageClass (the (mi_pReader msgIn)) = StunMsgClassRequest" "hmac_ok hmac" "md5_ok md5"
  shows "\<exists>out. ProcessRequest hmac md5 msgIn msgOut (Some addrs) (Some (LongTerm_DoAuthCheck hmac u now)) = (S_OK, out) \<and>
    sends_reply hmac msgIn (if request_refused msgIn then ErrorReply STUN_ERROR_BADREQUEST [] []
      else ErrorReply (if takes_realm_for_nonce (the (mi_pReader msgIn)) then STUN_ERROR_STALENONCE else STUN_ERROR_UNAUTHORIZED)
             (CreateNonce hmac (fst now)) c_szRealm) out"
  using ProcessRequest_request [OF assms(1,2)] reply_sent [OF assms(1,3,4), of "Some (LongTerm_DoAuthCheck hmac u now)"]
  by (simp add: reply_spec_def long_decision [OF assms(3)] cong: if_cong)

theorem long_term_refuses_everyone_witness:
  "\<exists>out. ProcessRequest example_hmac example_md5 signed_in signed_out
      (Some (\<lambda>_. \<lparr>ta_addr = CSocketAddress_ipv4 0x0A000001 3478, ta_fValid = True\<rparr>)) (Some (LongTerm_DoAuthCheck example_hmac (\<lambda>_. 0) (5, 5))) = (S_OK, out) \<and>
    sends_reply example_hmac signed_in (ErrorReply STUN_ERROR_UNAUTHORIZED (CreateNonce example_hmac 5) c_szRealm) out"
proof -
  have "MR_GetMessageClass (the (mi_pReader signed_in)) = StunMsgClassRequest"
    using signed_class [OF signed_message_ok signed_parsed(1)] by (simp add: signed_in_def)
  moreover have "\<not> request_refused signed_in"
    using signed_decisions signed_parsed(2) by (simp add: request_refused_def signed_in_def)
  moreover have "\<not> takes_realm_for_nonce (the (mi_pReader signed_in))"
    using signed_lookup [of STUN_ATTRIBUTE_NONCE]
    by (simp add: takes_realm_for_nonce_def signed_in_def string_attribute_def MR_GetStringAttributeByType_def c_string_def realm_text(1) [symmetric] stun_consts)
  ultimately show ?thesis
    using long_term_refuses_everyone [OF signed_call _ example_hash_ok, of "\<lambda>_. 0" "(5, 5)"] by simp
qed

end
