(* ===== verification/StunSocket.thy ===== *)
theory StunSocket imports StunAddress begin

text \<open>
  \<open>CStunSocket\<close> (networkutils/stunsocket.h, stunsocket.cpp) and \<open>recvfromex\<close>
  (networkutils/recvfromex.cpp).  What the system calls answer is an argument; the descriptors that
  the process holds open are a list that the operations pass along, so that leaks can be told.  The
  options for packet information are those of Linux.
\<close>

section \<open>CStunSocket\<close>

record CStunSocket =
  sk_sock :: int
  sk_addrlocal :: CSocketAddress
  sk_addrremote :: CSocketAddress
  sk_role :: SocketRole

type_synonym descriptors = "int list"

text \<open>The answers of the system calls on one descriptor, from \<open>socket\<close> on.\<close>

record SocketCalls =
  sc_socket :: int
  sc_setsockopt :: int
  sc_bind :: int
  sc_getsockname :: "CSocketAddress option"
  sc_getpeername :: "CSocketAddress option"
  sc_pktinfo1 :: int
  sc_pktinfo2 :: int
  sc_getfl :: int
  sc_setfl :: int
  sc_errno :: u32

definition CStunSocket_new :: CStunSocket where
  "CStunSocket_new = \<lparr>sk_sock = -1, sk_addrlocal = CSocketAddress_default, sk_addrremote = CSocketAddress_default,
     sk_role = RolePP\<rparr>"

definition Socket_Reset :: "CStunSocket \<Rightarrow> CStunSocket" where
  "Socket_Reset s = s\<lparr>sk_sock := -1, sk_addrlocal := CSocketAddress_ipv4 0 0, sk_addrremote := CSocketAddress_ipv4 0 0,
     sk_role := RolePP\<rparr>"

definition Socket_Close :: "descriptors \<times> CStunSocket \<Rightarrow> descriptors \<times> CStunSocket" where
  "Socket_Close = (\<lambda>(fds, s).
     let (fds, s) = (if sk_sock s \<noteq> -1 then (remove1 (sk_sock s) fds, s\<lparr>sk_sock := -1\<rparr>) else (fds, s)) in
     (fds, Socket_Reset s))"

definition Socket_IsValid :: "CStunSocket \<Rightarrow> bool" where
  "Socket_IsValid s \<longleftrightarrow> sk_sock s \<noteq> -1"

definition UpdateAddresses :: "SocketCalls \<Rightarrow> CStunSocket \<Rightarrow> CStunSocket" where
  "UpdateAddresses os s =
     (if sk_sock s = -1 then s else
      let s = (case sc_getsockname os of Some a \<Rightarrow> s\<lparr>sk_addrlocal := a\<rparr> | None \<Rightarrow> s) in
      case sc_getpeername os of Some a \<Rightarrow> s\<lparr>sk_addrremote := a\<rparr> | None \<Rightarrow> s)"

definition Socket_Attach :: "SocketCalls \<Rightarrow> descriptors \<times> CStunSocket \<Rightarrow> int \<Rightarrow> hresult \<times> descriptors \<times> CStunSocket" where
  "Socket_Attach os = (\<lambda>(fds, s) sock.
     if sock = -1 then (E_INVALIDARG, fds, s)
     else let (fds, s) = (if sock \<noteq> sk_sock s
                then (let (fds, s) = Socket_Close (fds, s) in (fds, s\<lparr>sk_sock := sock\<rparr>)) else (fds, s)) in
       (S_OK, fds, UpdateAddresses os s))"

definition Socket_Detach :: "CStunSocket \<Rightarrow> int \<times> CStunSocket" where
  "Socket_Detach s = (sk_sock s, Socket_Reset s)"

definition SetRole :: "CStunSocket \<Rightarrow> SocketRole \<Rightarrow> CStunSocket" where
  "SetRole s role = s\<lparr>sk_role := role\<rparr>"

text \<open>A code from \<open>errno\<close>; \<open>ERRNOHR\<close> applies the conversion to what is converted already.\<close>

definition ERRNO_TO_HRESULT :: "u32 \<Rightarrow> hresult" where
  "ERRNO_TO_HRESULT err = 0x80000000 OR 0x08000000 OR err"

definition ERRNOHR :: "SocketCalls \<Rightarrow> hresult" where
  "ERRNOHR os = ERRNO_TO_HRESULT (ERRNO_TO_HRESULT (sc_errno os))"

lemma ERRNO_failed [simp]: "FAILED (ERRNO_TO_HRESULT e)"
  using bit_last_iff [of "ERRNO_TO_HRESULT e"] by (simp add: FAILED_def ERRNO_TO_HRESULT_def bit_simps)

lemma ERRNOHR_failed [simp]: "FAILED (ERRNOHR os)"
  by (simp add: ERRNOHR_def)

definition EnablePktInfoImpl :: "SocketCalls \<Rightarrow> bool \<Rightarrow> bool \<Rightarrow> hresult" where
  "EnablePktInfoImpl os hasOption1 hasOption2 =
     (if \<not> hasOption1 \<and> \<not> hasOption2 then E_FAIL
      else let ret = (if hasOption1 then sc_pktinfo1 os else -1);
               ret = (if ret < 0 \<and> hasOption2 then sc_pktinfo2 os else ret) in
        if ret < 0 then ERRNOHR os else S_OK)"

definition EnablePktInfo_IPV4 :: "SocketCalls \<Rightarrow> hresult" where
  "EnablePktInfo_IPV4 os = EnablePktInfoImpl os True False"

definition EnablePktInfo_IPV6 :: "SocketCalls \<Rightarrow> hresult" where
  "EnablePktInfo_IPV6 os = EnablePktInfoImpl os True True"

definition EnablePktInfoOption :: "SocketCalls \<Rightarrow> CStunSocket \<Rightarrow> hresult" where
  "EnablePktInfoOption os s =
     (if GetFamily (sk_addrlocal s) = AF_INET then EnablePktInfo_IPV4 os else EnablePktInfo_IPV6 os)"

definition SetNonBlocking :: "SocketCalls \<Rightarrow> hresult" where
  "SetNonBlocking os =
     (if sc_getfl os = -1 then ERRNOHR os else if sc_setfl os = -1 then ERRNOHR os else S_OK)"

text \<open>The local descriptor is closed on every way out but the last, which has handed it over.\<close>

definition InitCommon :: "SocketCalls \<Rightarrow> descriptors \<times> CStunSocket \<Rightarrow> CSocketAddress \<Rightarrow> SocketRole \<Rightarrow> bool
    \<Rightarrow> hresult \<times> descriptors \<times> CStunSocket" where
  "InitCommon os = (\<lambda>(fds, s) addrlocal role fSetReuseFlag.
     let sock = sc_socket os in
     if sock < 0 then (ERRNOHR os, if sock \<noteq> -1 then remove1 sock fds else fds, s)
     else let fds = sock # fds in
       if fSetReuseFlag \<and> sc_setsockopt os = -1 then (ERRNOHR os, remove1 sock fds, s)
       else if sc_bind os = -1 then (ERRNOHR os, remove1 sock fds, s)
       else let (_, fds, s) = Socket_Attach os (fds, s) sock in (S_OK, fds, SetRole s role))"

definition UDPInit :: "SocketCalls \<Rightarrow> descriptors \<times> CStunSocket \<Rightarrow> CSocketAddress \<Rightarrow> SocketRole \<Rightarrow> bool
    \<Rightarrow> hresult \<times> descriptors \<times> CStunSocket" where
  "UDPInit os s addrlocal role fSetReuseFlag = InitCommon os s addrlocal role fSetReuseFlag"

definition TCPInit :: "SocketCalls \<Rightarrow> descriptors \<times> CStunSocket \<Rightarrow> CSocketAddress \<Rightarrow> SocketRole \<Rightarrow> bool
    \<Rightarrow> hresult \<times> descriptors \<times> CStunSocket" where
  "TCPInit os s addrlocal role fSetReuseFlag = InitCommon os s addrlocal role fSetReuseFlag"

section \<open>recvfromex\<close>

text \<open>What \<open>recvmsg\<close> delivers: an error, or the data, the sender, and the packet information.\<close>

type_synonym recv_result = "(bytes \<times> CSocketAddress \<times> CSocketAddress option) option"

definition InitSocketAddress :: "u16 \<Rightarrow> CSocketAddress \<Rightarrow> CSocketAddress" where
  "InitSocketAddress family pAddr =
     (if family = AF_INET then CommonConstructor CSocketAddress_default
      else if family = AF_INET6 then CSocketAddress_in6 (sockaddr_in6 (zero_bytes 2) (zero_bytes 16))
      else pAddr)"

definition recvfromex :: "recv_result \<Rightarrow> cbuffer \<Rightarrow> CSocketAddress \<Rightarrow> CSocketAddress
    \<Rightarrow> int \<times> cbuffer \<times> CSocketAddress \<times> CSocketAddress" where
  "recvfromex msg buf srcAddr dstAddr = (case msg of
     None \<Rightarrow> (-1, buf, srcAddr, dstAddr)
   | Some (d, addrRemote, pktinfo) \<Rightarrow>
       let d = take (cb_allocated buf) d; ret = int (length d);
           buf = buf\<lparr>cb_data := map_option (\<lambda>old. d @ drop (length d) old) (cb_data buf)\<rparr> in
       if ret > 0
       then (ret, buf, addrRemote,
             case pktinfo of Some a \<Rightarrow> a | None \<Rightarrow> InitSocketAddress (sa_family addrRemote) dstAddr)
       else (ret, buf, srcAddr, dstAddr))"

end
