(* ===== verification/StunPolling.thy ===== *)
theory StunPolling imports StunSocket StunHash begin

text \<open>
  The wrappers of \<open>epoll\<close> and \<open>poll\<close> (networkutils/polling.h, polling.cpp): the objects that the TCP
  server waits with.  What the system calls answer is an argument, with the flags of Linux.  The kernel's
  list of the descriptors that \<open>epoll\<close> watches is kept next to the members of \<open>CEpoll\<close>, as
  \<open>epoll_ctl\<close> is documented to change it.  The contract \<open>poll_set\<close> states what the thread
  relies on: which descriptors are watched, and for what.
\<close>

unbundle bit_operations_syntax

section \<open>Events\<close>

record PollEvent =
  pe_fd :: int
  pe_eventflags :: u32

definition IPOLLING_READ :: u32 where "IPOLLING_READ = 1"
definition IPOLLING_WRITE :: u32 where "IPOLLING_WRITE = 2"
definition IPOLLING_EDGETRIGGER :: u32 where "IPOLLING_EDGETRIGGER = 4"
definition IPOLLING_RDHUP :: u32 where "IPOLLING_RDHUP = 8"
definition IPOLLING_HUP :: u32 where "IPOLLING_HUP = 16"
definition IPOLLING_PRI :: u32 where "IPOLLING_PRI = 32"
definition IPOLLING_ERROR :: u32 where "IPOLLING_ERROR = 64"
definition IPOLLING_TYPE_BEST :: u32 where "IPOLLING_TYPE_BEST = 1"
definition IPOLLING_TYPE_EPOLL :: u32 where "IPOLLING_TYPE_EPOLL = 2"
definition IPOLLING_TYPE_POLL :: u32 where "IPOLLING_TYPE_POLL = 4"

lemmas polling_consts = IPOLLING_READ_def IPOLLING_WRITE_def IPOLLING_EDGETRIGGER_def IPOLLING_RDHUP_def
  IPOLLING_HUP_def IPOLLING_PRI_def IPOLLING_ERROR_def IPOLLING_TYPE_BEST_def IPOLLING_TYPE_EPOLL_def
  IPOLLING_TYPE_POLL_def

text \<open>One line of the tables that \<open>ToNativeFlags\<close> and \<open>FromNativeFlags\<close> are.\<close>

definition flag_if :: "u32 \<Rightarrow> u32 \<Rightarrow> u32 \<Rightarrow> u32 \<Rightarrow> u32" where
  "flag_if eventflags test set_flag result = (if eventflags AND test \<noteq> 0 then result OR set_flag else result)"

section \<open>CEpoll\<close>

text \<open>\<open>_events\<close> is \<open>None\<close> for the null pointer; its cells hold the descriptor and the native flags.\<close>

record CEpoll =
  ce_epollfd :: int
  ce_events :: "(int \<times> u32) list option"
  ce_sizeEvents :: nat
  ce_pendingCount :: nat
  ce_currentEventIndex :: nat
  ce_watched :: "int \<rightharpoonup> u32"

definition CEpoll_new :: CEpoll where
  "CEpoll_new = \<lparr>ce_epollfd = -1, ce_events = None, ce_sizeEvents = 0, ce_pendingCount = 0, ce_currentEventIndex = 0,
     ce_watched = Map.empty\<rparr>"

definition CEpoll_ToNativeFlags :: "u32 \<Rightarrow> u32" where
  "CEpoll_ToNativeFlags eventflags =
     (let result = 0;
          result = flag_if eventflags IPOLLING_READ 0x001 result;
          result = flag_if eventflags IPOLLING_WRITE 0x004 result;
          result = flag_if eventflags IPOLLING_EDGETRIGGER 0x80000000 result;
          result = flag_if eventflags IPOLLING_RDHUP 0x2000 result;
          result = flag_if eventflags IPOLLING_HUP 0x010 result;
          result = flag_if eventflags IPOLLING_PRI 0x002 result in
      flag_if eventflags IPOLLING_ERROR 0x008 result)"

definition CEpoll_FromNativeFlags :: "u32 \<Rightarrow> u32" where
  "CEpoll_FromNativeFlags eventflags =
     (let result = 0;
          result = flag_if eventflags 0x001 IPOLLING_READ result;
          result = flag_if eventflags 0x004 IPOLLING_WRITE result;
          result = flag_if eventflags 0x80000000 IPOLLING_EDGETRIGGER result;
          result = flag_if eventflags 0x2000 IPOLLING_RDHUP result;
          result = flag_if eventflags 0x010 IPOLLING_HUP result;
          result = flag_if eventflags 0x002 IPOLLING_PRI result in
      flag_if eventflags 0x008 IPOLLING_ERROR result)"

definition CEpoll_Close :: "descriptors \<times> CEpoll \<Rightarrow> hresult \<times> descriptors \<times> CEpoll" where
  "CEpoll_Close = (\<lambda>(fds, e).
     let (fds, e) = (if ce_epollfd e \<noteq> -1
            then (remove1 (ce_epollfd e) fds, e\<lparr>ce_epollfd := -1, ce_watched := Map.empty\<rparr>) else (fds, e)) in
     (S_OK, fds, e\<lparr>ce_events := None, ce_sizeEvents := 0, ce_pendingCount := 0, ce_currentEventIndex := 0\<rparr>))"

text \<open>
  The code returns \<open>S_OK\<close> whatever happened.  The contents of the new array are \<open>mem\<close>.
\<close>

definition CEpoll_Initialize :: "int \<Rightarrow> (nat \<Rightarrow> int \<times> u32) \<Rightarrow> descriptors \<times> CEpoll \<Rightarrow> nat
    \<Rightarrow> hresult \<times> descriptors \<times> CEpoll" where
  "CEpoll_Initialize epoll_create mem w maxSockets =
     (let (_, fds, e) = CEpoll_Close w;
          e = e\<lparr>ce_epollfd := epoll_create\<rparr>;
          fds = (if epoll_create \<noteq> -1 then epoll_create # fds else fds) in
      if epoll_create = -1 then (let (_, w) = CEpoll_Close (fds, e) in (S_OK, w))
      else (S_OK, fds, e\<lparr>ce_sizeEvents := maxSockets, ce_events := Some (map mem [0..<maxSockets]),
              ce_pendingCount := 0, ce_currentEventIndex := 0\<rparr>))"

text \<open>\<open>epoll_ctl\<close> answers \<open>ctl\<close>.  \<open>ERRNOHR\<close> converts twice.\<close>

definition ERRNOHR_of :: "u32 \<Rightarrow> hresult" where
  "ERRNOHR_of errno = ERRNO_TO_HRESULT (ERRNO_TO_HRESULT errno)"

lemma ERRNOHR_of_failed [simp]: "FAILED (ERRNOHR_of errno)"
  by (simp add: ERRNOHR_of_def)

definition CEpoll_Add :: "int \<Rightarrow> u32 \<Rightarrow> CEpoll \<Rightarrow> int \<Rightarrow> u32 \<Rightarrow> hresult \<times> CEpoll" where
  "CEpoll_Add ctl errno e fd eventflags =
     (if fd = -1 then (E_INVALIDARG, e)
      else if ce_epollfd e = -1 then (E_UNEXPECTED, e)
      else if ctl = -1 then (ERRNOHR_of errno, e)
      else (S_OK, e\<lparr>ce_watched := (ce_watched e)(fd \<mapsto> CEpoll_ToNativeFlags eventflags)\<rparr>))"

definition CEpoll_Remove :: "int \<Rightarrow> u32 \<Rightarrow> CEpoll \<Rightarrow> int \<Rightarrow> hresult \<times> CEpoll" where
  "CEpoll_Remove ctl errno e fd =
     (if fd = -1 then (E_INVALIDARG, e)
      else if ce_epollfd e = -1 then (E_UNEXPECTED, e)
      else if ctl = -1 then (ERRNOHR_of errno, e)
      else (S_OK, e\<lparr>ce_watched := (ce_watched e)(fd := None)\<rparr>))"

definition CEpoll_ChangeEventSet :: "int \<Rightarrow> u32 \<Rightarrow> CEpoll \<Rightarrow> int \<Rightarrow> u32 \<Rightarrow> hresult \<times> CEpoll" where
  "CEpoll_ChangeEventSet ctl errno e fd eventflags =
     (if fd = -1 then (E_INVALIDARG, e)
      else if ce_epollfd e = -1 then (E_UNEXPECTED, e)
      else if ctl = -1 then (ERRNOHR_of errno, e)
      else (S_OK, e\<lparr>ce_watched := (ce_watched e)(fd \<mapsto> CEpoll_ToNativeFlags eventflags)\<rparr>))"

text \<open>
  \<open>epoll_wait\<close> answers an error, or the events that it stores, at most \<open>_sizeEvents\<close> of them.
\<close>

definition CEpoll_WaitForNextEvent :: "(int \<times> u32) list option \<Rightarrow> u32 \<Rightarrow> CEpoll \<Rightarrow> PollEvent
    \<Rightarrow> hresult \<times> CEpoll \<times> PollEvent" where
  "CEpoll_WaitForNextEvent wait errno e ev =
     (if ce_epollfd e = -1 then (E_UNEXPECTED, e, ev)
      else
        let deliver = (\<lambda>e. let pEvent = the (ce_events e) ! ce_currentEventIndex e in
              (S_OK, e\<lparr>ce_currentEventIndex := ce_currentEventIndex e + 1\<rparr>,
               ev\<lparr>pe_fd := fst pEvent, pe_eventflags := CEpoll_FromNativeFlags (snd pEvent)\<rparr>)) in
        if ce_currentEventIndex e \<ge> ce_pendingCount e
        then (let e = e\<lparr>ce_currentEventIndex := 0, ce_pendingCount := 0\<rparr> in
              case wait of None \<Rightarrow> (ERRNOHR_of errno, e, ev)
              | Some events \<Rightarrow>
                  let events = take (ce_sizeEvents e) events in
                  if length events = 0 then (S_FALSE, e, ev)
                  else deliver (e\<lparr>ce_events := map_option (\<lambda>old. events @ drop (length events) old) (ce_events e),
                                  ce_pendingCount := length events\<rparr>))
        else deliver e)"

section \<open>CPoll\<close>

record pollfd =
  pf_fd :: int
  pf_events :: u16
  pf_revents :: u16

record CPoll =
  cp_fds :: "pollfd list"
  cp_rotation :: u32
  cp_unreadcount :: u32
  cp_fInitialized :: bool
  cp_hashtable :: "(int, nat) fasthash"

text \<open>\<open>FastHash_Hash\<close> of an \<open>int\<close>, which is converted to \<open>size_t\<close>.\<close>

definition fd_hash :: "int \<Rightarrow> nat" where
  "fd_hash x = nat (x mod 2 ^ 64)"

definition CPoll_new :: CPoll where
  "CPoll_new = \<lparr>cp_fds = [], cp_rotation = 0, cp_unreadcount = 0, cp_fInitialized = False, cp_hashtable = FH_Init 0 0 False\<rparr>"

definition CPoll_ToNativeFlags :: "u32 \<Rightarrow> u32" where
  "CPoll_ToNativeFlags eventflags =
     (let result = 0;
          result = flag_if eventflags IPOLLING_READ 0x001 result;
          result = flag_if eventflags IPOLLING_WRITE 0x004 result;
          result = flag_if eventflags IPOLLING_RDHUP 0x2000 result;
          result = flag_if eventflags IPOLLING_HUP 0x010 result;
          result = flag_if eventflags IPOLLING_PRI 0x002 result in
      flag_if eventflags IPOLLING_ERROR 0x008 result)"

definition CPoll_FromNativeFlags :: "u32 \<Rightarrow> u32" where
  "CPoll_FromNativeFlags eventflags =
     (let result = 0;
          result = flag_if eventflags 0x001 IPOLLING_READ result;
          result = flag_if eventflags 0x004 IPOLLING_WRITE result;
          result = flag_if eventflags 0x2000 IPOLLING_RDHUP result;
          result = flag_if eventflags 0x010 IPOLLING_HUP result;
          result = flag_if eventflags 0x002 IPOLLING_PRI result in
      flag_if eventflags 0x008 IPOLLING_ERROR result)"

text \<open>The result of \<open>InitTable\<close> is not looked at.\<close>

definition CPoll_Initialize :: "CPoll \<Rightarrow> nat \<Rightarrow> hresult \<times> CPoll" where
  "CPoll_Initialize p maxSockets =
     (S_OK, p\<lparr>cp_rotation := 0, cp_unreadcount := 0,
        cp_hashtable := (if maxSockets \<le> 0 then cp_hashtable p else snd (FH_InitTable maxSockets 0 True)),
        cp_fInitialized := True\<rparr>)"

definition CPoll_Close :: "CPoll \<Rightarrow> hresult \<times> CPoll" where
  "CPoll_Close p = (S_OK, p\<lparr>cp_fds := [], cp_fInitialized := False\<rparr>)"

definition CPoll_Add :: "CPoll \<Rightarrow> int \<Rightarrow> u32 \<Rightarrow> hresult \<times> CPoll" where
  "CPoll_Add p fd eventflags =
     (let pos = length (cp_fds p) in
      if cp_fInitialized p = False then (E_FAIL, p)
      else if FH_Lookup fd_hash (cp_hashtable p) fd \<noteq> None then (E_UNEXPECTED, p)
      else
        let pfd = \<lparr>pf_fd = fd, pf_events = ucast (CPoll_ToNativeFlags eventflags), pf_revents = 0\<rparr>;
            p = p\<lparr>cp_fds := cp_fds p @ [pfd]\<rparr> in
        (S_OK, p\<lparr>cp_hashtable := snd (FH_Insert fd_hash (cp_hashtable p) fd pos)\<rparr>))"

text \<open>The last entry moves to the place of the one that goes.\<close>

definition CPoll_Remove :: "CPoll \<Rightarrow> int \<Rightarrow> hresult \<times> CPoll" where
  "CPoll_Remove p fd =
     (let size = length (cp_fds p) in
      if cp_fInitialized p = False then (E_FAIL, p)
      else if size = 0 then (E_FAIL, p)
      else case FH_Lookup fd_hash (cp_hashtable p) fd of None \<Rightarrow> (E_FAIL, p)
      | Some pos \<Rightarrow>
          if pos \<ge> size then (E_FAIL, p)
          else if pf_fd (cp_fds p ! pos) \<noteq> fd then (E_FAIL, p)
          else
            let p = (if pos \<noteq> size - 1
                     then (let p = p\<lparr>cp_fds := (cp_fds p)[pos := cp_fds p ! (size - 1)]\<rparr> in
                           p\<lparr>cp_hashtable := FH_Modify fd_hash (cp_hashtable p) (pf_fd (cp_fds p ! pos)) (\<lambda>_. pos)\<rparr>)
                     else p);
                p = p\<lparr>cp_hashtable := snd (FH_Remove fd_hash (cp_hashtable p) fd)\<rparr> in
            (S_OK, p\<lparr>cp_fds := butlast (cp_fds p)\<rparr>))"

definition CPoll_ChangeEventSet :: "CPoll \<Rightarrow> int \<Rightarrow> u32 \<Rightarrow> hresult \<times> CPoll" where
  "CPoll_ChangeEventSet p fd eventflags =
     (let size = length (cp_fds p) in
      if cp_fInitialized p = False then (E_FAIL, p)
      else if size = 0 then (E_FAIL, p)
      else case FH_Lookup fd_hash (cp_hashtable p) fd of None \<Rightarrow> (E_FAIL, p)
      | Some pos \<Rightarrow>
          if pos \<ge> size then (E_FAIL, p)
          else if pf_fd (cp_fds p ! pos) \<noteq> fd then (E_FAIL, p)
          else (S_OK, p\<lparr>cp_fds := (cp_fds p)[pos := (cp_fds p ! pos)\<lparr>pf_events := ucast (CPoll_ToNativeFlags eventflags)\<rparr>]\<rparr>))"

definition FindNextEvent :: "CPoll \<Rightarrow> PollEvent \<Rightarrow> bool \<times> CPoll \<times> PollEvent" where
  "FindNextEvent p ev =
     (let size = length (cp_fds p) in
      if cp_unreadcount p = 0 then (False, p, ev)
      else
        let p = (if unat (cp_rotation p) \<ge> size then p\<lparr>cp_rotation := 0\<rparr> else p) in
        case find (\<lambda>slotindex. pf_revents (cp_fds p ! slotindex) \<noteq> 0)
               (map (\<lambda>index. (index + unat (cp_rotation p)) mod size) [0..<size]) of
          None \<Rightarrow> (False, p, ev)
        | Some slotindex \<Rightarrow>
            let slot = cp_fds p ! slotindex in
            (True, p\<lparr>cp_fds := (cp_fds p)[slotindex := slot\<lparr>pf_revents := 0\<rparr>],
                     cp_rotation := cp_rotation p + 1, cp_unreadcount := cp_unreadcount p - 1\<rparr>,
             ev\<lparr>pe_fd := pf_fd slot, pe_eventflags := CPoll_FromNativeFlags (ucast (pf_revents slot))\<rparr>))"

text \<open>\<open>poll\<close> answers a number and stores the events of each descriptor.\<close>

definition CPoll_WaitForNextEvent :: "int \<times> (int \<Rightarrow> u16) \<Rightarrow> u32 \<Rightarrow> CPoll \<Rightarrow> PollEvent \<Rightarrow> hresult \<times> CPoll \<times> PollEvent" where
  "CPoll_WaitForNextEvent poll errno p ev =
     (if cp_fInitialized p = False then (E_FAIL, p, ev)
      else
        let ev = ev\<lparr>pe_eventflags := 0\<rparr> in
        if length (cp_fds p) = 0 then (S_FALSE, p, ev)
        else
          let (fFound, p, ev) = FindNextEvent p ev in
          if fFound then (S_OK, p, ev)
          else
            let p = p\<lparr>cp_unreadcount := 0, cp_fds := map (\<lambda>f. f\<lparr>pf_revents := snd poll (pf_fd f)\<rparr>) (cp_fds p)\<rparr>;
                ret = fst poll in
            if ret < 0 then (ERRNOHR_of errno, p, ev)
            else if ret = 0 then (S_FALSE, p, ev)
            else
              let (fFound, p, ev) = FindNextEvent (p\<lparr>cp_unreadcount := word_of_int ret\<rparr>) ev in
              (if fFound then S_OK else S_FALSE, p, ev))"

section \<open>IPolling\<close>

datatype IPolling = Epoll CEpoll | Poll CPoll

text \<open>What the system calls behind an object answer.\<close>

record PollCalls =
  pc_ctl_add :: "int \<Rightarrow> int"
  pc_ctl_mod :: "int \<Rightarrow> int"
  pc_ctl_del :: "int \<Rightarrow> int"
  pc_epoll_wait :: "(int \<times> u32) list option"
  pc_poll :: "int \<times> (int \<Rightarrow> u16)"
  pc_errno :: u32

fun Polling_Add :: "PollCalls \<Rightarrow> IPolling \<Rightarrow> int \<Rightarrow> u32 \<Rightarrow> hresult \<times> IPolling" where
  "Polling_Add c (Epoll e) fd flags = (let (hr, e) = CEpoll_Add (pc_ctl_add c fd) (pc_errno c) e fd flags in (hr, Epoll e))"
| "Polling_Add c (Poll p) fd flags = (let (hr, p) = CPoll_Add p fd flags in (hr, Poll p))"

fun Polling_Remove :: "PollCalls \<Rightarrow> IPolling \<Rightarrow> int \<Rightarrow> hresult \<times> IPolling" where
  "Polling_Remove c (Epoll e) fd = (let (hr, e) = CEpoll_Remove (pc_ctl_del c fd) (pc_errno c) e fd in (hr, Epoll e))"
| "Polling_Remove c (Poll p) fd = (let (hr, p) = CPoll_Remove p fd in (hr, Poll p))"

fun Polling_ChangeEventSet :: "PollCalls \<Rightarrow> IPolling \<Rightarrow> int \<Rightarrow> u32 \<Rightarrow> hresult \<times> IPolling" where
  "Polling_ChangeEventSet c (Epoll e) fd flags =
     (let (hr, e) = CEpoll_ChangeEventSet (pc_ctl_mod c fd) (pc_errno c) e fd flags in (hr, Epoll e))"
| "Polling_ChangeEventSet c (Poll p) fd flags = (let (hr, p) = CPoll_ChangeEventSet p fd flags in (hr, Poll p))"

fun Polling_WaitForNextEvent :: "PollCalls \<Rightarrow> IPolling \<Rightarrow> PollEvent \<Rightarrow> hresult \<times> IPolling \<times> PollEvent" where
  "Polling_WaitForNextEvent c (Epoll e) ev =
     (let (hr, e, ev) = CEpoll_WaitForNextEvent (pc_epoll_wait c) (pc_errno c) e ev in (hr, Epoll e, ev))"
| "Polling_WaitForNextEvent c (Poll p) ev =
     (let (hr, p, ev) = CPoll_WaitForNextEvent (pc_poll c) (pc_errno c) p ev in (hr, Poll p, ev))"

text \<open>The destructors close the objects.\<close>

fun Polling_Release :: "descriptors \<times> IPolling \<Rightarrow> descriptors" where
  "Polling_Release (fds, Epoll e) = fst (snd (CEpoll_Close (fds, e)))"
| "Polling_Release (fds, Poll p) = fds"

text \<open>Whether the system has \<open>epoll\<close> is a fact of the build.\<close>

definition CreatePollingInstance :: "bool \<Rightarrow> int \<Rightarrow> (nat \<Rightarrow> int \<times> u32) \<Rightarrow> descriptors \<Rightarrow> u32 \<Rightarrow> nat
    \<Rightarrow> hresult \<times> descriptors \<times> IPolling option" where
  "CreatePollingInstance has_epoll epoll_create mem fds type maxSockets =
     (let type = (if type = IPOLLING_TYPE_BEST then if has_epoll then IPOLLING_TYPE_EPOLL else IPOLLING_TYPE_POLL else type) in
      if type = IPOLLING_TYPE_EPOLL then
        if \<not> has_epoll then (E_FAIL, fds, None)
        else let (hr, fds, e) = CEpoll_Initialize epoll_create mem (fds, CEpoll_new) maxSockets in (hr, fds, Some (Epoll e))
      else if type = IPOLLING_TYPE_POLL then
        let (hr, p) = CPoll_Initialize CPoll_new maxSockets in (hr, fds, Some (Poll p))
      else (E_FAIL, fds, None))"

section \<open>The table of \<open>CPoll\<close>\<close>

text \<open>Each descriptor is at one place, and the hash table knows which.\<close>

definition positions :: "pollfd list \<Rightarrow> (int \<rightharpoonup> nat) \<Rightarrow> bool" where
  "positions fs m \<longleftrightarrow> (\<forall>fd i. m fd = Some i \<longleftrightarrow> i < length fs \<and> pf_fd (fs ! i) = fd)"

definition cpoll_ok :: "CPoll \<Rightarrow> bool" where
  "cpoll_ok p \<longleftrightarrow> cp_fInitialized p \<and> fh_size (cp_hashtable p) = length (cp_fds p) \<and>
     (\<exists>m. fhm.is_map fd_hash (cp_hashtable p) m \<and> positions (cp_fds p) m)"

text \<open>What \<open>poll\<close> will wait for.\<close>

definition cpoll_watched :: "CPoll \<Rightarrow> int \<rightharpoonup> u32" where
  "cpoll_watched p = map_of (map (\<lambda>f. (pf_fd f, ucast (pf_events f))) (cp_fds p))"

lemma positions_lt: "positions fs m \<Longrightarrow> m fd = Some i \<Longrightarrow> i < length fs \<and> pf_fd (fs ! i) = fd"
  unfolding positions_def by blast

lemma positions_at: "positions fs m \<Longrightarrow> i < length fs \<Longrightarrow> m (pf_fd (fs ! i)) = Some i"
  unfolding positions_def by blast

lemma positions_inj: "positions fs m \<Longrightarrow> i < length fs \<Longrightarrow> j < length fs \<Longrightarrow> pf_fd (fs ! i) = pf_fd (fs ! j) \<Longrightarrow> i = j"
  by (metis positions_at option.inject)

lemma positionsI:
  assumes "\<And>fd i. m fd = Some i \<Longrightarrow> i < length fs \<and> pf_fd (fs ! i) = fd" "\<And>i. i < length fs \<Longrightarrow> m (pf_fd (fs ! i)) = Some i"
  shows "positions fs m"
  using assms unfolding positions_def by blast

lemma positions_distinct: "positions fs m \<Longrightarrow> distinct (map pf_fd fs)"
  using positions_inj [of fs m] by (auto simp: distinct_conv_nth)

lemma positions_append:
  assumes "positions fs m" "m (pf_fd f) = None"
  shows "positions (fs @ [f]) (m(pf_fd f \<mapsto> length fs))"
proof (rule positionsI)
  show "(m(pf_fd f \<mapsto> length fs)) (pf_fd ((fs @ [f]) ! i)) = Some i" if "i < length (fs @ [f])" for i
    using that assms(2) positions_at [OF assms(1), of i] by (auto simp: nth_append less_Suc_eq)
qed (use positions_lt [OF assms(1)] in \<open>fastforce simp: nth_append split: if_splits\<close>)

lemma positions_remove:
  assumes p: "positions fs m" "m fd = Some pos"
  shows "positions (butlast (fs[pos := last fs])) ((m(pf_fd (last fs) \<mapsto> pos))(fd := None))"
proof -
  note pos = positions_lt [OF p]
  then have "fs \<noteq> []" by auto
  then have lt: "last fs = fs ! (length fs - 1)" "length fs - 1 < length fs"
    by (simp_all add: last_conv_nth)
  have at: "butlast (fs[pos := last fs]) ! i = (if i = pos then last fs else fs ! i)" if "i < length fs - 1" for i
    using that by (simp add: nth_butlast nth_list_update)
  show ?thesis
  proof (rule positionsI)
    fix d i
    assume a: "((m(pf_fd (last fs) \<mapsto> pos))(fd := None)) d = Some i"
    then have d: "d \<noteq> fd"
      by auto
    show "i < length (butlast (fs[pos := last fs])) \<and> pf_fd (butlast (fs[pos := last fs]) ! i) = d"
    proof (cases "d = pf_fd (last fs)")
      case True
      then have "pos \<noteq> length fs - 1"
        using d pos lt by auto
      then show ?thesis
        using a True d pos at [of pos] by auto
    next
      case False
      then have i: "i < length fs" "pf_fd (fs ! i) = d"
        using a d positions_lt [OF p(1)] by auto
      then have "i \<noteq> length fs - 1" "i \<noteq> pos"
        using False lt d pos by auto
      then show ?thesis
        using i at [of i] by auto
    qed
  next
    fix i
    assume "i < length (butlast (fs[pos := last fs]))"
    then have i: "i < length fs - 1" "i < length fs"
      by auto
    have "pf_fd (last fs) \<noteq> fd" if "i = pos"
      using that i positions_inj [OF p(1), of pos "length fs - 1"] pos lt by auto
    moreover have "pf_fd (fs ! i) \<noteq> fd \<and> pf_fd (fs ! i) \<noteq> pf_fd (last fs)" if "i \<noteq> pos"
      using that i positions_inj [OF p(1), of i pos] positions_inj [OF p(1), of i "length fs - 1"] pos lt by auto
    ultimately show "((m(pf_fd (last fs) \<mapsto> pos))(fd := None)) (pf_fd (butlast (fs[pos := last fs]) ! i)) = Some i"
      using at [OF i(1)] positions_at [OF p(1) i(2)] by auto
  qed
qed

lemma watched_positions:
  assumes "positions fs m"
  shows "map_of (map (\<lambda>f. (pf_fd f, g f)) fs) fd = map_option (\<lambda>i. g (fs ! i)) (m fd)"
proof (cases "m fd")
  case None
  then have "fd \<notin> pf_fd ` set fs"
    using positions_at [OF assms] by (auto simp: in_set_conv_nth)
  then have "map_of (map (\<lambda>f. (pf_fd f, g f)) fs) fd = None"
    by (force simp: map_of_eq_None_iff)
  then show ?thesis
    by (simp add: None)
next
  case (Some i)
  then have i: "i < length fs" "pf_fd (fs ! i) = fd"
    using positions_lt [OF assms] by auto
  have "map_of (map (\<lambda>f. (pf_fd f, g f)) fs) fd = Some (g (fs ! i))"
    using positions_distinct [OF assms] i by (intro map_of_is_SomeI) (auto simp: comp_def)
  then show ?thesis
    by (simp add: Some)
qed

lemma cpoll_watched_at: "positions (cp_fds p) m \<Longrightarrow>
    cpoll_watched p fd = map_option (\<lambda>i. ucast (pf_events (cp_fds p ! i))) (m fd)"
  unfolding cpoll_watched_def by (rule watched_positions)

lemma is_map_remove:
  assumes "fhm.is_map hf h m" "m k = Some v"
  shows "fh_size (snd (FH_Remove hf h k)) = fh_size h - 1"
  using fh.remove_present [of hf h k v "[]"] assms by (simp add: fhm.is_map_def)

definition cpoll_room :: "CPoll \<Rightarrow> bool" where
  "cpoll_room p \<longleftrightarrow> length (cp_fds p) < fh_fsize (cp_hashtable p)"

lemma CPoll_Add_ok:
  assumes ok: "cpoll_ok p" and room: "cpoll_room p"
  shows "if cpoll_watched p fd = None
      then fst (CPoll_Add p fd fl) = S_OK \<and> cpoll_ok (snd (CPoll_Add p fd fl)) \<and>
        cpoll_watched (snd (CPoll_Add p fd fl)) = (cpoll_watched p)(fd \<mapsto> ucast (ucast (CPoll_ToNativeFlags fl) :: u16)) \<and>
        length (cp_fds (snd (CPoll_Add p fd fl))) = Suc (length (cp_fds p)) \<and>
        fh_fsize (cp_hashtable (snd (CPoll_Add p fd fl))) = fh_fsize (cp_hashtable p)
      else CPoll_Add p fd fl = (E_UNEXPECTED, p)"
proof -
  obtain m where i: "cp_fInitialized p" and s: "fh_size (cp_hashtable p) = length (cp_fds p)"
    and m: "fhm.is_map fd_hash (cp_hashtable p) m" "positions (cp_fds p) m"
    using ok by (auto simp: cpoll_ok_def)
  note lk = fhm.lookup_map [OF m(1), of fd] and wa = cpoll_watched_at [OF m(2)]
  show ?thesis
  proof (cases "m fd")
    case None
    define f where "f = \<lparr>pf_fd = fd, pf_events = ucast (CPoll_ToNativeFlags fl), pf_revents = 0\<rparr>"
    define p' where "p' = p\<lparr>cp_fds := cp_fds p @ [f], cp_hashtable := snd (FH_Insert fd_hash (cp_hashtable p) fd (length (cp_fds p)))\<rparr>"
    note ins = fhm.insert_map [OF m(1) None, of "length (cp_fds p)"]
    have e: "CPoll_Add p fd fl = (S_OK, p')"
      using lk None i by (simp add: CPoll_Add_def Let_def p'_def f_def)
    have ps: "positions (cp_fds p') (m(fd \<mapsto> length (cp_fds p)))"
      using positions_append [OF m(2), of f] None by (simp add: p'_def f_def)
    have lt: "i < length (cp_fds p)" if "m x = Some i" for x i
      using positions_lt [OF m(2) that] by simp
    have "cpoll_watched p' x = ((cpoll_watched p)(fd \<mapsto> ucast (ucast (CPoll_ToNativeFlags fl) :: u16))) x" for x
      unfolding cpoll_watched_at [OF ps] using lt [of x]
      by (cases "m x") (auto simp: wa p'_def f_def nth_append None)
    then show ?thesis
      using None wa e i s ins room ps by (auto simp: p'_def cpoll_ok_def cpoll_room_def)
  qed (use lk wa i in \<open>auto simp: CPoll_Add_def Let_def\<close>)
qed

lemma CPoll_Remove_ok:
  assumes ok: "cpoll_ok p"
  shows "if cpoll_watched p fd = None then FAILED (fst (CPoll_Remove p fd)) \<and> snd (CPoll_Remove p fd) = p
     else fst (CPoll_Remove p fd) = S_OK \<and> cpoll_ok (snd (CPoll_Remove p fd)) \<and>
       cpoll_watched (snd (CPoll_Remove p fd)) = (cpoll_watched p)(fd := None) \<and>
       Suc (length (cp_fds (snd (CPoll_Remove p fd)))) = length (cp_fds p) \<and>
       fh_fsize (cp_hashtable (snd (CPoll_Remove p fd))) = fh_fsize (cp_hashtable p)"
proof -
  obtain m where i: "cp_fInitialized p" and s: "fh_size (cp_hashtable p) = length (cp_fds p)"
    and m: "fhm.is_map fd_hash (cp_hashtable p) m" "positions (cp_fds p) m"
    using ok by (auto simp: cpoll_ok_def)
  note lk = fhm.lookup_map [OF m(1), of fd] and wa = cpoll_watched_at [OF m(2)]
  show ?thesis
  proof (cases "m fd")
    case None
    then show ?thesis
      using lk wa i by (simp add: CPoll_Remove_def Let_def)
  next
    case (Some pos)
    let ?fs = "cp_fds p" and ?h = "cp_hashtable p"
    note pos = positions_lt [OF m(2) Some]
    then have ne: "?fs \<noteq> []" by auto
    then have lst: "?fs ! (length ?fs - Suc 0) = last ?fs"
      by (simp add: last_conv_nth)
    define fs' where "fs' = ?fs[pos := last ?fs]"
    define h' where "h' = (if pos \<noteq> length ?fs - 1 then FH_Modify fd_hash ?h (pf_fd (last ?fs)) (\<lambda>_. pos) else ?h)"
    define m' where "m' = m(pf_fd (last ?fs) \<mapsto> pos)"
    define p' where "p' = p\<lparr>cp_hashtable := snd (FH_Remove fd_hash h' fd), cp_fds := butlast fs'\<rparr>"
    have ml: "m (pf_fd (last ?fs)) = Some (length ?fs - Suc 0)"
      using positions_at [OF m(2), of "length ?fs - Suc 0"] ne by (simp add: lst)
    have "fhm.is_map fd_hash h' (m(pf_fd (last ?fs) := (if pos \<noteq> length ?fs - 1 then Some pos else m (pf_fd (last ?fs)))))"
      "fh_size h' = fh_size ?h" "fh_fsize h' = fh_fsize ?h"
      using fhm.modify_map [OF m(1), of "pf_fd (last ?fs)" "\<lambda>_. pos"] m(1) ml
      by (auto simp: h'_def fun_upd_idem)
    then have h': "fhm.is_map fd_hash h' m'" "fh_size h' = fh_size ?h" "fh_fsize h' = fh_fsize ?h"
      using ml by (auto simp: m'_def split: if_splits)
    have fs': "fs' = (if pos \<noteq> length ?fs - 1 then ?fs[pos := last ?fs] else ?fs)"
      using lst list_update_id [of ?fs "length ?fs - Suc 0"] by (simp add: fs'_def)
    have "fh_size (snd (FH_Remove fd_hash h' fd)) = fh_size h' - 1"
      by (rule is_map_remove [OF h'(1), of _ pos]) (simp add: m'_def Some)
    note rm = fhm.remove_map [OF h'(1), of fd] this
    have e: "CPoll_Remove p fd = (S_OK, p')"
      using lk i pos Some lst ne by (simp add: CPoll_Remove_def Let_def h'_def fs' p'_def)
    have ps: "positions (cp_fds p') (m'(fd := None))"
      using positions_remove [OF m(2) Some] by (simp add: p'_def fs'_def m'_def)
    have len: "Suc (length (cp_fds p')) = length ?fs"
      using ne by (simp add: p'_def fs'_def)
    have at: "cp_fds p' ! i = (if i = pos then last ?fs else ?fs ! i)" if "i < length (cp_fds p')" for i
      using that pos by (simp add: p'_def fs'_def nth_butlast nth_list_update)
    have "cpoll_watched p' x = ((cpoll_watched p)(fd := None)) x" for x
    proof (cases "(m'(fd := None)) x")
      case None
      then show ?thesis
        unfolding cpoll_watched_at [OF ps] by (auto simp: wa m'_def split: if_splits)
    next
      case (Some i)
      then have "cp_fds p' ! i = ?fs ! the (m x)" "m x \<noteq> None" "x \<noteq> fd"
        using at [of i] positions_lt [OF ps Some] positions_lt [OF m(2), of x i] \<open>m fd = Some pos\<close> ml lst
          positions_inj [OF m(2), of i pos]
        by (auto simp: m'_def split: if_splits)
      then show ?thesis
        unfolding cpoll_watched_at [OF ps] using Some by (auto simp: wa)
    qed
    then have "cpoll_watched p' = (cpoll_watched p)(fd := None)"
      by blast
    moreover have "cpoll_ok p'"
      using ps rm s h'(2) len i by (auto simp: cpoll_ok_def p'_def m'_def)
    ultimately show ?thesis
      using e len rm h'(3) Some wa by (simp add: p'_def)
  qed
qed

lemma CPoll_ChangeEventSet_ok:
  assumes ok: "cpoll_ok p"
  shows "if cpoll_watched p fd = None then FAILED (fst (CPoll_ChangeEventSet p fd fl)) \<and> snd (CPoll_ChangeEventSet p fd fl) = p
     else fst (CPoll_ChangeEventSet p fd fl) = S_OK \<and> cpoll_ok (snd (CPoll_ChangeEventSet p fd fl)) \<and>
       cpoll_watched (snd (CPoll_ChangeEventSet p fd fl)) = (cpoll_watched p)(fd \<mapsto> ucast (ucast (CPoll_ToNativeFlags fl) :: u16)) \<and>
       length (cp_fds (snd (CPoll_ChangeEventSet p fd fl))) = length (cp_fds p) \<and>
       cp_hashtable (snd (CPoll_ChangeEventSet p fd fl)) = cp_hashtable p"
proof -
  obtain m where i: "cp_fInitialized p" and s: "fh_size (cp_hashtable p) = length (cp_fds p)"
    and m: "fhm.is_map fd_hash (cp_hashtable p) m" "positions (cp_fds p) m"
    using ok by (auto simp: cpoll_ok_def)
  note lk = fhm.lookup_map [OF m(1), of fd] and wa = cpoll_watched_at [OF m(2)]
  show ?thesis
  proof (cases "m fd")
    case None
    then show ?thesis
      using lk wa i by (simp add: CPoll_ChangeEventSet_def Let_def)
  next
    case (Some pos)
    note pos = positions_lt [OF m(2) Some]
    define p' where "p' = p\<lparr>cp_fds := (cp_fds p)[pos := (cp_fds p ! pos)\<lparr>pf_events := ucast (CPoll_ToNativeFlags fl)\<rparr>]\<rparr>"
    have e: "CPoll_ChangeEventSet p fd fl = (S_OK, p')"
      using lk i pos Some by (auto simp: CPoll_ChangeEventSet_def Let_def p'_def)
    have same: "pf_fd (cp_fds p' ! i) = pf_fd (cp_fds p ! i)" for i
      using pos by (simp add: p'_def nth_list_update)
    have ps: "positions (cp_fds p') m"
      using m(2) unfolding positions_def same by (simp add: p'_def)
    have "cpoll_watched p' x = ((cpoll_watched p)(fd \<mapsto> ucast (ucast (CPoll_ToNativeFlags fl) :: u16))) x" for x
    proof (cases "x = fd")
      case False
      then have "the (m x) \<noteq> pos" if "m x \<noteq> None"
        using that positions_lt [OF m(2), of x] pos by auto
      then show ?thesis
        unfolding cpoll_watched_at [OF ps] using False by (cases "m x") (auto simp: wa p'_def)
    next
      case True
      then have "cpoll_watched p' x = Some (ucast (pf_events (cp_fds p' ! pos)))"
        using Some cpoll_watched_at [OF ps, of x] by simp
      then show ?thesis
        using True pos by (simp add: p'_def)
    qed
    then show ?thesis
      using e i s m(1) ps Some wa by (auto simp: cpoll_ok_def p'_def)
  qed
qed

section \<open>The contract\<close>

text \<open>The flags that both objects can hand to the kernel.\<close>

definition portable_flags :: "u32 \<Rightarrow> bool" where
  "portable_flags fl \<longleftrightarrow> fl AND IPOLLING_EDGETRIGGER = 0"

lemma native_flags_agree: "portable_flags fl \<Longrightarrow> ucast (ucast (CPoll_ToNativeFlags fl) :: u16) = CEpoll_ToNativeFlags fl"
  by (simp add: portable_flags_def CPoll_ToNativeFlags_def CEpoll_ToNativeFlags_def flag_if_def polling_consts Let_def)

locale poll_set =
  fixes add :: "'s \<Rightarrow> int \<Rightarrow> u32 \<Rightarrow> hresult \<times> 's"
    and remove :: "'s \<Rightarrow> int \<Rightarrow> hresult \<times> 's"
    and change :: "'s \<Rightarrow> int \<Rightarrow> u32 \<Rightarrow> hresult \<times> 's"
    and watched :: "'s \<Rightarrow> int \<rightharpoonup> u32"
    and room :: "'s \<Rightarrow> bool"
    and ok :: "'s \<Rightarrow> bool"
  assumes add_law: "ok s \<Longrightarrow> room s \<Longrightarrow> portable_flags fl \<Longrightarrow> ok (snd (add s fd fl)) \<and>
      watched (snd (add s fd fl)) =
        (if FAILED (fst (add s fd fl)) then watched s else (watched s)(fd \<mapsto> CEpoll_ToNativeFlags fl))"
    and remove_law: "ok s \<Longrightarrow> ok (snd (remove s fd)) \<and>
      watched (snd (remove s fd)) = (if FAILED (fst (remove s fd)) then watched s else (watched s)(fd := None))"
    and change_law: "ok s \<Longrightarrow> portable_flags fl \<Longrightarrow> ok (snd (change s fd fl)) \<and>
      watched (snd (change s fd fl)) =
        (if FAILED (fst (change s fd fl)) then watched s else (watched s)(fd \<mapsto> CEpoll_ToNativeFlags fl))"
begin

text \<open>No operation touches what is watched for other descriptors.\<close>

lemma others_kept:
  "ok s \<Longrightarrow> room s \<Longrightarrow> portable_flags fl \<Longrightarrow> fd' \<noteq> fd \<Longrightarrow> watched (snd (add s fd fl)) fd' = watched s fd'"
  "ok s \<Longrightarrow> fd' \<noteq> fd \<Longrightarrow> watched (snd (remove s fd)) fd' = watched s fd'"
  "ok s \<Longrightarrow> portable_flags fl \<Longrightarrow> fd' \<noteq> fd \<Longrightarrow> watched (snd (change s fd fl)) fd' = watched s fd'"
  using add_law [of s fl fd] remove_law [of s fd] change_law [of s fl fd] by simp_all

lemma add_succeeds: "ok s \<Longrightarrow> room s \<Longrightarrow> portable_flags fl \<Longrightarrow> \<not> FAILED (fst (add s fd fl)) \<Longrightarrow>
    watched (snd (add s fd fl)) fd = Some (CEpoll_ToNativeFlags fl)"
  using add_law [of s fl fd] by simp

lemma change_succeeds: "ok s \<Longrightarrow> portable_flags fl \<Longrightarrow> \<not> FAILED (fst (change s fd fl)) \<Longrightarrow>
    watched (snd (change s fd fl)) fd = Some (CEpoll_ToNativeFlags fl)"
  using change_law [of s fl fd] by simp

lemma ok_kept:
  "ok s \<Longrightarrow> room s \<Longrightarrow> portable_flags fl \<Longrightarrow> ok (snd (add s fd fl))"
  "ok s \<Longrightarrow> ok (snd (remove s fd))"
  "ok s \<Longrightarrow> portable_flags fl \<Longrightarrow> ok (snd (change s fd fl))"
  using add_law [of s fl fd] remove_law [of s fd] change_law [of s fl fd] by simp_all

end

definition cepoll_ok :: "CEpoll \<Rightarrow> bool" where
  "cepoll_ok e \<longleftrightarrow> ce_epollfd e = -1 \<or> (\<exists>a. ce_events e = Some a \<and> length a = ce_sizeEvents e \<and> ce_pendingCount e \<le> ce_sizeEvents e)"

fun polling_ok :: "IPolling \<Rightarrow> bool" where
  "polling_ok (Epoll e) \<longleftrightarrow> cepoll_ok e"
| "polling_ok (Poll p) \<longleftrightarrow> cpoll_ok p"

fun polling_room :: "IPolling \<Rightarrow> bool" where
  "polling_room (Epoll e) \<longleftrightarrow> True"
| "polling_room (Poll p) \<longleftrightarrow> cpoll_room p"

fun polling_watched :: "IPolling \<Rightarrow> int \<rightharpoonup> u32" where
  "polling_watched (Epoll e) = ce_watched e"
| "polling_watched (Poll p) = cpoll_watched p"

interpretation ep: poll_set "CEpoll_Add ctl errno" "CEpoll_Remove ctl errno" "CEpoll_ChangeEventSet ctl errno"
    ce_watched "\<lambda>_. True" cepoll_ok for ctl errno
  by unfold_locales (auto simp: CEpoll_Add_def CEpoll_Remove_def CEpoll_ChangeEventSet_def cepoll_ok_def)

lemma CPoll_codes: "FAILED (fst (CPoll_Add p fd fl)) \<or> fst (CPoll_Add p fd fl) = S_OK"
  by (simp add: CPoll_Add_def Let_def)

interpretation pl: poll_set CPoll_Add CPoll_Remove CPoll_ChangeEventSet cpoll_watched cpoll_room cpoll_ok
proof unfold_locales
  fix s fd fl
  assume ok: "cpoll_ok s"
  show "cpoll_ok (snd (CPoll_Remove s fd)) \<and> cpoll_watched (snd (CPoll_Remove s fd)) =
      (if FAILED (fst (CPoll_Remove s fd)) then cpoll_watched s else (cpoll_watched s)(fd := None))"
    using CPoll_Remove_ok [OF ok, of fd] ok by (auto split: if_splits)
  assume fl: "portable_flags fl"
  show "cpoll_ok (snd (CPoll_ChangeEventSet s fd fl)) \<and> cpoll_watched (snd (CPoll_ChangeEventSet s fd fl)) =
      (if FAILED (fst (CPoll_ChangeEventSet s fd fl)) then cpoll_watched s
       else (cpoll_watched s)(fd \<mapsto> CEpoll_ToNativeFlags fl))"
    using CPoll_ChangeEventSet_ok [OF ok, of fd fl] ok native_flags_agree [OF fl] by (auto split: if_splits)
  assume "cpoll_room s"
  then show "cpoll_ok (snd (CPoll_Add s fd fl)) \<and> cpoll_watched (snd (CPoll_Add s fd fl)) =
      (if FAILED (fst (CPoll_Add s fd fl)) then cpoll_watched s
       else (cpoll_watched s)(fd \<mapsto> CEpoll_ToNativeFlags fl))"
    using CPoll_Add_ok [OF ok, of fd fl] ok native_flags_agree [OF fl] by (auto split: if_splits)
qed

interpretation ps: poll_set "Polling_Add c" "Polling_Remove c" "Polling_ChangeEventSet c"
    polling_watched polling_room polling_ok for c
proof unfold_locales
  fix s fd fl
  assume ok: "polling_ok s"
  show "polling_ok (snd (Polling_Remove c s fd)) \<and> polling_watched (snd (Polling_Remove c s fd)) =
      (if FAILED (fst (Polling_Remove c s fd)) then polling_watched s else (polling_watched s)(fd := None))"
    using ok ep.remove_law pl.remove_law by (cases s) (simp_all add: case_prod_beta)
  assume fl: "portable_flags fl"
  show "polling_ok (snd (Polling_ChangeEventSet c s fd fl)) \<and> polling_watched (snd (Polling_ChangeEventSet c s fd fl)) =
      (if FAILED (fst (Polling_ChangeEventSet c s fd fl)) then polling_watched s
       else (polling_watched s)(fd \<mapsto> CEpoll_ToNativeFlags fl))"
    using ok fl ep.change_law pl.change_law by (cases s) (simp_all add: case_prod_beta)
  assume "polling_room s"
  then show "polling_ok (snd (Polling_Add c s fd fl)) \<and> polling_watched (snd (Polling_Add c s fd fl)) =
      (if FAILED (fst (Polling_Add c s fd fl)) then polling_watched s
       else (polling_watched s)(fd \<mapsto> CEpoll_ToNativeFlags fl))"
    using ok fl ep.add_law pl.add_law by (cases s) (simp_all add: case_prod_beta)
qed

section \<open>The events\<close>

text \<open>
  \<open>R\<close> are the descriptors whose events of the last \<open>poll\<close>, which are \<open>evs\<close>, were not delivered yet.
\<close>

definition undelivered :: "(int \<Rightarrow> u16) \<Rightarrow> CPoll \<Rightarrow> int set \<Rightarrow> bool" where
  "undelivered evs p R \<longleftrightarrow> cpoll_ok p \<and> R \<subseteq> dom (cpoll_watched p) \<and>
     (\<forall>f\<in>set (cp_fds p). pf_revents f = (if pf_fd f \<in> R then evs (pf_fd f) else 0)) \<and>
     (\<forall>fd\<in>R. evs fd \<noteq> 0) \<and> unat (cp_unreadcount p) = card R"

lemma dom_cpoll_watched: "dom (cpoll_watched p) = pf_fd ` set (cp_fds p)"
  by (simp add: cpoll_watched_def dom_map_of_conv_image_fst image_image)

lemma positions_cong: "map pf_fd fs' = map pf_fd fs \<Longrightarrow> positions fs m \<Longrightarrow> positions fs' m"
  unfolding positions_def by (metis length_map nth_map)

lemma rotated_slots: "i < n \<Longrightarrow> i \<in> set (map (\<lambda>index. (index + r) mod n) [0..<n])" for i n r :: nat
proof -
  assume i: "i < n"
  let ?k = "(i + (n - r mod n)) mod n"
  have "(?k + r) mod n = (i + (n - r mod n) + r mod n) mod n"
    by (metis mod_add_left_eq mod_add_right_eq)
  also have "i + (n - r mod n) + r mod n = i + n"
    using i mod_less_divisor [of n r] by linarith
  also have "(i + n) mod n = i"
    using i by simp
  finally have "i = (?k + r) mod n" ..
  moreover have "?k < n"
    using i by simp
  ultimately show ?thesis
    by force
qed

lemma undelivered_step:
  assumes u: "undelivered evs p R" and R: "R \<noteq> {}"
  obtains fd p' where "fd \<in> R" "undelivered evs p' (R - {fd})" "cpoll_watched p' = cpoll_watched p"
    "FindNextEvent p ev = (True, p', ev\<lparr>pe_fd := fd, pe_eventflags := CPoll_FromNativeFlags (ucast (evs fd))\<rparr>)"
    "cp_hashtable p' = cp_hashtable p"
proof -
  have ok: "cpoll_ok p" and sub: "R \<subseteq> pf_fd ` set (cp_fds p)"
    and rv: "\<And>f. f \<in> set (cp_fds p) \<Longrightarrow> pf_revents f = (if pf_fd f \<in> R then evs (pf_fd f) else 0)"
    and nz: "\<And>fd. fd \<in> R \<Longrightarrow> evs fd \<noteq> 0" and n: "unat (cp_unreadcount p) = card R"
    using u by (auto simp: undelivered_def dom_cpoll_watched)
  obtain m where i: "cp_fInitialized p" and s: "fh_size (cp_hashtable p) = length (cp_fds p)"
    and m: "fhm.is_map fd_hash (cp_hashtable p) m" "positions (cp_fds p) m"
    using ok by (auto simp: cpoll_ok_def)
  let ?fs = "cp_fds p" and ?n = "length (cp_fds p)"
  define rot where "rot = (if unat (cp_rotation p) \<ge> ?n then 0 else cp_rotation p)"
  define slots where "slots = map (\<lambda>index. (index + unat rot) mod ?n) [0..<?n]"
  obtain f where f: "f \<in> set ?fs" "pf_fd f \<in> R"
    using R sub by blast
  then obtain j where j: "j < ?n" "?fs ! j = f"
    by (auto simp: in_set_conv_nth)
  have "j \<in> set slots"
    using rotated_slots [OF j(1), of "unat rot"] by (simp only: slots_def)
  moreover have "pf_revents (?fs ! j) \<noteq> 0"
    using rv f nz j(2) by simp
  ultimately obtain k where k: "find (\<lambda>s. pf_revents (?fs ! s) \<noteq> 0) slots = Some k"
    by (cases "find (\<lambda>s. pf_revents (?fs ! s) \<noteq> 0) slots") (auto simp: find_None_iff)
  then have kp: "k \<in> set slots" "pf_revents (?fs ! k) \<noteq> 0"
    by (auto simp: find_Some_iff)
  then have lt: "k < ?n"
    using j(1) by (auto simp: slots_def intro!: mod_less_divisor)
  define fd where "fd = pf_fd (?fs ! k)"
  have fd: "fd \<in> R" "pf_revents (?fs ! k) = evs fd"
    using rv [of "?fs ! k"] kp(2) lt by (auto simp: fd_def split: if_splits)
  have fin: "finite R"
    using sub finite_surj by blast
  then have pos: "0 < card R"
    using R by (simp add: card_gt_0_iff)
  define p' where "p' = p\<lparr>cp_fds := ?fs[k := (?fs ! k)\<lparr>pf_revents := 0\<rparr>], cp_rotation := rot + 1,
    cp_unreadcount := cp_unreadcount p - 1\<rparr>"
  have e: "FindNextEvent p ev = (True, p', ev\<lparr>pe_fd := fd, pe_eventflags := CPoll_FromNativeFlags (ucast (evs fd))\<rparr>)"
    using pos n k fd(2) by (auto simp: FindNextEvent_def Let_def slots_def rot_def p'_def fd_def unat_eq_0)
  have ids: "pf_fd (cp_fds p' ! x) = pf_fd (?fs ! x)" "pf_events (cp_fds p' ! x) = pf_events (?fs ! x)" for x
    using lt by (simp_all add: p'_def nth_list_update)
  have ps: "positions (cp_fds p') m"
    using m(2) unfolding positions_def ids by (simp add: p'_def)
  have w: "cpoll_watched p' = cpoll_watched p"
    unfolding cpoll_watched_at [OF ps] cpoll_watched_at [OF m(2)] ids fun_eq_iff by simp
  have "pf_revents g = (if pf_fd g \<in> R - {fd} then evs (pf_fd g) else 0)" if g: "g \<in> set (cp_fds p')" for g
  proof -
    obtain x where x: "x < ?n" "g = cp_fds p' ! x"
      using g by (auto simp: in_set_conv_nth p'_def)
    show ?thesis
    proof (cases "x = k")
      case True
      then show ?thesis
        using x lt by (simp add: p'_def fd_def)
    next
      case False
      then have "g = ?fs ! x" "pf_fd g \<noteq> fd"
        using x positions_inj [OF m(2), of x k] lt by (auto simp: p'_def fd_def)
      then show ?thesis
        using rv [of g] x by simp
    qed
  qed
  moreover have "unat (cp_unreadcount p') = card (R - {fd})"
    using pos n fd(1) unat_minus_one [of "cp_unreadcount p"] by (cases "cp_unreadcount p = 0") (simp_all add: p'_def card_Diff_singleton)
  moreover have "cpoll_ok p'"
    using ps i s m(1) by (auto simp: cpoll_ok_def p'_def)
  ultimately have "undelivered evs p' (R - {fd})"
    using sub nz w by (auto simp: undelivered_def dom_cpoll_watched [symmetric])
  from that [OF fd(1) this w e] show thesis
    by (simp add: p'_def)
qed

text \<open>Calls of \<open>WaitForNextEvent\<close> in a row, one for each answer that \<open>poll\<close> would give.\<close>

fun poll_waits :: "u32 \<Rightarrow> (int \<times> (int \<Rightarrow> u16)) list \<Rightarrow> CPoll \<Rightarrow> (hresult \<times> PollEvent) list \<times> CPoll" where
  "poll_waits errno [] p = ([], p)"
| "poll_waits errno (a # as) p =
     (let (hr, p, ev) = CPoll_WaitForNextEvent a errno p \<lparr>pe_fd = 0, pe_eventflags = 0\<rparr>;
          (rest, p) = poll_waits errno as p in ((hr, ev) # rest, p))"

lemma Wait_found: "cp_fInitialized p \<Longrightarrow> cp_fds p \<noteq> [] \<Longrightarrow>
    FindNextEvent p (ev\<lparr>pe_eventflags := 0\<rparr>) = (True, p', ev') \<Longrightarrow>
    CPoll_WaitForNextEvent a errno p ev = (S_OK, p', ev')"
  by (simp add: CPoll_WaitForNextEvent_def)

lemma Wait_asks: "cp_fInitialized p \<Longrightarrow> cp_fds p \<noteq> [] \<Longrightarrow>
    FindNextEvent p (ev\<lparr>pe_eventflags := 0\<rparr>) = (False, p1, ev1) \<Longrightarrow> 0 < fst a \<Longrightarrow>
    FindNextEvent (p1\<lparr>cp_fds := map (\<lambda>f. f\<lparr>pf_revents := snd a (pf_fd f)\<rparr>) (cp_fds p1),
      cp_unreadcount := word_of_int (fst a)\<rparr>) ev1 = (True, p', ev') \<Longrightarrow>
    CPoll_WaitForNextEvent a errno p ev = (S_OK, p', ev')"
  by (simp add: CPoll_WaitForNextEvent_def Let_def)

lemma undelivered_wait:
  assumes u: "undelivered evs p R" and R: "R \<noteq> {}"
  obtains fd p' where "fd \<in> R" "undelivered evs p' (R - {fd})" "cpoll_watched p' = cpoll_watched p"
    "CPoll_WaitForNextEvent a errno p ev =
      (S_OK, p', ev\<lparr>pe_fd := fd, pe_eventflags := CPoll_FromNativeFlags (ucast (evs fd))\<rparr>)"
    "cp_hashtable p' = cp_hashtable p"
proof -
  have "cp_fInitialized p" "cp_fds p \<noteq> []"
    using u R by (auto simp: undelivered_def cpoll_ok_def dom_cpoll_watched)
  moreover obtain fd p' where f: "fd \<in> R" "undelivered evs p' (R - {fd})" "cpoll_watched p' = cpoll_watched p"
    "FindNextEvent p (ev\<lparr>pe_eventflags := 0\<rparr>) = (True, p', ev\<lparr>pe_eventflags := 0, pe_fd := fd,
      pe_eventflags := CPoll_FromNativeFlags (ucast (evs fd))\<rparr>)" "cp_hashtable p' = cp_hashtable p"
    using undelivered_step [OF u R, of "ev\<lparr>pe_eventflags := 0\<rparr>"] by metis
  ultimately show thesis
    using that [OF f(1-3) _ f(5)] by (simp add: CPoll_WaitForNextEvent_def)
qed

definition events_of :: "(hresult \<times> PollEvent) list \<Rightarrow> int list" where
  "events_of rs = map (pe_fd \<circ> snd) rs"

lemma waits_deliver:
  "undelivered evs p R \<Longrightarrow> length as = card R \<Longrightarrow>
   distinct (events_of (fst (poll_waits errno as p))) \<and> set (events_of (fst (poll_waits errno as p))) = R \<and>
   list_all (\<lambda>(hr, ev). hr = S_OK \<and> pe_eventflags ev = CPoll_FromNativeFlags (ucast (evs (pe_fd ev)))) (fst (poll_waits errno as p)) \<and>
   undelivered evs (snd (poll_waits errno as p)) {} \<and> cpoll_watched (snd (poll_waits errno as p)) = cpoll_watched p"
proof (induction as arbitrary: p R)
  case Nil
  then have "finite R"
    by (auto simp: undelivered_def dom_cpoll_watched intro: finite_subset)
  then show ?case
    using Nil by (simp add: events_of_def)
next
  case (Cons a as)
  then have R: "R \<noteq> {}" "finite R"
    by (auto simp: card_eq_0_iff intro: card_ge_0_finite)
  obtain fd p' where f: "fd \<in> R" "undelivered evs p' (R - {fd})" "cpoll_watched p' = cpoll_watched p"
    "CPoll_WaitForNextEvent a errno p \<lparr>pe_fd = 0, pe_eventflags = 0\<rparr> =
      (S_OK, p', \<lparr>pe_fd = fd, pe_eventflags = CPoll_FromNativeFlags (ucast (evs fd))\<rparr>)"
    using undelivered_wait [OF Cons.prems(1) R(1), of a errno "\<lparr>pe_fd = 0, pe_eventflags = 0\<rparr>"] by (metis PollEvent.simps(4,5))
  have "length as = card (R - {fd})"
    using Cons.prems(2) f(1) R(2) by (simp add: card_Diff_singleton)
  note IH = Cons.IH [OF f(2) this]
  show ?case
    using IH f by (auto simp: case_prod_beta Let_def events_of_def)
qed

text \<open>The first call asks \<open>poll\<close>.\<close>

lemma poll_asked:
  assumes ok: "cpoll_ok p" and no: "cp_unreadcount p = 0"
    and R: "R = {fd \<in> dom (cpoll_watched p). evs fd \<noteq> 0}" "R \<noteq> {}" and lim: "length (cp_fds p) < 2 ^ 32"
  shows "CPoll_WaitForNextEvent (int (card R), evs) errno p ev = CPoll_WaitForNextEvent (0, evs) errno
      (p\<lparr>cp_fds := map (\<lambda>f. f\<lparr>pf_revents := evs (pf_fd f)\<rparr>) (cp_fds p), cp_unreadcount := word_of_nat (card R)\<rparr>) ev \<and>
    undelivered evs (p\<lparr>cp_fds := map (\<lambda>f. f\<lparr>pf_revents := evs (pf_fd f)\<rparr>) (cp_fds p),
      cp_unreadcount := word_of_nat (card R)\<rparr>) R"
proof -
  let ?p = "p\<lparr>cp_fds := map (\<lambda>f. f\<lparr>pf_revents := evs (pf_fd f)\<rparr>) (cp_fds p), cp_unreadcount := word_of_nat (card R)\<rparr>"
  obtain m where i: "cp_fInitialized p" and s: "fh_size (cp_hashtable p) = length (cp_fds p)"
    and m: "fhm.is_map fd_hash (cp_hashtable p) m" "positions (cp_fds p) m"
    using ok by (auto simp: cpoll_ok_def)
  have fs: "cp_fds p \<noteq> []"
    using R by (auto simp: dom_cpoll_watched)
  have ps: "positions (cp_fds ?p) m"
    by (rule positions_cong [OF _ m(2)]) simp
  have "card R \<le> card (dom (cpoll_watched p))"
    using R by (intro card_mono) (auto simp: dom_cpoll_watched)
  also have "\<dots> \<le> length (cp_fds p)"
    by (metis card_image_le card_length dom_cpoll_watched finite_set le_trans)
  finally have c: "card R < 2 ^ 32" "0 < card R"
    using lim R by (auto simp: card_gt_0_iff dom_cpoll_watched)
  then have un: "unat (word_of_nat (card R) :: u32) = card R"
    by (simp add: unat_of_nat)
  have w: "dom (cpoll_watched ?p) = dom (cpoll_watched p)"
    by (simp add: dom_cpoll_watched image_image)
  have "cpoll_ok ?p"
    using i s m(1) ps by (auto simp: cpoll_ok_def)
  then have u: "undelivered evs ?p R"
    using R un w by (auto simp: undelivered_def dom_cpoll_watched)
  define q where "q = ?p"
  obtain fd p' where f: "FindNextEvent q (ev\<lparr>pe_eventflags := 0\<rparr>) = (True, p', ev\<lparr>pe_eventflags := 0, pe_fd := fd,
      pe_eventflags := CPoll_FromNativeFlags (ucast (evs fd))\<rparr>)"
    by (rule undelivered_step [OF u R(2), of "ev\<lparr>pe_eventflags := 0\<rparr>"]) (simp only: q_def [symmetric])
  have z: "FindNextEvent p (ev\<lparr>pe_eventflags := 0\<rparr>) = (False, p, ev\<lparr>pe_eventflags := 0\<rparr>)"
    using no by (simp add: FindNextEvent_def)
  have "cp_fInitialized q" "cp_fds q \<noteq> []"
    using i fs by (simp_all add: q_def)
  note w = Wait_found [OF this f, of "(0, evs)" errno]
  have "CPoll_WaitForNextEvent (int (card R), evs) errno p ev = CPoll_WaitForNextEvent (0, evs) errno q ev"
    unfolding w by (rule Wait_asks [OF i fs z]) (use c(2) f in \<open>simp_all add: q_def\<close>)
  then show ?thesis
    using u by (simp add: q_def)
qed

section \<open>A table of descriptors as a map\<close>

lemma FindPrime_some: "\<exists>q>0. FastHash_GetHashTableWidth n = Some q"
proof (cases "n \<le> 3")
  case True
  then show ?thesis
    by (auto simp: FastHash_GetHashTableWidth_def FindPrime_def)
next
  case False
  define r where "r = (if n mod 2 = 0 then n + 1 else n)"
  have "odd r"
    by (simp add: r_def) presburger
  moreover have "5 \<le> r"
    using False by (cases "n = 4") (auto simp: r_def)
  ultimately show ?thesis
    using FindPrime_loop_least [of r] False
    by (fastforce simp: FastHash_GetHashTableWidth_def FindPrime_def r_def is_prime_def)
qed

lemma InitTable_map:
  assumes "0 < n"
  obtains h :: "('k, 'v) fasthash" where "FH_InitTable n 0 True = (1, h)" "fhm.is_map hf h Map.empty" "fh_size h = 0" "fh_fsize h = n"
proof -
  obtain q where q: "FastHash_GetHashTableWidth n = Some q" "0 < q"
    using FindPrime_some by metis
  then have "FH_InitTable n 0 True = (1, FH_Init n q True :: ('k, 'v) fasthash)"
    using assms by (simp add: FH_InitTable_def)
  with that FH_Init_map [OF assms q(2), of hf] show thesis
    by blast
qed

lemma CPoll_Initialize_ok:
  assumes "0 < n"
  shows "cpoll_ok (snd (CPoll_Initialize CPoll_new n))" "cpoll_watched (snd (CPoll_Initialize CPoll_new n)) = Map.empty"
    "fh_fsize (cp_hashtable (snd (CPoll_Initialize CPoll_new n))) = n" "cp_unreadcount (snd (CPoll_Initialize CPoll_new n)) = 0"
    "cp_fds (snd (CPoll_Initialize CPoll_new n)) = []"
proof -
  obtain h :: "(int, nat) fasthash" where "FH_InitTable n 0 True = (1, h)" "fhm.is_map fd_hash h Map.empty"
    "fh_size h = 0" "fh_fsize h = n"
    using InitTable_map [OF assms] by metis
  then show "cpoll_ok (snd (CPoll_Initialize CPoll_new n))" "cpoll_watched (snd (CPoll_Initialize CPoll_new n)) = Map.empty"
    "fh_fsize (cp_hashtable (snd (CPoll_Initialize CPoll_new n))) = n" "cp_unreadcount (snd (CPoll_Initialize CPoll_new n)) = 0"
    "cp_fds (snd (CPoll_Initialize CPoll_new n)) = []"
    using assms by (auto simp: CPoll_Initialize_def CPoll_new_def cpoll_ok_def positions_def cpoll_watched_def)
qed

datatype poll_op = AddFd int u32 | RemoveFd int | ChangeFd int u32

fun poll_do :: "poll_op \<Rightarrow> CPoll \<Rightarrow> hresult \<times> CPoll" where
  "poll_do (AddFd fd fl) p = CPoll_Add p fd fl"
| "poll_do (RemoveFd fd) p = CPoll_Remove p fd"
| "poll_do (ChangeFd fd fl) p = CPoll_ChangeEventSet p fd fl"

fun map_do :: "poll_op \<Rightarrow> (int \<rightharpoonup> u32) \<Rightarrow> hresult \<times> (int \<rightharpoonup> u32)" where
  "map_do (AddFd fd fl) m = (if m fd = None then (S_OK, m(fd \<mapsto> CEpoll_ToNativeFlags fl)) else (E_UNEXPECTED, m))"
| "map_do (RemoveFd fd) m = (if m fd = None then (E_FAIL, m) else (S_OK, m(fd := None)))"
| "map_do (ChangeFd fd fl) m = (if m fd = None then (E_FAIL, m) else (S_OK, m(fd \<mapsto> CEpoll_ToNativeFlags fl)))"

fun runs :: "(poll_op \<Rightarrow> 's \<Rightarrow> hresult \<times> 's) \<Rightarrow> poll_op list \<Rightarrow> 's \<Rightarrow> hresult list \<times> 's" where
  "runs step [] s = ([], s)"
| "runs step (op # ops) s = (let (hr, s) = step op s; (rest, s) = runs step ops s in (hr # rest, s))"

fun op_flags_ok :: "poll_op \<Rightarrow> bool" where
  "op_flags_ok (AddFd fd fl) \<longleftrightarrow> portable_flags fl"
| "op_flags_ok (RemoveFd fd) \<longleftrightarrow> True"
| "op_flags_ok (ChangeFd fd fl) \<longleftrightarrow> portable_flags fl"

lemma card_watched: "cpoll_ok p \<Longrightarrow> card (dom (cpoll_watched p)) = length (cp_fds p)"
  unfolding cpoll_ok_def dom_cpoll_watched by (metis distinct_card length_map list.set_map positions_distinct)

lemma CPoll_lookup: "cpoll_ok p \<Longrightarrow> FH_Lookup fd_hash (cp_hashtable p) fd = None \<longleftrightarrow> cpoll_watched p fd = None"
  by (auto simp: cpoll_ok_def fhm.lookup_map cpoll_watched_at)

lemma CPoll_refused: "cpoll_ok p \<Longrightarrow> cpoll_watched p fd = None \<Longrightarrow> CPoll_Remove p fd = (E_FAIL, p) \<and> CPoll_ChangeEventSet p fd fl = (E_FAIL, p)"
  using CPoll_lookup [of p fd] by (simp add: CPoll_Remove_def CPoll_ChangeEventSet_def cpoll_ok_def)

lemma poll_do_map:
  assumes "cpoll_ok p" "op_flags_ok op" "card (dom (snd (map_do op (cpoll_watched p)))) \<le> fh_fsize (cp_hashtable p)"
  shows "fst (poll_do op p) = fst (map_do op (cpoll_watched p)) \<and> cpoll_ok (snd (poll_do op p)) \<and>
    cpoll_watched (snd (poll_do op p)) = snd (map_do op (cpoll_watched p)) \<and>
    fh_fsize (cp_hashtable (snd (poll_do op p))) = fh_fsize (cp_hashtable p)"
proof (cases op)
  case (AddFd fd fl)
  show ?thesis
  proof (cases "cpoll_watched p fd")
    case None
    have "finite (dom (cpoll_watched p))"
      by (simp add: dom_cpoll_watched)
    then have "cpoll_room p"
      using assms None AddFd card_watched [OF assms(1)] by (auto simp: cpoll_room_def domIff)
    then show ?thesis
      using CPoll_Add_ok [OF assms(1), of fd fl] None assms(2) AddFd by (simp add: native_flags_agree)
  next
    case (Some x)
    then have "CPoll_Add p fd fl = (E_UNEXPECTED, p)"
      using assms(1) CPoll_lookup [OF assms(1), of fd] by (simp add: CPoll_Add_def cpoll_ok_def Let_def)
    then show ?thesis
      using AddFd Some assms(1) by simp
  qed
next
  case (RemoveFd fd)
  then show ?thesis
    using CPoll_Remove_ok [OF assms(1), of fd] CPoll_refused [OF assms(1), of fd] assms(1)
    by (cases "cpoll_watched p fd") simp_all
next
  case (ChangeFd fd fl)
  then show ?thesis
    using CPoll_ChangeEventSet_ok [OF assms(1), of fd fl] CPoll_refused [OF assms(1), of fd fl] assms(1,2)
    by (cases "cpoll_watched p fd") (simp_all add: native_flags_agree)
qed

text \<open>The map never holds more than the table that \<open>Initialize\<close> made can take.\<close>

definition fits :: "nat \<Rightarrow> poll_op list \<Rightarrow> (int \<rightharpoonup> u32) \<Rightarrow> bool" where
  "fits n ops m \<longleftrightarrow> (\<forall>k\<le>length ops. card (dom (snd (runs map_do (take k ops) m))) \<le> n)"

lemma fits_Cons: "fits n (op # ops) m \<Longrightarrow> card (dom (snd (map_do op m))) \<le> n \<and> fits n ops (snd (map_do op m))"
proof -
  assume f: "fits n (op # ops) m"
  have "card (dom (snd (map_do op m))) \<le> n"
    using f [unfolded fits_def, rule_format, of 1] by (simp add: case_prod_beta)
  moreover have "card (dom (snd (runs map_do (take k ops) (snd (map_do op m))))) \<le> n" if "k \<le> length ops" for k
    using f [unfolded fits_def, rule_format, of "Suc k"] that by (simp add: case_prod_beta Let_def)
  ultimately show ?thesis
    by (simp add: fits_def)
qed

lemma runs_map: "cpoll_ok p \<Longrightarrow> list_all op_flags_ok ops \<Longrightarrow> fits (fh_fsize (cp_hashtable p)) ops (cpoll_watched p) \<Longrightarrow>
    fst (runs poll_do ops p) = fst (runs map_do ops (cpoll_watched p)) \<and> cpoll_ok (snd (runs poll_do ops p)) \<and>
    cpoll_watched (snd (runs poll_do ops p)) = snd (runs map_do ops (cpoll_watched p))"
proof (induction ops arbitrary: p)
  case (Cons op ops)
  note f = fits_Cons [OF Cons.prems(3)]
  note s = poll_do_map [OF Cons.prems(1) _ conjunct1 [OF f]]
  show ?case
    using Cons.IH [of "snd (poll_do op p)"] s f Cons.prems(2) by (simp add: case_prod_beta Let_def)
qed simp

lemma map_do_card: "finite (dom m) \<Longrightarrow> finite (dom (snd (map_do op m))) \<and> card (dom (snd (map_do op m))) \<le> Suc (card (dom m))"
  by (cases op) (auto simp: card_insert_if intro: le_trans [OF card_Diff1_le])

lemma runs_card: "finite (dom m) \<Longrightarrow> card (dom (snd (runs map_do ops m))) \<le> card (dom m) + length ops"
proof (induction ops arbitrary: m)
  case (Cons op ops)
  from Cons.IH [of "snd (map_do op m)"] map_do_card [OF Cons.prems, of op] show ?case
    by (simp add: case_prod_beta Let_def)
qed simp

lemma fits_few: "length ops \<le> n \<Longrightarrow> fits n ops Map.empty"
  unfolding fits_def
proof (intro allI impI)
  fix k
  assume "length ops \<le> n" "k \<le> length ops"
  then show "card (dom (snd (runs map_do (take k ops) Map.empty))) \<le> n"
    using runs_card [of Map.empty "take k ops"] by simp
qed

lemma unread_kept: "cp_unreadcount (snd (poll_do op p)) = cp_unreadcount p"
  by (cases op) (auto simp: CPoll_Add_def CPoll_Remove_def CPoll_ChangeEventSet_def Let_def split: option.splits)

lemma runs_unread: "cp_unreadcount (snd (runs poll_do ops p)) = cp_unreadcount p"
proof (induction ops arbitrary: p)
  case (Cons op ops)
  then show ?case
    using unread_kept [of op p] by (simp add: case_prod_beta Let_def)
qed simp

text \<open>C18: a \<open>CPoll\<close> that was initialised for \<open>n\<close> descriptors is a map from descriptors to flags: any
  sequence of \<open>Add\<close>, \<open>Remove\<close> and \<open>ChangeEventSet\<close> with flags other than the edge trigger that never watches more than \<open>n\<close> at a time
  gives the codes that the map gives, and \<open>poll\<close> is asked for what the map holds.\<close>

theorem poll_refines_map:
  assumes "0 < n" "list_all op_flags_ok ops" "fits n ops Map.empty"
  shows "fst (runs poll_do ops (snd (CPoll_Initialize CPoll_new n))) = fst (runs map_do ops Map.empty) \<and>
    cpoll_watched (snd (runs poll_do ops (snd (CPoll_Initialize CPoll_new n)))) = snd (runs map_do ops Map.empty)"
  using runs_map [OF CPoll_Initialize_ok(1) [OF assms(1)] assms(2)] CPoll_Initialize_ok(2,3) [OF assms(1)] assms(3)
  by simp

definition example_ops :: "poll_op list" where
  "example_ops = [AddFd 3 IPOLLING_READ, AddFd 5 IPOLLING_WRITE, AddFd 5 IPOLLING_READ, AddFd 9 IPOLLING_READ,
     RemoveFd 3, ChangeFd 3 IPOLLING_READ, ChangeFd 9 IPOLLING_WRITE]"

lemma example_ops_ok: "list_all op_flags_ok example_ops" "fits 8 example_ops Map.empty"
  "runs map_do example_ops Map.empty = ([S_OK, S_OK, E_UNEXPECTED, S_OK, S_OK, E_FAIL, S_OK], [5 \<mapsto> 4, 9 \<mapsto> 4])"
  by (simp_all add: example_ops_def portable_flags_def polling_consts fits_few CEpoll_ToNativeFlags_def flag_if_def fun_upd_twist)

theorem poll_refines_map_witness:
  "fst (runs poll_do example_ops (snd (CPoll_Initialize CPoll_new 8))) = [S_OK, S_OK, E_UNEXPECTED, S_OK, S_OK, E_FAIL, S_OK] \<and>
   cpoll_watched (snd (runs poll_do example_ops (snd (CPoll_Initialize CPoll_new 8)))) = [5 \<mapsto> 4, 9 \<mapsto> 4]"
  using poll_refines_map [OF _ example_ops_ok(1,2)] example_ops_ok(3) by simp

text \<open>C19: no event that \<open>poll\<close> reports is lost or delivered twice: when it reports the descriptors \<open>R\<close>,
  as many calls of \<open>WaitForNextEvent\<close> deliver each of them once, with its flags, whatever \<open>poll\<close>
  would answer in between.\<close>

theorem poll_events_delivered:
  assumes n: "0 < n" "n < 2 ^ 32" and ops: "list_all op_flags_ok ops" "fits n ops Map.empty"
    and R: "R = {fd \<in> dom (snd (runs map_do ops Map.empty)). evs fd \<noteq> 0}" "R \<noteq> {}" "length answers = card R - 1"
  shows "let rs = fst (poll_waits errno ((int (card R), evs) # answers) (snd (runs poll_do ops (snd (CPoll_Initialize CPoll_new n))))) in
    distinct (events_of rs) \<and> set (events_of rs) = R \<and>
    list_all (\<lambda>(hr, ev). hr = S_OK \<and> pe_eventflags ev = CPoll_FromNativeFlags (ucast (evs (pe_fd ev)))) rs"
proof -
  define p where "p = snd (runs poll_do ops (snd (CPoll_Initialize CPoll_new n)))"
  note ini = CPoll_Initialize_ok [OF n(1)]
  have p: "cpoll_ok p" "cpoll_watched p = snd (runs map_do ops Map.empty)"
    using runs_map [OF ini(1) ops(1)] ini(2,3) ops(2) by (simp_all add: p_def)
  have z: "cp_unreadcount p = 0"
    using ini(4) by (simp add: p_def runs_unread)
  have "card (dom (cpoll_watched p)) \<le> n"
    using ops(2) [unfolded fits_def, rule_format, of "length ops"] p(2) by simp
  then have len: "length (cp_fds p) < 2 ^ 32"
    using card_watched [OF p(1)] n(2) by simp
  define q where "q = p\<lparr>cp_fds := map (\<lambda>f. f\<lparr>pf_revents := evs (pf_fd f)\<rparr>) (cp_fds p), cp_unreadcount := word_of_nat (card R)\<rparr>"
  note a = poll_asked [OF p(1) z, of R evs errno, folded q_def, OF R(1) [folded p(2)] R(2) len]
  then have u: "undelivered evs q R"
    by blast
  then have "finite R"
    by (auto simp: undelivered_def dom_cpoll_watched intro: finite_subset)
  then have c: "length ((0, evs) # answers) = card R"
    using R(2,3) by (simp add: card_gt_0_iff Suc_diff_1)
  have "poll_waits errno ((int (card R), evs) # answers) p = poll_waits errno ((0, evs) # answers) q"
    using conjunct1 [OF a] by simp
  then show ?thesis
    using waits_deliver [OF u c, of errno] by (simp add: p_def [symmetric])
qed

theorem poll_events_delivered_witness:
  "\<exists>rs. set (events_of rs) = {5, 9} \<and> distinct (events_of rs) \<and>
     fst (poll_waits 0 [(2, \<lambda>fd. 1), (0, \<lambda>fd. 0)] (snd (runs poll_do example_ops (snd (CPoll_Initialize CPoll_new 8))))) = rs"
proof -
  have R: "{5, 9} = {fd \<in> dom (snd (runs map_do example_ops Map.empty)). (\<lambda>fd. 1 :: u16) fd \<noteq> 0}"
    unfolding example_ops_ok(3) by auto
  have l: "length [(0 :: int, \<lambda>fd :: int. 0 :: u16)] = card {5, 9 :: int} - 1" "card {5, 9 :: int} = 2"
    by simp_all
  show ?thesis
    using poll_events_delivered [OF _ _ example_ops_ok(1,2) R _ l(1), of 0] unfolding Let_def l(2)
    by (simp del: poll_waits.simps)
qed

end
