(* ===== verification/StunSocketThread.thy ===== *)
theory StunSocketThread imports StunSocket StunReply StunRateLimiter begin

text \<open>
  The thread of the UDP server (server/stunsocketthread.h, stunsocketthread.cpp): it waits for
  datagrams on one socket or on all of them, asks the rate limiter, hands a datagram to the reader and
  the request handler, and sends the response from the socket that the handler chose.  One turn of its
  loop is a function of what the system calls deliver in that turn.  The rate limiter, which all
  threads of a server share, is passed along.  Log output is left out.
\<close>

section \<open>CStunSocketThread\<close>

text \<open>
  The array of the four sockets, which is the server's, is indexed by the role; \<open>_socks\<close> holds
  pointers into it.  \<open>_spBufferOut\<close> and \<open>_msgOut.spBufferOut\<close> are one buffer, the member
  \<open>_reader\<close> is what \<open>_msgIn.pReader\<close> points to.
\<close>

record CStunSocketThread =
  th_arrSendSockets :: "(SocketRole \<Rightarrow> CStunSocket) option"
  th_socks :: "SocketRole list"
  th_fNeedToExit :: bool
  th_fThreadIsValid :: bool
  th_rotation :: nat
  th_tsa :: TransportAddressSet
  th_spAuth :: "IStunAuth option"
  th_reader :: CStunMessageReader
  th_spBufferReader :: "cbuffer option"
  th_spBufferIn :: "cbuffer option"
  th_msgIn :: StunMessageIn
  th_msgOut :: StunMessageOut
  th_spLimiter :: bool

definition all_roles :: "SocketRole list" where
  "all_roles = [RolePP, RolePA, RoleAP, RoleAA]"

definition tsa_zero :: TransportAddressSet where
  "tsa_zero = (\<lambda>_. \<lparr>ta_addr = CSocketAddress_default, ta_fValid = False\<rparr>)"

definition ClearSocketArray :: "CStunSocketThread \<Rightarrow> CStunSocketThread" where
  "ClearSocketArray th = th\<lparr>th_arrSendSockets := None, th_socks := []\<rparr>"

definition CStunSocketThread_new :: CStunSocketThread where
  "CStunSocketThread_new = ClearSocketArray \<lparr>th_arrSendSockets = None, th_socks = [], th_fNeedToExit = False,
     th_fThreadIsValid = False, th_rotation = 0, th_tsa = tsa_zero, th_spAuth = None, th_reader = MR_init,
     th_spBufferReader = None, th_spBufferIn = None, th_msgIn = \<lparr>mi_socketrole = RolePP,
       mi_addrLocal = CSocketAddress_default, mi_addrRemote = CSocketAddress_default, mi_pReader = None,
       mi_fConnectionOriented = False\<rparr>,
     th_msgOut = \<lparr>mo_socketrole = RolePP, mo_addrDest = CSocketAddress_default, mo_spBufferOut = None\<rparr>,
     th_spLimiter = False\<rparr>"

definition InitThreadBuffers :: "CStunSocketThread \<Rightarrow> hresult \<times> CStunSocketThread" where
  "InitThreadBuffers th =
     (let bufferReader = CB_new MAX_STUN_MESSAGE_SIZE; r = MR_Attach (th_reader th) bufferReader in
      (S_OK, th\<lparr>th_reader := r, th_spBufferReader := ds_buffer (mr_stream r),
                th_spBufferIn := Some (CB_new MAX_STUN_MESSAGE_SIZE),
                th_msgIn := (th_msgIn th)\<lparr>mi_fConnectionOriented := False, mi_pReader := Some r\<rparr>,
                th_msgOut := (th_msgOut th)\<lparr>mo_spBufferOut := Some (CB_new MAX_STUN_MESSAGE_SIZE)\<rparr>\<rparr>))"

definition UninitThreadBuffers :: "CStunSocketThread \<Rightarrow> CStunSocketThread" where
  "UninitThreadBuffers th = th\<lparr>th_reader := MR_Reset (th_reader th), th_spBufferReader := None, th_spBufferIn := None,
     th_msgIn := (th_msgIn th)\<lparr>mi_pReader := None\<rparr>, th_msgOut := (th_msgOut th)\<lparr>mo_spBufferOut := None\<rparr>\<rparr>"

text \<open>The role to listen on is \<open>None\<close> for the value -1, which stands for all sockets.\<close>

definition Thread_Init :: "CStunSocketThread \<Rightarrow> (SocketRole \<Rightarrow> CStunSocket) option \<Rightarrow> TransportAddressSet option
    \<Rightarrow> IStunAuth option \<Rightarrow> SocketRole option \<Rightarrow> bool \<Rightarrow> hresult \<times> CStunSocketThread" where
  "Thread_Init th arrayOfFourSockets pTSA pAuth rolePrimaryRecv spLimiter =
     (if th_fThreadIsValid th then (E_UNEXPECTED, th) else
      case arrayOfFourSockets of None \<Rightarrow> (E_INVALIDARG, th) | Some arr \<Rightarrow>
      (case pTSA of None \<Rightarrow> (E_INVALIDARG, th) | Some tsa \<Rightarrow>
        if (case rolePrimaryRecv of Some r \<Rightarrow> \<not> Socket_IsValid (arr r) | None \<Rightarrow> False) then (E_UNEXPECTED, th)
        else
          let th = th\<lparr>th_arrSendSockets := Some arr, th_tsa := tsa\<rparr>;
              th = (case rolePrimaryRecv of
                      Some r \<Rightarrow> th\<lparr>th_socks := th_socks th @ [r]\<rparr>
                    | None \<Rightarrow> th\<lparr>th_socks := th_socks th @ filter (\<lambda>r. Socket_IsValid (arr r)) all_roles\<rparr>) in
          chk (InitThreadBuffers th) (\<lambda>th.
            (S_OK, th\<lparr>th_fNeedToExit := False, th_rotation := 0, th_spAuth := pAuth, th_spLimiter := spLimiter\<rparr>))))"

definition Thread_Start :: "int \<Rightarrow> CStunSocketThread \<Rightarrow> hresult \<times> CStunSocketThread" where
  "Thread_Start pthread_create th =
     (if th_fThreadIsValid th then (E_UNEXPECTED, th)
      else if length (th_socks th) = 0 then (E_FAIL, th)
      else if pthread_create \<noteq> 0 then (ERRNO_TO_HRESULT (word_of_int pthread_create), th)
      else (S_OK, th\<lparr>th_fThreadIsValid := True\<rparr>))"

text \<open>A datagram that is sent: the descriptor, the data, the destination.\<close>

type_synonym sent = "int \<times> bytes \<times> CSocketAddress"

definition socket_at :: "CStunSocketThread \<Rightarrow> SocketRole \<Rightarrow> CStunSocket" where
  "socket_at th r = (case th_arrSendSockets th of Some arr \<Rightarrow> arr r | None \<Rightarrow> CStunSocket_new)"

definition SignalForStop :: "CStunSocketThread \<Rightarrow> bool \<Rightarrow> sent list \<times> CStunSocketThread" where
  "SignalForStop th fPostMessages =
     (let th = th\<lparr>th_fNeedToExit := True\<rparr> in
      (if fPostMessages
       then map (\<lambda>r. let addr = sk_addrlocal (socket_at th r);
                         addr = (if IsIPAddressZero addr
                                 then (case snd (GetLocalHost (GetFamily addr) (Some CSocketAddress_default)) of
                                        Some addrLocal \<Rightarrow> SetPort addrLocal (GetPort addr) | None \<Rightarrow> addr)
                                 else addr) in (sk_sock (socket_at th r), [120], addr)) (th_socks th)
       else [], th))"

definition WaitForStopAndClose :: "CStunSocketThread \<Rightarrow> hresult \<times> CStunSocketThread" where
  "WaitForStopAndClose th = (S_OK, UninitThreadBuffers (ClearSocketArray (th\<lparr>th_fThreadIsValid := False\<rparr>)))"

section \<open>The loop\<close>

text \<open>What one turn of the loop meets: descriptors with data, what is received, the time, exit requests.\<close>

record ThreadTurn =
  tn_ready :: "int \<Rightarrow> bool"
  tn_recv :: "int \<Rightarrow> recv_result"
  tn_now :: int
  tn_exit_after_wait :: bool
  tn_exit_after_recv :: bool

definition WaitForSocketData :: "(int \<Rightarrow> bool) \<Rightarrow> CStunSocketThread \<Rightarrow> SocketRole option \<times> CStunSocketThread" where
  "WaitForSocketData fd_isset th =
     (let nSocketCount = length (th_socks th);
          th = th\<lparr>th_rotation := (th_rotation th + 1) mod nSocketCount\<rparr> in
      (find (\<lambda>r. fd_isset (sk_sock (socket_at th r)))
         (map (\<lambda>index. th_socks th ! ((index + th_rotation th) mod nSocketCount)) [0..<nSocketCount]), th))"

definition ProcessRequestAndSendResponse :: "(bytes \<Rightarrow> bytes \<Rightarrow> bytes) \<Rightarrow> (bytes \<Rightarrow> bytes) \<Rightarrow> CStunSocketThread
    \<Rightarrow> hresult \<times> sent list \<times> CStunSocketThread" where
  "ProcessRequestAndSendResponse hmac md5 th =
     (case (th_spBufferReader th, th_spBufferIn th) of
        (Some bufferReader, Some bufferIn) \<Rightarrow>
          let reader = MR_Attach (th_reader th) (snd (CB_SetSize bufferReader 0));
              (_, reader) = MR_AddBytes reader (cb_contents bufferIn);
              bufferReader = (case ds_left (mr_stream reader) of Some b \<Rightarrow> Some b | None \<Rightarrow> ds_buffer (mr_stream reader));
              th = th\<lparr>th_reader := reader, th_spBufferReader := bufferReader,
                      th_msgIn := (th_msgIn th)\<lparr>mi_pReader := Some reader\<rparr>\<rparr> in
          if MR_GetState reader \<noteq> BodyValidated then (E_FAIL, [], th)
          else
            let (hr, out) = ProcessRequest hmac md5 (th_msgIn th) (th_msgOut th) (Some (th_tsa th)) (th_spAuth th);
                th = th\<lparr>th_msgOut := out\<rparr> in
            if FAILED hr then (hr, [], th)
            else (hr, [(sk_sock (socket_at th (mo_socketrole out)),
                        case mo_spBufferOut out of Some b \<Rightarrow> cb_contents b | None \<Rightarrow> [], mo_addrDest out)], th)
      | _ \<Rightarrow> (E_FAIL, [], th))"

text \<open>The part of a turn after the wait, on the socket of a role.\<close>

definition read_turn :: "(bytes \<Rightarrow> bytes \<Rightarrow> bytes) \<Rightarrow> (bytes \<Rightarrow> bytes) \<Rightarrow> ThreadTurn \<Rightarrow> SocketRole
    \<Rightarrow> RateLimiter \<times> CStunSocketThread \<Rightarrow> bool \<times> sent list \<times> RateLimiter \<times> CStunSocketThread" where
  "read_turn hmac md5 turn role = (\<lambda>(limiter, th). case th_spBufferIn th of None \<Rightarrow> (True, [], limiter, th) | Some bufferIn \<Rightarrow>
     (let socket = socket_at th role;
          (ret, bufferIn, addrRemote, addrLocal) =
            recvfromex (tn_recv turn (sk_sock socket)) (snd (CB_SetSize bufferIn 0)) (mi_addrRemote (th_msgIn th)) (mi_addrLocal (th_msgIn th));
          addrLocal = (if ret \<ge> 0 then SetPort addrLocal (GetPort (sk_addrlocal socket)) else addrLocal);
          th = th\<lparr>th_spBufferIn := Some bufferIn,
                  th_msgIn := (th_msgIn th)\<lparr>mi_addrRemote := addrRemote, mi_addrLocal := addrLocal\<rparr>\<rparr>;
          (allowed_to_pass, limiter) =
            (if th_spLimiter th then RateCheck limiter (mi_addrRemote (th_msgIn th)) (tn_now turn) else (True, limiter)) in
      if ret < 0 \<or> allowed_to_pass = False then (True, [], limiter, th)
      else if tn_exit_after_recv turn then (False, [], limiter, th\<lparr>th_fNeedToExit := True\<rparr>)
      else
        let th = th\<lparr>th_spBufferIn := Some (snd (CB_SetSize bufferIn (nat ret))),
                    th_msgIn := (th_msgIn th)\<lparr>mi_socketrole := sk_role socket\<rparr>\<rparr>;
            (_, sent, th) = ProcessRequestAndSendResponse hmac md5 th in
        (True, sent, limiter, th)))"

text \<open>One turn: whether the loop goes on, the datagrams sent, the limiter and the thread.\<close>

definition Run_turn :: "(bytes \<Rightarrow> bytes \<Rightarrow> bytes) \<Rightarrow> (bytes \<Rightarrow> bytes) \<Rightarrow> ThreadTurn \<Rightarrow> RateLimiter \<times> CStunSocketThread
    \<Rightarrow> bool \<times> sent list \<times> RateLimiter \<times> CStunSocketThread" where
  "Run_turn hmac md5 turn = (\<lambda>(limiter, th).
     if th_fNeedToExit th then (False, [], limiter, th) else
      let fMultiSocketMode = (length (th_socks th) > 1);
          (pSocket, th) = (if fMultiSocketMode then WaitForSocketData (tn_ready turn) th else (Some (th_socks th ! 0), th)) in
      if fMultiSocketMode \<and> tn_exit_after_wait turn then (False, [], limiter, th\<lparr>th_fNeedToExit := True\<rparr>)
      else case pSocket of None \<Rightarrow> (True, [], limiter, th)
        | Some role \<Rightarrow> read_turn hmac md5 turn role (limiter, th))"

fun Run :: "(bytes \<Rightarrow> bytes \<Rightarrow> bytes) \<Rightarrow> (bytes \<Rightarrow> bytes) \<Rightarrow> ThreadTurn list \<Rightarrow> RateLimiter \<times> CStunSocketThread
    \<Rightarrow> sent list list \<times> RateLimiter \<times> CStunSocketThread" where
  "Run hmac md5 [] th = ([], th)"
| "Run hmac md5 (turn # turns) th =
     (let (more, sent, th) = Run_turn hmac md5 turn th in
      if more then (let (rest, th) = Run hmac md5 turns th in (sent # rest, th)) else ([sent], th))"

section \<open>What a datagram is answered with\<close>

definition request_in :: "SocketRole \<Rightarrow> CSocketAddress \<Rightarrow> CSocketAddress \<Rightarrow> bytes \<Rightarrow> StunMessageIn" where
  "request_in role addrLocal addrRemote d = \<lparr>mi_socketrole = role, mi_addrLocal = addrLocal, mi_addrRemote = addrRemote,
     mi_pReader = Some (feed MR_init [d]), mi_fConnectionOriented = False\<rparr>"

definition datagram_reply :: "(bytes \<Rightarrow> bytes \<Rightarrow> bytes) \<Rightarrow> (bytes \<Rightarrow> bytes) \<Rightarrow> TransportAddressSet \<Rightarrow> IStunAuth option
    \<Rightarrow> StunMessageIn \<Rightarrow> bytes \<Rightarrow> reply option" where
  "datagram_reply hmac md5 tsa auth msgIn d =
     (if spec_state True d = BodyValidated \<and> class_of (msg_type d) = StunMsgClassRequest
      then Some (reply_spec hmac md5 msgIn tsa auth) else None)"

text \<open>The datagrams that are sent carry the reply to where the handler's specification wants it.\<close>

definition answered :: "(bytes \<Rightarrow> bytes \<Rightarrow> bytes) \<Rightarrow> (SocketRole \<Rightarrow> CStunSocket) \<Rightarrow> StunMessageIn \<Rightarrow> reply option
    \<Rightarrow> sent list \<Rightarrow> bool" where
  "answered hmac sockets msgIn rp sent \<longleftrightarrow> (case rp of None \<Rightarrow> sent = []
     | Some rp \<Rightarrow> \<exists>out m. sends_reply hmac msgIn rp out \<and> holds_message out m \<and>
         sent = [(sk_sock (sockets (mo_socketrole out)), m, mo_addrDest out)])"

definition buffer800 :: "cbuffer option \<Rightarrow> bool" where
  "buffer800 b \<longleftrightarrow> (\<exists>buf. b = Some buf \<and> buffer_ok buf \<and> cb_allocated buf = 800)"

definition thread_ok :: "CStunSocketThread \<Rightarrow> bool" where
  "thread_ok th \<longleftrightarrow> th_arrSendSockets th \<noteq> None \<and> th_socks th \<noteq> [] \<and> reader_alive (th_reader th) \<and>
     buffer800 (th_spBufferReader th) \<and> buffer800 (th_spBufferIn th) \<and> buffer_ready (th_msgOut th) \<and>
     \<not> mi_fConnectionOriented (th_msgIn th) \<and> is_ip_addr (mi_addrRemote (th_msgIn th)) \<and>
     is_ip_addr (mi_addrLocal (th_msgIn th)) \<and> (\<forall>r. is_ip_addr (ta_addr (th_tsa th r)))"

text \<open>What the loop never changes.\<close>

definition same_thread :: "CStunSocketThread \<Rightarrow> CStunSocketThread \<Rightarrow> bool" where
  "same_thread th th' \<longleftrightarrow> th_arrSendSockets th' = th_arrSendSockets th \<and> th_socks th' = th_socks th \<and>
     th_tsa th' = th_tsa th \<and> th_spAuth th' = th_spAuth th \<and> th_spLimiter th' = th_spLimiter th \<and>
     th_fThreadIsValid th' = th_fThreadIsValid th"

lemma sends_reply_twins:
  assumes "parsed r c" "parsed r' c"
  shows "sends_reply hmac (msgIn\<lparr>mi_pReader := Some r\<rparr>) rp out = sends_reply hmac (msgIn\<lparr>mi_pReader := Some r'\<rparr>) rp out"
  using parsed_twins [OF assms] reply_spec_twins(2) [OF assms, of msgIn] by (simp add: sends_reply_def cong: reply.case_cong)

lemma feed_single_parsed:
  assumes "spec_state True d = BodyValidated"
  shows "parsed (feed MR_init [d]) d" "MR_GetMessageClass (feed MR_init [d]) = class_of (msg_type d)"
proof -
  have "reader_ok True ([] @ concat [d]) (feed MR_init [d])"
    by (intro feed_ok MR_init_ok)
  then have r: "reader_ok True d (feed MR_init [d])"
    by simp
  then show p: "parsed (feed MR_init [d]) d"
    unfolding parsed_def using r assms reader_ok_state by auto
  show "MR_GetMessageClass (feed MR_init [d]) = class_of (msg_type d)"
    using r assms by (simp add: reader_ok_def header_fields_def MR_GetMessageClass_def)
qed

lemma MR_Attach_SetSize: "MR_Attach r (b\<lparr>cb_size := 0\<rparr>) = MR_Attach r b"
  by (simp add: MR_Attach_def DS_Attach_def)

lemma ProcessRequest_ready:
  assumes c: "call_ok c msgIn msgOut addrs" and ok: "hmac_ok hmac" "md5_ok md5"
  shows "buffer_ready (snd (ProcessRequest hmac md5 msgIn msgOut (Some addrs) pAuth))"
proof (cases "MR_GetMessageClass (the (mi_pReader msgIn)) = StunMsgClassRequest")
  case True
  have "handler_ready md5 (authorized hmac md5 (request_checked msgIn msgOut addrs pAuth))"
    using request_outcome [OF c ok, of pAuth] by simp
  then show ?thesis
    using ProcessRequest_request [OF c True, of hmac md5 pAuth] answer_ready ok(1) by simp
next
  case False
  then show ?thesis
    using ProcessRequest_not_request [OF c False, of hmac md5 pAuth] c by (auto simp: prepared_out_def call_ok_def buffer_ready_def buffer_ok_def split: option.splits)
qed

lemma process_datagram:
  assumes th: "thread_ok th" and b: "th_spBufferIn th = Some b" "cb_contents b = d" and n: "length d \<le> 800"
    and ok: "hmac_ok hmac" "md5_ok md5"
  defines "msgIn \<equiv> request_in (mi_socketrole (th_msgIn th)) (mi_addrLocal (th_msgIn th)) (mi_addrRemote (th_msgIn th)) d"
  obtains hr sent th' where "ProcessRequestAndSendResponse hmac md5 th = (hr, sent, th')"
    "thread_ok th'" "same_thread th th'" "th_fNeedToExit th' = th_fNeedToExit th" "th_rotation th' = th_rotation th"
    "answered hmac (socket_at th) msgIn (datagram_reply hmac md5 (th_tsa th) (th_spAuth th) msgIn d) sent"
    "mi_addrRemote (th_msgIn th') = mi_addrRemote (th_msgIn th)"
proof -
  obtain br where br: "th_spBufferReader th = Some br" "buffer_ok br" "cb_allocated br = 800"
    using th by (auto simp: thread_ok_def buffer800_def)
  have ra: "reader_alive (th_reader th)"
    using th by (simp add: thread_ok_def)
  define r where "r = snd (MR_AddBytes (MR_Attach (th_reader th) br) d)"
  have "length d \<le> cb_allocated br"
    using n br(3) by simp
  note a = Attach_AddBytes [OF ra br(2) this, folded r_def]
  obtain br' where br': "ds_buffer (mr_stream r) = Some br'" "buffer_ok br'" "cb_allocated br' = 800"
    using a(3) br(3) by auto
  define th1 where "th1 = th\<lparr>th_reader := r, th_spBufferReader := Some br', th_msgIn := (th_msgIn th)\<lparr>mi_pReader := Some r\<rparr>\<rparr>"
  have th1: "thread_ok th1" "same_thread th th1" "th_msgOut th1 = th_msgOut th"
    using th a(2) br'(2,3) by (simp_all add: th1_def thread_ok_def same_thread_def buffer800_def)
  have st: "MR_GetState r = spec_state True d"
    using a(1) by (simp add: reader_ok_def MR_GetState_def)
  let ?p = "ProcessRequest hmac md5 (th_msgIn th1) (th_msgOut th1) (Some (th_tsa th1)) (th_spAuth th1)"
  have run: "ProcessRequestAndSendResponse hmac md5 th =
     (if spec_state True d \<noteq> BodyValidated then (E_FAIL, [], th1)
      else if FAILED (fst ?p) then (fst ?p, [], th1\<lparr>th_msgOut := snd ?p\<rparr>)
      else (fst ?p, [(sk_sock (socket_at th (mo_socketrole (snd ?p))),
          case mo_spBufferOut (snd ?p) of Some b \<Rightarrow> cb_contents b | None \<Rightarrow> [], mo_addrDest (snd ?p))], th1\<lparr>th_msgOut := snd ?p\<rparr>))"
    using br b a(4) br'(1) st
    by (simp add: ProcessRequestAndSendResponse_def MR_Attach_SetSize r_def th1_def case_prod_beta Let_def socket_at_def cong: option.case_cong)
  show thesis
  proof (cases "spec_state True d = BodyValidated")
    case False
    then show thesis
      using that [OF run [simplified, simplified False, simplified]] th1
      by (simp add: answered_def datagram_reply_def th1_def)
  next
    case True
    have p: "parsed r d"
      using a(1) st True by (auto simp: parsed_def MR_GetState_def)
    note f = feed_single_parsed [OF True]
    have cls: "MR_GetMessageClass r = class_of (msg_type d)"
      using parsed_twins(8) [OF p f(1)] f(2) by simp
    have m: "th_msgIn th1 = msgIn\<lparr>mi_pReader := Some r\<rparr>" "msgIn = msgIn\<lparr>mi_pReader := Some (feed MR_init [d])\<rparr>"
      using th by (simp_all add: msgIn_def request_in_def th1_def thread_ok_def)
    have c: "call_ok d (th_msgIn th1) (th_msgOut th1) (th_tsa th1)"
      using p th1(1) by (auto simp: call_ok_def th1_def thread_ok_def buffer_ready_def addrs_ok_def)
    have rdy: "thread_ok (th1\<lparr>th_msgOut := snd ?p\<rparr>)"
      using th1(1) ProcessRequest_ready [OF c ok, of "th_spAuth th1"] by (simp add: thread_ok_def)
    show thesis
    proof (cases "class_of (msg_type d) = StunMsgClassRequest")
      case False
      then have "fst ?p = E_FAIL"
        using ProcessRequest_not_request [OF c, of hmac md5 "th_spAuth th1"] cls by (simp add: th1_def)
      then have "ProcessRequestAndSendResponse hmac md5 th = (E_FAIL, [], th1\<lparr>th_msgOut := snd ?p\<rparr>)"
        using run True by simp
      from that [OF this rdy] show thesis
        using False th1(2) by (simp add: answered_def datagram_reply_def same_thread_def th1_def)
    next
      case req: True
      have "MR_GetMessageClass (the (mi_pReader (th_msgIn th1))) = StunMsgClassRequest"
        using cls req by (simp add: th1_def)
      then obtain out where out: "?p = (S_OK, out)"
        "sends_reply hmac (th_msgIn th1) (reply_spec hmac md5 (th_msgIn th1) (th_tsa th1) (th_spAuth th1)) out"
        using ProcessRequest_request [OF c] reply_sent [OF c ok] by blast
      have sr: "sends_reply hmac msgIn (reply_spec hmac md5 msgIn (th_tsa th) (th_spAuth th)) out"
        using out(2) sends_reply_twins [OF p f(1), of hmac msgIn] reply_spec_twins(1) [OF p f(1), of hmac md5 msgIn]
        unfolding m(1) by (simp add: m(2) [symmetric]) (simp add: th1_def)
      then obtain mm where h: "holds_message out mm"
        by (auto simp: sends_reply_def Let_def split: reply.splits)
      then obtain buf where buf: "mo_spBufferOut out = Some buf" "cb_contents buf = mm"
        by (auto simp: holds_message_def)
      have "ProcessRequestAndSendResponse hmac md5 th =
          (S_OK, [(sk_sock (socket_at th (mo_socketrole out)), mm, mo_addrDest out)], th1\<lparr>th_msgOut := snd ?p\<rparr>)"
        using run True out(1) buf by simp
      from that [OF this rdy] show thesis
        using sr h True req th1(2) by (auto simp: answered_def datagram_reply_def same_thread_def th1_def)
    qed
  qed
qed

section \<open>One turn of the loop\<close>

text \<open>What \<open>recvmsg\<close> is documented to deliver on these sockets: IPv4 or IPv6 addresses.\<close>

definition recv_fine :: "recv_result \<Rightarrow> bool" where
  "recv_fine msg \<longleftrightarrow> (case msg of None \<Rightarrow> True
     | Some (d, a, pk) \<Rightarrow> is_ip_addr a \<and> (\<forall>p. pk = Some p \<longrightarrow> is_ip_addr p))"

lemma InitSocketAddress_ip: "is_ip_addr a \<Longrightarrow> is_ip_addr (InitSocketAddress (sa_family a) b)"
  by (auto simp: InitSocketAddress_def is_ip_addr_def CommonConstructor_def addr_ok_def CSocketAddress_default_def
      CSocketAddress_in6_def sockaddr_in6_def stun_consts)

lemma InitSocketAddress_any: "is_ip_addr a \<Longrightarrow> InitSocketAddress (sa_family a) b = InitSocketAddress (sa_family a) b'"
  by (auto simp: InitSocketAddress_def is_ip_addr_def)

text \<open>The address that a datagram came to, without its port.\<close>

definition arrival :: "CSocketAddress \<Rightarrow> CSocketAddress option \<Rightarrow> CSocketAddress" where
  "arrival a pk = (case pk of Some p \<Rightarrow> p | None \<Rightarrow> InitSocketAddress (sa_family a) CSocketAddress_default)"

lemma recvfromex_ok:
  assumes "buffer_ok b" "cb_allocated b = 800" "recv_fine msg" "is_ip_addr src" "is_ip_addr dst"
  obtains ret b' src' dst' where "recvfromex msg b src dst = (ret, b', src', dst')"
    "buffer_ok b'" "cb_allocated b' = 800" "is_ip_addr src'" "is_ip_addr dst'"
    "case msg of None \<Rightarrow> ret = -1 \<and> src' = src
     | Some (d, a, pk) \<Rightarrow> ret = int (length (take 800 d)) \<and> buffer_ok (snd (CB_SetSize b' (nat ret))) \<and>
         cb_allocated (snd (CB_SetSize b' (nat ret))) = 800 \<and> cb_contents (snd (CB_SetSize b' (nat ret))) = take 800 d \<and>
         (if d = [] then src' = src else src' = a \<and> dst' = arrival a pk)"
proof (cases msg)
  case None
  then show ?thesis
    using that [of "-1" b src dst] assms by (simp add: recvfromex_def)
next
  case (Some m)
  obtain d a pk where m: "m = (d, a, pk)"
    by (rule prod_cases3)
  let ?d = "take 800 d"
  let ?b = "b\<lparr>cb_data := map_option (\<lambda>old. ?d @ drop (length ?d) old) (cb_data b)\<rparr>"
  let ?src = "if d = [] then src else a" and ?dst = "if d = [] then dst else arrival a pk"
  have "is_ip_addr a" "is_ip_addr (arrival a pk)"
    using assms(3) InitSocketAddress_ip by (auto simp: recv_fine_def Some m arrival_def split: option.splits)
  then have ip: "is_ip_addr ?src" "is_ip_addr ?dst"
    using assms(4,5) by simp_all
  have "0 < length ?d \<longleftrightarrow> d \<noteq> []"
    by simp
  then have e: "recvfromex msg b src dst = (int (length ?d), ?b, ?src, ?dst)"
    using InitSocketAddress_any [OF \<open>is_ip_addr a\<close>, of dst CSocketAddress_default] assms(2)
    by (simp add: recvfromex_def Some m arrival_def Let_def split: option.splits)
  obtain data where "cb_data b = Some data" "cb_size b \<le> 800" "800 \<le> length data"
    using assms(1,2) by (auto simp: buffer_ok_def split: option.splits)
  then have "buffer_ok ?b" "cb_allocated ?b = 800" "buffer_ok (?b\<lparr>cb_size := length ?d\<rparr>)" "cb_contents (?b\<lparr>cb_size := length ?d\<rparr>) = ?d"
    using assms(2) by (simp_all add: buffer_ok_def cb_contents_def min_def)
  with that [OF e] ip show ?thesis
    using assms(2) by (auto simp: Some m)
qed

text \<open>The socket that a turn reads, and the request that it lets through to the handler.\<close>

definition turn_socket :: "ThreadTurn \<Rightarrow> CStunSocketThread \<Rightarrow> SocketRole option" where
  "turn_socket turn th =
     (if th_fNeedToExit th then None
      else if length (th_socks th) \<le> 1 then Some (th_socks th ! 0)
      else if tn_exit_after_wait turn then None else fst (WaitForSocketData (tn_ready turn) th))"

definition input_at :: "ThreadTurn \<Rightarrow> SocketRole \<Rightarrow> RateLimiter \<Rightarrow> CStunSocketThread \<Rightarrow> (StunMessageIn \<times> bytes) option" where
  "input_at turn role limiter th = (let s = socket_at th role in
     case tn_recv turn (sk_sock s) of None \<Rightarrow> None | Some (d, a, pk) \<Rightarrow>
       if d = [] \<or> tn_exit_after_recv turn \<or> th_spLimiter th \<and> \<not> fst (RateCheck limiter a (tn_now turn)) then None
       else Some (request_in (sk_role s) (SetPort (arrival a pk) (GetPort (sk_addrlocal s))) a (take 800 d), take 800 d))"

definition turn_input :: "ThreadTurn \<Rightarrow> RateLimiter \<Rightarrow> CStunSocketThread \<Rightarrow> (StunMessageIn \<times> bytes) option" where
  "turn_input turn limiter th = (case turn_socket turn th of None \<Rightarrow> None | Some role \<Rightarrow> input_at turn role limiter th)"

text \<open>The sender that the thread knows of after a turn, and the one that the rate limiter is asked about.\<close>

definition sender_at :: "ThreadTurn \<Rightarrow> SocketRole \<Rightarrow> CStunSocketThread \<Rightarrow> CSocketAddress" where
  "sender_at turn role th = (case tn_recv turn (sk_sock (socket_at th role)) of
     None \<Rightarrow> mi_addrRemote (th_msgIn th) | Some (d, a, pk) \<Rightarrow> if d = [] then mi_addrRemote (th_msgIn th) else a)"

definition sender_after :: "ThreadTurn \<Rightarrow> CStunSocketThread \<Rightarrow> CSocketAddress" where
  "sender_after turn th =
     (case turn_socket turn th of None \<Rightarrow> mi_addrRemote (th_msgIn th) | Some role \<Rightarrow> sender_at turn role th)"

definition charged :: "ThreadTurn \<Rightarrow> CStunSocketThread \<Rightarrow> CSocketAddress option" where
  "charged turn th = (if turn_socket turn th \<noteq> None \<and> th_spLimiter th then Some (sender_after turn th) else None)"

definition limiter_after :: "CSocketAddress option \<Rightarrow> int \<Rightarrow> RateLimiter \<Rightarrow> RateLimiter" where
  "limiter_after a now limiter = (case a of None \<Rightarrow> limiter | Some a \<Rightarrow> snd (RateCheck limiter a now))"

definition turn_answered :: "(bytes \<Rightarrow> bytes \<Rightarrow> bytes) \<Rightarrow> (bytes \<Rightarrow> bytes) \<Rightarrow> CStunSocketThread
    \<Rightarrow> (StunMessageIn \<times> bytes) option \<Rightarrow> sent list \<Rightarrow> bool" where
  "turn_answered hmac md5 th input sent \<longleftrightarrow> (case input of None \<Rightarrow> sent = []
     | Some (msgIn, d) \<Rightarrow> answered hmac (socket_at th) msgIn (datagram_reply hmac md5 (th_tsa th) (th_spAuth th) msgIn d) sent)"

lemma WaitForSocketData_frame:
  "thread_ok th \<Longrightarrow> thread_ok (snd (WaitForSocketData ready th))"
  "same_thread th (snd (WaitForSocketData ready th))"
  "th_spBufferIn (snd (WaitForSocketData ready th)) = th_spBufferIn th"
  "th_msgIn (snd (WaitForSocketData ready th)) = th_msgIn th"
  "socket_at (snd (WaitForSocketData ready th)) = socket_at th"
  by (simp_all add: WaitForSocketData_def Let_def thread_ok_def same_thread_def socket_at_def fun_eq_iff)

lemma same_thread_trans: "same_thread a b \<Longrightarrow> same_thread b c \<Longrightarrow> same_thread a c"
  by (simp add: same_thread_def)

lemma same_thread_refl [simp]: "same_thread a a"
  by (simp add: same_thread_def)

lemma same_thread_socket: "same_thread th th' \<Longrightarrow> socket_at th' = socket_at th"
  by (simp add: same_thread_def socket_at_def fun_eq_iff)

lemma no_bytes_no_reply: "datagram_reply hmac md5 tsa auth msgIn [] = None"
  by (simp add: datagram_reply_def spec_state_def stun_consts)

lemma Run_turn_cases:
  "th_fNeedToExit th \<Longrightarrow> Run_turn hmac md5 turn (limiter, th) = (False, [], limiter, th)"
  "\<not> th_fNeedToExit th \<Longrightarrow> length (th_socks th) \<le> 1 \<Longrightarrow>
     Run_turn hmac md5 turn (limiter, th) = read_turn hmac md5 turn (th_socks th ! 0) (limiter, th)"
  "\<not> th_fNeedToExit th \<Longrightarrow> \<not> length (th_socks th) \<le> 1 \<Longrightarrow> tn_exit_after_wait turn \<Longrightarrow>
     Run_turn hmac md5 turn (limiter, th) = (False, [], limiter, (snd (WaitForSocketData (tn_ready turn) th))\<lparr>th_fNeedToExit := True\<rparr>)"
  "\<not> th_fNeedToExit th \<Longrightarrow> \<not> length (th_socks th) \<le> 1 \<Longrightarrow> \<not> tn_exit_after_wait turn \<Longrightarrow>
     Run_turn hmac md5 turn (limiter, th) = (case WaitForSocketData (tn_ready turn) th of
       (None, th') \<Rightarrow> (True, [], limiter, th') | (Some role, th') \<Rightarrow> read_turn hmac md5 turn role (limiter, th'))"
  by (simp_all add: Run_turn_def case_prod_beta split: option.splits)


lemma limiter_after_map: "limiter_map limiter m \<Longrightarrow> \<exists>m'. limiter_map (limiter_after a now limiter) m'"
  using RateCheck_step(2) by (fastforce simp: limiter_after_def split: option.splits)

lemma SetPort_ip: "is_ip_addr a \<Longrightarrow> is_ip_addr (SetPort a p)"
  by (auto simp: is_ip_addr_def addr_ok_def SetPort_def)

lemma read_turn_ok:
  assumes th: "thread_ok th" "\<not> th_fNeedToExit th" and rf: "recv_fine (tn_recv turn (sk_sock (socket_at th role)))"
    and ok: "hmac_ok hmac" "md5_ok md5"
  obtains more sent th' where
    "read_turn hmac md5 turn role (limiter, th) = (more, sent, limiter_after (if th_spLimiter th then Some (sender_at turn role th) else None) (tn_now turn) limiter, th')"
    "thread_ok th'" "same_thread th th'" "turn_answered hmac md5 th (input_at turn role limiter th) sent"
    "th_fNeedToExit th' = (\<not> more)" "mi_addrRemote (th_msgIn th') = sender_at turn role th"
    "more \<or> tn_exit_after_recv turn"
proof -
  obtain b where b: "th_spBufferIn th = Some b" "buffer_ok b" "cb_allocated b = 800"
    using th(1) by (auto simp: thread_ok_def buffer800_def)
  let ?b = "snd (CB_SetSize b 0)" and ?s = "socket_at th role" and ?m = "th_msgIn th"
  have b0: "buffer_ok ?b" "cb_allocated ?b = 800"
    using CB_SetSize_ok [OF b(2), of 0] b(3) by simp_all
  have ip: "is_ip_addr (mi_addrRemote ?m)" "is_ip_addr (mi_addrLocal ?m)"
    using th(1) by (simp_all add: thread_ok_def)
  obtain ret b' src dst where r: "recvfromex (tn_recv turn (sk_sock ?s)) ?b (mi_addrRemote ?m) (mi_addrLocal ?m) = (ret, b', src, dst)"
    "buffer_ok b'" "cb_allocated b' = 800" "is_ip_addr src" "is_ip_addr dst"
    "case tn_recv turn (sk_sock ?s) of None \<Rightarrow> ret = -1 \<and> src = mi_addrRemote ?m
     | Some (d, a, pk) \<Rightarrow> ret = int (length (take 800 d)) \<and> buffer_ok (snd (CB_SetSize b' (nat ret))) \<and>
         cb_allocated (snd (CB_SetSize b' (nat ret))) = 800 \<and> cb_contents (snd (CB_SetSize b' (nat ret))) = take 800 d \<and>
         (if d = [] then src = mi_addrRemote ?m else src = a \<and> dst = arrival a pk)"
    using recvfromex_ok [OF b0 rf ip] by blast
  let ?loc = "if ret \<ge> 0 then SetPort dst (GetPort (sk_addrlocal ?s)) else dst"
  define th1 where "th1 = th\<lparr>th_spBufferIn := Some b', th_msgIn := ?m\<lparr>mi_addrRemote := src, mi_addrLocal := ?loc\<rparr>\<rparr>"
  have th1: "thread_ok th1" "same_thread th th1" "\<not> th_fNeedToExit th1"
    using th r(2-5) SetPort_ip by (simp_all add: th1_def thread_ok_def same_thread_def buffer800_def)
  define pass where "pass \<longleftrightarrow> \<not> th_spLimiter th \<or> fst (RateCheck limiter src (tn_now turn))"
  have ch: "sender_at turn role th = src"
    using r(6) by (auto simp: sender_at_def split: option.splits if_splits)
  define lim where "lim = limiter_after (if th_spLimiter th then Some (sender_at turn role th) else None) (tn_now turn) limiter"
  have rc: "th_spLimiter th \<Longrightarrow> RateCheck limiter src (tn_now turn) = (pass, lim)" "\<not> th_spLimiter th \<Longrightarrow> pass \<and> lim = limiter"
    by (auto simp: pass_def lim_def ch limiter_after_def)
  define th2 where "th2 = th1\<lparr>th_spBufferIn := Some (snd (CB_SetSize b' (nat ret))),
      th_msgIn := (th_msgIn th1)\<lparr>mi_socketrole := sk_role ?s\<rparr>\<rparr>"
  have run: "read_turn hmac md5 turn role (limiter, th) =
    (if ret < 0 \<or> \<not> pass then (True, [], lim, th1)
     else if tn_exit_after_recv turn then (False, [], lim, th1\<lparr>th_fNeedToExit := True\<rparr>)
     else (True, fst (snd (ProcessRequestAndSendResponse hmac md5 th2)), lim, snd (snd (ProcessRequestAndSendResponse hmac md5 th2))))"
    using b(1) r(1) rc by (cases "th_spLimiter th") (simp_all add: read_turn_def th1_def th2_def case_prod_beta Let_def del: CB_SetSize_eq)
  have inp: "input_at turn role limiter th = (if ret \<le> 0 \<or> tn_exit_after_recv turn \<or> \<not> pass then None
      else (case tn_recv turn (sk_sock ?s) of Some (d, a, pk) \<Rightarrow>
        Some (request_in (sk_role ?s) (SetPort dst (GetPort (sk_addrlocal ?s))) src (take 800 d), take 800 d)))"
  proof (cases "tn_recv turn (sk_sock ?s)")
    case (Some x)
    obtain d a pk where x: "x = (d, a, pk)"
      by (rule prod_cases3)
    have "ret = int (min (length d) 800)" "if d = [] then src = mi_addrRemote ?m else src = a \<and> dst = arrival a pk"
      using r(6) by (simp_all add: Some x)
    moreover from this(1) have "ret \<le> 0 \<longleftrightarrow> d = []"
      by (auto simp: min_def split: if_splits)
    ultimately show ?thesis
      by (cases "d = []") (auto simp: input_at_def pass_def Let_def Some x)
  qed (use r(6) in \<open>simp add: input_at_def Let_def\<close>)
  show thesis
  proof (cases "ret < 0 \<or> \<not> pass \<or> tn_exit_after_recv turn")
    case True
    then have n: "turn_answered hmac md5 th (input_at turn role limiter th) []"
      by (auto simp: inp turn_answered_def)
    have "thread_ok (th1\<lparr>th_fNeedToExit := True\<rparr>)" "same_thread th (th1\<lparr>th_fNeedToExit := True\<rparr>)"
      using th1 by (simp_all add: thread_ok_def same_thread_def)
    moreover have "mi_addrRemote (th_msgIn th1) = sender_at turn role th"
      by (simp add: ch th1_def)
    ultimately show thesis
      using that [of True "[]" th1] that [of False "[]" "th1\<lparr>th_fNeedToExit := True\<rparr>"] True n th1 run
      by (auto simp: lim_def split: if_splits)
  next
    case False
    then obtain d a pk where d: "tn_recv turn (sk_sock ?s) = Some (d, a, pk)" "ret = int (length (take 800 d))"
      "buffer_ok (snd (CB_SetSize b' (nat ret)))" "cb_allocated (snd (CB_SetSize b' (nat ret))) = 800"
      "cb_contents (snd (CB_SetSize b' (nat ret))) = take 800 d"
      using r(6) by (auto split: option.splits)
    have th2: "thread_ok th2" "same_thread th th2" "th_fNeedToExit th2 = th_fNeedToExit th"
      using th1 th(2) d(3,4) by (simp_all add: th2_def thread_ok_def same_thread_def buffer800_def del: CB_SetSize_eq)
    let ?msg = "request_in (sk_role ?s) (SetPort dst (GetPort (sk_addrlocal ?s))) src (take 800 d)"
    have m2: "request_in (mi_socketrole (th_msgIn th2)) (mi_addrLocal (th_msgIn th2)) (mi_addrRemote (th_msgIn th2)) (take 800 d) = ?msg"
      using False by (simp add: th2_def th1_def)
    have bi: "th_spBufferIn th2 = Some (snd (CB_SetSize b' (nat ret)))"
      by (simp add: th2_def del: CB_SetSize_eq)
    have len: "length (take 800 d) \<le> 800"
      by simp
    obtain hr sent th' where p: "ProcessRequestAndSendResponse hmac md5 th2 = (hr, sent, th')" "thread_ok th'"
      "same_thread th2 th'" "th_fNeedToExit th' = th_fNeedToExit th2"
      "answered hmac (socket_at th2) ?msg (datagram_reply hmac md5 (th_tsa th2) (th_spAuth th2) ?msg (take 800 d)) sent"
      "mi_addrRemote (th_msgIn th') = mi_addrRemote (th_msgIn th2)"
      by (rule process_datagram [OF th2(1) bi d(5) len ok, unfolded m2]) blast
    have eq: "socket_at th2 = socket_at th" "th_tsa th2 = th_tsa th" "th_spAuth th2 = th_spAuth th"
      using th2(2) same_thread_socket [OF th2(2)] by (simp_all add: same_thread_def)
    have "turn_answered hmac md5 th (input_at turn role limiter th) sent"
    proof (cases "d = []")
      case True
      then show ?thesis
        using p(5) d(2) by (simp add: inp turn_answered_def no_bytes_no_reply answered_def)
    next
      case nonempty: False
      then show ?thesis
        using p(5) False d(1,2) unfolding eq by (simp add: inp turn_answered_def min_def)
    qed
    moreover have "mi_addrRemote (th_msgIn th') = sender_at turn role th"
      using p(6) by (simp add: ch th2_def th1_def)
    ultimately show thesis
      using that [of True sent th'] run False p(1-4) same_thread_trans [OF th2(2) p(3)] th2(3) th(2)
      by (simp add: lim_def)
  qed
qed


lemma Run_turn_ok:
  assumes th: "thread_ok th" and rf: "\<forall>fd. recv_fine (tn_recv turn fd)" and ok: "hmac_ok hmac" "md5_ok md5"
  obtains more sent th' where
    "Run_turn hmac md5 turn (limiter, th) = (more, sent, limiter_after (charged turn th) (tn_now turn) limiter, th')"
    "thread_ok th'" "same_thread th th'" "turn_answered hmac md5 th (turn_input turn limiter th) sent"
    "th_fNeedToExit th' = (\<not> more)" "mi_addrRemote (th_msgIn th') = sender_after turn th"
    "more \<or> th_fNeedToExit th \<or> length (th_socks th) > 1 \<and> tn_exit_after_wait turn \<or> tn_exit_after_recv turn"
proof -
  have quiet: "turn_answered hmac md5 th (turn_input turn limiter th) []" "charged turn th = None"
    "sender_after turn th = mi_addrRemote (th_msgIn th)" if "turn_socket turn th = None"
    using that by (simp_all add: turn_answered_def turn_input_def charged_def sender_after_def)
  show thesis
  proof (cases "th_fNeedToExit th")
    case True
    then have "turn_socket turn th = None"
      by (simp add: turn_socket_def)
    with quiet that [of False "[]" th] Run_turn_cases(1) [OF True, of hmac md5 turn limiter] th True show thesis
      by (simp add: limiter_after_def)
  next
    case False
    show thesis
    proof (cases "length (th_socks th) \<le> 1")
      case single: True
      let ?role = "th_socks th ! 0"
      have s: "turn_socket turn th = Some ?role"
        using False single by (simp add: turn_socket_def)
      have "recv_fine (tn_recv turn (sk_sock (socket_at th ?role)))"
        using rf by blast
      then show thesis
        by (rule read_turn_ok [OF th False _ ok, where limiter = limiter])
          (rule that, auto simp: Run_turn_cases(2) [OF False single] charged_def sender_after_def turn_input_def s)
    next
      case multi: False
      let ?w = "WaitForSocketData (tn_ready turn) th"
      note f = WaitForSocketData_frame [where th = th and ready = "tn_ready turn"]
      have ne: "th_fNeedToExit (snd ?w) = False" "th_spAuth (snd ?w) = th_spAuth th" "th_tsa (snd ?w) = th_tsa th"
        "th_spLimiter (snd ?w) = th_spLimiter th" "mi_addrRemote (th_msgIn (snd ?w)) = mi_addrRemote (th_msgIn th)"
        using False by (simp_all add: WaitForSocketData_def Let_def)
      show thesis
      proof (cases "tn_exit_after_wait turn")
        case True
        then have s: "turn_socket turn th = None"
          using False multi by (simp add: turn_socket_def)
        have "thread_ok ((snd ?w)\<lparr>th_fNeedToExit := True\<rparr>)" "same_thread th ((snd ?w)\<lparr>th_fNeedToExit := True\<rparr>)"
          using f(1,2) th by (simp_all add: thread_ok_def same_thread_def)
        with quiet [OF s] Run_turn_cases(3) [OF False multi True, of hmac md5 limiter] ne(5) True multi show thesis
          by (intro that [of False "[]" "(snd ?w)\<lparr>th_fNeedToExit := True\<rparr>"]) (simp_all add: limiter_after_def)
      next
        case go: False
        have s: "turn_socket turn th = fst ?w"
          using False multi go by (simp add: turn_socket_def)
        show thesis
        proof (cases "fst ?w")
          case None
          then show thesis
            using quiet s Run_turn_cases(4) [OF False multi go, of hmac md5 limiter] f(1,2) th ne
            by (intro that [of True "[]" "snd ?w"]) (simp_all add: limiter_after_def case_prod_beta)
        next
          case (Some role)
          have e: "Run_turn hmac md5 turn (limiter, th) = read_turn hmac md5 turn role (limiter, snd ?w)"
            using Run_turn_cases(4) [OF False multi go, of hmac md5 limiter] Some by (simp add: case_prod_beta)
          have i: "input_at turn role limiter (snd ?w) = input_at turn role limiter th"
            "sender_at turn role (snd ?w) = sender_at turn role th"
            unfolding input_at_def sender_at_def f(4,5) ne(4) by (rule refl)+
          have an: "turn_answered hmac md5 (snd ?w) x s = turn_answered hmac md5 th x s" for x s
            unfolding turn_answered_def f(5) ne by (rule refl)
          have a: "\<not> th_fNeedToExit (snd ?w)" "recv_fine (tn_recv turn (sk_sock (socket_at (snd ?w) role)))"
            using rf ne(1) by simp_all
          show thesis
          proof (rule read_turn_ok [OF f(1) [OF th] a ok, where limiter = limiter])
            fix more sent th'
            assume r: "read_turn hmac md5 turn role (limiter, snd ?w) =
                (more, sent, limiter_after (if th_spLimiter (snd ?w) then Some (sender_at turn role (snd ?w)) else None) (tn_now turn) limiter, th')"
              "thread_ok th'" "same_thread (snd ?w) th'"
              "turn_answered hmac md5 (snd ?w) (input_at turn role limiter (snd ?w)) sent" "th_fNeedToExit th' = (\<not> more)"
              "mi_addrRemote (th_msgIn th') = sender_at turn role (snd ?w)" "more \<or> tn_exit_after_recv turn"
            show thesis
              using r same_thread_trans [OF f(2) r(3)] s Some
              by (intro that [of more sent th']) (auto simp: e i an ne(4) charged_def sender_after_def turn_input_def)
          qed
        qed
      qed
    qed
  qed
qed

section \<open>Initialisation and runs\<close>

lemma InitThreadBuffers_ok:
  assumes "reader_alive (th_reader th)"
  shows "fst (InitThreadBuffers th) = S_OK" "reader_alive (th_reader (snd (InitThreadBuffers th)))"
    "buffer800 (th_spBufferReader (snd (InitThreadBuffers th)))" "buffer800 (th_spBufferIn (snd (InitThreadBuffers th)))"
    "buffer_ready (th_msgOut (snd (InitThreadBuffers th)))" "\<not> mi_fConnectionOriented (th_msgIn (snd (InitThreadBuffers th)))"
    "mi_addrRemote (th_msgIn (snd (InitThreadBuffers th))) = mi_addrRemote (th_msgIn th)"
    "mi_addrLocal (th_msgIn (snd (InitThreadBuffers th))) = mi_addrLocal (th_msgIn th)"
    "th_arrSendSockets (snd (InitThreadBuffers th)) = th_arrSendSockets th" "th_socks (snd (InitThreadBuffers th)) = th_socks th"
    "th_tsa (snd (InitThreadBuffers th)) = th_tsa th" "th_fThreadIsValid (snd (InitThreadBuffers th)) = th_fThreadIsValid th"
proof -
  have b: "buffer_ok (CB_new MAX_STUN_MESSAGE_SIZE)" "cb_allocated (CB_new MAX_STUN_MESSAGE_SIZE) = 800"
    by (simp_all add: buffer_ok_def CB_new_def CB_InitWithAllocation_def stun_consts)
  show "buffer800 (th_spBufferReader (snd (InitThreadBuffers th)))"
    using b CB_SetSize_ok [OF b(1), of 0] by (simp add: InitThreadBuffers_def MR_Attach_def DS_Attach_def Let_def buffer800_def)
  show "buffer800 (th_spBufferIn (snd (InitThreadBuffers th)))" "buffer_ready (th_msgOut (snd (InitThreadBuffers th)))"
    using b by (simp_all add: InitThreadBuffers_def Let_def buffer800_def buffer_ready_def stun_consts)
  show "reader_alive (th_reader (snd (InitThreadBuffers th)))"
    using MR_Attach_ok(2) [OF assms b(1)] by (simp add: InitThreadBuffers_def Let_def)
qed (simp_all add: InitThreadBuffers_def Let_def)

text \<open>A thread that is new, or that was stopped.\<close>

definition thread_idle :: "CStunSocketThread \<Rightarrow> bool" where
  "thread_idle th \<longleftrightarrow> \<not> th_fThreadIsValid th \<and> th_socks th = [] \<and> reader_alive (th_reader th) \<and>
     is_ip_addr (mi_addrRemote (th_msgIn th)) \<and> is_ip_addr (mi_addrLocal (th_msgIn th))"

lemma new_thread_idle: "thread_idle CStunSocketThread_new"
  by (simp add: thread_idle_def CStunSocketThread_new_def ClearSocketArray_def)

definition listening :: "(SocketRole \<Rightarrow> CStunSocket) \<Rightarrow> SocketRole option \<Rightarrow> SocketRole list" where
  "listening arr rp = (case rp of Some r \<Rightarrow> [r] | None \<Rightarrow> filter (\<lambda>r. Socket_IsValid (arr r)) all_roles)"

lemma Thread_Init_ok:
  assumes th: "thread_idle th" and tsa: "\<forall>r. is_ip_addr (ta_addr (tsa r))"
    and s: "listening arr rp \<noteq> []" "\<forall>r\<in>set (listening arr rp). Socket_IsValid (arr r)"
  obtains th' where "Thread_Init th (Some arr) (Some tsa) pAuth rp lim = (S_OK, th')" "thread_ok th'"
    "th_arrSendSockets th' = Some arr" "th_socks th' = listening arr rp" "th_tsa th' = tsa" "th_spAuth th' = pAuth"
    "th_spLimiter th' = lim" "\<not> th_fNeedToExit th'" "\<not> th_fThreadIsValid th'"
proof -
  define th1 where "th1 = th\<lparr>th_arrSendSockets := Some arr, th_tsa := tsa, th_socks := listening arr rp\<rparr>"
  have "reader_alive (th_reader th1)"
    using th by (simp add: th1_def thread_idle_def)
  note b = InitThreadBuffers_ok [OF this]
  let ?th = "(snd (InitThreadBuffers th1))\<lparr>th_fNeedToExit := False, th_rotation := 0, th_spAuth := pAuth, th_spLimiter := lim\<rparr>"
  have "Thread_Init th (Some arr) (Some tsa) pAuth rp lim = chk (InitThreadBuffers th1)
      (\<lambda>th. (S_OK, th\<lparr>th_fNeedToExit := False, th_rotation := 0, th_spAuth := pAuth, th_spLimiter := lim\<rparr>))"
    using th s(2) by (cases rp) (simp_all add: Thread_Init_def thread_idle_def listening_def th1_def Let_def)
  also have "\<dots> = (S_OK, ?th)"
    using b(1) by (cases "InitThreadBuffers th1") (simp add: chk_def)
  finally show thesis
    using b(2-) th tsa s(1) by (intro that [of ?th]) (simp_all add: thread_ok_def th1_def thread_idle_def)
qed

lemma Run_ok:
  assumes "thread_ok th" "list_all (\<lambda>t. \<forall>fd. recv_fine (tn_recv t fd)) turns" "hmac_ok hmac" "md5_ok md5"
  shows "thread_ok (snd (snd (Run hmac md5 turns (limiter, th))))" "same_thread th (snd (snd (Run hmac md5 turns (limiter, th))))"
    "list_all (\<lambda>s. length s \<le> 1) (fst (Run hmac md5 turns (limiter, th)))"
    "th_spLimiter th \<longrightarrow> limiter_map limiter m \<longrightarrow> (\<exists>m'. limiter_map (fst (snd (Run hmac md5 turns (limiter, th)))) m')"
proof -
  have "thread_ok (snd (snd (Run hmac md5 turns (limiter, th)))) \<and> same_thread th (snd (snd (Run hmac md5 turns (limiter, th)))) \<and>
    list_all (\<lambda>s. length s \<le> 1) (fst (Run hmac md5 turns (limiter, th))) \<and>
    (limiter_map limiter m \<longrightarrow> (\<exists>m'. limiter_map (fst (snd (Run hmac md5 turns (limiter, th)))) m'))"
    using assms(1,2)
  proof (induction turns arbitrary: limiter th m)
    case (Cons turn turns)
    have rf: "\<forall>fd. recv_fine (tn_recv turn fd)"
      using Cons.prems(2) by simp
    obtain more sent th' where r: "Run_turn hmac md5 turn (limiter, th)
        = (more, sent, limiter_after (charged turn th) (tn_now turn) limiter, th')"
      "thread_ok th'" "same_thread th th'" "turn_answered hmac md5 th (turn_input turn limiter th) sent"
      by (rule Run_turn_ok [OF Cons.prems(1) rf assms(3,4)]) blast
    have one: "length sent \<le> 1"
      using r(4) by (auto simp: turn_answered_def answered_def split: option.splits)
    let ?lim = "limiter_after (charged turn th) (tn_now turn) limiter"
    have ih: "thread_ok (snd (snd (Run hmac md5 turns (?lim, th')))) \<and> same_thread th' (snd (snd (Run hmac md5 turns (?lim, th')))) \<and>
      list_all (\<lambda>s. length s \<le> 1) (fst (Run hmac md5 turns (?lim, th'))) \<and>
      (limiter_map ?lim m' \<longrightarrow> (\<exists>m'. limiter_map (fst (snd (Run hmac md5 turns (?lim, th')))) m'))" for m'
      using Cons.prems(2) by (intro Cons.IH [OF r(2)]) simp
    then show ?case
      using r one same_thread_trans [OF r(3)] limiter_after_map [of limiter m "charged turn th" "tn_now turn"]
      by (cases more) (auto simp: Let_def case_prod_beta)
  qed auto
  then show "thread_ok (snd (snd (Run hmac md5 turns (limiter, th))))" "same_thread th (snd (snd (Run hmac md5 turns (limiter, th))))"
    "list_all (\<lambda>s. length s \<le> 1) (fst (Run hmac md5 turns (limiter, th)))"
    "th_spLimiter th \<longrightarrow> limiter_map limiter m \<longrightarrow> (\<exists>m'. limiter_map (fst (snd (Run hmac md5 turns (limiter, th)))) m')"
    by blast+
qed

section \<open>The wait is fair\<close>

fun waits :: "(int \<Rightarrow> bool) list \<Rightarrow> CStunSocketThread \<Rightarrow> SocketRole option list" where
  "waits [] th = []"
| "waits (ready # rs) th = (let (s, th) = WaitForSocketData ready th in s # waits rs th)"

lemma waits_first:
  assumes "i < length (th_socks th)" "\<forall>r\<in>set rs. r (sk_sock (socket_at th (th_socks th ! i)))" "k < length rs"
    "(th_rotation th + Suc k) mod length (th_socks th) = i"
  shows "waits rs th ! k = Some (th_socks th ! i)"
  using assms
proof (induction rs arbitrary: th k)
  case (Cons r rs)
  let ?n = "length (th_socks th)" and ?w = "WaitForSocketData r th"
  have "0 < ?n"
    by (rule le_less_trans [OF le0 Cons.prems(1)])
  then have n: "[0..<?n] = 0 # [Suc 0..<?n]"
    by (rule upt_conv_Cons)
  show ?case
  proof (cases k)
    case 0
    have "(0 + Suc (th_rotation th) mod ?n) mod ?n = (th_rotation th + Suc k) mod ?n"
      by (simp add: 0)
    then have "(0 + Suc (th_rotation th) mod ?n) mod ?n = i"
      by (simp only: Cons.prems(4))
    then show ?thesis
      using 0 Cons.prems(1,2) by (simp add: WaitForSocketData_def Let_def n socket_at_def)
  next
    case (Suc k')
    have f: "th_socks (snd ?w) = th_socks th" "socket_at (snd ?w) = socket_at th" "th_rotation (snd ?w) = (th_rotation th + 1) mod ?n"
      by (simp_all add: WaitForSocketData_def Let_def socket_at_def fun_eq_iff)
    have "(th_rotation (snd ?w) + Suc k') mod ?n = (th_rotation th + 1 + Suc k') mod ?n"
      unfolding f(3) by (rule mod_add_left_eq)
    then have "(th_rotation (snd ?w) + Suc k') mod ?n = i"
      using Cons.prems(4) Suc by simp
    with Cons.IH [of "snd ?w" k'] Cons.prems(1-3) Suc f show ?thesis
      by (auto simp: case_prod_beta)
  qed
qed simp

lemma rotation_reaches:
  assumes "i < (n :: nat)"
  obtains k where "k < n" "(rot + Suc k) mod n = i"
proof -
  define k where "k = (i + (n - 1 - rot mod n)) mod n"
  have "(rot + Suc k) mod n = (rot mod n + Suc k) mod n"
    by (rule mod_add_left_eq [symmetric])
  also have "\<dots> = (rot mod n + 1 + (i + (n - 1 - rot mod n)) mod n) mod n"
    by (simp add: k_def)
  also have "\<dots> = (rot mod n + 1 + (i + (n - 1 - rot mod n))) mod n"
    by (rule mod_add_right_eq)
  also have "rot mod n + 1 + (i + (n - 1 - rot mod n)) = n + i"
    using assms mod_less_divisor [of n rot] by linarith
  finally have "(rot + Suc k) mod n = i"
    using assms by simp
  moreover have "k < n"
    using assms by (simp add: k_def)
  ultimately show thesis
    using that by blast
qed

section \<open>Properties\<close>

definition example_sockets :: "SocketRole \<Rightarrow> CStunSocket" where
  "example_sockets role = \<lparr>sk_sock = 3 + uint (SocketRole_val role), sk_addrlocal = CSocketAddress_ipv4 0x0A000001 3478,
     sk_addrremote = CSocketAddress_default, sk_role = role\<rparr>"

definition example_thread :: "SocketRole option \<Rightarrow> CStunSocketThread" where
  "example_thread rp = snd (Thread_Init CStunSocketThread_new (Some example_sockets) (Some tsa_zero) None rp True)"

lemma example_thread:
  "thread_ok (example_thread rp)" "socket_at (example_thread rp) = example_sockets"
  "th_socks (example_thread rp) = (case rp of Some r \<Rightarrow> [r] | None \<Rightarrow> all_roles)" "th_tsa (example_thread rp) = tsa_zero"
  "th_spAuth (example_thread rp) = None" "th_spLimiter (example_thread rp)" "\<not> th_fNeedToExit (example_thread rp)"
proof -
  have v: "Socket_IsValid (example_sockets r)" for r
    by (cases r) (simp_all add: Socket_IsValid_def example_sockets_def)
  have l: "listening example_sockets rp = (case rp of Some r \<Rightarrow> [r] | None \<Rightarrow> all_roles)"
    by (simp add: listening_def v split: option.splits)
  have s: "listening example_sockets rp \<noteq> []" "\<forall>r\<in>set (listening example_sockets rp). Socket_IsValid (example_sockets r)"
    by (simp_all add: l v all_roles_def split: option.splits)
  have tsa: "\<forall>r. is_ip_addr (ta_addr (tsa_zero r))"
    by (simp add: tsa_zero_def)
  obtain th where t: "Thread_Init CStunSocketThread_new (Some example_sockets) (Some tsa_zero) None rp True = (S_OK, th)"
    "thread_ok th" "th_arrSendSockets th = Some example_sockets" "th_socks th = listening example_sockets rp" "th_tsa th = tsa_zero"
    "th_spAuth th = None" "th_spLimiter th" "\<not> th_fNeedToExit th"
    by (rule Thread_Init_ok [OF new_thread_idle tsa s, where pAuth = None and lim = True]) blast
  then show "thread_ok (example_thread rp)" "socket_at (example_thread rp) = example_sockets"
    "th_socks (example_thread rp) = (case rp of Some r \<Rightarrow> [r] | None \<Rightarrow> all_roles)" "th_tsa (example_thread rp) = tsa_zero"
    "th_spAuth (example_thread rp) = None" "th_spLimiter (example_thread rp)" "\<not> th_fNeedToExit (example_thread rp)"
    by (simp_all add: example_thread_def l socket_at_def fun_eq_iff)
qed

definition example_turn :: ThreadTurn where
  "example_turn = \<lparr>tn_ready = (\<lambda>_. True), tn_recv = (\<lambda>_. Some (example_request, CSocketAddress_ipv4 0x0A000002 5000, None)),
     tn_now = 100, tn_exit_after_wait = False, tn_exit_after_recv = False\<rparr>"

definition example_limiter :: RateLimiter where
  "example_limiter = RateLimiter_init 100 False"

lemma example_limiter_map: "limiter_map example_limiter Map.empty"
  unfolding example_limiter_def by (rule RateLimiter_init_map) simp

text \<open>C13: in every state that a thread can reach, one turn of its loop either sends nothing, or, when a
  datagram arrived that the rate limiter lets pass and that is a valid request, sends one datagram:
  the reply of the handler's specification, from the socket of the chosen role to the chosen
  destination.  The thread and the limiter stay well formed.\<close>

theorem thread_turn_answers:
  assumes "thread_ok th" "limiter_map limiter m" "\<forall>fd. recv_fine (tn_recv turn fd)" "hmac_ok hmac" "md5_ok md5"
  shows "\<exists>more sent limiter' th' m'. Run_turn hmac md5 turn (limiter, th) = (more, sent, limiter', th') \<and>
    thread_ok th' \<and> same_thread th th' \<and> limiter_map limiter' m' \<and>
    (case turn_input turn limiter th of None \<Rightarrow> sent = []
     | Some (msgIn, d) \<Rightarrow> answered hmac (socket_at th) msgIn (datagram_reply hmac md5 (th_tsa th) (th_spAuth th) msgIn d) sent)"
proof -
  obtain m' where "limiter_map (limiter_after (charged turn th) (tn_now turn) limiter) m'"
    using limiter_after_map [OF assms(2)] by blast
  moreover obtain more sent th' where "Run_turn hmac md5 turn (limiter, th)
      = (more, sent, limiter_after (charged turn th) (tn_now turn) limiter, th')"
    "thread_ok th'" "same_thread th th'" "turn_answered hmac md5 th (turn_input turn limiter th) sent"
    by (rule Run_turn_ok [OF assms(1,3-5), where limiter = limiter]) blast
  ultimately show ?thesis
    unfolding turn_answered_def by blast
qed

lemma example_turn_input:
  "turn_input example_turn example_limiter (example_thread (Some RolePP)) =
     Some (request_in RolePP (SetPort (arrival (CSocketAddress_ipv4 0x0A000002 5000) None) 3478) (CSocketAddress_ipv4 0x0A000002 5000)
       example_request, example_request)"
proof -
  have len: "take 800 example_request = example_request" "example_request \<noteq> []"
    by (simp_all add: example_request_def msg_wire_def length_attr_wire attrs_wire_def example_attrs_def example_tid_def padding_of_def wire_value_def)
  have "fst (RateCheck example_limiter a 100)" for a
    using RateCheck_step(1) [OF example_limiter_map, of a 100] by (simp add: rate_step_def)
  then show ?thesis
    by (simp add: turn_input_def turn_socket_def example_thread input_at_def example_turn_def len example_sockets_def Let_def
        CSocketAddress_ipv4_def GetPort_def GetPort_NBO_def)
qed

lemma example_datagram_reply:
  "datagram_reply example_hmac example_md5 tsa None (request_in RolePP loc a example_request) example_request =
     Some (BindingReply RolePP None)"
proof -
  have v: "spec_state True example_request = BodyValidated"
    unfolding example_request_def using msg_wire_valid(1) [OF example_ok, of True] by simp
  then show ?thesis
    using example_decisions example_parsed feed_single_parsed [OF v]
    by (simp add: datagram_reply_def reply_spec_def request_refused_def auth_decision_def output_role_def changed_role_def request_in_def)
qed

theorem thread_turn_answers_witness:
  "\<exists>more sent limiter' th'. Run_turn example_hmac example_md5 example_turn (example_limiter, example_thread (Some RolePP))
      = (more, sent, limiter', th') \<and>
    answered example_hmac example_sockets
      (request_in RolePP (SetPort (arrival (CSocketAddress_ipv4 0x0A000002 5000) None) 3478) (CSocketAddress_ipv4 0x0A000002 5000)
       example_request) (Some (BindingReply RolePP None)) sent"
proof -
  have "\<forall>fd. recv_fine (tn_recv example_turn fd)"
    by (simp add: example_turn_def recv_fine_def)
  from thread_turn_answers [OF example_thread(1) example_limiter_map this example_hash_ok, of "Some RolePP"] show ?thesis
    by (simp add: example_turn_input example_thread example_datagram_reply) blast
qed


text \<open>C14: a thread that was initialised with a socket to listen on keeps its buffers, reader, sockets and addresses well formed
  through any run of its loop, whatever arrives, and sends at most one datagram per turn.\<close>

theorem thread_run_invariant:
  assumes "Thread_Init CStunSocketThread_new (Some arr) (Some tsa) pAuth rp lim = (S_OK, th)"
    "\<forall>r. is_ip_addr (ta_addr (tsa r))" "listening arr rp \<noteq> []"
    "list_all (\<lambda>t. \<forall>fd. recv_fine (tn_recv t fd)) turns" "hmac_ok hmac" "md5_ok md5"
    "Run hmac md5 turns (limiter, th) = (out, limiter', th')"
  shows "thread_ok th' \<and> th_arrSendSockets th' = Some arr \<and> th_socks th' = listening arr rp \<and> th_tsa th' = tsa \<and>
    list_all (\<lambda>s. length s \<le> 1) out"
proof -
  have v: "\<forall>r\<in>set (listening arr rp). Socket_IsValid (arr r)"
    using assms(1) by (auto simp: Thread_Init_def CStunSocketThread_new_def ClearSocketArray_def listening_def hr_defs split: option.splits if_splits)
  obtain th0 where "Thread_Init CStunSocketThread_new (Some arr) (Some tsa) pAuth rp lim = (S_OK, th0)" "thread_ok th0"
    "th_arrSendSockets th0 = Some arr" "th_socks th0 = listening arr rp" "th_tsa th0 = tsa"
    by (rule Thread_Init_ok [OF new_thread_idle assms(2,3) v, where pAuth = pAuth and lim = lim]) blast
  with assms(1) have th: "thread_ok th" "th_arrSendSockets th = Some arr" "th_socks th = listening arr rp" "th_tsa th = tsa"
    by simp_all
  from Run_ok(1-3) [OF th(1) assms(4-6), of limiter] th(2-4) show ?thesis
    by (simp add: assms(7) same_thread_def)
qed

theorem thread_run_invariant_witness:
  "\<exists>out limiter' th'. Run example_hmac example_md5 [example_turn, example_turn]
      (example_limiter, snd (Thread_Init CStunSocketThread_new (Some example_sockets) (Some tsa_zero) None None True)) = (out, limiter', th') \<and>
    thread_ok th' \<and> th_socks th' = all_roles \<and> list_all (\<lambda>s. length s \<le> 1) out"
proof -
  have l: "listening example_sockets None = all_roles"
    by (simp add: listening_def all_roles_def Socket_IsValid_def example_sockets_def)
  have i: "Thread_Init CStunSocketThread_new (Some example_sockets) (Some tsa_zero) None None True
      = (S_OK, snd (Thread_Init CStunSocketThread_new (Some example_sockets) (Some tsa_zero) None None True))"
    by (simp add: Thread_Init_def CStunSocketThread_new_def ClearSocketArray_def InitThreadBuffers_def chk_def Let_def)
  have r: "\<forall>fd. recv_fine (tn_recv example_turn fd)"
    by (simp add: example_turn_def recv_fine_def)
  obtain out limiter' th' where o: "Run example_hmac example_md5 [example_turn, example_turn]
      (example_limiter, snd (Thread_Init CStunSocketThread_new (Some example_sockets) (Some tsa_zero) None None True)) = (out, limiter', th')"
    by (rule prod_cases3)
  show ?thesis
    using thread_run_invariant [OF i _ _ _ example_hash_ok o] o l r by (simp add: tsa_zero_def all_roles_def)
qed

text \<open>C15: the wait for data is fair: a socket that has data in as many consecutive calls as there are
  sockets is the one chosen in one of them, whatever the others have.\<close>

theorem ready_socket_served:
  assumes "i < length (th_socks th)" "length (th_socks th) \<le> length rs"
    "\<forall>ready\<in>set rs. ready (sk_sock (socket_at th (th_socks th ! i)))"
  shows "\<exists>k < length (th_socks th). waits rs th ! k = Some (th_socks th ! i)"
proof -
  obtain k where "k < length (th_socks th)" "(th_rotation th + Suc k) mod length (th_socks th) = i"
    using rotation_reaches [OF assms(1), of "th_rotation th"] by metis
  with waits_first [OF assms(1,3), of k] assms(2) show ?thesis
    by auto
qed

theorem ready_socket_served_witness:
  "\<exists>k < 4. waits (replicate 4 (\<lambda>_. True)) (example_thread None) ! k = Some RoleAA"
proof -
  have "th_socks (example_thread None) = all_roles" "length all_roles = 4" "all_roles ! 3 = RoleAA"
    by (simp_all add: example_thread all_roles_def)
  with ready_socket_served [of 3 "example_thread None" "replicate 4 (\<lambda>_. True)"] show ?thesis
    by simp
qed


text \<open>Turns that deliver an empty datagram or a failed \<open>recvmsg\<close>, from whomever.\<close>

definition no_data :: "ThreadTurn \<Rightarrow> bool" where
  "no_data turn \<longleftrightarrow> (\<forall>fd. case tn_recv turn fd of None \<Rightarrow> True
     | Some (d, a, pk) \<Rightarrow> d = [] \<and> is_ip_addr a \<and> (\<forall>p. pk = Some p \<longrightarrow> is_ip_addr p)) \<and> \<not> tn_exit_after_recv turn"

lemma no_data_fine: "no_data turn \<Longrightarrow> \<forall>fd. recv_fine (tn_recv turn fd)"
  by (fastforce simp: no_data_def recv_fine_def split: option.splits)

lemma no_data_empty: "no_data turn \<Longrightarrow> tn_recv turn fd = Some (d, a, pk) \<Longrightarrow> d = []"
proof -
  assume "no_data turn" and r: "tn_recv turn fd = Some (d, a, pk)"
  then have "case tn_recv turn fd of None \<Rightarrow> True
     | Some (d, a, pk) \<Rightarrow> d = [] \<and> is_ip_addr a \<and> (\<forall>p. pk = Some p \<longrightarrow> is_ip_addr p)"
    unfolding no_data_def by blast
  with r show ?thesis
    by simp
qed

lemma no_data_sender: "no_data turn \<Longrightarrow> sender_after turn th = mi_addrRemote (th_msgIn th)"
  using no_data_empty [of turn] by (auto simp: sender_after_def sender_at_def split: option.splits)

lemma no_data_run:
  assumes "thread_ok th" "length (th_socks th) = 1" "th_spLimiter th" "\<not> th_fNeedToExit th" "list_all no_data turns"
    "hmac_ok hmac" "md5_ok md5"
  shows "\<exists>out th'. Run hmac md5 turns (limiter, th) =
      (out, snd (rate_run limiter (map (\<lambda>t. (mi_addrRemote (th_msgIn th), tn_now t)) turns)), th') \<and>
    thread_ok th' \<and> same_thread th th' \<and> \<not> th_fNeedToExit th'"
  using assms(1-5)
proof (induction turns arbitrary: limiter th)
  case (Cons turn turns)
  note c = Cons.prems
  have nd: "no_data turn"
    using c(5) by simp
  obtain more sent th1 where r: "Run_turn hmac md5 turn (limiter, th)
      = (more, sent, limiter_after (charged turn th) (tn_now turn) limiter, th1)"
    "thread_ok th1" "same_thread th th1" "turn_answered hmac md5 th (turn_input turn limiter th) sent"
    "th_fNeedToExit th1 = (\<not> more)" "mi_addrRemote (th_msgIn th1) = sender_after turn th"
    "more \<or> th_fNeedToExit th \<or> length (th_socks th) > 1 \<and> tn_exit_after_wait turn \<or> tn_exit_after_recv turn"
    by (rule Run_turn_ok [OF c(1) no_data_fine [OF nd] assms(6,7), where limiter = limiter]) blast
  have s: "turn_socket turn th = Some (th_socks th ! 0)"
    using c(2,4) by (simp add: turn_socket_def)
  have more: "more"
    using r(7) c(2,4) nd by (auto simp: no_data_def)
  have "charged turn th = Some (mi_addrRemote (th_msgIn th))"
    using s c(3) no_data_sender [OF nd] by (simp add: charged_def)
  then have lim: "limiter_after (charged turn th) (tn_now turn) limiter = snd (RateCheck limiter (mi_addrRemote (th_msgIn th)) (tn_now turn))"
    by (simp add: limiter_after_def)
  have p: "length (th_socks th1) = 1" "th_spLimiter th1" "\<not> th_fNeedToExit th1" "mi_addrRemote (th_msgIn th1) = mi_addrRemote (th_msgIn th)"
    using r(3,5,6) more c no_data_sender [OF nd] by (simp_all add: same_thread_def)
  from Cons.IH [OF r(2) p(1-3), of "limiter_after (charged turn th) (tn_now turn) limiter"] c(5) show ?case
    using r(1,3) more p(4) lim same_thread_trans [OF r(3)] by (auto simp: case_prod_beta Let_def)
qed auto


text \<open>C16: the thread asks the rate limiter about the sender it remembers, also when a turn brought no data
  and so no sender.  With one socket and a limiter that has seen no one yet, one request of a
  client and 58 empty datagrams from anyone, within a minute, are therefore enough that the client's next request is refused.\<close>

theorem empty_datagrams_charge_last_sender:
  assumes "thread_ok th" "length (th_socks th) = 1" "th_spLimiter th" "\<not> th_fNeedToExit th" "60 \<le> tablesize" "0 \<le> a"
    and first: "tn_recv first (sk_sock (socket_at th (th_socks th ! 0))) = Some (d0, victim, pk0)" "d0 \<noteq> []"
      "\<forall>fd. recv_fine (tn_recv first fd)" "\<not> tn_exit_after_recv first"
    and empties: "list_all no_data empties" "length empties = 58"
    and after: "tn_recv after (sk_sock (socket_at th (th_socks th ! 0))) = Some (d1, victim, pk1)" "\<forall>fd. recv_fine (tn_recv after fd)"
    and times: "list_all (\<lambda>t. a \<le> tn_now t \<and> tn_now t \<le> a + 60) (first # empties @ [after])" and ok: "hmac_ok hmac" "md5_ok md5"
  shows "\<exists>out limiter' th'. Run hmac md5 (first # empties) (RateLimiter_init tablesize lock, th) = (out, limiter', th') \<and>
    fst (snd (Run_turn hmac md5 after (limiter', th'))) = []"
proof -
  let ?L = "RateLimiter_init tablesize lock" and ?k = "tracker_address victim"
  obtain more sent th1 where r: "Run_turn hmac md5 first (?L, th) = (more, sent, limiter_after (charged first th) (tn_now first) ?L, th1)"
    "thread_ok th1" "same_thread th th1" "th_fNeedToExit th1 = (\<not> more)" "mi_addrRemote (th_msgIn th1) = sender_after first th"
    "more \<or> th_fNeedToExit th \<or> length (th_socks th) > 1 \<and> tn_exit_after_wait first \<or> tn_exit_after_recv first"
    by (rule Run_turn_ok [OF assms(1) first(3) ok, where limiter = ?L]) blast
  have more
    using r(6) assms(2,4) first(4) by simp
  have "sender_after first th = victim" "charged first th = Some victim"
    using assms(2-4) first(1,2) by (simp_all add: sender_after_def charged_def turn_socket_def sender_at_def)
  then have one: "Run_turn hmac md5 first (?L, th) = (True, sent, snd (RateCheck ?L victim (tn_now first)), th1)"
    "mi_addrRemote (th_msgIn th1) = victim"
    using r(1,5) \<open>more\<close> by (simp_all add: limiter_after_def)
  have th1: "length (th_socks th1) = 1" "th_spLimiter th1" "\<not> th_fNeedToExit th1"
    using r(3,4) \<open>more\<close> assms(2,3) by (simp_all add: same_thread_def)
  let ?reqs = "(victim, tn_now first) # map (\<lambda>t. (victim, tn_now t)) empties"
  obtain out th' where run: "Run hmac md5 empties (snd (RateCheck ?L victim (tn_now first)), th1) =
      (out, snd (rate_run (snd (RateCheck ?L victim (tn_now first))) (map (\<lambda>t. (victim, tn_now t)) empties)), th')"
    "thread_ok th'" "same_thread th1 th'" "\<not> th_fNeedToExit th'"
    using no_data_run [OF r(2) th1 empties(1) ok] one(2) by metis
  let ?L' = "snd (rate_run ?L ?reqs)"
  have Run: "Run hmac md5 (first # empties) (?L, th) = (sent # out, ?L', th')"
    using one(1) run(1) by (simp del: rate_run.simps add: rate_run_Cons)
  have mine: "of_client ?k ?reqs = tn_now first # map tn_now empties"
    by (simp add: of_client_def comp_def)
  have "clients (?reqs @ [(victim, tn_now after)]) = {?k}"
    by auto
  then have "card (clients (?reqs @ [(victim, tn_now after)])) = 1"
    by (simp only: card.empty card.insert finite.emptyI empty_iff) simp
  with assms(5) have c: "card (clients (?reqs @ [(victim, tn_now after)])) \<le> tablesize"
    by linarith
  have "list_all Not (answers ?k ?L' [(victim, tn_now after)])"
    using times assms(5,6) empties(2) c
    by (intro flood_run [where a = a]) (simp_all add: mine list_all_iff of_client_simps(1) del: of_client_simps(2))
  then have refused: "\<not> fst (RateCheck ?L' victim (tn_now after))"
    by simp
  have th': "socket_at th' = socket_at th" "th_socks th' = th_socks th" "th_spLimiter th'"
    using same_thread_trans [OF r(3) run(3)] same_thread_socket [of th th'] assms(3) by (simp_all add: same_thread_def)
  have "turn_input after ?L' th' = None"
    using refused after(1) th' run(4) assms(2) by (simp add: turn_input_def turn_socket_def input_at_def)
  moreover obtain more' sent' th2 where "Run_turn hmac md5 after (?L', th')
      = (more', sent', limiter_after (charged after th') (tn_now after) ?L', th2)"
      "turn_answered hmac md5 th' (turn_input after ?L' th') sent'"
    by (rule Run_turn_ok [OF run(2) after(2) ok, where limiter = ?L']) blast
  ultimately show ?thesis
    using Run by (simp add: turn_answered_def)
qed


definition empty_turn :: ThreadTurn where
  "empty_turn = example_turn\<lparr>tn_recv := (\<lambda>_. Some ([], CSocketAddress_ipv4 0x0A000063 7, None))\<rparr>"

theorem empty_datagrams_charge_last_sender_witness:
  "\<exists>out limiter' th'. Run example_hmac example_md5 (example_turn # replicate 58 empty_turn)
      (RateLimiter_init 100 False, example_thread (Some RolePP)) = (out, limiter', th') \<and>
    fst (snd (Run_turn example_hmac example_md5 example_turn (limiter', th'))) = []"
proof -
  have r: "\<forall>fd. recv_fine (tn_recv example_turn fd)"
    by (simp add: example_turn_def recv_fine_def)
  have e: "list_all no_data (replicate 58 empty_turn)"
    by (simp add: list_all_iff no_data_def empty_turn_def example_turn_def)
  have n: "example_request \<noteq> []"
    by (simp add: example_request_def msg_wire_def be16_def)
  have t: "list_all (\<lambda>t. 100 \<le> tn_now t \<and> tn_now t \<le> 100 + 60) (example_turn # replicate 58 empty_turn @ [example_turn])"
    by (simp add: list_all_iff empty_turn_def example_turn_def)
  show ?thesis
    by (rule empty_datagrams_charge_last_sender [OF example_thread(1) _ example_thread(6,7) _ _ _ n r _ e _ _ r t example_hash_ok])
      (simp_all add: example_thread example_turn_def)
qed

end
