(* ===== verification/StunServer.thy ===== *)
theory StunServer imports StunSocketThread "HOL-Library.Multiset" begin

text \<open>
  The UDP server (server/server.h, server.cpp): it opens a socket for each configured role, fills in
  the set of transport addresses, and runs one thread for all sockets or one for each.  The system
  calls of each socket and the results of \<open>pthread_create\<close> are arguments; the open descriptors are
  passed along.  The rate limiter, which the threads share, is a member here.
\<close>

section \<open>The configuration and the server\<close>

record CStunServerConfig =
  fHasPP :: bool
  fHasPA :: bool
  fHasAP :: bool
  fHasAA :: bool
  fMultiThreadedMode :: bool
  fTCP :: bool
  nMaxConnections :: u32
  addrPP :: CSocketAddress
  addrPA :: CSocketAddress
  addrAP :: CSocketAddress
  addrAA :: CSocketAddress
  addrPrimaryAdvertised :: CSocketAddress
  addrAlternateAdvertised :: CSocketAddress
  fEnableDosProtection :: bool
  fReuseAddr :: bool

definition CStunServerConfig_new :: CStunServerConfig where
  "CStunServerConfig_new = \<lparr>fHasPP = False, fHasPA = False, fHasAP = False, fHasAA = False, fMultiThreadedMode = False,
     fTCP = False, nMaxConnections = 0, addrPP = CSocketAddress_default, addrPA = CSocketAddress_default,
     addrAP = CSocketAddress_default, addrAA = CSocketAddress_default, addrPrimaryAdvertised = CSocketAddress_default,
     addrAlternateAdvertised = CSocketAddress_default, fEnableDosProtection = False, fReuseAddr = False\<rparr>"

record CStunServer =
  sv_arrSockets :: "SocketRole \<Rightarrow> CStunSocket"
  sv_threads :: "CStunSocketThread list"
  sv_limiter :: "RateLimiter option"

definition CStunServer_new :: CStunServer where
  "CStunServer_new = \<lparr>sv_arrSockets = (\<lambda>_. CStunSocket_new), sv_threads = [], sv_limiter = None\<rparr>"

definition close_role :: "SocketRole \<Rightarrow> descriptors \<times> CStunServer \<Rightarrow> descriptors \<times> CStunServer" where
  "close_role role = (\<lambda>(fds, sv). let (fds, s) = Socket_Close (fds, sv_arrSockets sv role) in
     (fds, sv\<lparr>sv_arrSockets := (sv_arrSockets sv)(role := s)\<rparr>))"

definition Server_Stop :: "CStunServer \<Rightarrow> sent list \<times> CStunServer" where
  "Server_Stop sv =
     (let threads = map (\<lambda>th. snd (SignalForStop th False)) (sv_threads sv);
          posted = concat (map (\<lambda>th. fst (SignalForStop th True)) threads);
          threads = map (\<lambda>th. snd (SignalForStop th True)) threads;
          threads = map (\<lambda>th. snd (WaitForStopAndClose th)) threads in
      (posted, sv\<lparr>sv_threads := threads\<rparr>))"

text \<open>Deleting a stopped thread posts no messages, since it has no sockets left.\<close>

definition Server_Shutdown :: "descriptors \<times> CStunServer \<Rightarrow> hresult \<times> descriptors \<times> CStunServer" where
  "Server_Shutdown = (\<lambda>(fds, sv).
     let (_, sv) = Server_Stop sv;
         (fds, sv) = fold close_role all_roles (fds, sv) in
     (S_OK, fds, sv\<lparr>sv_threads := [], sv_limiter := None\<rparr>))"

definition AddSocket :: "(SocketRole \<Rightarrow> SocketCalls) \<Rightarrow> TransportAddressSet \<Rightarrow> SocketRole \<Rightarrow> CSocketAddress \<Rightarrow> CSocketAddress
    \<Rightarrow> bool \<Rightarrow> descriptors \<times> CStunServer \<Rightarrow> hresult \<times> TransportAddressSet \<times> descriptors \<times> CStunServer" where
  "AddSocket os tsa role addrListen addrAdvertise fSetReuseFlag = (\<lambda>(fds, sv).
     let (hr, fds, s) = UDPInit (os role) (fds, sv_arrSockets sv role) addrListen role fSetReuseFlag;
         sv = sv\<lparr>sv_arrSockets := (sv_arrSockets sv)(role := s)\<rparr> in
     if FAILED hr then (hr, tsa, fds, sv)
     else let hr = EnablePktInfoOption (os role) s in
       if FAILED hr then (hr, tsa, fds, sv)
       else if \<not> IsIPAddressZero addrAdvertise
       then (hr, tsa(role := \<lparr>ta_addr = SetPort addrAdvertise (GetPort addrListen), ta_fValid = True\<rparr>), fds, sv)
       else (hr, tsa(role := \<lparr>ta_addr = addrListen, ta_fValid = True\<rparr>), fds, sv))"

text \<open>The sockets that the configuration asks for, in the order of the code.\<close>

definition configured :: "CStunServerConfig \<Rightarrow> (SocketRole \<times> CSocketAddress \<times> CSocketAddress) list" where
  "configured config =
     (if fHasPP config then [(RolePP, addrPP config, addrPrimaryAdvertised config)] else []) @
     (if fHasPA config then [(RolePA, addrPA config, addrPrimaryAdvertised config)] else []) @
     (if fHasAP config then [(RoleAP, addrAP config, addrAlternateAdvertised config)] else []) @
     (if fHasAA config then [(RoleAA, addrAA config, addrAlternateAdvertised config)] else [])"

fun AddSockets :: "(SocketRole \<Rightarrow> SocketCalls) \<Rightarrow> bool \<Rightarrow> (SocketRole \<times> CSocketAddress \<times> CSocketAddress) list \<Rightarrow> TransportAddressSet
    \<Rightarrow> descriptors \<times> CStunServer \<Rightarrow> hresult \<times> TransportAddressSet \<times> descriptors \<times> CStunServer" where
  "AddSockets os reuse [] tsa w = (S_OK, tsa, w)"
| "AddSockets os reuse ((role, addr, adv) # rest) tsa w =
     (let (hr, tsa, w) = AddSocket os tsa role addr adv reuse w in
      if FAILED hr then (hr, tsa, w) else AddSockets os reuse rest tsa w)"

fun AddThreads :: "TransportAddressSet \<Rightarrow> bool \<Rightarrow> SocketRole option list \<Rightarrow> CStunServer \<Rightarrow> hresult \<times> CStunServer" where
  "AddThreads tsa spLimiter [] sv = (S_OK, sv)"
| "AddThreads tsa spLimiter (rolePrimaryRecv # rest) sv =
     (let (hr, th) = Thread_Init CStunSocketThread_new (Some (sv_arrSockets sv)) (Some tsa) None rolePrimaryRecv spLimiter;
          sv = sv\<lparr>sv_threads := sv_threads sv @ [th]\<rparr> in
      if FAILED hr then (hr, sv) else AddThreads tsa spLimiter rest sv)"

text \<open>
  The threads to make: one on all sockets, or one on each valid socket, known by the role that the
  socket has.  No authentication provider is created.
\<close>

definition thread_roles :: "CStunServerConfig \<Rightarrow> CStunServer \<Rightarrow> SocketRole option list" where
  "thread_roles config sv =
     (if fMultiThreadedMode config = False then [None]
      else map (\<lambda>i. Some (sk_role (sv_arrSockets sv i))) (filter (\<lambda>i. Socket_IsValid (sv_arrSockets sv i)) all_roles))"

definition Server_Initialize :: "(SocketRole \<Rightarrow> SocketCalls) \<Rightarrow> descriptors \<times> CStunServer \<Rightarrow> CStunServerConfig
    \<Rightarrow> hresult \<times> descriptors \<times> CStunServer" where
  "Server_Initialize os w config =
     (let (_, w) = Server_Shutdown w;
          (hr, tsa, fds, sv) = AddSockets os (fReuseAddr config) (configured config) tsa_zero w;
          (hr, fds, sv) =
            (if FAILED hr then (hr, fds, sv)
             else if length (configured config) = 0 then (E_INVALIDARG, fds, sv)
             else let spLimiter = fEnableDosProtection config;
                      sv = sv\<lparr>sv_limiter := (if spLimiter then Some (RateLimiter_init 25000 (fMultiThreadedMode config)) else None)\<rparr>;
                      (hr, sv) = AddThreads tsa spLimiter (thread_roles config sv) sv in
                  (hr, fds, sv)) in
      if FAILED hr then (let (_, w) = Server_Shutdown (fds, sv) in (hr, w)) else (hr, fds, sv))"

text \<open>The result of \<open>pthread_create\<close> for each thread, by its number.\<close>

fun StartThreads :: "(nat \<Rightarrow> int) \<Rightarrow> nat \<Rightarrow> CStunSocketThread list \<Rightarrow> hresult \<times> CStunSocketThread list" where
  "StartThreads created index [] = (S_OK, [])"
| "StartThreads created index (th # threads) =
     (let (hr, th) = Thread_Start (created index) th in
      if FAILED hr then (hr, th # threads)
      else let (hr, threads) = StartThreads created (Suc index) threads in (hr, th # threads))"

definition Server_Start :: "(nat \<Rightarrow> int) \<Rightarrow> CStunServer \<Rightarrow> hresult \<times> CStunServer" where
  "Server_Start created sv =
     (let (hr, threads) = (if length (sv_threads sv) = 0 then (E_UNEXPECTED, sv_threads sv)
                           else StartThreads created 0 (sv_threads sv));
          sv = sv\<lparr>sv_threads := threads\<rparr> in
      if FAILED hr then (hr, snd (Server_Stop sv)) else (hr, sv))"

section \<open>No descriptor is lost\<close>

definition open_sockets :: "(SocketRole \<Rightarrow> CStunSocket) \<Rightarrow> SocketRole list \<Rightarrow> int multiset" where
  "open_sockets arr roles = mset (map (\<lambda>r. sk_sock (arr r)) (filter (\<lambda>r. Socket_IsValid (arr r)) roles))"

text \<open>The descriptors are those of before and those of the valid sockets.\<close>

definition accounted :: "descriptors \<Rightarrow> descriptors \<times> CStunServer \<Rightarrow> bool" where
  "accounted base w \<longleftrightarrow> mset (fst w) = mset base + open_sockets (sv_arrSockets (snd w)) all_roles"

lemma all_roles_facts [simp]: "distinct all_roles" "r \<in> set all_roles"
  by (simp_all add: all_roles_def) (cases r; simp)

lemma open_sockets_simps [simp]:
  "open_sockets arr [] = {#}"
  "open_sockets arr (r # rs) = (if Socket_IsValid (arr r) then {#sk_sock (arr r)#} else {#}) + open_sockets arr rs"
  by (simp_all add: open_sockets_def)

lemma open_sockets_upd_other: "r \<notin> set rs \<Longrightarrow> open_sockets (arr(r := s)) rs = open_sockets arr rs"
  by (induction rs) auto

lemma open_sockets_upd:
  assumes "distinct rs" "r \<in> set rs"
  shows "open_sockets (arr(r := s)) rs + (if Socket_IsValid (arr r) then {#sk_sock (arr r)#} else {#}) =
    open_sockets arr rs + (if Socket_IsValid s then {#sk_sock s#} else {#})"
  using assms by (induction rs) (auto simp: open_sockets_upd_other)

lemma open_sockets_closed: "\<forall>r. \<not> Socket_IsValid (arr r) \<Longrightarrow> open_sockets arr rs = {#}"
  by (induction rs) auto

lemma Socket_Close_eq:
  "fst (Socket_Close (fds, s)) = (if Socket_IsValid s then remove1 (sk_sock s) fds else fds)"
  "\<not> Socket_IsValid (snd (Socket_Close (fds, s)))"
  by (simp_all add: Socket_Close_def Socket_IsValid_def Socket_Reset_def Let_def)

lemma close_role_frame:
  "sv_arrSockets (snd (close_role r w)) q = (if q = r then snd (Socket_Close (fst w, sv_arrSockets (snd w) r)) else sv_arrSockets (snd w) q)"
  "sv_threads (snd (close_role r w)) = sv_threads (snd w)"
  by (simp_all add: close_role_def case_prod_beta Let_def)

lemma close_role_accounted:
  assumes "accounted base w"
  shows "accounted base (close_role r w)"
proof -
  obtain fds sv where w: "w = (fds, sv)"
    by fastforce
  let ?s = "sv_arrSockets sv r" and ?c = "snd (Socket_Close (fds, sv_arrSockets sv r))"
  have e: "close_role r w = (if Socket_IsValid ?s then remove1 (sk_sock ?s) fds else fds,
      sv\<lparr>sv_arrSockets := (sv_arrSockets sv)(r := ?c)\<rparr>)"
    using Socket_Close_eq(1) [of fds ?s] by (simp add: w close_role_def case_prod_beta Let_def)
  have u: "open_sockets ((sv_arrSockets sv)(r := ?c)) all_roles + (if Socket_IsValid ?s then {#sk_sock ?s#} else {#}) =
      open_sockets (sv_arrSockets sv) all_roles"
    using open_sockets_upd [of all_roles r "sv_arrSockets sv" ?c] Socket_Close_eq(2) [of fds ?s] by simp
  have "mset fds = mset base + open_sockets (sv_arrSockets sv) all_roles"
    using assms by (simp add: accounted_def w)
  then show ?thesis
    unfolding e accounted_def by (simp flip: u)
qed

lemma fold_close_role:
  "accounted base w \<Longrightarrow> accounted base (fold close_role rs w)"
  "\<not> Socket_IsValid (sv_arrSockets (snd w) q) \<or> q \<in> set rs \<Longrightarrow> \<not> Socket_IsValid (sv_arrSockets (snd (fold close_role rs w)) q)"
  "sv_threads (snd (fold close_role rs w)) = sv_threads (snd w)"
proof (induction rs arbitrary: w)
  case (Cons r rs)
  {
    case 1
    then show ?case
      using Cons(1) close_role_accounted by simp
  next
    case 2
    then have "\<not> Socket_IsValid (sv_arrSockets (snd (close_role r w)) q) \<or> q \<in> set rs"
      using Socket_Close_eq(2) by (auto simp: close_role_frame)
    then show ?case
      using Cons(2) by simp
  next
    case 3
    then show ?case
      using Cons(3) [of "close_role r w"] by (simp add: close_role_frame)
  }
qed auto

definition closed_down :: "descriptors \<Rightarrow> descriptors \<times> CStunServer \<Rightarrow> bool" where
  "closed_down base w \<longleftrightarrow> mset (fst w) = mset base \<and> (\<forall>r. \<not> Socket_IsValid (sv_arrSockets (snd w) r)) \<and>
     sv_threads (snd w) = [] \<and> sv_limiter (snd w) = None"

lemma Server_Shutdown_closed:
  assumes "accounted base w"
  shows "fst (Server_Shutdown w) = S_OK" "closed_down base (snd (Server_Shutdown w))"
proof -
  obtain fds sv where w: "w = (fds, sv)"
    by fastforce
  let ?sv = "snd (Server_Stop sv)" and ?w = "fold close_role all_roles (fds, snd (Server_Stop sv))"
  have "accounted base (fds, ?sv)"
    using assms by (simp add: w accounted_def Server_Stop_def Let_def)
  note f = fold_close_role(1) [OF this, of all_roles]
  have v: "\<not> Socket_IsValid (sv_arrSockets (snd ?w) q)" for q
    by (rule fold_close_role(2)) simp
  have e: "Server_Shutdown w = (S_OK, fst ?w, (snd ?w)\<lparr>sv_threads := [], sv_limiter := None\<rparr>)"
    by (simp add: w Server_Shutdown_def case_prod_beta)
  then show "fst (Server_Shutdown w) = S_OK"
    by simp
  show "closed_down base (snd (Server_Shutdown w))"
    using f v open_sockets_closed [of "sv_arrSockets (snd ?w)" all_roles] by (simp add: e closed_down_def accounted_def)
qed

lemma closed_down_accounted: "closed_down base w \<Longrightarrow> accounted base w"
  using open_sockets_closed [of "sv_arrSockets (snd w)" all_roles] by (simp add: closed_down_def accounted_def)

text \<open>One socket.\<close>

definition calls_ok :: "(SocketRole \<Rightarrow> SocketCalls) \<Rightarrow> bool" where
  "calls_ok os \<longleftrightarrow> (\<forall>r. -1 \<le> sc_socket (os r) \<and> (\<forall>a. sc_getsockname (os r) = Some a \<longrightarrow> is_ip_addr a))"

text \<open>No call fails.\<close>

definition calls_good :: "(SocketRole \<Rightarrow> SocketCalls) \<Rightarrow> bool" where
  "calls_good os \<longleftrightarrow> (\<forall>r. 0 \<le> sc_socket (os r) \<and> sc_setsockopt (os r) \<noteq> -1 \<and> sc_bind (os r) \<noteq> -1 \<and>
     0 \<le> sc_pktinfo1 (os r) \<and> 0 \<le> sc_pktinfo2 (os r))"

lemma UDPInit_cases:
  assumes "\<not> Socket_IsValid s" "-1 \<le> sc_socket os"
  shows "(\<exists>hr. FAILED hr \<and> UDPInit os (fds, s) a role reuse = (hr, fds, s)) \<or>
    (\<exists>s'. UDPInit os (fds, s) a role reuse = (S_OK, sc_socket os # fds, s') \<and> 0 \<le> sc_socket os \<and>
       sk_sock s' = sc_socket os \<and> sk_role s' = role)"
proof -
  have s: "sk_sock s = -1"
    using assms(1) by (simp add: Socket_IsValid_def)
  then show ?thesis
    using assms(2)
    by (auto simp: UDPInit_def InitCommon_def Let_def Socket_Attach_def Socket_Close_def UpdateAddresses_def SetRole_def Socket_Reset_def
        split: option.splits)
qed


text \<open>The address that is told to clients.\<close>

definition advertised :: "CSocketAddress \<Rightarrow> CSocketAddress \<Rightarrow> CSocketAddress" where
  "advertised addr adv = (if IsIPAddressZero adv then addr else SetPort adv (GetPort addr))"

definition sockets_ok :: "CStunServer \<Rightarrow> bool" where
  "sockets_ok sv \<longleftrightarrow> (\<forall>r. Socket_IsValid (sv_arrSockets sv r) \<longrightarrow> sk_role (sv_arrSockets sv r) = r)"

lemma AddSocket_cases:
  assumes "accounted base (fds, sv)" "\<not> Socket_IsValid (sv_arrSockets sv role)" "calls_ok os"
  obtains hr tsa' fds' s where "AddSocket os tsa role addr adv reuse (fds, sv) = (hr, tsa', fds', sv\<lparr>sv_arrSockets := (sv_arrSockets sv)(role := s)\<rparr>)"
    "accounted base (fds', sv\<lparr>sv_arrSockets := (sv_arrSockets sv)(role := s)\<rparr>)" "Socket_IsValid s \<longrightarrow> sk_role s = role"
    "\<not> FAILED hr \<longrightarrow> Socket_IsValid s \<and> tsa' = tsa(role := \<lparr>ta_addr = advertised addr adv, ta_fValid = True\<rparr>)"
    "calls_good os \<longrightarrow> \<not> FAILED hr"
proof -
  let ?sv = "\<lambda>s. sv\<lparr>sv_arrSockets := (sv_arrSockets sv)(role := s)\<rparr>"
  have a: "mset fds = mset base + open_sockets (sv_arrSockets sv) all_roles"
    using assms(1) by (simp add: accounted_def)
  have "-1 \<le> sc_socket (os role)"
    using assms(3) by (simp add: calls_ok_def)
  moreover have "calls_good os \<Longrightarrow> \<not> FAILED (fst (UDPInit (os role) (fds, sv_arrSockets sv role) addr role reuse))"
    by (simp add: calls_good_def UDPInit_def InitCommon_def Let_def case_prod_beta not_less)
  moreover have pkt: "calls_good os \<Longrightarrow> \<not> FAILED (EnablePktInfoOption (os role) s)" for s
    by (auto simp: calls_good_def EnablePktInfoOption_def EnablePktInfo_IPV4_def EnablePktInfo_IPV6_def EnablePktInfoImpl_def Let_def dest: leD)
  ultimately consider
    (bad) hr where "FAILED hr" "\<not> calls_good os" "UDPInit (os role) (fds, sv_arrSockets sv role) addr role reuse = (hr, fds, sv_arrSockets sv role)"
  | (good) s where "UDPInit (os role) (fds, sv_arrSockets sv role) addr role reuse = (S_OK, sc_socket (os role) # fds, s)"
      "0 \<le> sc_socket (os role)" "sk_sock s = sc_socket (os role)" "sk_role s = role"
    using UDPInit_cases [OF assms(2), of "os role" fds addr role reuse] by fastforce
  then show thesis
  proof cases
    case bad
    show thesis
      by (rule that [of hr tsa fds "sv_arrSockets sv role"]) (use bad assms in \<open>simp_all add: AddSocket_def accounted_def Let_def\<close>)
  next
    case good
    let ?hr = "EnablePktInfoOption (os role) s"
    have v: "Socket_IsValid s"
      using good(2,3) by (simp add: Socket_IsValid_def)
    have "open_sockets ((sv_arrSockets sv)(role := s)) all_roles = open_sockets (sv_arrSockets sv) all_roles + {#sc_socket (os role)#}"
      using open_sockets_upd [of all_roles role "sv_arrSockets sv" s] v assms(2) good(3) by simp
    then have ac: "accounted base (sc_socket (os role) # fds, ?sv s)"
      using a by (simp add: accounted_def)
    show thesis
      by (rule that [of ?hr "if FAILED ?hr then tsa else tsa(role := \<lparr>ta_addr = advertised addr adv, ta_fValid = True\<rparr>)" "sc_socket (os role) # fds" s])
        (use good v ac pkt [of s] in \<open>auto simp: AddSocket_def advertised_def Let_def\<close>)
  qed
qed

fun configured_tsa :: "(SocketRole \<times> CSocketAddress \<times> CSocketAddress) list \<Rightarrow> TransportAddressSet \<Rightarrow> TransportAddressSet" where
  "configured_tsa [] tsa = tsa"
| "configured_tsa ((role, addr, adv) # rest) tsa =
     configured_tsa rest (tsa(role := \<lparr>ta_addr = advertised addr adv, ta_fValid = True\<rparr>))"

lemma AddSockets_cases:
  assumes "accounted base (fds, sv)" "\<forall>r\<in>fst ` set cs. \<not> Socket_IsValid (sv_arrSockets sv r)" "distinct (map fst cs)"
    "calls_ok os" "sockets_ok sv"
  obtains hr tsa' fds' arr where "AddSockets os reuse cs tsa (fds, sv) = (hr, tsa', fds', sv\<lparr>sv_arrSockets := arr\<rparr>)"
    "accounted base (fds', sv\<lparr>sv_arrSockets := arr\<rparr>)" "sockets_ok (sv\<lparr>sv_arrSockets := arr\<rparr>)"
    "\<not> FAILED hr \<longrightarrow> tsa' = configured_tsa cs tsa \<and>
       (\<forall>r. Socket_IsValid (arr r) = (Socket_IsValid (sv_arrSockets sv r) \<or> r \<in> fst ` set cs))"
    "calls_good os \<longrightarrow> \<not> FAILED hr"
proof -
  have "\<exists>hr tsa' fds' arr. AddSockets os reuse cs tsa (fds, sv) = (hr, tsa', fds', sv\<lparr>sv_arrSockets := arr\<rparr>) \<and>
    accounted base (fds', sv\<lparr>sv_arrSockets := arr\<rparr>) \<and> sockets_ok (sv\<lparr>sv_arrSockets := arr\<rparr>) \<and>
    (\<not> FAILED hr \<longrightarrow> tsa' = configured_tsa cs tsa \<and>
       (\<forall>r. Socket_IsValid (arr r) = (Socket_IsValid (sv_arrSockets sv r) \<or> r \<in> fst ` set cs))) \<and>
    (calls_good os \<longrightarrow> \<not> FAILED hr)"
    using assms
  proof (induction cs arbitrary: fds sv tsa)
    case Nil
    then show ?case
      by (intro exI [of _ S_OK] exI [of _ tsa] exI [of _ fds] exI [of _ "sv_arrSockets sv"]) simp
  next
    case (Cons c cs)
    obtain role addr adv where c: "c = (role, addr, adv)"
      by (rule prod_cases3)
    have inv: "\<not> Socket_IsValid (sv_arrSockets sv role)"
      using Cons.prems(2) c by simp
    obtain hr tsa1 fds1 s where a: "AddSocket os tsa role addr adv reuse (fds, sv) = (hr, tsa1, fds1, sv\<lparr>sv_arrSockets := (sv_arrSockets sv)(role := s)\<rparr>)"
      "accounted base (fds1, sv\<lparr>sv_arrSockets := (sv_arrSockets sv)(role := s)\<rparr>)" "Socket_IsValid s \<longrightarrow> sk_role s = role"
      "\<not> FAILED hr \<longrightarrow> Socket_IsValid s \<and> tsa1 = tsa(role := \<lparr>ta_addr = advertised addr adv, ta_fValid = True\<rparr>)"
      "calls_good os \<longrightarrow> \<not> FAILED hr"
      by (rule AddSocket_cases [OF Cons.prems(1) inv Cons.prems(4)])
    let ?sv = "sv\<lparr>sv_arrSockets := (sv_arrSockets sv)(role := s)\<rparr>"
    have ok: "sockets_ok ?sv"
      using Cons.prems(5) a(3) by (simp add: sockets_ok_def)
    show ?case
    proof (cases "FAILED hr")
      case True
      then show ?thesis
        using a(1,2,5) ok c by (intro exI [of _ hr] exI [of _ tsa1] exI [of _ fds1] exI [of _ "(sv_arrSockets sv)(role := s)"]) (simp add: fun_upd_def)
    next
      case False
      have "\<forall>r\<in>fst ` set cs. \<not> Socket_IsValid (sv_arrSockets ?sv r)"
        using Cons.prems(2,3) c by auto
      from Cons.IH [OF a(2) this _ Cons.prems(4) ok, of tsa1] Cons.prems(3)
      obtain hr' tsa' fds' arr where i: "AddSockets os reuse cs tsa1 (fds1, ?sv) = (hr', tsa', fds', ?sv\<lparr>sv_arrSockets := arr\<rparr>)"
        "accounted base (fds', ?sv\<lparr>sv_arrSockets := arr\<rparr>)" "sockets_ok (?sv\<lparr>sv_arrSockets := arr\<rparr>)"
        "\<not> FAILED hr' \<longrightarrow> tsa' = configured_tsa cs tsa1 \<and>
           (\<forall>r. Socket_IsValid (arr r) = (Socket_IsValid (sv_arrSockets ?sv r) \<or> r \<in> fst ` set cs))"
        "calls_good os \<longrightarrow> \<not> FAILED hr'"
        by auto
      have "AddSockets os reuse (c # cs) tsa (fds, sv) = (hr', tsa', fds', sv\<lparr>sv_arrSockets := arr\<rparr>)"
        using a(1) i(1) False c by simp
      moreover have "\<not> FAILED hr' \<longrightarrow> tsa' = configured_tsa (c # cs) tsa \<and>
           (\<forall>r. Socket_IsValid (arr r) = (Socket_IsValid (sv_arrSockets sv r) \<or> r \<in> fst ` set (c # cs)))"
        using i(4) a(4) False inv c by auto
      ultimately show ?thesis
        using i(2,3,5) by auto
    qed
  qed
  then show thesis
    using that by blast
qed


text \<open>The threads.\<close>

definition thread_serves :: "(SocketRole \<Rightarrow> CStunSocket) \<Rightarrow> TransportAddressSet \<Rightarrow> bool \<Rightarrow> SocketRole list \<Rightarrow> CStunSocketThread \<Rightarrow> bool" where
  "thread_serves arr tsa lim roles th \<longleftrightarrow> thread_ok th \<and> th_arrSendSockets th = Some arr \<and> th_socks th = roles \<and>
     th_tsa th = tsa \<and> th_spLimiter th = lim \<and> \<not> th_fNeedToExit th \<and> \<not> th_fThreadIsValid th"

lemma AddThreads_ok:
  assumes "\<forall>r. is_ip_addr (ta_addr (tsa r))"
    "\<forall>rp\<in>set rps. listening (sv_arrSockets sv) rp \<noteq> [] \<and> (\<forall>r\<in>set (listening (sv_arrSockets sv) rp). Socket_IsValid (sv_arrSockets sv r))"
  shows "\<exists>ths. AddThreads tsa lim rps sv = (S_OK, sv\<lparr>sv_threads := sv_threads sv @ ths\<rparr>) \<and>
    list_all2 (\<lambda>rp. thread_serves (sv_arrSockets sv) tsa lim (listening (sv_arrSockets sv) rp)) rps ths"
  using assms(2)
proof (induction rps arbitrary: sv)
  case (Cons rp rps)
  have l: "listening (sv_arrSockets sv) rp \<noteq> []" "\<forall>r\<in>set (listening (sv_arrSockets sv) rp). Socket_IsValid (sv_arrSockets sv r)"
    using Cons.prems by simp_all
  obtain th where t: "Thread_Init CStunSocketThread_new (Some (sv_arrSockets sv)) (Some tsa) None rp lim = (S_OK, th)"
    "thread_serves (sv_arrSockets sv) tsa lim (listening (sv_arrSockets sv) rp) th"
    unfolding thread_serves_def by (rule Thread_Init_ok [OF new_thread_idle assms(1) l, where pAuth = None and lim = lim]) blast
  have "\<exists>ths. AddThreads tsa lim rps (sv\<lparr>sv_threads := sv_threads sv @ [th]\<rparr>) = (S_OK, sv\<lparr>sv_threads := sv_threads sv @ [th] @ ths\<rparr>) \<and>
    list_all2 (\<lambda>rp. thread_serves (sv_arrSockets sv) tsa lim (listening (sv_arrSockets sv) rp)) rps ths"
    using Cons.IH [of "sv\<lparr>sv_threads := sv_threads sv @ [th]\<rparr>"] Cons.prems by simp
  then obtain ths where "AddThreads tsa lim rps (sv\<lparr>sv_threads := sv_threads sv @ [th]\<rparr>) = (S_OK, sv\<lparr>sv_threads := sv_threads sv @ [th] @ ths\<rparr>)"
    "list_all2 (\<lambda>rp. thread_serves (sv_arrSockets sv) tsa lim (listening (sv_arrSockets sv) rp)) rps ths"
    by blast
  then show ?case
    using t by (intro exI [of _ "th # ths"]) simp
qed simp

lemma configured_roles:
  "distinct (map fst (configured config))"
  "filter (\<lambda>r. r \<in> fst ` set (configured config)) all_roles = map fst (configured config)"
  by (simp_all add: configured_def all_roles_def)

definition config_ok :: "CStunServerConfig \<Rightarrow> bool" where
  "config_ok config \<longleftrightarrow> list_all (\<lambda>(r, addr, adv). is_ip_addr addr \<and> is_ip_addr adv) (configured config)"

lemma configured_tsa_ip:
  assumes "list_all (\<lambda>(r, addr, adv). is_ip_addr addr \<and> is_ip_addr adv) cs" "\<forall>r. is_ip_addr (ta_addr (tsa r))"
  shows "\<forall>r. is_ip_addr (ta_addr (configured_tsa cs tsa r))"
  using assms
proof (induction cs arbitrary: tsa)
  case (Cons c cs)
  obtain role addr adv where c: "c = (role, addr, adv)"
    by (rule prod_cases3)
  with Cons show ?case
    by (simp add: advertised_def SetPort_ip)
qed simp

text \<open>The sockets and threads of a server that is initialised.\<close>

definition server_ready :: "CStunServerConfig \<Rightarrow> descriptors \<Rightarrow> descriptors \<times> CStunServer \<Rightarrow> bool" where
  "server_ready config base w \<longleftrightarrow> accounted base w \<and> sockets_ok (snd w) \<and>
     (\<forall>r. Socket_IsValid (sv_arrSockets (snd w) r) = (r \<in> fst ` set (configured config))) \<and>
     list_all2 (thread_serves (sv_arrSockets (snd w)) (configured_tsa (configured config) tsa_zero) (fEnableDosProtection config))
       (if fMultiThreadedMode config then map (\<lambda>c. [fst c]) (configured config) else [map fst (configured config)])
       (sv_threads (snd w)) \<and>
     sv_limiter (snd w) = (if fEnableDosProtection config then Some (RateLimiter_init 25000 (fMultiThreadedMode config)) else None)"

lemma Server_Initialize_cases:
  assumes "accounted base w" "calls_ok os" "config_ok config"
  obtains (failed) hr w' where "Server_Initialize os w config = (hr, w')" "FAILED hr" "closed_down base w'" "calls_good os \<longrightarrow> configured config = []"
    | (ready) w' where "Server_Initialize os w config = (S_OK, w')" "server_ready config base w'" "configured config \<noteq> []"
proof -
  obtain fds0 sv0 where z: "snd (Server_Shutdown w) = (fds0, sv0)"
    by fastforce
  have cl: "closed_down base (fds0, sv0)"
    using Server_Shutdown_closed(2) [OF assms(1)] z by simp
  then have c0: "accounted base (fds0, sv0)" "\<forall>r. \<not> Socket_IsValid (sv_arrSockets sv0 r)" "sockets_ok sv0"
    using closed_down_accounted by (auto simp: closed_down_def sockets_ok_def)
  let ?cs = "configured config" and ?lim = "fEnableDosProtection config"
  have "\<forall>r\<in>fst ` set ?cs. \<not> Socket_IsValid (sv_arrSockets sv0 r)"
    using c0(2) by simp
  then obtain hr tsa fds arr where a: "AddSockets os (fReuseAddr config) ?cs tsa_zero (fds0, sv0) = (hr, tsa, fds, sv0\<lparr>sv_arrSockets := arr\<rparr>)"
    "accounted base (fds, sv0\<lparr>sv_arrSockets := arr\<rparr>)" "sockets_ok (sv0\<lparr>sv_arrSockets := arr\<rparr>)"
    "\<not> FAILED hr \<longrightarrow> tsa = configured_tsa ?cs tsa_zero \<and> (\<forall>r. Socket_IsValid (arr r) = (r \<in> fst ` set ?cs))"
    "calls_good os \<longrightarrow> \<not> FAILED hr"
    using AddSockets_cases [OF c0(1) _ configured_roles(1) assms(2) c0(3)] c0(2) by metis
  let ?sv = "sv0\<lparr>sv_arrSockets := arr\<rparr>"
  have down: "closed_down base (snd (Server_Shutdown (fds, ?sv)))"
    by (rule Server_Shutdown_closed(2) [OF a(2)])
  show thesis
  proof (cases "FAILED hr \<or> ?cs = []")
    case True
    then show thesis
      using down a(1,5) failed [of "if FAILED hr then hr else E_INVALIDARG" "snd (Server_Shutdown (fds, ?sv))"] z
      by (auto simp: Server_Initialize_def case_prod_beta Let_def)
  next
    case False
    then have ok: "\<not> FAILED hr" "?cs \<noteq> []" "tsa = configured_tsa ?cs tsa_zero" "\<And>r. Socket_IsValid (arr r) = (r \<in> fst ` set ?cs)"
      using a(4) by simp_all
    let ?sv1 = "?sv\<lparr>sv_limiter := (if ?lim then Some (RateLimiter_init 25000 (fMultiThreadedMode config)) else None)\<rparr>"
    have roles: "filter (\<lambda>i. Socket_IsValid (arr i)) all_roles = map fst ?cs"
      using configured_roles(2) [of config] ok(4) by simp
    have role: "sk_role (arr r) = r" if "r \<in> fst ` set ?cs" for r
      using a(3) that ok(4) by (simp add: sockets_ok_def)
    have rps: "thread_roles config ?sv1 = (if fMultiThreadedMode config then map (\<lambda>c. Some (fst c)) ?cs else [None])"
      using role by (simp add: thread_roles_def roles)
    have ls: "listening arr None = map fst ?cs" "listening arr (Some r) = [r]" for r
      by (simp_all add: listening_def roles)
    have "\<forall>r. is_ip_addr (ta_addr (tsa_zero r))"
      by (simp add: tsa_zero_def)
    with assms(3) have tsa: "\<forall>r. is_ip_addr (ta_addr (tsa r))"
      unfolding ok(3) config_ok_def by (rule configured_tsa_ip)
    have "\<forall>rp\<in>set (thread_roles config ?sv1). listening (sv_arrSockets ?sv1) rp \<noteq> [] \<and>
        (\<forall>r\<in>set (listening (sv_arrSockets ?sv1) rp). Socket_IsValid (sv_arrSockets ?sv1 r))"
      using ok(2,4) by (auto simp: rps ls)
    from AddThreads_ok [OF tsa this, of ?lim] obtain ths where t: "AddThreads tsa ?lim (thread_roles config ?sv1) ?sv1
        = (S_OK, ?sv1\<lparr>sv_threads := ths\<rparr>)"
      "list_all2 (\<lambda>rp. thread_serves arr tsa ?lim (listening arr rp)) (thread_roles config ?sv1) ths"
      using cl by (auto simp: closed_down_def)
    have "Server_Initialize os w config = (S_OK, fds, ?sv1\<lparr>sv_threads := ths\<rparr>)"
      using a(1) z ok(1,2) t(1) by (simp add: Server_Initialize_def case_prod_beta Let_def)
    moreover have "server_ready config base (fds, ?sv1\<lparr>sv_threads := ths\<rparr>)"
      using a(2,3) ok(4) t(2) by (auto simp: server_ready_def accounted_def sockets_ok_def rps ls ok(3) list_all2_map1 list_all2_Cons1 split: if_splits)
    ultimately show thesis
      using ready ok(2) by blast
  qed
qed


section \<open>Start and stop\<close>

definition stopped :: "CStunSocketThread \<Rightarrow> bool" where
  "stopped th \<longleftrightarrow> \<not> th_fThreadIsValid th \<and> th_socks th = [] \<and> th_fNeedToExit th"

lemma Server_Stop_stopped:
  "list_all stopped (sv_threads (snd (Server_Stop sv)))" "length (sv_threads (snd (Server_Stop sv))) = length (sv_threads sv)"
  "sv_arrSockets (snd (Server_Stop sv)) = sv_arrSockets sv"
  by (auto simp: Server_Stop_def Let_def list_all_iff stopped_def WaitForStopAndClose_def SignalForStop_def ClearSocketArray_def
      UninitThreadBuffers_def)

lemma StartThreads_cases:
  assumes "list_all (\<lambda>th. th_socks th \<noteq> [] \<and> \<not> th_fThreadIsValid th) ths"
  shows "StartThreads created i ths = (S_OK, map (\<lambda>th. th\<lparr>th_fThreadIsValid := True\<rparr>) ths) \<or> FAILED (fst (StartThreads created i ths))"
  using assms
proof (induction ths arbitrary: i)
  case (Cons th ths)
  have "StartThreads created (Suc i) ths = (S_OK, map (\<lambda>th. th\<lparr>th_fThreadIsValid := True\<rparr>) ths) \<or>
      FAILED (fst (StartThreads created (Suc i) ths))"
    using Cons by simp
  then show ?case
    using Cons.prems by (elim disjE) (auto simp: Thread_Start_def Let_def case_prod_beta)
qed simp

section \<open>Properties\<close>

text \<open>C17: initialising a server, whatever the system calls answer, either fails, and then every descriptor
  that it opened is closed again and it has neither sockets nor threads, or succeeds, and then exactly
  the configured sockets are open, the threads listen on them (one on all, or one on each) with well
  formed buffers, and the address set marks the configured roles with the addresses to tell clients.\<close>

theorem server_initialize_outcome:
  assumes "accounted base w" "calls_ok os" "config_ok config" "Server_Initialize os w config = (hr, w')"
  shows "if FAILED hr then closed_down base w' else server_ready config base w'"
  by (rule Server_Initialize_cases [OF assms(1-3)]) (use assms(4) in auto)

definition example_config :: CStunServerConfig where
  "example_config = CStunServerConfig_new\<lparr>fHasPP := True, fHasAA := True, addrPP := CSocketAddress_ipv4 0x0A000001 3478,
     addrAA := CSocketAddress_ipv4 0x0A000002 3479, fEnableDosProtection := True\<rparr>"

definition example_calls :: "SocketRole \<Rightarrow> SocketCalls" where
  "example_calls r = \<lparr>sc_socket = 3 + uint (SocketRole_val r), sc_setsockopt = 0, sc_bind = 0, sc_getsockname = None,
     sc_getpeername = None, sc_pktinfo1 = 0, sc_pktinfo2 = 0, sc_getfl = 0, sc_setfl = 0, sc_errno = 0\<rparr>"

lemma example_server_ok: "calls_ok example_calls" "config_ok example_config" "accounted [] ([], CStunServer_new)"
proof -
  have "-1 \<le> sc_socket (example_calls r)" for r
    by (cases r) (simp_all add: example_calls_def)
  then show "calls_ok example_calls"
    by (simp add: calls_ok_def) (simp add: example_calls_def)
  show "config_ok example_config"
    by (simp add: config_ok_def configured_def example_config_def CStunServerConfig_new_def)
  show "accounted [] ([], CStunServer_new)"
    using open_sockets_closed [of "sv_arrSockets CStunServer_new" all_roles]
    by (simp add: accounted_def CStunServer_new_def CStunSocket_new_def Socket_IsValid_def)
qed

lemma example_calls_good: "calls_good example_calls"
proof -
  have "0 \<le> sc_socket (example_calls r)" for r
    by (cases r) (simp_all add: example_calls_def)
  then show ?thesis
    by (simp add: calls_good_def) (simp add: example_calls_def)
qed

lemma example_initialize: "\<exists>w. Server_Initialize example_calls ([], CStunServer_new) example_config = (S_OK, w) \<and> server_ready example_config [] w"
proof (rule Server_Initialize_cases [OF example_server_ok(3,1,2)])
  assume "calls_good example_calls \<longrightarrow> configured example_config = []"
  then show ?thesis
    using example_calls_good by (simp add: configured_def example_config_def)
qed blast

theorem server_initialize_outcome_witness:
  "\<exists>w. Server_Initialize example_calls ([], CStunServer_new) example_config = (S_OK, w) \<and> server_ready example_config [] w"
proof -
  obtain w where "Server_Initialize example_calls ([], CStunServer_new) example_config = (S_OK, w)"
    using example_initialize by blast
  with server_initialize_outcome [OF example_server_ok(3,1,2) this] show ?thesis
    by simp
qed

text \<open>Starting an initialised server is all or nothing: either every thread runs, or none does and all
  of them are stopped.\<close>

theorem server_start_all_or_nothing:
  assumes "server_ready config base (fds, sv)" "Server_Start created sv = (hr, sv')"
  shows "if FAILED hr then list_all stopped (sv_threads sv') else list_all th_fThreadIsValid (sv_threads sv') \<and>
    length (sv_threads sv') = length (sv_threads sv)"
proof -
  have "\<And>th. th \<in> set (sv_threads sv) \<Longrightarrow> th_socks th \<noteq> [] \<and> \<not> th_fThreadIsValid th"
    using assms(1) by (fastforce simp: server_ready_def thread_serves_def thread_ok_def list_all2_conv_all_nth in_set_conv_nth)
  then have "list_all (\<lambda>th. th_socks th \<noteq> [] \<and> \<not> th_fThreadIsValid th) (sv_threads sv)"
    by (simp add: list_all_iff)
  from StartThreads_cases [OF this, of created 0] show ?thesis
    using assms(2) Server_Stop_stopped(1)
    by (auto simp: Server_Start_def Let_def case_prod_beta list_all_iff split: if_splits)
qed

text \<open>A server that was stopped cannot be started again: it needs to be initialised first.\<close>

lemma stopped_server_does_not_start:
  "FAILED (fst (Server_Start created (snd (Server_Stop sv)))) \<and>
   list_all stopped (sv_threads (snd (Server_Start created (snd (Server_Stop sv)))))"
proof -
  let ?sv = "snd (Server_Stop sv)"
  have "FAILED (fst (if length (sv_threads ?sv) = 0 then (E_UNEXPECTED, sv_threads ?sv) else StartThreads created 0 (sv_threads ?sv)))"
    using Server_Stop_stopped(1) [of sv]
    by (cases "sv_threads ?sv") (auto simp: stopped_def Thread_Start_def Let_def case_prod_beta)
  then show ?thesis
    using Server_Stop_stopped(1) by (auto simp: Server_Start_def Let_def case_prod_beta)
qed


theorem server_start_all_or_nothing_witness:
  "\<exists>w. Server_Initialize example_calls ([], CStunServer_new) example_config = (S_OK, w) \<and>
    (let (hr, sv') = Server_Start (\<lambda>_. 11) (snd w) in
     if FAILED hr then list_all stopped (sv_threads sv') else list_all th_fThreadIsValid (sv_threads sv') \<and>
       length (sv_threads sv') = length (sv_threads (snd w)))"
proof -
  obtain fds sv where i: "Server_Initialize example_calls ([], CStunServer_new) example_config = (S_OK, fds, sv)"
    "server_ready example_config [] (fds, sv)"
    using example_initialize by (metis prod.exhaust)
  obtain hr sv' where "Server_Start (\<lambda>_. 11) sv = (hr, sv')"
    by fastforce
  with server_start_all_or_nothing [OF i(2) this] i(1) show ?thesis
    by (intro exI [of _ "(fds, sv)"]) simp
qed

end
