(* ===== verification/StunTcpThread.thy ===== *)
theory StunTcpThread imports StunPolling StunServer begin

text \<open>
  The connections of the TCP server and the thread that serves them (server/stunconnection.h,
  stunconnection.cpp, and \<open>CTCPStunThread\<close> of server/tcpserver.h, tcpserver.cpp).  A connection lives at
  an address in the pool's heap; the tables map a descriptor to this address.  The open descriptors,
  the rate limiter that the threads share, and what has been sent on each connection are passed along.
  What the system calls of a turn of the loop answer is an argument.  Log output is left out.
\<close>

section \<open>Connections and their pool\<close>

datatype StunConnectionState = ConnectionState_Idle | ConnectionState_Receiving | ConnectionState_Transmitting

datatype ConnTable = Connections1 | Connections2

text \<open>\<open>_idHashTable\<close> is 1, 2 or -1, which is \<open>None\<close>.\<close>

record StunConnection =
  co_timeStart :: int
  co_state :: StunConnectionState
  co_stunsocket :: CStunSocket
  co_reader :: CStunMessageReader
  co_spReaderBuffer :: cbuffer
  co_spOutputBuffer :: cbuffer
  co_txCount :: nat
  co_idHashTable :: "ConnTable option"
  co_pNext :: "nat option"

text \<open>The objects that exist, the first free one, and an address that \<open>new\<close> has not given out.\<close>

record CConnectionPool =
  po_heap :: "nat \<Rightarrow> StunConnection option"
  po_freelist :: "nat option"
  po_new :: nat

definition CConnectionPool_new :: CConnectionPool where
  "CConnectionPool_new = \<lparr>po_heap = Map.empty, po_freelist = None, po_new = 0\<rparr>"

definition conn_at :: "CConnectionPool \<Rightarrow> nat \<Rightarrow> StunConnection" where
  "conn_at pool p = the (po_heap pool p)"

definition set_conn :: "CConnectionPool \<Rightarrow> nat \<Rightarrow> StunConnection \<Rightarrow> CConnectionPool" where
  "set_conn pool p c = pool\<lparr>po_heap := (po_heap pool)(p \<mapsto> c)\<rparr>"

text \<open>\<open>Reset\<close> deletes the free connections; there are at most \<open>po_new\<close> of them.\<close>

fun delete_free :: "nat \<Rightarrow> CConnectionPool \<Rightarrow> CConnectionPool" where
  "delete_free 0 pool = pool"
| "delete_free (Suc n) pool = (case po_freelist pool of None \<Rightarrow> pool
     | Some p \<Rightarrow> delete_free n (pool\<lparr>po_freelist := co_pNext (conn_at pool p), po_heap := (po_heap pool)(p := None)\<rparr>))"

definition Pool_Reset :: "CConnectionPool \<Rightarrow> CConnectionPool" where
  "Pool_Reset pool = delete_free (Suc (po_new pool)) pool"

text \<open>A new connection; the members without a constructor hold the values of \<open>junk\<close>.\<close>

definition new_connection :: "StunConnection \<Rightarrow> StunConnection" where
  "new_connection junk = junk\<lparr>co_stunsocket := CStunSocket_new, co_reader := MR_init,
     co_spOutputBuffer := CB_new MAX_STUN_MESSAGE_SIZE, co_spReaderBuffer := CB_new MAX_STUN_MESSAGE_SIZE\<rparr>"

fun grow_by :: "nat \<Rightarrow> StunConnection \<Rightarrow> CConnectionPool \<Rightarrow> CConnectionPool" where
  "grow_by 0 junk pool = pool"
| "grow_by (Suc n) junk pool =
     (let pConn = po_new pool; c = (new_connection junk)\<lparr>co_pNext := po_freelist pool\<rparr> in
      grow_by n junk ((set_conn pool pConn c)\<lparr>po_freelist := Some pConn, po_new := pConn + 1\<rparr>))"

definition Pool_Grow :: "StunConnection \<Rightarrow> CConnectionPool \<Rightarrow> hresult \<times> CConnectionPool" where
  "Pool_Grow junk pool = (S_OK, grow_by 50 junk pool)"

text \<open>A connection ready to read: the reader empty, over the connection's own buffer.\<close>

definition prepare_reader :: "StunConnection \<Rightarrow> StunConnection" where
  "prepare_reader c = c\<lparr>co_reader := MR_Attach (co_reader c) (co_spReaderBuffer c)\<rparr>"

definition GetConnection :: "SocketCalls \<Rightarrow> StunConnection \<Rightarrow> int \<Rightarrow> descriptors \<times> CConnectionPool \<Rightarrow> int \<Rightarrow> SocketRole
    \<Rightarrow> nat option \<times> descriptors \<times> CConnectionPool" where
  "GetConnection os junk now = (\<lambda>(fds, pool) sock role.
     let pool = (if po_freelist pool = None then snd (Pool_Grow junk pool) else pool) in
     case po_freelist pool of None \<Rightarrow> (None, fds, pool)
     | Some pConn \<Rightarrow>
         let c = conn_at pool pConn;
             pool = pool\<lparr>po_freelist := co_pNext c\<rparr>;
             c = prepare_reader (c\<lparr>co_pNext := None\<rparr>);
             c = c\<lparr>co_state := ConnectionState_Receiving\<rparr>;
             (_, fds, s) = Socket_Attach os (fds, co_stunsocket c) sock;
             c = c\<lparr>co_stunsocket := SetRole s role, co_txCount := 0, co_timeStart := now, co_idHashTable := None\<rparr> in
         (Some pConn, fds, set_conn pool pConn c))"

definition ReleaseConnection :: "CConnectionPool \<Rightarrow> nat \<Rightarrow> CConnectionPool" where
  "ReleaseConnection pool pConn =
     (set_conn pool pConn ((conn_at pool pConn)\<lparr>co_pNext := po_freelist pool\<rparr>))\<lparr>po_freelist := Some pConn\<rparr>"

definition ResetConnection :: "CConnectionPool \<Rightarrow> nat \<Rightarrow> CConnectionPool" where
  "ResetConnection pool pConn =
     set_conn pool pConn ((prepare_reader (conn_at pool pConn))\<lparr>co_state := ConnectionState_Receiving, co_txCount := 0\<rparr>)"

section \<open>The thread\<close>

definition EPOLL_CLIENT_READ_EVENT_SET :: u32 where
  "EPOLL_CLIENT_READ_EVENT_SET = IPOLLING_READ OR IPOLLING_RDHUP"

definition EPOLL_CLIENT_WRITE_EVENT_SET :: u32 where
  "EPOLL_CLIENT_WRITE_EVENT_SET = IPOLLING_WRITE"

definition EPOLL_LISTEN_SOCKET_EVENT_SET :: u32 where
  "EPOLL_LISTEN_SOCKET_EVENT_SET = IPOLLING_READ"

definition EPOLL_PIPE_EVENT_SET :: u32 where
  "EPOLL_PIPE_EVENT_SET = IPOLLING_READ"

definition c_MaxNumberOfConnectionsDefault :: int where
  "c_MaxNumberOfConnectionsDefault = 1000"

definition c_sweepTimeoutSeconds :: int where
  "c_sweepTimeoutSeconds = 60"

type_synonym conn_map = "(int, nat) fasthash"

record CTCPStunThread =
  tt_pipe0 :: int
  tt_pipe1 :: int
  tt_spPolling :: "IPolling option"
  tt_fListenSocketsOnEpoll :: bool
  tt_spLimiter :: bool
  tt_tsaListen :: TransportAddressSet
  tt_socketListenArray :: "SocketRole \<Rightarrow> CStunSocket"
  tt_socketTable :: "SocketRole \<Rightarrow> int"
  tt_countSocks :: int
  tt_fNeedToExit :: bool
  tt_spAuth :: "IStunAuth option"
  tt_role :: SocketRole
  tt_tsa :: TransportAddressSet
  tt_maxConnections :: int
  tt_fThreadIsValid :: bool
  tt_connectionpool :: CConnectionPool
  tt_hashConnections1 :: conn_map
  tt_hashConnections2 :: conn_map
  tt_pNewConnList :: ConnTable
  tt_pOldConnList :: ConnTable
  tt_timeLastSweep :: int

text \<open>What the thread works on, next to itself: descriptors, the limiter, the bytes sent, oldest first.\<close>

record TcpWorld =
  tw_fds :: descriptors
  tw_limiter :: RateLimiter
  tw_sent :: "(int \<times> bytes) list"
  tw_th :: CTCPStunThread

definition conn_map_at :: "CTCPStunThread \<Rightarrow> ConnTable \<Rightarrow> conn_map" where
  "conn_map_at th t = (case t of Connections1 \<Rightarrow> tt_hashConnections1 th | Connections2 \<Rightarrow> tt_hashConnections2 th)"

definition set_conn_map :: "ConnTable \<Rightarrow> conn_map \<Rightarrow> CTCPStunThread \<Rightarrow> CTCPStunThread" where
  "set_conn_map t h th = (case t of Connections1 \<Rightarrow> th\<lparr>tt_hashConnections1 := h\<rparr>
     | Connections2 \<Rightarrow> th\<lparr>tt_hashConnections2 := h\<rparr>)"

definition upd_th :: "(CTCPStunThread \<Rightarrow> CTCPStunThread) \<Rightarrow> TcpWorld \<Rightarrow> TcpWorld" where
  "upd_th f w = w\<lparr>tw_th := f (tw_th w)\<rparr>"

definition ClosePipes :: "TcpWorld \<Rightarrow> TcpWorld" where
  "ClosePipes w =
     (let th = tw_th w;
          w = (if tt_pipe0 th \<noteq> -1 then w\<lparr>tw_fds := remove1 (tt_pipe0 th) (tw_fds w), tw_th := th\<lparr>tt_pipe0 := -1\<rparr>\<rparr> else w);
          th = tw_th w in
      if tt_pipe1 th \<noteq> -1 then w\<lparr>tw_fds := remove1 (tt_pipe1 th) (tw_fds w), tw_th := th\<lparr>tt_pipe1 := -1\<rparr>\<rparr> else w)"

definition close_listener :: "SocketRole \<Rightarrow> TcpWorld \<Rightarrow> TcpWorld" where
  "close_listener r w =
     (let (fds, s) = Socket_Close (tw_fds w, tt_socketListenArray (tw_th w) r) in
      w\<lparr>tw_fds := fds, tw_th := (tw_th w)\<lparr>tt_socketListenArray := (tt_socketListenArray (tw_th w))(r := s),
         tt_socketTable := (tt_socketTable (tw_th w))(r := -1)\<rparr>\<rparr>)"

definition CloseListenSockets :: "TcpWorld \<Rightarrow> TcpWorld" where
  "CloseListenSockets w = upd_th (\<lambda>th. th\<lparr>tt_countSocks := 0\<rparr>) (fold close_listener all_roles w)"

definition release_polling :: "TcpWorld \<Rightarrow> TcpWorld" where
  "release_polling w = (case tt_spPolling (tw_th w) of None \<Rightarrow> w
     | Some p \<Rightarrow> w\<lparr>tw_fds := Polling_Release (tw_fds w, p), tw_th := (tw_th w)\<lparr>tt_spPolling := None\<rparr>\<rparr>)"

text \<open>The limiter stays.\<close>

definition TcpThread_Reset :: "int \<Rightarrow> TcpWorld \<Rightarrow> TcpWorld" where
  "TcpThread_Reset now w =
     (let w = release_polling w; w = CloseListenSockets w; w = ClosePipes w in
      upd_th (\<lambda>th. th\<lparr>tt_fListenSocketsOnEpoll := False, tt_tsaListen := tsa_zero, tt_fNeedToExit := False,
        tt_spAuth := None, tt_role := RolePP, tt_tsa := tsa_zero, tt_maxConnections := c_MaxNumberOfConnectionsDefault,
        tt_fThreadIsValid := False, tt_connectionpool := Pool_Reset (tt_connectionpool th),
        tt_hashConnections1 := FH_Init 0 0 False, tt_hashConnections2 := FH_Init 0 0 False,
        tt_pNewConnList := Connections1, tt_pOldConnList := Connections2, tt_timeLastSweep := now\<rparr>) w)"

definition CTCPStunThread_new :: "int \<Rightarrow> CTCPStunThread" where
  "CTCPStunThread_new now = tw_th (TcpThread_Reset now \<lparr>tw_fds = [], tw_limiter = RateLimiter_init 1 False, tw_sent = [],
     tw_th = \<lparr>tt_pipe0 = -1, tt_pipe1 = -1, tt_spPolling = None, tt_fListenSocketsOnEpoll = False, tt_spLimiter = False,
       tt_tsaListen = tsa_zero, tt_socketListenArray = (\<lambda>_. CStunSocket_new), tt_socketTable = (\<lambda>_. -1), tt_countSocks = 0,
       tt_fNeedToExit = False, tt_spAuth = None, tt_role = RolePP, tt_tsa = tsa_zero,
       tt_maxConnections = c_MaxNumberOfConnectionsDefault, tt_fThreadIsValid = False,
       tt_connectionpool = CConnectionPool_new, tt_hashConnections1 = FH_Init 0 0 False,
       tt_hashConnections2 = FH_Init 0 0 False, tt_pNewConnList = Connections1, tt_pOldConnList = Connections2,
       tt_timeLastSweep = now\<rparr>\<rparr>)"

text \<open>\<open>pipe\<close> answers an error or two descriptors.\<close>

definition CreatePipes :: "(int \<times> int) option \<Rightarrow> u32 \<Rightarrow> TcpWorld \<Rightarrow> hresult \<times> TcpWorld" where
  "CreatePipes pipe errno w = (case pipe of None \<Rightarrow> (ERRNOHR_of errno, w)
     | Some (rd, wr) \<Rightarrow> (S_OK, w\<lparr>tw_fds := rd # wr # tw_fds w, tw_th := (tw_th w)\<lparr>tt_pipe0 := rd, tt_pipe1 := wr\<rparr>\<rparr>))"

definition NotifyThreadViaPipe :: "int \<Rightarrow> hresult" where
  "NotifyThreadViaPipe written = (if written > 0 then S_OK else S_FALSE)"

section \<open>Polling\<close>

definition polling_do :: "(IPolling \<Rightarrow> hresult \<times> IPolling) \<Rightarrow> TcpWorld \<Rightarrow> hresult \<times> TcpWorld" where
  "polling_do f w = (case tt_spPolling (tw_th w) of None \<Rightarrow> (E_UNEXPECTED, w)
     | Some p \<Rightarrow> let (hr, p) = f p in (hr, upd_th (\<lambda>th. th\<lparr>tt_spPolling := Some p\<rparr>) w))"

fun listen_on_epoll :: "PollCalls \<Rightarrow> bool \<Rightarrow> SocketRole list \<Rightarrow> TcpWorld \<Rightarrow> hresult \<times> TcpWorld" where
  "listen_on_epoll c fEnable [] w = (S_OK, w)"
| "listen_on_epoll c fEnable (role # roles) w =
     (let sock = tt_socketTable (tw_th w) role in
      if sock = -1 then listen_on_epoll c fEnable roles w
      else let (hr, w) = polling_do (\<lambda>p. if fEnable then Polling_Add c p sock EPOLL_LISTEN_SOCKET_EVENT_SET
                                         else Polling_Remove c p sock) w in
        if FAILED hr then (hr, w) else listen_on_epoll c fEnable roles w)"

definition SetListenSocketsOnEpoll :: "PollCalls \<Rightarrow> bool \<Rightarrow> TcpWorld \<Rightarrow> hresult \<times> TcpWorld" where
  "SetListenSocketsOnEpoll c fEnable w =
     (if fEnable \<noteq> tt_fListenSocketsOnEpoll (tw_th w)
      then (let (hr, w) = listen_on_epoll c fEnable all_roles w in
            if FAILED hr then (hr, w) else (hr, upd_th (\<lambda>th. th\<lparr>tt_fListenSocketsOnEpoll := fEnable\<rparr>) w))
      else (S_OK, w))"

definition GetListenSocket :: "CTCPStunThread \<Rightarrow> int \<Rightarrow> CStunSocket option" where
  "GetListenSocket th sock =
     (if sock \<noteq> -1 then map_option (tt_socketListenArray th) (find (\<lambda>i. tt_socketTable th i = sock) all_roles) else None)"

definition GetTimeoutSeconds :: "CTCPStunThread \<Rightarrow> int" where
  "GetTimeoutSeconds th =
     (let connCount = fh_size (conn_map_at th (tt_pNewConnList th)) + fh_size (conn_map_at th (tt_pOldConnList th)) in
      if connCount = 0 then -1 else c_sweepTimeoutSeconds)"

definition IsConnectionCountAtMax :: "CTCPStunThread \<Rightarrow> bool" where
  "IsConnectionCountAtMax th \<longleftrightarrow>
     int (fh_size (conn_map_at th (tt_pNewConnList th)) + fh_size (conn_map_at th (tt_pOldConnList th))) \<ge> tt_maxConnections th"

section \<open>Initialisation\<close>

text \<open>The answers of the system calls during \<open>Init\<close>; \<open>ti_listen\<close> is that of \<open>listen\<close>.\<close>

record TcpInit =
  ti_sock :: "SocketRole \<Rightarrow> SocketCalls"
  ti_listen :: "SocketRole \<Rightarrow> int"
  ti_pipe :: "(int \<times> int) option"
  ti_has_epoll :: bool
  ti_epoll_create :: int
  ti_mem :: "nat \<Rightarrow> int \<times> u32"
  ti_poll :: PollCalls
  ti_errno :: u32
  ti_now :: int

fun create_listeners :: "TcpInit \<Rightarrow> SocketRole list \<Rightarrow> TcpWorld \<Rightarrow> hresult \<times> TcpWorld" where
  "create_listeners os [] w = (S_OK, w)"
| "create_listeners os (r # roles) w =
     (if ta_fValid (tt_tsaListen (tw_th w) r)
      then
        let (hr, fds, s) = TCPInit (ti_sock os r) (tw_fds w, tt_socketListenArray (tw_th w) r)
               (ta_addr (tt_tsaListen (tw_th w) r)) r True;
            w = w\<lparr>tw_fds := fds, tw_th := (tw_th w)\<lparr>tt_socketListenArray := (tt_socketListenArray (tw_th w))(r := s)\<rparr>\<rparr> in
        if FAILED hr then (hr, w)
        else
          let w = upd_th (\<lambda>th. th\<lparr>tt_socketTable := (tt_socketTable th)(r := sk_sock s)\<rparr>) w;
              hr = SetNonBlocking (ti_sock os r) in
          if FAILED hr then (hr, w)
          else if ti_listen os r = -1 then (ERRNOHR_of (ti_errno os), w)
          else create_listeners os roles (upd_th (\<lambda>th. th\<lparr>tt_countSocks := tt_countSocks th + 1\<rparr>) w)
      else create_listeners os roles (upd_th (\<lambda>th. th\<lparr>tt_socketTable := (tt_socketTable th)(r := -1)\<rparr>) w))"

definition CreateListenSockets :: "TcpInit \<Rightarrow> TcpWorld \<Rightarrow> hresult \<times> TcpWorld" where
  "CreateListenSockets os w = chk (create_listeners os all_roles w)
     (\<lambda>w. (S_OK, upd_th (\<lambda>th. th\<lparr>tt_fListenSocketsOnEpoll := False\<rparr>) w))"

definition create_polling :: "TcpInit \<Rightarrow> TcpWorld \<Rightarrow> hresult \<times> TcpWorld" where
  "create_polling os w =
     (let (hr, fds, p) = CreatePollingInstance (ti_has_epoll os) (ti_epoll_create os) (ti_mem os) (tw_fds w)
            IPOLLING_TYPE_BEST (nat (tt_maxConnections (tw_th w) + 5)) in
      (hr, w\<lparr>tw_fds := fds, tw_th := (tw_th w)\<lparr>tt_spPolling := p\<rparr>\<rparr>))"

definition init_tables :: "TcpWorld \<Rightarrow> hresult \<times> TcpWorld" where
  "init_tables w =
     (let n = nat (tt_maxConnections (tw_th w));
          (ret, h) = FH_InitTable n 0 True; w = upd_th (\<lambda>th. th\<lparr>tt_hashConnections1 := h\<rparr>) w in
      if ret = -1 then (E_FAIL, w)
      else
        let (ret, h) = FH_InitTable n 0 True; w = upd_th (\<lambda>th. th\<lparr>tt_hashConnections2 := h\<rparr>) w in
        if ret = -1 then (E_FAIL, w)
        else (S_OK, upd_th (\<lambda>th. th\<lparr>tt_pNewConnList := Connections1, tt_pOldConnList := Connections2\<rparr>) w))"

text \<open>The checks of \<open>Init\<close> before it changes anything but \<open>_maxConnections\<close>.\<close>

definition init_checks :: "TransportAddressSet \<Rightarrow> TransportAddressSet \<Rightarrow> int \<Rightarrow> TcpWorld \<Rightarrow> hresult \<times> TcpWorld" where
  "init_checks tsaListen tsaHandler maxConnections w =
     (if tt_pipe0 (tw_th w) \<noteq> -1 then (E_UNEXPECTED, w)
      else if tt_fThreadIsValid (tw_th w) then (E_UNEXPECTED, w)
      else
        let w = upd_th (\<lambda>th. th\<lparr>tt_maxConnections := (if maxConnections > 0 then maxConnections
                                 else c_MaxNumberOfConnectionsDefault)\<rparr>) w in
        if tt_maxConnections (tw_th w) \<ge> 100000 then (E_INVALIDARG, w)
        else
          let countListen = length (filter (\<lambda>i. ta_fValid (tsaListen i)) all_roles);
              countHandler = length (filter (\<lambda>i. ta_fValid (tsaHandler i)) all_roles) in
          if countListen = 0 then (E_INVALIDARG, w) else if countHandler = 0 then (E_INVALIDARG, w) else (S_OK, w))"

definition TcpThread_Init :: "TcpInit \<Rightarrow> TransportAddressSet \<Rightarrow> TransportAddressSet \<Rightarrow> IStunAuth option \<Rightarrow> int \<Rightarrow> bool
    \<Rightarrow> TcpWorld \<Rightarrow> hresult \<times> TcpWorld" where
  "TcpThread_Init os tsaListen tsaHandler pAuth maxConnections spLimiter w =
     (let (hr, w) =
            chk (init_checks tsaListen tsaHandler maxConnections w) (\<lambda>w.
            let w = upd_th (\<lambda>th. th\<lparr>tt_tsaListen := tsaListen, tt_tsa := tsaHandler, tt_spAuth := pAuth\<rparr>) w in
            chk (CreateListenSockets os w) (\<lambda>w.
            chk (CreatePipes (ti_pipe os) (ti_errno os) w) (\<lambda>w.
            chk (create_polling os w) (\<lambda>w.
            chk (SetListenSocketsOnEpoll (ti_poll os) True w) (\<lambda>w.
            chk (polling_do (\<lambda>p. Polling_Add (ti_poll os) p (tt_pipe0 (tw_th w)) EPOLL_PIPE_EVENT_SET) w) (\<lambda>w.
            chk (init_tables w) (\<lambda>w.
              (S_OK, upd_th (\<lambda>th. th\<lparr>tt_spLimiter := spLimiter, tt_fNeedToExit := False\<rparr>) w)))))))) in
      if FAILED hr then (hr, TcpThread_Reset (ti_now os) w) else (hr, w))"

text \<open>What \<open>pthread_create\<close> answers, and the time at which a new thread begins with \<open>Run\<close>.\<close>

definition TcpThread_Start :: "int \<times> int \<Rightarrow> TcpWorld \<Rightarrow> hresult \<times> TcpWorld" where
  "TcpThread_Start created w =
     (if tt_fThreadIsValid (tw_th w) then (E_FAIL, w)
      else if tt_pipe0 (tw_th w) = -1 then (E_UNEXPECTED, w)
      else
        let w = upd_th (\<lambda>th. th\<lparr>tt_fNeedToExit := False\<rparr>) w in
        if fst created \<noteq> 0 then (ERRNO_TO_HRESULT (word_of_int (fst created)), w)
        else (S_OK, upd_th (\<lambda>th. th\<lparr>tt_fThreadIsValid := True, tt_timeLastSweep := snd created\<rparr>) w))"

section \<open>Closing a connection\<close>

definition CloseConnection :: "PollCalls \<Rightarrow> nat \<Rightarrow> TcpWorld \<Rightarrow> TcpWorld" where
  "CloseConnection c pConn w =
     (let conn = conn_at (tt_connectionpool (tw_th w)) pConn;
          sock = sk_sock (co_stunsocket conn);
          (_, w) = polling_do (\<lambda>p. Polling_Remove c p sock) w;
          (fds, s) = Socket_Close (tw_fds w, co_stunsocket conn);
          conn = conn\<lparr>co_stunsocket := s\<rparr>;
          w = w\<lparr>tw_fds := fds, tw_th := (tw_th w)\<lparr>tt_connectionpool := set_conn (tt_connectionpool (tw_th w)) pConn conn\<rparr>\<rparr>;
          w = (case co_idHashTable conn of None \<Rightarrow> w
               | Some t \<Rightarrow> upd_th (\<lambda>th. set_conn_map t (snd (FH_Remove fd_hash (conn_map_at th t) sock)) th) w) in
      upd_th (\<lambda>th. th\<lparr>tt_connectionpool := ReleaseConnection (tt_connectionpool th) pConn\<rparr>) w)"

text \<open>Each round takes the first item of the table, so as many rounds as there are items are enough.\<close>

fun close_all :: "nat \<Rightarrow> PollCalls \<Rightarrow> ConnTable \<Rightarrow> TcpWorld \<Rightarrow> TcpWorld" where
  "close_all 0 c t w = w"
| "close_all (Suc n) c t w =
     (let (pItem, h) = FH_LookupByIndex (conn_map_at (tw_th w) t) 0; w = upd_th (set_conn_map t h) w in
      case pItem of None \<Rightarrow> w | Some (_, pConn) \<Rightarrow> close_all n c t (CloseConnection c pConn w))"

definition CloseAllConnections :: "PollCalls \<Rightarrow> ConnTable \<Rightarrow> TcpWorld \<Rightarrow> TcpWorld" where
  "CloseAllConnections c t w = close_all (Suc (fh_size (conn_map_at (tw_th w) t))) c t w"

text \<open>The time is read twice.\<close>

definition SweepDeadConnections :: "PollCalls \<Rightarrow> int \<times> int \<Rightarrow> TcpWorld \<Rightarrow> TcpWorld" where
  "SweepDeadConnections c now w =
     (if fst now - tt_timeLastSweep (tw_th w) \<ge> c_sweepTimeoutSeconds
      then
        let w = CloseAllConnections c (tt_pOldConnList (tw_th w)) w;
            w = upd_th (\<lambda>th. th\<lparr>tt_timeLastSweep := snd now\<rparr>) w;
            pSwap = tt_pOldConnList (tw_th w) in
        upd_th (\<lambda>th. th\<lparr>tt_pOldConnList := tt_pNewConnList th, tt_pNewConnList := pSwap\<rparr>) w
      else w)"

definition ThreadCleanup :: "PollCalls \<Rightarrow> TcpWorld \<Rightarrow> TcpWorld" where
  "ThreadCleanup c w = (let w = CloseAllConnections c (tt_pOldConnList (tw_th w)) w in
     CloseAllConnections c (tt_pNewConnList (tw_th w)) w)"

section \<open>What a turn of the loop meets\<close>

text \<open>
  \<open>accept\<close> answers an error, or a new descriptor and the client's address, knowing which
  descriptors are open.  \<open>recv\<close> answers that data has come, the end of the stream, an error, or that it would block.
  \<open>send\<close> answers how much it took.  A list that has run out blocks.
\<close>

datatype recv_answer = RecvData bytes | RecvEnd | RecvError | RecvBlocks

datatype send_answer = Sent nat | SendError | SendBlocks

record TcpTurn =
  tr_poll :: PollCalls
  tr_exit :: bool
  tr_accept :: "descriptors \<Rightarrow> (int \<times> CSocketAddress) option"
  tr_sock :: SocketCalls
  tr_junk :: StunConnection
  tr_now :: int
  tr_recv :: "recv_answer list"
  tr_send :: "send_answer list"
  tr_sweep :: "int \<times> int"

definition Tcp_RateCheck :: "int \<Rightarrow> CSocketAddress \<Rightarrow> TcpWorld \<Rightarrow> bool \<times> TcpWorld" where
  "Tcp_RateCheck now addr w =
     (if tt_spLimiter (tw_th w)
      then (let (result, limiter) = RateCheck (tw_limiter w) addr now in (result, w\<lparr>tw_limiter := limiter\<rparr>))
      else (True, w))"

definition get_conn :: "nat \<Rightarrow> TcpWorld \<Rightarrow> StunConnection" where
  "get_conn pConn w = conn_at (tt_connectionpool (tw_th w)) pConn"

definition upd_conn :: "nat \<Rightarrow> (StunConnection \<Rightarrow> StunConnection) \<Rightarrow> TcpWorld \<Rightarrow> TcpWorld" where
  "upd_conn pConn f w = upd_th (\<lambda>th. th\<lparr>tt_connectionpool :=
     set_conn (tt_connectionpool th) pConn (f (conn_at (tt_connectionpool th) pConn))\<rparr>) w"

section \<open>Accepting a connection\<close>

definition AcceptConnection :: "TcpTurn \<Rightarrow> CStunSocket \<Rightarrow> TcpWorld \<Rightarrow> nat option \<times> TcpWorld" where
  "AcceptConnection tr pListenSocket w =
     (case tr_accept tr (tw_fds w) of None \<Rightarrow> (None, w)
      | Some (clientsock, addrClient) \<Rightarrow>
        let role = sk_role pListenSocket;
            w = w\<lparr>tw_fds := clientsock # tw_fds w\<rparr>;
            (allowed_to_pass, w) = Tcp_RateCheck (tr_now tr) addrClient w in
        if allowed_to_pass = False then (None, w\<lparr>tw_fds := remove1 clientsock (tw_fds w)\<rparr>)
        else
          let (pConn, fds, pool) = GetConnection (tr_sock tr) (tr_junk tr) (tr_now tr)
                 (tw_fds w, tt_connectionpool (tw_th w)) clientsock role;
              w = w\<lparr>tw_fds := fds, tw_th := (tw_th w)\<lparr>tt_connectionpool := pool\<rparr>\<rparr> in
          (case pConn of None \<Rightarrow> (None, w\<lparr>tw_fds := remove1 clientsock (tw_fds w)\<rparr>)
          | Some pConn \<Rightarrow>
              if FAILED (SetNonBlocking (tr_sock tr)) then (None, CloseConnection (tr_poll tr) pConn w)
              else
                let (hr, w) = polling_do (\<lambda>p. Polling_Add (tr_poll tr) p clientsock EPOLL_CLIENT_READ_EVENT_SET) w in
                if FAILED hr then (None, CloseConnection (tr_poll tr) pConn w)
                else
                  let t = tt_pNewConnList (tw_th w);
                      w = upd_conn pConn (\<lambda>c. c\<lparr>co_idHashTable := Some t\<rparr>) w;
                      (insertresult, h) = FH_Insert fd_hash (conn_map_at (tw_th w) t) clientsock pConn;
                      w = upd_th (set_conn_map t h) w in
                  if insertresult = -1 then (None, CloseConnection (tr_poll tr) pConn w) else (Some pConn, w)))"

section \<open>Writing and reading\<close>

fun WriteBytesForConnection :: "PollCalls \<Rightarrow> nat \<Rightarrow> send_answer list \<Rightarrow> TcpWorld \<Rightarrow> hresult \<times> TcpWorld" where
  "WriteBytesForConnection c pConn [] w = (S_OK, w)"
| "WriteBytesForConnection c pConn (SendBlocks # replies) w = (S_OK, w)"
| "WriteBytesForConnection c pConn (SendError # replies) w = (E_FAIL, CloseConnection c pConn w)"
| "WriteBytesForConnection c pConn (Sent n # replies) w =
     (let conn = get_conn pConn w; sock = sk_sock (co_stunsocket conn);
          pData = cb_contents (co_spOutputBuffer conn); bytestotal = cb_size (co_spOutputBuffer conn);
          bytesremaining = bytestotal - co_txCount conn; sent = min n bytesremaining in
      if sent = 0 then (E_UNEXPECTED, CloseConnection c pConn w)
      else
        let w = w\<lparr>tw_sent := tw_sent w @ [(sock, take sent (drop (co_txCount conn) pData))]\<rparr>;
            w = upd_conn pConn (\<lambda>conn. conn\<lparr>co_txCount := co_txCount conn + sent\<rparr>) w in
        if co_txCount (get_conn pConn w) \<ge> bytestotal
        then
          let w = upd_conn pConn (\<lambda>conn. conn\<lparr>co_state := ConnectionState_Receiving\<rparr>) w;
              w = upd_th (\<lambda>th. th\<lparr>tt_connectionpool := ResetConnection (tt_connectionpool th) pConn\<rparr>) w;
              (hr, w) = polling_do (\<lambda>p. Polling_ChangeEventSet c p sock EPOLL_CLIENT_READ_EVENT_SET) w in
          if FAILED hr then (hr, CloseConnection c pConn w) else (hr, w)
        else WriteBytesForConnection c pConn replies w)"

text \<open>The part of \<open>ReceiveBytesForConnection\<close> after a whole message was read.\<close>

definition request_received :: "(bytes \<Rightarrow> bytes \<Rightarrow> bytes) \<Rightarrow> (bytes \<Rightarrow> bytes) \<Rightarrow> TcpTurn \<Rightarrow> nat \<Rightarrow> TcpWorld \<Rightarrow> hresult \<times> TcpWorld" where
  "request_received hmac md5 tr pConn w =
     (let conn = get_conn pConn w; c = tr_poll tr; sock = sk_sock (co_stunsocket conn);
          msgIn = \<lparr>mi_socketrole = sk_role (co_stunsocket conn), mi_addrLocal = sk_addrlocal (co_stunsocket conn),
                   mi_addrRemote = sk_addrremote (co_stunsocket conn), mi_pReader = Some (co_reader conn),
                   mi_fConnectionOriented = True\<rparr>;
          msgOut = \<lparr>mo_socketrole = RolePP, mo_addrDest = CSocketAddress_default, mo_spBufferOut = Some (co_spOutputBuffer conn)\<rparr>;
          (allowed_to_pass, w) = Tcp_RateCheck (tr_now tr) (mi_addrRemote msgIn) w in
      if allowed_to_pass = False then (E_FAIL, CloseConnection c pConn w)
      else
        let (hr, out) = ProcessRequest hmac md5 msgIn msgOut (Some (tt_tsa (tw_th w))) (tt_spAuth (tw_th w));
            w = upd_conn pConn (\<lambda>conn. conn\<lparr>co_spOutputBuffer := the (mo_spBufferOut out)\<rparr>) w in
        if FAILED hr then (hr, CloseConnection c pConn w)
        else
          let w = upd_conn pConn (\<lambda>conn. conn\<lparr>co_state := ConnectionState_Transmitting\<rparr>) w;
              (hr, w) = polling_do (\<lambda>p. Polling_ChangeEventSet c p sock EPOLL_CLIENT_WRITE_EVENT_SET) w in
          if FAILED hr then (hr, CloseConnection c pConn w)
          else (hr, snd (WriteBytesForConnection c pConn (tr_send tr) w)))"

text \<open>The buffer of the connection that the reader writes to, until it outgrows it.\<close>

definition reader_fed :: "bytes \<Rightarrow> StunConnection \<Rightarrow> StunConnection" where
  "reader_fed bs conn =
     (let r = snd (MR_AddBytes (co_reader conn) bs) in
      conn\<lparr>co_reader := r, co_spReaderBuffer := (case ds_left (mr_stream r) of Some b \<Rightarrow> b
        | None \<Rightarrow> (case ds_buffer (mr_stream r) of Some b \<Rightarrow> b | None \<Rightarrow> co_spReaderBuffer conn))\<rparr>)"

fun recv_weight :: "recv_answer \<Rightarrow> nat" where
  "recv_weight (RecvData d) = Suc (length d)"
| "recv_weight _ = 1"

text \<open>Data that \<open>recv\<close> was not asked for stays in the socket.\<close>

function ReceiveBytesForConnection :: "(bytes \<Rightarrow> bytes \<Rightarrow> bytes) \<Rightarrow> (bytes \<Rightarrow> bytes) \<Rightarrow> TcpTurn \<Rightarrow> nat \<Rightarrow> recv_answer list
    \<Rightarrow> TcpWorld \<Rightarrow> hresult \<times> TcpWorld" where
  "ReceiveBytesForConnection hmac md5 tr pConn replies w =
     (let bytesneeded = unat (MR_HowManyBytesNeeded (co_reader (get_conn pConn w))) in
      if bytesneeded = 0 then (E_UNEXPECTED, CloseConnection (tr_poll tr) pConn w)
      else case replies of
        [] \<Rightarrow> (S_OK, w)
      | RecvBlocks # _ \<Rightarrow> (S_OK, w)
      | RecvEnd # _ \<Rightarrow> (E_FAIL, CloseConnection (tr_poll tr) pConn w)
      | RecvError # _ \<Rightarrow> (E_FAIL, CloseConnection (tr_poll tr) pConn w)
      | RecvData d # replies \<Rightarrow>
          if d = [] then (E_FAIL, CloseConnection (tr_poll tr) pConn w)
          else
            let rest = drop bytesneeded d; w = upd_conn pConn (reader_fed (take bytesneeded d)) w;
                readerstate = MR_GetState (co_reader (get_conn pConn w)) in
            if readerstate = ParseError then (E_FAIL, CloseConnection (tr_poll tr) pConn w)
            else if readerstate = BodyValidated then request_received hmac md5 tr pConn w
            else ReceiveBytesForConnection hmac md5 tr pConn (if rest = [] then replies else RecvData rest # replies) w)"
  by pat_completeness auto
termination
  by (relation "measure (\<lambda>(_, _, _, _, replies, _). sum_list (map recv_weight replies))") auto

declare ReceiveBytesForConnection.simps [simp del]

section \<open>The loop\<close>

definition ProcessConnectionEvent :: "(bytes \<Rightarrow> bytes \<Rightarrow> bytes) \<Rightarrow> (bytes \<Rightarrow> bytes) \<Rightarrow> TcpTurn \<Rightarrow> int \<Rightarrow> TcpWorld \<Rightarrow> TcpWorld" where
  "ProcessConnectionEvent hmac md5 tr sock w =
     (let ppConn = FH_Lookup fd_hash (conn_map_at (tw_th w) (tt_pNewConnList (tw_th w))) sock;
          ppConn = (if ppConn = None then FH_Lookup fd_hash (conn_map_at (tw_th w) (tt_pOldConnList (tw_th w))) sock
                    else ppConn) in
      case ppConn of None \<Rightarrow> w
      | Some pConn \<Rightarrow>
          (case co_state (get_conn pConn w) of
             ConnectionState_Receiving \<Rightarrow> snd (ReceiveBytesForConnection hmac md5 tr pConn (tr_recv tr) w)
           | ConnectionState_Transmitting \<Rightarrow> snd (WriteBytesForConnection (tr_poll tr) pConn (tr_send tr) w)
           | ConnectionState_Idle \<Rightarrow> w))"

definition wait_event :: "PollCalls \<Rightarrow> TcpWorld \<Rightarrow> hresult \<times> PollEvent \<times> TcpWorld" where
  "wait_event c w = (case tt_spPolling (tw_th w) of None \<Rightarrow> (E_UNEXPECTED, \<lparr>pe_fd = 0, pe_eventflags = 0\<rparr>, w)
     | Some p \<Rightarrow> let (hr, p, ev) = Polling_WaitForNextEvent c p \<lparr>pe_fd = 0, pe_eventflags = 0\<rparr> in
         (hr, ev, upd_th (\<lambda>th. th\<lparr>tt_spPolling := Some p\<rparr>) w))"

text \<open>What is done for an event, and one turn of the loop: whether it goes on.\<close>

definition handle_event :: "(bytes \<Rightarrow> bytes \<Rightarrow> bytes) \<Rightarrow> (bytes \<Rightarrow> bytes) \<Rightarrow> TcpTurn \<Rightarrow> int \<Rightarrow> TcpWorld \<Rightarrow> TcpWorld" where
  "handle_event hmac md5 tr fd w = (case GetListenSocket (tw_th w) fd of
     Some pListenSocket \<Rightarrow>
       (let (pConn, w) = AcceptConnection tr pListenSocket w in
        case pConn of None \<Rightarrow> w | Some pConn \<Rightarrow> snd (ReceiveBytesForConnection hmac md5 tr pConn (tr_recv tr) w))
   | None \<Rightarrow> ProcessConnectionEvent hmac md5 tr fd w)"

definition Tcp_turn :: "(bytes \<Rightarrow> bytes \<Rightarrow> bytes) \<Rightarrow> (bytes \<Rightarrow> bytes) \<Rightarrow> TcpTurn \<Rightarrow> TcpWorld \<Rightarrow> bool \<times> TcpWorld" where
  "Tcp_turn hmac md5 tr w =
     (if tt_fNeedToExit (tw_th w) then (False, w)
      else
        let (_, w) = SetListenSocketsOnEpoll (tr_poll tr) (IsConnectionCountAtMax (tw_th w) = False) w;
            (hrPoll, pollevent, w) = wait_event (tr_poll tr) w;
            w = (if tr_exit tr then upd_th (\<lambda>th. th\<lparr>tt_fNeedToExit := True\<rparr>) w else w) in
        if tt_fNeedToExit (tw_th w) \<or> pe_fd pollevent = tt_pipe0 (tw_th w) then (False, w)
        else
          let w = (if hrPoll = S_OK then handle_event hmac md5 tr (pe_fd pollevent) w else w) in
          (True, SweepDeadConnections (tr_poll tr) (tr_sweep tr) w))"

text \<open>\<open>Run\<close>: whether the thread has ended, after the turns of its loop that are given.\<close>

fun Tcp_Run :: "(bytes \<Rightarrow> bytes \<Rightarrow> bytes) \<Rightarrow> (bytes \<Rightarrow> bytes) \<Rightarrow> TcpTurn list \<Rightarrow> TcpWorld \<Rightarrow> bool \<times> TcpWorld" where
  "Tcp_Run hmac md5 [] w = (False, w)"
| "Tcp_Run hmac md5 (tr # turns) w =
     (let (more, w) = Tcp_turn hmac md5 tr w in
      if more then Tcp_Run hmac md5 turns w else (True, ThreadCleanup (tr_poll tr) w))"

text \<open>
  \<open>Stop\<close>: the thread may do some more turns before it sees the request, then cleans up; \<open>c\<close> answers
  the calls of this clean-up.
\<close>

definition TcpThread_Stop :: "(bytes \<Rightarrow> bytes \<Rightarrow> bytes) \<Rightarrow> (bytes \<Rightarrow> bytes) \<Rightarrow> TcpTurn list \<Rightarrow> PollCalls \<Rightarrow> int
    \<Rightarrow> TcpWorld \<Rightarrow> hresult \<times> TcpWorld" where
  "TcpThread_Stop hmac md5 turns c now w =
     (let w = (if tt_fThreadIsValid (tw_th w)
               then (let (ended, w) = Tcp_Run hmac md5 turns w;
                         w = (if ended then w else ThreadCleanup c (upd_th (\<lambda>th. th\<lparr>tt_fNeedToExit := True\<rparr>) w)) in
                     upd_th (\<lambda>th. th\<lparr>tt_fThreadIsValid := False\<rparr>) w)
               else w) in
      (S_OK, TcpThread_Reset now w))"

end
