(* ===== verification/StunTcpInv.thy ===== *)
theory StunTcpInv imports StunTcpThread begin

text \<open>
  What the thread of the TCP server keeps through its life: every connection object is in the pool or
  in exactly one of the two tables, under the descriptor of its socket, and is either reading an
  incomplete message or sending an unfinished response; every open descriptor is accounted for; and
  \<open>epoll\<close> watches each connection for what it waits for.
\<close>

section \<open>The buffers of a connection\<close>

definition roomy :: "cbuffer \<Rightarrow> bool" where
  "roomy b \<longleftrightarrow> buffer_ok b \<and> 800 \<le> cb_allocated b"

definition stream_held :: "cstream \<Rightarrow> bool" where
  "stream_held s \<longleftrightarrow> stream_ok s \<and> (case ds_left s of Some b \<Rightarrow> roomy b | None \<Rightarrow> (\<exists>b. ds_buffer s = Some b \<and> roomy b))"

lemma DS_Grow_held: "stream_held s \<Longrightarrow> stream_held (snd (DS_Grow s n))"
  using DS_Grow_ok(2) [of s n] unfolding stream_held_def
  by (auto simp: DS_Grow_def Let_def split: option.splits)

lemma DS_Write_held:
  assumes "stream_held s" "bs \<noteq> []"
  shows "stream_held (snd (DS_Write s bs))"
proof -
  let ?g = "snd (DS_Grow s (length bs + ds_pos s))"
  have ok: "stream_ok s"
    using assms(1) by (simp add: stream_held_def)
  note g = DS_Grow_ok [OF ok, of "length bs + ds_pos s"] DS_Grow_held [OF assms(1), of "length bs + ds_pos s"]
  have room: "length bs + ds_pos ?g \<le> DS_allocated ?g"
    using g by simp
  note w = DS_Write_after_grow [OF g(2) assms(2) room]
  have "ds_left ?g = None \<Longrightarrow> \<exists>b. ds_buffer (snd (DS_Write ?g bs)) = Some b \<and> roomy b"
    using w(2,5,7) g(7) by (auto simp: stream_held_def roomy_def stream_ok_def DS_allocated_def)
  then show ?thesis
    using w(2,6) g(7) unfolding DS_Write_grow [OF ok assms(2)] by (auto simp: stream_held_def split: option.splits)
qed

definition conn_buffers :: "StunConnection \<Rightarrow> bool" where
  "conn_buffers c \<longleftrightarrow> reader_alive (co_reader c) \<and> roomy (co_spReaderBuffer c) \<and> roomy (co_spOutputBuffer c)"

text \<open>\<open>bs\<close> was read so far.\<close>

definition has_read :: "bytes \<Rightarrow> StunConnection \<Rightarrow> bool" where
  "has_read bs c \<longleftrightarrow> reader_ok True bs (co_reader c) \<and> (MR_GetState (co_reader c) \<noteq> ParseError \<longrightarrow> stream_held (mr_stream (co_reader c)))"

lemma roomy_new [simp]: "roomy (CB_new MAX_STUN_MESSAGE_SIZE)"
  by (simp add: roomy_def stun_consts)

lemma conn_buffers_new: "conn_buffers (new_connection junk)"
  by (simp add: conn_buffers_def new_connection_def)

lemma prepare_reader_ok:
  assumes "conn_buffers c"
  shows "conn_buffers (prepare_reader c)" "has_read [] (prepare_reader c)"
    "prepare_reader c = c\<lparr>co_reader := co_reader (prepare_reader c)\<rparr>"
proof -
  have r: "reader_alive (co_reader c)" "buffer_ok (co_spReaderBuffer c)"
    using assms by (simp_all add: conn_buffers_def roomy_def)
  note a = MR_Attach_ok [OF r] and s = DS_Attach_writing [OF r(2), of "mr_stream (MR_Reset (co_reader c))"]
  show "conn_buffers (prepare_reader c)"
    using assms a(2) by (simp add: conn_buffers_def prepare_reader_def)
  have "stream_held (mr_stream (MR_Attach (co_reader c) (co_spReaderBuffer c)))"
    using s(1,5,6) assms unfolding MR_Attach_def
    by (auto simp: stream_held_def ds_in_place_def conn_buffers_def roomy_def DS_allocated_def stream_ok_def split: option.splits)
  then show "has_read [] (prepare_reader c)"
    using a(1) by (simp add: has_read_def prepare_reader_def)
  show "prepare_reader c = c\<lparr>co_reader := co_reader (prepare_reader c)\<rparr>"
    by (simp add: prepare_reader_def)
qed

lemma DS_SeekDirect_held: "stream_held s \<Longrightarrow> stream_held (snd (DS_SeekDirect s p))"
  by (auto simp: stream_held_def DS_SeekDirect_def stream_ok_def DS_GetSize_def split: option.splits)

lemma reader_fed_ok:
  assumes c: "conn_buffers c" "has_read bs c" and st: "MR_GetState (co_reader c) \<noteq> ParseError"
  shows "conn_buffers (reader_fed d c)" "has_read (bs @ d) (reader_fed d c)"
    "MR_GetState (co_reader (reader_fed d c)) = spec_state True (bs @ d)"
proof -
  let ?r = "co_reader c" and ?r' = "snd (MR_AddBytes (co_reader c) d)"
  have r: "reader_ok True (bs @ d) ?r'"
    using AddBytes_ok [of True bs ?r d] c(2) by (simp add: has_read_def)
  show g: "MR_GetState (co_reader (reader_fed d c)) = spec_state True (bs @ d)"
    using r by (simp add: reader_fed_def Let_def MR_GetState_def reader_ok_state)
  have held: "stream_held (mr_stream ?r)" and stn: "mr_state ?r \<noteq> ParseError"
    using c(2) st by (simp_all add: has_read_def MR_GetState_def)
  have h: "reader_alive ?r' \<and> (MR_GetState ?r' \<noteq> ParseError \<longrightarrow> stream_held (mr_stream ?r')) \<and>
    roomy (case ds_left (mr_stream ?r') of Some b \<Rightarrow> b
        | None \<Rightarrow> (case ds_buffer (mr_stream ?r') of Some b \<Rightarrow> b | None \<Rightarrow> co_spReaderBuffer c))"
  proof (cases "d = []")
    case True
    then have "?r' = ?r"
      by (simp add: MR_AddBytes_def)
    then show ?thesis
      using held c(1) by (auto simp: stream_held_def conn_buffers_def split: option.splits)
  next
    case False
    let ?s = "snd (DS_SeekDirect (mr_stream ?r) (DS_GetSize (mr_stream ?r)))"
    let ?w = "snd (DS_Write ?s d)"
    have w: "stream_held ?w"
      by (intro DS_Write_held DS_SeekDirect_held held False)
    have f: "reader_frame (?r\<lparr>mr_stream := ?w\<rparr>) ?r'"
      by (rule AddBytes_frame [OF stn False])
    then have fs: "ds_buffer (mr_stream ?r') = ds_buffer ?w" "ds_left (mr_stream ?r') = ds_left ?w"
      by (simp_all add: reader_frame_def stream_frame_def)
    have "stream_ok (mr_stream ?r')" if "MR_GetState ?r' \<noteq> ParseError"
      using r that by (simp add: reader_ok_def MR_GetState_def body_at_def)
    then show ?thesis
      using w f fs c(1) by (auto simp: stream_held_def conn_buffers_def reader_alive_def reader_frame_def split: option.splits)
  qed
  then show "conn_buffers (reader_fed d c)"
    using c(1) by (simp add: conn_buffers_def reader_fed_def Let_def)
  show "has_read (bs @ d) (reader_fed d c)"
    using r h by (simp add: has_read_def reader_fed_def Let_def)
qed

lemma reader_fed_fields [simp]:
  "co_stunsocket (reader_fed d c) = co_stunsocket c" "co_idHashTable (reader_fed d c) = co_idHashTable c"
  "co_state (reader_fed d c) = co_state c" "co_spOutputBuffer (reader_fed d c) = co_spOutputBuffer c"
  "co_txCount (reader_fed d c) = co_txCount c" "co_pNext (reader_fed d c) = co_pNext c"
  "co_timeStart (reader_fed d c) = co_timeStart c"
  by (simp_all add: reader_fed_def Let_def)

section \<open>The pool\<close>

text \<open>The free connections, in the order of the list.\<close>

definition free_list :: "CConnectionPool \<Rightarrow> nat list \<Rightarrow> bool" where
  "free_list pool fr \<longleftrightarrow> lseg (\<lambda>p. co_pNext (conn_at pool p)) (po_freelist pool) fr \<and> distinct fr \<and>
     set fr \<subseteq> dom (po_heap pool) \<and> dom (po_heap pool) \<subseteq> {..<po_new pool} \<and>
     (\<forall>p\<in>set fr. sk_sock (co_stunsocket (conn_at pool p)) = -1 \<and> conn_buffers (conn_at pool p))"

lemma lseg_cong: "(\<And>x. x \<in> set xs \<Longrightarrow> nx x = nx' x) \<Longrightarrow> lseg nx p xs = lseg nx' p xs"
  by (induction xs arbitrary: p) auto

lemma conn_at_set: "conn_at (set_conn pool p c) q = (if q = p then c else conn_at pool q)"
  by (simp add: conn_at_def set_conn_def)

lemma set_conn_fields [simp]: "po_freelist (set_conn pool p c) = po_freelist pool" "po_new (set_conn pool p c) = po_new pool"
  "dom (po_heap (set_conn pool p c)) = insert p (dom (po_heap pool))"
  by (auto simp: set_conn_def)

lemma conn_at_free [simp]: "conn_at (pool\<lparr>po_freelist := f\<rparr>) q = conn_at pool q" "conn_at (pool\<lparr>po_new := n\<rparr>) q = conn_at pool q"
  by (simp_all add: conn_at_def)

lemma lseg_other [simp]: "p \<notin> set xs \<Longrightarrow>
    lseg (\<lambda>q. co_pNext (if q = p then c else conn_at pool q)) s xs = lseg (\<lambda>q. co_pNext (conn_at pool q)) s xs"
  by (rule lseg_cong) auto

lemma free_list_set:
  "free_list pool fr \<Longrightarrow> p \<notin> set fr \<Longrightarrow> p \<in> dom (po_heap pool) \<Longrightarrow> free_list (set_conn pool p c) fr"
  by (auto simp: free_list_def conn_at_set insert_absorb)

lemma free_list_pop:
  assumes "free_list pool (p # fr)"
  shows "po_freelist pool = Some p" "free_list (pool\<lparr>po_freelist := co_pNext (conn_at pool p)\<rparr>) fr"
    "sk_sock (co_stunsocket (conn_at pool p)) = -1" "conn_buffers (conn_at pool p)" "p \<in> dom (po_heap pool)" "p \<notin> set fr"
  using assms by (auto simp: free_list_def)

lemma free_list_push:
  assumes "free_list pool fr" "p \<notin> set fr" "p < po_new pool" "sk_sock (co_stunsocket c) = -1" "conn_buffers c"
    "co_pNext c = po_freelist pool"
  shows "free_list ((set_conn pool p c)\<lparr>po_freelist := Some p\<rparr>) (p # fr)"
  using assms by (auto simp: free_list_def conn_at_set)

lemma ReleaseConnection_free:
  assumes "free_list pool fr" "p \<notin> set fr" "p \<in> dom (po_heap pool)"
    "sk_sock (co_stunsocket (conn_at pool p)) = -1" "conn_buffers (conn_at pool p)"
  shows "free_list (ReleaseConnection pool p) (p # fr)"
  unfolding ReleaseConnection_def
  by (rule free_list_push) (use assms in \<open>auto simp: free_list_def conn_buffers_def\<close>)

lemma grow_by_free:
  "free_list pool fr \<Longrightarrow> \<exists>fr'. length fr' = n \<and> free_list (grow_by n junk pool) (fr' @ fr) \<and>
     dom (po_heap (grow_by n junk pool)) = set fr' \<union> dom (po_heap pool) \<and> set fr' \<inter> dom (po_heap pool) = {} \<and>
     (\<forall>p\<in>dom (po_heap pool). conn_at (grow_by n junk pool) p = conn_at pool p)"
proof (induction n arbitrary: pool fr)
  case (Suc n)
  let ?p = "po_new pool"
  let ?c = "(new_connection junk)\<lparr>co_pNext := po_freelist pool\<rparr>"
  let ?pool = "(set_conn pool ?p ?c)\<lparr>po_freelist := Some ?p, po_new := ?p + 1\<rparr>"
  have new: "?p \<notin> dom (po_heap pool)" "?p \<notin> set fr"
    using Suc.prems by (auto simp: free_list_def)
  have "free_list ((set_conn (pool\<lparr>po_new := ?p + 1\<rparr>) ?p ?c)\<lparr>po_freelist := Some ?p\<rparr>) (?p # fr)"
    using Suc.prems new conn_buffers_new [of junk]
    by (intro free_list_push) (auto simp: free_list_def conn_buffers_def new_connection_def CStunSocket_new_def)
  moreover have "(set_conn (pool\<lparr>po_new := ?p + 1\<rparr>) ?p ?c)\<lparr>po_freelist := Some ?p\<rparr> = ?pool"
    by (simp add: set_conn_def)
  ultimately have "free_list ?pool (?p # fr)"
    by simp
  from Suc.IH [OF this] obtain fr' where f: "length fr' = n" "free_list (grow_by n junk ?pool) (fr' @ ?p # fr)"
    "dom (po_heap (grow_by n junk ?pool)) = set fr' \<union> dom (po_heap ?pool)" "set fr' \<inter> dom (po_heap ?pool) = {}"
    "\<forall>p\<in>dom (po_heap ?pool). conn_at (grow_by n junk ?pool) p = conn_at ?pool p"
    by blast
  have h: "dom (po_heap ?pool) = insert ?p (dom (po_heap pool))"
    by simp
  have "grow_by (Suc n) junk pool = grow_by n junk ?pool"
    by (simp add: Let_def)
  moreover have "conn_at ?pool p = conn_at pool p" if "p \<in> dom (po_heap pool)" for p
    using that new(1) by (auto simp: conn_at_def set_conn_def)
  ultimately show ?case
    using f new unfolding h by (intro exI [of _ "fr' @ [?p]"]) auto
qed simp

definition conn_addrs :: "StunConnection \<Rightarrow> bool" where
  "conn_addrs c \<longleftrightarrow> is_ip_addr (sk_addrlocal (co_stunsocket c)) \<and> is_ip_addr (sk_addrremote (co_stunsocket c))"

text \<open>What \<open>getsockname\<close> and \<open>getpeername\<close> are documented to deliver on these sockets.\<close>

definition names_fine :: "SocketCalls \<Rightarrow> bool" where
  "names_fine os \<longleftrightarrow> (\<forall>a. sc_getsockname os = Some a \<or> sc_getpeername os = Some a \<longrightarrow> is_ip_addr a)"

lemma any_address_ip: "is_ip_addr (CSocketAddress_ipv4 0 0)"
  by simp

lemma Attach_closed:
  assumes "sk_sock s = -1" "sock \<noteq> -1" "names_fine os"
  obtains s' where "Socket_Attach os (fds, s) sock = (S_OK, fds, s')" "sk_sock s' = sock"
    "is_ip_addr (sk_addrlocal s')" "is_ip_addr (sk_addrremote s')"
  using assms any_address_ip
  by (auto simp: Socket_Attach_def Socket_Close_def Socket_Reset_def UpdateAddresses_def names_fine_def Let_def split: option.splits)

definition fresh_conn :: "int \<Rightarrow> SocketRole \<Rightarrow> int \<Rightarrow> StunConnection \<Rightarrow> bool" where
  "fresh_conn sock role now c \<longleftrightarrow> sk_sock (co_stunsocket c) = sock \<and> sk_role (co_stunsocket c) = role \<and> co_idHashTable c = None \<and>
     co_state c = ConnectionState_Receiving \<and> co_txCount c = 0 \<and> co_timeStart c = now \<and>
     conn_buffers c \<and> has_read [] c \<and> conn_addrs c"

lemma GetConnection_ok:
  assumes fr: "free_list pool fr" and sock: "sock \<noteq> -1" "names_fine os"
  obtains p fr' pool' where "GetConnection os junk now (fds, pool) sock role = (Some p, fds, pool')"
    "free_list pool' fr'" "p \<notin> set fr'" "p \<in> dom (po_heap pool')" "fresh_conn sock role now (conn_at pool' p)"
    "dom (po_heap pool') = dom (po_heap pool) \<union> insert p (set fr')" "set fr \<subseteq> insert p (set fr')"
    "insert p (set fr') \<inter> (dom (po_heap pool) - set fr) = {}"
    "\<And>q. q \<in> dom (po_heap pool) \<Longrightarrow> q \<notin> set fr \<Longrightarrow> conn_at pool' q = conn_at pool q"
proof -
  define pool1 where "pool1 = (if po_freelist pool = None then snd (Pool_Grow junk pool) else pool)"
  have "\<exists>fr1. fr1 \<noteq> [] \<and> free_list pool1 fr1 \<and> dom (po_heap pool1) = dom (po_heap pool) \<union> set fr1 \<and> set fr \<subseteq> set fr1 \<and>
      set fr1 \<inter> (dom (po_heap pool) - set fr) = {} \<and> (\<forall>q\<in>dom (po_heap pool). conn_at pool1 q = conn_at pool q)"
  proof (cases fr)
    case Nil
    then have "po_freelist pool = None"
      using fr by (simp add: free_list_def)
    moreover obtain fr' where "length fr' = 50" "free_list (grow_by 50 junk pool) (fr' @ fr)"
      "dom (po_heap (grow_by 50 junk pool)) = set fr' \<union> dom (po_heap pool)" "set fr' \<inter> dom (po_heap pool) = {}"
      "\<forall>p\<in>dom (po_heap pool). conn_at (grow_by 50 junk pool) p = conn_at pool p"
      using grow_by_free [OF fr, of 50 junk] by blast
    ultimately show ?thesis
      using Nil by (intro exI [of _ fr']) (auto simp: pool1_def Pool_Grow_def)
  next
    case (Cons p fr')
    then have "po_freelist pool \<noteq> None" "set fr \<subseteq> dom (po_heap pool)"
      using fr by (auto simp: free_list_def)
    then show ?thesis
      using fr Cons by (intro exI [of _ fr]) (auto simp: pool1_def)
  qed
  then obtain fr1 where f1: "fr1 \<noteq> []" "free_list pool1 fr1" "dom (po_heap pool1) = dom (po_heap pool) \<union> set fr1"
    "set fr \<subseteq> set fr1" "set fr1 \<inter> (dom (po_heap pool) - set fr) = {}"
    "\<forall>q\<in>dom (po_heap pool). conn_at pool1 q = conn_at pool q"
    by blast
  obtain p fr' where pf: "fr1 = p # fr'"
    using f1(1) by (cases fr1) auto
  note pop = free_list_pop [OF f1(2) [unfolded pf]]
  define c0 where "c0 = (conn_at pool1 p)\<lparr>co_pNext := None\<rparr>"
  have cb: "conn_buffers c0" "sk_sock (co_stunsocket c0) = -1"
    using pop(3,4) by (simp_all add: c0_def conn_buffers_def)
  note pr = prepare_reader_ok [OF cb(1)]
  define c1 where "c1 = (prepare_reader c0)\<lparr>co_state := ConnectionState_Receiving\<rparr>"
  have cp: "co_stunsocket (prepare_reader c0) = co_stunsocket c1"
    by (simp add: c1_def)
  have c1: "co_stunsocket c1 = co_stunsocket c0" "conn_buffers c1" "has_read [] c1"
    using pr by (simp_all add: c1_def conn_buffers_def has_read_def prepare_reader_def)
  obtain s' where at: "Socket_Attach os (fds, co_stunsocket c1) sock = (S_OK, fds, s')" "sk_sock s' = sock"
    "is_ip_addr (sk_addrlocal s')" "is_ip_addr (sk_addrremote s')"
    using Attach_closed [OF _ sock] c1(1) cb(2) by metis
  define c2 where "c2 = c1\<lparr>co_stunsocket := SetRole s' role, co_txCount := 0, co_timeStart := now, co_idHashTable := None\<rparr>"
  define pool2 where "pool2 = pool1\<lparr>po_freelist := co_pNext (conn_at pool1 p)\<rparr>"
  have e: "GetConnection os junk now (fds, pool) sock role = (Some p, fds, set_conn pool2 p c2)"
    using pop(1) at(1) unfolding GetConnection_def
    by (simp add: cp pool1_def [symmetric] c0_def [symmetric] c1_def [symmetric] c2_def [symmetric] pool2_def [symmetric] Let_def)
  have heap2: "po_heap pool2 = po_heap pool1"
    by (simp add: pool2_def)
  have "fresh_conn sock role now c2"
    using at c1 by (simp add: fresh_conn_def c2_def SetRole_def conn_buffers_def has_read_def conn_addrs_def c1_def)
  then have "fresh_conn sock role now (conn_at (set_conn pool2 p c2) p)"
    by (simp add: conn_at_set)
  moreover have "free_list (set_conn pool2 p c2) fr'"
    using free_list_set [OF pop(2) pop(6)] pop(5) by (simp add: pool2_def)
  moreover have "dom (po_heap (set_conn pool2 p c2)) = dom (po_heap pool) \<union> insert p (set fr')"
    using f1(3) pf heap2 by auto
  moreover have "conn_at (set_conn pool2 p c2) q = conn_at pool q" if "q \<in> dom (po_heap pool)" "q \<notin> set fr" for q
    using that f1(5,6) pf by (auto simp: conn_at_set pool2_def)
  ultimately show thesis
    using that [OF e] pop(6) f1(4,5) pf by (metis (no_types, lifting) UnI2 insertI1 list.simps(15))
qed

lemma delete_free_all:
  "free_list pool fr \<Longrightarrow> length fr < n \<Longrightarrow> dom (po_heap (delete_free n pool)) = dom (po_heap pool) - set fr \<and>
     po_freelist (delete_free n pool) = None \<and> po_new (delete_free n pool) = po_new pool"
proof (induction n arbitrary: pool fr)
  case (Suc n)
  show ?case
  proof (cases fr)
    case Nil
    then show ?thesis
      using Suc.prems(1) by (auto simp: free_list_def)
  next
    case (Cons p fr')
    define pl where "pl = pool\<lparr>po_freelist := co_pNext (conn_at pool p), po_heap := (po_heap pool)(p := None)\<rparr>"
    note pop = free_list_pop [OF Suc.prems(1) [unfolded Cons]]
    have at: "conn_at pl q = conn_at pool q" if "q \<noteq> p" for q
      using that by (simp add: pl_def conn_at_def)
    have "lseg (\<lambda>q. co_pNext (conn_at pl q)) s fr' = lseg (\<lambda>q. co_pNext (conn_at pool q)) s fr'" for s
      using pop(6) at by (intro lseg_cong) metis
    moreover have "po_freelist pl = co_pNext (conn_at pool p)" "dom (po_heap pl) = dom (po_heap pool) - {p}" "po_new pl = po_new pool"
      by (auto simp: pl_def)
    moreover have "\<forall>q\<in>set fr'. conn_at pl q = conn_at pool q"
      using pop(6) by (auto intro: at)
    ultimately have "free_list pl fr'" "dom (po_heap pl) = dom (po_heap pool) - {p}" "po_new pl = po_new pool"
      using pop(2,6) unfolding free_list_def by auto
    moreover have "delete_free (Suc n) pool = delete_free n pl"
      using pop(1) by (simp add: pl_def)
    ultimately show ?thesis
      using Suc.IH [of pl fr'] Suc.prems(2) Cons by auto
  qed
qed simp

lemma Pool_Reset_all:
  assumes "free_list pool fr" "dom (po_heap pool) = set fr"
  shows "po_heap (Pool_Reset pool) = Map.empty" "free_list (Pool_Reset pool) []"
proof -
  have "length fr = card (set fr)"
    using assms(1) by (simp add: free_list_def distinct_card)
  also have "\<dots> \<le> card {..<po_new pool}"
    using assms by (intro card_mono) (auto simp: free_list_def)
  finally have "length fr < Suc (po_new pool)"
    by simp
  note d = delete_free_all [OF assms(1) this]
  show "po_heap (Pool_Reset pool) = Map.empty" "free_list (Pool_Reset pool) []"
    using d assms(2) by (auto simp: Pool_Reset_def free_list_def)
qed

section \<open>A table of connections as a map\<close>

lemma map_enum:
  assumes "fhm.is_map hf h m"
  shows "map_of (fh_enum h) = m" "distinct (map fst (fh_enum h))" "length (fh_enum h) = fh_size h"
proof -
  have ok: "fh_ok hf h" and st: "\<And>k. fh_stack hf h k = (case m k of None \<Rightarrow> [] | Some v \<Rightarrow> [v])"
    using assms by (simp_all add: fhm.is_map_def)
  have f: "map snd (filter (\<lambda>x. fst x = k) (fh_enum h)) = (case m k of None \<Rightarrow> [] | Some v \<Rightarrow> [v])" for k
  proof (cases "m k")
    case None
    then have "mset (map snd (filter (\<lambda>x. fst x = k) (fh_enum h))) = {#}"
      unfolding fh_enum_stack [OF ok, of k] st by simp
    with None show ?thesis
      by (simp only: mset_zero_iff option.case)
  next
    case (Some v)
    then have "mset (map snd (filter (\<lambda>x. fst x = k) (fh_enum h))) = {#v#}"
      unfolding fh_enum_stack [OF ok, of k] st by simp
    with Some show ?thesis
      by (simp only: mset_single_iff option.case)
  qed
  have one: "map_of xs k = (case map snd (filter (\<lambda>x. fst x = k) xs) of [] \<Rightarrow> None | v # _ \<Rightarrow> Some v)"
    for xs :: "('a \<times> 'b) list" and k
    by (induction xs) auto
  show "map_of (fh_enum h) = m"
    by (simp add: fun_eq_iff one f split: option.split)
  have "distinct (map fst xs)" if "\<And>k. length (filter (\<lambda>x. fst x = k) xs) \<le> 1" for xs :: "('a \<times> 'b) list"
    using that
  proof (induction xs)
    case (Cons x xs)
    have "length (filter (\<lambda>x. fst x = k) xs) \<le> 1" for k
      using Cons.prems [of k] by (auto split: if_splits)
    moreover have "filter (\<lambda>y. fst y = fst x) xs = []"
      using Cons.prems [of "fst x"] by simp
    ultimately show ?case
      using Cons.IH by (auto simp: filter_empty_conv)
  qed simp
  moreover have "length (filter (\<lambda>x. fst x = k) (fh_enum h)) \<le> 1" for k
    using arg_cong [OF f [of k], of length] by (simp split: option.splits)
  ultimately show "distinct (map fst (fh_enum h))"
    by blast
  show "length (fh_enum h) = fh_size h"
    by (simp add: fh_enum_def)
qed

lemma map_size:
  assumes "fhm.is_map hf h m"
  shows "finite (dom m)" "fh_size h = card (dom m)"
proof -
  note e = map_enum [OF assms]
  have d: "dom m = set (map fst (fh_enum h))"
    using dom_map_of_conv_image_fst [of "fh_enum h"] e(1) by simp
  then show "finite (dom m)"
    by simp
  show "fh_size h = card (dom m)"
    unfolding d using distinct_card [OF e(2)] e(3) by simp
qed

lemma LookupByIndex_first:
  assumes m: "fhm.is_map hf h m" and n: "m \<noteq> Map.empty"
  obtains k v h' where "FH_LookupByIndex h 0 = (Some (k, v), h')" "m k = Some v" "fhm.is_map hf h' m" "fh_fsize h' = fh_fsize h"
proof -
  have ok: "fh_ok hf h"
    using m by (simp add: fhm.is_map_def)
  have n': "0 < fh_size h"
    using n map_size [OF m] by (metis card_gt_0_iff dom_eq_empty_conv)
  define h' where "h' = (if fh_fIndexValid h then h else FH_ReIndex h)"
  note r = FH_ReIndex_ok [OF ok n']
  have h': "fh_ok hf h'" "fh_fIndexValid h'" "fh_size h' = fh_size h" "fhm.is_map hf h' m"
    using r ok m by (auto simp: h'_def fhm.is_map_def)
  have sz: "fh_fsize h' = fh_fsize h"
    by (simp add: h'_def r)
  have o: "fh_ordered hf h'"
    using h' by (simp add: fh_ordered_def)
  have e: "FH_LookupByIndex h 0 = (Some (fh_enum h' ! 0), h')"
    using FH_LookupByIndex_enum [OF o, of 0] h'(3) n' FH_LookupByIndex_reindex [OF ok n'] by (auto simp: h'_def)
  note en = map_enum [OF h'(4)]
  obtain k v xs where x: "fh_enum h' = (k, v) # xs"
    using en(3) h'(3) n' by (cases "fh_enum h'") auto
  then have "m k = Some v"
    using en(1) by auto
  with that e x h'(4) sz show thesis
    by simp
qed

lemma LookupByIndex_none: "fhm.is_map hf h Map.empty \<Longrightarrow> FH_LookupByIndex h 0 = (None, h)"
  using map_size [of hf h Map.empty] by (simp add: FH_LookupByIndex_def)

section \<open>The invariant of the thread\<close>

definition conn_table :: "TcpWorld \<Rightarrow> ConnTable \<Rightarrow> int \<rightharpoonup> nat" where
  "conn_table w t = FH_Lookup fd_hash (conn_map_at (tw_th w) t)"

definition owned :: "TcpWorld \<Rightarrow> nat set" where
  "owned w = ran (conn_table w Connections1) \<union> ran (conn_table w Connections2)"

definition taken :: "TcpWorld \<Rightarrow> int set" where
  "taken w = dom (conn_table w Connections1) \<union> dom (conn_table w Connections2)"

abbreviation conn_sock :: "nat \<Rightarrow> TcpWorld \<Rightarrow> int" where
  "conn_sock p w \<equiv> sk_sock (co_stunsocket (get_conn p w))"

text \<open>What a connection between two events does, and the events that it waits for.\<close>

definition reading :: "StunConnection \<Rightarrow> bool" where
  "reading c \<longleftrightarrow> co_state c = ConnectionState_Receiving \<and> co_txCount c = 0 \<and>
     (\<exists>bs. has_read bs c \<and> spec_state True bs \<noteq> ParseError \<and> spec_state True bs \<noteq> BodyValidated)"

definition writing :: "StunConnection \<Rightarrow> bool" where
  "writing c \<longleftrightarrow> co_state c = ConnectionState_Transmitting \<and> co_txCount c < cb_size (co_spOutputBuffer c)"

definition awaited :: "StunConnection \<Rightarrow> u32" where
  "awaited c = (if co_state c = ConnectionState_Receiving then EPOLL_CLIENT_READ_EVENT_SET else EPOLL_CLIENT_WRITE_EVENT_SET)"

definition watch_ok :: "TcpWorld \<Rightarrow> nat \<Rightarrow> bool" where
  "watch_ok w p \<longleftrightarrow> (\<forall>e. tt_spPolling (tw_th w) = Some (Epoll e) \<longrightarrow>
     ce_watched e (conn_sock p w) = Some (CEpoll_ToNativeFlags (awaited (get_conn p w))))"

text \<open>The descriptors that the thread has opened for itself.\<close>

fun polling_fd :: "IPolling option \<Rightarrow> int" where
  "polling_fd (Some (Epoll e)) = ce_epollfd e"
| "polling_fd _ = -1"

definition own_fds :: "CTCPStunThread \<Rightarrow> int list" where
  "own_fds th = filter (\<lambda>s. s \<noteq> -1) (map (\<lambda>r. sk_sock (tt_socketListenArray th r)) all_roles @
     [tt_pipe0 th, tt_pipe1 th, polling_fd (tt_spPolling th)])"

text \<open>
  \<open>cur\<close> is a connection that the thread is working on: it need not be settled, nor in a table yet.
  \<open>R\<close> are the descriptors that others have opened.
\<close>

definition table_ok :: "TcpWorld \<Rightarrow> ConnTable \<Rightarrow> bool" where
  "table_ok w t \<longleftrightarrow> fhm.is_map fd_hash (conn_map_at (tw_th w) t) (conn_table w t) \<and>
     (\<forall>s p. conn_table w t s = Some p \<longrightarrow> s \<noteq> -1 \<and> conn_sock p w = s \<and> co_idHashTable (get_conn p w) = Some t)"

definition pool_split :: "nat option \<Rightarrow> TcpWorld \<Rightarrow> bool" where
  "pool_split cur w \<longleftrightarrow> (\<exists>fr. free_list (tt_connectionpool (tw_th w)) fr \<and>
     dom (po_heap (tt_connectionpool (tw_th w))) = set fr \<union> (owned w \<union> set_option cur) \<and>
     set fr \<inter> (owned w \<union> set_option cur) = {})"

definition fds_split :: "int multiset \<Rightarrow> nat option \<Rightarrow> TcpWorld \<Rightarrow> bool" where
  "fds_split R cur w \<longleftrightarrow> mset (tw_fds w) = R + mset (own_fds (tw_th w)) + mset_set (taken w) +
     (case cur of None \<Rightarrow> {#} | Some p \<Rightarrow> if p \<in> owned w then {#} else {#conn_sock p w#})"

definition listen_ok :: "nat option \<Rightarrow> TcpWorld \<Rightarrow> bool" where
  "listen_ok cur w \<longleftrightarrow> (\<forall>r. tt_socketTable (tw_th w) r \<noteq> -1 \<longrightarrow> tt_socketTable (tw_th w) r \<in> set (own_fds (tw_th w)) \<and>
     tt_socketTable (tw_th w) r \<notin> taken w \<and> (\<forall>p. cur = Some p \<longrightarrow> tt_socketTable (tw_th w) r \<noteq> conn_sock p w))"

definition cur_ok :: "nat option \<Rightarrow> TcpWorld \<Rightarrow> bool" where
  "cur_ok cur w \<longleftrightarrow> (\<forall>p. cur = Some p \<longrightarrow> conn_sock p w \<noteq> -1 \<and> (p \<notin> owned w \<longrightarrow> conn_sock p w \<notin> taken w))"

definition conns_ok :: "nat option \<Rightarrow> TcpWorld \<Rightarrow> bool" where
  "conns_ok cur w \<longleftrightarrow> (\<forall>p\<in>owned w \<union> set_option cur. conn_buffers (get_conn p w) \<and> conn_addrs (get_conn p w) \<and>
     (cur \<noteq> Some p \<longrightarrow> (reading (get_conn p w) \<or> writing (get_conn p w)) \<and> watch_ok w p))"

definition thread_ok_tcp :: "CTCPStunThread \<Rightarrow> bool" where
  "thread_ok_tcp th \<longleftrightarrow> tt_pNewConnList th \<noteq> tt_pOldConnList th \<and> (\<forall>r. is_ip_addr (ta_addr (tt_tsa th r))) \<and>
     (\<forall>p. tt_spPolling th = Some p \<longrightarrow> (\<forall>e. p = Epoll e \<longrightarrow> cepoll_ok e))"

definition tcp_inv :: "int multiset \<Rightarrow> nat option \<Rightarrow> TcpWorld \<Rightarrow> bool" where
  "tcp_inv R cur w \<longleftrightarrow> table_ok w Connections1 \<and> table_ok w Connections2 \<and>
     dom (conn_table w Connections1) \<inter> dom (conn_table w Connections2) = {} \<and>
     pool_split cur w \<and> fds_split R cur w \<and> listen_ok cur w \<and> cur_ok cur w \<and> conns_ok cur w \<and> thread_ok_tcp (tw_th w)"

lemmas tcp_inv_defs = table_ok_def pool_split_def fds_split_def listen_ok_def cur_ok_def conns_ok_def

text \<open>The parts of the world that the invariant does not read.\<close>

lemma get_conn_other [simp]:
  "get_conn p (w\<lparr>tw_fds := f\<rparr>) = get_conn p w" "get_conn p (w\<lparr>tw_limiter := l\<rparr>) = get_conn p w"
  "get_conn p (w\<lparr>tw_sent := s\<rparr>) = get_conn p w"
  by (simp_all add: get_conn_def)

lemma conn_table_other [simp]:
  "conn_table (w\<lparr>tw_fds := f\<rparr>) = conn_table w" "conn_table (w\<lparr>tw_limiter := l\<rparr>) = conn_table w"
  "conn_table (w\<lparr>tw_sent := s\<rparr>) = conn_table w"
  by (simp_all add: conn_table_def fun_eq_iff)

lemma owned_other [simp]:
  "owned (w\<lparr>tw_fds := f\<rparr>) = owned w" "owned (w\<lparr>tw_limiter := l\<rparr>) = owned w" "owned (w\<lparr>tw_sent := s\<rparr>) = owned w"
  by (simp_all add: owned_def)

lemma taken_other [simp]:
  "taken (w\<lparr>tw_fds := f\<rparr>) = taken w" "taken (w\<lparr>tw_limiter := l\<rparr>) = taken w" "taken (w\<lparr>tw_sent := s\<rparr>) = taken w"
  by (simp_all add: taken_def)

text \<open>A world with the same connections and tables.\<close>

definition same_conns :: "TcpWorld \<Rightarrow> TcpWorld \<Rightarrow> bool" where
  "same_conns w w' \<longleftrightarrow> tt_connectionpool (tw_th w') = tt_connectionpool (tw_th w) \<and> conn_table w' = conn_table w \<and>
     (\<forall>t. fhm.is_map fd_hash (conn_map_at (tw_th w) t) (conn_table w t) \<longrightarrow> fhm.is_map fd_hash (conn_map_at (tw_th w') t) (conn_table w t)) \<and>
     tw_fds w' = tw_fds w \<and> tt_socketTable (tw_th w') = tt_socketTable (tw_th w)"

lemma same_conns_fields:
  assumes "same_conns w w'"
  shows "get_conn p w' = get_conn p w" "conn_table w' = conn_table w" "owned w' = owned w" "taken w' = taken w"
    "tw_fds w' = tw_fds w" "tt_socketTable (tw_th w') = tt_socketTable (tw_th w)"
    "tt_connectionpool (tw_th w') = tt_connectionpool (tw_th w)"
  using assms by (simp_all add: same_conns_def get_conn_def owned_def taken_def)

lemma same_conns_inv:
  assumes i: "tcp_inv R cur w" and s: "same_conns w w'" and own: "own_fds (tw_th w') = own_fds (tw_th w)" and th: "thread_ok_tcp (tw_th w')"
    and wt: "\<And>p. p \<in> owned w \<Longrightarrow> cur \<noteq> Some p \<Longrightarrow> watch_ok w p \<Longrightarrow> watch_ok w' p"
  shows "tcp_inv R cur w'"
proof -
  have "table_ok w' t" if "table_ok w t" for t
    using that s unfolding table_ok_def by (simp add: same_conns_fields [OF s]) (simp add: same_conns_def)
  then show ?thesis
    using i th wt unfolding tcp_inv_def pool_split_def fds_split_def listen_ok_def cur_ok_def conns_ok_def
    by (auto simp: same_conns_fields [OF s] own split: option.splits)
qed

lemma owned_sock:
  assumes "tcp_inv R cur w" "p \<in> owned w"
  obtains t where "conn_table w t (conn_sock p w) = Some p" "co_idHashTable (get_conn p w) = Some t" "conn_sock p w \<in> taken w"
    "conn_sock p w \<noteq> -1" "\<And>t'. t' \<noteq> t \<Longrightarrow> conn_table w t' (conn_sock p w) = None"
proof -
  have "\<exists>t s. conn_table w t s = Some p"
    using assms(2) by (auto simp: owned_def ran_def)
  then obtain t s where s: "conn_table w t s = Some p"
    by blast
  have t: "table_ok w t" "dom (conn_table w Connections1) \<inter> dom (conn_table w Connections2) = {}"
    using assms(1) by (cases t; simp add: tcp_inv_def)+
  then have e: "s = conn_sock p w" "s \<noteq> -1" "co_idHashTable (get_conn p w) = Some t"
    using s by (auto simp: table_ok_def)
  have "s \<in> taken w"
    using s by (cases t) (auto simp: taken_def)
  moreover have "conn_table w t' s = None" if "t' \<noteq> t" for t'
    using that t(2) s by (cases t; cases t') (auto simp: disjoint_iff)
  ultimately show thesis
    using that s e by blast
qed

lemma taken_owned:
  assumes "tcp_inv R cur w" "s \<in> taken w"
  obtains t p where "conn_table w t s = Some p" "p \<in> owned w" "conn_sock p w = s"
proof -
  obtain t p where s: "conn_table w t s = Some p" "p \<in> owned w"
    using assms(2) by (auto simp: taken_def owned_def ran_def)
  moreover have "table_ok w t"
    using assms(1) by (cases t) (simp_all add: tcp_inv_def)
  ultimately show thesis
    using that by (simp add: table_ok_def)
qed

text \<open>Two connections do not share a descriptor.\<close>

lemma sock_differs:
  assumes i: "tcp_inv R cur w" and q: "q \<in> owned w" and p: "cur = Some p \<or> p \<in> owned w" and ne: "q \<noteq> p"
  shows "conn_sock q w \<noteq> conn_sock p w"
proof
  assume e: "conn_sock q w = conn_sock p w"
  obtain t where t: "conn_table w t (conn_sock p w) = Some q" "conn_sock p w \<in> taken w"
    "\<And>t'. t' \<noteq> t \<Longrightarrow> conn_table w t' (conn_sock p w) = None"
    using owned_sock [OF i q] e by metis
  show False
  proof (cases "p \<in> owned w")
    case True
    then obtain t' where "conn_table w t' (conn_sock p w) = Some p"
      using owned_sock [OF i] by metis
    then show False
      using t(1,3) ne by (cases "t' = t") auto
  next
    case False
    then show False
      using p i t(2) by (simp add: tcp_inv_def cur_ok_def)
  qed
qed

section \<open>The polling object under the thread\<close>

definition touches :: "int \<Rightarrow> (IPolling \<Rightarrow> hresult \<times> IPolling) \<Rightarrow> bool" where
  "touches s f \<longleftrightarrow> (\<forall>e. cepoll_ok e \<longrightarrow> (\<exists>e'. snd (f (Epoll e)) = Epoll e' \<and> cepoll_ok e' \<and>
      (\<forall>s'. s' \<noteq> s \<longrightarrow> ce_watched e' s' = ce_watched e s'))) \<and>
     (\<forall>p. polling_fd (Some (snd (f p))) = polling_fd (Some p)) \<and> (\<forall>p e. snd (f (Poll p)) \<noteq> Epoll e)"

lemma polling_fd_kept:
  "polling_fd (Some (snd (Polling_Remove c p s))) = polling_fd (Some p)"
  "polling_fd (Some (snd (Polling_Add c p s fl))) = polling_fd (Some p)"
  "polling_fd (Some (snd (Polling_ChangeEventSet c p s fl))) = polling_fd (Some p)"
  by (cases p; simp add: case_prod_beta CEpoll_Remove_def CEpoll_Add_def CEpoll_ChangeEventSet_def)+

lemma touches_polling:
  "touches s (\<lambda>p. Polling_Remove c p s)"
  "portable_flags fl \<Longrightarrow> touches s (\<lambda>p. Polling_Add c p s fl)"
  "portable_flags fl \<Longrightarrow> touches s (\<lambda>p. Polling_ChangeEventSet c p s fl)"
  using ep.others_kept ep.ok_kept unfolding touches_def polling_fd_kept by (auto simp: case_prod_beta)

lemma polling_do_frame:
  "tw_fds (snd (polling_do f w)) = tw_fds w" "tw_limiter (snd (polling_do f w)) = tw_limiter w"
  "tw_sent (snd (polling_do f w)) = tw_sent w"
  "\<exists>p. tw_th (snd (polling_do f w)) = (tw_th w)\<lparr>tt_spPolling := p\<rparr>"
proof -
  show "\<exists>p. tw_th (snd (polling_do f w)) = (tw_th w)\<lparr>tt_spPolling := p\<rparr>"
    by (rule exI [of _ "map_option (snd o f) (tt_spPolling (tw_th w))"])
      (simp add: polling_do_def upd_th_def case_prod_beta split: option.split)
qed (simp_all add: polling_do_def upd_th_def case_prod_beta split: option.split)

lemma conn_map_at_polling [simp]: "conn_map_at (th\<lparr>tt_spPolling := p\<rparr>) t = conn_map_at th t"
  by (cases t) (simp_all add: conn_map_at_def)

lemma polling_do_same: "same_conns w (snd (polling_do f w))"
proof -
  obtain p where "tw_th (snd (polling_do f w)) = (tw_th w)\<lparr>tt_spPolling := p\<rparr>"
    using polling_do_frame(4) by blast
  then show ?thesis
    by (simp add: same_conns_def conn_table_def polling_do_frame fun_eq_iff)
qed

lemmas polling_do_fields = same_conns_fields [OF polling_do_same]

lemma polling_do_own: "touches s f \<Longrightarrow> own_fds (tw_th (snd (polling_do f w))) = own_fds (tw_th w)"
  by (cases "tt_spPolling (tw_th w)") (auto simp: own_fds_def polling_do_def upd_th_def case_prod_beta touches_def)

lemma polling_do_inv:
  assumes i: "tcp_inv R cur w" and f: "touches s f"
    and s: "\<And>q. q \<in> owned w \<Longrightarrow> cur \<noteq> Some q \<Longrightarrow> conn_sock q w \<noteq> s"
  shows "tcp_inv R cur (snd (polling_do f w))"
proof (rule same_conns_inv [OF i polling_do_same polling_do_own [OF f]])
  have th: "thread_ok_tcp (tw_th w)"
    using i by (simp add: tcp_inv_def)
  obtain p where p: "tw_th (snd (polling_do f w)) = (tw_th w)\<lparr>tt_spPolling := p\<rparr>"
    using polling_do_frame(4) by blast
  have e: "\<exists>e0. tt_spPolling (tw_th w) = Some (Epoll e0) \<and> cepoll_ok e \<and> (\<forall>s'. s' \<noteq> s \<longrightarrow> ce_watched e s' = ce_watched e0 s')"
    if "tt_spPolling (tw_th (snd (polling_do f w))) = Some (Epoll e)" for e
  proof (cases "tt_spPolling (tw_th w)")
    case (Some p0)
    then have "snd (f p0) = Epoll e"
      using that by (simp add: polling_do_def upd_th_def case_prod_beta)
    then show ?thesis
      using Some f th by (cases p0) (auto simp: touches_def thread_ok_tcp_def)
  qed (use that in \<open>simp add: polling_do_def\<close>)
  show "thread_ok_tcp (tw_th (snd (polling_do f w)))"
    using th e p by (auto simp: thread_ok_tcp_def)
  fix q
  assume "q \<in> owned w" "cur \<noteq> Some q" "watch_ok w q"
  then show "watch_ok (snd (polling_do f w)) q"
    using s [of q] e by (fastforce simp: watch_ok_def polling_do_fields)
qed

lemma polling_do_cur:
  assumes i: "tcp_inv R (Some p) w" and f: "touches (conn_sock p w) f"
  shows "tcp_inv R (Some p) (snd (polling_do f w))"
  by (rule polling_do_inv [OF i f]) (use sock_differs [OF i] in auto)

text \<open>A successful call leaves the connection watched.\<close>

lemma portable_sets [simp]: "portable_flags EPOLL_CLIENT_READ_EVENT_SET" "portable_flags EPOLL_CLIENT_WRITE_EVENT_SET"
  "portable_flags EPOLL_LISTEN_SOCKET_EVENT_SET" "portable_flags EPOLL_PIPE_EVENT_SET"
  by (simp_all add: portable_flags_def EPOLL_CLIENT_READ_EVENT_SET_def EPOLL_CLIENT_WRITE_EVENT_SET_def
      EPOLL_LISTEN_SOCKET_EVENT_SET_def EPOLL_PIPE_EVENT_SET_def polling_consts)

lemma portable_awaited [simp]: "portable_flags (awaited c)"
  by (simp add: awaited_def)

lemma polling_do_watches:
  assumes "thread_ok_tcp (tw_th w)" "\<not> FAILED (fst (polling_do f w))"
    and "f = (\<lambda>q. Polling_Add c q (conn_sock p w) (awaited (get_conn p w))) \<or>
      f = (\<lambda>q. Polling_ChangeEventSet c q (conn_sock p w) (awaited (get_conn p w)))"
  shows "watch_ok (snd (polling_do f w)) p"
proof -
  have "ce_watched e' (conn_sock p w) = Some (CEpoll_ToNativeFlags (awaited (get_conn p w)))"
    if "tt_spPolling (tw_th w) = Some q" "snd (f q) = Epoll e'" for q e'
  proof (cases q)
    case (Epoll e)
    have "cepoll_ok e" "\<not> FAILED (fst (f q))"
      using assms(1,2) that(1) Epoll by (simp_all add: thread_ok_tcp_def polling_do_def case_prod_beta)
    then show ?thesis
      using assms(3) that(2) Epoll ep.add_succeeds [of e] ep.change_succeeds [of e] by (auto simp: case_prod_beta)
  next
    case (Poll x)
    then show ?thesis
      using assms(3) that(2) by (auto simp: case_prod_beta)
  qed
  then show ?thesis
    unfolding watch_ok_def polling_do_fields
    by (auto simp: polling_do_def upd_th_def case_prod_beta split: option.splits)
qed

section \<open>Working on a connection\<close>

lemma get_conn_upd: "get_conn q (upd_conn p f w) = (if q = p then f (get_conn p w) else get_conn q w)"
  by (simp add: get_conn_def upd_conn_def upd_th_def conn_at_set)

lemma conn_map_at_pool [simp]: "conn_map_at (th\<lparr>tt_connectionpool := pl\<rparr>) t = conn_map_at th t"
  by (cases t) (simp_all add: conn_map_at_def)

lemma upd_conn_fields [simp]:
  "conn_table (upd_conn p f w) = conn_table w" "owned (upd_conn p f w) = owned w" "taken (upd_conn p f w) = taken w"
  "tw_fds (upd_conn p f w) = tw_fds w" "tt_socketTable (tw_th (upd_conn p f w)) = tt_socketTable (tw_th w)"
  "conn_map_at (tw_th (upd_conn p f w)) t = conn_map_at (tw_th w) t"
  "tt_spPolling (tw_th (upd_conn p f w)) = tt_spPolling (tw_th w)" "thread_ok_tcp (tw_th (upd_conn p f w)) = thread_ok_tcp (tw_th w)"
  "own_fds (tw_th (upd_conn p f w)) = own_fds (tw_th w)"
  "tt_connectionpool (tw_th (upd_conn p f w)) = set_conn (tt_connectionpool (tw_th w)) p (f (get_conn p w))"
  by (simp_all add: upd_conn_def upd_th_def conn_table_def owned_def taken_def thread_ok_tcp_def get_conn_def own_fds_def fun_eq_iff)

lemma upd_conn_inv:
  assumes i: "tcp_inv R (Some p) w" and c: "conn_buffers (f (get_conn p w))"
    "co_stunsocket (f (get_conn p w)) = co_stunsocket (get_conn p w)"
    "p \<in> owned w \<Longrightarrow> co_idHashTable (f (get_conn p w)) = co_idHashTable (get_conn p w)"
  shows "tcp_inv R (Some p) (upd_conn p f w)"
proof -
  have t: "table_ok (upd_conn p f w) t" if "table_ok w t" for t
  proof -
    have "p \<in> owned w" if "conn_table w t s = Some p" for s
      using that by (cases t) (auto simp: owned_def ran_def)
    then show ?thesis
      using that c by (auto simp: table_ok_def get_conn_upd)
  qed
  have "pool_split (Some p) (upd_conn p f w)"
  proof -
    obtain fr where fr: "free_list (tt_connectionpool (tw_th w)) fr"
      "dom (po_heap (tt_connectionpool (tw_th w))) = set fr \<union> (owned w \<union> {p})" "set fr \<inter> (owned w \<union> {p}) = {}"
      using i by (auto simp: tcp_inv_def pool_split_def)
    then show ?thesis
      using free_list_set [OF fr(1), of p] by (auto simp: pool_split_def)
  qed
  moreover have "conns_ok (Some p) (upd_conn p f w)"
    using i c by (auto simp: tcp_inv_def conns_ok_def get_conn_upd conn_addrs_def watch_ok_def)
  moreover have "fds_split R (Some p) (upd_conn p f w)" "listen_ok (Some p) (upd_conn p f w)" "cur_ok (Some p) (upd_conn p f w)"
    using i c by (simp_all add: tcp_inv_def fds_split_def listen_ok_def cur_ok_def get_conn_upd)
  ultimately show ?thesis
    using i t by (simp add: tcp_inv_def)
qed

lemma watch_upd:
  "watch_ok w p \<Longrightarrow> co_stunsocket (f (get_conn p w)) = co_stunsocket (get_conn p w) \<Longrightarrow>
    co_state (f (get_conn p w)) = co_state (get_conn p w) \<Longrightarrow> watch_ok (upd_conn p f w) p"
  by (simp add: watch_ok_def get_conn_upd awaited_def)

lemma take_up:
  assumes i: "tcp_inv R None w" and p: "p \<in> owned w"
  shows "tcp_inv R (Some p) w" "reading (get_conn p w) \<or> writing (get_conn p w)" "watch_ok w p"
proof -
  have "conn_sock p w \<in> taken w" "conn_sock p w \<noteq> -1"
    using owned_sock [OF i p] by metis+
  then show "tcp_inv R (Some p) w"
    using i p by (auto simp: tcp_inv_def tcp_inv_defs insert_absorb)
  show "reading (get_conn p w) \<or> writing (get_conn p w)" "watch_ok w p"
    using i p by (simp_all add: tcp_inv_def conns_ok_def)
qed

lemma put_down:
  assumes i: "tcp_inv R (Some p) w" and p: "p \<in> owned w" "reading (get_conn p w) \<or> writing (get_conn p w)" "watch_ok w p"
  shows "tcp_inv R None w"
proof -
  have "pool_split None w" "conns_ok None w"
    using i p by (auto simp: tcp_inv_def pool_split_def conns_ok_def insert_absorb)
  then show ?thesis
    using i p by (simp add: tcp_inv_def fds_split_def listen_ok_def cur_ok_def)
qed

lemma cur_conn:
  assumes "tcp_inv R (Some p) w"
  shows "conn_buffers (get_conn p w)" "conn_addrs (get_conn p w)" "conn_sock p w \<noteq> -1" "thread_ok_tcp (tw_th w)"
  using assms by (simp_all add: tcp_inv_def conns_ok_def cur_ok_def)

section \<open>Closing\<close>

lemma finite_taken: "tcp_inv R cur w \<Longrightarrow> finite (taken w)"
  by (auto simp: tcp_inv_def table_ok_def taken_def dest: map_size(1))

lemma CloseConnection_fields:
  fixes c p w
  defines "w1 \<equiv> snd (polling_do (\<lambda>q. Polling_Remove c q (conn_sock p w)) w)" and "w' \<equiv> CloseConnection c p w"
  shows "tw_fds w' = fst (Socket_Close (tw_fds w, co_stunsocket (get_conn p w)))"
    "tt_connectionpool (tw_th w') = ReleaseConnection (set_conn (tt_connectionpool (tw_th w)) p
       ((get_conn p w)\<lparr>co_stunsocket := snd (Socket_Close (tw_fds w, co_stunsocket (get_conn p w)))\<rparr>)) p"
    "conn_map_at (tw_th w') t = (if co_idHashTable (get_conn p w) = Some t
       then snd (FH_Remove fd_hash (conn_map_at (tw_th w) t) (conn_sock p w)) else conn_map_at (tw_th w) t)"
    "tt_spPolling (tw_th w') = tt_spPolling (tw_th w1)" "tt_socketTable (tw_th w') = tt_socketTable (tw_th w)"
    "tt_pNewConnList (tw_th w') = tt_pNewConnList (tw_th w)" "tt_pOldConnList (tw_th w') = tt_pOldConnList (tw_th w)"
    "tt_tsa (tw_th w') = tt_tsa (tw_th w)" "tw_sent w' = tw_sent w" "tw_limiter w' = tw_limiter w"
    "tt_pipe0 (tw_th w') = tt_pipe0 (tw_th w)" "tt_pipe1 (tw_th w') = tt_pipe1 (tw_th w)"
    "tt_socketListenArray (tw_th w') = tt_socketListenArray (tw_th w)"
    "tt_fThreadIsValid (tw_th w') = tt_fThreadIsValid (tw_th w)"
proof -
  obtain q where q: "tw_th w1 = (tw_th w)\<lparr>tt_spPolling := q\<rparr>"
    using polling_do_frame(4) unfolding w1_def by blast
  note f = polling_do_frame(1-3) [of "\<lambda>q. Polling_Remove c q (conn_sock p w)" w, folded w1_def]
  have w': "w' = (let (fds, s) = Socket_Close (tw_fds w, co_stunsocket (get_conn p w));
      conn = (get_conn p w)\<lparr>co_stunsocket := s\<rparr>;
      w = w1\<lparr>tw_fds := fds, tw_th := (tw_th w1)\<lparr>tt_connectionpool := set_conn (tt_connectionpool (tw_th w1)) p conn\<rparr>\<rparr>;
      w = (case co_idHashTable conn of None \<Rightarrow> w
               | Some t \<Rightarrow> upd_th (\<lambda>th. set_conn_map t (snd (FH_Remove fd_hash (conn_map_at th t) (conn_sock p w1))) th) w) in
      upd_th (\<lambda>th. th\<lparr>tt_connectionpool := ReleaseConnection (tt_connectionpool th) p\<rparr>) w)"
    unfolding w'_def CloseConnection_def w1_def by (simp add: get_conn_def Let_def case_prod_beta polling_do_frame(1) polling_do_fields(7) cong: option.case_cong)
  have s: "conn_sock p w1 = conn_sock p w"
    unfolding w1_def by (simp add: polling_do_fields)
  show "tw_fds w' = fst (Socket_Close (tw_fds w, co_stunsocket (get_conn p w)))"
    "tt_connectionpool (tw_th w') = ReleaseConnection (set_conn (tt_connectionpool (tw_th w)) p
       ((get_conn p w)\<lparr>co_stunsocket := snd (Socket_Close (tw_fds w, co_stunsocket (get_conn p w)))\<rparr>)) p"
    "conn_map_at (tw_th w') t = (if co_idHashTable (get_conn p w) = Some t
       then snd (FH_Remove fd_hash (conn_map_at (tw_th w) t) (conn_sock p w)) else conn_map_at (tw_th w) t)"
    "tt_spPolling (tw_th w') = tt_spPolling (tw_th w1)" "tt_socketTable (tw_th w') = tt_socketTable (tw_th w)"
    "tt_pNewConnList (tw_th w') = tt_pNewConnList (tw_th w)" "tt_pOldConnList (tw_th w') = tt_pOldConnList (tw_th w)"
    "tt_tsa (tw_th w') = tt_tsa (tw_th w)" "tw_sent w' = tw_sent w" "tw_limiter w' = tw_limiter w"
    "tt_pipe0 (tw_th w') = tt_pipe0 (tw_th w)" "tt_pipe1 (tw_th w') = tt_pipe1 (tw_th w)"
    "tt_socketListenArray (tw_th w') = tt_socketListenArray (tw_th w)"
    "tt_fThreadIsValid (tw_th w') = tt_fThreadIsValid (tw_th w)"
    by (cases "co_idHashTable (get_conn p w)"; cases "the (co_idHashTable (get_conn p w))"; cases t;
        simp add: w' Let_def case_prod_beta upd_th_def set_conn_map_def conn_map_at_def q f s)+
qed

lemma conn_at_release: "conn_at (ReleaseConnection pool p) q = (if q = p then (conn_at pool p)\<lparr>co_pNext := po_freelist pool\<rparr> else conn_at pool q)"
  by (simp add: ReleaseConnection_def conn_at_set)

lemma CloseConnection_tables:
  fixes c p w
  assumes i: "tcp_inv R (Some p) w"
  defines "w' \<equiv> CloseConnection c p w"
  shows "conn_table w' t = (conn_table w t)(conn_sock p w := None)"
    "fhm.is_map fd_hash (conn_map_at (tw_th w') t) (conn_table w' t)"
    "taken w' = taken w - {conn_sock p w}" "owned w' = owned w - {p}" "q \<noteq> p \<Longrightarrow> get_conn q w' = get_conn q w"
    "fh_fsize (conn_map_at (tw_th w') t) = fh_fsize (conn_map_at (tw_th w) t)"
proof -
  note F = CloseConnection_fields [of c p w, folded w'_def]
  have m: "fhm.is_map fd_hash (conn_map_at (tw_th w) t) (conn_table w t)" for t
    using i by (cases t) (simp_all add: tcp_inv_def table_ok_def)
  have other: "conn_table w t (conn_sock p w) = None" if "co_idHashTable (get_conn p w) \<noteq> Some t" for t
  proof (cases "p \<in> owned w")
    case True
    then show ?thesis
      using owned_sock [OF i True] that by metis
  next
    case False
    then have "conn_sock p w \<notin> taken w"
      using i by (simp add: tcp_inv_def cur_ok_def)
    then show ?thesis
      by (cases t) (auto simp: taken_def)
  qed
  have mt: "fhm.is_map fd_hash (conn_map_at (tw_th w') t) ((conn_table w t)(conn_sock p w := None)) \<and>
      fh_fsize (conn_map_at (tw_th w') t) = fh_fsize (conn_map_at (tw_th w) t)" for t
    using m [of t] fhm.remove_map [OF m, of t "conn_sock p w"] other [of t]
    by (cases "co_idHashTable (get_conn p w) = Some t") (simp_all add: F(3) fun_upd_idem)
  then show t: "conn_table w' t = (conn_table w t)(conn_sock p w := None)" for t
    unfolding conn_table_def [of w'] using fhm.lookup_map [OF conjunct1 [OF mt]] by blast
  show "fhm.is_map fd_hash (conn_map_at (tw_th w') t) (conn_table w' t)"
    "fh_fsize (conn_map_at (tw_th w') t) = fh_fsize (conn_map_at (tw_th w) t)"
    using mt [of t] t [of t] by simp_all
  show "taken w' = taken w - {conn_sock p w}"
    by (auto simp: taken_def t split: if_splits)
  have ps: "s = conn_sock p w" if "conn_table w t s = Some p" for t s
    using that i by (cases t) (auto simp: tcp_inv_def table_ok_def)
  have sp: "q = p" if "conn_table w t (conn_sock p w) = Some q" for t q
  proof (rule ccontr)
    assume ne: "q \<noteq> p"
    have "q \<in> owned w" "conn_sock q w = conn_sock p w"
      using that i by (cases t; auto simp: owned_def ran_def tcp_inv_def table_ok_def)+
    then show False
      using sock_differs [OF i, of q p] ne by simp
  qed
  have r: "ran (conn_table w' t) = ran (conn_table w t) - {p}" for t
    using ps [of t] sp [of t] by (auto simp: t ran_def split: if_splits) metis
  show "owned w' = owned w - {p}"
    by (auto simp: owned_def r)
  show "get_conn q w' = get_conn q w" if "q \<noteq> p"
    using that by (simp add: get_conn_def F(2) conn_at_release conn_at_set)
qed

lemma CloseConnection_inv:
  assumes i: "tcp_inv R (Some p) w"
  shows "tcp_inv R None (CloseConnection c p w)"
proof -
  define w' where "w' = CloseConnection c p w"
  note F = CloseConnection_fields [of c p w, folded w'_def] and T = CloseConnection_tables [OF i, where c = c, folded w'_def]
  note cur = cur_conn [OF i]
  define w1 where "w1 = snd (polling_do (\<lambda>q. Polling_Remove c q (conn_sock p w)) w)"
  have i1: "tcp_inv R (Some p) w1"
    unfolding w1_def by (rule polling_do_cur [OF i touches_polling(1)])
  have g1: "get_conn q w1 = get_conn q w" "owned w1 = owned w" for q
    unfolding w1_def by (simp_all add: polling_do_fields)
  have pne: "q \<noteq> p" if "conn_table w' t s = Some q" for t s q
  proof -
    have "q \<in> owned w'"
      using that by (cases t) (auto simp: owned_def ran_def)
    then show ?thesis
      using T(4) by simp
  qed
  have t: "table_ok w' t" for t
  proof -
    have "table_ok w t"
      using i by (cases t) (simp_all add: tcp_inv_def)
    then have "s \<noteq> -1 \<and> conn_sock q w = s \<and> co_idHashTable (get_conn q w) = Some t" if "conn_table w' t s = Some q" for s q
      using that T(1) [of t] by (auto simp: table_ok_def split: if_splits)
    then show ?thesis
      using T(2) [of t] T(5) pne by (simp add: table_ok_def)
  qed
  have p: "pool_split None w'"
  proof -
    obtain fr where fr: "free_list (tt_connectionpool (tw_th w)) fr"
      "dom (po_heap (tt_connectionpool (tw_th w))) = set fr \<union> (owned w \<union> {p})" "set fr \<inter> (owned w \<union> {p}) = {}"
      using i by (auto simp: tcp_inv_def pool_split_def)
    define c' where "c' = (get_conn p w)\<lparr>co_stunsocket := snd (Socket_Close (tw_fds w, co_stunsocket (get_conn p w)))\<rparr>"
    have c': "sk_sock (co_stunsocket c') = -1" "conn_buffers c'"
      using cur(1) by (simp_all add: c'_def Socket_Close_def Socket_Reset_def Let_def conn_buffers_def)
    have "free_list (set_conn (tt_connectionpool (tw_th w)) p c') fr"
      using fr by (intro free_list_set) auto
    then have "free_list (tt_connectionpool (tw_th w')) (p # fr)"
      unfolding F(2) c'_def [symmetric] using fr c' by (intro ReleaseConnection_free) (auto simp: conn_at_set)
    moreover have "dom (po_heap (tt_connectionpool (tw_th w'))) = set (p # fr) \<union> owned w'"
      using fr(2) unfolding F(2) T(4) by (auto simp: ReleaseConnection_def)
    ultimately show ?thesis
      using fr(3) T(4) by (auto simp: pool_split_def intro!: exI [of _ "p # fr"])
  qed
  have own: "own_fds (tw_th w') = own_fds (tw_th w)"
  proof -
    obtain q where "tw_th w1 = (tw_th w)\<lparr>tt_spPolling := q\<rparr>"
      using polling_do_frame(4) unfolding w1_def by blast
    then have "own_fds (tw_th w') = own_fds (tw_th w1)"
      by (simp add: own_fds_def F w1_def [symmetric])
    then show ?thesis
      unfolding w1_def using polling_do_own [OF touches_polling(1)] by simp
  qed
  have f: "fds_split R None w'"
  proof -
    have m: "mset (tw_fds w') = mset (tw_fds w) - {#conn_sock p w#}"
      using cur(3) by (simp add: F(1) Socket_Close_def)
    show ?thesis
    proof (cases "p \<in> owned w")
      case True
      then have "conn_sock p w \<in> taken w"
        using owned_sock [OF i] by metis
      then show ?thesis
        using i m True finite_taken [OF i] by (simp add: tcp_inv_def fds_split_def T(3) mset_set_Diff own)
    next
      case False
      then have "taken w' = taken w"
        using i by (auto simp: tcp_inv_def cur_ok_def T(3))
      then show ?thesis
        using i m False by (simp add: tcp_inv_def fds_split_def own)
    qed
  qed
  have l: "listen_ok None w'"
    using i by (simp add: tcp_inv_def listen_ok_def F(5) T(3) own)
  have w: "watch_ok w' q" if "q \<in> owned w'" for q
  proof -
    have "watch_ok w1 q" "q \<noteq> p"
      using i1 that g1 T(4) by (auto simp: tcp_inv_def conns_ok_def)
    then show ?thesis
      using F(4) T(5) by (simp add: watch_ok_def w1_def [symmetric] g1)
  qed
  have n: "conns_ok None w'"
    using i w by (auto simp: tcp_inv_def conns_ok_def T(4,5))
  have "thread_ok_tcp (tw_th w1)"
    using i1 by (simp add: tcp_inv_def)
  then have th: "thread_ok_tcp (tw_th w')"
    using cur(4) by (simp add: thread_ok_tcp_def F w1_def)
  have d: "dom (conn_table w' Connections1) \<inter> dom (conn_table w' Connections2) = {}"
    using i by (auto simp: tcp_inv_def T(1) disjoint_iff)
  show ?thesis
    unfolding w'_def [symmetric] tcp_inv_def using t d p f l n th by (simp add: cur_ok_def)
qed

section \<open>Sending\<close>

lemma sent_inv [simp]: "tcp_inv R cur (w\<lparr>tw_sent := s\<rparr>) = tcp_inv R cur w" "tcp_inv R cur (w\<lparr>tw_limiter := l\<rparr>) = tcp_inv R cur w"
  unfolding tcp_inv_def tcp_inv_defs watch_ok_def by (simp_all cong: option.case_cong if_cong)

lemma watch_other [simp]: "watch_ok (w\<lparr>tw_sent := s\<rparr>) p = watch_ok w p" "watch_ok (w\<lparr>tw_limiter := l\<rparr>) p = watch_ok w p"
  by (simp_all add: watch_ok_def)

text \<open>A connection whose polling entry was changed to what it now waits for is settled.\<close>

lemma change_and_settle:
  assumes i: "tcp_inv R (Some p) w" and p: "p \<in> owned w" "reading (get_conn p w) \<or> writing (get_conn p w)"
    and s: "s = conn_sock p w" "fl = awaited (get_conn p w)"
    and r: "polling_do (\<lambda>q. Polling_ChangeEventSet c q s fl) w = (hr, w')"
  shows "tcp_inv R (Some p) w'" "\<not> FAILED hr \<Longrightarrow> tcp_inv R None w'" "get_conn q w' = get_conn q w" "owned w' = owned w"
proof -
  let ?f = "\<lambda>q. Polling_ChangeEventSet c q s fl"
  have w': "w' = snd (polling_do ?f w)"
    using r by simp
  have t: "touches (conn_sock p w) ?f"
    using touches_polling(3) [OF portable_awaited] s by simp
  show i': "tcp_inv R (Some p) w'"
    unfolding w' by (rule polling_do_cur [OF i t])
  show g: "get_conn q w' = get_conn q w" "owned w' = owned w" for q
    by (simp_all add: w' polling_do_fields)
  assume "\<not> FAILED hr"
  then have "watch_ok w' p"
    unfolding w' using polling_do_watches [OF cur_conn(4) [OF i], where f = ?f and p = p and c = c] s r by simp
  with put_down [OF i'] p g show "tcp_inv R None w'"
    by simp
qed

lemma ResetConnection_upd:
  "upd_th (\<lambda>th. th\<lparr>tt_connectionpool := ResetConnection (tt_connectionpool th) p\<rparr>) w =
    upd_conn p (\<lambda>c. (prepare_reader c)\<lparr>co_state := ConnectionState_Receiving, co_txCount := 0\<rparr>) w"
  by (simp add: upd_conn_def upd_th_def ResetConnection_def)

lemma prepared_reads:
  assumes "conn_buffers c"
  defines "c' \<equiv> (prepare_reader c)\<lparr>co_state := ConnectionState_Receiving, co_txCount := 0\<rparr>"
  shows "conn_buffers c'" "reading c'" "co_stunsocket c' = co_stunsocket c" "co_idHashTable c' = co_idHashTable c"
proof -
  note pr = prepare_reader_ok [OF assms(1)]
  have "spec_state True [] = HeaderNotRead"
    by (simp add: spec_state_def stun_consts)
  then show "conn_buffers c'" "reading c'"
    using pr by (auto simp: c'_def conn_buffers_def reading_def has_read_def)
  show "co_stunsocket c' = co_stunsocket c" "co_idHashTable c' = co_idHashTable c"
    using pr(3) by (simp_all add: c'_def prepare_reader_def)
qed

definition left_to_send :: "StunConnection \<Rightarrow> bytes" where
  "left_to_send c = drop (co_txCount c) (cb_contents (co_spOutputBuffer c))"

definition send_some :: "nat \<Rightarrow> nat \<Rightarrow> TcpWorld \<Rightarrow> TcpWorld" where
  "send_some p n w = upd_conn p (\<lambda>conn. conn\<lparr>co_txCount := co_txCount conn + n\<rparr>)
     (w\<lparr>tw_sent := tw_sent w @ [(conn_sock p w, take n (left_to_send (get_conn p w)))]\<rparr>)"

definition send_done :: "nat \<Rightarrow> TcpWorld \<Rightarrow> TcpWorld" where
  "send_done p w = upd_conn p (\<lambda>c. (prepare_reader c)\<lparr>co_state := ConnectionState_Receiving, co_txCount := 0\<rparr>)
     (upd_conn p (\<lambda>conn. conn\<lparr>co_state := ConnectionState_Receiving\<rparr>) w)"

lemma Write_step:
  "WriteBytesForConnection c p (Sent n # replies) w =
    (let conn = get_conn p w; sent = min n (cb_size (co_spOutputBuffer conn) - co_txCount conn) in
     if sent = 0 then (E_UNEXPECTED, CloseConnection c p w)
     else if cb_size (co_spOutputBuffer conn) \<le> co_txCount conn + sent
     then (let (hr, w') = polling_do (\<lambda>q. Polling_ChangeEventSet c q (sk_sock (co_stunsocket conn)) EPOLL_CLIENT_READ_EVENT_SET)
             (send_done p (send_some p sent w)) in
           (hr, if FAILED hr then CloseConnection c p w' else w'))
     else WriteBytesForConnection c p replies (send_some p sent w))"
proof -
  define sent where "sent = min n (cb_size (co_spOutputBuffer (get_conn p w)) - co_txCount (get_conn p w))"
  show ?thesis
    unfolding WriteBytesForConnection.simps(4) Let_def sent_def [symmetric]
    by (simp add: send_some_def send_done_def ResetConnection_upd case_prod_beta left_to_send_def get_conn_upd)
qed

lemma send_some_inv:
  assumes i: "tcp_inv R (Some p) w"
  shows "tcp_inv R (Some p) (send_some p n w)" "owned (send_some p n w) = owned w"
    "get_conn p (send_some p n w) = (get_conn p w)\<lparr>co_txCount := co_txCount (get_conn p w) + n\<rparr>"
    "watch_ok w p \<Longrightarrow> watch_ok (send_some p n w) p"
proof -
  let ?w = "w\<lparr>tw_sent := tw_sent w @ [(conn_sock p w, take n (left_to_send (get_conn p w)))]\<rparr>"
  have i': "tcp_inv R (Some p) ?w"
    using i by simp
  show "tcp_inv R (Some p) (send_some p n w)"
    unfolding send_some_def by (rule upd_conn_inv [OF i']) (use cur_conn [OF i'] in \<open>simp_all add: conn_buffers_def\<close>)
  show "owned (send_some p n w) = owned w"
    "get_conn p (send_some p n w) = (get_conn p w)\<lparr>co_txCount := co_txCount (get_conn p w) + n\<rparr>"
    by (simp_all add: send_some_def get_conn_upd)
  show "watch_ok (send_some p n w) p" if "watch_ok w p"
    unfolding send_some_def by (rule watch_upd) (use that in simp_all)
qed

lemma send_done_inv:
  assumes i: "tcp_inv R (Some p) w"
  shows "tcp_inv R (Some p) (send_done p w)" "owned (send_done p w) = owned w" "reading (get_conn p (send_done p w))"
    "co_stunsocket (get_conn p (send_done p w)) = co_stunsocket (get_conn p w)"
proof -
  define w1 where "w1 = upd_conn p (\<lambda>conn. conn\<lparr>co_state := ConnectionState_Receiving\<rparr>) w"
  have i1: "tcp_inv R (Some p) w1"
    unfolding w1_def by (rule upd_conn_inv [OF i]) (use cur_conn [OF i] in \<open>simp_all add: conn_buffers_def\<close>)
  have g1: "get_conn p w1 = (get_conn p w)\<lparr>co_state := ConnectionState_Receiving\<rparr>" "owned w1 = owned w"
    by (simp_all add: w1_def get_conn_upd)
  note pr = prepared_reads [OF cur_conn(1) [OF i1]]
  show "tcp_inv R (Some p) (send_done p w)"
    unfolding send_done_def w1_def [symmetric] by (rule upd_conn_inv [OF i1]) (use pr in simp_all)
  show "owned (send_done p w) = owned w" "reading (get_conn p (send_done p w))"
    "co_stunsocket (get_conn p (send_done p w)) = co_stunsocket (get_conn p w)"
    unfolding send_done_def w1_def [symmetric] using pr g1 by (simp_all add: get_conn_upd)
qed

lemma reading_awaits: "reading c \<Longrightarrow> awaited c = EPOLL_CLIENT_READ_EVENT_SET"
  by (simp add: reading_def awaited_def)

lemma writing_awaits: "writing c \<Longrightarrow> awaited c = EPOLL_CLIENT_WRITE_EVENT_SET"
  by (simp add: writing_def awaited_def)

lemma Write_inv:
  "tcp_inv R None w \<Longrightarrow> p \<in> owned w \<Longrightarrow> writing (get_conn p w) \<Longrightarrow> tcp_inv R None (snd (WriteBytesForConnection c p replies w))"
proof (induction replies arbitrary: w)
  case (Cons reply replies)
  note up = take_up [OF Cons.prems(1,2)]
  show ?case
  proof (cases reply)
    case (Sent n)
    define conn where "conn = get_conn p w"
    define sent where "sent = min n (cb_size (co_spOutputBuffer conn) - co_txCount conn)"
    define w2 where "w2 = send_some p sent w"
    note S = send_some_inv [OF up(1), of sent, folded w2_def conn_def]
    define w3 where "w3 = send_done p w2"
    note D = send_done_inv [OF S(1), folded w3_def]
    obtain hr w4 where r: "polling_do (\<lambda>q. Polling_ChangeEventSet c q (sk_sock (co_stunsocket conn)) EPOLL_CLIENT_READ_EVENT_SET) w3 = (hr, w4)"
      by (cases "polling_do (\<lambda>q. Polling_ChangeEventSet c q (sk_sock (co_stunsocket conn)) EPOLL_CLIENT_READ_EVENT_SET) w3")
    have e: "WriteBytesForConnection c p (reply # replies) w = (if sent = 0 then (E_UNEXPECTED, CloseConnection c p w)
       else if cb_size (co_spOutputBuffer conn) \<le> co_txCount conn + sent then (hr, if FAILED hr then CloseConnection c p w4 else w4)
       else WriteBytesForConnection c p replies w2)"
      unfolding Sent Write_step Let_def conn_def [symmetric] sent_def [symmetric] w2_def [symmetric] w3_def [symmetric] r by simp
    consider "sent = 0" | "sent \<noteq> 0" "cb_size (co_spOutputBuffer conn) \<le> co_txCount conn + sent"
      | "sent \<noteq> 0" "\<not> cb_size (co_spOutputBuffer conn) \<le> co_txCount conn + sent"
      by blast
    then show ?thesis
    proof cases
      case 1
      then show ?thesis
        unfolding e using CloseConnection_inv [OF up(1)] by simp
    next
      case 2
      have "p \<in> owned w3" "reading (get_conn p w3) \<or> writing (get_conn p w3)" "sk_sock (co_stunsocket conn) = conn_sock p w3"
        "EPOLL_CLIENT_READ_EVENT_SET = awaited (get_conn p w3)"
        using D(2-4) S(2,3) Cons.prems(2) reading_awaits by simp_all
      note cs = change_and_settle [OF D(1) this r]
      show ?thesis
        unfolding e using 2 cs(1,2) CloseConnection_inv by (cases "FAILED hr") simp_all
    next
      case 3
      have "writing (get_conn p w2)"
        using Cons.prems(3) 3(2) by (simp add: writing_def S(3) conn_def)
      then have "tcp_inv R None w2" "p \<in> owned w2" "writing (get_conn p w2)"
        using put_down [OF S(1)] S(2,4) up(3) Cons.prems(2) by simp_all
      from Cons.IH [OF this] show ?thesis
        unfolding e using 3 by simp
    qed
  qed (use Cons.prems CloseConnection_inv [OF up(1)] in simp_all)
qed simp

section \<open>Answering a request\<close>

text \<open>The arguments of the call of the request handler.\<close>

definition conn_in :: "StunConnection \<Rightarrow> StunMessageIn" where
  "conn_in c = \<lparr>mi_socketrole = sk_role (co_stunsocket c), mi_addrLocal = sk_addrlocal (co_stunsocket c),
     mi_addrRemote = sk_addrremote (co_stunsocket c), mi_pReader = Some (co_reader c), mi_fConnectionOriented = True\<rparr>"

definition conn_out :: "StunConnection \<Rightarrow> StunMessageOut" where
  "conn_out c = \<lparr>mo_socketrole = RolePP, mo_addrDest = CSocketAddress_default, mo_spBufferOut = Some (co_spOutputBuffer c)\<rparr>"

definition conn_reply :: "(bytes \<Rightarrow> bytes \<Rightarrow> bytes) \<Rightarrow> (bytes \<Rightarrow> bytes) \<Rightarrow> CTCPStunThread \<Rightarrow> StunConnection \<Rightarrow> hresult \<times> StunMessageOut" where
  "conn_reply hmac md5 th c = ProcessRequest hmac md5 (conn_in c) (conn_out c) (Some (tt_tsa th)) (tt_spAuth th)"

lemma conn_call_ok:
  assumes "conn_buffers c" "conn_addrs c" "has_read bs c" "spec_state True bs = BodyValidated" "thread_ok_tcp th"
  shows "call_ok bs (conn_in c) (conn_out c) (tt_tsa th)"
  using assms reader_ok_state [of True bs "co_reader c"] unfolding call_ok_def parsed_def addrs_ok_def
  by (auto simp: conn_in_def conn_out_def conn_buffers_def conn_addrs_def has_read_def thread_ok_tcp_def roomy_def stun_consts)

lemma conn_reply_ok:
  assumes c: "call_ok bs (conn_in c) (conn_out c) (tt_tsa th)" and ok: "hmac_ok hmac" "md5_ok md5"
  obtains hr out b where "conn_reply hmac md5 th c = (hr, out)" "mo_spBufferOut out = Some b" "roomy b" "\<not> FAILED hr \<Longrightarrow> 0 < cb_size b"
proof -
  obtain hr out where r: "conn_reply hmac md5 th c = (hr, out)"
    by (cases "conn_reply hmac md5 th c")
  have "buffer_ready out"
    using ProcessRequest_ready [OF c ok, of "tt_spAuth th"] r by (simp add: conn_reply_def)
  then obtain b where b: "mo_spBufferOut out = Some b" "roomy b"
    by (auto simp: buffer_ready_def roomy_def stun_consts)
  have "0 < cb_size b" if "\<not> FAILED hr"
  proof (cases "MR_GetMessageClass (the (mi_pReader (conn_in c))) = StunMsgClassRequest")
    case True
    have o: "out = answer hmac md5 (authorized hmac md5 (request_checked (conn_in c) (conn_out c) (tt_tsa th) (tt_spAuth th)))"
      using ProcessRequest_request [OF c True] r by (simp add: conn_reply_def)
    obtain l ty cls ads where m: "holds_message out (msg_wire l ty cls (msg_tid bs) ads)" "length (attrs_wire l ads) \<le> 158"
      using answer_shape [OF c ok] o by blast
    have "length (msg_tid bs) = 16"
      using c parsed_tid by (auto simp: call_ok_def)
    then have "length (msg_wire l ty cls (msg_tid bs) ads) = 20 + length (attrs_wire l ads)"
      using m(2) by (intro msg_wire_fields) (simp_all add: stun_consts)
    moreover have "cb_contents b = msg_wire l ty cls (msg_tid bs) ads"
      using m(1) b by (simp add: holds_message_def)
    ultimately have "length (cb_contents b) \<noteq> 0"
      by simp
    then show ?thesis
      by (auto simp: cb_contents_def split: option.splits)
  next
    case False
    then show ?thesis
      using ProcessRequest_not_request [OF c False] r that by (simp add: conn_reply_def)
  qed
  with that r b show thesis
    by blast
qed

lemma RateCheck_only: "\<exists>ok l. Tcp_RateCheck now addr w = (ok, w\<lparr>tw_limiter := l\<rparr>)"
  by (auto simp: Tcp_RateCheck_def split: prod.split) (metis TcpWorld.surjective TcpWorld.update_convs(2))

definition reply_stored :: "cbuffer \<Rightarrow> nat \<Rightarrow> TcpWorld \<Rightarrow> TcpWorld" where
  "reply_stored b p w = upd_conn p (\<lambda>conn. conn\<lparr>co_spOutputBuffer := b\<rparr>) w"

definition start_sending :: "nat \<Rightarrow> TcpWorld \<Rightarrow> TcpWorld" where
  "start_sending p w = upd_conn p (\<lambda>conn. conn\<lparr>co_state := ConnectionState_Transmitting\<rparr>) w"

lemma request_received_steps:
  assumes "Tcp_RateCheck (tr_now tr) (sk_addrremote (co_stunsocket (get_conn p w))) w = (ok, w\<lparr>tw_limiter := l\<rparr>)"
    and "conn_reply hmac md5 (tw_th w) (get_conn p w) = (hr, out)" and "mo_spBufferOut out = Some b"
  shows "request_received hmac md5 tr p w =
    (if \<not> ok then (E_FAIL, CloseConnection (tr_poll tr) p (w\<lparr>tw_limiter := l\<rparr>))
     else if FAILED hr then (hr, CloseConnection (tr_poll tr) p (reply_stored b p (w\<lparr>tw_limiter := l\<rparr>)))
     else let (hr, w') = polling_do (\<lambda>q. Polling_ChangeEventSet (tr_poll tr) q (conn_sock p w) EPOLL_CLIENT_WRITE_EVENT_SET)
            (start_sending p (reply_stored b p (w\<lparr>tw_limiter := l\<rparr>))) in
       (hr, if FAILED hr then CloseConnection (tr_poll tr) p w' else snd (WriteBytesForConnection (tr_poll tr) p (tr_send tr) w')))"
proof -
  have "conn_reply hmac md5 (tw_th (w\<lparr>tw_limiter := l\<rparr>)) (get_conn p w) = (hr, out)"
    using assms(2) by simp
  then have "ProcessRequest hmac md5 (conn_in (get_conn p w)) (conn_out (get_conn p w)) (Some (tt_tsa (tw_th (w\<lparr>tw_limiter := l\<rparr>))))
      (tt_spAuth (tw_th (w\<lparr>tw_limiter := l\<rparr>))) = (hr, out)"
    by (simp only: conn_reply_def)
  then show ?thesis
    using assms(1,3) unfolding request_received_def reply_stored_def start_sending_def Let_def
    by (simp add: conn_in_def conn_out_def case_prod_beta)
qed

lemma request_received_inv:
  assumes i: "tcp_inv R (Some p) w" and p: "p \<in> owned w" "has_read bs (get_conn p w)" "spec_state True bs = BodyValidated"
    "co_txCount (get_conn p w) = 0" and ok: "hmac_ok hmac" "md5_ok md5"
  shows "tcp_inv R None (snd (request_received hmac md5 tr p w))"
proof -
  obtain allowed l where rc: "Tcp_RateCheck (tr_now tr) (sk_addrremote (co_stunsocket (get_conn p w))) w = (allowed, w\<lparr>tw_limiter := l\<rparr>)"
    using RateCheck_only by blast
  note cur = cur_conn [OF i]
  obtain hr out b where r: "conn_reply hmac md5 (tw_th w) (get_conn p w) = (hr, out)" "mo_spBufferOut out = Some b" "roomy b"
    "\<not> FAILED hr \<Longrightarrow> 0 < cb_size b"
    using conn_reply_ok [OF conn_call_ok [OF cur(1,2) p(2,3) cur(4)] ok] by metis
  define w1 where "w1 = reply_stored b p (w\<lparr>tw_limiter := l\<rparr>)"
  have i0: "tcp_inv R (Some p) (w\<lparr>tw_limiter := l\<rparr>)"
    using i by simp
  have i1: "tcp_inv R (Some p) w1"
    unfolding w1_def reply_stored_def by (rule upd_conn_inv [OF i0]) (use cur r(3) in \<open>simp_all add: conn_buffers_def\<close>)
  have g1: "get_conn p w1 = (get_conn p w)\<lparr>co_spOutputBuffer := b\<rparr>" "owned w1 = owned w"
    by (simp_all add: w1_def reply_stored_def get_conn_upd)
  define w2 where "w2 = start_sending p w1"
  have i2: "tcp_inv R (Some p) w2"
    unfolding w2_def start_sending_def by (rule upd_conn_inv [OF i1]) (use cur_conn [OF i1] in \<open>simp_all add: conn_buffers_def\<close>)
  have g2: "get_conn p w2 = (get_conn p w)\<lparr>co_spOutputBuffer := b, co_state := ConnectionState_Transmitting\<rparr>" "owned w2 = owned w"
    by (simp_all add: w2_def start_sending_def get_conn_upd g1)
  obtain hr' w3 where po: "polling_do (\<lambda>q. Polling_ChangeEventSet (tr_poll tr) q (conn_sock p w) EPOLL_CLIENT_WRITE_EVENT_SET) w2 = (hr', w3)"
    by (cases "polling_do (\<lambda>q. Polling_ChangeEventSet (tr_poll tr) q (conn_sock p w) EPOLL_CLIENT_WRITE_EVENT_SET) w2")
  have e: "snd (request_received hmac md5 tr p w) =
    (if \<not> allowed then CloseConnection (tr_poll tr) p (w\<lparr>tw_limiter := l\<rparr>)
     else if FAILED hr then CloseConnection (tr_poll tr) p w1
     else if FAILED hr' then CloseConnection (tr_poll tr) p w3 else snd (WriteBytesForConnection (tr_poll tr) p (tr_send tr) w3))"
    unfolding request_received_steps [OF rc r(1,2)] w1_def [symmetric] w2_def [symmetric] po by simp
  show ?thesis
  proof (cases "allowed \<and> \<not> FAILED hr")
    case False
    then show ?thesis
      unfolding e using CloseConnection_inv [OF i0] CloseConnection_inv [OF i1] by simp
  next
    case True
    then have wr: "writing (get_conn p w2)"
      using r(4) p(4) by (simp add: writing_def g2)
    then have s: "p \<in> owned w2" "reading (get_conn p w2) \<or> writing (get_conn p w2)" "conn_sock p w = conn_sock p w2"
      "EPOLL_CLIENT_WRITE_EVENT_SET = awaited (get_conn p w2)"
      using p(1) writing_awaits by (simp_all add: g2)
    note cs = change_and_settle [OF i2 s po]
    show ?thesis
    proof (cases "FAILED hr'")
      case False
      have "p \<in> owned w3" "writing (get_conn p w3)"
        using cs(3,4) s(1) wr by simp_all
      then show ?thesis
        unfolding e using True False Write_inv cs(2) by simp
    qed (use True CloseConnection_inv [OF cs(1)] in \<open>simp add: e\<close>)
  qed
qed

lemma Receive_inv:
  assumes ok: "hmac_ok hmac" "md5_ok md5"
  shows "tcp_inv R None w \<Longrightarrow> p \<in> owned w \<Longrightarrow> reading (get_conn p w) \<Longrightarrow>
    tcp_inv R None (snd (ReceiveBytesForConnection hmac md5 tr p replies w))"
proof (induction "sum_list (map recv_weight replies)" arbitrary: replies w rule: less_induct)
  case less
  note up = take_up [OF less.prems(1,2)]
  define n where "n = unat (MR_HowManyBytesNeeded (co_reader (get_conn p w)))"
  note S = ReceiveBytesForConnection.simps [of hmac md5 tr p replies w, folded n_def]
  show ?case
  proof (cases "n \<noteq> 0 \<and> (\<exists>d rs. replies = RecvData d # rs \<and> d \<noteq> [])")
    case False
    then show ?thesis
      using less.prems(1) CloseConnection_inv [OF up(1)] unfolding S Let_def
      by (auto split: list.split recv_answer.split)
  next
    case True
    then obtain d rs where d: "replies = RecvData d # rs" "d \<noteq> []" "n \<noteq> 0"
      by blast
    define w1 where "w1 = upd_conn p (reader_fed (take n d)) w"
    define rest where "rest = (if drop n d = [] then rs else RecvData (drop n d) # rs)"
    define st where "st = MR_GetState (co_reader (get_conn p w1))"
    obtain bs where bs: "has_read bs (get_conn p w)" "spec_state True bs \<noteq> ParseError" "spec_state True bs \<noteq> BodyValidated"
      "co_txCount (get_conn p w) = 0" "co_state (get_conn p w) = ConnectionState_Receiving"
      using less.prems(3) by (auto simp: reading_def)
    have "MR_GetState (co_reader (get_conn p w)) \<noteq> ParseError"
      using bs(1,2) reader_ok_state by (fastforce simp: has_read_def MR_GetState_def)
    note fed = reader_fed_ok [OF cur_conn(1) [OF up(1)] bs(1) this, of "take n d"]
    have i1: "tcp_inv R (Some p) w1"
      unfolding w1_def by (rule upd_conn_inv [OF up(1)]) (use fed in simp_all)
    have g1: "get_conn p w1 = reader_fed (take n d) (get_conn p w)" "owned w1 = owned w" "watch_ok w1 p"
      using watch_upd [OF up(3)] by (simp_all add: w1_def get_conn_upd)
    have e: "ReceiveBytesForConnection hmac md5 tr p replies w =
        (if st = ParseError then (E_FAIL, CloseConnection (tr_poll tr) p w1)
         else if st = BodyValidated then request_received hmac md5 tr p w1
         else ReceiveBytesForConnection hmac md5 tr p rest w1)"
      unfolding S using d by (simp add: Let_def w1_def [symmetric] rest_def st_def)
    have stb: "st = spec_state True (bs @ take n d)"
      using fed(3) by (simp add: st_def g1)
    consider "st = ParseError" | "st = BodyValidated" | "st \<noteq> ParseError" "st \<noteq> BodyValidated"
      by blast
    then show ?thesis
    proof cases
      case 1
      then show ?thesis
        unfolding e using CloseConnection_inv [OF i1] by simp
    next
      case 2
      then show ?thesis
        unfolding e using request_received_inv [OF i1 _ fed(2) [folded g1(1)] _ _ ok] less.prems(2) stb bs(4) g1 by simp
    next
      case 3
      have "reading (get_conn p w1)"
        using 3 stb bs(4,5) fed(2) unfolding reading_def g1 by auto
      then have "tcp_inv R None w1" "p \<in> owned w1" "reading (get_conn p w1)"
        using put_down [OF i1] g1 less.prems(2) by simp_all
      moreover have "sum_list (map recv_weight rest) < sum_list (map recv_weight replies)"
        using d length_drop [of n d] by (cases "drop n d") (auto simp: rest_def)
      ultimately show ?thesis
        unfolding e using less.hyps 3 by simp
    qed
  qed
qed

section \<open>Accepting\<close>

text \<open>\<open>accept\<close> is documented to answer a descriptor that was not open.\<close>

definition accept_fresh :: "TcpTurn \<Rightarrow> bool" where
  "accept_fresh tr \<longleftrightarrow> (\<forall>fds s a. tr_accept tr fds = Some (s, a) \<longrightarrow> s \<notin> set fds \<and> s \<noteq> -1) \<and> names_fine (tr_sock tr)"

lemma upd_th_pool: "conn_map_at (tw_th (w\<lparr>tw_fds := f, tw_th := (tw_th w)\<lparr>tt_connectionpool := pl\<rparr>\<rparr>)) t = conn_map_at (tw_th w) t"
  by simp

lemma inv_fds: "tcp_inv R None w \<Longrightarrow> taken w \<subseteq> set (tw_fds w) \<and> set (own_fds (tw_th w)) \<subseteq> set (tw_fds w)"
proof -
  assume i: "tcp_inv R None w"
  then have "mset (tw_fds w) = R + mset (own_fds (tw_th w)) + mset_set (taken w)"
    by (simp add: tcp_inv_def fds_split_def)
  then have "set (tw_fds w) = set_mset (R + mset (own_fds (tw_th w)) + mset_set (taken w))"
    by (metis set_mset_mset)
  then show ?thesis
    using finite_taken [OF i] by auto
qed

lemma new_connection_inv:
  assumes i: "tcp_inv R None w" and s: "s \<notin> set (tw_fds w)" "s \<noteq> -1" and n: "names_fine os"
  obtains p pool where "GetConnection os junk now (s # tw_fds w, tt_connectionpool (tw_th w)) s role = (Some p, s # tw_fds w, pool)"
    "tcp_inv R (Some p) (w\<lparr>tw_fds := s # tw_fds w, tw_th := (tw_th w)\<lparr>tt_connectionpool := pool\<rparr>\<rparr>)"
    "p \<notin> owned w" "fresh_conn s role now (conn_at pool p)"
proof -
  obtain fr where fr: "free_list (tt_connectionpool (tw_th w)) fr"
    "dom (po_heap (tt_connectionpool (tw_th w))) = set fr \<union> owned w" "set fr \<inter> owned w = {}"
    using i by (auto simp: tcp_inv_def pool_split_def)
  obtain p fr' pool where g: "GetConnection os junk now (s # tw_fds w, tt_connectionpool (tw_th w)) s role = (Some p, s # tw_fds w, pool)"
    "free_list pool fr'" "p \<notin> set fr'" "p \<in> dom (po_heap pool)" "fresh_conn s role now (conn_at pool p)"
    "dom (po_heap pool) = dom (po_heap (tt_connectionpool (tw_th w))) \<union> insert p (set fr')" "set fr \<subseteq> insert p (set fr')"
    "insert p (set fr') \<inter> (dom (po_heap (tt_connectionpool (tw_th w))) - set fr) = {}"
    "\<And>q. q \<in> dom (po_heap (tt_connectionpool (tw_th w))) \<Longrightarrow> q \<notin> set fr \<Longrightarrow>
       conn_at pool q = conn_at (tt_connectionpool (tw_th w)) q"
    by (rule GetConnection_ok [OF fr(1) s(2) n, of junk now "s # tw_fds w" role]) blast
  define w' where "w' = w\<lparr>tw_fds := s # tw_fds w, tw_th := (tw_th w)\<lparr>tt_connectionpool := pool\<rparr>\<rparr>"
  have t: "conn_table w' = conn_table w" "conn_map_at (tw_th w') t = conn_map_at (tw_th w) t" for t
    by (simp_all add: w'_def conn_table_def fun_eq_iff)
  then have o: "owned w' = owned w" "taken w' = taken w"
    by (simp_all add: owned_def taken_def)
  have f: "tw_fds w' = s # tw_fds w" "tt_socketTable (tw_th w') = tt_socketTable (tw_th w)" "own_fds (tw_th w') = own_fds (tw_th w)"
    "thread_ok_tcp (tw_th w') = thread_ok_tcp (tw_th w)" "tt_connectionpool (tw_th w') = pool" "tt_spPolling (tw_th w') = tt_spPolling (tw_th w)"
    by (simp_all add: w'_def own_fds_def thread_ok_tcp_def)
  have pn: "p \<notin> owned w"
    using g(8) fr(2,3) by auto
  have q: "get_conn q w' = get_conn q w" if "q \<in> owned w" for q
    using that g(9) [of q] fr by (auto simp: get_conn_def f)
  have p: "get_conn p w' = conn_at pool p" "conn_sock p w' = s" "conn_buffers (conn_at pool p)" "conn_addrs (conn_at pool p)"
    using g(5) by (simp_all add: get_conn_def f fresh_conn_def)
  note sub = inv_fds [OF i]
  have new: "s \<notin> taken w" "s \<notin> set (own_fds (tw_th w))"
    using s(1) sub by auto
  have tk: "table_ok w' t" if "table_ok w t" for t
  proof -
    have "a \<in> owned w" if "conn_table w t s = Some a" for s a
      using that by (cases t) (auto simp: owned_def ran_def)
    then show ?thesis
      using \<open>table_ok w t\<close> q by (simp add: table_ok_def t)
  qed
  have ps: "pool_split (Some p) w'"
    unfolding pool_split_def using g(2,3,6-8) fr(2,3) pn by (intro exI [of _ fr']) (auto simp: f o)
  have fs: "fds_split R (Some p) w'" "cur_ok (Some p) w'" "listen_ok (Some p) w'"
    using i pn p(2) new s(2) by (auto simp: tcp_inv_def fds_split_def cur_ok_def listen_ok_def f o)
  have cs: "conns_ok (Some p) w'"
    using i p q pn by (auto simp: tcp_inv_def conns_ok_def o watch_ok_def f)
  have "tcp_inv R (Some p) w'"
    using i tk ps fs cs by (simp add: tcp_inv_def t f)
  with that g(1,5) pn show thesis
    unfolding w'_def by blast
qed

lemma set_conn_map_simps [simp]:
  "conn_map_at (set_conn_map t h th) t' = (if t' = t then h else conn_map_at th t')"
  "tt_connectionpool (set_conn_map t h th) = tt_connectionpool th" "tt_socketTable (set_conn_map t h th) = tt_socketTable th"
  "own_fds (set_conn_map t h th) = own_fds th" "thread_ok_tcp (set_conn_map t h th) = thread_ok_tcp th"
  "tt_spPolling (set_conn_map t h th) = tt_spPolling th" "tt_pNewConnList (set_conn_map t h th) = tt_pNewConnList th"
  "tt_pOldConnList (set_conn_map t h th) = tt_pOldConnList th"
  by (cases t; cases t'; simp add: set_conn_map_def conn_map_at_def own_fds_def thread_ok_tcp_def)+

lemma upd_th_fields [simp]: "tw_th (upd_th f w) = f (tw_th w)" "tw_fds (upd_th f w) = tw_fds w"
  "tw_sent (upd_th f w) = tw_sent w" "tw_limiter (upd_th f w) = tw_limiter w"
  by (simp_all add: upd_th_def)

text \<open>A table that is replaced by one with the same entries.\<close>

lemma same_table_inv:
  assumes i: "tcp_inv R cur w" and h: "fhm.is_map fd_hash h (conn_table w t)"
  shows "tcp_inv R cur (upd_th (set_conn_map t h) w)" "conn_table (upd_th (set_conn_map t h) w) = conn_table w"
    "get_conn p (upd_th (set_conn_map t h) w) = get_conn p w"
proof -
  show t: "conn_table (upd_th (set_conn_map t h) w) = conn_table w"
    using fhm.lookup_map [OF h] by (auto simp: conn_table_def fun_eq_iff)
  show "get_conn p (upd_th (set_conn_map t h) w) = get_conn p w" for p
    by (simp add: get_conn_def)
  have "same_conns w (upd_th (set_conn_map t h) w)"
    using t h by (simp add: same_conns_def)
  from same_conns_inv [OF i this] show "tcp_inv R cur (upd_th (set_conn_map t h) w)"
    using i by (simp add: tcp_inv_def watch_ok_def get_conn_def)
qed

lemma add_to_table:
  assumes i: "tcp_inv R (Some p) w" and p: "p \<notin> owned w" "co_idHashTable (get_conn p w) = Some t"
    and r: "FH_Insert fd_hash (conn_map_at (tw_th w) t) (conn_sock p w) p = (res, h)"
  defines "w' \<equiv> upd_th (set_conn_map t h) w"
  shows "tcp_inv R (Some p) w'" "res \<noteq> -1 \<Longrightarrow> p \<in> owned w'" "get_conn q w' = get_conn q w" "watch_ok w p \<Longrightarrow> watch_ok w' p"
proof -
  have m: "fhm.is_map fd_hash (conn_map_at (tw_th w) t') (conn_table w t')" for t'
    using i by (cases t') (simp_all add: tcp_inv_def table_ok_def)
  have new: "conn_table w t' (conn_sock p w) = None" for t'
    using i p(1) by (cases t') (auto simp: tcp_inv_def cur_ok_def taken_def)
  show g: "get_conn q w' = get_conn q w" for q
    by (simp add: w'_def get_conn_def)
  show "watch_ok w p \<Longrightarrow> watch_ok w' p"
    by (simp add: watch_ok_def g) (simp add: w'_def)
  show "tcp_inv R (Some p) w'" "res \<noteq> -1 \<Longrightarrow> p \<in> owned w'"
  proof (atomize (full), cases "fh_size (conn_map_at (tw_th w) t) < fh_fsize (conn_map_at (tw_th w) t)")
    case False
    then have "fh_size (conn_map_at (tw_th w) t) = fh_fsize (conn_map_at (tw_th w) t)"
      using fhm.map_size_bound [OF m, of t] by simp
    then have "res = -1" "h = conn_map_at (tw_th w) t"
      using fhm.insert_map_full [OF m] r by simp_all
    then show "tcp_inv R (Some p) w' \<and> (res \<noteq> -1 \<longrightarrow> p \<in> owned w')"
      using same_table_inv(1) [OF i m, of t] by (simp add: w'_def)
  next
    case True
    note ins = fhm.insert_map [OF m new True, of p, unfolded r]
    have t: "conn_table w' t' = (if t' = t then (conn_table w t)(conn_sock p w \<mapsto> p) else conn_table w t')" for t'
      using ins fhm.lookup_map [of fd_hash h] by (auto simp: conn_table_def w'_def fun_eq_iff)
    have o: "owned w' = insert p (owned w)" "taken w' = insert (conn_sock p w) (taken w)"
      using new [of t] by (cases t; auto simp: owned_def taken_def t)+
    have st: "tw_fds w' = tw_fds w" "tt_socketTable (tw_th w') = tt_socketTable (tw_th w)" "own_fds (tw_th w') = own_fds (tw_th w)"
      "thread_ok_tcp (tw_th w') = thread_ok_tcp (tw_th w)" "tt_connectionpool (tw_th w') = tt_connectionpool (tw_th w)"
      "tt_spPolling (tw_th w') = tt_spPolling (tw_th w)"
      by (simp_all add: w'_def)
    have ps: "conn_sock p w \<noteq> -1" "conn_sock p w \<notin> taken w"
      using i p(1) by (auto simp: tcp_inv_def cur_ok_def)
    have ne: "q \<noteq> p" if "q \<in> owned w" for q
      using that p(1) by blast
    have tk: "table_ok w' t'" for t'
    proof -
      have "table_ok w t'"
        using i by (cases t') (simp_all add: tcp_inv_def)
      then show ?thesis
        using ins ps p(2) by (auto simp: table_ok_def t g) (auto simp: w'_def)
    qed
    have "pool_split (Some p) w'" "listen_ok (Some p) w'" "cur_ok (Some p) w'" "conns_ok (Some p) w'"
      using i ps by (auto simp: tcp_inv_def pool_split_def listen_ok_def cur_ok_def conns_ok_def watch_ok_def o st g)
    moreover have "fds_split R (Some p) w'"
      using i ps p(1) finite_taken [OF i] by (simp add: tcp_inv_def fds_split_def o st g)
    moreover have "dom (conn_table w' Connections1) \<inter> dom (conn_table w' Connections2) = {}"
      using i new by (cases t) (auto simp: tcp_inv_def t disjoint_iff)
    ultimately show "tcp_inv R (Some p) w' \<and> (res \<noteq> -1 \<longrightarrow> p \<in> owned w')"
      using i tk o st by (simp add: tcp_inv_def)
  qed
qed

lemma accepted_steps:
  fixes w tr ls
  assumes "tr_accept tr (tw_fds w) = Some (s, a)"
    and "Tcp_RateCheck (tr_now tr) a (w\<lparr>tw_fds := s # tw_fds w\<rparr>) = (ok, (w\<lparr>tw_fds := s # tw_fds w\<rparr>)\<lparr>tw_limiter := l\<rparr>)"
    and "GetConnection (tr_sock tr) (tr_junk tr) (tr_now tr) (s # tw_fds w, tt_connectionpool (tw_th w)) s (sk_role ls) = (Some p, s # tw_fds w, pool)"
  defines "w1 \<equiv> (w\<lparr>tw_limiter := l\<rparr>)\<lparr>tw_fds := s # tw_fds w, tw_th := (tw_th w)\<lparr>tt_connectionpool := pool\<rparr>\<rparr>"
  defines "w2 \<equiv> snd (polling_do (\<lambda>q. Polling_Add (tr_poll tr) q s EPOLL_CLIENT_READ_EVENT_SET) w1)"
  defines "t \<equiv> tt_pNewConnList (tw_th w2)"
  defines "w3 \<equiv> upd_conn p (\<lambda>c. c\<lparr>co_idHashTable := Some t\<rparr>) w2"
  defines "ins \<equiv> FH_Insert fd_hash (conn_map_at (tw_th w3) t) s p"
  defines "w4 \<equiv> upd_th (set_conn_map t (snd ins)) w3"
  shows "AcceptConnection tr ls w = (if \<not> ok then (None, w\<lparr>tw_limiter := l\<rparr>)
    else if FAILED (SetNonBlocking (tr_sock tr)) then (None, CloseConnection (tr_poll tr) p w1)
    else if FAILED (fst (polling_do (\<lambda>q. Polling_Add (tr_poll tr) q s EPOLL_CLIENT_READ_EVENT_SET) w1)) then (None, CloseConnection (tr_poll tr) p w2)
    else if fst ins = -1 then (None, CloseConnection (tr_poll tr) p w4) else (Some p, w4))"
proof -
  have w1: "(w\<lparr>tw_fds := s # tw_fds w, tw_limiter := l, tw_fds := s # tw_fds w,
      tw_th := (tw_th w)\<lparr>tt_connectionpool := pool\<rparr>\<rparr>) = w1"
    by (simp add: w1_def)
  have w0: "(w\<lparr>tw_fds := s # tw_fds w, tw_limiter := l, tw_fds := tw_fds w\<rparr>) = w\<lparr>tw_limiter := l\<rparr>"
    by simp
  show ?thesis
    unfolding AcceptConnection_def using assms(1-3)
    by (simp add: case_prod_beta Let_def w1_def w2_def t_def w3_def ins_def w4_def)
qed

lemma Accept_inv:
  assumes i: "tcp_inv R None w" and a: "accept_fresh tr" and r: "AcceptConnection tr ls w = (res, w')"
  shows "tcp_inv R None w'" "res = Some p \<Longrightarrow> p \<in> owned w' \<and> reading (get_conn p w')"
proof -
  have "tcp_inv R None w' \<and> (\<forall>p. res = Some p \<longrightarrow> p \<in> owned w' \<and> reading (get_conn p w'))"
  proof (cases "tr_accept tr (tw_fds w)")
    case None
    then show ?thesis
      using i r by (simp add: AcceptConnection_def)
  next
    case (Some x)
    then obtain s ad where ac: "tr_accept tr (tw_fds w) = Some (s, ad)"
      by (cases x) auto
    then have s: "s \<notin> set (tw_fds w)" "s \<noteq> -1" and n: "names_fine (tr_sock tr)"
      using a by (auto simp: accept_fresh_def)
    obtain ok l where rc: "Tcp_RateCheck (tr_now tr) ad (w\<lparr>tw_fds := s # tw_fds w\<rparr>) = (ok, (w\<lparr>tw_fds := s # tw_fds w\<rparr>)\<lparr>tw_limiter := l\<rparr>)"
      using RateCheck_only by blast
    define w0 where "w0 = w\<lparr>tw_limiter := l\<rparr>"
    have i0: "tcp_inv R None w0" "s \<notin> set (tw_fds w0)"
      using i s by (simp_all add: w0_def)
    obtain p pool where g: "GetConnection (tr_sock tr) (tr_junk tr) (tr_now tr) (s # tw_fds w0, tt_connectionpool (tw_th w0)) s (sk_role ls) = (Some p, s # tw_fds w0, pool)"
      and i1: "tcp_inv R (Some p) (w0\<lparr>tw_fds := s # tw_fds w0, tw_th := (tw_th w0)\<lparr>tt_connectionpool := pool\<rparr>\<rparr>)"
      and p: "p \<notin> owned w0" "fresh_conn s (sk_role ls) (tr_now tr) (conn_at pool p)"
      using new_connection_inv [OF i0(1,2) s(2) n] by metis
    define w1 where "w1 = (w\<lparr>tw_limiter := l\<rparr>)\<lparr>tw_fds := s # tw_fds w, tw_th := (tw_th w)\<lparr>tt_connectionpool := pool\<rparr>\<rparr>"
    define w2 where "w2 = snd (polling_do (\<lambda>q. Polling_Add (tr_poll tr) q s EPOLL_CLIENT_READ_EVENT_SET) w1)"
    define t where "t = tt_pNewConnList (tw_th w2)"
    define w3 where "w3 = upd_conn p (\<lambda>c. c\<lparr>co_idHashTable := Some t\<rparr>) w2"
    define ins where "ins = FH_Insert fd_hash (conn_map_at (tw_th w3) t) s p"
    define w4 where "w4 = upd_th (set_conn_map t (snd ins)) w3"
    have g': "GetConnection (tr_sock tr) (tr_junk tr) (tr_now tr) (s # tw_fds w, tt_connectionpool (tw_th w)) s (sk_role ls) = (Some p, s # tw_fds w, pool)"
      using g by (simp add: w0_def)
    note e = accepted_steps [OF ac rc g', folded w1_def, folded w2_def, folded t_def, folded w3_def, folded ins_def, folded w4_def]
    have j1: "tcp_inv R (Some p) w1"
      using i1 by (simp add: w0_def w1_def)
    have c1: "get_conn p w1 = conn_at pool p" "owned w1 = owned w0"
      by (simp_all add: w1_def w0_def get_conn_def owned_def conn_table_def [abs_def])
    have sk: "conn_sock p w1 = s" "reading (get_conn p w1)" "EPOLL_CLIENT_READ_EVENT_SET = awaited (get_conn p w1)"
    proof -
      have "spec_state True [] = HeaderNotRead"
        by (simp add: spec_state_def stun_consts)
      then show "reading (get_conn p w1)"
        using p(2) unfolding c1 reading_def fresh_conn_def by auto
      then show "EPOLL_CLIENT_READ_EVENT_SET = awaited (get_conn p w1)"
        using reading_awaits by simp
      show "conn_sock p w1 = s"
        using p(2) by (simp add: c1 fresh_conn_def)
    qed
    have tch: "touches (conn_sock p w1) (\<lambda>q. Polling_Add (tr_poll tr) q s EPOLL_CLIENT_READ_EVENT_SET)"
      unfolding sk(1) by (rule touches_polling(2)) simp
    have j2: "tcp_inv R (Some p) w2"
      unfolding w2_def by (rule polling_do_cur [OF j1 tch])
    have c2: "get_conn p w2 = get_conn p w1" "owned w2 = owned w0"
      by (simp_all add: w2_def polling_do_fields c1)
    have j3: "tcp_inv R (Some p) w3"
      unfolding w3_def by (rule upd_conn_inv [OF j2]) (use cur_conn [OF j2] p c2 in \<open>simp_all add: conn_buffers_def\<close>)
    have c3: "get_conn p w3 = (get_conn p w1)\<lparr>co_idHashTable := Some t\<rparr>" "owned w3 = owned w0"
      by (simp_all add: w3_def get_conn_upd c2)
    have ins': "FH_Insert fd_hash (conn_map_at (tw_th w3) t) (conn_sock p w3) p = (fst ins, snd ins)"
      using sk(1) by (simp add: ins_def c3)
    have id: "p \<notin> owned w3" "co_idHashTable (get_conn p w3) = Some t"
      using p(1) c3 by simp_all
    note A = add_to_table [OF j3 id ins', folded w4_def]
    show ?thesis
    proof (cases "res = None")
      case True
      then show ?thesis
        using r i0(1) CloseConnection_inv j1 j2 A(1) by (auto simp: e w0_def split: if_splits)
    next
      case False
      have poll: "\<not> FAILED (fst (polling_do (\<lambda>q. Polling_Add (tr_poll tr) q s EPOLL_CLIENT_READ_EVENT_SET) w1))"
        and res: "res = Some p" "w' = w4" "fst ins \<noteq> -1"
        using False r by (auto simp: e split: if_splits)
      have "watch_ok w2 p"
        unfolding w2_def by (rule polling_do_watches [OF cur_conn(4) [OF j1] poll]) (use sk in auto)
      then have "watch_ok w3 p"
        unfolding w3_def by (rule watch_upd) simp_all
      then have wt: "watch_ok w4 p"
        by (rule A(4))
      have "reading (get_conn p w4)"
        using sk(2) by (simp add: A(3) c3 reading_def has_read_def)
      then show ?thesis
        using put_down [OF A(1)] A(2) wt res by auto
    qed
  qed
  then show "tcp_inv R None w'" "res = Some p \<Longrightarrow> p \<in> owned w' \<and> reading (get_conn p w')"
    by auto
qed

section \<open>Events\<close>

lemma table_conn: "conn_table w t s = Some p \<Longrightarrow> p \<in> owned w"
  by (cases t) (auto simp: owned_def ran_def)

lemma ProcessConnectionEvent_inv:
  assumes i: "tcp_inv R None w" and ok: "hmac_ok hmac" "md5_ok md5"
  shows "tcp_inv R None (ProcessConnectionEvent hmac md5 tr fd w)"
proof -
  define pp where "pp = (if conn_table w (tt_pNewConnList (tw_th w)) fd = None
    then conn_table w (tt_pOldConnList (tw_th w)) fd else conn_table w (tt_pNewConnList (tw_th w)) fd)"
  have e: "ProcessConnectionEvent hmac md5 tr fd w = (case pp of None \<Rightarrow> w
      | Some p \<Rightarrow> (case co_state (get_conn p w) of
             ConnectionState_Receiving \<Rightarrow> snd (ReceiveBytesForConnection hmac md5 tr p (tr_recv tr) w)
           | ConnectionState_Transmitting \<Rightarrow> snd (WriteBytesForConnection (tr_poll tr) p (tr_send tr) w)
           | ConnectionState_Idle \<Rightarrow> w))"
    by (simp add: ProcessConnectionEvent_def Let_def pp_def conn_table_def)
  show ?thesis
  proof (cases pp)
    case (Some p)
    then have p: "p \<in> owned w"
      using table_conn by (auto simp: pp_def split: if_splits)
    have "reading (get_conn p w) \<or> writing (get_conn p w)"
      using take_up(2) [OF i p] .
    then show ?thesis
      unfolding e Some using Receive_inv [OF ok i p] Write_inv [OF i p] i
      by (auto simp: reading_def writing_def split: StunConnectionState.split)
  qed (use i in \<open>simp add: e\<close>)
qed

lemma upd_th_inv:
  assumes i: "tcp_inv R cur w" and g: "conn_map_at (g (tw_th w)) = conn_map_at (tw_th w)"
    "tt_connectionpool (g (tw_th w)) = tt_connectionpool (tw_th w)" "tt_socketTable (g (tw_th w)) = tt_socketTable (tw_th w)"
    "own_fds (g (tw_th w)) = own_fds (tw_th w)" "tt_spPolling (g (tw_th w)) = tt_spPolling (tw_th w)"
    "thread_ok_tcp (g (tw_th w))"
  shows "tcp_inv R cur (upd_th g w)"
proof (rule same_conns_inv [OF i])
  show "same_conns w (upd_th g w)"
    using g by (simp add: same_conns_def conn_table_def fun_eq_iff)
  then show "watch_ok (upd_th g w) p" if "watch_ok w p" for p
    using that g by (simp add: watch_ok_def same_conns_fields)
qed (use g in simp_all)

lemma polling_only:
  assumes "tcp_inv R cur w" "touches s f" "s = -1 \<or> s \<in> set (own_fds (tw_th w)) \<and> s \<notin> taken w" "cur = None"
  shows "tcp_inv R cur (snd (polling_do f w))"
proof (rule polling_do_inv [OF assms(1,2)])
  fix q
  assume "q \<in> owned w"
  then show "conn_sock q w \<noteq> s"
    using owned_sock [OF assms(1)] assms(3) by metis
qed

lemma listen_on_epoll_inv:
  "tcp_inv R None w \<Longrightarrow> tcp_inv R None (snd (listen_on_epoll c fEnable roles w))"
proof (induction roles arbitrary: w)
  case (Cons role roles)
  define s where "s = tt_socketTable (tw_th w) role"
  define f where "f = (\<lambda>p. if fEnable then Polling_Add c p s EPOLL_LISTEN_SOCKET_EVENT_SET else Polling_Remove c p s)"
  have "touches s f"
    unfolding f_def using touches_polling(1,2) by (cases fEnable) simp_all
  moreover have "s = -1 \<or> s \<in> set (own_fds (tw_th w)) \<and> s \<notin> taken w"
    using Cons.prems by (auto simp: tcp_inv_def listen_ok_def s_def)
  ultimately have "tcp_inv R None (snd (polling_do f w))"
    using polling_only [OF Cons.prems] by simp
  then show ?case
    using Cons.prems Cons.IH by (simp add: Let_def s_def [symmetric] f_def [symmetric] case_prod_beta)
qed simp

lemma SetListen_inv:
  assumes "tcp_inv R None w"
  shows "tcp_inv R None (snd (SetListenSocketsOnEpoll c fEnable w))"
proof -
  have "tcp_inv R None (upd_th (\<lambda>th. th\<lparr>tt_fListenSocketsOnEpoll := fEnable\<rparr>) w)" if "tcp_inv R None w" for w
    by (rule upd_th_inv [OF that]) (use that in \<open>simp_all add: tcp_inv_def thread_ok_tcp_def own_fds_def conn_map_at_def fun_eq_iff split: ConnTable.split\<close>)
  then show ?thesis
    using assms listen_on_epoll_inv [OF assms, of c fEnable all_roles]
    unfolding SetListenSocketsOnEpoll_def case_prod_beta Let_def by (cases "fEnable \<noteq> tt_fListenSocketsOnEpoll (tw_th w)") simp_all
qed

lemma wait_event_inv:
  assumes i: "tcp_inv R None w"
  shows "tcp_inv R None (snd (snd (wait_event c w)))"
proof -
  let ?f = "\<lambda>p. let (hr, p', ev) = Polling_WaitForNextEvent c p \<lparr>pe_fd = 0, pe_eventflags = 0\<rparr> in (hr, p')"
  have "snd (snd (wait_event c w)) = snd (polling_do ?f w)"
    by (simp add: wait_event_def polling_do_def case_prod_beta split: option.split)
  moreover have "polling_fd (Some (snd (?f p))) = polling_fd (Some p)" for p
    by (cases p) (auto simp: case_prod_beta CEpoll_WaitForNextEvent_def Let_def split: option.split)
  then have "touches (-1) ?f"
    unfolding touches_def
    by (auto simp: case_prod_beta CEpoll_WaitForNextEvent_def cepoll_ok_def Let_def split: option.splits)
  ultimately show ?thesis
    using polling_only [OF i, of "-1"] by simp
qed

section \<open>Closing the connections of a table\<close>

lemma close_all_inv:
  "tcp_inv R None w \<Longrightarrow> card (dom (conn_table w t)) < n \<Longrightarrow>
    tcp_inv R None (close_all n c t w) \<and> conn_table (close_all n c t w) t = Map.empty \<and>
    (\<forall>t'. t' \<noteq> t \<longrightarrow> conn_table (close_all n c t w) t' = conn_table w t') \<and>
    tt_pNewConnList (tw_th (close_all n c t w)) = tt_pNewConnList (tw_th w) \<and>
    tt_pOldConnList (tw_th (close_all n c t w)) = tt_pOldConnList (tw_th w)"
proof (induction n arbitrary: w)
  case (Suc n)
  have m: "fhm.is_map fd_hash (conn_map_at (tw_th w) t) (conn_table w t)"
    using Suc.prems(1) by (cases t) (simp_all add: tcp_inv_def table_ok_def)
  show ?case
  proof (cases "conn_table w t = Map.empty")
    case True
    note l = LookupByIndex_none [OF m [unfolded True]]
    show ?thesis
      using same_table_inv(1,2) [OF Suc.prems(1) m] True by (simp add: l)
  next
    case False
    obtain k p h where l: "FH_LookupByIndex (conn_map_at (tw_th w) t) 0 = (Some (k, p), h)" "conn_table w t k = Some p"
      "fhm.is_map fd_hash h (conn_table w t)"
      using LookupByIndex_first [OF m False] by metis
    define w1 where "w1 = upd_th (set_conn_map t h) w"
    define w2 where "w2 = CloseConnection c p w1"
    have e: "close_all (Suc n) c t w = close_all n c t w2"
      by (simp add: l(1) w1_def [symmetric] w2_def)
    have t1: "conn_table w1 = conn_table w" "tcp_inv R None w1"
      unfolding w1_def by (rule same_table_inv [OF Suc.prems(1) l(3)])+
    have p: "p \<in> owned w1"
      using table_conn l(2) t1(1) by metis
    note i1 = take_up(1) [OF t1(2) p]
    have k: "conn_sock p w1 = k"
      using t1 l(2) by (cases t) (simp_all add: tcp_inv_def table_ok_def)
    note T = CloseConnection_tables(1) [OF i1, where c = c, folded w2_def, unfolded k t1(1)]
    have o: "conn_table w t' k = None" if "t' \<noteq> t" for t'
      using that l(2) Suc.prems(1) by (cases t; cases t') (auto simp: tcp_inv_def disjoint_iff)
    have i2: "tcp_inv R None w2"
      unfolding w2_def by (rule CloseConnection_inv [OF i1])
    have "finite (dom (conn_table w t))" "k \<in> dom (conn_table w t)"
      using map_size(1) [OF m] l(2) by auto
    then have n: "card (dom (conn_table w2 t)) < n"
      using Suc.prems(2) card_Diff1_less [of "dom (conn_table w t)" k] by (simp add: T)
    have T': "conn_table w2 t' = conn_table w t'" if "t' \<noteq> t" for t'
      using o [OF that] by (simp add: T fun_upd_idem)
    have "tt_pNewConnList (tw_th w2) = tt_pNewConnList (tw_th w)" "tt_pOldConnList (tw_th w2) = tt_pOldConnList (tw_th w)"
      by (simp_all add: w2_def w1_def CloseConnection_fields)
    then show ?thesis
      unfolding e using Suc.IH [OF i2 n] T' by simp
  qed
qed simp

lemma CloseAll_inv:
  assumes i: "tcp_inv R None w"
  shows "tcp_inv R None (CloseAllConnections c t w)" "conn_table (CloseAllConnections c t w) t = Map.empty"
    "t' \<noteq> t \<Longrightarrow> conn_table (CloseAllConnections c t w) t' = conn_table w t'"
    "tt_pNewConnList (tw_th (CloseAllConnections c t w)) = tt_pNewConnList (tw_th w)"
    "tt_pOldConnList (tw_th (CloseAllConnections c t w)) = tt_pOldConnList (tw_th w)"
proof -
  have m: "fhm.is_map fd_hash (conn_map_at (tw_th w) t) (conn_table w t)"
    using i by (cases t) (simp_all add: tcp_inv_def table_ok_def)
  have "card (dom (conn_table w t)) < Suc (fh_size (conn_map_at (tw_th w) t))"
    using map_size(2) [OF m] by simp
  from close_all_inv [OF i this, of c] show "tcp_inv R None (CloseAllConnections c t w)"
    "conn_table (CloseAllConnections c t w) t = Map.empty"
    "t' \<noteq> t \<Longrightarrow> conn_table (CloseAllConnections c t w) t' = conn_table w t'"
    "tt_pNewConnList (tw_th (CloseAllConnections c t w)) = tt_pNewConnList (tw_th w)"
    "tt_pOldConnList (tw_th (CloseAllConnections c t w)) = tt_pOldConnList (tw_th w)"
    by (simp_all add: CloseAllConnections_def)
qed

lemma Sweep_inv:
  assumes i: "tcp_inv R None w"
  shows "tcp_inv R None (SweepDeadConnections c now w)"
proof -
  define w1 where "w1 = CloseAllConnections c (tt_pOldConnList (tw_th w)) w"
  have i1: "tcp_inv R None w1"
    unfolding w1_def by (rule CloseAll_inv(1) [OF i])
  have "tcp_inv R None (upd_th (\<lambda>th. th\<lparr>tt_timeLastSweep := snd now\<rparr>) w1)" (is "tcp_inv R None ?w2")
    by (rule upd_th_inv [OF i1]) (use i1 in \<open>simp_all add: tcp_inv_def thread_ok_tcp_def own_fds_def conn_map_at_def fun_eq_iff split: ConnTable.split\<close>)
  then have "tcp_inv R None (upd_th (\<lambda>th. th\<lparr>tt_pOldConnList := tt_pNewConnList th, tt_pNewConnList := tt_pOldConnList (tw_th ?w2)\<rparr>) ?w2)"
    by (rule upd_th_inv) (use i1 in \<open>auto simp: tcp_inv_def thread_ok_tcp_def own_fds_def conn_map_at_def fun_eq_iff split: ConnTable.split\<close>)
  then show ?thesis
    using i by (simp add: SweepDeadConnections_def Let_def w1_def)
qed

lemma ThreadCleanup_inv:
  assumes i: "tcp_inv R None w"
  shows "tcp_inv R None (ThreadCleanup c w)" "conn_table (ThreadCleanup c w) t = Map.empty"
proof -
  define w1 where "w1 = CloseAllConnections c (tt_pOldConnList (tw_th w)) w"
  note C = CloseAll_inv [OF i, where c = c and t = "tt_pOldConnList (tw_th w)", folded w1_def]
  define w2 where "w2 = CloseAllConnections c (tt_pNewConnList (tw_th w1)) w1"
  note D = CloseAll_inv [OF C(1), where c = c and t = "tt_pNewConnList (tw_th w1)", folded w2_def]
  have e: "ThreadCleanup c w = w2"
    unfolding ThreadCleanup_def Let_def w1_def w2_def by (rule refl)
  show "tcp_inv R None (ThreadCleanup c w)"
    unfolding e by (rule D(1))
  have ne: "tt_pNewConnList (tw_th w) \<noteq> tt_pOldConnList (tw_th w)"
    using i by (simp add: tcp_inv_def thread_ok_tcp_def)
  show "conn_table (ThreadCleanup c w) t = Map.empty"
    unfolding e using C(2,4) D(2,3) ne by (cases "t = tt_pNewConnList (tw_th w)"; cases t; cases "tt_pNewConnList (tw_th w)";
        cases "tt_pOldConnList (tw_th w)") auto
qed

section \<open>The loop\<close>

lemma handle_event_inv:
  assumes i: "tcp_inv R None w" and a: "accept_fresh tr" and ok: "hmac_ok hmac" "md5_ok md5"
  shows "tcp_inv R None (handle_event hmac md5 tr fd w)"
proof (cases "GetListenSocket (tw_th w) fd")
  case None
  then show ?thesis
    using ProcessConnectionEvent_inv [OF i ok] by (simp add: handle_event_def)
next
  case (Some ls)
  obtain res w1 where r: "AcceptConnection tr ls w = (res, w1)"
    by (cases "AcceptConnection tr ls w")
  note A = Accept_inv [OF i a r]
  show ?thesis
    using A Receive_inv [OF ok A(1)] by (cases res) (simp_all add: handle_event_def Some r)
qed

lemma exit_inv: "tcp_inv R None w \<Longrightarrow> tcp_inv R None (upd_th (\<lambda>th. th\<lparr>tt_fNeedToExit := b\<rparr>) w)"
  by (rule upd_th_inv) (simp_all add: tcp_inv_def thread_ok_tcp_def own_fds_def conn_map_at_def fun_eq_iff split: ConnTable.split)

lemma Tcp_turn_inv:
  assumes i: "tcp_inv R None w" and a: "accept_fresh tr" and ok: "hmac_ok hmac" "md5_ok md5"
  shows "tcp_inv R None (snd (Tcp_turn hmac md5 tr w))"
proof -
  define w1 where "w1 = snd (SetListenSocketsOnEpoll (tr_poll tr) (IsConnectionCountAtMax (tw_th w) = False) w)"
  define hr where "hr = fst (wait_event (tr_poll tr) w1)"
  define ev where "ev = fst (snd (wait_event (tr_poll tr) w1))"
  define w2 where "w2 = snd (snd (wait_event (tr_poll tr) w1))"
  define w3 where "w3 = (if tr_exit tr then upd_th (\<lambda>th. th\<lparr>tt_fNeedToExit := True\<rparr>) w2 else w2)"
  have e: "Tcp_turn hmac md5 tr w = (if tt_fNeedToExit (tw_th w) then (False, w)
    else if tt_fNeedToExit (tw_th w3) \<or> pe_fd ev = tt_pipe0 (tw_th w3) then (False, w3)
    else (True, SweepDeadConnections (tr_poll tr) (tr_sweep tr) (if hr = S_OK then handle_event hmac md5 tr (pe_fd ev) w3 else w3)))"
    by (simp add: Tcp_turn_def case_prod_beta Let_def w1_def hr_def ev_def w2_def w3_def)
  have i3: "tcp_inv R None w3"
    using exit_inv wait_event_inv [OF SetListen_inv [OF i]] by (simp add: w3_def w2_def w1_def)
  then have "tcp_inv R None (if hr = S_OK then handle_event hmac md5 tr (pe_fd ev) w3 else w3)"
    using handle_event_inv [OF _ a ok] by simp
  then show ?thesis
    unfolding e using i i3 Sweep_inv by simp
qed

lemma Tcp_Run_inv:
  assumes ok: "hmac_ok hmac" "md5_ok md5"
  shows "tcp_inv R None w \<Longrightarrow> list_all accept_fresh turns \<Longrightarrow> tcp_inv R None (snd (Tcp_Run hmac md5 turns w)) \<and>
    (fst (Tcp_Run hmac md5 turns w) \<longrightarrow> taken (snd (Tcp_Run hmac md5 turns w)) = {})"
proof (induction turns arbitrary: w)
  case (Cons tr turns)
  obtain more w1 where t: "Tcp_turn hmac md5 tr w = (more, w1)"
    by (cases "Tcp_turn hmac md5 tr w")
  have i1: "tcp_inv R None w1"
    using Tcp_turn_inv [OF Cons.prems(1) _ ok, of tr] Cons.prems(2) by (simp add: t)
  show ?case
    using Cons.IH [OF i1] Cons.prems(2) ThreadCleanup_inv [OF i1] by (simp add: t taken_def)
qed simp

end
