(* ===== verification/StunTcpLife.thy ===== *)
theory StunTcpLife imports StunTcpInv begin

text \<open>
  The life of the thread of the TCP server: what \<open>Init\<close> opens, the loop serves and \<open>Stop\<close> gives back.
\<close>

section \<open>The thread's own descriptors\<close>

definition opened_fd :: "int \<Rightarrow> int multiset" where
  "opened_fd s = (if s = -1 then {#} else {#s#})"

lemma own_mset: "mset (own_fds th) = open_sockets (tt_socketListenArray th) all_roles +
    (opened_fd (tt_pipe0 th) + opened_fd (tt_pipe1 th) + opened_fd (polling_fd (tt_spPolling th)))"
proof -
  have "mset (filter (\<lambda>s. s \<noteq> -1) (map (\<lambda>r. sk_sock (arr r)) rs)) = open_sockets arr rs" for arr rs
    by (induction rs) (simp_all add: Socket_IsValid_def)
  then show ?thesis
    by (simp add: own_fds_def opened_fd_def)
qed

definition tcp_res :: "int multiset \<Rightarrow> TcpWorld \<Rightarrow> bool" where
  "tcp_res R w \<longleftrightarrow> mset (tw_fds w) = R + mset (own_fds (tw_th w)) \<and>
     (\<exists>fr. free_list (tt_connectionpool (tw_th w)) fr \<and> dom (po_heap (tt_connectionpool (tw_th w))) = set fr)"

lemma tcp_res_other:
  assumes "tcp_res R w" "mset (tw_fds w') + mset (own_fds (tw_th w)) = mset (tw_fds w) + mset (own_fds (tw_th w'))"
    "tt_connectionpool (tw_th w') = tt_connectionpool (tw_th w)"
  shows "tcp_res R w'"
proof -
  have "mset (tw_fds w') + mset (own_fds (tw_th w)) = R + mset (own_fds (tw_th w')) + mset (own_fds (tw_th w))"
    using assms(1,2) by (simp add: tcp_res_def ac_simps)
  then show ?thesis
    using assms(1,3) by (simp add: tcp_res_def)
qed

lemma res_open:
  assumes "tcp_res R w"
  shows "mset (tw_fds w) = R + open_sockets (tt_socketListenArray (tw_th w)) all_roles +
    (opened_fd (tt_pipe0 (tw_th w)) + opened_fd (tt_pipe1 (tw_th w)) + opened_fd (polling_fd (tt_spPolling (tw_th w))))"
  using assms unfolding tcp_res_def own_mset by (simp add: ac_simps)

section \<open>Giving back\<close>

lemma release_polling_res:
  assumes "tcp_res R w"
  shows "tcp_res R (release_polling w)" "tt_spPolling (tw_th (release_polling w)) = None"
proof -
  have "mset (tw_fds (release_polling w)) + opened_fd (polling_fd (tt_spPolling (tw_th w))) = mset (tw_fds w)"
    unfolding release_polling_def using res_open [OF assms]
    by (cases "tt_spPolling (tw_th w)"; cases "the (tt_spPolling (tw_th w))") (auto simp: CEpoll_Close_def Let_def opened_fd_def)
  then show "tcp_res R (release_polling w)"
    by (intro tcp_res_other [OF assms])
      (use assms in \<open>auto simp: release_polling_def own_mset tcp_res_def opened_fd_def split: option.split\<close>)
  show "tt_spPolling (tw_th (release_polling w)) = None"
    by (simp add: release_polling_def split: option.split)
qed

lemma close_listener_res:
  assumes "tcp_res R w"
  shows "tcp_res R (close_listener r w)" "tt_socketTable (tw_th (close_listener r w)) = (tt_socketTable (tw_th w))(r := -1)"
    "\<exists>s. tt_socketListenArray (tw_th (close_listener r w)) = (tt_socketListenArray (tw_th w))(r := s) \<and> \<not> Socket_IsValid s"
    "tt_spPolling (tw_th (close_listener r w)) = tt_spPolling (tw_th w)"
proof -
  let ?s = "tt_socketListenArray (tw_th w) r"
  let ?c = "snd (Socket_Close (tw_fds w, ?s))"
  have e: "close_listener r w = w\<lparr>tw_fds := (if Socket_IsValid ?s then remove1 (sk_sock ?s) (tw_fds w) else tw_fds w),
      tw_th := (tw_th w)\<lparr>tt_socketListenArray := (tt_socketListenArray (tw_th w))(r := ?c),
         tt_socketTable := (tt_socketTable (tw_th w))(r := -1)\<rparr>\<rparr>"
    using Socket_Close_eq(1) [of "tw_fds w" ?s] by (simp add: close_listener_def case_prod_beta)
  have u: "open_sockets ((tt_socketListenArray (tw_th w))(r := ?c)) all_roles + (if Socket_IsValid ?s then {#sk_sock ?s#} else {#}) =
      open_sockets (tt_socketListenArray (tw_th w)) all_roles"
    using open_sockets_upd [of all_roles r "tt_socketListenArray (tw_th w)" ?c] Socket_Close_eq(2) [of "tw_fds w" ?s] by simp
  show "tcp_res R (close_listener r w)"
  proof (rule tcp_res_other [OF assms])
    have "mset (tw_fds (close_listener r w)) + (if Socket_IsValid ?s then {#sk_sock ?s#} else {#}) = mset (tw_fds w)"
      using res_open [OF assms] unfolding e u [symmetric] by auto
    then show "mset (tw_fds (close_listener r w)) + mset (own_fds (tw_th w)) =
        mset (tw_fds w) + mset (own_fds (tw_th (close_listener r w)))"
      unfolding own_mset u [symmetric] by (simp add: e ac_simps)
  qed (use assms in \<open>simp_all add: e tcp_res_def\<close>)
  show "tt_socketTable (tw_th (close_listener r w)) = (tt_socketTable (tw_th w))(r := -1)"
    "\<exists>s. tt_socketListenArray (tw_th (close_listener r w)) = (tt_socketListenArray (tw_th w))(r := s) \<and> \<not> Socket_IsValid s"
    "tt_spPolling (tw_th (close_listener r w)) = tt_spPolling (tw_th w)"
    using Socket_Close_eq(2) by (auto simp: e)
qed

lemma close_listeners_res:
  "tcp_res R w \<Longrightarrow> tcp_res R (fold close_listener rs w) \<and>
    (\<forall>r. r \<in> set rs \<or> tt_socketTable (tw_th w) r = -1 \<and> \<not> Socket_IsValid (tt_socketListenArray (tw_th w) r) \<longrightarrow>
      tt_socketTable (tw_th (fold close_listener rs w)) r = -1 \<and> \<not> Socket_IsValid (tt_socketListenArray (tw_th (fold close_listener rs w)) r)) \<and>
    tt_spPolling (tw_th (fold close_listener rs w)) = tt_spPolling (tw_th w)"
proof (induction rs arbitrary: w)
  case (Cons r rs)
  note c = close_listener_res [OF Cons.prems, of r]
  obtain s where s: "tt_socketListenArray (tw_th (close_listener r w)) = (tt_socketListenArray (tw_th w))(r := s)" "\<not> Socket_IsValid s"
    using c(3) by blast
  show ?case
    using Cons.IH [OF c(1)] c(2,4) s by (auto simp: fun_upd_def)
qed simp

lemma ClosePipes_res:
  assumes "tcp_res R w"
  shows "tcp_res R (ClosePipes w)" "tt_pipe0 (tw_th (ClosePipes w)) = -1" "tt_pipe1 (tw_th (ClosePipes w)) = -1"
    "tt_socketTable (tw_th (ClosePipes w)) = tt_socketTable (tw_th w)"
    "tt_socketListenArray (tw_th (ClosePipes w)) = tt_socketListenArray (tw_th w)"
    "tt_spPolling (tw_th (ClosePipes w)) = tt_spPolling (tw_th w)"
proof -
  show f: "tt_pipe0 (tw_th (ClosePipes w)) = -1" "tt_pipe1 (tw_th (ClosePipes w)) = -1"
    "tt_socketTable (tw_th (ClosePipes w)) = tt_socketTable (tw_th w)"
    "tt_socketListenArray (tw_th (ClosePipes w)) = tt_socketListenArray (tw_th w)"
    "tt_spPolling (tw_th (ClosePipes w)) = tt_spPolling (tw_th w)"
    by (simp_all add: ClosePipes_def Let_def)
  have "mset (tw_fds (ClosePipes w)) + (opened_fd (tt_pipe0 (tw_th w)) + opened_fd (tt_pipe1 (tw_th w))) = mset (tw_fds w)"
    using res_open [OF assms] by (auto simp: ClosePipes_def Let_def opened_fd_def)
  then have "mset (tw_fds (ClosePipes w)) + mset (own_fds (tw_th w)) = mset (tw_fds w) + mset (own_fds (tw_th (ClosePipes w)))"
    unfolding own_mset f by (simp add: opened_fd_def ac_simps)
  then show "tcp_res R (ClosePipes w)"
    by (rule tcp_res_other [OF assms]) (use assms f in \<open>simp_all add: ClosePipes_def Let_def tcp_res_def\<close>)
qed

text \<open>A thread that holds nothing.\<close>

definition tcp_idle :: "CTCPStunThread \<Rightarrow> bool" where
  "tcp_idle th \<longleftrightarrow> own_fds th = [] \<and> tt_spPolling th = None \<and> tt_pipe0 th = -1 \<and> tt_pipe1 th = -1 \<and>
     (\<forall>r. tt_socketTable th r = -1 \<and> \<not> Socket_IsValid (tt_socketListenArray th r)) \<and>
     po_heap (tt_connectionpool th) = Map.empty \<and> po_freelist (tt_connectionpool th) = None \<and>
     \<not> tt_fThreadIsValid th \<and> \<not> tt_fNeedToExit th \<and> \<not> tt_fListenSocketsOnEpoll th \<and>
     tt_hashConnections1 th = FH_Init 0 0 False \<and> tt_hashConnections2 th = FH_Init 0 0 False"

lemma Reset_gives_back:
  assumes "tcp_res R w"
  shows "mset (tw_fds (TcpThread_Reset now w)) = R" "tcp_idle (tw_th (TcpThread_Reset now w))"
proof -
  define w1 where "w1 = release_polling w"
  define w2 where "w2 = CloseListenSockets w1"
  define w3 where "w3 = ClosePipes w2"
  note r1 = release_polling_res [OF assms, folded w1_def]
  define v where "v = fold close_listener all_roles w1"
  have r2: "tcp_res R v" "\<And>r. tt_socketTable (tw_th v) r = -1 \<and> \<not> Socket_IsValid (tt_socketListenArray (tw_th v) r)"
    "tt_spPolling (tw_th v) = None"
    unfolding v_def using close_listeners_res [OF r1(1), of all_roles] r1(2) by simp_all
  have w2: "w2 = upd_th (\<lambda>th. th\<lparr>tt_countSocks := 0\<rparr>) v"
    by (simp add: w2_def v_def CloseListenSockets_def)
  have res2: "tcp_res R w2"
    using r2(1) by (simp add: w2 tcp_res_def own_fds_def)
  note r3 = ClosePipes_res [OF res2, folded w3_def]
  have f3: "\<And>r. tt_socketTable (tw_th w3) r = -1" "\<And>r. \<not> Socket_IsValid (tt_socketListenArray (tw_th w3) r)" "tt_spPolling (tw_th w3) = None"
    using r2(2,3) r3(4-6) by (simp_all add: w2)
  have "mset (own_fds (tw_th w3)) = {#}"
    unfolding own_mset using f3 r3(2,3) open_sockets_closed by (simp add: opened_fd_def)
  then have own: "own_fds (tw_th w3) = []"
    by simp
  obtain fr where fr: "free_list (tt_connectionpool (tw_th w3)) fr" "dom (po_heap (tt_connectionpool (tw_th w3))) = set fr"
    using r3(1) by (auto simp: tcp_res_def)
  note p = Pool_Reset_all [OF fr]
  have e: "TcpThread_Reset now w = upd_th (\<lambda>th. th\<lparr>tt_fListenSocketsOnEpoll := False, tt_tsaListen := tsa_zero, tt_fNeedToExit := False,
        tt_spAuth := None, tt_role := RolePP, tt_tsa := tsa_zero, tt_maxConnections := c_MaxNumberOfConnectionsDefault,
        tt_fThreadIsValid := False, tt_connectionpool := Pool_Reset (tt_connectionpool th),
        tt_hashConnections1 := FH_Init 0 0 False, tt_hashConnections2 := FH_Init 0 0 False,
        tt_pNewConnList := Connections1, tt_pOldConnList := Connections2, tt_timeLastSweep := now\<rparr>) w3"
    by (simp add: TcpThread_Reset_def Let_def w1_def w2_def w3_def)
  show "mset (tw_fds (TcpThread_Reset now w)) = R"
    using r3(1) own by (simp add: e tcp_res_def)
  show "tcp_idle (tw_th (TcpThread_Reset now w))"
    using own f3 r3(2,3) p by (simp add: e tcp_idle_def own_fds_def free_list_def)
qed

lemma idle_res: "tcp_idle (tw_th w) \<Longrightarrow> tcp_res (mset (tw_fds w)) w"
  by (auto simp: tcp_res_def tcp_idle_def free_list_def intro!: exI [of _ "[]"])

lemma new_idle: "tcp_idle (CTCPStunThread_new now)"
  unfolding CTCPStunThread_new_def
  by (rule Reset_gives_back(2) [of "{#}"])
    (auto simp: tcp_res_def own_fds_def all_roles_def CStunSocket_new_def free_list_def CConnectionPool_new_def intro!: exI [of _ "[]"])

text \<open>After the connections are closed, the thread holds its own descriptors only.\<close>

lemma inv_res:
  assumes i: "tcp_inv R None w" and t: "taken w = {}"
  shows "tcp_res R w"
proof -
  have "owned w = {}"
    using t by (auto simp: owned_def taken_def ran_def dom_def)
  then show ?thesis
    using i t by (simp add: tcp_inv_def fds_split_def pool_split_def tcp_res_def)
qed

section \<open>Initialisation\<close>

text \<open>What the calls of \<open>Init\<close> are documented to answer: \<open>socket\<close> and \<open>pipe\<close> give -1 or descriptors.\<close>

definition init_calls_ok :: "TcpInit \<Rightarrow> bool" where
  "init_calls_ok os \<longleftrightarrow> (\<forall>r. -1 \<le> sc_socket (ti_sock os r)) \<and> (\<forall>a b. ti_pipe os = Some (a, b) \<longrightarrow> a \<noteq> -1 \<and> b \<noteq> -1)"

definition listed :: "CTCPStunThread \<Rightarrow> bool" where
  "listed th \<longleftrightarrow> (\<forall>r. tt_socketTable th r = -1 \<or> tt_socketTable th r = sk_sock (tt_socketListenArray th r))"

definition pol_ok :: "CTCPStunThread \<Rightarrow> bool" where
  "pol_ok th \<longleftrightarrow> (\<forall>e. tt_spPolling th = Some (Epoll e) \<longrightarrow> cepoll_ok e)"

definition listeners_only :: "CTCPStunThread \<Rightarrow> CTCPStunThread \<Rightarrow> bool" where
  "listeners_only th th' \<longleftrightarrow> (\<exists>arr tab n. th' = th\<lparr>tt_socketListenArray := arr, tt_socketTable := tab, tt_countSocks := n\<rparr>)"

lemma listeners_onlyI: "th' = th\<lparr>tt_socketListenArray := arr, tt_socketTable := tab, tt_countSocks := n\<rparr> \<Longrightarrow> listeners_only th th'"
  by (auto simp: listeners_only_def)

lemma listeners_only_refl: "listeners_only th th"
  by (rule listeners_onlyI [where arr = "tt_socketListenArray th" and tab = "tt_socketTable th" and n = "tt_countSocks th"]) simp

lemma listeners_only_trans: "listeners_only th th1 \<Longrightarrow> listeners_only th1 th2 \<Longrightarrow> listeners_only th th2"
  by (clarsimp simp: listeners_only_def) (rule exI, rule exI, rule exI, rule refl)

lemma create_listeners_res:
  "tcp_res R w \<Longrightarrow> listed (tw_th w) \<Longrightarrow> \<forall>r\<in>set roles. \<not> Socket_IsValid (tt_socketListenArray (tw_th w) r) \<Longrightarrow> distinct roles \<Longrightarrow>
    init_calls_ok os \<Longrightarrow> create_listeners os roles w = (hr, w') \<Longrightarrow> tcp_res R w' \<and> listed (tw_th w') \<and>
    listeners_only (tw_th w) (tw_th w')"
proof (induction roles arbitrary: w)
  case Nil
  then show ?case
    by (simp add: listeners_only_refl)
next
  case (Cons r roles)
  show ?case
  proof (cases "ta_fValid (tt_tsaListen (tw_th w) r)")
    case False
    define w1 where "w1 = upd_th (\<lambda>th. th\<lparr>tt_socketTable := (tt_socketTable th)(r := -1)\<rparr>) w"
    have w1: "tcp_res R w1" "listed (tw_th w1)" "tt_socketListenArray (tw_th w1) = tt_socketListenArray (tw_th w)"
      using Cons.prems(1,2) by (simp_all add: w1_def tcp_res_def listed_def own_fds_def)
    have f1: "listeners_only (tw_th w) (tw_th w1)"
        by (rule listeners_onlyI [where arr = "tt_socketListenArray (tw_th w)" and tab = "(tt_socketTable (tw_th w))(r := -1)" and n = "tt_countSocks (tw_th w)"]) (simp add: w1_def)
    have "create_listeners os roles w1 = (hr, w')"
      using Cons.prems(6) False by (simp add: w1_def)
    from Cons.IH [OF w1(1,2) _ _ Cons.prems(5) this] show ?thesis
      using Cons.prems(3,4) w1(3) listeners_only_trans [OF f1] by simp
  next
    case True
    let ?s = "tt_socketListenArray (tw_th w) r"
    have inv: "\<not> Socket_IsValid ?s" "-1 \<le> sc_socket (ti_sock os r)"
      using Cons.prems(3,5) by (simp_all add: init_calls_ok_def)
    have up: "UDPInit = TCPInit"
      by (simp add: fun_eq_iff UDPInit_def TCPInit_def)
    consider (bad) hr1 where "FAILED hr1" "TCPInit (ti_sock os r) (tw_fds w, ?s) (ta_addr (tt_tsaListen (tw_th w) r)) r True = (hr1, tw_fds w, ?s)"
      | (good) s fd where "TCPInit (ti_sock os r) (tw_fds w, ?s) (ta_addr (tt_tsaListen (tw_th w) r)) r True = (S_OK, fd # tw_fds w, s)"
          "sk_sock s = fd" "fd \<noteq> -1"
      using UDPInit_cases [OF inv, of "tw_fds w" "ta_addr (tt_tsaListen (tw_th w) r)" r True] unfolding up by fastforce
    then show ?thesis
    proof cases
      case bad
      then have "w' = w"
        using Cons.prems(6) True by simp
      then show ?thesis
        using Cons.prems(1,2) listeners_only_refl by simp
    next
      case good
      define w1 where "w1 = w\<lparr>tw_fds := fd # tw_fds w, tw_th := (tw_th w)\<lparr>tt_socketListenArray := (tt_socketListenArray (tw_th w))(r := s),
          tt_socketTable := (tt_socketTable (tw_th w))(r := fd)\<rparr>\<rparr>"
      define w2 where "w2 = upd_th (\<lambda>th. th\<lparr>tt_countSocks := tt_countSocks th + 1\<rparr>) w1"
      have v: "Socket_IsValid s"
        using good by (simp add: Socket_IsValid_def)
      have "open_sockets ((tt_socketListenArray (tw_th w))(r := s)) all_roles = open_sockets (tt_socketListenArray (tw_th w)) all_roles + {#fd#}"
        using open_sockets_upd [of all_roles r "tt_socketListenArray (tw_th w)" s] v inv(1) good(2) by simp
      then have "mset (own_fds (tw_th w1)) = mset (own_fds (tw_th w)) + {#fd#}"
        by (simp add: own_mset w1_def)
      then have w1: "tcp_res R w1" "listed (tw_th w1)"
        using Cons.prems(1,2) good(2) by (simp_all add: tcp_res_def listed_def w1_def)
      then have w2: "tcp_res R w2" "listed (tw_th w2)"
        by (simp_all add: w2_def tcp_res_def listed_def own_fds_def)
      have f1: "listeners_only (tw_th w) (tw_th w1)"
        by (rule listeners_onlyI [where arr = "(tt_socketListenArray (tw_th w))(r := s)" and tab = "(tt_socketTable (tw_th w))(r := fd)" and n = "tt_countSocks (tw_th w)"]) (simp add: w1_def)
      have f2: "listeners_only (tw_th w) (tw_th w2)"
        by (rule listeners_onlyI [where arr = "(tt_socketListenArray (tw_th w))(r := s)" and tab = "(tt_socketTable (tw_th w))(r := fd)" and n = "tt_countSocks (tw_th w) + 1"]) (simp add: w1_def w2_def)
      have e: "create_listeners os (r # roles) w = (if FAILED (SetNonBlocking (ti_sock os r)) then (SetNonBlocking (ti_sock os r), w1)
          else if ti_listen os r = -1 then (ERRNOHR_of (ti_errno os), w1) else create_listeners os roles w2)"
        using True good(1,2) by (simp add: w1_def w2_def upd_th_def)
      show ?thesis
      proof (cases "FAILED (SetNonBlocking (ti_sock os r)) \<or> ti_listen os r = -1")
        case True
        then have "w' = w1"
          using Cons.prems(6) unfolding e by (auto split: if_splits)
        then show ?thesis
          using w1 f1 by simp
      next
        case False
        then have "create_listeners os roles w2 = (hr, w')"
          using Cons.prems(6) unfolding e by simp
        moreover have "\<forall>q\<in>set roles. \<not> Socket_IsValid (tt_socketListenArray (tw_th w2) q)"
          using Cons.prems(3,4) by (auto simp: w2_def w1_def)
        ultimately show ?thesis
          using Cons.IH [OF w2 _ _ Cons.prems(5)] Cons.prems(4) listeners_only_trans [OF f2] by simp
      qed
    qed
  qed
qed

definition init_stage :: "int multiset \<Rightarrow> TcpWorld \<Rightarrow> bool" where
  "init_stage R w \<longleftrightarrow> tcp_res R w \<and> listed (tw_th w) \<and> pol_ok (tw_th w) \<and> (\<forall>r. is_ip_addr (ta_addr (tt_tsa (tw_th w) r)))"

lemma polling_do_stage:
  assumes "init_stage R w" "touches s f"
  shows "init_stage R (snd (polling_do f w))"
proof -
  obtain p where p: "tw_th (snd (polling_do f w)) = (tw_th w)\<lparr>tt_spPolling := p\<rparr>"
    using polling_do_frame(4) by blast
  have "cepoll_ok e" if "tt_spPolling (tw_th (snd (polling_do f w))) = Some (Epoll e)" for e
  proof (cases "tt_spPolling (tw_th w)")
    case (Some p0)
    then have "snd (f p0) = Epoll e"
      using that by (simp add: polling_do_def case_prod_beta)
    then show ?thesis
      using Some assms by (cases p0) (auto simp: touches_def init_stage_def pol_ok_def)
  qed (use that in \<open>simp add: polling_do_def\<close>)
  then show ?thesis
    using assms(1) polling_do_own [OF assms(2), of w] p polling_do_frame(1) [of f w]
    by (simp add: init_stage_def tcp_res_def listed_def pol_ok_def)
qed

lemma listen_on_epoll_stage: "init_stage R w \<Longrightarrow> init_stage R (snd (listen_on_epoll c fEnable roles w))"
proof (induction roles arbitrary: w)
  case (Cons role roles)
  define s where "s = tt_socketTable (tw_th w) role"
  define f where "f = (\<lambda>p. if fEnable then Polling_Add c p s EPOLL_LISTEN_SOCKET_EVENT_SET else Polling_Remove c p s)"
  have "touches s f"
    unfolding f_def using touches_polling(1,2) by (cases fEnable) simp_all
  from polling_do_stage [OF Cons.prems this] show ?case
    using Cons.prems Cons.IH by (simp add: Let_def s_def [symmetric] f_def [symmetric] case_prod_beta)
qed simp

lemma SetListen_stage: "init_stage R w \<Longrightarrow> init_stage R (snd (SetListenSocketsOnEpoll c fEnable w))"
  using listen_on_epoll_stage [of R w c fEnable all_roles]
  by (auto simp: SetListenSocketsOnEpoll_def case_prod_beta Let_def init_stage_def tcp_res_def listed_def pol_ok_def own_fds_def)

lemma CreateListen_stage:
  assumes "init_stage R w" "tcp_idle (tw_th w)" "init_calls_ok os"
  shows "init_stage R (snd (CreateListenSockets os w))"
    "tt_pipe0 (tw_th (snd (CreateListenSockets os w))) = -1" "tt_pipe1 (tw_th (snd (CreateListenSockets os w))) = -1"
    "tt_spPolling (tw_th (snd (CreateListenSockets os w))) = None"
    "tt_maxConnections (tw_th (snd (CreateListenSockets os w))) = tt_maxConnections (tw_th w)"
proof -
  obtain hr w1 where c: "create_listeners os all_roles w = (hr, w1)"
    by fastforce
  have l: "tcp_res R w1 \<and> listed (tw_th w1) \<and> listeners_only (tw_th w) (tw_th w1)"
    by (rule create_listeners_res [OF _ _ _ _ assms(3) c]) (use assms(1,2) in \<open>simp_all add: init_stage_def tcp_idle_def\<close>)
  then obtain arr tab n where t: "tw_th w1 = (tw_th w)\<lparr>tt_socketListenArray := arr, tt_socketTable := tab, tt_countSocks := n\<rparr>"
    by (auto simp: listeners_only_def)
  have "init_stage R w1"
    using assms(1) l by (simp add: init_stage_def t pol_ok_def)
  then show "init_stage R (snd (CreateListenSockets os w))"
    by (simp add: CreateListenSockets_def c chk_def init_stage_def tcp_res_def listed_def pol_ok_def own_fds_def)
  show "tt_pipe0 (tw_th (snd (CreateListenSockets os w))) = -1" "tt_pipe1 (tw_th (snd (CreateListenSockets os w))) = -1"
    "tt_spPolling (tw_th (snd (CreateListenSockets os w))) = None"
    "tt_maxConnections (tw_th (snd (CreateListenSockets os w))) = tt_maxConnections (tw_th w)"
    using assms(2) by (simp_all add: CreateListenSockets_def c chk_def t tcp_idle_def)
qed

lemma CreatePipes_stage:
  assumes "init_stage R w" "tt_pipe0 (tw_th w) = -1" "tt_pipe1 (tw_th w) = -1" "init_calls_ok os"
  shows "init_stage R (snd (CreatePipes (ti_pipe os) errno w))"
    "tt_spPolling (tw_th (snd (CreatePipes (ti_pipe os) errno w))) = tt_spPolling (tw_th w)"
    "tt_maxConnections (tw_th (snd (CreatePipes (ti_pipe os) errno w))) = tt_maxConnections (tw_th w)"
    "\<not> FAILED (fst (CreatePipes (ti_pipe os) errno w)) \<Longrightarrow> tt_pipe0 (tw_th (snd (CreatePipes (ti_pipe os) errno w))) \<noteq> -1"
proof -
  have "tcp_res R (snd (CreatePipes (ti_pipe os) errno w))"
    by (rule tcp_res_other [of R w])
      (use assms in \<open>auto simp: init_stage_def CreatePipes_def own_mset opened_fd_def init_calls_ok_def ac_simps split: option.split\<close>)
  then show "init_stage R (snd (CreatePipes (ti_pipe os) errno w))"
    using assms(1) by (auto simp: init_stage_def CreatePipes_def listed_def pol_ok_def split: option.split)
  show "tt_spPolling (tw_th (snd (CreatePipes (ti_pipe os) errno w))) = tt_spPolling (tw_th w)"
    "tt_maxConnections (tw_th (snd (CreatePipes (ti_pipe os) errno w))) = tt_maxConnections (tw_th w)"
    "\<not> FAILED (fst (CreatePipes (ti_pipe os) errno w)) \<Longrightarrow> tt_pipe0 (tw_th (snd (CreatePipes (ti_pipe os) errno w))) \<noteq> -1"
    using assms(4) by (auto simp: CreatePipes_def init_calls_ok_def split: option.split)
qed

lemma CreatePollingInstance_fds:
  assumes "CreatePollingInstance b ec mem fds type n = (hr, fds', p)"
  shows "mset fds' = mset fds + opened_fd (polling_fd p)" "\<forall>e. p = Some (Epoll e) \<longrightarrow> cepoll_ok e"
  using assms by (auto simp: CreatePollingInstance_def CEpoll_Initialize_def CEpoll_Close_def CEpoll_new_def cepoll_ok_def
      opened_fd_def Let_def case_prod_beta split: if_splits)

lemma create_polling_stage:
  assumes "init_stage R w" "tt_spPolling (tw_th w) = None"
  shows "init_stage R (snd (create_polling os w))" "tt_pipe0 (tw_th (snd (create_polling os w))) = tt_pipe0 (tw_th w)"
    "tt_maxConnections (tw_th (snd (create_polling os w))) = tt_maxConnections (tw_th w)"
proof -
  obtain hr fds p where c: "CreatePollingInstance (ti_has_epoll os) (ti_epoll_create os) (ti_mem os) (tw_fds w)
            IPOLLING_TYPE_BEST (nat (tt_maxConnections (tw_th w) + 5)) = (hr, fds, p)"
    using prod_cases3 by blast
  note f = CreatePollingInstance_fds [OF c]
  have e: "snd (create_polling os w) = w\<lparr>tw_fds := fds, tw_th := (tw_th w)\<lparr>tt_spPolling := p\<rparr>\<rparr>"
    by (simp add: create_polling_def c)
  have "tcp_res R (snd (create_polling os w))"
    by (rule tcp_res_other [of R w]) (use assms f in \<open>auto simp: init_stage_def e own_mset opened_fd_def ac_simps\<close>)
  then show "init_stage R (snd (create_polling os w))" "tt_pipe0 (tw_th (snd (create_polling os w))) = tt_pipe0 (tw_th w)"
    "tt_maxConnections (tw_th (snd (create_polling os w))) = tt_maxConnections (tw_th w)"
    using assms(1) f(2) by (simp_all add: init_stage_def e listed_def pol_ok_def)
qed

lemma init_tables_stage:
  assumes "init_stage R w" "0 < tt_maxConnections (tw_th w)"
  obtains w' where "init_tables w = (S_OK, w')" "init_stage R w'" "tt_pipe0 (tw_th w') = tt_pipe0 (tw_th w)"
    "\<And>t. fhm.is_map fd_hash (conn_map_at (tw_th w') t) Map.empty" "tt_pNewConnList (tw_th w') \<noteq> tt_pOldConnList (tw_th w')"
    "\<And>t. fh_fsize (conn_map_at (tw_th w') t) = nat (tt_maxConnections (tw_th w))"
proof -
  obtain h :: conn_map where h: "FH_InitTable (nat (tt_maxConnections (tw_th w))) 0 True = (1, h)" "fhm.is_map fd_hash h Map.empty"
    "fh_fsize h = nat (tt_maxConnections (tw_th w))"
    using InitTable_map [of "nat (tt_maxConnections (tw_th w))" fd_hash] assms(2) by auto
  define w' where "w' = upd_th (\<lambda>th. th\<lparr>tt_hashConnections1 := h, tt_hashConnections2 := h, tt_pNewConnList := Connections1, tt_pOldConnList := Connections2\<rparr>) w"
  have "init_tables w = (S_OK, w')"
    by (simp add: init_tables_def h(1) w'_def upd_th_def Let_def)
  moreover have "init_stage R w'"
    using assms(1) by (simp add: init_stage_def w'_def tcp_res_def own_fds_def listed_def pol_ok_def)
  moreover have "conn_map_at (tw_th w') t = h" for t
    by (cases t) (simp_all add: w'_def conn_map_at_def)
  ultimately show thesis
    using that h(2,3) by (simp add: w'_def)
qed

lemma stage_inv:
  assumes s: "init_stage R w" and m: "\<And>t. fhm.is_map fd_hash (conn_map_at (tw_th w) t) Map.empty"
    and ne: "tt_pNewConnList (tw_th w) \<noteq> tt_pOldConnList (tw_th w)"
  shows "tcp_inv R None w" "taken w = {}"
proof -
  have t: "conn_table w t = Map.empty" for t
    using fhm.lookup_map [OF m] by (auto simp: conn_table_def fun_eq_iff)
  then have o: "owned w = {}" "taken w = {}"
    by (simp_all add: owned_def taken_def)
  have l: "tt_socketTable (tw_th w) r \<in> set (own_fds (tw_th w))" if "tt_socketTable (tw_th w) r \<noteq> -1" for r
    using that s all_roles_facts(2) [of r] by (auto simp: init_stage_def listed_def own_fds_def image_iff)
  show "tcp_inv R None w" "taken w = {}"
    using s m ne l unfolding tcp_inv_def
    by (auto simp: o t init_stage_def tcp_res_def tcp_inv_defs thread_ok_tcp_def pol_ok_def)
qed

definition tcp_ready :: "int multiset \<Rightarrow> TcpWorld \<Rightarrow> bool" where
  "tcp_ready R w \<longleftrightarrow> tcp_inv R None w \<and> taken w = {} \<and> tt_pipe0 (tw_th w) \<noteq> -1"

definition tcp_at_rest :: "int multiset \<Rightarrow> TcpWorld \<Rightarrow> bool" where
  "tcp_at_rest R w \<longleftrightarrow> mset (tw_fds w) = R \<and> tcp_idle (tw_th w)"

definition handler_addresses_ok :: "TransportAddressSet \<Rightarrow> bool" where
  "handler_addresses_ok tsa \<longleftrightarrow> (\<forall>r. is_ip_addr (ta_addr (tsa r)))"

text \<open>The part of \<open>Init\<close> after the checks.\<close>

definition init_rest :: "TcpInit \<Rightarrow> bool \<Rightarrow> TcpWorld \<Rightarrow> hresult \<times> TcpWorld" where
  "init_rest os spLimiter w =
     chk (CreateListenSockets os w) (\<lambda>w.
            chk (CreatePipes (ti_pipe os) (ti_errno os) w) (\<lambda>w.
            chk (create_polling os w) (\<lambda>w.
            chk (SetListenSocketsOnEpoll (ti_poll os) True w) (\<lambda>w.
            chk (polling_do (\<lambda>p. Polling_Add (ti_poll os) p (tt_pipe0 (tw_th w)) EPOLL_PIPE_EVENT_SET) w) (\<lambda>w.
            chk (init_tables w) (\<lambda>w.
              (S_OK, upd_th (\<lambda>th. th\<lparr>tt_spLimiter := spLimiter, tt_fNeedToExit := False\<rparr>) w)))))))"

lemma chk_cases:
  obtains (fails) "FAILED (fst r)" "chk r f = r" | (goes_on) "\<not> FAILED (fst r)" "chk r f = f (snd r)"
  by (cases r) (auto simp: chk_def split: if_splits)

lemma polling_do_th:
  "tt_pipe0 (tw_th (snd (polling_do f w))) = tt_pipe0 (tw_th w)" "tt_maxConnections (tw_th (snd (polling_do f w))) = tt_maxConnections (tw_th w)"
  using polling_do_frame(4) [of f w] by auto

lemma listen_on_epoll_th:
  "tt_pipe0 (tw_th (snd (listen_on_epoll c e roles w))) = tt_pipe0 (tw_th w) \<and>
   tt_maxConnections (tw_th (snd (listen_on_epoll c e roles w))) = tt_maxConnections (tw_th w)"
proof (induction roles arbitrary: w)
  case (Cons r roles)
  then show ?case
    by (simp add: Let_def case_prod_beta polling_do_th)
qed simp

lemma SetListen_th:
  "tt_pipe0 (tw_th (snd (SetListenSocketsOnEpoll c e w))) = tt_pipe0 (tw_th w)"
  "tt_maxConnections (tw_th (snd (SetListenSocketsOnEpoll c e w))) = tt_maxConnections (tw_th w)"
  by (simp_all add: SetListenSocketsOnEpoll_def case_prod_beta Let_def listen_on_epoll_th)

lemma init_rest_stage:
  assumes s: "init_stage R w" "tcp_idle (tw_th w)" "init_calls_ok os" and m: "0 < tt_maxConnections (tw_th w)"
  shows "tcp_res R (snd (init_rest os lim w))" "\<not> FAILED (fst (init_rest os lim w)) \<Longrightarrow> tcp_ready R (snd (init_rest os lim w))"
proof -
  have res: "init_stage R v \<Longrightarrow> tcp_res R v" for v
    by (simp add: init_stage_def)
  note L = CreateListen_stage [OF s]
  define w1 where "w1 = snd (CreateListenSockets os w)"
  note P = CreatePipes_stage [OF L(1-3) s(3), of "ti_errno os", folded w1_def]
  define w2 where "w2 = snd (CreatePipes (ti_pipe os) (ti_errno os) w1)"
  note C = create_polling_stage [OF P(1), of os, folded w2_def]
  define w3 where "w3 = snd (create_polling os w2)"
  define w4 where "w4 = snd (SetListenSocketsOnEpoll (ti_poll os) True w3)"
  define f where "f = (\<lambda>p. Polling_Add (ti_poll os) p (tt_pipe0 (tw_th w4)) EPOLL_PIPE_EVENT_SET)"
  define w5 where "w5 = snd (polling_do f w4)"
  have i3: "init_stage R w3"
    unfolding w3_def using C(1) P(2) L(4) by (simp add: w1_def w2_def)
  then have i4: "init_stage R w4"
    unfolding w4_def by (rule SetListen_stage)
  then have i5: "init_stage R w5"
    unfolding w5_def f_def by (intro polling_do_stage) (auto intro: touches_polling)
  have m5: "0 < tt_maxConnections (tw_th w5)" "tt_pipe0 (tw_th w5) = tt_pipe0 (tw_th w2)"
    using C(2,3) P(2,3) L(4,5) m by (simp_all add: w5_def w4_def w3_def w2_def w1_def polling_do_th SetListen_th)
  obtain w6 where t: "init_tables w5 = (S_OK, w6)" "init_stage R w6" "tt_pipe0 (tw_th w6) = tt_pipe0 (tw_th w5)"
    "\<And>t. fhm.is_map fd_hash (conn_map_at (tw_th w6) t) Map.empty" "tt_pNewConnList (tw_th w6) \<noteq> tt_pOldConnList (tw_th w6)"
    using init_tables_stage [OF i5 m5(1)] by metis
  define w7 where "w7 = upd_th (\<lambda>th. th\<lparr>tt_spLimiter := lim, tt_fNeedToExit := False\<rparr>) w6"
  have i7: "init_stage R w7"
    using t(2) by (simp add: w7_def init_stage_def tcp_res_def listed_def pol_ok_def own_fds_def)
  have m7: "fhm.is_map fd_hash (conn_map_at (tw_th w7) t) Map.empty" "tt_pNewConnList (tw_th w7) \<noteq> tt_pOldConnList (tw_th w7)" for t
    using t(4) [of t] t(5) by (cases t; simp add: w7_def conn_map_at_def)+
  note r7 = stage_inv [OF i7 m7]
  show "tcp_res R (snd (init_rest os lim w))"
    unfolding init_rest_def chk_def Let_def case_prod_beta w1_def [symmetric] w2_def [symmetric] w3_def [symmetric] w4_def [symmetric]
      f_def [symmetric] w5_def [symmetric] t(1)
    using res L(1) P(1) i3 i4 i5 i7 by (simp add: w1_def [symmetric] w2_def [symmetric] w3_def [symmetric] w4_def [symmetric] w5_def [symmetric] w7_def [symmetric])
  assume "\<not> FAILED (fst (init_rest os lim w))"
  then have "snd (init_rest os lim w) = w7" "\<not> FAILED (fst (CreatePipes (ti_pipe os) (ti_errno os) w1))"
    unfolding init_rest_def chk_def Let_def case_prod_beta w1_def [symmetric] w2_def [symmetric] w3_def [symmetric] w4_def [symmetric]
      f_def [symmetric] w5_def [symmetric] t(1)
    by (simp_all add: w7_def split: if_splits)
  then show "tcp_ready R (snd (init_rest os lim w))"
    using r7 P(4) m5(2) t(3) by (simp add: tcp_ready_def w7_def w2_def)
qed

lemma Init_outcome:
  assumes idle: "tcp_idle (tw_th w)" and os: "init_calls_ok os" and h: "handler_addresses_ok tsaHandler"
    and r: "TcpThread_Init os tsaListen tsaHandler pAuth maxConnections lim w = (hr, w')"
  shows "if FAILED hr then tcp_at_rest (mset (tw_fds w)) w' else tcp_ready (mset (tw_fds w)) w'"
proof -
  let ?R = "mset (tw_fds w)"
  define ch where "ch = init_checks tsaListen tsaHandler maxConnections w"
  define w1 where "w1 = upd_th (\<lambda>th. th\<lparr>tt_tsaListen := tsaListen, tt_tsa := tsaHandler, tt_spAuth := pAuth\<rparr>) (snd ch)"
  define m where "m = (if maxConnections > 0 then maxConnections else c_MaxNumberOfConnectionsDefault)"
  have m: "snd ch = upd_th (\<lambda>th. th\<lparr>tt_maxConnections := m\<rparr>) w" "0 < m"
    using idle by (simp_all add: ch_def init_checks_def tcp_idle_def Let_def m_def c_MaxNumberOfConnectionsDefault_def)
  have i1: "tcp_res ?R (snd ch)" "tcp_idle (tw_th w1)" "init_stage ?R w1"
    using idle_res [OF idle] idle h
    by (simp_all add: w1_def m tcp_res_def own_fds_def tcp_idle_def init_stage_def listed_def pol_ok_def handler_addresses_ok_def)
  have "TcpThread_Init os tsaListen tsaHandler pAuth maxConnections lim w =
      (let (hr, w) = (if FAILED (fst ch) then ch else init_rest os lim w1) in
       if FAILED hr then (hr, TcpThread_Reset (ti_now os) w) else (hr, w))"
    unfolding TcpThread_Init_def init_rest_def ch_def w1_def chk_def Let_def by (rule refl)
  moreover have "tcp_res ?R (snd (init_rest os lim w1))" "\<not> FAILED (fst (init_rest os lim w1)) \<Longrightarrow> tcp_ready ?R (snd (init_rest os lim w1))"
    if "\<not> FAILED (fst ch)"
    using init_rest_stage [OF i1(3,2) os] m(2) by (simp_all add: w1_def m)
  moreover obtain hr1 v1 hr2 v2 where "ch = (hr1, v1)" "init_rest os lim w1 = (hr2, v2)"
    by (cases ch; cases "init_rest os lim w1") blast
  ultimately show ?thesis
    using r i1(1) Reset_gives_back by (auto simp: tcp_at_rest_def split: if_splits)
qed

section \<open>From \<open>Init\<close> to \<open>Stop\<close>\<close>

lemma Start_inv:
  assumes "tcp_inv R None w"
  shows "tcp_inv R None (snd (TcpThread_Start created w))" "taken (snd (TcpThread_Start created w)) = taken w"
proof -
  have "tcp_inv R None (upd_th (\<lambda>th. th\<lparr>tt_fThreadIsValid := True, tt_timeLastSweep := snd created\<rparr>) (upd_th (\<lambda>th. th\<lparr>tt_fNeedToExit := False\<rparr>) w))"
    by (rule upd_th_inv [OF exit_inv [OF assms]])
      (use assms in \<open>simp_all add: tcp_inv_def thread_ok_tcp_def own_fds_def conn_map_at_def fun_eq_iff split: ConnTable.split\<close>)
  then show "tcp_inv R None (snd (TcpThread_Start created w))"
    using assms exit_inv [OF assms] by (simp add: TcpThread_Start_def Let_def)
  show "taken (snd (TcpThread_Start created w)) = taken w"
    by (simp add: TcpThread_Start_def Let_def taken_def conn_table_def [abs_def] conn_map_at_def [abs_def])
qed

lemma valid_upd: "tcp_inv R None w \<Longrightarrow> tcp_inv R None (upd_th (\<lambda>th. th\<lparr>tt_fThreadIsValid := b\<rparr>) w)"
  by (rule upd_th_inv) (simp_all add: tcp_inv_def thread_ok_tcp_def own_fds_def conn_map_at_def fun_eq_iff split: ConnTable.split)

lemma taken_valid: "taken (upd_th (\<lambda>th. th\<lparr>tt_fThreadIsValid := b\<rparr>) w) = taken w"
  by (simp add: taken_def conn_table_def [abs_def] conn_map_at_def [abs_def])

lemma Stop_gives_back:
  assumes i: "tcp_inv R None w" and t: "\<not> tt_fThreadIsValid (tw_th w) \<Longrightarrow> taken w = {}"
    and a: "list_all accept_fresh turns" and ok: "hmac_ok hmac" "md5_ok md5"
  shows "fst (TcpThread_Stop hmac md5 turns c now w) = S_OK" "tcp_at_rest R (snd (TcpThread_Stop hmac md5 turns c now w))"
proof -
  define w1 where "w1 = snd (Tcp_Run hmac md5 turns w)"
  define w2 where "w2 = (if fst (Tcp_Run hmac md5 turns w) then w1 else ThreadCleanup c (upd_th (\<lambda>th. th\<lparr>tt_fNeedToExit := True\<rparr>) w1))"
  define w3 where "w3 = (if tt_fThreadIsValid (tw_th w) then upd_th (\<lambda>th. th\<lparr>tt_fThreadIsValid := False\<rparr>) w2 else w)"
  have e: "TcpThread_Stop hmac md5 turns c now w = (S_OK, TcpThread_Reset now w3)"
    by (simp add: TcpThread_Stop_def Let_def case_prod_beta w3_def w2_def w1_def)
  have r: "tcp_inv R None w1" "fst (Tcp_Run hmac md5 turns w) \<Longrightarrow> taken w1 = {}"
    using Tcp_Run_inv [OF ok i a] by (simp_all add: w1_def)
  note cl = ThreadCleanup_inv [OF exit_inv [OF r(1), of True], of c]
  have "tcp_inv R None w2" "taken w2 = {}"
    using r cl by (simp_all add: w2_def taken_def)
  then have "tcp_inv R None w3" "taken w3 = {}"
    using i t valid_upd taken_valid by (simp_all add: w3_def)
  then have "tcp_res R w3"
    by (rule inv_res)
  then show "fst (TcpThread_Stop hmac md5 turns c now w) = S_OK" "tcp_at_rest R (snd (TcpThread_Stop hmac md5 turns c now w))"
    using Reset_gives_back by (simp_all add: e tcp_at_rest_def)
qed

text \<open>When no call fails, \<open>Init\<close> succeeds.\<close>

definition init_calls_good :: "TcpInit \<Rightarrow> bool" where
  "init_calls_good os \<longleftrightarrow> (\<forall>r. 0 \<le> sc_socket (ti_sock os r) \<and> sc_setsockopt (ti_sock os r) \<noteq> -1 \<and> sc_bind (ti_sock os r) \<noteq> -1 \<and>
       sc_getfl (ti_sock os r) \<noteq> -1 \<and> sc_setfl (ti_sock os r) \<noteq> -1 \<and> ti_listen os r \<noteq> -1) \<and> ti_pipe os \<noteq> None \<and>
     ti_has_epoll os \<and> ti_epoll_create os \<noteq> -1 \<and> (\<forall>s. pc_ctl_add (ti_poll os) s \<noteq> -1)"

lemma create_listeners_good:
  "init_calls_good os \<Longrightarrow> fst (create_listeners os roles w) = S_OK"
proof (induction roles arbitrary: w)
  case (Cons r roles)
  have g: "\<not> sc_socket (ti_sock os r) < 0" "sc_setsockopt (ti_sock os r) \<noteq> -1" "sc_bind (ti_sock os r) \<noteq> -1"
    "SetNonBlocking (ti_sock os r) = S_OK" "ti_listen os r \<noteq> -1"
    using Cons.prems by (auto simp: init_calls_good_def SetNonBlocking_def not_less)
  then have "fst (TCPInit (ti_sock os r) v a r True) = S_OK" for v a
    by (cases v) (simp add: TCPInit_def InitCommon_def Let_def case_prod_beta)
  then show ?case
    using Cons.IH [OF Cons.prems] g(4,5) by (simp add: case_prod_beta Let_def)
qed simp

definition on_epoll :: "TcpWorld \<Rightarrow> bool" where
  "on_epoll w \<longleftrightarrow> (\<exists>e. tt_spPolling (tw_th w) = Some (Epoll e) \<and> ce_epollfd e \<noteq> -1)"

lemma add_good:
  assumes "on_epoll w" "\<forall>s. pc_ctl_add c s \<noteq> -1" "s \<noteq> -1"
  shows "fst (polling_do (\<lambda>p. Polling_Add c p s fl) w) = S_OK" "on_epoll (snd (polling_do (\<lambda>p. Polling_Add c p s fl) w))"
  using assms by (auto simp: on_epoll_def polling_do_def CEpoll_Add_def case_prod_beta)

lemma listen_good:
  "on_epoll w \<Longrightarrow> \<forall>s. pc_ctl_add c s \<noteq> -1 \<Longrightarrow> fst (listen_on_epoll c True roles w) = S_OK \<and> on_epoll (snd (listen_on_epoll c True roles w))"
proof (induction roles arbitrary: w)
  case (Cons r roles)
  define s where "s = tt_socketTable (tw_th w) r"
  define w1 where "w1 = snd (polling_do (\<lambda>p. Polling_Add c p s EPOLL_LISTEN_SOCKET_EVENT_SET) w)"
  have "s \<noteq> -1 \<Longrightarrow> polling_do (\<lambda>p. Polling_Add c p s EPOLL_LISTEN_SOCKET_EVENT_SET) w = (S_OK, w1) \<and> on_epoll w1"
    using add_good [OF Cons.prems] unfolding w1_def by (metis prod.collapse)
  then show ?case
    using Cons.IH [OF Cons.prems] Cons.IH [OF _ Cons.prems(2), of w1] by (cases "s = -1") (simp_all add: Let_def s_def [symmetric])
qed simp

lemma Init_succeeds:
  assumes idle: "tcp_idle (tw_th w)" and os: "init_calls_ok os" "init_calls_good os" and h: "handler_addresses_ok tsaHandler"
    and n: "n < 100000" and v: "ta_fValid (tsaListen r)" "ta_fValid (tsaHandler r')"
  shows "fst (TcpThread_Init os tsaListen tsaHandler pAuth n lim w) = S_OK"
proof -
  define m where "m = (if n > 0 then n else c_MaxNumberOfConnectionsDefault)"
  have m: "0 < m" "m < 100000"
    using n by (simp_all add: m_def c_MaxNumberOfConnectionsDefault_def)
  have c: "init_checks tsaListen tsaHandler n w = (S_OK, upd_th (\<lambda>th. th\<lparr>tt_maxConnections := m\<rparr>) w)"
  proof -
    have "length (filter (\<lambda>i. ta_fValid (tsaListen i)) all_roles) \<noteq> 0" "length (filter (\<lambda>i. ta_fValid (tsaHandler i)) all_roles) \<noteq> 0"
      using v all_roles_facts(2) by (auto simp: filter_empty_conv)
    then show ?thesis
      using idle m unfolding init_checks_def Let_def m_def [symmetric] tcp_idle_def by (simp del: length_0_conv)
  qed
  define w1 where "w1 = upd_th (\<lambda>th. th\<lparr>tt_tsaListen := tsaListen, tt_tsa := tsaHandler, tt_spAuth := pAuth\<rparr>)
     (upd_th (\<lambda>th. th\<lparr>tt_maxConnections := m\<rparr>) w)"
  have i1: "tcp_idle (tw_th w1)" "init_stage (mset (tw_fds w)) w1" "tt_maxConnections (tw_th w1) = m"
    using idle_res [OF idle] idle h
    by (simp_all add: w1_def tcp_res_def own_fds_def tcp_idle_def init_stage_def listed_def pol_ok_def handler_addresses_ok_def)
  note L = CreateListen_stage [OF i1(2,1) os(1)]
  define w2 where "w2 = snd (CreateListenSockets os w1)"
  have s2: "CreateListenSockets os w1 = (S_OK, w2)"
    using create_listeners_good [OF os(2), of all_roles w1] by (simp add: w2_def CreateListenSockets_def chk_def)
  note P = CreatePipes_stage [OF L(1-3) os(1), of "ti_errno os", folded w2_def]
  define w3 where "w3 = snd (CreatePipes (ti_pipe os) (ti_errno os) w2)"
  have s3: "CreatePipes (ti_pipe os) (ti_errno os) w2 = (S_OK, w3)"
    using os(2) by (auto simp: w3_def CreatePipes_def init_calls_good_def)
  have p3: "tt_pipe0 (tw_th w3) \<noteq> -1" "init_stage (mset (tw_fds w)) w3" "tt_spPolling (tw_th w3) = None" "tt_maxConnections (tw_th w3) = m"
    using P s3 L(4,5) i1(3) by (simp_all add: w2_def)
  note C = create_polling_stage [OF p3(2,3), of os]
  define w4 where "w4 = snd (create_polling os w3)"
  have s4: "create_polling os w3 = (S_OK, w4)" "on_epoll w4"
    using os(2) by (auto simp: w4_def create_polling_def CreatePollingInstance_def CEpoll_Initialize_def CEpoll_Close_def CEpoll_new_def
        init_calls_good_def on_epoll_def case_prod_beta Let_def polling_consts)
  have ad: "\<forall>s. pc_ctl_add (ti_poll os) s \<noteq> -1"
    using os(2) by (simp add: init_calls_good_def)
  define w5 where "w5 = snd (SetListenSocketsOnEpoll (ti_poll os) True w4)"
  have s5: "SetListenSocketsOnEpoll (ti_poll os) True w4 = (S_OK, w5)" "on_epoll w5"
    using listen_good [OF s4(2) ad, of all_roles] s4(2) by (auto simp: w5_def SetListenSocketsOnEpoll_def case_prod_beta Let_def on_epoll_def)
  have p5: "tt_pipe0 (tw_th w5) \<noteq> -1" "init_stage (mset (tw_fds w)) w5" "tt_maxConnections (tw_th w5) = m"
    using SetListen_stage [OF C(1)] C(2,3) p3(1,4) by (simp_all add: w5_def w4_def SetListen_th)
  define f where "f = (\<lambda>p. Polling_Add (ti_poll os) p (tt_pipe0 (tw_th w5)) EPOLL_PIPE_EVENT_SET)"
  define w6 where "w6 = snd (polling_do f w5)"
  have s6: "polling_do f w5 = (S_OK, w6)"
    using add_good(1) [OF s5(2) ad p5(1)] unfolding w6_def f_def by (metis prod.collapse)
  have "init_stage (mset (tw_fds w)) w6"
    unfolding w6_def f_def by (rule polling_do_stage [OF p5(2)]) (auto intro: touches_polling)
  moreover have "0 < tt_maxConnections (tw_th w6)"
    using p5(3) m(1) by (simp add: w6_def polling_do_th)
  ultimately obtain w7 where s7: "init_tables w6 = (S_OK, w7)"
    using init_tables_stage by metis
  have "fst (init_rest os lim w1) = S_OK"
    unfolding init_rest_def s2 by (simp add: s3 s4 s5 f_def [symmetric] s6 s7)
  moreover have "fst (TcpThread_Init os tsaListen tsaHandler pAuth n lim w) = (let (hr, w) = init_rest os lim w1 in
       fst (if FAILED hr then (hr, TcpThread_Reset (ti_now os) w) else (hr, w)))"
    unfolding TcpThread_Init_def c w1_def init_rest_def by (simp add: case_prod_beta)
  ultimately show ?thesis
    by (simp add: case_prod_beta)
qed

text \<open>The thread of the TCP server gives everything back. When \<open>Init\<close> fails, the open descriptors are
  those from before and the thread is as new; when it succeeds, the same holds after \<open>Start\<close> (whether the
  thread could be created or not), whatever the clients do in any number of turns, and \<open>Stop\<close>.\<close>

theorem tcp_thread_gives_back:
  assumes "tcp_idle (tw_th w)" "init_calls_ok os" "handler_addresses_ok tsaHandler" "hmac_ok hmac" "md5_ok md5"
    and "list_all accept_fresh turns" "TcpThread_Init os tsaListen tsaHandler pAuth n lim w = (hr, w1)"
  shows "if FAILED hr then tcp_at_rest (mset (tw_fds w)) w1
    else tcp_at_rest (mset (tw_fds w)) (snd (TcpThread_Stop hmac md5 turns c now (snd (TcpThread_Start created w1))))"
  using Init_outcome [OF assms(1-3,7)] Stop_gives_back(2) [OF Start_inv(1) _ assms(6,4,5)] Start_inv(2)
  by (simp add: tcp_ready_def split: if_splits)

definition example_init :: TcpInit where
  "example_init = \<lparr>ti_sock = (\<lambda>_. \<lparr>sc_socket = 3, sc_setsockopt = 0, sc_bind = 0, sc_getsockname = None,
     sc_getpeername = None, sc_pktinfo1 = 0, sc_pktinfo2 = 0, sc_getfl = 0, sc_setfl = 0, sc_errno = 0\<rparr>), ti_listen = (\<lambda>_. 0),
     ti_pipe = Some (4, 5), ti_has_epoll = True, ti_epoll_create = 6, ti_mem = (\<lambda>_. (0, 0)),
     ti_poll = \<lparr>pc_ctl_add = (\<lambda>_. 0), pc_ctl_mod = (\<lambda>_. 0), pc_ctl_del = (\<lambda>_. 0), pc_epoll_wait = Some [(3, 1)],
       pc_poll = (1, \<lambda>_. 1), pc_errno = 0\<rparr>, ti_errno = 0, ti_now = 0\<rparr>"

definition example_tsa :: TransportAddressSet where
  "example_tsa r = \<lparr>ta_addr = CSocketAddress_ipv4 0x0A000001 3478, ta_fValid = (r = RolePP)\<rparr>"

definition example_tcp_world :: TcpWorld where
  "example_tcp_world = \<lparr>tw_fds = [0, 1, 2], tw_limiter = RateLimiter_init 1 False, tw_sent = [], tw_th = CTCPStunThread_new 0\<rparr>"

text \<open>A client connects and closes the connection.\<close>

definition example_tcp_turn :: TcpTurn where
  "example_tcp_turn = \<lparr>tr_poll = ti_poll example_init, tr_exit = False,
     tr_accept = (\<lambda>fds. if 7 \<in> set fds then None else Some (7, CSocketAddress_ipv4 0x0A000002 5000)),
     tr_sock = ti_sock example_init RolePP,
     tr_junk = \<lparr>co_timeStart = 0, co_state = ConnectionState_Idle, co_stunsocket = CStunSocket_new, co_reader = MR_init,
       co_spReaderBuffer = CB_new 0, co_spOutputBuffer = CB_new 0, co_txCount = 9, co_idHashTable = None, co_pNext = None\<rparr>,
     tr_now = 0, tr_recv = [RecvEnd], tr_send = [], tr_sweep = (0, 0)\<rparr>"

lemma example_tcp_ok: "init_calls_ok example_init" "handler_addresses_ok example_tsa" "accept_fresh example_tcp_turn"
  by (auto simp: init_calls_ok_def example_init_def handler_addresses_ok_def example_tsa_def accept_fresh_def example_tcp_turn_def names_fine_def)


lemma example_tcp_world_ok: "tcp_idle (tw_th example_tcp_world)" "mset (tw_fds example_tcp_world) = {#0, 1, 2#}"
  using new_idle by (simp_all add: example_tcp_world_def)

lemma example_init_good: "fst (TcpThread_Init example_init example_tsa example_tsa None 2 False example_tcp_world) = S_OK"
  by (rule Init_succeeds [OF example_tcp_world_ok(1) example_tcp_ok(1) _ example_tcp_ok(2), where r = RolePP and r' = RolePP])
    (simp_all add: init_calls_good_def example_init_def example_tsa_def)

theorem tcp_thread_gives_back_witness:
  "\<exists>w1. TcpThread_Init example_init example_tsa example_tsa None 2 False example_tcp_world = (S_OK, w1) \<and>
    tcp_at_rest {#0, 1, 2#} (snd (TcpThread_Stop example_hmac example_md5 [example_tcp_turn] (ti_poll example_init) 0 (snd (TcpThread_Start (0, 0) w1))))"
proof -
  obtain w1 where i: "TcpThread_Init example_init example_tsa example_tsa None 2 False example_tcp_world = (S_OK, w1)"
    using example_init_good by (metis prod.collapse)
  show ?thesis
    using i tcp_thread_gives_back [OF example_tcp_world_ok(1) example_tcp_ok(1,2) example_hash_ok, of "[example_tcp_turn]" example_tsa None 2 False S_OK w1]
      example_tcp_ok(3) by (simp add: example_tcp_world_ok(2))
qed

text \<open>
  What holds of the connections between two turns of the loop, and of the open descriptors: those of
  before, the thread's own, and one for each connection.
\<close>

definition connections_settled :: "TcpWorld \<Rightarrow> bool" where
  "connections_settled w \<longleftrightarrow> (\<forall>t s p. conn_table w t s = Some p \<longrightarrow> conn_sock p w = s \<and> s \<noteq> -1 \<and>
     po_heap (tt_connectionpool (tw_th w)) p \<noteq> None \<and>
     (\<forall>t' s'. conn_table w t' s' = Some p \<longrightarrow> t' = t \<and> s' = s) \<and> (\<forall>t' p'. conn_table w t' s = Some p' \<longrightarrow> t' = t \<and> p' = p) \<and>
     (reading (get_conn p w) \<or> writing (get_conn p w)) \<and> watch_ok w p)"

lemma inv_settled:
  assumes i: "tcp_inv R None w"
  shows "connections_settled w"
  unfolding connections_settled_def
proof (intro allI impI)
  fix t s p
  assume a: "conn_table w t s = Some p"
  have p: "p \<in> owned w"
    using table_conn [OF a] .
  have sk: "s' = conn_sock p w \<and> s' \<noteq> -1 \<and> co_idHashTable (get_conn p w) = Some t'" if "conn_table w t' s' = Some p" for t' s'
    using that i by (cases t') (auto simp: tcp_inv_def table_ok_def)
  have one: "t' = t" if "conn_table w t' s = Some p'" for t' p'
    using that a i by (cases t; cases t') (auto simp: tcp_inv_def disjoint_iff)
  have h: "p \<in> dom (po_heap (tt_connectionpool (tw_th w)))"
    using i p by (auto simp: tcp_inv_def pool_split_def)
  show "conn_sock p w = s \<and> s \<noteq> -1 \<and> po_heap (tt_connectionpool (tw_th w)) p \<noteq> None \<and>
     (\<forall>t' s'. conn_table w t' s' = Some p \<longrightarrow> t' = t \<and> s' = s) \<and> (\<forall>t' p'. conn_table w t' s = Some p' \<longrightarrow> t' = t \<and> p' = p) \<and>
     (reading (get_conn p w) \<or> writing (get_conn p w)) \<and> watch_ok w p"
  proof -
    have k: "conn_sock p w = s" "s \<noteq> -1" "co_idHashTable (get_conn p w) = Some t"
      using sk [OF a] by simp_all
    have "\<forall>t' s'. conn_table w t' s' = Some p \<longrightarrow> t' = t \<and> s' = s"
      using sk k by (metis option.inject)
    moreover have "\<forall>t' p'. conn_table w t' s = Some p' \<longrightarrow> t' = t \<and> p' = p"
      using one a by (metis option.inject)
    moreover have "po_heap (tt_connectionpool (tw_th w)) p \<noteq> None"
      using h by blast
    ultimately show ?thesis
      using k(1,2) take_up(2,3) [OF i p] by blast
  qed
qed

text \<open>C21: from a successful \<open>Init\<close> on, after any turns of the loop, every connection is in exactly one table
  under the descriptor of its socket and no two share one; it is reading an incomplete message or has part
  of a response to send; and an \<open>epoll\<close> object watches it for just the events that it waits for.  Each open
  descriptor is one of before, the thread's own, or that of a connection.\<close>

theorem tcp_connections_settled:
  assumes "tcp_idle (tw_th w)" "init_calls_ok os" "handler_addresses_ok tsaHandler" "hmac_ok hmac" "md5_ok md5"
    and "list_all accept_fresh turns" "TcpThread_Init os tsaListen tsaHandler pAuth n lim w = (hr, w1)" "\<not> FAILED hr"
  shows "let w2 = snd (Tcp_Run hmac md5 turns (snd (TcpThread_Start created w1))) in
    connections_settled w2 \<and> mset (tw_fds w2) = mset (tw_fds w) + mset (own_fds (tw_th w2)) + mset_set (taken w2)"
proof -
  define w2 where "w2 = snd (Tcp_Run hmac md5 turns (snd (TcpThread_Start created w1)))"
  have "tcp_inv (mset (tw_fds w)) None w1"
    using Init_outcome [OF assms(1-3,7)] assms(8) by (simp add: tcp_ready_def)
  then have i: "tcp_inv (mset (tw_fds w)) None w2"
    using Tcp_Run_inv [OF assms(4,5) Start_inv(1) assms(6)] by (simp add: w2_def)
  then show ?thesis
    using inv_settled [OF i] by (simp add: tcp_inv_def fds_split_def w2_def [symmetric] Let_def)
qed

theorem tcp_connections_settled_witness:
  "\<exists>w1. TcpThread_Init example_init example_tsa example_tsa None 2 False example_tcp_world = (S_OK, w1) \<and>
    connections_settled (snd (Tcp_Run example_hmac example_md5 [example_tcp_turn] (snd (TcpThread_Start (0, 0) w1))))"
proof -
  obtain w1 where i: "TcpThread_Init example_init example_tsa example_tsa None 2 False example_tcp_world = (S_OK, w1)"
    using example_init_good by (metis prod.collapse)
  show ?thesis
    using i tcp_connections_settled [OF example_tcp_world_ok(1) example_tcp_ok(1,2) example_hash_ok, of "[example_tcp_turn]" example_tsa None 2 False S_OK w1]
      example_tcp_ok(3) by (simp add: Let_def)
qed

end
