(* ===== verification/StunTcpReply.thy ===== *)
theory StunTcpReply imports StunTcpLife begin

text \<open>
  A request that comes in over a connection, in whatever pieces, is answered with the reply of the
  request handler's specification, in full, and the connection is then ready for the next request.
\<close>

section \<open>Reading a message\<close>

lemma message_prefix:
  assumes v: "spec_state True (bs @ rest) = BodyValidated" and r: "rest \<noteq> []"
  shows "spec_state True bs = (if length bs < 20 then HeaderNotRead else HeaderValidated)"
    "20 \<le> length bs \<Longrightarrow> unat (msg_len bs) + 20 = length (bs @ rest)" "20 \<le> length (bs @ rest)"
    "length (bs @ rest) \<le> 820"
proof -
  have c: "20 \<le> length (bs @ rest)" "header_ok True (bs @ rest)" "length (bs @ rest) = unat (msg_len (bs @ rest)) + 20"
    using v by (auto simp: spec_state_def stun_consts split: if_splits)
  then show "20 \<le> length (bs @ rest)" "length (bs @ rest) \<le> 820"
    by (simp_all add: header_ok_def stun_consts)
  show "20 \<le> length bs \<Longrightarrow> unat (msg_len bs) + 20 = length (bs @ rest)"
    using c(3) header_prefix(2) [of bs rest] by simp
  then show "spec_state True bs = (if length bs < 20 then HeaderNotRead else HeaderValidated)"
    using c(2) header_prefix(5) [of bs True rest] r by (auto simp: spec_state_def stun_consts)
qed

lemma small_word: "n < 65536 \<Longrightarrow> unat (word_of_nat n :: u16) = n"
  by (simp add: unat_of_nat take_bit_nat_eq_self)

lemma bytes_needed:
  assumes r: "has_read bs c" and v: "spec_state True (bs @ rest) = BodyValidated" and ne: "rest \<noteq> []"
  shows "unat (MR_HowManyBytesNeeded (co_reader c)) = (if length bs < 20 then 20 - length bs else length rest)"
proof -
  note p = message_prefix [OF v ne]
  have ok: "reader_ok True bs (co_reader c)"
    using r by (simp add: has_read_def)
  have st: "mr_state (co_reader c) = spec_state True bs"
    by (rule reader_ok_state [OF ok])
  have sz: "DS_GetSize (mr_stream (co_reader c)) = length bs"
    using ok p(1) st by (auto simp: reader_ok_def body_at_def DS_GetSize_def stream_ok_def ds_contents_def split: if_splits option.splits)
  show ?thesis
  proof (cases "length bs < 20")
    case True
    then have "MR_HowManyBytesNeeded (co_reader c) = word_of_nat (20 - length bs)"
      using st p(1) sz by (simp add: MR_HowManyBytesNeeded_def stun_consts of_nat_diff)
    moreover have "unat (word_of_nat (20 - length bs) :: u16) = 20 - length bs"
      by (rule small_word) simp
    ultimately show ?thesis
      using True by simp
  next
    case False
    have l: "mr_msgLength (co_reader c) = msg_len bs"
      using ok st p(1) False by (simp add: reader_ok_def header_fields_def)
    have u: "uint (msg_len bs) + 20 - int (length bs) = int (length rest)"
    proof -
      have "unat (msg_len bs) + 20 = length bs + length rest"
        using p(2) False by simp
      then have "int (unat (msg_len bs) + 20) = int (length bs + length rest)"
        by (rule arg_cong)
      then show ?thesis
        by simp
    qed
    have "MR_HowManyBytesNeeded (co_reader c) = word_of_int (uint (msg_len bs) + 20 - int (length bs))"
      using st p(1) sz l False unfolding MR_HowManyBytesNeeded_def by (simp add: STUN_HEADER_SIZE_def)
    then have "MR_HowManyBytesNeeded (co_reader c) = word_of_nat (length rest)"
      unfolding u by (simp only: of_int_of_nat_eq)
    moreover have "unat (word_of_nat (length rest) :: u16) = length rest"
      by (rule small_word) (use p(4) in simp)
    ultimately show ?thesis
      using False by simp
  qed
qed

text \<open>The bytes have been read into the reader; nothing else has changed.\<close>

definition read_into :: "bytes \<Rightarrow> nat \<Rightarrow> TcpWorld \<Rightarrow> TcpWorld \<Rightarrow> bool" where
  "read_into c p w w' \<longleftrightarrow> has_read c (get_conn p w') \<and> (\<exists>r b. get_conn p w' = (get_conn p w)\<lparr>co_reader := r, co_spReaderBuffer := b\<rparr>) \<and>
     conn_table w' = conn_table w \<and> tw_sent w' = tw_sent w \<and> tw_limiter w' = tw_limiter w \<and>
     (\<exists>pl. tw_th w' = (tw_th w)\<lparr>tt_connectionpool := pl\<rparr>)"

lemma read_into_step:
  assumes "has_read bs (reader_fed d (get_conn p w))"
  shows "read_into bs p w (upd_conn p (reader_fed d) w)"
  unfolding read_into_def
proof (intro conjI)
  show "\<exists>r b. get_conn p (upd_conn p (reader_fed d) w) = (get_conn p w)\<lparr>co_reader := r, co_spReaderBuffer := b\<rparr>"
    by (simp add: get_conn_upd reader_fed_def Let_def) blast
  show "\<exists>pl. tw_th (upd_conn p (reader_fed d) w) = (tw_th w)\<lparr>tt_connectionpool := pl\<rparr>"
    by (simp add: upd_conn_def) blast
  show "has_read bs (get_conn p (upd_conn p (reader_fed d) w))"
    using assms by (simp add: get_conn_upd)
  show "tw_sent (upd_conn p (reader_fed d) w) = tw_sent w" "tw_limiter (upd_conn p (reader_fed d) w) = tw_limiter w"
    by (simp_all add: upd_conn_def)
qed simp

lemma read_into_trans: "read_into bs p w w1 \<Longrightarrow> read_into c p w1 w2 \<Longrightarrow> read_into c p w w2"
  unfolding read_into_def by (elim conjE exE) (intro conjI exI, assumption, simp, simp_all)

lemma Receive_message:
  "tcp_inv R (Some p) w \<Longrightarrow> has_read bs (get_conn p w) \<Longrightarrow> spec_state True (bs @ rest) = BodyValidated \<Longrightarrow> rest \<noteq> [] \<Longrightarrow>
    concat chunks = rest @ extra \<Longrightarrow> [] \<notin> set chunks \<Longrightarrow>
    \<exists>w'. ReceiveBytesForConnection hmac md5 tr p (map RecvData chunks) w = request_received hmac md5 tr p w' \<and>
      read_into (bs @ rest) p w w' \<and> tcp_inv R (Some p) w'"
proof (induction "sum_list (map Suc (map length chunks))" arbitrary: chunks bs rest w rule: less_induct)
  case less
  note i = less.prems(1) and r = less.prems(2) and v = less.prems(3)
  note need = bytes_needed [OF r v less.prems(4)] and pre = message_prefix [OF v less.prems(4)]
  define n where "n = unat (MR_HowManyBytesNeeded (co_reader (get_conn p w)))"
  obtain d ds where ch: "chunks = d # ds" "d \<noteq> []"
    using less.prems(4-6) by (cases chunks) auto
  have n: "0 < n" "n \<le> length rest"
    using need less.prems(4) pre(3) by (auto simp: n_def)
  define w1 where "w1 = upd_conn p (reader_fed (take n d)) w"
  define more where "more = (if drop n d = [] then ds else drop n d # ds)"
  define bs' where "bs' = bs @ take n d"
  define rest' where "rest' = drop (length (take n d)) rest"
  have pfx: "rest = take n d @ rest'"
  proof -
    have e: "take n d @ drop n d @ concat ds = rest @ extra"
      using less.prems(5) ch by (simp flip: append_assoc)
    have "length (take n d) \<le> length rest"
      using n by simp
    moreover have "take (length (take n d)) (take n d @ drop n d @ concat ds) = take n d"
      by (metis append_eq_conv_conj)
    ultimately have "take (length (take n d)) rest = take n d"
      unfolding e by simp
    then show ?thesis
      unfolding rest'_def by (metis append_take_drop_id)
  qed
  have con: "concat more = rest' @ extra"
    using less.prems(5) ch pfx by (auto simp: more_def) (metis append.assoc append_take_drop_id same_append_eq)+
  have st: "MR_GetState (co_reader (get_conn p w)) \<noteq> ParseError"
    using r pre(1) reader_ok_state by (fastforce simp: has_read_def MR_GetState_def split: if_splits)
  note fed = reader_fed_ok [OF cur_conn(1) [OF i] r st, of "take n d"]
  have i1: "tcp_inv R (Some p) w1"
    unfolding w1_def by (rule upd_conn_inv [OF i]) (use fed in simp_all)
  have g1: "get_conn p w1 = reader_fed (take n d) (get_conn p w)"
    by (simp add: w1_def get_conn_upd)
  have ri: "read_into bs' p w w1"
    unfolding w1_def bs'_def by (rule read_into_step [OF fed(2)])
  have state: "MR_GetState (co_reader (get_conn p w1)) = spec_state True bs'"
    using fed(3) by (simp add: g1 bs'_def)
  have e: "ReceiveBytesForConnection hmac md5 tr p (map RecvData chunks) w =
      (if spec_state True bs' = ParseError then (E_FAIL, CloseConnection (tr_poll tr) p w1)
       else if spec_state True bs' = BodyValidated then request_received hmac md5 tr p w1
       else ReceiveBytesForConnection hmac md5 tr p (map RecvData more) w1)"
    unfolding ReceiveBytesForConnection.simps [of hmac md5 tr p "map RecvData chunks" w] n_def [symmetric]
    using n(1) ch by (simp add: Let_def w1_def [symmetric] state more_def)
  have whole: "bs @ rest = bs' @ rest'"
    using pfx by (simp add: bs'_def)
  show ?case
  proof (cases "rest' = []")
    case True
    then show ?thesis
      using e v whole ri i1 by auto
  next
    case False
    have v': "spec_state True (bs' @ rest') = BodyValidated"
      using v whole by simp
    have "spec_state True bs' \<noteq> ParseError" "spec_state True bs' \<noteq> BodyValidated"
      using message_prefix(1) [OF v' False] by simp_all
    moreover have "has_read bs' (get_conn p w1)"
      using ri by (simp add: read_into_def)
    moreover have "sum_list (map Suc (map length more)) < sum_list (map Suc (map length chunks))"
      using ch n(1) length_drop [of n d] by (cases "drop n d") (auto simp: more_def)
    moreover have "[] \<notin> set more"
      using less.prems(6) ch by (simp add: more_def)
    ultimately obtain w' where "ReceiveBytesForConnection hmac md5 tr p (map RecvData more) w1 = request_received hmac md5 tr p w'"
      "read_into (bs' @ rest') p w1 w'" "tcp_inv R (Some p) w'"
      using less.hyps [OF _ i1 _ v' False con] by blast
    then show ?thesis
      using e \<open>spec_state True bs' \<noteq> ParseError\<close> \<open>spec_state True bs' \<noteq> BodyValidated\<close> read_into_trans [OF ri] whole by auto
  qed
qed

section \<open>Sending a response\<close>

lemma upd_conn_other [simp]: "tw_sent (upd_conn p f w) = tw_sent w" "tw_limiter (upd_conn p f w) = tw_limiter w"
  "on_epoll (upd_conn p f w) = on_epoll w"
  by (simp_all add: upd_conn_def on_epoll_def)

lemma change_good:
  assumes "on_epoll w" "pc_ctl_mod c s \<noteq> -1" "s \<noteq> -1"
  shows "fst (polling_do (\<lambda>p. Polling_ChangeEventSet c p s fl) w) = S_OK"
    "on_epoll (snd (polling_do (\<lambda>p. Polling_ChangeEventSet c p s fl) w))"
  using assms by (auto simp: on_epoll_def polling_do_def CEpoll_ChangeEventSet_def case_prod_beta)

lemma send_done_reads:
  assumes i: "tcp_inv R (Some p) w"
  shows "has_read [] (get_conn p (send_done p w))" "tw_sent (send_done p w) = tw_sent w" "conn_table (send_done p w) = conn_table w"
    "on_epoll (send_done p w) = on_epoll w"
proof -
  have "conn_buffers ((get_conn p w)\<lparr>co_state := ConnectionState_Receiving\<rparr>)"
    using cur_conn(1) [OF i] by (simp add: conn_buffers_def)
  then show "has_read [] (get_conn p (send_done p w))"
    using prepare_reader_ok(2) by (simp add: send_done_def get_conn_upd has_read_def)
qed (simp_all add: send_done_def)

text \<open>
  The socket takes pieces of any size and then blocks: what it has taken is the first part of what was left
  to send, and the rest waits, with the connection still in the state to send.
\<close>

definition sent_to :: "int \<Rightarrow> bytes list \<Rightarrow> bytes \<Rightarrow> nat \<Rightarrow> TcpWorld \<Rightarrow> TcpWorld \<Rightarrow> bool" where
  "sent_to s pieces unsent p w w' \<longleftrightarrow> tw_sent w' = tw_sent w @ map (Pair s) pieces \<and> conn_table w' = conn_table w \<and> on_epoll w' \<and>
     (if unsent = [] then reading (get_conn p w') \<and> has_read [] (get_conn p w')
      else writing (get_conn p w') \<and> left_to_send (get_conn p w') = unsent)"

lemma Write_part:
  "tcp_inv R None w \<Longrightarrow> p \<in> owned w \<Longrightarrow> writing (get_conn p w) \<Longrightarrow> on_epoll w \<Longrightarrow> pc_ctl_mod c (conn_sock p w) \<noteq> -1 \<Longrightarrow>
    0 \<notin> set ns \<Longrightarrow>
    \<exists>pieces unsent w'. WriteBytesForConnection c p (map Sent ns @ [SendBlocks]) w = (S_OK, w') \<and>
      left_to_send (get_conn p w) = concat pieces @ unsent \<and> (unsent \<noteq> [] \<longrightarrow> length (concat pieces) = sum_list ns) \<and>
      sent_to (conn_sock p w) pieces unsent p w w'"
proof (induction ns arbitrary: w)
  case Nil
  have "length (cb_contents (co_spOutputBuffer (get_conn p w))) = cb_size (co_spOutputBuffer (get_conn p w))"
    using cur_conn(1) [OF take_up(1) [OF Nil.prems(1,2)]] by (simp add: conn_buffers_def roomy_def)
  then have "left_to_send (get_conn p w) \<noteq> []"
    using Nil.prems(3) by (simp add: left_to_send_def writing_def)
  then show ?case
    using Nil.prems(3,4) by (intro exI [of _ "[]"] exI [of _ "left_to_send (get_conn p w)"] exI [of _ w]) (simp add: sent_to_def)
next
  case (Cons n ns)
  note up = take_up [OF Cons.prems(1,2)]
  define conn where "conn = get_conn p w"
  define s where "s = sk_sock (co_stunsocket conn)"
  define sent where "sent = min n (cb_size (co_spOutputBuffer conn) - co_txCount conn)"
  define piece where "piece = take sent (left_to_send conn)"
  have len: "length (cb_contents (co_spOutputBuffer conn)) = cb_size (co_spOutputBuffer conn)"
    using cur_conn(1) [OF up(1)] by (simp add: conn_def conn_buffers_def roomy_def)
  have pos: "sent \<noteq> 0" "sent \<le> n"
    using Cons.prems(3,6) by (auto simp: sent_def conn_def writing_def)
  define w2 where "w2 = send_some p sent w"
  note S = send_some_inv [OF up(1), of sent, folded w2_def conn_def]
  have S': "tw_sent w2 = tw_sent w @ [(s, piece)]" "conn_table w2 = conn_table w" "on_epoll w2"
    using Cons.prems(4) by (simp_all add: w2_def send_some_def conn_def s_def piece_def on_epoll_def)
  have left2: "left_to_send (get_conn p w2) = drop sent (left_to_send conn)"
    by (simp add: S(3) left_to_send_def add.commute)
  have whole: "left_to_send conn = piece @ left_to_send (get_conn p w2)"
    by (simp add: left2 piece_def)
  define w3 where "w3 = send_done p w2"
  note D = send_done_inv [OF S(1), folded w3_def] send_done_reads [OF S(1), folded w3_def]
  have sk: "s \<noteq> -1" "pc_ctl_mod c s \<noteq> -1"
    using cur_conn(3) [OF up(1)] Cons.prems(5) by (simp_all add: s_def conn_def)
  have ep: "on_epoll w3"
    using S'(3) D(8) by simp
  note ch = change_good [OF ep sk(2,1), of EPOLL_CLIENT_READ_EVENT_SET]
  obtain w4 where r: "polling_do (\<lambda>q. Polling_ChangeEventSet c q s EPOLL_CLIENT_READ_EVENT_SET) w3 = (S_OK, w4)"
    using ch(1) by (metis prod.collapse)
  have w4: "w4 = snd (polling_do (\<lambda>q. Polling_ChangeEventSet c q s EPOLL_CLIENT_READ_EVENT_SET) w3)"
    by (simp add: r)
  have e: "WriteBytesForConnection c p (map Sent (n # ns) @ [SendBlocks]) w =
      (if cb_size (co_spOutputBuffer conn) \<le> co_txCount conn + sent then (S_OK, w4)
       else WriteBytesForConnection c p (map Sent ns @ [SendBlocks]) w2)"
    using pos(1) r unfolding list.map append_Cons Write_step Let_def conn_def [symmetric] sent_def [symmetric] w2_def [symmetric] w3_def [symmetric] s_def [symmetric]
    by simp
  show ?case
  proof (cases "cb_size (co_spOutputBuffer conn) \<le> co_txCount conn + sent")
    case True
    then have "left_to_send (get_conn p w2) = []"
      by (simp add: left_to_send_def S(3) len)
    then have "concat [piece] = left_to_send conn"
      using whole by simp
    moreover have "tw_sent w4 = tw_sent w @ map (Pair s) [piece]" "conn_table w4 = conn_table w" "get_conn p w4 = get_conn p w3" "on_epoll w4"
      using D(6,7) S'(1,2) ch(2) by (simp_all add: w4 polling_do_frame polling_do_fields)
    ultimately show ?thesis
      unfolding e conn_def [symmetric] s_def [symmetric] using True D(3,5)
      by (intro exI [of _ "[piece]"] exI [of _ "[]"] exI [of _ w4]) (simp add: sent_to_def)
  next
    case False
    have wr: "writing (get_conn p w2)"
      using Cons.prems(3) False by (simp add: writing_def S(3) conn_def)
    then have i2: "tcp_inv R None w2" "p \<in> owned w2"
      using put_down [OF S(1)] S(2,4) up(3) Cons.prems(2) by simp_all
    have "sent = n"
      using False by (auto simp: sent_def)
    moreover have "length piece = sent"
      using False len by (simp add: piece_def left_to_send_def)
    ultimately have n: "length piece = n"
      by simp
    have "conn_sock p w2 = s"
      by (simp add: S(3) s_def)
    then obtain pieces unsent w' where ih: "WriteBytesForConnection c p (map Sent ns @ [SendBlocks]) w2 = (S_OK, w')"
      "left_to_send (get_conn p w2) = concat pieces @ unsent" "unsent \<noteq> [] \<longrightarrow> length (concat pieces) = sum_list ns"
      "sent_to s pieces unsent p w2 w'"
      using Cons.IH [OF i2 wr S'(3)] sk(2) Cons.prems(6) by auto
    have "sent_to s (piece # pieces) unsent p w w'"
      using ih(4) S'(1,2) by (simp add: sent_to_def)
    then show ?thesis
      unfolding e conn_def [symmetric] s_def [symmetric] using False ih(1-3) whole n
      by (intro exI [of _ "piece # pieces"] exI [of _ unsent] exI [of _ w']) simp
  qed
qed

section \<open>A request is answered\<close>

text \<open>The request \<open>d\<close> as it reaches the handler over the connection of this socket.\<close>

definition tcp_request_in :: "CStunSocket \<Rightarrow> bytes \<Rightarrow> StunMessageIn" where
  "tcp_request_in s d = \<lparr>mi_socketrole = sk_role s, mi_addrLocal = sk_addrlocal s, mi_addrRemote = sk_addrremote s,
     mi_pReader = Some (feed MR_init [d]), mi_fConnectionOriented = True\<rparr>"

lemma conn_reply_request:
  assumes c: "conn_buffers conn" "conn_addrs conn" "has_read d conn" "spec_state True d = BodyValidated" "thread_ok_tcp th"
    and cl: "class_of (msg_type d) = StunMsgClassRequest" and ok: "hmac_ok hmac" "md5_ok md5"
  obtains out where "conn_reply hmac md5 th conn = (S_OK, out)"
    "sends_reply hmac (tcp_request_in (co_stunsocket conn) d)
       (reply_spec hmac md5 (tcp_request_in (co_stunsocket conn) d) (tt_tsa th) (tt_spAuth th)) out"
proof -
  note call = conn_call_ok [OF c]
  have p: "parsed (co_reader conn) d"
    using call by (auto simp: call_ok_def conn_in_def)
  note q = feed_single_parsed [OF c(4)]
  have "MR_GetMessageClass (the (mi_pReader (conn_in conn))) = StunMsgClassRequest"
    using parsed_twins(8) [OF p q(1)] q(2) cl by (simp add: conn_in_def)
  from ProcessRequest_request [OF call this] obtain out where out: "conn_reply hmac md5 th conn = (S_OK, out)"
    "out = answer hmac md5 (authorized hmac md5 (request_checked (conn_in conn) (conn_out conn) (tt_tsa th) (tt_spAuth th)))"
    by (simp add: conn_reply_def)
  have "sends_reply hmac (conn_in conn) (reply_spec hmac md5 (conn_in conn) (tt_tsa th) (tt_spAuth th)) out"
    using reply_sent [OF call ok] out(2) by blast
  moreover have "conn_in conn = (tcp_request_in (co_stunsocket conn) d)\<lparr>mi_pReader := Some (co_reader conn)\<rparr>"
    "(tcp_request_in (co_stunsocket conn) d)\<lparr>mi_pReader := Some (feed MR_init [d])\<rparr> = tcp_request_in (co_stunsocket conn) d"
    by (simp_all add: conn_in_def tcp_request_in_def)
  ultimately have "sends_reply hmac (tcp_request_in (co_stunsocket conn) d)
       (reply_spec hmac md5 (tcp_request_in (co_stunsocket conn) d) (tt_tsa th) (tt_spAuth th)) out"
    using sends_reply_twins [OF p q(1)] reply_spec_twins(1) [OF p q(1)] by metis
  with that out(1) show thesis
    by blast
qed

lemma sends_reply_message: "sends_reply hmac msgIn rp out \<Longrightarrow> \<exists>m. holds_message out m"
  by (auto simp: sends_reply_def Let_def split: reply.splits)

lemma request_received_answers:
  assumes i: "tcp_inv R (Some p) w" and p: "p \<in> owned w" and r: "has_read d (get_conn p w)" "spec_state True d = BodyValidated"
    "class_of (msg_type d) = StunMsgClassRequest" "co_txCount (get_conn p w) = 0" and ok: "hmac_ok hmac" "md5_ok md5"
    and lim: "Tcp_RateCheck (tr_now tr) (sk_addrremote (co_stunsocket (get_conn p w))) w = (True, w\<lparr>tw_limiter := l\<rparr>)"
    and ep: "on_epoll w" "pc_ctl_mod (tr_poll tr) (conn_sock p w) \<noteq> -1"
    and snd: "tr_send tr = map Sent ns @ [SendBlocks]" "0 \<notin> set ns"
  shows "\<exists>out pieces unsent w'. request_received hmac md5 tr p w = (S_OK, w') \<and>
    sends_reply hmac (tcp_request_in (co_stunsocket (get_conn p w)) d)
      (reply_spec hmac md5 (tcp_request_in (co_stunsocket (get_conn p w)) d) (tt_tsa (tw_th w)) (tt_spAuth (tw_th w))) out \<and>
    holds_message out (concat pieces @ unsent) \<and> length (concat pieces @ unsent) \<le> 200 \<and>
    (unsent \<noteq> [] \<longrightarrow> length (concat pieces) = sum_list ns) \<and> sent_to (conn_sock p w) pieces unsent p w w'"
proof -
  define conn where "conn = get_conn p w"
  define s where "s = sk_sock (co_stunsocket conn)"
  note cur = cur_conn [OF i, folded conn_def]
  obtain out where rep: "conn_reply hmac md5 (tw_th w) conn = (S_OK, out)"
    "sends_reply hmac (tcp_request_in (co_stunsocket conn) d)
       (reply_spec hmac md5 (tcp_request_in (co_stunsocket conn) d) (tt_tsa (tw_th w)) (tt_spAuth (tw_th w))) out"
    using conn_reply_request [OF cur(1,2) r(1) [folded conn_def] r(2) cur(4) r(3) ok] by blast
  note call = conn_call_ok [OF cur(1,2) r(1) [folded conn_def] r(2) cur(4)]
  obtain b where b: "mo_spBufferOut out = Some b" "roomy b" "0 < cb_size b"
    by (rule conn_reply_ok [OF call ok]) (use rep(1) in auto)
  have len: "length (cb_contents b) \<le> 200"
  proof -
    have "MR_GetMessageClass (the (mi_pReader (conn_in conn))) = StunMsgClassRequest"
    proof -
      have "parsed (co_reader conn) d"
        using call by (auto simp: call_ok_def conn_in_def)
      then show ?thesis
        using parsed_twins(8) [OF _ feed_single_parsed(1) [OF r(2)]] feed_single_parsed(2) [OF r(2)] r(3) by (simp add: conn_in_def)
    qed
    from ProcessRequest_request [OF call this]
    have o: "out = answer hmac md5 (authorized hmac md5 (request_checked (conn_in conn) (conn_out conn) (tt_tsa (tw_th w)) (tt_spAuth (tw_th w))))"
      using rep(1) by (simp add: conn_reply_def)
    obtain l ty cls ads where m: "holds_message out (msg_wire l ty cls (msg_tid d) ads)" "length (attrs_wire l ads) \<le> 158"
      using answer_shape [OF call ok] o by blast
    have "length (msg_tid d) = 16"
      using call parsed_tid by (auto simp: call_ok_def)
    then have "length (msg_wire l ty cls (msg_tid d) ads) = 20 + length (attrs_wire l ads)"
      using m(2) by (intro msg_wire_fields) (simp_all add: stun_consts)
    then show ?thesis
      using m b(1) by (simp add: holds_message_def)
  qed
  define w1 where "w1 = reply_stored b p (w\<lparr>tw_limiter := l\<rparr>)"
  define w2 where "w2 = start_sending p w1"
  have i0: "tcp_inv R (Some p) (w\<lparr>tw_limiter := l\<rparr>)"
    using i by simp
  have i1: "tcp_inv R (Some p) w1"
    unfolding w1_def reply_stored_def by (rule upd_conn_inv [OF i0]) (use cur b(2) in \<open>simp_all add: conn_buffers_def conn_def\<close>)
  have i2: "tcp_inv R (Some p) w2"
    unfolding w2_def start_sending_def by (rule upd_conn_inv [OF i1]) (use cur_conn [OF i1] in \<open>simp_all add: conn_buffers_def\<close>)
  have g2: "get_conn p w2 = conn\<lparr>co_spOutputBuffer := b, co_state := ConnectionState_Transmitting\<rparr>" "owned w2 = owned w"
    "conn_table w2 = conn_table w" "tw_sent w2 = tw_sent w" "on_epoll w2"
    using ep(1) by (simp_all add: w2_def w1_def start_sending_def reply_stored_def get_conn_upd conn_def on_epoll_def)
  have sk: "s \<noteq> -1" "pc_ctl_mod (tr_poll tr) s \<noteq> -1"
    using cur(3) ep(2) by (simp_all add: s_def conn_def)
  note ch = change_good [OF g2(5) sk(2,1), of EPOLL_CLIENT_WRITE_EVENT_SET]
  obtain w3 where po: "polling_do (\<lambda>q. Polling_ChangeEventSet (tr_poll tr) q s EPOLL_CLIENT_WRITE_EVENT_SET) w2 = (S_OK, w3)"
    using ch(1) by (metis prod.collapse)
  have w3: "w3 = snd (polling_do (\<lambda>q. Polling_ChangeEventSet (tr_poll tr) q s EPOLL_CLIENT_WRITE_EVENT_SET) w2)"
    by (simp add: po)
  have wr: "writing (get_conn p w2)"
    using b(3) r(4) by (simp add: writing_def g2 conn_def)
  then have st: "p \<in> owned w2" "reading (get_conn p w2) \<or> writing (get_conn p w2)" "s = conn_sock p w2"
      "EPOLL_CLIENT_WRITE_EVENT_SET = awaited (get_conn p w2)"
    using p writing_awaits by (simp_all add: g2 s_def)
  note cs = change_and_settle [OF i2 st po]
  have g3: "get_conn p w3 = get_conn p w2" "p \<in> owned w3" "conn_table w3 = conn_table w" "tw_sent w3 = tw_sent w"
    "on_epoll w3" "conn_sock p w3 = s"
    using cs(3,4) st(1,3) g2(3,4) ch(2) by (simp_all add: w3 polling_do_fields polling_do_frame)
  have left: "left_to_send (get_conn p w3) = cb_contents b"
    using r(4) by (simp add: left_to_send_def g3 g2 conn_def)
  have e: "request_received hmac md5 tr p w = (S_OK, snd (WriteBytesForConnection (tr_poll tr) p (map Sent ns @ [SendBlocks]) w3))"
    using request_received_steps [OF lim rep(1) [unfolded conn_def] b(1)] po
    by (simp add: w1_def [symmetric] w2_def [symmetric] s_def conn_def snd(1))
  have h: "tcp_inv R None w3" "writing (get_conn p w3)" "pc_ctl_mod (tr_poll tr) (conn_sock p w3) \<noteq> -1"
    using cs(2) wr g3(1,6) sk(2) by simp_all
  obtain pieces unsent w' where W: "WriteBytesForConnection (tr_poll tr) p (map Sent ns @ [SendBlocks]) w3 = (S_OK, w')"
    "cb_contents b = concat pieces @ unsent" "unsent \<noteq> [] \<longrightarrow> length (concat pieces) = sum_list ns" "sent_to s pieces unsent p w3 w'"
    using Write_part [OF h(1) g3(2) h(2) g3(5) h(3) snd(2)] unfolding left g3(6) by blast
  have "holds_message out (concat pieces @ unsent)"
    using b W(2) by (simp add: holds_message_def roomy_def)
  moreover have "sent_to s pieces unsent p w w'"
    using W(4) g3(3,4) by (simp add: sent_to_def)
  ultimately show ?thesis
    using e rep(2) W len by (intro exI [of _ out] exI [of _ pieces] exI [of _ unsent] exI [of _ w']) (simp add: conn_def s_def)
qed

section \<open>A connection is accepted\<close>

lemma Accept_succeeds:
  assumes i: "tcp_inv R None w" and a: "accept_fresh tr" and ac: "tr_accept tr (tw_fds w) = Some (s, ad)"
    and lim: "\<not> tt_spLimiter (tw_th w)" and nb: "\<not> FAILED (SetNonBlocking (tr_sock tr))"
    and ep: "on_epoll w" "\<forall>s. pc_ctl_add (tr_poll tr) s \<noteq> -1"
    and room: "fh_size (conn_map_at (tw_th w) (tt_pNewConnList (tw_th w))) < fh_fsize (conn_map_at (tw_th w) (tt_pNewConnList (tw_th w)))"
  shows "\<exists>p w'. AcceptConnection tr ls w = (Some p, w') \<and> tcp_inv R None w' \<and> conn_table w' (tt_pNewConnList (tw_th w)) s = Some p \<and>
    has_read [] (get_conn p w') \<and> co_state (get_conn p w') = ConnectionState_Receiving \<and> on_epoll w' \<and> \<not> tt_spLimiter (tw_th w')"
proof -
  have s: "s \<notin> set (tw_fds w)" "s \<noteq> -1" and n: "names_fine (tr_sock tr)"
    using a ac by (auto simp: accept_fresh_def)
  have rc: "Tcp_RateCheck (tr_now tr) ad (w\<lparr>tw_fds := s # tw_fds w\<rparr>) = (True, (w\<lparr>tw_fds := s # tw_fds w\<rparr>)\<lparr>tw_limiter := tw_limiter w\<rparr>)"
    using lim by (simp add: Tcp_RateCheck_def)
  obtain p pool where g: "GetConnection (tr_sock tr) (tr_junk tr) (tr_now tr) (s # tw_fds w, tt_connectionpool (tw_th w)) s (sk_role ls) = (Some p, s # tw_fds w, pool)"
    and i1: "tcp_inv R (Some p) (w\<lparr>tw_fds := s # tw_fds w, tw_th := (tw_th w)\<lparr>tt_connectionpool := pool\<rparr>\<rparr>)"
    and p: "p \<notin> owned w" "fresh_conn s (sk_role ls) (tr_now tr) (conn_at pool p)"
    using new_connection_inv [OF i s n] by metis
  define w1 where "w1 = (w\<lparr>tw_limiter := tw_limiter w\<rparr>)\<lparr>tw_fds := s # tw_fds w, tw_th := (tw_th w)\<lparr>tt_connectionpool := pool\<rparr>\<rparr>"
  define w2 where "w2 = snd (polling_do (\<lambda>q. Polling_Add (tr_poll tr) q s EPOLL_CLIENT_READ_EVENT_SET) w1)"
  define t where "t = tt_pNewConnList (tw_th w2)"
  define w3 where "w3 = upd_conn p (\<lambda>c. c\<lparr>co_idHashTable := Some t\<rparr>) w2"
  define ins where "ins = FH_Insert fd_hash (conn_map_at (tw_th w3) t) s p"
  define w4 where "w4 = upd_th (set_conn_map t (snd ins)) w3"
  note e = accepted_steps [OF ac rc g, folded w1_def, folded w2_def, folded t_def, folded w3_def, folded ins_def, folded w4_def]
  have ep1: "on_epoll w1"
    using ep(1) by (simp add: on_epoll_def w1_def)
  note ad = add_good [OF ep1 ep(2) s(2), of EPOLL_CLIENT_READ_EVENT_SET, folded w2_def]
  obtain q where q: "tw_th w2 = (tw_th w1)\<lparr>tt_spPolling := q\<rparr>"
    using polling_do_frame(4) unfolding w2_def by blast
  have t: "t = tt_pNewConnList (tw_th w)" and m3: "conn_map_at (tw_th w3) t' = conn_map_at (tw_th w) t'"
    and g3: "get_conn p w3 = (conn_at pool p)\<lparr>co_idHashTable := Some t\<rparr>" for t'
    by (simp_all add: t_def q w1_def w3_def get_conn_upd) (simp add: get_conn_def q w1_def)
  have m: "fhm.is_map fd_hash (conn_map_at (tw_th w) t) (conn_table w t)"
    using i by (cases t) (simp_all add: tcp_inv_def table_ok_def)
  have new: "conn_table w t s = None"
    using inv_fds [OF i] s(1) by (cases t) (auto simp: taken_def)
  note ins' = fhm.insert_map [OF m new room [folded t], of p]
  have ins1: "fst ins = 1" "fhm.is_map fd_hash (snd ins) ((conn_table w t)(s \<mapsto> p))"
    using ins' by (simp_all add: ins_def m3)
  have r: "AcceptConnection tr ls w = (Some p, w4)"
    using nb ad(1) ins1(1) by (simp add: e)
  have "tcp_inv R None w4"
    using Accept_inv(1) [OF i a r] .
  moreover have "conn_table w4 t s = Some p"
    using fhm.lookup_map [OF ins1(2)] by (simp add: conn_table_def w4_def)
  moreover have "get_conn p w4 = get_conn p w3"
    by (simp add: get_conn_def w4_def)
  moreover have "has_read [] (conn_at pool p)" "co_state (conn_at pool p) = ConnectionState_Receiving"
    using p(2) by (simp_all add: fresh_conn_def)
  moreover have "on_epoll w4"
    using ad(2) by (simp add: w4_def w3_def on_epoll_def)
  moreover have "\<not> tt_spLimiter (tw_th w4)"
    using lim by (cases t) (simp_all add: w4_def set_conn_map_def w3_def upd_conn_def q w1_def)
  ultimately show ?thesis
    using r t by (auto simp: g3 has_read_def)
qed

definition served_world :: TcpWorld where
  "served_world = example_tcp_world\<lparr>tw_fds := [6], tw_th := (tw_th example_tcp_world)\<lparr>
     tt_spPolling := Some (Epoll (CEpoll_new\<lparr>ce_epollfd := 6, ce_events := Some [(0, 0)], ce_sizeEvents := 1\<rparr>)), tt_tsa := example_tsa,
     tt_hashConnections1 := FH_Init 2 3 True, tt_hashConnections2 := FH_Init 2 3 True,
     tt_pNewConnList := Connections1, tt_pOldConnList := Connections2\<rparr>\<rparr>"

lemma served_world_ok: "tcp_inv {#} None served_world" "on_epoll served_world" "\<not> tt_spLimiter (tw_th served_world)"
proof -
  have s: "init_stage {#} served_world"
    using example_tcp_world_ok(1) example_tcp_ok(2)
    by (auto simp: init_stage_def served_world_def tcp_res_def own_fds_def tcp_idle_def listed_def pol_ok_def cepoll_ok_def CEpoll_new_def
        handler_addresses_ok_def free_list_def intro!: exI [of _ "[]"])
  show "tcp_inv {#} None served_world"
    by (rule stage_inv(1) [OF s]) (auto simp: served_world_def conn_map_at_def FH_Init_map split: ConnTable.split)
  show "on_epoll served_world" "\<not> tt_spLimiter (tw_th served_world)"
    by (auto simp: on_epoll_def served_world_def CEpoll_new_def example_tcp_world_def CTCPStunThread_new_def TcpThread_Reset_def Let_def
        ClosePipes_def CloseListenSockets_def all_roles_def close_listener_def case_prod_beta release_polling_def)
qed

lemma served_connection:
  obtains p w' where "AcceptConnection example_tcp_turn CStunSocket_new served_world = (Some p, w')" "tcp_inv {#} None w'"
    "conn_table w' Connections1 7 = Some p" "has_read [] (get_conn p w')" "co_state (get_conn p w') = ConnectionState_Receiving"
    "on_epoll w'" "\<not> tt_spLimiter (tw_th w')"
proof -
  have "tt_pNewConnList (tw_th served_world) = Connections1"
    by (simp add: served_world_def)
  then show thesis
    using Accept_succeeds [OF served_world_ok(1) example_tcp_ok(3) _ served_world_ok(3) _ served_world_ok(2), of 7 "CSocketAddress_ipv4 0x0A000002 5000" CStunSocket_new] that
    by (auto simp: example_tcp_turn_def example_init_def served_world_def conn_map_at_def FH_Init_map SetNonBlocking_def)
qed

section \<open>The events of a connection\<close>

text \<open>In an event the socket takes pieces of these sizes, and then blocks.\<close>

definition takes :: "TcpTurn \<Rightarrow> nat list \<Rightarrow> bool" where
  "takes tr ns \<longleftrightarrow> tr_send tr = map Sent ns @ [SendBlocks] \<and> 0 \<notin> set ns"

lemma takes_Cons: "list_all2 takes (tr # trs) nss \<longleftrightarrow>
    (\<exists>ns nss'. nss = ns # nss' \<and> tr_send tr = map Sent ns @ [SendBlocks] \<and> 0 \<notin> set ns \<and> list_all2 takes trs nss')"
  unfolding list_all2_Cons1 by (simp add: takes_def [of tr])

definition connection_events :: "(bytes \<Rightarrow> bytes \<Rightarrow> bytes) \<Rightarrow> (bytes \<Rightarrow> bytes) \<Rightarrow> TcpTurn list \<Rightarrow> int \<Rightarrow> TcpWorld \<Rightarrow> TcpWorld" where
  "connection_events hmac md5 trs s w = fold (\<lambda>tr. ProcessConnectionEvent hmac md5 tr s) trs w"

lemma table_sock: "tcp_inv R None w \<Longrightarrow> conn_table w t s = Some p \<Longrightarrow> p \<in> owned w \<and> conn_sock p w = s"
  using table_conn by (cases t) (auto simp: tcp_inv_def table_ok_def)

lemma event_on_connection:
  assumes i: "tcp_inv R None w" and t: "conn_table w t s = Some p"
  shows "ProcessConnectionEvent hmac md5 tr s w = (case co_state (get_conn p w) of
      ConnectionState_Receiving \<Rightarrow> snd (ReceiveBytesForConnection hmac md5 tr p (tr_recv tr) w)
    | ConnectionState_Transmitting \<Rightarrow> snd (WriteBytesForConnection (tr_poll tr) p (tr_send tr) w)
    | ConnectionState_Idle \<Rightarrow> w)"
proof -
  have "conn_table w t' s = None" if "t' \<noteq> t" for t'
    using that t i by (cases t; cases t') (auto simp: tcp_inv_def disjoint_iff)
  moreover have "t = tt_pNewConnList (tw_th w) \<or> t = tt_pOldConnList (tw_th w)"
    using i by (cases t; cases "tt_pNewConnList (tw_th w)"; cases "tt_pOldConnList (tw_th w)") (auto simp: tcp_inv_def thread_ok_tcp_def)
  ultimately have pp: "(if conn_table w (tt_pNewConnList (tw_th w)) s = None then conn_table w (tt_pOldConnList (tw_th w)) s
      else conn_table w (tt_pNewConnList (tw_th w)) s) = Some p"
    using t by (metis option.distinct(1))
  show ?thesis
    unfolding ProcessConnectionEvent_def Let_def conn_table_def [symmetric] pp by simp
qed

text \<open>The rest of a response goes out in the events that follow.\<close>

lemma Write_events:
  assumes ok: "hmac_ok hmac" "md5_ok md5"
  shows "tcp_inv R None w \<Longrightarrow> conn_table w t s = Some p \<Longrightarrow> writing (get_conn p w) \<Longrightarrow> on_epoll w \<Longrightarrow>
    \<forall>tr \<in> set trs. pc_ctl_mod (tr_poll tr) s \<noteq> -1 \<Longrightarrow> list_all2 takes trs nss \<Longrightarrow>
    length (left_to_send (get_conn p w)) \<le> sum_list (map sum_list nss) \<Longrightarrow>
    \<exists>k pieces. k \<le> length trs \<and> concat pieces = left_to_send (get_conn p w) \<and>
      sent_to s pieces [] p w (connection_events hmac md5 (take k trs) s w)"
proof (induction trs arbitrary: w nss)
  case Nil
  have "length (cb_contents (co_spOutputBuffer (get_conn p w))) = cb_size (co_spOutputBuffer (get_conn p w))"
    using cur_conn(1) [OF take_up(1) [OF Nil.prems(1)]] table_sock [OF Nil.prems(1,2)] by (simp add: conn_buffers_def roomy_def)
  then have "left_to_send (get_conn p w) \<noteq> []"
    using Nil.prems(3) by (simp add: left_to_send_def writing_def)
  then show ?case
    using Nil.prems(6,7) by simp
next
  case (Cons tr trs)
  note c = Cons.prems
  obtain ns nss' where n: "nss = ns # nss'" "tr_send tr = map Sent ns @ [SendBlocks]" "0 \<notin> set ns" "list_all2 takes trs nss'"
    using c(6) by (auto simp: takes_Cons)
  note o = table_sock [OF c(1,2)]
  have "pc_ctl_mod (tr_poll tr) (conn_sock p w) \<noteq> -1"
    using c(5) o by simp
  from Write_part [OF c(1) _ c(3,4) this n(3)] o obtain pieces unsent w' where
    w': "WriteBytesForConnection (tr_poll tr) p (map Sent ns @ [SendBlocks]) w = (S_OK, w')"
    "left_to_send (get_conn p w) = concat pieces @ unsent" "unsent \<noteq> [] \<longrightarrow> length (concat pieces) = sum_list ns"
    "sent_to s pieces unsent p w w'"
    by blast
  have e: "ProcessConnectionEvent hmac md5 tr s w = w'"
    using event_on_connection [OF c(1,2)] c(3) n(2) w'(1) by (simp add: writing_def)
  show ?case
  proof (cases "unsent = []")
    case True
    then show ?thesis
      using w'(2,4) e by (intro exI [of _ 1] exI [of _ pieces]) (simp add: connection_events_def)
  next
    case False
    have i: "tcp_inv R None w'"
      using ProcessConnectionEvent_inv [OF c(1) ok, of tr s] e by simp
    have f: "conn_table w' t s = Some p" "writing (get_conn p w')" "on_epoll w'" "left_to_send (get_conn p w') = unsent"
      using w'(4) False c(2) by (simp_all add: sent_to_def)
    have "length (left_to_send (get_conn p w')) \<le> sum_list (map sum_list nss')"
      using c(7) w'(2,3) False f(4) by (simp add: n(1))
    from Cons.IH [OF i f(1-3) _ n(4) this] c(5) obtain k pieces' where k: "k \<le> length trs" "concat pieces' = unsent"
      "sent_to s pieces' [] p w' (connection_events hmac md5 (take k trs) s w')"
      unfolding f(4) by auto
    have "sent_to s (pieces @ pieces') [] p w (connection_events hmac md5 (take k trs) s w')"
      using k(3) w'(4) by (simp add: sent_to_def)
    then show ?thesis
      using k(1,2) w'(2) e by (intro exI [of _ "Suc k"] exI [of _ "pieces @ pieces'"]) (simp add: connection_events_def)
  qed
qed

text \<open>C20: a request that comes in on a connection, split in any way and after any part that was read before,
  is answered when the rate limiter lets it pass: the bytes sent on the connection, in this event and,
  where the socket blocks, in the following ones, are in full the response that the request handler's
  specification decides for the socket's addresses, and the connection then waits for a new message.
  When the limiter refuses it, nothing is sent and the connection is closed.  The thread polls with
  \<open>epoll\<close>, whose calls succeed, and the socket takes 200 bytes in all, in pieces of any size.\<close>

theorem tcp_request_answered:
  assumes i: "tcp_inv R None w" and t: "conn_table w t s = Some p" and rd: "co_state (get_conn p w) = ConnectionState_Receiving"
    "has_read bs (get_conn p w)"
    and m: "spec_state True (bs @ rest) = BodyValidated" "class_of (msg_type (bs @ rest)) = StunMsgClassRequest" "rest \<noteq> []"
    and r: "tr_recv tr = map RecvData chunks" "[] \<notin> set chunks" "concat chunks = rest @ extra"
    and n: "list_all2 takes (tr # trs) nss" "200 \<le> sum_list (map sum_list nss)"
    and ep: "on_epoll w" "\<forall>tr \<in> set (tr # trs). pc_ctl_mod (tr_poll tr) s \<noteq> -1" and ok: "hmac_ok hmac" "md5_ok md5"
  shows "let msgIn = tcp_request_in (co_stunsocket (get_conn p w)) (bs @ rest); w' = ProcessConnectionEvent hmac md5 tr s w in
    if fst (Tcp_RateCheck (tr_now tr) (sk_addrremote (co_stunsocket (get_conn p w))) w)
    then \<exists>k out pieces. let w'' = connection_events hmac md5 (take k trs) s w' in k \<le> length trs \<and>
      sends_reply hmac msgIn (reply_spec hmac md5 msgIn (tt_tsa (tw_th w)) (tt_spAuth (tw_th w))) out \<and>
      holds_message out (concat pieces) \<and> tw_sent w'' = tw_sent w @ map (Pair s) pieces \<and>
      conn_table w'' t s = Some p \<and> reading (get_conn p w'') \<and> has_read [] (get_conn p w'')
    else tw_sent w' = tw_sent w \<and> conn_table w' t s = None"
proof -
  note p = table_sock [OF i t]
  note up = take_up [OF i conjunct1 [OF p]]
  let ?m = "tcp_request_in (co_stunsocket (get_conn p w)) (bs @ rest)"
  have tx: "co_txCount (get_conn p w) = 0"
    using up(2) rd(1) by (auto simp: reading_def writing_def)
  obtain w1 where w1: "ReceiveBytesForConnection hmac md5 tr p (map RecvData chunks) w = request_received hmac md5 tr p w1"
    "read_into (bs @ rest) p w w1" "tcp_inv R (Some p) w1"
    using Receive_message [OF up(1) rd(2) m(1,3) r(3,2)] by blast
  obtain pl where th: "tw_th w1 = (tw_th w)\<lparr>tt_connectionpool := pl\<rparr>"
    using w1(2) by (auto simp: read_into_def)
  have f: "has_read (bs @ rest) (get_conn p w1)" "co_stunsocket (get_conn p w1) = co_stunsocket (get_conn p w)"
    "co_txCount (get_conn p w1) = 0" "conn_table w1 = conn_table w" "tw_sent w1 = tw_sent w" "tw_limiter w1 = tw_limiter w"
    using w1(2) tx by (auto simp: read_into_def)
  obtain allowed l where al: "Tcp_RateCheck (tr_now tr) (sk_addrremote (co_stunsocket (get_conn p w1))) w1 = (allowed, w1\<lparr>tw_limiter := l\<rparr>)"
    using RateCheck_only by blast
  have lim: "allowed = fst (Tcp_RateCheck (tr_now tr) (sk_addrremote (co_stunsocket (get_conn p w))) w)"
    using al by (simp add: Tcp_RateCheck_def th f case_prod_beta split: if_splits)
  have o: "p \<in> owned w1" "on_epoll w1" "pc_ctl_mod (tr_poll tr) (conn_sock p w1) \<noteq> -1"
    using p ep by (simp_all add: owned_def f on_epoll_def th)
  have e: "ProcessConnectionEvent hmac md5 tr s w = snd (request_received hmac md5 tr p w1)"
    using event_on_connection [OF i t] rd(1) w1(1) r(1) by simp
  show ?thesis
  proof (cases allowed)
    case True
    obtain ns nss' where ns: "nss = ns # nss'" "tr_send tr = map Sent ns @ [SendBlocks]" "0 \<notin> set ns" "list_all2 takes trs nss'"
      using n(1) by (auto simp: takes_Cons)
    from request_received_answers [OF w1(3) o(1) f(1) m(1,2) f(3) ok al [unfolded eqTrueI [OF True]] o(2,3) ns(2,3)] obtain out pieces unsent w' where
      a: "request_received hmac md5 tr p w1 = (S_OK, w')" "sends_reply hmac ?m (reply_spec hmac md5 ?m (tt_tsa (tw_th w)) (tt_spAuth (tw_th w))) out"
      "holds_message out (concat pieces @ unsent)" "length (concat pieces @ unsent) \<le> 200"
      "unsent \<noteq> [] \<longrightarrow> length (concat pieces) = sum_list ns" "sent_to s pieces unsent p w w'"
      by (auto simp: f th p sent_to_def)
    have e': "ProcessConnectionEvent hmac md5 tr s w = w'"
      using e a(1) by simp
    have "\<exists>k pieces'. k \<le> length trs \<and> concat pieces' = unsent \<and>
        sent_to s (pieces @ pieces') [] p w (connection_events hmac md5 (take k trs) s w')"
    proof (cases "unsent = []")
      case True
      then show ?thesis
        using a(6) by (intro exI [of _ 0] exI [of _ "[]"]) (simp add: connection_events_def)
    next
      case False
      have i': "tcp_inv R None w'"
        using ProcessConnectionEvent_inv [OF i ok, of tr s] e' by simp
      have g: "conn_table w' t s = Some p" "writing (get_conn p w')" "on_epoll w'" "left_to_send (get_conn p w') = unsent"
        using a(6) False t by (simp_all add: sent_to_def)
      have "length (left_to_send (get_conn p w')) \<le> sum_list (map sum_list nss')"
        using n(2) a(4,5) False g(4) by (simp add: ns(1))
      from Write_events [OF ok i' g(1-3) _ ns(4) this] ep(2) obtain k pieces' where k: "k \<le> length trs" "concat pieces' = unsent"
        "sent_to s pieces' [] p w' (connection_events hmac md5 (take k trs) s w')"
        unfolding g(4) by auto
      then have "sent_to s (pieces @ pieces') [] p w (connection_events hmac md5 (take k trs) s w')"
        using a(6) by (simp add: sent_to_def)
      with k(1,2) show ?thesis
        by blast
    qed
    then obtain k pieces' where k: "k \<le> length trs" "concat pieces' = unsent" "sent_to s (pieces @ pieces') [] p w (connection_events hmac md5 (take k trs) s w')"
      by blast
    have "holds_message out (concat (pieces @ pieces'))"
      using a(3) k(2) by simp
    then show ?thesis
      unfolding Let_def e' using True lim a(2) k(1,3) t by (auto simp: sent_to_def intro!: exI [of _ k] exI [of _ out] exI [of _ "pieces @ pieces'"])
  next
    case False
    then have c: "ProcessConnectionEvent hmac md5 tr s w = CloseConnection (tr_poll tr) p (w1\<lparr>tw_limiter := l\<rparr>)"
      using al e by (simp add: request_received_def)
    have i1: "tcp_inv R (Some p) (w1\<lparr>tw_limiter := l\<rparr>)"
      using w1(3) by simp
    have "conn_sock p (w1\<lparr>tw_limiter := l\<rparr>) = s"
      using p f(2) by simp
    then show ?thesis
      unfolding Let_def c using False lim CloseConnection_fields(9) CloseConnection_tables(1) [OF i1, of "tr_poll tr" t] f(5) by simp
  qed
qed

text \<open>
  The request comes in three pieces; the socket takes 25 bytes of the response and blocks, and takes the
  rest when it is ready again.
\<close>

definition served_turn :: TcpTurn where
  "served_turn = example_tcp_turn\<lparr>tr_recv := map RecvData [take 7 example_request, drop 7 (take 30 example_request), drop 30 example_request],
     tr_send := [Sent 25, SendBlocks]\<rparr>"

definition ready_again :: TcpTurn where
  "ready_again = example_tcp_turn\<lparr>tr_send := [Sent 175, SendBlocks]\<rparr>"

theorem tcp_request_answered_witness:
  "\<exists>p w. conn_table w Connections1 7 = Some p \<and>
    (let msgIn = tcp_request_in (co_stunsocket (get_conn p w)) example_request; w' = ProcessConnectionEvent example_hmac example_md5 served_turn 7 w in
    \<exists>k out pieces. let w'' = connection_events example_hmac example_md5 (take k [ready_again]) 7 w' in k \<le> 1 \<and>
      sends_reply example_hmac msgIn (reply_spec example_hmac example_md5 msgIn (tt_tsa (tw_th w)) (tt_spAuth (tw_th w))) out \<and>
      holds_message out (concat pieces) \<and> tw_sent w'' = tw_sent w @ map (Pair 7) pieces \<and>
      conn_table w'' Connections1 7 = Some p \<and> reading (get_conn p w'') \<and> has_read [] (get_conn p w''))"
proof -
  obtain p w where w: "tcp_inv {#} None w" "conn_table w Connections1 7 = Some p" "has_read [] (get_conn p w)"
    "co_state (get_conn p w) = ConnectionState_Receiving" "on_epoll w" "\<not> tt_spLimiter (tw_th w)"
    using served_connection by metis
  have len: "length example_request = 36"
    using msg_wire_fields(4) [OF example_ok(1), of False example_attrs StunMsgTypeBinding StunMsgClassRequest]
    by (simp add: example_request_def example_attrs_def attrs_wire_def length_attr_wire wire_value_def padding_of_def stun_consts)
  have v: "spec_state True ([] @ example_request) = BodyValidated" "class_of (msg_type ([] @ example_request)) = StunMsgClassRequest"
  proof -
    have "spec_state True example_request = BodyValidated"
      using msg_wire_valid(1) [OF example_ok, of True] by (simp add: example_request_def)
    then show "spec_state True ([] @ example_request) = BodyValidated" "class_of (msg_type ([] @ example_request)) = StunMsgClassRequest"
      using feed_single_parsed(2) [of example_request] example_parsed(2) by simp_all
  qed
  have r: "[] \<notin> set [take 7 example_request, drop 7 (take 30 example_request), drop 30 example_request]"
    "concat [take 7 example_request, drop 7 (take 30 example_request), drop 30 example_request] = example_request @ []" "example_request \<noteq> []"
  proof -
    have "take 7 d @ drop 7 (take 30 d) @ drop 30 d = d" for d :: bytes
      using append_take_drop_id [of 7 "take 30 d"] append_take_drop_id [of 30 d] by (simp flip: append_assoc)
    then show "concat [take 7 example_request, drop 7 (take 30 example_request), drop 30 example_request] = example_request @ []"
      by simp
  qed (use len in auto)
  have n: "list_all2 takes [served_turn, ready_again] [[25], [175]]" "200 \<le> sum_list (map sum_list [[25], [175 :: nat]])"
    by (simp_all add: takes_def served_turn_def ready_again_def)
  have ep: "\<forall>tr \<in> set [served_turn, ready_again]. pc_ctl_mod (tr_poll tr) 7 \<noteq> -1"
    by (simp add: served_turn_def ready_again_def example_tcp_turn_def example_init_def)
  have tr: "tr_recv served_turn = map RecvData [take 7 example_request, drop 7 (take 30 example_request), drop 30 example_request]"
    by (simp add: served_turn_def)
  have "fst (Tcp_RateCheck (tr_now served_turn) (sk_addrremote (co_stunsocket (get_conn p w))) w)"
    using w(6) by (simp add: Tcp_RateCheck_def)
  then show ?thesis
    using tcp_request_answered [OF w(1,2,4,3) v r(3) tr r(1,2) n w(5) ep example_hash_ok] w(2)
    by (intro exI [of _ p] exI [of _ w] conjI) (simp_all only: Let_def if_True append_Nil list.size add_0_left One_nat_def simp_thms)
qed

end
