(* ===== verification/StunTcpServer.thy ===== *)
theory StunTcpServer imports StunTcpReply begin

text \<open>
  The TCP server (\<open>CTCPServer\<close> of server/tcpserver.h, tcpserver.cpp): one thread on all configured
  addresses, or one for each.  The threads share the open descriptors and the rate limiter; their turns
  interleave.  A thread that is deleted is stopped first; what it does until it has stopped is an argument.
\<close>

record TcpServerWorld =
  sw_fds :: descriptors
  sw_limiter :: RateLimiter
  sw_sent :: "(int \<times> bytes) list"
  sw_threads :: "SocketRole \<Rightarrow> CTCPStunThread option"

definition thread_world :: "TcpServerWorld \<Rightarrow> CTCPStunThread \<Rightarrow> TcpWorld" where
  "thread_world w th = \<lparr>tw_fds = sw_fds w, tw_limiter = sw_limiter w, tw_sent = sw_sent w, tw_th = th\<rparr>"

definition put_thread :: "SocketRole \<Rightarrow> TcpWorld \<Rightarrow> TcpServerWorld \<Rightarrow> TcpServerWorld" where
  "put_thread role v w = w\<lparr>sw_fds := tw_fds v, sw_limiter := tw_limiter v, sw_sent := tw_sent v,
     sw_threads := (sw_threads w)(role \<mapsto> tw_th v)\<rparr>"

definition InitTSA :: "TransportAddressSet \<Rightarrow> SocketRole \<Rightarrow> bool \<Rightarrow> CSocketAddress \<Rightarrow> CSocketAddress \<Rightarrow> TransportAddressSet" where
  "InitTSA tsa role fValid addrListen addrAdvertise =
     (if fValid = False then tsa(role := \<lparr>ta_addr = CSocketAddress_default, ta_fValid = False\<rparr>)
      else if IsIPAddressZero addrAdvertise then tsa(role := \<lparr>ta_addr = addrListen, ta_fValid = True\<rparr>)
      else tsa(role := \<lparr>ta_addr = SetPort addrAdvertise (GetPort addrListen), ta_fValid = True\<rparr>))"

definition init_tsas :: "CStunServerConfig \<Rightarrow> CSocketAddress \<Rightarrow> CSocketAddress \<Rightarrow> TransportAddressSet" where
  "init_tsas config advPrimary advAlternate =
     (let tsa = InitTSA tsa_zero RolePP (fHasPP config) (addrPP config) advPrimary;
          tsa = InitTSA tsa RolePA (fHasPA config) (addrPA config) advPrimary;
          tsa = InitTSA tsa RoleAP (fHasAP config) (addrAP config) advAlternate in
      InitTSA tsa RoleAA (fHasAA config) (addrAA config) advAlternate)"

definition tsaHandler_of :: "CStunServerConfig \<Rightarrow> TransportAddressSet" where
  "tsaHandler_of config = init_tsas config (addrPrimaryAdvertised config) (addrAlternateAdvertised config)"

definition tsaListenAll_of :: "CStunServerConfig \<Rightarrow> TransportAddressSet" where
  "tsaListenAll_of config = init_tsas config CSocketAddress_default CSocketAddress_default"

text \<open>The copy of \<open>tsaListenAll\<close> for one thread.\<close>

definition only_role :: "SocketRole \<Rightarrow> TransportAddressSet \<Rightarrow> TransportAddressSet" where
  "only_role threadindex tsa = fold (\<lambda>temp tsa. if temp \<noteq> threadindex
     then tsa(temp := \<lparr>ta_addr = CSocketAddress_default, ta_fValid = False\<rparr>) else tsa) all_roles tsa"

text \<open>A new thread and its \<open>Init\<close>.  No authentication provider is created.\<close>

definition init_thread :: "TcpInit \<Rightarrow> SocketRole \<Rightarrow> TransportAddressSet \<Rightarrow> CStunServerConfig \<Rightarrow> TcpServerWorld
    \<Rightarrow> hresult \<times> TcpServerWorld" where
  "init_thread os role tsaListen config w =
     (let (hr, v) = TcpThread_Init os tsaListen (tsaHandler_of config) None (sint (nMaxConnections config)) (fEnableDosProtection config)
            (thread_world w (CTCPStunThread_new (ti_now os))) in
      (hr, put_thread role v w))"

fun init_threads :: "(SocketRole \<Rightarrow> TcpInit) \<Rightarrow> CStunServerConfig \<Rightarrow> SocketRole list \<Rightarrow> TcpServerWorld \<Rightarrow> hresult \<times> TcpServerWorld" where
  "init_threads os config [] w = (S_OK, w)"
| "init_threads os config (r # roles) w =
     (if ta_fValid (tsaHandler_of config r)
      then chk (init_thread (os r) r (only_role r (tsaListenAll_of config)) config w) (init_threads os config roles)
      else init_threads os config roles w)"

text \<open>What a thread still does when it is told to stop, and the calls of its clean-up.\<close>

record ThreadStop =
  st_turns :: "TcpTurn list"
  st_poll :: PollCalls
  st_now :: int

definition delete_thread :: "(bytes \<Rightarrow> bytes \<Rightarrow> bytes) \<Rightarrow> (bytes \<Rightarrow> bytes) \<Rightarrow> (SocketRole \<Rightarrow> ThreadStop) \<Rightarrow> SocketRole
    \<Rightarrow> TcpServerWorld \<Rightarrow> TcpServerWorld" where
  "delete_thread hmac md5 stop role w = (case sw_threads w role of None \<Rightarrow> w
     | Some th \<Rightarrow>
         let (_, v) = TcpThread_Stop hmac md5 (st_turns (stop role)) (st_poll (stop role)) (st_now (stop role)) (thread_world w th);
             w = put_thread role v w in
         w\<lparr>sw_threads := (sw_threads w)(role := None)\<rparr>)"

definition TcpServer_Shutdown :: "(bytes \<Rightarrow> bytes \<Rightarrow> bytes) \<Rightarrow> (bytes \<Rightarrow> bytes) \<Rightarrow> (SocketRole \<Rightarrow> ThreadStop)
    \<Rightarrow> TcpServerWorld \<Rightarrow> hresult \<times> TcpServerWorld" where
  "TcpServer_Shutdown hmac md5 stop w = (S_OK, fold (delete_thread hmac md5 stop) all_roles w)"

definition TcpServer_Initialize :: "(bytes \<Rightarrow> bytes \<Rightarrow> bytes) \<Rightarrow> (bytes \<Rightarrow> bytes) \<Rightarrow> (SocketRole \<Rightarrow> ThreadStop)
    \<Rightarrow> (SocketRole \<Rightarrow> TcpInit) \<Rightarrow> CStunServerConfig \<Rightarrow> TcpServerWorld \<Rightarrow> hresult \<times> TcpServerWorld" where
  "TcpServer_Initialize hmac md5 stop os config w =
     (let (hr, w) =
        (if sw_threads w RolePP \<noteq> None then (E_UNEXPECTED, w)
         else
           let w = (if fEnableDosProtection config
                    then w\<lparr>sw_limiter := RateLimiter_init 20000 (fMultiThreadedMode config)\<rparr> else w) in
           if fMultiThreadedMode config = False then init_thread (os RolePP) RolePP (tsaListenAll_of config) config w
           else init_threads os config all_roles w) in
      if FAILED hr then (hr, snd (TcpServer_Shutdown hmac md5 stop w)) else (hr, w))"

text \<open>A thread that cannot be created leaves the earlier ones running.\<close>

fun start_threads :: "(SocketRole \<Rightarrow> int \<times> int) \<Rightarrow> SocketRole list \<Rightarrow> TcpServerWorld \<Rightarrow> hresult \<times> TcpServerWorld" where
  "start_threads created [] w = (S_OK, w)"
| "start_threads created (r # roles) w = (case sw_threads w r of None \<Rightarrow> start_threads created roles w
     | Some th \<Rightarrow> let (hr, v) = TcpThread_Start (created r) (thread_world w th) in
         chk (hr, put_thread r v w) (start_threads created roles))"

definition TcpServer_Start :: "(SocketRole \<Rightarrow> int \<times> int) \<Rightarrow> TcpServerWorld \<Rightarrow> hresult \<times> TcpServerWorld" where
  "TcpServer_Start created w = start_threads created all_roles w"

definition TcpServer_Stop :: "(bytes \<Rightarrow> bytes \<Rightarrow> bytes) \<Rightarrow> (bytes \<Rightarrow> bytes) \<Rightarrow> (SocketRole \<Rightarrow> ThreadStop)
    \<Rightarrow> TcpServerWorld \<Rightarrow> hresult \<times> TcpServerWorld" where
  "TcpServer_Stop hmac md5 stop w = (S_OK, snd (TcpServer_Shutdown hmac md5 stop w))"

text \<open>One turn of a running thread.\<close>

definition TcpServer_turn :: "(bytes \<Rightarrow> bytes \<Rightarrow> bytes) \<Rightarrow> (bytes \<Rightarrow> bytes) \<Rightarrow> SocketRole \<times> TcpTurn \<Rightarrow> TcpServerWorld \<Rightarrow> TcpServerWorld" where
  "TcpServer_turn hmac md5 = (\<lambda>(role, tr) w. case sw_threads w role of None \<Rightarrow> w
     | Some th \<Rightarrow> if tt_fThreadIsValid th then put_thread role (snd (Tcp_Run hmac md5 [tr] (thread_world w th))) w else w)"

section \<open>No descriptor is lost\<close>

definition thread_res :: "CTCPStunThread \<Rightarrow> int multiset" where
  "thread_res th = mset (own_fds th) + mset_set (dom (FH_Lookup fd_hash (tt_hashConnections1 th)) \<union> dom (FH_Lookup fd_hash (tt_hashConnections2 th)))"

lemma taken_th: "taken w = dom (FH_Lookup fd_hash (tt_hashConnections1 (tw_th w))) \<union> dom (FH_Lookup fd_hash (tt_hashConnections2 (tw_th w)))"
  by (simp add: taken_def conn_table_def [abs_def] conn_map_at_def)

lemma inv_res_sum: "tcp_inv R None w \<Longrightarrow> mset (tw_fds w) = R + thread_res (tw_th w)"
  by (simp add: tcp_inv_def fds_split_def thread_res_def taken_th add.assoc)

text \<open>The invariant of a thread does not depend on what the others do.\<close>

lemma inv_other:
  assumes i: "tcp_inv R None w" and f: "mset fds = R' + thread_res (tw_th w)"
  shows "tcp_inv R' None \<lparr>tw_fds = fds, tw_limiter = l, tw_sent = s, tw_th = tw_th w\<rparr>"
proof -
  let ?w = "\<lparr>tw_fds = fds, tw_limiter = l, tw_sent = s, tw_th = tw_th w\<rparr>"
  have e: "get_conn p ?w = get_conn p w" "conn_table ?w = conn_table w" "owned ?w = owned w" "taken ?w = taken w" for p
    by (simp_all add: get_conn_def conn_table_def [abs_def] owned_def taken_def)
  have "fds_split R' None ?w"
    using f by (simp add: fds_split_def thread_res_def taken_th add.assoc)
  then show ?thesis
    using i by (simp add: tcp_inv_def table_ok_def pool_split_def listen_ok_def cur_ok_def conns_ok_def watch_ok_def e)
qed

section \<open>What the loop of a thread never changes\<close>

definition static :: "TcpWorld \<Rightarrow> bool \<times> TransportAddressSet \<times> IStunAuth option \<times> int \<times> bool \<times> int \<times> int" where
  "static w = (tt_fThreadIsValid (tw_th w), tt_tsa (tw_th w), tt_spAuth (tw_th w), tt_maxConnections (tw_th w),
     tt_spLimiter (tw_th w), tt_pipe0 (tw_th w), tt_pipe1 (tw_th w))"

lemma static_world [simp]: "static (w\<lparr>tw_fds := f\<rparr>) = static w" "static (w\<lparr>tw_limiter := l\<rparr>) = static w"
  "static (w\<lparr>tw_sent := s\<rparr>) = static w" "static (upd_conn p g w) = static w"
  "static (w\<lparr>tw_fds := f, tw_th := (tw_th w)\<lparr>tt_connectionpool := pl\<rparr>\<rparr>) = static w"
  "static (w\<lparr>tw_limiter := l, tw_th := (tw_th w)\<lparr>tt_connectionpool := pl\<rparr>\<rparr>) = static w"
  by (simp_all add: static_def upd_conn_def)

lemma static_upd: "tt_fThreadIsValid (f (tw_th w)) = tt_fThreadIsValid (tw_th w) \<Longrightarrow> tt_tsa (f (tw_th w)) = tt_tsa (tw_th w) \<Longrightarrow>
    tt_spAuth (f (tw_th w)) = tt_spAuth (tw_th w) \<Longrightarrow> tt_maxConnections (f (tw_th w)) = tt_maxConnections (tw_th w) \<Longrightarrow>
    tt_spLimiter (f (tw_th w)) = tt_spLimiter (tw_th w) \<Longrightarrow> tt_pipe0 (f (tw_th w)) = tt_pipe0 (tw_th w) \<Longrightarrow>
    tt_pipe1 (f (tw_th w)) = tt_pipe1 (tw_th w) \<Longrightarrow> static (upd_th f w) = static w"
  by (simp add: static_def)

lemma static_table [simp]: "static (upd_th (set_conn_map t h) w) = static w"
  by (rule static_upd; cases t) (simp_all add: set_conn_map_def)

lemma static_polling [simp]: "static (snd (polling_do f w)) = static w"
  using polling_do_frame(4) [of f w] by (auto simp: static_def)

lemma static_close [simp]: "static (CloseConnection c p w) = static w"
proof -
  define w1 where "w1 = snd (polling_do (\<lambda>q. Polling_Remove c q (conn_sock p w)) w)"
  have "static (CloseConnection c p w) = static w1"
    unfolding CloseConnection_def w1_def get_conn_def
    by (simp add: Let_def case_prod_beta static_def upd_th_def set_conn_map_def split: option.split ConnTable.split)
  then show ?thesis
    by (simp add: w1_def)
qed

lemma static_write [simp]: "static (snd (WriteBytesForConnection c p replies w)) = static w"
proof (induction replies arbitrary: w)
  case (Cons reply replies)
  then show ?case
    by (cases reply) (simp_all add: Write_step Let_def case_prod_beta send_some_def send_done_def del: WriteBytesForConnection.simps(4))
qed simp

lemma static_rate [simp]: "static (snd (Tcp_RateCheck now a w)) = static w"
  using RateCheck_only [of now a w] by auto

lemma static_request [simp]: "static (snd (request_received hmac md5 tr p w)) = static w"
  by (simp add: request_received_def Let_def case_prod_beta)

lemma static_receive [simp]: "static (snd (ReceiveBytesForConnection hmac md5 tr p replies w)) = static w"
proof (induction "sum_list (map recv_weight replies)" arbitrary: replies w rule: less_induct)
  case less
  define n where "n = unat (MR_HowManyBytesNeeded (co_reader (get_conn p w)))"
  have ih: "static (snd (ReceiveBytesForConnection hmac md5 tr p (if drop n d = [] then rs else RecvData (drop n d) # rs) v)) = static v"
    if "replies = RecvData d # rs" "d \<noteq> []" "n \<noteq> 0" for d rs v
    by (rule less.hyps) (use that length_drop [of n d] in \<open>cases "drop n d"; auto\<close>)
  show ?case
    unfolding ReceiveBytesForConnection.simps [of hmac md5 tr p replies w] n_def [symmetric] Let_def
    using ih by (auto split: list.split recv_answer.split)
qed

lemma static_accept [simp]: "static (snd (AcceptConnection tr ls w)) = static w"
proof (cases "tr_accept tr (tw_fds w)")
  case (Some x)
  obtain s a where x: "x = (s, a)"
    by fastforce
  obtain ok l where rc: "Tcp_RateCheck (tr_now tr) a (w\<lparr>tw_fds := s # tw_fds w\<rparr>) = (ok, (w\<lparr>tw_fds := s # tw_fds w\<rparr>)\<lparr>tw_limiter := l\<rparr>)"
    using RateCheck_only by blast
  show ?thesis
    using Some by (simp add: AcceptConnection_def x rc Let_def case_prod_beta static_world(5) [where w = "w\<lparr>tw_fds := s # tw_fds w, tw_limiter := l\<rparr>", simplified]
        split: option.split)
qed (simp add: AcceptConnection_def)

lemma static_event [simp]: "static (ProcessConnectionEvent hmac md5 tr fd w) = static w"
  by (simp add: ProcessConnectionEvent_def Let_def split: option.split StunConnectionState.split)

lemma static_handle [simp]: "static (handle_event hmac md5 tr fd w) = static w"
  using static_accept [of tr _ w] by (simp add: handle_event_def Let_def case_prod_beta del: static_accept split: option.split)

lemma static_listen [simp]: "static (snd (SetListenSocketsOnEpoll c e w)) = static w"
proof -
  have "static (snd (listen_on_epoll c e roles w)) = static w" for roles w
    by (induction roles arbitrary: w) (simp_all add: Let_def case_prod_beta)
  then show ?thesis
    unfolding SetListenSocketsOnEpoll_def Let_def case_prod_beta by (cases "e \<noteq> tt_fListenSocketsOnEpoll (tw_th w)") (simp_all add: static_upd)
qed

lemma static_wait [simp]: "static (snd (snd (wait_event c w))) = static w"
  by (simp add: wait_event_def Let_def case_prod_beta static_upd split: option.split)

lemma static_closeall [simp]: "static (CloseAllConnections c t w) = static w"
proof -
  have "static (close_all n c t w) = static w" for n w
    by (induction n arbitrary: w) (simp_all add: Let_def case_prod_beta split: option.split)
  then show ?thesis
    unfolding CloseAllConnections_def by blast
qed

lemma static_sweep [simp]: "static (SweepDeadConnections c now w) = static w"
  by (simp add: SweepDeadConnections_def Let_def static_upd)

lemma static_cleanup [simp]: "static (ThreadCleanup c w) = static w"
  by (simp add: ThreadCleanup_def Let_def)

lemma static_turn [simp]: "static (snd (Tcp_turn hmac md5 tr w)) = static w"
  by (simp add: Tcp_turn_def Let_def case_prod_beta static_upd)

lemma static_run [simp]: "static (snd (Tcp_Run hmac md5 turns w)) = static w"
  by (induction turns arbitrary: w) (simp_all add: case_prod_beta)

section \<open>The life of the server\<close>

definition res_of :: "CTCPStunThread option \<Rightarrow> int multiset" where
  "res_of x = (case x of None \<Rightarrow> {#} | Some th \<Rightarrow> thread_res th)"

definition all_res :: "(SocketRole \<Rightarrow> CTCPStunThread option) \<Rightarrow> int multiset" where
  "all_res ths = res_of (ths RolePP) + res_of (ths RolePA) + res_of (ths RoleAP) + res_of (ths RoleAA)"

lemma all_res_upd: "all_res (ths(r := x)) + res_of (ths r) = all_res ths + res_of x"
  by (cases r) (simp_all add: all_res_def ac_simps)

definition thread_fine :: "TcpWorld \<Rightarrow> bool" where
  "thread_fine v \<longleftrightarrow> (\<exists>R. tcp_inv R None v) \<and> (tt_fThreadIsValid (tw_th v) \<or> taken v = {}) \<or> tcp_idle (tw_th v) \<and> taken v = {}"

definition server_ok :: "int multiset \<Rightarrow> TcpServerWorld \<Rightarrow> bool" where
  "server_ok base w \<longleftrightarrow> mset (sw_fds w) = base + all_res (sw_threads w) \<and>
     (\<forall>r th. sw_threads w r = Some th \<longrightarrow> thread_fine (thread_world w th))"

lemma thread_world_fields [simp]: "tw_th (thread_world w th) = th" "tw_fds (thread_world w th) = sw_fds w"
  by (simp_all add: thread_world_def)

lemma taken_world: "taken (thread_world w th) = taken (thread_world w' th)"
  by (simp add: taken_th)

text \<open>A thread is fine in the world of another's turn as long as its descriptors are still open.\<close>

lemma fine_other:
  assumes "thread_fine (thread_world w th)" "mset (sw_fds w') = R + thread_res th"
  shows "thread_fine (thread_world w' th)"
  using assms inv_other [of _ "thread_world w th" "sw_fds w'" R "sw_limiter w'" "sw_sent w'"] taken_world [of w th w']
  unfolding thread_fine_def by (auto simp: thread_world_def)

lemma put_thread_ok:
  assumes ok: "server_ok base w" and f: "thread_fine v" "mset (tw_fds v) = R + thread_res (tw_th v)"
    and R: "mset (sw_fds w) = R + res_of (sw_threads w r)"
  shows "server_ok base (put_thread r v w)"
proof -
  let ?w = "put_thread r v w"
  have t: "sw_threads ?w = (sw_threads w)(r \<mapsto> tw_th v)" "sw_fds ?w = tw_fds v"
    by (simp_all add: put_thread_def)
  have "R + res_of (sw_threads w r) = base + all_res (sw_threads w)"
    using ok R by (simp add: server_ok_def)
  then have "R + res_of (Some (tw_th v)) + res_of (sw_threads w r) = base + all_res (sw_threads ?w) + res_of (sw_threads w r)"
    using all_res_upd [of "sw_threads w" r "Some (tw_th v)"] by (simp add: t ac_simps)
  then have m: "mset (sw_fds ?w) = base + all_res (sw_threads ?w)"
    using f(2) by (simp add: t res_of_def)
  have "thread_fine (thread_world ?w th)" if th: "sw_threads ?w q = Some th" for q th
  proof (cases "q = r")
    case True
    then have "thread_world ?w th = v"
      using th by (simp add: t) (simp add: thread_world_def put_thread_def)
    then show ?thesis
      using f(1) by simp
  next
    case False
    have "thread_fine (thread_world w th)"
      using th False ok by (simp add: t server_ok_def)
    moreover have "all_res (sw_threads ?w) = all_res ((sw_threads ?w)(q := None)) + thread_res th"
      using all_res_upd [of "sw_threads ?w" q None] th by (simp add: res_of_def)
    then have "mset (sw_fds ?w) = base + all_res ((sw_threads ?w)(q := None)) + thread_res th"
      using m by (simp add: ac_simps)
    ultimately show ?thesis
      by (rule fine_other)
  qed
  then show ?thesis
    using m by (simp add: server_ok_def)
qed

text \<open>The other descriptors, from the point of view of one thread.\<close>

lemma fine_inv:
  assumes ok: "server_ok base w" and th: "sw_threads w r = Some th"
  obtains R where "mset (sw_fds w) = R + thread_res th" "tcp_inv R None (thread_world w th) \<and> (tt_fThreadIsValid th \<or> taken (thread_world w th) = {})
    \<or> tcp_idle th \<and> taken (thread_world w th) = {}"
proof -
  have f: "thread_fine (thread_world w th)"
    using ok th by (simp add: server_ok_def)
  have m: "mset (sw_fds w) = base + all_res ((sw_threads w)(r := None)) + thread_res th"
    using ok all_res_upd [of "sw_threads w" r None] th by (simp add: server_ok_def res_of_def ac_simps)
  have "R = base + all_res ((sw_threads w)(r := None))" if "tcp_inv R None (thread_world w th)" for R
    using inv_res_sum [OF that] m by simp
  then show thesis
    using f m that [OF m] unfolding thread_fine_def by auto
qed

lemma server_turn_ok:
  assumes ok: "server_ok base w" and a: "accept_fresh tr" and h: "hmac_ok hmac" "md5_ok md5"
  shows "server_ok base (TcpServer_turn hmac md5 (r, tr) w)"
proof (cases "\<exists>th. sw_threads w r = Some th \<and> tt_fThreadIsValid th")
  case True
  then obtain th where th: "sw_threads w r = Some th" "tt_fThreadIsValid th"
    by blast
  obtain R where R: "mset (sw_fds w) = R + thread_res th" "tcp_inv R None (thread_world w th)"
    using fine_inv [OF ok th(1)] th(2) by (metis tcp_idle_def)
  define v where "v = snd (Tcp_Run hmac md5 [tr] (thread_world w th))"
  have i: "tcp_inv R None v"
    using Tcp_Run_inv [OF h R(2), of "[tr]"] a by (simp add: v_def)
  have "tt_fThreadIsValid (tw_th v)"
    using static_run [of hmac md5 "[tr]" "thread_world w th"] th(2) unfolding v_def by (simp add: static_def)
  then have "thread_fine v"
    using i by (auto simp: thread_fine_def)
  moreover have "mset (tw_fds v) = R + thread_res (tw_th v)"
    by (rule inv_res_sum [OF i])
  moreover have "mset (sw_fds w) = R + res_of (sw_threads w r)"
    using R(1) th(1) by (simp add: res_of_def)
  ultimately have "server_ok base (put_thread r v w)"
    by (rule put_thread_ok [OF ok])
  then show ?thesis
    using th by (simp add: TcpServer_turn_def v_def)
next
  case False
  then show ?thesis
    using ok by (auto simp: TcpServer_turn_def split: option.split)
qed

lemma start_threads_ok: "server_ok base w \<Longrightarrow> server_ok base (snd (start_threads created roles w))"
proof (induction roles arbitrary: w)
  case (Cons r roles)
  show ?case
  proof (cases "sw_threads w r")
    case (Some th)
    define v where "v = snd (TcpThread_Start (created r) (thread_world w th))"
    obtain R where R: "mset (sw_fds w) = R + thread_res th" "tcp_inv R None (thread_world w th) \<and> (tt_fThreadIsValid th \<or> taken (thread_world w th) = {})
      \<or> tcp_idle th \<and> taken (thread_world w th) = {}"
      using fine_inv [OF Cons.prems Some] by metis
    have f: "tw_fds v = sw_fds w" "taken v = taken (thread_world w th)" "thread_res (tw_th v) = thread_res th"
      "tt_fThreadIsValid th \<Longrightarrow> tt_fThreadIsValid (tw_th v)"
      by (simp_all add: v_def TcpThread_Start_def Let_def taken_th thread_res_def own_fds_def)
    have "thread_fine v"
    proof (cases "tcp_idle th \<and> taken (thread_world w th) = {}")
      case True
      then have "v = thread_world w th"
        by (simp add: v_def TcpThread_Start_def tcp_idle_def)
      then show ?thesis
        using True by (simp add: thread_fine_def)
    next
      case False
      then show ?thesis
        using R(2) Start_inv(1) [of R "thread_world w th" "created r"] f(2,4) unfolding thread_fine_def v_def by auto
    qed
    moreover have "mset (tw_fds v) = R + thread_res (tw_th v)" "mset (sw_fds w) = R + res_of (sw_threads w r)"
      using R(1) f Some by (simp_all add: res_of_def)
    ultimately have "server_ok base (put_thread r v w)"
      by (rule put_thread_ok [OF Cons.prems])
    then show ?thesis
      using Cons.IH Some by (simp add: case_prod_beta chk_def v_def)
  qed (use Cons in simp)
qed simp

lemma idle_taken: "tcp_idle (tw_th v) \<Longrightarrow> taken v = {}"
  by (simp add: taken_th tcp_idle_def FH_Init_def FH_Reset_def FH_Lookup_def FH_Find_def Let_def case_prod_beta dom_def)

lemma idle_res_none: "tcp_idle th \<Longrightarrow> thread_res th = {#}"
  using idle_taken [of "\<lparr>tw_fds = [], tw_limiter = undefined, tw_sent = [], tw_th = th\<rparr>"]
  by (simp add: thread_res_def taken_th) (simp add: tcp_idle_def)

definition stops_ok :: "(SocketRole \<Rightarrow> ThreadStop) \<Rightarrow> bool" where
  "stops_ok stop \<longleftrightarrow> (\<forall>r. list_all accept_fresh (st_turns (stop r)))"

lemma delete_thread_ok:
  assumes ok: "server_ok base w" and h: "hmac_ok hmac" "md5_ok md5" and s: "stops_ok stop"
  shows "server_ok base (delete_thread hmac md5 stop r w)" "sw_threads (delete_thread hmac md5 stop r w) = (sw_threads w)(r := None)"
proof -
  have "server_ok base (delete_thread hmac md5 stop r w) \<and> sw_threads (delete_thread hmac md5 stop r w) = (sw_threads w)(r := None)"
  proof (cases "sw_threads w r")
    case (Some th)
    obtain R where R: "mset (sw_fds w) = R + thread_res th" "tcp_inv R None (thread_world w th) \<and> (tt_fThreadIsValid th \<or> taken (thread_world w th) = {})
      \<or> tcp_idle th \<and> taken (thread_world w th) = {}"
      using fine_inv [OF ok Some] by metis
    define v where "v = snd (TcpThread_Stop hmac md5 (st_turns (stop r)) (st_poll (stop r)) (st_now (stop r)) (thread_world w th))"
    have rest: "tcp_at_rest R v"
    proof (cases "tcp_idle th")
      case True
      then have "v = TcpThread_Reset (st_now (stop r)) (thread_world w th)"
        by (simp add: v_def TcpThread_Stop_def tcp_idle_def)
      moreover have "R = mset (tw_fds (thread_world w th))"
        using R(1) idle_res_none [OF True] by simp
      ultimately show ?thesis
        using Reset_gives_back [OF idle_res [of "thread_world w th"]] True by (simp add: tcp_at_rest_def)
    next
      case False
      then show ?thesis
        using R(2) s h unfolding v_def by (intro Stop_gives_back(2)) (auto simp: stops_ok_def)
    qed
    then have i: "thread_fine v" "mset (tw_fds v) = R + thread_res (tw_th v)" "thread_res (tw_th v) = {#}"
      using idle_taken idle_res_none by (auto simp: tcp_at_rest_def thread_fine_def)
    have "mset (sw_fds w) = R + res_of (sw_threads w r)"
      using R(1) Some by (simp add: res_of_def)
    from put_thread_ok [OF ok i(1,2) this] have p: "server_ok base (put_thread r v w)" .
    define w' where "w' = (put_thread r v w)\<lparr>sw_threads := (sw_threads (put_thread r v w))(r := None)\<rparr>"
    have d: "delete_thread hmac md5 stop r w = w'"
      by (simp add: delete_thread_def Some case_prod_beta Let_def v_def w'_def)
    have t: "sw_threads w' = (sw_threads w)(r := None)" "sw_fds w' = sw_fds (put_thread r v w)"
      by (simp_all add: w'_def put_thread_def)
    have "all_res (sw_threads (put_thread r v w)) = all_res (sw_threads w')"
      using all_res_upd [of "sw_threads (put_thread r v w)" r None] i(3) by (simp add: w'_def) (simp add: put_thread_def res_of_def)
    moreover have "thread_fine (thread_world w' th)" if "sw_threads w' q = Some th" for q th
    proof -
      have "thread_fine (thread_world (put_thread r v w) th)"
        using that p by (auto simp: server_ok_def w'_def split: if_splits)
      moreover have "thread_world w' th = thread_world (put_thread r v w) th"
        by (simp add: thread_world_def w'_def)
      ultimately show ?thesis
        by simp
    qed
    ultimately show ?thesis
      using p t d by (simp add: server_ok_def)
  next
    case None
    then show ?thesis
      using ok by (simp add: delete_thread_def fun_upd_idem)
  qed
  then show "server_ok base (delete_thread hmac md5 stop r w)" "sw_threads (delete_thread hmac md5 stop r w) = (sw_threads w)(r := None)"
    by simp_all
qed

lemma Shutdown_gives_back:
  assumes "server_ok base w" "hmac_ok hmac" "md5_ok md5" "stops_ok stop"
  defines "w' \<equiv> snd (TcpServer_Shutdown hmac md5 stop w)"
  shows "mset (sw_fds w') = base" "sw_threads w' = (\<lambda>_. None)"
proof -
  have f: "server_ok base (fold (delete_thread hmac md5 stop) rs w) \<and>
      sw_threads (fold (delete_thread hmac md5 stop) rs w) = (\<lambda>r. if r \<in> set rs then None else sw_threads w r)"
    if "server_ok base w" for rs w
    using that
  proof (induction rs arbitrary: w)
    case (Cons r rs)
    note d = delete_thread_ok [OF Cons.prems assms(2-4), of r]
    show ?case
      using Cons.IH [OF d(1)] d(2) by (auto simp: fun_eq_iff)
  qed simp
  show t: "sw_threads w' = (\<lambda>_. None)"
    using f [OF assms(1), of all_roles] by (simp add: w'_def TcpServer_Shutdown_def)
  show "mset (sw_fds w') = base"
    using f [OF assms(1), of all_roles] t by (simp add: w'_def TcpServer_Shutdown_def server_ok_def all_res_def res_of_def)
qed

section \<open>Initialisation\<close>

definition tcp_config_ok :: "CStunServerConfig \<Rightarrow> bool" where
  "tcp_config_ok config \<longleftrightarrow> is_ip_addr (addrPP config) \<and> is_ip_addr (addrPA config) \<and> is_ip_addr (addrAP config) \<and>
     is_ip_addr (addrAA config) \<and> is_ip_addr (addrPrimaryAdvertised config) \<and> is_ip_addr (addrAlternateAdvertised config)"

lemma InitTSA_ok: "handler_addresses_ok tsa \<Longrightarrow> is_ip_addr a \<Longrightarrow> is_ip_addr adv \<Longrightarrow> handler_addresses_ok (InitTSA tsa r f a adv)"
  using SetPort_ip by (simp add: handler_addresses_ok_def InitTSA_def)

lemma tsaHandler_ok: "tcp_config_ok config \<Longrightarrow> handler_addresses_ok (tsaHandler_of config)"
  unfolding tsaHandler_of_def init_tsas_def Let_def
  by (intro InitTSA_ok) (simp_all add: tcp_config_ok_def handler_addresses_ok_def tsa_zero_def)

lemma init_thread_ok:
  assumes ok: "server_ok base w" and n: "sw_threads w r = None" and os: "init_calls_ok os" and c: "tcp_config_ok config"
  shows "server_ok base (snd (init_thread os r tsaListen config w))"
    "r' \<noteq> r \<Longrightarrow> sw_threads (snd (init_thread os r tsaListen config w)) r' = sw_threads w r'"
proof -
  define v0 where "v0 = thread_world w (CTCPStunThread_new (ti_now os))"
  obtain hr v where i: "TcpThread_Init os tsaListen (tsaHandler_of config) None (sint (nMaxConnections config)) (fEnableDosProtection config) v0 = (hr, v)"
    by fastforce
  have idle: "tcp_idle (tw_th v0)"
    using new_idle by (simp add: v0_def)
  note out = Init_outcome [OF idle os tsaHandler_ok [OF c] i]
  have "thread_fine v \<and> mset (tw_fds v) = mset (tw_fds v0) + thread_res (tw_th v)"
  proof (cases "FAILED hr")
    case True
    then have "mset (tw_fds v) = mset (tw_fds v0)" "tcp_idle (tw_th v)"
      using out by (simp_all add: tcp_at_rest_def)
    then show ?thesis
      using idle_taken [of v] idle_res_none [of "tw_th v"] by (simp add: thread_fine_def)
  next
    case False
    then have "tcp_inv (mset (tw_fds v0)) None v" "taken v = {}"
      using out by (simp_all add: tcp_ready_def)
    then show ?thesis
      using inv_res_sum by (auto simp: thread_fine_def)
  qed
  moreover have "mset (sw_fds w) = mset (tw_fds v0) + res_of (sw_threads w r)"
    by (simp add: v0_def n res_of_def)
  ultimately have "server_ok base (put_thread r v w)"
    using put_thread_ok [OF ok] by blast
  then show "server_ok base (snd (init_thread os r tsaListen config w))"
    "r' \<noteq> r \<Longrightarrow> sw_threads (snd (init_thread os r tsaListen config w)) r' = sw_threads w r'"
    using i by (simp_all add: init_thread_def v0_def put_thread_def)
qed

lemma init_threads_ok:
  "server_ok base w \<Longrightarrow> \<forall>r\<in>set roles. sw_threads w r = None \<Longrightarrow> distinct roles \<Longrightarrow> \<forall>r. init_calls_ok (os r) \<Longrightarrow> tcp_config_ok config \<Longrightarrow>
    server_ok base (snd (init_threads os config roles w))"
proof (induction roles arbitrary: w)
  case (Cons r roles)
  have n: "sw_threads w r = None" "init_calls_ok (os r)"
    using Cons.prems by simp_all
  define w1 where "w1 = snd (init_thread (os r) r (only_role r (tsaListenAll_of config)) config w)"
  note t = init_thread_ok [OF Cons.prems(1) n Cons.prems(5), where tsaListen = "only_role r (tsaListenAll_of config)", folded w1_def]
  have "\<forall>q\<in>set roles. sw_threads w1 q = None"
  proof
    fix q
    assume "q \<in> set roles"
    with Cons.prems(2,3) have "q \<noteq> r" "sw_threads w q = None"
      by auto
    with t(2) show "sw_threads w1 q = None"
      by simp
  qed
  then have "server_ok base (snd (init_threads os config roles w1))"
    using Cons.IH [OF t(1)] Cons.prems(3-5) by simp
  moreover have "server_ok base (snd (init_threads os config roles w))"
    using Cons.IH [OF Cons.prems(1)] Cons.prems(2-5) by simp
  ultimately show ?case
    using t(1) by (auto simp: chk_def w1_def)
qed simp

lemma Initialize_ok:
  assumes ok: "server_ok base w" and n: "sw_threads w = (\<lambda>_. None)" and os: "\<forall>r. init_calls_ok (os r)" and c: "tcp_config_ok config"
    and h: "hmac_ok hmac" "md5_ok md5" and s: "stops_ok stop" and r: "TcpServer_Initialize hmac md5 stop os config w = (hr, w')"
  shows "server_ok base w'" "FAILED hr \<Longrightarrow> sw_threads w' = (\<lambda>_. None)"
proof -
  define w1 where "w1 = (if fEnableDosProtection config then w\<lparr>sw_limiter := RateLimiter_init 20000 (fMultiThreadedMode config)\<rparr> else w)"
  have ok1: "server_ok base w1" "sw_threads w1 = (\<lambda>_. None)"
    using ok n by (simp_all add: w1_def server_ok_def)
  define x where "x = (if fMultiThreadedMode config = False then init_thread (os RolePP) RolePP (tsaListenAll_of config) config w1
           else init_threads os config all_roles w1)"
  obtain xh xw where xe: "x = (xh, xw)"
    by fastforce
  have "server_ok base (snd x)"
    using init_thread_ok(1) [OF ok1(1) _ _ c] init_threads_ok [OF ok1(1) _ _ os c] ok1(2) os by (simp add: x_def)
  then have "server_ok base xw"
    by (simp add: xe)
  moreover from this have "server_ok base (snd (TcpServer_Shutdown hmac md5 stop xw))" "sw_threads (snd (TcpServer_Shutdown hmac md5 stop xw)) = (\<lambda>_. None)"
    using Shutdown_gives_back [OF _ h s, of base xw] by (auto simp: server_ok_def all_res_def res_of_def)
  moreover have "TcpServer_Initialize hmac md5 stop os config w = (if FAILED (fst x) then (fst x, snd (TcpServer_Shutdown hmac md5 stop (snd x))) else x)"
    using n unfolding TcpServer_Initialize_def Let_def w1_def [symmetric] x_def [symmetric] case_prod_beta by simp
  ultimately show "server_ok base w'" "FAILED hr \<Longrightarrow> sw_threads w' = (\<lambda>_. None)"
    using r by (auto simp: xe split: if_splits)
qed

text \<open>C22: the TCP server loses no descriptor. An \<open>Initialize\<close> that fails leaves no thread behind and the descriptors
  of before; after one that succeeds, the same holds when the server is stopped, however many of its threads
  \<open>Start\<close> could create, whatever their clients did, and in whatever order the threads took their turns.\<close>

theorem tcp_server_gives_back:
  assumes "sw_threads w = (\<lambda>_. None)" "\<forall>r. init_calls_ok (os r)" "tcp_config_ok config" "hmac_ok hmac" "md5_ok md5"
    and "stops_ok stop" "list_all (\<lambda>(r, tr). accept_fresh tr) turns" "TcpServer_Initialize hmac md5 stop os config w = (hr, w1)"
  shows "let w2 = if FAILED hr then w1
      else snd (TcpServer_Stop hmac md5 stop (fold (TcpServer_turn hmac md5) turns (snd (TcpServer_Start created w1)))) in
    mset (sw_fds w2) = mset (sw_fds w) \<and> sw_threads w2 = (\<lambda>_. None)"
proof -
  have ok: "server_ok (mset (sw_fds w)) w"
    using assms(1) by (simp add: server_ok_def all_res_def res_of_def)
  note i = Initialize_ok [OF ok assms(1-6,8)]
  show ?thesis
  proof (cases "FAILED hr")
    case True
    then show ?thesis
      using i by (simp add: server_ok_def all_res_def res_of_def)
  next
    case False
    have "server_ok (mset (sw_fds w)) (fold (TcpServer_turn hmac md5) turns v)" if "server_ok (mset (sw_fds w)) v" for v
      using that assms(7) server_turn_ok [OF _ _ assms(4,5)] by (induction turns arbitrary: v) auto
    then have "server_ok (mset (sw_fds w)) (fold (TcpServer_turn hmac md5) turns (snd (TcpServer_Start created w1)))"
      using start_threads_ok [OF i(1)] by (simp add: TcpServer_Start_def)
    from Shutdown_gives_back [OF this assms(4-6)] show ?thesis
      using False by (simp add: TcpServer_Stop_def)
  qed
qed

definition example_tcp_config :: CStunServerConfig where
  "example_tcp_config = CStunServerConfig_new\<lparr>fHasPP := True, fHasAA := True, fMultiThreadedMode := True, fTCP := True,
     nMaxConnections := 2, addrPP := CSocketAddress_ipv4 0x0A000001 3478, addrAA := CSocketAddress_ipv4 0x0A000002 3479\<rparr>"

definition example_tcp_init :: "SocketRole \<Rightarrow> TcpInit" where
  "example_tcp_init r = (let n = (if r = RolePP then 3 else 10) in example_init\<lparr>
     ti_sock := (\<lambda>q. (ti_sock example_init q)\<lparr>sc_socket := n\<rparr>), ti_pipe := Some (n + 1, n + 2), ti_epoll_create := n + 3\<rparr>)"

definition example_stop :: "SocketRole \<Rightarrow> ThreadStop" where
  "example_stop r = \<lparr>st_turns = [], st_poll = ti_poll example_init, st_now = 0\<rparr>"

theorem tcp_server_gives_back_witness:
  "let w = \<lparr>sw_fds = [0, 1, 2], sw_limiter = RateLimiter_init 1 False, sw_sent = [], sw_threads = (\<lambda>_. None)\<rparr>;
      (hr, w1) = TcpServer_Initialize example_hmac example_md5 example_stop example_tcp_init example_tcp_config w;
      w2 = (if FAILED hr then w1 else snd (TcpServer_Stop example_hmac example_md5 example_stop
        (fold (TcpServer_turn example_hmac example_md5) [(RolePP, example_tcp_turn), (RoleAA, example_tcp_turn)] (snd (TcpServer_Start (\<lambda>_. (0, 0)) w1)))))
    in mset (sw_fds w2) = {#0, 1, 2#} \<and> sw_threads w2 = (\<lambda>_. None)"
proof -
  define w where "w = \<lparr>sw_fds = [0, 1, 2], sw_limiter = RateLimiter_init 1 False, sw_sent = [], sw_threads = (\<lambda>_. None)\<rparr>"
  obtain hr w1 where i: "TcpServer_Initialize example_hmac example_md5 example_stop example_tcp_init example_tcp_config w = (hr, w1)"
    by fastforce
  have "\<forall>r. init_calls_ok (example_tcp_init r)" "tcp_config_ok example_tcp_config" "stops_ok example_stop"
    by (auto simp: init_calls_ok_def example_tcp_init_def example_init_def tcp_config_ok_def example_tcp_config_def CStunServerConfig_new_def
        stops_ok_def example_stop_def Let_def)
  moreover have "list_all (\<lambda>(r, tr). accept_fresh tr) [(RolePP, example_tcp_turn), (RoleAA, example_tcp_turn)]"
    using example_tcp_ok(3) by simp
  ultimately show ?thesis
    using tcp_server_gives_back [OF _ _ _ example_hash_ok _ _ i, of "[(RolePP, example_tcp_turn), (RoleAA, example_tcp_turn)]" "\<lambda>_. (0, 0)"]
    by (simp only: w_def [symmetric] i Let_def case_prod_conv) (simp add: w_def)
qed

end
