(* ===== verification/StunServerArgs.thy ===== *)
theory StunServerArgs imports StunTcpServer StunText begin

text \<open>
  From the arguments of the STUN server to its configuration: networkutils/adapters.cpp and
  resolvehostname.cpp, common/cmdlineparser.cpp, and the part of server/main.cpp that builds a
  \<open>CStunServerConfig\<close>.  What \<open>getifaddrs\<close>, \<open>getaddrinfo\<close>, \<open>inet_pton\<close> and \<open>getopt_long_only\<close> answer and
  the JSON parser of boost are arguments.  Messages to the user are left out.
\<close>

section \<open>Network adapters\<close>

record IfAddr =
  ifa_name :: "bytes option"
  ifa_addr :: "CSocketAddress option"
  ifa_up :: bool
  ifa_loopback :: bool

fun default_adapters :: "u16 \<Rightarrow> IfAddr list \<Rightarrow> IfAddr option \<Rightarrow> IfAddr option \<times> IfAddr option" where
  "default_adapters family [] pAddrPrimary = (pAddrPrimary, None)"
| "default_adapters family (pAdapter # rest) pAddrPrimary =
     (if (case ifa_addr pAdapter of None \<Rightarrow> False | Some a \<Rightarrow> sa_family a = family) \<and> ifa_up pAdapter \<and> \<not> ifa_loopback pAdapter
      then (case pAddrPrimary of None \<Rightarrow> default_adapters family rest (Some pAdapter) | Some _ \<Rightarrow> (pAddrPrimary, Some pAdapter))
      else default_adapters family rest pAddrPrimary)"

definition GetDefaultAdapters :: "u16 \<Rightarrow> IfAddr list \<Rightarrow> IfAddr option \<times> IfAddr option" where
  "GetDefaultAdapters family pList = default_adapters family pList None"

definition HasAtLeastTwoAdapters :: "IfAddr list option \<Rightarrow> u16 \<Rightarrow> bool" where
  "HasAtLeastTwoAdapters getifaddrs family = (case getifaddrs of None \<Rightarrow> False
     | Some pList \<Rightarrow> let (pAdapter1, pAdapter2) = GetDefaultAdapters family pList in pAdapter1 \<noteq> None \<and> pAdapter2 \<noteq> None)"

text \<open>The results with the address that was written, \<open>None\<close> for none.\<close>

definition GetBestAddressForSocketBind :: "IfAddr list option \<Rightarrow> u32 \<Rightarrow> bool \<Rightarrow> u16 \<Rightarrow> u16 \<Rightarrow> hresult \<times> CSocketAddress option" where
  "GetBestAddressForSocketBind getifaddrs errno fPrimary family port = (case getifaddrs of None \<Rightarrow> (ERRNOHR_of errno, None)
     | Some pList \<Rightarrow>
         let (pAdapter1, pAdapter2) = GetDefaultAdapters family pList in
         (case (if fPrimary then pAdapter1 else pAdapter2) of None \<Rightarrow> (E_FAIL, None)
         | Some pAdapter \<Rightarrow> (case ifa_addr pAdapter of None \<Rightarrow> (E_UNEXPECTED, None)
             | Some a \<Rightarrow> (S_OK, Some (SetPort (CommonConstructor a) port)))))"

text \<open>The address of an adapter, as it lies in memory, compared with the bytes of \<open>inet_pton\<close>.\<close>

definition adapter_named :: "u16 \<Rightarrow> bytes \<Rightarrow> IfAddr \<Rightarrow> bool" where
  "adapter_named family name pAdapter = (case (ifa_addr pAdapter, ifa_name pAdapter) of
     (Some a, Some n) \<Rightarrow> family = sa_family a \<and> n = name | _ \<Rightarrow> False)"

definition adapter_has_ip :: "u16 \<Rightarrow> bytes \<Rightarrow> IfAddr \<Rightarrow> bool" where
  "adapter_has_ip family addrbytes pAdapter = (case ifa_addr pAdapter of None \<Rightarrow> False
     | Some a \<Rightarrow> family = sa_family a \<and> (if family = AF_INET then sa_b4 a else sa_b16 a) = addrbytes)"

definition GetSocketAddressForAdapter :: "IfAddr list option \<Rightarrow> (u16 \<Rightarrow> bytes \<Rightarrow> bytes option) \<Rightarrow> u32 \<Rightarrow> u16 \<Rightarrow> bytes option \<Rightarrow> u16
    \<Rightarrow> hresult \<times> CSocketAddress option" where
  "GetSocketAddressForAdapter getifaddrs inet_pton errno family pszAdapterName port =
     (case pszAdapterName of None \<Rightarrow> (E_INVALIDARG, None)
      | Some name \<Rightarrow>
        if name = [] then (E_INVALIDARG, None)
        else case getifaddrs of None \<Rightarrow> (ERRNOHR_of errno, None)
        | Some pList \<Rightarrow>
            let pAdapterFound = find (adapter_named family name) pList;
                pAdapterFound = (if pAdapterFound = None \<and> (family = AF_INET \<or> family = AF_INET6)
                  then (case inet_pton family name of None \<Rightarrow> None | Some addrbytes \<Rightarrow> find (adapter_has_ip family addrbytes) pList)
                  else pAdapterFound) in
            (case pAdapterFound of None \<Rightarrow> (E_FAIL, None)
             | Some pAdapter \<Rightarrow> (S_OK, Some (SetPort (CommonConstructor (the (ifa_addr pAdapter))) port))))"

section \<open>Names and numeric addresses\<close>

definition ResolveHostName :: "(bytes \<Rightarrow> u16 \<Rightarrow> bool \<Rightarrow> int \<times> CSocketAddress option) \<Rightarrow> bytes \<Rightarrow> u16 \<Rightarrow> bool
    \<Rightarrow> hresult \<times> CSocketAddress option" where
  "ResolveHostName getaddrinfo pszHostName family fNumericOnly =
     (let strHostName = Trim pszHostName in
      if length strHostName = 0 then (E_INVALIDARG, None)
      else let (ret, pResultList) = getaddrinfo strHostName family fNumericOnly in
        if ret \<noteq> 0 then (ERRNO_TO_HRESULT (word_of_int ret), None)
        else case pResultList of None \<Rightarrow> (E_FAIL, None) | Some a \<Rightarrow> (S_OK, Some (CommonConstructor a)))"

definition NumericIPToAddress :: "(u16 \<Rightarrow> bytes \<Rightarrow> bytes option) \<Rightarrow> u16 \<Rightarrow> bytes \<Rightarrow> hresult \<times> CSocketAddress option" where
  "NumericIPToAddress inet_pton family pszIP =
     (if family \<noteq> AF_INET \<and> family \<noteq> AF_INET6 then (E_INVALIDARG, None)
      else case inet_pton family pszIP of None \<Rightarrow> (E_FAIL, None)
      | Some ip \<Rightarrow>
          if family = AF_INET
          then (S_OK, Some (CommonConstructor \<lparr>sa_family = family, sa_port = zero_bytes 2, sa_b4 = ip, sa_b16 = zero_bytes 16, sa_scope = zero_bytes 4\<rparr>))
          else (S_OK, Some (CSocketAddress_in6 (sockaddr_in6 (zero_bytes 2) ip))))"

section \<open>The command line\<close>

record StartupArgs =
  strMode :: bytes
  strPrimaryInterface :: bytes
  strAltInterface :: bytes
  strPrimaryPort :: bytes
  strAltPort :: bytes
  strPrimaryAdvertised :: bytes
  strAlternateAdvertised :: bytes
  strFamily :: bytes
  strProtocol :: bytes
  strHelp :: bytes
  strVerbosity :: bytes
  strMaxConnections :: bytes
  strDosProtect :: bytes
  strConfigFile :: bytes
  strReuseAddr :: bytes

definition StartupArgs_new :: StartupArgs where
  "StartupArgs_new = \<lparr>strMode = [], strPrimaryInterface = [], strAltInterface = [], strPrimaryPort = [], strAltPort = [],
     strPrimaryAdvertised = [], strAlternateAdvertised = [], strFamily = [], strProtocol = [], strHelp = [], strVerbosity = [],
     strMaxConnections = [], strDosProtect = [], strConfigFile = [], strReuseAddr = []\<rparr>"

text \<open>
  A string that an option is bound to is a way to update the arguments.  \<open>getopt_long_only\<close> answers an error or
  the index of an option with the argument that it found.
\<close>

datatype has_arg = no_argument | required_argument | optional_argument

record 'a OptionDetail =
  od_strName :: string
  od_has_arg :: has_arg
  od_pStrResult :: "bytes \<Rightarrow> 'a \<Rightarrow> 'a"

record 'a CCmdLineParser =
  clp_namelessArgs :: "(bytes \<Rightarrow> 'a \<Rightarrow> 'a) list"
  clp_listOptionDetails :: "'a OptionDetail list"

datatype getopt_answer = GetoptError | GetoptOption nat "bytes option"

definition AddOption :: "string \<Rightarrow> has_arg \<Rightarrow> (bytes \<Rightarrow> 'a \<Rightarrow> 'a) \<Rightarrow> 'a CCmdLineParser \<Rightarrow> 'a CCmdLineParser" where
  "AddOption pszName has pStrResult p = p\<lparr>clp_listOptionDetails := clp_listOptionDetails p @
     [\<lparr>od_strName = pszName, od_has_arg = has, od_pStrResult = pStrResult\<rparr>]\<rparr>"

definition AddNonOption :: "(bytes \<Rightarrow> 'a \<Rightarrow> 'a) \<Rightarrow> 'a CCmdLineParser \<Rightarrow> 'a CCmdLineParser" where
  "AddNonOption pStrResult p = p\<lparr>clp_namelessArgs := clp_namelessArgs p @ [pStrResult]\<rparr>"

fun getopt_loop :: "'a OptionDetail list \<Rightarrow> getopt_answer list \<Rightarrow> bool \<Rightarrow> 'a \<Rightarrow> bool \<times> 'a" where
  "getopt_loop opts [] err args = (err, args)"
| "getopt_loop opts (GetoptError # rest) err args = getopt_loop opts rest True args"
| "getopt_loop opts (GetoptOption index optarg # rest) err args =
     (let od = opts ! index;
          value = (if od_has_arg od \<noteq> no_argument \<and> optarg \<noteq> None then the optarg else chars_of ''1'') in
      getopt_loop opts rest err (od_pStrResult od value args))"

fun nameless_loop :: "(bytes \<Rightarrow> 'a \<Rightarrow> 'a) list \<Rightarrow> bytes list \<Rightarrow> 'a \<Rightarrow> 'a" where
  "nameless_loop names [] args = args"
| "nameless_loop names (arg # rest) args =
     (if arg = chars_of ''--'' then nameless_loop names rest args
      else case names of [] \<Rightarrow> args | name # names \<Rightarrow> nameless_loop names rest (name arg args))"

text \<open>\<open>getopt\<close> are the answers of \<open>getopt_long_only\<close>, \<open>remaining\<close> the arguments behind \<open>optind\<close>.\<close>

definition ParseCommandLine :: "'a CCmdLineParser \<Rightarrow> getopt_answer list \<Rightarrow> bytes list \<Rightarrow> 'a \<Rightarrow> hresult \<times> bool \<times> 'a" where
  "ParseCommandLine p getopt remaining args =
     (let (err, args) = getopt_loop (clp_listOptionDetails p) getopt False args in
      (S_OK, err, nameless_loop (clp_namelessArgs p) remaining args))"

definition server_options :: "StartupArgs CCmdLineParser" where
  "server_options = fold (\<lambda>(name, has, result). AddOption name has result)
     [(''mode'', required_argument, \<lambda>s a. a\<lparr>strMode := s\<rparr>),
      (''primaryinterface'', required_argument, \<lambda>s a. a\<lparr>strPrimaryInterface := s\<rparr>),
      (''altinterface'', required_argument, \<lambda>s a. a\<lparr>strAltInterface := s\<rparr>),
      (''primaryadvertised'', required_argument, \<lambda>s a. a\<lparr>strPrimaryAdvertised := s\<rparr>),
      (''altadvertised'', required_argument, \<lambda>s a. a\<lparr>strAlternateAdvertised := s\<rparr>),
      (''primaryport'', required_argument, \<lambda>s a. a\<lparr>strPrimaryPort := s\<rparr>),
      (''altport'', required_argument, \<lambda>s a. a\<lparr>strAltPort := s\<rparr>),
      (''family'', required_argument, \<lambda>s a. a\<lparr>strFamily := s\<rparr>),
      (''protocol'', required_argument, \<lambda>s a. a\<lparr>strProtocol := s\<rparr>),
      (''maxconn'', required_argument, \<lambda>s a. a\<lparr>strMaxConnections := s\<rparr>),
      (''help'', no_argument, \<lambda>s a. a\<lparr>strHelp := s\<rparr>),
      (''verbosity'', required_argument, \<lambda>s a. a\<lparr>strVerbosity := s\<rparr>),
      (''ddp'', no_argument, \<lambda>s a. a\<lparr>strDosProtect := s\<rparr>),
      (''configfile'', required_argument, \<lambda>s a. a\<lparr>strConfigFile := s\<rparr>),
      (''reuseaddr'', no_argument, \<lambda>s a. a\<lparr>strReuseAddr := s\<rparr>)]
     \<lparr>clp_namelessArgs = [], clp_listOptionDetails = []\<rparr>"

definition ParseCommandLineArgs :: "getopt_answer list \<Rightarrow> bytes list \<Rightarrow> StartupArgs \<Rightarrow> hresult \<times> StartupArgs" where
  "ParseCommandLineArgs getopt remaining args =
     (let (_, fError, args) = ParseCommandLine server_options getopt remaining args in
      (if fError then E_INVALIDARG else S_OK, args))"

section \<open>The configuration file\<close>

text \<open>
  \<open>read_json\<close> and \<open>get_child\<close> of boost give the children of \<open>configurations\<close>, each as a lookup of its
  strings, or throw, which is \<open>None\<close>.
\<close>

definition json_get :: "(string \<Rightarrow> bytes option) \<Rightarrow> string \<Rightarrow> bytes" where
  "json_get child key = (case child key of None \<Rightarrow> [] | Some v \<Rightarrow> v)"

definition args_of_json :: "(string \<Rightarrow> bytes option) \<Rightarrow> StartupArgs" where
  "args_of_json child = StartupArgs_new\<lparr>strMode := json_get child ''mode'', strPrimaryInterface := json_get child ''primaryinterface'',
     strAltInterface := json_get child ''altinterface'', strPrimaryAdvertised := json_get child ''primaryadvertised'',
     strAlternateAdvertised := json_get child ''altadvertised'', strPrimaryPort := json_get child ''primaryport'',
     strAltPort := json_get child ''altport'', strFamily := json_get child ''family'', strProtocol := json_get child ''protocol'',
     strMaxConnections := json_get child ''maxconn'', strDosProtect := json_get child ''ddp'', strReuseAddr := json_get child ''reuseaddr''\<rparr>"

definition LoadConfigsFromFile :: "(bytes \<Rightarrow> (string \<Rightarrow> bytes option) list option) \<Rightarrow> bytes \<Rightarrow> StartupArgs list \<Rightarrow> hresult \<times> StartupArgs list" where
  "LoadConfigsFromFile read_json filename configurations = (case read_json filename of None \<Rightarrow> (E_FAIL, [])
     | Some children \<Rightarrow> let configurations = configurations @ map args_of_json children in
         if length configurations = 0 then (E_FAIL, []) else (S_OK, configurations))"

section \<open>The configuration of a server\<close>

text \<open>
  What the host answers while a configuration is built: \<open>getifaddrs\<close> at each of the three places that call it.
\<close>

record HostCalls =
  hc_two_adapters :: "IfAddr list option"
  hc_primary :: "IfAddr list option"
  hc_alternate :: "IfAddr list option"
  hc_inet_pton :: "u16 \<Rightarrow> bytes \<Rightarrow> bytes option"
  hc_errno :: u32
  hc_atoi :: "bytes \<Rightarrow> int"

text \<open>The text of the best adapter's address is written back to a copy of the arguments that nothing reads any more.\<close>

definition ResolveAdapterName :: "IfAddr list option \<Rightarrow> HostCalls \<Rightarrow> bool \<Rightarrow> u16 \<Rightarrow> bytes \<Rightarrow> u16 \<Rightarrow> hresult \<times> CSocketAddress option" where
  "ResolveAdapterName getifaddrs host fPrimary family strAdapterName port =
     (if length strAdapterName = 0 then GetBestAddressForSocketBind getifaddrs (hc_errno host) fPrimary family port
      else GetSocketAddressForAdapter getifaddrs (hc_inet_pton host) (hc_errno host) family (Some (c_string strAdapterName)) port)"

datatype ServerMode = BasicMode | FullMode

definition normalized_args :: "StartupArgs \<Rightarrow> StartupArgs" where
  "normalized_args args =
     (let args = args\<lparr>strMode := Trim (ToLower (strMode args))\<rparr>;
          args = args\<lparr>strPrimaryInterface := Trim (strPrimaryInterface args)\<rparr>;
          args = args\<lparr>strAltInterface := Trim (strAltInterface args)\<rparr>;
          args = args\<lparr>strPrimaryPort := Trim (strPrimaryPort args)\<rparr>;
          args = args\<lparr>strAltPort := Trim (strAltPort args)\<rparr>;
          args = args\<lparr>strFamily := Trim (strFamily args)\<rparr>;
          args = args\<lparr>strProtocol := Trim (ToLower (strProtocol args))\<rparr>;
          args = args\<lparr>strPrimaryAdvertised := Trim (strPrimaryAdvertised args)\<rparr> in
      args\<lparr>strAlternateAdvertised := Trim (strAlternateAdvertised args)\<rparr>)"

definition mode_of_args :: "StartupArgs \<Rightarrow> hresult \<times> ServerMode" where
  "mode_of_args args =
     (if length (strMode args) > 0
      then if strMode args = chars_of ''basic'' then (S_OK, BasicMode)
           else if strMode args = chars_of ''full'' then (S_OK, FullMode) else (E_INVALIDARG, BasicMode)
      else (S_OK, BasicMode))"

definition family_of_args :: "StartupArgs \<Rightarrow> hresult \<times> u16" where
  "family_of_args args =
     (if length (strFamily args) > 0
      then if strFamily args = chars_of ''4'' then (S_OK, AF_INET)
           else if strFamily args = chars_of ''6'' then (S_OK, AF_INET6) else (E_INVALIDARG, AF_INET)
      else (S_OK, AF_INET))"

definition protocol_of_args :: "StartupArgs \<Rightarrow> CStunServerConfig \<Rightarrow> hresult \<times> CStunServerConfig" where
  "protocol_of_args args config =
     (if length (strProtocol args) > 0
      then if strProtocol args \<noteq> chars_of ''udp'' \<and> strProtocol args \<noteq> chars_of ''tcp'' then (E_INVALIDARG, config)
           else (S_OK, config\<lparr>fTCP := (strProtocol args = chars_of ''tcp'')\<rparr>)
      else (S_OK, config))"

text \<open>\<open>ValidateNumberString\<close> answers -1 for a failure, which becomes the result code.\<close>

definition max_connections_of_args :: "HostCalls \<Rightarrow> StartupArgs \<Rightarrow> CStunServerConfig \<Rightarrow> hresult \<times> CStunServerConfig" where
  "max_connections_of_args host args config =
     (if length (strMaxConnections args) > 0
      then if fTCP config = False then (S_OK, config\<lparr>nMaxConnections := 0\<rparr>)
           else (case ValidateNumberString (hc_atoi host) (Some (c_string (strMaxConnections args))) 1 100000 of
               None \<Rightarrow> (-1, config)
             | Some n \<Rightarrow> (S_OK, config\<lparr>nMaxConnections := word_of_int n\<rparr>))
      else (S_OK, config))"

definition port_of_args :: "HostCalls \<Rightarrow> bytes \<Rightarrow> int \<Rightarrow> hresult \<times> int" where
  "port_of_args host str nPort =
     (if length str > 0
      then (case ValidateNumberString (hc_atoi host) (Some (c_string str)) 0x0001 0xffff of
          None \<Rightarrow> (-1, nPort) | Some n \<Rightarrow> (S_OK, n))
      else (S_OK, nPort))"

definition basic_addresses :: "HostCalls \<Rightarrow> StartupArgs \<Rightarrow> u16 \<Rightarrow> int \<Rightarrow> CStunServerConfig \<Rightarrow> hresult \<times> CStunServerConfig" where
  "basic_addresses host args family nPrimaryPort config =
     (let port = word_of_int nPrimaryPort :: u16 in
      if length (strPrimaryInterface args) = 0
      then if family = AF_INET then (S_OK, config\<lparr>addrPP := CSocketAddress_ipv4 0 port, fHasPP := True\<rparr>)
           else if family = AF_INET6
           then (S_OK, config\<lparr>addrPP := SetPort (CSocketAddress_in6 (sockaddr_in6 (zero_bytes 2) (zero_bytes 16))) port, fHasPP := True\<rparr>)
           else (S_OK, config)
      else (case GetSocketAddressForAdapter (hc_primary host) (hc_inet_pton host) (hc_errno host) family
                   (Some (c_string (strPrimaryInterface args))) port of
          (hr, Some addr) \<Rightarrow> if FAILED hr then (hr, config) else (S_OK, config\<lparr>addrPP := addr, fHasPP := True\<rparr>)
        | (hr, None) \<Rightarrow> if FAILED hr then (hr, config) else (S_OK, config\<lparr>addrPP := CSocketAddress_default, fHasPP := True\<rparr>)))"

definition full_addresses :: "HostCalls \<Rightarrow> StartupArgs \<Rightarrow> u16 \<Rightarrow> int \<Rightarrow> int \<Rightarrow> CStunServerConfig \<Rightarrow> hresult \<times> CStunServerConfig" where
  "full_addresses host args family nPrimaryPort nAltPort config =
     (let portPrimary = word_of_int nPrimaryPort :: u16; portAlternate = word_of_int nAltPort :: u16 in
      if HasAtLeastTwoAdapters (hc_two_adapters host) family = False then (E_UNEXPECTED, config)
      else
        let (hr, a) = ResolveAdapterName (hc_primary host) host True family (strPrimaryInterface args) 0 in
        if FAILED hr then (hr, config)
        else
          let (hr, b) = ResolveAdapterName (hc_alternate host) host False family (strAltInterface args) 0 in
          if FAILED hr then (hr, config)
          else
            let addrPrimary = case_option CSocketAddress_default id a; addrAlternate = case_option CSocketAddress_default id b in
            if IsSameIP addrPrimary addrAlternate then (E_INVALIDARG, config)
            else (S_OK, config\<lparr>addrPP := SetPort addrPrimary portPrimary, fHasPP := True,
                               addrPA := SetPort addrPrimary portAlternate, fHasPA := True,
                               addrAP := SetPort addrAlternate portPrimary, fHasAP := True,
                               addrAA := SetPort addrAlternate portAlternate, fHasAA := True\<rparr>))"

text \<open>The advertised addresses are those of the arguments before they were trimmed.\<close>

definition advertised_addresses :: "HostCalls \<Rightarrow> StartupArgs \<Rightarrow> ServerMode \<Rightarrow> u16 \<Rightarrow> CStunServerConfig \<Rightarrow> hresult \<times> CStunServerConfig" where
  "advertised_addresses host argsIn mode family config =
     (let pszPrimaryAdvertised = c_string (strPrimaryAdvertised argsIn); pszAltAdvertised = c_string (strAlternateAdvertised argsIn) in
      chk (if \<not> IsNullOrEmpty (Some pszPrimaryAdvertised)
           then (case NumericIPToAddress (hc_inet_pton host) family pszPrimaryAdvertised of
               (hr, None) \<Rightarrow> (hr, config) | (hr, Some a) \<Rightarrow> (hr, config\<lparr>addrPrimaryAdvertised := a\<rparr>))
           else (S_OK, config)) (\<lambda>config.
      if \<not> IsNullOrEmpty (Some pszAltAdvertised)
      then if mode \<noteq> FullMode \<and> fHasAA config then (E_INVALIDARG, config)
           else (case NumericIPToAddress (hc_inet_pton host) family pszAltAdvertised of
               (hr, None) \<Rightarrow> (hr, config) | (hr, Some a) \<Rightarrow> (hr, config\<lparr>addrAlternateAdvertised := a\<rparr>))
      else (S_OK, config)))"

text \<open>The result code and what is in \<open>*pConfigOut\<close> afterwards; \<open>None\<close> is the null pointer.\<close>

definition BuildServerConfigurationFromArgs :: "HostCalls \<Rightarrow> StartupArgs \<Rightarrow> CStunServerConfig option \<Rightarrow> hresult \<times> CStunServerConfig option" where
  "BuildServerConfigurationFromArgs host argsIn pConfigOut =
     (if pConfigOut = None then (E_INVALIDARG, pConfigOut)
      else
        let args = normalized_args argsIn; (hr, mode) = mode_of_args args in
        if FAILED hr then (hr, pConfigOut) else
        let (hr, family) = family_of_args args in
        if FAILED hr then (hr, pConfigOut) else
        let (hr, config) = chk (protocol_of_args args CStunServerConfig_new) (max_connections_of_args host args) in
        if FAILED hr then (hr, pConfigOut) else
        let (hr, nPrimaryPort) = port_of_args host (strPrimaryPort args) (uint DEFAULT_STUN_PORT) in
        if FAILED hr then (hr, pConfigOut) else
        let (hr, nAltPort) = port_of_args host (strAltPort args) (uint DEFAULT_STUN_PORT + 1) in
        if FAILED hr then (hr, pConfigOut) else
        if nPrimaryPort = nAltPort then (E_INVALIDARG, pConfigOut) else
        let (hr, config) = chk (case mode of BasicMode \<Rightarrow> basic_addresses host args family nPrimaryPort config
                                | FullMode \<Rightarrow> full_addresses host args family nPrimaryPort nAltPort config)
                             (advertised_addresses host argsIn mode family) in
        if FAILED hr then (hr, pConfigOut) else
        (S_OK, Some (config\<lparr>fEnableDosProtection := (length (strDosProtect argsIn) > 0),
                            fReuseAddr := (length (strReuseAddr argsIn) > 0)\<rparr>)))"

section \<open>What a configuration looks like\<close>

definition adapters_ok :: "IfAddr list option \<Rightarrow> bool" where
  "adapters_ok l \<longleftrightarrow> (\<forall>x \<in> set (case_option [] id l). \<forall>a. ifa_addr x = Some a \<longrightarrow> addr_ok a)"

definition host_ok :: "HostCalls \<Rightarrow> bool" where
  "host_ok host \<longleftrightarrow> adapters_ok (hc_primary host) \<and> adapters_ok (hc_alternate host) \<and>
     (\<forall>s ip. hc_inet_pton host AF_INET s = Some ip \<longrightarrow> length ip = 4) \<and> (\<forall>s ip. hc_inet_pton host AF_INET6 s = Some ip \<longrightarrow> length ip = 16)"

abbreviation ip_family :: "u16 \<Rightarrow> bool" where
  "ip_family f \<equiv> f = AF_INET \<or> f = AF_INET6"

lemma CommonConstructor_ip: "addr_ok a \<Longrightarrow> ip_family (sa_family a) \<Longrightarrow> is_ip_addr (CommonConstructor a)"
  by (auto simp: CommonConstructor_def is_ip_addr_def addr_ok_def)

lemma default_adapters_from:
  assumes "default_adapters family l p = (a, b)" "\<And>x. p = Some x \<Longrightarrow> Q x"
    and "\<And>x y. x \<in> set l \<Longrightarrow> ifa_addr x = Some y \<Longrightarrow> sa_family y = family \<Longrightarrow> Q x"
  shows "(a = Some x \<longrightarrow> Q x) \<and> (b = Some x \<longrightarrow> Q x)"
  using assms
proof (induction family l p arbitrary: a b x rule: default_adapters.induct)
  case (2 family y l p)
  then show ?case
    by (auto split: if_splits option.splits)
qed simp

lemma best_address:
  assumes l: "adapters_ok l" and f: "ip_family family" and r: "GetBestAddressForSocketBind l e fPrimary family port = (hr, a)"
  shows "FAILED hr \<or> (\<exists>x. a = Some x \<and> is_ip_addr x)"
proof (cases l)
  case (Some xs)
  obtain p q where pq: "GetDefaultAdapters family xs = (p, q)"
    by fastforce
  let ?Q = "\<lambda>x. \<exists>y. ifa_addr x = Some y \<and> addr_ok y \<and> sa_family y = family"
  have "\<And>x y. x \<in> set xs \<Longrightarrow> ifa_addr x = Some y \<Longrightarrow> sa_family y = family \<Longrightarrow> ?Q x"
    using l Some by (auto simp: adapters_ok_def)
  then have "(p = Some x \<longrightarrow> ?Q x) \<and> (q = Some x \<longrightarrow> ?Q x)" for x
    using default_adapters_from [OF pq [unfolded GetDefaultAdapters_def], of ?Q] by blast
  then show ?thesis
    using r Some pq f CommonConstructor_ip SetPort_ip
    by (fastforce simp: GetBestAddressForSocketBind_def Let_def split: option.splits if_splits)
qed (use r in \<open>auto simp: GetBestAddressForSocketBind_def\<close>)

lemma GetPort_SetPort [simp]: "GetPort (SetPort a p) = p"
  by (simp add: GetPort_def GetPort_NBO_def SetPort_def)

lemma adapter_address:
  assumes l: "adapters_ok l" and f: "ip_family family" and r: "GetSocketAddressForAdapter l pton e family name port = (hr, a)"
  shows "FAILED hr \<or> (\<exists>x. a = Some x \<and> is_ip_addr x \<and> GetPort x = port)"
proof -
  have found: "is_ip_addr (SetPort (CommonConstructor (the (ifa_addr x))) port)"
    if q: "find Q xs = Some x" and e: "l = Some xs" and m: "\<And>y. Q y \<Longrightarrow> adapter_named family n y \<or> adapter_has_ip family ip y" for Q x xs n ip
  proof -
    have "x \<in> set xs" "adapter_named family n x \<or> adapter_has_ip family ip x"
      using q m by (auto simp: find_Some_iff)
    then obtain y where "ifa_addr x = Some y" "addr_ok y" "sa_family y = family"
      using l e by (auto simp: adapters_ok_def adapter_named_def adapter_has_ip_def split: option.splits)
    then show ?thesis
      using f CommonConstructor_ip SetPort_ip by simp
  qed
  consider "FAILED hr" | n xs x where "l = Some xs" "a = Some (SetPort (CommonConstructor (the (ifa_addr x))) port)"
      "find (adapter_named family n) xs = Some x \<or> (\<exists>ip. find (adapter_has_ip family ip) xs = Some x)"
    using r unfolding GetSocketAddressForAdapter_def Let_def
    by (cases name; cases l) (auto split: if_splits option.splits)
  then show ?thesis
  proof cases
    case (2 n xs x)
    then have "is_ip_addr (SetPort (CommonConstructor (the (ifa_addr x))) port)"
      using found [of "adapter_named family n" xs x n] found [of "adapter_has_ip family _" xs x _ _] by metis
    then show ?thesis
      using 2(2) by simp
  qed simp
qed

lemma NumericIP_address:
  assumes "host_ok host" "NumericIPToAddress (hc_inet_pton host) family s = (hr, a)"
  shows "FAILED hr \<or> (\<exists>x. a = Some x \<and> is_ip_addr x)"
  using assms by (auto simp: NumericIPToAddress_def host_ok_def is_ip_addr_def addr_ok_def CommonConstructor_def CSocketAddress_in6_def
      sockaddr_in6_def split: if_splits option.splits)

lemma default_is_ip: "is_ip_addr CSocketAddress_default" "is_ip_addr (CSocketAddress_ipv4 n p)"
    "is_ip_addr (SetPort (CSocketAddress_in6 (sockaddr_in6 (zero_bytes 2) (zero_bytes 16))) p)"
  by (simp_all add: is_ip_addr_def addr_ok_def CSocketAddress_default_def CSocketAddress_ipv4_def SetPort_def CSocketAddress_in6_def sockaddr_in6_def)

lemma IsSameIP_SetPort [simp]: "is_ip_addr a \<Longrightarrow> is_ip_addr b \<Longrightarrow> IsSameIP (SetPort a p) (SetPort b q) = IsSameIP a b"
  by (auto simp: IsSameIP_def SetPort_def is_ip_addr_def)

text \<open>The addresses of the sockets: one on all interfaces or on one, or two ports at each of two different addresses.\<close>

definition sockets_for :: "ServerMode \<Rightarrow> u16 \<Rightarrow> u16 \<Rightarrow> CStunServerConfig \<Rightarrow> bool" where
  "sockets_for mode p q config \<longleftrightarrow> fHasPP config \<and> GetPort (addrPP config) = p \<and> (case mode of
     BasicMode \<Rightarrow> \<not> fHasPA config \<and> \<not> fHasAP config \<and> \<not> fHasAA config
   | FullMode \<Rightarrow> fHasPA config \<and> fHasAP config \<and> fHasAA config \<and> \<not> IsSameIP (addrPP config) (addrAA config) \<and>
       GetPort (addrPA config) = q \<and> GetPort (addrAP config) = p \<and> GetPort (addrAA config) = q \<and>
       IsSameIP (addrPA config) (addrPP config) \<and> IsSameIP (addrAP config) (addrAA config))"

lemma SetPort_SetPort [simp]: "SetPort (SetPort a p) q = SetPort a q"
  by (simp add: SetPort_def)

lemma IsSameIP_refl [simp]: "IsSameIP a a"
  by (simp add: IsSameIP_def)

lemma GetPort_ipv4 [simp]: "GetPort (CSocketAddress_ipv4 n p) = p"
  by (simp add: GetPort_def GetPort_NBO_def CSocketAddress_ipv4_def)

lemma basic_addresses_ok:
  assumes h: "host_ok host" and f: "ip_family family" and c: "tcp_config_ok config" "\<not> fHasPA config" "\<not> fHasAP config" "\<not> fHasAA config"
    and r: "basic_addresses host args family n config = (hr, config')"
  shows "FAILED hr \<or> tcp_config_ok config' \<and> sockets_for BasicMode (word_of_int n) q config' \<and>
    fTCP config' = fTCP config \<and> nMaxConnections config' = nMaxConnections config"
proof (cases "strPrimaryInterface args = []")
  case True
  then show ?thesis
    using f c r default_is_ip
    by (auto simp: basic_addresses_def tcp_config_ok_def sockets_for_def)
next
  case False
  obtain hr' a where g: "GetSocketAddressForAdapter (hc_primary host) (hc_inet_pton host) (hc_errno host) family
      (Some (c_string (strPrimaryInterface args))) (word_of_int n) = (hr', a)"
    by fastforce
  from adapter_address [OF _ f g] h have "FAILED hr' \<or> (\<exists>x. a = Some x \<and> is_ip_addr x \<and> GetPort x = word_of_int n)"
    by (simp add: host_ok_def)
  then show ?thesis
    using False c r g by (auto simp: basic_addresses_def Let_def tcp_config_ok_def sockets_for_def split: option.splits if_splits)
qed

lemma resolve_address:
  assumes "adapters_ok l" "ip_family family" "ResolveAdapterName l host fPrimary family s port = (hr, a)"
  shows "FAILED hr \<or> (\<exists>x. a = Some x \<and> is_ip_addr x)"
  using best_address [OF assms(1,2), of "hc_errno host" fPrimary port hr a] adapter_address [OF assms(1,2), of "hc_inet_pton host" "hc_errno host" _ port hr a] assms(3)
  unfolding ResolveAdapterName_def by (metis)

lemma full_addresses_ok:
  assumes h: "host_ok host" and f: "ip_family family" and c: "tcp_config_ok config"
    and r: "full_addresses host args family n m config = (hr, config')"
  shows "FAILED hr \<or> tcp_config_ok config' \<and> sockets_for FullMode (word_of_int n) (word_of_int m) config' \<and>
    fTCP config' = fTCP config \<and> nMaxConnections config' = nMaxConnections config"
proof -
  obtain h1 a h2 b where g: "ResolveAdapterName (hc_primary host) host True family (strPrimaryInterface args) 0 = (h1, a)"
    "ResolveAdapterName (hc_alternate host) host False family (strAltInterface args) 0 = (h2, b)"
    by fastforce
  have "FAILED h1 \<or> (\<exists>x. a = Some x \<and> is_ip_addr x)" "FAILED h2 \<or> (\<exists>x. b = Some x \<and> is_ip_addr x)"
    using resolve_address [OF _ f g(1)] resolve_address [OF _ f g(2)] h by (simp_all add: host_ok_def)
  then show ?thesis
    using c r g SetPort_ip
    by (auto simp: full_addresses_def Let_def tcp_config_ok_def sockets_for_def split: if_splits)
qed

lemma advertised_ok:
  assumes h: "host_ok host" and c: "tcp_config_ok config" "sockets_for mode p q config"
    and r: "advertised_addresses host args mode family config = (hr, config')"
  shows "FAILED hr \<or> tcp_config_ok config' \<and> sockets_for mode p q config' \<and>
    fTCP config' = fTCP config \<and> nMaxConnections config' = nMaxConnections config"
proof -
  have n: "FAILED hr \<or> (\<exists>x. a = Some x \<and> is_ip_addr x)" if "NumericIPToAddress (hc_inet_pton host) family s = (hr, a)" for s hr a
    using NumericIP_address [OF h that] .
  define u where "u = (if \<not> IsNullOrEmpty (Some (c_string (strPrimaryAdvertised args)))
      then (case NumericIPToAddress (hc_inet_pton host) family (c_string (strPrimaryAdvertised args)) of
          (hr, None) \<Rightarrow> (hr, config) | (hr, Some a) \<Rightarrow> (hr, config\<lparr>addrPrimaryAdvertised := a\<rparr>)) else (S_OK, config))"
  have u: "FAILED (fst u) \<or> tcp_config_ok (snd u) \<and> sockets_for mode p q (snd u) \<and> fTCP (snd u) = fTCP config \<and> nMaxConnections (snd u) = nMaxConnections config"
    using n c by (auto simp: u_def tcp_config_ok_def sockets_for_def split: prod.splits option.splits ServerMode.splits)
  have "advertised_addresses host args mode family config = chk u (\<lambda>config.
      if \<not> IsNullOrEmpty (Some (c_string (strAlternateAdvertised args)))
      then if mode \<noteq> FullMode \<and> fHasAA config then (E_INVALIDARG, config)
           else (case NumericIPToAddress (hc_inet_pton host) family (c_string (strAlternateAdvertised args)) of
               (hr, None) \<Rightarrow> (hr, config) | (hr, Some a) \<Rightarrow> (hr, config\<lparr>addrAlternateAdvertised := a\<rparr>))
      else (S_OK, config))"
    by (simp add: advertised_addresses_def Let_def u_def)
  then show ?thesis
    using r u n by (cases u)
      (auto simp: chk_def tcp_config_ok_def sockets_for_def split: if_splits prod.splits option.splits ServerMode.splits)
qed

lemma number_in_range: "ValidateNumberString u s low high = Some n \<Longrightarrow> low \<le> n \<and> n \<le> high"
  by (auto simp: ValidateNumberString_def Let_def split: if_splits)

lemma port_range: "port_of_args host s d = (hr, n) \<Longrightarrow> \<not> FAILED hr \<Longrightarrow> 1 \<le> d \<Longrightarrow> d < 65536 \<Longrightarrow> 1 \<le> n \<and> n < 65536"
  using number_in_range by (fastforce simp: port_of_args_def split: if_splits option.splits)

lemma minus_one_failed [simp]: "FAILED (-1)"
  by (simp add: FAILED_def)

lemma connections_range:
  assumes "chk (protocol_of_args args CStunServerConfig_new) (max_connections_of_args host args) = (hr, config)"
  shows "FAILED hr \<or> uint (nMaxConnections config) \<le> 100000 \<and> (nMaxConnections config \<noteq> 0 \<longrightarrow> fTCP config) \<and> tcp_config_ok config \<and>
    \<not> fHasPP config \<and> \<not> fHasPA config \<and> \<not> fHasAP config \<and> \<not> fHasAA config"
proof -
  have "uint (word_of_int n :: u32) \<le> 100000" if "1 \<le> n" "n \<le> 100000" for n
    using that by (simp add: unsigned_of_int take_bit_int_eq_self)
  then show ?thesis
    using assms number_in_range [of "hc_atoi host" "Some (c_string (strMaxConnections args))" 1 100000] default_is_ip
    by (fastforce simp: protocol_of_args_def max_connections_of_args_def chk_def CStunServerConfig_new_def tcp_config_ok_def split: if_splits option.splits)
qed

text \<open>The steps of a successful run.\<close>

lemma built_configuration:
  assumes "BuildServerConfigurationFromArgs host args (Some old) = (hr, out)"
  obtains (failed) "FAILED hr" "out = Some old"
  | (built) mode family c3 n m c6 c7 where "hr = S_OK"
      "out = Some (c7\<lparr>fEnableDosProtection := (length (strDosProtect args) > 0), fReuseAddr := (length (strReuseAddr args) > 0)\<rparr>)"
      "mode = (if Trim (ToLower (strMode args)) = chars_of ''full'' then FullMode else BasicMode)" "ip_family family"
      "\<exists>hr. chk (protocol_of_args (normalized_args args) CStunServerConfig_new) (max_connections_of_args host (normalized_args args)) = (hr, c3) \<and> \<not> FAILED hr"
      "1 \<le> n" "n < 65536" "1 \<le> m" "m < 65536" "n \<noteq> m"
      "\<exists>hr. (case mode of BasicMode \<Rightarrow> basic_addresses host (normalized_args args) family n c3
             | FullMode \<Rightarrow> full_addresses host (normalized_args args) family n m c3) = (hr, c6) \<and> \<not> FAILED hr"
      "\<exists>hr. advertised_addresses host args mode family c6 = (hr, c7) \<and> \<not> FAILED hr"
proof -
  let ?args = "normalized_args args"
  obtain h1 mode h2 family h3 c3 h4 n h5 m where r:
    "mode_of_args ?args = (h1, mode)" "family_of_args ?args = (h2, family)"
    "chk (protocol_of_args ?args CStunServerConfig_new) (max_connections_of_args host ?args) = (h3, c3)"
    "port_of_args host (strPrimaryPort ?args) (uint DEFAULT_STUN_PORT) = (h4, n)"
    "port_of_args host (strAltPort ?args) (uint DEFAULT_STUN_PORT + 1) = (h5, m)"
    by (meson surj_pair)
  define x where "x = (case mode of BasicMode \<Rightarrow> basic_addresses host ?args family n c3 | FullMode \<Rightarrow> full_addresses host ?args family n m c3)"
  obtain h6 c6 where r6: "x = (h6, c6)"
    by fastforce
  obtain h7 c7 where r7: "advertised_addresses host args mode family c6 = (h7, c7)"
    by fastforce
  have b: "(hr, out) = (if FAILED h1 then (h1, Some old) else if FAILED h2 then (h2, Some old) else if FAILED h3 then (h3, Some old)
      else if FAILED h4 then (h4, Some old) else if FAILED h5 then (h5, Some old) else if n = m then (E_INVALIDARG, Some old)
      else if FAILED h6 then (h6, Some old) else if FAILED h7 then (h7, Some old)
      else (S_OK, Some (c7\<lparr>fEnableDosProtection := (length (strDosProtect args) > 0), fReuseAddr := (length (strReuseAddr args) > 0)\<rparr>)))"
    using assms unfolding BuildServerConfigurationFromArgs_def Let_def r case_prod_conv x_def [symmetric]
    by (simp add: r6 r7 chk_def if_distrib [of "case_prod _"] cong: if_cong split: if_splits)
  show thesis
  proof (cases "FAILED hr")
    case True
    then show thesis
      using b failed by (auto split: if_splits)
  next
    case False
    then have ok: "\<not> FAILED h1" "\<not> FAILED h2" "\<not> FAILED h3" "\<not> FAILED h4" "\<not> FAILED h5" "n \<noteq> m" "\<not> FAILED h6" "\<not> FAILED h7"
      "hr = S_OK" "out = Some (c7\<lparr>fEnableDosProtection := (length (strDosProtect args) > 0), fReuseAddr := (length (strReuseAddr args) > 0)\<rparr>)"
      using b by (auto split: if_splits)
    have "mode = (if Trim (ToLower (strMode args)) = chars_of ''full'' then FullMode else BasicMode)"
      using r(1) ok(1) by (auto simp: mode_of_args_def normalized_args_def chars_of_def split: if_splits)
    moreover have "ip_family family"
      using r(2) ok(2) by (auto simp: family_of_args_def split: if_splits)
    moreover have "1 \<le> n" "n < 65536" "1 \<le> m" "m < 65536"
      using port_range [OF r(4) ok(4)] port_range [OF r(5) ok(5)] by (simp_all add: stun_consts)
    ultimately show thesis
      using built [OF ok(9,10)] r(3) r6 r7 ok(3,6,7,8) x_def by blast
  qed
qed

text \<open>C24: a configuration that is built from arguments is well formed: its addresses are
  IP addresses; basic mode has one socket, and full mode four, at two ports of two different addresses; the ports
  differ and are not zero; the mode is what the arguments say, whatever their case and the white space
  around it; a limit for the connections is at most 100000, and only for TCP.  (That the server starts does
  not follow: of these limits 100000 itself is refused later, by \<open>CTCPStunThread::Init\<close>.)  A failure leaves
  the caller's configuration.\<close>

theorem server_configuration:
  assumes "host_ok host" "BuildServerConfigurationFromArgs host args (Some old) = (hr, out)"
  shows "if FAILED hr then out = Some old
    else \<exists>config p q. out = Some config \<and> tcp_config_ok config \<and>
      sockets_for (if Trim (ToLower (strMode args)) = chars_of ''full'' then FullMode else BasicMode) p q config \<and>
      p \<noteq> 0 \<and> q \<noteq> 0 \<and> p \<noteq> q \<and> uint (nMaxConnections config) \<le> 100000 \<and> (nMaxConnections config \<noteq> 0 \<longrightarrow> fTCP config)"
  using assms(2)
proof (cases rule: built_configuration)
  case (built mode family c3 n m c6 c7)
  have c3: "uint (nMaxConnections c3) \<le> 100000 \<and> (nMaxConnections c3 \<noteq> 0 \<longrightarrow> fTCP c3) \<and> tcp_config_ok c3 \<and>
      \<not> fHasPP c3 \<and> \<not> fHasPA c3 \<and> \<not> fHasAP c3 \<and> \<not> fHasAA c3"
    using connections_range built(5) by blast
  obtain h6 where h6: "(case mode of BasicMode \<Rightarrow> basic_addresses host (normalized_args args) family n c3
       | FullMode \<Rightarrow> full_addresses host (normalized_args args) family n m c3) = (h6, c6)" "\<not> FAILED h6"
    using built(11) by blast
  have c6: "tcp_config_ok c6 \<and> sockets_for mode (word_of_int n) (word_of_int m) c6 \<and> fTCP c6 = fTCP c3 \<and> nMaxConnections c6 = nMaxConnections c3"
    using basic_addresses_ok [OF assms(1) built(4), of c3 "normalized_args args" n h6 c6 "word_of_int m"]
      full_addresses_ok [OF assms(1) built(4), of c3 "normalized_args args" n m h6 c6] c3 h6
    by (simp split: ServerMode.splits)
  have c7: "tcp_config_ok c7 \<and> sockets_for mode (word_of_int n) (word_of_int m) c7 \<and> fTCP c7 = fTCP c6 \<and> nMaxConnections c7 = nMaxConnections c6"
    using advertised_ok [OF assms(1)] c6 built(12) by blast
  have "uint (word_of_int n :: u16) = n" "uint (word_of_int m :: u16) = m"
    using built(6-9) by (simp_all add: unsigned_of_int take_bit_int_eq_self)
  then have "(word_of_int n :: u16) \<noteq> 0" "(word_of_int m :: u16) \<noteq> 0" "(word_of_int n :: u16) \<noteq> word_of_int m"
    using built(6-10) by auto
  moreover have "tcp_config_ok (c7\<lparr>fEnableDosProtection := d, fReuseAddr := e\<rparr>)" "sockets_for mode p q (c7\<lparr>fEnableDosProtection := d, fReuseAddr := e\<rparr>) = sockets_for mode p q c7" for d e p q
    using c7 by (simp_all add: tcp_config_ok_def sockets_for_def split: ServerMode.split)
  ultimately show ?thesis
    using c3 c6 c7 by (auto simp: built(1,2) built(3) [symmetric])
qed simp

definition example_host :: HostCalls where
  "example_host = (let l = Some [\<lparr>ifa_name = Some (chars_of ''lo''), ifa_addr = Some (CSocketAddress_ipv4 0x7F000001 0), ifa_up = True, ifa_loopback = True\<rparr>,
       \<lparr>ifa_name = Some (chars_of ''eth0''), ifa_addr = Some (CSocketAddress_ipv4 0x0A000001 0), ifa_up = True, ifa_loopback = False\<rparr>,
       \<lparr>ifa_name = Some (chars_of ''eth1''), ifa_addr = Some (CSocketAddress_ipv4 0x0A000002 0), ifa_up = True, ifa_loopback = False\<rparr>] in
     \<lparr>hc_two_adapters = l, hc_primary = l, hc_alternate = l, hc_inet_pton = (\<lambda>_ _. None), hc_errno = 0, hc_atoi = (\<lambda>_. 0)\<rparr>)"

definition example_args :: StartupArgs where
  "example_args = StartupArgs_new\<lparr>strMode := chars_of '' Full '', strProtocol := chars_of ''TCP'', strPrimaryPort := chars_of ''5000'',
     strAltInterface := chars_of ''eth1'', strMaxConnections := chars_of ''10''\<rparr>"

theorem server_configuration_witness:
  "\<exists>config p q. BuildServerConfigurationFromArgs example_host example_args (Some CStunServerConfig_new) = (S_OK, Some config) \<and>
     sockets_for FullMode p q config \<and> p \<noteq> q"
proof -
  have host: "host_ok example_host"
    by (simp add: host_ok_def adapters_ok_def example_host_def Let_def addr_ok_def CSocketAddress_ipv4_def)
  have t: "Trim (ToLower (strMode example_args)) = chars_of ''full''"
    by (simp add: example_args_def Trim_def ToLower_def chars_of_def trim_step_def ISWHITESPACE_def StartupArgs_new_def)
  obtain hr out where r: "BuildServerConfigurationFromArgs example_host example_args (Some CStunServerConfig_new) = (hr, out)"
    by fastforce
  have "fst (BuildServerConfigurationFromArgs example_host example_args (Some CStunServerConfig_new)) = S_OK"
    by code_simp
  then show ?thesis
    using server_configuration [OF host r] r t by auto
qed

end
