(* ===== verification/StunServerMain.thy ===== *)
theory StunServerMain imports StunServerArgs begin

text \<open>
  The program of the STUN server: \<open>StartUDP\<close>, \<open>StartTCP\<close> and \<open>main\<close> of server/main.cpp, over the models of the
  two servers.  All servers share the open descriptors.  While \<open>main\<close> waits for a signal, the threads of the
  TCP servers take their turns, in any order; those of the UDP servers open and close nothing.
  The signal mask and the log level are left out.
\<close>

section \<open>The program\<close>

text \<open>What the host and the system calls answer for one configuration.\<close>

record ServerCalls =
  mc_host :: HostCalls
  mc_udp_sock :: "SocketRole \<Rightarrow> SocketCalls"
  mc_udp_created :: "nat \<Rightarrow> int"
  mc_tcp_init :: "SocketRole \<Rightarrow> TcpInit"
  mc_tcp_created :: "SocketRole \<Rightarrow> int \<times> int"
  mc_tcp_stop :: "SocketRole \<Rightarrow> ThreadStop"

record MainWorld =
  mw_fds :: descriptors
  mw_udpServers :: "CStunServer list"
  mw_tcpServers :: "TcpServerWorld list"

text \<open>A TCP server with the descriptors as they are now; one without a rate limiter never reads this member.\<close>

definition tcp_world :: "descriptors \<Rightarrow> TcpServerWorld \<Rightarrow> TcpServerWorld" where
  "tcp_world fds s = s\<lparr>sw_fds := fds\<rparr>"

definition CTCPServer_new :: TcpServerWorld where
  "CTCPServer_new = \<lparr>sw_fds = [], sw_limiter = RateLimiter_init 1 False, sw_sent = [], sw_threads = (\<lambda>_. None)\<rparr>"

text \<open>The object that was made, if there is one; an object that cannot be initialised is destroyed by \<open>CreateInstance\<close>.\<close>

definition StartUDP :: "ServerCalls \<Rightarrow> CStunServerConfig \<Rightarrow> descriptors \<Rightarrow> hresult \<times> descriptors \<times> CStunServer option" where
  "StartUDP c config fds =
     (let (hr, fds, sv) = Server_Initialize (mc_udp_sock c) (fds, CStunServer_new) config in
      if FAILED hr then (let (_, fds, _) = Server_Shutdown (fds, sv) in (hr, fds, None))
      else let (hr, sv) = Server_Start (mc_udp_created c) sv in
        if FAILED hr then (hr, fds, Some sv) else (S_OK, fds, Some sv))"

definition StartTCP :: "(bytes \<Rightarrow> bytes \<Rightarrow> bytes) \<Rightarrow> (bytes \<Rightarrow> bytes) \<Rightarrow> ServerCalls \<Rightarrow> CStunServerConfig \<Rightarrow> descriptors
    \<Rightarrow> hresult \<times> descriptors \<times> TcpServerWorld option" where
  "StartTCP hmac md5 c config fds =
     (let (hr, s) = TcpServer_Initialize hmac md5 (mc_tcp_stop c) (mc_tcp_init c) config (tcp_world fds CTCPServer_new) in
      if FAILED hr then (let (_, s) = TcpServer_Stop hmac md5 (mc_tcp_stop c) s in (hr, sw_fds s, None))
      else let (hr, s) = TcpServer_Start (mc_tcp_created c) s in
        if FAILED hr then (hr, sw_fds s, Some s) else (S_OK, sw_fds s, Some s))"

text \<open>One configuration: a server that did not start is destroyed at the end of its block.\<close>

definition start_server :: "(bytes \<Rightarrow> bytes \<Rightarrow> bytes) \<Rightarrow> (bytes \<Rightarrow> bytes) \<Rightarrow> ServerCalls \<Rightarrow> StartupArgs \<Rightarrow> MainWorld \<Rightarrow> hresult \<times> MainWorld" where
  "start_server hmac md5 c args w = (case BuildServerConfigurationFromArgs (mc_host c) args (Some CStunServerConfig_new) of
     (hr, None) \<Rightarrow> (hr, w)
   | (hr, Some config) \<Rightarrow>
       if FAILED hr then (hr, w)
       else if fTCP config
       then (case StartTCP hmac md5 c config (mw_fds w) of
           (hr, fds, None) \<Rightarrow> (hr, w\<lparr>mw_fds := fds\<rparr>)
         | (hr, fds, Some s) \<Rightarrow>
             if SUCCEEDED hr then (hr, w\<lparr>mw_fds := fds, mw_tcpServers := mw_tcpServers w @ [s]\<rparr>)
             else (let (_, s) = TcpServer_Stop hmac md5 (mc_tcp_stop c) s in (hr, w\<lparr>mw_fds := sw_fds s\<rparr>)))
       else (case StartUDP c config (mw_fds w) of
           (hr, fds, None) \<Rightarrow> (hr, w\<lparr>mw_fds := fds\<rparr>)
         | (hr, fds, Some sv) \<Rightarrow>
             if SUCCEEDED hr then (hr, w\<lparr>mw_fds := fds, mw_udpServers := mw_udpServers w @ [sv]\<rparr>)
             else (let (_, fds, _) = Server_Shutdown (fds, sv) in (hr, w\<lparr>mw_fds := fds\<rparr>))))"

fun start_servers :: "(bytes \<Rightarrow> bytes \<Rightarrow> bytes) \<Rightarrow> (bytes \<Rightarrow> bytes) \<Rightarrow> (nat \<Rightarrow> ServerCalls) \<Rightarrow> nat \<Rightarrow> StartupArgs list \<Rightarrow> hresult \<Rightarrow> MainWorld
    \<Rightarrow> hresult \<times> MainWorld" where
  "start_servers hmac md5 calls i [] hr w = (hr, w)"
| "start_servers hmac md5 calls i (args # rest) hr w =
     (let (hr, w) = start_server hmac md5 (calls i) args w in
      if FAILED hr then (hr, w) else start_servers hmac md5 calls (i + 1) rest hr w)"

text \<open>While \<open>main\<close> waits: a thread of the TCP server with a number takes a turn.\<close>

definition main_turn :: "(bytes \<Rightarrow> bytes \<Rightarrow> bytes) \<Rightarrow> (bytes \<Rightarrow> bytes) \<Rightarrow> nat \<times> SocketRole \<times> TcpTurn \<Rightarrow> MainWorld \<Rightarrow> MainWorld" where
  "main_turn hmac md5 = (\<lambda>(k, rt) w.
     if k < length (mw_tcpServers w)
     then let s = TcpServer_turn hmac md5 rt (tcp_world (mw_fds w) (mw_tcpServers w ! k)) in
       w\<lparr>mw_fds := sw_fds s, mw_tcpServers := (mw_tcpServers w)[k := s]\<rparr>
     else w)"

definition WaitForAppExitSignal :: "(bytes \<Rightarrow> bytes \<Rightarrow> bytes) \<Rightarrow> (bytes \<Rightarrow> bytes) \<Rightarrow> (nat \<times> SocketRole \<times> TcpTurn) list \<Rightarrow> MainWorld \<Rightarrow> MainWorld" where
  "WaitForAppExitSignal hmac md5 turns w = fold (main_turn hmac md5) turns w"

text \<open>The servers are stopped; \<open>stops\<close> says what the threads of each TCP server still do.\<close>

fun stop_tcp :: "(bytes \<Rightarrow> bytes \<Rightarrow> bytes) \<Rightarrow> (bytes \<Rightarrow> bytes) \<Rightarrow> (nat \<Rightarrow> SocketRole \<Rightarrow> ThreadStop) \<Rightarrow> nat \<Rightarrow> descriptors \<Rightarrow> TcpServerWorld list
    \<Rightarrow> descriptors \<times> TcpServerWorld list" where
  "stop_tcp hmac md5 stops i fds [] = (fds, [])"
| "stop_tcp hmac md5 stops i fds (s # rest) =
     (let (_, s) = TcpServer_Stop hmac md5 (stops i) (tcp_world fds s);
          (fds, rest) = stop_tcp hmac md5 stops (i + 1) (sw_fds s) rest in
      (fds, s # rest))"

fun destroy_udp :: "descriptors \<Rightarrow> CStunServer list \<Rightarrow> descriptors" where
  "destroy_udp fds [] = fds"
| "destroy_udp fds (sv # rest) = (let (_, fds, _) = Server_Shutdown (fds, sv) in destroy_udp fds rest)"

definition stop_servers :: "(bytes \<Rightarrow> bytes \<Rightarrow> bytes) \<Rightarrow> (bytes \<Rightarrow> bytes) \<Rightarrow> (nat \<Rightarrow> SocketRole \<Rightarrow> ThreadStop) \<Rightarrow> MainWorld \<Rightarrow> MainWorld" where
  "stop_servers hmac md5 stops w =
     (let w = w\<lparr>mw_udpServers := map (\<lambda>sv. snd (Server_Stop sv)) (mw_udpServers w)\<rparr>;
          (fds, tcp) = stop_tcp hmac md5 stops 0 (mw_fds w) (mw_tcpServers w) in
      w\<lparr>mw_fds := fds, mw_tcpServers := tcp\<rparr>)"

text \<open>When \<open>main\<close> returns, the vectors of servers are destroyed, the one of the TCP servers first.\<close>

definition destroy_servers :: "(bytes \<Rightarrow> bytes \<Rightarrow> bytes) \<Rightarrow> (bytes \<Rightarrow> bytes) \<Rightarrow> (nat \<Rightarrow> SocketRole \<Rightarrow> ThreadStop) \<Rightarrow> MainWorld \<Rightarrow> descriptors" where
  "destroy_servers hmac md5 stops w =
     (let (fds, _) = stop_tcp hmac md5 stops 0 (mw_fds w) (mw_tcpServers w) in destroy_udp fds (mw_udpServers w))"

definition server_main :: "(bytes \<Rightarrow> bytes \<Rightarrow> bytes) \<Rightarrow> (bytes \<Rightarrow> bytes) \<Rightarrow> getopt_answer list \<Rightarrow> bytes list
    \<Rightarrow> (bytes \<Rightarrow> (string \<Rightarrow> bytes option) list option) \<Rightarrow> (nat \<Rightarrow> ServerCalls) \<Rightarrow> (nat \<times> SocketRole \<times> TcpTurn) list
    \<Rightarrow> (nat \<Rightarrow> SocketRole \<Rightarrow> ThreadStop) \<Rightarrow> descriptors \<Rightarrow> int \<times> descriptors" where
  "server_main hmac md5 getopt remaining read_json calls turns stops fds =
     (let (hr, args) = ParseCommandLineArgs getopt remaining StartupArgs_new in
      if FAILED hr then (-1, fds)
      else if length (strHelp args) > 0 then (-2, fds)
      else
        let (hr, argsVector) = (if strConfigFile args \<noteq> [] then LoadConfigsFromFile read_json (strConfigFile args) [] else (hr, [args])) in
        if FAILED hr then (-3, fds)
        else
          let (hr, w) = start_servers hmac md5 calls 0 argsVector hr \<lparr>mw_fds = fds, mw_udpServers = [], mw_tcpServers = []\<rparr>;
              w = (if SUCCEEDED hr then WaitForAppExitSignal hmac md5 turns w else w);
              w = stop_servers hmac md5 stops w in
          (0, destroy_servers hmac md5 stops w))"

section \<open>No descriptor is lost by the program\<close>

definition udp_res :: "CStunServer \<Rightarrow> int multiset" where
  "udp_res sv = open_sockets (sv_arrSockets sv) all_roles"

definition tcp_fine :: "descriptors \<Rightarrow> TcpServerWorld \<Rightarrow> bool" where
  "tcp_fine fds s \<longleftrightarrow> (\<forall>r th. sw_threads s r = Some th \<longrightarrow> thread_fine (thread_world (tcp_world fds s) th))"

text \<open>The open descriptors are those of before and those of the servers.\<close>

definition main_ok :: "int multiset \<Rightarrow> MainWorld \<Rightarrow> bool" where
  "main_ok base w \<longleftrightarrow>
     mset (mw_fds w) = base + sum_list (map udp_res (mw_udpServers w)) + sum_list (map (all_res \<circ> sw_threads) (mw_tcpServers w)) \<and>
     (\<forall>s \<in> set (mw_tcpServers w). tcp_fine (mw_fds w) s)"

lemma tcp_world_fields [simp]: "sw_fds (tcp_world fds s) = fds" "sw_threads (tcp_world fds s) = sw_threads s"
    "tcp_world fds (tcp_world fds' s) = tcp_world fds s" "tcp_world (sw_fds s) s = s"
  by (simp_all add: tcp_world_def)

lemma server_ok_world: "server_ok B (tcp_world fds s) \<longleftrightarrow> mset fds = B + all_res (sw_threads s) \<and> tcp_fine fds s"
  by (simp add: server_ok_def tcp_fine_def)

text \<open>A server is as well with other descriptors, as long as its own are among them.\<close>

lemma thread_res_in: "sw_threads s r = Some th \<Longrightarrow> \<exists>R. all_res (sw_threads s) = R + thread_res th"
  using all_res_upd [of "sw_threads s" r None] by (intro exI [of _ "all_res ((sw_threads s)(r := None))"]) (simp add: res_of_def)

lemma fine_moves:
  assumes f: "tcp_fine fds s" and m: "mset fds' = B + all_res (sw_threads s)"
  shows "tcp_fine fds' s"
  unfolding tcp_fine_def
proof (intro allI impI)
  fix r th
  assume th: "sw_threads s r = Some th"
  then obtain R where "all_res (sw_threads s) = R + thread_res th"
    using thread_res_in by blast
  then have "mset (sw_fds (tcp_world fds' s)) = (B + R) + thread_res th"
    using m by (simp add: add.assoc)
  moreover have "thread_fine (thread_world (tcp_world fds s) th)"
    using f th by (simp add: tcp_fine_def)
  ultimately show "thread_fine (thread_world (tcp_world fds' s) th)"
    using fine_other by blast
qed

lemma split_server: "s \<in> set ss \<Longrightarrow> \<exists>B. sum_list (map (all_res \<circ> sw_threads) ss) = B + all_res (sw_threads s)"
  by (induction ss) (auto simp: ac_simps intro: exI)

lemma StartUDP_ok:
  assumes c: "calls_ok (mc_udp_sock c)" "config_ok config" and r: "StartUDP c config fds = (hr, fds', sp)" and b: "mset fds = mset base"
  shows "accounted base (fds', case_option CStunServer_new id sp)"
proof -
  have a: "accounted base (fds, CStunServer_new)"
    using b open_sockets_closed [of "sv_arrSockets CStunServer_new" all_roles]
    by (simp add: accounted_def CStunServer_new_def CStunSocket_new_def Socket_IsValid_def)
  have nil: "accounted base (f, CStunServer_new) \<longleftrightarrow> mset f = mset base" for f
    using open_sockets_closed [of "sv_arrSockets CStunServer_new" all_roles]
    by (simp add: accounted_def CStunServer_new_def CStunSocket_new_def Socket_IsValid_def)
  show ?thesis
  proof (rule Server_Initialize_cases [OF a c])
    fix hr1 w1
    assume i: "Server_Initialize (mc_udp_sock c) (fds, CStunServer_new) config = (hr1, w1)" "FAILED hr1" "closed_down base w1"
    obtain hr2 fds2 sv2 where s: "Server_Shutdown w1 = (hr2, fds2, sv2)"
      by (metis surj_pair)
    have "closed_down base (fds2, sv2)"
      using Server_Shutdown_closed(2) [OF closed_down_accounted [OF i(3)]] s by simp
    then show ?thesis
      using r i s by (cases w1) (auto simp: StartUDP_def nil closed_down_def)
  next
    fix w1
    assume i: "Server_Initialize (mc_udp_sock c) (fds, CStunServer_new) config = (S_OK, w1)" "server_ready config base w1"
    obtain fds1 sv1 where w1: "w1 = (fds1, sv1)"
      by fastforce
    obtain hr2 sv2 where s: "Server_Start (mc_udp_created c) sv1 = (hr2, sv2)"
      by fastforce
    then have "sv_arrSockets sv2 = sv_arrSockets sv1"
      using Server_Stop_stopped(3) by (auto simp: Server_Start_def Let_def split: if_splits prod.splits)
    then show ?thesis
      using r i s w1 by (auto simp: StartUDP_def server_ready_def accounted_def split: if_splits)
  qed
qed

lemma StartTCP_ok:
  assumes c: "\<forall>r. init_calls_ok (mc_tcp_init c r)" "stops_ok (mc_tcp_stop c)" "tcp_config_ok config" and h: "hmac_ok hmac" "md5_ok md5"
    and r: "StartTCP hmac md5 c config fds = (hr, fds', sp)" and b: "mset fds = base"
  shows "server_ok base (tcp_world fds' (case_option CTCPServer_new id sp))" "\<And>s. sp = Some s \<Longrightarrow> sw_fds s = fds'"
proof -
  have n: "sw_threads CTCPServer_new = (\<lambda>_. None)" "all_res (\<lambda>_. None) = {#}"
    by (simp_all add: CTCPServer_new_def all_res_def res_of_def)
  have new: "server_ok base (tcp_world f CTCPServer_new) \<longleftrightarrow> mset f = base" for f
    by (simp add: server_ok_world n tcp_fine_def)
  obtain hr1 s1 where i: "TcpServer_Initialize hmac md5 (mc_tcp_stop c) (mc_tcp_init c) config (tcp_world fds CTCPServer_new) = (hr1, s1)"
    by fastforce
  note ok = Initialize_ok [OF _ _ c(1,3) h c(2) i, of base]
  obtain hr2 s2 where t: "TcpServer_Start (mc_tcp_created c) s1 = (hr2, s2)"
    by fastforce
  have ok1: "server_ok base s1"
    using ok(1) b n by (simp add: new)
  then have ok2: "server_ok base s2"
    using start_threads_ok [OF ok1, of "mc_tcp_created c" all_roles] t by (simp add: TcpServer_Start_def)
  obtain s3 where p: "TcpServer_Stop hmac md5 (mc_tcp_stop c) s1 = (S_OK, s3)"
    by (simp add: TcpServer_Stop_def)
  have "mset (sw_fds s3) = base"
    using Shutdown_gives_back(1) [OF ok1 h c(2)] p by (simp add: TcpServer_Stop_def)
  then show "server_ok base (tcp_world fds' (case_option CTCPServer_new id sp))" "\<And>s. sp = Some s \<Longrightarrow> sw_fds s = fds'"
    using r i t p ok2 new by (auto simp: StartTCP_def split: if_splits)
qed

lemma built_config_ok:
  assumes h: "host_ok host" and b: "BuildServerConfigurationFromArgs host args (Some old) = (hr, Some config)" "\<not> FAILED hr"
  shows "tcp_config_ok config"
  using b(1)
proof (cases rule: built_configuration)
  case (built mode family c3 n m c6 c7)
  have c3: "tcp_config_ok c3" "\<not> fHasPA c3" "\<not> fHasAP c3" "\<not> fHasAA c3"
  proof -
    obtain h where "chk (protocol_of_args (normalized_args args) CStunServerConfig_new) (max_connections_of_args host (normalized_args args)) = (h, c3)" "\<not> FAILED h"
      using built(5) by blast
    then show "tcp_config_ok c3" "\<not> fHasPA c3" "\<not> fHasAP c3" "\<not> fHasAA c3"
      using connections_range by blast+
  qed
  have "tcp_config_ok c6 \<and> sockets_for mode (word_of_int n) (word_of_int m) c6"
    using built(11) basic_addresses_ok [OF h built(4) c3, of "normalized_args args" n _ c6 "word_of_int m"]
      full_addresses_ok [OF h built(4) c3(1), of "normalized_args args" n m _ c6] by (cases mode) auto
  then have "tcp_config_ok c7"
    using built(12) advertised_ok [OF h, of c6 mode "word_of_int n" "word_of_int m" args family _ c7] by blast
  then show ?thesis
    using built(2) by (simp add: tcp_config_ok_def)
qed (use b(2) in simp)

lemma config_ok_tcp: "tcp_config_ok config \<Longrightarrow> config_ok config"
  by (simp add: tcp_config_ok_def config_ok_def configured_def)

text \<open>What is asked of the calls for one configuration.\<close>

definition server_calls_ok :: "ServerCalls \<Rightarrow> bool" where
  "server_calls_ok c \<longleftrightarrow> host_ok (mc_host c) \<and> calls_ok (mc_udp_sock c) \<and> (\<forall>r. init_calls_ok (mc_tcp_init c r)) \<and> stops_ok (mc_tcp_stop c)"

lemma main_ok_fds:
  assumes "main_ok base w" "mset fds = mset (mw_fds w) + extra"
  shows "\<forall>s \<in> set (mw_tcpServers w). tcp_fine fds s"
proof
  fix s
  assume s: "s \<in> set (mw_tcpServers w)"
  then obtain B where "sum_list (map (all_res \<circ> sw_threads) (mw_tcpServers w)) = B + all_res (sw_threads s)"
    using split_server by blast
  then have "mset fds = (base + sum_list (map udp_res (mw_udpServers w)) + B + extra) + all_res (sw_threads s)"
    using assms by (simp add: main_ok_def ac_simps)
  then show "tcp_fine fds s"
    using fine_moves assms(1) s by (auto simp: main_ok_def)
qed

text \<open>One configuration: its server is among those of \<open>main\<close>, or nothing is left of it.\<close>

lemma start_server_ok:
  assumes ok: "main_ok base w" and c: "server_calls_ok c" and h: "hmac_ok hmac" "md5_ok md5"
  shows "main_ok base (snd (start_server hmac md5 c args w))"
proof -
  obtain hr cp where b: "BuildServerConfigurationFromArgs (mc_host c) args (Some CStunServerConfig_new) = (hr, cp)"
    by fastforce
  have same: "main_ok base (w\<lparr>mw_fds := fds\<rparr>)" if "mset fds = mset (mw_fds w)" for fds
    using ok main_ok_fds [OF ok, of fds "{#}"] that by (simp add: main_ok_def)
  show ?thesis
  proof (cases "\<exists>config. cp = Some config \<and> \<not> FAILED hr")
    case True
    then obtain config where config: "cp = Some config" "\<not> FAILED hr"
      by blast
    then have t: "tcp_config_ok config"
      using built_config_ok b c by (auto simp: server_calls_ok_def)
    show ?thesis
    proof (cases "fTCP config")
      case tcp: True
      obtain hr2 fds sp where s: "StartTCP hmac md5 c config (mw_fds w) = (hr2, fds, sp)"
        by (metis surj_pair)
      have i: "server_ok (mset (mw_fds w)) (tcp_world fds (case_option CTCPServer_new id sp))" "\<And>s. sp = Some s \<Longrightarrow> sw_fds s = fds"
        using StartTCP_ok [OF _ _ t h s refl] c by (simp_all add: server_calls_ok_def)
      show ?thesis
      proof (cases sp)
        case None
        then have "mset fds = mset (mw_fds w)"
          using i(1) by (simp add: server_ok_world CTCPServer_new_def all_res_def res_of_def)
        then show ?thesis
          using b config tcp s None same by (simp add: start_server_def)
      next
        case (Some x)
        then have x: "server_ok (mset (mw_fds w)) x"
          using i by (metis option.simps(5) id_apply tcp_world_fields(4))
        then have m: "mset fds = mset (mw_fds w) + all_res (sw_threads x)" "tcp_fine fds x"
          using i(2) [OF Some] server_ok_world by (metis tcp_world_fields(4))+
        obtain y where y: "TcpServer_Stop hmac md5 (mc_tcp_stop c) x = (S_OK, y)"
          by (simp add: TcpServer_Stop_def)
        have "mset (sw_fds y) = mset (mw_fds w)"
          using Shutdown_gives_back(1) [OF x h] c y by (auto simp: TcpServer_Stop_def server_calls_ok_def)
        then show ?thesis
          using b config tcp s Some same y ok m main_ok_fds [OF ok m(1)]
          by (simp add: start_server_def main_ok_def ac_simps)
      qed
    next
      case udp: False
      obtain hr2 fds sp where s: "StartUDP c config (mw_fds w) = (hr2, fds, sp)"
        by (metis surj_pair)
      have a: "accounted (mw_fds w) (fds, case_option CStunServer_new id sp)"
        using StartUDP_ok [OF _ config_ok_tcp [OF t] s refl] c by (simp add: server_calls_ok_def)
      show ?thesis
      proof (cases sp)
        case None
        then have "mset fds = mset (mw_fds w)"
          using a open_sockets_closed [of "sv_arrSockets CStunServer_new" all_roles]
          by (simp add: accounted_def CStunServer_new_def CStunSocket_new_def Socket_IsValid_def)
        then show ?thesis
          using b config udp s None same by (simp add: start_server_def)
      next
        case (Some x)
        then have m: "mset fds = mset (mw_fds w) + udp_res x"
          using a by (simp add: accounted_def udp_res_def)
        obtain h3 fds3 sv3 where y: "Server_Shutdown (fds, x) = (h3, fds3, sv3)"
          by (metis surj_pair)
        have "mset fds3 = mset (mw_fds w)"
          using Server_Shutdown_closed(2) [of "mw_fds w" "(fds, x)"] a Some y by (simp add: closed_down_def)
        then show ?thesis
          using b config udp s Some same y ok m main_ok_fds [OF ok m]
          by (simp add: start_server_def main_ok_def ac_simps)
      qed
    qed
  next
    case False
    then show ?thesis
      using b ok by (auto simp: start_server_def split: option.splits)
  qed
qed

lemma start_servers_ok:
  "main_ok base w \<Longrightarrow> \<forall>i. server_calls_ok (calls i) \<Longrightarrow> hmac_ok hmac \<Longrightarrow> md5_ok md5
    \<Longrightarrow> main_ok base (snd (start_servers hmac md5 calls i args hr w))"
proof (induction args arbitrary: i hr w)
  case (Cons a args)
  then have "main_ok base (snd (start_server hmac md5 (calls i) a w))"
    using start_server_ok by blast
  then show ?case
    using Cons by (cases "start_server hmac md5 (calls i) a w") simp
qed simp


lemma main_turn_ok:
  assumes ok: "main_ok base w" and a: "accept_fresh tr" and h: "hmac_ok hmac" "md5_ok md5"
  shows "main_ok base (main_turn hmac md5 (k, r, tr) w)"
proof (cases "k < length (mw_tcpServers w)")
  case True
  define xs ys x where "xs = take k (mw_tcpServers w)" and "ys = drop (Suc k) (mw_tcpServers w)" and "x = mw_tcpServers w ! k"
  have ss: "mw_tcpServers w = xs @ x # ys" "length xs = k"
    using True by (simp_all add: xs_def ys_def x_def id_take_nth_drop [symmetric])
  let ?R = "\<lambda>ss. sum_list (map (all_res \<circ> sw_threads) ss)"
  define B where "B = base + sum_list (map udp_res (mw_udpServers w)) + ?R xs + ?R ys"
  have "server_ok B (tcp_world (mw_fds w) x)"
    using ok ss by (simp add: server_ok_world main_ok_def B_def ac_simps)
  then have "server_ok B (TcpServer_turn hmac md5 (r, tr) (tcp_world (mw_fds w) x))"
    using server_turn_ok a h by blast
  moreover define y where "y = TcpServer_turn hmac md5 (r, tr) (tcp_world (mw_fds w) x)"
  ultimately have y: "mset (sw_fds y) = B + all_res (sw_threads y)" "tcp_fine (sw_fds y) y"
    using server_ok_world [of B "sw_fds y" y] by simp_all
  have o: "tcp_fine (sw_fds y) s" if s: "s \<in> set xs \<union> set ys" for s
  proof -
    obtain C where "?R (xs @ ys) = C + all_res (sw_threads s)"
      using split_server [of s "xs @ ys"] s by auto
    then have "mset (sw_fds y) = (base + sum_list (map udp_res (mw_udpServers w)) + all_res (sw_threads y) + C) + all_res (sw_threads s)"
      using y(1) by (simp add: B_def ac_simps)
    then show ?thesis
      using fine_moves [of "mw_fds w" s] ok s ss by (auto simp: main_ok_def)
  qed
  have "(mw_tcpServers w)[k := y] = xs @ y # ys"
    using ss by (simp add: list_update_append)
  then show ?thesis
    using True y o by (auto simp: main_turn_def x_def [symmetric] y_def [symmetric] main_ok_def B_def ac_simps)
qed (use ok in \<open>simp add: main_turn_def\<close>)

lemma main_turns_ok:
  "main_ok base w \<Longrightarrow> list_all (\<lambda>(k, r, tr). accept_fresh tr) turns \<Longrightarrow> hmac_ok hmac \<Longrightarrow> md5_ok md5
    \<Longrightarrow> main_ok base (fold (main_turn hmac md5) turns w)"
  by (induction turns arbitrary: w) (auto simp: main_turn_ok)

text \<open>Stopping every TCP server leaves them without a thread.\<close>

lemma stop_tcp_ok:
  assumes "mset fds = B + sum_list (map (all_res \<circ> sw_threads) ss)" "\<forall>s \<in> set ss. tcp_fine fds s" "\<forall>i. stops_ok (stops i)"
    and h: "hmac_ok hmac" "md5_ok md5" and r: "stop_tcp hmac md5 stops i fds ss = (fds', ss')"
  shows "mset fds' = B \<and> list_all (\<lambda>s. sw_threads s = (\<lambda>_. None)) ss'"
  using assms(1,2) r
proof (induction ss arbitrary: fds i fds' ss')
  case (Cons s ss)
  define y where "y = snd (TcpServer_Stop hmac md5 (stops i) (tcp_world fds s))"
  obtain f' r' where rest: "stop_tcp hmac md5 stops (i + 1) (sw_fds y) ss = (f', r')"
    by fastforce
  let ?R = "sum_list (map (all_res \<circ> sw_threads) ss)"
  have "server_ok (B + ?R) (tcp_world fds s)"
    using Cons.prems(1,2) by (simp add: server_ok_world ac_simps comp_def)
  then have y: "mset (sw_fds y) = B + ?R" "sw_threads y = (\<lambda>_. None)"
    using Shutdown_gives_back [OF _ h, of "B + ?R" "tcp_world fds s" "stops i"] assms(3) by (simp_all add: y_def TcpServer_Stop_def)
  have f: "\<forall>s \<in> set ss. tcp_fine (sw_fds y) s"
  proof
    fix t
    assume t: "t \<in> set ss"
    then obtain C where "?R = C + all_res (sw_threads t)"
      using split_server by blast
    then have "mset (sw_fds y) = (B + C) + all_res (sw_threads t)"
      using y(1) by (simp add: ac_simps)
    then show "tcp_fine (sw_fds y) t"
      using fine_moves Cons.prems(2) t by (metis list.set_intros(2))
  qed
  have "fds' = f'" "ss' = y # r'"
    using Cons.prems(3) rest by (auto simp: y_def case_prod_beta)
  then show ?case
    using Cons.IH [OF y(1) f rest] y(2) by simp
qed simp

lemma destroy_udp_ok: "mset fds = mset base + sum_list (map udp_res svs) \<Longrightarrow> mset (destroy_udp fds svs) = mset base"
proof (induction svs arbitrary: fds)
  case (Cons sv svs)
  obtain xs where xs: "mset xs = mset base + sum_list (map udp_res svs)"
    using ex_mset by blast
  obtain h f sv' where s: "Server_Shutdown (fds, sv) = (h, f, sv')"
    by (metis surj_pair)
  have "accounted xs (fds, sv)"
    using Cons.prems xs by (simp add: accounted_def udp_res_def [of sv] ac_simps)
  from Server_Shutdown_closed(2) [OF this] show ?case
    using Cons.IH xs s by (simp add: closed_down_def)
qed simp

lemma stopped_nothing: "list_all (\<lambda>s. sw_threads s = (\<lambda>_. None)) ss \<Longrightarrow>
    sum_list (map (all_res \<circ> sw_threads) ss) = {#} \<and> (\<forall>s \<in> set ss. tcp_fine fds s)"
  by (induction ss) (auto simp: all_res_def res_of_def tcp_fine_def)

lemma stop_and_destroy:
  assumes ok: "main_ok (mset base) w" and s: "\<forall>i. stops_ok (stops i)" and h: "hmac_ok hmac" "md5_ok md5"
  shows "mset (destroy_servers hmac md5 stops (stop_servers hmac md5 stops w)) = mset base"
proof -
  let ?u = "mset base + sum_list (map udp_res (mw_udpServers w))"
  obtain fds ss where t: "stop_tcp hmac md5 stops 0 (mw_fds w) (mw_tcpServers w) = (fds, ss)"
    by fastforce
  obtain fds2 ss2 where t2: "stop_tcp hmac md5 stops 0 fds ss = (fds2, ss2)"
    by fastforce
  have a: "mset fds = ?u \<and> list_all (\<lambda>s. sw_threads s = (\<lambda>_. None)) ss"
    using stop_tcp_ok [OF _ _ s h t, of ?u] ok by (simp add: main_ok_def)
  then have b: "mset fds2 = ?u"
    using stop_tcp_ok [OF _ _ s h t2, of ?u] stopped_nothing [of ss fds] by simp
  have "udp_res (snd (Server_Stop sv)) = udp_res sv" for sv
    by (simp add: udp_res_def Server_Stop_stopped(3))
  then have "map udp_res (map (\<lambda>sv. snd (Server_Stop sv)) (mw_udpServers w)) = map udp_res (mw_udpServers w)"
    by simp
  then have "mset (destroy_udp fds2 (map (\<lambda>sv. snd (Server_Stop sv)) (mw_udpServers w))) = mset base"
    using b destroy_udp_ok by presburger
  then show ?thesis
    using t t2 by (simp add: destroy_servers_def stop_servers_def Let_def)
qed

text \<open>C23: the program gives back every descriptor it opened, whatever the arguments, the host and the clients do: when
  \<open>main\<close> returns, the open descriptors are those of before, whether the arguments are refused, some
  server cannot be configured, initialised or started after others run already, or all of them served their clients
  until the signal came.\<close>

theorem server_main_gives_back:
  assumes "hmac_ok hmac" "md5_ok md5" "\<forall>i. server_calls_ok (calls i)" "\<forall>i. stops_ok (stops i)"
    and "list_all (\<lambda>(k, r, tr). accept_fresh tr) turns"
  shows "mset (snd (server_main hmac md5 getopt remaining read_json calls turns stops fds)) = mset fds"
proof -
  obtain hr args where p: "ParseCommandLineArgs getopt remaining StartupArgs_new = (hr, args)"
    by fastforce
  obtain hr2 v where v: "(if strConfigFile args \<noteq> [] then LoadConfigsFromFile read_json (strConfigFile args) [] else (hr, [args])) = (hr2, v)"
    by fastforce
  obtain hr3 w where w: "start_servers hmac md5 calls 0 v hr2 \<lparr>mw_fds = fds, mw_udpServers = [], mw_tcpServers = []\<rparr> = (hr3, w)"
    by fastforce
  have "main_ok (mset fds) w"
    using start_servers_ok [OF _ assms(3,1,2), of "mset fds" "\<lparr>mw_fds = fds, mw_udpServers = [], mw_tcpServers = []\<rparr>" 0 v hr2] w
    by (simp add: main_ok_def)
  then have "main_ok (mset fds) (if SUCCEEDED hr3 then WaitForAppExitSignal hmac md5 turns w else w)"
    using main_turns_ok assms by (simp add: WaitForAppExitSignal_def)
  then show ?thesis
    using stop_and_destroy assms p v w by (simp add: server_main_def)
qed

definition example_server :: ServerCalls where
  "example_server = \<lparr>mc_host = example_host, mc_udp_sock = example_calls, mc_udp_created = (\<lambda>_. 0), mc_tcp_init = example_tcp_init,
     mc_tcp_created = (\<lambda>_. (0, 0)), mc_tcp_stop = example_stop\<rparr>"

lemma example_server_calls: "server_calls_ok example_server" "stops_ok example_stop"
proof -
  show s: "stops_ok example_stop"
    by (simp add: stops_ok_def example_stop_def)
  have "\<forall>r. init_calls_ok (example_tcp_init r)"
    by (auto simp: init_calls_ok_def example_tcp_init_def example_init_def Let_def)
  moreover have "host_ok example_host"
    by (simp add: host_ok_def adapters_ok_def example_host_def Let_def addr_ok_def CSocketAddress_ipv4_def)
  ultimately show "server_calls_ok example_server"
    using example_server_ok(1) s by (simp add: server_calls_ok_def example_server_def)
qed

text \<open>A TCP server, with a client of its first thread.\<close>

theorem server_main_gives_back_witness:
  "\<exists>fds. server_main example_hmac example_md5 [GetoptOption 8 (Some (chars_of ''tcp''))] [] (\<lambda>_. None) (\<lambda>_. example_server)
     [(0, RolePP, example_tcp_turn)] (\<lambda>_. example_stop) [0, 1, 2] = (0, fds) \<and> mset fds = {#0, 1, 2#}"
proof -
  let ?run = "server_main example_hmac example_md5 [GetoptOption 8 (Some (chars_of ''tcp''))] [] (\<lambda>_. None) (\<lambda>_. example_server)
     [(0, RolePP, example_tcp_turn)] (\<lambda>_. example_stop) [0, 1, 2]"
  have "ParseCommandLineArgs [GetoptOption 8 (Some (chars_of ''tcp''))] [] StartupArgs_new = (S_OK, StartupArgs_new\<lparr>strProtocol := chars_of ''tcp''\<rparr>)"
    by code_simp
  then have "fst ?run = 0"
    by (simp add: server_main_def StartupArgs_new_def case_prod_beta Let_def)
  moreover have "mset (snd ?run) = mset [0, 1, 2]"
    using server_main_gives_back [OF example_hash_ok, of "\<lambda>_. example_server" "\<lambda>_. example_stop" "[(0, RolePP, example_tcp_turn)]"]
      example_server_calls example_tcp_ok(3) by simp
  ultimately show ?thesis
    by (intro exI [of _ "snd ?run"]) (simp add: prod_eq_iff)
qed

text \<open>The alternate port is not used in basic mode, but a primary port that equals its default is refused.\<close>

lemma unused_port_conflict:
  "BuildServerConfigurationFromArgs example_host (StartupArgs_new\<lparr>strPrimaryPort := chars_of ''3479''\<rparr>) (Some CStunServerConfig_new) =
     (E_INVALIDARG, Some CStunServerConfig_new)"
  by code_simp

text \<open>The largest number of connections that is accepted is one that no thread of a TCP server can be initialised with.\<close>

lemma too_many_refused:
  assumes "nMaxConnections config = 100000" "\<not> fMultiThreadedMode config"
  shows "fst (StartTCP hmac md5 c config fds) = E_INVALIDARG"
proof -
  have "fst (TcpThread_Init os l t None 100000 d (thread_world w (CTCPStunThread_new n))) = E_INVALIDARG" for os l t d w n
  proof -
    obtain v where "init_checks l t 100000 (thread_world w (CTCPStunThread_new n)) = (E_INVALIDARG, v)"
      using new_idle [of n] by (simp add: init_checks_def tcp_idle_def)
    then show ?thesis
      by (simp add: TcpThread_Init_def chk_def)
  qed
  then have "fst (init_thread os r l config w) = E_INVALIDARG" for os r l w
    using assms by (simp add: init_thread_def case_prod_beta)
  then have "fst (TcpServer_Initialize hmac md5 s os config (tcp_world fds CTCPServer_new)) = E_INVALIDARG" for s os
    using assms by (simp add: TcpServer_Initialize_def case_prod_beta Let_def CTCPServer_new_def)
  then show ?thesis
    by (simp add: StartTCP_def case_prod_beta Let_def)
qed

lemma most_connections_configured:
  "case BuildServerConfigurationFromArgs example_host (StartupArgs_new\<lparr>strProtocol := chars_of ''tcp'', strMaxConnections := chars_of ''100000''\<rparr>)
      (Some CStunServerConfig_new) of
     (hr, Some config) \<Rightarrow> hr = S_OK \<and> nMaxConnections config = 100000 \<and> \<not> fMultiThreadedMode config
   | _ \<Rightarrow> False"
  by code_simp

end
