(* ===== verification/Spec2Isabelle.thy ===== *)
theory Spec2Isabelle imports NoseConf NoseVpn NoseDevice NosePeerRun NoseNat StunReply StunRateLimiter StunClientNat StunAuth StunServerMain begin

text \<open>
  \<^bold>\<open>nose\<close> is a virtual private network over UDP between peers behind NATs.  The repository has two
  programs: nose itself (C, under src/src), and the STUN server and client (C++, under
  src/stunserver) that it uses to find out which NAT it is behind.

  \<^bold>\<open>The program nose.\<close>  \<open>main\<close> (nose.c) reads a configuration file (conf/conf-reader.c) and starts a
  master peer or a peer.  A master peer (master\_peer.c) is an event loop that answers the requests of
  the peer management protocol (pmp.c) and keeps peers and other master peers in buckets (bucket.c).  A
  peer (peer.c) tests its NAT (stun/nat\_test.c), registers at a master peer, asks it for the other
  peer, greets it, and then carries packets between the tun device (linux/device.c, bsd/device.c,
  net\_config.c) and the other peer (pcp.c, crypt.c), with heartbeats.  The automaton of a connection with its
  packets (dfa.c, vpn.c, auth.c, key\_neg.c) is not called yet.

  \<^bold>\<open>The STUN server and client.\<close>  A message is written by \<open>CStunMessageBuilder\<close> to a \<open>CDataStream\<close> on a
  \<open>CBuffer\<close>, and parsed by \<open>CStunMessageReader\<close>, which keeps its attributes in a \<open>FastHash\<close>.  The server
  (\<open>CStunServer\<close>) opens a \<open>CStunSocket\<close> for each role and runs threads (\<open>CStunSocketThread\<close>) that pass
  datagrams through the \<open>RateLimiter\<close> to \<open>CStunRequestHandler\<close>.  The TCP server (\<open>CTCPServer\<close>) runs threads
  (\<open>CTCPStunThread\<close>) that wait with \<open>CEpoll\<close> or \<open>CPoll\<close>, accept connections, read requests from them
  piece by piece, write the responses, and close connections after a while.  \<open>main\<close> of the server builds a
  configuration from the command line or from each entry of a file, starts a server for it, waits for a
  signal and stops the servers.  The client (\<open>UdpClientLoop\<close>)
  sends what \<open>CStunClientLogic\<close> asks for, until its tests have ended.

  \<^bold>\<open>Theories.\<close>  Those of nose:
  \<^item> \<open>NoseC\<close>: the outcome of a C function (a value, a wait that never ends, or undefined behaviour),
    character arrays, \<open>malloc\<close>, byte order; \<open>NoseInet\<close>: \<open>inet_ntoa\<close> and \<open>inet_addr\<close>; \<open>NoseUtils\<close>: utils.c.
  \<^item> \<open>NoseBucket\<close>: bucket.c.  \<open>bucket_ok\<close> is kept by every operation; additions to a bucket as a list of
    names, up to the 256th, which never returns.
  \<^item> \<open>NosePmp\<close>: pmp.c.  A struct is a record with its image in memory; each packet is read back.
  \<^item> \<open>NoseUdp\<close>, \<open>NoseMasterPeer\<close>: udp.c and master\_peer.c.  \<open>master_steps\<close> is the relation of its event loop;
    \<open>master_ok\<close> its invariant.
  \<^item> \<open>NosePcp\<close>: pcp.c and crypt.c.  \<open>NosePeer\<close>: peer.c with the relation \<open>peer_steps\<close>, and the tunnel from
    device to device.  \<open>NosePeerRun\<close>: the phases of a peer as an invariant of its event loop.
  \<^item> \<open>NoseNat\<close>: stun/nat\_test.c, with responses as lists of attributes, and the verdicts behind
    each kind of network, which answers the requests that are sent.
  \<^item> \<open>NoseConf\<close>: conf/conf-reader.c and nose.c.  \<open>NoseVpn\<close>: dfa.c, vpn.c, auth.c, key\_neg.c.
    \<open>NoseDevice\<close>: the devices and net\_config.c.

  Those of the STUN server and client:
  \<^item> \<open>NosePrelude\<close>: bytes and words, \<open>HRESULT\<close> codes (common/hresult.h) and the early return of \<open>Chk\<close>
    (common/chkmacros.h).
  \<^item> \<open>StunBuffer\<close>, \<open>StunStream\<close>, \<open>StunHash\<close>: buffer.cpp, datastream.cpp, fasthash.h; the interfaces \<open>byte_sink\<close>,
    \<open>shared_sink\<close>, \<open>keyed_store\<close>, \<open>indexed_store\<close> and \<open>map_store\<close> are locales, interpreted on the model.
  \<^item> \<open>StunTypes\<close>, \<open>StunAddress\<close>, \<open>StunBuilder\<close>, \<open>StunReader\<close>: stuntypes.h, socketaddress.cpp, stunbuilder.cpp,
    stunreader.cpp; \<open>StunExchange\<close>: what is written is read back.
  \<^item> \<open>StunHandler\<close>, \<open>StunReply\<close>: messagehandler.cpp, its specification \<open>reply_spec\<close>, and the reply as a function
    of the bytes of a request.
  \<^item> \<open>StunRateLimiter\<close>: ratelimiter.cpp, refining a map from addresses to records.
  \<^item> \<open>StunSocket\<close>, \<open>StunSocketThread\<close>, \<open>StunServer\<close>: stunsocket.cpp, recvfromex.cpp, stunsocketthread.cpp, server.cpp.
  \<^item> \<open>StunPolling\<close>: polling.cpp; the interface \<open>poll_set\<close> of \<open>IPolling\<close> is a locale, interpreted on both
    implementations, and \<open>CPoll\<close> refines a map from descriptors to flags.
  \<^item> \<open>StunTcpThread\<close>: stunconnection.cpp and the thread of tcpserver.cpp; \<open>StunTcpInv\<close>: its invariant \<open>tcp_inv\<close>
    (tables, pool, descriptors, what is watched), kept by every operation; \<open>StunTcpLife\<close>: from \<open>Init\<close> to \<open>Stop\<close>;
    \<open>StunTcpReply\<close>: a request is answered with what \<open>reply_spec\<close> says, over as many events as the socket needs; \<open>StunTcpServer\<close>: the server.
  \<^item> \<open>StunText\<close>, \<open>StunAuth\<close>: stringhelper.cpp and sampleauthprovider.cpp, with the replies of a server that uses them.
  \<^item> \<open>StunServerArgs\<close>: cmdlineparser.cpp, adapters.cpp, resolvehostname.cpp, and the part of server/main.cpp that makes
    a configuration; \<open>StunServerMain\<close>: \<open>main\<close>, whose servers share the open descriptors.  The turns that the
    threads of a server take while another one is started or stopped are left out.
  \<^item> \<open>StunClientTests\<close> (with the locale \<open>client_test\<close> of the interface \<open>IStunClientTest\<close>), \<open>StunClientLogic\<close>,
    \<open>StunClientMain\<close>, \<open>StunClientNat\<close>: stunclienttests.cpp, stunclientlogic.cpp, the UDP loop of
    clientmain.cpp, and the verdicts that it reaches.

  \<^bold>\<open>How code becomes definitions.\<close>  C++ methods take the object as a record and return a result code with
  the new object; a C function returns an \<open>outcome\<close>.  Pointers are options where the code compares
  them with NULL, arrays are lists of bytes of their length, fields of packets are words, and other integers
  are \<open>int\<close> or \<open>nat\<close>, converted with \<open>as_size\<close> where the code mixes signs.  System calls, the clock, \<open>malloc\<close>,
  uninitialised locals, zlib, AES, SHA, HMAC, MD5, CRC and the calls of mbedtls (a record with one function for each)
  are arguments; where a theorem relies on one of them, its documented behaviour is a hypothesis (\<open>cbc_ok\<close>, \<open>zlib_ok\<close>,
  \<open>mpi_documented\<close> and \<open>curve_documented\<close> for example).  The host is little-endian.  Logging and
  assertions are left out.

  \<^bold>\<open>Bounds.\<close>  Loops are structural recursion or have a measure.  Two loops have fuel: \<open>registry_loop\<close> of a
  peer runs at most four times, which is the fuel it is given, and \<open>UdpClientLoop\<close> is given its turns as a list:
  it has ended when the clock has gone on by the time of all the requests that the client may send, each
  with its timeout and one turn (\<open>client_loop_ends\<close>).

  \<^bold>\<open>Not modelled:\<close> the rest of client/clientmain.cpp (its command line and its TCP loop), logging, the console output,
  signal masks, reference counting, and the test programs.
\<close>

text \<open>C1: however a message is cut into pieces, the parser ends in the state that the bytes
  fed in determine.\<close>

theorem reader_state_of_bytes:
  "MR_GetState (feed (MR_SetAllowLegacyFormat MR_init al) chunks) = spec_state al (concat chunks)"
proof -
  have "reader_ok al ([] @ concat chunks) (feed (MR_SetAllowLegacyFormat MR_init al) chunks)"
    by (intro feed_ok MR_SetAllowLegacyFormat_ok [OF MR_init_ok])
  then show ?thesis
    by (simp add: MR_GetState_def reader_ok_state)
qed

text \<open>C2: a message written attribute by attribute, within the reader's limits (\<open>values_ok\<close>: 30 attributes of at
  most 780 bytes, 800 bytes in all), and read in any pieces, comes back with its class, the low 12 bits
  of its type, its transaction id and, for every attribute type, its last value.\<close>

theorem message_roundtrip:
  assumes "length tid = 16" "values_ok False ads" "cls \<noteq> StunMsgClassInvalidMessageClass"
  shows "\<exists>c. result_bytes (build_message False ty cls tid ads) = Some c \<and>
    (\<forall>chunks. concat chunks = c \<longrightarrow> (let r = feed MR_init chunks in
       MR_GetState r = BodyValidated \<and> MR_GetMessageClass r = cls \<and>
       MR_GetMessageType r = ty AND 0x0fff \<and> MR_GetTransactionId r = tid \<and>
       (\<forall>t. MR_GetStringAttributeByType r t 781 =
          (case map_of (rev ads) t of None \<Rightarrow> (E_INVALIDARG, None) | Some d \<Rightarrow> (S_OK, Some d)))))"
proof (intro exI conjI allI impI)
  obtain hr b where b: "build_message False ty cls tid ads = (hr, b)" "\<not> FAILED hr" "mb.at_end False tid b"
    "mb_contents b = be16 (header_type ty cls) @ be16 0 @ tid @ attrs_wire False ads"
    using build_message_ok [OF assms(1,2)] by metis
  then have "rewritten False tid (hr, b) b (be16 (header_type ty cls) @ be16 0 @ tid @ attrs_wire False ads)"
    by (simp add: rewritten_def)
  from result_bytes_ok [OF this assms(1)] b(1)
  show "result_bytes (build_message False ty cls tid ads) = Some (msg_wire False ty cls tid ads)"
    by simp
  fix chunks
  assume c: "concat chunks = msg_wire False ty cls tid ads"
  note p = built_parsed [OF assms(1,2) c assms(3)]
  have len: "length d \<le> 780" if "map_of (rev ads) t = Some d" for t d
    using that assms(2) map_of_SomeD [OF that] by (auto simp: values_ok_def list_all_iff wire_value_def stun_consts)
  have "MR_GetStringAttributeByType (feed MR_init chunks) t 781 =
      (case map_of (rev ads) t of None \<Rightarrow> (E_INVALIDARG, None) | Some d \<Rightarrow> (S_OK, Some d))" for t
    using GetString_parsed [OF p(1), of t 781] last_value_msg_wire [OF assms(1,2), of ty cls t] len [of t]
    by (auto simp: wire_value_def split: option.splits)
  with p(2-5) show "let r = feed MR_init chunks in
       MR_GetState r = BodyValidated \<and> MR_GetMessageClass r = cls \<and>
       MR_GetMessageType r = ty AND 0x0fff \<and> MR_GetTransactionId r = tid \<and>
       (\<forall>t. MR_GetStringAttributeByType r t 781 =
          (case map_of (rev ads) t of None \<Rightarrow> (E_INVALIDARG, None) | Some d \<Rightarrow> (S_OK, Some d)))"
    unfolding Let_def by blast
qed

theorem message_roundtrip_witness:
  "\<exists>c. result_bytes (build_message False StunMsgTypeBinding StunMsgClassRequest example_tid example_attrs) = Some c"
  using message_roundtrip [OF example_ok, of StunMsgClassRequest StunMsgTypeBinding] by blast

text \<open>C3: the request handler refines its specification. For every validated request and any
  authentication provider, \<open>ProcessRequest\<close> succeeds, and the message in the output buffer, its
  socket role and its destination are those of the reply that \<open>reply_spec\<close> decides: a client that
  reads the message finds the response class, the transaction id of the request, the error code
  with nonce and realm, or the two mapped addresses with an integrity attribute it can verify.\<close>

theorem request_refines_spec:
  assumes "call_ok c msgIn msgOut addrs" "MR_GetMessageClass (the (mi_pReader msgIn)) = StunMsgClassRequest"
    and "hmac_ok hmac" "md5_ok md5"
  shows "\<exists>out. ProcessRequest hmac md5 msgIn msgOut (Some addrs) pAuth = (S_OK, out) \<and>
    sends_reply hmac msgIn (reply_spec hmac md5 msgIn addrs pAuth) out"
  using ProcessRequest_request [OF assms(1,2)] reply_sent [OF assms(1,3,4)] by blast

definition example_in :: StunMessageIn where
  "example_in = \<lparr>mi_socketrole = RolePP, mi_addrLocal = CSocketAddress_ipv4 0x0A000001 3478,
     mi_addrRemote = CSocketAddress_ipv4 0x0A000002 5000, mi_pReader = Some (feed MR_init [example_request]),
     mi_fConnectionOriented = False\<rparr>"

definition example_out :: StunMessageOut where
  "example_out = \<lparr>mo_socketrole = RolePP, mo_addrDest = CSocketAddress_default, mo_spBufferOut = Some (CB_new 1500)\<rparr>"

definition example_addrs :: TransportAddressSet where
  "example_addrs role = \<lparr>ta_addr = CSocketAddress_ipv4 (0x0A000001 + ucast (SocketRole_val role)) 3478, ta_fValid = True\<rparr>"

lemma example_call_ok: "call_ok example_request example_in example_out example_addrs"
  using example_parsed(1)
  by (simp add: call_ok_def example_in_def example_out_def addrs_ok_def example_addrs_def stun_consts)

lemma example_reply:
  "reply_spec example_hmac example_md5 example_in example_addrs None = BindingReply RolePP None"
  using example_decisions example_parsed
  by (simp add: reply_spec_def request_refused_def auth_decision_def output_role_def changed_role_def example_in_def)

theorem request_refines_spec_witness:
  "\<exists>out. ProcessRequest example_hmac example_md5 example_in example_out (Some example_addrs) None = (S_OK, out) \<and>
    sends_reply example_hmac example_in (BindingReply RolePP None) out"
  using request_refines_spec [OF example_call_ok _ example_hash_ok, of None] example_parsed(2)
  by (simp add: example_in_def [symmetric] example_reply) (simp add: example_in_def)

text \<open>C4: whatever the request and the provider, the response fits into the caller's buffer, is
  written into that very buffer, and is a message that the reader accepts.\<close>

theorem response_in_place:
  assumes "call_ok c msgIn msgOut addrs" "MR_GetMessageClass (the (mi_pReader msgIn)) = StunMsgClassRequest"
    and "hmac_ok hmac" "md5_ok md5"
  shows "\<exists>out m buf. ProcessRequest hmac md5 msgIn msgOut (Some addrs) pAuth = (S_OK, out) \<and>
    mo_spBufferOut out = Some buf \<and> buffer_ok buf \<and> cb_contents buf = m \<and> 20 \<le> length m \<and> length m \<le> 200 \<and>
    spec_state True m = BodyValidated \<and> msg_tid m = msg_tid c"
proof -
  obtain out where out: "ProcessRequest hmac md5 msgIn msgOut (Some addrs) pAuth = (S_OK, out)"
    "out = answer hmac md5 (authorized hmac md5 (request_checked msgIn msgOut addrs pAuth))"
    using ProcessRequest_request [OF assms(1,2)] by blast
  obtain l ty cls ads where m: "holds_message out (msg_wire l ty cls (msg_tid c) ads)" "values_ok l ads"
    "length (attrs_wire l ads) \<le> 158"
    using answer_shape [OF assms(1,3,4)] out(2) by blast
  have tid: "length (msg_tid c) = 16"
    using assms(1) parsed_tid by (auto simp: call_ok_def)
  obtain buf where buf: "mo_spBufferOut out = Some buf" "buffer_ok buf" "cb_contents buf = msg_wire l ty cls (msg_tid c) ads"
    using m(1) by (auto simp: holds_message_def)
  have "length (attrs_wire l ads) \<le> MAX_STUN_MESSAGE_SIZE"
    using m(3) by (simp add: stun_consts)
  note f = msg_wire_fields [OF tid this, of ty cls]
  show ?thesis
    using out(1) buf f m(3) msg_wire_valid(1) [OF tid m(2), of True] by auto
qed

theorem response_in_place_witness:
  "\<exists>out m buf. ProcessRequest example_hmac example_md5 example_in example_out (Some example_addrs) None = (S_OK, out) \<and>
    mo_spBufferOut out = Some buf \<and> buffer_ok buf \<and> cb_contents buf = m \<and> 20 \<le> length m \<and> length m \<le> 200 \<and>
    spec_state True m = BodyValidated \<and> msg_tid m = msg_tid example_request"
  using response_in_place [OF example_call_ok _ example_hash_ok] example_parsed(2) by (simp add: example_in_def)

text \<open>A message that is not a request gets no response: an error code and an empty buffer.\<close>

theorem no_response_to_non_request:
  assumes "call_ok c msgIn msgOut addrs" "MR_GetMessageClass (the (mi_pReader msgIn)) \<noteq> StunMsgClassRequest"
  shows "\<exists>out buf. ProcessRequest hmac md5 msgIn msgOut (Some addrs) pAuth = (E_FAIL, out) \<and>
    mo_spBufferOut out = Some buf \<and> cb_size buf = 0"
  using ProcessRequest_not_request [OF assms] assms(1) by (auto simp: prepared_out_def call_ok_def)

definition example_response :: "bytes" where
  "example_response = msg_wire False StunMsgTypeBinding StunMsgClassSuccessResponse example_tid example_attrs"

theorem no_response_to_non_request_witness:
  "\<exists>out buf. ProcessRequest example_hmac example_md5
      (example_in\<lparr>mi_pReader := Some (feed MR_init [example_response])\<rparr>) example_out (Some example_addrs) None
      = (E_FAIL, out) \<and> mo_spBufferOut out = Some buf \<and> cb_size buf = 0"
proof -
  note b = built_parsed [OF example_ok, of "[example_response]" StunMsgTypeBinding StunMsgClassSuccessResponse]
  have "call_ok example_response (example_in\<lparr>mi_pReader := Some (feed MR_init [example_response])\<rparr>) example_out example_addrs"
    using b example_call_ok by (simp add: call_ok_def example_response_def addrs_ok_def)
  from no_response_to_non_request [OF this] show ?thesis
    using b by (simp add: example_response_def)
qed

text \<open>C5: a success response names the other address exactly when all four sockets are
  configured and the address opposite in ip and port is known, and then it names that one.\<close>

theorem other_address_reported:
  assumes "call_ok c msgIn msgOut addrs" "MR_GetMessageClass (the (mi_pReader msgIn)) = StunMsgClassRequest"
    and "hmac_ok hmac" "md5_ok md5" "reply_spec hmac md5 msgIn addrs pAuth = BindingReply s key"
  defines "opposite \<equiv> SocketRoleSwapIP (SocketRoleSwapPort (mi_socketrole msgIn))"
  shows "\<exists>out m. ProcessRequest hmac md5 msgIn msgOut (Some addrs) pAuth = (S_OK, out) \<and> holds_message out m \<and>
    client_sees m (\<lambda>r. if ta_fValid (addrs RolePP) \<and> ta_fValid (addrs RolePA) \<and> ta_fValid (addrs RoleAP) \<and>
        ta_fValid (addrs RoleAA) \<and> \<not> IsIPAddressZero (ta_addr (addrs opposite))
      then returns_address (MR_GetOtherAddress r) (ta_addr (addrs opposite)) else MR_GetOtherAddress r = (E_FAIL, None))"
  using binding_response_sent [OF assms(1-5)]
  by (fastforce simp: reported_other_def opposite_def out_to_def client_sees_def Let_def split: if_splits)

theorem other_address_reported_witness:
  "\<exists>out m. ProcessRequest example_hmac example_md5 example_in example_out (Some example_addrs) None = (S_OK, out) \<and>
    holds_message out m \<and> client_sees m (\<lambda>r. returns_address (MR_GetOtherAddress r) (CSocketAddress_ipv4 0x0A000004 3478))"
proof -
  have "\<not> IsIPAddressZero (CSocketAddress_ipv4 0x0A000004 3478)"
  proof -
    have "zero_bytes 4 = [0, 0, 0, 0]"
      by (simp add: zero_bytes_def eval_nat_numeral)
    then show ?thesis
      by (simp add: IsIPAddressZero_def CSocketAddress_ipv4_def be32_def)
  qed
  then show ?thesis
    using other_address_reported [OF example_call_ok _ example_hash_ok example_reply] example_parsed(2)
    by (simp add: example_in_def example_addrs_def)
qed

end
